(* ===== verification/Prelude.thy ===== *)
theory Prelude
  imports Main "HOL-Library.Word"
begin

text \<open>
  The vocabulary every component of the development shares: the ways a C function of the
  program can fail, the sequencing of fallible steps, bytes and byte strings, and the
  generic facts on lists and options that the component proofs use.

  A C function that can crash, hit an \<open>ASSERT\<close>, call \<open>msg(M_FATAL, ...)\<close> or run out of
  memory is a HOL function into \<open>fault + 'a\<close>: \<open>Inl\<close> names the way it stopped, \<open>Inr\<close>
  carries its result.
\<close>

section \<open>Faults and sequencing\<close>

datatype fault =
    MemFault      \<comment> \<open>an access outside every live object: undefined behaviour in C\<close>
  | AssertFail    \<comment> \<open>\<open>ASSERT\<close> of error.h failed\<close>
  | Fatal         \<comment> \<open>\<open>msg(M_FATAL, ...)\<close>: the process exits\<close>
  | DivZero       \<comment> \<open>integer division by zero: undefined behaviour in C\<close>
  | OutOfMemory   \<comment> \<open>\<open>check_malloc_return\<close> saw NULL\<close>
  | OutOfFuel     \<comment> \<open>the bound the model puts on a loop was reached\<close>

definition bindE :: "'e + 'a \<Rightarrow> ('a \<Rightarrow> 'e + 'b) \<Rightarrow> 'e + 'b" where
  "bindE r f = (case r of Inl e \<Rightarrow> Inl e | Inr x \<Rightarrow> f x)"

lemma bindE_simps [simp]:
  "bindE (Inl e) f = Inl e"
  "bindE (Inr x) f = f x"
  by (simp_all add: bindE_def)

lemma bindE_Inr_iff: "bindE r f = Inr y \<longleftrightarrow> (\<exists>x. r = Inr x \<and> f x = Inr y)"
  by (cases r) auto

lemma bindE_InrE:
  assumes "bindE r f = Inr y"
  obtains x where "r = Inr x" and "f x = Inr y"
  using assms by (cases r) auto

lemma bindE_assoc: "bindE (bindE r f) g = bindE r (\<lambda>x. bindE (f x) g)"
  by (cases r) simp_all

lemma bindE_cong [fundef_cong]:
  "r = r' \<Longrightarrow> (\<And>x. r' = Inr x \<Longrightarrow> f x = f' x) \<Longrightarrow> bindE r f = bindE r' f'"
  by (cases r') simp_all

definition c_assert :: "bool \<Rightarrow> fault + unit" where
  "c_assert b = (if b then Inr () else Inl AssertFail)"

lemma c_assert_simps [simp]:
  "c_assert True = Inr ()"
  "c_assert False = Inl AssertFail"
  by (simp_all add: c_assert_def)

lemma c_assert_Inr_iff [simp]: "c_assert b = Inr u \<longleftrightarrow> b"
  by (simp add: c_assert_def)

section \<open>Bytes, C integers, C strings\<close>

type_synonym byte = "8 word"

text \<open>A C string is the list of its bytes before the terminating NUL.\<close>

type_synonym cstr = "byte list"

abbreviation NUL :: byte where "NUL \<equiv> 0"

definition asc :: "string \<Rightarrow> cstr" where
  "asc s = map of_char s"

lemma asc_simps [simp]:
  "asc [] = []"
  "asc (c # s) = of_char c # asc s"
  by (simp_all add: asc_def)

lemma length_asc [simp]: "length (asc s) = length s"
  by (simp add: asc_def)

lemma asc_eq_iff: "asc s = asc t \<longleftrightarrow> s = t"
proof -
  have "inj (of_char :: char \<Rightarrow> byte)"
  proof (rule injI)
    fix c d :: char
    assume "(of_char c :: byte) = of_char d"
    then have "unat (of_char c :: byte) = unat (of_char d :: byte)" by simp
    moreover have "unat (of_char c :: byte) = of_char c" for c
      using of_char_mod_256 [of c, where 'a = nat]
      by (simp add: of_nat_of_char [symmetric, where 'a = byte] unat_of_nat del: of_nat_of_char of_char_mod_256)
    ultimately show "c = d" by simp
  qed
  then show ?thesis by (simp add: asc_def inj_map_eq_map)
qed

text \<open>
  Values of C type \<open>int\<close> are mathematical integers; \<open>c_int\<close> is the range of the
  type. Signed overflow is undefined in C, so where the code adds two of them the development
  proves that the sum stays in range instead of giving it a value. A counter that the code lets
  grow without a bound wraps around (\<open>to_int\<close>), as it does on the machine, and the theorems say
  how far it may be counted.
\<close>

definition c_int :: "int \<Rightarrow> bool" where
  "c_int n \<longleftrightarrow> - (2 ^ 31) \<le> n \<and> n < 2 ^ 31"

text \<open>The value an \<open>int\<close> gets from a number that may be out of its range.\<close>

definition to_int :: "int \<Rightarrow> int" where
  "to_int n = (n + 2 ^ 31) mod 2 ^ 32 - 2 ^ 31"

lemma to_int_id [simp]: "c_int n \<Longrightarrow> to_int n = n"
  by (simp add: to_int_def c_int_def)

lemma to_int_range: "c_int (to_int n)"
  by (simp add: to_int_def c_int_def)

lemma to_int_Suc: "0 \<le> n \<Longrightarrow> n + 1 < 2 ^ 31 \<Longrightarrow> to_int (n + 1) = n + 1"
  by (simp add: c_int_def)

definition is_cstr :: "byte list \<Rightarrow> bool" where
  "is_cstr s \<longleftrightarrow> NUL \<notin> set s"

lemma is_cstr_simps [simp]:
  "is_cstr []"
  "is_cstr (c # s) \<longleftrightarrow> c \<noteq> NUL \<and> is_cstr s"
  "is_cstr (s @ t) \<longleftrightarrow> is_cstr s \<and> is_cstr t"
  by (auto simp: is_cstr_def)

section \<open>Lists\<close>

text \<open>Overwriting a stretch of a list, as \<open>memcpy\<close> does to an array.\<close>

definition overwrite :: "'a list \<Rightarrow> nat \<Rightarrow> 'a list \<Rightarrow> 'a list" where
  "overwrite bs i xs = take i bs @ xs @ drop (i + length xs) bs"

lemma overwrite_Nil [simp]: "overwrite bs i [] = bs"
  by (simp add: overwrite_def)

lemma length_overwrite [simp]:
  "i + length xs \<le> length bs \<Longrightarrow> length (overwrite bs i xs) = length bs"
  by (simp add: overwrite_def)

lemma take_overwrite [simp]: "i + length xs \<le> length bs \<Longrightarrow> j \<le> i \<Longrightarrow> take j (overwrite bs i xs) = take j bs"
  by (simp add: overwrite_def min_def)

lemma drop_overwrite_after [simp]:
  "i + length xs \<le> length bs \<Longrightarrow> i + length xs \<le> j \<Longrightarrow> drop j (overwrite bs i xs) = drop j bs"
  by (simp add: overwrite_def)

lemma slice_overwrite [simp]:
  "i + length xs \<le> length bs \<Longrightarrow> take (length xs) (drop i (overwrite bs i xs)) = xs"
  by (simp add: overwrite_def)

lemma slice_overwrite_before:
  "i + length xs \<le> length bs \<Longrightarrow> j + n \<le> i \<Longrightarrow>
     take n (drop j (overwrite bs i xs)) = take n (drop j bs)"
  by (simp add: overwrite_def take_drop min_def)

lemma slice_overwrite_append:
  "i + length xs \<le> length bs \<Longrightarrow> j + n = i \<Longrightarrow>
     take (n + length xs) (drop j (overwrite bs i xs)) = take n (drop j bs) @ xs"
  by (auto simp: overwrite_def take_drop min_def add.commute)

lemma nth_overwrite:
  "i + length xs \<le> length bs \<Longrightarrow> k < length bs \<Longrightarrow>
     overwrite bs i xs ! k = (if k < i then bs ! k else if k < i + length xs then xs ! (k - i) else bs ! k)"
  by (auto simp: overwrite_def nth_append min_def)

lemma takeWhile_stop: "c \<notin> set xs \<Longrightarrow> takeWhile (\<lambda>b. b \<noteq> c) (xs @ c # ys) = xs"
  by (induction xs) auto

lemma takeWhile_idem: "c \<notin> set xs \<Longrightarrow> takeWhile (\<lambda>b. b \<noteq> c) xs = xs"
  by (induction xs) auto

lemma not_in_takeWhile [simp]: "c \<notin> set (takeWhile (\<lambda>b. b \<noteq> c) xs)"
  by (auto dest: set_takeWhileD)

lemma take_take_append: "take n (take n xs @ ys) = take n (xs @ ys)"
  by (cases "length xs \<le> n") (simp_all add: min_def)

lemma take_add_one: "n < length xs \<Longrightarrow> take (Suc n) xs = take n xs @ [xs ! n]"
  by (simp add: take_Suc_conv_app_nth)

end
