(* ===== verification/Integer.thy ===== *)
theory Integer
  imports Prelude
begin

text \<open>
  The integer helpers of \<open>src/Treiber/lib/integer.h\<close> and \<open>array_mult_safe\<close> of
  \<open>buffer.c\<close>: clamping, the index arithmetic of circular buffers, the power-of-two rounding
  that sizes growing arrays and the overflow-checked allocation size.
\<close>

unbundle bit_operations_syntax

section \<open>Clamping\<close>

definition max_int :: "int \<Rightarrow> int \<Rightarrow> int" where
  "max_int x y = (if x > y then x else y)"

definition min_int :: "int \<Rightarrow> int \<Rightarrow> int" where
  "min_int x y = (if x < y then x else y)"

definition constrain_int :: "int \<Rightarrow> int \<Rightarrow> int \<Rightarrow> int" where
  "constrain_int x lo hi =
     (if lo > hi then lo
      else if x < lo then lo
      else if x > hi then hi
      else x)"

lemma constrain_int_range: "lo \<le> hi \<Longrightarrow> lo \<le> constrain_int x lo hi \<and> constrain_int x lo hi \<le> hi"
  by (simp add: constrain_int_def)

lemma constrain_int_id: "lo \<le> x \<Longrightarrow> x \<le> hi \<Longrightarrow> constrain_int x lo hi = x"
  by (simp add: constrain_int_def)

section \<open>Circular index arithmetic\<close>

definition modulo_subtract :: "int \<Rightarrow> int \<Rightarrow> int \<Rightarrow> fault + int" where
  "modulo_subtract x y md =
     (let d1 = x - y;
          d2 = (if x > y then - md else md) + d1
      in bindE (c_assert (0 \<le> x \<and> x < md \<and> 0 \<le> y \<and> y < md))
           (\<lambda>_. Inr (if \<bar>d1\<bar> > \<bar>d2\<bar> then d2 else d1)))"

definition modulo_add :: "int \<Rightarrow> int \<Rightarrow> int \<Rightarrow> fault + int" where
  "modulo_add x y md =
     (let sum = x + y
      in bindE (c_assert (0 \<le> x \<and> x < md \<and> - md \<le> y \<and> y \<le> md))
           (\<lambda>_. let sum = (if sum \<ge> md then sum - md else sum)
                in Inr (if sum < 0 then sum + md else sum)))"

definition index_verify :: "int \<Rightarrow> int \<Rightarrow> fault + int" where
  "index_verify index sz = (if index < 0 \<or> index \<ge> sz then Inl Fatal else Inr index)"

lemma modulo_subtract_bound:
  "modulo_subtract x y md = Inr d \<Longrightarrow> 2 * \<bar>d\<bar> \<le> md"
  by (auto simp: modulo_subtract_def Let_def bindE_Inr_iff split: if_splits)

lemma modulo_subtract_short:
  "modulo_subtract x y md = Inr d \<Longrightarrow> d = x - y \<or> d = x - y + md \<or> d = x - y - md"
  by (auto simp: modulo_subtract_def Let_def bindE_Inr_iff split: if_splits)

lemma modulo_add_mod:
  assumes "modulo_add x y md = Inr s"
  shows "s = (x + y) mod md" and "0 \<le> s" and "s < md"
proof -
  have r: "0 \<le> x" "x < md" "- md \<le> y" "y \<le> md"
    and s: "s = x + y \<or> s = x + y - md \<or> s = x + y + md" and b: "0 \<le> s" "s < md"
    using assms by (auto simp: modulo_add_def Let_def bindE_Inr_iff split: if_splits)
  from b show "0 \<le> s" "s < md" by simp_all
  have "(x + y) mod md = s mod md" using s by auto
  with b show "s = (x + y) mod md" by simp
qed

text \<open>C1\<close>

lemma modulo_add_subtract:
  assumes "modulo_subtract x y md = Inr d"
  shows "modulo_add y d md = Inr x"
  using assms
  by (auto simp: modulo_subtract_def modulo_add_def Let_def bindE_Inr_iff split: if_splits)

section \<open>Power-of-two growth\<close>

text \<open>
  The loop of \<open>adjust_power_of_2\<close> doubles a 64-bit \<open>size_t\<close> until it reaches its argument;
  the \<open>ASSERT\<close> inside catches the shift that loses the only set bit. The number of doublings
  left before that happens is what decreases.
\<close>

definition doublings_left :: "64 word \<Rightarrow> nat" where
  "doublings_left w = (LEAST k. push_bit k w = 0)"

lemma push_bit_64: "push_bit 64 (w :: 64 word) = 0"
  by (rule bit_word_eqI) (simp add: bit_push_bit_iff)

lemma doublings_left_zero: "push_bit (doublings_left w) w = 0"
  unfolding doublings_left_def by (rule LeastI [of _ 64]) (rule push_bit_64)

lemma doublings_left_decreases:
  assumes "push_bit 1 w \<noteq> 0"
  shows "doublings_left (push_bit 1 w) < doublings_left w"
proof -
  from assms doublings_left_zero [of w] obtain n where n: "doublings_left w = Suc n"
    by (cases "doublings_left w") auto
  then have "push_bit n (push_bit 1 w) = 0"
    using doublings_left_zero [of w] by (simp add: push_bit_push_bit)
  then have "doublings_left (push_bit 1 w) \<le> n"
    unfolding doublings_left_def by (rule Least_le)
  with n show ?thesis by simp
qed

function adjust_loop :: "64 word \<Rightarrow> 64 word \<Rightarrow> fault + 64 word" where
  "adjust_loop u ret =
     (if ret < u
      then (if push_bit 1 ret = 0 then Inl AssertFail else adjust_loop u (push_bit 1 ret))
      else Inr ret)"
  by pat_completeness auto
termination
proof (relation "measure (\<lambda>(u, ret). doublings_left ret)")
  fix u ret :: "64 word"
  assume "push_bit 1 ret \<noteq> 0"
  then show "((u, push_bit 1 ret), (u, ret)) \<in> measure (\<lambda>(u, ret). doublings_left ret)"
    by (simp only: in_measure prod.case) (rule doublings_left_decreases)
qed simp

declare adjust_loop.simps [simp del]

definition adjust_power_of_2 :: "64 word \<Rightarrow> fault + 64 word" where
  "adjust_power_of_2 u = adjust_loop u 1"

lemma unat_double: "k < 63 \<Longrightarrow> push_bit 1 (2 ^ k :: 64 word) = 2 ^ Suc k"
  by (simp add: push_bit_eq_mult)

lemma unat_pow2: "k < 64 \<Longrightarrow> unat (2 ^ k :: 64 word) = 2 ^ k"
proof -
  assume "k < 64"
  then have "(2 :: nat) ^ k < 2 ^ 64" by (intro power_strict_increasing) auto
  moreover have "unat (2 ^ k :: 64 word) = unat (of_nat (2 ^ k) :: 64 word)" by simp
  ultimately show ?thesis by (simp only: unat_of_nat) simp
qed

lemma pow2_ne0: "k < 64 \<Longrightarrow> (2 ^ k :: 64 word) \<noteq> 0"
  by (metis unat_pow2 power_not_zero unat_0 zero_neq_numeral)

text \<open>\<open>n\<close> is the exponent of the least power of two that is at least \<open>u\<close>.\<close>

definition least_pow2 :: "nat \<Rightarrow> nat \<Rightarrow> bool" where
  "least_pow2 u n \<longleftrightarrow> u \<le> 2 ^ n \<and> (\<forall>j < n. 2 ^ j < u)"

lemma adjust_loop_stop:
  "k < 64 \<Longrightarrow> unat u \<le> 2 ^ k \<Longrightarrow> adjust_loop u (2 ^ k) = Inr (2 ^ k)"
  by (subst adjust_loop.simps) (simp add: word_less_nat_alt unat_pow2)

lemma adjust_loop_step:
  "k < 63 \<Longrightarrow> 2 ^ k < unat u \<Longrightarrow> adjust_loop u (2 ^ k) = adjust_loop u (2 ^ Suc k)"
  using pow2_ne0 [of "Suc k"] unat_double [of k]
  by (subst adjust_loop.simps) (simp add: word_less_nat_alt unat_pow2 mult.commute)

lemma adjust_loop_overflow:
  assumes "2 ^ 63 < unat u"
  shows "adjust_loop u (2 ^ 63) = Inl AssertFail"
proof -
  have "push_bit 1 (2 ^ 63 :: 64 word) = 0" by (simp add: push_bit_eq_mult)
  moreover have "2 ^ 63 < u"
    unfolding word_less_nat_alt using assms by simp
  ultimately show ?thesis by (subst adjust_loop.simps) simp
qed

lemma adjust_loop_finds:
  assumes "unat u \<le> 2 ^ 63" and "k \<le> 63" and "\<forall>j < k. 2 ^ j < unat u"
  shows "\<exists>n \<le> 63. adjust_loop u (2 ^ k) = Inr (2 ^ n) \<and> least_pow2 (unat u) n"
  using assms(2,3)
proof (induction "63 - k" arbitrary: k)
  case 0
  then have "k = 63" by simp
  moreover from this 0 assms(1) have "least_pow2 (unat u) k" by (simp only: least_pow2_def simp_thms)
  moreover from \<open>k = 63\<close> assms(1) have "adjust_loop u (2 ^ k) = Inr (2 ^ k)"
    by (intro adjust_loop_stop) simp_all
  ultimately show ?case using "0.prems" by blast
next
  case (Suc d)
  then have k: "k < 63" by simp
  show ?case
  proof (cases "2 ^ k < unat u")
    case True
    then have "\<forall>j < Suc k. 2 ^ j < unat u" using Suc.prems by (simp add: less_Suc_eq)
    then show ?thesis
      unfolding adjust_loop_step [OF k True] using Suc.hyps(1) [of "Suc k"] Suc.hyps(2) k by simp
  next
    case False
    then show ?thesis
      using k Suc.prems by (intro exI [of _ k]) (simp add: adjust_loop_stop least_pow2_def)
  qed
qed

lemma adjust_loop_fails:
  assumes "2 ^ 63 < unat u" and "k \<le> 63"
  shows "adjust_loop u (2 ^ k) = Inl AssertFail"
  using assms(2)
proof (induction "63 - k" arbitrary: k)
  case 0
  then have "k = 63" by simp
  then show ?case using adjust_loop_overflow [OF assms(1)] by (simp only:)
next
  case (Suc d)
  then have k: "k < 63" by simp
  then have "(2 :: nat) ^ k \<le> 2 ^ 63" by (intro power_increasing) auto
  then have "2 ^ k < unat u" using assms(1) by (rule le_less_trans)
  then show ?case
    unfolding adjust_loop_step [OF k \<open>2 ^ k < unat u\<close>] using Suc.hyps(1) [of "Suc k"] Suc.hyps(2) k by simp
qed

lemma adjust_power_of_2_finds:
  "unat u \<le> 2 ^ 63 \<Longrightarrow> \<exists>n \<le> 63. adjust_power_of_2 u = Inr (2 ^ n) \<and> least_pow2 (unat u) n"
  using adjust_loop_finds [of u 0] unfolding adjust_power_of_2_def
  by (simp only: le0 power_0 not_less_zero) blast

lemma adjust_power_of_2_fails: "2 ^ 63 < unat u \<Longrightarrow> adjust_power_of_2 u = Inl AssertFail"
  using adjust_loop_fails [of u 0] unfolding adjust_power_of_2_def by (simp only: le0 power_0)

section \<open>Allocation sizes\<close>

text \<open>
  \<open>array_mult_safe\<close> multiplies in \<open>unsigned long long\<close> and tests the product afterwards;
  the three tests on the factors are what keeps the 64-bit product from wrapping.
\<close>

definition array_mult_safe :: "64 word \<Rightarrow> 64 word \<Rightarrow> 64 word \<Rightarrow> fault + 64 word" where
  "array_mult_safe m1 m2 extra =
     (let limit = 0xFFFFFFFF;
          res = m1 * m2 + extra
      in if m1 > limit \<or> m2 > limit \<or> extra > limit \<or> res > limit
         then Inl Fatal
         else Inr res)"

lemma unat_mult_add_small:
  fixes a b c :: "64 word"
  assumes "unat a < 2 ^ 32" and "unat b < 2 ^ 32" and "unat c < 2 ^ 32"
  shows "unat (a * b + c) = unat a * unat b + unat c"
proof -
  have "unat a * unat b \<le> (2 ^ 32 - 1) * (2 ^ 32 - 1)"
    using assms by (intro mult_le_mono) auto
  with assms have "unat a * unat b + unat c < 2 ^ 64" by simp
  then show ?thesis by (simp add: unat_word_ariths mod_simps)
qed

lemma array_mult_safe_cases:
  "array_mult_safe m1 m2 extra =
     (if unat m1 < 2 ^ 32 \<and> unat m2 < 2 ^ 32 \<and> unat extra < 2 ^ 32 \<and>
         unat m1 * unat m2 + unat extra < 2 ^ 32
      then Inr (of_nat (unat m1 * unat m2 + unat extra)) else Inl Fatal)"
proof -
  have lim: "w > (0xFFFFFFFF :: 64 word) \<longleftrightarrow> \<not> unat w < 2 ^ 32" for w
    by (simp add: word_less_nat_alt) linarith
  show ?thesis
    unfolding array_mult_safe_def Let_def lim
    by (auto simp: unat_mult_add_small)
qed

section \<open>Properties\<close>

text \<open>
  The size computation of the array allocators returns a result exactly when both
  factors, the extra bytes and the mathematical result fit below 2^32, and then it is that
  result: a wrapped product is never returned.
\<close>

lemma array_mult_safe_exact:
  "array_mult_safe m1 m2 extra = Inr r \<longleftrightarrow>
     unat m1 < 2 ^ 32 \<and> unat m2 < 2 ^ 32 \<and> unat extra < 2 ^ 32 \<and>
     unat m1 * unat m2 + unat extra < 2 ^ 32 \<and> unat r = unat m1 * unat m2 + unat extra"
proof -
  have e: "unat (of_nat n :: 64 word) = n" if "n < 2 ^ 32" for n
    using that by (simp add: unat_of_nat)
  have "(of_nat n = r) \<longleftrightarrow> unat r = n" if "n < 2 ^ 32" for n
    using e [OF that] by auto
  then show ?thesis unfolding array_mult_safe_cases
    by (simp only: split: if_split) blast
qed

text \<open>
  Up to 2^63 the loop ends with the least power of two that is not below the argument;
  above 2^63 it ends in the failed assertion instead of looping on zero.
\<close>

lemma adjust_power_of_2_least:
  "if unat u \<le> 2 ^ 63
   then \<exists>n. n \<le> 63 \<and> adjust_power_of_2 u = Inr (2 ^ n) \<and> least_pow2 (unat u) n
   else adjust_power_of_2 u = Inl AssertFail"
  using adjust_power_of_2_finds [of u] adjust_power_of_2_fails [of u] by auto

text \<open>
  The difference of two indices on a circle is a shortest way round (at most half the
  circle), and adding it to the second index leads back to the first.
\<close>

lemma modulo_subtract_shortest:
  assumes "modulo_subtract x y md = Inr d"
  shows "2 * \<bar>d\<bar> \<le> md \<and> modulo_add y d md = Inr x"
  using modulo_subtract_bound [OF assms] modulo_add_subtract [OF assms] by blast

end
