(* ===== verification/C_Strings.thy ===== *)
theory C_Strings
  imports Prelude
begin

text \<open>
  The string routines of \<open>src/Treiber/lib/buffer.c\<close> that do not involve a \<open>struct
  buffer\<close>: the character classes, in-place filtering and trimming, bounded copies. A routine
  that mutates a \<open>char *\<close> works on the whole array, NUL and slack included, so an access
  past its end is \<open>Inl MemFault\<close>; a routine that only reads takes the string by value.
\<close>

unbundle bit_operations_syntax

section \<open>Character arrays\<close>

definition c_string :: "byte list \<Rightarrow> cstr" where
  "c_string arr = takeWhile (\<lambda>b. b \<noteq> NUL) arr"

definition c_strlen :: "byte list \<Rightarrow> fault + nat" where
  "c_strlen arr = (if NUL \<in> set arr then Inr (length (c_string arr)) else Inl MemFault)"

definition arr_get :: "byte list \<Rightarrow> nat \<Rightarrow> fault + byte" where
  "arr_get arr i = (if i < length arr then Inr (arr ! i) else Inl MemFault)"

definition arr_set :: "byte list \<Rightarrow> nat \<Rightarrow> byte \<Rightarrow> fault + byte list" where
  "arr_set arr i b = (if i < length arr then Inr (arr[i := b]) else Inl MemFault)"

lemma arr_set_length: "arr_set arr i b = Inr arr' \<Longrightarrow> length arr' = length arr"
  by (auto simp: arr_set_def split: if_splits)

lemma arr_set_in: "i < length arr \<Longrightarrow> arr_set arr i b = Inr (arr[i := b])"
  by (simp add: arr_set_def)

lemma is_cstr_c_string [simp]: "is_cstr (c_string arr)"
  by (simp add: is_cstr_def c_string_def)

lemma c_string_terminated [simp]: "is_cstr s \<Longrightarrow> c_string (s @ NUL # rest) = s"
  by (simp add: c_string_def is_cstr_def takeWhile_stop)

lemma c_string_Cons0 [simp]: "c_string (NUL # rest) = []"
  by (simp add: c_string_def)

lemma c_strlen_terminated [simp]: "is_cstr s \<Longrightarrow> c_strlen (s @ NUL # rest) = Inr (length s)"
  by (simp add: c_strlen_def)

lemma array_split:
  assumes "NUL \<in> set arr"
  obtains rest where "arr = c_string arr @ NUL # rest"
proof -
  obtain s rest where "arr = s @ NUL # rest" and "NUL \<notin> set s"
    using split_list_first [OF assms] by blast
  then show thesis using that by (simp add: c_string_def takeWhile_stop)
qed

section \<open>Character classes\<close>

text \<open>The predicates of \<open>ctype.h\<close> in the C locale.\<close>

definition isdigit :: "byte \<Rightarrow> bool" where "isdigit c \<longleftrightarrow> 48 \<le> unat c \<and> unat c \<le> 57"
definition isupper :: "byte \<Rightarrow> bool" where "isupper c \<longleftrightarrow> 65 \<le> unat c \<and> unat c \<le> 90"
definition islower :: "byte \<Rightarrow> bool" where "islower c \<longleftrightarrow> 97 \<le> unat c \<and> unat c \<le> 122"
definition isalpha :: "byte \<Rightarrow> bool" where "isalpha c \<longleftrightarrow> isupper c \<or> islower c"
definition isalnum :: "byte \<Rightarrow> bool" where "isalnum c \<longleftrightarrow> isalpha c \<or> isdigit c"
definition isascii :: "byte \<Rightarrow> bool" where "isascii c \<longleftrightarrow> unat c < 128"
definition iscntrl :: "byte \<Rightarrow> bool" where "iscntrl c \<longleftrightarrow> unat c < 32 \<or> unat c = 127"
definition isgraph :: "byte \<Rightarrow> bool" where "isgraph c \<longleftrightarrow> 33 \<le> unat c \<and> unat c \<le> 126"
definition isprint :: "byte \<Rightarrow> bool" where "isprint c \<longleftrightarrow> 32 \<le> unat c \<and> unat c \<le> 126"
definition ispunct :: "byte \<Rightarrow> bool" where "ispunct c \<longleftrightarrow> isgraph c \<and> \<not> isalnum c"
definition isspace :: "byte \<Rightarrow> bool" where "isspace c \<longleftrightarrow> (9 \<le> unat c \<and> unat c \<le> 13) \<or> unat c = 32"
definition isxdigit :: "byte \<Rightarrow> bool" where
  "isxdigit c \<longleftrightarrow> isdigit c \<or> (65 \<le> unat c \<and> unat c \<le> 70) \<or> (97 \<le> unat c \<and> unat c \<le> 102)"

lemmas ctype_defs = isdigit_def isupper_def islower_def isalpha_def isalnum_def isascii_def
  iscntrl_def isgraph_def isprint_def ispunct_def isspace_def isxdigit_def

type_synonym cc_flags = "32 word"

text \<open>The \<open>CC_*\<close> masks of \<open>buffer.h\<close>.\<close>

definition CC_ANY :: cc_flags where "CC_ANY = push_bit 0 1"
definition CC_NULL :: cc_flags where "CC_NULL = push_bit 1 1"
definition CC_ALNUM :: cc_flags where "CC_ALNUM = push_bit 2 1"
definition CC_ALPHA :: cc_flags where "CC_ALPHA = push_bit 3 1"
definition CC_ASCII :: cc_flags where "CC_ASCII = push_bit 4 1"
definition CC_CNTRL :: cc_flags where "CC_CNTRL = push_bit 5 1"
definition CC_DIGIT :: cc_flags where "CC_DIGIT = push_bit 6 1"
definition CC_PRINT :: cc_flags where "CC_PRINT = push_bit 7 1"
definition CC_PUNCT :: cc_flags where "CC_PUNCT = push_bit 8 1"
definition CC_SPACE :: cc_flags where "CC_SPACE = push_bit 9 1"
definition CC_XDIGIT :: cc_flags where "CC_XDIGIT = push_bit 10 1"
definition CC_BLANK :: cc_flags where "CC_BLANK = push_bit 11 1"
definition CC_NEWLINE :: cc_flags where "CC_NEWLINE = push_bit 12 1"
definition CC_CR :: cc_flags where "CC_CR = push_bit 13 1"
definition CC_BACKSLASH :: cc_flags where "CC_BACKSLASH = push_bit 14 1"
definition CC_UNDERBAR :: cc_flags where "CC_UNDERBAR = push_bit 15 1"
definition CC_DASH :: cc_flags where "CC_DASH = push_bit 16 1"
definition CC_DOT :: cc_flags where "CC_DOT = push_bit 17 1"
definition CC_COMMA :: cc_flags where "CC_COMMA = push_bit 18 1"
definition CC_COLON :: cc_flags where "CC_COLON = push_bit 19 1"
definition CC_SLASH :: cc_flags where "CC_SLASH = push_bit 20 1"
definition CC_SINGLE_QUOTE :: cc_flags where "CC_SINGLE_QUOTE = push_bit 21 1"
definition CC_DOUBLE_QUOTE :: cc_flags where "CC_DOUBLE_QUOTE = push_bit 22 1"
definition CC_REVERSE_QUOTE :: cc_flags where "CC_REVERSE_QUOTE = push_bit 23 1"
definition CC_AT :: cc_flags where "CC_AT = push_bit 24 1"
definition CC_EQUAL :: cc_flags where "CC_EQUAL = push_bit 25 1"
definition CC_LESS_THAN :: cc_flags where "CC_LESS_THAN = push_bit 26 1"
definition CC_GREATER_THAN :: cc_flags where "CC_GREATER_THAN = push_bit 27 1"
definition CC_PIPE :: cc_flags where "CC_PIPE = push_bit 28 1"
definition CC_QUESTION_MARK :: cc_flags where "CC_QUESTION_MARK = push_bit 29 1"
definition CC_ASTERISK :: cc_flags where "CC_ASTERISK = push_bit 30 1"
definition CC_NAME :: cc_flags where "CC_NAME = CC_ALNUM OR CC_UNDERBAR"
definition CC_CRLF :: cc_flags where "CC_CRLF = CC_CR OR CC_NEWLINE"

lemmas cc_defs = CC_ANY_def CC_NULL_def CC_ALNUM_def CC_ALPHA_def CC_ASCII_def CC_CNTRL_def
  CC_DIGIT_def CC_PRINT_def CC_PUNCT_def CC_SPACE_def CC_XDIGIT_def CC_BLANK_def CC_NEWLINE_def
  CC_CR_def CC_BACKSLASH_def CC_UNDERBAR_def CC_DASH_def CC_DOT_def CC_COMMA_def CC_COLON_def
  CC_SLASH_def CC_SINGLE_QUOTE_def CC_DOUBLE_QUOTE_def CC_REVERSE_QUOTE_def CC_AT_def CC_EQUAL_def
  CC_LESS_THAN_def CC_GREATER_THAN_def CC_PIPE_def CC_QUESTION_MARK_def CC_ASTERISK_def
  CC_NAME_def CC_CRLF_def

definition char_class :: "byte \<Rightarrow> cc_flags \<Rightarrow> bool" where
  "char_class c flags =
     (if flags = 0 then False
      else if flags AND CC_ANY \<noteq> 0 then True
      else if flags AND CC_NULL \<noteq> 0 \<and> c = 0 then True
      else if flags AND CC_ALNUM \<noteq> 0 \<and> isalnum c then True
      else if flags AND CC_ALPHA \<noteq> 0 \<and> isalpha c then True
      else if flags AND CC_ASCII \<noteq> 0 \<and> isascii c then True
      else if flags AND CC_CNTRL \<noteq> 0 \<and> iscntrl c then True
      else if flags AND CC_DIGIT \<noteq> 0 \<and> isdigit c then True
      else if flags AND CC_PRINT \<noteq> 0 \<and> (c \<ge> 32 \<and> c \<noteq> 127) then True
      else if flags AND CC_PUNCT \<noteq> 0 \<and> ispunct c then True
      else if flags AND CC_SPACE \<noteq> 0 \<and> isspace c then True
      else if flags AND CC_XDIGIT \<noteq> 0 \<and> isxdigit c then True
      else if flags AND CC_BLANK \<noteq> 0 \<and> (c = of_char CHR '' '' \<or> c = 9) then True
      else if flags AND CC_NEWLINE \<noteq> 0 \<and> c = 10 then True
      else if flags AND CC_CR \<noteq> 0 \<and> c = 13 then True
      else if flags AND CC_BACKSLASH \<noteq> 0 \<and> c = 0x5C then True
      else if flags AND CC_UNDERBAR \<noteq> 0 \<and> c = of_char CHR ''_'' then True
      else if flags AND CC_DASH \<noteq> 0 \<and> c = of_char CHR ''-'' then True
      else if flags AND CC_DOT \<noteq> 0 \<and> c = of_char CHR ''.'' then True
      else if flags AND CC_COMMA \<noteq> 0 \<and> c = of_char CHR '','' then True
      else if flags AND CC_COLON \<noteq> 0 \<and> c = of_char CHR '':'' then True
      else if flags AND CC_SLASH \<noteq> 0 \<and> c = of_char CHR ''/'' then True
      else if flags AND CC_SINGLE_QUOTE \<noteq> 0 \<and> c = 0x27 then True
      else if flags AND CC_DOUBLE_QUOTE \<noteq> 0 \<and> c = 0x22 then True
      else if flags AND CC_REVERSE_QUOTE \<noteq> 0 \<and> c = 0x60 then True
      else if flags AND CC_AT \<noteq> 0 \<and> c = of_char CHR ''@'' then True
      else if flags AND CC_EQUAL \<noteq> 0 \<and> c = of_char CHR ''='' then True
      else if flags AND CC_LESS_THAN \<noteq> 0 \<and> c = of_char CHR ''<'' then True
      else if flags AND CC_GREATER_THAN \<noteq> 0 \<and> c = of_char CHR ''>'' then True
      else if flags AND CC_PIPE \<noteq> 0 \<and> c = of_char CHR ''|'' then True
      else if flags AND CC_QUESTION_MARK \<noteq> 0 \<and> c = of_char CHR ''?'' then True
      else if flags AND CC_ASTERISK \<noteq> 0 \<and> c = of_char CHR ''*'' then True
      else False)"

definition char_inc_exc :: "byte \<Rightarrow> cc_flags \<Rightarrow> cc_flags \<Rightarrow> bool" where
  "char_inc_exc c inclusive exclusive \<longleftrightarrow> char_class c inclusive \<and> \<not> char_class c exclusive"

text \<open>
  The specification: a flag set is a set of rows of this table, and a byte is in the class
  when it satisfies the predicate of one of them.
\<close>

definition cc_table :: "(cc_flags \<times> (byte \<Rightarrow> bool)) list" where
  "cc_table =
     [(CC_ANY, \<lambda>_. True),
      (CC_NULL, \<lambda>c. c = 0),
      (CC_ALNUM, isalnum),
      (CC_ALPHA, isalpha),
      (CC_ASCII, isascii),
      (CC_CNTRL, iscntrl),
      (CC_DIGIT, isdigit),
      (CC_PRINT, \<lambda>c. c \<ge> 32 \<and> c \<noteq> 127),
      (CC_PUNCT, ispunct),
      (CC_SPACE, isspace),
      (CC_XDIGIT, isxdigit),
      (CC_BLANK, \<lambda>c. c = of_char CHR '' '' \<or> c = 9),
      (CC_NEWLINE, \<lambda>c. c = 10),
      (CC_CR, \<lambda>c. c = 13),
      (CC_BACKSLASH, \<lambda>c. c = 0x5C),
      (CC_UNDERBAR, \<lambda>c. c = of_char CHR ''_''),
      (CC_DASH, \<lambda>c. c = of_char CHR ''-''),
      (CC_DOT, \<lambda>c. c = of_char CHR ''.''),
      (CC_COMMA, \<lambda>c. c = of_char CHR '',''),
      (CC_COLON, \<lambda>c. c = of_char CHR '':''),
      (CC_SLASH, \<lambda>c. c = of_char CHR ''/''),
      (CC_SINGLE_QUOTE, \<lambda>c. c = 0x27),
      (CC_DOUBLE_QUOTE, \<lambda>c. c = 0x22),
      (CC_REVERSE_QUOTE, \<lambda>c. c = 0x60),
      (CC_AT, \<lambda>c. c = of_char CHR ''@''),
      (CC_EQUAL, \<lambda>c. c = of_char CHR ''=''),
      (CC_LESS_THAN, \<lambda>c. c = of_char CHR ''<''),
      (CC_GREATER_THAN, \<lambda>c. c = of_char CHR ''>''),
      (CC_PIPE, \<lambda>c. c = of_char CHR ''|''),
      (CC_QUESTION_MARK, \<lambda>c. c = of_char CHR ''?''),
      (CC_ASTERISK, \<lambda>c. c = of_char CHR ''*'')]"

definition in_class :: "byte \<Rightarrow> cc_flags \<Rightarrow> bool" where
  "in_class c flags \<longleftrightarrow> (\<exists>(m, P) \<in> set cc_table. flags AND m \<noteq> 0 \<and> P c)"

lemma if_True_else: "(if b then True else x) \<longleftrightarrow> b \<or> x"
  by simp

lemma char_class_in_class: "char_class c flags = in_class c flags"
proof (cases "flags = 0")
  case True
  then show ?thesis by (simp add: char_class_def in_class_def)
next
  case False
  then show ?thesis
    unfolding char_class_def in_class_def cc_table_def if_True_else
    by (simp only: if_False list.set bex_simps prod.case simp_thms)
qed

lemma and_or_ne0: "(a OR b) AND m \<noteq> 0 \<longleftrightarrow> a AND m \<noteq> 0 \<or> b AND m \<noteq> 0" for a b m :: cc_flags
  by (simp add: bit.conj_disj_distrib2 or_eq_0_iff)

lemma char_class_or: "char_class c (a OR b) \<longleftrightarrow> char_class c a \<or> char_class c b"
  unfolding char_class_in_class in_class_def and_or_ne0 by blast

lemma char_class_0 [simp]: "\<not> char_class c 0"
  by (simp add: char_class_def)

text \<open>The classes the program asks for by name.\<close>

lemmas class_eval = char_class_in_class in_class_def cc_table_def cc_defs

lemma char_class_ALNUM: "char_class c CC_ALNUM \<longleftrightarrow> isalnum c"
  unfolding class_eval by simp

lemma char_class_UNDERBAR: "char_class c CC_UNDERBAR \<longleftrightarrow> c = of_char CHR ''_''"
  unfolding class_eval by simp

lemma char_class_CC_NAME: "char_class c CC_NAME \<longleftrightarrow> isalnum c \<or> c = of_char CHR ''_''"
  unfolding CC_NAME_def char_class_or char_class_ALNUM char_class_UNDERBAR ..

lemma char_class_CC_PRINT: "char_class c CC_PRINT \<longleftrightarrow> 32 \<le> c \<and> c \<noteq> 127"
  unfolding class_eval by simp

lemma char_class_CRLF_NULL: "char_class c (CC_CRLF OR CC_NULL) \<longleftrightarrow> c = 13 \<or> c = 10 \<or> c = 0"
  unfolding class_eval by auto

section \<open>Testing and filtering strings\<close>

fun string_class :: "cstr \<Rightarrow> cc_flags \<Rightarrow> cc_flags \<Rightarrow> bool" where
  "string_class [] inclusive exclusive = True"
| "string_class (c # str) inclusive exclusive =
     (if \<not> char_inc_exc c inclusive exclusive then False
      else string_class str inclusive exclusive)"

lemma string_class_all:
  "string_class str inc exc \<longleftrightarrow> (\<forall>c \<in> set str. char_inc_exc c inc exc)"
  by (induction str) auto

text \<open>
  \<open>string_mod\<close> reads with one pointer (\<open>i\<close>) and writes with another (\<open>o'\<close>) into the same
  array.
\<close>

function string_mod_loop ::
  "cc_flags \<Rightarrow> cc_flags \<Rightarrow> byte \<Rightarrow> byte list \<Rightarrow> nat \<Rightarrow> nat \<Rightarrow> bool \<Rightarrow> fault + byte list \<times> bool" where
  "string_mod_loop inclusive exclusive rep arr i o' ret =
     (if i < length arr
      then (let c = arr ! i in
            if c \<noteq> 0
            then (let bad = \<not> char_inc_exc c inclusive exclusive;
                      c' = (if bad then rep else c);
                      ret' = (if bad then False else ret)
                  in if c' \<noteq> 0
                     then bindE (arr_set arr o' c')
                            (\<lambda>arr'. string_mod_loop inclusive exclusive rep arr' (Suc i) (Suc o') ret')
                     else string_mod_loop inclusive exclusive rep arr (Suc i) o' ret')
            else bindE (arr_set arr o' 0) (\<lambda>arr'. Inr (arr', ret)))
      else Inl MemFault)"
  by pat_completeness auto
termination
  by (relation "measure (\<lambda>(_, _, _, arr, i, _, _). length arr - i)") (auto dest: arr_set_length)

declare string_mod_loop.simps [simp del]

definition string_mod :: "byte list \<Rightarrow> cc_flags \<Rightarrow> cc_flags \<Rightarrow> byte \<Rightarrow> fault + byte list \<times> bool" where
  "string_mod arr inclusive exclusive rep = string_mod_loop inclusive exclusive rep arr 0 0 True"

text \<open>The specification: every offending byte is replaced, or dropped when the replacement is NUL.\<close>

definition mod_spec :: "cc_flags \<Rightarrow> cc_flags \<Rightarrow> byte \<Rightarrow> cstr \<Rightarrow> cstr" where
  "mod_spec inc exc rep s =
     concat (map (\<lambda>c. if char_inc_exc c inc exc then [c] else if rep = 0 then [] else [rep]) s)"

lemma mod_spec_simps [simp]:
  "mod_spec inc exc rep [] = []"
  "mod_spec inc exc rep (c # s) =
     (if char_inc_exc c inc exc then [c] else if rep = 0 then [] else [rep]) @ mod_spec inc exc rep s"
  by (simp_all add: mod_spec_def)

lemma length_mod_spec: "length (mod_spec inc exc rep s) \<le> length s"
  by (induction s) auto

lemma is_cstr_mod_spec: "is_cstr s \<Longrightarrow> is_cstr (mod_spec inc exc rep s)"
  by (induction s) auto

lemma mod_spec_clean: "list_all (\<lambda>c. char_inc_exc c inc exc) s \<Longrightarrow> mod_spec inc exc rep s = s"
  by (induction s) auto

lemma mod_spec_class:
  "rep = 0 \<or> char_inc_exc rep inc exc \<Longrightarrow> string_class (mod_spec inc exc rep s) inc exc"
  by (induction s) (auto simp: string_class_all)

lemma list_update_gap:
  "(dn @ gap @ c # todo)[length dn := c'] = (dn @ [c']) @ tl (gap @ [c]) @ todo"
  by (cases gap) auto

lemma string_mod_loop_correct:
  assumes "is_cstr todo"
  shows "\<exists>mid. string_mod_loop inc exc rep (dn @ gap @ todo @ NUL # rest)
                 (length (dn @ gap)) (length dn) ret =
               Inr (dn @ mod_spec inc exc rep todo @ NUL # mid @ rest,
                    ret \<and> list_all (\<lambda>c. char_inc_exc c inc exc) todo) \<and>
               length mid + length (mod_spec inc exc rep todo) = length gap + length todo"
  using assms
proof (induction todo arbitrary: dn gap ret)
  case Nil
  have "(dn @ gap @ NUL # rest)[length dn := NUL] = dn @ NUL # tl (gap @ [NUL]) @ rest"
    using list_update_gap [of dn gap NUL rest NUL] by simp
  then show ?case
    by (subst string_mod_loop.simps) (auto simp: arr_set_in nth_append)
next
  case (Cons c todo)
  let ?arr = "dn @ gap @ c # todo @ NUL # rest"
  let ?i = "length (dn @ gap)"
  have c: "?arr ! ?i = c" and ci: "c \<noteq> NUL" and lt: "?i < length ?arr"
    using Cons.prems by (simp_all add: nth_append)
  note step = string_mod_loop.simps [of inc exc rep ?arr ?i "length dn" ret]
  consider (ok) "char_inc_exc c inc exc" | (drop) "\<not> char_inc_exc c inc exc" "rep = 0"
    | (repl) "\<not> char_inc_exc c inc exc" "rep \<noteq> 0" by blast
  then show ?case
  proof cases
    case ok
    then have s1: "string_mod_loop inc exc rep ?arr ?i (length dn) ret =
        string_mod_loop inc exc rep (?arr[length dn := c]) (Suc ?i) (Suc (length dn)) ret"
      using c ci lt step by (simp add: arr_set_in)
    show ?thesis
      using Cons.IH [of "dn @ [c]" "tl (gap @ [c])" ret] Cons.prems s1 ok
      by (cases gap) (auto simp: list_update_append)
  next
    case drop
    then have s1: "string_mod_loop inc exc rep ?arr ?i (length dn) ret =
        string_mod_loop inc exc rep ?arr (Suc ?i) (length dn) False"
      using c ci lt step by simp
    show ?thesis
      using Cons.IH [of dn "gap @ [c]" False] Cons.prems s1 drop by auto
  next
    case repl
    then have s1: "string_mod_loop inc exc rep ?arr ?i (length dn) ret =
        string_mod_loop inc exc rep (?arr[length dn := rep]) (Suc ?i) (Suc (length dn)) False"
      using c ci lt step by (simp add: arr_set_in)
    show ?thesis
      using Cons.IH [of "dn @ [rep]" "tl (gap @ [c])" False] Cons.prems s1 repl
      by (cases gap) (auto simp: list_update_append)
  qed
qed

lemma string_mod_correct:
  assumes "is_cstr s"
  shows "\<exists>mid. string_mod (s @ NUL # rest) inc exc rep =
               Inr (mod_spec inc exc rep s @ NUL # mid @ rest,
                    list_all (\<lambda>c. char_inc_exc c inc exc) s)"
  using string_mod_loop_correct [OF assms, where dn = "[]" and gap = "[]" and ret = True
      and inc = inc and exc = exc and rep = rep and rest = rest]
  by (auto simp: string_mod_def)

text \<open>
  \<open>string_mod_const\<close> filters a fresh copy, so on strings by value it is the filter; a NULL
  string stays NULL. (The copy is what \<open>string_alloc\<close> returns: the string and its NUL.)
\<close>

definition string_mod_const :: "cstr option \<Rightarrow> cc_flags \<Rightarrow> cc_flags \<Rightarrow> byte \<Rightarrow> fault + cstr option" where
  "string_mod_const str inclusive exclusive rep =
     (case str of
        None \<Rightarrow> Inr None
      | Some s \<Rightarrow>
          bindE (string_mod (s @ [NUL]) inclusive exclusive rep)
            (\<lambda>(buf, _). Inr (Some (c_string buf))))"

lemma string_mod_const_Some:
  assumes "is_cstr s"
  shows "string_mod_const (Some s) inc exc rep = Inr (Some (mod_spec inc exc rep s))"
  using string_mod_correct [OF assms, of "[]" inc exc rep]
  by (auto simp: string_mod_const_def is_cstr_mod_spec [OF assms])

lemma string_mod_const_None [simp]: "string_mod_const None inc exc rep = Inr None"
  by (simp add: string_mod_const_def)

section \<open>Trimming\<close>

fun skip_leading_whitespace :: "cstr \<Rightarrow> cstr" where
  "skip_leading_whitespace [] = []"
| "skip_leading_whitespace (c # str) =
     (if \<not> (c = of_char CHR '' '' \<or> c = 9) then c # str else skip_leading_whitespace str)"

lemma skip_leading_whitespace_dropWhile:
  "skip_leading_whitespace s = dropWhile (\<lambda>c. c = of_char CHR '' '' \<or> c = 9) s"
  by (induction s) auto

definition string_null_terminate :: "byte list \<Rightarrow> int \<Rightarrow> int \<Rightarrow> fault + byte list" where
  "string_null_terminate str len cap =
     bindE (c_assert (len \<ge> 0 \<and> len \<le> cap \<and> cap > 0))
       (\<lambda>_. if len < cap then arr_set str (nat len) NUL
            else if len = cap then arr_set str (nat (len - 1)) NUL
            else Inr str)"

text \<open>One pass of the \<open>do\<close> loop of \<open>rm_trailing_chars\<close>: the new array and whether it changed.\<close>

definition rm_trailing_step :: "byte list \<Rightarrow> cstr \<Rightarrow> fault + byte list \<times> bool" where
  "rm_trailing_step str what_to_delete =
     bindE (c_strlen str)
       (\<lambda>len. if len > 0
              then bindE (arr_get str (len - 1))
                     (\<lambda>c. if c \<in> set what_to_delete \<union> {NUL}
                          then bindE (arr_set str (len - 1) NUL) (\<lambda>str'. Inr (str', True))
                          else Inr (str, False))
              else Inr (str, False))"

lemma c_string_update:
  "i < length (c_string str) \<Longrightarrow> c_string (str[i := NUL]) = take i (c_string str)"
proof (induction str arbitrary: i)
  case (Cons b str)
  then show ?case by (cases i) (auto simp: c_string_def split: if_splits)
qed (simp add: c_string_def)

lemma rm_trailing_step_shorter:
  assumes "rm_trailing_step str what = Inr (str', True)"
  shows "length (c_string str') < length (c_string str)"
  using assms
  by (auto simp: rm_trailing_step_def bindE_Inr_iff c_strlen_def arr_set_def c_string_update split: if_splits)

function rm_trailing_chars :: "byte list \<Rightarrow> cstr \<Rightarrow> fault + byte list" where
  "rm_trailing_chars str what_to_delete =
     bindE (rm_trailing_step str what_to_delete)
       (\<lambda>(str', modified). if modified then rm_trailing_chars str' what_to_delete else Inr str')"
  by pat_completeness auto
termination
  by (relation "measure (\<lambda>(str, _). length (c_string str))") (auto dest: rm_trailing_step_shorter)

declare rm_trailing_chars.simps [simp del]

definition chomp :: "byte list \<Rightarrow> fault + byte list" where
  "chomp str = rm_trailing_chars str [13, 10]"

definition rstrip :: "byte set \<Rightarrow> cstr \<Rightarrow> cstr" where
  "rstrip cs s = rev (dropWhile (\<lambda>c. c \<in> cs) (rev s))"

lemma rstrip_snoc [simp]: "rstrip cs (s @ [c]) = (if c \<in> cs then rstrip cs s else s @ [c])"
  by (simp add: rstrip_def)

lemma rstrip_Nil [simp]: "rstrip cs [] = []"
  by (simp add: rstrip_def)

lemma is_cstr_rstrip: "is_cstr s \<Longrightarrow> is_cstr (rstrip cs s)"
  by (induction s rule: rev_induct) auto

lemma rm_trailing_chars_correct:
  assumes "is_cstr s"
  shows "\<exists>tail. rm_trailing_chars (s @ NUL # rest) what =
                Inr (rstrip (set what) s @ NUL # tail @ rest)"
  using assms
proof (induction s arbitrary: rest rule: rev_induct)
  case Nil
  show ?case by (subst rm_trailing_chars.simps) (simp add: rm_trailing_step_def c_strlen_def)
next
  case (snoc c s)
  have len: "c_strlen ((s @ [c]) @ NUL # rest) = Inr (Suc (length s))"
    using c_strlen_terminated [OF snoc.prems] by simp
  have get: "arr_get ((s @ [c]) @ NUL # rest) (length s) = Inr c"
    by (simp add: arr_get_def)
  show ?case
  proof (cases "c \<in> set what")
    case True
    then have "rm_trailing_chars ((s @ [c]) @ NUL # rest) what = rm_trailing_chars (s @ NUL # NUL # rest) what"
      using len get by (subst rm_trailing_chars.simps) (simp add: rm_trailing_step_def arr_set_in)
    with snoc.IH [of "NUL # rest"] snoc.prems True show ?thesis
      by (auto intro: exI [of _ "_ @ [NUL]"])
  next
    case False
    then show ?thesis
      using len get snoc.prems by (subst rm_trailing_chars.simps) (simp add: rm_trailing_step_def)
  qed
qed

lemma chomp_correct:
  assumes "is_cstr s"
  shows "\<exists>tail. chomp (s @ NUL # rest) = Inr (rstrip {13, 10} s @ NUL # tail @ rest)"
  using rm_trailing_chars_correct [OF assms, of rest "[13, 10]"] by (simp add: chomp_def)

section \<open>Smaller helpers\<close>

fun string_replace_loop :: "cstr \<Rightarrow> byte \<Rightarrow> byte \<Rightarrow> cstr" where
  "string_replace_loop [] match rep = []"
| "string_replace_loop (c # str) match rep =
     (if c = match then rep # string_replace_loop str match rep else c # str)"

definition string_replace_leading :: "cstr \<Rightarrow> byte \<Rightarrow> byte \<Rightarrow> fault + cstr" where
  "string_replace_leading str match rep =
     bindE (c_assert (match \<noteq> NUL)) (\<lambda>_. Inr (string_replace_loop str match rep))"

lemma string_replace_loop_spec:
  "string_replace_loop s a b =
     replicate (length (takeWhile (\<lambda>c. c = a) s)) b @ dropWhile (\<lambda>c. c = a) s"
  by (induction s) auto

fun has_digit :: "cstr \<Rightarrow> bool" where
  "has_digit [] = False"
| "has_digit (c # src) = (if isdigit c then True else has_digit src)"

definition strprefix :: "cstr \<Rightarrow> cstr \<Rightarrow> bool" where
  "strprefix str prefix \<longleftrightarrow> take (length prefix) str = prefix"

definition np :: "cstr option \<Rightarrow> cstr" where
  "np str = (case str of Some s \<Rightarrow> s | None \<Rightarrow> asc ''[NULL]'')"

text \<open>A NULL-terminated array of strings is its list of entries; NULL for the array itself.\<close>

fun count_entries :: "cstr option list \<Rightarrow> nat \<Rightarrow> fault + nat" where
  "count_entries [] i = Inl MemFault"
| "count_entries (None # _) i = Inr i"
| "count_entries (Some _ # rest) i = count_entries rest (Suc i)"

definition string_array_len :: "cstr option list option \<Rightarrow> fault + nat" where
  "string_array_len array = (case array of None \<Rightarrow> Inr 0 | Some a \<Rightarrow> count_entries a 0)"

lemma count_entries_correct: "count_entries (map Some xs @ None # rest) i = Inr (i + length xs)"
  by (induction xs arbitrary: i) auto

definition string_clear :: "byte list option \<Rightarrow> fault + byte list option" where
  "string_clear str =
     (case str of
        None \<Rightarrow> Inr None
      | Some arr \<Rightarrow> bindE (c_strlen arr) (\<lambda>n. Inr (Some (overwrite arr 0 (replicate n 0)))))"

text \<open>The bytes \<open>strncpynt\<close> stores at its destination: \<open>strncpy\<close> pads with NULs.\<close>

definition strncpynt_bytes :: "cstr \<Rightarrow> nat \<Rightarrow> byte list" where
  "strncpynt_bytes src maxlen =
     (if maxlen > 0
      then take (maxlen - 1) (src @ replicate (maxlen - 1) NUL) @ [NUL]
      else [])"

lemma length_strncpynt_bytes [simp]: "length (strncpynt_bytes src n) = n"
  by (auto simp: strncpynt_bytes_def min_def)

lemma c_string_strncpynt:
  assumes "is_cstr src" and "n > 0"
  shows "c_string (strncpynt_bytes src n @ rest) = take (n - 1) src"
proof -
  have "is_cstr (take (n - 1) src)" using assms(1) by (auto simp: is_cstr_def dest: in_set_takeD)
  moreover have "\<exists>zs. strncpynt_bytes src n @ rest = take (n - 1) src @ NUL # zs"
    using assms(2)
    by (cases "n - 1 - length src") (auto simp: strncpynt_bytes_def)
  ultimately show ?thesis by auto
qed

text \<open>
  \<open>vsnprintf\<close> of C99 on a destination of \<open>size\<close> bytes: \<open>txt\<close> is the fully expanded output
  (\<open>None\<close> for an encoding error). It stores at most \<open>size - 1\<close> bytes and a NUL and returns
  the length of the expansion.
\<close>

definition vsnprintf_bytes :: "cstr option \<Rightarrow> nat \<Rightarrow> byte list" where
  "vsnprintf_bytes txt sz =
     (case txt of Some t \<Rightarrow> if sz = 0 then [] else take (sz - 1) t @ [NUL] | None \<Rightarrow> [])"

definition vsnprintf_ret :: "cstr option \<Rightarrow> int" where
  "vsnprintf_ret txt = (case txt of Some t \<Rightarrow> int (length t) | None \<Rightarrow> -1)"

definition openvpn_snprintf :: "byte list \<Rightarrow> nat \<Rightarrow> cstr option \<Rightarrow> fault + byte list \<times> bool" where
  "openvpn_snprintf str sz txt =
     (if sz > 0
      then (if length (vsnprintf_bytes txt sz) \<le> length str
            then bindE (arr_set (overwrite str 0 (vsnprintf_bytes txt sz)) (sz - 1) NUL)
                   (\<lambda>str'. Inr (str', vsnprintf_ret txt \<ge> 0 \<and> vsnprintf_ret txt < int sz))
            else Inl MemFault)
      else Inr (str, False))"

section \<open>Properties\<close>

text \<open>
  In-place filtering of a NUL-terminated string: the result has only characters of the
  class (when the replacement is NUL or in the class), is the replaced or thinned-out
  original, nothing behind the terminator is touched, the array keeps its length, and the
  return value tells whether the string was clean.
\<close>

lemma string_mod_sanitises:
  assumes "is_cstr s" and "rep = 0 \<or> char_inc_exc rep inc exc"
  shows "\<exists>arr. string_mod (s @ NUL # rest) inc exc rep = Inr (arr, string_class s inc exc) \<and>
               length arr = length (s @ NUL # rest) \<and> drop (length s + 1) arr = rest \<and>
               c_string arr = mod_spec inc exc rep s \<and> string_class (c_string arr) inc exc"
proof -
  have ok: "string_class s inc exc = list_all (\<lambda>c. char_inc_exc c inc exc) s"
    by (simp add: string_class_all list_all_iff)
  obtain mid where m: "string_mod (s @ NUL # rest) inc exc rep =
      Inr (mod_spec inc exc rep s @ NUL # mid @ rest, string_class s inc exc)"
      and l: "length mid + length (mod_spec inc exc rep s) = length s"
    using string_mod_loop_correct [OF assms(1), where dn = "[]" and gap = "[]" and ret = True and inc = inc and exc = exc and rep = rep and rest = rest]
    by (auto simp: string_mod_def ok)
  have "Suc (length s) - length (mod_spec inc exc rep s) = Suc (length mid)" using l by linarith
  then show ?thesis
    using m l is_cstr_mod_spec [OF assms(1), of inc exc rep] mod_spec_class [OF assms(2), of s]
    by simp
qed

end
