(* ===== verification/C_Memory.thy ===== *)
theory C_Memory
  imports Prelude
begin

text \<open>
  The C heap the program runs on. A memory is a finite supply of numbered blocks, each a
  byte array of fixed length; a pointer is NULL or a block number with a byte offset.
  Every read and write checks that it stays inside a live block, so a buffer overrun, a
  use after \<open>free\<close>, a double \<open>free\<close> or a NULL dereference is the value
  \<open>Inl MemFault\<close> and a theorem that a function returns \<open>Inr\<close> is a memory-safety theorem.

  Two fields stand for what the C standard leaves open: \<open>junk\<close> gives the bytes of a fresh
  \<open>malloc\<close> block and \<open>oom\<close> says which allocation fails. No theorem fixes them.
\<close>

section \<open>Memory and pointers\<close>

datatype ptr = Null | Ptr nat int

record mem =
  blocks :: "nat \<Rightarrow> byte list option"
  nxt :: nat
  junk :: "nat \<Rightarrow> nat \<Rightarrow> byte"
  oom :: "nat \<Rightarrow> bool"

definition empty_mem :: mem where
  "empty_mem = \<lparr>blocks = (\<lambda>_. None), nxt = 0, junk = (\<lambda>_ _. 0xCD), oom = (\<lambda>_. False)\<rparr>"

text \<open>Blocks not yet handed out do not exist.\<close>

definition mem_ok :: "mem \<Rightarrow> bool" where
  "mem_ok m \<longleftrightarrow> (\<forall>k \<ge> nxt m. blocks m k = None)"

lemma mem_ok_empty [simp]: "mem_ok empty_mem"
  by (simp add: mem_ok_def empty_mem_def)

lemma mem_ok_nxt [simp]: "mem_ok m \<Longrightarrow> blocks m (nxt m) = None"
  by (simp add: mem_ok_def)

lemma mem_ok_live: "mem_ok m \<Longrightarrow> blocks m k = Some bs \<Longrightarrow> k < nxt m"
  by (metis leI mem_ok_def option.distinct(1))

fun ptr_add :: "ptr \<Rightarrow> int \<Rightarrow> ptr" where
  "ptr_add Null n = Null"
| "ptr_add (Ptr k i) n = Ptr k (i + n)"

lemma ptr_add_0 [simp]: "ptr_add p 0 = p"
  by (cases p) auto

lemma ptr_add_add [simp]: "ptr_add (ptr_add p a) b = ptr_add p (a + b)"
  by (cases p) auto

lemma ptr_add_Null_iff [simp]: "ptr_add p n = Null \<longleftrightarrow> p = Null"
  by (cases p) auto

section \<open>Reading and writing\<close>

definition read_bytes :: "mem \<Rightarrow> ptr \<Rightarrow> int \<Rightarrow> fault + byte list" where
  "read_bytes m p n =
     (if n = 0 then Inr []
      else case p of
        Null \<Rightarrow> Inl MemFault
      | Ptr k i \<Rightarrow>
          (case blocks m k of
             None \<Rightarrow> Inl MemFault
           | Some bs \<Rightarrow>
               if 0 \<le> i \<and> 0 \<le> n \<and> i + n \<le> int (length bs)
               then Inr (take (nat n) (drop (nat i) bs)) else Inl MemFault))"

definition write_bytes :: "mem \<Rightarrow> ptr \<Rightarrow> byte list \<Rightarrow> fault + mem" where
  "write_bytes m p xs =
     (if xs = [] then Inr m
      else case p of
        Null \<Rightarrow> Inl MemFault
      | Ptr k i \<Rightarrow>
          (case blocks m k of
             None \<Rightarrow> Inl MemFault
           | Some bs \<Rightarrow>
               if 0 \<le> i \<and> i + int (length xs) \<le> int (length bs)
               then Inr (m\<lparr>blocks := (blocks m)(k \<mapsto> overwrite bs (nat i) xs)\<rparr>)
               else Inl MemFault))"

definition load :: "mem \<Rightarrow> ptr \<Rightarrow> fault + byte" where
  "load m p = bindE (read_bytes m p 1) (\<lambda>bs. case bs of b # _ \<Rightarrow> Inr b | [] \<Rightarrow> Inl MemFault)"

definition store :: "mem \<Rightarrow> ptr \<Rightarrow> byte \<Rightarrow> fault + mem" where
  "store m p b = write_bytes m p [b]"

text \<open>\<open>memcpy\<close>: the two ranges must not overlap.\<close>

definition overlap :: "ptr \<Rightarrow> ptr \<Rightarrow> int \<Rightarrow> bool" where
  "overlap p q n = (case (p, q) of (Ptr k i, Ptr l j) \<Rightarrow> k = l \<and> i < j + n \<and> j < i + n | _ \<Rightarrow> False)"

definition c_memcpy :: "mem \<Rightarrow> ptr \<Rightarrow> ptr \<Rightarrow> int \<Rightarrow> fault + mem" where
  "c_memcpy m dst src n =
     (if n = 0 then Inr m
      else if overlap dst src n then Inl MemFault
      else bindE (read_bytes m src n) (\<lambda>bs. write_bytes m dst bs))"

text \<open>\<open>memcmp(p, q, n) == 0\<close>.\<close>

definition c_memeq :: "mem \<Rightarrow> ptr \<Rightarrow> ptr \<Rightarrow> int \<Rightarrow> fault + bool" where
  "c_memeq m p q n =
     bindE (read_bytes m p n) (\<lambda>xs. bindE (read_bytes m q n) (\<lambda>ys. Inr (xs = ys)))"

section \<open>Allocation\<close>

definition new_block :: "mem \<Rightarrow> byte list \<Rightarrow> ptr \<times> mem" where
  "new_block m bs =
     (if oom m (nxt m) then (Null, m\<lparr>nxt := Suc (nxt m)\<rparr>)
      else (Ptr (nxt m) 0, m\<lparr>blocks := (blocks m)(nxt m \<mapsto> bs), nxt := Suc (nxt m)\<rparr>))"

definition c_malloc :: "mem \<Rightarrow> nat \<Rightarrow> ptr \<times> mem" where
  "c_malloc m n = new_block m (map (junk m (nxt m)) [0..<n])"

definition c_calloc :: "mem \<Rightarrow> nat \<Rightarrow> ptr \<times> mem" where
  "c_calloc m n = new_block m (replicate n 0)"

definition c_free :: "mem \<Rightarrow> ptr \<Rightarrow> fault + mem" where
  "c_free m p =
     (case p of
        Null \<Rightarrow> Inr m
      | Ptr k i \<Rightarrow>
          (case blocks m k of
             None \<Rightarrow> Inl MemFault
           | Some _ \<Rightarrow> if i = 0 then Inr (m\<lparr>blocks := (blocks m)(k := None)\<rparr>) else Inl MemFault))"

text \<open>
  An automatic array of a function: a block of its own, which never fails to exist and goes
  away when the function returns.
\<close>

definition c_local :: "mem \<Rightarrow> nat \<Rightarrow> ptr \<times> mem" where
  "c_local m n =
     (Ptr (nxt m) 0, m\<lparr>blocks := (blocks m)(nxt m \<mapsto> map (junk m (nxt m)) [0..<n]), nxt := Suc (nxt m)\<rparr>)"

definition check_malloc_return :: "ptr \<Rightarrow> fault + unit" where
  "check_malloc_return p = (if p = Null then Inl OutOfMemory else Inr ())"

section \<open>Laws\<close>

lemma read_bytes_zero [simp]: "read_bytes m p 0 = Inr []"
  by (simp add: read_bytes_def)

lemma read_bytes_Ptr:
  "blocks m k = Some bs \<Longrightarrow> 0 \<le> i \<Longrightarrow> 0 \<le> n \<Longrightarrow> i + n \<le> int (length bs) \<Longrightarrow>
     read_bytes m (Ptr k i) n = Inr (take (nat n) (drop (nat i) bs))"
  by (simp add: read_bytes_def)

lemma read_bytes_length: "read_bytes m p n = Inr xs \<Longrightarrow> int (length xs) = n"
  by (auto simp: read_bytes_def split: if_splits ptr.splits option.splits)

lemma write_bytes_Nil [simp]: "write_bytes m p [] = Inr m"
  by (simp add: write_bytes_def)

lemma write_bytes_Ptr:
  "blocks m k = Some bs \<Longrightarrow> 0 \<le> i \<Longrightarrow> i + int (length xs) \<le> int (length bs) \<Longrightarrow>
     write_bytes m (Ptr k i) xs = Inr (m\<lparr>blocks := (blocks m)(k \<mapsto> overwrite bs (nat i) xs)\<rparr>)"
  by (auto simp: write_bytes_def fun_upd_idem)

lemma load_Ptr:
  "blocks m k = Some bs \<Longrightarrow> 0 \<le> i \<Longrightarrow> i < int (length bs) \<Longrightarrow> load m (Ptr k i) = Inr (bs ! nat i)"
proof -
  assume a: "blocks m k = Some bs" "0 \<le> i" "i < int (length bs)"
  then have "take 1 (drop (nat i) bs) = [bs ! nat i]"
    by (simp add: Cons_nth_drop_Suc [symmetric] nat_less_iff)
  with a show ?thesis by (simp add: load_def read_bytes_Ptr)
qed

lemma write_bytes_frame:
  assumes "write_bytes m p xs = Inr m'"
  shows "nxt m' = nxt m" and "junk m' = junk m" and "oom m' = oom m"
    and "mem_ok m \<Longrightarrow> mem_ok m'"
  using assms
  by (auto simp: write_bytes_def mem_ok_def split: if_splits ptr.splits option.splits)

lemma write_bytes_other:
  "write_bytes m (Ptr k i) xs = Inr m' \<Longrightarrow> l \<noteq> k \<Longrightarrow> blocks m' l = blocks m l"
  by (auto simp: write_bytes_def split: if_splits option.splits)

lemma write_then_read:
  assumes "write_bytes m p xs = Inr m'"
  shows "read_bytes m' p (int (length xs)) = Inr xs"
  using assms
  by (auto simp: write_bytes_def read_bytes_def nat_add_distrib split: if_splits ptr.splits option.splits)

lemma new_block_Inr:
  "new_block m bs = (Ptr k i, m') \<Longrightarrow>
     k = nxt m \<and> i = 0 \<and> blocks m' k = Some bs \<and> nxt m' = Suc (nxt m)"
  by (auto simp: new_block_def split: if_splits)

lemma new_block_other: "new_block m bs = (p, m') \<Longrightarrow> l \<noteq> nxt m \<Longrightarrow> blocks m' l = blocks m l"
  by (auto simp: new_block_def split: if_splits)

lemma new_block_mem_ok: "new_block m bs = (p, m') \<Longrightarrow> mem_ok m \<Longrightarrow> mem_ok m'"
  by (auto simp: new_block_def mem_ok_def split: if_splits)

lemma check_malloc_return_Inr [simp]: "check_malloc_return p = Inr u \<longleftrightarrow> p \<noteq> Null"
  by (simp add: check_malloc_return_def)

lemma check_malloc_return_Ptr [simp]: "check_malloc_return (Ptr k i) = Inr ()"
  by (simp add: check_malloc_return_def)

lemma check_malloc_return_Null [simp]: "check_malloc_return Null = Inl OutOfMemory"
  by (simp add: check_malloc_return_def)

end
