(* ===== verification/Gc.thy ===== *)
theory Gc
  imports C_Memory
begin

text \<open>
  The garbage-collection arenas of \<open>src/Treiber/lib/buffer.c\<close> and \<open>buffer.h\<close>: every
  \<open>gc_malloc\<close> with an arena links the new block into it, and \<open>gc_free\<close> releases everything.

  The C list threads through a header in front of each block; here an arena is the list of
  its block numbers in link order (head first), and a block number stands both for the header
  and for the memory behind it.
\<close>

section \<open>Arenas\<close>

text \<open>A special entry is an address with the function that frees it (a function number).\<close>

record gc_entry_special =
  free_fnc :: nat
  addr :: ptr

record gc_arena =
  gc_list :: "nat list"
  list_special :: "gc_entry_special list"

definition gc_new :: gc_arena where
  "gc_new = \<lparr>gc_list = [], list_special = []\<rparr>"

definition gc_init :: "gc_arena \<Rightarrow> gc_arena" where
  "gc_init a = a\<lparr>gc_list := [], list_special := []\<rparr>"

definition gc_defined :: "gc_arena \<Rightarrow> bool" where
  "gc_defined a \<longleftrightarrow> gc_list a \<noteq> []"

fun block_of :: "ptr \<Rightarrow> nat option" where
  "block_of Null = None"
| "block_of (Ptr k _) = Some k"

text \<open>\<open>a = None\<close> is the NULL arena: a plain \<open>malloc\<close> the caller has to free.\<close>

definition gc_malloc ::
  "mem \<Rightarrow> nat \<Rightarrow> bool \<Rightarrow> gc_arena option \<Rightarrow> fault + ptr \<times> mem \<times> gc_arena option" where
  "gc_malloc m sz clear a =
     (let (ret, m1) = c_malloc m sz
      in bindE (check_malloc_return ret)
           (\<lambda>_. let a' = (case a of
                            Some ar \<Rightarrow> Some (ar\<lparr>gc_list := (case block_of ret of Some k \<Rightarrow> k # gc_list ar
                                                                        | None \<Rightarrow> gc_list ar)\<rparr>)
                          | None \<Rightarrow> None)
                in bindE (if clear then write_bytes m1 ret (replicate sz 0) else Inr m1)
                     (\<lambda>m2. Inr (ret, m2, a'))))"

fun free_entries :: "mem \<Rightarrow> nat list \<Rightarrow> fault + mem" where
  "free_entries m [] = Inr m"
| "free_entries m (e # es) = bindE (c_free m (Ptr e 0)) (\<lambda>m'. free_entries m' es)"

definition x_gc_free :: "mem \<Rightarrow> gc_arena \<Rightarrow> fault + mem \<times> gc_arena" where
  "x_gc_free m a = bindE (free_entries m (gc_list a)) (\<lambda>m'. Inr (m', a\<lparr>gc_list := []\<rparr>))"

text \<open>
  The free functions of special entries belong to other libraries (\<open>freeaddrinfo\<close>);
  freeing is recorded as the calls made, in order.
\<close>

definition x_gc_freespecial :: "gc_arena \<Rightarrow> (nat \<times> ptr) list \<times> gc_arena" where
  "x_gc_freespecial a = (map (\<lambda>e. (free_fnc e, addr e)) (list_special a), a\<lparr>list_special := []\<rparr>)"

definition gc_addspecial :: "ptr \<Rightarrow> nat \<Rightarrow> gc_arena option \<Rightarrow> fault + gc_arena" where
  "gc_addspecial p free_function a =
     (case a of
        None \<Rightarrow> Inl AssertFail
      | Some ar \<Rightarrow> Inr (ar\<lparr>list_special := \<lparr>free_fnc = free_function, addr = p\<rparr> # list_special ar\<rparr>))"

definition gc_free :: "mem \<Rightarrow> gc_arena \<Rightarrow> fault + mem \<times> gc_arena \<times> (nat \<times> ptr) list" where
  "gc_free m a =
     bindE (if gc_list a \<noteq> [] then x_gc_free m a else Inr (m, a))
       (\<lambda>(m', a'). let (calls, a'') = (if list_special a' \<noteq> [] then x_gc_freespecial a' else ([], a'))
                   in Inr (m', a'', calls))"

definition gc_transfer :: "gc_arena option \<Rightarrow> gc_arena option \<Rightarrow> gc_arena option \<times> gc_arena option" where
  "gc_transfer dest src =
     (case (dest, src) of
        (Some d, Some s) \<Rightarrow>
          (if gc_list s \<noteq> []
           then (Some (d\<lparr>gc_list := gc_list s @ gc_list d\<rparr>), Some (s\<lparr>gc_list := []\<rparr>))
           else (dest, src))
      | _ \<Rightarrow> (dest, src))"

section \<open>Ownership\<close>

text \<open>Every entry of an arena is a live block, and no block is linked twice.\<close>

definition gc_inv :: "mem \<Rightarrow> gc_arena \<Rightarrow> bool" where
  "gc_inv m a \<longleftrightarrow> distinct (gc_list a) \<and> (\<forall>k \<in> set (gc_list a). blocks m k \<noteq> None)"

lemma gc_inv_new [simp]: "gc_inv m gc_new"
  by (simp add: gc_inv_def gc_new_def)

lemma free_entries_ok:
  assumes "distinct ks" and "\<forall>k \<in> set ks. blocks m k \<noteq> None"
  shows "\<exists>m'. free_entries m ks = Inr m' \<and> nxt m' = nxt m \<and>
              blocks m' = (\<lambda>k. if k \<in> set ks then None else blocks m k)"
  using assms
proof (induction ks arbitrary: m)
  case (Cons k ks)
  from Cons.prems obtain bs where "blocks m k = Some bs" by auto
  then have f: "c_free m (Ptr k 0) = Inr (m\<lparr>blocks := (blocks m)(k := None)\<rparr>)"
    by (simp add: c_free_def)
  let ?m1 = "m\<lparr>blocks := (blocks m)(k := None)\<rparr>"
  have d: "distinct ks" and kn: "k \<notin> set ks" using Cons.prems by auto
  have live: "\<forall>l \<in> set ks. blocks ?m1 l \<noteq> None" using Cons.prems(2) kn by auto
  obtain m' where m': "free_entries ?m1 ks = Inr m'" "nxt m' = nxt ?m1"
      "blocks m' = (\<lambda>l. if l \<in> set ks then None else blocks ?m1 l)"
    using Cons.IH [OF d live] by blast
  have "blocks m' = (\<lambda>l. if l \<in> set (k # ks) then None else blocks m l)"
    unfolding m'(3) using kn by (auto simp: fun_eq_iff)
  with f m'(1,2) show ?case by simp
qed simp

lemma gc_free_ok:
  assumes "gc_inv m a"
  shows "\<exists>m'. gc_free m a = Inr (m', gc_init a, map (\<lambda>e. (free_fnc e, addr e)) (list_special a)) \<and>
              nxt m' = nxt m \<and>
              blocks m' = (\<lambda>k. if k \<in> set (gc_list a) then None else blocks m k)"
proof -
  obtain m' where m': "free_entries m (gc_list a) = Inr m'" "nxt m' = nxt m"
      "blocks m' = (\<lambda>k. if k \<in> set (gc_list a) then None else blocks m k)"
    using free_entries_ok assms unfolding gc_inv_def by blast
  have "gc_free m a = Inr (m', gc_init a, map (\<lambda>e. (free_fnc e, addr e)) (list_special a))"
  proof (cases "gc_list a = []")
    case True
    with m' have "m' = m" by simp
    with True show ?thesis
      by (cases a) (simp add: gc_free_def gc_init_def x_gc_freespecial_def)
  next
    case False
    with m' show ?thesis
      by (cases a) (simp add: gc_free_def gc_init_def x_gc_free_def x_gc_freespecial_def)
  qed
  with m'(2,3) show ?thesis by blast
qed

lemma gc_malloc_inv:
  assumes "gc_malloc m sz clear (Some a) = Inr (p, m', a')" and "gc_inv m a" and "mem_ok m"
  shows "\<exists>ar bs. a' = Some ar \<and> gc_inv m' ar \<and> mem_ok m' \<and> p = Ptr (nxt m) 0 \<and>
           gc_list ar = nxt m # gc_list a \<and> list_special ar = list_special a \<and>
           blocks m' = (blocks m)(nxt m \<mapsto> bs) \<and> length bs = sz \<and> (clear \<longrightarrow> bs = replicate sz 0)"
proof -
  from assms(1) have no: "\<not> oom m (nxt m)"
    by (auto simp: gc_malloc_def c_malloc_def new_block_def)
  let ?fresh = "map (junk m (nxt m)) [0..<sz]"
  let ?ar = "a\<lparr>gc_list := nxt m # gc_list a\<rparr>"
  let ?m1 = "m\<lparr>blocks := (blocks m)(nxt m \<mapsto> ?fresh), nxt := Suc (nxt m)\<rparr>"
  have w: "write_bytes ?m1 (Ptr (nxt m) 0) (replicate sz 0) =
      Inr (?m1\<lparr>blocks := (blocks m)(nxt m \<mapsto> replicate sz 0)\<rparr>)"
    by (subst write_bytes_Ptr [where bs = ?fresh]) (simp_all add: overwrite_def)
  have r: "p = Ptr (nxt m) 0 \<and> a' = Some ?ar \<and>
      m' = ?m1\<lparr>blocks := (blocks m)(nxt m \<mapsto> (if clear then replicate sz 0 else ?fresh))\<rparr>"
    using assms(1) no w
    by (auto simp: gc_malloc_def c_malloc_def new_block_def split: if_splits)
  have "nxt m \<notin> set (gc_list a)"
    using assms(2,3) by (auto simp: gc_inv_def)
  with r assms(2,3) show ?thesis
    by (auto simp: gc_inv_def mem_ok_def)
qed

lemma gc_malloc_total:
  assumes "\<not> oom m (nxt m)"
  shows "\<exists>p m' a'. gc_malloc m sz clear a = Inr (p, m', a')"
proof -
  let ?fresh = "map (junk m (nxt m)) [0..<sz]"
  let ?m1 = "m\<lparr>blocks := (blocks m)(nxt m \<mapsto> ?fresh), nxt := Suc (nxt m)\<rparr>"
  have "write_bytes ?m1 (Ptr (nxt m) 0) (replicate sz 0) =
      Inr (?m1\<lparr>blocks := (blocks m)(nxt m \<mapsto> replicate sz 0)\<rparr>)"
    by (subst write_bytes_Ptr [where bs = ?fresh]) (simp_all add: overwrite_def)
  with assms show ?thesis
    by (auto simp: gc_malloc_def c_malloc_def new_block_def)
qed

section \<open>Properties\<close>

text \<open>
  Freeing an arena after an allocation from it never faults (no double free, no free of
  a foreign block), calls the special free functions in list order, and leaves exactly the
  memory without the blocks of the arena; the allocation itself was of a new block.
\<close>

lemma gc_free_after_malloc:
  assumes "gc_inv m a" and "mem_ok m" and "gc_malloc m sz clear (Some a) = Inr (p, m1, a1)"
  shows "\<exists>ar m2. a1 = Some ar \<and> gc_list ar = nxt m # gc_list a \<and> blocks m (nxt m) = None \<and>
           gc_free m1 ar = Inr (m2, gc_init a, map (\<lambda>e. (free_fnc e, addr e)) (list_special a)) \<and>
           blocks m2 = (\<lambda>k. if k \<in> set (gc_list a) then None else blocks m k)"
proof -
  obtain ar bs where ar: "a1 = Some ar" "gc_inv m1 ar" "gc_list ar = nxt m # gc_list a"
      "list_special ar = list_special a" "blocks m1 = (blocks m)(nxt m \<mapsto> bs)"
    using gc_malloc_inv [OF assms(3,1,2)] by blast
  obtain m2 where m2: "gc_free m1 ar = Inr (m2, gc_init ar, map (\<lambda>e. (free_fnc e, addr e)) (list_special ar))"
      "blocks m2 = (\<lambda>k. if k \<in> set (gc_list ar) then None else blocks m1 k)"
    using gc_free_ok [OF ar(2)] by blast
  have "gc_init ar = gc_init a" by (simp add: gc_init_def)
  then show ?thesis using ar m2 assms(2) by (auto simp: fun_eq_iff)
qed

text \<open>Transferring an arena leaves every block with exactly one owner.\<close>

lemma gc_transfer_moves_ownership:
  assumes "gc_inv m d" and "gc_inv m s" and "set (gc_list d) \<inter> set (gc_list s) = {}"
  shows "\<exists>d' s'. gc_transfer (Some d) (Some s) = (Some d', Some s') \<and> gc_inv m d' \<and>
           set (gc_list d') = set (gc_list d) \<union> set (gc_list s) \<and> \<not> gc_defined s' \<and>
           list_special d' = list_special d \<and> list_special s' = list_special s"
  using assms by (auto simp: gc_transfer_def gc_inv_def gc_defined_def)

end
