(* ===== verification/Buffer.thy ===== *)
theory Buffer
  imports Gc Integer
begin

text \<open>
  \<open>struct buffer\<close> of \<open>src/Treiber/lib/buffer.h\<close>: a window of \<open>b_len\<close> content bytes at
  \<open>b_offset\<close> inside \<open>b_capacity\<close> bytes of memory, and the operations that move its two ends.
  Buffers are values that point into a memory, as in C, so two of them can alias
  (\<open>buf_sub\<close>); an operation that touches bytes takes the memory and returns the new one.
\<close>

unbundle bit_operations_syntax

section \<open>The structure\<close>

record buffer =
  b_capacity :: int
  b_offset :: int
  b_len :: int
  b_data :: ptr

definition BUF_SIZE_MAX :: int where "BUF_SIZE_MAX = 1000000"

definition clear_buf :: buffer where
  "clear_buf = \<lparr>b_capacity = 0, b_offset = 0, b_len = 0, b_data = Null\<rparr>"

definition buf_defined :: "buffer \<Rightarrow> bool" where
  "buf_defined buf \<longleftrightarrow> b_data buf \<noteq> Null"

definition buf_valid :: "buffer \<Rightarrow> bool" where
  "buf_valid buf \<longleftrightarrow> b_data buf \<noteq> Null \<and> b_len buf \<ge> 0"

definition buf_bptr :: "buffer \<Rightarrow> ptr" where
  "buf_bptr buf = (if buf_valid buf then ptr_add (b_data buf) (b_offset buf) else Null)"

definition buf_len :: "buffer \<Rightarrow> int" where
  "buf_len buf = (if buf_valid buf then b_len buf else 0)"

definition buf_bend :: "buffer \<Rightarrow> ptr" where
  "buf_bend buf = ptr_add (buf_bptr buf) (buf_len buf)"

definition buf_blast :: "buffer \<Rightarrow> ptr" where
  "buf_blast buf = (if buf_len buf > 0 then ptr_add (buf_bptr buf) (buf_len buf - 1) else Null)"

text \<open>
  \<open>buf_size_valid\<close> takes a \<open>size_t\<close>. Its callers pass an \<open>int\<close>: a negative one is converted
  to at least \<open>2^64 - 2^31\<close> and fails the test.
\<close>

definition size_of_int :: "int \<Rightarrow> int" where
  "size_of_int n = (if n < 0 then n + 2 ^ 64 else n)"

definition buf_size_valid :: "int \<Rightarrow> bool" where
  "buf_size_valid sz \<longleftrightarrow> sz < BUF_SIZE_MAX"

definition buf_size_valid_signed :: "int \<Rightarrow> bool" where
  "buf_size_valid_signed sz \<longleftrightarrow> sz \<ge> - BUF_SIZE_MAX \<and> sz < BUF_SIZE_MAX"

definition buf_reset :: "buffer \<Rightarrow> buffer" where
  "buf_reset buf = buf\<lparr>b_capacity := 0, b_offset := 0, b_len := 0, b_data := Null\<rparr>"

definition buf_reset_len :: "buffer \<Rightarrow> buffer" where
  "buf_reset_len buf = buf\<lparr>b_len := 0, b_offset := 0\<rparr>"

definition buf_init_dowork :: "buffer \<Rightarrow> int \<Rightarrow> buffer \<times> bool" where
  "buf_init_dowork buf off =
     (if off < 0 \<or> off > b_capacity buf \<or> b_data buf = Null then (buf, False)
      else (buf\<lparr>b_len := 0, b_offset := off\<rparr>, True))"

definition buf_set_write :: "mem \<Rightarrow> ptr \<Rightarrow> int \<Rightarrow> fault + buffer \<times> mem" where
  "buf_set_write m p sz =
     (if \<not> buf_size_valid (size_of_int sz) then Inl Fatal
      else bindE (if sz > 0 \<and> p \<noteq> Null then store m p 0 else Inr m)
             (\<lambda>m'. Inr (\<lparr>b_capacity = sz, b_offset = 0, b_len = 0, b_data = p\<rparr>, m')))"

definition buf_set_read :: "ptr \<Rightarrow> int \<Rightarrow> fault + buffer" where
  "buf_set_read p sz =
     (if \<not> buf_size_valid (size_of_int sz) then Inl Fatal
      else Inr \<lparr>b_capacity = sz, b_offset = 0, b_len = sz, b_data = p\<rparr>)"

section \<open>Room at either end\<close>

definition buf_safe :: "buffer \<Rightarrow> int \<Rightarrow> bool" where
  "buf_safe buf len \<longleftrightarrow>
     buf_valid buf \<and> buf_size_valid (size_of_int len) \<and> b_offset buf + b_len buf + len \<le> b_capacity buf"

definition buf_safe_bidir :: "buffer \<Rightarrow> int \<Rightarrow> bool" where
  "buf_safe_bidir buf len =
     (if buf_valid buf \<and> buf_size_valid_signed len
      then (let newlen = b_len buf + len in newlen \<ge> 0 \<and> b_offset buf + newlen \<le> b_capacity buf)
      else False)"

definition buf_forward_capacity :: "buffer \<Rightarrow> int" where
  "buf_forward_capacity buf =
     (if buf_valid buf
      then (let ret = b_capacity buf - (b_offset buf + b_len buf) in if ret < 0 then 0 else ret)
      else 0)"

definition buf_forward_capacity_total :: "buffer \<Rightarrow> int" where
  "buf_forward_capacity_total buf =
     (if buf_valid buf
      then (let ret = b_capacity buf - b_offset buf in if ret < 0 then 0 else ret)
      else 0)"

definition buf_reverse_capacity :: "buffer \<Rightarrow> int" where
  "buf_reverse_capacity buf = (if buf_valid buf then b_offset buf else 0)"

definition buf_inc_len :: "buffer \<Rightarrow> int \<Rightarrow> buffer \<times> bool" where
  "buf_inc_len buf inc =
     (if \<not> buf_safe_bidir buf inc then (buf, False)
      else (buf\<lparr>b_len := b_len buf + inc\<rparr>, True))"

definition buf_prepend :: "buffer \<Rightarrow> int \<Rightarrow> buffer \<times> ptr" where
  "buf_prepend buf sz =
     (if \<not> buf_valid buf \<or> sz < 0 \<or> sz > b_offset buf then (buf, Null)
      else (let buf' = buf\<lparr>b_offset := b_offset buf - sz, b_len := b_len buf + sz\<rparr>
            in (buf', buf_bptr buf')))"

definition buf_advance :: "buffer \<Rightarrow> int \<Rightarrow> buffer \<times> bool" where
  "buf_advance buf sz =
     (if \<not> buf_valid buf \<or> sz < 0 \<or> b_len buf < sz then (buf, False)
      else (buf\<lparr>b_offset := b_offset buf + sz, b_len := b_len buf - sz\<rparr>, True))"

definition buf_write_alloc :: "buffer \<Rightarrow> int \<Rightarrow> buffer \<times> ptr" where
  "buf_write_alloc buf sz =
     (if \<not> buf_safe buf sz then (buf, Null)
      else (buf\<lparr>b_len := b_len buf + sz\<rparr>, ptr_add (buf_bptr buf) (b_len buf)))"

definition buf_write_alloc_prepend :: "buffer \<Rightarrow> int \<Rightarrow> bool \<Rightarrow> buffer \<times> ptr" where
  "buf_write_alloc_prepend buf sz prepend =
     (if prepend then buf_prepend buf sz else buf_write_alloc buf sz)"

definition buf_read_alloc :: "buffer \<Rightarrow> int \<Rightarrow> buffer \<times> ptr" where
  "buf_read_alloc buf sz =
     (if sz < 0 \<or> b_len buf < sz then (buf, Null)
      else (buf\<lparr>b_offset := b_offset buf + sz, b_len := b_len buf - sz\<rparr>, buf_bptr buf))"

text \<open>A sub-buffer shares the memory of its parent.\<close>

definition buf_sub :: "buffer \<Rightarrow> int \<Rightarrow> bool \<Rightarrow> buffer \<times> buffer" where
  "buf_sub buf sz prepend =
     (let (buf', p) = (if prepend then buf_prepend buf sz else buf_write_alloc buf sz)
      in (buf', if p \<noteq> Null then clear_buf\<lparr>b_capacity := sz, b_data := p\<rparr> else clear_buf))"

section \<open>Writing and reading\<close>

text \<open>
  \<open>buf_write\<close> copies from memory; \<open>buf_write_val\<close> is the same function with the source
  bytes in a local object (\<open>&u8\<close>, a string literal), which no buffer can alias.
\<close>

definition buf_write :: "mem \<Rightarrow> buffer \<Rightarrow> ptr \<Rightarrow> int \<Rightarrow> fault + bool \<times> buffer \<times> mem" where
  "buf_write m dest src sz =
     (let (dest', cp) = buf_write_alloc dest sz
      in if cp = Null then Inr (False, dest', m)
         else bindE (c_memcpy m cp src sz) (\<lambda>m'. Inr (True, dest', m')))"

definition buf_write_val :: "mem \<Rightarrow> buffer \<Rightarrow> byte list \<Rightarrow> fault + bool \<times> buffer \<times> mem" where
  "buf_write_val m dest bs =
     (let (dest', cp) = buf_write_alloc dest (int (length bs))
      in if cp = Null then Inr (False, dest', m)
         else bindE (write_bytes m cp bs) (\<lambda>m'. Inr (True, dest', m')))"

definition buf_write_prepend :: "mem \<Rightarrow> buffer \<Rightarrow> ptr \<Rightarrow> int \<Rightarrow> fault + bool \<times> buffer \<times> mem" where
  "buf_write_prepend m dest src sz =
     (let (dest', cp) = buf_prepend dest sz
      in if cp = Null then Inr (False, dest', m)
         else bindE (c_memcpy m cp src sz) (\<lambda>m'. Inr (True, dest', m')))"

text \<open>Network byte order: what \<open>htons\<close>/\<open>htonl\<close> put in memory, on any host.\<close>

definition be16 :: "16 word \<Rightarrow> byte list" where
  "be16 w = [ucast (drop_bit 8 w), ucast w]"

definition be32 :: "32 word \<Rightarrow> byte list" where
  "be32 w = [ucast (drop_bit 24 w), ucast (drop_bit 16 w), ucast (drop_bit 8 w), ucast w]"

definition from_be :: "byte list \<Rightarrow> nat" where
  "from_be bs = foldl (\<lambda>acc b. acc * 256 + unat b) 0 bs"

definition buf_write_u8 :: "mem \<Rightarrow> buffer \<Rightarrow> int \<Rightarrow> fault + bool \<times> buffer \<times> mem" where
  "buf_write_u8 m dest d = buf_write_val m dest [word_of_int d]"

definition buf_write_u16 :: "mem \<Rightarrow> buffer \<Rightarrow> int \<Rightarrow> fault + bool \<times> buffer \<times> mem" where
  "buf_write_u16 m dest d = buf_write_val m dest (be16 (word_of_int d))"

definition buf_write_u32 :: "mem \<Rightarrow> buffer \<Rightarrow> int \<Rightarrow> fault + bool \<times> buffer \<times> mem" where
  "buf_write_u32 m dest d = buf_write_val m dest (be32 (word_of_int d))"

definition buf_copy :: "mem \<Rightarrow> buffer \<Rightarrow> buffer \<Rightarrow> fault + bool \<times> buffer \<times> mem" where
  "buf_copy m dest src = buf_write m dest (buf_bptr src) (buf_len src)"

definition buf_copy_n :: "mem \<Rightarrow> buffer \<Rightarrow> buffer \<Rightarrow> int \<Rightarrow> fault + bool \<times> buffer \<times> buffer \<times> mem" where
  "buf_copy_n m dest src n =
     (let (src', cp) = buf_read_alloc src n
      in if cp = Null then Inr (False, dest, src', m)
         else bindE (buf_write m dest cp n) (\<lambda>(r, dest', m'). Inr (r, dest', src', m')))"

definition buf_copy_range ::
  "mem \<Rightarrow> buffer \<Rightarrow> int \<Rightarrow> buffer \<Rightarrow> int \<Rightarrow> int \<Rightarrow> fault + bool \<times> buffer \<times> mem" where
  "buf_copy_range m dest dest_index src src_index src_len =
     (if src_index < 0 \<or> src_len < 0 \<or> src_index + src_len > b_len src \<or> dest_index < 0 \<or>
         b_offset dest + dest_index + src_len > b_capacity dest
      then Inr (False, dest, m)
      else bindE (c_memcpy m (ptr_add (b_data dest) (b_offset dest + dest_index))
                             (ptr_add (b_data src) (b_offset src + src_index)) src_len)
             (\<lambda>m'. Inr (True,
                        if dest_index + src_len > b_len dest
                        then dest\<lparr>b_len := dest_index + src_len\<rparr> else dest, m')))"

definition buf_copy_excess ::
  "mem \<Rightarrow> buffer \<Rightarrow> buffer \<Rightarrow> int \<Rightarrow> fault + bool \<times> buffer \<times> buffer \<times> mem" where
  "buf_copy_excess m dest src len =
     (if len < 0 then Inr (False, dest, src, m)
      else if b_len src > len
      then (let b = src; src' = src\<lparr>b_len := len\<rparr>; (b', ok) = buf_advance b len
            in if \<not> ok then Inr (False, dest, src', m)
               else bindE (buf_copy m dest b') (\<lambda>(r, dest', m'). Inr (r, dest', src', m')))
      else Inr (True, dest, src, m))"

definition buf_read :: "mem \<Rightarrow> buffer \<Rightarrow> int \<Rightarrow> fault + byte list option \<times> buffer" where
  "buf_read m src sz =
     (let (src', cp) = buf_read_alloc src sz
      in if cp = Null then Inr (None, src')
         else bindE (read_bytes m cp sz) (\<lambda>bs. Inr (Some bs, src')))"

definition buf_read_u8 :: "mem \<Rightarrow> buffer \<Rightarrow> fault + int \<times> buffer" where
  "buf_read_u8 m buf =
     (if buf_len buf < 1 then Inr (-1, buf)
      else bindE (load m (buf_bptr buf)) (\<lambda>ret. Inr (uint ret, fst (buf_advance buf 1))))"

definition buf_read_u16 :: "mem \<Rightarrow> buffer \<Rightarrow> fault + int \<times> buffer" where
  "buf_read_u16 m buf =
     bindE (buf_read m buf 2)
       (\<lambda>(r, buf'). case r of None \<Rightarrow> Inr (-1, buf') | Some bs \<Rightarrow> Inr (int (from_be bs), buf'))"

text \<open>The value, and what \<open>*good\<close> is set to.\<close>

definition buf_read_u32 :: "mem \<Rightarrow> buffer \<Rightarrow> fault + (32 word \<times> bool) \<times> buffer" where
  "buf_read_u32 m buf =
     bindE (buf_read m buf 4)
       (\<lambda>(r, buf'). case r of None \<Rightarrow> Inr ((0, False), buf')
                           | Some bs \<Rightarrow> Inr ((of_nat (from_be bs), True), buf'))"

definition buf_equal :: "mem \<Rightarrow> buffer \<Rightarrow> buffer \<Rightarrow> fault + bool" where
  "buf_equal m a b =
     (if buf_len a = buf_len b then c_memeq m (buf_bptr a) (buf_bptr b) (buf_len a) else Inr False)"

definition buf_string_match :: "mem \<Rightarrow> buffer \<Rightarrow> byte list \<Rightarrow> int \<Rightarrow> fault + bool" where
  "buf_string_match m src match sz =
     (if sz \<noteq> b_len src then Inr False
      else bindE (read_bytes m (buf_bptr src) sz) (\<lambda>xs. Inr (xs = take (nat sz) match)))"

definition buf_string_match_head :: "mem \<Rightarrow> buffer \<Rightarrow> byte list \<Rightarrow> int \<Rightarrow> fault + bool" where
  "buf_string_match_head m src match sz =
     (if sz < 0 \<or> sz > b_len src then Inr False
      else bindE (read_bytes m (buf_bptr src) sz) (\<lambda>xs. Inr (xs = take (nat sz) match)))"

section \<open>Allocation\<close>

definition alloc_buf :: "mem \<Rightarrow> nat \<Rightarrow> fault + buffer \<times> mem" where
  "alloc_buf m sz =
     (if \<not> buf_size_valid (int sz) then Inl Fatal
      else (let (p, m') = c_calloc m sz
            in bindE (check_malloc_return p)
                 (\<lambda>_. Inr (\<lparr>b_capacity = int sz, b_offset = 0, b_len = 0, b_data = p\<rparr>, m'))))"

definition alloc_buf_gc ::
  "mem \<Rightarrow> nat \<Rightarrow> gc_arena option \<Rightarrow> fault + buffer \<times> mem \<times> gc_arena option" where
  "alloc_buf_gc m sz gc =
     (if \<not> buf_size_valid (int sz) then Inl Fatal
      else bindE (gc_malloc m sz False gc)
             (\<lambda>(p, m', gc'). bindE (if sz \<noteq> 0 then store m' p 0 else Inr m')
                (\<lambda>m''. Inr (\<lparr>b_capacity = int sz, b_offset = 0, b_len = 0, b_data = p\<rparr>, m'', gc'))))"

definition clone_buf :: "mem \<Rightarrow> buffer \<Rightarrow> fault + buffer \<times> mem" where
  "clone_buf m buf =
     (let (p, m') = c_malloc m (nat (b_capacity buf));
          ret = \<lparr>b_capacity = b_capacity buf, b_offset = b_offset buf, b_len = b_len buf, b_data = p\<rparr>
      in bindE (check_malloc_return p)
           (\<lambda>_. bindE (c_memcpy m' (buf_bptr ret) (buf_bptr buf) (buf_len buf))
                  (\<lambda>m''. Inr (ret, m''))))"

definition buf_clear :: "mem \<Rightarrow> buffer \<Rightarrow> fault + buffer \<times> mem" where
  "buf_clear m buf =
     bindE (if b_capacity buf > 0
            then write_bytes m (b_data buf) (replicate (nat (b_capacity buf)) 0) else Inr m)
       (\<lambda>m'. Inr (buf\<lparr>b_len := 0, b_offset := 0\<rparr>, m'))"

definition buf_assign :: "mem \<Rightarrow> buffer \<Rightarrow> buffer \<Rightarrow> fault + bool \<times> buffer \<times> mem" where
  "buf_assign m dest src =
     (let (dest', ok) = buf_init_dowork dest (b_offset src)
      in if \<not> ok then Inr (False, dest', m)
         else buf_write m dest' (buf_bptr src) (buf_len src))"

definition free_buf :: "mem \<Rightarrow> buffer \<Rightarrow> fault + buffer \<times> mem" where
  "free_buf m buf =
     bindE (if b_data buf \<noteq> Null then c_free m (b_data buf) else Inr m)
       (\<lambda>m'. Inr (clear_buf, m'))"

text \<open>The search loop of \<open>free_buf_gc\<close>: drop and free the first entry whose memory the buffer has.\<close>

fun gc_unlink :: "mem \<Rightarrow> ptr \<Rightarrow> nat list \<Rightarrow> fault + nat list \<times> mem" where
  "gc_unlink m p [] = Inr ([], m)"
| "gc_unlink m p (e # es) =
     (if Ptr e 0 = p then bindE (c_free m (Ptr e 0)) (\<lambda>m'. Inr (es, m'))
      else bindE (gc_unlink m p es) (\<lambda>(es', m'). Inr (e # es', m')))"

definition free_buf_gc ::
  "mem \<Rightarrow> buffer \<Rightarrow> gc_arena option \<Rightarrow> fault + buffer \<times> mem \<times> gc_arena option" where
  "free_buf_gc m buf gc =
     (case gc of
        None \<Rightarrow> Inr (clear_buf, m, None)
      | Some a \<Rightarrow> bindE (gc_unlink m (b_data buf) (gc_list a))
                   (\<lambda>(es, m'). Inr (clear_buf, m', Some (a\<lparr>gc_list := es\<rparr>))))"

end
