(* ===== verification/Buffer_Laws.thy ===== *)
theory Buffer_Laws
  imports Buffer
begin

text \<open>
  The contract of \<open>struct buffer\<close>: the invariant \<open>buf_inv\<close>, the content a buffer stands for,
  and what each operation of the theory Buffer does to both. The last section states the
  contract as an interface (\<open>byte_window\<close>), which the packet code is verified against.
\<close>

section \<open>Reads and writes of adjacent ranges\<close>

definition room_at :: "mem \<Rightarrow> ptr \<Rightarrow> int \<Rightarrow> bool" where
  "room_at m p n =
     (case p of
        Null \<Rightarrow> False
      | Ptr k i \<Rightarrow> (case blocks m k of None \<Rightarrow> False | Some bs \<Rightarrow> 0 \<le> i \<and> i + n \<le> int (length bs)))"

lemma room_atE:
  assumes "room_at m p n"
  obtains k i bs where "p = Ptr k i" and "blocks m k = Some bs" and "0 \<le> i" and "i + n \<le> int (length bs)"
  using assms by (auto simp: room_at_def split: ptr.splits option.splits)

lemma room_at_Ptr [simp]:
  "blocks m k = Some bs \<Longrightarrow> room_at m (Ptr k i) n \<longleftrightarrow> 0 \<le> i \<and> i + n \<le> int (length bs)"
  by (simp add: room_at_def)

lemma room_at_Null [simp]: "\<not> room_at m Null n"
  by (simp add: room_at_def)

lemma room_at_sub: "room_at m p n \<Longrightarrow> 0 \<le> a \<Longrightarrow> a + j \<le> n \<Longrightarrow> room_at m (ptr_add p a) j"
  by (auto elim!: room_atE)

lemma room_at_smaller: "room_at m p n \<Longrightarrow> j \<le> n \<Longrightarrow> room_at m p j"
  by (auto elim!: room_atE)

lemma room_read:
  assumes "room_at m p n" and "0 \<le> n"
  obtains bs where "read_bytes m p n = Inr bs" and "int (length bs) = n"
proof -
  from assms(1) obtain k i bs where "p = Ptr k i" "blocks m k = Some bs" "0 \<le> i" "i + n \<le> int (length bs)"
    by (rule room_atE)
  with assms(2) have "read_bytes m p n = Inr (take (nat n) (drop (nat i) bs))"
    by (simp add: read_bytes_Ptr)
  then show thesis using that read_bytes_length by blast
qed

lemma room_write:
  assumes "room_at m p (int (length xs))"
  obtains m' where "write_bytes m p xs = Inr m'"
  using assms by (auto elim!: room_atE simp: write_bytes_Ptr)

lemma write_room_at:
  "write_bytes m p xs = Inr m' \<Longrightarrow> room_at m' q n \<longleftrightarrow> room_at m q n"
  by (auto simp: write_bytes_def room_at_def split: if_splits ptr.splits option.splits)

lemma read_bytes_split:
  assumes "read_bytes m p n = Inr bs" and "0 \<le> k" and "k \<le> n"
  shows "read_bytes m p k = Inr (take (nat k) bs)"
    and "read_bytes m (ptr_add p k) (n - k) = Inr (drop (nat k) bs)"
  using assms
  by (auto simp: read_bytes_def min_def nat_add_distrib drop_take nat_diff_distrib add.commute
      split: if_splits ptr.splits option.splits)

lemma write_after_read:
  assumes "read_bytes m p n = Inr ys" and "write_bytes m (ptr_add p n) xs = Inr m'"
  shows "read_bytes m' p (n + int (length xs)) = Inr (ys @ xs)"
proof (cases "xs = []")
  case False
  from assms(2) False obtain k i bs where p: "p = Ptr k i" and b: "blocks m k = Some bs"
      and i: "0 \<le> i + n" "i + n + int (length xs) \<le> int (length bs)"
      and m': "m' = m\<lparr>blocks := (blocks m)(k \<mapsto> overwrite bs (nat (i + n)) xs)\<rparr>"
    by (cases p) (auto simp: write_bytes_def split: if_splits option.splits)
  have n: "0 \<le> n" using read_bytes_length [OF assms(1)] by simp
  show ?thesis
  proof (cases "n = 0")
    case True
    with assms(1) have "ys = []" by simp
    with write_then_read [OF assms(2)] True p show ?thesis by simp
  next
    case n0: False
    with assms(1) p b have i0: "0 \<le> i" and ys: "ys = take (nat n) (drop (nat i) bs)"
      by (auto simp: read_bytes_def split: if_splits)
    have "nat i + nat n = nat (i + n)" using i0 n by simp
    then have "take (nat n + length xs) (drop (nat i) (overwrite bs (nat (i + n)) xs)) = ys @ xs"
      unfolding ys using i by (intro slice_overwrite_append) auto
    moreover have "nat (n + int (length xs)) = nat n + length xs" using n by simp
    ultimately show ?thesis
      using i i0 n by (simp add: p m' read_bytes_Ptr)
  qed
qed (use assms in simp)

lemma write_before_read:
  assumes "read_bytes m (ptr_add p (int (length xs))) n = Inr ys" and "write_bytes m p xs = Inr m'"
  shows "read_bytes m' p (int (length xs) + n) = Inr (xs @ ys)"
proof (cases "xs = []")
  case False
  from assms(2) False obtain k i bs where p: "p = Ptr k i" and b: "blocks m k = Some bs"
      and i: "0 \<le> i" "i + int (length xs) \<le> int (length bs)"
      and m': "m' = m\<lparr>blocks := (blocks m)(k \<mapsto> overwrite bs (nat i) xs)\<rparr>"
    by (cases p) (auto simp: write_bytes_def split: if_splits option.splits)
  have n: "0 \<le> n" using read_bytes_length [OF assms(1)] by simp
  show ?thesis
  proof (cases "n = 0")
    case True
    with assms(1) have "ys = []" by simp
    with write_then_read [OF assms(2)] True show ?thesis by simp
  next
    case n0: False
    with assms(1) p b i have ys: "ys = take (nat n) (drop (nat i + length xs) bs)"
        and l: "i + int (length xs) + n \<le> int (length bs)"
      by (auto simp: read_bytes_def nat_add_distrib split: if_splits)
    have "take (length xs + nat n) (drop (nat i) (overwrite bs (nat i) xs)) = xs @ ys"
      unfolding ys overwrite_def using i by (simp add: add.commute)
    moreover have "nat (int (length xs) + n) = length xs + nat n" using n by simp
    ultimately show ?thesis
      using i l n by (simp add: p m' read_bytes_Ptr)
  qed
qed (use assms in simp)

lemma write_disjoint_read:
  assumes "write_bytes m p xs = Inr m'" and "read_bytes m q n = Inr ys"
    and "\<And>k i j. p = Ptr k i \<Longrightarrow> q = Ptr k j \<Longrightarrow> i + int (length xs) \<le> j \<or> j + n \<le> i"
  shows "read_bytes m' q n = Inr ys"
proof (cases "xs = [] \<or> n = 0")
  case True
  then show ?thesis using assms(1,2) by auto
next
  case False
  then obtain k i bs where p: "p = Ptr k i" and b: "blocks m k = Some bs"
      and i: "0 \<le> i" "i + int (length xs) \<le> int (length bs)"
      and m': "m' = m\<lparr>blocks := (blocks m)(k \<mapsto> overwrite bs (nat i) xs)\<rparr>"
    using assms(1) by (auto simp: write_bytes_def split: if_splits ptr.splits option.splits)
  from False assms(2) obtain l j cs where q: "q = Ptr l j" and c: "blocks m l = Some cs"
      and j: "0 \<le> j" "0 \<le> n" "j + n \<le> int (length cs)" and ys: "ys = take (nat n) (drop (nat j) cs)"
    by (auto simp: read_bytes_def split: if_splits ptr.splits option.splits)
  show ?thesis
  proof (cases "l = k")
    case True
    with b c have cs: "cs = bs" by simp
    have "take (nat n) (drop (nat j) (overwrite bs (nat i) xs)) = ys"
    proof (cases "j + n \<le> i")
      case True
      then show ?thesis unfolding ys cs using i j by (intro slice_overwrite_before) auto
    next
      case False
      then have "i + int (length xs) \<le> j" using assms(3) p q \<open>l = k\<close> by blast
      then show ?thesis unfolding ys cs using i by simp
    qed
    with True cs i j show ?thesis by (simp add: q m' read_bytes_Ptr)
  next
    case False
    with q c j ys show ?thesis by (simp add: m' read_bytes_Ptr)
  qed
qed

section \<open>Invariant and content\<close>

definition buf_inv :: "mem \<Rightarrow> buffer \<Rightarrow> bool" where
  "buf_inv m b \<longleftrightarrow>
     room_at m (b_data b) (b_capacity b) \<and> 0 \<le> b_offset b \<and> 0 \<le> b_len b \<and>
     b_offset b + b_len b \<le> b_capacity b \<and> b_capacity b < BUF_SIZE_MAX"

definition content :: "mem \<Rightarrow> buffer \<Rightarrow> byte list" where
  "content m b = (case read_bytes m (buf_bptr b) (buf_len b) of Inr bs \<Rightarrow> bs | Inl _ \<Rightarrow> [])"

lemma buf_inv_valid: "buf_inv m b \<Longrightarrow> buf_valid b"
  by (auto simp: buf_inv_def buf_valid_def)

lemma buf_inv_ptr: "buf_inv m b \<Longrightarrow> buf_bptr b = ptr_add (b_data b) (b_offset b)"
  by (simp add: buf_bptr_def buf_inv_valid)

lemma buf_inv_len [simp]: "buf_inv m b \<Longrightarrow> buf_len b = b_len b"
  by (simp add: buf_len_def buf_inv_valid)

lemma buf_inv_bptr_Null: "buf_inv m b \<Longrightarrow> buf_bptr b \<noteq> Null"
  by (auto simp: buf_inv_ptr buf_inv_def)

lemma buf_inv_room: "buf_inv m b \<Longrightarrow> room_at m (buf_bptr b) (b_capacity b - b_offset b)"
  unfolding buf_inv_ptr by (auto simp: buf_inv_def intro: room_at_sub)

lemma buf_inv_block: "buf_inv m b \<Longrightarrow> \<exists>k i. b_data b = Ptr k i"
  by (cases "b_data b") (auto simp: buf_inv_def)

lemma read_content:
  assumes "buf_inv m b"
  shows "read_bytes m (buf_bptr b) (b_len b) = Inr (content m b)"
    and "int (length (content m b)) = b_len b"
proof -
  have "room_at m (buf_bptr b) (b_len b)"
    using buf_inv_room [OF assms] assms by (auto simp: buf_inv_def intro: room_at_smaller)
  then obtain bs where "read_bytes m (buf_bptr b) (b_len b) = Inr bs" and "int (length bs) = b_len b"
    using assms by (auto simp: buf_inv_def elim: room_read)
  then show "read_bytes m (buf_bptr b) (b_len b) = Inr (content m b)"
    and "int (length (content m b)) = b_len b"
    using assms by (simp_all add: content_def)
qed

lemma contentI: "buf_inv m b \<Longrightarrow> read_bytes m (buf_bptr b) (b_len b) = Inr bs \<Longrightarrow> content m b = bs"
  by (simp add: content_def)

lemma buf_inv_write: "write_bytes m p xs = Inr m' \<Longrightarrow> buf_inv m' b \<longleftrightarrow> buf_inv m b"
  by (simp add: buf_inv_def write_room_at)

text \<open>
  With a well-formed buffer and an admitted size no sum the code forms leaves the range of \<open>int\<close>.
\<close>

lemma buf_sums_in_range:
  assumes "buf_inv m b" and "buf_size_valid (size_of_int n)" and "c_int n"
  shows "c_int (b_offset b + b_len b)" and "c_int (b_offset b + b_len b + n)"
    and "c_int (b_len b + n)" and "0 \<le> n"
  using assms
  by (auto simp: buf_inv_def buf_size_valid_def size_of_int_def BUF_SIZE_MAX_def c_int_def split: if_splits)

text \<open>The bytes behind the content that a write may use.\<close>

lemma buf_inv_tail_room:
  assumes "buf_inv m b" and "b_offset b + b_len b + n \<le> b_capacity b"
  shows "room_at m (ptr_add (buf_bptr b) (b_len b)) n"
  using room_at_sub [OF buf_inv_room [OF assms(1)], of "b_len b" n] assms
  by (simp add: buf_inv_def)

section \<open>Moving the window\<close>

lemma buf_safe_iff:
  assumes "buf_inv m b" and "0 \<le> n"
  shows "buf_safe b n \<longleftrightarrow> b_offset b + b_len b + n \<le> b_capacity b"
  using assms buf_inv_valid [OF assms(1)]
  by (auto simp: buf_safe_def buf_size_valid_def size_of_int_def buf_inv_def)

lemma buf_safe_neg: "n < 0 \<Longrightarrow> c_int n \<Longrightarrow> \<not> buf_safe b n"
  by (simp add: buf_safe_def buf_size_valid_def size_of_int_def c_int_def BUF_SIZE_MAX_def)

lemma buf_safe_bidir_iff:
  assumes "buf_inv m b"
  shows "buf_safe_bidir b n \<longleftrightarrow> 0 \<le> b_len b + n \<and> b_offset b + b_len b + n \<le> b_capacity b"
  using assms buf_inv_valid [OF assms(1)]
  by (auto simp: buf_safe_bidir_def Let_def buf_size_valid_signed_def buf_inv_def)

lemma buf_forward_capacity_inv:
  "buf_inv m b \<Longrightarrow> buf_forward_capacity b = b_capacity b - (b_offset b + b_len b)"
  by (auto simp: buf_forward_capacity_def Let_def buf_inv_valid buf_inv_def)

lemma buf_inc_len_spec:
  assumes "buf_inv m b"
  shows "buf_inc_len b n =
     (if 0 \<le> b_len b + n \<and> b_offset b + b_len b + n \<le> b_capacity b
      then (b\<lparr>b_len := b_len b + n\<rparr>, True) else (b, False))"
  by (simp add: buf_inc_len_def buf_safe_bidir_iff [OF assms])

lemma buf_inv_b_len:
  "buf_inv m b \<Longrightarrow> 0 \<le> n \<Longrightarrow> b_offset b + n \<le> b_capacity b \<Longrightarrow> buf_inv m (b\<lparr>b_len := n\<rparr>)"
  by (auto simp: buf_inv_def)

lemma content_b_len:
  assumes "buf_inv m b" and "0 \<le> n" and "n \<le> b_len b"
  shows "content m (b\<lparr>b_len := n\<rparr>) = take (nat n) (content m b)"
proof (rule contentI)
  show i: "buf_inv m (b\<lparr>b_len := n\<rparr>)" using assms by (intro buf_inv_b_len) (auto simp: buf_inv_def)
  show "read_bytes m (buf_bptr (b\<lparr>b_len := n\<rparr>)) (b_len (b\<lparr>b_len := n\<rparr>)) = Inr (take (nat n) (content m b))"
    using read_bytes_split(1) [OF read_content(1) [OF assms(1)] assms(2,3)]
    by (simp add: buf_inv_ptr [OF i] buf_inv_ptr [OF assms(1)])
qed

lemma buf_advance_spec:
  assumes "buf_inv m b" and "0 \<le> n"
  shows "n \<le> b_len b \<Longrightarrow> \<exists>b'. buf_advance b n = (b', True) \<and> buf_inv m b' \<and>
            b_data b' = b_data b \<and> b_capacity b' = b_capacity b \<and>
            b_offset b' = b_offset b + n \<and> b_len b' = b_len b - n \<and>
            content m b' = drop (nat n) (content m b)"
    and "b_len b < n \<Longrightarrow> buf_advance b n = (b, False)"
proof -
  assume le: "n \<le> b_len b"
  let ?b = "b\<lparr>b_offset := b_offset b + n, b_len := b_len b - n\<rparr>"
  have i: "buf_inv m ?b" using assms le by (auto simp: buf_inv_def)
  have "read_bytes m (buf_bptr ?b) (b_len ?b) = Inr (drop (nat n) (content m b))"
    using read_bytes_split(2) [OF read_content(1) [OF assms(1)] assms(2) le]
    by (simp add: buf_inv_ptr [OF i] buf_inv_ptr [OF assms(1)])
  then show "\<exists>b'. buf_advance b n = (b', True) \<and> buf_inv m b' \<and>
            b_data b' = b_data b \<and> b_capacity b' = b_capacity b \<and>
            b_offset b' = b_offset b + n \<and> b_len b' = b_len b - n \<and>
            content m b' = drop (nat n) (content m b)"
    using i contentI [OF i] assms le buf_inv_valid [OF assms(1)]
    by (intro exI [of _ ?b]) (simp add: buf_advance_def)
next
  assume "b_len b < n"
  then show "buf_advance b n = (b, False)" by (simp add: buf_advance_def)
qed

lemma buf_read_alloc_advance:
  assumes "buf_inv m b"
  shows "buf_read_alloc b n = (fst (buf_advance b n), if snd (buf_advance b n) then buf_bptr b else Null)"
  using buf_inv_valid [OF assms] by (simp add: buf_read_alloc_def buf_advance_def)

lemma buf_prepend_spec:
  assumes "buf_inv m b" and "0 \<le> n"
  shows "n \<le> b_offset b \<Longrightarrow> \<exists>b'. buf_prepend b n = (b', buf_bptr b') \<and> buf_inv m b' \<and>
            b_offset b' = b_offset b - n \<and> b_len b' = b_len b + n \<and>
            b_data b' = b_data b \<and> b_capacity b' = b_capacity b \<and>
            buf_bptr b = ptr_add (buf_bptr b') n \<and> room_at m (buf_bptr b') n"
    and "b_offset b < n \<Longrightarrow> buf_prepend b n = (b, Null)"
proof -
  assume le: "n \<le> b_offset b"
  let ?b = "b\<lparr>b_offset := b_offset b - n, b_len := b_len b + n\<rparr>"
  have i: "buf_inv m ?b" using assms le by (auto simp: buf_inv_def)
  have "room_at m (buf_bptr ?b) n"
    using buf_inv_room [OF i] i assms(1) le by (auto simp: buf_inv_def intro: room_at_smaller)
  then show "\<exists>b'. buf_prepend b n = (b', buf_bptr b') \<and> buf_inv m b' \<and>
            b_offset b' = b_offset b - n \<and> b_len b' = b_len b + n \<and>
            b_data b' = b_data b \<and> b_capacity b' = b_capacity b \<and>
            buf_bptr b = ptr_add (buf_bptr b') n \<and> room_at m (buf_bptr b') n"
    using i assms le buf_inv_valid [OF assms(1)] buf_inv_ptr [OF assms(1)] buf_inv_ptr [OF i]
    by (intro exI [of _ ?b]) (simp add: buf_prepend_def Let_def)
next
  assume "b_offset b < n"
  then show "buf_prepend b n = (b, Null)" by (simp add: buf_prepend_def)
qed

section \<open>Writing\<close>

lemma buf_write_alloc_spec:
  assumes "buf_inv m b" and "0 \<le> n"
  shows "buf_write_alloc b n =
     (if b_offset b + b_len b + n \<le> b_capacity b
      then (b\<lparr>b_len := b_len b + n\<rparr>, ptr_add (buf_bptr b) (b_len b)) else (b, Null))"
  by (simp add: buf_write_alloc_def buf_safe_iff [OF assms])

text \<open>Bytes stored right behind the content extend it.\<close>

lemma content_append:
  assumes "buf_inv m b" and "b_offset b + b_len b + int (length bs) \<le> b_capacity b"
    and "write_bytes m (ptr_add (buf_bptr b) (b_len b)) bs = Inr m'"
  shows "buf_inv m' (b\<lparr>b_len := b_len b + int (length bs)\<rparr>)"
    and "content m' (b\<lparr>b_len := b_len b + int (length bs)\<rparr>) = content m b @ bs"
proof -
  let ?b = "b\<lparr>b_len := b_len b + int (length bs)\<rparr>"
  show i: "buf_inv m' ?b"
    using assms(1,2) buf_inv_b_len [OF assms(1), of "b_len b + int (length bs)"]
    by (simp add: buf_inv_def write_room_at [OF assms(3)])
  have "read_bytes m' (buf_bptr b) (b_len b + int (length bs)) = Inr (content m b @ bs)"
    using write_after_read [OF read_content(1) [OF assms(1)] assms(3)] .
  then have "read_bytes m' (buf_bptr ?b) (b_len ?b) = Inr (content m b @ bs)"
    by (simp add: buf_inv_ptr [OF i] buf_inv_ptr [OF assms(1)])
  then show "content m' ?b = content m b @ bs" by (rule contentI [OF i])
qed

lemma buf_write_val_fits:
  assumes "buf_inv m b" and "b_offset b + b_len b + int (length bs) \<le> b_capacity b"
  shows "\<exists>m'. buf_write_val m b bs = Inr (True, b\<lparr>b_len := b_len b + int (length bs)\<rparr>, m') \<and>
              write_bytes m (ptr_add (buf_bptr b) (b_len b)) bs = Inr m'"
proof -
  from buf_inv_tail_room [OF assms] obtain m'
    where m': "write_bytes m (ptr_add (buf_bptr b) (b_len b)) bs = Inr m'"
    by (rule room_write)
  then show ?thesis
    using assms buf_inv_bptr_Null [OF assms(1)]
    by (simp add: buf_write_val_def buf_write_alloc_spec [OF assms(1)])
qed

lemma buf_write_val_full:
  "buf_inv m b \<Longrightarrow> b_capacity b < b_offset b + b_len b + int (length bs) \<Longrightarrow>
     buf_write_val m b bs = Inr (False, b, m)"
  by (simp add: buf_write_val_def buf_write_alloc_spec)

lemma buf_write_val_cases:
  assumes "buf_inv m b"
  obtains (fits) m' where "b_offset b + b_len b + int (length bs) \<le> b_capacity b"
      and "buf_write_val m b bs = Inr (True, b\<lparr>b_len := b_len b + int (length bs)\<rparr>, m')"
      and "buf_inv m' (b\<lparr>b_len := b_len b + int (length bs)\<rparr>)"
      and "content m' (b\<lparr>b_len := b_len b + int (length bs)\<rparr>) = content m b @ bs"
      and "write_bytes m (ptr_add (buf_bptr b) (b_len b)) bs = Inr m'"
    | (full) "b_capacity b < b_offset b + b_len b + int (length bs)"
      and "buf_write_val m b bs = Inr (False, b, m)"
proof (cases "b_offset b + b_len b + int (length bs) \<le> b_capacity b")
  case True
  with assms obtain m' where "buf_write_val m b bs = Inr (True, b\<lparr>b_len := b_len b + int (length bs)\<rparr>, m')"
      and w: "write_bytes m (ptr_add (buf_bptr b) (b_len b)) bs = Inr m'"
    using buf_write_val_fits by blast
  with True content_append [OF assms True w] show ?thesis by (blast intro: fits)
next
  case False
  with assms show ?thesis by (intro full) (simp_all add: buf_write_val_full)
qed

section \<open>Reading\<close>

lemma buf_read_enough:
  assumes "buf_inv m b" and "0 \<le> n" and "n \<le> b_len b"
  shows "\<exists>b'. buf_read m b n = Inr (Some (take (nat n) (content m b)), b') \<and> buf_inv m b' \<and>
              content m b' = drop (nat n) (content m b) \<and> b_len b' = b_len b - n \<and>
              b_offset b' = b_offset b + n \<and> b_data b' = b_data b \<and> b_capacity b' = b_capacity b"
  using buf_advance_spec(1) [OF assms] read_bytes_split(1) [OF read_content(1) [OF assms(1)] assms(2,3)]
    buf_inv_bptr_Null [OF assms(1)]
  by (auto simp: buf_read_def buf_read_alloc_advance [OF assms(1)])

lemma buf_read_short:
  "buf_inv m b \<Longrightarrow> 0 \<le> n \<Longrightarrow> b_len b < n \<Longrightarrow> buf_read m b n = Inr (None, b)"
  by (simp add: buf_read_def buf_read_alloc_def)

lemma buf_read_u8_spec:
  assumes "buf_inv m b"
  shows "buf_read_u8 m b =
    (case content m b of [] \<Rightarrow> Inr (-1, b)
     | c # _ \<Rightarrow> Inr (uint c, b\<lparr>b_offset := b_offset b + 1, b_len := b_len b - 1\<rparr>))"
proof (cases "content m b")
  case Nil
  then show ?thesis using read_content(2) [OF assms] assms by (simp add: buf_read_u8_def)
next
  case (Cons c cs)
  then have l: "1 \<le> b_len b" using read_content(2) [OF assms] by simp
  then have "read_bytes m (buf_bptr b) 1 = Inr [c]"
    using read_bytes_split(1) [OF read_content(1) [OF assms], of 1] Cons by simp
  then show ?thesis
    using Cons l assms buf_inv_valid [OF assms] by (simp add: buf_read_u8_def load_def buf_advance_def)
qed

section \<open>Byte order\<close>

lemma length_be [simp]: "length (be16 w) = 2" "length (be32 v) = 4"
  by (simp_all add: be16_def be32_def)

lemma unat_byte: "unat (ucast (drop_bit n w) :: 8 word) = unat w div 2 ^ n mod 256" for w :: "'a::len word"
proof -
  have "unat (drop_bit n w) = unat w div 2 ^ n"
    by (rule trans [OF unat_drop_bit_eq drop_bit_eq_div])
  then show ?thesis
    by (simp only: unsigned_ucast_eq take_bit_eq_mod) simp
qed

lemma unat_low_byte: "unat (ucast w :: 8 word) = unat w mod 256" for w :: "'a::len word"
  using unat_byte [of 0 w] by simp

lemma from_be_be16: "from_be (be16 w) = unat w"
proof -
  have "unat w < 2 ^ 16" using unsigned_less [of w] by simp
  then have "unat w div 2 ^ 8 mod 256 = unat w div 2 ^ 8" by simp
  then show ?thesis
    unfolding from_be_def be16_def foldl_Cons foldl_Nil unat_byte unat_low_byte [of w] by simp
qed

lemma from_be_be32: "from_be (be32 w) = unat w"
proof -
  let ?x = "unat w"
  have b: "?x < 2 ^ 32" using unsigned_less [of w] by simp
  have d: "?x div 2 ^ 24 mod 256 = ?x div 2 ^ 24" using b by simp
  have e1: "?x div 2 ^ 24 * 256 + ?x div 2 ^ 16 mod 256 = ?x div 2 ^ 16"
    using div_mult_mod_eq [of "?x div 2 ^ 16" 256] by (simp add: div_mult2_eq [symmetric])
  have e2: "?x div 2 ^ 16 * 256 + ?x div 2 ^ 8 mod 256 = ?x div 2 ^ 8"
    using div_mult_mod_eq [of "?x div 2 ^ 8" 256] by (simp add: div_mult2_eq [symmetric])
  have e3: "?x div 2 ^ 8 * 256 + ?x mod 256 = ?x"
    using div_mult_mod_eq [of ?x 256] by simp
  have "from_be (be32 w) = ((?x div 2 ^ 24 * 256 + ?x div 2 ^ 16 mod 256) * 256 + ?x div 2 ^ 8 mod 256) * 256 + ?x mod 256"
    unfolding from_be_def be32_def foldl_Cons foldl_Nil unat_byte unat_low_byte [of w] d by simp
  then show ?thesis by (simp only: e1 e2 e3)
qed

section \<open>The byte window as an interface\<close>

text \<open>
  What the code that assembles and takes apart packets relies on: appended bytes become the
  end of the content, read bytes are its beginning. A \<open>None\<close> is the C function's false.
\<close>

fun put_all :: "('s \<Rightarrow> byte list \<Rightarrow> 's option) \<Rightarrow> 's \<Rightarrow> byte list list \<Rightarrow> 's option" where
  "put_all put s [] = Some s"
| "put_all put s (f # fs) = Option.bind (put s f) (\<lambda>s'. put_all put s' fs)"

fun get_all :: "('s \<Rightarrow> nat \<Rightarrow> (byte list \<times> 's) option) \<Rightarrow> 's \<Rightarrow> nat list \<Rightarrow> (byte list list \<times> 's) option" where
  "get_all get s [] = Some ([], s)"
| "get_all get s (n # ns) =
     Option.bind (get s n) (\<lambda>(f, s'). map_option (\<lambda>(fs, s''). (f # fs, s'')) (get_all get s' ns))"

locale byte_window =
  fixes inv :: "'s \<Rightarrow> bool"
    and bytes :: "'s \<Rightarrow> byte list"
    and room :: "'s \<Rightarrow> nat"
    and put :: "'s \<Rightarrow> byte list \<Rightarrow> 's option"
    and get :: "'s \<Rightarrow> nat \<Rightarrow> (byte list \<times> 's) option"
  assumes put_fits: "inv s \<Longrightarrow> length bs \<le> room s \<Longrightarrow>
           \<exists>s'. put s bs = Some s' \<and> inv s' \<and> bytes s' = bytes s @ bs \<and> room s' = room s - length bs"
    and put_full: "inv s \<Longrightarrow> room s < length bs \<Longrightarrow> put s bs = None"
    and get_takes: "inv s \<Longrightarrow> n \<le> length (bytes s) \<Longrightarrow>
           \<exists>s'. get s n = Some (take n (bytes s), s') \<and> inv s' \<and> bytes s' = drop n (bytes s)"
    and get_short: "inv s \<Longrightarrow> length (bytes s) < n \<Longrightarrow> get s n = None"
begin

lemma put_all_fits:
  "inv s \<Longrightarrow> length (concat fs) \<le> room s \<Longrightarrow>
     \<exists>s'. put_all put s fs = Some s' \<and> inv s' \<and> bytes s' = bytes s @ concat fs"
proof (induction fs arbitrary: s)
  case (Cons f fs)
  then obtain s1 where "put s f = Some s1" "inv s1" "bytes s1 = bytes s @ f" "room s1 = room s - length f"
    using put_fits [of s f] by auto
  with Cons.IH [of s1] Cons.prems show ?case by auto
qed simp

lemma get_all_fields:
  "inv s \<Longrightarrow> bytes s = concat fs @ rest \<Longrightarrow>
     \<exists>s'. get_all get s (map length fs) = Some (fs, s') \<and> inv s' \<and> bytes s' = rest"
proof (induction fs arbitrary: s)
  case (Cons f fs)
  then obtain s1 where "get s (length f) = Some (f, s1)" and "inv s1" and "bytes s1 = concat fs @ rest"
    using get_takes [of s "length f"] by auto
  with Cons.IH [of s1] show ?case by auto
qed auto

lemma put_all_get_all:
  assumes "inv s" and "bytes s = []" and "length (concat fs) \<le> room s"
  shows "\<exists>s' s''. put_all put s fs = Some s' \<and> bytes s' = concat fs \<and>
           get_all get s' (map length fs) = Some (fs, s'') \<and> inv s'' \<and> bytes s'' = []"
proof -
  obtain s' where s': "put_all put s fs = Some s'" "inv s'" "bytes s' = concat fs"
    using put_all_fits [OF assms(1,3)] assms(2) by auto
  then show ?thesis using get_all_fields [OF s'(2), of fs "[]"] by auto
qed

end

definition buf_put :: "mem \<times> buffer \<Rightarrow> byte list \<Rightarrow> (mem \<times> buffer) option" where
  "buf_put s bs =
     (case s of (m, b) \<Rightarrow>
        (case buf_write_val m b bs of Inr (True, b', m') \<Rightarrow> Some (m', b') | _ \<Rightarrow> None))"

definition buf_get :: "mem \<times> buffer \<Rightarrow> nat \<Rightarrow> (byte list \<times> mem \<times> buffer) option" where
  "buf_get s n =
     (case s of (m, b) \<Rightarrow>
        (case buf_read m b (int n) of Inr (Some bs, b') \<Rightarrow> Some (bs, m, b') | _ \<Rightarrow> None))"

lemma buf_room_iff:
  "buf_inv m b \<Longrightarrow> n \<le> nat (buf_forward_capacity b) \<longleftrightarrow> b_offset b + b_len b + int n \<le> b_capacity b"
  by (auto simp: buf_forward_capacity_inv buf_inv_def)

interpretation window: byte_window "\<lambda>(m, b). buf_inv m b" "\<lambda>(m, b). content m b"
  "\<lambda>(m, b). nat (buf_forward_capacity b)" buf_put buf_get
proof (unfold_locales, goal_cases)
  case (1 s bs)
  then obtain m b where s: "s = (m, b)" and i: "buf_inv m b" by (cases s) auto
  show ?case
  proof (cases rule: buf_write_val_cases [where bs = bs, OF i])
    case (1 m')
    then show ?thesis using i by (auto simp: s buf_put_def buf_forward_capacity_inv nat_diff_distrib)
  next
    case 2
    then show ?thesis using 1(2) buf_room_iff [OF i, of "length bs"] by (simp add: s)
  qed
next
  case (2 s bs)
  then obtain m b where s: "s = (m, b)" and i: "buf_inv m b" by (cases s) auto
  then have "b_capacity b < b_offset b + b_len b + int (length bs)"
    using 2(2) buf_room_iff [OF i, of "length bs"] by auto
  then show ?case by (simp add: s buf_put_def buf_write_val_full [OF i])
next
  case (3 s n)
  then obtain m b where s: "s = (m, b)" and i: "buf_inv m b" by (cases s) auto
  with 3(2) read_content(2) [OF i] buf_read_enough [OF i, of "int n"] show ?case
    by (auto simp: buf_get_def)
next
  case (4 s n)
  then obtain m b where s: "s = (m, b)" and i: "buf_inv m b" by (cases s) auto
  with 4(2) read_content(2) [OF i] buf_read_short [OF i, of "int n"] show ?case
    by (auto simp: buf_get_def)
qed

text \<open>A buffer over a block of its own, for the examples.\<close>

lemma whole_block_inv:
  "int n < BUF_SIZE_MAX \<Longrightarrow>
     buf_inv (snd (c_calloc empty_mem n)) \<lparr>b_capacity = int n, b_offset = o', b_len = l, b_data = Ptr 0 0\<rparr> \<longleftrightarrow>
     0 \<le> o' \<and> 0 \<le> l \<and> o' + l \<le> int n"
  by (auto simp: buf_inv_def c_calloc_def new_block_def empty_mem_def)

section \<open>Properties\<close>

text \<open>
  What a sequence of writes puts into an empty buffer with enough room, the reads of the
  same lengths give back, field by field, and the buffer is empty again.
\<close>

lemma packet_fields_roundtrip:
  assumes "buf_inv m b" and "content m b = []" and "int (length (concat fs)) \<le> buf_forward_capacity b"
  shows "\<exists>m' b' m'' b''. put_all buf_put (m, b) fs = Some (m', b') \<and> content m' b' = concat fs \<and>
           get_all buf_get (m', b') (map length fs) = Some (fs, m'', b'') \<and> content m'' b'' = []"
  using window.put_all_get_all [of "(m, b)" fs] assms by (auto simp: le_nat_iff split: prod.splits)

text \<open>
  Copying a range of another block into a buffer appends exactly those bytes when they fit
  and changes nothing (and reports false) when they do not; it never leaves the buffer's memory.
\<close>

lemma buf_write_appends:
  assumes "buf_inv m b" and "b_data b = Ptr l j" and "k \<noteq> l" and "read_bytes m (Ptr k i) n = Inr bs"
  shows "if b_offset b + b_len b + n \<le> b_capacity b
         then \<exists>b' m'. buf_write m b (Ptr k i) n = Inr (True, b', m') \<and> buf_inv m' b' \<and>
                content m' b' = content m b @ bs \<and> (\<forall>k'. k' \<noteq> l \<longrightarrow> blocks m' k' = blocks m k')
         else buf_write m b (Ptr k i) n = Inr (False, b, m)"
proof -
  have n: "n = int (length bs)" using read_bytes_length [OF assms(4)] by simp
  have c: "c_memcpy m (ptr_add (buf_bptr b) (b_len b)) (Ptr k i) n = write_bytes m (ptr_add (buf_bptr b) (b_len b)) bs"
    using assms by (simp add: buf_inv_ptr [OF assms(1)] c_memcpy_def overlap_def n)
  have e: "buf_write m b (Ptr k i) n = buf_write_val m b bs"
    using c n buf_inv_bptr_Null [OF assms(1)]
    by (simp add: buf_write_def buf_write_val_def buf_write_alloc_spec [OF assms(1)])
  show ?thesis
  proof (cases rule: buf_write_val_cases [where bs = bs, OF assms(1)])
    case (1 m')
    have "write_bytes m (Ptr l (j + b_offset b + b_len b)) bs = Inr m'"
      using 1(5) assms(2) by (simp add: buf_inv_ptr [OF assms(1)])
    then have "\<forall>k'. k' \<noteq> l \<longrightarrow> blocks m' k' = blocks m k'" using write_bytes_other by blast
    with 1 show ?thesis unfolding e by (auto simp: n)
  next
    case 2
    then show ?thesis unfolding e by (simp add: n)
  qed
qed

text \<open>
  Prepending reserves bytes in front of the content exactly when the headroom suffices, and
  advancing over them gives back the very same buffer; otherwise the buffer stays as it is.
\<close>

lemma buf_prepend_then_advance:
  assumes "buf_inv m b" and "0 \<le> n"
  shows "if n \<le> b_offset b
         then \<exists>b'. buf_prepend b n = (b', buf_bptr b') \<and> buf_inv m b' \<and>
                drop (nat n) (content m b') = content m b \<and> buf_advance b' n = (b, True)
         else buf_prepend b n = (b, Null)"
proof (cases "n \<le> b_offset b")
  case True
  obtain b' where b': "buf_prepend b n = (b', buf_bptr b')" "buf_inv m b'" "b_offset b' = b_offset b - n"
      "b_len b' = b_len b + n" "b_data b' = b_data b" "b_capacity b' = b_capacity b"
    using buf_prepend_spec(1) [OF assms True] by blast
  have le: "n \<le> b_len b'" using b'(4) assms(1) by (simp add: buf_inv_def)
  obtain c where c: "buf_advance b' n = (c, True)" "b_data c = b_data b'" "b_capacity c = b_capacity b'"
      "b_offset c = b_offset b' + n" "b_len c = b_len b' - n" "content m c = drop (nat n) (content m b')"
    using buf_advance_spec(1) [OF b'(2) assms(2) le] by blast
  have "c = b" using b' c by simp
  then show ?thesis using True b'(1,2) c(1,6) by metis
next
  case False
  then show ?thesis using buf_prepend_spec(2) [OF assms] by simp
qed

text \<open>
  A 16-bit and a 32-bit header word written in network byte order are read back as the same
  numbers.
\<close>

lemma header_words_roundtrip:
  fixes v :: "16 word" and w :: "32 word"
  assumes "buf_inv m b" and "content m b = []" and "6 \<le> buf_forward_capacity b"
  shows "\<exists>b1 m1 b2 m2 b3 b4.
           buf_write_u16 m b (uint v) = Inr (True, b1, m1) \<and> buf_write_u32 m1 b1 (uint w) = Inr (True, b2, m2) \<and>
           buf_read_u16 m2 b2 = Inr (uint v, b3) \<and> buf_read_u32 m2 b3 = Inr ((w, True), b4) \<and> content m2 b4 = []"
proof -
  have r: "b_offset b + b_len b + 6 \<le> b_capacity b" using assms(3) by (simp add: buf_forward_capacity_inv [OF assms(1)])
  let ?b1 = "b\<lparr>b_len := b_len b + 2\<rparr>" and ?b2 = "b\<lparr>b_len := b_len b + 6\<rparr>"
  obtain m1 where m1: "buf_write_val m b (be16 v) = Inr (True, ?b1, m1)" "buf_inv m1 ?b1" "content m1 ?b1 = be16 v"
    using r assms(2) by (cases rule: buf_write_val_cases [where bs = "be16 v", OF assms(1)]) auto
  obtain m2 where m2: "buf_write_val m1 ?b1 (be32 w) = Inr (True, ?b2, m2)" "buf_inv m2 ?b2"
      "content m2 ?b2 = be16 v @ be32 w"
    using r m1(3) by (cases rule: buf_write_val_cases [where bs = "be32 w", OF m1(2)]) (auto simp: add.commute [of 6])
  have l2: "2 \<le> b_len ?b2" using assms(1) by (simp add: buf_inv_def)
  obtain b3 where b3: "buf_read m2 ?b2 2 = Inr (Some (be16 v), b3)" "buf_inv m2 b3" "content m2 b3 = be32 w"
      "b_len b3 = b_len b + 4"
    using buf_read_enough [OF m2(2) _ l2] m2(3) by auto
  have l3: "4 \<le> b_len b3" using assms(1) b3(4) by (simp add: buf_inv_def)
  obtain b4 where b4: "buf_read m2 b3 4 = Inr (Some (be32 w), b4)" "content m2 b4 = []"
    using buf_read_enough [OF b3(2) _ l3] b3(3) by auto
  show ?thesis
    using m1(1) m2(1) b3(1) b4
    by (auto simp: buf_write_u16_def buf_write_u32_def buf_read_u16_def buf_read_u32_def from_be_be16 from_be_be32)
qed

text \<open>
  On a well-formed buffer the capacity check cannot be fooled by wrap-around: for every
  length the size test lets through, the sums the check computes stay in the range of \<open>int\<close>,
  and the check succeeds exactly when the bytes fit.
\<close>

lemma buf_safe_no_overflow:
  assumes "buf_inv m b" and "c_int n"
  shows "(buf_safe b n \<longleftrightarrow> 0 \<le> n \<and> b_offset b + b_len b + n \<le> b_capacity b) \<and>
         (buf_size_valid (size_of_int n) \<longrightarrow> c_int (b_offset b + b_len b) \<and> c_int (b_offset b + b_len b + n))"
  using buf_safe_iff [OF assms(1)] buf_safe_neg [of n b] assms(2) buf_sums_in_range [OF assms(1) _ assms(2)]
  by (cases "0 \<le> n") auto

end
