(* ===== verification/Buffer_Text.thy ===== *)
theory Buffer_Text
  imports Buffer_Laws C_Strings
begin

text \<open>
  The text layer of \<open>src/Treiber/lib/buffer.c\<close>: formatted output into a buffer, trimming and
  NUL termination, line parsing, hex dumps, and the copies between strings, buffers and files.
  The formatting itself is \<open>vsnprintf\<close>'s: an operation that takes a format takes its expansion.
\<close>

section \<open>Formatted output\<close>

text \<open>\<open>strlen\<close> at a pointer: the bytes before the first NUL of the block.\<close>

definition read_cstr :: "mem \<Rightarrow> ptr \<Rightarrow> fault + cstr" where
  "read_cstr m p =
     (case p of
        Null \<Rightarrow> Inl MemFault
      | Ptr k i \<Rightarrow>
          (case blocks m k of
             None \<Rightarrow> Inl MemFault
           | Some bs \<Rightarrow> if 0 \<le> i \<and> NUL \<in> set (drop (nat i) bs)
                         then Inr (c_string (drop (nat i) bs)) else Inl MemFault))"

definition buf_printf :: "mem \<Rightarrow> buffer \<Rightarrow> cstr option \<Rightarrow> fault + bool \<times> buffer \<times> mem" where
  "buf_printf m buf txt =
     (if buf_defined buf
      then (let p = buf_bend buf; cap = buf_forward_capacity buf
            in if cap > 0
               then bindE (write_bytes m p (vsnprintf_bytes txt (nat cap)))
                      (\<lambda>m1. bindE (store m1 (ptr_add (b_data buf) (b_capacity buf - 1)) 0)
                        (\<lambda>m2. bindE (read_cstr m2 p)
                          (\<lambda>s. Inr (vsnprintf_ret txt \<ge> 0 \<and> vsnprintf_ret txt < cap,
                                    buf\<lparr>b_len := b_len buf + int (length s)\<rparr>, m2))))
               else Inr (False, buf, m))
      else Inr (False, buf, m))"

definition buf_puts :: "mem \<Rightarrow> buffer \<Rightarrow> cstr \<Rightarrow> fault + bool \<times> buffer \<times> mem" where
  "buf_puts m buf str =
     (let p = buf_bend buf; cap = buf_forward_capacity buf
      in if cap > 0
         then bindE (write_bytes m p (strncpynt_bytes str (nat cap)))
                (\<lambda>m1. bindE (store m1 (ptr_add (b_data buf) (b_capacity buf - 1)) 0)
                  (\<lambda>m2. bindE (read_cstr m2 p)
                    (\<lambda>s. Inr (True, buf\<lparr>b_len := b_len buf + int (length s)\<rparr>, m2))))
         else Inr (False, buf, m))"

definition buf_catrunc :: "mem \<Rightarrow> buffer \<Rightarrow> cstr \<Rightarrow> fault + mem" where
  "buf_catrunc m buf str =
     (if buf_forward_capacity buf \<le> 1
      then (let len = int (length str) + 1
            in if len < buf_forward_capacity_total buf
               then write_bytes m (ptr_add (b_data buf) (b_capacity buf - len))
                      (strncpynt_bytes str (nat len))
               else Inr m)
      else Inr m)"

definition convert_to_one_line :: "mem \<Rightarrow> buffer \<Rightarrow> fault + mem" where
  "convert_to_one_line m buf =
     bindE (read_bytes m (buf_bptr buf) (buf_len buf))
       (\<lambda>bs. write_bytes m (buf_bptr buf)
                (map (\<lambda>c. if c = 10 then of_char CHR ''|'' else c) bs))"

section \<open>Trimming and termination\<close>

definition buf_rmtail :: "mem \<Rightarrow> buffer \<Rightarrow> byte \<Rightarrow> fault + buffer \<times> mem" where
  "buf_rmtail m buf rmv =
     (let cp = buf_blast buf
      in if cp = Null then Inr (buf, m)
         else bindE (load m cp)
                (\<lambda>c. if c = rmv
                     then bindE (store m cp 0) (\<lambda>m'. Inr (buf\<lparr>b_len := b_len buf - 1\<rparr>, m'))
                     else Inr (buf, m)))"

definition last_byte :: "mem \<Rightarrow> buffer \<Rightarrow> fault + byte option" where
  "last_byte m buf =
     (if buf_blast buf = Null then Inr None else bindE (load m (buf_blast buf)) (\<lambda>c. Inr (Some c)))"

definition buf_null_terminate :: "mem \<Rightarrow> buffer \<Rightarrow> fault + buffer \<times> mem" where
  "buf_null_terminate m buf =
     bindE (last_byte m buf)
       (\<lambda>last. if last = Some 0 then Inr (buf, m)
               else (let buf' = (if \<not> buf_safe buf 1 then fst (buf_inc_len buf (-1)) else buf)
                     in bindE (buf_write_u8 m buf' 0) (\<lambda>(_, buf'', m'). Inr (buf'', m'))))"

lemma buf_inc_len_dec:
  "snd (buf_inc_len b (-1)) \<Longrightarrow> b_len (fst (buf_inc_len b (-1))) < b_len b \<and> 0 < b_len b"
  by (auto simp: buf_inc_len_def buf_safe_bidir_def Let_def split: if_splits)

function buf_chomp_loop :: "mem \<Rightarrow> buffer \<Rightarrow> fault + buffer" where
  "buf_chomp_loop m buf =
     bindE (last_byte m buf)
       (\<lambda>last. case last of
                 None \<Rightarrow> Inr buf
               | Some c \<Rightarrow>
                   if char_class c (CC_CRLF OR CC_NULL)
                   then (let r = buf_inc_len buf (-1)
                         in if \<not> snd r then Inr buf else buf_chomp_loop m (fst r))
                   else Inr buf)"
  by pat_completeness auto
termination
  by (relation "measure (\<lambda>(_, buf). nat (b_len buf))")
    (auto dest: buf_inc_len_dec)

declare buf_chomp_loop.simps [simp del]

definition buf_chomp :: "mem \<Rightarrow> buffer \<Rightarrow> fault + buffer \<times> mem" where
  "buf_chomp m buf = bindE (buf_chomp_loop m buf) (\<lambda>buf'. buf_null_terminate m buf')"

section \<open>Parsing\<close>

definition buf_string_match_head_str :: "mem \<Rightarrow> buffer \<Rightarrow> cstr \<Rightarrow> fault + bool" where
  "buf_string_match_head_str m src match =
     (let sz = int (length match)
      in if sz < 0 \<or> sz > b_len src then Inr False
         else bindE (read_bytes m (buf_bptr src) sz) (\<lambda>xs. Inr (xs = match)))"

definition buf_string_compare_advance :: "mem \<Rightarrow> buffer \<Rightarrow> cstr \<Rightarrow> fault + bool \<times> buffer" where
  "buf_string_compare_advance m src match =
     bindE (buf_string_match_head_str m src match)
       (\<lambda>b. if b then Inr (True, fst (buf_advance src (int (length match)))) else Inr (False, src))"

lemma buf_read_u8_dec:
  "buf_read_u8 m b = Inr (c, b') \<Longrightarrow> 0 \<le> c \<Longrightarrow> nat (b_len b') < nat (b_len b)"
  by (auto simp: buf_read_u8_def bindE_Inr_iff buf_len_def buf_advance_def split: if_splits)

function buf_substring_loop :: "mem \<Rightarrow> buffer \<Rightarrow> int \<Rightarrow> int \<Rightarrow> fault + int" where
  "buf_substring_loop m tmp delim i =
     bindE (buf_read_u8 m tmp)
       (\<lambda>(c, tmp'). if c \<ge> 0
                    then (if c = delim then Inr (i + 1) else buf_substring_loop m tmp' delim (i + 1))
                    else Inr (-1))"
  by pat_completeness auto
termination
  by (relation "measure (\<lambda>(_, tmp, _). nat (b_len tmp))") (auto dest: buf_read_u8_dec)

declare buf_substring_loop.simps [simp del]

definition buf_substring_len :: "mem \<Rightarrow> buffer \<Rightarrow> int \<Rightarrow> fault + int" where
  "buf_substring_len m buf delim = buf_substring_loop m buf delim 0"

text \<open>The loop of \<open>buf_parse\<close> stops with the buffer, the line array and \<open>eol\<close>.\<close>

function buf_parse_loop ::
  "mem \<Rightarrow> buffer \<Rightarrow> int \<Rightarrow> byte list \<Rightarrow> int \<Rightarrow> int \<Rightarrow> bool \<Rightarrow> fault + buffer \<times> byte list \<times> bool" where
  "buf_parse_loop m buf delim line sz n eol =
     bindE (buf_read_u8 m buf)
       (\<lambda>(c, buf').
          let eol' = (if c < 0 then True else eol);
              c' = (if c \<le> 0 \<or> c = delim then 0 else c)
          in if n \<ge> sz then Inr (buf', line, eol')
             else bindE (arr_set line (nat n) (word_of_int c'))
                    (\<lambda>line'. if c' \<noteq> 0 then buf_parse_loop m buf' delim line' sz (n + 1) eol'
                             else Inr (buf', line', eol')))"
  by pat_completeness auto
termination
  by (relation "measure (\<lambda>(_, buf, _). nat (b_len buf))") (auto dest: buf_read_u8_dec split: if_splits)

declare buf_parse_loop.simps [simp del]

definition buf_parse :: "mem \<Rightarrow> buffer \<Rightarrow> int \<Rightarrow> byte list \<Rightarrow> int \<Rightarrow> fault + bool \<times> buffer \<times> byte list" where
  "buf_parse m buf delim line sz =
     bindE (c_assert (sz > 0))
       (\<lambda>_. bindE (buf_parse_loop m buf delim line sz 0 False)
         (\<lambda>(buf', line', eol). bindE (arr_set line' (nat (sz - 1)) NUL)
           (\<lambda>line''. bindE (c_strlen line'')
             (\<lambda>n. Inr (\<not> (eol \<and> n = 0), buf', line'')))))"

section \<open>Strings and buffers\<close>

definition string_alloc :: "mem \<Rightarrow> cstr option \<Rightarrow> gc_arena option \<Rightarrow> fault + ptr \<times> mem \<times> gc_arena option" where
  "string_alloc m str gc =
     (case str of
        None \<Rightarrow> Inr (Null, m, gc)
      | Some s \<Rightarrow>
          bindE (case gc of
                   Some _ \<Rightarrow> gc_malloc m (length s + 1) False gc
                 | None \<Rightarrow> (let (ret, m') = c_calloc m (length s + 1)
                           in bindE (check_malloc_return ret) (\<lambda>_. Inr (ret, m', None))))
            (\<lambda>(ret, m', gc'). bindE (write_bytes m' ret (s @ [NUL])) (\<lambda>m''. Inr (ret, m'', gc'))))"

definition string_alloc_buf ::
  "mem \<Rightarrow> cstr option \<Rightarrow> gc_arena option \<Rightarrow> fault + buffer \<times> mem \<times> gc_arena option" where
  "string_alloc_buf m str gc =
     (case str of
        None \<Rightarrow> Inl AssertFail
      | Some s \<Rightarrow>
          bindE (string_alloc m str gc)
            (\<lambda>(p, m', gc'). bindE (buf_set_read p (int (length s) + 1))
              (\<lambda>buf. Inr (if b_len buf > 0 then buf\<lparr>b_len := b_len buf - 1\<rparr> else buf, m', gc'))))"

definition PA_BRACKET :: nat where "PA_BRACKET = 1"

fun print_argv_loop :: "mem \<Rightarrow> buffer \<Rightarrow> cstr list \<Rightarrow> nat \<Rightarrow> bool \<Rightarrow> fault + buffer \<times> mem" where
  "print_argv_loop m out [] i bracket = Inr (out, m)"
| "print_argv_loop m out (cp # p) i bracket =
     bindE (if i \<noteq> 0 then bindE (buf_printf m out (Some (asc '' ''))) (\<lambda>(_, out', m'). Inr (out', m'))
            else Inr (out, m))
       (\<lambda>(out1, m1).
          bindE (buf_printf m1 out1
                   (Some (if bracket then asc ''['' @ cp @ asc '']'' else cp)))
            (\<lambda>(_, out2, m2). print_argv_loop m2 out2 p (Suc i) bracket))"

definition print_argv ::
  "mem \<Rightarrow> cstr list \<Rightarrow> gc_arena option \<Rightarrow> nat \<Rightarrow> fault + ptr \<times> mem \<times> gc_arena option" where
  "print_argv m p gc flags =
     bindE (alloc_buf_gc m 256 gc)
       (\<lambda>(out, m1, gc'). bindE (print_argv_loop m1 out p 0 (odd flags))
         (\<lambda>(out', m2). Inr (buf_bptr out', m2, gc')))"

section \<open>Hex dump\<close>

definition hex_digit :: "bool \<Rightarrow> nat \<Rightarrow> byte" where
  "hex_digit caps d = of_nat (if d < 10 then 48 + d else (if caps then 55 else 87) + d)"

text \<open>\<open>%02X\<close> and \<open>%02x\<close> of a byte.\<close>

definition hex2 :: "bool \<Rightarrow> byte \<Rightarrow> cstr" where
  "hex2 caps b = [hex_digit caps (unat b div 16), hex_digit caps (unat b mod 16)]"

fun format_hex_loop ::
  "mem \<Rightarrow> buffer \<Rightarrow> byte list \<Rightarrow> nat \<Rightarrow> nat \<Rightarrow> bool \<Rightarrow> cstr option \<Rightarrow> fault + buffer \<times> mem" where
  "format_hex_loop m out [] i block caps separator = Inr (out, m)"
| "format_hex_loop m out (d # dat) i block caps separator =
     bindE (case separator of
              None \<Rightarrow> Inr (out, m)
            | Some sep \<Rightarrow>
                if i \<noteq> 0
                then (if block = 0 then Inl DivZero
                      else if i mod block = 0
                      then bindE (buf_printf m out (Some sep)) (\<lambda>(_, out', m'). Inr (out', m'))
                      else Inr (out, m))
                else Inr (out, m))
       (\<lambda>(out1, m1). bindE (buf_printf m1 out1 (Some (hex2 caps d)))
         (\<lambda>(_, out2, m2). format_hex_loop m2 out2 dat (Suc i) block caps separator))"

text \<open>\<open>dat\<close> stands for \<open>data[0 .. size-1]\<close>.\<close>

definition format_hex_ex ::
  "mem \<Rightarrow> byte list \<Rightarrow> nat \<Rightarrow> nat \<Rightarrow> cstr option \<Rightarrow> gc_arena option \<Rightarrow>
     fault + buffer \<times> mem \<times> gc_arena option" where
  "format_hex_ex m dat maxoutput space_break_flags separator gc =
     (let block = space_break_flags mod 256;
          separator_len = (case separator of Some s \<Rightarrow> length s | None \<Rightarrow> 0)
      in if maxoutput = 0 \<and> block = 0 then Inl DivZero
         else (let out_len = (if maxoutput > 0 then maxoutput
                              else length dat * 2 + (length dat div block) * separator_len + 2)
               in bindE (alloc_buf_gc m out_len gc)
                    (\<lambda>(out, m1, gc').
                       bindE (format_hex_loop m1 out dat 0 block (space_break_flags div 256 mod 2 = 1) separator)
                         (\<lambda>(out', m2). bindE (buf_catrunc m2 out' (asc ''[more...]''))
                           (\<lambda>m3. Inr (out', m3, gc'))))))"

definition format_hex :: "mem \<Rightarrow> byte list \<Rightarrow> nat \<Rightarrow> gc_arena option \<Rightarrow> fault + buffer \<times> mem \<times> gc_arena option" where
  "format_hex m dat maxoutput gc = format_hex_ex m dat maxoutput 4 (Some (asc '' '')) gc"

section \<open>Files\<close>

text \<open>
  The file system is outside the program: what \<open>open\<close>, \<open>write\<close>, \<open>close\<close>, \<open>stat\<close>, \<open>fopen\<close> and
  \<open>fread\<close> returned are arguments. The result is the return value and the bytes passed to \<open>write\<close>.
\<close>

definition buffer_write_file :: "mem \<Rightarrow> buffer \<Rightarrow> int \<Rightarrow> int \<Rightarrow> int \<Rightarrow> fault + bool \<times> byte list" where
  "buffer_write_file m buf fd write_ret close_ret =
     (if fd = -1 then Inr (False, [])
      else bindE (read_bytes m (buf_bptr buf) (buf_len buf))
             (\<lambda>bs. let ret = (write_ret = buf_len buf)
                   in Inr (if close_ret < 0 then False else ret, bs)))"

definition buffer_read_from_file ::
  "mem \<Rightarrow> nat option \<Rightarrow> bool \<Rightarrow> byte list \<Rightarrow> gc_arena option \<Rightarrow>
     fault + buffer \<times> mem \<times> gc_arena option" where
  "buffer_read_from_file m st_size fopen_ok fread_bytes gc =
     (case st_size of
        None \<Rightarrow> Inr (clear_buf, m, gc)
      | Some sz \<Rightarrow>
          if \<not> fopen_ok then Inr (clear_buf, m, gc)
          else bindE (alloc_buf_gc m (sz + 1) gc)
                 (\<lambda>(ret, m1, gc'). let bs = take sz fread_bytes in
                    bindE (write_bytes m1 (buf_bptr ret) bs)
                      (\<lambda>m2. let (ret', ok) = buf_inc_len ret (int (length bs))
                            in bindE (c_assert ok)
                                 (\<lambda>_. bindE (buf_null_terminate m2 ret')
                                   (\<lambda>(ret'', m3). Inr (ret'', m3, gc'))))))"

end
