(* ===== verification/Text_Laws.thy ===== *)
theory Text_Laws
  imports Buffer_Text
begin

text \<open>
  What the text layer of buffers guarantees: formatted output never leaves the buffer, is
  always NUL terminated and reports truncation exactly; trimming and line parsing are the
  list functions one expects; a hex dump of its own choice of size is never truncated.
\<close>

section \<open>Formatted output\<close>

lemma read_cstr_of_read:
  assumes "read_bytes m p n = Inr (s @ NUL # zs)" and "is_cstr s"
  shows "read_cstr m p = Inr s"
proof -
  from assms(1) have "n \<noteq> 0" by auto
  with assms(1) obtain k i bs where p: "p = Ptr k i" "blocks m k = Some bs" "0 \<le> i"
      and t: "take (nat n) (drop (nat i) bs) = s @ NUL # zs"
    by (auto simp: read_bytes_def split: if_splits ptr.splits option.splits)
  have d: "drop (nat i) bs = (s @ NUL # zs) @ drop (nat n) (drop (nat i) bs)"
    using append_take_drop_id [of "nat n" "drop (nat i) bs"] by (simp only: t)
  have "NUL \<in> set (drop (nat i) bs)" by (subst d) simp
  moreover have "c_string (drop (nat i) bs) = s"
    by (subst d) (simp add: assms(2))
  ultimately show ?thesis using p by (simp add: read_cstr_def)
qed

text \<open>
  The two lines \<open>buf_printf\<close> and \<open>buf_puts\<close> end with: the last byte of the buffer becomes
  NUL, and the content grows by the string now standing behind it.
\<close>

lemma text_append:
  assumes inv: "buf_inv m b" and cap: "buf_forward_capacity b = cap" "cap > 0"
    and xs: "xs = s @ NUL # zs" "is_cstr s" "int (length xs) \<le> cap"
  shows "\<exists>m1 m2. write_bytes m (buf_bend b) xs = Inr m1 \<and>
           store m1 (ptr_add (b_data b) (b_capacity b - 1)) 0 = Inr m2 \<and>
           read_cstr m2 (buf_bend b) = Inr s \<and>
           buf_inv m2 (b\<lparr>b_len := b_len b + int (length s)\<rparr>) \<and>
           content m2 (b\<lparr>b_len := b_len b + int (length s)\<rparr>) = content m b @ s \<and>
           read_bytes m2 (ptr_add (buf_bptr b) (b_len b + int (length s))) 1 = Inr [NUL]"
proof -
  have room: "b_offset b + b_len b + cap = b_capacity b"
    using cap buf_forward_capacity_inv [OF inv] by simp
  have bend: "buf_bend b = ptr_add (buf_bptr b) (b_len b)"
    using inv by (simp add: buf_bend_def)
  have lastp: "ptr_add (b_data b) (b_capacity b - 1) = ptr_add (buf_bend b) (cap - 1)"
    unfolding bend buf_inv_ptr [OF inv] using room by (simp add: algebra_simps)
  have rt: "room_at m (buf_bend b) cap"
    unfolding bend using buf_inv_tail_room [OF inv, of cap] room by simp
  obtain m1 where m1: "write_bytes m (buf_bend b) xs = Inr m1"
    using room_write [of m "buf_bend b" xs] room_at_smaller [OF rt xs(3)] by blast
  have "room_at m1 (ptr_add (buf_bend b) (cap - 1)) 1"
    using room_at_sub [OF rt, of "cap - 1" 1] cap by (simp add: write_room_at [OF m1])
  then obtain m2 where m2: "store m1 (ptr_add (buf_bend b) (cap - 1)) 0 = Inr m2"
    unfolding store_def using room_write [of m1 _ "[0]"] by auto
  note w2 = m2 [unfolded store_def]
  have ptr: "buf_bend b \<noteq> Null" using rt by auto
  have c1: "read_bytes m1 (buf_bptr b) (b_len b + int (length xs)) = Inr (content m b @ xs)"
    using write_after_read [OF read_content(1) [OF inv]] m1 unfolding bend by blast
  let ?n = "b_len b + int (length s) + 1"
  have bl: "0 \<le> b_len b" using inv by (simp add: buf_inv_def)
  have len: "int (length (content m b)) = b_len b" using read_content(2) [OF inv] .
  have lc: "length (content m b) = nat (b_len b)" using len bl by simp
  have full: "read_bytes m2 (buf_bptr b) ?n = Inr (content m b @ s @ [NUL])"
  proof (cases "cap - 1 = int (length s)")
    case True
    have "read_bytes m1 (buf_bptr b) (b_len b + int (length s)) = Inr (content m b @ s)"
      using read_bytes_split(1) [OF c1, of "b_len b + int (length s)"] bl xs(1) len
      by (auto simp: nat_add_distrib)
    moreover have "write_bytes m1 (ptr_add (buf_bptr b) (b_len b + int (length s))) [0] = Inr m2"
      using w2 True unfolding bend by (simp add: add.commute)
    ultimately show ?thesis using write_after_read by fastforce
  next
    case False
    have "read_bytes m1 (buf_bptr b) ?n = Inr (content m b @ s @ [NUL])"
      using read_bytes_split(1) [OF c1, of ?n] bl xs(1) by (auto simp: nat_add_distrib lc Suc_diff_le)
    moreover have "j + ?n \<le> i" if "ptr_add (buf_bend b) (cap - 1) = Ptr k i" "buf_bptr b = Ptr k j" for k i j
      using that False xs unfolding bend by (cases "buf_bptr b") auto
    ultimately show ?thesis using write_disjoint_read [OF w2] by blast
  qed
  let ?b = "b\<lparr>b_len := b_len b + int (length s)\<rparr>"
  have i2: "buf_inv m2 ?b"
    using buf_inv_b_len [OF inv, of "b_len b + int (length s)"] bl room xs
    by (simp add: buf_inv_write [OF w2] buf_inv_write [OF m1])
  have "read_bytes m2 (buf_bptr b) (b_len b + int (length s)) = Inr (content m b @ s)"
    using read_bytes_split(1) [OF full, of "b_len b + int (length s)"] bl len by (auto simp: nat_add_distrib)
  then have cont: "content m2 ?b = content m b @ s"
    by (intro contentI [OF i2]) (simp add: buf_inv_ptr [OF i2] buf_inv_ptr [OF inv])
  have "read_bytes m2 (ptr_add (buf_bptr b) (b_len b)) (int (length s) + 1) = Inr (s @ [NUL])"
    using read_bytes_split(2) [OF full, of "b_len b"] bl len by (auto simp: add.commute)
  then have str: "read_cstr m2 (buf_bend b) = Inr s"
    unfolding bend by (rule read_cstr_of_read) (rule xs(2))
  have nul: "read_bytes m2 (ptr_add (buf_bptr b) (b_len b + int (length s))) 1 = Inr [NUL]"
    using read_bytes_split(2) [OF full, of "b_len b + int (length s)"] bl len by (auto simp: nat_add_distrib)
  from m1 m2 str i2 cont nul show ?thesis unfolding lastp by blast
qed

lemma is_cstr_take: "is_cstr s \<Longrightarrow> is_cstr (take n s)"
  by (auto simp: is_cstr_def dest: in_set_takeD)

lemma buf_printf_room:
  assumes "buf_inv m b" and "is_cstr t" and "buf_forward_capacity b > 0"
  defines "w \<equiv> take (nat (buf_forward_capacity b) - 1) t"
  shows "\<exists>m'. buf_printf m b (Some t) =
                Inr (int (length t) < buf_forward_capacity b, b\<lparr>b_len := b_len b + int (length w)\<rparr>, m') \<and>
              buf_inv m' (b\<lparr>b_len := b_len b + int (length w)\<rparr>) \<and>
              content m' (b\<lparr>b_len := b_len b + int (length w)\<rparr>) = content m b @ w \<and>
              read_bytes m' (ptr_add (buf_bptr b) (b_len b + int (length w))) 1 = Inr [NUL]"
proof -
  have "vsnprintf_bytes (Some t) (nat (buf_forward_capacity b)) = w @ NUL # []"
    using assms(3) by (simp add: vsnprintf_bytes_def w_def)
  moreover have "int (length (w @ NUL # [])) \<le> buf_forward_capacity b"
    using assms(3) by (auto simp: w_def min_def)
  moreover have "is_cstr w" unfolding w_def using assms(2) by (rule is_cstr_take)
  ultimately obtain m1 m2 where
    "write_bytes m (buf_bend b) (vsnprintf_bytes (Some t) (nat (buf_forward_capacity b))) = Inr m1"
    "store m1 (ptr_add (b_data b) (b_capacity b - 1)) 0 = Inr m2"
    "read_cstr m2 (buf_bend b) = Inr w"
    "buf_inv m2 (b\<lparr>b_len := b_len b + int (length w)\<rparr>)"
    "content m2 (b\<lparr>b_len := b_len b + int (length w)\<rparr>) = content m b @ w"
    "read_bytes m2 (ptr_add (buf_bptr b) (b_len b + int (length w))) 1 = Inr [NUL]"
    using text_append [OF assms(1) refl assms(3)] by metis
  moreover have "buf_defined b" using buf_inv_valid [OF assms(1)] by (simp add: buf_defined_def buf_valid_def)
  ultimately show ?thesis
    using assms(3) by (auto simp: buf_printf_def Let_def vsnprintf_ret_def)
qed

lemma buf_printf_full:
  "buf_forward_capacity b \<le> 0 \<Longrightarrow> buf_printf m b txt = Inr (False, b, m)"
  by (simp add: buf_printf_def Let_def)

text \<open>Text that fits is appended as it is.\<close>

lemma buf_printf_fits:
  assumes "buf_inv m b" and "is_cstr t" and "int (length t) < buf_forward_capacity b"
  obtains m' where "buf_printf m b (Some t) = Inr (True, b\<lparr>b_len := b_len b + int (length t)\<rparr>, m')"
    and "buf_inv m' (b\<lparr>b_len := b_len b + int (length t)\<rparr>)"
    and "content m' (b\<lparr>b_len := b_len b + int (length t)\<rparr>) = content m b @ t"
    and "read_bytes m' (ptr_add (buf_bptr b) (b_len b + int (length t))) 1 = Inr [NUL]"
proof -
  have "take (nat (buf_forward_capacity b) - 1) t = t" using assms(3) by simp
  with buf_printf_room [OF assms(1,2)] assms(3) that show thesis by auto
qed

lemma buf_puts_room:
  assumes "buf_inv m b" and "is_cstr t" and "buf_forward_capacity b > 0"
  defines "w \<equiv> take (nat (buf_forward_capacity b) - 1) t"
  shows "\<exists>m'. buf_puts m b t = Inr (True, b\<lparr>b_len := b_len b + int (length w)\<rparr>, m') \<and>
              buf_inv m' (b\<lparr>b_len := b_len b + int (length w)\<rparr>) \<and>
              content m' (b\<lparr>b_len := b_len b + int (length w)\<rparr>) = content m b @ w"
proof -
  let ?n = "nat (buf_forward_capacity b)"
  obtain zs where zs: "strncpynt_bytes t ?n = w @ NUL # zs"
    using assms(3) by (cases "?n - 1 - length t") (auto simp: strncpynt_bytes_def w_def)
  have len: "int (length (strncpynt_bytes t ?n)) \<le> buf_forward_capacity b"
    using assms(3) by simp
  have "is_cstr w" unfolding w_def using assms(2) by (rule is_cstr_take)
  then obtain m1 m2 where
    "write_bytes m (buf_bend b) (strncpynt_bytes t ?n) = Inr m1"
    "store m1 (ptr_add (b_data b) (b_capacity b - 1)) 0 = Inr m2"
    "read_cstr m2 (buf_bend b) = Inr w"
    "buf_inv m2 (b\<lparr>b_len := b_len b + int (length w)\<rparr>)"
    "content m2 (b\<lparr>b_len := b_len b + int (length w)\<rparr>) = content m b @ w"
    using text_append [OF assms(1) refl assms(3) zs _ len] by metis
  then show ?thesis
    using assms(3) by (auto simp: buf_puts_def Let_def)
qed

section \<open>A bounded text sink\<close>

text \<open>
  What the code that builds messages piece by piece relies on: whatever is printed, the text
  is the concatenation cut off at a fixed limit, and printing never fails.
\<close>

fun print_all :: "('s \<Rightarrow> cstr \<Rightarrow> 's option) \<Rightarrow> 's \<Rightarrow> cstr list \<Rightarrow> 's option" where
  "print_all print s [] = Some s"
| "print_all print s (t # ts) = Option.bind (print s t) (\<lambda>s'. print_all print s' ts)"

lemma print_all_append:
  "print_all print s (ts @ us) = Option.bind (print_all print s ts) (\<lambda>s'. print_all print s' us)"
  by (induction ts arbitrary: s) (simp_all add: Option.bind_assoc)

locale text_sink =
  fixes inv :: "'s \<Rightarrow> bool"
    and text_of :: "'s \<Rightarrow> cstr"
    and limit :: "'s \<Rightarrow> nat"
    and print :: "'s \<Rightarrow> cstr \<Rightarrow> 's option"
  assumes print_text: "inv s \<Longrightarrow> is_cstr t \<Longrightarrow>
        \<exists>s'. print s t = Some s' \<and> inv s' \<and> limit s' = limit s \<and> text_of s' = take (limit s) (text_of s @ t)"
    and text_limit: "inv s \<Longrightarrow> length (text_of s) \<le> limit s"
begin

lemma print_all_text:
  "inv s \<Longrightarrow> list_all is_cstr ts \<Longrightarrow>
     \<exists>s'. print_all print s ts = Some s' \<and> inv s' \<and> limit s' = limit s \<and>
          text_of s' = take (limit s) (text_of s @ concat ts)"
proof (induction ts arbitrary: s)
  case Nil
  then show ?case using text_limit [of s] by simp
next
  case (Cons t ts)
  from Cons.prems obtain s1 where s1: "print s t = Some s1" "inv s1" "limit s1 = limit s"
      "text_of s1 = take (limit s) (text_of s @ t)"
    using print_text [of s t] by auto
  from Cons.IH [OF s1(2)] Cons.prems obtain s2 where s2: "print_all print s1 ts = Some s2" "inv s2"
      "limit s2 = limit s" "text_of s2 = take (limit s) (take (limit s) (text_of s @ t) @ concat ts)"
    unfolding s1(3,4) by auto
  have "text_of s2 = take (limit s) (text_of s @ concat (t # ts))"
    using s2(4) by (simp only: take_take_append append_assoc concat.simps)
  then show ?case using s1(1) s2 by simp
qed

lemma print_all_complete:
  assumes "inv s" and "list_all is_cstr ts" and "length (text_of s) + length (concat ts) \<le> limit s"
  shows "\<exists>s'. print_all print s ts = Some s' \<and> inv s' \<and> text_of s' = text_of s @ concat ts"
  using print_all_text [OF assms(1,2)] assms(3) by auto

end

definition text_room :: "mem \<times> buffer \<Rightarrow> bool" where
  "text_room s =
     (case s of (m, b) \<Rightarrow>
        buf_inv m b \<and> buf_forward_capacity b \<ge> 1 \<and> is_cstr (content m b) \<and>
        read_bytes m (ptr_add (buf_bptr b) (b_len b)) 1 = Inr [NUL])"

lemma read_bytes_join:
  assumes "read_bytes m p n = Inr xs" and "read_bytes m (ptr_add p n) k = Inr ys" and "0 \<le> n" and "0 \<le> k"
  shows "read_bytes m p (n + k) = Inr (xs @ ys)"
proof (cases "n = 0 \<or> k = 0")
  case True
  then show ?thesis using assms by auto
next
  case False
  with assms obtain j i bs where p: "p = Ptr j i" "blocks m j = Some bs" "0 \<le> i" "i + n + k \<le> int (length bs)"
      "xs = take (nat n) (drop (nat i) bs)" "ys = take (nat k) (drop (nat (i + n)) bs)"
    by (auto simp: read_bytes_def split: if_splits ptr.splits option.splits)
  have "nat (n + k) = nat n + nat k" "nat (i + n) = nat n + nat i" using assms(3,4) p(3) by linarith+
  then have "take (nat (n + k)) (drop (nat i) bs) = xs @ ys"
    using p(5,6) by (simp add: take_add add.commute [of "nat i" "nat n"])
  moreover have "read_bytes m (Ptr j i) (n + k) = Inr (take (nat (n + k)) (drop (nat i) bs))"
    using p assms(3,4) by (intro read_bytes_Ptr) auto
  ultimately show ?thesis using p(1) by simp
qed

text \<open>The string a \<open>BSTR\<close> of a text buffer is.\<close>

lemma text_room_string:
  assumes "text_room (m, b)"
  shows "read_cstr m (buf_bptr b) = Inr (content m b)"
proof -
  have i: "buf_inv m b" and c: "is_cstr (content m b)"
    and n: "read_bytes m (ptr_add (buf_bptr b) (b_len b)) 1 = Inr [NUL]"
    using assms by (auto simp: text_room_def)
  have "read_bytes m (buf_bptr b) (b_len b + 1) = Inr (content m b @ NUL # [])"
    using read_bytes_join [OF read_content(1) [OF i] n] i by (auto simp: buf_inv_def)
  then show ?thesis using c by (rule read_cstr_of_read)
qed

definition text_limit :: "mem \<times> buffer \<Rightarrow> nat" where
  "text_limit s = (case s of (m, b) \<Rightarrow> nat (b_capacity b - b_offset b - 1))"

definition buf_print :: "mem \<times> buffer \<Rightarrow> cstr \<Rightarrow> (mem \<times> buffer) option" where
  "buf_print s t =
     (case s of (m, b) \<Rightarrow>
        (case buf_printf m b (Some t) of Inr (_, b', m') \<Rightarrow> Some (m', b') | Inl _ \<Rightarrow> None))"

lemma buf_print_Some_iff:
  "buf_print (m, b) t = Some (m', b') \<longleftrightarrow> (\<exists>r. buf_printf m b (Some t) = Inr (r, b', m'))"
  by (auto simp: buf_print_def split: sum.splits)

lemma content_length: "buf_inv m b \<Longrightarrow> length (content m b) = nat (b_len b)"
  using read_content(2) [of m b] by (simp add: nat_eq_iff2)

interpretation sink: text_sink text_room "\<lambda>(m, b). content m b" text_limit buf_print
proof (unfold_locales, goal_cases)
  case (1 s t)
  obtain m b where s: "s = (m, b)" by (cases s)
  with 1 have i: "buf_inv m b" and c: "buf_forward_capacity b > 0" and ct: "is_cstr (content m b)"
    by (auto simp: text_room_def)
  define w where "w = take (nat (buf_forward_capacity b) - 1) t"
  let ?b = "b\<lparr>b_len := b_len b + int (length w)\<rparr>"
  obtain m' where m': "buf_printf m b (Some t) = Inr (int (length t) < buf_forward_capacity b, ?b, m')"
      "buf_inv m' ?b" "content m' ?b = content m b @ w"
      "read_bytes m' (ptr_add (buf_bptr b) (b_len b + int (length w))) 1 = Inr [NUL]"
    using buf_printf_room [OF i 1(2) c] unfolding w_def by blast
  have bp: "buf_bptr ?b = buf_bptr b" using buf_inv_ptr [OF i] buf_inv_ptr [OF m'(2)] by simp
  have cw: "is_cstr (content m b @ w)" using ct 1(2) by (simp add: w_def is_cstr_take)
  have fc: "buf_forward_capacity b = b_capacity b - (b_offset b + b_len b)"
    by (rule buf_forward_capacity_inv [OF i])
  have "text_limit s - length (content m b) = nat (buf_forward_capacity b) - 1"
    using i c unfolding s text_limit_def fc content_length [OF i] prod.case buf_inv_def by arith
  moreover have "length (content m b) \<le> text_limit s"
    using i c by (simp add: s text_limit_def fc content_length [OF i])
  ultimately have "content m b @ w = take (text_limit s) (content m b @ t)"
    by (simp add: w_def)
  moreover have "int (length w) < buf_forward_capacity b"
    using c unfolding w_def by auto
  then have "buf_forward_capacity ?b \<ge> 1"
    unfolding buf_forward_capacity_inv [OF m'(2)] fc by simp
  ultimately show ?case
    using m' bp cw by (auto simp: s buf_print_def text_room_def text_limit_def)
next
  case (2 s)
  then show ?case
    by (cases s) (auto simp: text_room_def text_limit_def content_length buf_forward_capacity_inv)
qed

section \<open>Fresh buffers\<close>

lemma gc_malloc_fresh:
  assumes "\<not> oom m (nxt m)"
  shows "\<exists>m' a'. gc_malloc m sz False a = Inr (Ptr (nxt m) 0, m', a') \<and>
           blocks m' = (blocks m)(nxt m \<mapsto> map (junk m (nxt m)) [0..<sz]) \<and>
           nxt m' = Suc (nxt m) \<and> oom m' = oom m \<and>
           a' = map_option (\<lambda>ar. ar\<lparr>gc_list := nxt m # gc_list ar\<rparr>) a"
  using assms by (auto simp: gc_malloc_def c_malloc_def new_block_def split: option.splits)

lemma fresh_buf_inv:
  assumes "blocks m k = Some bs" and "length bs = sz" and "int sz < BUF_SIZE_MAX"
  defines "b \<equiv> \<lparr>b_capacity = int sz, b_offset = 0, b_len = 0, b_data = Ptr k 0\<rparr>"
  shows "buf_inv m b" and "content m b = []"
proof -
  show i: "buf_inv m b" using assms by (simp add: buf_inv_def)
  show "content m b = []" using content_length [OF i] by (simp add: b_def)
qed

lemma alloc_buf_gc_fresh:
  assumes "\<not> oom m (nxt m)" and "int sz < BUF_SIZE_MAX"
  defines "b \<equiv> \<lparr>b_capacity = int sz, b_offset = 0, b_len = 0, b_data = Ptr (nxt m) 0\<rparr>"
  shows "\<exists>m' gc'. alloc_buf_gc m sz gc = Inr (b, m', gc') \<and> buf_inv m' b \<and> content m' b = [] \<and>
           nxt m' = Suc (nxt m) \<and> oom m' = oom m \<and> (\<forall>k. k \<noteq> nxt m \<longrightarrow> blocks m' k = blocks m k) \<and>
           gc' = map_option (\<lambda>ar. ar\<lparr>gc_list := nxt m # gc_list ar\<rparr>) gc \<and>
           (0 < sz \<longrightarrow> text_room (m', b) \<and> text_limit (m', b) = sz - 1)"
proof -
  obtain m1 gc1 where m1: "gc_malloc m sz False gc = Inr (Ptr (nxt m) 0, m1, gc1)"
      "blocks m1 = (blocks m)(nxt m \<mapsto> map (junk m (nxt m)) [0..<sz])" "nxt m1 = Suc (nxt m)" "oom m1 = oom m"
      "gc1 = map_option (\<lambda>ar. ar\<lparr>gc_list := nxt m # gc_list ar\<rparr>) gc"
    using gc_malloc_fresh [OF assms(1)] by blast
  define m2 where "m2 = (if sz \<noteq> 0 then m1\<lparr>blocks := (blocks m1)
      (nxt m \<mapsto> overwrite (map (junk m (nxt m)) [0..<sz]) 0 [0])\<rparr> else m1)"
  have s: "(if sz \<noteq> 0 then store m1 (Ptr (nxt m) 0) 0 else Inr m1) = Inr m2"
    using m1(2) by (simp add: m2_def store_def write_bytes_Ptr [where bs = "map (junk m (nxt m)) [0..<sz]"])
  have b2: "blocks m2 (nxt m) = Some (if sz \<noteq> 0 then overwrite (map (junk m (nxt m)) [0..<sz]) 0 [0]
      else map (junk m (nxt m)) [0..<sz])"
    using m1(2) by (simp add: m2_def)
  have l: "length (if sz \<noteq> 0 then overwrite (map (junk m (nxt m)) [0..<sz]) 0 [0]
      else map (junk m (nxt m)) [0..<sz]) = sz" by simp
  have "alloc_buf_gc m sz gc = Inr (b, m2, gc1)"
    using m1(1) s assms(2) by (auto simp: alloc_buf_gc_def buf_size_valid_def b_def split: if_splits)
  moreover have "nxt m2 = Suc (nxt m)" and "oom m2 = oom m" and "\<forall>k. k \<noteq> nxt m \<longrightarrow> blocks m2 k = blocks m k"
    using m1(2,3,4) by (simp_all add: m2_def)
  moreover have "buf_inv m2 b" and "content m2 b = []"
    using fresh_buf_inv [OF b2 l assms(2)] unfolding b_def by auto
  moreover have "text_room (m2, b) \<and> text_limit (m2, b) = sz - 1" if "0 < sz"
  proof -
    have "read_bytes m2 (Ptr (nxt m) 0) 1 = Inr [NUL]"
      using b2 that read_bytes_Ptr [of m2 "nxt m" _ 0 1] by (simp add: overwrite_def)
    then show ?thesis
      using \<open>buf_inv m2 b\<close> \<open>content m2 b = []\<close> that buf_forward_capacity_inv [OF \<open>buf_inv m2 b\<close>]
        buf_inv_ptr [OF \<open>buf_inv m2 b\<close>]
      by (auto simp: text_room_def text_limit_def b_def)
  qed
  ultimately show ?thesis using m1(5) by blast
qed

text \<open>Printing touches no block but the buffer's own.\<close>

lemma buf_printf_frame:
  assumes "buf_printf m b txt = Inr (r, b', m')" and "b_data b = Ptr k i"
  shows "nxt m' = nxt m" and "oom m' = oom m" and "l \<noteq> k \<Longrightarrow> blocks m' l = blocks m l"
    and "b_data b' = b_data b"
proof -
  have "nxt m' = nxt m \<and> oom m' = oom m \<and> (l \<noteq> k \<longrightarrow> blocks m' l = blocks m l) \<and> b_data b' = b_data b"
  proof (cases "buf_defined b \<and> buf_forward_capacity b > 0")
    case False
    then show ?thesis using assms(1) by (auto simp: buf_printf_def Let_def split: if_splits)
  next
    case True
    then obtain m1 s where w: "write_bytes m (buf_bend b) (vsnprintf_bytes txt (nat (buf_forward_capacity b))) = Inr m1"
        "store m1 (ptr_add (b_data b) (b_capacity b - 1)) 0 = Inr m'" "b_data b' = b_data b"
      using assms(1) by (auto simp: buf_printf_def Let_def bindE_Inr_iff)
    have "buf_valid b" using True by (auto simp: buf_forward_capacity_def split: if_splits)
    then have p: "buf_bend b = Ptr k (i + (b_offset b + buf_len b))"
      using assms(2) by (simp add: buf_bend_def buf_bptr_def)
    note w1 = w(1) [unfolded p] and w2 = w(2) [unfolded store_def assms(2) ptr_add.simps]
    show ?thesis
      using write_bytes_frame [OF w1] write_bytes_frame [OF w2] write_bytes_other [OF w1] write_bytes_other [OF w2] w(3)
      by auto
  qed
  then show "nxt m' = nxt m" "oom m' = oom m" "l \<noteq> k \<Longrightarrow> blocks m' l = blocks m l" "b_data b' = b_data b"
    by auto
qed

text \<open>A text that fits a fresh buffer is there as a string.\<close>

lemma fresh_printf:
  assumes "\<not> oom m (nxt m)" and "int sz < BUF_SIZE_MAX" and "is_cstr t" and "length t < sz"
  shows "\<exists>b m1 gc' b' m'. alloc_buf_gc m sz gc = Inr (b, m1, gc') \<and> buf_printf m1 b (Some t) = Inr (True, b', m') \<and>
           buf_bptr b' = Ptr (nxt m) 0 \<and> read_cstr m' (Ptr (nxt m) 0) = Inr t \<and>
           nxt m' = Suc (nxt m) \<and> oom m' = oom m \<and> blocks m' (nxt m) \<noteq> None \<and>
           (\<forall>k. k \<noteq> nxt m \<longrightarrow> blocks m' k = blocks m k) \<and>
           gc' = map_option (\<lambda>ar. ar\<lparr>gc_list := nxt m # gc_list ar\<rparr>) gc"
proof -
  let ?b = "\<lparr>b_capacity = int sz, b_offset = 0, b_len = 0, b_data = Ptr (nxt m) 0\<rparr>"
  obtain m1 gc1 where a: "alloc_buf_gc m sz gc = Inr (?b, m1, gc1)" "buf_inv m1 ?b" "content m1 ?b = []"
      "nxt m1 = Suc (nxt m)" "oom m1 = oom m" "\<forall>k. k \<noteq> nxt m \<longrightarrow> blocks m1 k = blocks m k"
      "gc1 = map_option (\<lambda>ar. ar\<lparr>gc_list := nxt m # gc_list ar\<rparr>) gc"
    using alloc_buf_gc_fresh [OF assms(1,2)] by blast
  let ?b' = "?b\<lparr>b_len := b_len ?b + int (length t)\<rparr>"
  have fc: "int (length t) < buf_forward_capacity ?b"
    using assms(4) by (simp add: buf_forward_capacity_inv [OF a(2)])
  obtain m2 where p: "buf_printf m1 ?b (Some t) = Inr (True, ?b', m2)" "buf_inv m2 ?b'"
      "content m2 ?b' = content m1 ?b @ t" "read_bytes m2 (ptr_add (buf_bptr ?b) (b_len ?b + int (length t))) 1 = Inr [NUL]"
    by (rule buf_printf_fits [OF a(2) assms(3) fc])
  have bp: "buf_bptr ?b' = Ptr (nxt m) 0" using buf_inv_ptr [OF p(2)] by simp
  have "buf_bptr ?b = Ptr (nxt m) 0" using buf_inv_ptr [OF a(2)] by simp
  moreover have "1 \<le> buf_forward_capacity ?b'"
    using assms(4) unfolding buf_forward_capacity_inv [OF p(2)] by simp
  ultimately have "text_room (m2, ?b')"
    using p a(3) assms(3) bp by (simp add: text_room_def)
  from text_room_string [OF this] have s: "read_cstr m2 (Ptr (nxt m) 0) = Inr t"
    using p(3) a(3) bp by simp
  have "blocks m2 (nxt m) \<noteq> None" using p(2) by (auto simp: buf_inv_def room_at_def split: option.splits)
  then show ?thesis
    using a p(1) bp s buf_printf_frame [OF p(1), of "nxt m" 0] by auto
qed

section \<open>Argument lists\<close>

text \<open>The pieces \<open>print_argv\<close> prints.\<close>

fun argv_pieces :: "bool \<Rightarrow> nat \<Rightarrow> cstr list \<Rightarrow> cstr list" where
  "argv_pieces br i [] = []"
| "argv_pieces br i (cp # p) =
     (if i \<noteq> 0 then [asc '' ''] else []) @ (if br then asc ''['' @ cp @ asc '']'' else cp) # argv_pieces br (Suc i) p"

lemma print_argv_loop_print_all:
  "print_all buf_print (m, out) (argv_pieces br i p) = Some (m', out') \<Longrightarrow>
     print_argv_loop m out p i br = Inr (out', m')"
  by (induction p arbitrary: m out i)
    (auto simp: buf_print_Some_iff bind_eq_Some_conv split: if_splits)

lemma is_cstr_argv_pieces: "list_all is_cstr p \<Longrightarrow> list_all is_cstr (argv_pieces br i p)"
  by (induction p arbitrary: i) auto

lemma print_argv_text:
  assumes "\<not> oom m (nxt m)" and "list_all is_cstr p"
  shows "\<exists>m' gc' b. print_argv m p gc flags = Inr (buf_bptr b, m', gc') \<and> buf_inv m' b \<and>
           content m' b = take 255 (concat (argv_pieces (odd flags) 0 p)) \<and> text_room (m', b)"
proof -
  let ?b = "\<lparr>b_capacity = int 256, b_offset = 0, b_len = 0, b_data = Ptr (nxt m) 0\<rparr>"
  obtain m1 gc1 where a: "alloc_buf_gc m 256 gc = Inr (?b, m1, gc1)" "buf_inv m1 ?b" "content m1 ?b = []"
      and r: "text_room (m1, ?b)" and l: "text_limit (m1, ?b) = 255"
    using alloc_buf_gc_fresh [OF assms(1), of 256 gc] by (auto simp: BUF_SIZE_MAX_def)
  obtain s where "print_all buf_print (m1, ?b) (argv_pieces (odd flags) 0 p) = Some s" "text_room s"
      "(case s of (m, b) \<Rightarrow> content m b) = take 255 (concat (argv_pieces (odd flags) 0 p))"
    using sink.print_all_text [OF r is_cstr_argv_pieces [OF assms(2), of "odd flags" 0]] l a(3) by auto
  moreover obtain m2 b2 where "s = (m2, b2)" by (cases s)
  ultimately have "print_argv_loop m1 ?b p 0 (odd flags) = Inr (b2, m2)" "buf_inv m2 b2"
      "content m2 b2 = take 255 (concat (argv_pieces (odd flags) 0 p))" "text_room (m2, b2)"
    using print_argv_loop_print_all by (auto simp: text_room_def)
  then show ?thesis
    using a(1) by (auto simp: print_argv_def intro!: exI [of _ b2])
qed

section \<open>Hex dumps\<close>

fun hex_pieces :: "nat \<Rightarrow> bool \<Rightarrow> cstr option \<Rightarrow> nat \<Rightarrow> byte list \<Rightarrow> cstr list" where
  "hex_pieces block caps separator i [] = []"
| "hex_pieces block caps separator i (d # ds) =
     (case separator of Some sep \<Rightarrow> if i \<noteq> 0 \<and> i mod block = 0 then [sep] else [] | None \<Rightarrow> []) @
     hex2 caps d # hex_pieces block caps separator (Suc i) ds"

lemma hex_digit_ne0: "d < 16 \<Longrightarrow> hex_digit caps d \<noteq> 0"
proof -
  assume "d < 16"
  then have "unat (hex_digit caps d) \<noteq> 0"
    by (auto simp: hex_digit_def unat_of_nat take_bit_eq_mod)
  then show ?thesis by auto
qed

lemma is_cstr_hex2: "is_cstr (hex2 caps b)"
proof -
  have "unat b < 2 ^ LENGTH(8)" by (rule unsigned_less)
  then have "unat b div 16 < 16" by simp
  then show ?thesis by (simp add: hex2_def hex_digit_ne0)
qed

lemma is_cstr_hex_pieces:
  "(\<And>sep. separator = Some sep \<Longrightarrow> is_cstr sep) \<Longrightarrow> list_all is_cstr (hex_pieces block caps separator i ds)"
  by (induction ds arbitrary: i) (auto simp: is_cstr_hex2 split: option.splits)

lemma hex_pieces_snoc:
  "hex_pieces block caps separator i (ds @ [d]) =
     hex_pieces block caps separator i ds @
     (case separator of Some sep \<Rightarrow> if i + length ds \<noteq> 0 \<and> (i + length ds) mod block = 0 then [sep] else []
      | None \<Rightarrow> []) @ [hex2 caps d]"
  by (induction ds arbitrary: i) (auto split: option.splits)

lemma div_pred: "0 < (k :: nat) \<Longrightarrow> (n - 1) div k + (if n \<noteq> 0 \<and> n mod k = 0 then 1 else 0) \<le> n div k"
proof (cases "n \<noteq> 0 \<and> n mod k = 0")
  case True
  assume k: "0 < k"
  from True obtain q where q: "n = k * q" "q \<noteq> 0" by (metis mod_0_imp_dvd dvd_def mult_is_0)
  then have "n - 1 < k * q" using k by simp
  then have "(n - 1) div k < q" using k by (simp add: div_less_iff_less_mult mult.commute)
  with True q k show ?thesis by simp
next
  case False
  then have "(if n \<noteq> 0 \<and> n mod k = 0 then 1 else 0 :: nat) = 0" by simp
  then show ?thesis by (simp only: add_0_right) (simp add: div_le_mono)
qed

lemma hex_text_length:
  assumes "0 < block"
  shows "length (concat (hex_pieces block caps separator 0 ds)) \<le>
           length ds * 2 + ((length ds - 1) div block) * (case separator of Some s \<Rightarrow> length s | None \<Rightarrow> 0)"
proof (induction ds rule: rev_induct)
  case (snoc d ds)
  let ?n = "length ds" and ?s = "case separator of Some s \<Rightarrow> length s | None \<Rightarrow> 0"
  let ?e = "if ?n \<noteq> 0 \<and> ?n mod block = 0 then 1 else 0 :: nat"
  have "((?n - 1) div block + ?e) * ?s \<le> (?n div block) * ?s"
    using div_pred [OF assms, of ?n] by (rule mult_le_mono1)
  then have "((?n - 1) div block) * ?s + ?e * ?s \<le> (?n div block) * ?s"
    by (simp only: add_mult_distrib)
  moreover have "length (concat (hex_pieces block caps separator 0 (ds @ [d]))) =
      length (concat (hex_pieces block caps separator 0 ds)) + ?e * ?s + 2"
    by (auto simp: hex_pieces_snoc hex2_def split: option.splits)
  ultimately show ?case using snoc.IH by simp
qed simp

lemma format_hex_loop_print_all:
  "block \<noteq> 0 \<Longrightarrow> print_all buf_print (m, out) (hex_pieces block caps separator i ds) = Some (m', out') \<Longrightarrow>
     format_hex_loop m out ds i block caps separator = Inr (out', m')"
  by (induction ds arbitrary: m out i)
    (auto simp: buf_print_Some_iff bind_eq_Some_conv split: if_splits option.splits)

lemma format_hex_ex_complete:
  assumes "\<not> oom m (nxt m)" and block: "flags mod 256 \<noteq> 0"
    and sep: "\<And>sep. separator = Some sep \<Longrightarrow> is_cstr sep"
    and small: "length ds * 2 + (length ds div (flags mod 256)) *
                  (case separator of Some s \<Rightarrow> length s | None \<Rightarrow> 0) + 2 < 1000000"
  shows "\<exists>b m' gc'. format_hex_ex m ds 0 flags separator gc = Inr (b, m', gc') \<and> buf_inv m' b \<and>
           content m' b = concat (hex_pieces (flags mod 256) (flags div 256 mod 2 = 1) separator 0 ds)"
proof -
  let ?block = "flags mod 256" and ?caps = "flags div 256 mod 2 = 1"
  let ?sl = "case separator of Some s \<Rightarrow> length s | None \<Rightarrow> 0"
  let ?n = "length ds * 2 + (length ds div ?block) * ?sl + 2"
  let ?ps = "hex_pieces ?block ?caps separator 0 ds"
  let ?b = "\<lparr>b_capacity = int ?n, b_offset = 0, b_len = 0, b_data = Ptr (nxt m) 0\<rparr>"
  have "int ?n < BUF_SIZE_MAX" using small unfolding BUF_SIZE_MAX_def by linarith
  then obtain m1 gc1 where a: "alloc_buf_gc m ?n gc = Inr (?b, m1, gc1)" "buf_inv m1 ?b" "content m1 ?b = []"
      and r: "text_room (m1, ?b)" and l: "text_limit (m1, ?b) = ?n - 1"
    using alloc_buf_gc_fresh [OF assms(1), of ?n gc] by auto
  have fc: "buf_forward_capacity ?b = int ?n"
    using buf_forward_capacity_inv [OF a(2)] by simp
  have "(length ds - 1) div ?block * ?sl \<le> (length ds div ?block) * ?sl"
    by (intro mult_le_mono1 div_le_mono) simp
  then have len: "length (concat ?ps) + 2 \<le> ?n"
    using hex_text_length [of ?block ?caps separator ds] block by linarith
  obtain s where s: "print_all buf_print (m1, ?b) ?ps = Some s" "text_room s"
      "text_limit s = text_limit (m1, ?b)"
      "(case s of (m, b) \<Rightarrow> content m b) = take (text_limit (m1, ?b)) (content m1 ?b @ concat ?ps)"
    using sink.print_all_text [OF r is_cstr_hex_pieces [OF sep]] by (simp only: prod.case) blast
  obtain m2 b2 where s2: "s = (m2, b2)" by (cases s)
  have "take (?n - 1) (concat ?ps) = concat ?ps" using len by (intro take_all) linarith
  then have p: "print_all buf_print (m1, ?b) ?ps = Some (m2, b2)" "buf_inv m2 b2"
      "content m2 b2 = concat ?ps" "text_limit (m2, b2) = ?n - 1"
    using s unfolding s2 l a(3) by (simp_all add: text_room_def)
  have loop: "format_hex_loop m1 ?b ds 0 ?block ?caps separator = Inr (b2, m2)"
    using format_hex_loop_print_all [OF block p(1)] .
  have "nat (b_len b2) + 2 \<le> ?n" using len content_length [OF p(2)] p(3) by simp
  moreover have "nat (b_capacity b2 - b_offset b2 - 1) = ?n - 1"
    using p(4) by (simp add: text_limit_def)
  ultimately have "nat (b_len b2) + 1 \<le> nat (b_capacity b2 - b_offset b2 - 1)" by linarith
  then have "1 < buf_forward_capacity b2"
    using p(2) unfolding buf_forward_capacity_inv [OF p(2)] buf_inv_def by linarith
  then have "buf_catrunc m2 b2 (asc ''[more...]'') = Inr m2"
    by (simp add: buf_catrunc_def)
  with a(1) loop block p(2,3) show ?thesis
    by (auto simp: format_hex_ex_def Let_def)
qed

section \<open>Trimming and termination\<close>

lemma last_byte_content:
  assumes "buf_inv m b"
  shows "last_byte m b = Inr (if content m b = [] then None else Some (last (content m b)))"
proof (cases "content m b = []")
  case True
  then show ?thesis
    using read_content(2) [OF assms] buf_inv_len [OF assms] by (simp add: last_byte_def buf_blast_def)
next
  case False
  let ?c = "content m b"
  have l: "b_len b = int (length ?c)" using read_content(2) [OF assms] by simp
  with False have pos: "0 < b_len b" by simp
  have "read_bytes m (ptr_add (buf_bptr b) (b_len b - 1)) 1 = Inr (drop (nat (b_len b - 1)) ?c)"
    using read_bytes_split(2) [OF read_content(1) [OF assms], of "b_len b - 1"] pos by simp
  moreover have "drop (nat (b_len b - 1)) ?c = [last ?c]"
    using False l by (metis append_butlast_last_id append_eq_conv_conj length_butlast nat_int of_nat_1 of_nat_diff length_greater_0_conv Suc_leI One_nat_def)
  ultimately show ?thesis
    using False pos assms buf_inv_bptr_Null [OF assms]
    by (simp add: last_byte_def buf_blast_def load_def)
qed

definition terminated :: "bool \<Rightarrow> byte list \<Rightarrow> byte list" where
  "terminated room c =
     (if c \<noteq> [] \<and> last c = 0 then c
      else if room then c @ [0]
      else if c = [] then []
      else butlast c @ [0])"

lemma buf_null_terminate_spec:
  assumes "buf_inv m b"
  shows "\<exists>b' m'. buf_null_terminate m b = Inr (b', m') \<and> buf_inv m' b' \<and>
           content m' b' = terminated (b_offset b + b_len b < b_capacity b) (content m b)"
proof (cases "content m b \<noteq> [] \<and> last (content m b) = 0")
  case True
  then show ?thesis
    using assms by (simp add: buf_null_terminate_def last_byte_content [OF assms] terminated_def)
next
  case notz: False
  have safe: "buf_safe b 1 \<longleftrightarrow> b_offset b + b_len b < b_capacity b"
    using buf_safe_iff [OF assms, of 1] by auto
  show ?thesis
  proof (cases "b_offset b + b_len b < b_capacity b")
    case True
    then show ?thesis
      using notz safe buf_write_val_cases [OF assms, where bs = "[0]"]
      by (cases rule: buf_write_val_cases [OF assms, where bs = "[0]"])
        (auto simp: buf_null_terminate_def last_byte_content [OF assms] terminated_def buf_write_u8_def)
  next
    case noroom: False
    show ?thesis
    proof (cases "content m b = []")
      case True
      then have "b_len b = 0" using read_content(2) [OF assms] by simp
      then have "buf_inc_len b (-1) = (b, False)" using buf_inc_len_spec [OF assms] by simp
      moreover have "buf_write_val m b [0] = Inr (False, b, m)"
        using noroom by (intro buf_write_val_full [OF assms]) simp
      ultimately show ?thesis
        using True noroom safe assms
        by (simp add: buf_null_terminate_def last_byte_content [OF assms] terminated_def buf_write_u8_def)
    next
      case False
      let ?b = "b\<lparr>b_len := b_len b - 1\<rparr>"
      have l: "1 \<le> b_len b" using False read_content(2) [OF assms] by (cases "content m b") auto
      have inc: "buf_inc_len b (-1) = (?b, True)"
        using l assms by (simp add: buf_inc_len_spec [OF assms] buf_inv_def)
      have i: "buf_inv m ?b"
        using l assms by (intro buf_inv_b_len) (auto simp: buf_inv_def)
      have c: "content m ?b = butlast (content m b)"
        using content_b_len [OF assms, of "b_len b - 1"] l content_length [OF assms]
        by (simp add: butlast_conv_take nat_diff_distrib)
      have fits: "b_offset ?b + b_len ?b + int (length [0 :: byte]) \<le> b_capacity ?b"
        using assms by (simp add: buf_inv_def)
      show ?thesis
        using notz False noroom safe inc c fits
        by (cases rule: buf_write_val_cases [OF i, where bs = "[0]"])
          (auto simp: buf_null_terminate_def last_byte_content [OF assms] terminated_def buf_write_u8_def)
    qed
  qed
qed

lemma buf_chomp_loop_spec:
  assumes "buf_inv m b"
  shows "\<exists>b'. buf_chomp_loop m b = Inr b' \<and> buf_inv m b' \<and> b_offset b' = b_offset b \<and>
           b_capacity b' = b_capacity b \<and> content m b' = rstrip {13, 10, 0} (content m b)"
  using assms
proof (induction "length (content m b)" arbitrary: b)
  case 0
  then show ?case
    by (subst buf_chomp_loop.simps) (simp add: last_byte_content)
next
  case (Suc n)
  let ?c = "content m b"
  from Suc.hyps(2) have ne: "?c \<noteq> []" by auto
  have r: "rstrip {13, 10, 0} ?c = (if last ?c \<in> {13, 10, 0} then rstrip {13, 10, 0} (butlast ?c) else ?c)"
    using rstrip_snoc [of "{13, 10, 0}" "butlast ?c" "last ?c"] append_butlast_last_id [OF ne] by simp
  have cls: "char_class (last ?c) (CC_CRLF OR CC_NULL) \<longleftrightarrow> last ?c \<in> {13, 10, 0}"
    by (auto simp: char_class_CRLF_NULL)
  show ?case
  proof (cases "last ?c \<in> {13, 10, 0}")
    case True
    let ?b = "b\<lparr>b_len := b_len b - 1\<rparr>"
    have l: "1 \<le> b_len b" using ne read_content(2) [OF Suc.prems] by (cases "content m b") auto
    have inc: "buf_inc_len b (-1) = (?b, True)"
      using l Suc.prems by (simp add: buf_inc_len_spec [OF Suc.prems] buf_inv_def)
    have i: "buf_inv m ?b"
      using l Suc.prems by (intro buf_inv_b_len) (auto simp: buf_inv_def)
    have c: "content m ?b = butlast ?c"
      using content_b_len [OF Suc.prems, of "b_len b - 1"] l content_length [OF Suc.prems]
      by (simp add: butlast_conv_take nat_diff_distrib)
    have "buf_chomp_loop m b = buf_chomp_loop m ?b"
      using ne cls True inc by (subst buf_chomp_loop.simps) (simp add: last_byte_content [OF Suc.prems])
    moreover have "n = length (content m ?b)" using c Suc.hyps(2) by simp
    ultimately show ?thesis
      using Suc.hyps(1) [of ?b] i c r True by simp
  next
    case False
    then show ?thesis
      using ne cls r Suc.prems
      by (subst buf_chomp_loop.simps) (simp add: last_byte_content [OF Suc.prems])
  qed
qed

lemma buf_chomp_spec:
  assumes "buf_inv m b"
  defines "c \<equiv> rstrip {13, 10, 0} (content m b)"
  shows "\<exists>b' m'. buf_chomp m b = Inr (b', m') \<and> buf_inv m' b' \<and>
           content m' b' = (if b_offset b + int (length c) < b_capacity b then c @ [0]
                            else if c = [] then [] else butlast c @ [0])"
proof -
  obtain b1 where b1: "buf_chomp_loop m b = Inr b1" "buf_inv m b1" "b_offset b1 = b_offset b"
      "b_capacity b1 = b_capacity b" "content m b1 = c"
    using buf_chomp_loop_spec [OF assms(1)] unfolding c_def by blast
  obtain b2 m2 where b2: "buf_null_terminate m b1 = Inr (b2, m2)" "buf_inv m2 b2"
      "content m2 b2 = terminated (b_offset b1 + b_len b1 < b_capacity b1) c"
    using buf_null_terminate_spec [OF b1(2)] b1(5) by auto
  have nz: "c \<noteq> [] \<Longrightarrow> last c \<noteq> 0"
    unfolding c_def rstrip_def by (metis hd_dropWhile last_rev rev_is_Nil_conv insertCI)
  have "b_len b1 = int (length c)" using read_content(2) [OF b1(2)] b1(5) by simp
  then have "content m2 b2 = (if b_offset b + int (length c) < b_capacity b then c @ [0]
                            else if c = [] then [] else butlast c @ [0])"
    using b2(3) nz b1(3,4) by (auto simp: terminated_def)
  with b1(1) b2(1,2) show ?thesis by (auto simp: buf_chomp_def)
qed

section \<open>Parsing\<close>

lemma buf_read_u8_Cons:
  assumes "buf_inv m b" and "content m b = c # cs"
  shows "\<exists>b'. buf_read_u8 m b = Inr (uint c, b') \<and> buf_inv m b' \<and> content m b' = cs"
proof -
  have l: "1 \<le> b_len b" using read_content(2) [OF assms(1)] assms(2) by simp
  let ?b = "b\<lparr>b_offset := b_offset b + 1, b_len := b_len b - 1\<rparr>"
  obtain b' where b': "buf_advance b 1 = (b', True)" "buf_inv m b'" "content m b' = cs"
    using buf_advance_spec(1) [OF assms(1), of 1] l assms(2) by auto
  moreover have "buf_advance b 1 = (?b, True)"
    using l buf_inv_valid [OF assms(1)] b'(1) by (auto simp: buf_advance_def split: if_splits)
  ultimately have "buf_inv m ?b" and "content m ?b = cs" by auto
  then show ?thesis using buf_read_u8_spec [OF assms(1)] assms(2) by simp
qed

lemma buf_read_u8_Nil: "buf_inv m b \<Longrightarrow> content m b = [] \<Longrightarrow> buf_read_u8 m b = Inr (-1, b)"
  using buf_read_u8_spec [of m b] by simp

lemma uint_pos: "c \<noteq> 0 \<Longrightarrow> 0 < uint c" for c :: byte
  by (metis order_le_less uint_0_iff unsigned_greater_eq)

text \<open>A line that fits, up to its delimiter.\<close>

lemma buf_parse_loop_line:
  assumes "buf_inv m b" and "content m b = l @ d # rest" and "d \<noteq> 0"
    and "is_cstr l" and "d \<notin> set l" and "int (length line) = sz" and "n + length l < length line"
  shows "\<exists>b'. buf_parse_loop m b (uint d) line sz (int n) eol =
                Inr (b', overwrite line n (l @ [0]), eol) \<and> buf_inv m b' \<and> content m b' = rest"
  using assms
proof (induction l arbitrary: b line n)
  case Nil
  then obtain b' where b': "buf_read_u8 m b = Inr (uint d, b')" "buf_inv m b'" "content m b' = rest"
    using buf_read_u8_Cons [OF Nil.prems(1), of d rest] Nil.prems(2) by auto
  have "overwrite line n [0] = line[n := 0]"
    using Nil by (auto simp: overwrite_def upd_conv_take_nth_drop)
  with b' Nil show ?case
    by (subst buf_parse_loop.simps) (auto simp: Let_def arr_set_in)
next
  case (Cons c l)
  then obtain b' where b': "buf_read_u8 m b = Inr (uint c, b')" "buf_inv m b'" "content m b' = l @ d # rest"
    using buf_read_u8_Cons [OF Cons.prems(1), of c "l @ d # rest"] Cons.prems(2) by auto
  have c: "0 < uint c" "uint c \<noteq> uint d"
    using Cons.prems uint_pos [of c] by (auto simp: word_uint_eq_iff)
  have ov: "overwrite (line[n := c]) (Suc n) (l @ [0]) = overwrite line n (c # l @ [0])"
    using Cons.prems(7) by (simp add: overwrite_def take_Suc_conv_app_nth)
  obtain b2 where b2: "buf_parse_loop m b' (uint d) (line[n := c]) sz (int (Suc n)) eol =
      Inr (b2, overwrite (line[n := c]) (Suc n) (l @ [0]), eol)" "buf_inv m b2" "content m b2 = rest"
    using Cons.IH [OF b'(2,3) Cons.prems(3), of "line[n := c]" "Suc n"] Cons.prems by auto
  have "buf_parse_loop m b (uint d) line sz (int n) eol =
      buf_parse_loop m b' (uint d) (line[n := c]) sz (int (Suc n)) eol"
    using b'(1) c Cons.prems
    by (subst buf_parse_loop.simps) (simp add: Let_def arr_set_in add.commute)
  with b2 ov show ?case by simp
qed

text \<open>The last line, without a delimiter.\<close>

lemma buf_parse_loop_last:
  assumes "buf_inv m b" and "content m b = l" and "\<And>c. c \<in> set l \<Longrightarrow> uint c \<noteq> delim"
    and "is_cstr l" and "int (length line) = sz" and "n + length l < length line"
  shows "\<exists>b'. buf_parse_loop m b delim line sz (int n) eol =
                Inr (b', overwrite line n (l @ [0]), True) \<and> buf_inv m b' \<and> content m b' = []"
  using assms
proof (induction l arbitrary: b line n)
  case Nil
  have "overwrite line n [0] = line[n := 0]"
    using Nil by (auto simp: overwrite_def upd_conv_take_nth_drop)
  with Nil show ?case
    by (subst buf_parse_loop.simps) (auto simp: Let_def arr_set_in buf_read_u8_Nil)
next
  case (Cons c l)
  then obtain b' where b': "buf_read_u8 m b = Inr (uint c, b')" "buf_inv m b'" "content m b' = l"
    using buf_read_u8_Cons [OF Cons.prems(1), of c l] Cons.prems(2) by auto
  have c: "0 < uint c" "uint c \<noteq> delim" using Cons.prems uint_pos [of c] by auto
  have ov: "overwrite (line[n := c]) (Suc n) (l @ [0]) = overwrite line n (c # l @ [0])"
    using Cons.prems(6) by (simp add: overwrite_def take_Suc_conv_app_nth)
  obtain b2 where b2: "buf_parse_loop m b' delim (line[n := c]) sz (int (Suc n)) eol =
      Inr (b2, overwrite (line[n := c]) (Suc n) (l @ [0]), True)" "buf_inv m b2" "content m b2 = []"
    using Cons.IH [OF b'(2,3), of "line[n := c]" "Suc n"] Cons.prems by auto
  have "buf_parse_loop m b delim line sz (int n) eol =
      buf_parse_loop m b' delim (line[n := c]) sz (int (Suc n)) eol"
    using b'(1) c Cons.prems
    by (subst buf_parse_loop.simps) (simp add: Let_def arr_set_in add.commute)
  with b2 ov show ?case by simp
qed

lemma parse_finish:
  assumes "is_cstr l" and "length l < length line"
  shows "c_string ((overwrite line 0 (l @ [0]))[length line - 1 := 0]) = l"
    and "NUL \<in> set ((overwrite line 0 (l @ [0]))[length line - 1 := 0])"
proof -
  have "\<exists>zs. (overwrite line 0 (l @ [0]))[length line - 1 := 0] = l @ NUL # zs"
  proof (cases "length line - 1 = length l")
    case True
    then show ?thesis by (simp add: overwrite_def list_update_append)
  next
    case False
    with assms(2) have i: "length line - 1 = length (l @ [NUL]) + (length line - 2 - length l)" by simp
    have "(overwrite line 0 (l @ [0]))[length line - 1 := 0] =
        (l @ [NUL]) @ (drop (Suc (length l)) line)[length line - 2 - length l := 0]"
    proof -
      have "overwrite line 0 (l @ [0]) = (l @ [NUL]) @ drop (Suc (length l)) line"
        by (simp add: overwrite_def)
      then show ?thesis using i by (simp only: list_update_append) simp
    qed
    then show ?thesis by simp
  qed
  then show "c_string ((overwrite line 0 (l @ [0]))[length line - 1 := 0]) = l"
    and "NUL \<in> set ((overwrite line 0 (l @ [0]))[length line - 1 := 0])"
    using assms(1) by auto
qed

lemma buf_parse_line:
  assumes "buf_inv m b" and "content m b = l @ d # rest" and "d \<noteq> 0"
    and "is_cstr l" and "d \<notin> set l" and "length l < length line"
  shows "\<exists>b' line'. buf_parse m b (uint d) line (int (length line)) = Inr (True, b', line') \<and>
           c_string line' = l \<and> length line' = length line \<and> buf_inv m b' \<and> content m b' = rest"
proof -
  have ne: "line \<noteq> []" "nat (int (length line) - 1) = length line - 1" using assms(6) by auto
  obtain b' where "buf_parse_loop m b (uint d) line (int (length line)) 0 False =
      Inr (b', overwrite line 0 (l @ [0]), False)" "buf_inv m b'" "content m b' = rest"
    using buf_parse_loop_line [OF assms(1-5) refl, of 0 line False] assms(6) by auto
  then show ?thesis
    using parse_finish [OF assms(4,6)] ne assms(6)
    by (simp add: buf_parse_def c_strlen_def arr_set_in)
qed

lemma buf_parse_last:
  assumes "buf_inv m b" and "content m b = l" and "\<And>c. c \<in> set l \<Longrightarrow> uint c \<noteq> delim"
    and "is_cstr l" and "length l < length line"
  shows "\<exists>b' line'. buf_parse m b delim line (int (length line)) = Inr (l \<noteq> [], b', line') \<and>
           c_string line' = l \<and> length line' = length line \<and> buf_inv m b' \<and> content m b' = []"
proof -
  have ne: "line \<noteq> []" "nat (int (length line) - 1) = length line - 1" using assms(5) by auto
  obtain b' where "buf_parse_loop m b delim line (int (length line)) 0 False =
      Inr (b', overwrite line 0 (l @ [0]), True)" "buf_inv m b'" "content m b' = []"
    using buf_parse_loop_last [OF assms(1-4) refl, of 0 line False] assms(5) by auto
  then show ?thesis
    using parse_finish [OF assms(4,5)] ne assms(5)
    by (simp add: buf_parse_def c_strlen_def arr_set_in)
qed

section \<open>Properties\<close>

text \<open>
  Formatted output into a buffer with room appends the text, cut off so that a NUL still
  fits; the NUL is behind the new content inside the buffer, the rest of the buffer's content
  is unchanged, and the result says whether the whole text fitted.
\<close>

lemma buf_printf_truncates:
  assumes "buf_inv m b" and "is_cstr t" and "0 < buf_forward_capacity b"
  shows "\<exists>b' m'. buf_printf m b (Some t) = Inr (int (length t) < buf_forward_capacity b, b', m') \<and>
           buf_inv m' b' \<and> content m' b' = content m b @ take (nat (buf_forward_capacity b) - 1) t \<and>
           read_bytes m' (buf_bend b') 1 = Inr [NUL]"
proof -
  let ?w = "take (nat (buf_forward_capacity b) - 1) t"
  let ?b = "b\<lparr>b_len := b_len b + int (length ?w)\<rparr>"
  obtain m' where m': "buf_printf m b (Some t) = Inr (int (length t) < buf_forward_capacity b, ?b, m')"
      "buf_inv m' ?b" "content m' ?b = content m b @ ?w"
      "read_bytes m' (ptr_add (buf_bptr b) (b_len b + int (length ?w))) 1 = Inr [NUL]"
    using buf_printf_room [OF assms] by blast
  have "buf_bend ?b = ptr_add (buf_bptr b) (b_len b + int (length ?w))"
    using buf_inv_ptr [OF assms(1)] buf_inv_ptr [OF m'(2)] buf_inv_len [OF m'(2)] by (simp add: buf_bend_def)
  then show ?thesis using m' by metis
qed

text \<open>Reading a hex dump back.\<close>

definition hex_value :: "byte \<Rightarrow> nat" where
  "hex_value c = (if unat c < 58 then unat c - 48 else if unat c < 71 then unat c - 55 else unat c - 87)"

fun unhex :: "cstr \<Rightarrow> byte list" where
  "unhex (a # b # s) = of_nat (16 * hex_value a + hex_value b) # unhex s"
| "unhex _ = []"

lemma hex_value_digit: "d < 16 \<Longrightarrow> hex_value (hex_digit caps d) = d"
proof -
  assume d: "d < 16"
  have "unat (hex_digit caps d) = (if d < 10 then 48 + d else (if caps then 55 else 87) + d)"
    using d by (simp add: hex_digit_def unat_of_nat)
  then show ?thesis using d by (simp add: hex_value_def)
qed

lemma unhex_hex2: "unhex (hex2 caps b @ s) = b # unhex s"
proof -
  have "unat b < 256" using unsigned_less [of b] by simp
  then have "hex_value (hex_digit caps (unat b div 16)) = unat b div 16"
    and "hex_value (hex_digit caps (unat b mod 16)) = unat b mod 16"
    by (simp_all add: hex_value_digit)
  then show ?thesis by (simp add: hex2_def)
qed

lemma unhex_hex_pieces: "unhex (concat (hex_pieces block caps None i ds)) = ds"
  by (induction ds arbitrary: i) (simp_all add: unhex_hex2)

text \<open>
  A hex dump without an output limit is never truncated: for every data of moderate size
  the text buffer holds all digits, and reading the digits back gives the data.
\<close>

lemma format_hex_roundtrip:
  assumes "\<not> oom m (nxt m)" and "flags mod 256 \<noteq> 0" and "length ds * 2 + 2 < 1000000"
  shows "\<exists>b m' gc'. format_hex_ex m ds 0 flags None gc = Inr (b, m', gc') \<and>
           length (content m' b) = 2 * length ds \<and> unhex (content m' b) = ds"
proof -
  obtain b m' gc' where f: "format_hex_ex m ds 0 flags None gc = Inr (b, m', gc')"
      "content m' b = concat (hex_pieces (flags mod 256) (flags div 256 mod 2 = 1) None 0 ds)"
    using format_hex_ex_complete [OF assms(1,2), of None ds gc] assms(3) by auto
  have "length (concat (hex_pieces k caps None i ds)) = 2 * length ds" for k caps i
    by (induction ds arbitrary: i) (simp_all add: hex2_def)
  with f show ?thesis using unhex_hex_pieces [of "flags mod 256" "flags div 256 mod 2 = 1" 0 ds] by auto
qed

text \<open>Reading a buffer line by line with one line array.\<close>

fun parse_lines :: "nat \<Rightarrow> mem \<Rightarrow> buffer \<Rightarrow> byte \<Rightarrow> byte list \<Rightarrow> fault + cstr list \<times> buffer" where
  "parse_lines 0 m b d line = Inr ([], b)"
| "parse_lines (Suc n) m b d line =
     bindE (buf_parse m b (uint d) line (int (length line)))
       (\<lambda>(ok, b', line').
          if ok then bindE (parse_lines n m b' d line') (\<lambda>(ls, b''). Inr (c_string line' # ls, b''))
          else Inr ([], b'))"

lemma parse_lines_all:
  assumes "buf_inv m b" and "content m b = concat (map (\<lambda>l. l @ [d]) ls)" and "d \<noteq> 0"
    and "\<And>l. l \<in> set ls \<Longrightarrow> is_cstr l \<and> d \<notin> set l \<and> length l < length line" and "line \<noteq> []"
  shows "\<exists>b'. parse_lines (Suc (length ls)) m b d line = Inr (ls, b') \<and> content m b' = []"
  using assms
proof (induction ls arbitrary: b line)
  case Nil
  then show ?case using buf_parse_last [of m b "[]" "uint d" line] by auto
next
  case (Cons l ls)
  have c: "content m b = l @ d # concat (map (\<lambda>l. l @ [d]) ls)" using Cons.prems(2) by simp
  have l: "is_cstr l" "d \<notin> set l" "length l < length line" using Cons.prems(4) by auto
  obtain b1 line1 where s: "buf_parse m b (uint d) line (int (length line)) = Inr (True, b1, line1)"
      "c_string line1 = l" "length line1 = length line" "buf_inv m b1"
      "content m b1 = concat (map (\<lambda>l. l @ [d]) ls)"
    using buf_parse_line [OF Cons.prems(1) c Cons.prems(3) l] by blast
  have ne: "line1 \<noteq> []" using s(3) Cons.prems(5) by auto
  obtain b' where "parse_lines (Suc (length ls)) m b1 d line1 = Inr (ls, b')" "content m b' = []"
    using Cons.IH [OF s(4,5) Cons.prems(3) _ ne] Cons.prems(4) s(3) by auto
  then show ?case
    unfolding length_Cons parse_lines.simps(2) [of "Suc (length ls)"] s(1) by (simp add: s(2) del: parse_lines.simps)
qed

text \<open>
  Taking a buffer of delimited lines apart with a line array that is long enough yields
  exactly the lines, in order, empty ones included, and then reports the end.
\<close>

lemma buf_parse_lines:
  assumes "buf_inv m b" and "content m b = concat (map (\<lambda>l. l @ [d]) ls)" and "d \<noteq> 0"
    and "\<forall>l \<in> set ls. is_cstr l \<and> d \<notin> set l \<and> length l < length line" and "line \<noteq> []"
  shows "\<exists>b'. parse_lines (Suc (length ls)) m b d line = Inr (ls, b') \<and> content m b' = []"
  using assms by (intro parse_lines_all) auto

text \<open>
  Null-terminating a buffer always succeeds and stays inside it: an already terminated
  content is kept, a NUL is appended when there is room, and otherwise it replaces the last
  byte; afterwards the content is empty or ends in NUL.
\<close>

lemma buf_null_terminate_ends:
  assumes "buf_inv m b"
  shows "\<exists>b' m'. buf_null_terminate m b = Inr (b', m') \<and> buf_inv m' b' \<and>
           content m' b' = (let c = content m b in
             if c \<noteq> [] \<and> last c = 0 then c else if b_offset b + b_len b < b_capacity b then c @ [0]
             else if c = [] then [] else butlast c @ [0]) \<and>
           (content m' b' = [] \<or> last (content m' b') = 0)"
proof -
  obtain b' m' where "buf_null_terminate m b = Inr (b', m')" "buf_inv m' b'"
      "content m' b' = terminated (b_offset b + b_len b < b_capacity b) (content m b)"
    using buf_null_terminate_spec [OF assms] by blast
  then show ?thesis by (auto simp: terminated_def Let_def split: if_splits)
qed

end
