(* ===== verification/Buffer_List.thy ===== *)
theory Buffer_List
  imports Buffer_Text
begin

text \<open>
  \<open>struct buffer_list\<close> of \<open>src/Treiber/lib/buffer.c\<close>: a singly linked list of heap entries with
  a head and a tail pointer, each entry owning the buffer of one message. Entries are numbered;
  \<open>entries\<close> is the heap they live in, with \<open>None\<close> for an entry that was freed, so following a
  dangling \<open>next\<close> pointer or freeing an entry twice is \<open>Inl MemFault\<close>.
\<close>

section \<open>The structures\<close>

record buffer_entry =
  e_buf :: buffer
  e_next :: "nat option"

type_synonym entries = "buffer_entry option list"

record buffer_list =
  bl_head :: "nat option"
  bl_tail :: "nat option"
  bl_size :: int
  bl_max_size :: int

definition entry :: "entries \<Rightarrow> nat \<Rightarrow> fault + buffer_entry" where
  "entry es i = (if i < length es then (case es ! i of Some e \<Rightarrow> Inr e | None \<Rightarrow> Inl MemFault) else Inl MemFault)"

definition set_entry :: "entries \<Rightarrow> nat \<Rightarrow> buffer_entry \<Rightarrow> fault + entries" where
  "set_entry es i e = bindE (entry es i) (\<lambda>_. Inr (es[i := Some e]))"

definition free_entry :: "entries \<Rightarrow> nat \<Rightarrow> fault + entries" where
  "free_entry es i = bindE (entry es i) (\<lambda>_. Inr (es[i := None]))"

text \<open>\<open>ALLOC_OBJ_CLEAR(e, struct buffer_entry)\<close>.\<close>

definition alloc_entry :: "mem \<Rightarrow> entries \<Rightarrow> fault + nat \<times> mem \<times> entries" where
  "alloc_entry m es =
     (if oom m (nxt m) then Inl OutOfMemory
      else Inr (length es, m\<lparr>nxt := Suc (nxt m)\<rparr>, es @ [Some \<lparr>e_buf = clear_buf, e_next = None\<rparr>]))"

section \<open>Operations\<close>

definition buffer_list_new :: "int \<Rightarrow> buffer_list" where
  "buffer_list_new max_size = \<lparr>bl_head = None, bl_tail = None, bl_size = 0, bl_max_size = max_size\<rparr>"

definition buffer_list_defined :: "buffer_list option \<Rightarrow> bool" where
  "buffer_list_defined ol = (case ol of None \<Rightarrow> False | Some l \<Rightarrow> bl_head l \<noteq> None)"

lemma free_entry_decreases:
  assumes "free_entry es i = Inr es'"
  shows "length (filter (\<lambda>e. e \<noteq> None) es') < length (filter (\<lambda>e. e \<noteq> None) es)"
proof -
  from assms have i: "i < length es" "es ! i \<noteq> None" and es': "es' = es[i := None]"
    by (auto simp: free_entry_def entry_def bindE_Inr_iff split: if_splits option.splits)
  obtain as e bs where es: "es = as @ e # bs" and l: "length as = i"
    using i(1) id_take_nth_drop [of i es] by (intro that [of "take i es"]) auto
  then have "es' = as @ None # bs" and "e \<noteq> None" using i(2) es' by (auto simp: nth_append)
  with es show ?thesis by simp
qed

text \<open>The loop of \<open>buffer_list_reset\<close>: it ends on every list, since each turn frees an entry.\<close>

function free_chain :: "mem \<Rightarrow> entries \<Rightarrow> nat option \<Rightarrow> fault + mem \<times> entries" where
  "free_chain m es None = Inr (m, es)"
| "free_chain m es (Some i) =
     bindE (entry es i)
       (\<lambda>e. bindE (free_buf m (e_buf e))
         (\<lambda>(_, m'). bindE (free_entry es i) (\<lambda>es'. free_chain m' es' (e_next e))))"
  by pat_completeness auto
termination
  by (relation "measure (\<lambda>(_, es, _). length (filter (\<lambda>e. e \<noteq> None) es))")
    (auto dest: free_entry_decreases)

definition buffer_list_reset :: "mem \<Rightarrow> entries \<Rightarrow> buffer_list \<Rightarrow> fault + mem \<times> entries \<times> buffer_list" where
  "buffer_list_reset m es ol =
     bindE (free_chain m es (bl_head ol))
       (\<lambda>(m', es'). Inr (m', es', ol\<lparr>bl_head := None, bl_tail := None, bl_size := 0\<rparr>))"

definition buffer_list_free :: "mem \<Rightarrow> entries \<Rightarrow> buffer_list option \<Rightarrow> fault + mem \<times> entries" where
  "buffer_list_free m es ol =
     (case ol of None \<Rightarrow> Inr (m, es)
      | Some l \<Rightarrow> bindE (buffer_list_reset m es l) (\<lambda>(m', es', _). Inr (m', es')))"

definition buffer_list_push_data ::
  "mem \<Rightarrow> entries \<Rightarrow> buffer_list \<Rightarrow> byte list option \<Rightarrow>
     fault + nat option \<times> mem \<times> entries \<times> buffer_list" where
  "buffer_list_push_data m es ol data =
     (case data of
        None \<Rightarrow> Inr (None, m, es, ol)
      | Some bs \<Rightarrow>
          if bl_max_size ol = 0 \<or> bl_size ol < bl_max_size ol
          then bindE (alloc_entry m es)
            (\<lambda>(e, m1, es1). let ol1 = ol\<lparr>bl_size := bl_size ol + 1\<rparr> in
               bindE (case bl_tail ol1 of
                        Some t \<Rightarrow>
                          bindE (c_assert (bl_head ol1 \<noteq> None))
                            (\<lambda>_. bindE (entry es1 t)
                              (\<lambda>te. bindE (set_entry es1 t (te\<lparr>e_next := Some e\<rparr>)) (\<lambda>es2. Inr (es2, ol1))))
                      | None \<Rightarrow>
                          bindE (c_assert (bl_head ol1 = None))
                            (\<lambda>_. Inr (es1, ol1\<lparr>bl_head := Some e\<rparr>)))
                 (\<lambda>(es2, ol2). bindE (alloc_buf m1 (length bs))
                   (\<lambda>(b, m2). bindE (write_bytes m2 (b_data b) bs)
                     (\<lambda>m3. bindE (entry es2 e)
                       (\<lambda>ee. bindE (set_entry es2 e (ee\<lparr>e_buf := b\<lparr>b_len := int (length bs)\<rparr>\<rparr>))
                         (\<lambda>es3. Inr (Some e, m3, es3, ol2\<lparr>bl_tail := Some e\<rparr>)))))))
          else Inr (None, m, es, ol))"

definition buffer_list_push ::
  "mem \<Rightarrow> entries \<Rightarrow> buffer_list \<Rightarrow> cstr option \<Rightarrow> fault + mem \<times> entries \<times> buffer_list" where
  "buffer_list_push m es ol str =
     (case str of
        None \<Rightarrow> Inr (m, es, ol)
      | Some s \<Rightarrow>
          bindE (buffer_list_push_data m es ol (Some (s @ [NUL])))
            (\<lambda>(r, m1, es1, ol1). case r of
                None \<Rightarrow> Inr (m1, es1, ol1)
              | Some e \<Rightarrow>
                  bindE (entry es1 e)
                    (\<lambda>ee. bindE (set_entry es1 e (ee\<lparr>e_buf := (e_buf ee)\<lparr>b_len := int (length s)\<rparr>\<rparr>))
                      (\<lambda>es2. Inr (m1, es2, ol1)))))"

text \<open>The entry whose buffer \<open>buffer_list_peek\<close> points to.\<close>

definition buffer_list_peek :: "buffer_list option \<Rightarrow> nat option" where
  "buffer_list_peek ol = (case ol of None \<Rightarrow> None | Some l \<Rightarrow> bl_head l)"

definition buffer_list_pop ::
  "mem \<Rightarrow> entries \<Rightarrow> buffer_list option \<Rightarrow> fault + mem \<times> entries \<times> buffer_list option" where
  "buffer_list_pop m es ol =
     (case ol of
        None \<Rightarrow> Inr (m, es, None)
      | Some l \<Rightarrow>
          (case bl_head l of
             None \<Rightarrow> Inr (m, es, Some l)
           | Some h \<Rightarrow>
               bindE (entry es h)
                 (\<lambda>he. bindE (free_buf m (e_buf he))
                   (\<lambda>(_, m1). bindE (free_entry es h)
                     (\<lambda>es1. let l1 = l\<lparr>bl_head := e_next he, bl_size := bl_size l - 1\<rparr>
                            in Inr (m1, es1, Some (if e_next he = None then l1\<lparr>bl_tail := None\<rparr> else l1)))))))"

definition buffer_list_advance ::
  "mem \<Rightarrow> entries \<Rightarrow> buffer_list \<Rightarrow> int \<Rightarrow> fault + mem \<times> entries \<times> buffer_list" where
  "buffer_list_advance m es ol n =
     (case bl_head ol of
        None \<Rightarrow> Inr (m, es, ol)
      | Some h \<Rightarrow>
          bindE (entry es h)
            (\<lambda>he. let (b, ok) = buf_advance (e_buf he) n in
              bindE (c_assert ok)
                (\<lambda>_. bindE (set_entry es h (he\<lparr>e_buf := b\<rparr>))
                  (\<lambda>es1. if buf_len b = 0
                         then bindE (buffer_list_pop m es1 (Some ol))
                                (\<lambda>(m2, es2, ol2). case ol2 of Some l \<Rightarrow> Inr (m2, es2, l) | None \<Rightarrow> Inl MemFault)
                         else Inr (m, es1, ol)))))"

section \<open>Aggregation\<close>

text \<open>
  The first loop of \<open>buffer_list_aggregate_separator\<close> counts the entries to join. Nothing in
  the code stops it on a cyclic list of empty messages, so it takes a bound on its turns: one
  more than the number of entries ever allocated, which a list without a cycle never needs.
  Sizes are \<open>size_t\<close>.
\<close>

fun aggregate_scan ::
  "nat \<Rightarrow> entries \<Rightarrow> nat option \<Rightarrow> nat \<Rightarrow> nat \<Rightarrow> nat \<Rightarrow> nat \<Rightarrow> fault + nat option \<times> nat \<times> nat" where
  "aggregate_scan fuel es None sep_len max_len sz count = Inr (None, sz, count)"
| "aggregate_scan 0 es (Some i) sep_len max_len sz count = Inl OutOfFuel"
| "aggregate_scan (Suc fuel) es (Some i) sep_len max_len sz count =
     bindE (entry es i)
       (\<lambda>e. let extra_len = nat (buf_len (e_buf e)) + sep_len
            in if (sz + extra_len) mod 2 ^ 64 > max_len then Inr (Some i, sz, count)
               else aggregate_scan fuel es (e_next e) sep_len max_len ((sz + extra_len) mod 2 ^ 64) (Suc count))"

text \<open>The second loop copies \<open>n\<close> entries into the buffer of the new entry \<open>f\<close> and frees them.\<close>

fun aggregate_copy ::
  "nat \<Rightarrow> mem \<Rightarrow> entries \<Rightarrow> nat option \<Rightarrow> nat \<Rightarrow> cstr \<Rightarrow> fault + mem \<times> entries" where
  "aggregate_copy n m es None f sep = Inr (m, es)"
| "aggregate_copy 0 m es (Some i) f sep = Inr (m, es)"
| "aggregate_copy (Suc n) m es (Some i) f sep =
     bindE (entry es i)
       (\<lambda>e. bindE (entry es f)
         (\<lambda>fe. bindE (buf_copy m (e_buf fe) (e_buf e))
           (\<lambda>(_, b1, m1). bindE (buf_write_val m1 b1 sep)
             (\<lambda>(_, b2, m2). bindE (set_entry es f (fe\<lparr>e_buf := b2\<rparr>))
               (\<lambda>es1. bindE (free_buf m2 (e_buf e))
                 (\<lambda>(_, m3). bindE (free_entry es1 i)
                   (\<lambda>es2. aggregate_copy n m3 es2 (e_next e) f sep)))))))"

definition buffer_list_aggregate_separator ::
  "mem \<Rightarrow> entries \<Rightarrow> buffer_list \<Rightarrow> nat \<Rightarrow> cstr \<Rightarrow> fault + mem \<times> entries \<times> buffer_list" where
  "buffer_list_aggregate_separator m es bl max_len sep =
     bindE (aggregate_scan (Suc (length es)) es (bl_head bl) (length sep) max_len 0 0)
       (\<lambda>(more, sz, count).
          if count \<ge> 2
          then bindE (alloc_entry m es)
            (\<lambda>(f, m1, es1). bindE (alloc_buf m1 ((sz + 1) mod 2 ^ 64))
              (\<lambda>(b, m2). bindE (set_entry es1 f \<lparr>e_buf = b, e_next = None\<rparr>)
                (\<lambda>es2. bindE (aggregate_copy count m2 es2 (bl_head bl) f sep)
                  (\<lambda>(m3, es3). bindE (entry es3 f)
                    (\<lambda>fe. bindE (set_entry es3 f (fe\<lparr>e_next := more\<rparr>))
                      (\<lambda>es4. let bl1 = bl\<lparr>bl_head := Some f, bl_size := bl_size bl - (int count - 1)\<rparr>
                             in Inr (m3, es4, if more = None then bl1\<lparr>bl_tail := Some f\<rparr> else bl1)))))))
          else Inr (m, es, bl))"

definition buffer_list_aggregate ::
  "mem \<Rightarrow> entries \<Rightarrow> buffer_list \<Rightarrow> nat \<Rightarrow> fault + mem \<times> entries \<times> buffer_list" where
  "buffer_list_aggregate m es bl max_len = buffer_list_aggregate_separator m es bl max_len []"

section \<open>Reading a file\<close>

text \<open>\<open>lines\<close> are the strings the calls of \<open>fgets\<close> returned.\<close>

fun push_lines :: "mem \<Rightarrow> entries \<Rightarrow> buffer_list \<Rightarrow> cstr list \<Rightarrow> fault + mem \<times> entries \<times> buffer_list" where
  "push_lines m es bl [] = Inr (m, es, bl)"
| "push_lines m es bl (l # ls) =
     bindE (buffer_list_push m es bl (Some l)) (\<lambda>(m', es', bl'). push_lines m' es' bl' ls)"

definition buffer_list_file ::
  "mem \<Rightarrow> entries \<Rightarrow> bool \<Rightarrow> cstr list \<Rightarrow> nat \<Rightarrow> fault + mem \<times> entries \<times> buffer_list option" where
  "buffer_list_file m es fopen_ok lines max_line_len =
     (if \<not> fopen_ok then Inr (m, es, None)
      else (let (line, m1) = c_malloc m max_line_len
            in if line = Null then Inr (m1, es, None)
               else bindE (push_lines m1 es (buffer_list_new 0) lines)
                      (\<lambda>(m2, es2, bl). bindE (c_free m2 line) (\<lambda>m3. Inr (m3, es2, Some bl)))))"

end
