(* ===== verification/Buffer_List_Laws.thy ===== *)
theory Buffer_List_Laws
  imports Buffer_List
begin

text \<open>
  The linked list of theory Buffer_List implements a queue of messages: \<open>bl_rep\<close> relates the
  heap, the entries and the two end pointers to the list of messages queued, and every
  operation is refined to the list operation it stands for. The interface \<open>fifo\<close> states the
  contract; it is interpreted on the linked list.
\<close>

section \<open>Chains of entries\<close>

text \<open>
  A chain from \<open>p\<close> to \<open>q\<close>, given by the entry number, the memory block and the message of each
  of its entries.
\<close>

fun chain :: "mem \<Rightarrow> entries \<Rightarrow> nat option \<Rightarrow> (nat \<times> nat \<times> byte list) list \<Rightarrow> nat option \<Rightarrow> bool" where
  "chain m es p [] q \<longleftrightarrow> p = q"
| "chain m es p ((i, k, x) # ns) q \<longleftrightarrow>
     p = Some i \<and> i < length es \<and>
     (\<exists>e. es ! i = Some e \<and> b_data (e_buf e) = Ptr k 0 \<and> buf_inv m (e_buf e) \<and>
          content m (e_buf e) = x \<and> chain m es (e_next e) ns q)"

definition ids :: "(nat \<times> nat \<times> byte list) list \<Rightarrow> nat list" where
  "ids ns = map fst ns"

definition blks :: "(nat \<times> nat \<times> byte list) list \<Rightarrow> nat list" where
  "blks ns = map (\<lambda>(_, k, _). k) ns"

definition msgs :: "(nat \<times> nat \<times> byte list) list \<Rightarrow> byte list list" where
  "msgs ns = map (\<lambda>(_, _, x). x) ns"

lemma proj_simps [simp]:
  "ids [] = []" "ids ((i, k, x) # ns) = i # ids ns" "ids (ns @ ns') = ids ns @ ids ns'"
  "blks [] = []" "blks ((i, k, x) # ns) = k # blks ns" "blks (ns @ ns') = blks ns @ blks ns'"
  "msgs [] = []" "msgs ((i, k, x) # ns) = x # msgs ns" "msgs (ns @ ns') = msgs ns @ msgs ns'"
  "length (ids ns) = length ns" "length (msgs ns) = length ns"
  "ids ns = [] \<longleftrightarrow> ns = []" "msgs ns = [] \<longleftrightarrow> ns = []"
  by (auto simp: ids_def blks_def msgs_def)

lemma buf_block_frame:
  assumes "b_data b = Ptr k i" and "blocks m' k = blocks m k"
  shows "buf_inv m' b \<longleftrightarrow> buf_inv m b" and "content m' b = content m b"
proof -
  show i: "buf_inv m' b \<longleftrightarrow> buf_inv m b"
    using assms by (simp add: buf_inv_def room_at_def)
  show "content m' b = content m b"
    using assms by (simp add: content_def read_bytes_def buf_bptr_def)
qed

text \<open>A chain only depends on its own entries and blocks.\<close>

lemma chain_frame:
  assumes "chain m es p ns q"
    and "\<And>i. i \<in> set (ids ns) \<Longrightarrow> i < length es' \<and> es' ! i = es ! i"
    and "\<And>k. k \<in> set (blks ns) \<Longrightarrow> blocks m' k = blocks m k"
  shows "chain m' es' p ns q"
  using assms
proof (induction ns arbitrary: p)
  case (Cons n ns)
  obtain i k x where n: "n = (i, k, x)" by (cases n)
  with Cons.prems(1) obtain e where e: "p = Some i" "i < length es" "es ! i = Some e" "b_data (e_buf e) = Ptr k 0"
      "buf_inv m (e_buf e)" "content m (e_buf e) = x" "chain m es (e_next e) ns q"
    by auto
  moreover have "chain m' es' (e_next e) ns q"
    using Cons.IH [OF e(7)] Cons.prems(2,3) n by auto
  ultimately show ?case
    using Cons.prems(2) [of i] Cons.prems(3) [of k] n buf_block_frame [of "e_buf e" k 0 m' m] by auto
qed simp

lemma chain_append:
  "chain m es p (ns @ ns') q \<longleftrightarrow> (\<exists>r. chain m es p ns r \<and> chain m es r ns' q)"
proof (induction ns arbitrary: p)
  case (Cons n ns)
  obtain i k x where "n = (i, k, x)" by (cases n)
  with Cons show ?case by auto
qed simp

lemma chain_ids: "chain m es p ns q \<Longrightarrow> i \<in> set (ids ns) \<Longrightarrow> i < length es \<and> es ! i \<noteq> None"
  by (induction m es p ns q rule: chain.induct) auto

lemma chain_blks:
  "chain m es p ns q \<Longrightarrow> k \<in> set (blks ns) \<Longrightarrow> blocks m k \<noteq> None"
  by (induction m es p ns q rule: chain.induct) (auto simp: buf_inv_def room_at_def split: option.splits)

lemma chain_start: "chain m es p ns q \<Longrightarrow> p = (case ns of [] \<Rightarrow> q | (i, _, _) # _ \<Rightarrow> Some i)"
  by (cases ns) auto

section \<open>The representation relation\<close>

definition bl_nodes :: "mem \<Rightarrow> entries \<Rightarrow> buffer_list \<Rightarrow> (nat \<times> nat \<times> byte list) list \<Rightarrow> bool" where
  "bl_nodes m es ol ns \<longleftrightarrow>
     mem_ok m \<and> chain m es (bl_head ol) ns None \<and> distinct (ids ns) \<and> distinct (blks ns) \<and>
     bl_tail ol = (if ns = [] then None else Some (last (ids ns))) \<and> bl_size ol = int (length ns)"

definition bl_rep :: "mem \<Rightarrow> entries \<Rightarrow> buffer_list \<Rightarrow> byte list list \<Rightarrow> bool" where
  "bl_rep m es ol xs \<longleftrightarrow> (\<exists>ns. bl_nodes m es ol ns \<and> xs = msgs ns)"

lemma bl_rep_new: "mem_ok m \<Longrightarrow> bl_rep m es (buffer_list_new n) []"
  unfolding bl_rep_def by (intro exI [of _ "[]"]) (simp add: bl_nodes_def buffer_list_new_def)

lemma bl_rep_head: "bl_rep m es ol xs \<Longrightarrow> bl_head ol = None \<longleftrightarrow> xs = []"
  by (auto simp: bl_rep_def bl_nodes_def dest: chain_start split: list.splits)

lemma entry_simps [simp]:
  "entry es i = Inr e \<longleftrightarrow> i < length es \<and> es ! i = Some e"
  by (auto simp: entry_def split: option.splits)

lemma entry_in: "i < length es \<Longrightarrow> es ! i = Some e \<Longrightarrow> entry es i = Inr e"
  by simp

lemma set_entry_in: "i < length es \<Longrightarrow> es ! i \<noteq> None \<Longrightarrow> set_entry es i e = Inr (es[i := Some e])"
  by (auto simp: set_entry_def entry_in)

lemma free_entry_in: "i < length es \<Longrightarrow> es ! i \<noteq> None \<Longrightarrow> free_entry es i = Inr (es[i := None])"
  by (auto simp: free_entry_def entry_in)

lemma nth_update_other: "i \<notin> A \<Longrightarrow> j \<in> A \<Longrightarrow> xs[i := x] ! j = xs ! j"
  by (cases "i = j") auto

lemma chain_entries_change:
  assumes "chain m es p ns q" and "i \<notin> set (ids ns)"
  shows "chain m (es[i := x]) p ns q"
  using assms by (intro chain_frame [OF assms(1)]) (auto simp: nth_update_other dest: chain_ids [OF assms(1)])

lemma chain_entries_append:
  assumes "chain m es p ns q"
  shows "chain m (es @ es') p ns q"
  using assms by (intro chain_frame [OF assms(1)]) (auto simp: nth_append dest: chain_ids [OF assms(1)])

section \<open>Taking the first message\<close>

lemma free_buf_block:
  assumes "buf_inv m b" and "b_data b = Ptr k 0"
  shows "free_buf m b = Inr (clear_buf, m\<lparr>blocks := (blocks m)(k := None)\<rparr>)"
  using assms by (auto simp: free_buf_def c_free_def buf_inv_def room_at_def split: option.splits)

lemma mem_ok_free: "mem_ok m \<Longrightarrow> mem_ok (m\<lparr>blocks := (blocks m)(k := None)\<rparr>)"
  by (simp add: mem_ok_def)

lemma bl_nodes_head:
  assumes "bl_nodes m es ol ((i, k, x) # ns)"
  obtains e where "bl_head ol = Some i" and "i < length es" and "es ! i = Some e"
    and "b_data (e_buf e) = Ptr k 0" and "buf_inv m (e_buf e)" and "content m (e_buf e) = x"
    and "chain m es (e_next e) ns None" and "i \<notin> set (ids ns)" and "k \<notin> set (blks ns)"
  using assms by (auto simp: bl_nodes_def)

lemma pop_nodes:
  assumes "bl_nodes m es ol ((i, k, x) # ns)"
  shows "\<exists>ol'. buffer_list_pop m es (Some ol) =
             Inr (m\<lparr>blocks := (blocks m)(k := None)\<rparr>, es[i := None], Some ol') \<and>
           bl_nodes (m\<lparr>blocks := (blocks m)(k := None)\<rparr>) (es[i := None]) ol' ns \<and>
           bl_max_size ol' = bl_max_size ol"
proof -
  obtain e where e: "bl_head ol = Some i" "i < length es" "es ! i = Some e"
    "b_data (e_buf e) = Ptr k 0" "buf_inv m (e_buf e)" "content m (e_buf e) = x"
    "chain m es (e_next e) ns None" "i \<notin> set (ids ns)" "k \<notin> set (blks ns)"
    using bl_nodes_head [OF assms] by metis
  let ?m = "m\<lparr>blocks := (blocks m)(k := None)\<rparr>" and ?es = "es[i := None]"
  have "chain ?m ?es (e_next e) ns None"
    using e(8,9) by (intro chain_frame [OF e(7)]) (auto simp: nth_update_other dest: chain_ids [OF e(7)])
  moreover have "e_next e = None \<longleftrightarrow> ns = []"
    using chain_start [OF e(7)] by (auto split: list.splits)
  ultimately show ?thesis
    using assms e
    by (auto simp: buffer_list_pop_def entry_in free_buf_block free_entry_in Let_def bl_nodes_def
        mem_ok_free)
qed

lemma pop_rep:
  assumes "bl_rep m es ol xs"
  shows "\<exists>m' es' ol'. buffer_list_pop m es (Some ol) = Inr (m', es', Some ol') \<and>
           bl_rep m' es' ol' (tl xs) \<and> bl_max_size ol' = bl_max_size ol"
proof -
  obtain ns where ns: "bl_nodes m es ol ns" "xs = msgs ns" using assms by (auto simp: bl_rep_def)
  show ?thesis
  proof (cases ns)
    case Nil
    then show ?thesis using ns assms by (auto simp: buffer_list_pop_def bl_nodes_def)
  next
    case (Cons n ns')
    obtain i k x where "n = (i, k, x)" by (cases n)
    then show ?thesis using pop_nodes ns Cons unfolding bl_rep_def by fastforce
  qed
qed

text \<open>What \<open>buffer_list_peek\<close> points to is the first message.\<close>

lemma peek_rep:
  assumes "bl_rep m es ol (x # xs)"
  shows "\<exists>i e. buffer_list_peek (Some ol) = Some i \<and> entry es i = Inr e \<and>
           buf_inv m (e_buf e) \<and> content m (e_buf e) = x"
proof -
  obtain ns where ns: "bl_nodes m es ol ns" "x # xs = msgs ns" using assms by (auto simp: bl_rep_def)
  then obtain i k ns' where "ns = (i, k, x) # ns'" by (cases ns) auto
  then show ?thesis
    using ns by (auto simp: buffer_list_peek_def elim!: bl_nodes_head)
qed

section \<open>Reset\<close>

lemma free_chain_nodes:
  assumes "chain m es p ns None" and "distinct (ids ns)" and "distinct (blks ns)"
  shows "\<exists>es'. free_chain m es p =
             Inr (m\<lparr>blocks := (\<lambda>k. if k \<in> set (blks ns) then None else blocks m k)\<rparr>, es') \<and>
           length es' = length es \<and> (\<forall>i. i \<in> set (ids ns) \<longrightarrow> es' ! i = None) \<and>
           (\<forall>i. i \<notin> set (ids ns) \<longrightarrow> es' ! i = es ! i)"
  using assms
proof (induction ns arbitrary: m es p)
  case Nil
  then show ?case by simp
next
  case (Cons n ns)
  obtain i k x where n: "n = (i, k, x)" by (cases n)
  with Cons.prems obtain e where e: "p = Some i" "i < length es" "es ! i = Some e" "b_data (e_buf e) = Ptr k 0"
      "buf_inv m (e_buf e)" "chain m es (e_next e) ns None"
    by auto
  let ?m = "m\<lparr>blocks := (blocks m)(k := None)\<rparr>" and ?es = "es[i := None]"
  have nin: "i \<notin> set (ids ns)" "k \<notin> set (blks ns)" using Cons.prems n by auto
  have c: "chain ?m ?es (e_next e) ns None"
    using nin by (intro chain_frame [OF e(6)]) (auto simp: nth_update_other dest: chain_ids [OF e(6)])
  obtain es' where es': "free_chain ?m ?es (e_next e) =
        Inr (?m\<lparr>blocks := (\<lambda>k. if k \<in> set (blks ns) then None else blocks ?m k)\<rparr>, es')"
      "length es' = length es" "\<forall>i. i \<in> set (ids ns) \<longrightarrow> es' ! i = None"
      "\<forall>i. i \<notin> set (ids ns) \<longrightarrow> es' ! i = ?es ! i"
    using Cons.IH [OF c] Cons.prems n by auto
  have "free_chain m es p = free_chain ?m ?es (e_next e)"
    using e by (simp add: entry_in free_buf_block free_entry_in)
  moreover have "?m\<lparr>blocks := (\<lambda>k. if k \<in> set (blks ns) then None else blocks ?m k)\<rparr> =
      m\<lparr>blocks := (\<lambda>j. if j \<in> set (blks (n # ns)) then None else blocks m j)\<rparr>"
    using n by (auto intro!: mem.equality)
  moreover have "es' ! i = None" using es'(4) nin e by simp
  ultimately show ?case using es' n nin by auto
qed

lemma reset_rep:
  assumes "bl_rep m es ol xs"
  shows "\<exists>m' es' ol'. buffer_list_reset m es ol = Inr (m', es', ol') \<and> bl_rep m' es' ol' [] \<and>
           bl_max_size ol' = bl_max_size ol"
proof -
  obtain ns where ns: "bl_nodes m es ol ns" using assms by (auto simp: bl_rep_def)
  then have c: "chain m es (bl_head ol) ns None" "distinct (ids ns)" "distinct (blks ns)" and mo: "mem_ok m"
    by (auto simp: bl_nodes_def)
  obtain es' where es': "free_chain m es (bl_head ol) =
      Inr (m\<lparr>blocks := (\<lambda>k. if k \<in> set (blks ns) then None else blocks m k)\<rparr>, es')"
    using free_chain_nodes [OF c] by auto
  moreover have "mem_ok (m\<lparr>blocks := (\<lambda>k. if k \<in> set (blks ns) then None else blocks m k)\<rparr>)"
    using mo by (simp add: mem_ok_def)
  ultimately show ?thesis
    unfolding bl_rep_def by (auto simp: buffer_list_reset_def bl_nodes_def intro!: exI [of _ "[]"])
qed

section \<open>Appending a message\<close>

lemma chain_link:
  assumes "chain m es p (ns @ [(t, k, x)]) None" and "t \<notin> set (ids ns)" and "es ! t = Some te"
  shows "chain m (es[t := Some (te\<lparr>e_next := Some j\<rparr>)]) p (ns @ [(t, k, x)]) (Some j)"
  using assms chain_entries_change [of m es p ns "Some t" t "Some (te\<lparr>e_next := Some j\<rparr>)"]
  by (auto simp: chain_append)

lemma bl_tail_link:
  assumes "bl_nodes m es ol ns" and "bl_tail ol = Some t"
  shows "\<exists>te. t < length es \<and> es ! t = Some te \<and>
           chain m (es[t := Some (te\<lparr>e_next := Some j\<rparr>)]) (bl_head ol) ns (Some j)"
proof -
  from assms have "ns \<noteq> []" by (auto simp: bl_nodes_def)
  then obtain ns' n where "ns = ns' @ [n]" by (metis rev_exhaust)
  moreover obtain i k x where "n = (i, k, x)" by (cases n)
  ultimately have ns: "ns = ns' @ [(t, k, x)]" using assms by (auto simp: bl_nodes_def)
  have c: "chain m es (bl_head ol) (ns' @ [(t, k, x)]) None" and d: "t \<notin> set (ids ns')"
    using assms ns by (auto simp: bl_nodes_def)
  from c obtain te where te: "t < length es" "es ! t = Some te" by (auto simp: chain_append)
  with chain_link [OF c d te(2)] ns show ?thesis by blast
qed

definition new_node :: "mem \<Rightarrow> entries \<Rightarrow> byte list \<Rightarrow> nat \<times> nat \<times> byte list" where
  "new_node m es bs = (length es, Suc (nxt m), bs)"

definition own_buf :: "nat \<Rightarrow> byte list \<Rightarrow> buffer" where
  "own_buf k bs = \<lparr>b_capacity = int (length bs), b_offset = 0, b_len = int (length bs), b_data = Ptr k 0\<rparr>"

lemma own_buf_inv:
  "blocks m k = Some bs \<Longrightarrow> int (length bs) < BUF_SIZE_MAX \<Longrightarrow> buf_inv m (own_buf k bs)"
  by (simp add: own_buf_def buf_inv_def)

lemma own_buf_content:
  assumes "blocks m k = Some bs" and "int (length bs) < BUF_SIZE_MAX"
  shows "content m (own_buf k bs) = bs"
  using own_buf_inv [OF assms] assms(1)
  by (intro contentI) (auto simp: buf_inv_ptr read_bytes_Ptr own_buf_def)

text \<open>The memory after a message was stored in a fresh block.\<close>

definition stored :: "mem \<Rightarrow> byte list \<Rightarrow> mem" where
  "stored m bs = m\<lparr>nxt := Suc (Suc (nxt m)), blocks := (blocks m)(Suc (nxt m) \<mapsto> bs)\<rparr>"

lemma stored_blocks [simp]: "blocks (stored m bs) (Suc (nxt m)) = Some bs"
  by (simp add: stored_def)

lemma mem_update_swap: "m\<lparr>blocks := B, nxt := N\<rparr> = m\<lparr>nxt := N, blocks := B\<rparr>"
  by (cases m) simp

lemma alloc_and_store:
  assumes "\<not> oom m (Suc (nxt m))" and "int (length bs) < BUF_SIZE_MAX"
  shows "bindE (alloc_buf (m\<lparr>nxt := Suc (nxt m)\<rparr>) (length bs))
           (\<lambda>(b, m2). bindE (write_bytes m2 (b_data b) bs) (\<lambda>m3. f b m3)) =
         f ((own_buf (Suc (nxt m)) bs)\<lparr>b_len := 0\<rparr>) (stored m bs)"
  using assms
  by (auto simp: alloc_buf_def buf_size_valid_def c_calloc_def new_block_def write_bytes_def own_buf_def
      stored_def overwrite_def mem_update_swap)

lemma chain_new:
  assumes "bl_nodes m es ol ns" and "int (length bs) < BUF_SIZE_MAX"
    and "chain m es' p ns (Some (length es))" and "length es' = Suc (length es)"
  defines "e \<equiv> \<lparr>e_buf = own_buf (Suc (nxt m)) bs, e_next = None\<rparr>"
  shows "chain (stored m bs) (es'[length es := Some e]) p (ns @ [new_node m es bs]) None"
    and "length es \<notin> set (ids ns)" and "Suc (nxt m) \<notin> set (blks ns)"
proof -
  have c: "chain m es (bl_head ol) ns None" and mo: "mem_ok m" using assms(1) by (auto simp: bl_nodes_def)
  show i: "length es \<notin> set (ids ns)" using chain_ids [OF c] by blast
  show k: "Suc (nxt m) \<notin> set (blks ns)" using chain_blks [OF c, of "Suc (nxt m)"] mo by (auto simp: mem_ok_def)
  have "chain (stored m bs) (es'[length es := Some e]) p ns (Some (length es))"
    using i k assms(4)
    by (intro chain_frame [OF assms(3)])
      (auto simp: nth_update_other stored_def dest: chain_ids [OF assms(3)])
  then show "chain (stored m bs) (es'[length es := Some e]) p (ns @ [new_node m es bs]) None"
    using assms(2,4) own_buf_inv [of "stored m bs" "Suc (nxt m)" bs] own_buf_content [of "stored m bs" "Suc (nxt m)" bs]
    by (auto simp: chain_append new_node_def e_def own_buf_def)
qed

lemma push_data_ok:
  assumes "bl_nodes m es ol ns" and "bl_max_size ol = 0 \<or> bl_size ol < bl_max_size ol"
    and "\<not> oom m (nxt m)" and "\<not> oom m (Suc (nxt m))" and "int (length bs) < BUF_SIZE_MAX"
  shows "\<exists>es' ol'. buffer_list_push_data m es ol (Some bs) = Inr (Some (length es), stored m bs, es', ol') \<and>
           bl_nodes (stored m bs) es' ol' (ns @ [new_node m es bs]) \<and> bl_max_size ol' = bl_max_size ol \<and>
           length es < length es' \<and> es' ! length es = Some \<lparr>e_buf = own_buf (Suc (nxt m)) bs, e_next = None\<rparr>"
proof -
  let ?new = "\<lparr>e_buf = clear_buf, e_next = None\<rparr>"
  let ?e = "\<lparr>e_buf = own_buf (Suc (nxt m)) bs, e_next = None\<rparr>"
  have c: "chain m es (bl_head ol) ns None" using assms(1) by (simp add: bl_nodes_def)
  have ne: "(own_buf k bs)\<lparr>b_len := int (length bs)\<rparr> = own_buf k bs" for k by (simp add: own_buf_def)
  have mo: "mem_ok (stored m bs)" using assms(1) by (auto simp: bl_nodes_def stored_def mem_ok_def)
  note d = assms(1) [unfolded bl_nodes_def]
  show ?thesis
  proof (cases "bl_tail ol")
    case None
    then have ns: "ns = []" using d by (auto split: if_splits)
    then have h: "bl_head ol = None" using c by simp
    have "chain m (es @ [Some ?new]) (Some (length es)) ns (Some (length es))" using ns by simp
    from chain_new(1) [OF assms(1,5) this] ns
    have cc: "chain (stored m bs) ((es @ [Some ?new])[length es := Some ?e]) (Some (length es)) [new_node m es bs] None"
      by auto
    show ?thesis
      using assms(2,3) None h ns d mo cc
      by (simp add: buffer_list_push_data_def alloc_entry_def Let_def alloc_and_store [OF assms(4,5)]
          entry_in set_entry_in bl_nodes_def new_node_def ne)
  next
    case (Some t)
    then obtain te where te: "t < length es" "es ! t = Some te"
        "chain m (es[t := Some (te\<lparr>e_next := Some (length es)\<rparr>)]) (bl_head ol) ns (Some (length es))"
      using bl_tail_link [OF assms(1)] by blast
    let ?es = "es[t := Some (te\<lparr>e_next := Some (length es)\<rparr>)] @ [Some ?new]"
    have h: "bl_head ol \<noteq> None" using Some c d chain_start [OF c] by (auto split: list.splits if_splits)
    have e1: "entry (es @ [Some ?new]) t = Inr te" "set_entry (es @ [Some ?new]) t x = Inr (es[t := Some x] @ [Some ?new])" for x
      using te by (auto simp: nth_append set_entry_in list_update_append)
    have "chain m ?es (bl_head ol) ns (Some (length es))" by (rule chain_entries_append [OF te(3)])
    from chain_new [OF assms(1,5) this]
    have cc: "chain (stored m bs) (?es[length es := Some ?e]) (bl_head ol) (ns @ [new_node m es bs]) None"
        "length es \<notin> set (ids ns)" "Suc (nxt m) \<notin> set (blks ns)"
      by auto
    have e2: "entry ?es (length es) = Inr ?new" "set_entry ?es (length es) x = Inr (?es[length es := Some x])" for x
      by (auto simp: nth_append set_entry_in)
    have pd: "buffer_list_push_data m es ol (Some bs) = Inr (Some (length es), stored m bs, ?es[length es := Some ?e],
        ol\<lparr>bl_size := bl_size ol + 1, bl_tail := Some (length es)\<rparr>)"
      using assms(2,3) Some h
      by (simp add: buffer_list_push_data_def alloc_entry_def Let_def e1 e2 ne alloc_and_store [OF assms(4,5)]
          del: entry_simps)
    have "?es[length es := Some ?e] ! length es = Some ?e" by simp
    with pd cc mo d show ?thesis by (auto simp: bl_nodes_def new_node_def)
  qed
qed

lemma chain_last_entry:
  assumes "chain m es p (ns @ [(j, k, x)]) None" and "j \<notin> set (ids ns)"
    and "b_data (e_buf e) = Ptr k 0" and "buf_inv m (e_buf e)" and "e_next e = None"
  shows "chain m (es[j := Some e]) p (ns @ [(j, k, content m (e_buf e))]) None"
  using assms chain_entries_change [of m es p ns "Some j" j "Some e"]
  by (auto simp: chain_append)

definition bl_push_spec :: "int \<Rightarrow> 'a list \<Rightarrow> 'a \<Rightarrow> 'a list" where
  "bl_push_spec limit xs x = (if limit = 0 \<or> int (length xs) < limit then xs @ [x] else xs)"

lemma bl_rep_size: "bl_rep m es ol xs \<Longrightarrow> bl_size ol = int (length xs)"
  by (auto simp: bl_rep_def bl_nodes_def)

lemma push_full:
  assumes "bl_rep m es ol xs" and "\<not> (bl_max_size ol = 0 \<or> bl_size ol < bl_max_size ol)"
  shows "buffer_list_push m es ol (Some s) = Inr (m, es, ol)"
  using assms by (simp add: buffer_list_push_def buffer_list_push_data_def)

lemma push_nodes:
  assumes "bl_nodes m es ol ns" and "bl_max_size ol = 0 \<or> bl_size ol < bl_max_size ol"
    and "\<not> oom m (nxt m)" and "\<not> oom m (Suc (nxt m))" and "int (length s) + 1 < BUF_SIZE_MAX"
  shows "\<exists>m' es' ol'. buffer_list_push m es ol (Some s) = Inr (m', es', ol') \<and>
           bl_nodes m' es' ol' (ns @ [(length es, Suc (nxt m), s)]) \<and> bl_max_size ol' = bl_max_size ol \<and>
           nxt m' = Suc (Suc (nxt m)) \<and> oom m' = oom m"
proof -
  let ?bs = "s @ [NUL]" and ?k = "Suc (nxt m)" and ?j = "length es"
  let ?e = "\<lparr>e_buf = (own_buf ?k ?bs)\<lparr>b_len := int (length s)\<rparr>, e_next = None\<rparr>"
  have len: "int (length ?bs) < BUF_SIZE_MAX" using assms(5) by simp
  obtain es1 ol1 where p: "buffer_list_push_data m es ol (Some ?bs) = Inr (Some ?j, stored m ?bs, es1, ol1)"
      and n1: "bl_nodes (stored m ?bs) es1 ol1 (ns @ [new_node m es ?bs])"
      and e1: "bl_max_size ol1 = bl_max_size ol" "?j < length es1"
        "es1 ! ?j = Some \<lparr>e_buf = own_buf ?k ?bs, e_next = None\<rparr>"
    using push_data_ok [OF assms(1-4) len] by metis
  have b: "blocks (stored m ?bs) ?k = Some ?bs" by simp
  have c: "content (stored m ?bs) (e_buf ?e) = s"
    using content_b_len [OF own_buf_inv [OF b len], of "int (length s)"] own_buf_content [OF b len]
    by (simp add: own_buf_def)
  have i: "buf_inv (stored m ?bs) (e_buf ?e)"
    using buf_inv_b_len [OF own_buf_inv [OF b len], of "int (length s)"] by (simp add: own_buf_def)
  have "chain (stored m ?bs) (es1[?j := Some ?e]) (bl_head ol1) (ns @ [(?j, ?k, s)]) None"
    using chain_last_entry [of "stored m ?bs" es1 "bl_head ol1" ns ?j ?k ?bs ?e] n1 i c
    by (auto simp: bl_nodes_def new_node_def own_buf_def)
  then have "bl_nodes (stored m ?bs) (es1[?j := Some ?e]) ol1 (ns @ [(?j, ?k, s)])"
    using n1 by (simp add: bl_nodes_def new_node_def)
  moreover have "buffer_list_push m es ol (Some s) = Inr (stored m ?bs, es1[?j := Some ?e], ol1)"
    using p e1 by (simp add: buffer_list_push_def entry_in set_entry_in)
  ultimately show ?thesis
    using e1(1) by (auto simp: stored_def)
qed

lemma push_room:
  assumes "bl_rep m es ol xs" and "bl_max_size ol = 0 \<or> bl_size ol < bl_max_size ol"
    and "\<not> oom m (nxt m)" and "\<not> oom m (Suc (nxt m))" and "int (length s) + 1 < BUF_SIZE_MAX"
  shows "\<exists>m' es' ol'. buffer_list_push m es ol (Some s) = Inr (m', es', ol') \<and>
           bl_rep m' es' ol' (xs @ [s]) \<and> bl_max_size ol' = bl_max_size ol"
proof -
  obtain ns where ns: "bl_nodes m es ol ns" "xs = msgs ns" using assms(1) by (auto simp: bl_rep_def)
  obtain m' es' ol' where p: "buffer_list_push m es ol (Some s) = Inr (m', es', ol')"
      "bl_nodes m' es' ol' (ns @ [(length es, Suc (nxt m), s)])" "bl_max_size ol' = bl_max_size ol"
    using push_nodes [OF ns(1) assms(2-5)] by auto
  moreover have "bl_rep m' es' ol' (xs @ [s])"
    unfolding bl_rep_def using p(2) ns(2) by (intro exI conjI) auto
  ultimately show ?thesis by auto
qed

lemma push_Inr_room:
  assumes "buffer_list_push m es ol (Some s) = Inr r" and "bl_max_size ol = 0 \<or> bl_size ol < bl_max_size ol"
  shows "\<not> oom m (nxt m)" and "\<not> oom m (Suc (nxt m))" and "int (length s) + 1 < BUF_SIZE_MAX"
  using assms
  by (auto simp: buffer_list_push_def buffer_list_push_data_def bindE_Inr_iff alloc_entry_def alloc_buf_def Let_def
      c_calloc_def new_block_def buf_size_valid_def split: if_splits)

lemma push_rep:
  assumes "bl_rep m es ol xs" and "buffer_list_push m es ol (Some s) = Inr (m', es', ol')"
  shows "bl_rep m' es' ol' (bl_push_spec (bl_max_size ol) xs s)" and "bl_max_size ol' = bl_max_size ol"
proof -
  show "bl_rep m' es' ol' (bl_push_spec (bl_max_size ol) xs s)"
  proof (cases "bl_max_size ol = 0 \<or> bl_size ol < bl_max_size ol")
    case True
    from push_room [OF assms(1) True push_Inr_room [OF assms(2) True]] show ?thesis
      using assms True by (auto simp: bl_push_spec_def bl_rep_size)
  next
    case False
    from push_full [OF assms(1) this] show ?thesis
      using assms False by (auto simp: bl_push_spec_def bl_rep_size)
  qed
  show "bl_max_size ol' = bl_max_size ol"
  proof (cases "bl_max_size ol = 0 \<or> bl_size ol < bl_max_size ol")
    case True
    from push_room [OF assms(1) True push_Inr_room [OF assms(2) True]] show ?thesis
      using assms by auto
  next
    case False
    from push_full [OF assms(1) this] show ?thesis using assms by auto
  qed
qed

section \<open>The queue interface\<close>

text \<open>
  What a client of a bounded queue relies on. \<open>rep\<close> relates a state to the list of queued
  elements; \<open>enq\<close> may fail (no memory), \<open>deq\<close> may not.
\<close>

locale fifo =
  fixes rep :: "'s \<Rightarrow> 'x list \<Rightarrow> bool"
    and limit :: "'s \<Rightarrow> int"
    and enq :: "'s \<Rightarrow> 'x \<Rightarrow> 'e + 's"
    and front :: "'s \<Rightarrow> 'x option"
    and deq :: "'s \<Rightarrow> 'e + 's"
  assumes enq_rep: "rep s xs \<Longrightarrow> enq s x = Inr s' \<Longrightarrow> rep s' (bl_push_spec (limit s) xs x)"
    and enq_limit: "rep s xs \<Longrightarrow> enq s x = Inr s' \<Longrightarrow> limit s' = limit s"
    and front_rep: "rep s xs \<Longrightarrow> front s = (case xs of [] \<Rightarrow> None | x # _ \<Rightarrow> Some x)"
    and deq_rep: "rep s xs \<Longrightarrow> \<exists>s'. deq s = Inr s' \<and> rep s' (tl xs)"

text \<open>A producer that queues a list, and a consumer that takes the front until the queue is empty.\<close>

fun enq_all :: "('s \<Rightarrow> 'x \<Rightarrow> 'e + 's) \<Rightarrow> 's \<Rightarrow> 'x list \<Rightarrow> 'e + 's" where
  "enq_all enq s [] = Inr s"
| "enq_all enq s (x # xs) = bindE (enq s x) (\<lambda>s'. enq_all enq s' xs)"

fun drain :: "('s \<Rightarrow> 'x option) \<Rightarrow> ('s \<Rightarrow> 'e + 's) \<Rightarrow> nat \<Rightarrow> 's \<Rightarrow> 'e + 'x list \<times> 's" where
  "drain front deq 0 s = Inr ([], s)"
| "drain front deq (Suc n) s =
     (case front s of
        None \<Rightarrow> Inr ([], s)
      | Some x \<Rightarrow> bindE (deq s) (\<lambda>s'. bindE (drain front deq n s') (\<lambda>(xs, s''). Inr (x # xs, s''))))"

lemma bl_push_spec_limited:
  assumes "0 < l" and "int (length xs) \<le> l"
  shows "foldl (bl_push_spec l) xs ys = xs @ take (nat l - length xs) ys"
  using assms
proof (induction ys arbitrary: xs)
  case (Cons y ys)
  show ?case
  proof (cases "int (length xs) < l")
    case True
    then have e: "nat l - length xs = Suc (nat l - length (xs @ [y]))" by simp
    show ?thesis
      using True Cons.IH [of "xs @ [y]"] Cons.prems unfolding e by (simp add: bl_push_spec_def)
  next
    case False
    then have "nat l - length xs = 0" by simp
    then show ?thesis using False Cons.IH [of xs] Cons.prems by (simp add: bl_push_spec_def)
  qed
qed simp

lemma bl_push_spec_unlimited: "foldl (bl_push_spec 0) xs ys = xs @ ys"
  by (induction ys arbitrary: xs) (simp_all add: bl_push_spec_def)

context fifo
begin

lemma enq_all_rep:
  "rep s xs \<Longrightarrow> enq_all enq s ys = Inr s' \<Longrightarrow>
     rep s' (foldl (bl_push_spec (limit s)) xs ys) \<and> limit s' = limit s"
proof (induction ys arbitrary: s xs)
  case (Cons y ys)
  then obtain s1 where s1: "enq s y = Inr s1" "enq_all enq s1 ys = Inr s'" by (auto elim: bindE_InrE)
  show ?case
    using Cons.IH [OF enq_rep [OF Cons.prems(1) s1(1)] s1(2)] enq_limit [OF Cons.prems(1) s1(1)] by simp
qed auto

lemma drain_rep:
  "rep s xs \<Longrightarrow> length xs \<le> n \<Longrightarrow> \<exists>s'. drain front deq n s = Inr (xs, s') \<and> rep s' []"
proof (induction n arbitrary: s xs)
  case 0
  then show ?case by simp
next
  case (Suc n)
  show ?case
  proof (cases xs)
    case Nil
    then show ?thesis using Suc.prems front_rep [of s xs] by auto
  next
    case (Cons x xs')
    obtain s1 where s1: "deq s = Inr s1" "rep s1 xs'"
      using deq_rep [OF Suc.prems(1)] Cons by auto
    show ?thesis
      using Suc.IH [OF s1(2)] Suc.prems(2) s1 Cons front_rep [OF Suc.prems(1)] by auto
  qed
qed

lemma produce_consume:
  assumes "rep s []" and "enq_all enq s ys = Inr s'" and "0 \<le> limit s" and "length ys \<le> n"
  shows "\<exists>s''. drain front deq n s' = Inr (if limit s = 0 then ys else take (nat (limit s)) ys, s'') \<and>
           rep s'' []"
proof -
  have "rep s' (if limit s = 0 then ys else take (nat (limit s)) ys)"
    using enq_all_rep [OF assms(1,2)] bl_push_spec_limited [of "limit s" "[]" ys] assms(3)
      bl_push_spec_unlimited [of "[]" ys]
    by (auto split: if_splits)
  then show ?thesis using assms(4) by (intro drain_rep) auto
qed

end

text \<open>The linked list, as a state of three parts, provides it.\<close>

definition bl_enq :: "mem \<times> entries \<times> buffer_list \<Rightarrow> cstr \<Rightarrow> fault + mem \<times> entries \<times> buffer_list" where
  "bl_enq = (\<lambda>(m, es, ol) s. buffer_list_push m es ol (Some s))"

definition bl_front :: "mem \<times> entries \<times> buffer_list \<Rightarrow> byte list option" where
  "bl_front = (\<lambda>(m, es, ol).
     case buffer_list_peek (Some ol) of
       None \<Rightarrow> None
     | Some i \<Rightarrow> (case entry es i of Inr e \<Rightarrow> Some (content m (e_buf e)) | Inl _ \<Rightarrow> None))"

definition bl_deq :: "mem \<times> entries \<times> buffer_list \<Rightarrow> fault + mem \<times> entries \<times> buffer_list" where
  "bl_deq = (\<lambda>(m, es, ol). bindE (buffer_list_pop m es (Some ol))
     (\<lambda>(m', es', ol'). case ol' of Some l \<Rightarrow> Inr (m', es', l) | None \<Rightarrow> Inl MemFault))"

interpretation bl: fifo "\<lambda>(m, es, ol). bl_rep m es ol" "\<lambda>(m, es, ol). bl_max_size ol" bl_enq bl_front bl_deq
proof unfold_locales
  fix s s' :: "mem \<times> entries \<times> buffer_list" and xs x
  obtain m es ol where s: "s = (m, es, ol)" by (cases s)
  obtain m' es' ol' where s': "s' = (m', es', ol')" by (cases s')
  assume r: "(case s of (m, es, ol) \<Rightarrow> bl_rep m es ol) xs" and e: "bl_enq s x = Inr s'"
  then show "(case s' of (m, es, ol) \<Rightarrow> bl_rep m es ol) (bl_push_spec (case s of (m, es, ol) \<Rightarrow> bl_max_size ol) xs x)"
    and "(case s' of (m, es, ol) \<Rightarrow> bl_max_size ol) = (case s of (m, es, ol) \<Rightarrow> bl_max_size ol)"
    using push_rep [of m es ol xs x m' es' ol'] by (simp_all add: s s' bl_enq_def)
next
  fix s :: "mem \<times> entries \<times> buffer_list" and xs
  obtain m es ol where s: "s = (m, es, ol)" by (cases s)
  assume r: "(case s of (m, es, ol) \<Rightarrow> bl_rep m es ol) xs"
  show "bl_front s = (case xs of [] \<Rightarrow> None | x # _ \<Rightarrow> Some x)"
  proof (cases xs)
    case Nil
    then show ?thesis using r bl_rep_head [of m es ol xs] by (simp add: s bl_front_def buffer_list_peek_def)
  next
    case (Cons x ys)
    then obtain i e where "buffer_list_peek (Some ol) = Some i" "entry es i = Inr e" "content m (e_buf e) = x"
      using peek_rep [of m es ol x ys] r by (auto simp: s)
    then show ?thesis using Cons by (simp add: s bl_front_def entry_in)
  qed
  show "\<exists>s'. bl_deq s = Inr s' \<and> (case s' of (m, es, ol) \<Rightarrow> bl_rep m es ol) (tl xs)"
    using pop_rep [of m es ol xs] r by (auto simp: s bl_deq_def)
qed

section \<open>Properties\<close>

lemma bl_enq_total:
  assumes "bl_rep m es ol xs" and "\<forall>k. \<not> oom m k" and "int (length s) + 1 < BUF_SIZE_MAX"
  shows "\<exists>m' es' ol'. bl_enq (m, es, ol) s = Inr (m', es', ol') \<and> oom m' = oom m \<and>
           bl_rep m' es' ol' (bl_push_spec (bl_max_size ol) xs s) \<and> bl_max_size ol' = bl_max_size ol"
proof -
  obtain ns where ns: "bl_nodes m es ol ns" "xs = msgs ns" using assms(1) by (auto simp: bl_rep_def)
  show ?thesis
  proof (cases "bl_max_size ol = 0 \<or> bl_size ol < bl_max_size ol")
    case True
    then obtain m' es' ol' where p: "buffer_list_push m es ol (Some s) = Inr (m', es', ol')" "oom m' = oom m"
      using push_nodes [OF ns(1) True] assms(2,3) by blast
    then show ?thesis using push_rep [OF assms(1) p(1)] by (auto simp: bl_enq_def)
  next
    case False
    then show ?thesis
      using push_full [OF assms(1) False] push_rep [OF assms(1) push_full [OF assms(1) False]]
      by (auto simp: bl_enq_def)
  qed
qed

lemma bl_enq_all_total:
  assumes "bl_rep m es ol xs" and "\<forall>k. \<not> oom m k" and "\<forall>y \<in> set ys. int (length y) + 1 < BUF_SIZE_MAX"
  shows "\<exists>s'. enq_all bl_enq (m, es, ol) ys = Inr s'"
  using assms
proof (induction ys arbitrary: m es ol xs)
  case (Cons y ys)
  have "int (length y) + 1 < BUF_SIZE_MAX" using Cons.prems(3) by simp
  then obtain m' es' ol' where e: "bl_enq (m, es, ol) y = Inr (m', es', ol')" "oom m' = oom m"
      "bl_rep m' es' ol' (bl_push_spec (bl_max_size ol) xs y)"
    using bl_enq_total [OF Cons.prems(1,2)] by blast
  show ?case using Cons.IH [OF e(3)] e Cons.prems(2,3) by simp
qed simp

text \<open>
  C13: A producer pushes any sequence of strings onto a new list and a consumer takes entries
  from the front until none is left: while memory lasts nothing faults, and the consumer gets
  the strings in order, all of them for an unbounded list, the first \<open>max_size\<close> for a bounded
  one.
\<close>

theorem buffer_list_fifo:
  assumes "mem_ok m" and "\<forall>k. \<not> oom m k" and "\<forall>y \<in> set ys. int (length y) + 1 < BUF_SIZE_MAX"
    and "0 \<le> max_size"
  shows "\<exists>s s'. enq_all bl_enq (m, es, buffer_list_new max_size) ys = Inr s \<and>
           drain bl_front bl_deq (length ys) s = Inr (if max_size = 0 then ys else take (nat max_size) ys, s')"
proof -
  have r: "bl_rep m es (buffer_list_new max_size) []" by (rule bl_rep_new [OF assms(1)])
  obtain s where s: "enq_all bl_enq (m, es, buffer_list_new max_size) ys = Inr s"
    using bl_enq_all_total [OF r assms(2,3)] by blast
  have mx: "bl_max_size (buffer_list_new max_size) = max_size" by (simp add: buffer_list_new_def)
  show ?thesis
    using bl.produce_consume [of "(m, es, buffer_list_new max_size)" ys s "length ys"] r s mx assms(4) by auto
qed

theorem buffer_list_fifo_witness:
  "\<exists>s s'. enq_all bl_enq (empty_mem, [], buffer_list_new 2) [[65], [], [66]] = Inr s \<and>
     drain bl_front bl_deq 3 s = Inr ([[65], []], s')"
  using buffer_list_fifo [of empty_mem "[[65], [], [66]]" 2 "[]"]
  by (simp add: empty_mem_def mem_ok_def BUF_SIZE_MAX_def numeral_3_eq_3 numeral_2_eq_2 del: enq_all.simps drain.simps)

end
