(* ===== verification/Buffer_Aggregate.thy ===== *)
theory Buffer_Aggregate
  imports Buffer_List_Laws
begin

text \<open>
  \<open>buffer_list_aggregate_separator\<close> of \<open>src/Treiber/lib/buffer.c\<close> against its specification
  \<open>agg_spec\<close>: as many leading messages as fit in \<open>max_len\<close> bytes, each followed by the
  separator, become one message, if there are at least two of them.
\<close>

section \<open>Specification\<close>

fun agg_count :: "nat \<Rightarrow> nat \<Rightarrow> nat \<Rightarrow> 'a list list \<Rightarrow> nat" where
  "agg_count max_len sl used [] = 0"
| "agg_count max_len sl used (x # xs) =
     (if used + (length x + sl) > max_len then 0 else Suc (agg_count max_len sl (used + (length x + sl)) xs))"

definition joined :: "'a list \<Rightarrow> 'a list list \<Rightarrow> 'a list" where
  "joined sep xs = concat (map (\<lambda>x. x @ sep) xs)"

definition agg_spec :: "nat \<Rightarrow> 'a list \<Rightarrow> 'a list list \<Rightarrow> 'a list list" where
  "agg_spec max_len sep xs =
     (let n = agg_count max_len (length sep) 0 xs
      in if n \<ge> 2 then joined sep (take n xs) # drop n xs else xs)"

lemma joined_simps [simp]:
  "joined sep [] = []"
  "joined sep (x # xs) = x @ sep @ joined sep xs"
  by (simp_all add: joined_def)

lemma agg_count_le: "agg_count max_len sl used xs \<le> length xs"
  by (induction max_len sl used xs rule: agg_count.induct) auto

lemma agg_count_fits:
  "used \<le> max_len \<Longrightarrow> used + length (joined sep (take (agg_count max_len (length sep) used xs) xs)) \<le> max_len"
proof (induction xs arbitrary: used)
  case (Cons x xs)
  show ?case using Cons.IH [of "used + (length x + length sep)"] Cons.prems by (simp add: add.assoc)
qed simp

section \<open>The counting loop\<close>

lemma chain_entry:
  assumes "chain m es p ((i, k, x) # ns) q"
  obtains e where "p = Some i" and "i < length es" and "es ! i = Some e" and "b_data (e_buf e) = Ptr k 0"
    and "buf_inv m (e_buf e)" and "content m (e_buf e) = x" and "chain m es (e_next e) ns q"
  using assms by auto

lemma content_len: "buf_inv m b \<Longrightarrow> nat (buf_len b) = length (content m b)"
  using read_content(2) [of m b] by simp

lemma content_bound: "buf_inv m b \<Longrightarrow> length (content m b) < 1000000"
  using read_content(2) [of m b] by (auto simp: buf_inv_def BUF_SIZE_MAX_def)

lemma no_size_wrap:
  assumes "sz \<le> max_len" and "max_len < 2 ^ 63" and "x < 1000000" and "sl < 2 ^ 31"
  shows "(sz + (x + sl)) mod 2 ^ 64 = (sz + (x + sl) :: nat)"
  using assms by simp

lemma aggregate_scan_chain:
  assumes "chain m es p ns None" and "length ns < fuel" and "sz \<le> max_len" and "max_len < 2 ^ 63" and "sl < 2 ^ 31"
  defines "n \<equiv> agg_count max_len sl sz (msgs ns)"
  shows "\<exists>more sz'. aggregate_scan fuel es p sl max_len sz c = Inr (more, sz', c + n) \<and>
           sz' = sz + sum_list (map (\<lambda>x. length x + sl) (take n (msgs ns))) \<and>
           chain m es p (take n ns) more \<and> chain m es more (drop n ns) None"
  using assms(1-3) unfolding n_def
proof (induction ns arbitrary: p fuel sz c)
  case Nil
  then show ?case by simp
next
  case (Cons n ns)
  obtain i k x where n: "n = (i, k, x)" by (cases n)
  obtain f where f: "fuel = Suc f" using Cons.prems(2) by (cases fuel) auto
  from Cons.prems(1) [unfolded n] obtain e where e: "p = Some i" "i < length es" "es ! i = Some e"
      "b_data (e_buf e) = Ptr k 0" "buf_inv m (e_buf e)" "content m (e_buf e) = x" "chain m es (e_next e) ns None"
    by (rule chain_entry)
  have len: "nat (buf_len (e_buf e)) = length x" "length x < 1000000"
    using content_len [OF e(5)] content_bound [OF e(5)] e(6) by simp_all
  have w: "(sz + (length x + sl)) mod 2 ^ 64 = sz + (length x + sl)"
    using no_size_wrap [OF Cons.prems(3) assms(4) len(2) assms(5)] .
  have step: "aggregate_scan fuel es p sl max_len sz c =
      (if sz + (length x + sl) > max_len then Inr (Some i, sz, c)
       else aggregate_scan f es (e_next e) sl max_len (sz + (length x + sl)) (Suc c))"
    using w by (simp add: f e(1) entry_in [OF e(2,3)] len(1) Let_def del: entry_simps)
  show ?case
  proof (cases "sz + (length x + sl) > max_len")
    case True
    then show ?thesis using step Cons.prems(1) n e(1) by simp
  next
    case False
    have "length ns < f" using Cons.prems(2) f by simp
    from Cons.IH [OF e(7) this, of "sz + (length x + sl)" "Suc c"] False
    show ?thesis using step e n by (auto simp: add.assoc)
  qed
qed

section \<open>The copying loop\<close>

lemma c_memcpy_disjoint:
  assumes "read_bytes m q n = Inr bs" and "p = Ptr k i" and "q = Ptr l j" and "k \<noteq> l"
  shows "c_memcpy m p q n = write_bytes m p bs"
  using assms by (auto simp: c_memcpy_def overlap_def)

lemma buf_copy_other:
  assumes "buf_inv m d" and "buf_inv m s" and "b_data d = Ptr k 0" and "b_data s = Ptr l 0" and "k \<noteq> l"
    and "b_offset d + b_len d + b_len s \<le> b_capacity d"
  defines "d' \<equiv> d\<lparr>b_len := b_len d + b_len s\<rparr>"
  shows "\<exists>m'. buf_copy m d s = Inr (True, d', m') \<and> buf_inv m' d' \<and>
           content m' d' = content m d @ content m s \<and> mem_ok m' = mem_ok m \<and> (\<forall>j. j \<noteq> k \<longrightarrow> blocks m' j = blocks m j)"
proof -
  let ?p = "ptr_add (buf_bptr d) (b_len d)"
  have len: "int (length (content m s)) = b_len s" by (rule read_content(2) [OF assms(2)])
  have p: "?p = Ptr k (b_offset d + b_len d)" "buf_bptr s = Ptr l (b_offset s)"
    using assms(3,4) by (simp_all add: buf_inv_ptr [OF assms(1)] buf_inv_ptr [OF assms(2)])
  have "room_at m ?p (int (length (content m s)))"
    using buf_inv_tail_room [OF assms(1), of "b_len s"] assms(6) len by simp
  then obtain m' where w: "write_bytes m ?p (content m s) = Inr m'" by (rule room_write)
  have "c_memcpy m ?p (buf_bptr s) (b_len s) = Inr m'"
    using c_memcpy_disjoint [OF read_content(1) [OF assms(2)] p assms(5)] w by simp
  moreover have "0 \<le> b_len s" "b_offset d + b_len d + int (length (content m s)) \<le> b_capacity d"
    using assms(2,6) len by (auto simp: buf_inv_def)
  ultimately have "buf_copy m d s = Inr (True, d', m')"
    using assms(1,2,6) p by (simp add: buf_copy_def buf_write_def buf_write_alloc_spec [OF assms(1)] d'_def)
  moreover have "mem_ok m' = mem_ok m"
    using w p by (auto simp: write_bytes_def mem_ok_def split: if_splits option.splits)
  moreover have "\<forall>j. j \<noteq> k \<longrightarrow> blocks m' j = blocks m j"
    using write_bytes_other [OF w [unfolded p]] by auto
  moreover have "b_offset d + b_len d + int (length (content m s)) \<le> b_capacity d" using assms(6) len by simp
  ultimately show ?thesis
    using content_append [OF assms(1) _ w] len unfolding d'_def by auto
qed

lemma write_val_own:
  assumes "buf_inv m d" and "b_data d = Ptr k 0" and "b_offset d + b_len d + int (length bs) \<le> b_capacity d"
  defines "d' \<equiv> d\<lparr>b_len := b_len d + int (length bs)\<rparr>"
  shows "\<exists>m'. buf_write_val m d bs = Inr (True, d', m') \<and> buf_inv m' d' \<and>
           content m' d' = content m d @ bs \<and> mem_ok m' = mem_ok m \<and> (\<forall>j. j \<noteq> k \<longrightarrow> blocks m' j = blocks m j)"
proof -
  obtain m' where m': "buf_write_val m d bs = Inr (True, d', m')"
      and w: "write_bytes m (ptr_add (buf_bptr d) (b_len d)) bs = Inr m'"
    using buf_write_val_fits [OF assms(1,3)] unfolding d'_def by blast
  have p: "ptr_add (buf_bptr d) (b_len d) = Ptr k (b_offset d + b_len d)"
    using assms(2) by (simp add: buf_inv_ptr [OF assms(1)])
  have "mem_ok m' = mem_ok m"
    using w p by (auto simp: write_bytes_def mem_ok_def split: if_splits option.splits)
  moreover have "\<forall>j. j \<noteq> k \<longrightarrow> blocks m' j = blocks m j"
    using write_bytes_other [OF w [unfolded p]] by auto
  ultimately show ?thesis using m' content_append [OF assms(1,3) w] unfolding d'_def by auto
qed

lemma content_simple: "\<lbrakk>b_data b = Ptr k 0; blocks m' k = blocks m k\<rbrakk> \<Longrightarrow> content m' b = content m b"
  by (rule buf_block_frame(2))

text \<open>One turn: the first entry is copied behind the target's content and freed.\<close>

lemma aggregate_copy_step:
  assumes c: "chain m es p ((i, k, x) # ns) q"
    and f: "f < length es" "es ! f = Some fe" "f \<noteq> i" "b_data (e_buf fe) = Ptr kf 0" "kf \<noteq> k"
    and b: "buf_inv m (e_buf fe)" "mem_ok m"
      "b_offset (e_buf fe) + b_len (e_buf fe) + int (length (x @ sep)) \<le> b_capacity (e_buf fe)"
  shows "\<exists>r m' es' b. aggregate_copy (Suc n) m es p f sep = aggregate_copy n m' es' r f sep \<and>
           chain m es r ns q \<and> buf_inv m' b \<and> content m' b = content m (e_buf fe) @ x @ sep \<and> mem_ok m' \<and>
           b_data b = Ptr kf 0 \<and> b_capacity b = b_capacity (e_buf fe) \<and>
           b_offset b = b_offset (e_buf fe) \<and> b_len b = b_len (e_buf fe) + int (length (x @ sep)) \<and>
           length es' = length es \<and> es' = es[f := Some (fe\<lparr>e_buf := b\<rparr>), i := None] \<and>
           (\<forall>j. j \<noteq> kf \<longrightarrow> j \<noteq> k \<longrightarrow> blocks m' j = blocks m j)"
proof -
  from c obtain e where e: "p = Some i" "i < length es" "es ! i = Some e"
      "b_data (e_buf e) = Ptr k 0" "buf_inv m (e_buf e)" "content m (e_buf e) = x" "chain m es (e_next e) ns q"
    by (rule chain_entry)
  have len: "b_len (e_buf e) = int (length x)" using read_content(2) [OF e(5)] e(6) by simp
  define b1 where "b1 = (e_buf fe)\<lparr>b_len := b_len (e_buf fe) + b_len (e_buf e)\<rparr>"
  obtain m1 where m1: "buf_copy m (e_buf fe) (e_buf e) = Inr (True, b1, m1)" "buf_inv m1 b1"
      "content m1 b1 = content m (e_buf fe) @ x" "mem_ok m1" "\<forall>j. j \<noteq> kf \<longrightarrow> blocks m1 j = blocks m j"
    using buf_copy_other [OF b(1) e(5) f(4) e(4) f(5)] b(2,3) e(6) len unfolding b1_def by auto
  define b2 where "b2 = b1\<lparr>b_len := b_len b1 + int (length sep)\<rparr>"
  have d1: "b_data b1 = Ptr kf 0" "b_offset b1 + b_len b1 + int (length sep) \<le> b_capacity b1"
    using f(4) b(3) len by (simp_all add: b1_def)
  obtain m2 where m2: "buf_write_val m1 b1 sep = Inr (True, b2, m2)" "buf_inv m2 b2"
      "content m2 b2 = content m1 b1 @ sep" "mem_ok m2" "\<forall>j. j \<noteq> kf \<longrightarrow> blocks m2 j = blocks m1 j"
    using write_val_own [OF m1(2) d1] m1(4) unfolding b2_def by auto
  define m3 where "m3 = m2\<lparr>blocks := (blocks m2)(k := None)\<rparr>"
  have "blocks m2 k = blocks m k" using f(5) m1(5) m2(5) by metis
  then have fr: "free_buf m2 (e_buf e) = Inr (clear_buf, m3)"
    unfolding m3_def using e(4,5) buf_block_frame(1) [of "e_buf e" k 0 m2 m] by (intro free_buf_block) auto
  have kb: "blocks m3 kf = blocks m2 kf" using f(5) by (simp add: m3_def)
  have d2: "b_data b2 = Ptr kf 0" using d1 by (simp add: b2_def)
  have "buf_inv m3 b2" "content m3 b2 = content m (e_buf fe) @ x @ sep" "mem_ok m3"
    using buf_block_frame [OF d2 kb] m2 m1 mem_ok_free [OF m2(4)] by (auto simp: m3_def)
  moreover have "aggregate_copy (Suc n) m es p f sep =
      aggregate_copy n m3 (es[f := Some (fe\<lparr>e_buf := b2\<rparr>), i := None]) (e_next e) f sep"
    using e f m1(1) m2(1) fr by (simp add: entry_in set_entry_in free_entry_in)
  moreover have "\<forall>j. j \<noteq> kf \<longrightarrow> j \<noteq> k \<longrightarrow> blocks m3 j = blocks m j"
    using m1(5) m2(5) by (simp add: m3_def)
  ultimately show ?thesis
    using e(7) d2 len by (intro exI [of _ "e_next e"] exI [of _ m3] exI [of _ b2] exI) (auto simp: b1_def b2_def)
qed

lemma aggregate_copy_chain:
  assumes "chain m es p ns1 q" and "chain m es q ns2 None"
    and "distinct (ids (ns1 @ ns2))" and "distinct (blks (ns1 @ ns2))"
    and "f < length es" and "es ! f = Some fe" and "f \<notin> set (ids (ns1 @ ns2))"
    and "b_data (e_buf fe) = Ptr kf 0" and "kf \<notin> set (blks (ns1 @ ns2))"
    and "buf_inv m (e_buf fe)" and "mem_ok m"
    and "b_offset (e_buf fe) + b_len (e_buf fe) + int (length (joined sep (msgs ns1))) \<le> b_capacity (e_buf fe)"
  shows "\<exists>m' es' fe'. aggregate_copy (length ns1) m es p f sep = Inr (m', es') \<and> mem_ok m' \<and>
           chain m' es' q ns2 None \<and> f < length es' \<and> es' ! f = Some fe' \<and> b_data (e_buf fe') = Ptr kf 0 \<and>
           buf_inv m' (e_buf fe') \<and> content m' (e_buf fe') = content m (e_buf fe) @ joined sep (msgs ns1)"
  using assms
proof (induction ns1 arbitrary: m es p fe)
  case Nil
  then show ?case by (cases p) auto
next
  case (Cons n ns)
  obtain i k x where n: "n = (i, k, x)" by (cases n)
  have fits: "b_offset (e_buf fe) + b_len (e_buf fe) + int (length (x @ sep)) \<le> b_capacity (e_buf fe)"
    using Cons.prems(12) n by simp
  obtain r m' es' b where s: "aggregate_copy (Suc (length ns)) m es p f sep = aggregate_copy (length ns) m' es' r f sep"
      "chain m es r ns q" "buf_inv m' b" "content m' b = content m (e_buf fe) @ x @ sep" "mem_ok m'"
      "b_data b = Ptr kf 0" "b_capacity b = b_capacity (e_buf fe)"
      "b_offset b = b_offset (e_buf fe)" "b_len b = b_len (e_buf fe) + int (length (x @ sep))"
      "length es' = length es" "es' = es[f := Some (fe\<lparr>e_buf := b\<rparr>), i := None]"
      "\<forall>j. j \<noteq> kf \<longrightarrow> j \<noteq> k \<longrightarrow> blocks m' j = blocks m j"
    using aggregate_copy_step [OF Cons.prems(1) [unfolded n] Cons.prems(5,6) _ Cons.prems(8) _ Cons.prems(10,11) fits,
        of "length ns"] Cons.prems(7,9) n by auto
  have same: "chain m' es' p' ns' q'" if "chain m es p' ns' q'" "set ns' \<subseteq> set (ns @ ns2)" for p' ns' q'
  proof (rule chain_frame [OF that(1)])
    fix j assume "j \<in> set (ids ns')"
    then have "j \<in> set (ids (ns @ ns2))" using that(2) by (auto simp: ids_def)
    then show "j < length es' \<and> es' ! j = es ! j"
      using chain_ids [OF that(1) \<open>j \<in> set (ids ns')\<close>] Cons.prems(3,7) n s(10,11)
      by (cases "j = f"; cases "j = i") auto
  next
    fix j assume "j \<in> set (blks ns')"
    then have "j \<in> set (blks (ns @ ns2))" using that(2) unfolding blks_def set_map by blast
    then show "blocks m' j = blocks m j" using s(12) Cons.prems(4,9) n by auto
  qed
  have c1: "chain m' es' r ns q" using same [OF s(2)] by auto
  have c2: "chain m' es' q ns2 None" using same [OF Cons.prems(2)] by auto
  have f: "f < length es'" "es' ! f = Some (fe\<lparr>e_buf := b\<rparr>)"
    using Cons.prems(5,7) n s(10,11) by (auto simp: nth_list_update)
  show ?case
    using Cons.IH [OF c1 c2 _ _ f] Cons.prems(3,4,7,9,12) s n by (auto simp: algebra_simps)
qed

section \<open>The whole operation\<close>

lemma joined_length: "length (joined sep xs) = sum_list (map (\<lambda>x. length x + length sep) xs)"
  by (induction xs) auto

lemma msgs_take: "msgs (take n ns) = take n (msgs ns)" and msgs_drop: "msgs (drop n ns) = drop n (msgs ns)"
  by (simp_all add: msgs_def take_map drop_map)

lemma ids_drop: "ids (drop n ns) = drop n (ids ns)" and blks_drop: "blks (drop n ns) = drop n (blks ns)"
  by (simp_all add: ids_def blks_def drop_map)

lemma chain_length: "chain m es p ns q \<Longrightarrow> distinct (ids ns) \<Longrightarrow> length ns \<le> length es"
proof -
  assume c: "chain m es p ns q" and d: "distinct (ids ns)"
  have "set (ids ns) \<subseteq> {..<length es}" using chain_ids [OF c] by auto
  then have "card (set (ids ns)) \<le> length es" using card_mono [of "{..<length es}"] by auto
  then show ?thesis using distinct_card [OF d] by simp
qed

lemma stored_frame:
  assumes "bl_nodes m es ol ns" and "chain m es p ns' q" and "set ns' \<subseteq> set ns"
  shows "chain (stored m bs) ((es @ [x])[length es := y]) p ns' q"
proof (rule chain_frame [OF assms(2)])
  fix j assume "j \<in> set (ids ns')"
  then show "j < length ((es @ [x])[length es := y]) \<and> (es @ [x])[length es := y] ! j = es ! j"
    using chain_ids [OF assms(2), of j] by (auto simp: nth_append)
next
  fix k assume "k \<in> set (blks ns')"
  then have "blocks m k \<noteq> None" by (rule chain_blks [OF assms(2)])
  moreover have "mem_ok m" using assms(1) by (simp add: bl_nodes_def)
  ultimately have "k \<noteq> Suc (nxt m)" by (auto simp: mem_ok_def)
  then show "blocks (stored m bs) k = blocks m k" by (simp add: stored_def)
qed

lemma aggregate_head:
  assumes "bl_nodes m es ol ns" and "\<not> oom m (nxt m)" and "\<not> oom m (Suc (nxt m))"
    and "int max_len + 1 < BUF_SIZE_MAX" and "length sep < 2 ^ 31"
  defines "n \<equiv> agg_count max_len (length sep) 0 (msgs ns)"
  assumes n: "n \<ge> 2"
  shows "\<exists>m' es' ol'. buffer_list_aggregate_separator m es ol max_len sep = Inr (m', es', ol') \<and>
           bl_rep m' es' ol' (joined sep (take n (msgs ns)) # drop n (msgs ns)) \<and> bl_max_size ol' = bl_max_size ol"
proof -
  note d = assms(1) [unfolded bl_nodes_def]
  have c: "chain m es (bl_head ol) ns None" and di: "distinct (ids ns)" and db: "distinct (blks ns)" using d by auto
  have fu: "length ns < Suc (length es)" using chain_length [OF c di] by simp
  have ml: "max_len < 2 ^ 63" using assms(4) by (simp add: BUF_SIZE_MAX_def)
  define sz where "sz = length (joined sep (take n (msgs ns)))"
  obtain more where sc: "aggregate_scan (Suc (length es)) es (bl_head ol) (length sep) max_len 0 0 = Inr (more, sz, n)"
      and c1: "chain m es (bl_head ol) (take n ns) more" and c2: "chain m es more (drop n ns) None"
    using aggregate_scan_chain [OF c fu _ ml assms(5), of 0 0] unfolding sz_def joined_length n_def by auto
  have sz: "sz \<le> max_len" using agg_count_fits [of 0 max_len sep "msgs ns"] unfolding sz_def n_def by simp
  have szm: "(sz + 1) mod 2 ^ 64 = sz + 1" using sz ml by simp
  let ?z = "replicate (sz + 1) (0 :: byte)" and ?k = "Suc (nxt m)" and ?f = "length es"
  let ?m = "stored m ?z"
  let ?fe = "\<lparr>e_buf = (own_buf ?k ?z)\<lparr>b_len := 0\<rparr>, e_next = None\<rparr>"
  let ?es = "(es @ [Some \<lparr>e_buf = clear_buf, e_next = None\<rparr>])[?f := Some ?fe]"
  have zl: "int (length ?z) < BUF_SIZE_MAX" using sz assms(4) by simp
  have zb: "blocks ?m ?k = Some ?z" by simp
  have al: "alloc_buf (m\<lparr>nxt := Suc (nxt m)\<rparr>) (sz + 1) = Inr ((own_buf ?k ?z)\<lparr>b_len := 0\<rparr>, ?m)"
    using assms(3) zl by (simp add: alloc_buf_def buf_size_valid_def c_calloc_def new_block_def own_buf_def stored_def mem_update_swap)
  have i0: "buf_inv ?m (e_buf ?fe)" using buf_inv_b_len [OF own_buf_inv [OF zb zl], of 0] by (simp add: own_buf_def)
  have e0: "content ?m (e_buf ?fe) = []" using read_content(2) [OF i0] by simp
  have k0: "b_data (e_buf ?fe) = Ptr ?k 0" by (simp add: own_buf_def)
  have nk: "?k \<notin> set (blks ns)" using chain_blks [OF c, of ?k] d by (auto simp: mem_ok_def)
  have nf: "?f \<notin> set (ids ns)" using chain_ids [OF c] by blast
  have mo: "mem_ok ?m" using d by (auto simp: stored_def mem_ok_def)
  have td: "take n ns @ drop n ns = ns" by simp
  have nl: "length (take n ns) = n" using agg_count_le [of max_len "length sep" 0 "msgs ns"] n_def by simp
  have room: "b_offset (e_buf ?fe) + b_len (e_buf ?fe) + int (length (joined sep (msgs (take n ns)))) \<le> b_capacity (e_buf ?fe)"
    by (simp add: own_buf_def sz_def msgs_take)
  have c1': "chain ?m ?es (bl_head ol) (take n ns) more" using stored_frame [OF assms(1) c1] by (simp add: set_take_subset)
  have c2': "chain ?m ?es more (drop n ns) None" using stored_frame [OF assms(1) c2] by (simp add: set_drop_subset)
  obtain m3 es3 fe3 where r: "aggregate_copy n ?m ?es (bl_head ol) ?f sep = Inr (m3, es3)" "mem_ok m3"
      "chain m3 es3 more (drop n ns) None" "?f < length es3" "es3 ! ?f = Some fe3" "b_data (e_buf fe3) = Ptr ?k 0"
      "buf_inv m3 (e_buf fe3)" "content m3 (e_buf fe3) = joined sep (take n (msgs ns))"
    using aggregate_copy_chain [OF c1' c2', of ?f ?fe ?k sep] di db nf nk i0 k0 mo e0 room td nl
    by (auto simp: msgs_take)
  let ?es4 = "es3[?f := Some (fe3\<lparr>e_next := more\<rparr>)]"
  let ?ns = "(?f, ?k, joined sep (take n (msgs ns))) # drop n ns"
  have nd: "?f \<notin> set (ids (drop n ns))" "?k \<notin> set (blks (drop n ns))"
    using nf nk set_drop_subset [of n "ids ns"] set_drop_subset [of n "blks ns"] by (auto simp: ids_drop blks_drop)
  have ch: "chain m3 ?es4 (Some ?f) ?ns None"
    using chain_entries_change [OF r(3) nd(1)] r by simp
  define bl1 where "bl1 = ol\<lparr>bl_head := Some ?f, bl_size := bl_size ol - (int n - 1)\<rparr>"
  let ?ol = "if more = None then bl1\<lparr>bl_tail := Some ?f\<rparr> else bl1"
  have mn: "more = None \<longleftrightarrow> drop n ns = []" using chain_start [OF c2] by (auto split: list.splits)
  have "bl_nodes m3 ?es4 ?ol ?ns"
    unfolding bl_nodes_def
  proof (intro conjI)
    show "mem_ok m3" by (rule r(2))
    have "bl_head ?ol = Some ?f" by (simp add: bl1_def)
    then show "chain m3 ?es4 (bl_head ?ol) ?ns None" using ch by (simp only:)
    show "distinct (ids ?ns)" "distinct (blks ?ns)" using nd di db by (simp_all add: ids_drop blks_drop)
    show "bl_tail ?ol = (if ?ns = [] then None else Some (last (ids ?ns)))"
      using mn d by (auto simp: bl1_def ids_drop)
    show "bl_size ?ol = int (length ?ns)"
      using d nl by (simp add: bl1_def of_nat_diff)
  qed
  moreover have "buffer_list_aggregate_separator m es ol max_len sep = Inr (m3, ?es4, ?ol)"
    using n assms(2) sc szm al r(1,4,5)
    by (simp add: buffer_list_aggregate_separator_def alloc_entry_def Let_def set_entry_in entry_in bl1_def)
  ultimately show ?thesis
    unfolding bl_rep_def by (intro exI [of _ m3] exI [of _ ?es4] exI [of _ ?ol]) (auto simp: bl1_def msgs_drop intro!: exI [of _ ?ns])
qed

lemma aggregate_rep:
  assumes "bl_rep m es ol xs" and "\<not> oom m (nxt m)" and "\<not> oom m (Suc (nxt m))"
    and "int max_len + 1 < BUF_SIZE_MAX" and "length sep < 2 ^ 31"
  shows "\<exists>m' es' ol'. buffer_list_aggregate_separator m es ol max_len sep = Inr (m', es', ol') \<and>
           bl_rep m' es' ol' (agg_spec max_len sep xs) \<and> bl_max_size ol' = bl_max_size ol"
proof -
  obtain ns where ns: "bl_nodes m es ol ns" "xs = msgs ns" using assms(1) by (auto simp: bl_rep_def)
  show ?thesis
  proof (cases "agg_count max_len (length sep) 0 (msgs ns) \<ge> 2")
    case True
    from aggregate_head [OF ns(1) assms(2-5) True] show ?thesis
      using True ns(2) by (simp add: agg_spec_def Let_def)
  next
    case False
    have c: "chain m es (bl_head ol) ns None" and di: "distinct (ids ns)" using ns(1) by (auto simp: bl_nodes_def)
    have fu: "length ns < Suc (length es)" using chain_length [OF c di] by simp
    have ml: "max_len < 2 ^ 63" using assms(4) by (simp add: BUF_SIZE_MAX_def)
    obtain more sz where "aggregate_scan (Suc (length es)) es (bl_head ol) (length sep) max_len 0 0 =
        Inr (more, sz, agg_count max_len (length sep) 0 (msgs ns))"
      using aggregate_scan_chain [OF c fu _ ml assms(5), of 0 0] by auto
    then have "buffer_list_aggregate_separator m es ol max_len sep = Inr (m, es, ol)"
      using False by (simp add: buffer_list_aggregate_separator_def)
    then show ?thesis using False assms(1) ns(2) by (simp add: agg_spec_def Let_def)
  qed
qed

section \<open>Properties\<close>

lemma agg_count_maximal:
  "agg_count max_len (length sep) used xs < length xs \<Longrightarrow>
     max_len < used + length (joined sep (take (Suc (agg_count max_len (length sep) used xs)) xs))"
proof (induction xs arbitrary: used)
  case (Cons x xs)
  show ?case
  proof (cases "used + (length x + length sep) > max_len")
    case False
    then show ?thesis using Cons.IH [of "used + (length x + length sep)"] Cons.prems by simp
  qed simp
qed simp

text \<open>
  Aggregating a list joins the longest run of front entries whose contents and separators
  fit into the limit (and only if that run has two entries or more) into one entry, keeps the
  rest in order, and leaves a well-formed list; no copy leaves its buffer.
\<close>

lemma buffer_list_aggregate_joins:
  assumes "bl_rep m es ol xs" and "\<not> oom m (nxt m)" and "\<not> oom m (Suc (nxt m))"
    and "int max_len + 1 < BUF_SIZE_MAX" and "length sep < 2 ^ 31"
  shows "\<exists>m' es' ol' n. buffer_list_aggregate_separator m es ol max_len sep = Inr (m', es', ol') \<and>
           bl_rep m' es' ol' (if n \<ge> 2 then joined sep (take n xs) # drop n xs else xs) \<and>
           n \<le> length xs \<and> length (joined sep (take n xs)) \<le> max_len \<and>
           (n < length xs \<longrightarrow> max_len < length (joined sep (take (Suc n) xs)))"
proof -
  let ?n = "agg_count max_len (length sep) 0 xs"
  have "agg_spec max_len sep xs = (if ?n \<ge> 2 then joined sep (take ?n xs) # drop ?n xs else xs)"
    by (simp add: agg_spec_def Let_def)
  moreover have "length (joined sep (take ?n xs)) \<le> max_len"
    using agg_count_fits [of 0 max_len sep xs] by simp
  moreover have "?n < length xs \<longrightarrow> max_len < length (joined sep (take (Suc ?n) xs))"
    using agg_count_maximal [of max_len sep 0 xs] by simp
  moreover obtain m' es' ol' where "buffer_list_aggregate_separator m es ol max_len sep = Inr (m', es', ol')"
      "bl_rep m' es' ol' (agg_spec max_len sep xs)"
    using aggregate_rep [OF assms] by blast
  ultimately show ?thesis
    using agg_count_le [of max_len "length sep" 0 xs]
    by (intro exI [of _ m'] exI [of _ es'] exI [of _ ol'] exI [of _ ?n]) (simp only: simp_thms)
qed

end
