(* ===== verification/Decimal.thy ===== *)
theory Decimal
  imports C_Strings
begin

text \<open>
  Decimal numbers as the program prints and reads them: the expansions of \<open>%d\<close>, \<open>%ld\<close>,
  \<open>PRIi64\<close> and \<open>%02d\<close>, and \<open>atoi\<close>.
\<close>

section \<open>Printing\<close>

fun dec_nat :: "nat \<Rightarrow> cstr" where
  "dec_nat n = (if n < 10 then [of_nat (48 + n)] else dec_nat (n div 10) @ [of_nat (48 + n mod 10)])"

declare dec_nat.simps [simp del]

definition dec_int :: "int \<Rightarrow> cstr" where
  "dec_int n = (if n < 0 then of_char CHR ''-'' # dec_nat (nat (- n)) else dec_nat (nat n))"

text \<open>\<open>%0wd\<close>: padded with zeros between the sign and the digits to \<open>w\<close> characters.\<close>

definition dec_pad :: "nat \<Rightarrow> int \<Rightarrow> cstr" where
  "dec_pad w n =
     (let sgn = (if n < 0 then [of_char CHR ''-''] else []); ds = dec_nat (nat \<bar>n\<bar>)
      in sgn @ replicate (w - (length sgn + length ds)) (of_char CHR ''0'') @ ds)"

section \<open>Reading\<close>

fun digits_value :: "nat \<Rightarrow> cstr \<Rightarrow> nat" where
  "digits_value acc [] = acc"
| "digits_value acc (c # cs) = (if isdigit c then digits_value (acc * 10 + (unat c - 48)) cs else acc)"

text \<open>\<open>atoi\<close>; a result outside \<open>int\<close> is undefined in C.\<close>

definition c_atoi :: "cstr \<Rightarrow> int" where
  "c_atoi s =
     (case dropWhile isspace s of
        [] \<Rightarrow> 0
      | c # cs \<Rightarrow>
          if c = of_char CHR ''-'' then - int (digits_value 0 cs)
          else if c = of_char CHR ''+'' then int (digits_value 0 cs)
          else int (digits_value 0 (c # cs)))"

section \<open>Laws\<close>

lemma digit_char: "d < 10 \<Longrightarrow> isdigit (of_nat (48 + d)) \<and> unat (of_nat (48 + d) :: byte) = 48 + d"
proof -
  assume d: "d < 10"
  have u: "unat (of_nat (48 + d) :: byte) = 48 + d"
    using d by (simp only: unat_of_nat) simp
  show ?thesis using d unfolding isdigit_def u by simp
qed

lemma digits_value_append:
  "(\<forall>c \<in> set ds. isdigit c) \<Longrightarrow> digits_value acc (ds @ cs) = digits_value (digits_value acc ds) cs"
  by (induction ds arbitrary: acc) auto

lemma dec_nat_digits: "\<forall>c \<in> set (dec_nat n). isdigit c"
proof (induction n rule: dec_nat.induct)
  case (1 n)
  then show ?case
    using digit_char [of n] digit_char [of "n mod 10"]
    by (subst dec_nat.simps) auto
qed

lemma dec_nat_value: "digits_value 0 (dec_nat n) = n"
proof (induction n rule: dec_nat.induct)
  case (1 n)
  show ?case
  proof (cases "n < 10")
    case True
    then show ?thesis using digit_char [of n] by (subst dec_nat.simps) simp
  next
    case False
    have "digits_value 0 (dec_nat n) = digits_value (digits_value 0 (dec_nat (n div 10))) [of_nat (48 + n mod 10)]"
      using False by (subst dec_nat.simps) (simp add: digits_value_append dec_nat_digits)
    also have "\<dots> = n" using 1 [OF False] digit_char [of "n mod 10"] by simp
    finally show ?thesis .
  qed
qed

lemma dec_nat_ne [simp]: "dec_nat n \<noteq> []"
  by (subst dec_nat.simps) simp

lemma dec_nat_inj [simp]: "dec_nat n = dec_nat k \<longleftrightarrow> n = k"
  by (metis dec_nat_value)

lemma digit_not_sign:
  "isdigit c \<Longrightarrow> c \<noteq> of_char CHR ''-'' \<and> c \<noteq> of_char CHR ''+'' \<and> c \<noteq> NUL \<and> \<not> isspace c"
  by (auto simp: isdigit_def isspace_def)

lemma c_atoi_dec_int: "c_atoi (dec_int n) = n"
proof (cases "n < 0")
  case True
  then show ?thesis by (simp add: c_atoi_def dec_int_def dec_nat_value isspace_def)
next
  case False
  obtain d ds where d: "dec_nat (nat n) = d # ds" by (cases "dec_nat (nat n)") auto
  then have "isdigit d" using dec_nat_digits [of "nat n"] by auto
  then show ?thesis
    using False d dec_nat_value [of "nat n"] digit_not_sign [of d] by (simp add: c_atoi_def dec_int_def)
qed

lemma dec_int_inj [simp]: "dec_int n = dec_int k \<longleftrightarrow> n = k"
  by (metis c_atoi_dec_int)

lemma dec_nat_cstr [simp]: "is_cstr (dec_nat n)"
  using dec_nat_digits [of n] digit_not_sign by (auto simp: is_cstr_def)

lemma dec_int_cstr [simp]: "is_cstr (dec_int n)"
  by (simp add: dec_int_def)

lemma dec_nat_length: "n < 10 ^ k \<Longrightarrow> 0 < k \<Longrightarrow> length (dec_nat n) \<le> k"
proof (induction k arbitrary: n)
  case (Suc k)
  show ?case
  proof (cases "n < 10")
    case True
    then show ?thesis by (subst dec_nat.simps) simp
  next
    case False
    then have "0 < k" using Suc.prems(1) by (cases k) auto
    moreover have "n div 10 < 10 ^ k" using Suc.prems(1) by (simp add: less_mult_imp_div_less mult.commute)
    ultimately show ?thesis using Suc.IH [of "n div 10"] False by (subst dec_nat.simps) simp
  qed
qed simp

lemma dec_int_length: "\<bar>n\<bar> < 10 ^ k \<Longrightarrow> 0 < k \<Longrightarrow> length (dec_int n) \<le> Suc k"
proof -
  assume a: "\<bar>n\<bar> < 10 ^ k" "0 < k"
  then have "nat \<bar>n\<bar> < 10 ^ k" by (simp add: nat_less_iff)
  from dec_nat_length [OF this a(2)] show ?thesis by (auto simp: dec_int_def)
qed

lemma dec_pad_length: "length (dec_pad w n) \<le> max w (Suc (length (dec_nat (nat \<bar>n\<bar>))))"
  by (auto simp: dec_pad_def Let_def)

end
