(* ===== verification/Otime.thy ===== *)
theory Otime
  imports Text_Laws Decimal Integer
begin

text \<open>
  The clock of \<open>src/Treiber/lib/otime.c\<close> and \<open>otime.h\<close>: the protected global time \<open>now\<close>, the
  arithmetic on \<open>struct timeval\<close>, the event rate limit and the formatting of time stamps.
  What \<open>gettimeofday\<close> and \<open>localtime\<close> return is an argument.
\<close>

unbundle bit_operations_syntax

section \<open>Time values\<close>

datatype timeval = Timeval (tv_sec: int) (tv_usec: int)

definition tv_clear :: "timeval" where
  "tv_clear = Timeval 0 0"

definition tv_defined :: "timeval \<Rightarrow> bool" where
  "tv_defined tv \<longleftrightarrow> tv_sec tv > 0 \<and> tv_usec tv > 0"

definition tv_subtract :: "timeval \<Rightarrow> timeval \<Rightarrow> nat \<Rightarrow> int" where
  "tv_subtract tv1 tv2 max_seconds =
     (let max_usec = to_int (int max_seconds * 1000000 mod 2 ^ 32);
          sec_diff = to_int (tv_sec tv1 - tv_sec tv2)
      in if sec_diff > to_int (int max_seconds) + 10 then max_usec
         else if sec_diff < - (to_int (int max_seconds) + 10) then - max_usec
         else constrain_int (sec_diff * 1000000 + (tv_usec tv1 - tv_usec tv2)) (- max_usec) max_usec)"

definition tv_add :: "timeval \<Rightarrow> timeval \<Rightarrow> timeval" where
  "tv_add dest src =
     (let sec = tv_sec dest + tv_sec src;
          usec = tv_usec dest + tv_usec src;
          sec = sec + drop_bit 20 usec;
          usec = usec AND 0x000FFFFF
      in if usec \<ge> 1000000 then Timeval (sec + 1) (usec - 1000000) else Timeval sec usec)"

definition tv_lt :: "timeval \<Rightarrow> timeval \<Rightarrow> bool" where
  "tv_lt t1 t2 =
     (if tv_sec t1 < tv_sec t2 then True
      else if tv_sec t1 > tv_sec t2 then False else tv_usec t1 < tv_usec t2)"

definition tv_le :: "timeval \<Rightarrow> timeval \<Rightarrow> bool" where
  "tv_le t1 t2 =
     (if tv_sec t1 < tv_sec t2 then True
      else if tv_sec t1 > tv_sec t2 then False else tv_usec t1 \<le> tv_usec t2)"

definition tv_ge :: "timeval \<Rightarrow> timeval \<Rightarrow> bool" where
  "tv_ge t1 t2 =
     (if tv_sec t1 > tv_sec t2 then True
      else if tv_sec t1 < tv_sec t2 then False else tv_usec t1 \<ge> tv_usec t2)"

definition tv_gt :: "timeval \<Rightarrow> timeval \<Rightarrow> bool" where
  "tv_gt t1 t2 =
     (if tv_sec t1 > tv_sec t2 then True
      else if tv_sec t1 < tv_sec t2 then False else tv_usec t1 > tv_usec t2)"

definition tv_eq :: "timeval \<Rightarrow> timeval \<Rightarrow> bool" where
  "tv_eq t1 t2 \<longleftrightarrow> tv_sec t1 = tv_sec t2 \<and> tv_usec t1 = tv_usec t2"

text \<open>The normalising loop of \<open>tv_delta\<close>.\<close>

function borrow_loop :: "int \<Rightarrow> int \<Rightarrow> int \<times> int" where
  "borrow_loop sec usec = (if usec < 0 then borrow_loop (sec - 1) (usec + 1000000) else (sec, usec))"
  by pat_completeness auto
termination by (relation "measure (\<lambda>(_, usec). nat (- usec))") auto

declare borrow_loop.simps [simp del]

definition tv_delta :: "timeval \<Rightarrow> timeval \<Rightarrow> timeval" where
  "tv_delta t1 t2 =
     (let (sec, usec) = borrow_loop (to_int (tv_sec t2 - tv_sec t1)) (to_int (tv_usec t2 - tv_usec t1))
      in if sec < 0 then Timeval 0 0 else Timeval sec usec)"

definition TV_WITHIN_SIGMA_MAX_SEC :: nat where "TV_WITHIN_SIGMA_MAX_SEC = 600"

definition tv_within_sigma :: "timeval \<Rightarrow> timeval \<Rightarrow> nat \<Rightarrow> bool" where
  "tv_within_sigma t1 t2 sigma =
     (let delta = tv_subtract t1 t2 TV_WITHIN_SIGMA_MAX_SEC
      in - to_int (int sigma) \<le> delta \<and> delta \<le> to_int (int sigma))"

definition interval_earliest_wakeup :: "int \<Rightarrow> int \<Rightarrow> int \<Rightarrow> int" where
  "interval_earliest_wakeup wakeup at current =
     (if at > current
      then (let delta = to_int (at - current);
                w = (if delta < wakeup then delta else wakeup)
            in if w < 0 then 0 else w)
      else wakeup)"

section \<open>The order of time values\<close>

instantiation timeval :: linorder
begin

definition less_eq_timeval :: "timeval \<Rightarrow> timeval \<Rightarrow> bool" where
  "less_eq_timeval = tv_le"

definition less_timeval :: "timeval \<Rightarrow> timeval \<Rightarrow> bool" where
  "less_timeval = tv_lt"

instance
proof
  fix x y z :: timeval
  show "(x < y) = (x \<le> y \<and> \<not> y \<le> x)"
    by (auto simp: less_eq_timeval_def less_timeval_def tv_le_def tv_lt_def split: if_splits)
  show "x \<le> x" by (simp add: less_eq_timeval_def tv_le_def)
  show "x \<le> y \<Longrightarrow> y \<le> z \<Longrightarrow> x \<le> z" by (auto simp: less_eq_timeval_def tv_le_def split: if_splits)
  show "x \<le> y \<Longrightarrow> y \<le> x \<Longrightarrow> x = y"
    by (auto simp: less_eq_timeval_def tv_le_def timeval.expand split: if_splits)
  show "x \<le> y \<or> y \<le> x" by (auto simp: less_eq_timeval_def tv_le_def)
qed

end

lemma tv_order:
  "tv_le a b \<longleftrightarrow> a \<le> b" "tv_lt a b \<longleftrightarrow> a < b" "tv_ge a b \<longleftrightarrow> b \<le> a" "tv_gt a b \<longleftrightarrow> b < a" "tv_eq a b \<longleftrightarrow> a = b"
  by (auto simp: less_eq_timeval_def less_timeval_def tv_le_def tv_lt_def tv_ge_def tv_gt_def tv_eq_def timeval.expand)

section \<open>The global clock\<close>

record clock =
  c_now :: int
  c_now_adj :: int
  c_now_usec :: int

definition clock_start :: clock where
  "clock_start = \<lparr>c_now = 0, c_now_adj = 0, c_now_usec = 0\<rparr>"

definition update_now :: "clock \<Rightarrow> int \<Rightarrow> clock" where
  "update_now c system_time =
     (let real_time = system_time + c_now_adj c
      in if real_time > c_now c
         then (let overshoot = real_time - c_now c - 1
               in if overshoot > 86400 \<and> c_now_adj c \<ge> overshoot
                  then c\<lparr>c_now_adj := c_now_adj c - overshoot, c_now := real_time - overshoot\<rparr>
                  else c\<lparr>c_now := real_time\<rparr>)
         else if real_time < c_now c - 10
              then c\<lparr>c_now_adj := c_now_adj c + (c_now c - real_time)\<rparr>
              else c)"

definition update_now_usec :: "clock \<Rightarrow> timeval \<Rightarrow> clock" where
  "update_now_usec c tv =
     (let last = c_now c; c' = update_now c (tv_sec tv)
      in if c_now c' > last \<or> (c_now c' = last \<and> tv_usec tv > c_now_usec c')
         then c'\<lparr>c_now_usec := tv_usec tv\<rparr> else c')"

text \<open>\<open>reading\<close> is \<open>None\<close> when \<open>gettimeofday\<close> fails.\<close>

definition openvpn_gettimeofday :: "clock \<Rightarrow> timeval option \<Rightarrow> clock \<times> timeval option" where
  "openvpn_gettimeofday c reading =
     (case reading of
        None \<Rightarrow> (c, None)
      | Some tv \<Rightarrow> (let c' = update_now_usec c tv in (c', Some (Timeval (c_now c') (c_now_usec c')))))"

definition update_time :: "clock \<Rightarrow> timeval option \<Rightarrow> clock" where
  "update_time c reading = fst (openvpn_gettimeofday c reading)"

definition openvpn_time :: "clock \<Rightarrow> timeval option \<Rightarrow> clock \<times> int" where
  "openvpn_time c reading = (let c' = update_time c reading in (c', c_now c'))"

text \<open>The time stamps a sequence of clock readings produces.\<close>

fun stamps :: "clock \<Rightarrow> timeval list \<Rightarrow> timeval list" where
  "stamps c [] = []"
| "stamps c (r # rs) =
     (case openvpn_gettimeofday c (Some r) of
        (c', Some tv) \<Rightarrow> tv # stamps c' rs
      | (c', None) \<Rightarrow> stamps c' rs)"

definition c_stamp :: "clock \<Rightarrow> timeval" where
  "c_stamp c = Timeval (c_now c) (c_now_usec c)"

lemma update_now_mono: "c_now c \<le> c_now (update_now c t)"
  by (auto simp: update_now_def Let_def)

lemma update_now_adj: "0 \<le> c_now_adj c \<Longrightarrow> 0 \<le> c_now_adj (update_now c t)"
  by (auto simp: update_now_def Let_def)

lemma update_now_keeps_usec [simp]: "c_now_usec (update_now c t) = c_now_usec c"
  by (auto simp: update_now_def Let_def)

lemma c_stamp_mono: "c_stamp c \<le> c_stamp (update_now_usec c tv)"
  using update_now_mono [of c "tv_sec tv"]
  by (auto simp: c_stamp_def update_now_usec_def Let_def less_eq_timeval_def tv_le_def)

section \<open>Rate limit\<close>

record frequency_limit =
  f_max :: int
  f_per :: int
  f_n :: int
  f_reset :: int

definition frequency_limit_init :: "int \<Rightarrow> int \<Rightarrow> fault + frequency_limit" where
  "frequency_limit_init mx per =
     bindE (c_assert (mx \<ge> 0 \<and> per \<ge> 0))
       (\<lambda>_. Inr \<lparr>f_max = mx, f_per = per, f_n = 0, f_reset = 0\<rparr>)"

definition frequency_limit_event_allowed :: "int \<Rightarrow> frequency_limit \<Rightarrow> bool \<times> frequency_limit" where
  "frequency_limit_event_allowed now f =
     (if f_per f \<noteq> 0
      then (let f1 = (if now \<ge> f_reset f + f_per f then f\<lparr>f_reset := now, f_n := 0\<rparr> else f);
                f2 = f1\<lparr>f_n := to_int (f_n f1 + 1)\<rparr>
            in (f_n f2 \<le> f_max f2, f2))
      else (True, f))"

text \<open>How many of the events at the given times are allowed.\<close>

fun events_allowed :: "frequency_limit \<Rightarrow> int list \<Rightarrow> nat" where
  "events_allowed f [] = 0"
| "events_allowed f (t # ts) =
     (let (ok, f') = frequency_limit_event_allowed t f
      in (if ok then 1 else 0) + events_allowed f' ts)"

text \<open>Until the next reset only the rest of the budget is handed out.\<close>

lemma events_allowed_window:
  assumes "\<forall>t \<in> set ts. t < f_reset f + f_per f" and "0 < f_per f" and "0 \<le> f_n f" and "f_n f + int (length ts) < 2 ^ 31"
  shows "int (events_allowed f ts) \<le> max 0 (f_max f - f_n f)"
  using assms
proof (induction ts arbitrary: f)
  case (Cons t ts)
  let ?f = "f\<lparr>f_n := f_n f + 1\<rparr>"
  have "to_int (f_n f + 1) = f_n f + 1" using Cons.prems by (intro to_int_Suc) auto
  then have "frequency_limit_event_allowed t f = (f_n f + 1 \<le> f_max f, ?f)"
    using Cons.prems by (simp add: frequency_limit_event_allowed_def)
  then show ?case using Cons.IH [of ?f] Cons.prems by auto
qed simp

lemma events_allowed_sliding:
  assumes "\<forall>t \<in> set ts. t0 \<le> t \<and> t < t0 + f_per f" and "0 < f_per f" and "0 \<le> f_n f" and "0 \<le> f_max f"
    and "f_n f + int (length ts) < 2 ^ 31"
  shows "int (events_allowed f ts) \<le> max 0 (f_max f - f_n f) + f_max f"
  using assms
proof (induction ts arbitrary: f)
  case (Cons t ts)
  show ?case
  proof (cases "t \<ge> f_reset f + f_per f")
    case True
    let ?f = "f\<lparr>f_reset := t, f_n := 1\<rparr>"
    have "to_int 1 = 1" by (simp add: c_int_def)
    then have "frequency_limit_event_allowed t f = (1 \<le> f_max f, ?f)"
      using Cons.prems True by (simp add: frequency_limit_event_allowed_def)
    moreover have "int (events_allowed ?f ts) \<le> max 0 (f_max f - 1)"
      using events_allowed_window [of ts ?f] Cons.prems by force
    ultimately show ?thesis using Cons.prems by auto
  next
    case False
    let ?f = "f\<lparr>f_n := f_n f + 1\<rparr>"
    have "to_int (f_n f + 1) = f_n f + 1" using Cons.prems by (intro to_int_Suc) auto
    then have "frequency_limit_event_allowed t f = (f_n f + 1 \<le> f_max f, ?f)"
      using Cons.prems False by (simp add: frequency_limit_event_allowed_def)
    then show ?thesis using Cons.IH [of ?f] Cons.prems by auto
  qed
qed simp

text \<open>Nothing stops the counter: after \<open>2 ^ 31\<close> events in one period it is negative, and events are allowed again.\<close>

lemma frequency_limit_wraps:
  assumes "0 < f_per f" and "now < f_reset f + f_per f" and "0 \<le> f_max f" and "f_n f = 2 ^ 31 - 1"
  shows "frequency_limit_event_allowed now f = (True, f\<lparr>f_n := - (2 ^ 31)\<rparr>)"
  using assms by (simp add: frequency_limit_event_allowed_def to_int_def)

section \<open>Arithmetic\<close>

definition tv_total :: "timeval \<Rightarrow> int" where
  "tv_total t = tv_sec t * 1000000 + tv_usec t"

definition tv_normal :: "timeval \<Rightarrow> bool" where
  "tv_normal t \<longleftrightarrow> 0 \<le> tv_usec t \<and> tv_usec t < 1000000"

lemma tv_total_less: "tv_normal a \<Longrightarrow> tv_normal b \<Longrightarrow> tv_total a < tv_total b \<longleftrightarrow> a < b"
  by (auto simp: tv_total_def tv_normal_def less_timeval_def tv_lt_def)

lemma mask20: "n AND 0xFFFFF = n mod 2 ^ 20" for n :: int
  using take_bit_eq_mask [of 20 n] by (simp add: take_bit_eq_mod mask_eq_exp_minus_1 and.commute)

lemma tv_add_total:
  assumes "tv_normal a" and "tv_normal b"
  shows "tv_normal (tv_add a b)"
    and "tv_total (tv_add a b) =
           tv_total a + tv_total b - (if tv_usec a + tv_usec b \<ge> 2 ^ 20 then 48576 else 0)"
proof -
  define s where "s = tv_usec a + tv_usec b"
  have s: "0 \<le> s" "s < 2000000" using assms by (auto simp: tv_normal_def s_def)
  have d1: "s div 2 ^ 20 = (if s \<ge> 2 ^ 20 then 1 else 0)" using s by auto
  have d2: "s mod 2 ^ 20 = (if s \<ge> 2 ^ 20 then s - 2 ^ 20 else s)"
    using d1 by (simp add: minus_div_mult_eq_mod [symmetric])
  note d = d1 d2
  have e: "tv_add a b = (if s mod 2 ^ 20 \<ge> 1000000
      then Timeval (tv_sec a + tv_sec b + s div 2 ^ 20 + 1) (s mod 2 ^ 20 - 1000000)
      else Timeval (tv_sec a + tv_sec b + s div 2 ^ 20) (s mod 2 ^ 20))"
    by (simp add: tv_add_def Let_def s_def mask20 drop_bit_eq_div)
  show "tv_normal (tv_add a b)" using s unfolding e d by (auto simp: tv_normal_def)
  show "tv_total (tv_add a b) = tv_total a + tv_total b - (if tv_usec a + tv_usec b \<ge> 2 ^ 20 then 48576 else 0)"
    using s unfolding e d s_def [symmetric] by (auto simp: tv_total_def s_def)
qed

lemma borrow_loop_spec:
  "borrow_loop sec usec = (s, u) \<Longrightarrow>
     0 \<le> u \<and> s * 1000000 + u = sec * 1000000 + usec \<and> (usec < 1000000 \<longrightarrow> u < 1000000)"
proof (induction sec usec arbitrary: s u rule: borrow_loop.induct)
  case (1 sec usec)
  show ?case
  proof (cases "usec < 0")
    case True
    then have "borrow_loop (sec - 1) (usec + 1000000) = (s, u)" using 1(2) by (subst (asm) borrow_loop.simps) simp
    from 1(1) [OF True this] True show ?thesis by auto
  next
    case False
    then show ?thesis using 1(2) by (subst (asm) borrow_loop.simps) simp
  qed
qed

lemma tv_delta_spec:
  assumes "tv_normal a" and "tv_normal b" and "c_int (tv_sec b - tv_sec a)"
  shows "tv_normal (tv_delta a b)" and "tv_total (tv_delta a b) = max 0 (tv_total b - tv_total a)"
proof -
  obtain s u where su: "borrow_loop (tv_sec b - tv_sec a) (tv_usec b - tv_usec a) = (s, u)" by fastforce
  have u: "0 \<le> u" "s * 1000000 + u = (tv_sec b - tv_sec a) * 1000000 + (tv_usec b - tv_usec a)" "u < 1000000"
    using borrow_loop_spec [OF su] assms(1,2) by (auto simp: tv_normal_def)
  have "c_int (tv_usec b - tv_usec a)" using assms(1,2) by (simp add: tv_normal_def c_int_def)
  then have e: "tv_delta a b = (if s < 0 then Timeval 0 0 else Timeval s u)"
    using su assms(3) by (simp add: tv_delta_def)
  show "tv_normal (tv_delta a b)" using u by (auto simp: e tv_normal_def)
  show "tv_total (tv_delta a b) = max 0 (tv_total b - tv_total a)"
    using u by (auto simp: e tv_total_def max_def algebra_simps)
qed

lemma tv_subtract_spec:
  assumes "tv_normal a" and "tv_normal b" and "c_int (tv_sec a - tv_sec b)" and "max_seconds \<le> 2136"
  defines "d \<equiv> tv_total a - tv_total b" and "hi \<equiv> int max_seconds * 1000000"
  shows "tv_subtract a b max_seconds = (if d > hi then hi else if d < - hi then - hi else d)"
proof -
  define sd where "sd = tv_sec a - tv_sec b"
  define ud where "ud = tv_usec a - tv_usec b"
  have ud: "\<bar>ud\<bar> < 1000000" using assms(1,2) by (auto simp: ud_def tv_normal_def)
  have d: "d = sd * 1000000 + ud" by (simp add: d_def sd_def ud_def tv_total_def algebra_simps)
  have m: "to_int (int max_seconds * 1000000 mod 2 ^ 32) = hi" "to_int (int max_seconds) = int max_seconds"
    using assms(4) by (simp_all add: hi_def c_int_def)
  show ?thesis
    using ud assms(3)
    unfolding tv_subtract_def m sd_def [symmetric] ud_def [symmetric] d Let_def hi_def
    by (auto simp: constrain_int_def)
qed

text \<open>No intermediate value leaves \<open>int\<close> for the limits the program uses (60 and 600 seconds).\<close>

lemma tv_subtract_no_overflow:
  assumes "tv_normal a" and "tv_normal b" and "max_seconds \<le> 2136"
    and "\<bar>sec_diff\<bar> \<le> int max_seconds + 10"
  shows "c_int (sec_diff * 1000000 + (tv_usec a - tv_usec b))"
  using assms by (auto simp: tv_normal_def c_int_def)

section \<open>Time stamps\<close>

record tm =
  tm_year :: int
  tm_mon :: int
  tm_mday :: int
  tm_hour :: int
  tm_min :: int
  tm_sec :: int

definition tv_string :: "mem \<Rightarrow> timeval \<Rightarrow> gc_arena option \<Rightarrow> fault + ptr \<times> mem \<times> gc_arena option" where
  "tv_string m tv gc =
     bindE (alloc_buf_gc m 64 gc)
       (\<lambda>(out, m1, gc'). bindE (buf_printf m1 out
            (Some (asc ''['' @ dec_int (tv_sec tv) @ asc ''/'' @ dec_int (tv_usec tv) @ asc '']'')))
         (\<lambda>(_, out', m2). Inr (buf_bptr out', m2, gc')))"

definition time_text :: "tm \<Rightarrow> cstr" where
  "time_text t =
     dec_pad 4 (tm_year t + 1900) @ asc ''-'' @ dec_pad 2 (tm_mon t + 1) @ asc ''-'' @ dec_pad 2 (tm_mday t) @
     asc '' '' @ dec_pad 2 (tm_hour t) @ asc '':'' @ dec_pad 2 (tm_min t) @ asc '':'' @ dec_pad 2 (tm_sec t)"

definition time_string ::
  "mem \<Rightarrow> (int \<Rightarrow> tm) \<Rightarrow> timeval \<Rightarrow> int \<Rightarrow> int \<Rightarrow> bool \<Rightarrow> gc_arena option \<Rightarrow>
     fault + ptr \<times> mem \<times> gc_arena option" where
  "time_string m localtime reading t usec show_usec gc =
     bindE (alloc_buf_gc m 64 gc)
       (\<lambda>(out, m1, gc'). let tv = (if t \<noteq> 0 then Timeval t usec else reading) in
          bindE (buf_printf m1 out (Some (time_text (localtime (tv_sec tv)))))
            (\<lambda>(_, out1, m2).
               if show_usec \<and> tv_usec tv \<noteq> 0
               then bindE (buf_printf m2 out1 (Some (asc '' us='' @ dec_int (tv_usec tv))))
                      (\<lambda>(_, out2, m3). Inr (buf_bptr out2, m3, gc'))
               else Inr (buf_bptr out1, m2, gc')))"

definition tv_string_abs ::
  "mem \<Rightarrow> (int \<Rightarrow> tm) \<Rightarrow> timeval \<Rightarrow> timeval \<Rightarrow> gc_arena option \<Rightarrow> fault + ptr \<times> mem \<times> gc_arena option" where
  "tv_string_abs m localtime reading tv gc =
     time_string m localtime reading (tv_sec tv) (to_int (tv_usec tv)) True gc"

section \<open>Properties\<close>

text \<open>
  The time stamps the program hands out never go back, whatever the system clock does
  (backward steps, forward jumps), including the microseconds.
\<close>

lemma time_stamps_sorted: "sorted (c_stamp c # stamps c rs)"
proof (induction rs arbitrary: c)
  case (Cons r rs)
  let ?c = "update_now_usec c r"
  have "stamps c (r # rs) = c_stamp ?c # stamps ?c rs"
    by (simp add: openvpn_gettimeofday_def Let_def c_stamp_def)
  then show ?case using Cons.IH [of ?c] c_stamp_mono [of c r] by auto
qed simp

text \<open>
  C37: In any stretch of time shorter than the period at most twice the configured maximum of
  events is allowed, however the events are spread and whenever the counter was reset, as long as
  fewer than 2^31 events are counted. The counter is an int that is increased for refused events
  too, so with more of them it wraps around and events are allowed again.
\<close>

theorem rate_limit_sliding:
  assumes "\<forall>t \<in> set ts. t0 \<le> t \<and> t < t0 + f_per f" and "0 < f_per f" and "0 \<le> f_n f" and "0 \<le> f_max f"
    and "f_n f + int (length ts) < 2 ^ 31"
  shows "int (events_allowed f ts) \<le> 2 * f_max f"
  using events_allowed_sliding [OF assms] assms(3,4) by linarith

theorem rate_limit_sliding_witness:
  "int (events_allowed \<lparr>f_max = 1, f_per = 10, f_n = 0, f_reset = 95\<rparr> [100, 101, 105, 109]) \<le> 2"
  using rate_limit_sliding [of "[100, 101, 105, 109]" 100 "\<lparr>f_max = 1, f_per = 10, f_n = 0, f_reset = 95\<rparr>"] by simp

text \<open>
  Adding two normalised times gives a normalised time, but the carry into the seconds is
  taken at 2^20 instead of 10^6 microseconds: the sum is exact below 2^20 microseconds, and
  otherwise 48,576 microseconds are lost.
\<close>

lemma tv_add_loses:
  assumes "tv_normal a" and "tv_normal b"
  shows "tv_normal (tv_add a b) \<and>
         tv_total (tv_add a b) =
           tv_total a + tv_total b - (if tv_usec a + tv_usec b \<ge> 2 ^ 20 then 48576 else 0)"
  using tv_add_total [OF assms] by blast

end
