(* ===== verification/Interval.thy ===== *)
theory Interval
  imports Otime
begin

text \<open>
  The timers of \<open>src/Treiber/lib/interval.c\<close> and \<open>interval.h\<close>: the coarse \<open>struct interval\<close>,
  which limits how often an expensive routine runs, the recurring \<open>struct event_timeout\<close>, and
  the microsecond stop watch. The global \<open>now\<close> is an argument.
\<close>

section \<open>Intervals\<close>

record interval =
  i_refresh :: int
  i_horizon :: int
  i_future_trigger :: int
  i_last_action :: int
  i_last_test_true :: int

definition interval_init :: "int \<Rightarrow> int \<Rightarrow> interval" where
  "interval_init horizon refresh =
     \<lparr>i_refresh = refresh, i_horizon = horizon, i_future_trigger = 0, i_last_action = 0, i_last_test_true = 0\<rparr>"

definition interval_test :: "int \<Rightarrow> interval \<Rightarrow> bool \<times> interval" where
  "interval_test now tp =
     (let trigger = (i_future_trigger tp \<noteq> 0 \<and> now \<ge> i_future_trigger tp);
          tp1 = (if trigger then tp\<lparr>i_future_trigger := 0\<rparr> else tp)
      in if i_last_action tp1 + i_horizon tp1 > now \<or> i_last_test_true tp1 + i_refresh tp1 \<le> now \<or> trigger
         then (True, tp1\<lparr>i_last_test_true := now\<rparr>)
         else (False, tp1))"

definition interval_schedule_wakeup :: "int \<Rightarrow> interval \<Rightarrow> int \<Rightarrow> int" where
  "interval_schedule_wakeup now tp wakeup =
     interval_earliest_wakeup
       (interval_earliest_wakeup wakeup (i_last_test_true tp + i_refresh tp) now)
       (i_future_trigger tp) now"

definition interval_future_trigger :: "int \<Rightarrow> interval \<Rightarrow> int \<Rightarrow> interval" where
  "interval_future_trigger now tp wakeup =
     (if wakeup \<noteq> 0 then tp\<lparr>i_future_trigger := now + wakeup\<rparr> else tp)"

definition interval_action :: "int \<Rightarrow> interval \<Rightarrow> interval" where
  "interval_action now tp = tp\<lparr>i_last_action := now\<rparr>"

lemma interval_test_true_iff:
  "fst (interval_test now tp) \<longleftrightarrow>
     now < i_last_action tp + i_horizon tp \<or> i_last_test_true tp + i_refresh tp \<le> now \<or>
     (i_future_trigger tp \<noteq> 0 \<and> i_future_trigger tp \<le> now)"
  by (auto simp: interval_test_def Let_def)

lemma interval_test_false: "\<not> fst (interval_test now tp) \<Longrightarrow> snd (interval_test now tp) = tp"
  by (auto simp: interval_test_def Let_def split: if_splits)

lemma earliest_wakeup_min:
  assumes "c_int (at - current)" and "0 \<le> wakeup"
  shows "interval_earliest_wakeup wakeup at current =
     (if current < at then min wakeup (at - current) else wakeup)"
  using assms by (auto simp: interval_earliest_wakeup_def Let_def)

text \<open>The scheduled wakeup is the first time the test comes out true.\<close>

lemma schedule_wakeup_exact:
  assumes "\<not> fst (interval_test now tp)"
    and "c_int (i_last_test_true tp + i_refresh tp - now)" and "c_int (i_future_trigger tp - now)"
    and "0 \<le> wakeup" and "0 \<le> now"
    and "interval_schedule_wakeup now tp wakeup < wakeup"
  defines "w \<equiv> interval_schedule_wakeup now tp wakeup"
  shows "0 < w" and "fst (interval_test (now + w) tp)"
    and "0 \<le> t \<Longrightarrow> t < w \<Longrightarrow> \<not> fst (interval_test (now + t) tp)"
proof -
  let ?r = "i_last_test_true tp + i_refresh tp" and ?f = "i_future_trigger tp"
  have nt: "i_last_action tp + i_horizon tp \<le> now" "now < ?r" "?f = 0 \<or> now < ?f" "0 \<le> now"
    using assms(1,5) by (auto simp: interval_test_true_iff not_less)
  have f0: "now < ?f \<or> ?f \<le> now" by auto
  have i: "0 \<le> min wakeup (?r - now)" using assms(4) nt by simp
  have w: "w = (if now < ?f then min (min wakeup (?r - now)) (?f - now) else min wakeup (?r - now))"
    using nt(2) earliest_wakeup_min [OF assms(2,4)] earliest_wakeup_min [OF assms(3) i]
    by (simp add: w_def interval_schedule_wakeup_def)
  have lt: "w < wakeup" using assms(6) by (simp add: w_def)
  show "0 < w" using w lt nt f0 by (auto simp: min_def split: if_splits)
  show "fst (interval_test (now + w) tp)"
    using w lt nt by (auto simp: interval_test_true_iff min_def split: if_splits)
  show "0 \<le> t \<Longrightarrow> t < w \<Longrightarrow> \<not> fst (interval_test (now + t) tp)"
    using w nt by (auto simp: interval_test_true_iff min_def split: if_splits)
qed

section \<open>Recurring timeouts\<close>

record event_timeout =
  et_defined :: bool
  et_n :: int
  et_last :: int

definition event_timeout_defined :: "event_timeout \<Rightarrow> bool" where
  "event_timeout_defined et = et_defined et"

definition event_timeout_clear_ret :: "event_timeout" where
  "event_timeout_clear_ret = \<lparr>et_defined = False, et_n = 0, et_last = 0\<rparr>"

definition event_timeout_init :: "int \<Rightarrow> int \<Rightarrow> event_timeout" where
  "event_timeout_init n local_now =
     \<lparr>et_defined = True, et_n = (if n \<ge> 0 then n else 0), et_last = local_now\<rparr>"

definition event_timeout_reset :: "int \<Rightarrow> event_timeout \<Rightarrow> event_timeout" where
  "event_timeout_reset now et = (if et_defined et then et\<lparr>et_last := now\<rparr> else et)"

definition event_timeout_modify_wakeup :: "event_timeout \<Rightarrow> int \<Rightarrow> event_timeout" where
  "event_timeout_modify_wakeup et n =
     (if et_defined et then et\<lparr>et_n := (if n \<ge> 0 then n else 0)\<rparr> else et)"

definition event_timeout_remaining :: "int \<Rightarrow> event_timeout \<Rightarrow> int" where
  "event_timeout_remaining now et = to_int (et_last et - now + et_n et)"

text \<open>The result, the timer and \<open>*tv\<close>, which may be \<open>NULL\<close>.\<close>

definition event_timeout_trigger ::
  "int \<Rightarrow> event_timeout \<Rightarrow> timeval option \<Rightarrow> int \<Rightarrow> bool \<times> event_timeout \<times> timeval option" where
  "event_timeout_trigger now et tv et_const_retry =
     (if et_defined et
      then (let wakeup = et_last et - now + et_n et;
                (ret, et1, wakeup1) =
                  (if wakeup \<le> 0
                   then (if et_const_retry < 0 then (True, et\<lparr>et_last := now\<rparr>, et_n et)
                         else (False, et, et_const_retry))
                   else (False, et, wakeup))
            in (ret, et1,
                case tv of None \<Rightarrow> None
                | Some t \<Rightarrow> Some (if wakeup1 < tv_sec t then Timeval wakeup1 0 else t)))
      else (False, et, tv))"

text \<open>Polling the timer at the given times: the times at which it fires.\<close>

fun firings :: "event_timeout \<Rightarrow> int list \<Rightarrow> int list" where
  "firings et [] = []"
| "firings et (t # ts) =
     (case event_timeout_trigger t et None (-1) of
        (r, et', _) \<Rightarrow> (if r then [t] else []) @ firings et' ts)"

text \<open>Two times in a row are at least \<open>n\<close> apart.\<close>

fun spaced :: "int \<Rightarrow> int \<Rightarrow> int list \<Rightarrow> bool" where
  "spaced n prev [] = True"
| "spaced n prev (t # ts) = (prev + n \<le> t \<and> spaced n t ts)"

lemma trigger_default:
  "event_timeout_trigger t et None (-1) =
     (if et_defined et \<and> et_last et + et_n et \<le> t then (True, et\<lparr>et_last := t\<rparr>, None) else (False, et, None))"
  by (auto simp: event_timeout_trigger_def Let_def)

lemma firings_spaced: "spaced (et_n et) (et_last et) (firings et ts)"
proof (induction ts arbitrary: et)
  case (Cons t ts)
  show ?case
    using Cons.IH [of "et\<lparr>et_last := t\<rparr>"] Cons.IH [of et] by (simp add: trigger_default)
qed simp

text \<open>No poll that is due is missed.\<close>

lemma firings_due:
  assumes "et_defined et" and "et_last et + et_n et \<le> t"
  shows "firings et (t # ts) = t # firings (et\<lparr>et_last := t\<rparr>) ts"
  using assms by (simp add: trigger_default)

lemma trigger_wakeup:
  assumes "et_defined et" and "event_timeout_trigger now et (Some tv) r = (ret, et', Some tv')"
  shows "tv_sec tv' \<le> tv_sec tv"
    and "ret \<Longrightarrow> et_last et' = now \<and> tv_sec tv' \<le> et_n et'"
    and "\<not> ret \<Longrightarrow> et' = et" and "\<not> ret \<Longrightarrow> r < 0 \<Longrightarrow> tv_sec tv' \<le> et_last et + et_n et - now"
    and "r \<ge> 0 \<Longrightarrow> \<not> ret"
  using assms by (auto simp: event_timeout_trigger_def Let_def split: if_splits)

section \<open>Stop watch\<close>

record usec_timer =
  ut_start :: timeval
  ut_end :: timeval

definition USEC_TIMER_MAX :: nat where "USEC_TIMER_MAX = 60"

definition usec_timer_start :: "clock \<Rightarrow> timeval option \<Rightarrow> clock \<times> usec_timer" where
  "usec_timer_start c reading =
     (case openvpn_gettimeofday c reading of
        (c', tv) \<Rightarrow> (c', \<lparr>ut_start = (case tv of Some t \<Rightarrow> t | None \<Rightarrow> tv_clear), ut_end = tv_clear\<rparr>))"

definition usec_timer_end :: "clock \<Rightarrow> timeval option \<Rightarrow> usec_timer \<Rightarrow> clock \<times> usec_timer" where
  "usec_timer_end c reading obj =
     (case openvpn_gettimeofday c reading of
        (c', tv) \<Rightarrow> (c', case tv of Some t \<Rightarrow> obj\<lparr>ut_end := t\<rparr> | None \<Rightarrow> obj))"

definition usec_timer_interval_defined :: "usec_timer \<Rightarrow> bool" where
  "usec_timer_interval_defined obj \<longleftrightarrow> tv_sec (ut_start obj) \<noteq> 0 \<and> tv_sec (ut_end obj) \<noteq> 0"

definition usec_timer_interval :: "usec_timer \<Rightarrow> int" where
  "usec_timer_interval obj = tv_subtract (ut_end obj) (ut_start obj) USEC_TIMER_MAX"

section \<open>Properties\<close>

text \<open>
  The wakeup time an interval asks for is exact: if scheduling lowers the timeout, the
  interval does not test true at any earlier second and does at the scheduled one.
\<close>

lemma interval_wakeup_exact:
  assumes "\<not> fst (interval_test now tp)"
    and "c_int (i_last_test_true tp + i_refresh tp - now)" and "c_int (i_future_trigger tp - now)"
    and "0 \<le> wakeup" and "0 \<le> now" and "interval_schedule_wakeup now tp wakeup < wakeup"
  shows "0 < interval_schedule_wakeup now tp wakeup \<and>
         fst (interval_test (now + interval_schedule_wakeup now tp wakeup) tp) \<and>
         (\<forall>t. 0 \<le> t \<and> t < interval_schedule_wakeup now tp wakeup \<longrightarrow> \<not> fst (interval_test (now + t) tp))"
  using schedule_wakeup_exact [OF assms] by blast

text \<open>
  A periodic timer fires at points at least its period apart, whenever it is polled, and
  every poll that is due fires.
\<close>

lemma event_timeout_period:
  "spaced (et_n et) (et_last et) (firings et ts) \<and>
   firings et (t # ts) = (if et_defined et \<and> et_last et + et_n et \<le> t then t # firings (et\<lparr>et_last := t\<rparr>) ts else firings et ts)"
  by (simp add: firings_spaced trigger_default)

text \<open>
  After polling a timer the caller's timeout is never longer than before and never passes
  the timer's next due time, so waiting for it cannot oversleep the timer.
\<close>

lemma event_timeout_no_oversleep:
  assumes "et_defined et" and "event_timeout_trigger now et (Some tv) (-1) = (ret, et', Some tv')"
  shows "tv_sec tv' \<le> tv_sec tv \<and> now + tv_sec tv' \<le> et_last et' + et_n et' \<and>
         (ret \<longleftrightarrow> et_last et + et_n et \<le> now)"
  using assms by (auto simp: event_timeout_trigger_def Let_def split: if_splits)

end
