(* ===== verification/Env_Set.thy ===== *)
theory Env_Set
  imports Text_Laws Decimal
begin

text \<open>
  The environment of \<open>src/Treiber/lib/env_set.c\<close>: an association list of \<open>name=value\<close> strings,
  newest first, the functions that set, delete and look up variables in it, and the array of
  strings handed to a child process. A set with an arena (\<open>es_gc\<close>) leaves freeing to it.

  The list cells are not part of the memory here: an \<open>env_set\<close> owns its strings, and no
  operation shares them with another set.
\<close>

section \<open>Names and values\<close>

text \<open>\<open>s1\<close> and \<open>s2\<close> are compared up to \<open>=\<close> or the end.\<close>

function env_string_equal :: "cstr \<Rightarrow> cstr \<Rightarrow> bool" where
  "env_string_equal s1 s2 =
     (let c1 = (case s1 of [] \<Rightarrow> 0 | c # _ \<Rightarrow> c);
          c2 = (case s2 of [] \<Rightarrow> 0 | c # _ \<Rightarrow> c);
          c1 = (if c1 = of_char CHR ''='' then 0 else c1);
          c2 = (if c2 = of_char CHR ''='' then 0 else c2)
      in if c1 = 0 \<and> c2 = 0 then True
         else if c1 \<noteq> c2 then False
         else env_string_equal (tl s1) (tl s2))"
  by pat_completeness auto
termination
  by (relation "measure (\<lambda>(s1, _). length s1)") (auto split: list.splits if_splits)

declare env_string_equal.simps [simp del]

definition construct_name_value ::
  "mem \<Rightarrow> cstr option \<Rightarrow> cstr option \<Rightarrow> gc_arena option \<Rightarrow> fault + ptr \<times> mem \<times> gc_arena option" where
  "construct_name_value m name value gc =
     (case name of
        None \<Rightarrow> Inl AssertFail
      | Some n \<Rightarrow>
          (let v = (case value of None \<Rightarrow> [] | Some v \<Rightarrow> v)
           in bindE (alloc_buf_gc m (length n + length v + 2) gc)
                (\<lambda>(out, m1, gc1). bindE (buf_printf m1 out (Some (n @ asc ''='' @ v)))
                  (\<lambda>(_, out', m2). Inr (buf_bptr out', m2, gc1)))))"

section \<open>The list\<close>

record env_set =
  es_gc :: bool
  es_list :: "cstr list"

fun remove_env_item :: "cstr \<Rightarrow> cstr list \<Rightarrow> cstr list \<times> bool" where
  "remove_env_item str [] = ([], False)"
| "remove_env_item str (s # rest) =
     (if env_string_equal s str then (rest, True)
      else (let (rest', r) = remove_env_item str rest in (s # rest', r)))"

definition add_env_item :: "cstr \<Rightarrow> cstr list \<Rightarrow> cstr list" where
  "add_env_item str lst = str # lst"

definition env_set_create :: "bool \<Rightarrow> env_set" where
  "env_set_create gc = \<lparr>es_gc = gc, es_list = []\<rparr>"

definition env_set_del :: "env_set option \<Rightarrow> cstr option \<Rightarrow> fault + bool \<times> env_set" where
  "env_set_del es str =
     (case (es, str) of
        (Some e, Some s) \<Rightarrow> (let (l, r) = remove_env_item s (es_list e) in Inr (r, e\<lparr>es_list := l\<rparr>))
      | _ \<Rightarrow> Inl AssertFail)"

definition env_set_add_nolock :: "env_set \<Rightarrow> cstr \<Rightarrow> env_set" where
  "env_set_add_nolock es str = es\<lparr>es_list := add_env_item str (fst (remove_env_item str (es_list es)))\<rparr>"

definition env_set_add :: "env_set option \<Rightarrow> cstr option \<Rightarrow> fault + env_set" where
  "env_set_add es str =
     (case (es, str) of
        (Some e, Some s) \<Rightarrow> Inr (env_set_add_nolock e s)
      | _ \<Rightarrow> Inl AssertFail)"

fun env_list_get :: "cstr list \<Rightarrow> cstr \<Rightarrow> cstr option" where
  "env_list_get [] name = None"
| "env_list_get (s # rest) name = (if \<not> env_string_equal s name then env_list_get rest name else Some s)"

definition env_set_get :: "env_set \<Rightarrow> cstr \<Rightarrow> cstr option" where
  "env_set_get es name = env_list_get (es_list es) name"

fun inherit_loop :: "env_set \<Rightarrow> cstr list \<Rightarrow> env_set" where
  "inherit_loop es [] = es"
| "inherit_loop es (e # rest) = inherit_loop (env_set_add_nolock es e) rest"

definition env_set_inherit :: "env_set option \<Rightarrow> env_set option \<Rightarrow> fault + env_set" where
  "env_set_inherit es src =
     (case es of
        None \<Rightarrow> Inl AssertFail
      | Some e \<Rightarrow> Inr (case src of None \<Rightarrow> e | Some s \<Rightarrow> inherit_loop e (es_list s)))"

section \<open>Setting variables\<close>

text \<open>
  The name and the value are filtered through character classes, joined in a buffer of a
  local arena, and the arena is freed before the function returns.
\<close>

definition setenv_str_ex ::
  "mem \<Rightarrow> env_set option \<Rightarrow> cstr option \<Rightarrow> cstr option \<Rightarrow>
     cc_flags \<Rightarrow> cc_flags \<Rightarrow> byte \<Rightarrow> cc_flags \<Rightarrow> cc_flags \<Rightarrow> byte \<Rightarrow> fault + env_set \<times> mem" where
  "setenv_str_ex m es name value name_include name_exclude name_replace value_include value_exclude value_replace =
     bindE (c_assert (name \<noteq> None \<and> (case name of Some n \<Rightarrow> length n > 1 | None \<Rightarrow> False)))
       (\<lambda>_. bindE (string_mod_const name name_include name_exclude name_replace)
         (\<lambda>name_tmp. bindE (case value of None \<Rightarrow> Inr None
                                 | Some _ \<Rightarrow> string_mod_const value value_include value_exclude value_replace)
           (\<lambda>val_tmp. bindE (c_assert (es \<noteq> None))
             (\<lambda>_. case val_tmp of
                Some v \<Rightarrow>
                  bindE (construct_name_value m name_tmp val_tmp (Some gc_new))
                    (\<lambda>(str, m1, gc1). bindE (read_cstr m1 str)
                      (\<lambda>s. bindE (env_set_add es (Some s))
                        (\<lambda>es'. case gc1 of
                            Some gc \<Rightarrow> bindE (gc_free m1 gc) (\<lambda>(m2, _, _). Inr (es', m2))
                          | None \<Rightarrow> Inr (es', m1))))
              | None \<Rightarrow> bindE (env_set_del es name_tmp) (\<lambda>(_, es'). Inr (es', m))))))"

definition setenv_str :: "mem \<Rightarrow> env_set option \<Rightarrow> cstr option \<Rightarrow> cstr option \<Rightarrow> fault + env_set \<times> mem" where
  "setenv_str m es name value = setenv_str_ex m es name value CC_NAME 0 0 CC_PRINT 0 0"

definition setenv_del :: "mem \<Rightarrow> env_set option \<Rightarrow> cstr option \<Rightarrow> fault + env_set \<times> mem" where
  "setenv_del m es name = bindE (c_assert (name \<noteq> None)) (\<lambda>_. setenv_str m es name None)"

text \<open>The text of a number goes through a local array of 64 bytes.\<close>

definition number_text :: "mem \<Rightarrow> cstr \<Rightarrow> fault + cstr" where
  "number_text m txt =
     bindE (openvpn_snprintf (map (junk m (nxt m)) [0..<64]) 64 (Some txt)) (\<lambda>(buf, _). Inr (c_string buf))"

definition setenv_counter :: "mem \<Rightarrow> env_set option \<Rightarrow> cstr option \<Rightarrow> nat \<Rightarrow> fault + env_set \<times> mem" where
  "setenv_counter m es name value =
     bindE (number_text m (dec_nat value)) (\<lambda>s. setenv_str m es name (Some s))"

definition setenv_int :: "mem \<Rightarrow> env_set option \<Rightarrow> cstr option \<Rightarrow> int \<Rightarrow> fault + env_set \<times> mem" where
  "setenv_int m es name value =
     bindE (number_text m (dec_int value)) (\<lambda>s. setenv_str m es name (Some s))"

definition setenv_long_long :: "mem \<Rightarrow> env_set option \<Rightarrow> cstr option \<Rightarrow> int \<Rightarrow> fault + env_set \<times> mem" where
  "setenv_long_long m es name value =
     bindE (number_text m (dec_int value)) (\<lambda>s. setenv_str m es name (Some s))"

definition setenv_str_safe :: "mem \<Rightarrow> env_set option \<Rightarrow> cstr \<Rightarrow> cstr option \<Rightarrow> fault + env_set option \<times> mem" where
  "setenv_str_safe m es name value =
     (let (b, m1) = c_local m 64
      in bindE (buf_set_write m1 b 64)
           (\<lambda>(buf, m2). bindE (buf_printf m2 buf (Some (asc ''OPENVPN_'' @ name)))
             (\<lambda>(ok, buf', m3).
                bindE (if ok then bindE (read_cstr m3 (buf_bptr buf'))
                                    (\<lambda>s. bindE (setenv_str m3 es (Some s) value) (\<lambda>(es', m4). Inr (Some es', m4)))
                       else Inr (es, m3))
                  (\<lambda>(es', m4). bindE (c_free m4 b) (\<lambda>m5. Inr (es', m5))))))"

text \<open>The search for an unused name: \<open>name\<close>, \<open>name_1\<close>, \<open>name_2\<close>, ...\<close>

function incr_loop :: "env_set \<Rightarrow> cstr \<Rightarrow> byte list \<Rightarrow> nat \<Rightarrow> fault + byte list \<times> nat" where
  "incr_loop es name tmpname counter =
     (if env_set_get es (c_string tmpname) \<noteq> None \<and> counter < 1000
      then bindE (openvpn_snprintf tmpname (length name + 5) (Some (name @ asc ''_'' @ dec_nat counter)))
             (\<lambda>(tmpname', ok). bindE (c_assert ok) (\<lambda>_. incr_loop es name tmpname' (counter + 1)))
      else Inr (tmpname, counter))"
  by pat_completeness auto
termination by (relation "measure (\<lambda>(_, _, _, counter). 1000 - counter)") auto

declare incr_loop.simps [simp del]

definition setenv_str_incr :: "mem \<Rightarrow> env_set \<Rightarrow> cstr \<Rightarrow> cstr option \<Rightarrow> fault + env_set \<times> mem" where
  "setenv_str_incr m es name value =
     bindE (incr_loop es name (overwrite (replicate (length name + 5) NUL) 0 (name @ [NUL])) 1)
       (\<lambda>(tmpname, counter).
          if counter < 1000 then setenv_str m (Some es) (Some (c_string tmpname)) value
          else Inr (es, m))"

definition setenv_format_indexed_name ::
  "mem \<Rightarrow> cstr \<Rightarrow> int \<Rightarrow> gc_arena option \<Rightarrow> fault + ptr \<times> mem \<times> gc_arena option" where
  "setenv_format_indexed_name m name i gc =
     bindE (alloc_buf_gc m (length name + 16) gc)
       (\<lambda>(out, m1, gc1). bindE (buf_printf m1 out (Some (if i \<ge> 0 then name @ asc ''_'' @ dec_int i else name)))
         (\<lambda>(_, out', m2). Inr (buf_bptr out', m2, gc1)))"

definition setenv_str_i :: "mem \<Rightarrow> env_set option \<Rightarrow> cstr \<Rightarrow> cstr option \<Rightarrow> int \<Rightarrow> fault + env_set \<times> mem" where
  "setenv_str_i m es name value i =
     bindE (setenv_format_indexed_name m name i (Some gc_new))
       (\<lambda>(p, m1, gc1). bindE (read_cstr m1 p)
         (\<lambda>name_str. bindE (setenv_str m1 es (Some name_str) value)
           (\<lambda>(es', m2). case gc1 of
               Some gc \<Rightarrow> bindE (gc_free m2 gc) (\<lambda>(m3, _, _). Inr (es', m3))
             | None \<Rightarrow> Inr (es', m2))))"

definition setenv_int_i :: "mem \<Rightarrow> env_set option \<Rightarrow> cstr \<Rightarrow> int \<Rightarrow> int \<Rightarrow> fault + env_set \<times> mem" where
  "setenv_int_i m es name value i =
     bindE (setenv_format_indexed_name m name i (Some gc_new))
       (\<lambda>(p, m1, gc1). bindE (read_cstr m1 p)
         (\<lambda>name_str. bindE (setenv_int m1 es (Some name_str) value)
           (\<lambda>(es', m2). case gc1 of
               Some gc \<Rightarrow> bindE (gc_free m2 gc) (\<lambda>(m3, _, _). Inr (es', m3))
             | None \<Rightarrow> Inr (es', m2))))"

section \<open>What a child process sees\<close>

text \<open>
  \<open>script_security()\<close> and the level \<open>SSEC_PW_ENV\<close> come from outside the repository; the
  comparison of the two is the argument \<open>pw_env\<close>.
\<close>

definition is_password_env_var :: "cstr \<Rightarrow> bool" where
  "is_password_env_var str \<longleftrightarrow> take 8 str = asc ''password''"

definition env_safe_to_print :: "cstr \<Rightarrow> bool" where
  "env_safe_to_print str = (if is_password_env_var str then False else True)"

definition env_allowed :: "bool \<Rightarrow> cstr \<Rightarrow> bool" where
  "env_allowed pw_env str \<longleftrightarrow> pw_env \<or> \<not> is_password_env_var str"

fun fill_env_array :: "bool \<Rightarrow> bool \<Rightarrow> nat \<Rightarrow> cstr option list \<Rightarrow> nat \<Rightarrow> cstr list \<Rightarrow> fault + cstr option list \<times> nat" where
  "fill_env_array pw_env check_allowed n ret i [] = Inr (ret, i)"
| "fill_env_array pw_env check_allowed n ret i (e # rest) =
     (if \<not> check_allowed \<or> env_allowed pw_env e
      then bindE (c_assert (i < n))
             (\<lambda>_. if i < length ret then fill_env_array pw_env check_allowed n (ret[i := Some e]) (i + 1) rest
                  else Inl MemFault)
      else fill_env_array pw_env check_allowed n ret i rest)"

definition make_env_array :: "bool \<Rightarrow> env_set option \<Rightarrow> bool \<Rightarrow> fault + cstr option list" where
  "make_env_array pw_env es check_allowed =
     (let l = (case es of None \<Rightarrow> [] | Some e \<Rightarrow> es_list e); n = length l
      in bindE (fill_env_array pw_env check_allowed n (replicate (n + 1) None) 0 l)
           (\<lambda>(ret, i). if i < length ret then Inr (ret[i := None]) else Inl MemFault))"

definition env_set_print :: "env_set option \<Rightarrow> bool \<Rightarrow> (nat \<times> cstr) list" where
  "env_set_print es level_ok =
     (if level_ok
      then (case es of None \<Rightarrow> []
            | Some e \<Rightarrow> filter (\<lambda>(_, s). env_safe_to_print s) (zip [0..<length (es_list e)] (es_list e)))
      else [])"

section \<open>Keys\<close>

definition key :: "cstr \<Rightarrow> cstr" where
  "key s = takeWhile (\<lambda>c. c \<noteq> of_char CHR ''='') s"

lemma env_string_equal_key:
  "is_cstr s1 \<Longrightarrow> is_cstr s2 \<Longrightarrow> env_string_equal s1 s2 \<longleftrightarrow> key s1 = key s2"
proof (induction s1 arbitrary: s2)
  case Nil
  then show ?case by (subst env_string_equal.simps) (cases s2; simp add: key_def Let_def)
next
  case (Cons c s1)
  then show ?case
    by (subst env_string_equal.simps) (cases s2; auto simp: key_def Let_def)
qed

end
