(* ===== verification/Env_Laws.thy ===== *)
theory Env_Laws
  imports Env_Set
begin

text \<open>
  The environment of theory Env_Set is a finite map from names to \<open>name=value\<close> strings. The
  interface \<open>env_store\<close> states that; it is interpreted on the list, and what \<open>setenv_str\<close>,
  \<open>setenv_str_incr\<close> and the array of a child process do is derived over it.
\<close>

section \<open>Lists with distinct keys\<close>

definition env_inv :: "env_set \<Rightarrow> bool" where
  "env_inv es \<longleftrightarrow> distinct (map key (es_list es)) \<and> list_all is_cstr (es_list es)"

lemma is_cstr_key [simp]: "is_cstr s \<Longrightarrow> is_cstr (key s)"
  by (auto simp: is_cstr_def key_def dest: set_takeWhileD)

lemma remove_env_item_spec:
  assumes "list_all is_cstr l" and "is_cstr str" and "distinct (map key l)"
  shows "remove_env_item str l = (filter (\<lambda>s. key s \<noteq> key str) l, \<exists>s \<in> set l. key s = key str)"
  using assms
proof (induction l)
  case (Cons s l)
  show ?case
  proof (cases "key s = key str")
    case True
    then have "filter (\<lambda>s. key s \<noteq> key str) l = l"
      using Cons.prems(3) by (auto simp: filter_id_conv) (metis imageI)
    then show ?thesis using True Cons.prems by (simp add: env_string_equal_key)
  next
    case False
    then show ?thesis using Cons by (simp add: env_string_equal_key)
  qed
qed simp

lemma env_list_get_find:
  "list_all is_cstr l \<Longrightarrow> is_cstr n \<Longrightarrow> env_list_get l n = find (\<lambda>s. key s = key n) l"
  by (induction l) (simp_all add: env_string_equal_key)

lemma find_filter:
  "find P (filter Q l) = find (\<lambda>x. Q x \<and> P x) l"
  by (induction l) auto

lemma find_cong_set: "(\<And>x. x \<in> set l \<Longrightarrow> P x = Q x) \<Longrightarrow> find P l = find Q l"
  by (induction l) auto

lemma distinct_map_filter_key: "distinct (map key l) \<Longrightarrow> distinct (map key (filter P l))"
  by (induction l) auto

definition env_look :: "env_set \<Rightarrow> cstr \<Rightarrow> cstr option" where
  "env_look es k = find (\<lambda>s. key s = k) (es_list es)"

lemma env_set_get_look: "env_inv es \<Longrightarrow> is_cstr n \<Longrightarrow> env_set_get es n = env_look es (key n)"
  by (simp add: env_set_get_def env_look_def env_inv_def env_list_get_find)

definition env_del :: "env_set \<Rightarrow> cstr \<Rightarrow> env_set" where
  "env_del es s = es\<lparr>es_list := fst (remove_env_item s (es_list es))\<rparr>"

lemma env_set_del_env_del:
  "env_inv es \<Longrightarrow> is_cstr s \<Longrightarrow>
     env_set_del (Some es) (Some s) = Inr (env_look es (key s) \<noteq> None, env_del es s)"
  by (auto simp: env_set_del_def env_del_def env_inv_def remove_env_item_spec env_look_def find_None_iff
      dest!: sym [of "None"])

section \<open>The interface\<close>

text \<open>
  A store of strings found by their key. \<open>look s k\<close> is the string whose key is \<open>k\<close>.
\<close>

locale env_store =
  fixes inv :: "'s \<Rightarrow> bool"
    and look :: "'s \<Rightarrow> cstr \<Rightarrow> cstr option"
    and add :: "'s \<Rightarrow> cstr \<Rightarrow> 's"
    and del :: "'s \<Rightarrow> cstr \<Rightarrow> 's"
  assumes inv_add: "inv s \<Longrightarrow> is_cstr e \<Longrightarrow> inv (add s e)"
    and inv_del: "inv s \<Longrightarrow> is_cstr e \<Longrightarrow> inv (del s e)"
    and look_add: "inv s \<Longrightarrow> is_cstr e \<Longrightarrow> look (add s e) = (look s)(key e \<mapsto> e)"
    and look_del: "inv s \<Longrightarrow> is_cstr e \<Longrightarrow> look (del s e) = (look s)(key e := None)"
begin

lemma add_all:
  "inv s \<Longrightarrow> list_all is_cstr l \<Longrightarrow>
     inv (foldl add s l) \<and> look (foldl add s l) = look s ++ (map_of (rev (map (\<lambda>e. (key e, e)) l)))"
proof (induction l arbitrary: s)
  case (Cons e l)
  from Cons.prems have "inv (add s e)" "look (add s e) = (look s)(key e \<mapsto> e)"
    by (simp_all add: inv_add look_add)
  with Cons.IH [of "add s e"] Cons.prems show ?case
    by (simp add: map_add_assoc [symmetric] map_of_append) (simp add: map_add_def fun_eq_iff split: option.splits)
qed simp

lemma set_then_get:
  assumes "inv s" and "is_cstr e"
  shows "look (add s e) (key e) = Some e"
    and "k \<noteq> key e \<Longrightarrow> look (add s e) k = look s k"
    and "look (del (add s e) e) = (look s)(key e := None)"
  using assms by (simp_all add: look_add look_del inv_add)

lemma add_add:
  "inv s \<Longrightarrow> is_cstr e \<Longrightarrow> is_cstr f \<Longrightarrow> key e = key f \<Longrightarrow> look (add (add s e) f) = look (add s f)"
  by (simp add: look_add inv_add)

end

lemma env_inv_del: "env_inv es \<Longrightarrow> is_cstr s \<Longrightarrow> env_inv (env_del es s)"
  by (auto simp: env_inv_def env_del_def remove_env_item_spec distinct_map_filter_key list_all_iff)

lemma env_look_del: "env_inv es \<Longrightarrow> is_cstr s \<Longrightarrow> env_look (env_del es s) = (env_look es)(key s := None)"
proof
  fix k
  assume a: "env_inv es" "is_cstr s"
  have "find (\<lambda>x. key x \<noteq> key s \<and> key x = k) (es_list es) =
      (if k = key s then None else find (\<lambda>x. key x = k) (es_list es))"
    by (cases "k = key s") (auto simp: find_None_iff intro: find_cong_set)
  then show "env_look (env_del es s) k = ((env_look es)(key s := None)) k"
    using a by (simp add: env_look_def env_del_def env_inv_def remove_env_item_spec find_filter)
qed

lemma env_set_add_nolock_del:
  "env_set_add_nolock es s = (env_del es s)\<lparr>es_list := s # es_list (env_del es s)\<rparr>"
  by (simp add: env_set_add_nolock_def add_env_item_def env_del_def)

lemma env_inv_add: "env_inv es \<Longrightarrow> is_cstr s \<Longrightarrow> env_inv (env_set_add_nolock es s)"
  using env_inv_del [of es s]
  by (auto simp: env_set_add_nolock_del env_inv_def env_del_def remove_env_item_spec)

interpretation env: env_store env_inv env_look env_set_add_nolock env_del
proof unfold_locales
  fix es s
  assume a: "env_inv es" "is_cstr s"
  show "env_inv (env_set_add_nolock es s)" "env_inv (env_del es s)"
    using a by (simp_all add: env_inv_add env_inv_del)
  show "env_look (env_del es s) = (env_look es)(key s := None)" using a by (rule env_look_del)
  show "env_look (env_set_add_nolock es s) = (env_look es)(key s \<mapsto> s)"
    using env_look_del [OF a]
    by (auto simp: env_set_add_nolock_del fun_eq_iff env_look_def)
qed

lemma inherit_loop_foldl: "inherit_loop es l = foldl env_set_add_nolock es l"
  by (induction l arbitrary: es) simp_all

lemma map_of_rev_distinct:
  "distinct (map key l) \<Longrightarrow> map_of (rev (map (\<lambda>e. (key e, e)) l)) k = find (\<lambda>s. key s = k) l"
proof (induction l)
  case (Cons e l)
  show ?case
  proof (cases "key e = k")
    case True
    have "find (\<lambda>s. key s = k) l = None" using Cons.prems True by (auto simp: find_None_iff) (metis imageI)
    then show ?thesis using Cons True by (simp add: map_add_def)
  next
    case False
    then show ?thesis using Cons by (simp add: map_add_def split: option.splits)
  qed
qed simp

text \<open>Inheriting overrides: the map of the source wins.\<close>

lemma inherit_look:
  assumes "env_inv es" and "env_inv src"
  shows "env_set_inherit (Some es) (Some src) = Inr (inherit_loop es (es_list src))"
    and "env_inv (inherit_loop es (es_list src))"
    and "env_look (inherit_loop es (es_list src)) = env_look es ++ env_look src"
  using env.add_all [OF assms(1), of "es_list src"] assms(2) map_of_rev_distinct [of "es_list src"]
  by (auto simp: env_set_inherit_def inherit_loop_foldl env_inv_def fun_eq_iff env_look_def [of src] map_add_def)

section \<open>Setting a variable\<close>

lemma key_name_value: "of_char CHR ''='' \<notin> set n \<Longrightarrow> key (n @ asc ''='' @ v) = n"
  by (simp add: key_def takeWhile_stop)

lemma construct_name_value_ok:
  assumes "\<not> oom m (nxt m)" and "is_cstr n" and "is_cstr v" and "length n + length v + 2 < 1000000"
  shows "\<exists>m'. construct_name_value m (Some n) (Some v) gc =
           Inr (Ptr (nxt m) 0, m', map_option (\<lambda>ar. ar\<lparr>gc_list := nxt m # gc_list ar\<rparr>) gc) \<and>
           read_cstr m' (Ptr (nxt m) 0) = Inr (n @ asc ''='' @ v) \<and> blocks m' (nxt m) \<noteq> None \<and>
           nxt m' = Suc (nxt m) \<and> (\<forall>k. k \<noteq> nxt m \<longrightarrow> blocks m' k = blocks m k)"
proof -
  have l: "int (length n + length v + 2) < BUF_SIZE_MAX" using assms(4) unfolding BUF_SIZE_MAX_def by linarith
  have c: "is_cstr (n @ asc ''='' @ v)" using assms(2,3) by simp
  from fresh_printf [OF assms(1) l c, of gc] show ?thesis
    by (auto simp: construct_name_value_def)
qed

lemma string_class_set: "string_class s inc exc \<Longrightarrow> c \<in> set s \<Longrightarrow> char_inc_exc c inc exc"
  by (simp add: string_class_all)

text \<open>A variable name after filtering has no \<open>=\<close> in it.\<close>

lemma mod_spec_CC_NAME: "of_char CHR ''='' \<notin> set (mod_spec CC_NAME 0 0 n)"
proof
  assume "of_char CHR ''='' \<in> set (mod_spec CC_NAME 0 0 n)"
  then have "char_inc_exc (of_char CHR ''='') CC_NAME 0"
    using mod_spec_class [of 0 CC_NAME 0 n] by (auto intro: string_class_set)
  then show False by (simp add: char_inc_exc_def char_class_CC_NAME ctype_defs)
qed

lemma setenv_str_value:
  assumes "env_inv es" and "\<not> oom m (nxt m)" and "is_cstr n" and "is_cstr v" and "1 < length n"
    and "length n + length v + 2 < 1000000"
  defines "n' \<equiv> mod_spec CC_NAME 0 0 n" and "v' \<equiv> mod_spec CC_PRINT 0 0 v"
  shows "\<exists>m'. setenv_str m (Some es) (Some n) (Some v) =
                Inr (env_set_add_nolock es (n' @ asc ''='' @ v'), m') \<and>
              (blocks m (nxt m) = None \<longrightarrow> blocks m' = blocks m)"
proof -
  have c: "is_cstr n'" "is_cstr v'" using assms(3,4) by (simp_all add: n'_def v'_def is_cstr_mod_spec)
  have l: "length n' + length v' + 2 < 1000000"
    using length_mod_spec [of CC_NAME 0 0 n] length_mod_spec [of CC_PRINT 0 0 v] assms(6)
    unfolding n'_def v'_def by linarith
  obtain m1 where m1: "construct_name_value m (Some n') (Some v') (Some gc_new) =
        Inr (Ptr (nxt m) 0, m1, Some (gc_new\<lparr>gc_list := [nxt m]\<rparr>))"
      "read_cstr m1 (Ptr (nxt m) 0) = Inr (n' @ asc ''='' @ v')" "blocks m1 (nxt m) \<noteq> None"
      "\<forall>k. k \<noteq> nxt m \<longrightarrow> blocks m1 k = blocks m k"
    using construct_name_value_ok [OF assms(2) c l, of "Some gc_new"] by (auto simp: gc_new_def)
  have gi: "gc_inv m1 (gc_new\<lparr>gc_list := [nxt m]\<rparr>)" using m1(3) by (simp add: gc_inv_def)
  obtain m2 where m2: "gc_free m1 (gc_new\<lparr>gc_list := [nxt m]\<rparr>) =
        Inr (m2, gc_init (gc_new\<lparr>gc_list := [nxt m]\<rparr>), [])"
      "blocks m2 = (\<lambda>k. if k = nxt m then None else blocks m1 k)"
    using gc_free_ok [OF gi] by (auto simp: gc_new_def)
  have "setenv_str m (Some es) (Some n) (Some v) = Inr (env_set_add_nolock es (n' @ asc ''='' @ v'), m2)"
  proof -
    have s1: "string_mod_const (Some n) CC_NAME 0 0 = Inr (Some n')"
      "string_mod_const (Some v) CC_PRINT 0 0 = Inr (Some v')"
      using assms(3,4) by (simp_all add: string_mod_const_Some n'_def v'_def)
    show ?thesis
      unfolding setenv_str_def setenv_str_ex_def
      by (simp only: s1 bindE_simps c_assert_simps option.case option.simps assms(5) m1(1,2) m2(1) env_set_add_def prod.case simp_thms)
  qed
  moreover have "blocks m (nxt m) = None \<Longrightarrow> blocks m2 = blocks m"
    unfolding m2(2) using m1(4) by (intro ext) simp
  ultimately show ?thesis by (intro exI [of _ m2] conjI impI)
qed

lemma setenv_str_unset:
  assumes "env_inv es" and "is_cstr n" and "1 < length n"
  shows "setenv_str m (Some es) (Some n) None = Inr (env_del es (mod_spec CC_NAME 0 0 n), m)"
  using assms
  by (simp add: setenv_str_def setenv_str_ex_def string_mod_const_Some env_set_del_env_del is_cstr_mod_spec)

section \<open>Unused names\<close>

definition candidate :: "cstr \<Rightarrow> nat \<Rightarrow> cstr" where
  "candidate name k = (if k = 0 then name else name @ asc ''_'' @ dec_nat k)"

lemma snprintf_candidate:
  assumes "is_cstr name" and "0 < k" and "k < 1000" and "length tmp = length name + 5"
  shows "\<exists>tmp'. openvpn_snprintf tmp (length name + 5) (Some (name @ asc ''_'' @ dec_nat k)) = Inr (tmp', True) \<and>
           c_string tmp' = candidate name k \<and> length tmp' = length name + 5"
proof -
  let ?t = "name @ asc ''_'' @ dec_nat k"
  have l: "length (dec_nat k) \<le> 3" using dec_nat_length [of k 3] assms(3) by simp
  have c: "is_cstr ?t" using assms(1) by simp
  have v: "vsnprintf_bytes (Some ?t) (length name + 5) = ?t @ [NUL]"
    using l by (simp add: vsnprintf_bytes_def)
  let ?o = "overwrite tmp 0 (?t @ [NUL])"
  have lo: "length ?o = length name + 5" using l assms(4) by simp
  have i: "length name + 5 - 1 = length name + 4" by simp
  obtain zs where zs: "?o = ?t @ NUL # zs" by (simp add: overwrite_def)
  have "length ?t \<le> length name + 4" using l by simp
  then have "\<exists>ys. ?o[length name + 4 := NUL] = ?t @ NUL # ys"
    unfolding zs using list_update_append [of ?t "NUL # zs" "length name + 4" NUL]
    by (cases "length name + 4 - length ?t") auto
  then obtain ys where "?o[length name + 4 := NUL] = ?t @ NUL # ys" by blast
  then have "c_string (?o[length name + 4 := NUL]) = ?t"
    using c_string_terminated [OF c, of ys] by (simp only:)
  moreover have "openvpn_snprintf tmp (length name + 5) (Some ?t) = Inr (?o[length name + 4 := NUL], True)"
    using l lo assms(4) unfolding openvpn_snprintf_def v i
    by (simp add: arr_set_in vsnprintf_ret_def)
  ultimately show ?thesis using lo assms(2) by (auto simp: candidate_def)
qed

lemma incr_loop_spec:
  assumes "is_cstr name" and "length tmp = length name + 5" and "c_string tmp = candidate name k"
    and "\<forall>j. k \<le> j \<and> j < n \<longrightarrow> env_set_get es (candidate name j) \<noteq> None"
    and "n < 999 \<Longrightarrow> env_set_get es (candidate name n) = None" and "k \<le> n" and "n \<le> 999"
  shows "\<exists>tmp'. incr_loop es name tmp (Suc k) = Inr (tmp', Suc n) \<and> (n < 999 \<longrightarrow> c_string tmp' = candidate name n)"
  using assms
proof (induction "n - k" arbitrary: k tmp)
  case 0
  then have "k = n" by simp
  then show ?case using 0 by (subst incr_loop.simps) auto
next
  case (Suc d)
  then have k: "k < n" by simp
  have kb: "Suc k < 1000" using k Suc.prems(7) by simp
  obtain tmp' where t: "openvpn_snprintf tmp (length name + 5) (Some (name @ asc ''_'' @ dec_nat (Suc k))) = Inr (tmp', True)"
      "c_string tmp' = candidate name (Suc k)" "length tmp' = length name + 5"
    using snprintf_candidate [OF Suc.prems(1) _ kb Suc.prems(2)] by auto
  have step: "incr_loop es name tmp (Suc k) = incr_loop es name tmp' (Suc (Suc k))"
    using Suc.prems(3,4) k kb t(1) by (subst incr_loop.simps) simp
  have "d = n - Suc k" using Suc.hyps(2) by simp
  from Suc.hyps(1) [OF this Suc.prems(1) t(3,2)] Suc.prems k show ?case
    unfolding step by auto
qed

lemma setenv_str_incr_free:
  assumes "is_cstr name" and "\<forall>j < n. env_set_get es (candidate name j) \<noteq> None"
    and "env_set_get es (candidate name n) = None" and "n < 999"
  shows "setenv_str_incr m es name value = setenv_str m (Some es) (Some (candidate name n)) value"
proof -
  let ?tmp = "overwrite (replicate (length name + 5) NUL) 0 (name @ [NUL])"
  have "c_string ?tmp = candidate name 0" using assms(1) by (simp add: overwrite_def candidate_def)
  then obtain tmp' where "incr_loop es name ?tmp (Suc 0) = Inr (tmp', Suc n)" "c_string tmp' = candidate name n"
    using incr_loop_spec [OF assms(1), of ?tmp 0 n es] assms by auto
  then show ?thesis using assms(4) by (simp add: setenv_str_incr_def)
qed

lemma setenv_str_incr_full:
  assumes "is_cstr name" and "\<forall>j < 999. env_set_get es (candidate name j) \<noteq> None"
  shows "setenv_str_incr m es name value = Inr (es, m)"
proof -
  let ?tmp = "overwrite (replicate (length name + 5) NUL) 0 (name @ [NUL])"
  have "c_string ?tmp = candidate name 0" using assms(1) by (simp add: overwrite_def candidate_def)
  then obtain tmp' where "incr_loop es name ?tmp (Suc 0) = Inr (tmp', Suc 999)"
    using incr_loop_spec [OF assms(1), of ?tmp 0 999 es] assms(2) by auto
  then show ?thesis by (simp add: setenv_str_incr_def)
qed

section \<open>The array of a child process\<close>

lemma fill_env_array_spec:
  assumes "length ret = n + 1" and "i + length (filter (\<lambda>e. \<not> ca \<or> env_allowed pw e) l) \<le> n"
    and "drop i ret = replicate (n + 1 - i) None"
  shows "\<exists>ret'. fill_env_array pw ca n ret i l = Inr (ret', i + length (filter (\<lambda>e. \<not> ca \<or> env_allowed pw e) l)) \<and>
           ret' = take i ret @ map Some (filter (\<lambda>e. \<not> ca \<or> env_allowed pw e) l) @
                  replicate (n + 1 - i - length (filter (\<lambda>e. \<not> ca \<or> env_allowed pw e) l)) None"
  using assms
proof (induction l arbitrary: ret i)
  case Nil
  then show ?case using append_take_drop_id [of i ret] by simp
next
  case (Cons e l)
  show ?case
  proof (cases "\<not> ca \<or> env_allowed pw e")
    case True
    have i: "i < n" "i < length ret" using True Cons.prems by auto
    have t: "take (Suc i) (ret[i := Some e]) = take i ret @ [Some e]"
      using i by (simp add: take_Suc_conv_app_nth)
    have d: "drop (Suc i) (ret[i := Some e]) = replicate (n + 1 - Suc i) None"
    proof -
      have "drop (Suc i) (ret[i := Some e]) = tl (drop i ret)"
        by (subst drop_update_cancel) (simp_all add: drop_Suc tl_drop)
      moreover have "n + 1 - i = Suc (n + 1 - Suc i)" using i by simp
      ultimately show ?thesis using Cons.prems(3) by simp
    qed
    show ?thesis
      using True i Cons.IH [of "ret[i := Some e]" "Suc i"] Cons.prems t d by simp
  next
    case False
    then show ?thesis using Cons by simp
  qed
qed

lemma make_env_array_spec:
  fixes ca pw :: bool
  assumes "es_list es = l"
  defines "kept \<equiv> filter (\<lambda>e. \<not> ca \<or> env_allowed pw e) l"
  shows "make_env_array pw (Some es) ca = Inr (map Some kept @ replicate (length l + 1 - length kept) None)"
proof -
  have k: "length kept \<le> length l" by (simp add: kept_def)
  obtain ret where r: "fill_env_array pw ca (length l) (replicate (length l + 1) None) 0 l = Inr (ret, length kept)"
      "ret = map Some kept @ replicate (length l + 1 - length kept) None"
    using fill_env_array_spec [of "replicate (length l + 1) None" "length l" 0 ca pw l] k unfolding kept_def by auto
  have "ret[length kept := None] = ret"
    using k unfolding r(2) by (cases "length l + 1 - length kept") (auto simp: list_update_append)
  then show ?thesis using r k assms(1) by (auto simp: make_env_array_def Let_def)
qed

section \<open>Properties\<close>

text \<open>
  Inheriting an environment makes it the union of both in which the inherited strings win;
  the set still has one string per name.
\<close>

lemma env_inherit_overrides:
  assumes "env_inv es" and "env_inv src"
  shows "\<exists>es'. env_set_inherit (Some es) (Some src) = Inr es' \<and> env_inv es' \<and>
           env_look es' = env_look es ++ env_look src"
  using inherit_look [OF assms] by blast

text \<open>
  Setting a variable stores exactly one string, "name=value", under the name reduced to
  letters, digits and underscores and with the unprintable characters of the value removed (so
  neither can add a second assignment or hide a name), leaves all other variables alone, and
  gives back all memory it used.
\<close>

lemma setenv_str_sets:
  assumes "env_inv es" and "mem_ok m" and "\<not> oom m (nxt m)" and "is_cstr n" and "is_cstr v" and "1 < length n"
    and "length n + length v + 2 < 1000000"
  shows "\<exists>es' m' n' v'. setenv_str m (Some es) (Some n) (Some v) = Inr (es', m') \<and> env_inv es' \<and>
           env_look es' = (env_look es)(n' \<mapsto> n' @ asc ''='' @ v') \<and> blocks m' = blocks m \<and>
           n' = mod_spec CC_NAME 0 0 n \<and> (\<forall>c \<in> set n'. isalnum c \<or> c = of_char CHR ''_'') \<and>
           v' = mod_spec CC_PRINT 0 0 v \<and> (\<forall>c \<in> set v'. 32 \<le> c \<and> c \<noteq> 127)"
proof -
  let ?n = "mod_spec CC_NAME 0 0 n" and ?v = "mod_spec CC_PRINT 0 0 v"
  have e: "of_char CHR ''='' \<notin> set ?n" by (rule mod_spec_CC_NAME)
  have k: "key (?n @ asc ''='' @ ?v) = ?n" by (rule key_name_value [OF e])
  have c: "is_cstr (?n @ asc ''='' @ ?v)" using assms(4,5) by (simp add: is_cstr_mod_spec)
  obtain m' where m': "setenv_str m (Some es) (Some n) (Some v) = Inr (env_set_add_nolock es (?n @ asc ''='' @ ?v), m')"
      "blocks m' = blocks m"
    using setenv_str_value [OF assms(1,3-7)] mem_ok_nxt [OF assms(2)] by blast
  have cl: "\<forall>c \<in> set (mod_spec inc 0 0 s). char_class c inc" for inc s
    using mod_spec_class [of 0 inc 0 s] string_class_set by (auto simp: char_inc_exc_def)
  show ?thesis
    using m' env.inv_add [OF assms(1) c] env.look_add [OF assms(1) c] cl [of CC_NAME n] cl [of CC_PRINT v]
    unfolding k char_class_CC_NAME char_class_CC_PRINT by blast
qed

text \<open>
  Adding a variable under an unused name takes the first free one of "name", "name_1",
  "name_2", ... up to "name_998", and changes nothing when all of them are taken.
\<close>

lemma setenv_str_incr_first_free:
  assumes "is_cstr name" and "\<forall>j < n. env_set_get es (candidate name j) \<noteq> None" and "n \<le> 999"
    and "n < 999 \<longrightarrow> env_set_get es (candidate name n) = None"
  shows "setenv_str_incr m es name value =
           (if n < 999 then setenv_str m (Some es) (Some (candidate name n)) value else Inr (es, m))"
  using setenv_str_incr_free [OF assms(1,2)] setenv_str_incr_full [OF assms(1)] assms(2-4) by (cases "n < 999") auto

text \<open>
  The environment array of a child process is the NULL-terminated list of the set's strings
  in order, without those whose name starts with "password" unless the security level allows
  them; no index leaves the array.
\<close>

lemma make_env_array_filters:
  "\<exists>arr n. make_env_array pw (Some es) ca = Inr arr \<and> length arr = length (es_list es) + 1 \<and>
     arr = map Some (filter (\<lambda>e. \<not> ca \<or> pw \<or> \<not> is_password_env_var e) (es_list es)) @ replicate (Suc n) None"
proof -
  let ?l = "es_list es" and ?k = "filter (\<lambda>e. \<not> ca \<or> env_allowed pw e) (es_list es)"
  have le: "length ?k \<le> length ?l" by (rule length_filter_le)
  have "make_env_array pw (Some es) ca = Inr (map Some ?k @ replicate (Suc (length ?l - length ?k)) None)"
  proof -
    have "length ?l + 1 - length ?k = Suc (length ?l - length ?k)" using le by arith
    then show ?thesis using make_env_array_spec [OF refl, of pw es ca] by metis
  qed
  then show ?thesis
    using le by (intro exI [of _ "map Some ?k @ replicate (Suc (length ?l - length ?k)) None"]
        exI [of _ "length ?l - length ?k"]) (simp add: env_allowed_def)
qed

end
