(* ===== verification/Argv.thy ===== *)
theory Argv
  imports Text_Laws Decimal Integer
begin

text \<open>
  Argument vectors of \<open>src/Treiber/lib/argv.c\<close>: the growing NULL-terminated array of strings
  given to \<open>execve\<close>, and \<open>argv_printf\<close>, which splits a format string at its spaces before
  expanding it, so that no expanded argument can add or split an element.

  Strings are values; the array itself is a list of slots whose length is the capacity, and an
  access outside it is \<open>Inl MemFault\<close>. Allocations from the arena of the vector succeed.
\<close>

section \<open>The array\<close>

record argv =
  a_capacity :: nat
  a_argc :: nat
  a_argv :: "cstr option list"

definition slot_set :: "cstr option list \<Rightarrow> nat \<Rightarrow> cstr option \<Rightarrow> fault + cstr option list" where
  "slot_set sl i s = (if i < length sl then Inr (sl[i := s]) else Inl MemFault)"

text \<open>The copying loop of \<open>argv_extend\<close>.\<close>

fun copy_slots :: "cstr option list \<Rightarrow> cstr option list \<Rightarrow> nat \<Rightarrow> nat \<Rightarrow> fault + cstr option list" where
  "copy_slots newargv old i 0 = Inr newargv"
| "copy_slots newargv old i (Suc n) =
     (if i < length old
      then bindE (slot_set newargv i (old ! i)) (\<lambda>na. copy_slots na old (Suc i) n)
      else Inl MemFault)"

definition argv_extend :: "argv \<Rightarrow> nat \<Rightarrow> fault + argv" where
  "argv_extend a newcap =
     (if newcap > a_capacity a
      then bindE (array_mult_safe 8 (of_nat newcap) 0)
             (\<lambda>_. bindE (copy_slots (replicate newcap None) (a_argv a) 0 (a_argc a))
               (\<lambda>newargv. Inr (a\<lparr>a_argv := newargv, a_capacity := newcap\<rparr>)))
      else Inr a)"

definition argv_new :: "fault + argv" where
  "argv_new = argv_extend \<lparr>a_capacity = 0, a_argc = 0, a_argv = []\<rparr> 8"

fun clear_slots :: "cstr option list \<Rightarrow> nat \<Rightarrow> nat \<Rightarrow> fault + cstr option list" where
  "clear_slots sl i 0 = Inr sl"
| "clear_slots sl i (Suc n) = bindE (slot_set sl i None) (\<lambda>sl'. clear_slots sl' (Suc i) n)"

definition argv_reset :: "argv \<Rightarrow> fault + argv" where
  "argv_reset a =
     (if a_argc a \<noteq> 0
      then bindE (clear_slots (a_argv a) 0 (a_argc a)) (\<lambda>sl. Inr (a\<lparr>a_argv := sl, a_argc := 0\<rparr>))
      else Inr a)"

definition argv_grow :: "argv \<Rightarrow> nat \<Rightarrow> fault + argv" where
  "argv_grow a add =
     (let newargc = (a_argc a + add + 1) mod 2 ^ 64
      in bindE (c_assert (newargc > a_argc a))
           (\<lambda>_. bindE (adjust_power_of_2 (of_nat newargc)) (\<lambda>n. argv_extend a (unat n))))"

definition argv_append :: "argv \<Rightarrow> cstr option \<Rightarrow> fault + argv" where
  "argv_append a str =
     bindE (argv_grow a 1)
       (\<lambda>a1. bindE (slot_set (a_argv a1) (a_argc a1) str)
         (\<lambda>sl. Inr (a1\<lparr>a_argv := sl, a_argc := a_argc a1 + 1\<rparr>)))"

fun append_all :: "argv \<Rightarrow> cstr option list \<Rightarrow> fault + argv" where
  "append_all a [] = Inr a"
| "append_all a (s # ss) = bindE (argv_append a s) (\<lambda>a'. append_all a' ss)"

definition argv_clone :: "argv option \<Rightarrow> nat \<Rightarrow> fault + argv" where
  "argv_clone source headroom =
     bindE argv_new
       (\<lambda>r. bindE (append_all r (replicate headroom None))
         (\<lambda>r1. case source of
             None \<Rightarrow> Inr r1
           | Some src \<Rightarrow>
               if a_argc src \<le> length (a_argv src) then append_all r1 (take (a_argc src) (a_argv src))
               else Inl MemFault))"

definition argv_insert_head :: "argv option \<Rightarrow> cstr \<Rightarrow> fault + argv" where
  "argv_insert_head a head =
     bindE (argv_clone a 1)
       (\<lambda>r. bindE (slot_set (a_argv r) 0 (Some head)) (\<lambda>sl. Inr (r\<lparr>a_argv := sl\<rparr>)))"

text \<open>The strings of a NULL-terminated array, as a reader of the array finds them.\<close>

fun argv_strings :: "cstr option list \<Rightarrow> fault + cstr list" where
  "argv_strings [] = Inl MemFault"
| "argv_strings (None # _) = Inr []"
| "argv_strings (Some s # sl) = bindE (argv_strings sl) (\<lambda>ss. Inr (s # ss))"

definition argv_str :: "mem \<Rightarrow> argv \<Rightarrow> gc_arena option \<Rightarrow> nat \<Rightarrow> fault + ptr \<times> mem \<times> gc_arena option" where
  "argv_str m a gc flags = bindE (argv_strings (a_argv a)) (\<lambda>ss. print_argv m ss gc flags)"

text \<open>\<open>argv_msg\<close> and \<open>argv_msg_prefix\<close> log the string and free their local arena.\<close>

definition argv_msg :: "mem \<Rightarrow> argv \<Rightarrow> fault + cstr \<times> mem" where
  "argv_msg m a =
     bindE (argv_str m a (Some gc_new) 0)
       (\<lambda>(p, m1, gc). bindE (read_cstr m1 p)
         (\<lambda>s. case gc of
             Some g \<Rightarrow> bindE (gc_free m1 g) (\<lambda>(m2, _, _). Inr (s, m2))
           | None \<Rightarrow> Inr (s, m1)))"

definition argv_msg_prefix :: "mem \<Rightarrow> argv \<Rightarrow> cstr \<Rightarrow> fault + cstr \<times> mem" where
  "argv_msg_prefix m a prefix = bindE (argv_msg m a) (\<lambda>(s, m'). Inr (prefix @ asc '': '' @ s, m'))"

section \<open>Formats\<close>

text \<open>
  The loop of \<open>argv_prep_format\<close>: \<open>f\<close> is the output array, \<open>j\<close> the bytes written so far.
\<close>

fun prep_loop :: "byte \<Rightarrow> byte list \<Rightarrow> nat \<Rightarrow> bool \<Rightarrow> nat \<Rightarrow> cstr \<Rightarrow> fault + byte list \<times> nat" where
  "prep_loop delim f j in_token count [] = Inr (f, count)"
| "prep_loop delim f j in_token count (c # rest) =
     (if c = of_char CHR '' '' then prep_loop delim f j False count rest
      else bindE (if \<not> in_token
                  then (if j > 0 then bindE (arr_set f j delim) (\<lambda>f'. Inr (f', j + 1, count + 1))
                        else Inr (f, j, count + 1))
                  else Inr (f, j, count))
             (\<lambda>(f1, j1, count1). bindE (arr_set f1 j1 c)
               (\<lambda>f2. prep_loop delim f2 (j1 + 1) True count1 rest)))"

definition argv_prep_format :: "cstr option \<Rightarrow> byte \<Rightarrow> nat \<Rightarrow> fault + byte list option \<times> nat" where
  "argv_prep_format format delim count =
     (case format of
        None \<Rightarrow> Inr (None, count)
      | Some s \<Rightarrow>
          bindE (prep_loop delim (replicate (length s + 1) 0) 0 False count s)
            (\<lambda>(f, count'). Inr (Some f, count')))"

text \<open>
  \<open>vsnprintf\<close> on the directives \<open>%s\<close>, \<open>%d\<close>, \<open>%u\<close> and \<open>%%\<close>: the expansion and the arguments
  left. \<open>None\<close> is a format whose directives are others or do not fit the arguments.
\<close>

datatype fmt_arg = StrArg cstr | NumArg int

fun c_format :: "cstr \<Rightarrow> fmt_arg list \<Rightarrow> (cstr \<times> fmt_arg list) option" where
  "c_format [] args = Some ([], args)"
| "c_format (c # cs) args =
     (if c \<noteq> of_char CHR ''%''
      then map_option (\<lambda>(t, as). (c # t, as)) (c_format cs args)
      else (case cs of
              [] \<Rightarrow> None
            | d # ds \<Rightarrow>
                if d = of_char CHR ''%'' then map_option (\<lambda>(t, as). (d # t, as)) (c_format ds args)
                else (case args of
                        [] \<Rightarrow> None
                      | a # as \<Rightarrow>
                          (case a of
                             StrArg s \<Rightarrow>
                               if d = of_char CHR ''s'' then map_option (\<lambda>(t, as'). (s @ t, as')) (c_format ds as)
                               else None
                           | NumArg n \<Rightarrow>
                               if d = of_char CHR ''d'' \<or> (d = of_char CHR ''u'' \<and> 0 \<le> n)
                               then map_option (\<lambda>(t, as'). (dec_int n @ t, as')) (c_format ds as)
                               else None))))"

function split_append :: "argv \<Rightarrow> byte \<Rightarrow> cstr \<Rightarrow> fault + argv" where
  "split_append a delim buf =
     (if delim \<in> set buf
      then bindE (argv_append a (Some (takeWhile (\<lambda>c. c \<noteq> delim) buf)))
             (\<lambda>a'. split_append a' delim (tl (dropWhile (\<lambda>c. c \<noteq> delim) buf)))
      else argv_append a (Some buf))"
  by pat_completeness auto
termination
proof (relation "measure (\<lambda>(_, _, buf). length buf)", goal_cases)
  case (2 a delim buf a')
  then have "dropWhile (\<lambda>c. c \<noteq> delim) buf \<noteq> []" by (auto simp: dropWhile_eq_Nil_conv)
  then have "length (tl (dropWhile (\<lambda>c. c \<noteq> delim) buf)) < length (dropWhile (\<lambda>c. c \<noteq> delim) buf)" by simp
  also have "\<dots> \<le> length buf" by (rule length_dropWhile_le)
  finally show ?case by simp
qed simp

declare split_append.simps [simp del]

definition argv_printf_arglist :: "argv \<Rightarrow> cstr option \<Rightarrow> fmt_arg list \<Rightarrow> fault + bool \<times> argv" where
  "argv_printf_arglist argres format args =
     (let delim = 0x1D
      in bindE (argv_prep_format format delim (a_argc argres))
           (\<lambda>(f, argc). case f of
               None \<Rightarrow> Inr (False, argres)
             | Some farr \<Rightarrow>
                 (case c_format (c_string farr) args of
                    None \<Rightarrow> Inr (False, argres)
                  | Some (buf, _) \<Rightarrow>
                      bindE (split_append argres delim buf)
                        (\<lambda>a. if a_argc a \<noteq> argc then bindE (argv_reset a) (\<lambda>a'. Inr (False, a'))
                             else Inr (True, a)))))"

definition argv_printf :: "argv \<Rightarrow> cstr option \<Rightarrow> fmt_arg list \<Rightarrow> fault + bool \<times> argv" where
  "argv_printf argres format args = bindE (argv_reset argres) (\<lambda>a. argv_printf_arglist a format args)"

definition argv_printf_cat :: "argv \<Rightarrow> cstr option \<Rightarrow> fmt_arg list \<Rightarrow> fault + bool \<times> argv" where
  "argv_printf_cat argres format args = argv_printf_arglist argres format args"

text \<open>\<open>parms\<close> is what \<open>parse_line\<close> of options.c (not in the repository) finds in the command.\<close>

definition argv_parse_cmd :: "argv \<Rightarrow> cstr \<Rightarrow> cstr list \<Rightarrow> fault + argv" where
  "argv_parse_cmd argres cmdstr parms =
     bindE (argv_reset argres)
       (\<lambda>a. if parms \<noteq> [] then append_all a (map Some parms) else argv_append a (Some cmdstr))"

end
