(* ===== verification/Argv_Laws.thy ===== *)
theory Argv_Laws
  imports Argv
begin

text \<open>
  The vector of theory Argv is always NULL terminated within its capacity, and \<open>argv_printf\<close>
  yields exactly one element per space-separated word of the format, whatever the arguments
  contain; an argument that holds the internal delimiter is refused.
\<close>

section \<open>The invariant\<close>

definition argv_inv :: "argv \<Rightarrow> bool" where
  "argv_inv a \<longleftrightarrow>
     length (a_argv a) = a_capacity a \<and> a_argc a < a_capacity a \<and>
     drop (a_argc a) (a_argv a) = replicate (a_capacity a - a_argc a) None"

definition args :: "argv \<Rightarrow> cstr option list" where
  "args a = take (a_argc a) (a_argv a)"

lemma length_args: "argv_inv a \<Longrightarrow> length (args a) = a_argc a"
  by (simp add: argv_inv_def args_def)

lemma argv_inv_split: "argv_inv a \<Longrightarrow> a_argv a = args a @ replicate (a_capacity a - a_argc a) None"
  by (metis append_take_drop_id argv_inv_def args_def)

lemma copy_slots_spec:
  assumes "i + n \<le> length old" and "i + n \<le> length na" and "take i na = take i old"
  shows "copy_slots na old i n = Inr (take (i + n) old @ drop (i + n) na)"
  using assms
proof (induction n arbitrary: i na)
  case 0
  then show ?case using append_take_drop_id [of i na] by simp
next
  case (Suc n)
  have "take (Suc i) (na[i := old ! i]) = take (Suc i) old"
    using Suc.prems by (simp add: take_Suc_conv_app_nth)
  then show ?case
    using Suc.IH [of "Suc i" "na[i := old ! i]"] Suc.prems by (simp add: slot_set_def)
qed

lemma array_size_ok: "n \<le> 2 ^ 28 \<Longrightarrow> \<exists>w. array_mult_safe 8 (of_nat n) 0 = Inr w"
proof -
  assume n: "n \<le> 2 ^ 28"
  have "unat (of_nat n :: 64 word) = n"
    using n by (simp only: unat_of_nat) simp
  then show ?thesis using n by (simp add: array_mult_safe_cases)
qed

lemma argv_extend_spec:
  assumes "argv_inv a \<or> a = \<lparr>a_capacity = 0, a_argc = 0, a_argv = []\<rparr>" and "newcap \<le> 2 ^ 28" and "0 < newcap"
  shows "\<exists>a'. argv_extend a newcap = Inr a' \<and> argv_inv a' \<and> args a' = args a \<and> a_argc a' = a_argc a \<and>
           a_capacity a' = max newcap (a_capacity a)"
proof (cases "newcap > a_capacity a")
  case False
  then show ?thesis using assms by (auto simp: argv_extend_def)
next
  case True
  have l: "a_argc a \<le> length (a_argv a)" "a_argc a < newcap" using assms True by (auto simp: argv_inv_def)
  obtain w where w: "array_mult_safe 8 (of_nat newcap) 0 = Inr w" using array_size_ok [OF assms(2)] by blast
  let ?sl = "take (a_argc a) (a_argv a) @ drop (a_argc a) (replicate newcap None)"
  have "copy_slots (replicate newcap None) (a_argv a) 0 (a_argc a) = Inr ?sl"
    using copy_slots_spec [of 0 "a_argc a" "a_argv a" "replicate newcap None"] l by simp
  then have "argv_extend a newcap = Inr (a\<lparr>a_argv := ?sl, a_capacity := newcap\<rparr>)"
    using True w by (simp add: argv_extend_def)
  moreover have "argv_inv (a\<lparr>a_argv := ?sl, a_capacity := newcap\<rparr>)"
    using l by (simp add: argv_inv_def)
  moreover have "args (a\<lparr>a_argv := ?sl, a_capacity := newcap\<rparr>) = args a"
    using l by (simp add: args_def)
  ultimately show ?thesis using True by auto
qed

lemma argv_new_spec: "\<exists>a. argv_new = Inr a \<and> argv_inv a \<and> args a = [] \<and> a_argc a = 0 \<and> a_capacity a = 8"
  using argv_extend_spec [of "\<lparr>a_capacity = 0, a_argc = 0, a_argv = []\<rparr>" 8] by (auto simp: argv_new_def args_def)

lemma argv_grow_spec:
  assumes "argv_inv a" and "a_argc a + 2 \<le> 2 ^ 28"
  shows "\<exists>a'. argv_grow a 1 = Inr a' \<and> argv_inv a' \<and> args a' = args a \<and> a_argc a' = a_argc a \<and>
           a_argc a + 2 \<le> a_capacity a'"
proof -
  let ?n = "a_argc a + 2"
  have m: "(a_argc a + 1 + 1) mod 2 ^ 64 = ?n" using assms(2) by simp
  have u: "unat (of_nat ?n :: 64 word) = ?n" using assms(2) by (simp only: unat_of_nat) simp
  obtain k where k: "k \<le> 63" "adjust_power_of_2 (of_nat ?n) = Inr (2 ^ k)" "least_pow2 ?n k"
    using adjust_power_of_2_finds [of "of_nat ?n"] assms(2) unfolding u by auto
  have k28: "k \<le> 28"
  proof (rule ccontr)
    assume "\<not> k \<le> 28"
    then have "28 < k" by simp
    then have "2 ^ 28 < ?n" using k(3) unfolding least_pow2_def by blast
    then show False using assms(2) by simp
  qed
  have uk: "unat (2 ^ k :: 64 word) = 2 ^ k" using k(1) by (intro unat_pow2) simp
  have "(2 :: nat) ^ k \<le> 2 ^ 28" using k28 by (intro power_increasing) auto
  then obtain a' where a': "argv_extend a (2 ^ k) = Inr a'" "argv_inv a'" "args a' = args a" "a_argc a' = a_argc a"
      "a_capacity a' = max (2 ^ k) (a_capacity a)"
    using argv_extend_spec [of a "2 ^ k"] assms(1) by auto
  have "?n \<le> 2 ^ k" using k(3) by (simp add: least_pow2_def)
  then have "?n \<le> a_capacity a'" using a'(5) by simp
  moreover have "argv_grow a 1 = Inr a'"
    using a'(1) k(2) uk m by (simp add: argv_grow_def Let_def)
  ultimately show ?thesis using a' by blast
qed

lemma argv_append_spec:
  assumes "argv_inv a" and "a_argc a + 2 \<le> 2 ^ 28"
  shows "\<exists>a'. argv_append a s = Inr a' \<and> argv_inv a' \<and> args a' = args a @ [s] \<and> a_argc a' = Suc (a_argc a)"
proof -
  obtain a1 where a1: "argv_grow a 1 = Inr a1" "argv_inv a1" "args a1 = args a" "a_argc a1 = a_argc a"
      "a_argc a + 2 \<le> a_capacity a1"
    using argv_grow_spec [OF assms] by blast
  let ?i = "a_argc a1"
  have l: "?i < length (a_argv a1)" using a1(2) by (simp add: argv_inv_def)
  let ?a = "a1\<lparr>a_argv := (a_argv a1)[?i := s], a_argc := ?i + 1\<rparr>"
  have "drop (Suc ?i) ((a_argv a1)[?i := s]) = drop (Suc ?i) (a_argv a1)" by simp
  also have "\<dots> = drop 1 (drop ?i (a_argv a1))" by simp
  also have "\<dots> = replicate (a_capacity a1 - Suc ?i) None"
    using a1(2) unfolding argv_inv_def by (simp only: drop_replicate) simp
  finally have "argv_inv ?a" using a1 by (simp add: argv_inv_def)
  moreover have "args ?a = args a @ [s]"
    using l a1(3) by (simp add: args_def take_Suc_conv_app_nth)
  moreover have "argv_append a s = Inr ?a"
    using a1(1) l by (simp add: argv_append_def slot_set_def)
  ultimately show ?thesis using a1(4) by auto
qed

lemma append_all_spec:
  assumes "argv_inv a" and "a_argc a + length ss + 1 \<le> 2 ^ 28"
  shows "\<exists>a'. append_all a ss = Inr a' \<and> argv_inv a' \<and> args a' = args a @ ss \<and> a_argc a' = a_argc a + length ss"
  using assms
proof (induction ss arbitrary: a)
  case (Cons s ss)
  obtain a1 where a1: "argv_append a s = Inr a1" "argv_inv a1" "args a1 = args a @ [s]" "a_argc a1 = Suc (a_argc a)"
    using argv_append_spec [OF Cons.prems(1), of s] Cons.prems(2) by auto
  then show ?case using Cons.IH [of a1] Cons.prems(2) by auto
qed simp

lemma clear_slots_spec:
  assumes "i + n \<le> length sl"
  shows "clear_slots sl i n = Inr (take i sl @ replicate n None @ drop (i + n) sl)"
  using assms
proof (induction n arbitrary: i sl)
  case (Suc n)
  have "take (Suc i) (sl[i := None]) = take i sl @ [None]"
    using Suc.prems by (simp add: take_Suc_conv_app_nth)
  then show ?case using Suc.IH [of "Suc i" "sl[i := None]"] Suc.prems by (simp add: slot_set_def)
qed simp

lemma argv_reset_spec:
  assumes "argv_inv a"
  shows "\<exists>a'. argv_reset a = Inr a' \<and> argv_inv a' \<and> args a' = [] \<and> a_argc a' = 0 \<and> a_capacity a' = a_capacity a"
proof (cases "a_argc a = 0")
  case True
  then show ?thesis using assms by (auto simp: argv_reset_def args_def)
next
  case False
  have l: "a_argc a \<le> length (a_argv a)" using assms by (simp add: argv_inv_def)
  have "replicate (a_argc a) None @ drop (a_argc a) (a_argv a) = replicate (a_capacity a) None"
    using assms by (auto simp: argv_inv_def replicate_add [symmetric])
  then have "argv_reset a = Inr (a\<lparr>a_argv := replicate (a_capacity a) None, a_argc := 0\<rparr>)"
    using clear_slots_spec [of 0 "a_argc a" "a_argv a"] l False by (simp add: argv_reset_def)
  then show ?thesis using assms by (auto simp: argv_inv_def args_def)
qed

lemma argv_clone_spec:
  assumes "argv_inv src" and "headroom + a_argc src + 1 \<le> 2 ^ 28"
  shows "\<exists>a'. argv_clone (Some src) headroom = Inr a' \<and> argv_inv a' \<and>
           args a' = replicate headroom None @ args src"
proof -
  obtain a0 where a0: "argv_new = Inr a0" "argv_inv a0" "args a0 = []" "a_argc a0 = 0"
    using argv_new_spec by blast
  obtain a1 where a1: "append_all a0 (replicate headroom None) = Inr a1" "argv_inv a1"
      "args a1 = replicate headroom None" "a_argc a1 = headroom"
    using append_all_spec [OF a0(2), of "replicate headroom None"] a0(3,4) assms(2) by auto
  have ln: "length (args src) = a_argc src" by (rule length_args [OF assms(1)])
  obtain a2 where "append_all a1 (args src) = Inr a2" "argv_inv a2" "args a2 = replicate headroom None @ args src"
    using append_all_spec [OF a1(2), of "args src"] a1(3,4) assms(2) ln by auto
  moreover have "a_argc src \<le> length (a_argv src)" using assms(1) by (simp add: argv_inv_def)
  ultimately have "argv_clone (Some src) headroom = Inr a2"
    by (simp add: argv_clone_def args_def a0(1) a1(1))
  then show ?thesis using \<open>argv_inv a2\<close> \<open>args a2 = _\<close> by blast
qed

lemma argv_insert_head_spec:
  assumes "argv_inv a" and "a_argc a + 2 \<le> 2 ^ 28"
  shows "\<exists>a'. argv_insert_head (Some a) head = Inr a' \<and> argv_inv a' \<and> args a' = Some head # args a"
proof -
  obtain r where r: "argv_clone (Some a) 1 = Inr r" "argv_inv r" "args r = None # args a"
    using argv_clone_spec [of a 1] assms by auto
  have pos: "0 < a_argc r" using length_args [OF r(2)] r(3) by auto
  let ?r = "r\<lparr>a_argv := (a_argv r)[0 := Some head]\<rparr>"
  have "drop (a_argc r) ((a_argv r)[0 := Some head]) = drop (a_argc r) (a_argv r)" using pos by simp
  then have "argv_inv ?r" using r(2) by (simp add: argv_inv_def)
  moreover have "args ?r = (args r)[0 := Some head]"
    using pos by (simp add: args_def take_update_swap)
  moreover have "argv_insert_head (Some a) head = Inr ?r"
    using r(1,2) by (auto simp: argv_insert_head_def slot_set_def argv_inv_def)
  ultimately show ?thesis using r(3) by auto
qed

text \<open>A reader of the array finds the arguments and never runs past its end.\<close>

lemma argv_strings_spec: "argv_strings (map Some ss @ None # rest) = Inr ss"
  by (induction ss) auto

lemma argv_strings_inv:
  assumes "argv_inv a" and "args a = map Some ss"
  shows "argv_strings (a_argv a) = Inr ss"
proof -
  have "a_argc a < a_capacity a" using assms(1) by (simp add: argv_inv_def)
  then have "a_capacity a - a_argc a = Suc (a_capacity a - a_argc a - 1)" by simp
  then have "a_argv a = map Some ss @ None # replicate (a_capacity a - a_argc a - 1) None"
    using argv_inv_split [OF assms(1)] assms(2) by (metis replicate_Suc)
  then show ?thesis by (simp add: argv_strings_spec)
qed

section \<open>Words of a format\<close>

abbreviation SP :: byte where "SP \<equiv> 32"

text \<open>The words of a string, separated by one or more spaces.\<close>

function words :: "cstr \<Rightarrow> cstr list" where
  "words s =
     (case dropWhile (\<lambda>c. c = SP) s of
        [] \<Rightarrow> []
      | c # cs \<Rightarrow> (c # takeWhile (\<lambda>c. c \<noteq> SP) cs) # words (dropWhile (\<lambda>c. c \<noteq> SP) cs))"
  by pat_completeness auto
termination
proof (relation "measure length", goal_cases)
  case (2 s c cs)
  have "length (dropWhile (\<lambda>c. c \<noteq> SP) cs) \<le> length cs" by (rule length_dropWhile_le)
  also have "\<dots> < length (dropWhile (\<lambda>c. c = SP) s)" using 2 by simp
  also have "\<dots> \<le> length s" by (rule length_dropWhile_le)
  finally show ?case by simp
qed simp

declare words.simps [simp del]

fun join :: "byte \<Rightarrow> cstr list \<Rightarrow> cstr" where
  "join d [] = []"
| "join d [t] = t"
| "join d (t # ts) = t @ d # join d ts"

lemma words_Nil [simp]: "words [] = []"
  by (subst words.simps) simp

lemma words_SP [simp]: "words (SP # s) = words s"
  by (subst words.simps, subst (2) words.simps) simp

lemma words_Cons:
  "c \<noteq> SP \<Longrightarrow> words (c # cs) = (c # takeWhile (\<lambda>c. c \<noteq> SP) cs) # words (dropWhile (\<lambda>c. c \<noteq> SP) cs)"
  by (subst words.simps) simp

text \<open>What the loop writes, without the array.\<close>

fun prep_out :: "byte \<Rightarrow> bool \<Rightarrow> bool \<Rightarrow> cstr \<Rightarrow> cstr" where
  "prep_out d started in_token [] = []"
| "prep_out d started in_token (c # cs) =
     (if c = SP then prep_out d started False cs
      else (if \<not> in_token \<and> started then [d] else []) @ c # prep_out d True True cs)"

fun prep_count :: "bool \<Rightarrow> cstr \<Rightarrow> nat" where
  "prep_count in_token [] = 0"
| "prep_count in_token (c # cs) =
     (if c = SP then prep_count False cs else (if in_token then 0 else 1) + prep_count True cs)"

lemma prep_in_token:
  "prep_out d True True s = takeWhile (\<lambda>c. c \<noteq> SP) s @ prep_out d True False (dropWhile (\<lambda>c. c \<noteq> SP) s)"
  "prep_count True s = prep_count False (dropWhile (\<lambda>c. c \<noteq> SP) s)"
  by (induction s) auto

lemma join_Cons: "join d (t # ts) = t @ (if ts = [] then [] else d # join d ts)"
  by (cases ts) auto

lemma prep_words:
  "prep_out d started False s = (if started \<and> words s \<noteq> [] then [d] else []) @ join d (words s) \<and>
   prep_count False s = length (words s)"
proof (induction "length s" arbitrary: s started rule: less_induct)
  case less
  show ?case
  proof (cases s)
    case (Cons c cs)
    show ?thesis
    proof (cases "c = SP")
      case True
      then show ?thesis using less [of cs] Cons by simp
    next
      case False
      have "length (dropWhile (\<lambda>c. c \<noteq> SP) cs) < length s"
        using Cons length_dropWhile_le [of "\<lambda>c. c \<noteq> SP" cs] by simp
      from less [OF this, of True] show ?thesis
        using Cons False by (simp add: words_Cons prep_in_token join_Cons)
    qed
  qed simp
qed

lemma prep_loop_spec:
  assumes "length out + (if in_token \<or> out = [] then 0 else 1) + length s \<le> n"
  shows "prep_loop d (out @ replicate (n + 1 - length out) 0) (length out) in_token count s =
           Inr (let o' = out @ prep_out d (out \<noteq> []) in_token s
                in (o' @ replicate (n + 1 - length o') 0, count + prep_count in_token s))"
    and "length (out @ prep_out d (out \<noteq> []) in_token s) \<le> n"
  using assms
proof (induction s arbitrary: out in_token count)
  case Nil
  {
    case 1
    then show ?case by simp
  next
    case 2
    then show ?case by simp
  }
next
  case (Cons c s)
  {
    case 1
    show ?case
    proof (cases "c = SP")
      case True
      then show ?thesis using Cons.IH(1) [of out False count] 1 by (simp split: if_splits)
    next
      case False
      define out1 where "out1 = out @ (if \<not> in_token \<and> out \<noteq> [] then [d] else [])"
      have l1: "length out1 + 1 + length s \<le> n" using 1 by (auto simp: out1_def split: if_splits)
      have u: "(xs @ replicate (n + 1 - length xs) 0)[length xs := x] =
          (xs @ [x]) @ replicate (n + 1 - length (xs @ [x])) 0" if "length xs < n + 1" for xs :: "byte list" and x
        using that by (simp add: list_update_append Suc_diff_le [symmetric]) (cases "Suc n - length xs"; simp)
      have s1: "(if \<not> in_token then if length out > 0
              then bindE (arr_set (out @ replicate (n + 1 - length out) 0) (length out) d) (\<lambda>f'. Inr (f', length out + 1, count + 1))
              else Inr (out @ replicate (n + 1 - length out) 0, length out, count + 1)
              else Inr (out @ replicate (n + 1 - length out) 0, length out, count)) =
          (Inr (out1 @ replicate (n + 1 - length out1) 0, length out1, count + (if in_token then 0 else 1)) ::
            fault + byte list \<times> nat \<times> nat)"
        using l1 u [of out d] by (auto simp: out1_def arr_set_in)
      have s2: "arr_set (out1 @ replicate (n + 1 - length out1) 0) (length out1) c =
          Inr ((out1 @ [c]) @ replicate (n + 1 - length (out1 @ [c])) 0)"
        using l1 u [of out1 c] by (subst arr_set_in) auto
      have "prep_loop d (out @ replicate (n + 1 - length out) 0) (length out) in_token count (c # s) =
          prep_loop d ((out1 @ [c]) @ replicate (n + 1 - length (out1 @ [c])) 0) (length (out1 @ [c])) True
            (count + (if in_token then 0 else 1)) s"
      proof -
        have ch: "(c = of_char CHR '' '') = False" using False by simp
        have ln: "length (out1 @ [c]) = length out1 + 1" by simp
        show ?thesis by (simp only: prep_loop.simps ch if_False s1 bindE_simps prod.case s2 ln)
      qed
      then show ?thesis
        using Cons.IH(1) [of "out1 @ [c]" True "count + (if in_token then 0 else 1)"] l1 False
        by (auto simp: out1_def Let_def)
    qed
  next
    case 2
    show ?case
    proof (cases "c = SP")
      case True
      then show ?thesis using Cons.IH(2) [of out False] 2 by (simp split: if_splits)
    next
      case False
      then show ?thesis
        using Cons.IH(2) [of "out @ (if \<not> in_token \<and> out \<noteq> [] then [d] else []) @ [c]" True] 2
        by (auto split: if_splits)
    qed
  }
qed

lemma is_cstr_prep_out: "is_cstr s \<Longrightarrow> d \<noteq> 0 \<Longrightarrow> is_cstr (prep_out d started in_token s)"
  by (induction s arbitrary: started in_token) auto

lemma argv_prep_format_spec:
  assumes "is_cstr s" and "d \<noteq> 0"
  shows "\<exists>f. argv_prep_format (Some s) d count = Inr (Some f, count + length (words s)) \<and>
           c_string f = join d (words s)"
proof -
  let ?o = "prep_out d False False s"
  have o: "?o = join d (words s)" "prep_count False s = length (words s)" using prep_words [of d False s] by auto
  have l: "length ?o \<le> length s" using prep_loop_spec(2) [of "[]" False s "length s" d] by simp
  have "prep_loop d (replicate (length s + 1) 0) 0 False count s =
      Inr (?o @ replicate (length s + 1 - length ?o) 0, count + length (words s))"
    using prep_loop_spec(1) [of "[]" False s "length s" d count] o(2) by (simp add: Let_def)
  moreover obtain zs where "replicate (length s + 1 - length ?o) (0 :: byte) = NUL # zs"
    using l by (cases "length s + 1 - length ?o") auto
  moreover have "is_cstr (join d (words s))" using is_cstr_prep_out [OF assms, of False False] o(1) by simp
  ultimately show ?thesis
    using o(1) by (auto simp: argv_prep_format_def)
qed

section \<open>Expanding and splitting\<close>

fun format_words :: "cstr list \<Rightarrow> fmt_arg list \<Rightarrow> (cstr list \<times> fmt_arg list) option" where
  "format_words [] as = Some ([], as)"
| "format_words (t # ts) as =
     (case c_format t as of
        None \<Rightarrow> None
      | Some (x, as') \<Rightarrow> map_option (\<lambda>(xs, as''). (x # xs, as'')) (format_words ts as'))"

lemma map_option_pair_comp:
  "map_option (\<lambda>(t, as). (f t, as)) (map_option (\<lambda>(t, as). (g t, as)) x) = map_option (\<lambda>(t, as). (f (g t), as)) x"
  by (cases x) auto

lemma c_format_append:
  "c_format t as = Some (x, as') \<Longrightarrow>
     c_format (t @ cs) as = map_option (\<lambda>(y, as''). (x @ y, as'')) (c_format cs as')"
proof (induction t as arbitrary: x rule: c_format.induct)
  case (1 as)
  then show ?case by (cases "c_format cs as") auto
next
  case (2 c t as)
  show ?case
  proof (cases "c = of_char CHR ''%''")
    case False
    with 2(5) obtain y where y: "c_format t as = Some (y, as')" "x = c # y" by auto
    show ?thesis using 2(1) [OF False y(1)] False y(2) by (simp add: map_option_pair_comp)
  next
    case True
    with 2(5) obtain d ds where t: "t = d # ds" by (cases t) auto
    show ?thesis
    proof (cases "d = of_char CHR ''%''")
      case p: True
      with 2(5) True t obtain y where y: "c_format ds as = Some (y, as')" "x = d # y" by auto
      have "\<not> c \<noteq> of_char CHR ''%''" using True by simp
      from 2(2) [OF this t p y(1)] show ?thesis using True t p y(2) by (simp add: map_option_pair_comp)
    next
      case np: False
      have nc: "\<not> c \<noteq> of_char CHR ''%''" using True by simp
      obtain a as1 where a: "as = a # as1" using 2(5) True t np by (cases as) auto
      show ?thesis
      proof (cases a)
        case (StrArg s)
        with 2(5) True t np a obtain y where ds: "d = of_char CHR ''s''" "c_format ds as1 = Some (y, as')" "x = s @ y"
          by (auto split: if_splits)
        from 2(3) [OF nc t np a StrArg ds(1,2)] show ?thesis
          using True t np a StrArg ds by (simp add: map_option_pair_comp)
      next
        case (NumArg n)
        with 2(5) True t np a obtain y where ds: "d = of_char CHR ''d'' \<or> (d = of_char CHR ''u'' \<and> 0 \<le> n)"
            "c_format ds as1 = Some (y, as')" "x = dec_int n @ y"
          by (auto split: if_splits)
        from 2(4) [OF nc t np a NumArg ds(1,2)] show ?thesis
          using True t np a NumArg ds by (auto simp: map_option_pair_comp)
      qed
    qed
  qed
qed

lemma c_format_join:
  "d \<noteq> of_char CHR ''%'' \<Longrightarrow> format_words ts as = Some (xs, as') \<Longrightarrow> c_format (join d ts) as = Some (join d xs, as')"
proof (induction ts arbitrary: as xs)
  case (Cons t ts)
  obtain x as1 ys where x: "c_format t as = Some (x, as1)" "format_words ts as1 = Some (ys, as')" "xs = x # ys"
    using Cons.prems(2) by (auto split: option.splits)
  show ?case
  proof (cases "ts = []")
    case True
    then show ?thesis using x by simp
  next
    case False
    then have "ys \<noteq> []" using x(2) by (cases ts) (auto split: option.splits)
    moreover have "c_format (t @ d # join d ts) as = Some (x @ d # join d ys, as')"
      using c_format_append [OF x(1), of "d # join d ts"] Cons.IH [OF Cons.prems(1) x(2)] Cons.prems(1) by simp
    ultimately show ?thesis using False x(3) by (simp add: join_Cons)
  qed
qed simp

text \<open>The pieces of a string between delimiters.\<close>

fun pieces :: "byte \<Rightarrow> cstr \<Rightarrow> cstr list" where
  "pieces d [] = [[]]"
| "pieces d (c # cs) =
     (if c = d then [] # pieces d cs
      else (case pieces d cs of [] \<Rightarrow> [[c]] | p # ps \<Rightarrow> (c # p) # ps))"

lemma pieces_unfold:
  "pieces d s = (if d \<in> set s then takeWhile (\<lambda>c. c \<noteq> d) s # pieces d (tl (dropWhile (\<lambda>c. c \<noteq> d) s)) else [s])"
  by (induction s) auto

lemma pieces_none: "d \<notin> set s \<Longrightarrow> pieces d s = [s]"
  by (induction s) auto

lemma pieces_append: "d \<notin> set t \<Longrightarrow> pieces d (t @ d # s) = t # pieces d s"
  by (induction t) auto

lemma length_pieces: "length (pieces d s) = Suc (length (filter (\<lambda>c. c = d) s))"
  by (induction s) (auto split: list.splits)

lemma pieces_join: "xs \<noteq> [] \<Longrightarrow> \<forall>x \<in> set xs. d \<notin> set x \<Longrightarrow> pieces d (join d xs) = xs"
proof (induction xs)
  case (Cons x xs)
  then show ?case by (cases "xs = []") (simp_all add: join_Cons pieces_none pieces_append)
qed simp

lemma split_append_pieces: "split_append a d buf = append_all a (map Some (pieces d buf))"
proof (induction "length buf" arbitrary: a buf rule: less_induct)
  case less
  show ?case
  proof (cases "d \<in> set buf")
    case True
    then have "dropWhile (\<lambda>c. c \<noteq> d) buf \<noteq> []" by (auto simp: dropWhile_eq_Nil_conv)
    then have "length (tl (dropWhile (\<lambda>c. c \<noteq> d) buf)) < length (dropWhile (\<lambda>c. c \<noteq> d) buf)" by simp
    also have "\<dots> \<le> length buf" by (rule length_dropWhile_le)
    finally have "length (tl (dropWhile (\<lambda>c. c \<noteq> d) buf)) < length buf" .
    from less [OF this] show ?thesis
      using True by (subst split_append.simps, subst pieces_unfold) simp
  next
    case False
    then show ?thesis
      by (subst split_append.simps) (cases "argv_append a (Some buf)"; simp add: pieces_none)
  qed
qed

lemma filter_join_length:
  "xs \<noteq> [] \<Longrightarrow> length (filter (\<lambda>c. c = d) (join d xs)) =
     length xs - 1 + sum_list (map (\<lambda>x. length (filter (\<lambda>c. c = d) x)) xs)"
proof (induction xs)
  case (Cons x xs)
  then show ?case by (cases "xs = []") (auto simp: join_Cons Suc_diff_le)
qed simp

lemma format_words_length: "format_words ts as = Some (xs, as') \<Longrightarrow> length xs = length ts"
  by (induction ts arbitrary: as xs) (auto split: option.splits)

lemma argv_printf_arglist_words:
  assumes "argv_inv a" and "is_cstr fmt" and "format_words (words fmt) as = Some (xs, as')" and "words fmt \<noteq> []"
    and "a_argc a + length (pieces 0x1D (join 0x1D xs)) + 1 \<le> 2 ^ 28"
  shows "(\<forall>x \<in> set xs. 0x1D \<notin> set x) \<Longrightarrow>
           \<exists>a'. argv_printf_arglist a (Some fmt) as = Inr (True, a') \<and> argv_inv a' \<and> args a' = args a @ map Some xs"
    and "\<not> (\<forall>x \<in> set xs. 0x1D \<notin> set x) \<Longrightarrow>
           \<exists>a'. argv_printf_arglist a (Some fmt) as = Inr (False, a') \<and> argv_inv a' \<and> args a' = []"
proof -
  let ?d = "0x1D :: byte"
  have xne: "xs \<noteq> []" and lxs: "length xs = length (words fmt)"
    using format_words_length [OF assms(3)] assms(4) by auto
  obtain f where f: "argv_prep_format (Some fmt) ?d (a_argc a) = Inr (Some f, a_argc a + length xs)"
      "c_string f = join ?d (words fmt)"
    using argv_prep_format_spec [OF assms(2), of ?d "a_argc a"] lxs by auto
  have e: "c_format (c_string f) as = Some (join ?d xs, as')"
    unfolding f(2) using c_format_join [OF _ assms(3), of ?d] by simp
  obtain a1 where a1: "split_append a ?d (join ?d xs) = Inr a1" "argv_inv a1"
      "args a1 = args a @ map Some (pieces ?d (join ?d xs))" "a_argc a1 = a_argc a + length (pieces ?d (join ?d xs))"
    using append_all_spec [OF assms(1), of "map Some (pieces ?d (join ?d xs))"] assms(5)
    unfolding split_append_pieces by auto
  have run: "argv_printf_arglist a (Some fmt) as =
      (if length (pieces ?d (join ?d xs)) \<noteq> length xs then bindE (argv_reset a1) (\<lambda>a'. Inr (False, a')) else Inr (True, a1))"
    using a1(1,4) by (simp add: argv_printf_arglist_def f(1) e)
  {
    assume "\<forall>x \<in> set xs. ?d \<notin> set x"
    then have p: "pieces ?d (join ?d xs) = xs" using xne by (rule pieces_join [rotated])
    show "\<exists>a'. argv_printf_arglist a (Some fmt) as = Inr (True, a') \<and> argv_inv a' \<and> args a' = args a @ map Some xs"
      unfolding run p using a1(2,3) p by simp
  next
    assume "\<not> (\<forall>x \<in> set xs. ?d \<notin> set x)"
    then obtain x where x: "x \<in> set xs" "filter (\<lambda>c. c = ?d) x \<noteq> []" by (auto simp: filter_empty_conv)
    have "length (filter (\<lambda>c. c = ?d) x) \<le> sum_list (map (\<lambda>x. length (filter (\<lambda>c. c = ?d) x)) xs)"
      using x(1) by (intro member_le_sum_list) auto
    moreover have "0 < length (filter (\<lambda>c. c = ?d) x)" using x(2) by simp
    ultimately have "0 < sum_list (map (\<lambda>x. length (filter (\<lambda>c. c = ?d) x)) xs)" by linarith
    then have ne: "length (pieces ?d (join ?d xs)) \<noteq> length xs"
    proof -
      have "length xs = Suc (length xs - 1)" using xne by (cases xs) auto
      then show ?thesis
        using filter_join_length [OF xne, of ?d] \<open>0 < sum_list _\<close> unfolding length_pieces by linarith
    qed
    obtain a2 where "argv_reset a1 = Inr a2" "argv_inv a2" "args a2 = []" using argv_reset_spec [OF a1(2)] by blast
    then show "\<exists>a'. argv_printf_arglist a (Some fmt) as = Inr (False, a') \<and> argv_inv a' \<and> args a' = []"
      unfolding run using ne by simp
  }
qed

section \<open>Properties\<close>

lemma concat_argv_pieces:
  "concat (argv_pieces False i p) = (if i \<noteq> 0 \<and> p \<noteq> [] then [SP] else []) @ join SP p"
  by (induction p arbitrary: i) (auto simp: join_Cons asc_def)

text \<open>
  C16: Building a command line from a format gives one argument per word of the format, each
  with its expansion, so spaces inside an expanded argument never split it; if an expansion
  contains the internal separator, the command is refused and left empty instead of getting
  extra arguments.
\<close>

theorem argv_printf_no_injection:
  assumes "argv_inv a" and "is_cstr fmt" and "words fmt \<noteq> []" and "format_words (words fmt) as = Some (xs, as')"
    and "length (pieces 0x1D (join 0x1D xs)) + 1 \<le> 2 ^ 28"
  shows "\<exists>a'. argv_printf a (Some fmt) as = Inr (\<forall>x \<in> set xs. 0x1D \<notin> set x, a') \<and> argv_inv a' \<and>
           args a' = (if \<forall>x \<in> set xs. 0x1D \<notin> set x then map Some xs else [])"
proof -
  obtain a1 where a1: "argv_reset a = Inr a1" "argv_inv a1" "args a1 = []" "a_argc a1 = 0"
    using argv_reset_spec [OF assms(1)] by blast
  have l: "a_argc a1 + length (pieces 0x1D (join 0x1D xs)) + 1 \<le> 2 ^ 28" using assms(5) a1(4) by simp
  show ?thesis
    using argv_printf_arglist_words [OF a1(2) assms(2,4,3) l] a1(1,3)
    by (cases "\<forall>x \<in> set xs. 0x1D \<notin> set x") (auto simp: argv_printf_def)
qed

theorem argv_printf_no_injection_witness:
  "\<exists>a a'. argv_new = Inr a \<and>
     argv_printf a (Some (asc ''add  %s'')) [StrArg (asc ''x y'')] = Inr (True, a') \<and>
     args a' = [Some (asc ''add''), Some (asc ''x y'')]"
proof -
  obtain a where a: "argv_new = Inr a" "argv_inv a" using argv_new_spec by blast
  have w: "words (asc ''add  %s'') = [asc ''add'', asc ''%s'']" by (simp add: asc_def words.simps)
  have f: "format_words (words (asc ''add  %s'')) [StrArg (asc ''x y'')] = Some ([asc ''add'', asc ''x y''], [])"
    unfolding w by (simp add: asc_def)
  have p: "pieces 0x1D (join 0x1D [asc ''add'', asc ''x y'']) = [asc ''add'', asc ''x y'']"
    by (rule pieces_join) (simp_all add: asc_def)
  have c: "is_cstr (asc ''add  %s'')" by (simp add: asc_def is_cstr_def)
  have n: "words (asc ''add  %s'') \<noteq> []" unfolding w by simp
  have l: "length (pieces 0x1D (join 0x1D [asc ''add'', asc ''x y''])) + 1 \<le> 2 ^ 28" unfolding p by simp
  have t: "\<forall>x \<in> set [asc ''add'', asc ''x y'']. 0x1D \<notin> set x" by (simp add: asc_def)
  from argv_printf_no_injection [OF a(2) c n f l] t a(1) show ?thesis by auto
qed

text \<open>
  Inserting a head copies the arguments behind it into a new, NULL-terminated array, and the
  original is not changed; the printed command is the arguments joined by spaces, cut at 255
  characters.
\<close>

lemma argv_insert_head_prints:
  assumes "argv_inv a" and "a_argc a + 2 \<le> 2 ^ 28" and "args a = map Some ss"
    and "list_all is_cstr (h # ss)" and "\<not> oom m (nxt m)"
  shows "\<exists>a' p m' gc'. argv_insert_head (Some a) h = Inr a' \<and> argv_inv a' \<and> args a' = map Some (h # ss) \<and>
           argv_str m a' gc 0 = Inr (p, m', gc') \<and> read_cstr m' p = Inr (take 255 (join SP (h # ss)))"
proof -
  obtain a' where a': "argv_insert_head (Some a) h = Inr a'" "argv_inv a'" "args a' = map Some (h # ss)"
    using argv_insert_head_spec [OF assms(1,2), of h] assms(3) by auto
  have s: "argv_strings (a_argv a') = Inr (h # ss)" by (rule argv_strings_inv [OF a'(2,3)])
  obtain m' gc' b where p: "print_argv m (h # ss) gc 0 = Inr (buf_bptr b, m', gc')" "text_room (m', b)"
      "content m' b = take 255 (concat (argv_pieces False 0 (h # ss)))"
    using print_argv_text [OF assms(5,4), of gc 0] by auto
  have "read_cstr m' (buf_bptr b) = Inr (take 255 (join SP (h # ss)))"
    using text_room_string [OF p(2)] unfolding p(3) concat_argv_pieces by simp
  then show ?thesis using a' s p(1) by (auto simp: argv_str_def)
qed

end
