(* ===== verification/Signals.thy ===== *)
theory Signals
  imports Interval
begin

text \<open>
  Signals of \<open>src/Treiber/lib/sig.c\<close>: their names, the two ways of raising them, and the
  handling of the explicit exit notification, a small state machine that delays the exit
  while the peer is told and decides which signals may still interrupt it.

  \<open>struct context\<close> is declared outside the repository; \<open>sig_context\<close> has the members sig.c
  uses. Calls into code outside sig.c are recorded in \<open>sc_calls\<close>, in order. Signal numbers are
  those of \<open>signal.h\<close>; only their being distinct and not 0 matters.
\<close>

section \<open>Names\<close>

definition SIGHUP :: int where "SIGHUP = 1"
definition SIGINT :: int where "SIGINT = 2"
definition SIGUSR1 :: int where "SIGUSR1 = 10"
definition SIGUSR2 :: int where "SIGUSR2 = 12"
definition SIGPIPE :: int where "SIGPIPE = 13"
definition SIGTERM :: int where "SIGTERM = 15"

lemmas signum_defs = SIGHUP_def SIGINT_def SIGUSR1_def SIGUSR2_def SIGPIPE_def SIGTERM_def

record signame =
  sn_value :: int
  sn_upper :: cstr
  sn_lower :: cstr

definition signames :: "signame list" where
  "signames =
     [\<lparr>sn_value = SIGINT, sn_upper = asc ''SIGINT'', sn_lower = asc ''sigint''\<rparr>,
      \<lparr>sn_value = SIGTERM, sn_upper = asc ''SIGTERM'', sn_lower = asc ''sigterm''\<rparr>,
      \<lparr>sn_value = SIGHUP, sn_upper = asc ''SIGHUP'', sn_lower = asc ''sighup''\<rparr>,
      \<lparr>sn_value = SIGUSR1, sn_upper = asc ''SIGUSR1'', sn_lower = asc ''sigusr1''\<rparr>,
      \<lparr>sn_value = SIGUSR2, sn_upper = asc ''SIGUSR2'', sn_lower = asc ''sigusr2''\<rparr>]"

fun parse_loop :: "cstr \<Rightarrow> signame list \<Rightarrow> int" where
  "parse_loop s [] = -1"
| "parse_loop s (n # ns) = (if s = sn_upper n then sn_value n else parse_loop s ns)"

definition parse_signal :: "cstr \<Rightarrow> int" where
  "parse_signal s = parse_loop s signames"

fun name_loop :: "int \<Rightarrow> bool \<Rightarrow> signame list \<Rightarrow> cstr" where
  "name_loop sig upper [] = asc ''UNKNOWN''"
| "name_loop sig upper (n # ns) =
     (if sig = sn_value n then (if upper then sn_upper n else sn_lower n) else name_loop sig upper ns)"

definition signal_name :: "int \<Rightarrow> bool \<Rightarrow> cstr" where
  "signal_name sig upper = name_loop sig upper signames"

definition signal_description :: "int \<Rightarrow> cstr option \<Rightarrow> cstr" where
  "signal_description signum sigtext =
     (case sigtext of Some t \<Rightarrow> t | None \<Rightarrow> signal_name signum False)"

section \<open>Raising signals\<close>

definition SIG_SOURCE_SOFT :: int where "SIG_SOURCE_SOFT = 0"
definition SIG_SOURCE_HARD :: int where "SIG_SOURCE_HARD = 1"
definition SIG_SOURCE_CONNECTION_FAILED :: int where "SIG_SOURCE_CONNECTION_FAILED = 2"

lemmas source_defs = SIG_SOURCE_SOFT_def SIG_SOURCE_HARD_def SIG_SOURCE_CONNECTION_FAILED_def

record signal_info =
  signal_received :: int
  si_source :: int
  signal_text :: "cstr option"

definition throw_signal :: "signal_info \<Rightarrow> int \<Rightarrow> signal_info" where
  "throw_signal si signum = si\<lparr>signal_received := signum, si_source := SIG_SOURCE_HARD\<rparr>"

definition throw_signal_soft :: "signal_info \<Rightarrow> int \<Rightarrow> cstr option \<Rightarrow> signal_info" where
  "throw_signal_soft si signum txt =
     si\<lparr>signal_received := signum, si_source := SIG_SOURCE_SOFT, signal_text := txt\<rparr>"

definition signal_reset :: "signal_info \<Rightarrow> signal_info" where
  "signal_reset si = si\<lparr>signal_received := 0, signal_text := None, si_source := SIG_SOURCE_SOFT\<rparr>"

text \<open>The POSIX \<open>get_signal\<close>: a pending signal overwrites \<open>*sig\<close>.\<close>

definition get_signal :: "signal_info \<Rightarrow> int \<Rightarrow> int" where
  "get_signal siginfo_static sig = (let i = signal_received siginfo_static in if i \<noteq> 0 then i else sig)"

definition print_signal :: "signal_info option \<Rightarrow> cstr option \<Rightarrow> fault + cstr" where
  "print_signal si title =
     (case si of
        None \<Rightarrow> Inr (asc ''Unknown signal received'')
      | Some s \<Rightarrow>
          (let type = (case signal_text s of Some t \<Rightarrow> t | None \<Rightarrow> []);
               t = (case title of Some t \<Rightarrow> t | None \<Rightarrow> asc ''process'')
           in bindE (if si_source s = SIG_SOURCE_SOFT then Inr (asc ''soft'')
                     else if si_source s = SIG_SOURCE_HARD then Inr (asc ''hard'')
                     else if si_source s = SIG_SOURCE_CONNECTION_FAILED then Inr (asc ''connection failed(soft)'')
                     else Inl AssertFail)
                (\<lambda>hs.
                   let head = signal_name (signal_received s) True @ asc ''['' @ hs @ asc '','' @ type @
                              asc ''] received, '' @ t
                   in Inr (if signal_received s = SIGINT \<or> signal_received s = SIGTERM then head @ asc '' exiting''
                           else if signal_received s = SIGHUP \<or> signal_received s = SIGUSR1
                           then head @ asc '' restarting''
                           else asc ''Unknown signal '' @ dec_int (signal_received s) @ asc '' ['' @ hs @ asc '','' @
                                type @ asc ''] received by '' @ t))))"

text \<open>
  What \<open>signal_restart_status\<close> tells the management interface: its two states are constants of
  the interface, given as arguments.
\<close>

definition signal_restart_status :: "int \<Rightarrow> int \<Rightarrow> bool \<Rightarrow> signal_info \<Rightarrow> (int \<times> cstr) option" where
  "signal_restart_status exiting reconnecting management si =
     (if management
      then (let state = (if signal_received si = SIGINT \<or> signal_received si = SIGTERM then exiting
                         else if signal_received si = SIGHUP \<or> signal_received si = SIGUSR1 then reconnecting
                         else -1)
            in if state \<ge> 0
               then Some (state, case signal_text si of Some t \<Rightarrow> t | None \<Rightarrow> signal_name (signal_received si) True)
               else None)
      else None)"

section \<open>Signal dispositions\<close>

datatype disposition = Handler | Ignore

datatype signal_mode = SM_UNDEF | SM_PRE_INIT | SM_POST_INIT

definition pre_init_signal_catch :: "signal_mode \<times> (int \<times> disposition) list" where
  "pre_init_signal_catch =
     (SM_PRE_INIT, [(SIGINT, Handler), (SIGTERM, Handler), (SIGHUP, Ignore), (SIGUSR1, Ignore),
                    (SIGUSR2, Ignore), (SIGPIPE, Ignore)])"

definition post_init_signal_catch :: "signal_mode \<times> (int \<times> disposition) list" where
  "post_init_signal_catch =
     (SM_POST_INIT, [(SIGINT, Handler), (SIGTERM, Handler), (SIGHUP, Handler), (SIGUSR1, Handler),
                     (SIGUSR2, Handler), (SIGPIPE, Ignore)])"

definition restore_signal_state :: "signal_mode \<Rightarrow> signal_mode \<times> (int \<times> disposition) list" where
  "restore_signal_state mode =
     (if mode = SM_PRE_INIT then pre_init_signal_catch
      else if mode = SM_POST_INIT then post_init_signal_catch
      else (mode, []))"

section \<open>Statistics\<close>

record traffic =
  tun_read_bytes :: nat
  tun_write_bytes :: nat
  link_read_bytes :: nat
  link_write_bytes :: nat
  link_read_bytes_auth :: nat

text \<open>
  The lines \<open>print_status\<close> writes, without those of the optional features. \<open>updated\<close> is the
  text of the current time and \<open>tap_info\<close> what the TAP driver reports.
\<close>

definition print_status :: "traffic \<Rightarrow> cstr \<Rightarrow> cstr option \<Rightarrow> cstr list" where
  "print_status c updated tap_info =
     [asc ''OpenVPN STATISTICS'',
      asc ''Updated,'' @ updated,
      asc ''TUN/TAP read bytes,'' @ dec_nat (tun_read_bytes c),
      asc ''TUN/TAP write bytes,'' @ dec_nat (tun_write_bytes c),
      asc ''TCP/UDP read bytes,'' @ dec_nat (link_read_bytes c),
      asc ''TCP/UDP write bytes,'' @ dec_nat (link_write_bytes c),
      asc ''Auth read bytes,'' @ dec_nat (link_read_bytes_auth c)] @
     (case tap_info of Some i \<Rightarrow> [asc ''TAP-WIN32 driver status,\"'' @ i @ asc ''\"''] | None \<Rightarrow> []) @
     [asc ''END'']"

section \<open>Explicit exit notification\<close>

datatype ext_call = ResetCoarseTimers | HaltNonEdgeTriggeredSignals | StatusOutput

record sig_context =
  sc_sig :: signal_info
  sc_interval :: event_timeout
  sc_time_wait :: int
  sc_timeval :: timeval
  sc_occ_op :: int
  sc_remap_sigusr1 :: int
  sc_exit_notification :: int
  sc_calls :: "ext_call list"

definition process_explicit_exit_notification_init :: "int \<Rightarrow> sig_context \<Rightarrow> sig_context" where
  "process_explicit_exit_notification_init now c =
     c\<lparr>sc_interval := event_timeout_init 1 0,
       sc_sig := signal_reset (sc_sig c),
       sc_calls := sc_calls c @ [ResetCoarseTimers, HaltNonEdgeTriggeredSignals],
       sc_time_wait := now\<rparr>"

definition process_explicit_exit_notification_timer_wakeup :: "int \<Rightarrow> int \<Rightarrow> sig_context \<Rightarrow> fault + sig_context" where
  "process_explicit_exit_notification_timer_wakeup OCC_EXIT now c =
     (case event_timeout_trigger now (sc_interval c) (Some (sc_timeval c)) (-1) of
        (trig, et, tv) \<Rightarrow>
          (let c1 = c\<lparr>sc_interval := et, sc_timeval := (case tv of Some t \<Rightarrow> t | None \<Rightarrow> sc_timeval c)\<rparr>
           in if trig
              then bindE (c_assert (sc_time_wait c1 \<noteq> 0 \<and> sc_exit_notification c1 \<noteq> 0))
                     (\<lambda>_. Inr (if now \<ge> sc_time_wait c1 + sc_exit_notification c1
                               then c1\<lparr>sc_interval := event_timeout_clear_ret,
                                       sc_sig := (sc_sig c1)\<lparr>signal_received := SIGTERM,
                                                            signal_text := Some (asc ''exit-with-notification'')\<rparr>\<rparr>
                               else c1\<lparr>sc_occ_op := OCC_EXIT\<rparr>))
              else Inr c1))"

definition remap_signal :: "sig_context \<Rightarrow> sig_context" where
  "remap_signal c =
     (if signal_received (sc_sig c) = SIGUSR1 \<and> sc_remap_sigusr1 c \<noteq> 0
      then c\<lparr>sc_sig := (sc_sig c)\<lparr>signal_received := sc_remap_sigusr1 c\<rparr>\<rparr> else c)"

definition process_sigusr2 :: "sig_context \<Rightarrow> sig_context" where
  "process_sigusr2 c = c\<lparr>sc_calls := sc_calls c @ [StatusOutput], sc_sig := signal_reset (sc_sig c)\<rparr>"

definition process_sigterm :: "int \<Rightarrow> sig_context \<Rightarrow> bool \<times> sig_context" where
  "process_sigterm now c =
     (if sc_exit_notification c \<noteq> 0 \<and> sc_time_wait c = 0
      then (False, process_explicit_exit_notification_init now c) else (True, c))"

definition register_signal :: "sig_context \<Rightarrow> int \<Rightarrow> cstr option \<Rightarrow> sig_context" where
  "register_signal c sig txt =
     (let si = sc_sig c;
          si1 = (if signal_received si \<noteq> SIGTERM then si\<lparr>signal_received := sig\<rparr> else si)
      in c\<lparr>sc_sig := si1\<lparr>signal_text := txt\<rparr>\<rparr>)"

definition ignore_restart_signals :: "sig_context \<Rightarrow> bool \<times> sig_context" where
  "ignore_restart_signals c =
     (if (signal_received (sc_sig c) = SIGUSR1 \<or> signal_received (sc_sig c) = SIGHUP) \<and>
         event_timeout_defined (sc_interval c)
      then (if si_source (sc_sig c) = SIG_SOURCE_HARD
            then (True, c\<lparr>sc_sig := signal_reset (sc_sig c)\<rparr>)
            else (False, register_signal c SIGTERM (Some (asc ''exit-with-notification''))))
      else (False, c))"

definition process_signal :: "int \<Rightarrow> sig_context \<Rightarrow> bool \<times> sig_context" where
  "process_signal now c =
     (case ignore_restart_signals c of
        (ignored, c1) \<Rightarrow>
          if ignored then (False, c1)
          else if signal_received (sc_sig c1) = SIGTERM \<or> signal_received (sc_sig c1) = SIGINT
          then process_sigterm now c1
          else if signal_received (sc_sig c1) = SIGUSR2 then (False, process_sigusr2 c1)
          else (True, c1))"

section \<open>The state machine\<close>

text \<open>
  One step of the event loop at time \<open>now\<close>: a signal arrives, the code registers one, a pending
  one is processed, or the coarse timers run. The clock is positive and does not go back.
\<close>

inductive sig_step :: "int \<Rightarrow> int \<times> sig_context \<Rightarrow> int \<times> sig_context \<Rightarrow> bool" for OCC_EXIT :: int where
  Hard: "sig_step OCC_EXIT (now, c) (now, c\<lparr>sc_sig := throw_signal (sc_sig c) s\<rparr>)"
| Soft: "sig_step OCC_EXIT (now, c) (now, c\<lparr>sc_sig := throw_signal_soft (sc_sig c) s t\<rparr>)"
| Register: "sig_step OCC_EXIT (now, c) (now, register_signal c s t)"
| Remap: "sig_step OCC_EXIT (now, c) (now, remap_signal c)"
| Process: "signal_received (sc_sig c) \<noteq> 0 \<Longrightarrow> process_signal now c = (r, c') \<Longrightarrow> sig_step OCC_EXIT (now, c) (now, c')"
| Wakeup: "process_explicit_exit_notification_timer_wakeup OCC_EXIT now c = Inr c' \<Longrightarrow>
             sig_step OCC_EXIT (now, c) (now, c')"
| Tick: "now \<le> now' \<Longrightarrow> sig_step OCC_EXIT (now, c) (now', c)"

inductive_cases sig_stepE: "sig_step OCC_EXIT (now, c) nc'"

inductive sig_reachable :: "int \<Rightarrow> int \<times> sig_context \<Rightarrow> bool" for OCC_EXIT :: int where
  Start: "0 < now \<Longrightarrow> sc_time_wait c = 0 \<Longrightarrow> sc_interval c = event_timeout_clear_ret \<Longrightarrow>
            sig_reachable OCC_EXIT (now, c)"
| Step: "sig_reachable OCC_EXIT x \<Longrightarrow> sig_step OCC_EXIT x y \<Longrightarrow> sig_reachable OCC_EXIT y"

text \<open>The notification timer only runs while a notification is under way.\<close>

definition sig_inv :: "int \<times> sig_context \<Rightarrow> bool" where
  "sig_inv = (\<lambda>(now, c).
     0 < now \<and> 0 \<le> sc_time_wait c \<and> sc_time_wait c \<le> now \<and>
     (sc_time_wait c \<noteq> 0 \<longrightarrow> sc_exit_notification c \<noteq> 0) \<and>
     (et_defined (sc_interval c) \<longrightarrow> sc_time_wait c \<noteq> 0 \<and> et_n (sc_interval c) = 1 \<and> et_last (sc_interval c) \<le> now))"

lemma et_init_simps [simp]:
  "et_defined (event_timeout_init n t)" "et_n (event_timeout_init 1 t) = 1" "et_last (event_timeout_init n t) = t"
  "\<not> et_defined event_timeout_clear_ret"
  by (simp_all add: event_timeout_init_def event_timeout_clear_ret_def)

lemma register_signal_simps [simp]:
  "sc_interval (register_signal c s t) = sc_interval c" "sc_time_wait (register_signal c s t) = sc_time_wait c"
  "sc_exit_notification (register_signal c s t) = sc_exit_notification c"
  by (simp_all add: register_signal_def Let_def)

lemma remap_signal_simps [simp]:
  "sc_interval (remap_signal c) = sc_interval c" "sc_time_wait (remap_signal c) = sc_time_wait c"
  "sc_exit_notification (remap_signal c) = sc_exit_notification c"
  by (simp_all add: remap_signal_def)

lemma process_signal_cases:
  assumes "process_signal now c = (r, c')"
  shows "(sc_interval c' = sc_interval c \<and> sc_time_wait c' = sc_time_wait c \<and>
            sc_exit_notification c' = sc_exit_notification c) \<or>
         (\<not> r \<and> sc_exit_notification c \<noteq> 0 \<and> sc_time_wait c = 0 \<and> sc_time_wait c' = now \<and>
            sc_interval c' = event_timeout_init 1 0 \<and> sc_exit_notification c' = sc_exit_notification c)"
  using assms
  by (auto simp: process_signal_def ignore_restart_signals_def process_sigterm_def process_sigusr2_def
      process_explicit_exit_notification_init_def split: if_splits)

lemma wakeup_cases:
  "process_explicit_exit_notification_timer_wakeup OCC_EXIT now c =
     (if et_defined (sc_interval c) \<and> et_last (sc_interval c) + et_n (sc_interval c) \<le> now
      then bindE (c_assert (sc_time_wait c \<noteq> 0 \<and> sc_exit_notification c \<noteq> 0))
             (\<lambda>_. let c1 = c\<lparr>sc_timeval := if et_n (sc_interval c) < tv_sec (sc_timeval c)
                                          then Timeval (et_n (sc_interval c)) 0 else sc_timeval c\<rparr>
                  in Inr (if now \<ge> sc_time_wait c + sc_exit_notification c
                          then c1\<lparr>sc_interval := event_timeout_clear_ret,
                                  sc_sig := (sc_sig c)\<lparr>signal_received := SIGTERM,
                                                       signal_text := Some (asc ''exit-with-notification'')\<rparr>\<rparr>
                          else c1\<lparr>sc_interval := (sc_interval c)\<lparr>et_last := now\<rparr>, sc_occ_op := OCC_EXIT\<rparr>))
      else Inr (c\<lparr>sc_timeval :=
                 if et_defined (sc_interval c) \<and> et_last (sc_interval c) - now + et_n (sc_interval c) < tv_sec (sc_timeval c)
                 then Timeval (et_last (sc_interval c) - now + et_n (sc_interval c)) 0 else sc_timeval c\<rparr>))"
  by (cases c) (auto simp: process_explicit_exit_notification_timer_wakeup_def event_timeout_trigger_def Let_def c_assert_def)

lemma sig_inv_step: "sig_step OCC_EXIT x y \<Longrightarrow> sig_inv x \<Longrightarrow> sig_inv y"
proof (induction rule: sig_step.induct)
  case (Process c now r c')
  then show ?case using process_signal_cases [OF Process(2)] by (auto simp: sig_inv_def)
next
  case (Wakeup now c c')
  then show ?case
    by (auto simp: sig_inv_def wakeup_cases Let_def split: if_splits)
qed (auto simp: sig_inv_def)

lemma sig_reachable_inv: "sig_reachable OCC_EXIT x \<Longrightarrow> sig_inv x"
proof (induction rule: sig_reachable.induct)
  case (Start now c)
  then show ?case by (simp add: sig_inv_def)
next
  case (Step x y)
  then show ?case using sig_inv_step by blast
qed

lemma wakeup_never_asserts:
  "sig_reachable OCC_EXIT (now, c) \<Longrightarrow> \<exists>c'. process_explicit_exit_notification_timer_wakeup OCC_EXIT now c = Inr c'"
  using sig_reachable_inv [of OCC_EXIT "(now, c)"] by (auto simp: wakeup_cases sig_inv_def Let_def)

text \<open>Waking up every second ends in \<open>SIGTERM\<close> as soon as the time is over, and not before.\<close>

lemma wakeup_exit:
  assumes "sig_inv (now, c)" and "et_defined (sc_interval c)" and "et_last (sc_interval c) < now"
    and "process_explicit_exit_notification_timer_wakeup OCC_EXIT now c = Inr c'"
  shows "now \<ge> sc_time_wait c + sc_exit_notification c \<Longrightarrow>
           signal_received (sc_sig c') = SIGTERM \<and> \<not> et_defined (sc_interval c')"
    and "now < sc_time_wait c + sc_exit_notification c \<Longrightarrow>
           sc_sig c' = sc_sig c \<and> sc_occ_op c' = OCC_EXIT \<and> et_defined (sc_interval c')"
  using assms by (auto simp: wakeup_cases sig_inv_def Let_def split: if_splits)

section \<open>Names round trip\<close>

lemma parse_signal_name: "s \<in> {SIGINT, SIGTERM, SIGHUP, SIGUSR1, SIGUSR2} \<Longrightarrow> parse_signal (signal_name s True) = s"
  by (auto simp: parse_signal_def signal_name_def signames_def signum_defs)

lemma signal_name_parse: "parse_signal t \<noteq> -1 \<Longrightarrow> signal_name (parse_signal t) True = t"
  by (auto simp: parse_signal_def signal_name_def signames_def signum_defs)

section \<open>Properties\<close>

text \<open>
  C19: In every state that signals, timers and registrations can lead to, the wakeup of the exit
  notification passes its assertion (a notification that waits is always one that was
  configured and started).
\<close>

theorem exit_wakeup_never_asserts:
  assumes "sig_reachable OCC_EXIT (now, c)"
  shows "\<exists>c'. process_explicit_exit_notification_timer_wakeup OCC_EXIT now c = Inr c'"
  using assms by (rule wakeup_never_asserts)

theorem exit_wakeup_never_asserts_witness:
  "\<exists>c'. process_explicit_exit_notification_timer_wakeup 9 5
     \<lparr>sc_sig = \<lparr>signal_received = 0, si_source = 0, signal_text = None\<rparr>, sc_interval = event_timeout_clear_ret,
      sc_time_wait = 0, sc_timeval = Timeval 60 0, sc_occ_op = 0, sc_remap_sigusr1 = 0, sc_exit_notification = 3,
      sc_calls = []\<rparr> = Inr c'"
  by (rule exit_wakeup_never_asserts, rule sig_reachable.Start) simp_all

text \<open>
  C18: While an exit notification is under way, a timer wakeup at least a second after the
  previous one terminates the program exactly when the waiting time is over: then SIGTERM is
  raised and the timer stopped, and before that the peer is notified again and nothing is
  raised.
\<close>

theorem exit_wakeup_terminates:
  assumes "sig_reachable OCC_EXIT (now, c)" and "et_defined (sc_interval c)" and "et_last (sc_interval c) < now"
  shows "\<exists>c'. process_explicit_exit_notification_timer_wakeup OCC_EXIT now c = Inr c' \<and>
           (if sc_time_wait c + sc_exit_notification c \<le> now
            then signal_received (sc_sig c') = SIGTERM \<and> \<not> et_defined (sc_interval c')
            else sc_sig c' = sc_sig c \<and> sc_occ_op c' = OCC_EXIT \<and> et_defined (sc_interval c'))"
proof -
  have i: "sig_inv (now, c)" using assms(1) by (rule sig_reachable_inv)
  obtain c' where c': "process_explicit_exit_notification_timer_wakeup OCC_EXIT now c = Inr c'"
    using wakeup_never_asserts [OF assms(1)] by blast
  show ?thesis using wakeup_exit [OF i assms(2,3) c'] c' by auto
qed

theorem exit_wakeup_terminates_witness:
  "\<exists>c c'. process_signal 5
       \<lparr>sc_sig = \<lparr>signal_received = SIGTERM, si_source = 1, signal_text = None\<rparr>, sc_interval = event_timeout_clear_ret,
        sc_time_wait = 0, sc_timeval = Timeval 60 0, sc_occ_op = 0, sc_remap_sigusr1 = 0, sc_exit_notification = 3,
        sc_calls = []\<rparr> = (False, c) \<and>
     process_explicit_exit_notification_timer_wakeup 9 8 c = Inr c' \<and> signal_received (sc_sig c') = SIGTERM"
proof -
  let ?start = "\<lparr>sc_sig = \<lparr>signal_received = SIGTERM, si_source = 1, signal_text = None\<rparr>, sc_interval = event_timeout_clear_ret,
      sc_time_wait = 0, sc_timeval = Timeval 60 0, sc_occ_op = 0, sc_remap_sigusr1 = 0, sc_exit_notification = 3,
      sc_calls = []\<rparr>"
  let ?c = "process_explicit_exit_notification_init 5 ?start"
  have p: "process_signal 5 ?start = (False, ?c)"
    by (simp add: process_signal_def ignore_restart_signals_def process_sigterm_def signum_defs)
  have "sig_reachable 9 (5, ?start)" by (rule sig_reachable.Start) simp_all
  moreover have "sig_step 9 (5, ?start) (5, ?c)" by (rule sig_step.Process [OF _ p]) (simp add: signum_defs)
  moreover have "sig_step 9 (5, ?c) (8, ?c)" by (rule sig_step.Tick) simp
  ultimately have r: "sig_reachable 9 (8, ?c)" by (blast intro: sig_reachable.Step)
  have d: "et_defined (sc_interval ?c)" "et_last (sc_interval ?c) < 8" "sc_time_wait ?c + sc_exit_notification ?c \<le> 8"
    by (simp_all add: process_explicit_exit_notification_init_def)
  show ?thesis using exit_wakeup_terminates [OF r d(1,2)] d(3) p by auto
qed

text \<open>
  Signal names and numbers correspond one to one: a name that parses is the name of the
  number it parses to, and every number of the table is the value of its name.
\<close>

lemma signal_names_roundtrip:
  "(parse_signal t \<noteq> -1 \<longrightarrow> signal_name (parse_signal t) True = t) \<and>
   (\<forall>s \<in> {SIGINT, SIGTERM, SIGHUP, SIGUSR1, SIGUSR2}. parse_signal (signal_name s True) = s)"
  using signal_name_parse [of t] parse_signal_name by blast

end
