(* ===== verification/Mtu.thy ===== *)
theory Mtu
  imports Text_Laws Decimal Integer
begin

text \<open>
  Packet geometry of \<open>src/Treiber/lib/mtu.c\<close> and \<open>mtu.h\<close>: \<open>struct frame\<close>, the sizes derived
  from it, the headroom and alignment of packet buffers, and the dynamic MTU. Sizes are \<open>int\<close>.
\<close>

unbundle bit_operations_syntax

section \<open>Frames\<close>

record frame =
  link_mtu :: int
  link_mtu_dynamic :: int
  extra_frame :: int
  extra_buffer :: int
  extra_tun :: int
  extra_link :: int
  align_flags :: "32 word"
  align_adjust :: int

definition PAYLOAD_ALIGN :: int where "PAYLOAD_ALIGN = 4"
definition TUN_MTU_MIN :: int where "TUN_MTU_MIN = 100"

definition TUN_LINK_DELTA :: "frame \<Rightarrow> int" where
  "TUN_LINK_DELTA f = extra_frame f + extra_tun f"

definition TUN_MTU_SIZE :: "frame \<Rightarrow> int" where
  "TUN_MTU_SIZE f = link_mtu f - TUN_LINK_DELTA f"

definition PAYLOAD_SIZE :: "frame \<Rightarrow> int" where
  "PAYLOAD_SIZE f = link_mtu f - extra_frame f"

definition EXPANDED_SIZE :: "frame \<Rightarrow> int" where
  "EXPANDED_SIZE f = link_mtu f"

definition EXPANDED_SIZE_MIN :: "frame \<Rightarrow> int" where
  "EXPANDED_SIZE_MIN f = TUN_MTU_MIN + TUN_LINK_DELTA f"

definition MAX_RW_SIZE_TUN :: "frame \<Rightarrow> int" where
  "MAX_RW_SIZE_TUN f = PAYLOAD_SIZE f"

definition MAX_RW_SIZE_LINK :: "frame \<Rightarrow> int" where
  "MAX_RW_SIZE_LINK f = EXPANDED_SIZE f + extra_link f"

definition FRAME_HEADROOM_BASE :: "frame \<Rightarrow> int" where
  "FRAME_HEADROOM_BASE f = TUN_LINK_DELTA f + extra_buffer f + extra_link f"

definition frame_headroom :: "frame \<Rightarrow> 32 word \<Rightarrow> int" where
  "frame_headroom f flag_mask =
     (let offset = FRAME_HEADROOM_BASE f;
          adjust = (if flag_mask AND align_flags f \<noteq> 0 then align_adjust f else 0);
          delta = (push_bit 24 PAYLOAD_ALIGN - (offset + adjust)) AND (PAYLOAD_ALIGN - 1)
      in offset + delta)"

definition BUF_SIZE :: "frame \<Rightarrow> int" where
  "BUF_SIZE f = TUN_MTU_SIZE f + FRAME_HEADROOM_BASE f * 2"

text \<open>An increment given as \<open>unsigned int\<close> is added modulo \<open>2^32\<close> and converted back.\<close>

definition add_unsigned :: "int \<Rightarrow> int \<Rightarrow> int" where
  "add_unsigned n u = (n + u + 2 ^ 31) mod 2 ^ 32 - 2 ^ 31"

definition frame_add_to_link_mtu :: "frame \<Rightarrow> int \<Rightarrow> frame" where
  "frame_add_to_link_mtu f inc = f\<lparr>link_mtu := link_mtu f + inc\<rparr>"

definition frame_add_to_extra_frame :: "frame \<Rightarrow> nat \<Rightarrow> frame" where
  "frame_add_to_extra_frame f inc = f\<lparr>extra_frame := add_unsigned (extra_frame f) (int inc)\<rparr>"

definition frame_remove_from_extra_frame :: "frame \<Rightarrow> nat \<Rightarrow> frame" where
  "frame_remove_from_extra_frame f decr = f\<lparr>extra_frame := add_unsigned (extra_frame f) (- int decr)\<rparr>"

definition frame_add_to_extra_tun :: "frame \<Rightarrow> int \<Rightarrow> frame" where
  "frame_add_to_extra_tun f inc = f\<lparr>extra_tun := extra_tun f + inc\<rparr>"

definition frame_add_to_extra_link :: "frame \<Rightarrow> int \<Rightarrow> frame" where
  "frame_add_to_extra_link f inc = f\<lparr>extra_link := extra_link f + inc\<rparr>"

definition frame_add_to_extra_buffer :: "frame \<Rightarrow> int \<Rightarrow> frame" where
  "frame_add_to_extra_buffer f inc = f\<lparr>extra_buffer := extra_buffer f + inc\<rparr>"

definition frame_add_to_align_adjust :: "frame \<Rightarrow> int \<Rightarrow> frame" where
  "frame_add_to_align_adjust f inc = f\<lparr>align_adjust := align_adjust f + inc\<rparr>"

definition frame_align_to_extra_frame :: "frame \<Rightarrow> frame" where
  "frame_align_to_extra_frame f = f\<lparr>align_adjust := extra_frame f + extra_link f\<rparr>"

definition frame_or_align_flags :: "frame \<Rightarrow> 32 word \<Rightarrow> frame" where
  "frame_or_align_flags f flag_mask = f\<lparr>align_flags := align_flags f OR flag_mask\<rparr>"

section \<open>Operations of mtu.c\<close>

definition alloc_buf_sock_tun :: "mem \<Rightarrow> frame \<Rightarrow> bool \<Rightarrow> 32 word \<Rightarrow> fault + buffer \<times> mem" where
  "alloc_buf_sock_tun m frame tuntap_buffer align_mask =
     (if BUF_SIZE frame < 0 then Inl Fatal
      else bindE (alloc_buf m (nat (BUF_SIZE frame)))
        (\<lambda>(buf, m'). case buf_init_dowork buf (frame_headroom frame align_mask) of
           (buf1, ok) \<Rightarrow>
             bindE (c_assert ok)
               (\<lambda>_. let buf2 = buf1\<lparr>b_len := if tuntap_buffer then MAX_RW_SIZE_TUN frame else MAX_RW_SIZE_LINK frame\<rparr>
                    in bindE (c_assert (buf_safe buf2 0)) (\<lambda>_. Inr (buf2, m')))))"

definition frame_finalize :: "frame \<Rightarrow> bool \<Rightarrow> int \<Rightarrow> bool \<Rightarrow> int \<Rightarrow> fault + frame" where
  "frame_finalize f link_mtu_defined lmtu tun_mtu_defined tmtu =
     bindE (if tun_mtu_defined
            then bindE (c_assert (\<not> link_mtu_defined)) (\<lambda>_. Inr (f\<lparr>link_mtu := tmtu + TUN_LINK_DELTA f\<rparr>))
            else bindE (c_assert link_mtu_defined) (\<lambda>_. Inr (f\<lparr>link_mtu := lmtu\<rparr>)))
       (\<lambda>f1. if TUN_MTU_SIZE f1 < TUN_MTU_MIN then Inl Fatal
             else Inr (f1\<lparr>link_mtu_dynamic := link_mtu f1\<rparr>))"

definition SET_MTU_TUN :: "32 word" where "SET_MTU_TUN = 1"
definition SET_MTU_UPPER_BOUND :: "32 word" where "SET_MTU_UPPER_BOUND = 2"

definition frame_set_mtu_dynamic :: "frame \<Rightarrow> int \<Rightarrow> 32 word \<Rightarrow> fault + frame" where
  "frame_set_mtu_dynamic f mtu flags =
     bindE (c_assert (mtu \<ge> 0))
       (\<lambda>_. let mtu1 = (if flags AND SET_MTU_TUN \<noteq> 0 then mtu + TUN_LINK_DELTA f else mtu)
            in Inr (if \<not> (flags AND SET_MTU_UPPER_BOUND \<noteq> 0) \<or> mtu1 < link_mtu_dynamic f
                    then f\<lparr>link_mtu_dynamic := constrain_int mtu1 (EXPANDED_SIZE_MIN f) (EXPANDED_SIZE f)\<rparr>
                    else f))"

definition frame_subtract_extra :: "frame \<Rightarrow> frame \<Rightarrow> frame" where
  "frame_subtract_extra f src =
     f\<lparr>extra_frame := extra_frame f - extra_frame src, extra_tun := extra_tun f + extra_frame src\<rparr>"

text \<open>\<open>mssfix\<close> is \<open>options->ce.mssfix\<close>.\<close>

definition frame_init_mssfix :: "frame \<Rightarrow> int \<Rightarrow> fault + frame" where
  "frame_init_mssfix f mssfix =
     (if mssfix \<noteq> 0 then frame_set_mtu_dynamic f mssfix SET_MTU_UPPER_BOUND else Inr f)"

text \<open>The calls of \<open>buf_printf\<close> in \<open>frame_print\<close>.\<close>

definition frame_pieces :: "frame \<Rightarrow> cstr option \<Rightarrow> cstr list" where
  "frame_pieces f prefix =
     (case prefix of Some p \<Rightarrow> [p @ asc '' ''] | None \<Rightarrow> []) @
     [asc ''['',
      asc '' L:'' @ dec_int (link_mtu f),
      asc '' D:'' @ dec_int (link_mtu_dynamic f),
      asc '' EF:'' @ dec_int (extra_frame f),
      asc '' EB:'' @ dec_int (extra_buffer f),
      asc '' ET:'' @ dec_int (extra_tun f),
      asc '' EL:'' @ dec_int (extra_link f)] @
     (if align_flags f \<noteq> 0 \<and> align_adjust f \<noteq> 0
      then [asc '' AF:'' @ dec_nat (unat (align_flags f)) @ asc ''/'' @ dec_int (align_adjust f)] else []) @
     [asc '' ]'']"

fun print_pieces :: "mem \<Rightarrow> buffer \<Rightarrow> cstr list \<Rightarrow> fault + buffer \<times> mem" where
  "print_pieces m out [] = Inr (out, m)"
| "print_pieces m out (t # ts) = bindE (buf_printf m out (Some t)) (\<lambda>(_, out', m'). print_pieces m' out' ts)"

text \<open>The logged text; the local arena is freed.\<close>

definition frame_print :: "mem \<Rightarrow> frame \<Rightarrow> cstr option \<Rightarrow> fault + cstr \<times> mem" where
  "frame_print m f prefix =
     bindE (alloc_buf_gc m 256 (Some gc_new))
       (\<lambda>(out, m1, gc). bindE (print_pieces m1 out (frame_pieces f prefix))
         (\<lambda>(out', m2). bindE (read_cstr m2 (b_data out'))
           (\<lambda>s. case gc of
               Some g \<Rightarrow> bindE (gc_free m2 g) (\<lambda>(m3, _, _). Inr (s, m3))
             | None \<Rightarrow> Inr (s, m2))))"

text \<open>
  The constants of the three discovery types exist on some systems only: \<open>None\<close> is a system
  without them.
\<close>

definition translate_mtu_discover_type_name :: "(int \<times> int \<times> int) option \<Rightarrow> cstr \<Rightarrow> fault + int" where
  "translate_mtu_discover_type_name consts name =
     (case consts of
        None \<Rightarrow> Inl Fatal
      | Some (pm_do, pm_want, pm_dont) \<Rightarrow>
          if name = asc ''yes'' then Inr pm_do
          else if name = asc ''maybe'' then Inr pm_want
          else if name = asc ''no'' then Inr pm_dont
          else Inl Fatal)"

section \<open>Extended socket errors\<close>

datatype sock_errno = ETIMEDOUT | EMSGSIZE | ECONNREFUSED | EPROTO | EHOSTUNREACH | ENETUNREACH | EACCES | ErrOther

text \<open>A control message of the error queue: at another level, of another type, or an error.\<close>

datatype cmsg = OtherLevel | OtherType int | RecvErr sock_errno int

fun scan_cmsgs :: "mem \<Rightarrow> buffer \<Rightarrow> (sock_errno \<times> int) option \<Rightarrow> cmsg list \<Rightarrow>
    fault + (sock_errno \<times> int) option \<times> buffer \<times> mem" where
  "scan_cmsgs m out e [] = Inr (e, out, m)"
| "scan_cmsgs m out e (c # cs) =
     (case c of
        OtherLevel \<Rightarrow> scan_cmsgs m out e cs
      | RecvErr en info \<Rightarrow> scan_cmsgs m out (Some (en, info)) cs
      | OtherType t \<Rightarrow>
          bindE (buf_printf m out (Some (asc ''CMSG='' @ dec_int t @ asc ''|'')))
            (\<lambda>(_, out', m'). scan_cmsgs m' out' e cs))"

definition errno_text :: "sock_errno \<Rightarrow> int \<Rightarrow> cstr" where
  "errno_text en info =
     (case en of
        ETIMEDOUT \<Rightarrow> asc ''ETIMEDOUT|''
      | EMSGSIZE \<Rightarrow> asc ''EMSGSIZE Path-MTU='' @ dec_int info @ asc ''|''
      | ECONNREFUSED \<Rightarrow> asc ''ECONNREFUSED|''
      | EPROTO \<Rightarrow> asc ''EPROTO|''
      | EHOSTUNREACH \<Rightarrow> asc ''EHOSTUNREACH|''
      | ENETUNREACH \<Rightarrow> asc ''ENETUNREACH|''
      | EACCES \<Rightarrow> asc ''EACCES|''
      | ErrOther \<Rightarrow> asc ''UNKNOWN|'')"

text \<open>Each element of \<open>queue\<close> is what one successful \<open>recvmsg\<close> delivered.\<close>

fun error_queue :: "mem \<Rightarrow> buffer \<Rightarrow> int \<Rightarrow> cmsg list list \<Rightarrow> fault + int \<times> buffer \<times> mem" where
  "error_queue m out mtu [] = Inr (mtu, out, m)"
| "error_queue m out mtu (q # queue) =
     bindE (scan_cmsgs m out None q)
       (\<lambda>(e, out1, m1). case e of
           None \<Rightarrow> bindE (buf_printf m1 out1 (Some (asc ''NO-INFO|''))) (\<lambda>(_, out2, m2). Inr (mtu, out2, m2))
         | Some (en, info) \<Rightarrow>
             bindE (buf_printf m1 out1 (Some (errno_text en info)))
               (\<lambda>(_, out2, m2). error_queue m2 out2 (if en = EMSGSIZE then info else mtu) queue))"

definition format_extended_socket_error ::
  "mem \<Rightarrow> cmsg list list \<Rightarrow> gc_arena option \<Rightarrow> fault + int \<times> ptr \<times> mem \<times> gc_arena option" where
  "format_extended_socket_error m queue gc =
     bindE (alloc_buf_gc m 256 gc)
       (\<lambda>(out, m1, gc1). bindE (gc_malloc m1 256 False gc1)
         (\<lambda>(_, m2, gc2). bindE (error_queue m2 out 0 queue)
           (\<lambda>(mtu, out1, m3). bindE (buf_rmtail m3 out1 (of_char CHR ''|''))
             (\<lambda>(out2, m4). Inr (mtu, buf_bptr out2, m4, gc2)))))"

section \<open>Headroom and buffer sizes\<close>

lemma and_3_mod_4: "(x :: int) AND 3 = x mod 4"
  using take_bit_eq_mask [of 2 x] by (simp add: take_bit_eq_mod mask_eq_exp_minus_1 and.commute)

definition frame_delta :: "frame \<Rightarrow> 32 word \<Rightarrow> int" where
  "frame_delta f flag_mask =
     (- (FRAME_HEADROOM_BASE f + (if flag_mask AND align_flags f \<noteq> 0 then align_adjust f else 0))) mod 4"

lemma frame_headroom_delta: "frame_headroom f msk = FRAME_HEADROOM_BASE f + frame_delta f msk"
proof -
  have "(push_bit 24 4 - x) AND (4 - 1) = (- x) mod 4" for x :: int
  proof -
    have "(push_bit 24 4 - x) AND (4 - 1) = (67108864 - x) mod 4" by (simp add: and_3_mod_4 push_bit_eq_mult)
    also have "\<dots> = (- x + 4 * 16777216) mod 4" by (simp add: algebra_simps)
    also have "\<dots> = (- x) mod 4" by (rule mod_mult_self2)
    finally show ?thesis .
  qed
  then show ?thesis by (simp add: frame_headroom_def Let_def PAYLOAD_ALIGN_def frame_delta_def)
qed

lemma frame_delta_range: "0 \<le> frame_delta f msk \<and> frame_delta f msk < 4"
  by (simp add: frame_delta_def)

lemma frame_headroom_aligned:
  assumes "msk AND align_flags f \<noteq> 0"
  shows "(frame_headroom f msk + align_adjust f) mod 4 = 0"
proof -
  let ?x = "FRAME_HEADROOM_BASE f + align_adjust f"
  have "(?x + (- ?x) mod 4) mod 4 = (?x + - ?x) mod 4" by (rule mod_add_right_eq)
  then show ?thesis using assms by (simp add: frame_headroom_delta frame_delta_def add.assoc add.left_commute add.commute)
qed

definition frame_wf :: "frame \<Rightarrow> bool" where
  "frame_wf f \<longleftrightarrow>
     0 \<le> extra_frame f \<and> 0 \<le> extra_tun f \<and> 0 \<le> extra_buffer f \<and> 0 \<le> extra_link f \<and>
     TUN_MTU_MIN \<le> TUN_MTU_SIZE f \<and> BUF_SIZE f < BUF_SIZE_MAX"

text \<open>
  The two assertions of \<open>alloc_buf_sock_tun\<close> hold exactly when the alignment padding fits into
  the slack the frame provides.
\<close>

lemma alloc_buf_sock_tun_cases:
  fixes tun :: bool
  assumes "frame_wf f" and "\<not> oom m (nxt m)"
  defines "slack \<equiv> extra_buffer f + (if tun then extra_frame f + extra_link f else 0)"
  shows "frame_delta f msk \<le> slack \<Longrightarrow>
           \<exists>b m'. alloc_buf_sock_tun m f tun msk = Inr (b, m') \<and> buf_inv m' b \<and>
             b_offset b = frame_headroom f msk \<and>
             b_len b = (if tun then MAX_RW_SIZE_TUN f else MAX_RW_SIZE_LINK f)"
    and "slack < frame_delta f msk \<Longrightarrow> alloc_buf_sock_tun m f tun msk = Inl AssertFail"
proof -
  note d = frame_delta_range [of f msk]
  have wf: "0 \<le> extra_frame f" "0 \<le> extra_tun f" "0 \<le> extra_buffer f" "0 \<le> extra_link f"
      "100 \<le> link_mtu f - extra_frame f - extra_tun f"
    using assms(1) by (simp_all add: frame_wf_def TUN_MTU_MIN_def TUN_MTU_SIZE_def TUN_LINK_DELTA_def)
  have bs: "BUF_SIZE f = link_mtu f + extra_frame f + extra_tun f + 2 * extra_buffer f + 2 * extra_link f"
    by (simp add: BUF_SIZE_def TUN_MTU_SIZE_def FRAME_HEADROOM_BASE_def TUN_LINK_DELTA_def)
  have pos: "0 \<le> BUF_SIZE f" using wf unfolding bs by linarith
  let ?n = "nat (BUF_SIZE f)" and ?k = "nxt m"
  let ?b = "\<lparr>b_capacity = int ?n, b_offset = 0, b_len = 0, b_data = Ptr ?k 0\<rparr>"
  let ?m = "m\<lparr>blocks := (blocks m)(?k \<mapsto> replicate ?n 0), nxt := Suc ?k\<rparr>"
  have small: "int ?n < BUF_SIZE_MAX" using assms(1) pos by (simp add: frame_wf_def)
  have a: "alloc_buf m ?n = Inr (?b, ?m)"
    using assms(2) small by (simp add: alloc_buf_def buf_size_valid_def c_calloc_def new_block_def)
  have h: "frame_headroom f msk = extra_frame f + extra_tun f + extra_buffer f + extra_link f + frame_delta f msk"
    by (simp add: frame_headroom_delta FRAME_HEADROOM_BASE_def TUN_LINK_DELTA_def)
  let ?h = "frame_headroom f msk"
  have hr: "0 \<le> ?h" "?h \<le> BUF_SIZE f" using wf d unfolding h bs by linarith+
  have ini: "buf_init_dowork ?b ?h = (?b\<lparr>b_len := 0, b_offset := ?h\<rparr>, True)"
    using hr pos by (simp add: buf_init_dowork_def)
  let ?l = "if tun then MAX_RW_SIZE_TUN f else MAX_RW_SIZE_LINK f"
  let ?b2 = "?b\<lparr>b_len := ?l, b_offset := ?h\<rparr>"
  have l: "?l = (if tun then link_mtu f - extra_frame f else link_mtu f + extra_link f)"
    by (simp add: MAX_RW_SIZE_TUN_def MAX_RW_SIZE_LINK_def PAYLOAD_SIZE_def EXPANDED_SIZE_def)
  have lp: "0 \<le> ?l" using wf unfolding l by auto
  have sf: "buf_safe ?b2 0 \<longleftrightarrow> frame_delta f msk \<le> slack"
    using lp wf pos unfolding slack_def
    by (auto simp: buf_safe_def buf_valid_def buf_size_valid_def size_of_int_def BUF_SIZE_MAX_def l h bs)
  have run: "alloc_buf_sock_tun m f tun msk = bindE (c_assert (buf_safe ?b2 0)) (\<lambda>_. Inr (?b2, ?m))"
    using pos ini by (simp add: alloc_buf_sock_tun_def a Let_def)
  show "slack < frame_delta f msk \<Longrightarrow> alloc_buf_sock_tun m f tun msk = Inl AssertFail"
    using sf by (simp add: run c_assert_def)
  assume s: "frame_delta f msk \<le> slack"
  have "buf_inv ?m ?b2"
    using lp hr small pos s wf unfolding slack_def
    by (auto simp: buf_inv_def l h bs split: if_splits)
  then show "\<exists>b m'. alloc_buf_sock_tun m f tun msk = Inr (b, m') \<and> buf_inv m' b \<and>
             b_offset b = ?h \<and> b_len b = ?l"
    using s sf by (simp add: run)
qed

lemma frame_finalize_spec:
  fixes link_d tun_d :: bool and t lm :: int and f :: frame
  assumes "link_d \<noteq> tun_d"
  defines "l \<equiv> (if tun_d then t + TUN_LINK_DELTA f else lm)"
  shows "frame_finalize f link_d lm tun_d t =
     (if l - TUN_LINK_DELTA f < TUN_MTU_MIN then Inl Fatal
      else Inr (f\<lparr>link_mtu := l, link_mtu_dynamic := l\<rparr>))"
  using assms by (auto simp: frame_finalize_def TUN_MTU_SIZE_def TUN_LINK_DELTA_def)

lemma frame_set_mtu_dynamic_bounds:
  assumes "frame_set_mtu_dynamic f mtu flags = Inr f'" and "EXPANDED_SIZE_MIN f \<le> link_mtu f"
    and "EXPANDED_SIZE_MIN f \<le> link_mtu_dynamic f" and "link_mtu_dynamic f \<le> link_mtu f"
  shows "EXPANDED_SIZE_MIN f \<le> link_mtu_dynamic f'" and "link_mtu_dynamic f' \<le> link_mtu f"
    and "link_mtu f' = link_mtu f"
    and "flags AND SET_MTU_UPPER_BOUND \<noteq> 0 \<Longrightarrow> link_mtu_dynamic f' \<le> link_mtu_dynamic f"
proof -
  define mtu1 where "mtu1 = (if flags AND SET_MTU_TUN \<noteq> 0 then mtu + TUN_LINK_DELTA f else mtu)"
  define c where "c = constrain_int mtu1 (EXPANDED_SIZE_MIN f) (link_mtu f)"
  have c: "EXPANDED_SIZE_MIN f \<le> c" "c \<le> link_mtu f" "c \<le> max mtu1 (EXPANDED_SIZE_MIN f)"
    using assms(2) by (auto simp: c_def constrain_int_def)
  have e: "f' = (if \<not> (flags AND SET_MTU_UPPER_BOUND \<noteq> 0) \<or> mtu1 < link_mtu_dynamic f
      then f\<lparr>link_mtu_dynamic := c\<rparr> else f)"
    using assms(1) unfolding frame_set_mtu_dynamic_def Let_def EXPANDED_SIZE_def mtu1_def [symmetric] c_def [symmetric]
    by (cases "0 \<le> mtu") simp_all
  show "EXPANDED_SIZE_MIN f \<le> link_mtu_dynamic f'" "link_mtu_dynamic f' \<le> link_mtu f" "link_mtu f' = link_mtu f"
    using c assms(3,4) unfolding e by simp_all
  show "link_mtu_dynamic f' \<le> link_mtu_dynamic f" if "flags AND SET_MTU_UPPER_BOUND \<noteq> 0"
    using c(3) assms(3) that unfolding e by auto
qed

lemma print_pieces_print_all:
  "print_all buf_print (m, out) ts = Some (m', out') \<Longrightarrow> print_pieces m out ts = Inr (out', m')"
  by (induction ts arbitrary: m out) (auto simp: buf_print_Some_iff bind_eq_Some_conv)

section \<open>Properties\<close>

text \<open>
  The headroom of a packet buffer covers the space the protocol layers prepend, exceeds it
  by less than the payload alignment, and puts the payload on an aligned offset for the
  frames marked for alignment.
\<close>

lemma frame_headroom_covers:
  "FRAME_HEADROOM_BASE f \<le> frame_headroom f msk \<and> frame_headroom f msk < FRAME_HEADROOM_BASE f + PAYLOAD_ALIGN \<and>
   (if msk AND align_flags f \<noteq> 0 then (frame_headroom f msk + align_adjust f) mod PAYLOAD_ALIGN = 0
    else frame_headroom f msk mod PAYLOAD_ALIGN = 0)"
proof -
  have "(FRAME_HEADROOM_BASE f + (- FRAME_HEADROOM_BASE f) mod 4) mod 4 = (FRAME_HEADROOM_BASE f + - FRAME_HEADROOM_BASE f) mod 4"
    by (rule mod_add_right_eq)
  then show ?thesis
    using frame_delta_range [of f msk] frame_headroom_aligned [of msk f]
    by (auto simp: frame_headroom_delta PAYLOAD_ALIGN_def frame_delta_def)
qed

text \<open>
  The two assertions of the socket buffer allocation hold exactly when the slack the frame
  reserves covers the alignment padding, and then the buffer is well formed, has the headroom in
  front and the maximal read size as its length.
\<close>

lemma alloc_buf_sock_tun_exact:
  assumes "frame_wf f" and "\<not> oom m (nxt m)"
  shows "if frame_headroom f msk - FRAME_HEADROOM_BASE f \<le> extra_buffer f + (if tun then extra_frame f + extra_link f else 0)
         then \<exists>b m'. alloc_buf_sock_tun m f tun msk = Inr (b, m') \<and> buf_inv m' b \<and> b_offset b = frame_headroom f msk \<and>
                b_len b = (if tun then MAX_RW_SIZE_TUN f else MAX_RW_SIZE_LINK f)
         else alloc_buf_sock_tun m f tun msk = Inl AssertFail"
  using alloc_buf_sock_tun_cases [OF assms, where msk = msk and tun = tun] by (auto simp: frame_headroom_delta not_le)

text \<open>
  Changing the dynamic MTU keeps it between the smallest expanded packet and the static link
  MTU, never changes the static one, and with the upper-bound flag never raises it.
\<close>

lemma frame_dynamic_mtu_bounded:
  assumes "frame_set_mtu_dynamic f mtu flags = Inr f'" and "EXPANDED_SIZE_MIN f \<le> link_mtu f"
    and "EXPANDED_SIZE_MIN f \<le> link_mtu_dynamic f" and "link_mtu_dynamic f \<le> link_mtu f"
  shows "EXPANDED_SIZE_MIN f' \<le> link_mtu_dynamic f' \<and> link_mtu_dynamic f' \<le> link_mtu f' \<and> link_mtu f' = link_mtu f \<and>
         (flags AND SET_MTU_UPPER_BOUND \<noteq> 0 \<longrightarrow> link_mtu_dynamic f' \<le> link_mtu_dynamic f)"
proof -
  have "EXPANDED_SIZE_MIN f' = EXPANDED_SIZE_MIN f"
    using assms(1) by (auto simp: frame_set_mtu_dynamic_def Let_def bindE_Inr_iff EXPANDED_SIZE_MIN_def TUN_LINK_DELTA_def split: if_splits)
  then show ?thesis using frame_set_mtu_dynamic_bounds [OF assms] by simp
qed

end
