(* ===== verification/Socks.thy ===== *)
theory Socks
  imports Mtu Signals
begin

text \<open>
  The SOCKS 5 client of \<open>src/Treiber/lib/socks.c\<close>: the method negotiation, the user name and
  password exchange, the replies of the proxy read byte by byte, and the 10-byte header of
  relayed UDP packets.

  The socket is outside: a connection is the list of what each turn of a receive loop sees
  (the result of \<open>select\<close>, the signal \<open>get_signal\<close> leaves in \<open>*signal_received\<close>, the byte
  \<open>recv\<close> delivers) and of what each \<open>send\<close> returns. When a list is used up, \<open>select\<close> times
  out and \<open>send\<close> accepts everything. So a run of a receive loop is finite by construction; that a loop
  ends is a statement only where the number of its turns is bounded independently of the list.
\<close>

unbundle bit_operations_syntax

section \<open>The connection\<close>

record io_event =
  ev_status :: int
  ev_signal :: int
  ev_recv :: "byte option"

record conn =
  cn_events :: "io_event list"
  cn_sends :: "int list"
  cn_sent :: "byte list list"
  cn_signal :: int

definition sock_send :: "conn \<Rightarrow> byte list \<Rightarrow> int \<times> conn" where
  "sock_send io bs =
     (case cn_sends io of
        [] \<Rightarrow> (int (length bs), io\<lparr>cn_sent := cn_sent io @ [bs]\<rparr>)
      | r # rs \<Rightarrow> (r, io\<lparr>cn_sends := rs, cn_sent := cn_sent io @ [bs]\<rparr>))"

text \<open>
  \<open>memcpy\<close> from a string to offset \<open>i\<close> of an array, and reading the first bytes of an array: a fault if
  either end has not that many bytes.
\<close>

definition arr_copy :: "byte list \<Rightarrow> nat \<Rightarrow> byte list \<Rightarrow> nat \<Rightarrow> fault + byte list" where
  "arr_copy arr i src n =
     (if i + n \<le> length arr \<and> n \<le> length src then Inr (overwrite arr i (take n src)) else Inl MemFault)"

definition arr_take :: "byte list \<Rightarrow> nat \<Rightarrow> fault + byte list" where
  "arr_take arr n = (if n \<le> length arr then Inr (take n arr) else Inl MemFault)"

text \<open>One turn: \<open>select\<close>, the signal check, \<open>recv\<close> of a single byte; \<open>None\<close> is an early return.\<close>

definition recv_char :: "conn \<Rightarrow> byte option \<times> conn" where
  "recv_char io =
     (case cn_events io of
        [] \<Rightarrow> (None, io)
      | e # es \<Rightarrow>
          (let io1 = io\<lparr>cn_events := es, cn_signal := ev_signal e\<rparr>
           in if cn_signal io1 \<noteq> 0 then (None, io1)
              else if ev_status e = 0 then (None, io1)
              else if ev_status e < 0 then (None, io1)
              else (ev_recv e, io1)))"

lemma recv_char_events: "recv_char io = (Some c, io') \<Longrightarrow> length (cn_events io') < length (cn_events io)"
  by (auto simp: recv_char_def Let_def split: list.splits if_splits)

text \<open>The loop \<open>while (len < 2)\<close> of the handshake and of the authentication.\<close>

definition recv_two :: "conn \<Rightarrow> (byte \<times> byte) option \<times> conn" where
  "recv_two io =
     (case recv_char io of
        (None, io1) \<Rightarrow> (None, io1)
      | (Some a, io1) \<Rightarrow>
          (case recv_char io1 of
             (None, io2) \<Rightarrow> (None, io2)
           | (Some b, io2) \<Rightarrow> (Some (a, b), io2)))"

section \<open>Proxy information\<close>

record socks_proxy_info =
  sp_defined :: bool
  sp_server :: "byte list"
  sp_port :: cstr
  sp_authfile :: "byte list"

definition socks_proxy_new :: "cstr option \<Rightarrow> cstr option \<Rightarrow> cstr option \<Rightarrow> fault + socks_proxy_info" where
  "socks_proxy_new server port authfile =
     (case (server, port) of
        (Some s, Some p) \<Rightarrow>
          Inr \<lparr>sp_defined = True,
               sp_server = strncpynt_bytes s 128,
               sp_port = p,
               sp_authfile = (case authfile of
                                Some a \<Rightarrow> strncpynt_bytes a 256
                              | None \<Rightarrow> replicate 256 NUL)\<rparr>
      | _ \<Rightarrow> Inl AssertFail)"

definition socks_adjust_frame_parameters :: "frame \<Rightarrow> bool \<Rightarrow> frame" where
  "socks_adjust_frame_parameters f proto_udp = (if proto_udp then frame_add_to_extra_link f 10 else f)"

section \<open>Authentication\<close>

text \<open>
  \<open>creds\<close> is what \<open>get_user_pass\<close> finds. The message goes through \<open>openvpn_snprintf\<close> and is
  sent up to its first NUL byte.
\<close>

definition socks_username_password_auth ::
  "(cstr \<times> cstr) option \<Rightarrow> byte list \<Rightarrow> conn \<Rightarrow> fault + bool \<times> conn" where
  "socks_username_password_auth creds to_send io =
     (case creds of
        None \<Rightarrow> Inr (False, io)
      | Some (username, password) \<Rightarrow>
          if length username > 255 \<or> length password > 255 then Inr (False, io)
          else bindE (openvpn_snprintf to_send 516
                 (Some ([1, of_nat (length username)] @ username @ [of_nat (length password)] @ password)))
            (\<lambda>(arr, _).
               case sock_send io (c_string arr) of
                 (sz, io1) \<Rightarrow>
                   if sz \<noteq> int (length (c_string arr)) then Inr (False, io1)
                   else (case recv_two io1 of
                           (None, io2) \<Rightarrow> Inr (False, io2)
                         | (Some (b0, b1), io2) \<Rightarrow>
                             if b0 \<noteq> 5 \<and> b1 \<noteq> 0 then Inr (False, io2) else Inr (True, io2))))"

definition socks_handshake ::
  "socks_proxy_info \<Rightarrow> (cstr \<times> cstr) option \<Rightarrow> byte list \<Rightarrow> conn \<Rightarrow> fault + bool \<times> conn" where
  "socks_handshake p creds to_send io =
     bindE (arr_get (sp_authfile p) 0)
       (\<lambda>a0. let method = (if a0 \<noteq> 0 then 2 else 0) in
          case sock_send io [5, 1, method] of
            (sz, io1) \<Rightarrow>
              if sz \<noteq> 3 then Inr (False, io1)
              else (case recv_two io1 of
                      (None, io2) \<Rightarrow> Inr (False, io2)
                    | (Some (b0, b1), io2) \<Rightarrow>
                        if b0 \<noteq> 5 then Inr (False, io2)
                        else if b1 \<noteq> method then Inr (False, io2)
                        else if b1 = 0 then Inr (True, io2)
                        else if b1 = 2
                        then (if a0 = 0 then Inr (False, io2)
                              else bindE (socks_username_password_auth creds to_send io2)
                                     (\<lambda>(ok, io3). if \<not> ok then Inr (False, io3) else Inr (True, io3)))
                        else Inr (False, io2)))"

section \<open>Replies\<close>

record sockaddr_in =
  sin_addr :: "byte list"
  sin_port :: "byte list"

text \<open>The loop of \<open>recv_socks_reply\<close>; the array has 270 bytes.\<close>

function reply_loop :: "conn \<Rightarrow> byte \<Rightarrow> nat \<Rightarrow> nat \<Rightarrow> byte list \<Rightarrow> fault + (byte \<times> byte list) option \<times> conn" where
  "reply_loop io atyp alen len buf =
     (if \<not> len < 4 + alen + 2 then Inr (Some (atyp, buf), io)
      else (case recv_char io of
              (None, io1) \<Rightarrow> Inr (None, io1)
            | (Some c, io1) \<Rightarrow>
                (let atyp1 = (if len = 3 then c else atyp);
                     alen1 = (if len = 4
                              then (if atyp1 = 1 then Some 4
                                    else if atyp1 = 3 then Some (unat c + 1)
                                    else if atyp1 = 4 then Some 16
                                    else None)
                              else Some alen)
                 in case alen1 of
                      None \<Rightarrow> Inr (None, io1)
                    | Some al \<Rightarrow>
                        bindE (if len < 270 then arr_set buf len c else Inr buf)
                          (\<lambda>buf1. reply_loop io1 atyp1 al (len + 1) buf1))))"
  by pat_completeness auto
termination
  by (relation "measure (\<lambda>(io, _). length (cn_events io))") (auto dest: recv_char_events [OF sym])

declare reply_loop.simps [simp del]

text \<open>The result, and the address if one was asked for.\<close>

definition recv_socks_reply :: "conn \<Rightarrow> byte list \<Rightarrow> bool \<Rightarrow> fault + (bool \<times> sockaddr_in option) \<times> conn" where
  "recv_socks_reply io buf want_addr =
     (let addr0 = (if want_addr then Some \<lparr>sin_addr = [0, 0, 0, 0], sin_port = [0, 0]\<rparr> else None)
      in bindE (reply_loop io 0 0 0 buf)
           (\<lambda>(r, io1). case r of
               None \<Rightarrow> Inr ((False, addr0), io1)
             | Some (atyp, buf1) \<Rightarrow>
                 bindE (arr_get buf1 0)
                   (\<lambda>b0. bindE (arr_get buf1 1)
                     (\<lambda>b1. if b0 \<noteq> 5 \<or> b1 \<noteq> 0 then Inr ((False, addr0), io1)
                           else if atyp = 1 \<and> want_addr
                           then Inr ((True, Some \<lparr>sin_addr = take 4 (drop 4 buf1), sin_port = take 2 (drop 8 buf1)\<rparr>), io1)
                           else Inr ((True, addr0), io1)))))"

text \<open>\<open>service\<close> is the \<open>s_port\<close> that \<open>getservbyname\<close> finds.\<close>

definition port_from_servname :: "int option \<Rightarrow> cstr \<Rightarrow> int" where
  "port_from_servname service servname =
     (let port = c_atoi servname
      in if port > 0 \<and> port < 65536 then port
         else (case service of Some p \<Rightarrow> p | None \<Rightarrow> 0))"

definition socks_error :: "conn \<Rightarrow> conn" where
  "socks_error io = (if cn_signal io = 0 then io\<lparr>cn_signal := SIGUSR1\<rparr> else io)"

text \<open>
  The connect request is put together in an array of 270 bytes. First its head and the host name: the
  length taken, and the array.
\<close>

definition connect_request :: "byte list \<Rightarrow> cstr \<Rightarrow> fault + nat \<times> byte list" where
  "connect_request arr host =
     bindE (arr_set arr 0 5)
       (\<lambda>a0. bindE (arr_set a0 1 1)
         (\<lambda>a1. bindE (arr_set a1 2 0)
           (\<lambda>a2. bindE (arr_set a2 3 3)
             (\<lambda>a3. let len = length host;
                       len1 = (if 5 + len + 2 > 270 then 270 - 5 - 2 else len)
                   in bindE (arr_set a3 4 (of_nat len1))
               (\<lambda>a4. bindE (arr_copy a4 5 host len1) (\<lambda>a5. Inr (len1, a5)))))))"

text \<open>Then the port.\<close>

definition connect_request_port :: "byte list \<Rightarrow> nat \<Rightarrow> int \<Rightarrow> fault + byte list" where
  "connect_request_port arr len port =
     bindE (arr_set arr (5 + len) (word_of_int (drop_bit 8 port)))
       (\<lambda>a1. arr_set a1 (5 + len + 1) (word_of_int (port AND 0xFF)))"

definition establish_socks_proxy_passthru ::
  "socks_proxy_info \<Rightarrow> (cstr \<times> cstr) option \<Rightarrow> byte list \<Rightarrow> byte list \<Rightarrow> byte list \<Rightarrow> cstr \<Rightarrow> cstr \<Rightarrow> int option \<Rightarrow>
     conn \<Rightarrow> fault + conn" where
  "establish_socks_proxy_passthru p creds to_send arr buf host servname service io =
     bindE (socks_handshake p creds to_send io)
       (\<lambda>(ok, io1).
          if \<not> ok then Inr (socks_error io1)
          else bindE (connect_request arr host)
            (\<lambda>(len, arr1).
               let port = port_from_servname service servname in
               if port = 0 then Inr (socks_error io1)
               else bindE (connect_request_port arr1 len port)
                 (\<lambda>arr2. bindE (arr_take arr2 (5 + len + 2))
                   (\<lambda>req. case sock_send io1 req of
                       (sz, io2) \<Rightarrow>
                         if sz \<noteq> 5 + int len + 2 then Inr (socks_error io2)
                         else bindE (recv_socks_reply io2 buf False)
                                (\<lambda>((r, _), io3). if \<not> r then Inr (socks_error io3) else Inr io3)))))"

definition establish_socks_proxy_udpassoc ::
  "socks_proxy_info \<Rightarrow> (cstr \<times> cstr) option \<Rightarrow> byte list \<Rightarrow> byte list \<Rightarrow> conn \<Rightarrow> fault + sockaddr_in \<times> conn" where
  "establish_socks_proxy_udpassoc p creds to_send buf io =
     (let zero = \<lparr>sin_addr = [0, 0, 0, 0], sin_port = [0, 0]\<rparr> in
      bindE (socks_handshake p creds to_send io)
        (\<lambda>(ok, io1).
           if \<not> ok then Inr (zero, socks_error io1)
           else (case sock_send io1 [5, 3, 0, 1, 0, 0, 0, 0, 0, 0] of
                   (sz, io2) \<Rightarrow>
                     if sz \<noteq> 10 then Inr (zero, socks_error io2)
                     else bindE (recv_socks_reply io2 buf True)
                            (\<lambda>((r, a), io3). let addr = (case a of Some x \<Rightarrow> x | None \<Rightarrow> zero)
                                             in if \<not> r then Inr (addr, socks_error io3) else Inr (addr, io3)))))"

section \<open>UDP headers\<close>

definition socks_process_incoming_udp ::
  "mem \<Rightarrow> buffer \<Rightarrow> sockaddr_in \<Rightarrow> fault + buffer \<times> sockaddr_in" where
  "socks_process_incoming_udp m buf from =
     (if buf_len buf < 10 then Inr (buf\<lparr>b_len := 0\<rparr>, from)
      else bindE (buf_read_u16 m buf)
        (\<lambda>(_, b1). bindE (buf_read_u8 m b1)
          (\<lambda>(frag, b2).
             if frag \<noteq> 0 then Inr (b2\<lparr>b_len := 0\<rparr>, from)
             else bindE (buf_read_u8 m b2)
               (\<lambda>(atyp, b3).
                  if atyp \<noteq> 1 then Inr (b3\<lparr>b_len := 0\<rparr>, from)
                  else bindE (buf_read m b3 4)
                    (\<lambda>(a, b4). bindE (buf_read m b4 2)
                      (\<lambda>(p, b5). Inr (b5,
                         from\<lparr>sin_addr := (case a of Some x \<Rightarrow> x | None \<Rightarrow> sin_addr from),
                              sin_port := (case p of Some x \<Rightarrow> x | None \<Rightarrow> sin_port from)\<rparr>)))))))"

definition socks_process_outgoing_udp :: "mem \<Rightarrow> buffer \<Rightarrow> sockaddr_in \<Rightarrow> fault + int \<times> buffer \<times> mem" where
  "socks_process_outgoing_udp m buf to =
     (case buf_sub buf 10 True of
        (buf', head) \<Rightarrow>
          bindE (c_assert (buf_defined head))
            (\<lambda>_. bindE (buf_write_u16 m head 0)
              (\<lambda>(_, h1, m1). bindE (buf_write_u8 m1 h1 0)
                (\<lambda>(_, h2, m2). bindE (buf_write_u8 m2 h2 1)
                  (\<lambda>(_, h3, m3). bindE (buf_write_val m3 h3 (sin_addr to))
                    (\<lambda>(_, h4, m4). bindE (buf_write_val m4 h4 (sin_port to))
                      (\<lambda>(_, h5, m5). Inr (10, buf', m5))))))))"

end
