(* ===== verification/Socks_Laws.thy ===== *)
theory Socks_Laws
  imports Socks
begin

text \<open>
  The UDP header of the SOCKS client written through a sub-buffer that shares the packet's
  memory, its removal on the way back, and the receive loops: they stay inside their arrays
  for every answer of the proxy, and report success only on the replies they accept.
\<close>

section \<open>Writing the UDP header\<close>

text \<open>From the first memory to the second nothing changes but the \<open>n\<close> bytes at \<open>p\<close>.\<close>

definition writes_only :: "mem \<Rightarrow> mem \<Rightarrow> ptr \<Rightarrow> int \<Rightarrow> bool" where
  "writes_only m m' p n \<longleftrightarrow>
     (case p of
        Null \<Rightarrow> m' = m
      | Ptr k i \<Rightarrow>
          (\<forall>j. j \<noteq> k \<longrightarrow> blocks m' j = blocks m j) \<and>
          (\<forall>bs. blocks m k = Some bs \<longrightarrow>
             (\<exists>bs'. blocks m' k = Some bs' \<and> length bs' = length bs \<and>
                (\<forall>x < length bs. int x < i \<or> i + n \<le> int x \<longrightarrow> bs' ! x = bs ! x))))"

lemma writes_only_trans: "writes_only m m1 p n \<Longrightarrow> writes_only m1 m2 p n \<Longrightarrow> writes_only m m2 p n"
  by (cases p) (fastforce simp: writes_only_def)+

lemma write_bytes_only:
  assumes "write_bytes m (Ptr k (i + d)) xs = Inr m'" and "0 \<le> d" and "d + int (length xs) \<le> n"
  shows "writes_only m m' (Ptr k i) n"
proof (cases "xs = []")
  case False
  then obtain bs where bs: "blocks m k = Some bs" "0 \<le> i + d" "i + d + int (length xs) \<le> int (length bs)"
      "m' = m\<lparr>blocks := (blocks m)(k \<mapsto> overwrite bs (nat (i + d)) xs)\<rparr>"
    using assms(1) by (auto simp: write_bytes_def split: option.splits if_splits)
  have l: "nat (i + d) + length xs \<le> length bs" using bs(2,3) by linarith
  have "overwrite bs (nat (i + d)) xs ! x = bs ! x" if "int x < i \<or> i + n \<le> int x" "x < length bs" for x
    using that assms(2,3) l bs(2) by (simp add: nth_overwrite) linarith
  then show ?thesis using bs l by (auto simp: writes_only_def)
qed (use assms(1) in \<open>simp add: writes_only_def\<close>)

lemma header_write:
  assumes "buf_inv m h" and "b_offset h = 0" and "b_len h + int (length bs) \<le> b_capacity h"
    and "read_bytes m (ptr_add (b_data h) (b_capacity h)) n = Inr ys"
  defines "h' \<equiv> h\<lparr>b_len := b_len h + int (length bs)\<rparr>"
  shows "\<exists>m'. buf_write_val m h bs = Inr (True, h', m') \<and> buf_inv m' h' \<and>
           content m' h' = content m h @ bs \<and> read_bytes m' (ptr_add (b_data h) (b_capacity h)) n = Inr ys \<and>
           (\<forall>b. buf_inv m' b = buf_inv m b) \<and> writes_only m m' (b_data h) (b_capacity h)"
proof -
  have fit: "b_offset h + b_len h + int (length bs) \<le> b_capacity h" using assms(2,3) by simp
  obtain m' where m': "buf_write_val m h bs = Inr (True, h', m')"
      and w: "write_bytes m (ptr_add (buf_bptr h) (b_len h)) bs = Inr m'"
    using buf_write_val_fits [OF assms(1) fit] unfolding h'_def by blast
  have p: "ptr_add (buf_bptr h) (b_len h) = ptr_add (b_data h) (b_len h)"
    using assms(2) by (simp add: buf_inv_ptr [OF assms(1)])
  have "read_bytes m' (ptr_add (b_data h) (b_capacity h)) n = Inr ys"
    using write_disjoint_read [OF w [unfolded p] assms(4)] assms(3) by (cases "b_data h") auto
  moreover have "writes_only m m' (b_data h) (b_capacity h)"
  proof (cases "b_data h")
    case Null
    then show ?thesis using buf_inv_bptr_Null [OF assms(1)] buf_inv_ptr [OF assms(1)] by simp
  next
    case (Ptr k i)
    then show ?thesis using write_bytes_only [of m k i "b_len h" bs m' "b_capacity h"] w [unfolded p] assms(1,3)
      by (simp add: buf_inv_def)
  qed
  ultimately show ?thesis
    using m' content_append [OF assms(1) fit w] buf_inv_write [OF w] unfolding h'_def by blast
qed

definition udp_header :: "sockaddr_in \<Rightarrow> byte list" where
  "udp_header a = [0, 0, 0, 1] @ sin_addr a @ sin_port a"

lemma socks_process_outgoing_udp_spec:
  assumes "buf_inv m buf" and "10 \<le> b_offset buf" and "length (sin_addr to) = 4" and "length (sin_port to) = 2"
  shows "\<exists>buf' m'. socks_process_outgoing_udp m buf to = Inr (10, buf', m') \<and> buf_inv m' buf' \<and>
           b_offset buf' = b_offset buf - 10 \<and> b_data buf' = b_data buf \<and> content m' buf' = udp_header to @ content m buf \<and>
           writes_only m m' (buf_bptr buf') 10"
proof -
  obtain b' where b': "buf_prepend buf 10 = (b', buf_bptr b')" "buf_inv m b'"
      "b_offset b' = b_offset buf - 10" "b_len b' = b_len buf + 10" "b_data b' = b_data buf"
      "buf_bptr buf = ptr_add (buf_bptr b') 10" "room_at m (buf_bptr b') 10"
    using buf_prepend_spec(1) [OF assms(1), of 10] assms(2) by auto
  have pn: "buf_bptr b' \<noteq> Null" by (rule buf_inv_bptr_Null [OF b'(2)])
  let ?h = "\<lparr>b_capacity = 10, b_offset = 0, b_len = 0, b_data = buf_bptr b'\<rparr>"
  have sub: "buf_sub buf 10 True = (b', ?h)" using b'(1) pn by (simp add: buf_sub_def clear_buf_def)
  have ih: "buf_inv m ?h" using b'(7) by (simp add: buf_inv_def BUF_SIZE_MAX_def)
  have ch: "content m ?h = []" using read_content(2) [OF ih] by simp
  let ?q = "ptr_add (buf_bptr b') 10" and ?n = "b_len buf" and ?c = "content m buf"
  have tl: "read_bytes m ?q ?n = Inr ?c" using read_content(1) [OF assms(1)] b'(6) by simp
  let ?h1 = "?h\<lparr>b_len := 2\<rparr>" and ?h2 = "?h\<lparr>b_len := 3\<rparr>" and ?h3 = "?h\<lparr>b_len := 4\<rparr>"
    and ?h4 = "?h\<lparr>b_len := 8\<rparr>" and ?h5 = "?h\<lparr>b_len := 10\<rparr>"
  obtain m1 where m1: "buf_write_val m ?h [0, 0] = Inr (True, ?h1, m1)" "buf_inv m1 ?h1"
      "content m1 ?h1 = [0, 0]" "read_bytes m1 ?q ?n = Inr ?c" "\<forall>b. buf_inv m1 b = buf_inv m b" "writes_only m m1 (buf_bptr b') 10"
    using header_write [OF ih _ _, of "[0, 0]" ?n ?c] tl ch by auto
  obtain m2 where m2: "buf_write_val m1 ?h1 [0] = Inr (True, ?h2, m2)" "buf_inv m2 ?h2"
      "content m2 ?h2 = [0, 0, 0]" "read_bytes m2 ?q ?n = Inr ?c" "\<forall>b. buf_inv m2 b = buf_inv m1 b" "writes_only m1 m2 (buf_bptr b') 10"
    using header_write [OF m1(2) _ _, of "[0]" ?n ?c] m1(3,4) by auto
  obtain m3 where m3: "buf_write_val m2 ?h2 [1] = Inr (True, ?h3, m3)" "buf_inv m3 ?h3"
      "content m3 ?h3 = [0, 0, 0, 1]" "read_bytes m3 ?q ?n = Inr ?c" "\<forall>b. buf_inv m3 b = buf_inv m2 b" "writes_only m2 m3 (buf_bptr b') 10"
    using header_write [OF m2(2) _ _, of "[1]" ?n ?c] m2(3,4) by auto
  obtain m4 where m4: "buf_write_val m3 ?h3 (sin_addr to) = Inr (True, ?h4, m4)" "buf_inv m4 ?h4"
      "content m4 ?h4 = [0, 0, 0, 1] @ sin_addr to" "read_bytes m4 ?q ?n = Inr ?c" "\<forall>b. buf_inv m4 b = buf_inv m3 b" "writes_only m3 m4 (buf_bptr b') 10"
    using header_write [OF m3(2) _ _, of "sin_addr to" ?n ?c] m3(3,4) assms(3) by auto
  obtain m5 where m5: "buf_write_val m4 ?h4 (sin_port to) = Inr (True, ?h5, m5)" "buf_inv m5 ?h5"
      "content m5 ?h5 = udp_header to" "read_bytes m5 ?q ?n = Inr ?c" "\<forall>b. buf_inv m5 b = buf_inv m4 b" "writes_only m4 m5 (buf_bptr b') 10"
    using header_write [OF m4(2) _ _, of "sin_port to" ?n ?c] m4(3,4) assms(4) by (auto simp: udp_header_def)
  have i5: "buf_inv m5 b'" using b'(2) m1(5) m2(5) m3(5) m4(5) m5(5) by simp
  have "read_bytes m5 (buf_bptr b') 10 = Inr (udp_header to)"
  proof -
    have "buf_bptr ?h5 = buf_bptr b'" using buf_inv_ptr [OF m5(2)] by simp
    then show ?thesis using read_content(1) [OF m5(2)] m5(3) by simp
  qed
  then have "read_bytes m5 (buf_bptr b') (10 + ?n) = Inr (udp_header to @ ?c)"
    using m5(4) assms(1) by (intro read_bytes_join) (auto simp: buf_inv_def)
  then have "content m5 b' = udp_header to @ ?c"
    using b'(4) by (intro contentI [OF i5]) (simp add: add.commute)
  moreover have "socks_process_outgoing_udp m buf to = Inr (10, b', m5)"
    using m1(1) m2(1) m3(1) m4(1) m5(1) pn
    by (simp add: socks_process_outgoing_udp_def sub buf_defined_def buf_write_u16_def buf_write_u8_def be16_def)
  moreover have "writes_only m m5 (buf_bptr b') 10"
    using m1(6) m2(6) m3(6) m4(6) m5(6) writes_only_trans by blast
  ultimately show ?thesis using i5 b'(3,5) by blast
qed

section \<open>Removing it\<close>

lemma buf_read_u16_Cons:
  assumes "buf_inv m b" and "content m b = x # y # cs"
  shows "\<exists>v b'. buf_read_u16 m b = Inr (v, b') \<and> buf_inv m b' \<and> content m b' = cs"
  using buf_read_enough [OF assms(1), of 2] read_content(2) [OF assms(1)] assms(2)
  by (auto simp: buf_read_u16_def)

lemma buf_read_front:
  assumes "buf_inv m b" and "content m b = xs @ cs"
  shows "\<exists>b'. buf_read m b (int (length xs)) = Inr (Some xs, b') \<and> buf_inv m b' \<and> content m b' = cs"
  using buf_read_enough [OF assms(1), of "int (length xs)"] read_content(2) [OF assms(1)] assms(2) by auto

lemma socks_process_incoming_udp_spec:
  assumes "buf_inv m buf" and "content m buf = [r0, r1, 0, 1] @ a @ p @ payload" and "length a = 4" and "length p = 2"
  shows "\<exists>buf'. socks_process_incoming_udp m buf from = Inr (buf', from\<lparr>sin_addr := a, sin_port := p\<rparr>) \<and>
           buf_inv m buf' \<and> content m buf' = payload"
proof -
  have l: "\<not> buf_len buf < 10" using read_content(2) [OF assms(1)] assms by simp
  obtain v b1 where b1: "buf_read_u16 m buf = Inr (v, b1)" "buf_inv m b1" "content m b1 = [0, 1] @ a @ p @ payload"
    using buf_read_u16_Cons [OF assms(1), of r0 r1 "[0, 1] @ a @ p @ payload"] assms(2) by auto
  obtain b2 where b2: "buf_read_u8 m b1 = Inr (0, b2)" "buf_inv m b2" "content m b2 = [1] @ a @ p @ payload"
    using buf_read_u8_Cons [OF b1(2), of 0 "[1] @ a @ p @ payload"] b1(3) by auto
  obtain b3 where b3: "buf_read_u8 m b2 = Inr (1, b3)" "buf_inv m b3" "content m b3 = a @ p @ payload"
    using buf_read_u8_Cons [OF b2(2), of 1 "a @ p @ payload"] b2(3) by auto
  obtain b4 where b4: "buf_read m b3 4 = Inr (Some a, b4)" "buf_inv m b4" "content m b4 = p @ payload"
    using buf_read_front [OF b3(2,3)] assms(3) by auto
  obtain b5 where b5: "buf_read m b4 2 = Inr (Some p, b5)" "buf_inv m b5" "content m b5 = payload"
    using buf_read_front [OF b4(2,3)] assms(4) by auto
  show ?thesis
    using l b1(1) b2(1) b3(1) b4(1) b5
    by (simp add: socks_process_incoming_udp_def)
qed

text \<open>Anything else is dropped: the packet becomes empty.\<close>

lemma socks_process_incoming_udp_drop:
  assumes "buf_inv m buf" and "length (content m buf) < 10 \<or> content m buf ! 2 \<noteq> 0 \<or> content m buf ! 3 \<noteq> 1"
  shows "\<exists>buf'. socks_process_incoming_udp m buf from = Inr (buf', from) \<and> content m buf' = []"
proof -
  have drop0: "content m (b\<lparr>b_len := 0\<rparr>) = []" if "buf_inv m b" for b
    using content_b_len [OF that, of 0] that by (simp add: buf_inv_def)
  show ?thesis
  proof (cases "length (content m buf) < 10")
    case True
    then have "buf_len buf < 10" using read_content(2) [OF assms(1)] assms(1) by simp
    then show ?thesis using drop0 [OF assms(1)] by (simp add: socks_process_incoming_udp_def)
  next
    case False
    then have l: "\<not> buf_len buf < 10" using read_content(2) [OF assms(1)] assms(1) by simp
    obtain r0 c1 where c1: "content m buf = r0 # c1" using False by (cases "content m buf") auto
    obtain r1 c2 where c2: "c1 = r1 # c2" using False c1 by (cases c1) auto
    obtain f c3 where c3: "c2 = f # c3" using False c1 c2 by (cases c2) auto
    obtain t rest where "c3 = t # rest" using False c1 c2 c3 by (cases c3) auto
    with c1 c2 c3 have c: "content m buf = r0 # r1 # f # t # rest" by simp
    obtain v b1 where b1: "buf_read_u16 m buf = Inr (v, b1)" "buf_inv m b1" "content m b1 = f # t # rest"
      using buf_read_u16_Cons [OF assms(1) c] by auto
    obtain b2 where b2: "buf_read_u8 m b1 = Inr (uint f, b2)" "buf_inv m b2" "content m b2 = t # rest"
      using buf_read_u8_Cons [OF b1(2,3)] by auto
    obtain b3 where b3: "buf_read_u8 m b2 = Inr (uint t, b3)" "buf_inv m b3"
      using buf_read_u8_Cons [OF b2(2,3)] by auto
    have ft: "f \<noteq> 0 \<or> t \<noteq> 1" using assms(2) False c by simp
    show ?thesis
    proof (cases "f = 0")
      case True
      then have "uint f = 0" "uint t \<noteq> 1" using ft by (simp_all add: word_uint_eq_iff)
      then show ?thesis
        using l b1(1) b2(1) b3(1) drop0 [OF b3(2)]
        by (simp add: socks_process_incoming_udp_def)
    next
      case False
      then have "uint f \<noteq> 0" by (simp add: word_uint_eq_iff)
      then show ?thesis
        using l b1(1) b2(1) drop0 [OF b2(2)]
        by (simp add: socks_process_incoming_udp_def)
    qed
  qed
qed

section \<open>Receive loops\<close>

lemma reply_loop_total:
  assumes "length buf = 270" and "alen \<le> 256"
  shows "\<exists>r io'. reply_loop io atyp alen len buf = Inr (r, io') \<and>
           (\<forall>t b. r = Some (t, b) \<longrightarrow> length b = 270)"
  using assms
proof (induction io atyp alen len buf rule: reply_loop.induct)
  case (1 io atyp alen len buf)
  show ?case
  proof (cases "len < 4 + alen + 2")
    case False
    then show ?thesis using 1(2) by (subst reply_loop.simps) simp
  next
    case True
    show ?thesis
    proof (cases "recv_char io")
      case (Pair c io1)
      show ?thesis
      proof (cases c)
        case None
        then show ?thesis using True Pair by (subst reply_loop.simps) simp
      next
        case (Some c1)
        define atyp1 where "atyp1 = (if len = 3 then c1 else atyp)"
        define al where "al = (if len = 4 then (if atyp1 = 1 then Some 4 else if atyp1 = 3 then Some (unat c1 + 1)
            else if atyp1 = 4 then Some 16 else None) else Some alen)"
        have l: "len < 270" using True 1(3) by simp
        have step: "reply_loop io atyp alen len buf =
            (case al of None \<Rightarrow> Inr (None, io1)
             | Some a \<Rightarrow> reply_loop io1 atyp1 a (len + 1) (buf[len := c1]))"
          using True Pair Some l 1(2)
          by (subst reply_loop.simps) (simp add: arr_set_in atyp1_def al_def Let_def)
        show ?thesis
        proof (cases al)
          case None
          then show ?thesis by (simp add: step)
        next
          case al1: (Some a)
          have "unat c1 < 2 ^ LENGTH(8)" by (rule unsigned_less)
          then have "a \<le> 256" using al1 1(3) by (auto simp: al_def split: if_splits)
          moreover have "length (buf[len := c1]) = 270" using 1(2) by simp
          ultimately show ?thesis
            using 1(1) [OF _ Pair [symmetric] Some atyp1_def, of al a "buf[len := c1]"] True l 1(2) al1
            unfolding step by (simp add: al_def arr_set_in)
        qed
      qed
    qed
  qed
qed

lemma recv_socks_reply_total:
  assumes "length buf = 270"
  shows "\<exists>r a io'. recv_socks_reply io buf want = Inr ((r, a), io')"
proof -
  obtain r io1 where "reply_loop io 0 0 0 buf = Inr (r, io1)" "\<forall>t b. r = Some (t, b) \<longrightarrow> length b = 270"
    using reply_loop_total [OF assms, of 0 io 0 0] by auto
  then show ?thesis by (cases r) (auto simp: recv_socks_reply_def arr_get_def Let_def)
qed

section \<open>Every exchange returns\<close>

lemma snprintf_total:
  assumes "0 < n" and "n \<le> length arr"
  shows "\<exists>arr' ok. openvpn_snprintf arr n (Some t) = Inr (arr', ok)"
proof -
  have l: "length (vsnprintf_bytes (Some t) n) \<le> n" using assms(1) by (simp add: vsnprintf_bytes_def)
  then have "n - 1 < length (overwrite arr 0 (vsnprintf_bytes (Some t) n))" using assms by simp
  then show ?thesis using l assms by (simp add: openvpn_snprintf_def arr_set_in)
qed

lemma socks_auth_total:
  assumes "516 \<le> length arr"
  shows "\<exists>r io'. socks_username_password_auth creds arr io = Inr (r, io')"
proof (cases creds)
  case (Some c)
  obtain u p where c: "c = (u, p)" by (cases c)
  let ?msg = "[1, of_nat (length u)] @ u @ [of_nat (length p)] @ p"
  obtain arr' ok where "openvpn_snprintf arr 516 (Some ?msg) = Inr (arr', ok)"
    using snprintf_total [of 516 arr ?msg] assms by auto
  then show ?thesis
    by (auto simp: Some c socks_username_password_auth_def split: prod.splits option.splits)
qed (auto simp: socks_username_password_auth_def)

lemma socks_handshake_total:
  assumes "516 \<le> length arr" and "sp_authfile p \<noteq> []"
  shows "\<exists>r io'. socks_handshake p creds arr io = Inr (r, io')"
proof -
  have a: "arr_get (sp_authfile p) 0 = Inr (sp_authfile p ! 0)" using assms(2) by (simp add: arr_get_def)
  have t: "\<exists>r io'. bindE (socks_username_password_auth creds arr io1) (\<lambda>(ok, io3). if \<not> ok then Inr (False, io3) else Inr (True, io3)) = Inr (r, io')" for io1
    using socks_auth_total [OF assms(1), of creds io1] by auto
  show ?thesis
    using t by (auto simp: socks_handshake_def a Let_def split: prod.splits option.splits)
qed

lemma socks_error_signal: "cn_signal (socks_error io) \<noteq> 0"
  by (simp add: socks_error_def signum_defs)

text \<open>
  The bytes that come in before the first signal, timeout or error, and how long the reply is that
  starts with them (at most 262 bytes), once the first five are there.
\<close>

fun incoming :: "io_event list \<Rightarrow> byte list" where
  "incoming [] = []"
| "incoming (e # es) =
     (if ev_signal e \<noteq> 0 \<or> ev_status e \<le> 0 then []
      else (case ev_recv e of None \<Rightarrow> [] | Some c \<Rightarrow> c # incoming es))"

definition reply_length :: "byte list \<Rightarrow> nat option" where
  "reply_length bs =
     (if length bs < 5 then None
      else if bs ! 3 = 1 then Some 10
      else if bs ! 3 = 3 then Some (4 + (unat (bs ! 4) + 1) + 2)
      else if bs ! 3 = 4 then Some 22
      else None)"

lemma recv_char_incoming:
  "recv_char io = (None, io1) \<Longrightarrow> incoming (cn_events io) = [] \<and> cn_events io1 = drop (min 1 (length (cn_events io))) (cn_events io)"
  "recv_char io = (Some c, io1) \<Longrightarrow> incoming (cn_events io) = c # incoming (cn_events io1) \<and>
     cn_events io1 = drop 1 (cn_events io) \<and> cn_events io \<noteq> []"
  by (auto simp: recv_char_def Let_def split: list.splits if_splits)

lemma reply_length_append: "5 \<le> length bs \<Longrightarrow> reply_length (bs @ cs) = reply_length bs"
  by (auto simp: reply_length_def nth_append)

lemma reply_length_bound: "reply_length bs = Some n \<Longrightarrow> n \<le> 262"
proof -
  assume a: "reply_length bs = Some n"
  have "unat (bs ! 4) < 2 ^ LENGTH(8)" by (rule unsigned_less)
  then show ?thesis using a by (auto simp: reply_length_def split: if_splits)
qed

text \<open>
  What the loop returns when \<open>bs\<close> are all the bytes that come in, if it has taken \<open>len\<close> of them before
  and now takes \<open>j\<close> turns.
\<close>

definition reply_result :: "nat \<Rightarrow> byte list \<Rightarrow> (byte \<times> byte list) option \<Rightarrow> nat \<Rightarrow> bool" where
  "reply_result len bs r j \<longleftrightarrow>
     (case reply_length bs of
        None \<Rightarrow> r = None
      | Some n \<Rightarrow> if n \<le> length bs
                  then len + j = n \<and> (case r of None \<Rightarrow> False | Some (t, b) \<Rightarrow> t = bs ! 3 \<and> length b = 270 \<and> take n b = take n bs)
                  else r = None)"

lemma reply_result_next: "reply_result (len + 1) bs r j \<Longrightarrow> reply_result len bs r (j + 1)"
  by (auto simp: reply_result_def split: option.splits if_splits)

lemma reply_loop_correct:
  assumes "length buf = 270" and "len = length ps" and "take len buf = ps" and "len \<le> 262"
    and "if len < 5 then alen = 0 else reply_length ps = Some (4 + alen + 2) \<and> len \<le> 4 + alen + 2"
    and "4 \<le> len \<longrightarrow> atyp = ps ! 3"
  shows "\<exists>r io' j. reply_loop io atyp alen len buf = Inr (r, io') \<and> cn_events io' = drop j (cn_events io) \<and> len + j \<le> 262 \<and>
     reply_result len (ps @ incoming (cn_events io)) r j"
  using assms
proof (induction "length (cn_events io)" arbitrary: io atyp alen len buf ps rule: less_induct)
  case less
  note a = less.prems
  let ?bs = "ps @ incoming (cn_events io)"
  show ?case
  proof (cases "len < 4 + alen + 2")
    case False
    then have l: "5 \<le> len" "len = 4 + alen + 2" "reply_length ps = Some len" using a(5) by (auto split: if_splits)
    then have "reply_length ?bs = Some len" using reply_length_append [of ps] a(2) by simp
    moreover have "reply_loop io atyp alen len buf = Inr (Some (atyp, buf), io)" using False by (subst reply_loop.simps) simp
    moreover have "?bs ! 3 = atyp" using a(2,6) l(1) by (simp add: nth_append)
    ultimately show ?thesis using a(1-4) by (intro exI [of _ "Some (atyp, buf)"] exI [of _ io] exI [of _ 0]) (auto simp: reply_result_def)
  next
    case True
    have lt: "len < 262" using True a(4,5) reply_length_bound [of ps] by (auto split: if_splits)
    show ?thesis
    proof (cases "recv_char io")
      case (Pair c io1)
      show ?thesis
      proof (cases c)
        case None
        note i = recv_char_incoming(1) [OF Pair [unfolded None]]
        have "reply_loop io atyp alen len buf = Inr (None, io1)" using True Pair None by (subst reply_loop.simps) simp
        moreover have "reply_result len ps None j" for j
        proof (cases "len < 5")
          case True
          then show ?thesis using a(2) by (simp add: reply_result_def reply_length_def)
        next
          case False
          then show ?thesis using a(2,5) True by (simp add: reply_result_def)
        qed
        ultimately show ?thesis
          using i lt by (intro exI [of _ None] exI [of _ io1] exI [of _ "min 1 (length (cn_events io))"]) simp
      next
        case (Some c1)
        note i = recv_char_incoming(2) [OF Pair [unfolded Some]]
        define atyp1 where "atyp1 = (if len = 3 then c1 else atyp)"
        define al where "al = (if len = 4 then (if atyp1 = 1 then Some 4 else if atyp1 = 3 then Some (unat c1 + 1)
            else if atyp1 = 4 then Some 16 else None) else Some alen)"
        have step: "reply_loop io atyp alen len buf =
            (case al of None \<Rightarrow> Inr (None, io1)
             | Some x \<Rightarrow> reply_loop io1 atyp1 x (len + 1) (buf[len := c1]))"
          using True Pair Some lt a(1)
          by (subst reply_loop.simps) (simp add: arr_set_in atyp1_def al_def Let_def)
        let ?qs = "ps @ [c1]"
        have b: "?bs = ?qs @ incoming (cn_events io1)" using i by simp
        have t4: "4 \<le> len + 1 \<longrightarrow> atyp1 = ?qs ! 3" using a(2,6) by (auto simp: atyp1_def nth_append)
        have rl: "len = 4 \<Longrightarrow> reply_length ?qs = map_option (\<lambda>x. 4 + x + 2) al"
          using t4 a(2) by (auto simp: reply_length_def al_def nth_append)
        show ?thesis
        proof (cases al)
          case None
          then have "len = 4" by (simp add: al_def split: if_splits)
          then have "reply_length ?bs = None" using rl None reply_length_append [of ?qs] a(2) b by simp
          then show ?thesis
            using None step i lt by (intro exI [of _ None] exI [of _ io1] exI [of _ 1]) (simp add: reply_result_def)
        next
          case al1: (Some x)
          have len5: "if len + 1 < 5 then x = 0 else reply_length ?qs = Some (4 + x + 2) \<and> len + 1 \<le> 4 + x + 2"
          proof (cases "len < 4")
            case True
            then show ?thesis using a(5) al1 by (simp add: al_def)
          next
            case ge: False
            show ?thesis
            proof (cases "len = 4")
              case True
              then show ?thesis using rl al1 by simp
            next
              case False
              then have "5 \<le> len" "x = alen" using ge al1 by (simp_all add: al_def)
              then show ?thesis using a(2,5) \<open>len < 4 + alen + 2\<close> reply_length_append [of ps "[c1]"] by simp
            qed
          qed
          have tk: "take (len + 1) (buf[len := c1]) = ?qs"
            using a(1,2,3) lt by (simp add: take_Suc_conv_app_nth)
          have "\<exists>r io' j. reply_loop io1 atyp1 x (len + 1) (buf[len := c1]) = Inr (r, io') \<and>
              cn_events io' = drop j (cn_events io1) \<and> len + 1 + j \<le> 262 \<and>
              reply_result (len + 1) (?qs @ incoming (cn_events io1)) r j"
            by (rule less.hyps) (use recv_char_events [OF Pair [unfolded Some]] a(1,2) tk lt len5 t4 in simp_all)
          then obtain r io' j where r: "reply_loop io1 atyp1 x (len + 1) (buf[len := c1]) = Inr (r, io')"
              "cn_events io' = drop j (cn_events io1)" "len + 1 + j \<le> 262" "reply_result (len + 1) ?bs r j"
            unfolding b by blast
          have "cn_events io' = drop (j + 1) (cn_events io)" using r(2) i by simp
          then show ?thesis
            using r(1,3) step al1 reply_result_next [OF r(4)]
            by (intro exI [of _ r] exI [of _ io'] exI [of _ "j + 1"]) simp
        qed
      qed
    qed
  qed
qed

text \<open>What \<open>recv_socks_reply\<close> says of the bytes that came in.\<close>

definition reply_accepted :: "byte list \<Rightarrow> bool" where
  "reply_accepted bs \<longleftrightarrow>
     (case reply_length bs of None \<Rightarrow> False | Some n \<Rightarrow> n \<le> length bs \<and> bs ! 0 = 5 \<and> bs ! 1 = 0)"

definition reply_address :: "byte list \<Rightarrow> sockaddr_in" where
  "reply_address bs =
     (if reply_accepted bs \<and> bs ! 3 = 1 then \<lparr>sin_addr = take 4 (drop 4 bs), sin_port = take 2 (drop 8 bs)\<rparr>
      else \<lparr>sin_addr = [0, 0, 0, 0], sin_port = [0, 0]\<rparr>)"

lemma recv_socks_reply_exact:
  assumes "length buf = 270"
  defines "bs \<equiv> (\<lambda>io. incoming (cn_events io))"
  shows "\<exists>io' j. recv_socks_reply io buf want =
       Inr ((reply_accepted (bs io), if want then Some (reply_address (bs io)) else None), io') \<and>
     cn_events io' = drop j (cn_events io) \<and> j \<le> 262 \<and>
     (reply_accepted (bs io) \<longrightarrow> reply_length (bs io) = Some j)"
proof -
  let ?b = "incoming (cn_events io)"
  obtain r io' j where l: "reply_loop io 0 0 0 buf = Inr (r, io')" "cn_events io' = drop j (cn_events io)" "0 + j \<le> 262"
     "reply_result 0 ?b r j"
    using reply_loop_correct [of buf 0 "[]" 0 0 io] assms by auto
  show ?thesis
  proof (cases r)
    case None
    then have "\<not> reply_accepted ?b" using l(4) by (auto simp: reply_accepted_def reply_result_def split: option.splits if_splits)
    then show ?thesis using l(1-3) None unfolding bs_def
      by (intro exI [of _ io'] exI [of _ j]) (simp add: recv_socks_reply_def Let_def reply_address_def)
  next
    case (Some q)
    then obtain b where b: "reply_length ?b = Some j" "j \<le> length ?b" "q = (?b ! 3, b)" "length b = 270" "take j b = take j ?b"
      using l(4) by (auto simp: reply_result_def split: option.splits if_splits)
    have j: "7 \<le> j" "?b ! 3 = 1 \<Longrightarrow> j = 10" using b(1) by (auto simp: reply_length_def split: if_splits)
    have n: "b ! k = ?b ! k" if "k < j" for k using that b(5) nth_take by metis
    have e: "take 4 (drop 4 b) = take 4 (drop 4 ?b)" "take 2 (drop 8 b) = take 2 (drop 8 ?b)" if "?b ! 3 = 1"
    proof -
      have t: "take 10 b = take 10 ?b" using b(5) j(2) [OF that] by simp
      have "take 4 (drop 4 xs) = take 4 (drop 4 (take 10 xs))" "take 2 (drop 8 xs) = take 2 (drop 8 (take 10 xs))" for xs :: "byte list"
        by (simp_all add: drop_take)
      then show "take 4 (drop 4 b) = take 4 (drop 4 ?b)" "take 2 (drop 8 b) = take 2 (drop 8 ?b)" using t by metis+
    qed
    have acc: "reply_accepted ?b \<longleftrightarrow> b ! 0 = 5 \<and> b ! 1 = 0" using b(1,2) n [of 0] n [of 1] j(1) by (simp add: reply_accepted_def)
    have "recv_socks_reply io buf want =
        Inr ((reply_accepted ?b, if want then Some (reply_address ?b) else None), io')"
      using l(1) Some b(3,4) acc e by (auto simp: recv_socks_reply_def Let_def arr_get_def reply_address_def)
    then show ?thesis using l(2,3) b(1) unfolding bs_def by (intro exI [of _ io'] exI [of _ j]) simp
  qed
qed

section \<open>Where a signal comes from\<close>

text \<open>Receiving only takes events away and leaves the signal of one of them, or none.\<close>

definition runs_on :: "conn \<Rightarrow> conn \<Rightarrow> bool" where
  "runs_on io io' \<longleftrightarrow> set (cn_events io') \<subseteq> set (cn_events io) \<and>
     cn_signal io' \<in> insert (cn_signal io) (ev_signal ` set (cn_events io))"

lemma runs_on_refl: "runs_on io io"
  by (simp add: runs_on_def)

lemma runs_on_trans: "runs_on a b \<Longrightarrow> runs_on b c \<Longrightarrow> runs_on a c"
  by (auto simp: runs_on_def)

lemma send_runs_on: "sock_send io bs = (n, io') \<Longrightarrow> runs_on io io'"
  by (auto simp: sock_send_def runs_on_def split: list.splits)

lemma recv_runs_on: "recv_char io = (r, io') \<Longrightarrow> runs_on io io'"
  by (auto simp: recv_char_def runs_on_def Let_def split: list.splits if_splits)

lemma recv_two_runs_on: "recv_two io = (r, io') \<Longrightarrow> runs_on io io'"
proof -
  assume a: "recv_two io = (r, io')"
  obtain x io1 where 1: "recv_char io = (x, io1)" by (cases "recv_char io")
  obtain y io2 where 2: "recv_char io1 = (y, io2)" by (cases "recv_char io1")
  have "io' = io1 \<or> io' = io2" using a 1 2 by (auto simp: recv_two_def split: option.splits)
  then show ?thesis using recv_runs_on [OF 1] recv_runs_on [OF 2] runs_on_trans by blast
qed

lemma reply_loop_runs_on: "reply_loop io atyp alen len buf = Inr (r, io') \<Longrightarrow> runs_on io io'"
proof (induction "length (cn_events io)" arbitrary: io atyp alen len buf rule: less_induct)
  case less
  show ?case
  proof (cases "len < 4 + alen + 2")
    case False
    then have "io' = io" using less.prems by (subst (asm) reply_loop.simps) simp
    then show ?thesis by (simp add: runs_on_refl)
  next
    case True
    show ?thesis
    proof (cases "recv_char io")
      case (Pair c io1)
      have r: "runs_on io io1" using recv_runs_on [OF Pair] .
      have "io' = io1 \<or> (\<exists>at al l b. c \<noteq> None \<and> reply_loop io1 at al l b = Inr (r, io'))"
        using less.prems True Pair
        by (subst (asm) reply_loop.simps)
          (auto simp: Let_def bindE_Inr_iff split: option.splits if_splits)
      then show ?thesis
        using r less.hyps [of io1] recv_char_events [of io _ io1] Pair runs_on_trans by blast
    qed
  qed
qed

lemma reply_runs_on: "recv_socks_reply io buf want = Inr (x, io') \<Longrightarrow> runs_on io io'"
proof -
  assume a: "recv_socks_reply io buf want = Inr (x, io')"
  show ?thesis
  proof (cases "reply_loop io 0 0 0 buf")
    case (Inr p)
    obtain q io1 where p: "p = (q, io1)" by (cases p)
    have "io' = io1"
    proof (cases q)
      case None
      then show ?thesis using a Inr p by (simp add: recv_socks_reply_def Let_def)
    next
      case (Some tb)
      obtain t b where tb: "tb = (t, b)" by (cases tb)
      show ?thesis using a Inr p Some tb
        by (cases "arr_get b 0"; cases "arr_get b 1") (auto simp: recv_socks_reply_def Let_def split: if_splits)
    qed
    then show ?thesis using reply_loop_runs_on [of io 0 0 0 buf q io1] Inr p by simp
  qed (use a in \<open>simp add: recv_socks_reply_def Let_def\<close>)
qed

text \<open>A reply that is accepted ends with a turn without a signal.\<close>

lemma recv_char_signal: "recv_char io = (Some c, io') \<Longrightarrow> cn_signal io' = 0"
  by (auto simp: recv_char_def Let_def split: list.splits if_splits)

lemma reply_loop_signal:
  "reply_loop io atyp alen len buf = Inr (Some tb, io') \<Longrightarrow> len < 4 + alen + 2 \<or> cn_signal io = 0 \<Longrightarrow> cn_signal io' = 0"
proof (induction "length (cn_events io)" arbitrary: io atyp alen len buf rule: less_induct)
  case less
  show ?case
  proof (cases "len < 4 + alen + 2")
    case False
    then have "io' = io" using less.prems(1) by (subst (asm) reply_loop.simps) simp
    then show ?thesis using less.prems(2) False by simp
  next
    case True
    obtain c io1 where rc: "recv_char io = (c, io1)" by (cases "recv_char io")
    have "\<exists>at al l b c1. c = Some c1 \<and> reply_loop io1 at al l b = Inr (Some tb, io')"
      using less.prems(1) True rc
      by (subst (asm) reply_loop.simps) (auto simp: Let_def bindE_Inr_iff split: option.splits if_splits)
    then show ?thesis
      using less.hyps [of io1] recv_char_events [of io _ io1] recv_char_signal [of io _ io1] rc by blast
  qed
qed

lemma reply_success_signal: "recv_socks_reply io buf want = Inr ((True, a), io') \<Longrightarrow> cn_signal io' = 0"
proof -
  assume a: "recv_socks_reply io buf want = Inr ((True, a), io')"
  show ?thesis
  proof (cases "reply_loop io 0 0 0 buf")
    case (Inr p)
    obtain q io1 where p: "p = (q, io1)" by (cases p)
    show ?thesis
    proof (cases q)
      case None
      then show ?thesis using a Inr p by (simp add: recv_socks_reply_def Let_def)
    next
      case (Some tb)
      obtain t b where tb: "tb = (t, b)" by (cases tb)
      have "io' = io1" using a Inr p Some tb
        by (cases "arr_get b 0"; cases "arr_get b 1") (auto simp: recv_socks_reply_def Let_def split: if_splits)
      then show ?thesis using reply_loop_signal [of io 0 0 0 buf tb io1] Inr p Some by simp
    qed
  qed (use a in \<open>simp add: recv_socks_reply_def Let_def\<close>)
qed

lemma auth_runs_on: "socks_username_password_auth creds arr io = Inr (r, io') \<Longrightarrow> runs_on io io'"
proof -
  assume a: "socks_username_password_auth creds arr io = Inr (r, io')"
  show ?thesis
  proof (cases "\<exists>u p. creds = Some (u, p) \<and> length u \<le> 255 \<and> length p \<le> 255")
    case True
    then obtain arr' where "(case sock_send io (c_string arr') of
                 (sz, io1) \<Rightarrow>
                   if sz \<noteq> int (length (c_string arr')) then Inr (False, io1)
                   else (case recv_two io1 of
                           (None, io2) \<Rightarrow> Inr (False, io2)
                         | (Some (b0, b1), io2) \<Rightarrow>
                             if b0 \<noteq> 5 \<and> b1 \<noteq> 0 then Inr (False, io2) else Inr (True, io2))) = (Inr (r, io') :: fault + bool \<times> conn)"
      using a by (auto simp: socks_username_password_auth_def bindE_Inr_iff)
    moreover obtain sz io1 where s: "sock_send io (c_string arr') = (sz, io1)" by (cases "sock_send io (c_string arr')")
    moreover obtain q io2 where q: "recv_two io1 = (q, io2)" by (cases "recv_two io1")
    ultimately have "io' = io1 \<or> io' = io2" by (auto split: if_splits option.splits)
    then show ?thesis using send_runs_on [OF s] recv_two_runs_on [OF q] runs_on_trans by blast
  next
    case False
    then have "io' = io" using a by (auto simp: socks_username_password_auth_def split: option.splits if_splits)
    then show ?thesis by (simp add: runs_on_refl)
  qed
qed

lemma handshake_runs_on: "socks_handshake p creds arr io = Inr (r, io') \<Longrightarrow> runs_on io io'"
proof -
  assume a: "socks_handshake p creds arr io = Inr (r, io')"
  then obtain a0 where g: "arr_get (sp_authfile p) 0 = Inr a0" by (auto simp: socks_handshake_def bindE_Inr_iff)
  let ?sel = "[5, 1, if a0 \<noteq> 0 then 2 else 0]"
  obtain sz io1 where s: "sock_send io ?sel = (sz, io1)" by (cases "sock_send io ?sel")
  obtain q io2 where q: "recv_two io1 = (q, io2)" by (cases "recv_two io1")
  have "io' = io1 \<or> io' = io2 \<or> (\<exists>ok. socks_username_password_auth creds arr io2 = Inr (ok, io'))"
    using a unfolding socks_handshake_def g bindE_simps Let_def s prod.case q
    by (auto simp: bindE_Inr_iff split: if_splits option.splits)
  then show ?thesis
    using send_runs_on [OF s] recv_two_runs_on [OF q] auth_runs_on runs_on_trans by metis
qed

lemma c_string_overwrite:
  "is_cstr s \<Longrightarrow> length s < n \<Longrightarrow> n \<le> length arr \<Longrightarrow>
     c_string ((overwrite arr 0 (s @ [NUL]))[n - 1 := NUL]) = s"
proof -
  assume a: "is_cstr s" "length s < n" "n \<le> length arr"
  show ?thesis
  proof (cases "n - 1 = length s")
    case True
    then show ?thesis using a(1) by (simp add: overwrite_def list_update_append)
  next
    case False
    define k where "k = n - 2 - length s"
    have k: "n - 1 = length (s @ [NUL]) + k" using False a(2) by (simp add: k_def)
    have e: "overwrite arr 0 (s @ [NUL]) = (s @ [NUL]) @ drop (Suc (length s)) arr" by (simp add: overwrite_def)
    have "(overwrite arr 0 (s @ [NUL]))[n - 1 := NUL] = (s @ [NUL]) @ (drop (Suc (length s)) arr)[k := NUL]"
      unfolding e k by (simp only: list_update_append) simp
    then show ?thesis using a(1) by simp
  qed
qed

section \<open>Properties\<close>

text \<open>
  C17: A packet sent through the proxy and received again is the same packet from the same
  address: removing the 10-byte header that was prepended restores the payload and yields the
  address and port. The buffer needs 10 bytes of headroom and the address is an IPv4 address. Adding
  the header writes only the 10 bytes in front of the packet: every other byte of the block and
  every other block of the memory is as before.
\<close>

theorem socks_udp_roundtrip:
  assumes "buf_inv m buf" and "10 \<le> b_offset buf" and "length (sin_addr to) = 4" and "length (sin_port to) = 2"
  shows "\<exists>buf' m' buf''. socks_process_outgoing_udp m buf to = Inr (10, buf', m') \<and>
           b_data buf' = b_data buf \<and> b_offset buf' = b_offset buf - 10 \<and> writes_only m m' (buf_bptr buf') 10 \<and>
           socks_process_incoming_udp m' buf' from = Inr (buf'', from\<lparr>sin_addr := sin_addr to, sin_port := sin_port to\<rparr>) \<and>
           buf_inv m' buf'' \<and> content m' buf'' = content m buf"
proof -
  obtain buf' m' where o: "socks_process_outgoing_udp m buf to = Inr (10, buf', m')" "buf_inv m' buf'"
      "b_offset buf' = b_offset buf - 10" "b_data buf' = b_data buf" "content m' buf' = udp_header to @ content m buf"
      "writes_only m m' (buf_bptr buf') 10"
    using socks_process_outgoing_udp_spec [OF assms] by blast
  have c: "content m' buf' = [0, 0, 0, 1] @ sin_addr to @ sin_port to @ content m buf"
    using o(5) by (simp add: udp_header_def)
  show ?thesis using socks_process_incoming_udp_spec [OF o(2) c assms(3,4)] o by blast
qed

theorem socks_udp_roundtrip_witness:
  "\<exists>buf' m' buf''.
     socks_process_outgoing_udp (snd (c_calloc empty_mem 16)) \<lparr>b_capacity = 16, b_offset = 12, b_len = 4, b_data = Ptr 0 0\<rparr>
       \<lparr>sin_addr = [10, 0, 0, 1], sin_port = [4, 170]\<rparr> = Inr (10, buf', m') \<and>
     socks_process_incoming_udp m' buf' \<lparr>sin_addr = [], sin_port = []\<rparr> =
       Inr (buf'', \<lparr>sin_addr = [10, 0, 0, 1], sin_port = [4, 170]\<rparr>)"
proof -
  have i: "buf_inv (snd (c_calloc empty_mem 16)) \<lparr>b_capacity = 16, b_offset = 12, b_len = 4, b_data = Ptr 0 0\<rparr>"
    using whole_block_inv [of 16 12 4] by (simp add: BUF_SIZE_MAX_def)
  show ?thesis
    using socks_udp_roundtrip [OF i, of "\<lparr>sin_addr = [10, 0, 0, 1], sin_port = [4, 170]\<rparr>" "\<lparr>sin_addr = [], sin_port = []\<rparr>"]
    by auto
qed

text \<open>
  A datagram from the proxy is accepted exactly when it has a full header without fragment
  number and with an IPv4 address; then the payload is what follows the header, and otherwise
  the buffer is emptied and the address left alone.
\<close>

lemma socks_incoming_exact:
  assumes "buf_inv m buf" and "c = content m buf"
  shows "\<exists>buf'. socks_process_incoming_udp m buf from =
           Inr (buf', if 10 \<le> length c \<and> c ! 2 = 0 \<and> c ! 3 = 1
                      then from\<lparr>sin_addr := take 4 (drop 4 c), sin_port := take 2 (drop 8 c)\<rparr> else from) \<and>
         content m buf' = (if 10 \<le> length c \<and> c ! 2 = 0 \<and> c ! 3 = 1 then drop 10 c else [])"
proof (cases "10 \<le> length c \<and> c ! 2 = 0 \<and> c ! 3 = 1")
  case True
  then have l: "4 \<le> length c" by simp
  have "c = take 4 c @ take 4 (drop 4 c) @ take 2 (drop 8 c) @ drop 10 c"
    using append_take_drop_id [of 4 c] append_take_drop_id [of 4 "drop 4 c"] append_take_drop_id [of 2 "drop 8 c"] by simp
  moreover have "take 4 c = [c ! 0, c ! 1, 0, 1]"
    using l True by (auto intro!: nth_equalityI simp: less_Suc_eq numeral_eq_Suc)
  ultimately have "content m buf = [c ! 0, c ! 1, 0, 1] @ take 4 (drop 4 c) @ take 2 (drop 8 c) @ drop 10 c"
    using assms(2) by metis
  from socks_process_incoming_udp_spec [OF assms(1) this, of "from"] show ?thesis using True by auto
next
  case False
  then have "length (content m buf) < 10 \<or> content m buf ! 2 \<noteq> 0 \<or> content m buf ! 3 \<noteq> 1" using assms(2) by auto
  from socks_process_incoming_udp_drop [OF assms(1) this, of "from"] show ?thesis unfolding if_not_P [OF False] .
qed

text \<open>
  C40: Reading the proxy's reply never indexes outside the 270-byte array and takes at most 262 turns,
  however many bytes are waiting. It reports success exactly if the bytes that come in before the
  first signal, timeout or error are at least one whole reply, whose length follows from its address
  type (the fourth byte: IPv4, a name with its length byte, or IPv6) and whose first two bytes
  are version 5 and status 0; then exactly the bytes of this reply are taken. An address that was asked
  for is the one in the reply if that is an accepted IPv4 reply, and zero otherwise.
\<close>

theorem socks_reply_checked:
  assumes "length buf = 270"
  shows "\<exists>io' j. recv_socks_reply io buf want =
       Inr ((reply_accepted (incoming (cn_events io)),
             if want then Some (reply_address (incoming (cn_events io))) else None), io') \<and>
     cn_events io' = drop j (cn_events io) \<and> j \<le> 262 \<and>
     (reply_accepted (incoming (cn_events io)) \<longrightarrow> reply_length (incoming (cn_events io)) = Some j)"
  using recv_socks_reply_exact [OF assms] .

definition example_reply :: conn where
  "example_reply = \<lparr>cn_events = map (\<lambda>c. \<lparr>ev_status = 1, ev_signal = 0, ev_recv = Some c\<rparr>) [5, 0, 0, 1, 10, 0, 0, 7, 4, 170, 99],
     cn_sends = [], cn_sent = [], cn_signal = 0\<rparr>"

theorem socks_reply_checked_witness:
  "\<exists>io'. recv_socks_reply example_reply (replicate 270 0) True =
     Inr ((True, Some \<lparr>sin_addr = [10, 0, 0, 7], sin_port = [4, 170]\<rparr>), io') \<and> length (cn_events io') = 1"
proof -
  have b: "incoming (cn_events example_reply) = [5, 0, 0, 1, 10, 0, 0, 7, 4, 170, 99]" by (simp add: example_reply_def)
  show ?thesis
    using socks_reply_checked [of "replicate 270 0" example_reply True] unfolding b
    by (auto simp: reply_accepted_def reply_address_def reply_length_def) (simp add: example_reply_def)
qed

text \<open>
  C38: With a user name and a password of 1 to 255 characters the authentication sends exactly
  the message of RFC 1929, but it accepts any two-byte reply unless both bytes are wrong: a
  refusal (nonzero status) with version byte 5 is taken for a success.
\<close>

theorem socks_auth_accepts_refusal:
  assumes "is_cstr u" and "is_cstr p" and "0 < length u" and "length u \<le> 255" and "0 < length p" and "length p \<le> 255"
    and "length arr = 516" and "cn_sends io = []" and "0 < s" and "0 < t"
    and "cn_events io = \<lparr>ev_status = s, ev_signal = 0, ev_recv = Some b0\<rparr> #
                        \<lparr>ev_status = t, ev_signal = 0, ev_recv = Some b1\<rparr> # es"
  shows "\<exists>io'. socks_username_password_auth (Some (u, p)) arr io = Inr (b0 = 5 \<or> b1 = 0, io') \<and>
           cn_sent io' = cn_sent io @ [[1, of_nat (length u)] @ u @ [of_nat (length p)] @ p] \<and> cn_events io' = es"
proof -
  let ?msg = "[1, of_nat (length u)] @ u @ [of_nat (length p)] @ p"
  have "unat (of_nat n :: byte) = n" if "n \<le> 255" for n using that by (simp add: unat_of_nat)
  then have nz: "(of_nat n :: byte) \<noteq> 0" if "0 < n" "n \<le> 255" for n using that by (metis unat_0 less_irrefl)
  have c: "is_cstr ?msg" using assms(1,2) nz [OF assms(3,4)] nz [OF assms(5,6)] by simp
  have l: "length ?msg < 516" using assms(4,6) by simp
  have "openvpn_snprintf arr 516 (Some ?msg) = Inr ((overwrite arr 0 (?msg @ [NUL]))[516 - 1 := NUL], True)"
    using assms(4,6,7) by (simp add: openvpn_snprintf_def vsnprintf_bytes_def vsnprintf_ret_def arr_set_in)
  moreover have "c_string ((overwrite arr 0 (?msg @ [NUL]))[516 - 1 := NUL]) = ?msg"
    using c l assms(7) by (intro c_string_overwrite) simp_all
  ultimately show ?thesis
    using assms(4,6,8-11)
    by (auto simp: socks_username_password_auth_def sock_send_def recv_two_def recv_char_def Let_def)
qed

theorem socks_auth_accepts_refusal_witness:
  "\<exists>io'. socks_username_password_auth (Some (asc ''joe'', asc ''pw'')) (replicate 516 0)
     \<lparr>cn_events = [\<lparr>ev_status = 1, ev_signal = 0, ev_recv = Some 5\<rparr>, \<lparr>ev_status = 1, ev_signal = 0, ev_recv = Some 1\<rparr>],
      cn_sends = [], cn_sent = [], cn_signal = 0\<rparr> = Inr (True, io')"
  using socks_auth_accepts_refusal [of "asc ''joe''" "asc ''pw''" "replicate 516 0"
      "\<lparr>cn_events = [\<lparr>ev_status = 1, ev_signal = 0, ev_recv = Some 5\<rparr>, \<lparr>ev_status = 1, ev_signal = 0, ev_recv = Some 1\<rparr>],
        cn_sends = [], cn_sent = [], cn_signal = 0\<rparr>" 1 1 5 1 "[]"]
  by (auto simp: asc_def is_cstr_def)

text \<open>
  The connect request fits its 270-byte array for every host name and carries the port in
  network byte order, but its length byte tells the length of the host name it carries only up
  to 255 characters; a longer name is sent with a wrong length.
\<close>

definition connect_message :: "cstr \<Rightarrow> int \<Rightarrow> byte list" where
  "connect_message host port =
     [5, 1, 0, 3, of_nat (min (length host) 263)] @ take 263 host @
     [word_of_int (drop_bit 8 port), word_of_int (port AND 0xFF)]"

lemma connect_request_spec:
  assumes "length arr = 270"
  obtains arr1 arr2 where "connect_request arr host = Inr (min (length host) 263, arr1)"
    and "connect_request_port arr1 (min (length host) 263) port = Inr arr2"
    and "arr_take arr2 (5 + min (length host) 263 + 2) = Inr (connect_message host port)"
proof -
  define n where "n = min (length host) 263"
  have n: "(if 5 + length host + 2 > 270 then 270 - 5 - 2 else length host) = n" "n \<le> 263" "n \<le> length host"
      "take n host = take 263 host"
    by (auto simp: n_def min_def)
  define a4 where "a4 = arr[0 := 5, Suc 0 := 1, 2 := 0, 3 := 3, 4 := (of_nat n :: byte)]"
  define a5 where "a5 = overwrite a4 5 (take n host)"
  define a7 where "a7 = a5[5 + n := word_of_int (drop_bit 8 port), 5 + n + 1 := word_of_int (port AND 0xFF)]"
  have l: "length a4 = 270" "length a5 = 270" using assms n by (simp_all add: a4_def a5_def)
  have r: "connect_request arr host = Inr (n, a5)"
    using assms n l by (simp add: connect_request_def arr_set_in arr_copy_def a4_def a5_def Let_def)
  have p: "connect_request_port a5 n port = Inr a7"
    using n l by (simp add: connect_request_port_def arr_set_in a7_def)
  have t4: "take 5 a4 = [5, 1, 0, 3, of_nat n]"
    by (rule nth_equalityI) (use assms in \<open>auto simp: a4_def less_Suc_eq numeral_eq_Suc\<close>)
  have e5: "a5 = [5, 1, 0, 3, of_nat n] @ take n host @ drop (5 + n) a4"
    using n(2,3) t4 by (simp add: a5_def overwrite_def)
  obtain y0 y1 ys where d: "drop (5 + n) a4 = y0 # y1 # ys"
  proof -
    have "length (drop (5 + n) a4) \<ge> 2" using l n by simp
    then show thesis using that by (cases "drop (5 + n) a4"; cases "tl (drop (5 + n) a4)") auto
  qed
  let ?pre = "[5, 1, 0, 3, of_nat n] @ take n host"
  have lp: "length ?pre = 5 + n" using n(3) by simp
  have "a7 = ?pre @ [word_of_int (drop_bit 8 port), word_of_int (port AND 0xFF)] @ ys"
  proof -
    have "a5 = ?pre @ y0 # y1 # ys" using e5 d by simp
    moreover have "(xs @ y0 # y1 # ys)[length xs := u, length xs + 1 := v] = xs @ [u, v] @ ys" for xs and u v :: byte
      by (simp add: list_update_append)
    note this [of ?pre "word_of_int (drop_bit 8 port)" "word_of_int (port AND 0xFF)", unfolded lp]
    ultimately show ?thesis unfolding a7_def by simp
  qed
  then have "a7 = (?pre @ [word_of_int (drop_bit 8 port), word_of_int (port AND 0xFF)]) @ ys" by simp
  moreover have "length (?pre @ [word_of_int (drop_bit 8 port), word_of_int (port AND 0xFF)]) = 5 + n + 2"
    using lp by simp
  ultimately have "take (5 + n + 2) a7 = ?pre @ [word_of_int (drop_bit 8 port), word_of_int (port AND 0xFF)]"
    by (metis append_eq_conv_conj)
  then have "arr_take a7 (5 + n + 2) = Inr (connect_message host port)"
    using l n by (simp add: arr_take_def a7_def connect_message_def n_def)
  then show thesis using that [of a5 a7] r p by (simp add: n_def)
qed

lemma connect_message_length: "int (length (connect_message host port)) = 5 + int (min (length host) 263) + 2"
  by (simp add: connect_message_def min.commute)

lemma socks_connect_request_length:
  assumes "0 \<le> port" and "port < 65536"
  shows "length (connect_message host port) \<le> 270 \<and>
         (unat (connect_message host port ! 4) = length (connect_message host port) - 7 \<longleftrightarrow> length host \<le> 255) \<and>
         int (from_be (drop (length (connect_message host port) - 2) (connect_message host port))) = port"
proof -
  define n where "n = min (length host) 263"
  have r: "connect_message host port =
      [5, 1, 0, 3, of_nat n] @ take n host @ [word_of_int (drop_bit 8 port), word_of_int (port AND 0xFF)]"
    by (auto simp: connect_message_def n_def min_def)
  have l: "length (connect_message host port) = n + 7" "length (take n host) = n" by (simp_all add: r n_def)
  have n4: "connect_message host port ! 4 = of_nat n" by (simp add: r)
  have a: "unat (of_nat n :: byte) = n \<longleftrightarrow> length host \<le> 255"
    by (auto simp: n_def unat_of_nat take_bit_eq_mod min_def mod_less dest: arg_cong [where f = "\<lambda>x. x"])
  have d: "drop (n + 5) (connect_message host port) = [word_of_int (drop_bit 8 port), word_of_int (port AND 0xFF)]"
  proof -
    have "connect_message host port =
        ([5, 1, 0, 3, of_nat n] @ take n host) @ [word_of_int (drop_bit 8 port), word_of_int (port AND 0xFF)]" by (simp add: r)
    moreover have "n + 5 = length ([5, 1, 0, 3, of_nat n :: byte] @ take n host)" using l(2) by simp
    ultimately show ?thesis by (metis append_eq_conv_conj)
  qed
  have "port AND 0xFF = port mod 256" using take_bit_eq_mask [of 8 port] by (simp add: take_bit_eq_mod mask_eq_exp_minus_1 and.commute)
  moreover have "0 \<le> port div 256" "port div 256 < 256" using assms by auto
  ultimately have "int (from_be [word_of_int (drop_bit 8 port), word_of_int (port AND 0xFF)]) = port"
    using assms div_mult_mod_eq [of port 256]
    by (simp add: from_be_def drop_bit_eq_div unsigned_of_int take_bit_eq_mod nat_mod_distrib [symmetric] zmod_int)
  moreover have "n \<le> 263" by (simp add: n_def)
  ultimately show ?thesis using a d n4 unfolding l(1) by (simp add: add.commute)
qed

end
