(* ===== verification/Sock_Addr.thy ===== *)
theory Sock_Addr
  imports Mtu Env_Laws
begin

text \<open>
  Socket addresses, address texts and protocol names of \<open>src/Treiber/lib/socket.c\<close> and
  \<open>socket.h\<close>. A \<open>struct sockaddr\<close> is its family and the bytes after the family field: 14 for
  \<open>sockaddr_in\<close>, 26 for \<open>sockaddr_in6\<close> and for the union \<open>openvpn_sockaddr\<close>. The code reads
  them through pointer casts, so a field is a stretch of bytes and reading past the end of the
  object is \<open>MemFault\<close>. Ports and addresses stay in network order.
\<close>

unbundle bit_operations_syntax

section \<open>Addresses\<close>

definition AF_UNSPEC :: int where "AF_UNSPEC = 0"
definition AF_INET :: int where "AF_INET = 2"
definition AF_INET6 :: int where "AF_INET6 = 23"

record sockaddr =
  sa_family :: int
  sa_data :: "byte list"

text \<open>\<open>struct addrinfo\<close>: the list of an address query, without the link.\<close>

record addrinfo =
  ai_family :: int
  ai_addr :: sockaddr

definition sa_field :: "sockaddr \<Rightarrow> nat \<Rightarrow> nat \<Rightarrow> fault + byte list" where
  "sa_field a off n =
     (if off + n \<le> length (sa_data a) then Inr (take n (drop off (sa_data a))) else Inl MemFault)"

definition sin_port_of :: "sockaddr \<Rightarrow> fault + byte list" where "sin_port_of a = sa_field a 0 2"
definition sin_addr_of :: "sockaddr \<Rightarrow> fault + byte list" where "sin_addr_of a = sa_field a 2 4"
definition sin6_addr_of :: "sockaddr \<Rightarrow> fault + byte list" where "sin6_addr_of a = sa_field a 6 16"

definition is_openvpn_sockaddr :: "sockaddr \<Rightarrow> bool" where
  "is_openvpn_sockaddr a \<longleftrightarrow> length (sa_data a) = 26"

text \<open>\<open>==\<close> on two fields.\<close>

definition same_field :: "fault + byte list \<Rightarrow> fault + byte list \<Rightarrow> fault + bool" where
  "same_field x y = bindE x (\<lambda>bs. bindE y (\<lambda>cs. Inr (bs = cs)))"

text \<open>\<open>&&\<close> evaluates its right operand only when the left one holds.\<close>

definition andE :: "fault + bool \<Rightarrow> fault + bool \<Rightarrow> fault + bool" where
  "andE x y = bindE x (\<lambda>b. if b then y else Inr False)"

definition addr_defined :: "sockaddr option \<Rightarrow> fault + bool" where
  "addr_defined oa =
     (case oa of
        None \<Rightarrow> Inr False
      | Some a \<Rightarrow>
          if sa_family a = AF_INET then bindE (sin_addr_of a) (\<lambda>bs. Inr (bs \<noteq> [0, 0, 0, 0]))
          else if sa_family a = AF_INET6 then bindE (sin6_addr_of a) (\<lambda>bs. Inr (bs \<noteq> replicate 16 0))
          else Inr False)"

definition addr_local :: "sockaddr option \<Rightarrow> fault + bool" where
  "addr_local oa =
     (case oa of
        None \<Rightarrow> Inr False
      | Some a \<Rightarrow>
          if sa_family a = AF_INET then bindE (sin_addr_of a) (\<lambda>bs. Inr (bs = [127, 0, 0, 1]))
          else if sa_family a = AF_INET6 then bindE (sin6_addr_of a) (\<lambda>bs. Inr (bs = replicate 15 0 @ [1]))
          else Inr False)"

definition addr_match :: "sockaddr \<Rightarrow> sockaddr \<Rightarrow> fault + bool" where
  "addr_match a1 a2 =
     (if sa_family a1 = AF_INET then same_field (sin_addr_of a1) (sin_addr_of a2)
      else if sa_family a1 = AF_INET6 then same_field (sin6_addr_of a1) (sin6_addr_of a2)
      else Inl AssertFail)"

fun addrlist_match :: "sockaddr \<Rightarrow> addrinfo list \<Rightarrow> fault + bool" where
  "addrlist_match a1 [] = Inr False"
| "addrlist_match a1 (curele # rest) =
     (if sa_family a1 = AF_INET
      then bindE (same_field (sin_addr_of a1) (sin_addr_of (ai_addr curele)))
             (\<lambda>b. if b then Inr True else addrlist_match a1 rest)
      else if sa_family a1 = AF_INET6
      then bindE (same_field (sin6_addr_of a1) (sin6_addr_of (ai_addr curele)))
             (\<lambda>b. if b then Inr True else addrlist_match a1 rest)
      else Inl AssertFail)"

definition addr_host :: "sockaddr \<Rightarrow> fault + nat" where
  "addr_host a = (if sa_family a \<noteq> AF_INET then Inr 0 else bindE (sin_addr_of a) (\<lambda>bs. Inr (from_be bs)))"

fun addrlist_port_match :: "sockaddr \<Rightarrow> addrinfo list \<Rightarrow> fault + bool" where
  "addrlist_port_match a1 [] = Inr False"
| "addrlist_port_match a1 (curele # rest) =
     (if sa_family a1 = AF_INET
      then bindE (if ai_family curele = AF_INET
                  then andE (same_field (sin_addr_of a1) (sin_addr_of (ai_addr curele)))
                            (same_field (sin_port_of a1) (sin_port_of (ai_addr curele)))
                  else Inr False)
             (\<lambda>b. if b then Inr True else addrlist_port_match a1 rest)
      else if sa_family a1 = AF_INET6
      then bindE (if ai_family curele = AF_INET6
                  then andE (same_field (sin6_addr_of a1) (sin6_addr_of (ai_addr curele)))
                            (same_field (sin_port_of a1) (sin_port_of (ai_addr curele)))
                  else Inr False)
             (\<lambda>b. if b then Inr True else addrlist_port_match a1 rest)
      else Inl AssertFail)"

definition addr_port_match :: "sockaddr \<Rightarrow> sockaddr \<Rightarrow> fault + bool" where
  "addr_port_match a1 a2 =
     (if sa_family a1 = AF_INET
      then andE (same_field (sin_addr_of a1) (sin_addr_of a2)) (same_field (sin_port_of a1) (sin_port_of a2))
      else if sa_family a1 = AF_INET6
      then andE (same_field (sin6_addr_of a1) (sin6_addr_of a2)) (same_field (sin_port_of a1) (sin_port_of a2))
      else Inl AssertFail)"

definition addr_zero_host :: "sockaddr \<Rightarrow> fault + sockaddr" where
  "addr_zero_host a =
     (if sa_family a = AF_INET
      then bindE (sin_addr_of a) (\<lambda>_. Inr (a\<lparr>sa_data := overwrite (sa_data a) 2 [0, 0, 0, 0]\<rparr>))
      else if sa_family a = AF_INET6
      then bindE (sin6_addr_of a) (\<lambda>_. Inr (a\<lparr>sa_data := overwrite (sa_data a) 6 (replicate 16 0)\<rparr>))
      else Inr a)"

definition addr_copy_sa :: "sockaddr \<Rightarrow> sockaddr \<Rightarrow> sockaddr" where
  "addr_copy_sa dst src = dst\<lparr>sa_family := sa_family src, sa_data := sa_data src\<rparr>"

definition addr_inet4or6 :: "sockaddr \<Rightarrow> bool" where
  "addr_inet4or6 a \<longleftrightarrow> sa_family a = AF_INET \<or> sa_family a = AF_INET6"

definition af_addr_size :: "int \<Rightarrow> int" where
  "af_addr_size af = (if af = AF_INET then 16 else if af = AF_INET6 then 28 else 0)"

text \<open>The zeroed union with the first \<open>sizeof\<close> bytes copied from the query's answer.\<close>

definition set_actual_address :: "addrinfo option \<Rightarrow> fault + sockaddr" where
  "set_actual_address ai =
     (case ai of
        None \<Rightarrow> Inl AssertFail
      | Some e \<Rightarrow>
          if ai_family e = AF_INET
          then bindE (sa_field (ai_addr e) 0 14)
                 (\<lambda>bs. Inr \<lparr>sa_family = sa_family (ai_addr e), sa_data = bs @ replicate 12 0\<rparr>)
          else if ai_family e = AF_INET6
          then bindE (sa_field (ai_addr e) 0 26)
                 (\<lambda>bs. Inr \<lparr>sa_family = sa_family (ai_addr e), sa_data = bs\<rparr>)
          else Inl AssertFail)"

section \<open>Protocols\<close>

definition PROTO_NONE :: int where "PROTO_NONE = 0"
definition PROTO_UDP :: int where "PROTO_UDP = 1"
definition PROTO_TCP :: int where "PROTO_TCP = 2"
definition PROTO_TCP_SERVER :: int where "PROTO_TCP_SERVER = 3"
definition PROTO_TCP_CLIENT :: int where "PROTO_TCP_CLIENT = 4"
definition PROTO_N :: int where "PROTO_N = 5"

definition proto_known :: "int \<Rightarrow> bool" where
  "proto_known proto \<longleftrightarrow> 0 \<le> proto \<and> proto < PROTO_N"

definition proto_is_net :: "int \<Rightarrow> fault + bool" where
  "proto_is_net proto = bindE (c_assert (\<not> (proto < 0 \<or> proto \<ge> PROTO_N))) (\<lambda>_. Inr (proto \<noteq> PROTO_NONE))"

definition proto_is_udp :: "int \<Rightarrow> fault + bool" where
  "proto_is_udp proto = bindE (c_assert (\<not> (proto < 0 \<or> proto \<ge> PROTO_N))) (\<lambda>_. Inr (proto = PROTO_UDP))"

definition proto_is_dgram :: "int \<Rightarrow> fault + bool" where
  "proto_is_dgram proto = proto_is_udp proto"

definition proto_is_tcp :: "int \<Rightarrow> fault + bool" where
  "proto_is_tcp proto = bindE (c_assert (\<not> (proto < 0 \<or> proto \<ge> PROTO_N)))
     (\<lambda>_. Inr (proto = PROTO_TCP_CLIENT \<or> proto = PROTO_TCP_SERVER))"

definition link_socket_proto_connection_oriented :: "int \<Rightarrow> fault + bool" where
  "link_socket_proto_connection_oriented proto = bindE (proto_is_dgram proto) (\<lambda>b. Inr (\<not> b))"

definition proto_overhead :: "int list" where
  "proto_overhead = [0, 28, 40, 40, 48, 60, 60, 60]"

definition datagram_overhead :: "int \<Rightarrow> fault + int" where
  "datagram_overhead proto =
     bindE (c_assert (proto \<ge> 0 \<and> proto < PROTO_N)) (\<lambda>_. Inr (proto_overhead ! nat proto))"

definition frame_adjust_path_mtu :: "frame \<Rightarrow> int \<Rightarrow> int \<Rightarrow> fault + frame" where
  "frame_adjust_path_mtu f pmtu proto =
     bindE (datagram_overhead proto) (\<lambda>oh. frame_set_mtu_dynamic f (pmtu - oh) SET_MTU_UPPER_BOUND)"

definition socket_adjust_frame_parameters :: "frame \<Rightarrow> int \<Rightarrow> fault + frame" where
  "socket_adjust_frame_parameters f proto =
     bindE (link_socket_proto_connection_oriented proto)
       (\<lambda>b. Inr (if b then frame_add_to_extra_frame f 2 else f))"

record proto_name =
  pn_short :: cstr
  pn_display :: cstr
  pn_af :: int
  pn_proto :: int

definition proto_names :: "proto_name list" where
  "proto_names =
     map (\<lambda>(s, d, af, p). \<lparr>pn_short = asc s, pn_display = asc d, pn_af = af, pn_proto = p\<rparr>)
       [(''proto-uninitialized'', ''proto-NONE'', AF_UNSPEC, PROTO_NONE),
        (''udp'', ''UDP'', AF_UNSPEC, PROTO_UDP),
        (''tcp-server'', ''TCP_SERVER'', AF_UNSPEC, PROTO_TCP_SERVER),
        (''tcp-client'', ''TCP_CLIENT'', AF_UNSPEC, PROTO_TCP_CLIENT),
        (''tcp'', ''TCP'', AF_UNSPEC, PROTO_TCP),
        (''udp4'', ''UDPv4'', AF_INET, PROTO_UDP),
        (''tcp4-server'', ''TCPv4_SERVER'', AF_INET, PROTO_TCP_SERVER),
        (''tcp4-client'', ''TCPv4_CLIENT'', AF_INET, PROTO_TCP_CLIENT),
        (''tcp4'', ''TCPv4'', AF_INET, PROTO_TCP),
        (''udp6'', ''UDPv6'', AF_INET6, PROTO_UDP),
        (''tcp6-server'', ''TCPv6_SERVER'', AF_INET6, PROTO_TCP_SERVER),
        (''tcp6-client'', ''TCPv6_CLIENT'', AF_INET6, PROTO_TCP_CLIENT),
        (''tcp6'', ''TCPv6'', AF_INET6, PROTO_TCP)]"

definition ascii2proto :: "cstr \<Rightarrow> int" where
  "ascii2proto s = (case find (\<lambda>e. s = pn_short e) proto_names of Some e \<Rightarrow> pn_proto e | None \<Rightarrow> -1)"

definition ascii2af :: "cstr \<Rightarrow> int" where
  "ascii2af s = (case find (\<lambda>e. s = pn_short e) proto_names of Some e \<Rightarrow> pn_af e | None \<Rightarrow> 0)"

definition proto2ascii :: "int \<Rightarrow> int \<Rightarrow> bool \<Rightarrow> cstr" where
  "proto2ascii proto af display_form =
     (case find (\<lambda>e. pn_af e = af \<and> pn_proto e = proto) proto_names of
        Some e \<Rightarrow> if display_form then pn_display e else pn_short e
      | None \<Rightarrow> asc ''[unknown protocol]'')"

text \<open>The calls of \<open>buf_printf\<close> of \<open>proto2ascii_all\<close>, into a 256-byte buffer of the arena.\<close>

fun proto_pieces :: "nat \<Rightarrow> proto_name list \<Rightarrow> cstr list" where
  "proto_pieces i [] = []"
| "proto_pieces i (e # es) =
     (if i \<noteq> 0 then [asc '' ''] else []) @ [asc ''['' @ pn_short e @ asc '']''] @ proto_pieces (Suc i) es"

definition proto2ascii_all :: "mem \<Rightarrow> gc_arena option \<Rightarrow> fault + ptr \<times> mem \<times> gc_arena option" where
  "proto2ascii_all m gc =
     bindE (alloc_buf_gc m 256 gc)
       (\<lambda>(out, m1, gc1). bindE (print_pieces m1 out (proto_pieces 0 proto_names))
         (\<lambda>(out1, m2). Inr (buf_bptr out1, m2, gc1)))"

definition addr_family_name :: "int \<Rightarrow> cstr" where
  "addr_family_name af =
     (if af = AF_INET then asc ''AF_INET'' else if af = AF_INET6 then asc ''AF_INET6'' else asc ''AF_UNSPEC'')"

definition proto_remote :: "int \<Rightarrow> bool \<Rightarrow> fault + cstr" where
  "proto_remote proto remote =
     bindE (c_assert (proto \<ge> 0 \<and> proto < PROTO_N))
       (\<lambda>_. if proto = PROTO_UDP then Inr (asc ''UDPv4'')
            else if (remote \<and> proto = PROTO_TCP_CLIENT) \<or> (\<not> remote \<and> proto = PROTO_TCP_SERVER)
            then Inr (asc ''TCPv4_SERVER'')
            else if (remote \<and> proto = PROTO_TCP_SERVER) \<or> (\<not> remote \<and> proto = PROTO_TCP_CLIENT)
            then Inr (asc ''TCPv4_CLIENT'')
            else Inl AssertFail)"

definition addr_match_proto :: "sockaddr \<Rightarrow> sockaddr \<Rightarrow> int \<Rightarrow> fault + bool" where
  "addr_match_proto a1 a2 proto =
     bindE (link_socket_proto_connection_oriented proto)
       (\<lambda>c. if c then addr_match a1 a2 else addr_port_match a1 a2)"

definition addrlist_match_proto :: "sockaddr \<Rightarrow> addrinfo list \<Rightarrow> int \<Rightarrow> fault + bool" where
  "addrlist_match_proto a1 addr_list proto =
     bindE (link_socket_proto_connection_oriented proto)
       (\<lambda>c. if c then addrlist_match a1 addr_list else addrlist_port_match a1 addr_list)"

section \<open>Which peer may send\<close>

text \<open>
  The parts of \<open>struct link_socket_info\<close> and \<open>struct link_socket_addr\<close> that decide whose
  packets are taken; \<open>None\<close> is a NULL list.
\<close>

record link_socket_info =
  lsi_remote_list :: "addrinfo list option"
  lsi_current_remote :: "addrinfo option"
  lsi_actual :: sockaddr
  lsi_connection_established :: bool
  lsi_remote_float :: bool
  lsi_proto :: int
  lsi_ipchange_command :: "cstr option"

definition link_socket_actual_defined :: "sockaddr option \<Rightarrow> fault + bool" where
  "link_socket_actual_defined act = addr_defined act"

definition link_socket_actual_match :: "sockaddr \<Rightarrow> sockaddr \<Rightarrow> fault + bool" where
  "link_socket_actual_match a1 a2 = addr_port_match a1 a2"

definition link_socket_verify_incoming_addr :: "buffer \<Rightarrow> link_socket_info \<Rightarrow> sockaddr \<Rightarrow> fault + bool" where
  "link_socket_verify_incoming_addr buf info from_addr =
     (if b_len buf > 0 \<and> (sa_family from_addr = AF_INET6 \<or> sa_family from_addr = AF_INET)
      then bindE (link_socket_actual_defined (Some from_addr))
             (\<lambda>def. if \<not> def then Inr False
                    else case lsi_remote_list info of
                           None \<Rightarrow> Inr True
                         | Some l \<Rightarrow> if lsi_remote_float info then Inr True
                                     else addrlist_match_proto from_addr l (lsi_proto info))
      else Inr False)"

text \<open>The buffer, and what \<open>*act\<close> is set to if it is set.\<close>

definition link_socket_get_outgoing_addr ::
  "buffer \<Rightarrow> link_socket_info \<Rightarrow> fault + buffer \<times> sockaddr option option" where
  "link_socket_get_outgoing_addr buf info =
     (if b_len buf > 0
      then bindE (link_socket_actual_defined (Some (lsi_actual info)))
             (\<lambda>def. if def then Inr (buf, Some (Some (lsi_actual info)))
                    else Inr (buf\<lparr>b_len := 0\<rparr>, Some None))
      else Inr (buf, None))"

text \<open>Whether \<open>link_socket_set_outgoing_addr\<close> goes on to \<open>link_socket_connection_initiated\<close>.\<close>

definition outgoing_addr_changes :: "link_socket_info \<Rightarrow> sockaddr \<Rightarrow> fault + bool" where
  "outgoing_addr_changes info act =
     andE (if \<not> lsi_connection_established info then Inr True
           else bindE (addr_match_proto act (lsi_actual info) (lsi_proto info)) (\<lambda>b. Inr (\<not> b)))
          (if lsi_remote_float info then Inr True
           else case lsi_remote_list info of
                  None \<Rightarrow> Inr True
                | Some l \<Rightarrow> addrlist_match_proto act l (lsi_proto info))"

definition IPV4_INVALID_ADDR :: nat where "IPV4_INVALID_ADDR = 2 ^ 32 - 1"

definition link_socket_current_remote :: "link_socket_info \<Rightarrow> fault + nat" where
  "link_socket_current_remote info =
     (if sa_family (lsi_actual info) \<noteq> AF_INET then Inr IPV4_INVALID_ADDR
      else bindE (link_socket_actual_defined (Some (lsi_actual info)))
        (\<lambda>def. if def then bindE (sin_addr_of (lsi_actual info)) (\<lambda>bs. Inr (from_be bs))
               else case lsi_current_remote info of
                      Some ai \<Rightarrow> bindE (sin_addr_of (ai_addr ai)) (\<lambda>bs. Inr (from_be bs))
                    | None \<Rightarrow> Inr 0))"

definition link_socket_current_remote_ipv6 :: "link_socket_info \<Rightarrow> fault + byte list option" where
  "link_socket_current_remote_ipv6 info =
     (if sa_family (lsi_actual info) \<noteq> AF_INET6 then Inr None
      else bindE (link_socket_actual_defined (Some (lsi_actual info)))
        (\<lambda>def. if def then bindE (sin6_addr_of (lsi_actual info)) (\<lambda>bs. Inr (Some bs))
               else case lsi_current_remote info of
                      Some ai \<Rightarrow> bindE (sin6_addr_of (ai_addr ai)) (\<lambda>bs. Inr (Some bs))
                    | None \<Rightarrow> Inr None))"

section \<open>Laws\<close>

text \<open>Host and port of an address of one of the two families, as the comparison sees them.\<close>

definition host_of :: "int \<Rightarrow> sockaddr \<Rightarrow> byte list" where
  "host_of af a = (if af = AF_INET then take 4 (drop 2 (sa_data a)) else take 16 (drop 6 (sa_data a)))"

definition port_of :: "sockaddr \<Rightarrow> byte list" where
  "port_of a = take 2 (sa_data a)"

definition ai_wf :: "addrinfo \<Rightarrow> bool" where
  "ai_wf e \<longleftrightarrow> length (sa_data (ai_addr e)) = (if ai_family e = AF_INET6 then 26 else 14)"

lemma af_distinct [simp]: "AF_INET \<noteq> AF_INET6" "AF_INET6 \<noteq> AF_INET" "AF_UNSPEC \<noteq> AF_INET" "AF_UNSPEC \<noteq> AF_INET6"
  by (simp_all add: AF_INET_def AF_INET6_def AF_UNSPEC_def)

lemma sa_field_in: "off + n \<le> length (sa_data a) \<Longrightarrow> sa_field a off n = Inr (take n (drop off (sa_data a)))"
  by (simp add: sa_field_def)

lemma addr_defined_spec:
  "is_openvpn_sockaddr a \<Longrightarrow> addr_inet4or6 a \<Longrightarrow>
     addr_defined (Some a) = Inr (host_of (sa_family a) a \<noteq> replicate (length (host_of (sa_family a) a)) 0)"
  by (auto simp: addr_defined_def is_openvpn_sockaddr_def addr_inet4or6_def sin_addr_of_def sin6_addr_of_def
      sa_field_in host_of_def numeral_eq_Suc)

lemma addrlist_port_match_spec:
  assumes "is_openvpn_sockaddr a" and "addr_inet4or6 a"
  shows "list_all ai_wf l \<Longrightarrow> addrlist_port_match a l =
     Inr (list_ex (\<lambda>e. ai_family e = sa_family a \<and> host_of (sa_family a) (ai_addr e) = host_of (sa_family a) a \<and>
                       port_of (ai_addr e) = port_of a) l)"
proof (induction l)
  case (Cons e l)
  then show ?case
    using assms
    by (auto simp: addr_inet4or6_def is_openvpn_sockaddr_def ai_wf_def andE_def same_field_def
        sin_addr_of_def sin6_addr_of_def sin_port_of_def sa_field_in host_of_def port_of_def)
qed (use assms in simp)

lemma connection_oriented_simps [simp]:
  "link_socket_proto_connection_oriented PROTO_UDP = Inr False"
  "link_socket_proto_connection_oriented PROTO_TCP_CLIENT = Inr True"
  "link_socket_proto_connection_oriented PROTO_TCP_SERVER = Inr True"
  by (simp_all add: link_socket_proto_connection_oriented_def proto_is_dgram_def proto_is_udp_def PROTO_UDP_def
      PROTO_TCP_CLIENT_def PROTO_TCP_SERVER_def PROTO_N_def)

lemma datagram_overhead_tcp:
  "datagram_overhead PROTO_TCP_SERVER = Inr 40" "datagram_overhead PROTO_TCP_CLIENT = Inr 48"
  by (simp_all add: datagram_overhead_def PROTO_TCP_SERVER_def PROTO_TCP_CLIENT_def PROTO_N_def proto_overhead_def)

lemma proto_names_inverse:
  "list_all (\<lambda>e. ascii2proto (pn_short e) = pn_proto e \<and> ascii2af (pn_short e) = pn_af e \<and>
                 proto2ascii (pn_proto e) (pn_af e) False = pn_short e) proto_names"
  by (simp add: proto_names_def ascii2proto_def ascii2af_def proto2ascii_def asc_eq_iff AF_UNSPEC_def AF_INET_def
      AF_INET6_def PROTO_NONE_def PROTO_UDP_def PROTO_TCP_def PROTO_TCP_SERVER_def PROTO_TCP_CLIENT_def
      del: asc_simps)

section \<open>Properties\<close>

text \<open>
  C21: On a UDP socket with a fixed remote list, a non-empty datagram is taken exactly if its
  source address is set and the list holds an entry of the same family with the same host and
  the same port; nothing else about the source matters, and no read leaves an address object.
\<close>

theorem verify_incoming_udp_exact:
  assumes "is_openvpn_sockaddr from" and "list_all ai_wf l"
    and "lsi_remote_list info = Some l" and "\<not> lsi_remote_float info" and "lsi_proto info = PROTO_UDP"
  shows "link_socket_verify_incoming_addr buf info from =
     Inr (b_len buf > 0 \<and> addr_inet4or6 from \<and>
          host_of (sa_family from) from \<noteq> replicate (length (host_of (sa_family from) from)) 0 \<and>
          (sa_family from, host_of (sa_family from) from, port_of from) \<in>
             set (map (\<lambda>e. (ai_family e, host_of (ai_family e) (ai_addr e), port_of (ai_addr e))) l))"
proof (cases "b_len buf > 0 \<and> addr_inet4or6 from")
  case True
  have "list_ex (\<lambda>e. ai_family e = sa_family from \<and> host_of (sa_family from) (ai_addr e) = host_of (sa_family from) from \<and>
                     port_of (ai_addr e) = port_of from) l \<longleftrightarrow>
      (sa_family from, host_of (sa_family from) from, port_of from) \<in>
             set (map (\<lambda>e. (ai_family e, host_of (ai_family e) (ai_addr e), port_of (ai_addr e))) l)"
    by (force simp: list_ex_iff image_iff)
  then show ?thesis
    using True assms addr_defined_spec [of "from"] addrlist_port_match_spec [of "from" l]
    by (auto simp: link_socket_verify_incoming_addr_def link_socket_actual_defined_def addrlist_match_proto_def
        addr_inet4or6_def)
next
  case False
  then show ?thesis by (auto simp: link_socket_verify_incoming_addr_def addr_inet4or6_def)
qed

theorem verify_incoming_udp_exact_witness:
  "link_socket_verify_incoming_addr (clear_buf\<lparr>b_len := 1\<rparr>)
     \<lparr>lsi_remote_list = Some [\<lparr>ai_family = AF_INET, ai_addr = \<lparr>sa_family = AF_INET,
          sa_data = [4, 170, 10, 0, 0, 1] @ replicate 8 0\<rparr>\<rparr>], lsi_current_remote = None,
      lsi_actual = \<lparr>sa_family = 0, sa_data = replicate 26 0\<rparr>, lsi_connection_established = False,
      lsi_remote_float = False, lsi_proto = PROTO_UDP, lsi_ipchange_command = None\<rparr>
     \<lparr>sa_family = AF_INET, sa_data = [4, 170, 10, 0, 0, 1] @ replicate 20 0\<rparr> = Inr True"
  by (subst verify_incoming_udp_exact)
    (auto simp: is_openvpn_sockaddr_def ai_wf_def clear_buf_def addr_inet4or6_def host_of_def port_of_def)

text \<open>
  C23: On a TCP socket the comparison ignores the family of the list entries: a peer with an IPv6
  address is compared with 16 bytes at the place of \<open>sin6_addr\<close>, which for an IPv4 entry reads
  past the end of its \<open>sockaddr_in\<close>.
\<close>

theorem verify_incoming_tcp_overread:
  assumes "is_openvpn_sockaddr from" and "sa_family from = AF_INET6" and "sin6_addr_of from \<noteq> Inr (replicate 16 0)"
    and "ai_family e = AF_INET" and "ai_wf e" and "b_len buf > 0"
    and "lsi_remote_list info = Some (e # l)" and "\<not> lsi_remote_float info" and "lsi_proto info = PROTO_TCP_CLIENT"
  shows "link_socket_verify_incoming_addr buf info from = Inl MemFault"
  using assms
  by (auto simp: link_socket_verify_incoming_addr_def link_socket_actual_defined_def addr_defined_def
      addrlist_match_proto_def same_field_def sin6_addr_of_def is_openvpn_sockaddr_def ai_wf_def sa_field_def)

theorem verify_incoming_tcp_overread_witness:
  "link_socket_verify_incoming_addr (clear_buf\<lparr>b_len := 1\<rparr>)
     \<lparr>lsi_remote_list = Some [\<lparr>ai_family = AF_INET, ai_addr = \<lparr>sa_family = AF_INET,
          sa_data = [4, 170, 10, 0, 0, 1] @ replicate 8 0\<rparr>\<rparr>], lsi_current_remote = None,
      lsi_actual = \<lparr>sa_family = 0, sa_data = replicate 26 0\<rparr>, lsi_connection_established = False,
      lsi_remote_float = False, lsi_proto = PROTO_TCP_CLIENT, lsi_ipchange_command = None\<rparr>
     \<lparr>sa_family = AF_INET6, sa_data = replicate 21 0 @ [1] @ replicate 4 0\<rparr> = Inl MemFault"
  by (rule verify_incoming_tcp_overread)
    (auto simp: is_openvpn_sockaddr_def ai_wf_def clear_buf_def sin6_addr_of_def sa_field_def numeral_eq_Suc)

end
