(* ===== verification/Addr_Text.thy ===== *)
theory Addr_Text
  imports Sock_Addr
begin

text \<open>
  Texts of addresses in \<open>src/Treiber/lib/socket.c\<close>: the checks on address strings that come
  from outside, the addition on IPv6 addresses, and the printing of addresses into logs and
  environment variables.
\<close>

unbundle bit_operations_syntax

section \<open>Checks on address strings\<close>

text \<open>
  \<open>%u\<close> of \<open>sscanf\<close>: white space, a sign, digits. A number that does not fit into
  \<open>unsigned int\<close> is undefined in C; \<open>ovf\<close> is what the C library makes of it.
\<close>

definition scan_uint :: "(nat \<Rightarrow> nat) \<Rightarrow> cstr \<Rightarrow> (nat \<times> cstr) option" where
  "scan_uint ovf s =
     (let s1 = dropWhile isspace s;
          neg = (s1 \<noteq> [] \<and> hd s1 = of_char CHR ''-'');
          s2 = (if neg \<or> (s1 \<noteq> [] \<and> hd s1 = of_char CHR ''+'') then tl s1 else s1);
          ds = takeWhile isdigit s2; n = digits_value 0 ds
      in if ds = [] then None
         else Some (if n < 2 ^ 32 then (if neg then (2 ^ 32 - n) mod 2 ^ 32 else n) else ovf n,
                    dropWhile isdigit s2))"

fun scan_lit :: "byte \<Rightarrow> cstr \<Rightarrow> cstr option" where
  "scan_lit c [] = None"
| "scan_lit c (d # s) = (if d = c then Some s else None)"

definition DOT :: byte where "DOT = of_char CHR ''.''"

text \<open>\<open>sscanf(s, "%u.%u.%u.%u", ...)\<close> when it converts all four numbers.\<close>

definition scan_quad :: "(nat \<Rightarrow> nat) \<Rightarrow> cstr \<Rightarrow> (nat \<times> nat \<times> nat \<times> nat) option" where
  "scan_quad ovf s =
     Option.bind (scan_uint ovf s) (\<lambda>(a, s1). Option.bind (scan_lit DOT s1)
       (\<lambda>s1. Option.bind (scan_uint ovf s1) (\<lambda>(b, s2). Option.bind (scan_lit DOT s2)
         (\<lambda>s2. Option.bind (scan_uint ovf s2) (\<lambda>(c, s3). Option.bind (scan_lit DOT s3)
           (\<lambda>s3. Option.bind (scan_uint ovf s3) (\<lambda>(d, _). Some (a, b, c, d))))))))"

definition OIA_HOSTNAME :: int where "OIA_HOSTNAME = 0"
definition OIA_IP :: int where "OIA_IP = 1"
definition OIA_ERROR :: int where "OIA_ERROR = -1"

definition openvpn_inet_aton :: "(nat \<Rightarrow> nat) \<Rightarrow> cstr \<Rightarrow> int \<times> byte list" where
  "openvpn_inet_aton ovf dotted_quad =
     (let fallback = (if string_class dotted_quad (CC_DIGIT OR CC_DOT) 0 then OIA_ERROR else OIA_HOSTNAME,
                      [0, 0, 0, 0])
      in case scan_quad ovf dotted_quad of
           Some (a, b, c, d) \<Rightarrow>
             if a < 256 \<and> b < 256 \<and> c < 256 \<and> d < 256
             then (OIA_IP, [of_nat a, of_nat b, of_nat c, of_nat d]) else fallback
         | None \<Rightarrow> fallback)"

fun quad_chars :: "nat \<Rightarrow> cstr \<Rightarrow> bool" where
  "quad_chars nnum [] = True"
| "quad_chars nnum (c # p) =
     (if isdigit c then (if nnum + 1 > 3 then False else quad_chars (nnum + 1) p)
      else if c = DOT then quad_chars 0 p
      else False)"

definition ip_addr_dotted_quad_safe :: "(nat \<Rightarrow> nat) \<Rightarrow> cstr option \<Rightarrow> bool" where
  "ip_addr_dotted_quad_safe ovf dotted_quad =
     (case dotted_quad of
        None \<Rightarrow> False
      | Some s \<Rightarrow>
          if length s > 15 then False
          else if \<not> quad_chars 0 s then False
          else fst (openvpn_inet_aton ovf s) = OIA_IP)"

text \<open>\<open>inet_pton\<close> is a function of the C library.\<close>

definition INET6_ADDRSTRLEN :: nat where "INET6_ADDRSTRLEN = 46"

definition ipv6_addr_safe :: "(cstr \<Rightarrow> int) \<Rightarrow> cstr option \<Rightarrow> bool" where
  "ipv6_addr_safe inet_pton ipv6_text_addr =
     (case ipv6_text_addr of
        None \<Rightarrow> False
      | Some s \<Rightarrow> if length s > INET6_ADDRSTRLEN then False else inet_pton s = 1)"

definition dns_addr_safe :: "cstr option \<Rightarrow> bool" where
  "dns_addr_safe a =
     (case a of
        Some s \<Rightarrow> length s > 0 \<and> length s \<le> 255 \<and> string_class s (CC_ALNUM OR CC_DASH OR CC_DOT) 0
      | None \<Rightarrow> False)"

definition ip_or_dns_addr_safe :: "(nat \<Rightarrow> nat) \<Rightarrow> cstr option \<Rightarrow> bool \<Rightarrow> bool" where
  "ip_or_dns_addr_safe ovf a allow_fqdn =
     (if ip_addr_dotted_quad_safe ovf a then True
      else if allow_fqdn then dns_addr_safe a
      else False)"

fun mac_chars :: "nat \<Rightarrow> cstr \<Rightarrow> bool" where
  "mac_chars nnum [] = True"
| "mac_chars nnum (c # p) =
     (if isxdigit c then (if nnum + 1 > 2 then False else mac_chars (nnum + 1) p)
      else if c = of_char CHR '':'' then mac_chars 0 p
      else False)"

definition mac_addr_safe :: "cstr option \<Rightarrow> bool" where
  "mac_addr_safe mac_addr =
     (case mac_addr of
        None \<Rightarrow> False
      | Some s \<Rightarrow> if length s > 17 then False else if \<not> mac_chars 0 s then False else True)"

section \<open>Adding to an IPv6 address\<close>

fun add_in6_loop :: "nat \<Rightarrow> byte list \<Rightarrow> 32 word \<Rightarrow> byte list" where
  "add_in6_loop 0 base add = base"
| "add_in6_loop (Suc i) base add =
     (if add > 0
      then (let h = ucast (base ! i) :: 32 word;
                base' = base[i := ucast ((h + add) AND 0xFF)];
                carry = drop_bit 8 ((h AND 0xFF) + (add AND 0xFF))
            in add_in6_loop i base' (drop_bit 8 add + carry))
      else base)"

definition add_in6_addr :: "byte list \<Rightarrow> 32 word \<Rightarrow> byte list" where
  "add_in6_addr base add = add_in6_loop 16 base add"

section \<open>Printing\<close>

text \<open>\<open>inet_ntoa\<close> of four bytes in network order.\<close>

definition inet_ntoa :: "byte list \<Rightarrow> cstr" where
  "inet_ntoa bs =
     concat (map (\<lambda>b. dec_nat (unat b) @ [DOT]) (take 3 bs)) @ concat (map (\<lambda>b. dec_nat (unat b)) (drop 3 bs))"

definition PS_SHOW_PORT_IF_DEFINED :: "32 word" where "PS_SHOW_PORT_IF_DEFINED = 1"
definition PS_SHOW_PORT :: "32 word" where "PS_SHOW_PORT = 2"
definition PS_SHOW_PKTINFO :: "32 word" where "PS_SHOW_PKTINFO = 4"
definition PS_DONT_SHOW_ADDR :: "32 word" where "PS_DONT_SHOW_ADDR = 8"
definition PS_DONT_SHOW_FAMILY :: "32 word" where "PS_DONT_SHOW_FAMILY = 16"
definition IA_EMPTY_IF_UNDEF :: "32 word" where "IA_EMPTY_IF_UNDEF = 1"
definition IA_NET_ORDER :: "32 word" where "IA_NET_ORDER = 2"
definition SA_IP_PORT :: "32 word" where "SA_IP_PORT = 1"
definition SA_SET_IF_NONZERO :: "32 word" where "SA_SET_IF_NONZERO = 2"

text \<open>What \<open>getnameinfo\<close> delivers: the error text, or host and service in digits.\<close>

type_synonym nameinfo = "cstr + cstr \<times> cstr"

fun put_all_text :: "mem \<Rightarrow> buffer \<Rightarrow> cstr list \<Rightarrow> fault + buffer \<times> mem" where
  "put_all_text m out [] = Inr (out, m)"
| "put_all_text m out (t # ts) = bindE (buf_puts m out t) (\<lambda>(_, out', m'). put_all_text m' out' ts)"

text \<open>The strings \<open>print_sockaddr_ex\<close> puts after the family.\<close>

definition sockaddr_pieces :: "bool \<Rightarrow> cstr option \<Rightarrow> 32 word \<Rightarrow> cstr \<times> cstr \<Rightarrow> cstr list" where
  "sockaddr_pieces addr_is_defined separator flags hs =
     (if flags AND PS_DONT_SHOW_ADDR = 0 then [if addr_is_defined then fst hs else asc ''[undef]''] else []) @
     (if flags AND PS_SHOW_PORT \<noteq> 0 \<or> flags AND PS_SHOW_PORT_IF_DEFINED \<noteq> 0
      then (case separator of Some s \<Rightarrow> [s] | None \<Rightarrow> []) @ [snd hs] else [])"

text \<open>A string literal is returned as \<open>Inl\<close>, the arena's buffer as \<open>Inr\<close>.\<close>

definition print_sockaddr_ex ::
  "mem \<Rightarrow> sockaddr \<Rightarrow> nameinfo \<Rightarrow> cstr option \<Rightarrow> 32 word \<Rightarrow> gc_arena option \<Rightarrow>
     fault + (cstr + ptr) \<times> mem \<times> gc_arena option" where
  "print_sockaddr_ex m sa ni separator flags gc =
     bindE (alloc_buf_gc m 128 gc)
       (\<lambda>(out, m1, gc1).
          let show_family = (flags AND PS_DONT_SHOW_FAMILY = 0);
              finish = (\<lambda>family def.
                bindE (put_all_text m1 out (if show_family then [family] else []))
                  (\<lambda>(out1, m2). case ni of
                      Inl err \<Rightarrow>
                        bindE (buf_printf m2 out1 (Some (asc ''[nameinfo() err: '' @ err @ asc '']'')))
                          (\<lambda>(_, out2, m3). Inr (Inr (buf_bptr out2), m3, gc1))
                    | Inr hs \<Rightarrow>
                        bindE (put_all_text m2 out1 (sockaddr_pieces def separator flags hs))
                          (\<lambda>(out2, m3). Inr (Inr (buf_bptr out2), m3, gc1))))
          in if sa_family sa = AF_INET
             then bindE (sin_addr_of sa) (\<lambda>bs. finish (asc ''[AF_INET]'') (bs \<noteq> [0, 0, 0, 0]))
             else if sa_family sa = AF_INET6
             then bindE (sin6_addr_of sa) (\<lambda>bs. finish (asc ''[AF_INET6]'') (bs \<noteq> replicate 16 0))
             else if sa_family sa = AF_UNSPEC
             then Inr (Inl (if show_family then asc ''[AF_UNSPEC]'' else []), m1, gc1)
             else Inl AssertFail)"

definition print_in_addr_t :: "mem \<Rightarrow> 32 word \<Rightarrow> 32 word \<Rightarrow> gc_arena option \<Rightarrow> fault + ptr \<times> mem \<times> gc_arena option" where
  "print_in_addr_t m a flags gc =
     bindE (alloc_buf_gc m 64 gc)
       (\<lambda>(out, m1, gc1).
          if a \<noteq> 0 \<or> flags AND IA_EMPTY_IF_UNDEF = 0
          then (let ia = (if flags AND IA_NET_ORDER \<noteq> 0 then rev (be32 a) else be32 a)
                in bindE (buf_printf m1 out (Some (inet_ntoa ia)))
                     (\<lambda>(_, out1, m2). Inr (buf_bptr out1, m2, gc1)))
          else Inr (buf_bptr out, m1, gc1))"

text \<open>\<open>ntop\<close> is the text \<open>inet_ntop\<close> makes of the address, cut to its array of 64 bytes.\<close>

definition print_in6_addr ::
  "mem \<Rightarrow> byte list \<Rightarrow> cstr \<Rightarrow> 32 word \<Rightarrow> gc_arena option \<Rightarrow> fault + ptr \<times> mem \<times> gc_arena option" where
  "print_in6_addr m a6 ntop flags gc =
     bindE (alloc_buf_gc m 64 gc)
       (\<lambda>(out, m1, gc1).
          if a6 \<noteq> replicate 16 0 \<or> flags AND IA_EMPTY_IF_UNDEF = 0
          then bindE (buf_printf m1 out (Some ntop)) (\<lambda>(_, out1, m2). Inr (buf_bptr out1, m2, gc1))
          else Inr (buf_bptr out, m1, gc1))"

section \<open>Addresses in the environment\<close>

text \<open>
  The local arrays of 256 and 128 bytes hold at most that many characters less one.
  \<open>host\<close> is what \<open>getnameinfo\<close> leaves in the array for an IPv6 address.
\<close>

definition name_buf :: "cstr \<Rightarrow> cstr" where "name_buf s = take 255 s"

definition V4MAPPED :: "byte list" where "V4MAPPED = replicate 10 0 @ [0xFF, 0xFF]"

definition setenv_port :: "mem \<Rightarrow> env_set option \<Rightarrow> cstr \<Rightarrow> sockaddr \<Rightarrow> 32 word \<Rightarrow> fault + env_set option \<times> mem" where
  "setenv_port m es prefix a flags =
     bindE (sin_port_of a)
       (\<lambda>p. if flags AND SA_IP_PORT \<noteq> 0 \<and> p \<noteq> [0, 0]
            then bindE (setenv_int m es (Some (name_buf (prefix @ asc ''_port''))) (int (from_be p)))
                   (\<lambda>(es', m'). Inr (Some es', m'))
            else Inr (es, m))"

definition setenv_sockaddr ::
  "mem \<Rightarrow> env_set option \<Rightarrow> cstr \<Rightarrow> sockaddr \<Rightarrow> cstr \<Rightarrow> 32 word \<Rightarrow> fault + env_set option \<times> mem" where
  "setenv_sockaddr m es name_prefix a host flags =
     (if sa_family a = AF_INET
      then bindE (sin_addr_of a)
        (\<lambda>bs. bindE (setenv_str m es
                       (Some (name_buf (if flags AND SA_IP_PORT \<noteq> 0 then name_prefix @ asc ''_ip'' else name_prefix)))
                       (Some (inet_ntoa bs)))
           (\<lambda>(es1, m1). setenv_port m1 (Some es1) name_prefix a flags))
      else if sa_family a = AF_INET6
      then bindE (sin6_addr_of a)
        (\<lambda>bs. bindE (if take 12 bs = V4MAPPED
                     then setenv_str m es (Some (name_buf (name_prefix @ asc ''_ip''))) (Some (inet_ntoa (drop 12 bs)))
                     else setenv_str m es (Some (name_buf (name_prefix @ asc ''_ip6''))) (Some (take 127 host)))
           (\<lambda>(es1, m1). setenv_port m1 (Some es1) name_prefix a flags))
      else Inr (es, m))"

definition setenv_in_addr_t :: "mem \<Rightarrow> env_set option \<Rightarrow> cstr \<Rightarrow> 32 word \<Rightarrow> 32 word \<Rightarrow> fault + env_set option \<times> mem" where
  "setenv_in_addr_t m es name_prefix a flags =
     (if a \<noteq> 0 \<or> flags AND SA_SET_IF_NONZERO = 0
      then setenv_sockaddr m es name_prefix
             \<lparr>sa_family = AF_INET, sa_data = [0, 0] @ be32 a @ replicate 20 0\<rparr> [] flags
      else Inr (es, m))"

definition setenv_in6_addr ::
  "mem \<Rightarrow> env_set option \<Rightarrow> cstr \<Rightarrow> byte list \<Rightarrow> cstr \<Rightarrow> 32 word \<Rightarrow> fault + env_set option \<times> mem" where
  "setenv_in6_addr m es name_prefix a6 host flags =
     (if a6 \<noteq> replicate 16 0 \<or> flags AND SA_SET_IF_NONZERO = 0
      then setenv_sockaddr m es name_prefix
             \<lparr>sa_family = AF_INET6, sa_data = replicate 6 0 @ a6 @ replicate 4 0\<rparr> host flags
      else Inr (es, m))"

definition setenv_link_socket_actual ::
  "mem \<Rightarrow> env_set option \<Rightarrow> cstr \<Rightarrow> sockaddr \<Rightarrow> cstr \<Rightarrow> 32 word \<Rightarrow> fault + env_set option \<times> mem" where
  "setenv_link_socket_actual m es name_prefix act host flags = setenv_sockaddr m es name_prefix act host flags"

definition setenv_trusted ::
  "mem \<Rightarrow> env_set option \<Rightarrow> link_socket_info \<Rightarrow> cstr \<Rightarrow> fault + env_set option \<times> mem" where
  "setenv_trusted m es info host = setenv_link_socket_actual m es (asc ''trusted'') (lsi_actual info) host SA_IP_PORT"

section \<open>Laws\<close>

text \<open>Cutting a text at a separator: the reference for the character loops.\<close>

fun split_at :: "byte \<Rightarrow> cstr \<Rightarrow> cstr list" where
  "split_at c [] = [[]]"
| "split_at c (x # xs) = (if x = c then [] # split_at c xs else (x # hd (split_at c xs)) # tl (split_at c xs))"

lemma split_at_ne [simp]: "split_at c s \<noteq> []"
  by (cases s) auto

lemma split_at_tail:
  "split_at c s = f # fs \<Longrightarrow>
     (fs = [] \<and> s = f) \<or> (\<exists>s'. s = f @ c # s' \<and> split_at c s' = fs)"
proof (induction s arbitrary: f fs)
  case (Cons x xs)
  show ?case
  proof (cases "x = c")
    case False
    obtain g gs where g: "split_at c xs = g # gs" by (cases "split_at c xs") auto
    then show ?thesis using Cons.prems False Cons.IH [OF g] by auto
  qed (use Cons.prems in auto)
qed simp

lemma split_at_hd: "c \<notin> set (hd (split_at c s))"
  by (induction s) (auto simp: split_at_ne)

text \<open>A loop that counts the characters of a field, resets at the separator and rejects the rest.\<close>

fun field_chars :: "(byte \<Rightarrow> bool) \<Rightarrow> byte \<Rightarrow> nat \<Rightarrow> nat \<Rightarrow> cstr \<Rightarrow> bool" where
  "field_chars P c mx n [] = True"
| "field_chars P c mx n (x # p) =
     (if P x then (if n + 1 > mx then False else field_chars P c mx (n + 1) p)
      else if x = c then field_chars P c mx 0 p else False)"

lemma field_chars_split:
  "\<not> P c \<Longrightarrow> n \<le> mx \<Longrightarrow>
     field_chars P c mx n s \<longleftrightarrow>
       n + length (hd (split_at c s)) \<le> mx \<and> list_all P (hd (split_at c s)) \<and>
       list_all (\<lambda>f. length f \<le> mx \<and> list_all P f) (tl (split_at c s))"
proof (induction s arbitrary: n)
  case (Cons x s)
  obtain g gs where g: "split_at c s = g # gs" by (cases "split_at c s") auto
  show ?case
  proof (cases "x = c")
    case True
    then show ?thesis using Cons.prems Cons.IH [of 0] by (simp add: g)
  next
    case False
    then show ?thesis using Cons.prems Cons.IH [of "n + 1"] by (cases "n + 1 \<le> mx") (auto simp: g)
  qed
qed simp

lemma field_chars_fields:
  "\<not> P c \<Longrightarrow> field_chars P c mx 0 s \<longleftrightarrow> list_all (\<lambda>f. length f \<le> mx \<and> list_all P f) (split_at c s)"
  using field_chars_split [of P c 0 mx s] by (cases "split_at c s") auto

lemma quad_chars_field: "quad_chars n s = field_chars isdigit DOT 3 n s"
  by (induction s arbitrary: n) auto

lemma mac_chars_field: "mac_chars n s = field_chars isxdigit (of_char CHR '':'') 2 n s"
  by (induction s arbitrary: n) auto

lemma digits_value_bound: "list_all isdigit f \<Longrightarrow> digits_value acc f < (acc + 1) * 10 ^ length f"
proof (induction f arbitrary: acc)
  case (Cons c f)
  have "unat c - 48 \<le> 9" using Cons.prems by (auto simp: isdigit_def)
  then have "acc * 10 + (unat c - 48) + 1 \<le> (acc + 1) * 10" by simp
  then have "(acc * 10 + (unat c - 48) + 1) * 10 ^ length f \<le> (acc + 1) * 10 * 10 ^ length f"
    by (rule mult_right_mono) simp
  moreover have "digits_value (acc * 10 + (unat c - 48)) f < (acc * 10 + (unat c - 48) + 1) * 10 ^ length f"
    using Cons.IH [of "acc * 10 + (unat c - 48)"] Cons.prems by simp
  ultimately have "digits_value (acc * 10 + (unat c - 48)) f < (acc + 1) * 10 * 10 ^ length f" by (rule order.strict_trans2 [rotated])
  then show ?case using Cons.prems by (simp add: algebra_simps)
qed simp

lemma digit_no_space: "isdigit c \<Longrightarrow> \<not> isspace c \<and> c \<noteq> 45 \<and> c \<noteq> 43"
  by (auto simp: isdigit_def isspace_def)

lemma DOT_no_digit: "\<not> isdigit DOT \<and> \<not> isspace DOT \<and> DOT \<noteq> 45 \<and> DOT \<noteq> 43"
  by (simp add: isdigit_def isspace_def DOT_def)

lemma field_span:
  assumes "split_at c s = f # fs" and "list_all P f" and "\<not> P c"
  shows "takeWhile P s = f" and "dropWhile P s = drop (length f) s"
proof -
  have "takeWhile P (f @ c # s') = f" "dropWhile P (f @ c # s') = c # s'" for s'
    using assms(2,3) by (induction f) auto
  moreover have "takeWhile P f = f" "dropWhile P f = []" using assms(2) by (induction f) auto
  ultimately show "takeWhile P s = f" "dropWhile P s = drop (length f) s"
    using split_at_tail [OF assms(1)] by auto
qed

lemma scan_uint_field:
  assumes s: "split_at DOT s = f # fs" and f: "list_all isdigit f" "length f \<le> 3"
  shows "scan_uint ovf s = (if f = [] then None else Some (digits_value 0 f, drop (length f) s))"
proof -
  have no: "s = [] \<or> \<not> isspace (hd s) \<and> hd s \<noteq> 45 \<and> hd s \<noteq> 43"
    using split_at_tail [OF s] f(1) DOT_no_digit digit_no_space by (cases f) auto
  have sp: "dropWhile isspace s = s" using no by (cases s) auto
  have "digits_value 0 f < 10 ^ length f" using digits_value_bound [OF f(1), of 0] by simp
  also have "\<dots> \<le> 10 ^ 3" using f(2) by (intro power_increasing) auto
  finally have v: "digits_value 0 f < 2 ^ 32" by simp
  have sg: "\<not> (s \<noteq> [] \<and> hd s = 45)" "\<not> (s \<noteq> [] \<and> hd s = 43)" using no by auto
  show ?thesis
    using v field_span [OF s f(1)] DOT_no_digit by (simp add: scan_uint_def sp Let_def sg)
qed

lemma scan_lit_field:
  assumes "split_at DOT s = f # fs"
  shows "(case scan_lit DOT (drop (length f) s) of None \<Rightarrow> fs = [] | Some s' \<Rightarrow> fs \<noteq> [] \<and> split_at DOT s' = fs)"
  using split_at_tail [OF assms] by auto

definition quad_spec :: "cstr \<Rightarrow> bool" where
  "quad_spec s \<longleftrightarrow>
     (let fs = split_at DOT s
      in length s \<le> 15 \<and> list_all (\<lambda>f. length f \<le> 3 \<and> list_all isdigit f) fs \<and> length fs \<ge> 4 \<and>
         list_all (\<lambda>f. f \<noteq> [] \<and> digits_value 0 f < 256) (take 4 fs))"

text \<open>A number and the dot after it.\<close>

definition scan_field :: "(nat \<Rightarrow> nat) \<Rightarrow> cstr \<Rightarrow> (nat \<times> cstr) option" where
  "scan_field ovf s = Option.bind (scan_uint ovf s) (\<lambda>(a, s1). Option.bind (scan_lit DOT s1) (\<lambda>s2. Some (a, s2)))"

lemma scan_quad_steps:
  "scan_quad ovf s =
     Option.bind (scan_field ovf s) (\<lambda>(a, s1). Option.bind (scan_field ovf s1) (\<lambda>(b, s2).
       Option.bind (scan_field ovf s2) (\<lambda>(c, s3). Option.bind (scan_uint ovf s3) (\<lambda>(d, _). Some (a, b, c, d)))))"
  by (simp add: scan_quad_def scan_field_def case_prod_beta')

abbreviation short_digits :: "cstr \<Rightarrow> bool" where
  "short_digits f \<equiv> length f \<le> 3 \<and> list_all isdigit f"

lemma scan_field_None:
  "split_at DOT s = f # fs \<Longrightarrow> short_digits f \<Longrightarrow> f = [] \<or> fs = [] \<Longrightarrow> scan_field ovf s = None"
  using scan_uint_field [of s f fs ovf] scan_lit_field [of s f fs] by (auto simp: scan_field_def split: option.splits)

lemma scan_field_Some:
  assumes "split_at DOT s = f # fs" and "short_digits f" and "f \<noteq> []" and "fs \<noteq> []"
  obtains s2 where "scan_field ovf s = Some (digits_value 0 f, s2)" and "split_at DOT s2 = fs"
  using assms scan_uint_field [of s f fs ovf] scan_lit_field [of s f fs]
  by (auto simp: scan_field_def split: option.splits)

lemma scan_quad_few:
  assumes "list_all short_digits (split_at DOT s)" and "length (split_at DOT s) < 4 \<or> [] \<in> set (take 4 (split_at DOT s))"
  shows "scan_quad ovf s = None"
proof -
  obtain f1 r1 where 1: "split_at DOT s = f1 # r1" by (cases "split_at DOT s") auto
  show ?thesis
  proof (cases "f1 = [] \<or> r1 = []")
    case True
    then show ?thesis using scan_field_None [OF 1] assms(1) by (simp add: 1 scan_quad_steps)
  next
    case False
    then obtain s1 where s1: "scan_field ovf s = Some (digits_value 0 f1, s1)" and e1: "split_at DOT s1 = r1"
      using scan_field_Some [OF 1] assms(1) unfolding 1 by auto
    obtain f2 r2 where 2: "split_at DOT s1 = f2 # r2" by (cases "split_at DOT s1") auto
    show ?thesis
    proof (cases "f2 = [] \<or> r2 = []")
      case True
      then show ?thesis using scan_field_None [OF 2] assms(1) by (auto simp: 1 e1 [symmetric] 2 s1 scan_quad_steps)
    next
      case False
      then obtain s2 where s2: "scan_field ovf s1 = Some (digits_value 0 f2, s2)" and e2: "split_at DOT s2 = r2"
        using scan_field_Some [OF 2] assms(1) by (auto simp: 1 e1 [symmetric] 2)
      obtain f3 r3 where 3: "split_at DOT s2 = f3 # r3" by (cases "split_at DOT s2") auto
      show ?thesis
      proof (cases "f3 = [] \<or> r3 = []")
        case True
        then show ?thesis using scan_field_None [OF 3] assms(1) by (auto simp: 1 e1 [symmetric] 2 e2 [symmetric] 3 s1 s2 scan_quad_steps)
      next
        case False
        then obtain s3 where s3: "scan_field ovf s2 = Some (digits_value 0 f3, s3)" and e3: "split_at DOT s3 = r3"
          using scan_field_Some [OF 3] assms(1) by (auto simp: 1 e1 [symmetric] 2 e2 [symmetric] 3)
        obtain f4 r4 where 4: "split_at DOT s3 = f4 # r4" by (cases "split_at DOT s3") auto
        have r: "split_at DOT s = f1 # f2 # f3 # f4 # r4" using 1 2 3 4 e1 e2 e3 by simp
        then have "f4 = []" using assms(2) \<open>\<not> (f1 = [] \<or> r1 = [])\<close> \<open>\<not> (f2 = [] \<or> r2 = [])\<close> False by auto
        then show ?thesis using scan_uint_field [OF 4, of ovf] by (simp add: s1 s2 s3 scan_quad_steps)
      qed
    qed
  qed
qed

lemma scan_quad_fields:
  assumes "list_all short_digits (split_at DOT s)" and s: "split_at DOT s = f1 # f2 # f3 # f4 # fs"
    and "f1 \<noteq> []" "f2 \<noteq> []" "f3 \<noteq> []" "f4 \<noteq> []"
  shows "scan_quad ovf s = Some (digits_value 0 f1, digits_value 0 f2, digits_value 0 f3, digits_value 0 f4)"
proof -
  obtain s1 where 1: "scan_field ovf s = Some (digits_value 0 f1, s1)" "split_at DOT s1 = f2 # f3 # f4 # fs"
    using scan_field_Some [OF s] assms by auto
  obtain s2 where 2: "scan_field ovf s1 = Some (digits_value 0 f2, s2)" "split_at DOT s2 = f3 # f4 # fs"
    using scan_field_Some [OF 1(2)] assms by auto
  obtain s3 where 3: "scan_field ovf s2 = Some (digits_value 0 f3, s3)" "split_at DOT s3 = f4 # fs"
    using scan_field_Some [OF 2(2)] assms by auto
  show ?thesis using scan_uint_field [OF 3(2), of ovf] assms by (simp add: scan_quad_steps 1 2 3)
qed

lemma mac_addr_safe_exact:
  "mac_addr_safe (Some s) \<longleftrightarrow>
     length s \<le> 17 \<and> list_all (\<lambda>f. length f \<le> 2 \<and> list_all isxdigit f) (split_at (of_char CHR '':'') s)"
  using field_chars_fields [of isxdigit "of_char CHR '':''" 2 s]
  by (simp add: mac_addr_safe_def mac_chars_field isxdigit_def isdigit_def)

section \<open>IPv6 addition\<close>

lemma from_be_snoc: "from_be (xs @ [x]) = from_be xs * 256 + unat x"
  by (simp add: from_be_def)

lemma from_be_bound: "from_be xs < 256 ^ length xs"
proof (induction xs rule: rev_induct)
  case (snoc x xs)
  have "unat x < 256" using unsigned_less [of x] by simp
  then show ?case using snoc by (simp add: from_be_snoc)
qed (simp add: from_be_def)

lemma unat_low: "unat ((w :: 32 word) AND 0xFF) = unat w mod 256"
proof -
  have "w AND 0xFF = take_bit 8 w" by (simp add: take_bit_eq_mask mask_eq_exp_minus_1)
  then show ?thesis by (simp add: take_bit_eq_mod unat_mod_distrib)
qed

lemma unat_drop8: "unat (drop_bit 8 (w :: 32 word)) = unat w div 256"
  by (simp add: drop_bit_eq_div unat_div_distrib)

lemma unat_add_small: "unat v + unat w < 2 ^ 32 \<Longrightarrow> unat (v + w) = unat v + unat w" for v w :: "32 word"
  by (simp add: unat_word_ariths)

lemma carry_byte:
  fixes a :: "32 word" and b :: byte
  defines "h \<equiv> ucast b :: 32 word"
  shows "unat (ucast ((h + a) AND 0xFF) :: byte) = (unat b + unat a) mod 256"
    and "unat (drop_bit 8 a + drop_bit 8 ((h AND 0xFF) + (a AND 0xFF))) = (unat b + unat a) div 256"
proof -
  have b: "unat b < 256" using unsigned_less [of b] by simp
  have h: "unat h = unat b" using b by (simp add: h_def unsigned_ucast_eq take_bit_eq_mod)
  have "unat (ucast ((h + a) AND 0xFF) :: byte) = unat (h + a) mod 256"
    by (simp add: unat_low_byte unat_low)
  also have "\<dots> = (unat b + unat a) mod 2 ^ 32 mod 256" by (simp add: unat_word_ariths h)
  also have "\<dots> = (unat b + unat a) mod 256" by (rule mod_mod_cancel) simp
  finally show "unat (ucast ((h + a) AND 0xFF) :: byte) = (unat b + unat a) mod 256" .
  have al: "unat a < 2 ^ 32" using unsigned_less [of a] by simp
  have "unat ((h AND 0xFF) + (a AND 0xFF)) = unat b + unat a mod 256"
    using b unat_add_small [of "h AND 0xFF" "a AND 0xFF"] by (simp add: unat_low h)
  moreover have "unat a div 256 + (unat b + unat a mod 256) div 256 = (unat b + unat a) div 256"
    using div_add1_eq [of "unat b" "unat a" 256] b by simp
  ultimately show "unat (drop_bit 8 a + drop_bit 8 ((h AND 0xFF) + (a AND 0xFF))) = (unat b + unat a) div 256"
    using unat_add_small [of "drop_bit 8 a" "drop_bit 8 ((h AND 0xFF) + (a AND 0xFF))"] al b
    by (simp add: unat_drop8)
qed

lemma shift_mod: "(x mod m) * 256 + y mod 256 = (x * 256 + y mod 256) mod (m * 256)" for x y m :: nat
  using mod_mult2_eq [of "x * 256 + y mod 256" 256 m] by (simp add: mult.commute)

lemma add_in6_loop_spec:
  "i \<le> length bs \<Longrightarrow>
     from_be (take i (add_in6_loop i bs a)) = (from_be (take i bs) + unat a) mod 256 ^ i \<and>
     drop i (add_in6_loop i bs a) = drop i bs \<and> length (add_in6_loop i bs a) = length bs"
proof (induction i arbitrary: bs a)
  case (Suc i)
  show ?case
  proof (cases "a > 0")
    case False
    then show ?thesis using Suc.prems from_be_bound [of "take (Suc i) bs"] word_gt_0 [of a]
      by (simp add: min_def split: if_splits)
  next
    case True
    let ?b = "ucast ((ucast (bs ! i) + a) AND 0xFF) :: byte"
    let ?c = "drop_bit 8 a + drop_bit 8 (((ucast (bs ! i) :: 32 word) AND 0xFF) + (a AND 0xFF))"
    have IH: "from_be (take i (add_in6_loop i (bs[i := ?b]) ?c)) = (from_be (take i bs) + (unat (bs ! i) + unat a) div 256) mod 256 ^ i"
      "drop i (add_in6_loop i (bs[i := ?b]) ?c) = drop i (bs[i := ?b])"
      "length (add_in6_loop i (bs[i := ?b]) ?c) = length bs"
      using Suc.IH [of "bs[i := ?b]" ?c] Suc.prems by (simp_all add: carry_byte)
    let ?r = "add_in6_loop i (bs[i := ?b]) ?c"
    have r: "?r ! i = ?b" "drop (Suc i) ?r = drop (Suc i) bs"
      using arg_cong [OF IH(2), of hd] arg_cong [OF IH(2), of "drop 1"] IH(3) Suc.prems
      by (simp_all add: hd_drop_conv_nth)
    have "from_be (take (Suc i) ?r) = (from_be (take i bs) + (unat (bs ! i) + unat a) div 256) mod 256 ^ i * 256 +
        (unat (bs ! i) + unat a) mod 256"
      using Suc.prems IH r by (simp add: take_Suc_conv_app_nth from_be_snoc carry_byte)
    also have "\<dots> = (from_be (take i bs) * 256 + unat (bs ! i) + unat a) mod 256 ^ Suc i"
      unfolding shift_mod by (simp add: algebra_simps mult_div_mod_eq)
    finally show ?thesis using True Suc.prems IH(3) r(2)
      by (simp add: Let_def take_Suc_conv_app_nth from_be_snoc)
  qed
qed (simp add: from_be_def)

section \<open>Properties\<close>

text \<open>
  C22: The character loop and the scan of \<open>ip_addr_dotted_quad_safe\<close> together accept exactly the
  texts of at most 15 characters whose fields between dots are at most three digits long, with at
  least four fields, of which the first four are not empty and below 256. Further fields are not
  looked at, so \<open>1.2.3.4.5\<close> passes.
\<close>

theorem ip_addr_dotted_quad_safe_exact: "ip_addr_dotted_quad_safe ovf (Some s) = quad_spec s"
proof (cases "length s \<le> 15 \<and> list_all short_digits (split_at DOT s)")
  case False
  then show ?thesis
    using field_chars_fields [of isdigit DOT 3 s] DOT_no_digit
    by (auto simp: ip_addr_dotted_quad_safe_def quad_spec_def Let_def quad_chars_field)
next
  case ok: True
  then have q: "quad_chars 0 s" using field_chars_fields [of isdigit DOT 3 s] DOT_no_digit by (simp add: quad_chars_field)
  have res: "ip_addr_dotted_quad_safe ovf (Some s) \<longleftrightarrow>
      (\<exists>a b c d. scan_quad ovf s = Some (a, b, c, d) \<and> a < 256 \<and> b < 256 \<and> c < 256 \<and> d < 256)"
    using ok q by (auto simp: ip_addr_dotted_quad_safe_def openvpn_inet_aton_def Let_def OIA_IP_def OIA_ERROR_def
        OIA_HOSTNAME_def split: option.splits)
  show ?thesis
  proof (cases "length (split_at DOT s) < 4 \<or> [] \<in> set (take 4 (split_at DOT s))")
    case True
    then show ?thesis using scan_quad_few [of s ovf] ok by (auto simp: res quad_spec_def Let_def list_all_iff)
  next
    case False
    then obtain f1 f2 f3 f4 fs where s: "split_at DOT s = f1 # f2 # f3 # f4 # fs"
      by (cases "split_at DOT s"; cases "tl (split_at DOT s)"; cases "tl (tl (split_at DOT s))";
          cases "tl (tl (tl (split_at DOT s)))") auto
    then show ?thesis using scan_quad_fields [of s f1 f2 f3 f4 fs ovf] ok False by (auto simp: res quad_spec_def Let_def)
  qed
qed

text \<open>
  \<open>add_in6_addr\<close> adds to the 128-bit number of the address, carrying through all 16 bytes and
  wrapping at the top, although it works byte by byte in 32-bit arithmetic.
\<close>

lemma add_in6_addr_value:
  "length base = 16 \<Longrightarrow>
     length (add_in6_addr base n) = 16 \<and> from_be (add_in6_addr base n) = (from_be base + unat n) mod 2 ^ 128"
  using add_in6_loop_spec [of 16 base n] by (auto simp: add_in6_addr_def)

end
