(* ===== verification/Overlapped.thy ===== *)
theory Overlapped
  imports Buffer_Aggregate Mtu Sock_Addr
begin

text \<open>
  Asynchronous I/O on Windows: \<open>struct overlapped_io\<close> of \<open>src/Treiber/lib/win32.h\<close>, its
  life cycle in \<open>win32.c\<close>, and the reading and writing of the TAP device in \<open>tun.c\<close> and \<open>tun.h\<close>.
  An operation is started (it completes at once, stays pending or fails), and is finalized
  once. What \<open>ReadFile\<close>, \<open>WriteFile\<close> and \<open>GetOverlappedResult\<close> report is an argument; the
  thread's last error code is passed along as an \<open>int\<close>.
\<close>

section \<open>The structure\<close>

definition IOSTATE_INITIAL :: int where "IOSTATE_INITIAL = 0"
definition IOSTATE_QUEUED :: int where "IOSTATE_QUEUED = 1"
definition IOSTATE_IMMEDIATE_RETURN :: int where "IOSTATE_IMMEDIATE_RETURN = 2"

text \<open>\<open>ov_event\<close>: the manual-reset event, \<open>None\<close> for a NULL handle, else whether it is signaled.\<close>

record overlapped_io =
  ov_iostate :: int
  ov_event :: "bool option"
  ov_size :: nat
  ov_flags :: nat
  ov_status :: int
  ov_addr_defined :: bool
  ov_addr :: sockaddr
  ov_addrlen :: int
  ov_buf_init :: buffer
  ov_buf :: buffer

definition ov_clear :: overlapped_io where
  "ov_clear = \<lparr>ov_iostate = 0, ov_event = None, ov_size = 0, ov_flags = 0, ov_status = 0, ov_addr_defined = False,
     ov_addr = \<lparr>sa_family = 0, sa_data = replicate 26 0\<rparr>, ov_addrlen = 0, ov_buf_init = clear_buf, ov_buf = clear_buf\<rparr>"

text \<open>\<open>created\<close>: whether \<open>CreateEvent\<close> succeeds.\<close>

definition overlapped_io_init :: "mem \<Rightarrow> frame \<Rightarrow> bool \<Rightarrow> bool \<Rightarrow> bool \<Rightarrow> fault + overlapped_io \<times> mem" where
  "overlapped_io_init m frame event_state tuntap_buffer created =
     (if \<not> created then Inl Fatal
      else bindE (alloc_buf_sock_tun m frame tuntap_buffer 0)
             (\<lambda>(b, m'). Inr (ov_clear\<lparr>ov_event := Some event_state, ov_buf_init := b\<rparr>, m')))"

definition overlapped_io_close :: "mem \<Rightarrow> overlapped_io \<Rightarrow> fault + overlapped_io \<times> mem" where
  "overlapped_io_close m io = bindE (free_buf m (ov_buf_init io)) (\<lambda>(b, m'). Inr (io\<lparr>ov_buf_init := b\<rparr>, m'))"

definition overlapped_io_active :: "overlapped_io \<Rightarrow> bool" where
  "overlapped_io_active io \<longleftrightarrow> ov_iostate io = IOSTATE_QUEUED \<or> ov_iostate io = IOSTATE_IMMEDIATE_RETURN"

definition overlapped_io_state_ascii :: "overlapped_io \<Rightarrow> cstr" where
  "overlapped_io_state_ascii io =
     (if ov_iostate io = IOSTATE_INITIAL then asc ''0''
      else if ov_iostate io = IOSTATE_QUEUED then asc ''Q''
      else if ov_iostate io = IOSTATE_IMMEDIATE_RETURN then asc ''1''
      else asc ''?'')"

section \<open>Starting and finalizing an operation\<close>

datatype 'a io_start = StartDone 'a | StartPending | StartFailed int

datatype io_wait = WaitDone nat | WaitIncomplete | WaitFailed int

definition ERROR_IO_PENDING :: int where "ERROR_IO_PENDING = 997"
definition ERROR_IO_INCOMPLETE :: int where "ERROR_IO_INCOMPLETE = 996"
definition ERROR_INVALID_FUNCTION :: int where "ERROR_INVALID_FUNCTION = 1"

text \<open>\<open>ASSERT(SetEvent(h))\<close> and \<open>ASSERT(ResetEvent(h))\<close> fail on a NULL handle.\<close>

definition set_event :: "overlapped_io \<Rightarrow> fault + overlapped_io" where
  "set_event io = bindE (c_assert (ov_event io \<noteq> None)) (\<lambda>_. Inr (io\<lparr>ov_event := Some True\<rparr>))"

definition reset_event :: "overlapped_io \<Rightarrow> fault + overlapped_io" where
  "reset_event io = bindE (c_assert (ov_event io \<noteq> None)) (\<lambda>_. Inr (io\<lparr>ov_event := Some False\<rparr>))"

text \<open>The code after the call that starts the operation, the same in all four functions.\<close>

definition io_started :: "overlapped_io \<Rightarrow> nat io_start \<Rightarrow> fault + overlapped_io" where
  "io_started io r =
     (case r of
        StartDone n \<Rightarrow>
          bindE (set_event io)
            (\<lambda>io1. Inr (io1\<lparr>ov_size := n, ov_iostate := IOSTATE_IMMEDIATE_RETURN, ov_status := 0\<rparr>))
      | StartPending \<Rightarrow> Inr (io\<lparr>ov_iostate := IOSTATE_QUEUED, ov_status := ERROR_IO_PENDING\<rparr>)
      | StartFailed e \<Rightarrow>
          bindE (set_event io) (\<lambda>io1. Inr (io1\<lparr>ov_iostate := IOSTATE_IMMEDIATE_RETURN, ov_status := e\<rparr>)))"

text \<open>
  The switch of \<open>tun_finalize\<close> and \<open>socket_finalize\<close>: the return value, the structure, whether
  \<open>*buf = io->buf\<close> is executed, and the last error.
\<close>

definition io_finalize :: "int \<Rightarrow> io_wait \<Rightarrow> overlapped_io \<Rightarrow> int \<Rightarrow> fault + int \<times> overlapped_io \<times> bool \<times> int" where
  "io_finalize bad_state w io le =
     (if ov_iostate io = IOSTATE_QUEUED
      then (case w of
              WaitDone n \<Rightarrow>
                bindE (reset_event (io\<lparr>ov_size := n, ov_iostate := IOSTATE_INITIAL\<rparr>)) (\<lambda>io1. Inr (int n, io1, True, le))
            | WaitIncomplete \<Rightarrow> Inr (-1, io, False, ERROR_IO_INCOMPLETE)
            | WaitFailed e \<Rightarrow>
                bindE (reset_event (io\<lparr>ov_iostate := IOSTATE_INITIAL\<rparr>)) (\<lambda>io1. Inr (-1, io1, False, e)))
      else if ov_iostate io = IOSTATE_IMMEDIATE_RETURN
      then bindE (reset_event (io\<lparr>ov_iostate := IOSTATE_INITIAL\<rparr>))
             (\<lambda>io1. if ov_status io1 \<noteq> 0 then Inr (-1, io1, False, ov_status io1)
                    else Inr (int (ov_size io1), io1, True, le))
      else if ov_iostate io = IOSTATE_INITIAL then Inr (-1, io, False, bad_state)
      else Inl AssertFail)"

definition finalized_buf :: "overlapped_io \<Rightarrow> int \<Rightarrow> bool \<Rightarrow> buffer option \<Rightarrow> buffer option" where
  "finalized_buf io ret deliver buf =
     (case buf of None \<Rightarrow> None | Some b \<Rightarrow> Some ((if deliver then ov_buf io else b)\<lparr>b_len := ret\<rparr>))"

definition tun_finalize ::
  "io_wait \<Rightarrow> overlapped_io \<Rightarrow> buffer option \<Rightarrow> int \<Rightarrow> fault + int \<times> overlapped_io \<times> buffer option \<times> int" where
  "tun_finalize w io buf le =
     bindE (io_finalize ERROR_INVALID_FUNCTION w io le)
       (\<lambda>(ret, io1, deliver, le1). Inr (ret, io1, finalized_buf io1 ret deliver buf, le1))"

section \<open>Reading and writing the TAP device\<close>

text \<open>\<open>io\<close> is \<open>tt->reads\<close>; the kernel puts the bytes of an immediate read into its buffer.\<close>

definition tun_read_queue ::
  "mem \<Rightarrow> overlapped_io \<Rightarrow> int \<Rightarrow> byte list io_start \<Rightarrow> fault + int \<times> overlapped_io \<times> mem" where
  "tun_read_queue m io maxsize r =
     (if ov_iostate io = IOSTATE_INITIAL
      then (let io1 = io\<lparr>ov_buf := ov_buf_init io\<rparr>;
                len = (if maxsize \<noteq> 0 then maxsize else buf_len (ov_buf io1))
            in bindE (c_assert (0 \<le> len \<and> len \<le> buf_len (ov_buf io1)))
                 (\<lambda>_. bindE (reset_event io1)
                   (\<lambda>io2. bindE (case r of StartDone bs \<Rightarrow> write_bytes m (buf_bptr (ov_buf io2)) bs | _ \<Rightarrow> Inr m)
                     (\<lambda>m1. bindE (io_started io2 (map_io_start length r)) (\<lambda>io3. Inr (ov_iostate io3, io3, m1))))))
      else Inr (ov_iostate io, io, m))"

text \<open>A pending read completes: the kernel fills the buffer and signals the event.\<close>

definition os_read_completes :: "mem \<Rightarrow> overlapped_io \<Rightarrow> byte list \<Rightarrow> fault + overlapped_io \<times> mem" where
  "os_read_completes m io bs =
     bindE (write_bytes m (buf_bptr (ov_buf io)) bs) (\<lambda>m'. Inr (io\<lparr>ov_event := Some True\<rparr>, m'))"

text \<open>\<open>io\<close> is \<open>tt->writes\<close>.\<close>

definition tun_write_queue ::
  "mem \<Rightarrow> overlapped_io \<Rightarrow> buffer \<Rightarrow> nat io_start \<Rightarrow> fault + int \<times> overlapped_io \<times> mem" where
  "tun_write_queue m io buf r =
     (if ov_iostate io = IOSTATE_INITIAL
      then bindE (buf_copy m ((ov_buf_init io)\<lparr>b_len := 0\<rparr>) buf)
             (\<lambda>(ok, b, m1). bindE (c_assert ok)
               (\<lambda>_. bindE (reset_event (io\<lparr>ov_buf := b\<rparr>))
                 (\<lambda>io2. bindE (io_started io2 r) (\<lambda>io3. Inr (ov_iostate io3, io3, m1)))))
      else Inr (ov_iostate io, io, m))"

definition tun_write_win32 ::
  "mem \<Rightarrow> overlapped_io \<Rightarrow> buffer \<Rightarrow> io_wait \<Rightarrow> nat io_start \<Rightarrow> int \<Rightarrow> fault + int \<times> overlapped_io \<times> mem \<times> int" where
  "tun_write_win32 m writes buf w r le =
     bindE (if overlapped_io_active writes
            then bindE (tun_finalize w writes None le) (\<lambda>(status, io1, _, le1). Inr (status, io1, le1))
            else Inr (0, writes, le))
       (\<lambda>(status, io1, le1). bindE (tun_write_queue m io1 buf r)
         (\<lambda>(_, io2, m1). Inr (if status < 0 then status else buf_len buf, io2, m1, le1)))"

definition read_tun_buffered ::
  "io_wait \<Rightarrow> overlapped_io \<Rightarrow> buffer \<Rightarrow> int \<Rightarrow> fault + int \<times> overlapped_io \<times> buffer option \<times> int" where
  "read_tun_buffered w reads buf le = tun_finalize w reads (Some buf) le"

text \<open>\<open>tuntap_stop\<close> and \<open>tuntap_abort\<close>: the driver is gone.\<close>

definition ERROR_FILE_NOT_FOUND :: int where "ERROR_FILE_NOT_FOUND = 2"
definition ERROR_OPERATION_ABORTED :: int where "ERROR_OPERATION_ABORTED = 995"

definition tuntap_stop :: "int \<Rightarrow> int \<Rightarrow> bool" where
  "tuntap_stop status le = (if status < 0 then le = ERROR_FILE_NOT_FOUND else False)"

definition tuntap_abort :: "int \<Rightarrow> int \<Rightarrow> bool" where
  "tuntap_abort status le = (if status < 0 then le = ERROR_OPERATION_ABORTED else False)"

section \<open>Laws\<close>

lemmas iostate_defs = IOSTATE_INITIAL_def IOSTATE_QUEUED_def IOSTATE_IMMEDIATE_RETURN_def

text \<open>
  The life cycle: the state is one of the three, the event exists, and it is signaled while a
  result waits to be fetched, so that the event loop wakes up for it.
\<close>

definition ov_inv :: "overlapped_io \<Rightarrow> bool" where
  "ov_inv io \<longleftrightarrow> ov_iostate io \<in> {IOSTATE_INITIAL, IOSTATE_QUEUED, IOSTATE_IMMEDIATE_RETURN} \<and>
     ov_event io \<noteq> None \<and> (ov_iostate io = IOSTATE_IMMEDIATE_RETURN \<longrightarrow> ov_event io = Some True)"

lemma io_started_total:
  "ov_event io \<noteq> None \<Longrightarrow>
     \<exists>io'. io_started io r = Inr io' \<and> ov_inv io' \<and> ov_iostate io' \<noteq> IOSTATE_INITIAL \<and>
       ov_buf io' = ov_buf io \<and> ov_buf_init io' = ov_buf_init io \<and>
       (r = StartPending \<longrightarrow> ov_iostate io' = IOSTATE_QUEUED \<and> ov_event io' = ov_event io) \<and>
       (\<forall>n. r = StartDone n \<longrightarrow> ov_iostate io' = IOSTATE_IMMEDIATE_RETURN \<and> ov_status io' = 0 \<and> ov_size io' = n)"
  by (cases r) (auto simp: io_started_def set_event_def ov_inv_def iostate_defs)

lemma io_finalize_total:
  assumes "ov_inv io"
  shows "\<exists>ret io' d le'. io_finalize bad w io le = Inr (ret, io', d, le') \<and> ov_inv io' \<and>
     ov_buf io' = ov_buf io \<and> ov_buf_init io' = ov_buf_init io \<and> (d \<longleftrightarrow> 0 \<le> ret) \<and>
     (ov_iostate io' = IOSTATE_INITIAL \<or> (io' = io \<and> w = WaitIncomplete \<and> ov_iostate io = IOSTATE_QUEUED))"
  using assms
  by (auto simp: io_finalize_def reset_event_def ov_inv_def iostate_defs split: io_wait.splits)

lemma io_finalize_done:
  "ov_inv io \<Longrightarrow> ov_iostate io = IOSTATE_QUEUED \<Longrightarrow>
     \<exists>io'. io_finalize bad (WaitDone n) io le = Inr (int n, io', True, le) \<and> ov_iostate io' = IOSTATE_INITIAL \<and>
       ov_buf io' = ov_buf io \<and> ov_buf_init io' = ov_buf_init io \<and> ov_event io' = Some False"
  by (auto simp: io_finalize_def reset_event_def ov_inv_def iostate_defs)

lemma io_finalize_immediate:
  "ov_inv io \<Longrightarrow> ov_iostate io = IOSTATE_IMMEDIATE_RETURN \<Longrightarrow> ov_status io = 0 \<Longrightarrow>
     \<exists>io'. io_finalize bad w io le = Inr (int (ov_size io), io', True, le) \<and> ov_iostate io' = IOSTATE_INITIAL \<and>
       ov_buf io' = ov_buf io \<and> ov_buf_init io' = ov_buf_init io \<and> ov_event io' = Some False"
  by (auto simp: io_finalize_def reset_event_def ov_inv_def iostate_defs)

text \<open>What the kernel put at the start of the buffer is the content of the finalized buffer.\<close>

lemma filled_content:
  assumes "buf_inv m b" and "int (length bs) \<le> b_len b" and "write_bytes m (buf_bptr b) bs = Inr m'"
  shows "buf_inv m' (b\<lparr>b_len := int (length bs)\<rparr>)" and "content m' (b\<lparr>b_len := int (length bs)\<rparr>) = bs"
proof -
  have i: "buf_inv m' b" using buf_inv_write [OF assms(3)] assms(1) by simp
  have cap: "b_offset b + int (length bs) \<le> b_capacity b" using assms(1,2) by (simp add: buf_inv_def)
  show j: "buf_inv m' (b\<lparr>b_len := int (length bs)\<rparr>)" using buf_inv_b_len [OF i _ cap] by simp
  have "buf_bptr (b\<lparr>b_len := int (length bs)\<rparr>) = buf_bptr b"
    using buf_inv_ptr [OF i] buf_inv_ptr [OF j] by simp
  then show "content m' (b\<lparr>b_len := int (length bs)\<rparr>) = bs"
    using contentI [OF j] write_then_read [OF assms(3)] by simp
qed

lemma room_for_fill:
  assumes "buf_inv m b" and "int (length bs) \<le> b_len b"
  obtains m' where "write_bytes m (buf_bptr b) bs = Inr m'"
proof -
  have "int (length bs) \<le> b_capacity b - b_offset b" using assms by (simp add: buf_inv_def)
  then show thesis using room_write room_at_smaller [OF buf_inv_room [OF assms(1)]] that by blast
qed

lemma tun_read_queue_started:
  assumes "ov_inv io" and "ov_iostate io = IOSTATE_INITIAL" and "buf_inv m (ov_buf_init io)"
    and "\<forall>bs. r = StartDone bs \<longrightarrow> int (length bs) \<le> b_len (ov_buf_init io)"
  shows "\<exists>io' m'. tun_read_queue m io 0 r = Inr (ov_iostate io', io', m') \<and> ov_inv io' \<and>
     ov_iostate io' \<noteq> IOSTATE_INITIAL \<and> ov_buf io' = ov_buf_init io \<and> ov_buf_init io' = ov_buf_init io \<and>
     buf_inv m' (ov_buf_init io) \<and>
     (r = StartPending \<longrightarrow> ov_iostate io' = IOSTATE_QUEUED \<and> ov_event io' = Some False) \<and>
     (\<forall>bs. r = StartDone bs \<longrightarrow> ov_iostate io' = IOSTATE_IMMEDIATE_RETURN \<and> ov_status io' = 0 \<and>
        ov_size io' = length bs \<and> write_bytes m (buf_bptr (ov_buf_init io)) bs = Inr m')"
proof -
  let ?b = "ov_buf_init io"
  let ?io2 = "io\<lparr>ov_buf := ?b, ov_event := Some False\<rparr>"
  have l: "buf_len ?b = b_len ?b" "0 \<le> b_len ?b"
    using buf_inv_len [OF assms(3)] assms(3) by (simp_all add: buf_inv_def)
  obtain m' where m': "(case r of StartDone bs \<Rightarrow> write_bytes m (buf_bptr ?b) bs | _ \<Rightarrow> Inr m) = Inr m'" "buf_inv m' ?b"
  proof (cases r)
    case (StartDone bs)
    then obtain m' where "write_bytes m (buf_bptr ?b) bs = Inr m'" using room_for_fill [OF assms(3)] assms(4) by blast
    then show thesis using that StartDone buf_inv_write assms(3) by simp
  qed (use that assms(3) in auto)
  obtain io' where io': "io_started ?io2 (map_io_start length r) = Inr io'" "ov_inv io'" "ov_iostate io' \<noteq> IOSTATE_INITIAL"
      "ov_buf io' = ?b" "ov_buf_init io' = ?b"
      "map_io_start length r = StartPending \<longrightarrow> ov_iostate io' = IOSTATE_QUEUED \<and> ov_event io' = Some False"
      "\<forall>n. map_io_start length r = StartDone n \<longrightarrow>
         ov_iostate io' = IOSTATE_IMMEDIATE_RETURN \<and> ov_status io' = 0 \<and> ov_size io' = n"
    using io_started_total [of ?io2 "map_io_start length r"] by auto
  have "tun_read_queue m io 0 r = Inr (ov_iostate io', io', m')"
    using assms(1,2) l m' io'(1) by (cases r) (simp_all add: tun_read_queue_def Let_def reset_event_def ov_inv_def)
  then show ?thesis using io' m' by (intro exI [of _ io'] exI [of _ m']) auto
qed


lemma os_read_completes_total:
  assumes "ov_inv io" and "ov_iostate io = IOSTATE_QUEUED" and "buf_inv m (ov_buf io)" and "int (length bs) \<le> b_len (ov_buf io)"
  shows "\<exists>io' m'. os_read_completes m io bs = Inr (io', m') \<and> io' = io\<lparr>ov_event := Some True\<rparr> \<and>
     write_bytes m (buf_bptr (ov_buf io)) bs = Inr m'"
  using room_for_fill [OF assms(3,4)] by (metis bindE_simps(2) os_read_completes_def)

lemma tun_write_queue_idle:
  assumes "ov_inv io" and "ov_iostate io = IOSTATE_INITIAL"
    and "buf_inv m (ov_buf_init io)" and "b_data (ov_buf_init io) = Ptr k 0"
    and "buf_inv m buf" and "b_data buf = Ptr l 0" and "k \<noteq> l"
    and "b_offset (ov_buf_init io) + b_len buf \<le> b_capacity (ov_buf_init io)"
  shows "\<exists>io' m'. tun_write_queue m io buf r = Inr (ov_iostate io', io', m') \<and> ov_inv io' \<and>
     ov_iostate io' \<noteq> IOSTATE_INITIAL \<and> buf_inv m' (ov_buf io') \<and> content m' (ov_buf io') = content m buf \<and>
     (\<forall>j. j \<noteq> k \<longrightarrow> blocks m' j = blocks m j) \<and> ov_buf_init io' = ov_buf_init io \<and> buf_inv m' (ov_buf_init io)"
proof -
  let ?d = "(ov_buf_init io)\<lparr>b_len := 0\<rparr>"
  have d: "buf_inv m ?d" using buf_inv_b_len [OF assms(3), of 0] assms(3) by (simp add: buf_inv_def)
  have nil: "content m ?d = []" using read_content(2) [OF d] by simp
  obtain m' where m': "buf_copy m ?d buf = Inr (True, ?d\<lparr>b_len := b_len buf\<rparr>, m')" "buf_inv m' (?d\<lparr>b_len := b_len buf\<rparr>)"
      "content m' (?d\<lparr>b_len := b_len buf\<rparr>) = content m buf" "\<forall>j. j \<noteq> k \<longrightarrow> blocks m' j = blocks m j"
    using buf_copy_other [OF d assms(5), of k l] assms(4,6,7,8) nil by auto
  have i: "buf_inv m' (ov_buf_init io)" using m'(2) assms(3) by (simp add: buf_inv_def)
  obtain io' where io': "io_started (io\<lparr>ov_buf := ?d\<lparr>b_len := b_len buf\<rparr>, ov_event := Some False\<rparr>) r = Inr io'"
      "ov_inv io'" "ov_iostate io' \<noteq> IOSTATE_INITIAL" "ov_buf io' = ?d\<lparr>b_len := b_len buf\<rparr>" "ov_buf_init io' = ov_buf_init io"
    using io_started_total [of "io\<lparr>ov_buf := ?d\<lparr>b_len := b_len buf\<rparr>, ov_event := Some False\<rparr>" r] by auto
  have "tun_write_queue m io buf r = Inr (ov_iostate io', io', m')"
    using assms(1,2) m'(1) io'(1) by (simp add: tun_write_queue_def reset_event_def ov_inv_def)
  then show ?thesis using io' m' i by auto
qed

section \<open>The life cycle as a transition system\<close>

text \<open>
  What can happen to the reading side: a read is queued, the kernel completes a pending read with
  no more bytes than were asked for, the result is fetched.
\<close>

inductive ov_step :: "mem \<times> overlapped_io \<Rightarrow> mem \<times> overlapped_io \<Rightarrow> bool" where
  queue: "tun_read_queue m io 0 r = Inr (st, io', m') \<Longrightarrow>
      \<forall>bs. r = StartDone bs \<longrightarrow> int (length bs) \<le> b_len (ov_buf_init io) \<Longrightarrow> ov_step (m, io) (m', io')"
| complete: "ov_iostate io = IOSTATE_QUEUED \<Longrightarrow> os_read_completes m io bs = Inr (io', m') \<Longrightarrow>
      int (length bs) \<le> b_len (ov_buf_init io) \<Longrightarrow> ov_step (m, io) (m', io')"
| fetch: "read_tun_buffered w io buf le = Inr (ret, io', buf', le') \<Longrightarrow> ov_step (m, io) (m, io')"

definition ov_good :: "mem \<times> overlapped_io \<Rightarrow> bool" where
  "ov_good s \<longleftrightarrow> (case s of (m, io) \<Rightarrow> ov_inv io \<and> buf_inv m (ov_buf_init io) \<and>
     (ov_iostate io = IOSTATE_INITIAL \<or> ov_buf io = ov_buf_init io))"

lemma ov_step_good: "ov_step s s' \<Longrightarrow> ov_good s \<Longrightarrow> ov_good s'"
proof (induction rule: ov_step.induct)
  case (queue m io r st io' m')
  show ?case
  proof (cases "ov_iostate io = IOSTATE_INITIAL")
    case True
    then show ?thesis
      using queue tun_read_queue_started [of io m r] by (auto simp: ov_good_def)
  next
    case False
    then show ?thesis using queue by (auto simp: ov_good_def tun_read_queue_def)
  qed
next
  case (complete io m bs io' m')
  then obtain io1 m1 where "os_read_completes m io bs = Inr (io1, m1)" "io1 = io\<lparr>ov_event := Some True\<rparr>"
      "write_bytes m (buf_bptr (ov_buf io)) bs = Inr m1"
    using os_read_completes_total [of io m bs] by (auto simp: ov_good_def iostate_defs)
  then show ?case using complete buf_inv_write by (auto simp: ov_good_def ov_inv_def)
next
  case (fetch w io buf le ret io' buf' le' m)
  then show ?case
    using io_finalize_total [of io ERROR_INVALID_FUNCTION w le]
    by (auto simp: ov_good_def read_tun_buffered_def tun_finalize_def)
qed

lemma ov_steps_good: "ov_step\<^sup>*\<^sup>* s s' \<Longrightarrow> ov_good s \<Longrightarrow> ov_good s'"
  by (induction rule: rtranclp_induct) (auto intro: ov_step_good)

section \<open>Properties\<close>

text \<open>
  C20: From a fresh structure, whatever order of queueing, kernel completions and fetches happens,
  the structure stays well typed: the I/O state is one of its three constants (the default
  branch with \<open>ASSERT(0)\<close> is dead), a waiting result keeps the event signaled, and in every
  reachable state the next queueing and the next fetch return without any failure.
\<close>

theorem overlapped_type_sound:
  assumes "overlapped_io_init m frame ev True True = Inr (io0, m0)" and "frame_wf frame" and "\<not> oom m (nxt m)"
    and "ov_step\<^sup>*\<^sup>* (m0, io0) (m1, io1)"
    and "\<forall>bs. r = StartDone bs \<longrightarrow> int (length bs) \<le> b_len (ov_buf_init io1)"
  shows "ov_inv io1 \<and> (\<exists>st io2 m2. tun_read_queue m1 io1 0 r = Inr (st, io2, m2) \<and> st \<noteq> IOSTATE_INITIAL) \<and>
     (\<exists>ret io2 b le'. read_tun_buffered w io1 buf le = Inr (ret, io2, Some b, le') \<and> b_len b = ret)"
proof -
  have "ov_good (m0, io0)"
  proof -
    obtain b where b: "alloc_buf_sock_tun m frame True 0 = Inr (b, m0)" "io0 = ov_clear\<lparr>ov_event := Some ev, ov_buf_init := b\<rparr>"
      using assms(1) by (auto simp: overlapped_io_init_def bindE_Inr_iff)
    then have "buf_inv m0 b"
      using alloc_buf_sock_tun_cases [OF assms(2,3), where tun = True and msk = 0]
      by (cases "frame_delta frame 0 \<le> extra_buffer frame + (if True then extra_frame frame + extra_link frame else 0)") auto
    then show ?thesis using b(2) by (simp add: ov_good_def ov_inv_def ov_clear_def iostate_defs)
  qed
  then have g: "ov_inv io1" "buf_inv m1 (ov_buf_init io1)" using ov_steps_good [OF assms(4)] by (auto simp: ov_good_def)
  moreover have "\<exists>st io2 m2. tun_read_queue m1 io1 0 r = Inr (st, io2, m2) \<and> st \<noteq> IOSTATE_INITIAL"
  proof (cases "ov_iostate io1 = IOSTATE_INITIAL")
    case True
    then show ?thesis using tun_read_queue_started [OF g(1) _ g(2) assms(5)] by blast
  qed (simp add: tun_read_queue_def)
  moreover have "\<exists>ret io2 b le'. read_tun_buffered w io1 buf le = Inr (ret, io2, Some b, le') \<and> b_len b = ret"
    using io_finalize_total [OF g(1), of ERROR_INVALID_FUNCTION w le]
    by (auto simp: read_tun_buffered_def tun_finalize_def finalized_buf_def)
  ultimately show ?thesis by blast
qed

theorem overlapped_type_sound_witness:
  "\<exists>m0 io0. overlapped_io_init empty_mem \<lparr>link_mtu = 100, link_mtu_dynamic = 100, extra_frame = 0, extra_buffer = 0,
       extra_tun = 0, extra_link = 0, align_flags = 0, align_adjust = 0\<rparr> False True True = Inr (io0, m0) \<and>
     (\<exists>st io2 m2. tun_read_queue m0 io0 0 StartPending = Inr (st, io2, m2) \<and> st \<noteq> IOSTATE_INITIAL)"
proof -
  let ?f = "\<lparr>link_mtu = 100, link_mtu_dynamic = 100, extra_frame = 0, extra_buffer = 0,
       extra_tun = 0, extra_link = 0, align_flags = 0, align_adjust = 0\<rparr>"
  have wf: "frame_wf ?f"
    by (simp add: frame_wf_def TUN_MTU_MIN_def TUN_MTU_SIZE_def TUN_LINK_DELTA_def BUF_SIZE_def FRAME_HEADROOM_BASE_def BUF_SIZE_MAX_def)
  have o: "\<not> oom empty_mem (nxt empty_mem)" by (simp add: empty_mem_def)
  have d: "frame_delta ?f 0 = 0" by (simp add: frame_delta_def FRAME_HEADROOM_BASE_def TUN_LINK_DELTA_def)
  obtain b m0 where "alloc_buf_sock_tun empty_mem ?f True 0 = Inr (b, m0)"
    using alloc_buf_sock_tun_cases(1) [OF wf o, where tun = True and msk = 0] d by auto
  then have i: "overlapped_io_init empty_mem ?f False True True = Inr (ov_clear\<lparr>ov_event := Some False, ov_buf_init := b\<rparr>, m0)"
    by (simp add: overlapped_io_init_def)
  show ?thesis
    using overlapped_type_sound [OF i wf o rtranclp.rtrancl_refl, of StartPending WaitIncomplete clear_buf 0] i by auto
qed

text \<open>
  A read hands over exactly the bytes the kernel delivered, and leaves the structure ready for
  the next one: at once if the read completes at once, otherwise after any poll that finds it
  incomplete (which returns -1 and changes nothing) once the kernel has completed it.
\<close>

lemma tun_read_delivers:
  assumes "ov_inv io" and "ov_iostate io = IOSTATE_INITIAL" and "buf_inv m (ov_buf_init io)"
    and "int (length bs) \<le> b_len (ov_buf_init io)"
  shows "(\<exists>io1 m1 io2 b. tun_read_queue m io 0 (StartDone bs) = Inr (IOSTATE_IMMEDIATE_RETURN, io1, m1) \<and>
            read_tun_buffered w io1 buf le = Inr (int (length bs), io2, Some b, le) \<and>
            content m1 b = bs \<and> ov_iostate io2 = IOSTATE_INITIAL) \<and>
         (\<exists>io1 io2 m2 io3 b. tun_read_queue m io 0 StartPending = Inr (IOSTATE_QUEUED, io1, m) \<and>
            read_tun_buffered WaitIncomplete io1 buf le = Inr (-1, io1, Some (buf\<lparr>b_len := -1\<rparr>), ERROR_IO_INCOMPLETE) \<and>
            os_read_completes m io1 bs = Inr (io2, m2) \<and>
            read_tun_buffered (WaitDone (length bs)) io2 buf le = Inr (int (length bs), io3, Some b, le) \<and>
            content m2 b = bs \<and> ov_iostate io3 = IOSTATE_INITIAL)"
proof (rule conjI)
  let ?b = "ov_buf_init io"
  obtain io1 m1 where 1: "tun_read_queue m io 0 (StartDone bs) = Inr (IOSTATE_IMMEDIATE_RETURN, io1, m1)" "ov_inv io1"
      "ov_iostate io1 = IOSTATE_IMMEDIATE_RETURN" "ov_status io1 = 0" "ov_size io1 = length bs" "ov_buf io1 = ?b"
      "write_bytes m (buf_bptr ?b) bs = Inr m1"
    using tun_read_queue_started [OF assms(1-3), of "StartDone bs"] assms(4) by auto
  then obtain io2 where 2: "io_finalize ERROR_INVALID_FUNCTION w io1 le = Inr (int (length bs), io2, True, le)"
      "ov_iostate io2 = IOSTATE_INITIAL" "ov_buf io2 = ?b"
    using io_finalize_immediate [of io1 ERROR_INVALID_FUNCTION w le] by auto
  then show "\<exists>io1 m1 io2 b. tun_read_queue m io 0 (StartDone bs) = Inr (IOSTATE_IMMEDIATE_RETURN, io1, m1) \<and>
            read_tun_buffered w io1 buf le = Inr (int (length bs), io2, Some b, le) \<and>
            content m1 b = bs \<and> ov_iostate io2 = IOSTATE_INITIAL"
    using 1 filled_content(2) [OF assms(3,4) 1(7)]
    by (auto simp: read_tun_buffered_def tun_finalize_def finalized_buf_def)
next
  let ?b = "ov_buf_init io"
  obtain io1 where 1: "tun_read_queue m io 0 StartPending = Inr (IOSTATE_QUEUED, io1, m)" "ov_inv io1"
      "ov_iostate io1 = IOSTATE_QUEUED" "ov_buf io1 = ?b"
    using tun_read_queue_started [OF assms(1-3), of StartPending] assms(2)
    by (auto simp: tun_read_queue_def Let_def bindE_Inr_iff io_started_def)
  obtain m2 where 2: "os_read_completes m io1 bs = Inr (io1\<lparr>ov_event := Some True\<rparr>, m2)" "write_bytes m (buf_bptr ?b) bs = Inr m2"
    using os_read_completes_total [OF 1(2,3), of m bs] 1(4) assms(3,4) by auto
  have "ov_inv (io1\<lparr>ov_event := Some True\<rparr>)" using 1(2) by (simp add: ov_inv_def)
  then obtain io3 where 3: "io_finalize ERROR_INVALID_FUNCTION (WaitDone (length bs)) (io1\<lparr>ov_event := Some True\<rparr>) le =
        Inr (int (length bs), io3, True, le)" "ov_iostate io3 = IOSTATE_INITIAL" "ov_buf io3 = ?b"
    using io_finalize_done [of "io1\<lparr>ov_event := Some True\<rparr>" ERROR_INVALID_FUNCTION "length bs" le] 1(3,4) by auto
  have 4: "io_finalize ERROR_INVALID_FUNCTION WaitIncomplete io1 le = Inr (-1, io1, False, ERROR_IO_INCOMPLETE)"
    using 1(3) by (simp add: io_finalize_def)
  show "\<exists>io1 io2 m2 io3 b. tun_read_queue m io 0 StartPending = Inr (IOSTATE_QUEUED, io1, m) \<and>
            read_tun_buffered WaitIncomplete io1 buf le = Inr (-1, io1, Some (buf\<lparr>b_len := -1\<rparr>), ERROR_IO_INCOMPLETE) \<and>
            os_read_completes m io1 bs = Inr (io2, m2) \<and>
            read_tun_buffered (WaitDone (length bs)) io2 buf le = Inr (int (length bs), io3, Some b, le) \<and>
            content m2 b = bs \<and> ov_iostate io3 = IOSTATE_INITIAL"
    using 1 2(1) 3 4 filled_content(2) [OF assms(3,4) 2(2)]
    by (auto simp: read_tun_buffered_def tun_finalize_def finalized_buf_def)
qed

lemma write_settles:
  assumes "ov_inv io" and "\<not> (ov_iostate io = IOSTATE_QUEUED \<and> w = WaitIncomplete)"
  shows "\<exists>io1 st le1. ov_inv io1 \<and> ov_iostate io1 = IOSTATE_INITIAL \<and> ov_buf_init io1 = ov_buf_init io \<and>
     (ov_iostate io = IOSTATE_INITIAL \<longrightarrow> st = 0) \<and>
     tun_write_win32 m io buf w r le = bindE (tun_write_queue m io1 buf r)
       (\<lambda>(_, io2, m1). Inr (if st < 0 then st else buf_len buf, io2, m1, le1))"
proof (cases "overlapped_io_active io")
  case True
  then have ni: "ov_iostate io \<noteq> IOSTATE_INITIAL" by (auto simp: overlapped_io_active_def iostate_defs)
  obtain st io1 d le1 where f: "io_finalize ERROR_INVALID_FUNCTION w io le = Inr (st, io1, d, le1)" "ov_inv io1"
      "ov_buf_init io1 = ov_buf_init io" "ov_iostate io1 = IOSTATE_INITIAL"
    using io_finalize_total [OF assms(1), of ERROR_INVALID_FUNCTION w le] assms(2) by auto
  have "tun_write_win32 m io buf w r le = bindE (tun_write_queue m io1 buf r)
       (\<lambda>(_, io2, m1). Inr (if st < 0 then st else buf_len buf, io2, m1, le1))"
    by (simp add: tun_write_win32_def True tun_finalize_def f(1))
  then show ?thesis using f ni by blast
next
  case False
  then have "ov_iostate io = IOSTATE_INITIAL" using assms(1) by (auto simp: ov_inv_def overlapped_io_active_def)
  moreover have "tun_write_win32 m io buf w r le = bindE (tun_write_queue m io buf r)
       (\<lambda>(_, io2, m1). Inr (if (0::int) < 0 then 0 else buf_len buf, io2, m1, le))"
    by (simp add: tun_write_win32_def False)
  ultimately show ?thesis using assms(1) by blast
qed

text \<open>
  Writing to the device hands the kernel a private copy: after \<open>tun_write_win32\<close> the structure's
  own buffer holds the bytes of the caller's buffer, which may be reused at once. The only
  exception is a previous write that is still incomplete: then the call reports -1 and the packet
  is dropped, with nothing changed.
\<close>

lemma tun_write_private_copy:
  assumes "ov_inv io" and "buf_inv m (ov_buf_init io)" and "b_data (ov_buf_init io) = Ptr k 0"
    and "buf_inv m buf" and "b_data buf = Ptr l 0" and "k \<noteq> l"
    and "b_offset (ov_buf_init io) + b_len buf \<le> b_capacity (ov_buf_init io)"
  shows "\<exists>ret io' m' le'. tun_write_win32 m io buf w r le = Inr (ret, io', m', le') \<and> ov_inv io' \<and>
     (if ov_iostate io = IOSTATE_QUEUED \<and> w = WaitIncomplete then ret = -1 \<and> io' = io \<and> m' = m
      else content m' (ov_buf io') = content m buf \<and> content m' buf = content m buf \<and> ov_iostate io' \<noteq> IOSTATE_INITIAL \<and>
           (ov_iostate io = IOSTATE_INITIAL \<longrightarrow> ret = b_len buf))"
proof -
  have len: "0 \<le> b_len buf" "buf_len buf = b_len buf" using buf_inv_len [OF assms(4)] assms(4) by (simp_all add: buf_inv_def)
  show ?thesis
  proof (cases "ov_iostate io = IOSTATE_QUEUED \<and> w = WaitIncomplete")
    case True
    then show ?thesis using assms(1)
      by (auto simp: tun_write_win32_def overlapped_io_active_def tun_finalize_def io_finalize_def tun_write_queue_def iostate_defs)
  next
    case False
    obtain io1 st le1 where fin: "ov_inv io1" "ov_iostate io1 = IOSTATE_INITIAL" "ov_buf_init io1 = ov_buf_init io"
        "ov_iostate io = IOSTATE_INITIAL \<longrightarrow> st = 0"
      and run: "tun_write_win32 m io buf w r le = bindE (tun_write_queue m io1 buf r)
         (\<lambda>(_, io2, m1). Inr (if st < 0 then st else buf_len buf, io2, m1, le1))"
      using write_settles [OF assms(1), of w m buf r le] False by blast
    obtain io' m' where q: "tun_write_queue m io1 buf r = Inr (ov_iostate io', io', m')" "ov_inv io'"
        "ov_iostate io' \<noteq> IOSTATE_INITIAL" "content m' (ov_buf io') = content m buf" "\<forall>j. j \<noteq> k \<longrightarrow> blocks m' j = blocks m j"
      using tun_write_queue_idle [OF fin(1,2) _ _ assms(4-6), of r, unfolded fin(3), OF assms(2,3,7)] by blast
    have c: "content m' buf = content m buf" by (rule content_simple [OF assms(5)]) (use q(5) assms(6) in auto)
    have "tun_write_win32 m io buf w r le = Inr (if st < 0 then st else b_len buf, io', m', le1)"
      by (simp add: run q(1) len(2))
    moreover have "ov_iostate io = IOSTATE_INITIAL \<longrightarrow> (if st < 0 then st else b_len buf) = b_len buf" using fin(4) by simp
    ultimately show ?thesis unfolding if_not_P [OF False]
      using q(2,3,4) c by (intro exI [of _ "if st < 0 then st else b_len buf"] exI [of _ io'] exI [of _ m'] exI [of _ le1]) simp
  qed
qed

end
