(* ===== verification/Wintun_Ring.thy ===== *)
theory Wintun_Ring
  imports Overlapped
begin

text \<open>
  The packet rings shared with the wintun driver: \<open>src/Treiber/lib/ring_buffer.h\<close> and the
  reading and writing of packets in \<open>tun.h\<close>. The data area is a function with an explicit bound
  (its 0x810000 bytes), a read or write past it is \<open>MemFault\<close>. The driver runs concurrently:
  it may move the tail of the send ring and the head of the receive ring between two calls, so
  no theorem below assumes anything about the index of the other side but where it says so.
  The indices of a ring are read once per call, into local copies; the size of a packet is read three
  times, and the driver may write the data area in between: \<open>read_wintun\<close> has the data area at
  the second and at the third time as arguments.
\<close>

unbundle bit_operations_syntax

section \<open>Rings\<close>

definition WINTUN_RING_CAPACITY :: "32 word" where "WINTUN_RING_CAPACITY = 0x800000"
definition WINTUN_RING_TRAILING_BYTES :: "32 word" where "WINTUN_RING_TRAILING_BYTES = 0x10000"
definition WINTUN_MAX_PACKET_SIZE :: "32 word" where "WINTUN_MAX_PACKET_SIZE = 0xffff"
definition WINTUN_PACKET_ALIGN :: "32 word" where "WINTUN_PACKET_ALIGN = 4"

record tun_ring =
  tr_head :: "32 word"
  tr_tail :: "32 word"
  tr_alertable :: int
  tr_data :: "nat \<Rightarrow> byte"

definition RING_BYTES :: nat where "RING_BYTES = 0x810000"

definition ring_read :: "tun_ring \<Rightarrow> nat \<Rightarrow> nat \<Rightarrow> fault + byte list" where
  "ring_read r i n = (if i + n \<le> RING_BYTES then Inr (map (tr_data r) [i..<i + n]) else Inl MemFault)"

definition ring_write :: "tun_ring \<Rightarrow> nat \<Rightarrow> byte list \<Rightarrow> fault + tun_ring" where
  "ring_write r i bs =
     (if i + length bs \<le> RING_BYTES
      then Inr (r\<lparr>tr_data := (\<lambda>j. if i \<le> j \<and> j < i + length bs then bs ! (j - i) else tr_data r j)\<rparr>)
      else Inl MemFault)"

text \<open>A 32-bit field in the byte order of the machine.\<close>

definition le32 :: "32 word \<Rightarrow> byte list" where "le32 w = rev (be32 w)"
definition from_le :: "byte list \<Rightarrow> nat" where "from_le bs = from_be (rev bs)"

text \<open>
  The fields of \<open>struct tuntap\<close> that the packet path uses. \<open>tt_write_events\<close> counts the calls of
  \<open>SetEvent\<close> that tell the driver of new data.
\<close>

record tuntap =
  tt_hand :: bool
  tt_wintun :: bool
  tt_reads :: overlapped_io
  tt_writes :: overlapped_io
  tt_send_ring :: tun_ring
  tt_receive_ring :: tun_ring
  tt_write_events :: nat

definition tuntap_defined :: "tuntap option \<Rightarrow> bool" where
  "tuntap_defined tt = (case tt of None \<Rightarrow> False | Some t \<Rightarrow> tt_hand t)"

definition tuntap_is_wintun :: "tuntap option \<Rightarrow> bool" where
  "tuntap_is_wintun tt = (case tt of None \<Rightarrow> False | Some t \<Rightarrow> tt_wintun t)"

definition tuntap_ring_empty :: "tuntap option \<Rightarrow> bool" where
  "tuntap_ring_empty tt =
     (case tt of None \<Rightarrow> False | Some t \<Rightarrow> tt_wintun t \<and> tr_head (tt_send_ring t) = tr_tail (tt_send_ring t))"

definition wintun_ring_packet_align :: "32 word \<Rightarrow> 32 word" where
  "wintun_ring_packet_align sz = (sz + (WINTUN_PACKET_ALIGN - 1)) AND NOT (WINTUN_PACKET_ALIGN - 1)"

definition wintun_ring_wrap :: "32 word \<Rightarrow> 32 word" where
  "wintun_ring_wrap value = value AND (WINTUN_RING_CAPACITY - 1)"

section \<open>Reading a packet\<close>

text \<open>\<open>buf_write\<close> with the source in the ring; its size is a C \<open>int\<close>.\<close>

definition buf_write_ring :: "mem \<Rightarrow> buffer \<Rightarrow> tun_ring \<Rightarrow> nat \<Rightarrow> int \<Rightarrow> fault + buffer \<times> mem" where
  "buf_write_ring m buf ring i n =
     (case buf_write_alloc buf n of
        (buf1, cp) \<Rightarrow>
          if cp = Null then Inr (buf1, m)
          else bindE (ring_read ring i (nat n)) (\<lambda>bs. bindE (write_bytes m cp bs) (\<lambda>m1. Inr (buf1, m1))))"

text \<open>\<open>packet->size\<close>, read from the ring.\<close>

definition packet_size :: "tun_ring \<Rightarrow> 32 word \<Rightarrow> fault + 32 word" where
  "packet_size ring head = bindE (ring_read ring (unat head) 4) (\<lambda>hdr. Inr (of_nat (from_le hdr)))"

text \<open>
  \<open>d2\<close> is the data area when the size is read for the alignment, \<open>d3\<close> when it is read for the copy, which
  takes the bytes of the packet from there too.
\<close>

definition read_wintun :: "mem \<Rightarrow> tuntap \<Rightarrow> (nat \<Rightarrow> byte) \<Rightarrow> (nat \<Rightarrow> byte) \<Rightarrow> fault + buffer \<times> tuntap \<times> mem" where
  "read_wintun m tt d2 d3 =
     (let ring = tt_send_ring tt; head = tr_head ring; tail = tr_tail ring;
          ring2 = ring\<lparr>tr_data := d2\<rparr>; ring3 = ring\<lparr>tr_data := d3\<rparr>;
          buf = (ov_buf_init (tt_reads tt))\<lparr>b_len := 0\<rparr>; bad = buf\<lparr>b_len := -1\<rparr>
      in if head \<ge> WINTUN_RING_CAPACITY \<or> tail \<ge> WINTUN_RING_CAPACITY then Inr (bad, tt, m)
         else if head = tail then Inr (buf, tt, m)
         else (let content_len = wintun_ring_wrap (tail - head)
               in if content_len < 4 then Inr (bad, tt, m)
                  else bindE (packet_size ring head)
                    (\<lambda>sz. if sz > WINTUN_MAX_PACKET_SIZE then Inr (bad, tt, m)
                      else bindE (packet_size ring2 head)
                        (\<lambda>sz2. let aligned_packet_size = wintun_ring_packet_align (4 + sz2)
                           in if aligned_packet_size > content_len then Inr (bad, tt\<lparr>tt_send_ring := ring2\<rparr>, m)
                              else bindE (packet_size ring3 head)
                                (\<lambda>sz3. bindE (buf_write_ring m buf ring3 (unat head + 4) (sint sz3))
                                  (\<lambda>(buf1, m1).
                                     Inr (buf1,
                                          tt\<lparr>tt_send_ring := ring3\<lparr>tr_head := wintun_ring_wrap (head + aligned_packet_size)\<rparr>\<rparr>,
                                          m1)))))))"

text \<open>A call during which the driver leaves the packet alone.\<close>

definition read_wintun_alone :: "mem \<Rightarrow> tuntap \<Rightarrow> fault + buffer \<times> tuntap \<times> mem" where
  "read_wintun_alone m tt = read_wintun m tt (tr_data (tt_send_ring tt)) (tr_data (tt_send_ring tt))"

section \<open>Writing a packet\<close>

definition is_ip_packet_valid :: "mem \<Rightarrow> buffer \<Rightarrow> fault + bool" where
  "is_ip_packet_valid m buf =
     bindE (load m (buf_bptr buf))
       (\<lambda>version_len. let ver = drop_bit 4 version_len AND 0x0F
          in if ver = 4 then Inr (\<not> buf_len buf < 20)
             else if ver = 6 then Inr (\<not> buf_len buf < 40)
             else Inr False)"

definition write_wintun :: "mem \<Rightarrow> tuntap \<Rightarrow> buffer \<Rightarrow> fault + int \<times> tuntap" where
  "write_wintun m tt buf =
     (let ring = tt_receive_ring tt; head = tr_head ring; tail = tr_tail ring
      in bindE (is_ip_packet_valid m buf)
        (\<lambda>valid. if \<not> valid then Inr (0, tt)
           else if head \<ge> WINTUN_RING_CAPACITY \<or> tail \<ge> WINTUN_RING_CAPACITY then Inr (-1, tt)
           else (let aligned_packet_size = wintun_ring_packet_align (word_of_int (4 + buf_len buf));
                     buf_space = wintun_ring_wrap (head - tail - WINTUN_PACKET_ALIGN)
                 in if aligned_packet_size > buf_space then Inr (0, tt)
                    else bindE (ring_write ring (unat tail) (le32 (word_of_int (buf_len buf))))
                      (\<lambda>r1. bindE (read_bytes m (buf_bptr buf) (buf_len buf))
                        (\<lambda>bs. bindE (ring_write r1 (unat tail + 4) bs)
                          (\<lambda>r2. Inr (buf_len buf,
                             tt\<lparr>tt_receive_ring := r2\<lparr>tr_tail := wintun_ring_wrap (tail + aligned_packet_size)\<rparr>,
                                tt_write_events := (if tr_alertable ring \<noteq> 0 then tt_write_events tt + 1
                                                    else tt_write_events tt)\<rparr>)))))))"

definition write_tun_buffered ::
  "mem \<Rightarrow> tuntap \<Rightarrow> buffer \<Rightarrow> io_wait \<Rightarrow> nat io_start \<Rightarrow> int \<Rightarrow> fault + int \<times> tuntap \<times> mem \<times> int" where
  "write_tun_buffered m tt buf w r le =
     (if tt_wintun tt then bindE (write_wintun m tt buf) (\<lambda>(n, tt1). Inr (n, tt1, m, le))
      else bindE (tun_write_win32 m (tt_writes tt) buf w r le)
             (\<lambda>(n, writes1, m1, le1). Inr (n, tt\<lparr>tt_writes := writes1\<rparr>, m1, le1)))"

section \<open>Index arithmetic\<close>

lemma unat_wrap: "unat (wintun_ring_wrap w) = unat w mod 0x800000"
proof -
  have "wintun_ring_wrap w = take_bit 23 w"
    by (simp add: wintun_ring_wrap_def WINTUN_RING_CAPACITY_def take_bit_eq_mask mask_eq_exp_minus_1)
  then show ?thesis by (simp add: take_bit_eq_mod unat_mod_distrib)
qed

lemma wrap_less: "unat (wintun_ring_wrap w) < 0x800000"
  by (simp add: unat_wrap)

lemma unat_align: "unat s + 3 < 2 ^ 32 \<Longrightarrow> unat (wintun_ring_packet_align s) = (unat s + 3) div 4 * 4"
proof -
  assume s: "unat s + 3 < 2 ^ 32"
  have "w AND NOT (mask 2) = push_bit 2 (drop_bit 2 w)" for w :: "32 word"
  proof (rule bit_word_eqI)
    fix n
    have "2 \<le> n \<Longrightarrow> Suc (Suc (n - 2)) = n" by simp
    then show "n < LENGTH(32) \<Longrightarrow> bit (w AND NOT (mask 2)) n = bit (push_bit 2 (drop_bit 2 w)) n"
      by (auto simp: bit_simps not_less)
  qed
  moreover have "NOT (mask 2) = NOT (3 :: 32 word)" by (simp add: mask_eq_exp_minus_1)
  ultimately have "wintun_ring_packet_align s = push_bit 2 (drop_bit 2 (s + 3))"
    by (simp add: wintun_ring_packet_align_def WINTUN_PACKET_ALIGN_def)
  moreover have "unat (s + 3) = unat s + 3" using s by (simp add: unat_word_ariths)
  ultimately show ?thesis using s
    by (simp add: push_bit_eq_mult drop_bit_eq_div unat_word_ariths unat_div_distrib mult.commute)
qed

lemma wrap_add: "unat (wintun_ring_wrap (a + b)) = (unat a + unat b) mod 0x800000"
  by (simp add: unat_wrap unat_word_ariths mod_mod_cancel)

lemma wrap_diff: "int (unat (wintun_ring_wrap (a - b))) = (int (unat a) - int (unat b)) mod 0x800000"
proof -
  have "int (unat (wintun_ring_wrap (a - b))) = uint (a - b) mod 0x800000" by (simp add: unat_wrap zmod_int)
  also have "\<dots> = (uint a - uint b) mod 0x800000" by (simp add: uint_word_ariths mod_mod_cancel)
  finally show ?thesis by simp
qed

section \<open>The queue a ring holds\<close>

text \<open>\<open>CAP\<close> is the capacity as a number. A packet takes a whole number of 4-byte units.\<close>

definition CAP :: nat where "CAP = 0x800000"

definition span :: "byte list \<Rightarrow> nat" where
  "span p = (4 + length p + 3) div 4 * 4"

definition total :: "byte list list \<Rightarrow> nat" where
  "total ps = sum_list (map span ps)"

lemma total_simps [simp]: "total [] = 0" "total (p # ps) = span p + total ps" "total (ps @ qs) = total ps + total qs"
  by (simp_all add: total_def)

definition packet_at :: "(nat \<Rightarrow> byte) \<Rightarrow> nat \<Rightarrow> byte list \<Rightarrow> bool" where
  "packet_at d h p \<longleftrightarrow>
     map d [h..<h + 4] = le32 (of_nat (length p)) \<and> map d [h + 4..<h + 4 + length p] = p"

fun packets_from :: "(nat \<Rightarrow> byte) \<Rightarrow> nat \<Rightarrow> byte list list \<Rightarrow> bool" where
  "packets_from d h [] \<longleftrightarrow> True"
| "packets_from d h (p # ps) \<longleftrightarrow> packet_at d h p \<and> packets_from d ((h + span p) mod CAP) ps"

text \<open>The ring holds the packets \<open>ps\<close>, oldest first.\<close>

definition ring_rep :: "tun_ring \<Rightarrow> byte list list \<Rightarrow> bool" where
  "ring_rep r ps \<longleftrightarrow>
     unat (tr_head r) < CAP \<and> unat (tr_head r) mod 4 = 0 \<and>
     unat (tr_tail r) = (unat (tr_head r) + total ps) mod CAP \<and> total ps \<le> CAP - 4 \<and>
     list_all (\<lambda>p. length p \<le> 0xffff) ps \<and> packets_from (tr_data r) (unat (tr_head r)) ps"

lemma span_ge: "length p + 4 \<le> span p" "span p mod 4 = 0" "4 \<le> span p" "span p \<le> length p + 7"
  by (auto simp: span_def)

lemma packets_from_append:
  "packets_from d h (ps @ qs) \<longleftrightarrow> packets_from d h ps \<and> packets_from d ((h + total ps) mod CAP) qs" if "h < CAP"
  using that
proof (induction ps arbitrary: h)
  case (Cons p ps)
  have "((h + span p) mod CAP + total ps) mod CAP = (h + (span p + total ps)) mod CAP"
    by (simp add: mod_add_left_eq add.assoc)
  then show ?case using Cons by (simp add: CAP_def)
qed simp

text \<open>Two stretches of the circle that follow each other within one turn do not meet in the array.\<close>

lemma stretches_disjoint:
  assumes "h < CAP" and "a + m \<le> b" and "b + n \<le> CAP"
    and "(h + a) mod CAP \<le> i" and "i < (h + a) mod CAP + m"
    and "(h + b) mod CAP \<le> i"
  shows "(h + b) mod CAP + n \<le> i"
proof -
  have a: "a < CAP" "b \<le> CAP" using assms by auto
  consider "h + b < CAP" | "h + a < CAP" "CAP \<le> h + b" | "CAP \<le> h + a" by linarith
  then show ?thesis
  proof cases
    case 1
    then show ?thesis using assms by simp
  next
    case 2
    have e: "(h + b) mod CAP = h + b - CAP" using 2(2) assms(1,3) a by (simp add: mod_if)
    show ?thesis using assms 2 unfolding e by (simp add: mod_if)
  next
    case 3
    have "(h + a) mod CAP = h + a - CAP" "(h + b) mod CAP = h + b - CAP" using 3 assms(1,2,3) a by (simp_all add: mod_if)
    then show ?thesis using assms 3 by linarith
  qed
qed

lemma packets_frame:
  assumes "h < CAP" and "packets_from d ((h + a) mod CAP) ps" and "a + total ps \<le> b" and "b + n \<le> CAP"
    and "\<And>i. \<not> ((h + b) mod CAP \<le> i \<and> i < (h + b) mod CAP + n) \<Longrightarrow> d' i = d i"
  shows "packets_from d' ((h + a) mod CAP) ps"
  using assms(2,3)
proof (induction ps arbitrary: a)
  case (Cons p ps)
  have nx: "((h + a) mod CAP + span p) mod CAP = (h + (a + span p)) mod CAP"
    by (simp add: mod_add_left_eq add.assoc)
  have same: "d' i = d i" if "(h + a) mod CAP \<le> i" "i < (h + a) mod CAP + span p" for i
  proof (rule assms(5))
    show "\<not> ((h + b) mod CAP \<le> i \<and> i < (h + b) mod CAP + n)"
      using stretches_disjoint [OF assms(1) _ assms(4) that] Cons.prems(2) by auto
  qed
  let ?x = "(h + a) mod CAP"
  have "map d' [?x..<?x + 4] = map d [?x..<?x + 4]" "map d' [?x + 4..<?x + 4 + length p] = map d [?x + 4..<?x + 4 + length p]"
    using same span_ge(1) [of p] by auto
  then have "packet_at d' ?x p" using Cons.prems(1) by (simp only: packet_at_def packets_from.simps)
  moreover have "packets_from d' ((h + (a + span p)) mod CAP) ps"
    using Cons.IH [of "a + span p"] Cons.prems by (simp add: nx)
  ultimately show ?case by (simp add: nx)
qed simp

lemma from_le_le32: "from_le (le32 w) = unat w"
  by (simp add: from_le_def le32_def from_be_be32)

lemma ring_read_packet:
  assumes "packet_at (tr_data r) h p" and "h < CAP" and "length p \<le> 0xffff" and "h mod 4 = 0"
  shows "ring_read r h 4 = Inr (le32 (of_nat (length p)))" and "ring_read r (h + 4) (length p) = Inr p"
proof -
  have "h + 4 \<le> CAP" using assms(2,4) by (simp add: CAP_def) presburger
  then show "ring_read r h 4 = Inr (le32 (of_nat (length p)))" "ring_read r (h + 4) (length p) = Inr p"
    using assms by (simp_all add: ring_read_def packet_at_def RING_BYTES_def CAP_def)
qed

lemma unat_of_len: "n \<le> 0xffff \<Longrightarrow> unat (of_nat n :: 32 word) = n"
  by (simp add: unat_of_nat)

lemma unat_align_packet: "length p \<le> 0xffff \<Longrightarrow> unat (wintun_ring_packet_align (4 + of_nat (length p))) = span p"
proof -
  assume l: "length p \<le> 0xffff"
  then have "unat (4 + of_nat (length p) :: 32 word) = 4 + length p"
    by (simp add: unat_word_ariths unat_of_nat)
  then show ?thesis using l by (simp add: unat_align span_def)
qed


lemma int_unat_add4: "int (unat (w + 4)) = (int (unat w) + 4) mod 2 ^ 32" for w :: "32 word"
proof -
  have "unat (w + 4) = (unat w + 4) mod 2 ^ 32" by (simp add: unat_word_ariths)
  then show ?thesis by (simp only: zmod_int of_nat_add) simp
qed

text \<open>The free space the writer computes is the capacity less the stored packets and one unit.\<close>

lemma ring_space:
  assumes "ring_rep r ps"
  shows "unat (wintun_ring_wrap (tr_head r - tr_tail r - WINTUN_PACKET_ALIGN)) = CAP - 4 - total ps"
    and "unat (wintun_ring_wrap (tr_tail r - tr_head r)) = total ps"
proof -
  let ?h = "int (unat (tr_head r))" and ?t = "int (unat (tr_tail r))" and ?n = "int (total ps)"
  have t: "?t = (?h + ?n) mod 0x800000" and n: "0 \<le> ?n" "?n \<le> 0x800000 - 4"
    using assms by (simp_all add: ring_rep_def CAP_def zmod_int)
  have "int (unat (wintun_ring_wrap (tr_tail r - tr_head r))) = (?h + ?n - ?h) mod 0x800000"
    unfolding wrap_diff t by (rule mod_diff_left_eq)
  also have "\<dots> = ?n" using n by simp
  finally show "unat (wintun_ring_wrap (tr_tail r - tr_head r)) = total ps" by (simp only: of_nat_eq_iff)
  have e: "tr_head r - tr_tail r - WINTUN_PACKET_ALIGN = tr_head r - (tr_tail r + 4)"
    by (simp add: WINTUN_PACKET_ALIGN_def)
  have "int (unat (wintun_ring_wrap (tr_head r - tr_tail r - WINTUN_PACKET_ALIGN))) =
      (?h - int (unat (tr_tail r + 4))) mod 0x800000"
    unfolding e by (rule wrap_diff)
  also have "int (unat (tr_tail r + 4)) = (?t + 4) mod 2 ^ 32"
    by (rule int_unat_add4)
  also have "(?h - (?t + 4) mod 2 ^ 32) mod 0x800000 = (?h - (?t + 4) mod 2 ^ 32 mod 0x800000) mod 0x800000"
    by (rule mod_diff_right_eq [symmetric])
  also have "(?t + 4) mod 2 ^ 32 mod 0x800000 = (?t + 4) mod 0x800000" by (rule mod_mod_cancel) simp
  also have "(?t + 4) mod 0x800000 = (?h + ?n + 4) mod 0x800000" unfolding t by (rule mod_add_left_eq)
  also have "(?h - (?h + ?n + 4) mod 0x800000) mod 0x800000 = (?h - (?h + ?n + 4)) mod 0x800000" by (rule mod_diff_right_eq)
  also have "?h - (?h + ?n + 4) = 0x800000 - 4 - ?n + 0x800000 * (-1)" by simp
  also have "(0x800000 - 4 - ?n + 0x800000 * (-1)) mod 0x800000 = (0x800000 - 4 - ?n) mod 0x800000" by (rule mod_mult_self2)
  also have "\<dots> = 0x800000 - 4 - ?n" using n by simp
  also have "\<dots> = int (CAP - 4 - total ps)" using n by (simp add: CAP_def)
  finally show "unat (wintun_ring_wrap (tr_head r - tr_tail r - WINTUN_PACKET_ALIGN)) = CAP - 4 - total ps"
    by (simp only: of_nat_eq_iff)
qed

lemma total_mod4: "total ps mod 4 = 0"
  by (induction ps) (auto simp: mod_add_eq [symmetric] span_ge(2))

lemma ring_rep_tail:
  assumes "ring_rep r ps"
  shows "unat (tr_tail r) < CAP" and "unat (tr_tail r) mod 4 = 0"
proof -
  have t: "unat (tr_tail r) = (unat (tr_head r) + total ps) mod CAP" using assms by (simp add: ring_rep_def)
  then show "unat (tr_tail r) < CAP" by (simp add: CAP_def)
  have "(unat (tr_head r) + total ps) mod CAP mod 4 = (unat (tr_head r) + total ps) mod 4"
    by (rule mod_mod_cancel) (simp add: CAP_def)
  also have "\<dots> = (unat (tr_head r) mod 4 + total ps mod 4) mod 4" by (rule mod_add_eq [symmetric])
  also have "\<dots> = 0" using assms total_mod4 by (simp add: ring_rep_def)
  finally show "unat (tr_tail r) mod 4 = 0" by (simp only: t)
qed

lemma ring_index_ok: "unat i < CAP \<Longrightarrow> \<not> WINTUN_RING_CAPACITY \<le> i"
  by (simp add: WINTUN_RING_CAPACITY_def CAP_def word_le_nat_alt)

section \<open>What writing and reading do to the queue\<close>

definition ip_version :: "byte \<Rightarrow> byte" where
  "ip_version b = drop_bit 4 b AND 0x0F"

text \<open>The packets the writer lets pass: long enough for the header of their IP version.\<close>

definition ip_packet :: "byte list \<Rightarrow> bool" where
  "ip_packet p \<longleftrightarrow> p \<noteq> [] \<and>
     (ip_version (hd p) = 4 \<and> 20 \<le> length p \<or> ip_version (hd p) = 6 \<and> 40 \<le> length p)"

lemma load_content:
  assumes "buf_inv m b" and "content m b \<noteq> []"
  shows "load m (buf_bptr b) = Inr (hd (content m b))"
proof -
  have r: "read_bytes m (buf_bptr b) (b_len b) = Inr (content m b)" "int (length (content m b)) = b_len b"
    using read_content [OF assms(1)] by auto
  then have "1 \<le> b_len b" using assms(2) by (cases "content m b") auto
  then have "read_bytes m (buf_bptr b) 1 = Inr (take 1 (content m b))"
    using read_bytes_split(1) [OF r(1), of 1] by simp
  then show ?thesis using assms(2) by (cases "content m b") (simp_all add: load_def)
qed

lemma is_ip_packet_valid_content:
  assumes "buf_inv m b" and "content m b \<noteq> []"
  shows "is_ip_packet_valid m b = Inr (ip_packet (content m b))"
  using load_content [OF assms] read_content(2) [OF assms(1)] buf_inv_len [OF assms(1)] assms(2)
  by (auto simp: is_ip_packet_valid_def ip_packet_def ip_version_def Let_def)

text \<open>The data area after size and bytes of a packet have been stored at \<open>t\<close>.\<close>

lemma ring_store_packet:
  assumes "t + 4 + length p \<le> RING_BYTES" and "length p \<le> 0xffff"
  shows "\<exists>r1 r2. ring_write r t (le32 (of_nat (length p))) = Inr r1 \<and> ring_write r1 (t + 4) p = Inr r2 \<and>
     packet_at (tr_data r2) t p \<and> (\<forall>i. \<not> (t \<le> i \<and> i < t + span p) \<longrightarrow> tr_data r2 i = tr_data r i) \<and>
     tr_head r2 = tr_head r \<and> tr_tail r2 = tr_tail r \<and> tr_alertable r2 = tr_alertable r"
proof -
  let ?l = "le32 (of_nat (length p))"
  have l: "length ?l = 4" by (simp add: le32_def)
  let ?r1 = "r\<lparr>tr_data := (\<lambda>j. if t \<le> j \<and> j < t + 4 then ?l ! (j - t) else tr_data r j)\<rparr>"
  let ?r2 = "?r1\<lparr>tr_data := (\<lambda>j. if t + 4 \<le> j \<and> j < t + 4 + length p then p ! (j - (t + 4)) else tr_data ?r1 j)\<rparr>"
  have w: "ring_write r t ?l = Inr ?r1" "ring_write ?r1 (t + 4) p = Inr ?r2"
    using assms(1) by (simp_all add: ring_write_def l)
  have "map (tr_data ?r2) [t..<t + 4] = ?l" by (rule nth_equalityI) (simp_all add: l)
  moreover have "map (tr_data ?r2) [t + 4..<t + 4 + length p] = p" by (rule nth_equalityI) simp_all
  moreover have "tr_data ?r2 i = tr_data r i" if "\<not> (t \<le> i \<and> i < t + span p)" for i
    using that span_ge(1) [of p] l by auto
  ultimately show ?thesis using w by (intro exI [of _ ?r1] exI [of _ ?r2]) (simp add: packet_at_def)
qed

lemma write_wintun_spec:
  assumes rep: "ring_rep (tt_receive_ring tt) ps" and b: "buf_inv m buf" and p: "content m buf = p"
    and small: "length p \<le> 0xffff" and ip: "ip_packet p"
  shows "if total ps + span p \<le> CAP - 4
         then \<exists>tt'. write_wintun m tt buf = Inr (int (length p), tt') \<and>
                ring_rep (tt_receive_ring tt') (ps @ [p]) \<and> tt_send_ring tt' = tt_send_ring tt
         else write_wintun m tt buf = Inr (0, tt)"
proof -
  let ?r = "tt_receive_ring tt"
  let ?h = "unat (tr_head ?r)" and ?t = "unat (tr_tail ?r)"
  let ?al = "wintun_ring_packet_align (word_of_int (4 + buf_len buf))"
  have ne: "p \<noteq> []" using ip by (simp add: ip_packet_def)
  have len: "buf_len buf = int (length p)" using read_content(2) [OF b] p buf_inv_len [OF b] by simp
  have h: "?h < CAP" using rep by (simp add: ring_rep_def)
  note t = ring_rep_tail [OF rep]
  have al: "unat ?al = span p" using unat_align_packet [OF small] by (simp add: len)
  have lew: "word_of_int (buf_len buf) = (of_nat (length p) :: 32 word)" by (simp add: len)
  have ok: "is_ip_packet_valid m buf = Inr True" using is_ip_packet_valid_content [OF b] ne ip p by simp
  note sp = ring_space(1) [OF rep]
  have idx: "\<not> (tr_head ?r \<ge> WINTUN_RING_CAPACITY \<or> tr_tail ?r \<ge> WINTUN_RING_CAPACITY)"
    using ring_index_ok h t(1) by blast
  have full: "?al > wintun_ring_wrap (tr_head ?r - tr_tail ?r - WINTUN_PACKET_ALIGN) \<longleftrightarrow> \<not> total ps + span p \<le> CAP - 4"
  proof -
    have "total ps \<le> CAP - 4" using rep by (simp add: ring_rep_def)
    then show ?thesis unfolding word_less_nat_alt al sp by linarith
  qed
  show ?thesis
  proof (cases "total ps + span p \<le> CAP - 4")
    case False
    then show ?thesis using ok idx full by (simp add: write_wintun_def)
  next
    case True
    have "?t \<le> CAP - 4" using t by (simp add: CAP_def) presburger
    then have "?t + 4 + length p \<le> RING_BYTES" using small by (simp add: RING_BYTES_def CAP_def)
    then obtain r1 r2 where w: "ring_write ?r ?t (le32 (of_nat (length p))) = Inr r1" "ring_write r1 (?t + 4) p = Inr r2"
        "packet_at (tr_data r2) ?t p" "\<forall>i. \<not> (?t \<le> i \<and> i < ?t + span p) \<longrightarrow> tr_data r2 i = tr_data ?r i"
        "tr_head r2 = tr_head ?r"
      using ring_store_packet [of ?t p ?r] small by blast
    let ?r3 = "r2\<lparr>tr_tail := wintun_ring_wrap (tr_tail ?r + ?al)\<rparr>"
    let ?tt = "tt\<lparr>tt_receive_ring := ?r3, tt_write_events := (if tr_alertable ?r \<noteq> 0 then tt_write_events tt + 1
                                                    else tt_write_events tt)\<rparr>"
    have rd: "read_bytes m (buf_bptr buf) (buf_len buf) = Inr p" using read_content(1) [OF b] p buf_inv_len [OF b] by simp
    have run: "write_wintun m tt buf = Inr (int (length p), ?tt)"
      unfolding write_wintun_def Let_def using ok idx full True w(1,2) rd len lew by simp
    have tl: "?t = (?h + total ps) mod CAP" using rep by (simp add: ring_rep_def)
    have "packets_from (tr_data r2) ((?h + 0) mod CAP) ps"
      by (rule packets_frame [where d = "tr_data ?r" and b = "total ps" and n = "span p"])
        (use rep h True w(4) tl in \<open>auto simp: ring_rep_def CAP_def\<close>)
    then have "packets_from (tr_data r2) ?h (ps @ [p])"
      using w(3) h by (simp add: packets_from_append tl)
    moreover have "unat (wintun_ring_wrap (tr_tail ?r + ?al)) = (?h + total (ps @ [p])) mod CAP"
      by (simp only: wrap_add al tl) (simp add: CAP_def mod_add_left_eq add.assoc)
    ultimately have "ring_rep ?r3 (ps @ [p])"
      using rep w(5) True small by (simp add: ring_rep_def)
    then show ?thesis using run True by simp
  qed
qed


lemma read_wintun_alone_eq:
  "read_wintun_alone m tt =
     (let ring = tt_send_ring tt; head = tr_head ring; tail = tr_tail ring;
          buf = (ov_buf_init (tt_reads tt))\<lparr>b_len := 0\<rparr>; bad = buf\<lparr>b_len := -1\<rparr>
      in if head \<ge> WINTUN_RING_CAPACITY \<or> tail \<ge> WINTUN_RING_CAPACITY then Inr (bad, tt, m)
         else if head = tail then Inr (buf, tt, m)
         else (let content_len = wintun_ring_wrap (tail - head)
               in if content_len < 4 then Inr (bad, tt, m)
                  else bindE (ring_read ring (unat head) 4)
                    (\<lambda>hdr. let sz = of_nat (from_le hdr) :: 32 word
                       in if sz > WINTUN_MAX_PACKET_SIZE then Inr (bad, tt, m)
                          else (let aligned_packet_size = wintun_ring_packet_align (4 + sz)
                                in if aligned_packet_size > content_len then Inr (bad, tt, m)
                                   else bindE (buf_write_ring m buf ring (unat head + 4) (sint sz))
                                     (\<lambda>(buf1, m1).
                                        Inr (buf1,
                                             tt\<lparr>tt_send_ring := ring\<lparr>tr_head := wintun_ring_wrap (head + aligned_packet_size)\<rparr>\<rparr>,
                                             m1))))))"
proof -
  have r: "(tt_send_ring tt)\<lparr>tr_data := tr_data (tt_send_ring tt)\<rparr> = tt_send_ring tt" by simp
  have t: "tt\<lparr>tt_send_ring := tt_send_ring tt\<rparr> = tt" by simp
  show ?thesis
    unfolding read_wintun_alone_def read_wintun_def Let_def r t packet_size_def
    by (cases "ring_read (tt_send_ring tt) (unat (tr_head (tt_send_ring tt))) 4") simp_all
qed

lemma sint_of_len: "n \<le> 0xffff \<Longrightarrow> sint (of_nat n :: 32 word) = int n"
  by (simp add: sint_uint uint_nat unat_of_nat signed_take_bit_int_eq_self)

lemma buf_write_ring_fits:
  assumes "buf_inv m b" and "b_len b = 0" and "b_offset b + int n \<le> b_capacity b" and "ring_read r i n = Inr p"
  shows "\<exists>m'. buf_write_ring m b r i (int n) = Inr (b\<lparr>b_len := int n\<rparr>, m') \<and> buf_inv m' (b\<lparr>b_len := int n\<rparr>) \<and>
           content m' (b\<lparr>b_len := int n\<rparr>) = p"
proof -
  have n: "n = length p" using assms(4) by (auto simp: ring_read_def split: if_splits)
  have c: "content m b = []" using read_content(2) [OF assms(1)] assms(2) by simp
  obtain m' where m': "buf_write_val m b p = Inr (True, b\<lparr>b_len := int n\<rparr>, m')" "buf_inv m' (b\<lparr>b_len := int n\<rparr>)"
      "content m' (b\<lparr>b_len := int n\<rparr>) = p"
  proof (cases rule: buf_write_val_cases [where bs = p, OF assms(1)])
    case (1 m')
    then show thesis using that assms(2) c n by simp
  qed (use assms(2,3) n in simp)
  moreover have "buf_bptr b \<noteq> Null" by (rule buf_inv_bptr_Null [OF assms(1)])
  ultimately have "buf_write_ring m b r i (int n) = Inr (b\<lparr>b_len := int n\<rparr>, m')"
    using assms(2,3,4) n
    by (auto simp: buf_write_ring_def buf_write_val_def buf_write_alloc_spec [OF assms(1)] bindE_Inr_iff)
  then show ?thesis using m' by blast
qed

text \<open>The capacity of the buffer bounds the copy, whatever the size; a negative one is no size.\<close>

lemma buf_write_ring_full:
  assumes "buf_inv m b" and "b_len b = 0" and "n < 0 \<or> b_capacity b < b_offset b + n" and "- (2 ^ 31) \<le> n"
  shows "buf_write_ring m b r i n = Inr (b, m)"
proof -
  have "\<not> buf_safe b n"
    using assms by (auto simp: buf_safe_def buf_size_valid_def size_of_int_def BUF_SIZE_MAX_def)
  then show ?thesis by (simp add: buf_write_ring_def buf_write_alloc_def)
qed

lemma buf_write_ring_total:
  assumes "buf_inv m b" and "b_len b = 0" and "b_capacity b - b_offset b \<le> 0x10000" and "i + 0x10000 \<le> RING_BYTES"
    and "- (2 ^ 31) \<le> n"
  shows "\<exists>b' m'. buf_write_ring m b r i n = Inr (b', m')"
proof (cases "n < 0 \<or> b_capacity b < b_offset b + n")
  case True
  then show ?thesis using buf_write_ring_full [OF assms(1,2) _ assms(5)] by blast
next
  case False
  then obtain k where k: "n = int k" by (metis not_less zero_le_imp_eq_int)
  then show ?thesis using buf_write_ring_fits [OF assms(1,2), of k r i] False assms(3,4) by (auto simp: ring_read_def)
qed

lemma read_wintun_empty:
  assumes "ring_rep (tt_send_ring tt) []"
  shows "read_wintun_alone m tt = Inr ((ov_buf_init (tt_reads tt))\<lparr>b_len := 0\<rparr>, tt, m)"
proof -
  have e: "tr_tail (tt_send_ring tt) = tr_head (tt_send_ring tt)"
    using assms by (simp add: ring_rep_def word_unat_eq_iff)
  have "\<not> tr_head (tt_send_ring tt) \<ge> WINTUN_RING_CAPACITY"
    using assms ring_index_ok by (simp add: ring_rep_def)
  then show ?thesis by (simp add: read_wintun_alone_eq Let_def e)
qed

lemma read_wintun_spec:
  assumes rep: "ring_rep (tt_send_ring tt) (p # ps)" and b: "buf_inv m (ov_buf_init (tt_reads tt))"
  shows "\<exists>buf tt' m'. read_wintun_alone m tt = Inr (buf, tt', m') \<and> buf_inv m' buf \<and>
           content m' buf = (if b_offset (ov_buf_init (tt_reads tt)) + int (length p) \<le> b_capacity (ov_buf_init (tt_reads tt)) then p else []) \<and>
           ring_rep (tt_send_ring tt') ps \<and> tt_receive_ring tt' = tt_receive_ring tt \<and> tt_reads tt' = tt_reads tt \<and>
           tr_head (tt_send_ring tt') \<noteq> tr_head (tt_send_ring tt)"
proof -
  let ?r = "tt_send_ring tt" and ?b = "(ov_buf_init (tt_reads tt))\<lparr>b_len := 0\<rparr>"
  let ?h = "unat (tr_head ?r)"
  let ?al = "wintun_ring_packet_align (4 + of_nat (length p))"
  have h: "?h < CAP" "?h mod 4 = 0" and small: "length p \<le> 0xffff" and pk: "packet_at (tr_data ?r) ?h p"
    and tot: "total (p # ps) \<le> CAP - 4"
    using rep by (simp_all add: ring_rep_def)
  note t = ring_rep_tail [OF rep]
  have idx: "\<not> (tr_head ?r \<ge> WINTUN_RING_CAPACITY \<or> tr_tail ?r \<ge> WINTUN_RING_CAPACITY)"
    using ring_index_ok h(1) t(1) by blast
  note cl = ring_space(2) [OF rep]
  have al: "unat ?al = span p" by (rule unat_align_packet [OF small])
  have "unat (wintun_ring_wrap (tr_tail ?r - tr_head ?r)) \<noteq> 0" using cl span_ge(3) [of p] by simp
  then have ne: "tr_head ?r \<noteq> tr_tail ?r" by (auto simp: unat_wrap)
  have c4: "\<not> wintun_ring_wrap (tr_tail ?r - tr_head ?r) < 4"
    using span_ge(3) [of p] by (simp add: word_less_nat_alt cl)
  have cal: "\<not> ?al > wintun_ring_wrap (tr_tail ?r - tr_head ?r)"
    unfolding word_less_nat_alt al cl by simp
  note rd = ring_read_packet [OF pk h(1) small h(2)]
  have sz: "of_nat (from_le (le32 (of_nat (length p)))) = (of_nat (length p) :: 32 word)"
    by (simp add: from_le_le32)
  have mx: "\<not> (of_nat (length p) :: 32 word) > WINTUN_MAX_PACKET_SIZE"
    using small by (simp add: word_less_nat_alt unat_of_len WINTUN_MAX_PACKET_SIZE_def)
  have b0: "buf_inv m ?b" using buf_inv_b_len [OF b, of 0] b by (simp add: buf_inv_def)
  let ?fit = "b_offset ?b + int (length p) \<le> b_capacity ?b"
  obtain buf m' where w: "buf_write_ring m ?b ?r (?h + 4) (int (length p)) = Inr (buf, m')" "buf_inv m' buf"
      "content m' buf = (if ?fit then p else [])"
  proof (cases ?fit)
    case True
    then show thesis using that buf_write_ring_fits [OF b0, of "length p" ?r "?h + 4" p] rd(2) by auto
  next
    case False
    have "content m ?b = []" using read_content(2) [OF b0] by simp
    then show thesis using that buf_write_ring_full [OF b0, of "int (length p)" ?r "?h + 4"] False b0 by auto
  qed
  let ?r' = "?r\<lparr>tr_head := wintun_ring_wrap (tr_head ?r + ?al)\<rparr>"
  have run: "read_wintun_alone m tt = Inr (buf, tt\<lparr>tt_send_ring := ?r'\<rparr>, m')"
    unfolding read_wintun_alone_eq Let_def using idx ne c4 rd(1) sz mx cal w(1) sint_of_len [OF small] by simp
  have hd: "unat (wintun_ring_wrap (tr_head ?r + ?al)) = (?h + span p) mod CAP"
    by (simp only: wrap_add al) (simp add: CAP_def)
  have "(?h + span p) mod CAP mod 4 = (?h + span p) mod 4" by (rule mod_mod_cancel) (simp add: CAP_def)
  also have "\<dots> = 0" using h(2) span_ge(2) [of p] by (simp add: mod_add_eq [symmetric])
  finally have "(?h + span p) mod CAP mod 4 = 0" .
  moreover have "unat (tr_tail ?r) = ((?h + span p) mod CAP + total ps) mod CAP"
    using rep by (simp add: ring_rep_def mod_add_left_eq add.assoc)
  ultimately have "ring_rep ?r' ps" using rep hd by (simp add: ring_rep_def CAP_def)
  moreover have "wintun_ring_wrap (tr_head ?r + ?al) \<noteq> tr_head ?r"
  proof
    assume "wintun_ring_wrap (tr_head ?r + ?al) = tr_head ?r"
    then have "(?h + span p) mod CAP = ?h" using hd by simp
    then show False using h(1) span_ge(3,4) [of p] small by (auto simp: CAP_def mod_if split: if_splits)
  qed
  ultimately show ?thesis using run w by auto
qed

section \<open>Memory safety against the other side\<close>

lemma align_multiple: "unat (wintun_ring_packet_align s) mod 4 = 0"
proof -
  have k: "WINTUN_PACKET_ALIGN - 1 = mask 2" by (simp add: WINTUN_PACKET_ALIGN_def mask_eq_exp_minus_1)
  have "take_bit 2 (w AND NOT (mask 2)) = 0" for w :: "32 word"
    by (rule bit_word_eqI) (auto simp: bit_simps)
  then have "take_bit 2 (wintun_ring_packet_align s) = 0" by (simp only: wintun_ring_packet_align_def k)
  then have "unat (take_bit 2 (wintun_ring_packet_align s)) = 0" by simp
  then show ?thesis unfolding unsigned_take_bit_eq by (simp add: take_bit_eq_mod)
qed

lemma read_wintun_safe:
  assumes b: "buf_inv m (ov_buf_init (tt_reads tt))" and al: "unat (tr_head (tt_send_ring tt)) mod 4 = 0"
    and room: "b_capacity (ov_buf_init (tt_reads tt)) - b_offset (ov_buf_init (tt_reads tt)) \<le> 0x10000"
  shows "\<exists>buf tt' m'. read_wintun m tt d2 d3 = Inr (buf, tt', m') \<and> unat (tr_head (tt_send_ring tt')) mod 4 = 0"
proof -
  let ?r = "tt_send_ring tt" and ?b = "(ov_buf_init (tt_reads tt))\<lparr>b_len := 0\<rparr>"
  let ?h = "unat (tr_head ?r)" and ?r3 = "tt_send_ring tt\<lparr>tr_data := d3\<rparr>"
  have b0: "buf_inv m ?b" using buf_inv_b_len [OF b, of 0] b by (simp add: buf_inv_def)
  show ?thesis
  proof (cases "(tr_head ?r \<ge> WINTUN_RING_CAPACITY \<or> tr_tail ?r \<ge> WINTUN_RING_CAPACITY) \<or> tr_head ?r = tr_tail ?r \<or>
      wintun_ring_wrap (tr_tail ?r - tr_head ?r) < 4")
    case True
    then show ?thesis using assms(2) by (auto simp: read_wintun_def Let_def)
  next
    case False
    then have h: "?h < CAP" by (simp add: WINTUN_RING_CAPACITY_def CAP_def word_le_nat_alt not_le)
    then have h4: "?h + 4 \<le> CAP" using assms(2) by (simp add: CAP_def) presburger
    then have rd: "\<exists>sz. packet_size (?r\<lparr>tr_data := d\<rparr>) (tr_head ?r) = Inr sz" "\<exists>sz. packet_size ?r (tr_head ?r) = Inr sz" for d
      by (simp_all add: packet_size_def ring_read_def RING_BYTES_def CAP_def)
    obtain sz where sz: "packet_size ?r (tr_head ?r) = Inr sz" using rd(2) by blast
    obtain sz2 where sz2: "packet_size (?r\<lparr>tr_data := d2\<rparr>) (tr_head ?r) = Inr sz2" using rd(1) by blast
    obtain sz3 where sz3: "packet_size ?r3 (tr_head ?r) = Inr sz3" using rd(1) by blast
    obtain buf m' where w: "buf_write_ring m ?b ?r3 (?h + 4) (sint sz3) = Inr (buf, m')"
      using buf_write_ring_total [OF b0, of "?h + 4" "sint sz3" ?r3] h4 room sint_ge [of sz3]
      by (auto simp: RING_BYTES_def CAP_def)
    let ?al = "wintun_ring_packet_align (4 + sz2)"
    have "unat (wintun_ring_wrap (tr_head ?r + ?al)) mod 4 = (?h + unat ?al) mod 4"
      unfolding wrap_add by (rule mod_mod_cancel) simp
    then have hd: "unat (wintun_ring_wrap (tr_head ?r + ?al)) mod 4 = 0"
      using assms(2) align_multiple [of "4 + sz2"] mod_add_eq [of ?h 4 "unat ?al"] by simp
    consider "sz > WINTUN_MAX_PACKET_SIZE" | "\<not> sz > WINTUN_MAX_PACKET_SIZE" "?al > wintun_ring_wrap (tr_tail ?r - tr_head ?r)"
      | "\<not> sz > WINTUN_MAX_PACKET_SIZE" "\<not> ?al > wintun_ring_wrap (tr_tail ?r - tr_head ?r)" by blast
    then show ?thesis
    proof cases
      case 1
      then show ?thesis using False sz assms(2) by (auto simp: read_wintun_def Let_def)
    next
      case 2
      then show ?thesis using False sz sz2 assms(2) by (auto simp: read_wintun_def Let_def)
    next
      case 3
      then show ?thesis using False sz sz2 sz3 w hd by (simp add: read_wintun_def Let_def)
    qed
  qed
qed

text \<open>The copy is bounded by the buffer, not by the size that was checked: into a larger buffer it leaves the ring.\<close>

lemma read_wintun_double_fetch:
  assumes "buf_inv m (ov_buf_init (tt_reads tt))" and "tt_send_ring tt = \<lparr>tr_head = 0x7ffffc, tr_tail = 0, tr_alertable = 1, tr_data = (\<lambda>_. 0)\<rparr>"
    and "d3 0x7ffffc = 1" and "d3 0x7ffffd = 0" and "d3 0x7ffffe = 1" and "d3 0x7fffff = 0"
    and "b_capacity (ov_buf_init (tt_reads tt)) - b_offset (ov_buf_init (tt_reads tt)) \<ge> 0x10001"
  shows "read_wintun m tt (\<lambda>_. 0) d3 = Inl MemFault"
proof -
  let ?b = "(ov_buf_init (tt_reads tt))\<lparr>b_len := 0\<rparr>"
  have b0: "buf_inv m ?b" using buf_inv_b_len [OF assms(1), of 0] assms(1) by (simp add: buf_inv_def)
  have u: "[0x7ffffc..<0x800000] = [0x7ffffc, 0x7ffffd, 0x7ffffe, 0x7fffff :: nat]"
    by (simp add: upt_conv_Cons)
  have z: "packet_size (tt_send_ring tt) 0x7ffffc = Inr 0" "packet_size (tt_send_ring tt\<lparr>tr_data := \<lambda>_. 0\<rparr>) 0x7ffffc = Inr 0"
    "packet_size (tt_send_ring tt\<lparr>tr_data := d3\<rparr>) 0x7ffffc = Inr 0x10001"
    using assms(2-6) by (simp_all add: packet_size_def ring_read_def RING_BYTES_def u from_le_def from_be_def)
  have al: "wintun_ring_packet_align 4 = 4" "wintun_ring_wrap (0 - 0x7ffffc) = 4"
    by (simp_all add: wintun_ring_packet_align_def WINTUN_PACKET_ALIGN_def wintun_ring_wrap_def WINTUN_RING_CAPACITY_def)
  have bp: "buf_bptr ?b \<noteq> Null" by (rule buf_inv_bptr_Null [OF b0])
  have "buf_write_ring m ?b r 0x800000 0x10001 = Inl MemFault" for r
    using assms(7) bp by (simp add: buf_write_ring_def buf_write_alloc_spec [OF b0] ring_read_def RING_BYTES_def)
  then show ?thesis
    using assms(2) z al by (simp add: read_wintun_def Let_def WINTUN_RING_CAPACITY_def WINTUN_MAX_PACKET_SIZE_def)
qed

lemma write_wintun_safe:
  assumes b: "buf_inv m buf" and ne: "content m buf \<noteq> []" and small: "b_len buf \<le> 0xffff"
    and al: "unat (tr_tail (tt_receive_ring tt)) mod 4 = 0"
  shows "\<exists>n tt'. write_wintun m tt buf = Inr (n, tt') \<and> unat (tr_tail (tt_receive_ring tt')) mod 4 = 0"
proof -
  let ?r = "tt_receive_ring tt" and ?p = "content m buf"
  let ?t = "unat (tr_tail ?r)"
  have len: "buf_len buf = int (length ?p)" using read_content(2) [OF b] buf_inv_len [OF b] by simp
  have sm: "length ?p \<le> 0xffff" using small len buf_inv_len [OF b] by simp
  define al where "al = wintun_ring_packet_align (4 + of_nat (length ?p))"
  have alv: "unat al = span ?p" unfolding al_def by (rule unat_align_packet [OF sm])
  have ale: "wintun_ring_packet_align (word_of_int (4 + buf_len buf)) = al" by (simp add: al_def len)
  have lew: "word_of_int (buf_len buf) = (of_nat (length ?p) :: 32 word)" by (simp add: len)
  have ok: "is_ip_packet_valid m buf = Inr (ip_packet ?p)" by (rule is_ip_packet_valid_content [OF b ne])
  show ?thesis
  proof (cases "\<not> ip_packet ?p \<or> (tr_head ?r \<ge> WINTUN_RING_CAPACITY \<or> tr_tail ?r \<ge> WINTUN_RING_CAPACITY) \<or>
      al > wintun_ring_wrap (tr_head ?r - tr_tail ?r - WINTUN_PACKET_ALIGN)")
    case True
    then show ?thesis using assms(4) unfolding write_wintun_def Let_def ale by (auto simp: ok)
  next
    case False
    then have "?t < CAP" by (simp add: WINTUN_RING_CAPACITY_def CAP_def word_le_nat_alt not_le)
    then have "?t \<le> CAP - 4" using assms(4) by (simp add: CAP_def) presburger
    then have "?t + 4 + length ?p \<le> RING_BYTES" using sm by (simp add: RING_BYTES_def CAP_def)
    then obtain r1 r2 where w: "ring_write ?r ?t (le32 (of_nat (length ?p))) = Inr r1" "ring_write r1 (?t + 4) ?p = Inr r2"
      using ring_store_packet [of ?t ?p ?r] sm by blast
    have rd: "read_bytes m (buf_bptr buf) (buf_len buf) = Inr ?p" using read_content(1) [OF b] buf_inv_len [OF b] by simp
    have "unat (wintun_ring_wrap (tr_tail ?r + al)) mod 4 = (?t + unat al) mod 4"
      unfolding wrap_add by (rule mod_mod_cancel) simp
    then have "unat (wintun_ring_wrap (tr_tail ?r + al)) mod 4 = 0"
      using assms(4) span_ge(2) [of ?p] mod_add_eq [of ?t 4 "span ?p"] by (simp add: alv)
    then show ?thesis using False w rd
      unfolding write_wintun_def Let_def ale lew by (simp add: ok)
  qed
qed

section \<open>Producer and consumer\<close>

text \<open>
  A bounded queue as its two ends see it: \<open>put\<close> refuses (\<open>None\<close>) or stores, \<open>fetch\<close> returns the
  oldest element or nothing.
\<close>

datatype 'x queue_op = Put 'x | Fetch
datatype 'x queue_out = Stored | Refused | Got 'x | Nothing

fun run_queue :: "('s \<Rightarrow> 'x \<Rightarrow> 's option) \<Rightarrow> ('s \<Rightarrow> ('x \<times> 's) option) \<Rightarrow> 's \<Rightarrow> 'x queue_op list \<Rightarrow> 'x queue_out list" where
  "run_queue put fetch s [] = []"
| "run_queue put fetch s (Put x # os) =
     (case put s x of None \<Rightarrow> Refused # run_queue put fetch s os
                    | Some s' \<Rightarrow> Stored # run_queue put fetch s' os)"
| "run_queue put fetch s (Fetch # os) =
     (case fetch s of None \<Rightarrow> Nothing # run_queue put fetch s os
                    | Some (x, s') \<Rightarrow> Got x # run_queue put fetch s' os)"

text \<open>The same on a list, with the rule which elements fit and how the reader sees an element.\<close>

definition list_put :: "('x list \<Rightarrow> 'x \<Rightarrow> bool) \<Rightarrow> 'x list \<Rightarrow> 'x \<Rightarrow> 'x list option" where
  "list_put fits xs x = (if fits xs x then Some (xs @ [x]) else None)"

definition list_fetch :: "('x \<Rightarrow> 'x) \<Rightarrow> 'x list \<Rightarrow> ('x \<times> 'x list) option" where
  "list_fetch view xs = (case xs of [] \<Rightarrow> None | x # r \<Rightarrow> Some (view x, r))"

lemma list_fetch_simps [simp]: "list_fetch view [] = None" "list_fetch view (x # xs) = Some (view x, xs)"
  by (simp_all add: list_fetch_def)

fun ops_ok :: "('x \<Rightarrow> bool) \<Rightarrow> 'x queue_op list \<Rightarrow> bool" where
  "ops_ok P [] = True"
| "ops_ok P (Put x # os) = (P x \<and> ops_ok P os)"
| "ops_ok P (Fetch # os) = ops_ok P os"

locale bounded_queue =
  fixes rep :: "'s \<Rightarrow> 'x list \<Rightarrow> bool"
    and good :: "'x \<Rightarrow> bool"
    and fits :: "'x list \<Rightarrow> 'x \<Rightarrow> bool"
    and view :: "'x \<Rightarrow> 'x"
    and put :: "'s \<Rightarrow> 'x \<Rightarrow> 's option"
    and fetch :: "'s \<Rightarrow> ('x \<times> 's) option"
  assumes put_fits: "rep s xs \<Longrightarrow> good x \<Longrightarrow> fits xs x \<Longrightarrow> \<exists>s'. put s x = Some s' \<and> rep s' (xs @ [x])"
    and put_full: "rep s xs \<Longrightarrow> good x \<Longrightarrow> \<not> fits xs x \<Longrightarrow> put s x = None"
    and fetch_first: "rep s (x # xs) \<Longrightarrow> \<exists>s'. fetch s = Some (view x, s') \<and> rep s' xs"
    and fetch_none: "rep s [] \<Longrightarrow> fetch s = None"
begin

lemma run_matches_list:
  "rep s xs \<Longrightarrow> ops_ok good os \<Longrightarrow> run_queue put fetch s os = run_queue (list_put fits) (list_fetch view) xs os"
proof (induction os arbitrary: s xs)
  case step: (Cons op os)
  show ?case
  proof (cases op)
    case (Put x)
    then show ?thesis
      using step put_fits [of s xs x] put_full [of s xs x] by (cases "fits xs x") (auto simp: list_put_def)
  next
    case Fetch
    show ?thesis
    proof (cases xs)
      case Nil
      then show ?thesis using step Fetch fetch_none [of s] by simp
    next
      case (Cons x ys)
      then obtain s' where "fetch s = Some (view x, s')" "rep s' ys" using step.prems(1) fetch_first by blast
      then show ?thesis using step.IH [of s' ys] step.prems(2) Fetch Cons by simp
    qed
  qed
qed simp

end

text \<open>
  One ring, written by \<open>write_wintun\<close> as the receive ring of a device and read by \<open>read_wintun\<close> as
  the send ring of one, with a buffer that holds the packet and one that has room for \<open>n\<close> bytes.
\<close>

definition a_device :: "nat \<Rightarrow> tun_ring \<Rightarrow> tuntap" where
  "a_device n r = \<lparr>tt_hand = True, tt_wintun = True,
     tt_reads = ov_clear\<lparr>ov_buf_init := \<lparr>b_capacity = int n, b_offset = 0, b_len = 0, b_data = Ptr 0 0\<rparr>\<rparr>,
     tt_writes = ov_clear, tt_send_ring = r, tt_receive_ring = r, tt_write_events = 0\<rparr>"

definition one_block :: "byte list \<Rightarrow> mem" where
  "one_block bs = empty_mem\<lparr>blocks := [0 \<mapsto> bs], nxt := 1\<rparr>"

definition ring_put :: "tun_ring \<Rightarrow> byte list \<Rightarrow> tun_ring option" where
  "ring_put r p =
     (case write_wintun (one_block p) (a_device 0 r)
             \<lparr>b_capacity = int (length p), b_offset = 0, b_len = int (length p), b_data = Ptr 0 0\<rparr> of
        Inr (n, tt) \<Rightarrow> if n > 0 then Some (tt_receive_ring tt) else None
      | Inl _ \<Rightarrow> None)"

definition ring_fetch :: "nat \<Rightarrow> tun_ring \<Rightarrow> (byte list \<times> tun_ring) option" where
  "ring_fetch n r =
     (case read_wintun_alone (one_block (replicate n 0)) (a_device n r) of
        Inr (buf, tt, m) \<Rightarrow> if tr_head (tt_send_ring tt) \<noteq> tr_head r then Some (content m buf, tt_send_ring tt) else None
      | Inl _ \<Rightarrow> None)"

text \<open>What a reader with room for \<open>n\<close> bytes gets of a packet.\<close>

definition cut :: "nat \<Rightarrow> byte list \<Rightarrow> byte list" where "cut n p = (if length p \<le> n then p else [])"

definition ring_fits :: "byte list list \<Rightarrow> byte list \<Rightarrow> bool" where
  "ring_fits ps p \<longleftrightarrow> ip_packet p \<and> total ps + span p \<le> CAP - 4"

definition ring_start :: tun_ring where
  "ring_start = \<lparr>tr_head = 0, tr_tail = 0, tr_alertable = 1, tr_data = (\<lambda>_. 0)\<rparr>"

lemma one_block_buf:
  "length p < 1000000 \<Longrightarrow> buf_inv (one_block p) \<lparr>b_capacity = int (length p), b_offset = 0, b_len = int (length p), b_data = Ptr 0 0\<rparr> \<and>
     content (one_block p) \<lparr>b_capacity = int (length p), b_offset = 0, b_len = int (length p), b_data = Ptr 0 0\<rparr> = p"
  by (auto simp: one_block_def buf_inv_def BUF_SIZE_MAX_def content_def buf_bptr_def buf_len_def buf_valid_def read_bytes_def)

lemma ring_put_fits:
  assumes "ring_rep r ps" and "length p \<le> 0xffff" and "ring_fits ps p"
  shows "\<exists>r'. ring_put r p = Some r' \<and> ring_rep r' (ps @ [p])"
proof -
  have "p \<noteq> []" using assms(3) by (auto simp: ring_fits_def ip_packet_def)
  then show ?thesis
    using write_wintun_spec [of "a_device 0 r" ps "one_block p"
        "\<lparr>b_capacity = int (length p), b_offset = 0, b_len = int (length p), b_data = Ptr 0 0\<rparr>" p]
      one_block_buf [of p] assms by (auto simp: ring_put_def ring_fits_def a_device_def)
qed

lemma ring_put_full:
  assumes "ring_rep r ps" and "length p \<le> 0xffff" and "\<not> ring_fits ps p"
  shows "ring_put r p = None"
proof -
  let ?b = "\<lparr>b_capacity = int (length p), b_offset = 0, b_len = int (length p), b_data = Ptr 0 0\<rparr>"
  have i: "buf_inv (one_block p) ?b" "content (one_block p) ?b = p" using one_block_buf [of p] assms(2) by auto
  show ?thesis
  proof (cases "p = []")
    case True
    then show ?thesis
      by (simp add: ring_put_def write_wintun_def Let_def is_ip_packet_valid_def load_def read_bytes_def one_block_def
          buf_bptr_def buf_valid_def)
  next
    case ne: False
    then have v: "is_ip_packet_valid (one_block p) ?b = Inr (ip_packet p)"
      using is_ip_packet_valid_content [OF i(1)] i(2) by simp
    show ?thesis
    proof (cases "ip_packet p")
      case True
      then show ?thesis
        using write_wintun_spec [of "a_device 0 r" ps "one_block p" ?b p] i assms
        by (simp add: ring_put_def ring_fits_def a_device_def)
    qed (simp add: ring_put_def write_wintun_def Let_def v)
  qed
qed

lemma ring_fetch_first:
  assumes "ring_rep r (p # ps)" and "0 < n" and "n < 1000000"
  shows "\<exists>r'. ring_fetch n r = Some (cut n p, r') \<and> ring_rep r' ps"
proof -
  have b: "buf_inv (one_block (replicate n 0)) (ov_buf_init (tt_reads (a_device n r)))"
    using assms(2,3) by (simp add: one_block_def a_device_def buf_inv_def BUF_SIZE_MAX_def)
  have rep: "ring_rep (tt_send_ring (a_device n r)) (p # ps)" using assms by (simp add: a_device_def)
  obtain buf tt m where r: "read_wintun_alone (one_block (replicate n 0)) (a_device n r) = Inr (buf, tt, m)"
      "content m buf = cut n p" "ring_rep (tt_send_ring tt) ps" "tr_head (tt_send_ring tt) \<noteq> tr_head r"
    using read_wintun_spec [OF rep b] by (auto simp: a_device_def cut_def)
  then show ?thesis by (simp add: ring_fetch_def)
qed

lemma ring_fetch_none: "ring_rep r [] \<Longrightarrow> ring_fetch n r = None"
  using read_wintun_empty [of "a_device n r"] by (simp add: ring_fetch_def a_device_def)

text \<open>The room of the reader, kept between 1 byte and the largest packet.\<close>

definition reader_room :: "nat \<Rightarrow> nat" where "reader_room n = max 1 (min n 0x10000)"

interpretation wring: bounded_queue ring_rep "\<lambda>p. length p \<le> 0xffff" ring_fits "cut (reader_room n)" ring_put "ring_fetch (reader_room n)" for n
  by unfold_locales (use ring_put_fits ring_put_full ring_fetch_first ring_fetch_none in \<open>auto simp: reader_room_def\<close>)

lemma ring_rep_start: "ring_rep ring_start []"
  by (simp add: ring_rep_def ring_start_def CAP_def)

text \<open>
  C5: A ring shared with the wintun driver is a first-in first-out queue of packets: whatever
  packets of at most 65535 bytes are written and whenever packets are read, into a buffer with room for n bytes
  (1 to 65536), the answers are those of a plain list from which the oldest packet is taken, to which a packet is
  appended when it is an IP packet and the packets held plus the new one (header included, rounded up to
  4 bytes) leave 4 bytes of the capacity free, and which refuses it otherwise. Over any number of turns of the
  ring no packet is reordered, and a packet that fits the reader's buffer is read whole and
  unchanged. A packet larger than that buffer is lost: it leaves the ring, and the reader gets 0
  bytes, because read_wintun does not look at the result of buf_write. The other side does not write to the
  packet while it is read.
\<close>

theorem wintun_ring_fifo:
  assumes "ops_ok (\<lambda>p. length p \<le> 0xffff) os" and "1 \<le> n" and "n \<le> 0x10000"
  shows "run_queue ring_put (ring_fetch n) ring_start os =
         run_queue (list_put ring_fits) (list_fetch (\<lambda>p. if length p \<le> n then p else [])) [] os"
proof -
  have "reader_room n = n" using assms(2,3) by (simp add: reader_room_def)
  moreover have "cut n = (\<lambda>p. if length p \<le> n then p else [])" by (simp add: cut_def fun_eq_iff)
  ultimately show ?thesis using wring.run_matches_list [OF ring_rep_start assms(1), of n] by simp
qed

theorem wintun_ring_fifo_witness:
  "run_queue ring_put (ring_fetch 20) ring_start
     [Fetch, Put [], Put (0x45 # replicate 19 0), Put (0x45 # replicate 20 0), Fetch, Fetch, Fetch] =
   [Nothing, Refused, Stored, Stored, Got (0x45 # replicate 19 0), Got [], Nothing]"
proof -
  have "ip_version 0x45 = 4" by (simp add: ip_version_def)
  then show ?thesis
    by (subst wintun_ring_fifo) (simp_all add: list_put_def ring_fits_def ip_packet_def span_def CAP_def)
qed

text \<open>
  C6: The driver on the other side of a ring cannot make the code touch memory outside of it, provided that
  the read buffer has room for at most 65536 bytes, the length of the trailing area of a ring. With the code's own index
  a multiple of 4, as it starts and as it stays, whatever the other index, the stored sizes and the bytes of the
  ring are, and whatever the driver writes between the three times that read_wintun reads the size of a
  packet (for the check, for the new index, for the copy), reading a packet into any well-formed buffer and
  writing any packet of 1 to 65535 bytes return without a fault. The indices are read once, into local variables.
\<close>

theorem wintun_memory_safe:
  assumes "unat (tr_head (tt_send_ring tt)) mod 4 = 0" and "unat (tr_tail (tt_receive_ring tt)) mod 4 = 0"
    and "buf_inv m (ov_buf_init (tt_reads tt))"
    and "b_capacity (ov_buf_init (tt_reads tt)) - b_offset (ov_buf_init (tt_reads tt)) \<le> 0x10000"
    and "buf_inv m buf" and "1 \<le> b_len buf" and "b_len buf \<le> 0xffff"
  shows "(\<exists>out tt' m'. read_wintun m tt d2 d3 = Inr (out, tt', m') \<and> unat (tr_head (tt_send_ring tt')) mod 4 = 0) \<and>
         (\<exists>n tt'. write_wintun m tt buf = Inr (n, tt') \<and> unat (tr_tail (tt_receive_ring tt')) mod 4 = 0)"
proof -
  have "content m buf \<noteq> []" using read_content(2) [OF assms(5)] assms(6) by auto
  then show ?thesis using read_wintun_safe [OF assms(3,1,4)] write_wintun_safe [OF assms(5) _ assms(7,2)] by blast
qed

definition hostile_ring :: tun_ring where
  "hostile_ring = \<lparr>tr_head = 0x7ffffc, tr_tail = 4, tr_alertable = 1, tr_data = (\<lambda>_. 0)\<rparr>"

theorem wintun_memory_safe_witness:
  "\<exists>out tt' m'. read_wintun (one_block (replicate 0x10000 0)) ((a_device 0x10000 hostile_ring)\<lparr>tt_receive_ring := ring_start\<rparr>)
     (\<lambda>_. 0) (\<lambda>i. if i = 0x7ffffe then 1 else 0) = Inr (out, tt', m')"
  using wintun_memory_safe
    [of "(a_device 0x10000 hostile_ring)\<lparr>tt_receive_ring := ring_start\<rparr>" "one_block (replicate 0x10000 0)"
      "\<lparr>b_capacity = 0x10000, b_offset = 0, b_len = 5, b_data = Ptr 0 0\<rparr>" "\<lambda>_. 0" "\<lambda>i. if i = 0x7ffffe then 1 else 0"]
  by (auto simp: a_device_def hostile_ring_def ring_start_def one_block_def buf_inv_def BUF_SIZE_MAX_def)

end
