(* ===== verification/Stream_Buf.thy ===== *)
theory Stream_Buf
  imports Overlapped
begin

text \<open>
  Packets in a TCP stream: \<open>struct stream_buf\<close> of \<open>src/Treiber/lib/socket.h\<close> and its functions in
  \<open>socket.c\<close>. A packet is sent as its length in two bytes, most significant first, and its bytes.
  \<open>sb_buf\<close> collects the packet under way, \<open>sb_next\<close> is where the next read goes, \<open>sb_residual\<close>
  keeps what was read past the end of a packet. (\<open>PORT_SHARE\<close> is off in this build.)
\<close>

section \<open>The structure and its functions\<close>

record stream_buf =
  sb_buf_init :: buffer
  sb_residual :: buffer
  sb_maxlen :: int
  sb_formed :: bool
  sb_buf :: buffer
  sb_next :: buffer
  sb_len :: int
  sb_error :: bool

definition stream_buf_reset :: "stream_buf \<Rightarrow> stream_buf" where
  "stream_buf_reset sb =
     sb\<lparr>sb_formed := False, sb_buf := sb_buf_init sb, sb_next := buf_reset (sb_next sb), sb_len := -1\<rparr>"

definition stream_buf_init :: "mem \<Rightarrow> stream_buf \<Rightarrow> buffer \<Rightarrow> fault + stream_buf \<times> mem" where
  "stream_buf_init m sb buf =
     bindE (alloc_buf m (nat (size_of_int (b_len buf))))
       (\<lambda>(r, m1). Inr (stream_buf_reset
          (sb\<lparr>sb_maxlen := b_len buf, sb_buf_init := buf\<lparr>b_len := 0\<rparr>, sb_residual := r, sb_error := False\<rparr>), m1))"

definition stream_buf_set_next :: "stream_buf \<Rightarrow> fault + stream_buf" where
  "stream_buf_set_next sb =
     (let n = (if sb_len sb \<ge> 0 then sb_len sb else sb_maxlen sb) - b_len (sb_buf sb);
          next = (sb_buf sb)\<lparr>b_offset := b_offset (sb_buf sb) + b_len (sb_buf sb), b_len := n\<rparr>
      in bindE (c_assert (n > 0))
           (\<lambda>_. bindE (c_assert (buf_safe (sb_buf sb) n)) (\<lambda>_. Inr (sb\<lparr>sb_next := next\<rparr>))))"

definition stream_buf_get_final :: "stream_buf \<Rightarrow> fault + buffer" where
  "stream_buf_get_final sb = bindE (c_assert (buf_defined (sb_buf sb))) (\<lambda>_. Inr (sb_buf sb))"

definition stream_buf_get_next :: "stream_buf \<Rightarrow> fault + buffer" where
  "stream_buf_get_next sb = bindE (c_assert (buf_defined (sb_next sb))) (\<lambda>_. Inr (sb_next sb))"

text \<open>\<open>ASSERT(buf_init(&sb->residual, 0))\<close>.\<close>

definition residual_init :: "stream_buf \<Rightarrow> fault + stream_buf" where
  "residual_init sb =
     (let (r, ok) = buf_init_dowork (sb_residual sb) 0 in bindE (c_assert ok) (\<lambda>_. Inr (sb\<lparr>sb_residual := r\<rparr>)))"

text \<open>The length prefix, once two bytes are there: the new structure and whether to go on.\<close>

definition stream_buf_prefix :: "mem \<Rightarrow> stream_buf \<Rightarrow> fault + stream_buf \<times> bool" where
  "stream_buf_prefix m sb =
     (if sb_len sb < 0 \<and> b_len (sb_buf sb) \<ge> 2
      then bindE (buf_read m (sb_buf sb) 2)
             (\<lambda>(r, b). case r of
                None \<Rightarrow> Inl AssertFail
              | Some net_size \<Rightarrow>
                  (let sb1 = sb\<lparr>sb_buf := b, sb_len := int (from_be net_size)\<rparr>
                   in if sb_len sb1 < 1 \<or> sb_len sb1 > sb_maxlen sb1
                      then Inr ((stream_buf_reset sb1)\<lparr>sb_error := True\<rparr>, False) else Inr (sb1, True)))
      else Inr (sb, True))"

definition stream_buf_added :: "mem \<Rightarrow> stream_buf \<Rightarrow> int \<Rightarrow> fault + bool \<times> stream_buf \<times> mem" where
  "stream_buf_added m sb length_added =
     bindE (stream_buf_prefix m
              (if length_added > 0
               then sb\<lparr>sb_buf := (sb_buf sb)\<lparr>b_len := b_len (sb_buf sb) + length_added\<rparr>\<rparr> else sb))
       (\<lambda>(sb1, go).
          if \<not> go then Inr (False, sb1, m)
          else if sb_len sb1 > 0 \<and> b_len (sb_buf sb1) \<ge> sb_len sb1
          then bindE (residual_init sb1)
                 (\<lambda>sb2. if b_len (sb_buf sb2) > sb_len sb2
                    then bindE (buf_copy_excess m (sb_residual sb2) (sb_buf sb2) (sb_len sb2))
                           (\<lambda>(ok, r, b, m1). bindE (c_assert ok)
                              (\<lambda>_. Inr (True, sb2\<lparr>sb_residual := r, sb_buf := b\<rparr>, m1)))
                    else Inr (True, sb2, m))
          else bindE (stream_buf_set_next sb1) (\<lambda>sb2. Inr (False, sb2, m)))"

definition stream_buf_read_setup_dowork :: "mem \<Rightarrow> stream_buf \<Rightarrow> fault + bool \<times> stream_buf \<times> mem" where
  "stream_buf_read_setup_dowork m sb =
     bindE (if b_len (sb_residual sb) \<noteq> 0 \<and> \<not> sb_formed sb
            then bindE (buf_copy m (sb_buf sb) (sb_residual sb))
                   (\<lambda>(ok, b, m1). bindE (c_assert ok)
                     (\<lambda>_. bindE (residual_init (sb\<lparr>sb_buf := b\<rparr>))
                       (\<lambda>sb1. bindE (stream_buf_added m1 sb1 0)
                         (\<lambda>(f, sb2, m2). Inr (sb2\<lparr>sb_formed := f\<rparr>, m2)))))
            else Inr (sb, m))
       (\<lambda>(sb1, m1). bindE (if \<not> sb_formed sb1 then stream_buf_set_next sb1 else Inr sb1)
          (\<lambda>sb2. Inr (\<not> sb_formed sb2, sb2, m1)))"

definition stream_buf_close :: "mem \<Rightarrow> stream_buf \<Rightarrow> fault + stream_buf \<times> mem" where
  "stream_buf_close m sb = bindE (free_buf m (sb_residual sb)) (\<lambda>(r, m1). Inr (sb\<lparr>sb_residual := r\<rparr>, m1))"

section \<open>What a stream of bytes means\<close>

datatype stream_head = Incomplete | Bad_Length | Framed "byte list" "byte list"

definition frame_head :: "nat \<Rightarrow> byte list \<Rightarrow> stream_head" where
  "frame_head M bs =
     (if length bs < 2 then Incomplete
      else (let n = from_be (take 2 bs)
            in if n < 1 \<or> n > M then Bad_Length
               else if length bs < n + 2 then Incomplete
               else Framed (take n (drop 2 bs)) (drop (n + 2) bs)))"

text \<open>All packets of a stream, and whether a bad length ends it.\<close>

function frames :: "nat \<Rightarrow> byte list \<Rightarrow> byte list list \<times> bool" where
  "frames M bs =
     (case frame_head M bs of
        Incomplete \<Rightarrow> ([], False)
      | Bad_Length \<Rightarrow> ([], True)
      | Framed p rest \<Rightarrow> (let (ps, bad) = frames M rest in (p # ps, bad)))"
  by pat_completeness auto

lemma frame_head_shorter: "frame_head M bs = Framed p rest \<Longrightarrow> length rest + length p + 2 = length bs \<and> p \<noteq> [] \<and> length p \<le> M"
  by (auto simp: frame_head_def Let_def split: if_splits)

termination frames
  by (relation "measure (length \<circ> snd)") (auto dest: frame_head_shorter)

declare frames.simps [simp del]

section \<open>The invariant\<close>

definition sb_core :: "nat \<Rightarrow> nat \<Rightarrow> nat \<Rightarrow> mem \<Rightarrow> stream_buf \<Rightarrow> bool" where
  "sb_core k l M m sb \<longleftrightarrow>
     buf_inv m (sb_buf_init sb) \<and> b_len (sb_buf_init sb) = 0 \<and> b_data (sb_buf_init sb) = Ptr k 0 \<and>
     buf_inv m (sb_residual sb) \<and> b_data (sb_residual sb) = Ptr l 0 \<and> k \<noteq> l \<and> b_offset (sb_residual sb) = 0 \<and>
     b_capacity (sb_residual sb) = int M \<and> sb_maxlen sb = int M \<and> 2 \<le> M \<and> M \<le> 0xffff \<and>
     b_offset (sb_buf_init sb) + int M + 2 \<le> b_capacity (sb_buf_init sb)"

text \<open>The packet under way, before its first two bytes are read off and after.\<close>

definition sb_gather :: "nat \<Rightarrow> nat \<Rightarrow> nat \<Rightarrow> mem \<Rightarrow> stream_buf \<Rightarrow> bool" where
  "sb_gather k l M m sb \<longleftrightarrow> sb_core k l M m sb \<and> buf_inv m (sb_buf sb) \<and> b_data (sb_buf sb) = Ptr k 0 \<and>
     b_capacity (sb_buf sb) = b_capacity (sb_buf_init sb) \<and> b_len (sb_buf sb) \<le> int M \<and>
     (sb_len sb = -1 \<and> b_offset (sb_buf sb) = b_offset (sb_buf_init sb) \<or>
      1 \<le> sb_len sb \<and> sb_len sb \<le> int M \<and> b_offset (sb_buf sb) = b_offset (sb_buf_init sb) + 2)"

definition sb_head :: "mem \<Rightarrow> stream_buf \<Rightarrow> byte list" where
  "sb_head m sb =
     (if sb_len sb < 0 then content m (sb_buf sb) else be16 (word_of_int (sb_len sb)) @ content m (sb_buf sb))"

definition sb_short :: "stream_buf \<Rightarrow> bool" where
  "sb_short sb \<longleftrightarrow> b_len (sb_buf sb) < (if sb_len sb < 0 then 2 else sb_len sb)"

lemma set_next_ok:
  assumes "sb_gather k l M m sb" and "sb_short sb"
  shows "stream_buf_set_next sb = Inr (sb\<lparr>sb_next := (sb_buf sb)\<lparr>
      b_offset := b_offset (sb_buf sb) + b_len (sb_buf sb),
      b_len := (if sb_len sb < 0 then int M else sb_len sb) - b_len (sb_buf sb)\<rparr>\<rparr>)"
    and "0 < (if sb_len sb < 0 then int M else sb_len sb) - b_len (sb_buf sb)"
proof -
  let ?n = "(if sb_len sb < 0 then int M else sb_len sb) - b_len (sb_buf sb)"
  show pos: "0 < ?n" using assms by (auto simp: sb_short_def sb_gather_def sb_core_def split: if_splits)
  have "buf_inv m (sb_buf sb)" using assms(1) by (simp add: sb_gather_def)
  then have "buf_safe (sb_buf sb) ?n"
    using buf_safe_iff [of m "sb_buf sb" ?n] pos assms(1) by (auto simp: sb_gather_def sb_core_def)
  moreover have "(if sb_len sb \<ge> 0 then sb_len sb else sb_maxlen sb) - b_len (sb_buf sb) = ?n"
    using assms(1) by (auto simp: sb_gather_def sb_core_def)
  ultimately show "stream_buf_set_next sb = Inr (sb\<lparr>sb_next := (sb_buf sb)\<lparr>
      b_offset := b_offset (sb_buf sb) + b_len (sb_buf sb), b_len := ?n\<rparr>\<rparr>)"
    using pos by (simp add: stream_buf_set_next_def Let_def)
qed

lemma residual_init_ok:
  "sb_core k l M m sb \<Longrightarrow> residual_init sb = Inr (sb\<lparr>sb_residual := (sb_residual sb)\<lparr>b_len := 0, b_offset := 0\<rparr>\<rparr>)"
  by (auto simp: residual_init_def buf_init_dowork_def sb_core_def)

lemma be16_from_be: "length xs = 2 \<Longrightarrow> be16 (word_of_int (int (from_be xs))) = xs"
proof -
  assume "length xs = 2"
  then obtain a b where xs: "xs = [a, b]" by (auto simp: length_Suc_conv numeral_2_eq_2)
  define n where "n = unat a * 256 + unat b"
  have bd: "unat a < 256" "unat b < 256"
    using unsigned_less [of a, where ?'a = nat] unsigned_less [of b, where ?'a = nat] by simp_all
  then have "n < 65536" by (simp add: n_def)
  then have w: "unat (of_nat n :: 16 word) = n" by (simp add: unat_of_nat)
  have n: "from_be xs = n" by (simp add: xs from_be_def n_def)
  have "unat (ucast (drop_bit 8 (of_nat n :: 16 word)) :: byte) = unat a"
    using bd unfolding unat_byte w by (simp add: n_def)
  moreover have "unat (ucast (of_nat n :: 16 word) :: byte) = unat b"
    using bd unfolding unat_low_byte w by (simp add: n_def)
  ultimately show ?thesis unfolding n by (simp add: be16_def xs word_unat_eq_iff del: of_nat_unat)
qed

lemma core_buf: "sb_core k l M m (sb\<lparr>sb_buf := b\<rparr>) = sb_core k l M m sb"
  "sb_core k l M m (sb\<lparr>sb_len := n\<rparr>) = sb_core k l M m sb" "sb_core k l M m (sb\<lparr>sb_next := b\<rparr>) = sb_core k l M m sb"
  "sb_core k l M m (sb\<lparr>sb_formed := f\<rparr>) = sb_core k l M m sb" "sb_core k l M m (sb\<lparr>sb_error := f\<rparr>) = sb_core k l M m sb"
  "sb_core k l M m (stream_buf_reset sb) = sb_core k l M m sb"
  by (simp_all add: sb_core_def stream_buf_reset_def)

lemma gather_same: "sb_gather k l M m (sb\<lparr>sb_error := e\<rparr>) = sb_gather k l M m sb"
  "sb_gather k l M m (sb\<lparr>sb_formed := e\<rparr>) = sb_gather k l M m sb" "sb_gather k l M m (sb\<lparr>sb_next := b\<rparr>) = sb_gather k l M m sb"
  by (simp_all add: sb_gather_def core_buf)

lemma short_same [simp]: "sb_short (sb\<lparr>sb_next := b\<rparr>) = sb_short sb" "sb_short (sb\<lparr>sb_formed := f\<rparr>) = sb_short sb"
  by (simp_all add: sb_short_def)

lemma reset_gather:
  "sb_core k l M m sb \<Longrightarrow> sb_gather k l M m (stream_buf_reset sb) \<and> sb_head m (stream_buf_reset sb) = [] \<and>
     sb_len (stream_buf_reset sb) = -1 \<and> b_len (sb_buf (stream_buf_reset sb)) = 0"
  using read_content(2) [of m "sb_buf_init sb"]
  by (auto simp: sb_gather_def core_buf sb_head_def) (auto simp: stream_buf_reset_def sb_core_def)

lemma head_len: "sb_gather k l M m sb \<Longrightarrow>
    int (length (sb_head m sb)) = (if sb_len sb < 0 then b_len (sb_buf sb) else b_len (sb_buf sb) + 2)"
  using read_content(2) [of m "sb_buf sb"] by (auto simp: sb_head_def sb_gather_def)

lemma known_size: "sb_gather k l M m sb \<Longrightarrow> 0 \<le> sb_len sb \<Longrightarrow> from_be (be16 (word_of_int (sb_len sb))) = nat (sb_len sb)"
  by (auto simp: from_be_be16 sb_gather_def sb_core_def unat_eq_nat_uint uint_word_of_int)

lemma prefix_spec:
  assumes "sb_gather k l M m sb"
  shows "if frame_head M (sb_head m sb) = Bad_Length
         then \<exists>sb'. stream_buf_prefix m sb = Inr (sb', False) \<and> sb_error sb' \<and> sb_gather k l M m sb' \<and>
                sb_len sb' = -1 \<and> b_len (sb_buf sb') = 0 \<and> \<not> sb_formed sb' \<and> sb_residual sb' = sb_residual sb
         else \<exists>sb'. stream_buf_prefix m sb = Inr (sb', True) \<and> sb_gather k l M m sb' \<and> sb_head m sb' = sb_head m sb \<and>
                (sb_len sb' < 0 \<longrightarrow> b_len (sb_buf sb') < 2) \<and> sb_residual sb' = sb_residual sb \<and> sb_formed sb' = sb_formed sb \<and>
                sb_error sb' = sb_error sb"
proof (cases "sb_len sb < 0 \<and> b_len (sb_buf sb) \<ge> 2")
  case True
  let ?c = "content m (sb_buf sb)" and ?n = "from_be (take 2 (content m (sb_buf sb)))"
  have inv: "buf_inv m (sb_buf sb)" and mx: "sb_maxlen sb = int M"
    and off: "b_offset (sb_buf sb) = b_offset (sb_buf_init sb)" and core: "sb_core k l M m sb"
    using assms True by (auto simp: sb_gather_def sb_core_def)
  have hd: "sb_head m sb = ?c" using True by (simp add: sb_head_def)
  have len: "2 \<le> length ?c" using read_content(2) [OF inv] True by linarith
  obtain b where b: "buf_read m (sb_buf sb) 2 = Inr (Some (take 2 ?c), b)" "buf_inv m b" "content m b = drop 2 ?c"
      "b_len b = b_len (sb_buf sb) - 2" "b_offset b = b_offset (sb_buf sb) + 2" "b_data b = b_data (sb_buf sb)"
      "b_capacity b = b_capacity (sb_buf sb)"
    using buf_read_enough [OF inv, of 2] True by auto
  have bad: "frame_head M ?c = Bad_Length \<longleftrightarrow> ?n < 1 \<or> ?n > M" using len by (simp add: frame_head_def Let_def)
  let ?sb = "sb\<lparr>sb_buf := b, sb_len := int ?n\<rparr>"
  show ?thesis
  proof (cases "?n < 1 \<or> ?n > M")
    case True
    moreover have "stream_buf_prefix m sb = Inr ((stream_buf_reset ?sb)\<lparr>sb_error := True\<rparr>, False)"
      using \<open>sb_len sb < 0 \<and> b_len (sb_buf sb) \<ge> 2\<close> True b(1) mx by (auto simp: stream_buf_prefix_def Let_def)
    moreover have "sb_gather k l M m ((stream_buf_reset ?sb)\<lparr>sb_error := True\<rparr>)"
      unfolding gather_same using reset_gather [of k l M m ?sb] core by (simp add: core_buf)
    ultimately show ?thesis using bad hd core by (simp add: stream_buf_reset_def sb_core_def)
  next
    case False
    then have "stream_buf_prefix m sb = Inr (?sb, True)"
      using True b(1) mx by (simp add: stream_buf_prefix_def Let_def)
    moreover have "sb_gather k l M m ?sb"
      using assms b(2,4,5,6,7) off core False True by (simp add: sb_gather_def core_buf)
    moreover have "sb_head m ?sb = ?c"
      using b(3) len be16_from_be [of "take 2 ?c"] by (simp add: sb_head_def)
    ultimately show ?thesis using bad False hd by simp
  qed
next
  case False
  have nb: "frame_head M (sb_head m sb) \<noteq> Bad_Length"
  proof (cases "sb_len sb < 0")
    case True
    then show ?thesis using head_len [OF assms] False by (simp add: frame_head_def)
  next
    case known: False
    then have "from_be (take 2 (sb_head m sb)) = nat (sb_len sb)"
      using known_size [OF assms] by (simp add: sb_head_def)
    then show ?thesis using assms known by (auto simp: frame_head_def sb_gather_def Let_def)
  qed
  then show ?thesis using False assms by (auto simp: stream_buf_prefix_def)
qed

lemma frame_head_known:
  assumes "sb_gather k l M m sb" and "0 \<le> sb_len sb"
  shows "frame_head M (sb_head m sb) =
     (if b_len (sb_buf sb) < sb_len sb then Incomplete
      else Framed (take (nat (sb_len sb)) (content m (sb_buf sb))) (drop (nat (sb_len sb)) (content m (sb_buf sb))))"
proof -
  have "int (length (content m (sb_buf sb))) = b_len (sb_buf sb)"
    using read_content(2) [of m "sb_buf sb"] assms(1) by (simp add: sb_gather_def)
  moreover have "1 \<le> sb_len sb" "sb_len sb \<le> int M" using assms by (auto simp: sb_gather_def)
  ultimately show ?thesis
    using known_size [OF assms] assms(2) by (auto simp: frame_head_def Let_def sb_head_def nat_less_iff)
qed

lemma excess_ok:
  assumes core: "sb_core k l M m sb" and inv: "buf_inv m (sb_buf sb)" and d: "b_data (sb_buf sb) = Ptr k 0"
    and r: "b_len (sb_residual sb) = 0" and n: "0 \<le> n" "n < b_len (sb_buf sb)" "b_len (sb_buf sb) \<le> int M"
  defines "b' \<equiv> (sb_buf sb)\<lparr>b_len := n\<rparr>" and "r' \<equiv> (sb_residual sb)\<lparr>b_len := b_len (sb_buf sb) - n\<rparr>"
  shows "\<exists>m'. buf_copy_excess m (sb_residual sb) (sb_buf sb) n = Inr (True, r', b', m') \<and>
     sb_core k l M m' (sb\<lparr>sb_residual := r', sb_buf := b'\<rparr>) \<and> buf_inv m' b' \<and>
     content m' b' = take (nat n) (content m (sb_buf sb)) \<and> content m' r' = drop (nat n) (content m (sb_buf sb))"
proof -
  let ?b = "sb_buf sb" and ?r = "sb_residual sb"
  have res: "buf_inv m ?r" "b_data ?r = Ptr l 0" "k \<noteq> l" "b_offset ?r = 0" "b_capacity ?r = int M"
    using core by (simp_all add: sb_core_def)
  have nil: "content m ?r = []" using read_content(2) [OF res(1)] r by simp
  obtain a where a: "buf_advance ?b n = (a, True)" "buf_inv m a" "b_data a = Ptr k 0" "b_len a = b_len ?b - n"
      "content m a = drop (nat n) (content m ?b)"
    using buf_advance_spec(1) [OF inv n(1)] n(2) d by auto
  obtain m' where m': "buf_copy m ?r a = Inr (True, r', m')" "buf_inv m' r'" "content m' r' = content m a"
      "\<forall>j. j \<noteq> l \<longrightarrow> blocks m' j = blocks m j"
    using buf_copy_other [OF res(1) a(2) res(2) a(3)] res a(4) n r nil by (auto simp: r'_def)
  have b': "buf_inv m b'" unfolding b'_def by (rule buf_inv_b_len [OF inv n(1)]) (use inv n in \<open>simp add: buf_inv_def\<close>)
  have same: "buf_inv m' c \<longleftrightarrow> buf_inv m c" "content m' c = content m c" if "b_data c = Ptr k 0" for c
    using buf_block_frame [of c k 0 m' m] m'(4) res(3) that by simp_all
  have "content m' b' = take (nat n) (content m ?b)"
    using same(2) [of b'] content_b_len [OF inv n(1)] n(2) d by (simp add: b'_def)
  moreover have "sb_core k l M m' (sb\<lparr>sb_residual := r', sb_buf := b'\<rparr>)"
    using core m'(2) same(1) by (simp add: sb_core_def r'_def)
  moreover have "buf_inv m' b'" using same(1) [of b'] b' d by (simp add: b'_def)
  ultimately show ?thesis using a(1,5) m'(1,3) n by (auto simp: buf_copy_excess_def b'_def Let_def)
qed

definition sb_filled :: "stream_buf \<Rightarrow> int \<Rightarrow> stream_buf" where
  "sb_filled sb n = (if n > 0 then sb\<lparr>sb_buf := (sb_buf sb)\<lparr>b_len := b_len (sb_buf sb) + n\<rparr>\<rparr> else sb)"

lemma added_spec:
  assumes g: "sb_gather k l M m (sb_filled sb n)" and r: "b_len (sb_residual sb) = 0"
  shows "case frame_head M (sb_head m (sb_filled sb n)) of
     Bad_Length \<Rightarrow> \<exists>sb'. stream_buf_added m sb n = Inr (False, sb', m) \<and> sb_error sb' \<and> sb_gather k l M m sb' \<and>
       sb_len sb' = -1 \<and> b_len (sb_buf sb') = 0 \<and> \<not> sb_formed sb' \<and> b_len (sb_residual sb') = 0
   | Incomplete \<Rightarrow> \<exists>sb'. stream_buf_added m sb n = Inr (False, sb', m) \<and> sb_gather k l M m sb' \<and>
       b_len (sb_residual sb') = 0 \<and> sb_short sb' \<and>
       sb_head m sb' = sb_head m (sb_filled sb n) \<and> sb_formed sb' = sb_formed sb \<and> sb_error sb' = sb_error sb
   | Framed p rest \<Rightarrow> \<exists>sb' m'. stream_buf_added m sb n = Inr (True, sb', m') \<and> sb_core k l M m' sb' \<and>
       buf_inv m' (sb_buf sb') \<and> content m' (sb_buf sb') = p \<and> content m' (sb_residual sb') = rest \<and> sb_error sb' = sb_error sb"
proof -
  let ?h = "sb_head m (sb_filled sb n)"
  have rf: "sb_residual (sb_filled sb n) = sb_residual sb" "sb_formed (sb_filled sb n) = sb_formed sb" "sb_error (sb_filled sb n) = sb_error sb"
    by (simp_all add: sb_filled_def)
  show ?thesis
  proof (cases "frame_head M ?h = Bad_Length")
    case True
    then obtain sb' where "stream_buf_prefix m (sb_filled sb n) = Inr (sb', False)" "sb_error sb'" "sb_gather k l M m sb'"
        "sb_len sb' = -1" "b_len (sb_buf sb') = 0" "\<not> sb_formed sb'" "b_len (sb_residual sb') = 0"
      using prefix_spec [OF g] r rf by auto
    then show ?thesis using True by (simp add: stream_buf_added_def sb_filled_def)
  next
    case False
    then obtain sb1 where s1: "stream_buf_prefix m (sb_filled sb n) = Inr (sb1, True)" "sb_gather k l M m sb1"
        "sb_head m sb1 = ?h" "sb_len sb1 < 0 \<longrightarrow> b_len (sb_buf sb1) < 2" "b_len (sb_residual sb1) = 0" "sb_formed sb1 = sb_formed sb"
        "sb_error sb1 = sb_error sb"
      using prefix_spec [OF g] r rf by auto
    have core: "sb_core k l M m sb1" "buf_inv m (sb_buf sb1)" "b_data (sb_buf sb1) = Ptr k 0" "b_len (sb_buf sb1) \<le> int M"
      using s1(2) by (simp_all add: sb_gather_def)
    have go: "stream_buf_added m sb n =
       (if sb_len sb1 > 0 \<and> b_len (sb_buf sb1) \<ge> sb_len sb1
          then bindE (residual_init sb1)
                 (\<lambda>sb2. if b_len (sb_buf sb2) > sb_len sb2
                    then bindE (buf_copy_excess m (sb_residual sb2) (sb_buf sb2) (sb_len sb2))
                           (\<lambda>(ok, r, b, m1). bindE (c_assert ok)
                              (\<lambda>_. Inr (True, sb2\<lparr>sb_residual := r, sb_buf := b\<rparr>, m1)))
                    else Inr (True, sb2, m))
          else bindE (stream_buf_set_next sb1) (\<lambda>sb2. Inr (False, sb2, m)))"
      using s1(1) by (simp add: stream_buf_added_def sb_filled_def)
    show ?thesis
    proof (cases "sb_short sb1")
      case True
      have "frame_head M ?h = Incomplete"
      proof (cases "sb_len sb1 < 0")
        case True
        then show ?thesis using head_len [OF s1(2)] s1(3,4) by (simp add: frame_head_def)
      next
        case False
        then show ?thesis using frame_head_known [OF s1(2)] s1(3) True by (simp add: sb_short_def)
      qed
      moreover have "\<not> (sb_len sb1 > 0 \<and> b_len (sb_buf sb1) \<ge> sb_len sb1)" using True by (auto simp: sb_short_def split: if_splits)
      ultimately show ?thesis
        using set_next_ok [OF s1(2) True] s1 True by (auto simp: go sb_gather_def core_buf sb_head_def sb_short_def)
    next
      case full: False
      then have known: "1 \<le> sb_len sb1" "sb_len sb1 \<le> b_len (sb_buf sb1)"
        using s1(2,4) by (auto simp: sb_gather_def sb_short_def split: if_splits)
      have fr: "frame_head M ?h = Framed (take (nat (sb_len sb1)) (content m (sb_buf sb1)))
          (drop (nat (sb_len sb1)) (content m (sb_buf sb1)))"
        using frame_head_known [OF s1(2)] known s1(3) by simp
      define sb2 where "sb2 = sb1\<lparr>sb_residual := (sb_residual sb1)\<lparr>b_len := 0, b_offset := 0\<rparr>\<rparr>"
      have ri: "residual_init sb1 = Inr sb2" unfolding sb2_def by (rule residual_init_ok [OF core(1)])
      have c2: "sb_core k l M m sb2" "b_len (sb_residual sb2) = 0" "sb_buf sb2 = sb_buf sb1" "sb_len sb2 = sb_len sb1" "sb_error sb2 = sb_error sb"
        using core(1) buf_inv_b_len [of m "sb_residual sb1" 0] s1(5,7) by (auto simp: sb2_def sb_core_def buf_inv_def)
      have len: "int (length (content m (sb_buf sb1))) = b_len (sb_buf sb1)" by (rule read_content(2) [OF core(2)])
      show ?thesis
      proof (cases "b_len (sb_buf sb1) > sb_len sb1")
        case False
        then have "stream_buf_added m sb n = Inr (True, sb2, m)" using known ri c2 by (simp add: go)
        moreover have "content m (sb_residual sb2) = []" using read_content(2) [of m "sb_residual sb2"] c2 by (simp add: sb_core_def)
        ultimately show ?thesis using fr False known len c2 core(2) by simp
      next
        case True
        obtain m' where m': "buf_copy_excess m (sb_residual sb2) (sb_buf sb1) (sb_len sb1) =
              Inr (True, (sb_residual sb2)\<lparr>b_len := b_len (sb_buf sb1) - sb_len sb1\<rparr>, (sb_buf sb1)\<lparr>b_len := sb_len sb1\<rparr>, m')"
            "sb_core k l M m' (sb2\<lparr>sb_residual := (sb_residual sb2)\<lparr>b_len := b_len (sb_buf sb1) - sb_len sb1\<rparr>,
                sb_buf := (sb_buf sb1)\<lparr>b_len := sb_len sb1\<rparr>\<rparr>)"
            "buf_inv m' ((sb_buf sb1)\<lparr>b_len := sb_len sb1\<rparr>)"
            "content m' ((sb_buf sb1)\<lparr>b_len := sb_len sb1\<rparr>) = take (nat (sb_len sb1)) (content m (sb_buf sb1))"
            "content m' ((sb_residual sb2)\<lparr>b_len := b_len (sb_buf sb1) - sb_len sb1\<rparr>) = drop (nat (sb_len sb1)) (content m (sb_buf sb1))"
          using excess_ok [OF c2(1), of "sb_len sb1"] c2 core known True by auto
        then show ?thesis using fr known True ri c2 by (auto simp: go)
      qed
    qed
  qed
qed

text \<open>Between two reads, and with a read under way.\<close>

definition sb_ready :: "nat \<Rightarrow> nat \<Rightarrow> nat \<Rightarrow> mem \<Rightarrow> stream_buf \<Rightarrow> bool" where
  "sb_ready k l M m sb \<longleftrightarrow> sb_gather k l M m sb \<and> \<not> sb_formed sb \<and> \<not> sb_error sb \<and>
     (if b_len (sb_residual sb) = 0 then sb_short sb else sb_len sb = -1 \<and> b_len (sb_buf sb) = 0)"

definition sb_reading :: "nat \<Rightarrow> nat \<Rightarrow> nat \<Rightarrow> mem \<Rightarrow> stream_buf \<Rightarrow> bool" where
  "sb_reading k l M m sb \<longleftrightarrow> sb_gather k l M m sb \<and> \<not> sb_formed sb \<and>
     b_len (sb_residual sb) = 0 \<and> sb_short sb \<and> stream_buf_set_next sb = Inr sb"

definition sb_pending :: "mem \<Rightarrow> stream_buf \<Rightarrow> byte list" where
  "sb_pending m sb = sb_head m sb @ content m (sb_residual sb)"

lemma short_incomplete: "sb_gather k l M m sb \<Longrightarrow> sb_short sb \<Longrightarrow> frame_head M (sb_head m sb) = Incomplete"
  using head_len [of k l M m sb] frame_head_known [of k l M m sb]
  by (cases "sb_len sb < 0") (auto simp: frame_head_def sb_short_def)

lemma residual_nil: "sb_core k l M m sb \<Longrightarrow> b_len (sb_residual sb) = 0 \<Longrightarrow> content m (sb_residual sb) = []"
  using read_content(2) [of m "sb_residual sb"] by (simp add: sb_core_def)

lemma set_next_idem: "stream_buf_set_next sb = Inr sb' \<Longrightarrow> stream_buf_set_next sb' = Inr sb'"
  by (auto simp: stream_buf_set_next_def Let_def bindE_Inr_iff)

lemma set_next_reading:
  assumes "sb_gather k l M m sb" and "sb_short sb" and "\<not> sb_formed sb" and "b_len (sb_residual sb) = 0"
  shows "\<exists>sb'. stream_buf_set_next sb = Inr sb' \<and> sb_reading k l M m sb' \<and> sb_head m sb' = sb_head m sb \<and>
           sb_error sb' = sb_error sb"
proof -
  let ?nx = "(sb_buf sb)\<lparr>b_offset := b_offset (sb_buf sb) + b_len (sb_buf sb),
      b_len := (if sb_len sb < 0 then int M else sb_len sb) - b_len (sb_buf sb)\<rparr>"
  have 1: "stream_buf_set_next sb = Inr (sb\<lparr>sb_next := ?nx\<rparr>)" using set_next_ok(1) [OF assms(1,2)] .
  note 2 = set_next_idem [OF 1]
  show ?thesis using 1 2 assms by (simp add: sb_reading_def gather_same sb_head_def)
qed

lemma read_setup_spec:
  assumes r: "sb_ready k l M m sb"
  shows "case frame_head M (sb_pending m sb) of
     Bad_Length \<Rightarrow> \<exists>sb' m'. stream_buf_read_setup_dowork m sb = Inr (True, sb', m') \<and> sb_reading k l M m' sb' \<and>
       sb_error sb'
   | Incomplete \<Rightarrow> \<exists>sb' m'. stream_buf_read_setup_dowork m sb = Inr (True, sb', m') \<and> sb_reading k l M m' sb' \<and>
       sb_head m' sb' = sb_pending m sb \<and> \<not> sb_error sb'
   | Framed p rest \<Rightarrow> \<exists>sb' m'. stream_buf_read_setup_dowork m sb = Inr (False, sb', m') \<and> sb_core k l M m' sb' \<and>
       sb_formed sb' \<and> \<not> sb_error sb' \<and> buf_inv m' (sb_buf sb') \<and> content m' (sb_buf sb') = p \<and>
       content m' (sb_residual sb') = rest"
proof (cases "b_len (sb_residual sb) = 0")
  case True
  have g: "sb_gather k l M m sb" "sb_short sb" "\<not> sb_formed sb" "\<not> sb_error sb" using r True by (auto simp: sb_ready_def)
  have p: "sb_pending m sb = sb_head m sb"
    using residual_nil [of k l M m sb] g True by (simp add: sb_pending_def sb_gather_def)
  obtain sb' where sb': "stream_buf_set_next sb = Inr sb'" "sb_reading k l M m sb'" "sb_head m sb' = sb_head m sb" "\<not> sb_error sb'"
    using set_next_reading [OF g(1,2,3) True] g(4) by blast
  then have "stream_buf_read_setup_dowork m sb = Inr (True, sb', m)"
    using g(3) True by (simp add: stream_buf_read_setup_dowork_def sb_reading_def)
  then show ?thesis using sb' p short_incomplete [OF g(1,2)] by auto
next
  case False
  let ?b = "sb_buf sb" and ?r = "sb_residual sb"
  have g: "sb_gather k l M m sb" "sb_len sb = -1" "b_len ?b = 0" "\<not> sb_formed sb" "\<not> sb_error sb"
    using r False by (auto simp: sb_ready_def)
  have c: "sb_core k l M m sb" "buf_inv m ?b" "b_data ?b = Ptr k 0" "buf_inv m ?r" "b_data ?r = Ptr l 0" "k \<noteq> l"
      "b_offset ?r = 0" "b_capacity ?r = int M" "b_offset ?b = b_offset (sb_buf_init sb)"
      "b_offset (sb_buf_init sb) + int M + 2 \<le> b_capacity ?b"
    using g by (auto simp: sb_gather_def sb_core_def)
  have rl: "b_len ?r \<le> int M" "0 \<le> b_len ?r" using c(4,7,8) by (auto simp: buf_inv_def)
  have nil: "content m ?b = []" using read_content(2) [OF c(2)] g(3) by simp
  then have pend: "sb_pending m sb = content m ?r" using g(2) by (simp add: sb_pending_def sb_head_def)
  let ?b1 = "?b\<lparr>b_len := b_len ?r\<rparr>"
  obtain m1 where m1: "buf_copy m ?b ?r = Inr (True, ?b1, m1)" "buf_inv m1 ?b1" "content m1 ?b1 = content m ?r"
      "\<forall>j. j \<noteq> k \<longrightarrow> blocks m1 j = blocks m j"
    using buf_copy_other [OF c(2,4,3,5,6)] c(9,10) rl g(3) nil by auto
  let ?sb1 = "sb\<lparr>sb_buf := ?b1, sb_residual := ?r\<lparr>b_len := 0, b_offset := 0\<rparr>\<rparr>"
  have i1: "buf_inv m1 (sb_buf_init sb)" using m1(2) c(1,3) g(1) by (auto simp: sb_core_def sb_gather_def buf_inv_def)
  have r1: "buf_inv m1 ?r" using buf_block_frame(1) [OF c(5), of m1 m] m1(4) c(4,6) by simp
  have k1: "sb_core k l M m1 sb" using c(1) i1 r1 by (simp add: sb_core_def)
  have ri: "residual_init (sb\<lparr>sb_buf := ?b1\<rparr>) = Inr ?sb1"
    using residual_init_ok [of k l M m1 "sb\<lparr>sb_buf := ?b1\<rparr>"] k1 by (simp add: core_buf)
  have "room_at m1 (Ptr l 0) (int M)" using r1 c(5,8) by (simp add: buf_inv_def)
  then have g1: "sb_gather k l M m1 (sb_filled ?sb1 0)"
    using k1 g(1,2) m1(2) rl c(7) by (simp add: sb_filled_def sb_gather_def sb_core_def buf_inv_def)
  have h1: "sb_head m1 (sb_filled ?sb1 0) = sb_pending m sb" using g(2) m1(3) pend by (simp add: sb_filled_def sb_head_def)
  have run: "stream_buf_read_setup_dowork m sb =
     bindE (stream_buf_added m1 ?sb1 0)
       (\<lambda>(f, sb2, m2). bindE (if \<not> f then stream_buf_set_next (sb2\<lparr>sb_formed := f\<rparr>) else Inr (sb2\<lparr>sb_formed := f\<rparr>))
          (\<lambda>sb3. Inr (\<not> sb_formed sb3, sb3, m2)))"
    using False g(4) m1(1) ri
    by (cases "stream_buf_added m1 ?sb1 0") (auto simp: stream_buf_read_setup_dowork_def)
  note ad = added_spec [OF g1, unfolded h1]
  show ?thesis
  proof (cases "frame_head M (sb_pending m sb)")
    case Incomplete
    then obtain sb2 where s2: "stream_buf_added m1 ?sb1 0 = Inr (False, sb2, m1)" "sb_gather k l M m1 sb2"
        "b_len (sb_residual sb2) = 0" "sb_short sb2" "sb_head m1 sb2 = sb_pending m sb" "\<not> sb_formed sb2" "\<not> sb_error sb2"
      using ad g(4,5) by auto
    have eq: "sb2\<lparr>sb_formed := False\<rparr> = sb2" using s2(6) by simp
    obtain sb3 where "stream_buf_set_next sb2 = Inr sb3" "sb_reading k l M m1 sb3" "sb_head m1 sb3 = sb_head m1 sb2"
        "\<not> sb_error sb3"
      using set_next_reading [OF s2(2,4,6,3)] s2(7) by blast
    then show ?thesis using Incomplete s2(1,5) by (auto simp: run eq sb_reading_def)
  next
    case Bad_Length
    then obtain sb2 where s2: "stream_buf_added m1 ?sb1 0 = Inr (False, sb2, m1)" "sb_error sb2" "sb_gather k l M m1 sb2"
        "sb_len sb2 = -1" "b_len (sb_buf sb2) = 0" "\<not> sb_formed sb2" "b_len (sb_residual sb2) = 0"
      using ad by auto
    have eq: "sb2\<lparr>sb_formed := False\<rparr> = sb2" using s2(6) by simp
    have "sb_short sb2" using s2(4,5) by (simp add: sb_short_def)
    then obtain sb3 where "stream_buf_set_next sb2 = Inr sb3" "sb_reading k l M m1 sb3" "sb_error sb3"
      using set_next_reading [OF s2(3) _ s2(6,7)] s2(2) by blast
    then show ?thesis using Bad_Length s2(1) by (auto simp: run eq sb_reading_def)
  next
    case (Framed p rest)
    then obtain sb2 m2 where s2: "stream_buf_added m1 ?sb1 0 = Inr (True, sb2, m2)" "sb_core k l M m2 sb2"
        "buf_inv m2 (sb_buf sb2)" "content m2 (sb_buf sb2) = p" "content m2 (sb_residual sb2) = rest" "\<not> sb_error sb2"
      using ad g(5) by auto
    then show ?thesis using Framed by (simp add: run core_buf)
  qed
qed

lemma reading_next:
  assumes "sb_reading k l M m sb"
  shows "buf_inv m (sb_next sb)" and "0 < b_len (sb_next sb)" and "b_data (sb_next sb) = Ptr k 0"
    and "buf_bptr (sb_next sb) = ptr_add (buf_bptr (sb_buf sb)) (b_len (sb_buf sb))"
    and "b_len (sb_buf sb) + b_len (sb_next sb) \<le> int M"
    and "b_offset (sb_buf sb) + b_len (sb_buf sb) + b_len (sb_next sb) \<le> b_capacity (sb_buf sb)"
proof -
  let ?nx = "(sb_buf sb)\<lparr>b_offset := b_offset (sb_buf sb) + b_len (sb_buf sb),
      b_len := (if sb_len sb < 0 then int M else sb_len sb) - b_len (sb_buf sb)\<rparr>"
  have g: "sb_gather k l M m sb" "sb_short sb" using assms by (simp_all add: sb_reading_def)
  have "sb\<lparr>sb_next := ?nx\<rparr> = sb" using assms set_next_ok(1) [OF g] by (simp add: sb_reading_def)
  then have n: "sb_next sb = ?nx" by (metis stream_buf.select_convs(6) stream_buf.surjective stream_buf.update_convs(6))
  show 0: "buf_inv m (sb_next sb)" "0 < b_len (sb_next sb)" "b_data (sb_next sb) = Ptr k 0"
    using g set_next_ok(2) [OF g] by (auto simp: n sb_gather_def sb_core_def buf_inv_def)
  show "buf_bptr (sb_next sb) = ptr_add (buf_bptr (sb_buf sb)) (b_len (sb_buf sb))"
    using buf_inv_ptr [OF 0(1)] buf_inv_ptr [of m "sb_buf sb"] g(1) by (simp add: n sb_gather_def)
  show "b_len (sb_buf sb) + b_len (sb_next sb) \<le> int M"
    and "b_offset (sb_buf sb) + b_len (sb_buf sb) + b_len (sb_next sb) \<le> b_capacity (sb_buf sb)"
    using g by (auto simp: n sb_gather_def sb_core_def)
qed

lemma filled_reading:
  assumes r: "sb_reading k l M m sb" and bs: "bs \<noteq> []" "int (length bs) \<le> b_len (sb_next sb)"
    and w: "write_bytes m (buf_bptr (sb_next sb)) bs = Inr m'"
  shows "sb_gather k l M m' (sb_filled sb (int (length bs)))"
    and "sb_head m' (sb_filled sb (int (length bs))) = sb_head m sb @ bs"
proof -
  have g: "sb_gather k l M m sb" using r by (simp add: sb_reading_def)
  have inv: "buf_inv m (sb_buf sb)" using g by (simp add: sb_gather_def)
  note n = reading_next [OF r]
  have w': "write_bytes m (ptr_add (buf_bptr (sb_buf sb)) (b_len (sb_buf sb))) bs = Inr m'" using w n(4) by simp
  have fit: "b_offset (sb_buf sb) + b_len (sb_buf sb) + int (length bs) \<le> b_capacity (sb_buf sb)" using n(6) bs(2) by simp
  note a = content_append [OF inv fit w']
  have core: "sb_core k l M m' sb" using g buf_inv_write [OF w] by (simp add: sb_gather_def sb_core_def)
  show "sb_gather k l M m' (sb_filled sb (int (length bs)))"
    using g core a(1) n(5) bs by (simp add: sb_gather_def sb_filled_def core_buf)
  show "sb_head m' (sb_filled sb (int (length bs))) = sb_head m sb @ bs"
    using a(2) bs(1) by (simp add: sb_head_def sb_filled_def)
qed

lemma delivered_ready:
  assumes "sb_core k l M m sb" and "\<not> sb_error sb"
  shows "sb_ready k l M m (stream_buf_reset sb)" and "sb_pending m (stream_buf_reset sb) = content m (sb_residual sb)"
proof -
  have "sb_residual (stream_buf_reset sb) = sb_residual sb" "sb_error (stream_buf_reset sb) = sb_error sb"
      "\<not> sb_formed (stream_buf_reset sb)"
    by (simp_all add: stream_buf_reset_def)
  then show "sb_ready k l M m (stream_buf_reset sb)" "sb_pending m (stream_buf_reset sb) = content m (sb_residual sb)"
    using reset_gather [OF assms(1)] assms(2) by (simp_all add: sb_ready_def sb_pending_def sb_short_def)
qed

lemma reading_ready: "sb_reading k l M m sb \<Longrightarrow> \<not> sb_error sb \<Longrightarrow> sb_ready k l M m sb \<and> sb_pending m sb = sb_head m sb"
  using residual_nil [of k l M m sb] by (simp add: sb_reading_def sb_ready_def sb_pending_def sb_gather_def)

end
