(* ===== verification/Link_Socket.thy ===== *)
theory Link_Socket
  imports Stream_Buf
begin

text \<open>
  Reading and writing packets on a socket, as the Windows build does it: the socket part of
  \<open>struct link_socket\<close> and \<open>socket_recv_queue\<close>, \<open>socket_send_queue\<close>, \<open>socket_finalize\<close>,
  \<open>link_socket_read\<close>, \<open>link_socket_write\<close> of \<open>src/Treiber/lib/socket.c\<close> and \<open>socket.h\<close>. What the
  Winsock calls report is an argument: for a receive the bytes put into the buffer with, for a
  datagram, the sender's address and its length.
\<close>

section \<open>The socket\<close>

record link_socket =
  ls_info :: link_socket_info
  ls_af :: int
  ls_reads :: overlapped_io
  ls_writes :: overlapped_io
  ls_stream_buf :: stream_buf
  ls_stream_reset :: bool

abbreviation ls_proto :: "link_socket \<Rightarrow> int" where
  "ls_proto sock \<equiv> lsi_proto (ls_info sock)"

type_synonym received = "byte list \<times> sockaddr \<times> int"

definition WSAEINVAL :: int where "WSAEINVAL = 10022"
definition WSAECONNABORTED :: int where "WSAECONNABORTED = 10053"
definition WSAECONNRESET :: int where "WSAECONNRESET = 10054"

definition link_socket_connection_oriented :: "link_socket option \<Rightarrow> fault + bool" where
  "link_socket_connection_oriented so =
     (case so of None \<Rightarrow> Inr False | Some sock \<Rightarrow> link_socket_proto_connection_oriented (ls_proto sock))"

text \<open>\<open>bad_address_length\<close> ends the program.\<close>

definition bad_address_length :: "fault + 'a" where
  "bad_address_length = Inl Fatal"

text \<open>The kernel puts the bytes, and for a datagram the sender, where the receive call told it to.\<close>

definition os_receives :: "mem \<Rightarrow> overlapped_io \<Rightarrow> received \<Rightarrow> fault + overlapped_io \<times> mem" where
  "os_receives m io rv =
     (case rv of (bs, a, alen) \<Rightarrow>
        bindE (write_bytes m (buf_bptr (ov_buf io)) bs)
          (\<lambda>m1. Inr (if ov_addr_defined io then io\<lparr>ov_addr := a, ov_addrlen := alen\<rparr> else io, m1)))"

definition os_receive_completes :: "mem \<Rightarrow> overlapped_io \<Rightarrow> received \<Rightarrow> fault + overlapped_io \<times> mem" where
  "os_receive_completes m io rv = bindE (os_receives m io rv) (\<lambda>(io1, m1). Inr (io1\<lparr>ov_event := Some True\<rparr>, m1))"

section \<open>Queueing and finishing an operation\<close>

definition socket_recv_queue ::
  "mem \<Rightarrow> link_socket \<Rightarrow> int \<Rightarrow> received io_start \<Rightarrow> fault + int \<times> link_socket \<times> mem" where
  "socket_recv_queue m sock maxsize r =
     (let reads = ls_reads sock
      in if ov_iostate reads = IOSTATE_INITIAL
         then bindE (proto_is_udp (ls_proto sock))
           (\<lambda>udp. bindE (if udp then Inr (ov_buf_init reads)
                         else bindE (proto_is_tcp (ls_proto sock))
                                (\<lambda>tcp. if tcp then stream_buf_get_next (ls_stream_buf sock) else Inl AssertFail))
             (\<lambda>b. let len = (if maxsize \<noteq> 0 then maxsize else buf_len b)
                in bindE (c_assert (0 \<le> len \<and> len \<le> buf_len b))
                  (\<lambda>_. bindE (reset_event (reads\<lparr>ov_buf := b\<rparr>))
                    (\<lambda>io1. let io2 = (if udp then io1\<lparr>ov_flags := 0, ov_addr_defined := True, ov_addrlen := 28\<rparr>
                                      else io1\<lparr>ov_flags := 0, ov_addr_defined := False\<rparr>)
                       in bindE (case r of
                             StartDone rv \<Rightarrow>
                               bindE (os_receives m io2 rv)
                                 (\<lambda>(io3, m1). if ov_addr_defined io3 \<and> af_addr_size (ls_af sock) \<noteq> 0 \<and>
                                                ov_addrlen io3 \<noteq> af_addr_size (ls_af sock)
                                             then bad_address_length else Inr (io3, m1))
                           | _ \<Rightarrow> Inr (io2, m))
                         (\<lambda>(io3, m1). bindE (io_started io3 (map_io_start (\<lambda>(bs, _). length bs) r))
                            (\<lambda>io4. Inr (ov_iostate io4, sock\<lparr>ls_reads := io4\<rparr>, m1)))))))
         else Inr (ov_iostate reads, sock, m))"

text \<open>\<open>sock->writes.addr6 = to->dest.addr.in6\<close> or \<open>sock->writes.addr = to->dest.addr.in4\<close>.\<close>

definition write_address :: "overlapped_io \<Rightarrow> sockaddr \<Rightarrow> overlapped_io" where
  "write_address io dest =
     (if sa_family dest = AF_INET6 then io\<lparr>ov_addr_defined := True, ov_addr := dest, ov_addrlen := 28\<rparr>
      else io\<lparr>ov_addr_defined := True, ov_addrlen := 16,
              ov_addr := \<lparr>sa_family = sa_family dest, sa_data = take 14 (sa_data dest) @ drop 14 (sa_data (ov_addr io))\<rparr>\<rparr>)"

definition socket_send_queue ::
  "mem \<Rightarrow> link_socket \<Rightarrow> buffer \<Rightarrow> sockaddr \<Rightarrow> nat io_start \<Rightarrow> fault + int \<times> link_socket \<times> mem" where
  "socket_send_queue m sock buf dest r =
     (let writes = ls_writes sock
      in if ov_iostate writes = IOSTATE_INITIAL
         then bindE (buf_copy m ((ov_buf_init writes)\<lparr>b_len := 0\<rparr>) buf)
           (\<lambda>(ok, b, m1). bindE (c_assert ok)
             (\<lambda>_. bindE (reset_event (writes\<lparr>ov_buf := b\<rparr>))
               (\<lambda>io1. bindE (proto_is_udp (ls_proto sock))
                 (\<lambda>udp. bindE (if udp then Inr (write_address (io1\<lparr>ov_flags := 0\<rparr>) dest)
                               else bindE (proto_is_tcp (ls_proto sock))
                                      (\<lambda>tcp. if tcp then Inr (io1\<lparr>ov_flags := 0, ov_addr_defined := False\<rparr>)
                                             else Inl AssertFail))
                   (\<lambda>io2. bindE (io_started io2 r) (\<lambda>io3. Inr (ov_iostate io3, sock\<lparr>ls_writes := io3\<rparr>, m1)))))))
         else Inr (ov_iostate writes, sock, m))"

text \<open>The sender's address of a finished receive: 28, 24 and 16 bytes are the lengths taken.\<close>

definition finalized_from :: "overlapped_io \<Rightarrow> int \<Rightarrow> sockaddr \<Rightarrow> fault + sockaddr" where
  "finalized_from io ret from =
     (if ret \<ge> 0 \<and> ov_addr_defined io
      then (if ov_addrlen io \<in> {16, 28, 24}
            then Inr (if sa_family (ov_addr io) = AF_INET
                      then \<lparr>sa_family = sa_family (ov_addr io),
                            sa_data = take 14 (sa_data (ov_addr io)) @ drop 14 (sa_data from)\<rparr>
                      else if sa_family (ov_addr io) = AF_INET6 then ov_addr io
                      else from)
            else bad_address_length)
      else Inr \<lparr>sa_family = 0, sa_data = replicate 26 0\<rparr>)"

definition socket_finalize ::
  "io_wait \<Rightarrow> overlapped_io \<Rightarrow> buffer option \<Rightarrow> sockaddr option \<Rightarrow> int \<Rightarrow>
     fault + int \<times> overlapped_io \<times> buffer option \<times> sockaddr option \<times> int" where
  "socket_finalize w io buf from le =
     bindE (io_finalize WSAEINVAL w io le)
       (\<lambda>(ret, io1, deliver, le1).
          bindE (case from of None \<Rightarrow> Inr None | Some a \<Rightarrow> bindE (finalized_from io1 ret a) (\<lambda>a1. Inr (Some a1)))
            (\<lambda>from1. Inr (ret, io1, finalized_buf io1 ret deliver buf, from1, le1)))"

section \<open>Reading\<close>

definition stream_buf_read_setup :: "mem \<Rightarrow> link_socket \<Rightarrow> fault + bool \<times> link_socket \<times> mem" where
  "stream_buf_read_setup m sock =
     bindE (link_socket_connection_oriented (Some sock))
       (\<lambda>c. if c then bindE (stream_buf_read_setup_dowork m (ls_stream_buf sock))
                        (\<lambda>(b, sb, m1). Inr (b, sock\<lparr>ls_stream_buf := sb\<rparr>, m1))
            else Inr (True, sock, m))"

definition link_socket_read_tcp ::
  "mem \<Rightarrow> link_socket \<Rightarrow> buffer \<Rightarrow> io_wait \<Rightarrow> int \<Rightarrow> fault + int \<times> link_socket \<times> buffer \<times> mem \<times> int" where
  "link_socket_read_tcp m sock buf w le =
     bindE (if \<not> sb_formed (ls_stream_buf sock)
            then bindE (socket_finalize w (ls_reads sock) (Some buf) None le)
                   (\<lambda>(len, io1, b, _, le1).
                      Inr (len, sock\<lparr>ls_reads := io1, ls_stream_reset := (ls_stream_reset sock \<or> len = 0)\<rparr>, the b, le1))
            else Inr (0, sock, buf, le))
       (\<lambda>(len, sock1, buf1, le1).
          if \<not> sb_formed (ls_stream_buf sock) \<and> len \<le> 0 then Inr (len, sock1, buf1\<lparr>b_len := len\<rparr>, m, le1)
          else bindE (if sb_formed (ls_stream_buf sock1) then Inr (True, ls_stream_buf sock1, m)
                      else stream_buf_added m (ls_stream_buf sock1) len)
                 (\<lambda>(complete, sb, m1).
                    if complete
                    then bindE (stream_buf_get_final sb)
                           (\<lambda>b. Inr (b_len b, sock1\<lparr>ls_stream_buf := stream_buf_reset sb\<rparr>, b, m1, le1))
                    else Inr (0, sock1\<lparr>ls_stream_buf := sb\<rparr>, buf1\<lparr>b_len := 0\<rparr>, m1, le1)))"

definition link_socket_read_udp_win32 ::
  "link_socket \<Rightarrow> buffer \<Rightarrow> sockaddr \<Rightarrow> io_wait \<Rightarrow> int \<Rightarrow>
     fault + int \<times> link_socket \<times> buffer \<times> sockaddr \<times> int" where
  "link_socket_read_udp_win32 sock buf from w le =
     bindE (socket_finalize w (ls_reads sock) (Some buf) (Some from) le)
       (\<lambda>(ret, io1, b, f, le1). Inr (ret, sock\<lparr>ls_reads := io1\<rparr>, the b, the f, le1))"

definition link_socket_read ::
  "mem \<Rightarrow> link_socket \<Rightarrow> buffer \<Rightarrow> sockaddr \<Rightarrow> io_wait \<Rightarrow> int \<Rightarrow>
     fault + int \<times> link_socket \<times> buffer \<times> sockaddr \<times> mem \<times> int" where
  "link_socket_read m sock buf from w le =
     bindE (proto_is_udp (ls_proto sock))
       (\<lambda>udp. if udp
          then bindE (link_socket_read_udp_win32 sock buf from w le)
                 (\<lambda>(ret, sock1, b, f, le1). Inr (ret, sock1, b, f, m, le1))
          else bindE (proto_is_tcp (ls_proto sock))
                 (\<lambda>tcp. if tcp
                    then bindE (link_socket_read_tcp m sock buf w le)
                           (\<lambda>(ret, sock1, b, m1, le1).
                              Inr (ret, sock1, b, addr_copy_sa from (lsi_actual (ls_info sock)), m1, le1))
                    else Inl AssertFail))"

definition socket_read_residual :: "link_socket option \<Rightarrow> bool" where
  "socket_read_residual so = (case so of None \<Rightarrow> False | Some s \<Rightarrow> sb_formed (ls_stream_buf s))"

definition socket_connection_reset :: "link_socket \<Rightarrow> int \<Rightarrow> int \<Rightarrow> fault + bool" where
  "socket_connection_reset sock status le =
     bindE (link_socket_connection_oriented (Some sock))
       (\<lambda>c. Inr (c \<and> (ls_stream_reset sock \<or> sb_error (ls_stream_buf sock) \<or>
                      status < 0 \<and> (le = WSAECONNRESET \<or> le = WSAECONNABORTED))))"

section \<open>Writing\<close>

definition link_socket_write_win32 ::
  "mem \<Rightarrow> link_socket \<Rightarrow> buffer \<Rightarrow> sockaddr \<Rightarrow> io_wait \<Rightarrow> nat io_start \<Rightarrow> int \<Rightarrow>
     fault + int \<times> link_socket \<times> mem \<times> int" where
  "link_socket_write_win32 m sock buf dest w r le =
     bindE (if overlapped_io_active (ls_writes sock)
            then bindE (socket_finalize w (ls_writes sock) None None le)
                   (\<lambda>(status, io1, _, _, le1). Inr (status, sock\<lparr>ls_writes := io1\<rparr>, le1))
            else Inr (0, sock, le))
       (\<lambda>(status, sock1, le1).
          bindE (socket_send_queue m sock1 buf dest r)
            (\<lambda>(_, sock2, m1). Inr (if status < 0 then status else buf_len buf, sock2, m1, le1)))"

text \<open>\<open>buf_write_prepend\<close> of a local object.\<close>

definition buf_write_prepend_val :: "mem \<Rightarrow> buffer \<Rightarrow> byte list \<Rightarrow> fault + bool \<times> buffer \<times> mem" where
  "buf_write_prepend_val m dest bs =
     (let (dest', cp) = buf_prepend dest (int (length bs))
      in if cp = Null then Inr (False, dest', m)
         else bindE (write_bytes m cp bs) (\<lambda>m'. Inr (True, dest', m')))"

text \<open>The length goes through a \<open>uint16_t\<close>.\<close>

definition link_socket_write_tcp ::
  "mem \<Rightarrow> link_socket \<Rightarrow> buffer \<Rightarrow> sockaddr \<Rightarrow> io_wait \<Rightarrow> nat io_start \<Rightarrow> int \<Rightarrow>
     fault + int \<times> link_socket \<times> buffer \<times> mem \<times> int" where
  "link_socket_write_tcp m sock buf dest w r le =
     (let len = word_of_int (buf_len buf) :: 16 word
      in bindE (c_assert (uint len \<le> sb_maxlen (ls_stream_buf sock)))
           (\<lambda>_. bindE (buf_write_prepend_val m buf (be16 len))
             (\<lambda>(ok, buf1, m1). bindE (c_assert ok)
               (\<lambda>_. bindE (link_socket_write_win32 m1 sock buf1 dest w r le)
                 (\<lambda>(n, sock1, m2, le1). Inr (n, sock1, buf1, m2, le1))))))"

definition link_socket_write_udp ::
  "mem \<Rightarrow> link_socket \<Rightarrow> buffer \<Rightarrow> sockaddr \<Rightarrow> io_wait \<Rightarrow> nat io_start \<Rightarrow> int \<Rightarrow>
     fault + int \<times> link_socket \<times> mem \<times> int" where
  "link_socket_write_udp m sock buf dest w r le = link_socket_write_win32 m sock buf dest w r le"

definition link_socket_write ::
  "mem \<Rightarrow> link_socket \<Rightarrow> buffer \<Rightarrow> sockaddr \<Rightarrow> io_wait \<Rightarrow> nat io_start \<Rightarrow> int \<Rightarrow>
     fault + int \<times> link_socket \<times> buffer \<times> mem \<times> int" where
  "link_socket_write m sock buf dest w r le =
     bindE (proto_is_udp (ls_proto sock))
       (\<lambda>udp. if udp
          then bindE (link_socket_write_udp m sock buf dest w r le)
                 (\<lambda>(n, sock1, m1, le1). Inr (n, sock1, buf, m1, le1))
          else bindE (proto_is_tcp (ls_proto sock))
                 (\<lambda>tcp. if tcp then link_socket_write_tcp m sock buf dest w r le else Inl AssertFail))"

section \<open>A stream session\<close>

text \<open>
  One turn of the event loop on a TCP socket: \<open>socket_set\<close> prepares the read and queues it, the
  kernel hands over at most \<open>Suc k\<close> of the bytes that have arrived, at once or (\<open>later\<close>) after the
  operation was pending, and the packet is read. Nothing happens when no byte is there.
\<close>

datatype turn = Waiting | Reset | Data "byte list"

definition tcp_receive :: "mem \<Rightarrow> link_socket \<Rightarrow> bool \<Rightarrow> byte list \<Rightarrow> fault + link_socket \<times> mem" where
  "tcp_receive m sock later bs =
     (let rv = (bs, \<lparr>sa_family = 0, sa_data = []\<rparr>, 0)
      in bindE (socket_recv_queue m sock 0 (if later then StartPending else StartDone rv))
           (\<lambda>(_, s1, m1). if later then bindE (os_receive_completes m1 (ls_reads s1) rv)
                                          (\<lambda>(io, m2). Inr (s1\<lparr>ls_reads := io\<rparr>, m2))
                          else Inr (s1, m1)))"

definition tcp_turn ::
  "mem \<Rightarrow> link_socket \<Rightarrow> nat \<times> bool \<Rightarrow> byte list \<Rightarrow> fault + turn \<times> link_socket \<times> mem \<times> byte list" where
  "tcp_turn m sock kl inp =
     bindE (stream_buf_read_setup m sock)
       (\<lambda>(need, s1, m1).
          let n = (if need then min (Suc (fst kl)) (nat (b_len (sb_next (ls_stream_buf s1)))) else 0)
          in if need \<and> inp = [] then Inr (Waiting, s1, m1, inp)
             else bindE (if need then tcp_receive m1 s1 (snd kl) (take n inp) else Inr (s1, m1))
               (\<lambda>(s2, m2). bindE (link_socket_read m2 s2 clear_buf \<lparr>sa_family = 0, sa_data = []\<rparr>
                                    (WaitDone (length (take n inp))) 0)
                 (\<lambda>(ret, s3, b, _, m3, le). bindE (socket_connection_reset s3 ret le)
                   (\<lambda>reset. Inr (if reset then Reset else Data (content m3 b), s3, m3, drop n inp)))))"

text \<open>The packets read, and whether the connection is to be restarted.\<close>

fun tcp_session :: "mem \<Rightarrow> link_socket \<Rightarrow> (nat \<times> bool) list \<Rightarrow> byte list \<Rightarrow> fault + byte list list \<times> bool" where
  "tcp_session m sock [] inp = Inr ([], False)"
| "tcp_session m sock (kl # kls) inp =
     bindE (tcp_turn m sock kl inp)
       (\<lambda>(t, s, m1, rest). case t of
          Waiting \<Rightarrow> Inr ([], sb_error (ls_stream_buf s))
        | Reset \<Rightarrow> Inr ([], True)
        | Data p \<Rightarrow> bindE (tcp_session m1 s kls rest) (\<lambda>(ps, bad). Inr (if p = [] then ps else p # ps, bad)))"

definition link_tcp :: "link_socket \<Rightarrow> bool" where
  "link_tcp sock \<longleftrightarrow> (ls_proto sock = PROTO_TCP_SERVER \<or> ls_proto sock = PROTO_TCP_CLIENT) \<and>
     ov_inv (ls_reads sock) \<and> ov_iostate (ls_reads sock) = IOSTATE_INITIAL \<and> \<not> ls_stream_reset sock"

lemma link_tcp_proto:
  "link_tcp sock \<Longrightarrow> proto_is_udp (ls_proto sock) = Inr False \<and> proto_is_tcp (ls_proto sock) = Inr True \<and>
     link_socket_proto_connection_oriented (ls_proto sock) = Inr True"
  by (auto simp: link_tcp_def link_socket_proto_connection_oriented_def proto_is_dgram_def proto_is_udp_def proto_is_tcp_def
      PROTO_UDP_def PROTO_TCP_CLIENT_def PROTO_TCP_SERVER_def PROTO_N_def)

lemma some_false: "Ex Not" "Ex (\<lambda>b. b)"
  by auto

lemma tcp_receive_ok:
  assumes t: "link_tcp sock" and r: "sb_reading k l M m (ls_stream_buf sock)"
    and bs: "int (length bs) \<le> b_len (sb_next (ls_stream_buf sock))"
  shows "\<exists>io m'. tcp_receive m sock later bs = Inr (sock\<lparr>ls_reads := io\<rparr>, m') \<and>
     write_bytes m (buf_bptr (sb_next (ls_stream_buf sock))) bs = Inr m' \<and> ov_inv io \<and>
     (if later then ov_iostate io = IOSTATE_QUEUED
      else ov_iostate io = IOSTATE_IMMEDIATE_RETURN \<and> ov_status io = 0 \<and> ov_size io = length bs)"
proof -
  let ?nx = "sb_next (ls_stream_buf sock)" and ?rd = "ls_reads sock"
  note n = reading_next [OF r]
  have next_ok: "stream_buf_get_next (ls_stream_buf sock) = Inr ?nx"
    using n(3) by (simp add: stream_buf_get_next_def buf_defined_def)
  have len: "buf_len ?nx = b_len ?nx" by (rule buf_inv_len [OF n(1)])
  obtain m' where m': "write_bytes m (buf_bptr ?nx) bs = Inr m'" using room_for_fill [OF n(1) bs] .
  have rd: "ov_inv ?rd" "ov_iostate ?rd = IOSTATE_INITIAL" using t by (simp_all add: link_tcp_def)
  let ?io = "?rd\<lparr>ov_buf := ?nx, ov_event := Some False, ov_flags := 0, ov_addr_defined := False\<rparr>"
  have ev: "reset_event (?rd\<lparr>ov_buf := ?nx\<rparr>) = Inr (?rd\<lparr>ov_buf := ?nx, ov_event := Some False\<rparr>)"
    using rd(1) by (auto simp: reset_event_def ov_inv_def)
  note pr = link_tcp_proto [OF t]
  have os: "os_receives m io (bs, a) = Inr (io, m')" if "ov_buf io = ?nx" "\<not> ov_addr_defined io" for io a
    using m' that by (cases a) (simp add: os_receives_def)
  show ?thesis
  proof (cases later)
    case True
    let ?io1 = "?io\<lparr>ov_iostate := IOSTATE_QUEUED, ov_status := ERROR_IO_PENDING\<rparr>"
    have "tcp_receive m sock later bs = Inr (sock\<lparr>ls_reads := ?io1\<lparr>ov_event := Some True\<rparr>\<rparr>, m')"
      using True pr rd next_ok len n(2) ev os [of ?io1]
      by (simp add: tcp_receive_def socket_recv_queue_def io_started_def os_receive_completes_def)
    moreover have "ov_inv (?io1\<lparr>ov_event := Some True\<rparr>)" by (simp add: ov_inv_def)
    ultimately show ?thesis
      using m' True by (intro exI [of _ "?io1\<lparr>ov_event := Some True\<rparr>"] exI [of _ m']) simp
  next
    case False
    let ?io1 = "?io\<lparr>ov_event := Some True, ov_size := length bs, ov_iostate := IOSTATE_IMMEDIATE_RETURN, ov_status := 0\<rparr>"
    have "tcp_receive m sock later bs = Inr (sock\<lparr>ls_reads := ?io1\<rparr>, m')"
      using False pr rd next_ok len n(2) ev os [of ?io]
      by (simp add: tcp_receive_def socket_recv_queue_def io_started_def set_event_def some_false)
    moreover have "ov_inv ?io1" by (simp add: ov_inv_def)
    ultimately show ?thesis using m' False by (intro exI [of _ ?io1] exI [of _ m']) simp
  qed
qed

text \<open>Fetching a finished receive of \<open>n > 0\<close> bytes.\<close>

definition received_n :: "overlapped_io \<Rightarrow> nat \<Rightarrow> bool" where
  "received_n io n \<longleftrightarrow> ov_inv io \<and> (ov_iostate io = IOSTATE_QUEUED \<or>
     ov_iostate io = IOSTATE_IMMEDIATE_RETURN \<and> ov_status io = 0 \<and> ov_size io = n)"

lemma finalize_received:
  assumes "received_n io n"
  shows "\<exists>io' b'. socket_finalize (WaitDone n) io (Some b) None le = Inr (int n, io', Some b', None, le) \<and>
     ov_inv io' \<and> ov_iostate io' = IOSTATE_INITIAL"
proof -
  have i: "ov_inv io" using assms by (simp add: received_n_def)
  obtain io' where "io_finalize WSAEINVAL (WaitDone n) io le = Inr (int n, io', True, le)"
      "ov_iostate io' = IOSTATE_INITIAL" "ov_event io' = Some False"
    using assms io_finalize_done [OF i] io_finalize_immediate [OF i, where w = "WaitDone n"]
    unfolding received_n_def by metis
  moreover from this have "ov_inv io'" by (simp add: ov_inv_def iostate_defs)
  ultimately show ?thesis by (simp add: socket_finalize_def finalized_buf_def)
qed

lemma reset_projections [simp]:
  "sb_error (stream_buf_reset sb) = sb_error sb" "sb_residual (stream_buf_reset sb) = sb_residual sb"
  by (simp_all add: stream_buf_reset_def)

lemma core_defined: "buf_inv m b \<Longrightarrow> buf_defined b"
  by (auto simp: buf_inv_def buf_defined_def)

text \<open>What a read returns that got \<open>bs\<close> after the bytes before.\<close>

lemma read_tcp_received:
  assumes r: "sb_reading k l M m (ls_stream_buf sock)" and io: "received_n (ls_reads sock) (length bs)" and ne: "bs \<noteq> []"
    and fit: "int (length bs) \<le> b_len (sb_next (ls_stream_buf sock))"
    and w: "write_bytes m (buf_bptr (sb_next (ls_stream_buf sock))) bs = Inr m'"
  shows "\<exists>ret io' sb b m2. link_socket_read_tcp m' sock buf (WaitDone (length bs)) le =
       Inr (ret, sock\<lparr>ls_reads := io', ls_stream_buf := sb\<rparr>, b, m2, le) \<and>
       ov_inv io' \<and> ov_iostate io' = IOSTATE_INITIAL \<and> 0 \<le> ret \<and>
       (sb_error (ls_stream_buf sock) \<longrightarrow> sb_error sb) \<and>
       (\<not> sb_error (ls_stream_buf sock) \<longrightarrow>
         (case frame_head M (sb_head m (ls_stream_buf sock) @ bs) of
            Incomplete \<Rightarrow> content m2 b = [] \<and> sb_ready k l M m2 sb \<and> sb_pending m2 sb = sb_head m (ls_stream_buf sock) @ bs
          | Bad_Length \<Rightarrow> sb_error sb
          | Framed p rest \<Rightarrow> content m2 b = p \<and> sb_ready k l M m2 sb \<and> sb_pending m2 sb = rest))"
proof -
  let ?sb = "ls_stream_buf sock" and ?n = "int (length bs)"
  have res: "b_len (sb_residual ?sb) = 0" and nf: "\<not> sb_formed ?sb" using r by (simp_all add: sb_reading_def)
  note f = filled_reading [OF r ne fit w]
  note ad = added_spec [OF f(1) res, unfolded f(2)]
  obtain io' b1 where fin: "socket_finalize (WaitDone (length bs)) (ls_reads sock) (Some buf) None le =
        Inr (?n, io', Some b1, None, le)" "ov_inv io'" "ov_iostate io' = IOSTATE_INITIAL"
    using finalize_received [OF io] by blast
  have pos: "0 < ?n" using ne by simp
  have run: "link_socket_read_tcp m' sock buf (WaitDone (length bs)) le =
     bindE (stream_buf_added m' ?sb ?n)
       (\<lambda>(complete, sb, m1). if complete
          then bindE (stream_buf_get_final sb)
                 (\<lambda>b. Inr (b_len b, sock\<lparr>ls_reads := io', ls_stream_buf := stream_buf_reset sb\<rparr>, b, m1, le))
          else Inr (0, sock\<lparr>ls_reads := io', ls_stream_buf := sb\<rparr>, b1\<lparr>b_len := 0\<rparr>, m1, le))"
    using nf fin(1) pos by (simp add: link_socket_read_tcp_def)
  show ?thesis
  proof (cases "frame_head M (sb_head m ?sb @ bs)")
    case Incomplete
    then obtain sb where s: "stream_buf_added m' ?sb ?n = Inr (False, sb, m')" "sb_gather k l M m' sb"
        "b_len (sb_residual sb) = 0" "sb_short sb" "sb_head m' sb = sb_head m ?sb @ bs" "\<not> sb_formed sb"
        "sb_error sb = sb_error ?sb"
      using ad nf by auto
    then have "sb_pending m' sb = sb_head m ?sb @ bs"
      using residual_nil [of k l M m' sb] by (simp add: sb_pending_def sb_gather_def)
    moreover have "content m' (b1\<lparr>b_len := 0\<rparr>) = []" by (auto simp: content_def buf_len_def)
    ultimately show ?thesis using run s fin Incomplete by (simp add: sb_ready_def) blast
  next
    case Bad_Length
    then obtain sb where "stream_buf_added m' ?sb ?n = Inr (False, sb, m')" "sb_error sb" using ad by auto
    then show ?thesis using run fin Bad_Length by simp blast
  next
    case (Framed p rest)
    then obtain sb m2 where s: "stream_buf_added m' ?sb ?n = Inr (True, sb, m2)" "sb_core k l M m2 sb"
        "buf_inv m2 (sb_buf sb)" "content m2 (sb_buf sb) = p" "content m2 (sb_residual sb) = rest"
        "sb_error sb = sb_error ?sb"
      using ad by auto
    have "stream_buf_get_final sb = Inr (sb_buf sb)" using core_defined [OF s(3)] by (simp add: stream_buf_get_final_def)
    moreover have "0 \<le> b_len (sb_buf sb)" using s(3) by (simp add: buf_inv_def)
    ultimately show ?thesis
      using run s fin Framed delivered_ready [OF s(2)]
      by (intro exI [of _ "b_len (sb_buf sb)"] exI [of _ io'] exI [of _ "stream_buf_reset sb"] exI [of _ "sb_buf sb"]
          exI [of _ m2]) simp
  qed
qed

lemma read_tcp_formed:
  assumes "sb_formed (ls_stream_buf sock)" and "sb_core k l M m (ls_stream_buf sock)" and "\<not> sb_error (ls_stream_buf sock)"
    and "buf_inv m (sb_buf (ls_stream_buf sock))"
  shows "\<exists>sb. link_socket_read_tcp m sock buf w le =
       Inr (b_len (sb_buf (ls_stream_buf sock)), sock\<lparr>ls_stream_buf := sb\<rparr>, sb_buf (ls_stream_buf sock), m, le) \<and>
       0 \<le> b_len (sb_buf (ls_stream_buf sock)) \<and> \<not> sb_error sb \<and>
       sb_ready k l M m sb \<and> sb_pending m sb = content m (sb_residual (ls_stream_buf sock))"
  using delivered_ready [OF assms(2,3)] assms(1,3,4) core_defined [OF assms(4)]
  by (auto simp: link_socket_read_tcp_def stream_buf_get_final_def buf_inv_def)

section \<open>One turn\<close>

definition link_ready :: "nat \<Rightarrow> nat \<Rightarrow> nat \<Rightarrow> mem \<Rightarrow> link_socket \<Rightarrow> bool" where
  "link_ready k l M m sock \<longleftrightarrow> link_tcp sock \<and> sb_ready k l M m (ls_stream_buf sock)"

abbreviation pending :: "mem \<Rightarrow> link_socket \<Rightarrow> byte list" where
  "pending m sock \<equiv> sb_pending m (ls_stream_buf sock)"

lemma link_tcp_stream [simp]: "link_tcp (sock\<lparr>ls_stream_buf := sb\<rparr>) = link_tcp sock"
  by (simp add: link_tcp_def)

lemma link_tcp_reads: "link_tcp sock \<Longrightarrow> ov_inv io \<Longrightarrow> ov_iostate io = IOSTATE_INITIAL \<Longrightarrow> link_tcp (sock\<lparr>ls_reads := io\<rparr>)"
  by (simp add: link_tcp_def)

lemma setup_turn:
  assumes "link_tcp sock" and "stream_buf_read_setup_dowork m (ls_stream_buf sock) = Inr (b, sb, m1)"
  shows "stream_buf_read_setup m sock = Inr (b, sock\<lparr>ls_stream_buf := sb\<rparr>, m1)"
  using link_tcp_proto [OF assms(1)] assms(2) by (simp add: stream_buf_read_setup_def link_socket_connection_oriented_def)

text \<open>A turn with a read: it takes \<open>n\<close> bytes.\<close>

lemma reading_turn:
  assumes t: "link_tcp sock" and su: "stream_buf_read_setup_dowork m (ls_stream_buf sock) = Inr (True, sb, m1)"
    and r: "sb_reading k l M m1 sb" and ne: "inp \<noteq> []"
  shows "\<exists>t s m' n. tcp_turn m sock kl inp = Inr (t, s, m', drop n inp) \<and> 0 < n \<and> n \<le> length inp \<and>
     (if sb_error sb then t = Reset
      else case frame_head M (sb_head m1 sb @ take n inp) of
        Incomplete \<Rightarrow> t = Data [] \<and> link_ready k l M m' s \<and> pending m' s = sb_head m1 sb @ take n inp
      | Bad_Length \<Rightarrow> t = Reset
      | Framed p rest \<Rightarrow> t = Data p \<and> link_ready k l M m' s \<and> pending m' s = rest)"
proof -
  let ?s1 = "sock\<lparr>ls_stream_buf := sb\<rparr>"
  define n where "n = min (Suc (fst kl)) (nat (b_len (sb_next sb)))"
  define bs where "bs = take n inp"
  define j where "j = length bs"
  have n: "0 < n" "int n \<le> b_len (sb_next sb)" using reading_next(2) [OF r] by (auto simp: n_def)
  have bs: "bs \<noteq> []" "int (length bs) \<le> b_len (sb_next sb)" using n ne by (auto simp: bs_def)
  have j: "0 < j" "j \<le> length inp" "take j inp = bs" "drop j inp = drop n inp" using bs(1) by (auto simp: j_def bs_def min_def)
  note set = setup_turn [OF t su]
  have t1: "link_tcp ?s1" using t by simp
  obtain io m2 where rc: "tcp_receive m1 ?s1 (snd kl) bs = Inr (?s1\<lparr>ls_reads := io\<rparr>, m2)"
      "write_bytes m1 (buf_bptr (sb_next sb)) bs = Inr m2" "received_n io (length bs)"
    using tcp_receive_ok [OF t1, of k l M m1 bs "snd kl"] r bs(2) unfolding received_n_def by (auto split: if_splits)
  let ?s2 = "?s1\<lparr>ls_reads := io\<rparr>"
  have e2: "ls_stream_buf ?s2 = sb" "ls_reads ?s2 = io" by simp_all
  note rr = read_tcp_received [where sock = ?s2 and buf = clear_buf and le = 0, unfolded e2, OF r rc(3) bs rc(2)]
  obtain ret io' sb' b m3 where rd: "link_socket_read_tcp m2 ?s2 clear_buf (WaitDone (length bs)) 0 =
        Inr (ret, ?s2\<lparr>ls_reads := io', ls_stream_buf := sb'\<rparr>, b, m3, 0)"
      "ov_inv io'" "ov_iostate io' = IOSTATE_INITIAL" "0 \<le> ret" "sb_error sb \<longrightarrow> sb_error sb'"
      "\<not> sb_error sb \<longrightarrow>
         (case frame_head M (sb_head m1 sb @ bs) of
            Incomplete \<Rightarrow> content m3 b = [] \<and> sb_ready k l M m3 sb' \<and> sb_pending m3 sb' = sb_head m1 sb @ bs
          | Bad_Length \<Rightarrow> sb_error sb'
          | Framed p rest \<Rightarrow> content m3 b = p \<and> sb_ready k l M m3 sb' \<and> sb_pending m3 sb' = rest)"
    using rr by blast
  let ?s3 = "?s2\<lparr>ls_reads := io', ls_stream_buf := sb'\<rparr>"
  have t3: "link_tcp ?s3" using link_tcp_reads [OF t rd(2,3)] by (simp add: link_tcp_def)
  have pr: "lsi_proto (ls_info ?s2) = lsi_proto (ls_info sock)" by simp
  have run: "tcp_turn m sock kl inp =
     Inr (if sb_error sb' then Reset else Data (content m3 b), ?s3, m3, drop n inp)"
  proof -
    have "bindE (link_socket_read m2 ?s2 clear_buf \<lparr>sa_family = 0, sa_data = []\<rparr> (WaitDone (length bs)) 0)
       (\<lambda>(ret, s3, b, _, m3, le). bindE (socket_connection_reset s3 ret le)
          (\<lambda>reset. Inr (if reset then Reset else Data (content m3 b), s3, m3, drop n inp))) =
     Inr (if sb_error (ls_stream_buf ?s3) then Reset else Data (content m3 b), ?s3, m3, drop n inp)"
      using link_tcp_proto [OF t] rd(1,4) t
      by (simp add: link_socket_read_def socket_connection_reset_def link_socket_connection_oriented_def link_tcp_def)
    then show ?thesis using set ne rc(1) by (simp add: tcp_turn_def Let_def n_def [symmetric] bs_def)
  qed
  have ready: "link_ready k l M m3 ?s3" if "sb_ready k l M m3 sb'" using t3 that by (simp add: link_ready_def)
  show ?thesis
    using run rd(5,6) j ready
    by (intro exI [of _ "if sb_error sb' then Reset else Data (content m3 b)"] exI [of _ ?s3] exI [of _ m3] exI [of _ j])
      (cases "frame_head M (sb_head m1 sb @ bs)"; auto simp: sb_ready_def)
qed

lemma formed_turn:
  assumes t: "link_tcp sock" and su: "stream_buf_read_setup_dowork m (ls_stream_buf sock) = Inr (False, sb, m1)"
    and f: "sb_formed sb" "sb_core k l M m1 sb" "\<not> sb_error sb" "buf_inv m1 (sb_buf sb)"
  shows "\<exists>s m'. tcp_turn m sock kl inp = Inr (Data (content m1 (sb_buf sb)), s, m', inp) \<and>
     link_ready k l M m' s \<and> pending m' s = content m1 (sb_residual sb)"
proof -
  let ?s1 = "sock\<lparr>ls_stream_buf := sb\<rparr>"
  have e: "ls_stream_buf ?s1 = sb" by simp
  obtain sb' where rd: "link_socket_read_tcp m1 ?s1 clear_buf (WaitDone 0) 0 =
       Inr (b_len (sb_buf sb), ?s1\<lparr>ls_stream_buf := sb'\<rparr>, sb_buf sb, m1, 0)"
      "0 \<le> b_len (sb_buf sb)" "\<not> sb_error sb'" "sb_ready k l M m1 sb'" "sb_pending m1 sb' = content m1 (sb_residual sb)"
    using read_tcp_formed [where sock = ?s1 and buf = clear_buf and w = "WaitDone 0" and le = 0, unfolded e, OF f] by blast
  have "tcp_turn m sock kl inp = Inr (Data (content m1 (sb_buf sb)), ?s1\<lparr>ls_stream_buf := sb'\<rparr>, m1, inp)"
    using setup_turn [OF t su] rd(1-3) link_tcp_proto [OF t] t
    by (simp add: tcp_turn_def Let_def link_socket_read_def socket_connection_reset_def link_socket_connection_oriented_def
        link_tcp_def)
  then show ?thesis using t rd(4,5) by (simp add: link_ready_def)
qed

lemma waiting_turn:
  assumes "link_tcp sock" and "stream_buf_read_setup_dowork m (ls_stream_buf sock) = Inr (True, sb, m1)"
  shows "tcp_turn m sock kl [] = Inr (Waiting, sock\<lparr>ls_stream_buf := sb\<rparr>, m1, [])"
  using setup_turn [OF assms] by (simp add: tcp_turn_def Let_def)

lemma frame_head_append:
  "frame_head M xs = Framed p rest \<Longrightarrow> frame_head M (xs @ ys) = Framed p (rest @ ys)"
  "frame_head M xs = Bad_Length \<Longrightarrow> frame_head M (xs @ ys) = Bad_Length"
  by (auto simp: frame_head_def Let_def split: if_splits)

lemma frames_unfold:
  "frame_head M bs = Framed p rest \<Longrightarrow> frames M bs = (p # fst (frames M rest), snd (frames M rest))"
  "frame_head M bs = Bad_Length \<Longrightarrow> frames M bs = ([], True)"
  "frame_head M bs = Incomplete \<Longrightarrow> frames M bs = ([], False)"
  by (simp_all add: frames.simps [of M bs] split: prod.splits)

text \<open>
  Every turn but the last makes progress: it takes a byte of the input or a packet out of what is
  pending, so \<open>length pending + 2 * length inp\<close> goes down.
\<close>

lemma tcp_session_frames:
  "link_ready k l M m sock \<Longrightarrow> length (pending m sock) + 2 * length inp < length kls \<Longrightarrow>
     tcp_session m sock kls inp = Inr (frames M (pending m sock @ inp))"
proof (induction kls arbitrary: m sock inp)
  case (Cons kl kls)
  let ?p = "pending m sock"
  have t: "link_tcp sock" and r: "sb_ready k l M m (ls_stream_buf sock)" using Cons.prems(1) by (simp_all add: link_ready_def)
  note su = read_setup_spec [OF r]
  have next_turn: "tcp_session m sock (kl # kls) inp = Inr (frames M (?p @ inp))"
    if "tcp_turn m sock kl inp = Inr (Data p, s, m', rest)" "link_ready k l M m' s"
      "length (pending m' s) + 2 * length rest < length ?p + 2 * length inp"
      "frames M (?p @ inp) = (case frames M (pending m' s @ rest) of (ps, bad) \<Rightarrow> (if p = [] then ps else p # ps, bad))"
    for p s m' rest
    using Cons.IH [OF that(2), of rest] that(1,3,4) Cons.prems(2) by (simp split: prod.splits)
  show ?case
  proof (cases "frame_head M ?p")
    case (Framed p rest)
    obtain sb m1 where sb: "stream_buf_read_setup_dowork m (ls_stream_buf sock) = Inr (False, sb, m1)"
        "sb_core k l M m1 sb" "sb_formed sb" "\<not> sb_error sb" "buf_inv m1 (sb_buf sb)" "content m1 (sb_buf sb) = p"
        "content m1 (sb_residual sb) = rest"
      using su Framed by auto
    obtain s m' where s: "tcp_turn m sock kl inp = Inr (Data p, s, m', inp)" "link_ready k l M m' s" "pending m' s = rest"
      using formed_turn [OF t sb(1,3,2,4,5), of kl inp] sb(6,7) by auto
    show ?thesis
      by (rule next_turn [OF s(1,2)])
        (use frame_head_shorter [OF Framed] s(3) frames_unfold(1) [OF frame_head_append(1) [OF Framed]] in \<open>auto split: prod.splits\<close>)
  next
    case Bad_Length
    obtain sb m1 where sb: "stream_buf_read_setup_dowork m (ls_stream_buf sock) = Inr (True, sb, m1)"
        "sb_reading k l M m1 sb" "sb_error sb"
      using su Bad_Length by auto
    have "frames M (?p @ inp) = ([], True)" by (rule frames_unfold(2) [OF frame_head_append(2) [OF Bad_Length]])
    then show ?thesis
      using waiting_turn [OF t sb(1), of kl] reading_turn [OF t sb(1,2), of inp kl] sb(3) by (cases "inp = []") auto
  next
    case Incomplete
    obtain sb m1 where sb: "stream_buf_read_setup_dowork m (ls_stream_buf sock) = Inr (True, sb, m1)"
        "sb_reading k l M m1 sb" "\<not> sb_error sb" "sb_head m1 sb = ?p"
      using su Incomplete by auto
    show ?thesis
    proof (cases "inp = []")
      case True
      then show ?thesis using waiting_turn [OF t sb(1), of kl] sb(3) frames_unfold(3) [OF Incomplete] by simp
    next
      case False
      obtain tu s m' n where tn: "tcp_turn m sock kl inp = Inr (tu, s, m', drop n inp)" "0 < n" "n \<le> length inp"
          "case frame_head M (?p @ take n inp) of
             Incomplete \<Rightarrow> tu = Data [] \<and> link_ready k l M m' s \<and> pending m' s = ?p @ take n inp
           | Bad_Length \<Rightarrow> tu = Reset
           | Framed p rest \<Rightarrow> tu = Data p \<and> link_ready k l M m' s \<and> pending m' s = rest"
        using reading_turn [OF t sb(1,2) False, of kl, unfolded sb(4)] sb(3) by (simp only: if_False) blast
      have split: "?p @ inp = (?p @ take n inp) @ drop n inp" by simp
      show ?thesis
      proof (cases "frame_head M (?p @ take n inp)")
        case Incomplete
        then show ?thesis using tn by (intro next_turn) (auto split: prod.splits)
      next
        case Bad_Length
        then have "frames M (?p @ inp) = ([], True)" unfolding split by (rule frames_unfold(2) [OF frame_head_append(2)])
        then show ?thesis using Bad_Length tn by simp
      next
        case (Framed p rest)
        then have f: "frames M (?p @ inp) = (p # fst (frames M (rest @ drop n inp)), snd (frames M (rest @ drop n inp)))"
          unfolding split by (rule frames_unfold(1) [OF frame_head_append(1)])
        show ?thesis
          using Framed tn f frame_head_shorter [OF Framed] by (intro next_turn) (auto split: prod.splits)
      qed
    qed
  qed
qed simp

section \<open>Sending\<close>

definition framed :: "byte list \<Rightarrow> byte list" where
  "framed p = be16 (of_nat (length p)) @ p"

text \<open>
  Successive packets on one socket, as \<open>process_outgoing_link\<close> sends them: the packet is put into the
  caller's buffer, behind its headroom, and \<open>link_socket_write\<close> is called. \<open>w\<close> is what
  \<open>WSAGetOverlappedResult\<close> reports of a write that is still pending then, \<open>r\<close> what \<open>WSASend\<close> reports
  if it is called. The result is what the kernel puts onto the wire: the overlapped buffer of each
  write it has started.
\<close>

fun tcp_writes ::
  "mem \<Rightarrow> link_socket \<Rightarrow> buffer \<Rightarrow> (byte list \<times> io_wait \<times> nat io_start) list \<Rightarrow> fault + byte list" where
  "tcp_writes m sock buf [] = Inr []"
| "tcp_writes m sock buf ((p, w, r) # xs) =
     bindE (buf_write_val m buf p)
       (\<lambda>(ok, b, m1). bindE (c_assert ok)
         (\<lambda>_. bindE (link_socket_write m1 sock b \<lparr>sa_family = 0, sa_data = []\<rparr> w r 0)
           (\<lambda>(n, sock1, b1, m2, le). bindE (tcp_writes m2 sock1 buf xs)
             (\<lambda>bs. Inr ((if ov_iostate (ls_writes sock) = IOSTATE_QUEUED \<and> w = WaitIncomplete \<or> (\<exists>e. r = StartFailed e)
                         then [] else content m2 (ov_buf (ls_writes sock1))) @ bs)))))"

text \<open>
  The packets that get out: not the one that comes while the write before it has not completed, nor
  one the kernel refuses.
\<close>

fun sent_packets :: "bool \<Rightarrow> (byte list \<times> io_wait \<times> nat io_start) list \<Rightarrow> byte list list" where
  "sent_packets queued [] = []"
| "sent_packets queued ((p, w, r) # xs) =
     (if queued \<and> w = WaitIncomplete then sent_packets True xs
      else (case r of StartDone n \<Rightarrow> p # sent_packets False xs
                    | StartPending \<Rightarrow> p # sent_packets True xs
                    | StartFailed e \<Rightarrow> sent_packets False xs))"

definition packet_ok :: "nat \<Rightarrow> byte list \<times> io_wait \<times> nat io_start \<Rightarrow> bool" where
  "packet_ok M x \<longleftrightarrow> (case x of (p, w, r) \<Rightarrow> 1 \<le> length p \<and> length p \<le> M \<and> (\<forall>e. w \<noteq> WaitFailed e))"

definition send_ready :: "nat \<Rightarrow> mem \<Rightarrow> link_socket \<Rightarrow> buffer \<Rightarrow> bool" where
  "send_ready M m sock buf \<longleftrightarrow>
     (ls_proto sock = PROTO_TCP_SERVER \<or> ls_proto sock = PROTO_TCP_CLIENT) \<and>
     ov_inv (ls_writes sock) \<and> sb_maxlen (ls_stream_buf sock) = int M \<and> M \<le> 0xffff \<and>
     buf_inv m (ov_buf_init (ls_writes sock)) \<and> buf_inv m buf \<and>
     (case (b_data (ov_buf_init (ls_writes sock)), b_data buf) of
        (Ptr k i, Ptr l j) \<Rightarrow> i = 0 \<and> j = 0 \<and> k \<noteq> l | _ \<Rightarrow> False) \<and>
     2 \<le> b_offset buf \<and> b_len buf = 0 \<and> b_offset buf + int M \<le> b_capacity buf \<and>
     b_offset (ov_buf_init (ls_writes sock)) + int M + 2 \<le> b_capacity (ov_buf_init (ls_writes sock))"

lemma prepend_val_spec:
  assumes "buf_inv m b" and "int (length bs) \<le> b_offset b" and "b_data b = Ptr l i"
  shows "\<exists>b' m'. buf_write_prepend_val m b bs = Inr (True, b', m') \<and> buf_inv m' b' \<and> content m' b' = bs @ content m b \<and>
     b_len b' = b_len b + int (length bs) \<and> b_data b' = b_data b \<and> (\<forall>j. j \<noteq> l \<longrightarrow> blocks m' j = blocks m j) \<and>
     (\<forall>x. buf_inv m' x = buf_inv m x)"
proof -
  obtain b' where b': "buf_prepend b (int (length bs)) = (b', buf_bptr b')" "buf_inv m b'"
      "b_offset b' = b_offset b - int (length bs)" "b_len b' = b_len b + int (length bs)" "b_data b' = b_data b"
      "buf_bptr b = ptr_add (buf_bptr b') (int (length bs))" "room_at m (buf_bptr b') (int (length bs))"
    using buf_prepend_spec(1) [OF assms(1) _ assms(2)] by auto
  obtain m' where m': "write_bytes m (buf_bptr b') bs = Inr m'" using room_write [OF b'(7)] .
  have i: "buf_inv m' b'" using b'(2) buf_inv_write [OF m'] by simp
  have "read_bytes m (ptr_add (buf_bptr b') (int (length bs))) (b_len b) = Inr (content m b)"
    using read_content(1) [OF assms(1)] b'(6) by simp
  from write_before_read [OF this m'] have "read_bytes m' (buf_bptr b') (b_len b') = Inr (bs @ content m b)"
    using b'(4) by (simp add: add.commute)
  then have c: "content m' b' = bs @ content m b" by (rule contentI [OF i])
  obtain j where j: "buf_bptr b' = Ptr l j" using buf_inv_ptr [OF b'(2)] b'(5) assms(3) by simp
  have "buf_bptr b' \<noteq> Null" using j by simp
  then have "buf_write_prepend_val m b bs = Inr (True, b', m')" using b'(1) m' by (simp add: buf_write_prepend_val_def)
  then show ?thesis using i c b' write_bytes_other [of m l j bs m'] m' j buf_inv_write [OF m'] by auto
qed

lemma send_queue_idle:
  assumes "ls_proto sock = PROTO_TCP_SERVER \<or> ls_proto sock = PROTO_TCP_CLIENT"
    and "ov_inv (ls_writes sock)" and "ov_iostate (ls_writes sock) = IOSTATE_INITIAL"
    and "buf_inv m (ov_buf_init (ls_writes sock))" and "b_data (ov_buf_init (ls_writes sock)) = Ptr k 0"
    and "buf_inv m buf" and "b_data buf = Ptr l 0" and "k \<noteq> l"
    and "b_offset (ov_buf_init (ls_writes sock)) + b_len buf \<le> b_capacity (ov_buf_init (ls_writes sock))"
  shows "\<exists>st io m'. socket_send_queue m sock buf dest r = Inr (st, sock\<lparr>ls_writes := io\<rparr>, m') \<and>
     content m' (ov_buf io) = content m buf \<and> ov_inv io \<and> ov_buf_init io = ov_buf_init (ls_writes sock) \<and>
     (ov_iostate io = IOSTATE_QUEUED \<longleftrightarrow> r = StartPending) \<and>
     buf_inv m' (ov_buf_init io) \<and> (\<forall>j. j \<noteq> k \<longrightarrow> blocks m' j = blocks m j)"
proof -
  let ?wr = "ls_writes sock"
  let ?d = "(ov_buf_init ?wr)\<lparr>b_len := 0\<rparr>"
  have d: "buf_inv m ?d" using buf_inv_b_len [OF assms(4), of 0] assms(4) by (simp add: buf_inv_def)
  have nil: "content m ?d = []" using read_content(2) [OF d] by simp
  obtain m' where m': "buf_copy m ?d buf = Inr (True, ?d\<lparr>b_len := b_len buf\<rparr>, m')"
      "content m' (?d\<lparr>b_len := b_len buf\<rparr>) = content m buf" "buf_inv m' (?d\<lparr>b_len := b_len buf\<rparr>)"
      "\<forall>j. j \<noteq> k \<longrightarrow> blocks m' j = blocks m j"
    using buf_copy_other [OF d assms(6), of k l] assms(5,7,8,9) nil by auto
  have i: "buf_inv m' (ov_buf_init ?wr)" using m'(3) assms(4) by (simp add: buf_inv_def)
  let ?io = "?wr\<lparr>ov_buf := ?d\<lparr>b_len := b_len buf\<rparr>, ov_event := Some False, ov_flags := 0, ov_addr_defined := False\<rparr>"
  have pr: "proto_is_udp (ls_proto sock) = Inr False" "proto_is_tcp (ls_proto sock) = Inr True"
    using assms(1) by (auto simp: proto_is_udp_def proto_is_tcp_def PROTO_UDP_def PROTO_TCP_CLIENT_def PROTO_TCP_SERVER_def
        PROTO_N_def)
  obtain io' where io': "io_started ?io r = Inr io'" "ov_buf io' = ?d\<lparr>b_len := b_len buf\<rparr>" "ov_inv io'"
      "ov_buf_init io' = ov_buf_init ?wr" "ov_iostate io' = IOSTATE_QUEUED \<longleftrightarrow> r = StartPending"
    using io_started_total [of ?io r] by (cases r) (auto simp: io_started_def set_event_def iostate_defs)
  have "socket_send_queue m sock buf dest r = Inr (ov_iostate io', sock\<lparr>ls_writes := io'\<rparr>, m')"
    using assms(2,3) m'(1) io'(1) pr by (simp add: socket_send_queue_def reset_event_def ov_inv_def)
  then show ?thesis using io' m'(2,4) i by (intro exI [of _ "ov_iostate io'"] exI [of _ io'] exI [of _ m']) simp
qed

text \<open>One write, whatever the state of the one before: not done while that one is incomplete.\<close>

lemma write_win32_step:
  assumes "ls_proto sock = PROTO_TCP_SERVER \<or> ls_proto sock = PROTO_TCP_CLIENT"
    and "ov_inv (ls_writes sock)" and "\<forall>e. w \<noteq> WaitFailed e"
    and "buf_inv m (ov_buf_init (ls_writes sock))" and "b_data (ov_buf_init (ls_writes sock)) = Ptr k 0"
    and "buf_inv m buf" and "b_data buf = Ptr l 0" and "k \<noteq> l"
    and "b_offset (ov_buf_init (ls_writes sock)) + b_len buf \<le> b_capacity (ov_buf_init (ls_writes sock))"
  shows "\<exists>n io m' le'. link_socket_write_win32 m sock buf dest w r le = Inr (n, sock\<lparr>ls_writes := io\<rparr>, m', le') \<and>
     ov_inv io \<and> ov_buf_init io = ov_buf_init (ls_writes sock) \<and> buf_inv m' (ov_buf_init io) \<and>
     (\<forall>j. j \<noteq> k \<longrightarrow> blocks m' j = blocks m j) \<and>
     (if ov_iostate (ls_writes sock) = IOSTATE_QUEUED \<and> w = WaitIncomplete then ov_iostate io = IOSTATE_QUEUED \<and> n = -1
      else content m' (ov_buf io) = content m buf \<and> (ov_iostate io = IOSTATE_QUEUED \<longleftrightarrow> r = StartPending))"
proof (cases "ov_iostate (ls_writes sock) = IOSTATE_QUEUED \<and> w = WaitIncomplete")
  case True
  then have "link_socket_write_win32 m sock buf dest w r le = Inr (-1, sock\<lparr>ls_writes := ls_writes sock\<rparr>, m, ERROR_IO_INCOMPLETE)"
    by (simp add: link_socket_write_win32_def overlapped_io_active_def socket_finalize_def io_finalize_def
        socket_send_queue_def finalized_buf_def iostate_defs)
  then show ?thesis using True assms(2,4) by (intro exI conjI) auto
next
  case False
  obtain st io le' where f: "(if overlapped_io_active (ls_writes sock)
            then bindE (socket_finalize w (ls_writes sock) None None le)
                   (\<lambda>(status, io1, _, _, le1). Inr (status, sock\<lparr>ls_writes := io1\<rparr>, le1))
            else Inr (0, sock, le)) = Inr (st, sock\<lparr>ls_writes := io\<rparr>, le')"
      "ov_inv io" "ov_iostate io = IOSTATE_INITIAL" "ov_buf_init io = ov_buf_init (ls_writes sock)"
  proof (cases "overlapped_io_active (ls_writes sock)")
    case True
    obtain ret io' d le' where g: "io_finalize WSAEINVAL w (ls_writes sock) le = Inr (ret, io', d, le')" "ov_inv io'"
        "ov_buf_init io' = ov_buf_init (ls_writes sock)" "ov_iostate io' = IOSTATE_INITIAL"
      using io_finalize_total [OF assms(2), of WSAEINVAL w le] False by blast
    show thesis by (rule that [of ret io' le']) (use True g in \<open>auto simp: socket_finalize_def\<close>)
  next
    case False
    then have "ov_iostate (ls_writes sock) = IOSTATE_INITIAL"
      using assms(2) by (auto simp: overlapped_io_active_def ov_inv_def)
    then show thesis using that [of 0 "ls_writes sock" le] False assms(2) by simp
  qed
  let ?s = "sock\<lparr>ls_writes := io\<rparr>"
  obtain st1 io2 m' where q: "socket_send_queue m ?s buf dest r = Inr (st1, ?s\<lparr>ls_writes := io2\<rparr>, m')"
      "content m' (ov_buf io2) = content m buf" "ov_inv io2" "ov_buf_init io2 = ov_buf_init io"
      "ov_iostate io2 = IOSTATE_QUEUED \<longleftrightarrow> r = StartPending" "buf_inv m' (ov_buf_init io2)"
      "\<forall>j. j \<noteq> k \<longrightarrow> blocks m' j = blocks m j"
    using send_queue_idle [of ?s m k buf l dest r] assms f by auto
  have "link_socket_write_win32 m sock buf dest w r le = Inr (if st < 0 then st else buf_len buf, sock\<lparr>ls_writes := io2\<rparr>, m', le')"
    unfolding link_socket_write_win32_def f(1) using q(1) by simp
  then show ?thesis using q False f by auto
qed

lemma write_tcp_step:
  assumes "send_ready M m sock buf" and "packet_ok M (p, w, r)"
  shows "\<exists>b m1 n sock' b1 m' le. buf_write_val m buf p = Inr (True, b, m1) \<and>
     link_socket_write m1 sock b dest w r 0 = Inr (n, sock', b1, m', le) \<and> send_ready M m' sock' buf \<and>
     (if ov_iostate (ls_writes sock) = IOSTATE_QUEUED \<and> w = WaitIncomplete
      then ov_iostate (ls_writes sock') = IOSTATE_QUEUED
      else content m' (ov_buf (ls_writes sock')) = framed p \<and>
           (ov_iostate (ls_writes sock') = IOSTATE_QUEUED \<longleftrightarrow> r = StartPending))"
proof -
  let ?wr = "ls_writes sock"
  obtain k l where k: "ls_proto sock = PROTO_TCP_SERVER \<or> ls_proto sock = PROTO_TCP_CLIENT" "ov_inv ?wr"
      "sb_maxlen (ls_stream_buf sock) = int M" "M \<le> 0xffff"
      "buf_inv m (ov_buf_init ?wr)" "buf_inv m buf" "b_data (ov_buf_init ?wr) = Ptr k 0" "b_data buf = Ptr l 0" "k \<noteq> l"
      "2 \<le> b_offset buf" "b_len buf = 0" "b_offset buf + int M \<le> b_capacity buf"
      "b_offset (ov_buf_init ?wr) + int M + 2 \<le> b_capacity (ov_buf_init ?wr)"
    using assms(1) by (auto simp: send_ready_def split: ptr.splits)
  have p: "1 \<le> length p" "length p \<le> M" "\<forall>e. w \<noteq> WaitFailed e" using assms(2) by (auto simp: packet_ok_def)
  let ?b = "buf\<lparr>b_len := int (length p)\<rparr>"
  have room: "b_offset buf + b_len buf + int (length p) \<le> b_capacity buf" using k(11,12) p(2) by simp
  have nil: "content m buf = []" using read_content(2) [OF k(6)] k(11) by simp
  obtain m1 where m1: "buf_write_val m buf p = Inr (True, ?b, m1)" "buf_inv m1 ?b" "content m1 ?b = p"
      "\<And>x. buf_inv m1 x = buf_inv m x"
    using room by (cases rule: buf_write_val_cases [OF k(6), where bs = p])
      (use k(11) nil that buf_inv_write in \<open>fastforce, linarith\<close>)
  let ?h = "of_nat (length p) :: 16 word"
  have h: "uint ?h = int (length p)" using p(2) k(4) by (simp add: uint_nat unat_of_nat)
  have e: "word_of_int (buf_len ?b) = ?h" using buf_inv_len [OF m1(2)] by simp
  obtain b' m2 where b': "buf_write_prepend_val m1 ?b (be16 ?h) = Inr (True, b', m2)" "buf_inv m2 b'"
      "content m2 b' = be16 ?h @ p" "b_len b' = int (length p) + 2" "b_data b' = Ptr l 0" "\<And>x. buf_inv m2 x = buf_inv m1 x"
    using prepend_val_spec [OF m1(2), of "be16 ?h" l 0] k(8,10) m1(3) by auto
  have cap: "b_offset (ov_buf_init ?wr) + b_len b' \<le> b_capacity (ov_buf_init ?wr)" using k(13) b'(4) p(2) by simp
  have i: "buf_inv m2 (ov_buf_init ?wr)" "buf_inv m2 buf" using k(5,6) m1(4) b'(6) by auto
  obtain n io m3 le where w3: "link_socket_write_win32 m2 sock b' dest w r 0 = Inr (n, sock\<lparr>ls_writes := io\<rparr>, m3, le)"
      "ov_inv io" "ov_buf_init io = ov_buf_init ?wr" "buf_inv m3 (ov_buf_init io)" "\<forall>j. j \<noteq> k \<longrightarrow> blocks m3 j = blocks m2 j"
      "if ov_iostate ?wr = IOSTATE_QUEUED \<and> w = WaitIncomplete then ov_iostate io = IOSTATE_QUEUED \<and> n = -1
       else content m3 (ov_buf io) = content m2 b' \<and> (ov_iostate io = IOSTATE_QUEUED \<longleftrightarrow> r = StartPending)"
    using write_win32_step [OF k(1,2) p(3) i(1) k(7) b'(2,5) k(9) cap, of dest r 0] by blast
  have i3: "buf_inv m3 buf" using buf_block_frame(1) [OF k(8), of m3 m2] w3(5) k(9) i(2) by simp
  have pr: "proto_is_udp (ls_proto sock) = Inr False" "proto_is_tcp (ls_proto sock) = Inr True"
    using k(1) by (auto simp: proto_is_udp_def proto_is_tcp_def PROTO_UDP_def PROTO_TCP_CLIENT_def PROTO_TCP_SERVER_def
        PROTO_N_def)
  have ass: "uint ?h \<le> sb_maxlen (ls_stream_buf sock)" using h k(3) p(2) by simp
  have "link_socket_write m1 sock ?b dest w r 0 = Inr (n, sock\<lparr>ls_writes := io\<rparr>, b', m3, le)"
    unfolding link_socket_write_def link_socket_write_tcp_def Let_def e using pr ass b'(1) w3(1) by simp
  moreover have "send_ready M m3 (sock\<lparr>ls_writes := io\<rparr>) buf"
    using k w3(2-4) i3 by (simp add: send_ready_def)
  moreover have "content m2 b' = framed p" using b'(3) by (simp add: framed_def)
  ultimately show ?thesis
    using m1(1) w3(6) by (intro exI [of _ ?b] exI [of _ m1] exI [of _ n] exI [of _ "sock\<lparr>ls_writes := io\<rparr>"]
        exI [of _ b'] exI [of _ m3] exI [of _ le]) simp
qed

lemma tcp_writes_frames:
  assumes "send_ready M m sock buf" and "list_all (packet_ok M) xs"
  shows "tcp_writes m sock buf xs =
     Inr (concat (map framed (sent_packets (ov_iostate (ls_writes sock) = IOSTATE_QUEUED) xs)))"
  using assms
proof (induction xs arbitrary: m sock)
  case (Cons x xs)
  obtain p w r where x: "x = (p, w, r)" by (cases x)
  obtain b m1 n sock' b1 m' le where s: "buf_write_val m buf p = Inr (True, b, m1)"
     "link_socket_write m1 sock b \<lparr>sa_family = 0, sa_data = []\<rparr> w r 0 = Inr (n, sock', b1, m', le)" "send_ready M m' sock' buf"
     "if ov_iostate (ls_writes sock) = IOSTATE_QUEUED \<and> w = WaitIncomplete
      then ov_iostate (ls_writes sock') = IOSTATE_QUEUED
      else content m' (ov_buf (ls_writes sock')) = framed p \<and>
           (ov_iostate (ls_writes sock') = IOSTATE_QUEUED \<longleftrightarrow> r = StartPending)"
    using write_tcp_step [OF Cons.prems(1)] Cons.prems(2) x by fastforce
  have "tcp_writes m' sock' buf xs =
     Inr (concat (map framed (sent_packets (ov_iostate (ls_writes sock') = IOSTATE_QUEUED) xs)))"
    using Cons.IH [OF s(3)] Cons.prems(2) by simp
  then show ?case
    using s by (cases r) (auto simp: x split: if_splits)
qed simp

lemma sent_packets_ok:
  "list_all (packet_ok M) xs \<Longrightarrow> list_all (\<lambda>p. 1 \<le> length p \<and> length p \<le> M) (sent_packets q xs)"
  by (induction q xs rule: sent_packets.induct) (auto simp: packet_ok_def split: io_start.splits)

lemma sent_packets_length:
  "length (concat (map framed (sent_packets q xs))) \<le> (\<Sum>(p, w, r)\<leftarrow>xs. length p + 2)"
  by (induction q xs rule: sent_packets.induct) (auto simp: framed_def split: io_start.splits)

lemma frame_head_framed:
  assumes "1 \<le> length p" and "length p \<le> M" and "M \<le> 0xffff"
  shows "frame_head M (framed p @ rest) = Framed p rest"
proof -
  have "unat (of_nat (length p) :: 16 word) = length p" using assms by (simp add: unat_of_nat)
  then show ?thesis using assms by (auto simp: frame_head_def framed_def from_be_be16 Let_def)
qed

lemma frames_framed:
  "list_all (\<lambda>p. 1 \<le> length p \<and> length p \<le> M) ps \<Longrightarrow> M \<le> 0xffff \<Longrightarrow> frames M (concat (map framed ps)) = (ps, False)"
proof (induction ps)
  case Nil
  then show ?case by (simp add: frames_unfold(3) frame_head_def)
next
  case (Cons p ps)
  then show ?case
    using frames_unfold(1) [OF frame_head_framed [of p M "concat (map framed ps)"]] by simp
qed

section \<open>Both ends together\<close>

lemma stream_buf_init_ready:
  assumes "buf_inv m buf" and "b_data buf = Ptr k 0" and "2 \<le> b_len buf" and "b_len buf \<le> 0xffff"
    and "b_offset buf + b_len buf + 2 \<le> b_capacity buf" and "mem_ok m" and "\<not> oom m (nxt m)"
  shows "\<exists>sb m1. stream_buf_init m sb0 buf = Inr (sb, m1) \<and> sb_ready k (nxt m) (nat (b_len buf)) m1 sb \<and> sb_pending m1 sb = []"
proof -
  let ?n = "nat (b_len buf)" and ?l = "nxt m"
  let ?m = "m\<lparr>blocks := (blocks m)(?l \<mapsto> replicate ?n 0), nxt := Suc ?l\<rparr>"
  let ?r = "\<lparr>b_capacity = int ?n, b_offset = 0, b_len = 0, b_data = Ptr ?l 0\<rparr>"
  have live: "blocks m k \<noteq> None" using assms(1,2) by (auto simp: buf_inv_def room_at_def split: option.splits)
  then have kl: "k \<noteq> ?l" using assms(6) by auto
  have al: "alloc_buf m (nat (size_of_int (b_len buf))) = Inr (?r, ?m)"
    using assms(3,4,7) by (simp add: alloc_buf_def size_of_int_def buf_size_valid_def BUF_SIZE_MAX_def c_calloc_def new_block_def)
  have k: "buf_inv ?m (buf\<lparr>b_len := 0\<rparr>)"
  proof -
    have "buf_inv m (buf\<lparr>b_len := 0\<rparr>)" using assms(1) by (auto simp: buf_inv_def)
    then show ?thesis using buf_block_frame(1) [of "buf\<lparr>b_len := 0\<rparr>" k 0 ?m m] assms(2) kl by simp
  qed
  have r: "buf_inv ?m ?r" using assms(3,4) by (simp add: buf_inv_def BUF_SIZE_MAX_def)
  let ?s = "sb0\<lparr>sb_maxlen := b_len buf, sb_buf_init := buf\<lparr>b_len := 0\<rparr>, sb_residual := ?r, sb_error := False\<rparr>"
  have c: "sb_core k ?l ?n ?m ?s" using k r kl assms(2-5) by (simp add: sb_core_def nat_le_iff le_nat_iff)
  have "stream_buf_init m sb0 buf = Inr (stream_buf_reset ?s, ?m)" using al by (simp add: stream_buf_init_def)
  moreover have "content ?m ?r = []" using read_content(2) [OF r] by simp
  ultimately show ?thesis using delivered_ready [OF c] by simp
qed

text \<open>
  C3: Whatever way a TCP stream is cut into reads, and whether a read completes at once or after it
  was pending, the packets \<open>link_socket_read\<close> returns and the connection resets it asks for are those
  of the reference parser on the whole stream, from what is pending in the stream buffer on: no byte
  is lost, doubled or put into a wrong packet, a length outside of 1 to \<open>maxlen\<close> ends the connection
  and nothing after it is delivered. Enough turns are \<open>2 * length inp + 1\<close> and one for each pending
  byte.
\<close>

theorem tcp_session_parses:
  assumes "link_ready k l M m sock" and "length (pending m sock) + 2 * length inp < length kls"
  shows "tcp_session m sock kls inp = Inr (frames M (pending m sock @ inp))"
  by (rule tcp_session_frames [OF assms])

definition example_mem :: mem where
  "example_mem = empty_mem\<lparr>blocks := [0 \<mapsto> replicate 24 0, 1 \<mapsto> replicate 24 0, 2 \<mapsto> replicate 24 0], nxt := 3\<rparr>"

definition example_sock :: "buffer \<Rightarrow> stream_buf \<Rightarrow> link_socket" where
  "example_sock wb sb = \<lparr>ls_info = \<lparr>lsi_remote_list = None, lsi_current_remote = None, lsi_actual = \<lparr>sa_family = 0, sa_data = []\<rparr>,
       lsi_connection_established = True, lsi_remote_float = False, lsi_proto = PROTO_TCP_CLIENT, lsi_ipchange_command = None\<rparr>,
     ls_af = 0, ls_reads = ov_clear\<lparr>ov_event := Some False\<rparr>,
     ls_writes = ov_clear\<lparr>ov_event := Some False, ov_buf_init := wb\<rparr>, ls_stream_buf = sb, ls_stream_reset = False\<rparr>"

definition example_buf :: "nat \<Rightarrow> int \<Rightarrow> int \<Rightarrow> int \<Rightarrow> buffer" where
  "example_buf k cap off len = \<lparr>b_capacity = cap, b_offset = off, b_len = len, b_data = Ptr k 0\<rparr>"

definition example_stream :: stream_buf where
  "example_stream = \<lparr>sb_buf_init = clear_buf, sb_residual = clear_buf, sb_maxlen = 8, sb_formed = False, sb_buf = clear_buf,
     sb_next = clear_buf, sb_len = 0, sb_error = False\<rparr>"

lemma example_inv: "buf_inv example_mem (example_buf 0 24 2 8)" "mem_ok example_mem" "\<not> oom example_mem (nxt example_mem)"
  by (auto simp: example_mem_def example_buf_def buf_inv_def BUF_SIZE_MAX_def mem_ok_def empty_mem_def)

lemma example_ready:
  "\<exists>sb m1. stream_buf_init example_mem example_stream (example_buf 0 24 2 8) = Inr (sb, m1) \<and>
     link_ready 0 3 8 m1 (example_sock wb sb) \<and> pending m1 (example_sock wb sb) = []"
proof -
  obtain sb m1 where "stream_buf_init example_mem example_stream (example_buf 0 24 2 8) = Inr (sb, m1)"
      "sb_ready 0 (nxt example_mem) (nat (b_len (example_buf 0 24 2 8))) m1 sb" "sb_pending m1 sb = []"
    using stream_buf_init_ready [OF example_inv(1), of 0 example_stream] example_inv(2,3) by (auto simp: example_buf_def)
  then show ?thesis
    by (simp add: link_ready_def link_tcp_def example_sock_def ov_clear_def ov_inv_def iostate_defs example_mem_def example_buf_def)
qed

theorem tcp_session_parses_witness:
  "\<exists>m sock. tcp_session m sock (replicate 21 (2, True)) [0, 2, 5, 6, 0, 1, 7, 0, 0, 4] = Inr ([[5, 6], [7]], True)"
proof -
  obtain sb m1 where s: "link_ready 0 3 8 m1 (example_sock clear_buf sb)" "pending m1 (example_sock clear_buf sb) = []"
    using example_ready by blast
  have "frames 8 [0, 2, 5, 6, 0, 1, 7, 0, 0, 4] = ([[5, 6], [7]], True)"
    by (simp add: frames.simps frame_head_def from_be_def)
  then show ?thesis using tcp_session_parses [OF s(1), of "[0, 2, 5, 6, 0, 1, 7, 0, 0, 4]" "replicate 21 (2, True)"] s(2)
    by auto
qed

text \<open>
  C4: Packets written to a TCP socket arrive as they were sent: whatever run of successive calls of
  \<open>link_socket_write\<close> is made on one socket, each with a packet of 1 to \<open>maxlen\<close> bytes, and whether
  each write completes at once, stays pending or is refused, the calls return without a failure, and
  the bytes they give the kernel, cut in any way into reads at the other end, where the stream
  buffer has just been initialised with the same packet size, come out as exactly these packets, in
  order and with no reset. Two kinds of packets are not among them (\<open>sent_packets\<close>): one
  that is written while the write before it is still incomplete, which the code gives up, and one
  that the kernel refuses. A pending write that fails later is not covered: the connection is then
  gone. Enough turns of the receiver are given by the bound on \<open>kls\<close>.
\<close>

theorem tcp_packets_arrive:
  assumes "send_ready M ms tx wbuf" and "list_all (packet_ok M) xs"
    and "stream_buf_init m0 sb0 buf = Inr (sb, m)" and "buf_inv m0 buf" and "b_data buf = Ptr k 0"
    and "b_len buf = int M" and "2 \<le> M" and "M \<le> 0xffff" and "b_offset buf + int M + 2 \<le> b_capacity buf"
    and "mem_ok m0" and "\<not> oom m0 (nxt m0)"
    and "link_tcp sock" and "ls_stream_buf sock = sb" and "2 * (\<Sum>(p, w, r)\<leftarrow>xs. length p + 2) < length kls"
  shows "\<exists>bs. tcp_writes ms tx wbuf xs = Inr bs \<and>
     tcp_session m sock kls bs = Inr (sent_packets (ov_iostate (ls_writes tx) = IOSTATE_QUEUED) xs, False)"
proof -
  let ?ps = "sent_packets (ov_iostate (ls_writes tx) = IOSTATE_QUEUED) xs"
  let ?bs = "concat (map framed ?ps)"
  have "sb_ready k (nxt m0) M m sb" "sb_pending m sb = []"
    using stream_buf_init_ready [OF assms(4,5), of sb0] assms(3,6-11) by auto
  moreover have "2 * length ?bs < length kls"
    using sent_packets_length [of "ov_iostate (ls_writes tx) = IOSTATE_QUEUED" xs] assms(14) by linarith
  ultimately have "tcp_session m sock kls ?bs = Inr (frames M ?bs)"
    using tcp_session_frames [of k "nxt m0" M m sock ?bs kls] assms(12,13) by (simp add: link_ready_def)
  then show ?thesis
    using tcp_writes_frames [OF assms(1,2)] frames_framed [OF sent_packets_ok [OF assms(2)] assms(8)] by simp
qed

lemma example_send_ready: "send_ready 8 example_mem (example_sock (example_buf 1 24 0 0) example_stream) (example_buf 2 24 4 0)"
proof -
  have i: "buf_inv example_mem (example_buf 2 24 4 0)" "buf_inv example_mem (example_buf 1 24 0 0)"
    by (simp_all add: example_mem_def example_buf_def buf_inv_def BUF_SIZE_MAX_def)
  show ?thesis
    using i by (simp add: send_ready_def example_sock_def example_stream_def ov_clear_def ov_inv_def iostate_defs)
      (simp add: example_buf_def some_false)
qed

theorem tcp_packets_arrive_witness:
  "\<exists>ms tx wbuf m sock bs. tcp_writes ms tx wbuf [([7, 7, 7], WaitIncomplete, StartPending), ([8], WaitIncomplete, StartPending),
       ([9], WaitDone 5, StartDone 3)] = Inr bs \<and>
     tcp_session m sock (replicate 30 (2, True)) bs = Inr ([[7, 7, 7], [9]], False)"
proof -
  obtain sb m1 where s: "stream_buf_init example_mem example_stream (example_buf 0 24 2 8) = Inr (sb, m1)"
      "link_ready 0 3 8 m1 (example_sock clear_buf sb)"
    using example_ready by blast
  have l: "link_tcp (example_sock clear_buf sb)" "ls_stream_buf (example_sock clear_buf sb) = sb"
    using s(2) by (auto simp: link_ready_def example_sock_def)
  let ?xs = "[([7, 7, 7], WaitIncomplete, StartPending), ([8], WaitIncomplete, StartPending), ([9], WaitDone 5, StartDone 3)]
      :: (byte list \<times> io_wait \<times> nat io_start) list"
  have x: "list_all (packet_ok 8) ?xs" by (simp add: packet_ok_def)
  have b: "b_data (example_buf 0 24 2 8) = Ptr 0 0" "b_len (example_buf 0 24 2 8) = int 8"
      "b_offset (example_buf 0 24 2 8) + int 8 + 2 \<le> b_capacity (example_buf 0 24 2 8)"
    by (simp_all add: example_buf_def)
  have q: "sent_packets (ov_iostate (ls_writes (example_sock (example_buf 1 24 0 0) example_stream)) = IOSTATE_QUEUED) ?xs =
      [[7, 7, 7], [9]]"
    by (simp add: example_sock_def ov_clear_def iostate_defs)
  have k: "2 * (\<Sum>(p, w, r)\<leftarrow>?xs. length p + 2) < length (replicate 30 (2 :: nat, True))" by simp
  show ?thesis
    using tcp_packets_arrive [OF example_send_ready x s(1) example_inv(1) b(1,2) _ _ b(3) example_inv(2,3) l k] unfolding q
    by fastforce
qed

end
