(* ===== verification/Event_Set.thy ===== *)
theory Event_Set
  imports Otime
begin

text \<open>
  Waiting for several events: \<open>src/Treiber/lib/event.c\<close> and \<open>event.h\<close>, with the implementation on
  \<open>WSAWaitForMultipleEvents\<close> (Windows), on \<open>poll\<close> and on \<open>select\<close>. The C arrays are lists of their
  capacity with the count of entries in use; what the kernel reports is an argument. A
  \<open>void *\<close> that goes with an event is an \<open>int\<close>, 0 for NULL. (The \<open>epoll\<close> implementation keeps its
  whole state in the kernel and is not modelled.)
\<close>

unbundle bit_operations_syntax

definition EVENT_READ :: nat where "EVENT_READ = 1"
definition EVENT_WRITE :: nat where "EVENT_WRITE = 2"
definition EVENT_METHOD_FAST :: nat where "EVENT_METHOD_FAST = 2"

type_synonym arg = int

record event_set_return =
  esr_rwflags :: nat
  esr_arg :: arg

definition event_set_return_init :: event_set_return where
  "event_set_return_init = \<lparr>esr_rwflags = 0, esr_arg = 0\<rparr>"

definition tv_to_ms_timeout :: "timeval \<Rightarrow> int" where
  "tv_to_ms_timeout tv =
     (if tv_sec tv = 0 \<and> tv_usec tv = 0 then 0 else max (tv_sec tv * 1000 + (tv_usec tv + 500) div 1000) 1)"

section \<open>The Windows implementation\<close>

text \<open>A handle is a number, 0 is NULL.\<close>

record rw_handle =
  rwh_read :: nat
  rwh_write :: nat

record we_set =
  we_fast :: bool
  we_events :: "nat list"
  we_esr :: "event_set_return list"
  we_n :: nat
  we_capacity :: nat

definition we_set_event :: "we_set \<Rightarrow> nat \<Rightarrow> rw_handle \<Rightarrow> nat \<Rightarrow> arg \<Rightarrow> fault + we_set" where
  "we_set_event wes i event rwflags a =
     bindE (c_assert (i < we_capacity wes))
       (\<lambda>_. bindE (if rwflags = EVENT_READ then bindE (c_assert (rwh_read event \<noteq> 0)) (\<lambda>_. Inr (rwh_read event))
                   else if rwflags = EVENT_WRITE then bindE (c_assert (rwh_write event \<noteq> 0)) (\<lambda>_. Inr (rwh_write event))
                   else Inl Fatal)
         (\<lambda>h. Inr (wes\<lparr>we_events := (we_events wes)[i := h],
                       we_esr := (we_esr wes)[i := \<lparr>esr_rwflags = rwflags, esr_arg = a\<rparr>]\<rparr>)))"

text \<open>One half of \<open>we_append_event\<close>, with the new state also when it does not fit.\<close>

definition we_append_one :: "we_set \<Rightarrow> rw_handle \<Rightarrow> nat \<Rightarrow> arg \<Rightarrow> fault + bool \<times> we_set" where
  "we_append_one wes event rwflag a =
     (if we_n wes < we_capacity wes
      then bindE (we_set_event wes (we_n wes) event rwflag a) (\<lambda>wes1. Inr (True, wes1\<lparr>we_n := we_n wes1 + 1\<rparr>))
      else Inr (False, wes))"

definition we_append_event :: "we_set \<Rightarrow> rw_handle \<Rightarrow> nat \<Rightarrow> arg \<Rightarrow> fault + bool \<times> we_set" where
  "we_append_event wes event rwflags a =
     bindE (if rwflags AND EVENT_WRITE \<noteq> 0 then we_append_one wes event EVENT_WRITE a else Inr (True, wes))
       (\<lambda>(ok, wes1). if \<not> ok then Inr (False, wes1)
          else if rwflags AND EVENT_READ \<noteq> 0 then we_append_one wes1 event EVENT_READ a
          else Inr (True, wes1))"

text \<open>The loop of \<open>we_del_event\<close>: \<open>len\<close> is the count at its start.\<close>

function we_del_loop :: "rw_handle \<Rightarrow> nat \<Rightarrow> nat \<Rightarrow> nat \<Rightarrow> we_set \<Rightarrow> we_set" where
  "we_del_loop event len i j wes =
     (if i < len
      then (let h = we_events wes ! i
            in if h = rwh_read event \<or> h = rwh_write event
               then we_del_loop event len (Suc i) j (wes\<lparr>we_n := we_n wes - 1\<rparr>)
               else we_del_loop event len (Suc i) (Suc j)
                      (if i \<noteq> j
                       then wes\<lparr>we_events := (we_events wes)[j := we_events wes ! i], we_esr := (we_esr wes)[j := we_esr wes ! i]\<rparr>
                       else wes))
      else wes)"
  by pat_completeness auto

termination we_del_loop
  by (relation "measure (\<lambda>(_, len, i, _, _). len - i)") auto

declare we_del_loop.simps [simp del]

definition we_del_event :: "we_set \<Rightarrow> rw_handle \<Rightarrow> we_set" where
  "we_del_event wes event = we_del_loop event (we_n wes) 0 0 wes"

function we_shift :: "nat \<Rightarrow> we_set \<Rightarrow> we_set" where
  "we_shift i wes =
     (if i + 1 < we_n wes
      then we_shift (i + 1) (wes\<lparr>we_events := (we_events wes)[i := we_events wes ! (i + 1)],
                                 we_esr := (we_esr wes)[i := we_esr wes ! (i + 1)]\<rparr>)
      else wes)"
  by pat_completeness auto

termination we_shift
  by (relation "measure (\<lambda>(i, wes). we_n wes - i)") auto

declare we_shift.simps [simp del]

definition we_del_index :: "we_set \<Rightarrow> nat \<Rightarrow> fault + we_set" where
  "we_del_index wes index =
     bindE (c_assert (index < we_n wes))
       (\<lambda>_. let wes1 = we_shift index wes in Inr (wes1\<lparr>we_n := we_n wes1 - 1\<rparr>))"

text \<open>The indices found so far, \<open>None\<close> for -1.\<close>

fun we_rw_loop :: "rw_handle \<Rightarrow> nat list \<Rightarrow> nat \<Rightarrow> nat option \<Rightarrow> nat option \<Rightarrow> fault + nat option \<times> nat option" where
  "we_rw_loop event [] i ri wi = Inr (ri, wi)"
| "we_rw_loop event (h # hs) i ri wi =
     (if h = rwh_read event then bindE (c_assert (ri = None)) (\<lambda>_. we_rw_loop event hs (Suc i) (Some i) wi)
      else if h = rwh_write event then bindE (c_assert (wi = None)) (\<lambda>_. we_rw_loop event hs (Suc i) ri (Some i))
      else we_rw_loop event hs (Suc i) ri wi)"

definition we_get_rw_indices :: "we_set \<Rightarrow> rw_handle \<Rightarrow> fault + nat option \<times> nat option" where
  "we_get_rw_indices wes event = we_rw_loop event (take (we_n wes) (we_events wes)) 0 None None"

definition we_reset :: "we_set \<Rightarrow> fault + we_set" where
  "we_reset wes = bindE (c_assert (we_fast wes)) (\<lambda>_. Inr (wes\<lparr>we_n := 0\<rparr>))"

definition we_del :: "we_set \<Rightarrow> rw_handle \<Rightarrow> fault + we_set" where
  "we_del wes event = bindE (c_assert (\<not> we_fast wes)) (\<lambda>_. Inr (we_del_event wes event))"

text \<open>The result is whether no error was reported.\<close>

definition we_ctl :: "we_set \<Rightarrow> rw_handle \<Rightarrow> nat \<Rightarrow> arg \<Rightarrow> fault + bool \<times> we_set" where
  "we_ctl wes event rwflags a =
     (if we_fast wes then we_append_event wes event rwflags a
      else bindE (we_get_rw_indices wes event)
        (\<lambda>(ri, wi).
           if rwflags = 0
           then (case (ri, wi) of
                   (None, None) \<Rightarrow> Inr (True, wes)
                 | (Some r, None) \<Rightarrow> bindE (we_del_index wes r) (\<lambda>w. Inr (True, w))
                 | (None, Some i) \<Rightarrow> bindE (we_del_index wes i) (\<lambda>w. Inr (True, w))
                 | (Some _, Some _) \<Rightarrow> Inr (True, we_del_event wes event))
           else if rwflags = EVENT_READ
           then (case (ri, wi) of
                   (None, None) \<Rightarrow> we_append_event wes event EVENT_READ a
                 | (Some r, None) \<Rightarrow> bindE (we_set_event wes r event EVENT_READ a) (\<lambda>w. Inr (True, w))
                 | (None, Some i) \<Rightarrow> bindE (we_set_event wes i event EVENT_READ a) (\<lambda>w. Inr (True, w))
                 | (Some _, Some i) \<Rightarrow> bindE (we_del_index wes i) (\<lambda>w. Inr (True, w)))
           else if rwflags = EVENT_WRITE
           then (case (ri, wi) of
                   (None, None) \<Rightarrow> we_append_event wes event EVENT_WRITE a
                 | (Some r, None) \<Rightarrow> bindE (we_set_event wes r event EVENT_WRITE a) (\<lambda>w. Inr (True, w))
                 | (None, Some i) \<Rightarrow> bindE (we_set_event wes i event EVENT_WRITE a) (\<lambda>w. Inr (True, w))
                 | (Some r, Some _) \<Rightarrow> bindE (we_del_index wes r) (\<lambda>w. Inr (True, w)))
           else if rwflags = EVENT_READ + EVENT_WRITE
           then (case (ri, wi) of
                   (None, None) \<Rightarrow> we_append_event wes event (EVENT_READ + EVENT_WRITE) a
                 | (Some _, None) \<Rightarrow> we_append_event wes event EVENT_WRITE a
                 | (None, Some _) \<Rightarrow> we_append_event wes event EVENT_READ a
                 | (Some _, Some _) \<Rightarrow> Inr (True, wes))
           else Inl Fatal))"

text \<open>
  \<open>we_wait\<close>: \<open>polled\<close> is what the wait with timeout 0 returns, \<open>signaled\<close> which handles are set when
  they are asked one by one, \<open>waited\<close> what the second wait returns. The value and the entries put
  into \<open>out\<close>.
\<close>

definition WSA_WAIT_TIMEOUT :: int where "WSA_WAIT_TIMEOUT = 258"
definition WSA_MAXIMUM_WAIT_EVENTS :: nat where "WSA_MAXIMUM_WAIT_EVENTS = 64"

fun we_poll :: "(nat \<Rightarrow> bool) \<Rightarrow> nat list \<Rightarrow> event_set_return list \<Rightarrow> nat \<Rightarrow> event_set_return list" where
  "we_poll signaled (h # hs) (r # rs) outlen =
     (if outlen = 0 then []
      else if signaled h then r # we_poll signaled hs rs (outlen - 1) else we_poll signaled hs rs outlen)"
| "we_poll signaled _ _ outlen = []"

definition we_wait ::
  "we_set \<Rightarrow> timeval \<Rightarrow> nat \<Rightarrow> int \<Rightarrow> (nat \<Rightarrow> bool) \<Rightarrow> int \<Rightarrow> int \<times> event_set_return list" where
  "we_wait wes tv outlen polled signaled waited =
     (if 0 \<le> polled \<and> polled < int (we_n wes)
      then (let out = we_poll signaled (take (we_n wes) (we_events wes)) (take (we_n wes) (we_esr wes)) outlen
            in (int (length out), out))
      else (let status = (if tv_to_ms_timeout tv > 0 then waited else polled)
            in if outlen \<ge> 1 \<and> 0 \<le> status \<and> status < int (we_n wes) then (1, [we_esr wes ! nat status])
               else if status = WSA_WAIT_TIMEOUT then (0, []) else (-1, [])))"

definition we_init :: "nat \<Rightarrow> nat \<Rightarrow> fault + we_set \<times> nat" where
  "we_init maxevents flags =
     bindE (c_assert (maxevents > 0))
       (\<lambda>_. let cap = min (maxevents * 2) WSA_MAXIMUM_WAIT_EVENTS
            in Inr (\<lparr>we_fast = (flags AND EVENT_METHOD_FAST \<noteq> 0), we_events = replicate cap 0,
                     we_esr = replicate cap event_set_return_init, we_n = 0, we_capacity = cap\<rparr>,
                    min maxevents WSA_MAXIMUM_WAIT_EVENTS))"

section \<open>The implementation on poll\<close>

definition POLLIN :: "16 word" where "POLLIN = 1"
definition POLLPRI :: "16 word" where "POLLPRI = 2"
definition POLLOUT :: "16 word" where "POLLOUT = 4"
definition POLLERR :: "16 word" where "POLLERR = 8"
definition POLLHUP :: "16 word" where "POLLHUP = 16"

record pollfd =
  pf_fd :: int
  pf_events :: "16 word"
  pf_revents :: "16 word"

record po_set =
  po_fast :: bool
  po_events :: "pollfd list"
  po_args :: "arg list"
  po_n :: nat
  po_capacity :: nat

definition po_reset :: "po_set \<Rightarrow> fault + po_set" where
  "po_reset pos = bindE (c_assert (po_fast pos)) (\<lambda>_. Inr (pos\<lparr>po_n := 0\<rparr>))"

function po_shift :: "nat \<Rightarrow> po_set \<Rightarrow> po_set" where
  "po_shift j pos =
     (if j + 1 < po_n pos
      then po_shift (j + 1) (pos\<lparr>po_events := (po_events pos)[j := po_events pos ! (j + 1)],
                                 po_args := (po_args pos)[j := po_args pos ! (j + 1)]\<rparr>)
      else pos)"
  by pat_completeness auto

termination po_shift
  by (relation "measure (\<lambda>(i, pos). po_n pos - i)") auto

declare po_shift.simps [simp del]

function po_del_loop :: "int \<Rightarrow> nat \<Rightarrow> po_set \<Rightarrow> po_set" where
  "po_del_loop event i pos =
     (if i < po_n pos
      then if pf_fd (po_events pos ! i) = event
           then (let pos1 = po_shift i pos in pos1\<lparr>po_n := po_n pos1 - 1\<rparr>)
           else po_del_loop event (Suc i) pos
      else pos)"
  by pat_completeness auto

termination po_del_loop
  by (relation "measure (\<lambda>(_, i, pos). po_n pos - i)") auto

declare po_del_loop.simps [simp del]

definition po_del :: "po_set \<Rightarrow> int \<Rightarrow> fault + po_set" where
  "po_del pos event = bindE (c_assert (\<not> po_fast pos)) (\<lambda>_. Inr (po_del_loop event 0 pos))"

definition po_set_pollfd_events :: "pollfd \<Rightarrow> nat \<Rightarrow> pollfd" where
  "po_set_pollfd_events pfd rwflags =
     pfd\<lparr>pf_events := (if rwflags AND EVENT_WRITE \<noteq> 0 then POLLOUT else 0) OR
                      (if rwflags AND EVENT_READ \<noteq> 0 then POLLIN OR POLLPRI else 0)\<rparr>"

definition po_append_event :: "po_set \<Rightarrow> int \<Rightarrow> nat \<Rightarrow> arg \<Rightarrow> bool \<times> po_set" where
  "po_append_event pos event rwflags a =
     (if po_n pos < po_capacity pos
      then (True, pos\<lparr>po_events := (po_events pos)[po_n pos :=
                        po_set_pollfd_events ((po_events pos ! po_n pos)\<lparr>pf_fd := event\<rparr>) rwflags],
                      po_args := (po_args pos)[po_n pos := a], po_n := po_n pos + 1\<rparr>)
      else (False, pos))"

function po_find :: "int \<Rightarrow> nat \<Rightarrow> po_set \<Rightarrow> nat option" where
  "po_find event i pos =
     (if i < po_n pos then if pf_fd (po_events pos ! i) = event then Some i else po_find event (Suc i) pos else None)"
  by pat_completeness auto

termination po_find
  by (relation "measure (\<lambda>(_, i, pos). po_n pos - i)") auto

declare po_find.simps [simp del]

definition po_ctl :: "po_set \<Rightarrow> int \<Rightarrow> nat \<Rightarrow> arg \<Rightarrow> bool \<times> po_set" where
  "po_ctl pos event rwflags a =
     (if po_fast pos then po_append_event pos event rwflags a
      else (case po_find event 0 pos of
              Some i \<Rightarrow> (True, pos\<lparr>po_args := (po_args pos)[i := a],
                                   po_events := (po_events pos)[i := po_set_pollfd_events (po_events pos ! i) rwflags]\<rparr>)
            | None \<Rightarrow> po_append_event pos event rwflags a))"

definition revents_rwflags :: "16 word \<Rightarrow> nat" where
  "revents_rwflags r =
     (if r AND (POLLIN OR POLLPRI OR POLLERR OR POLLHUP) \<noteq> 0 then EVENT_READ else 0) +
     (if r AND POLLOUT \<noteq> 0 then EVENT_WRITE else 0)"

fun po_collect :: "pollfd list \<Rightarrow> arg list \<Rightarrow> nat \<Rightarrow> event_set_return list" where
  "po_collect (pfd # ps) (a # as) outlen =
     (if outlen = 0 then []
      else if pf_revents pfd AND (POLLIN OR POLLPRI OR POLLERR OR POLLHUP OR POLLOUT) \<noteq> 0
      then \<lparr>esr_rwflags = revents_rwflags (pf_revents pfd), esr_arg = a\<rparr> # po_collect ps as (outlen - 1)
      else po_collect ps as outlen)"
| "po_collect _ _ outlen = []"

text \<open>\<open>stat\<close> is what \<open>poll\<close> returns, \<open>revents\<close> what it stores in the entries in use.\<close>

definition po_wait :: "po_set \<Rightarrow> nat \<Rightarrow> int \<Rightarrow> 16 word list \<Rightarrow> fault + int \<times> event_set_return list \<times> po_set" where
  "po_wait pos outlen stat revents =
     (let pos1 = pos\<lparr>po_events := map2 (\<lambda>p r. p\<lparr>pf_revents := r\<rparr>) (take (po_n pos) (po_events pos)) revents @
                                    drop (po_n pos) (po_events pos)\<rparr>
      in bindE (c_assert (stat \<le> int (po_n pos)))
           (\<lambda>_. if stat > 0
                then (let out = po_collect (take (po_n pos) (po_events pos1)) (take (po_n pos) (po_args pos1)) outlen
                      in Inr (int (length out), out, pos1))
                else Inr (stat, [], pos1)))"

definition po_init :: "nat \<Rightarrow> nat \<Rightarrow> fault + po_set \<times> nat" where
  "po_init maxevents flags =
     bindE (c_assert (maxevents > 0))
       (\<lambda>_. Inr (\<lparr>po_fast = (flags AND EVENT_METHOD_FAST \<noteq> 0),
                  po_events = replicate maxevents \<lparr>pf_fd = 0, pf_events = 0, pf_revents = 0\<rparr>,
                  po_args = replicate maxevents 0, po_n = 0, po_capacity = maxevents\<rparr>, maxevents))"

section \<open>The implementation on select\<close>

text \<open>An \<open>fd_set\<close> is the list of its \<open>SELECT_MAX_FDS\<close> bits.\<close>

definition SELECT_MAX_FDS :: nat where "SELECT_MAX_FDS = 1024"

record se_set =
  se_fast :: bool
  se_readfds :: "bool list"
  se_writefds :: "bool list"
  se_args :: "arg list"
  se_maxfd :: int
  se_capacity :: nat

definition se_reset :: "se_set \<Rightarrow> fault + se_set" where
  "se_reset ses =
     bindE (c_assert (se_fast ses))
       (\<lambda>_. Inr (ses\<lparr>se_readfds := replicate (length (se_readfds ses)) False,
                     se_writefds := replicate (length (se_writefds ses)) False,
                     se_args := map (\<lambda>i. if int i \<le> se_maxfd ses then 0 else se_args ses ! i) [0..<length (se_args ses)],
                     se_maxfd := -1\<rparr>))"

text \<open>The result is whether no error was reported.\<close>

definition se_del :: "se_set \<Rightarrow> int \<Rightarrow> fault + bool \<times> se_set" where
  "se_del ses event =
     bindE (c_assert (\<not> se_fast ses))
       (\<lambda>_. if event \<ge> 0 \<and> event < int (se_capacity ses)
            then Inr (True, ses\<lparr>se_readfds := (se_readfds ses)[nat event := False],
                                se_writefds := (se_writefds ses)[nat event := False],
                                se_args := (se_args ses)[nat event := 0]\<rparr>)
            else Inr (False, ses))"

definition se_ctl :: "se_set \<Rightarrow> int \<Rightarrow> nat \<Rightarrow> arg \<Rightarrow> bool \<times> se_set" where
  "se_ctl ses event rwflags a =
     (if event \<ge> 0 \<and> event < int (se_capacity ses)
      then (let e = nat event; r = rwflags AND EVENT_READ \<noteq> 0; w = rwflags AND EVENT_WRITE \<noteq> 0;
                set = (\<lambda>fds b. if b then fds[e := True] else if se_fast ses then fds else fds[e := False])
            in (True, ses\<lparr>se_maxfd := max event (se_maxfd ses), se_args := (se_args ses)[e := a],
                          se_readfds := set (se_readfds ses) r, se_writefds := set (se_writefds ses) w\<rparr>))
      else (False, ses))"

function se_wait_loop :: "se_set \<Rightarrow> bool list \<Rightarrow> bool list \<Rightarrow> nat \<Rightarrow> nat \<Rightarrow> event_set_return list" where
  "se_wait_loop ses rd wr i outlen =
     (if int i \<le> se_maxfd ses \<and> outlen > 0
      then if rd ! i \<or> wr ! i
           then \<lparr>esr_rwflags = (if rd ! i then EVENT_READ else 0) + (if wr ! i then EVENT_WRITE else 0),
                 esr_arg = se_args ses ! i\<rparr> # se_wait_loop ses rd wr (Suc i) (outlen - 1)
           else se_wait_loop ses rd wr (Suc i) outlen
      else [])"
  by pat_completeness auto

termination se_wait_loop
  by (relation "measure (\<lambda>(ses, _, _, i, _). nat (se_maxfd ses + 1 - int i))") auto

declare se_wait_loop.simps [simp del]

definition se_wait_return :: "se_set \<Rightarrow> bool list \<Rightarrow> bool list \<Rightarrow> nat \<Rightarrow> int \<times> event_set_return list" where
  "se_wait_return ses rd wr outlen = (let out = se_wait_loop ses rd wr 0 outlen in (int (length out), out))"

text \<open>\<open>select\<close> returns \<open>stat\<close> and leaves the ready descriptors in the sets it is given.\<close>

definition se_wait_fast :: "se_set \<Rightarrow> nat \<Rightarrow> int \<Rightarrow> bool list \<Rightarrow> bool list \<Rightarrow> int \<times> event_set_return list \<times> se_set" where
  "se_wait_fast ses outlen stat rd wr =
     (let ses1 = ses\<lparr>se_readfds := rd, se_writefds := wr\<rparr>
      in if stat > 0 then (case se_wait_return ses1 rd wr outlen of (n, out) \<Rightarrow> (n, out, ses1)) else (stat, [], ses1))"

definition se_wait_scalable :: "se_set \<Rightarrow> nat \<Rightarrow> int \<Rightarrow> bool list \<Rightarrow> bool list \<Rightarrow> int \<times> event_set_return list" where
  "se_wait_scalable ses outlen stat rd wr = (if stat > 0 then se_wait_return ses rd wr outlen else (stat, []))"

definition se_init :: "nat \<Rightarrow> nat \<Rightarrow> fault + se_set \<times> nat" where
  "se_init maxevents flags =
     bindE (c_assert (maxevents > 0))
       (\<lambda>_. Inr (\<lparr>se_fast = (flags AND EVENT_METHOD_FAST \<noteq> 0), se_readfds = replicate SELECT_MAX_FDS False,
                  se_writefds = replicate SELECT_MAX_FDS False, se_args = replicate SELECT_MAX_FDS 0, se_maxfd = -1,
                  se_capacity = SELECT_MAX_FDS\<rparr>, min maxevents SELECT_MAX_FDS))"

end
