(* ===== verification/Event_Laws.thy ===== *)
theory Event_Laws
  imports Event_Set
begin

text \<open>
  The event sets of \<open>Event_Set\<close>: what each operation does to the set of events that are waited for,
  the interface \<open>event_backend\<close> that the Windows, poll and select implementations share, its
  interpretation on each of them, the theorem that they agree, and what the waits report.
\<close>

section \<open>Arrays\<close>

text \<open>Both backends close the gap at an index by moving the entries behind it down.\<close>

function shift_down :: "nat \<Rightarrow> nat \<Rightarrow> 'x list \<Rightarrow> 'x list" where
  "shift_down i n xs = (if i + 1 < n then shift_down (i + 1) n (xs[i := xs ! (i + 1)]) else xs)"
  by pat_completeness auto

termination shift_down
  by (relation "measure (\<lambda>(i, n, _). n - i)") auto

declare shift_down.simps [simp del]

lemma shift_down_spec:
  "i < n \<Longrightarrow> n \<le> length xs \<Longrightarrow>
     length (shift_down i n xs) = length xs \<and> take (n - 1) (shift_down i n xs) = take i xs @ drop (Suc i) (take n xs)"
proof (induction i n xs rule: shift_down.induct)
  case (1 i n xs)
  show ?case
  proof (cases "i + 1 < n")
    case True
    let ?xs = "xs[i := xs ! (i + 1)]"
    have "take (n - 1) (shift_down (i + 1) n ?xs) = take (i + 1) ?xs @ drop (Suc (i + 1)) (take n ?xs)"
      using 1 True by simp
    also have "take (i + 1) ?xs = take i xs @ [xs ! (i + 1)]" using 1(2,3) by (simp add: take_Suc_conv_app_nth)
    also have "drop (Suc (i + 1)) (take n ?xs) = drop (Suc (i + 1)) (take n xs)" by (simp add: take_update_swap)
    finally have "take (n - 1) (shift_down (i + 1) n ?xs) = take i xs @ xs ! (i + 1) # drop (Suc (i + 1)) (take n xs)"
      by simp
    moreover have "drop (Suc i) (take n xs) = xs ! (i + 1) # drop (Suc (i + 1)) (take n xs)"
      using True 1(3) Cons_nth_drop_Suc [of "Suc i" "take n xs"] by simp
    ultimately show ?thesis using 1 True by (simp add: shift_down.simps [of i n xs])
  next
    case False
    then have "n = Suc i" using 1(2) by simp
    then show ?thesis using 1(3) by (simp add: shift_down.simps [of i "Suc i" xs])
  qed
qed

section \<open>The Windows set as a list of slots\<close>

definition we_arr :: "we_set \<Rightarrow> (nat \<times> event_set_return) list" where
  "we_arr wes = zip (we_events wes) (we_esr wes)"

definition we_slots :: "we_set \<Rightarrow> (nat \<times> event_set_return) list" where
  "we_slots wes = take (we_n wes) (we_arr wes)"

definition we_wf :: "we_set \<Rightarrow> bool" where
  "we_wf wes \<longleftrightarrow> length (we_events wes) = we_capacity wes \<and> length (we_esr wes) = we_capacity wes \<and>
     we_n wes \<le> we_capacity wes"

definition same_shape :: "we_set \<Rightarrow> we_set \<Rightarrow> bool" where
  "same_shape wes wes' \<longleftrightarrow> we_wf wes' \<and> we_fast wes' = we_fast wes \<and> we_capacity wes' = we_capacity wes"

lemma we_slots_length: "we_wf wes \<Longrightarrow> length (we_slots wes) = we_n wes"
  by (simp add: we_wf_def we_slots_def we_arr_def)

lemma we_events_slots: "we_wf wes \<Longrightarrow> take (we_n wes) (we_events wes) = map fst (we_slots wes)"
  by (simp add: we_wf_def we_slots_def we_arr_def take_zip)

lemma we_arr_update:
  "we_arr (wes\<lparr>we_events := (we_events wes)[j := h], we_esr := (we_esr wes)[j := r]\<rparr>) = (we_arr wes)[j := (h, r)]"
  by (simp add: we_arr_def update_zip)

lemma we_arr_nth: "we_wf wes \<Longrightarrow> i < we_capacity wes \<Longrightarrow> we_arr wes ! i = (we_events wes ! i, we_esr wes ! i)"
  by (simp add: we_wf_def we_arr_def)

lemma we_arr_length: "we_wf wes \<Longrightarrow> length (we_arr wes) = we_capacity wes"
  by (simp add: we_wf_def we_arr_def)

lemma we_shift_arrays:
  "we_shift i wes = wes\<lparr>we_events := shift_down i (we_n wes) (we_events wes), we_esr := shift_down i (we_n wes) (we_esr wes)\<rparr>"
proof (induction i wes rule: we_shift.induct)
  case (1 i wes)
  then show ?case
    by (simp add: we_shift.simps [of i wes] shift_down.simps [of i "we_n wes" "we_events wes"]
        shift_down.simps [of i "we_n wes" "we_esr wes"])
qed

lemma we_del_index_slots:
  assumes "we_wf wes" and "i < we_n wes"
  shows "\<exists>wes'. we_del_index wes i = Inr wes' \<and> same_shape wes wes' \<and>
     we_slots wes' = take i (we_slots wes) @ drop (Suc i) (we_slots wes)"
proof -
  let ?n = "we_n wes"
  let ?w = "wes\<lparr>we_events := shift_down i ?n (we_events wes), we_esr := shift_down i ?n (we_esr wes), we_n := ?n - 1\<rparr>"
  have l: "?n \<le> length (we_events wes)" "?n \<le> length (we_esr wes)" using assms(1) by (simp_all add: we_wf_def)
  note s = shift_down_spec [OF assms(2) l(1)] shift_down_spec [OF assms(2) l(2)]
  have "we_del_index wes i = Inr ?w" using assms(2) by (simp add: we_del_index_def we_shift_arrays)
  moreover have "we_slots ?w = take i (we_slots wes) @ drop (Suc i) (we_slots wes)"
    using s l assms by (simp add: we_slots_def we_arr_def take_zip drop_zip zip_append1 min_def)
  moreover have "same_shape wes ?w" using s assms by (auto simp: same_shape_def we_wf_def)
  ultimately show ?thesis by blast
qed

definition keeps :: "rw_handle \<Rightarrow> nat \<times> event_set_return \<Rightarrow> bool" where
  "keeps event x \<longleftrightarrow> \<not> (fst x = rwh_read event \<or> fst x = rwh_write event)"

lemma we_del_loop_slots:
  "we_wf wes \<Longrightarrow> j \<le> i \<Longrightarrow> i \<le> len \<Longrightarrow> len \<le> we_capacity wes \<Longrightarrow> we_n wes = len - i + j \<Longrightarrow>
     same_shape wes (we_del_loop event len i j wes) \<and>
     we_slots (we_del_loop event len i j wes) = take j (we_arr wes) @ filter (keeps event) (drop i (take len (we_arr wes)))"
proof (induction event len i j wes rule: we_del_loop.induct)
  case (1 event len i j wes)
  let ?a = "we_arr wes"
  have la: "length ?a = we_capacity wes" by (rule we_arr_length [OF 1(3)])
  show ?case
  proof (cases "i < len")
    case False
    then have "i = len" "we_n wes = j" using 1(5,7) by simp_all
    then show ?thesis using 1(3,6) la by (simp add: we_del_loop.simps [of event len len j wes] we_slots_def same_shape_def)
  next
    case True
    have ai: "?a ! i = (we_events wes ! i, we_esr wes ! i)" using we_arr_nth [OF 1(3)] True 1(6) by simp
    have dr: "drop i (take len ?a) = ?a ! i # drop (Suc i) (take len ?a)"
      using True 1(6) la Cons_nth_drop_Suc [of i "take len ?a"] by simp
    show ?thesis
    proof (cases "we_events wes ! i = rwh_read event \<or> we_events wes ! i = rwh_write event")
      case hit: True
      let ?w = "wes\<lparr>we_n := we_n wes - 1\<rparr>"
      have "we_wf ?w" "we_arr ?w = ?a" using 1(3) by (auto simp: we_wf_def we_arr_def)
      then have "same_shape ?w (we_del_loop event len (Suc i) j ?w) \<and>
          we_slots (we_del_loop event len (Suc i) j ?w) = take j ?a @ filter (keeps event) (drop (Suc i) (take len ?a))"
        using 1(1) [OF True _ hit] 1(4-7) True by simp
      moreover have "\<not> keeps event (?a ! i)" using hit ai by (simp add: keeps_def)
      ultimately show ?thesis
        using True hit dr by (simp add: we_del_loop.simps [of event len i j wes] same_shape_def Let_def)
    next
      case keep: False
      let ?w = "if i \<noteq> j then wes\<lparr>we_events := (we_events wes)[j := we_events wes ! i], we_esr := (we_esr wes)[j := we_esr wes ! i]\<rparr>
                else wes"
      have jl: "j < length ?a" using 1(4,6) True la by simp
      have wa: "we_arr ?w = ?a[j := ?a ! i]" using ai by (auto simp: we_arr_update) (metis list_update_id)
      have ww: "we_wf ?w" "we_n ?w = we_n wes" "we_capacity ?w = we_capacity wes" "we_fast ?w = we_fast wes"
        using 1(3) by (simp_all add: we_wf_def)
      have "same_shape ?w (we_del_loop event len (Suc i) (Suc j) ?w) \<and>
          we_slots (we_del_loop event len (Suc i) (Suc j) ?w) =
            take (Suc j) (we_arr ?w) @ filter (keeps event) (drop (Suc i) (take len (we_arr ?w)))"
        using 1(2) [OF True refl keep] 1(4-7) True ww by simp
      moreover have "take (Suc j) (we_arr ?w) = take j ?a @ [?a ! i]" using jl by (simp add: wa take_Suc_conv_app_nth)
      moreover have "drop (Suc i) (take len (we_arr ?w)) = drop (Suc i) (take len ?a)"
        using 1(4) unfolding wa by (simp add: take_update_swap)
      moreover have "keeps event (?a ! i)" using keep ai by (simp add: keeps_def)
      moreover have "we_del_loop event len i j wes = we_del_loop event len (Suc i) (Suc j) ?w"
        using True keep by (subst we_del_loop.simps) (simp add: Let_def)
      ultimately show ?thesis using dr ww by (simp add: same_shape_def)
    qed
  qed
qed

lemma we_del_event_slots:
  assumes "we_wf wes"
  shows "same_shape wes (we_del_event wes event) \<and> we_slots (we_del_event wes event) = filter (keeps event) (we_slots wes)"
  using we_del_loop_slots [OF assms, of 0 0 "we_n wes" event] assms
  by (simp add: we_del_event_def we_slots_def we_wf_def)

definition slot :: "rw_handle \<Rightarrow> nat \<Rightarrow> arg \<Rightarrow> nat \<times> event_set_return" where
  "slot event rw a = (if rw = EVENT_READ then rwh_read event else rwh_write event, \<lparr>esr_rwflags = rw, esr_arg = a\<rparr>)"

lemma we_set_event_slots:
  assumes "we_wf wes" and "i < we_capacity wes" and "rwh_read event \<noteq> 0" and "rwh_write event \<noteq> 0"
    and "rw = EVENT_READ \<or> rw = EVENT_WRITE"
  shows "\<exists>wes'. we_set_event wes i event rw a = Inr wes' \<and> same_shape wes wes' \<and> we_n wes' = we_n wes \<and>
     we_arr wes' = (we_arr wes)[i := slot event rw a]"
  using assms by (auto simp: slot_def we_set_event_def same_shape_def we_wf_def we_arr_update EVENT_READ_def EVENT_WRITE_def)

lemma we_append_one_slots:
  assumes "we_wf wes" and "rwh_read event \<noteq> 0" and "rwh_write event \<noteq> 0" and "rw = EVENT_READ \<or> rw = EVENT_WRITE"
  shows "if we_n wes < we_capacity wes
         then \<exists>wes'. we_append_one wes event rw a = Inr (True, wes') \<and> same_shape wes wes' \<and>
                we_slots wes' = we_slots wes @ [slot event rw a]
         else we_append_one wes event rw a = Inr (False, wes)"
proof (cases "we_n wes < we_capacity wes")
  case True
  obtain w where w: "we_set_event wes (we_n wes) event rw a = Inr w" "same_shape wes w" "we_n w = we_n wes"
      "we_arr w = (we_arr wes)[we_n wes := slot event rw a]"
    using we_set_event_slots [OF assms(1) True assms(2-4)] by blast
  have "we_append_one wes event rw a = Inr (True, w\<lparr>we_n := we_n w + 1\<rparr>)" using True w(1) by (simp add: we_append_one_def)
  moreover have "same_shape wes (w\<lparr>we_n := we_n w + 1\<rparr>)" using w(2,3) True by (simp add: same_shape_def we_wf_def)
  moreover have "we_slots (w\<lparr>we_n := we_n w + 1\<rparr>) = we_slots wes @ [slot event rw a]"
  proof -
    have "we_arr (w\<lparr>we_n := we_n w + 1\<rparr>) = we_arr w" by (simp add: we_arr_def)
    then show ?thesis using w(3,4) True we_arr_length [OF assms(1)] by (simp add: we_slots_def take_Suc_conv_app_nth)
  qed
  ultimately show ?thesis using True by auto
qed (simp add: we_append_one_def)

section \<open>Which handles are in the set\<close>

definition hset :: "we_set \<Rightarrow> nat set" where
  "hset wes = fst ` set (we_slots wes)"

definition we_inv :: "we_set \<Rightarrow> bool" where
  "we_inv wes \<longleftrightarrow> we_wf wes \<and> \<not> we_fast wes \<and> distinct (map fst (we_slots wes))"

definition we_good :: "rw_handle \<Rightarrow> bool" where
  "we_good event \<longleftrightarrow> rwh_read event \<noteq> 0 \<and> rwh_write event \<noteq> 0 \<and> rwh_read event \<noteq> rwh_write event"

definition handles :: "rw_handle \<Rightarrow> nat set" where
  "handles event = {rwh_read event, rwh_write event}"

text \<open>What the set waits for on an event, as \<open>rwflags\<close>.\<close>

definition we_interest :: "we_set \<Rightarrow> rw_handle \<Rightarrow> nat" where
  "we_interest wes event =
     (if rwh_read event \<in> hset wes then EVENT_READ else 0) + (if rwh_write event \<in> hset wes then EVENT_WRITE else 0)"

lemma remove_nth_distinct:
  assumes "distinct xs" and "i < length xs"
  shows "distinct (take i xs @ drop (Suc i) xs)" and "set (take i xs @ drop (Suc i) xs) = set xs - {xs ! i}"
proof -
  have x: "xs = take i xs @ xs ! i # drop (Suc i) xs" using assms(2) by (simp add: id_take_nth_drop)
  with assms(1) have "distinct (take i xs @ xs ! i # drop (Suc i) xs)" by simp
  then show "distinct (take i xs @ drop (Suc i) xs)" by simp
  from \<open>distinct (take i xs @ xs ! i # drop (Suc i) xs)\<close>
  have "xs ! i \<notin> set (take i xs @ drop (Suc i) xs)" by simp
  moreover have "set xs = insert (xs ! i) (set (take i xs @ drop (Suc i) xs))" by (subst x) auto
  ultimately show "set (take i xs @ drop (Suc i) xs) = set xs - {xs ! i}" by auto
qed

lemma hset_list: "hset wes = set (map fst (we_slots wes))"
  by (simp add: hset_def)

lemma we_inv_length: "we_inv wes \<Longrightarrow> length (we_slots wes) = we_n wes"
  by (simp add: we_inv_def we_slots_length)

lemma shape_inv: "we_inv wes \<Longrightarrow> same_shape wes wes' \<Longrightarrow> distinct (map fst (we_slots wes')) \<Longrightarrow> we_inv wes'"
  by (simp add: we_inv_def same_shape_def)

lemma del_index_handles:
  assumes "we_inv wes" and "k < we_n wes"
  shows "\<exists>wes'. we_del_index wes k = Inr wes' \<and> we_inv wes' \<and> we_capacity wes' = we_capacity wes \<and>
     hset wes' = hset wes - {map fst (we_slots wes) ! k}"
proof -
  obtain w where w: "we_del_index wes k = Inr w" "same_shape wes w"
      "we_slots w = take k (we_slots wes) @ drop (Suc k) (we_slots wes)"
    using we_del_index_slots [of wes k] assms by (auto simp: we_inv_def)
  have m: "map fst (we_slots w) = take k (map fst (we_slots wes)) @ drop (Suc k) (map fst (we_slots wes))"
    by (simp add: w(3) take_map drop_map)
  have "distinct (map fst (we_slots wes))" "k < length (map fst (we_slots wes))"
    using assms we_inv_length [OF assms(1)] by (simp_all add: we_inv_def)
  note r = remove_nth_distinct [OF this, folded m]
  then show ?thesis using w(1,2) shape_inv [OF assms(1) w(2) r(1)] by (simp add: hset_list same_shape_def)
qed

lemma del_event_handles:
  assumes "we_inv wes"
  shows "we_inv (we_del_event wes event) \<and> we_capacity (we_del_event wes event) = we_capacity wes \<and>
     hset (we_del_event wes event) = hset wes - handles event"
proof -
  have s: "same_shape wes (we_del_event wes event)" "we_slots (we_del_event wes event) = filter (keeps event) (we_slots wes)"
    using we_del_event_slots [of wes event] assms by (auto simp: we_inv_def)
  have "distinct (map fst (filter (keeps event) (we_slots wes)))"
    using assms by (auto simp: we_inv_def distinct_map_filter)
  then show ?thesis using shape_inv [OF assms s(1)] s
    by (auto simp: hset_def same_shape_def handles_def keeps_def)
qed

lemma set_event_handles:
  assumes "we_inv wes" and "k < we_n wes" and "we_good event" and "rw = EVENT_READ \<or> rw = EVENT_WRITE"
    and "map fst (we_slots wes) ! k = h"
    and "h = fst (slot event rw a) \<or> fst (slot event rw a) \<notin> hset wes"
  shows "\<exists>wes'. we_set_event wes k event rw a = Inr wes' \<and> we_inv wes' \<and> we_capacity wes' = we_capacity wes \<and>
     hset wes' = insert (fst (slot event rw a)) (hset wes - {h})"
proof -
  let ?x = "slot event rw a" and ?hs = "map fst (we_slots wes)"
  have k: "k < we_capacity wes" "k < length ?hs" "distinct ?hs" "we_wf wes"
    using assms(1,2) we_inv_length [OF assms(1)] by (auto simp: we_inv_def we_wf_def)
  obtain w where w: "we_set_event wes k event rw a = Inr w" "same_shape wes w" "we_n w = we_n wes"
      "we_arr w = (we_arr wes)[k := ?x]"
    using we_set_event_slots [OF k(4,1) _ _ assms(4)] assms(3) by (auto simp: we_good_def)
  have m: "map fst (we_slots w) = ?hs[k := fst ?x]"
    using w(3,4) assms(2) by (simp add: we_slots_def take_update_swap map_update)
  have hk: "h = ?hs ! k" using assms(5) by simp
  have "distinct (?hs[k := fst ?x])"
    using k assms(6) hk by (auto simp: hset_list intro!: distinct_list_update)
  then have "we_inv w" using shape_inv [OF assms(1) w(2)] m by simp
  moreover have "hset w = insert (fst ?x) (hset wes - {h})"
    unfolding hset_list m using set_update_distinct [OF k(3,2)] hk by simp
  ultimately show ?thesis using w(1,2) by (simp add: same_shape_def)
qed

lemma append_one_handles:
  assumes "we_inv wes" and "we_good event" and "rw = EVENT_READ \<or> rw = EVENT_WRITE"
    and "fst (slot event rw a) \<notin> hset wes"
  shows "\<exists>wes'. we_append_one wes event rw a = Inr (we_n wes < we_capacity wes, wes') \<and> we_inv wes' \<and>
     we_capacity wes' = we_capacity wes \<and>
     (if we_n wes < we_capacity wes then hset wes' = insert (fst (slot event rw a)) (hset wes) \<and> we_n wes' = Suc (we_n wes)
      else wes' = wes)"
proof (cases "we_n wes < we_capacity wes")
  case True
  obtain w where w: "we_append_one wes event rw a = Inr (True, w)" "same_shape wes w"
      "we_slots w = we_slots wes @ [slot event rw a]"
    using we_append_one_slots [of wes event rw a] assms True by (auto simp: we_inv_def we_good_def)
  have "we_inv w" using shape_inv [OF assms(1) w(2)] w(3) assms(1,4) by (auto simp: we_inv_def hset_def)
  moreover have "we_n w = Suc (we_n wes)"
    using we_inv_length [OF \<open>we_inv w\<close>] we_inv_length [OF assms(1)] w(3) by simp
  ultimately show ?thesis using w True by (auto simp: hset_def same_shape_def)
qed (use assms in \<open>simp add: we_append_one_def\<close>)

lemma flag_bits: "EVENT_READ AND EVENT_WRITE = 0" "EVENT_READ AND EVENT_READ \<noteq> 0" "EVENT_WRITE AND EVENT_WRITE \<noteq> 0"
  "EVENT_WRITE AND EVENT_READ = 0" "(EVENT_READ + EVENT_WRITE) AND EVENT_READ \<noteq> 0"
  "(EVENT_READ + EVENT_WRITE) AND EVENT_WRITE \<noteq> 0"
  unfolding EVENT_READ_def EVENT_WRITE_def by code_simp+

text \<open>Appending what \<open>rw\<close> asks for, when none of it is there yet.\<close>

definition wanted :: "rw_handle \<Rightarrow> nat \<Rightarrow> nat set" where
  "wanted event rw = (if rw AND EVENT_READ \<noteq> 0 then {rwh_read event} else {}) \<union>
                     (if rw AND EVENT_WRITE \<noteq> 0 then {rwh_write event} else {})"

lemma append_handles:
  assumes "we_inv wes" and "we_good event" and "wanted event rw \<inter> hset wes = {}"
  shows "\<exists>ok wes'. we_append_event wes event rw a = Inr (ok, wes') \<and> we_inv wes' \<and> we_capacity wes' = we_capacity wes \<and>
     hset wes \<subseteq> hset wes' \<and> hset wes' \<subseteq> hset wes \<union> wanted event rw \<and> (ok \<longrightarrow> hset wes' = hset wes \<union> wanted event rw) \<and>
     (we_n wes + 2 \<le> we_capacity wes \<longrightarrow> ok)"
proof -
  have sl: "fst (slot event EVENT_WRITE a) = rwh_write event" "fst (slot event EVENT_READ a) = rwh_read event"
    by (simp_all add: slot_def EVENT_READ_def EVENT_WRITE_def)
  have ne: "rwh_read event \<noteq> rwh_write event" using assms(2) by (simp add: we_good_def)
  obtain ok1 w1 where 1: "(if rw AND EVENT_WRITE \<noteq> 0 then we_append_one wes event EVENT_WRITE a else Inr (True, wes)) = Inr (ok1, w1)"
      "we_inv w1" "we_capacity w1 = we_capacity wes" "we_n w1 \<le> Suc (we_n wes)"
      "hset w1 = (if rw AND EVENT_WRITE \<noteq> 0 \<and> ok1 then insert (rwh_write event) (hset wes) else hset wes)"
      "we_n wes < we_capacity wes \<longrightarrow> ok1"
  proof (cases "rw AND EVENT_WRITE \<noteq> 0")
    case True
    then have "fst (slot event EVENT_WRITE a) \<notin> hset wes" using assms(3) by (auto simp: wanted_def sl)
    with append_one_handles [OF assms(1,2), of EVENT_WRITE a] True show thesis
      using that by (auto simp: sl split: if_splits)
  qed (use that assms(1) in auto)
  show ?thesis
  proof (cases "ok1 \<and> rw AND EVENT_READ \<noteq> 0")
    case True
    then have "fst (slot event EVENT_READ a) \<notin> hset w1" using assms(3) 1(5) ne by (auto simp: wanted_def sl)
    with append_one_handles [OF 1(2) assms(2), of EVENT_READ a] obtain w2 where
      2: "we_append_one w1 event EVENT_READ a = Inr (we_n w1 < we_capacity w1, w2)" "we_inv w2"
        "we_capacity w2 = we_capacity w1"
        "if we_n w1 < we_capacity w1 then hset w2 = insert (rwh_read event) (hset w1) \<and> we_n w2 = Suc (we_n w1) else w2 = w1"
      by (auto simp: sl)
    have "we_append_event wes event rw a = Inr (we_n w1 < we_capacity w1, w2)"
      using 1(1) 2(1) True by (simp add: we_append_event_def)
    then show ?thesis using 1 2 True by (auto simp: wanted_def split: if_splits)
  next
    case False
    then have "we_append_event wes event rw a = Inr (ok1, w1)" using 1(1) by (auto simp: we_append_event_def)
    then show ?thesis using 1 False by (auto simp: wanted_def split: if_splits)
  qed
qed

lemma we_rw_loop_spec:
  "distinct hs \<Longrightarrow> rwh_read event \<noteq> rwh_write event \<Longrightarrow> (ri \<noteq> None \<longrightarrow> rwh_read event \<notin> set hs) \<Longrightarrow>
   (wi \<noteq> None \<longrightarrow> rwh_write event \<notin> set hs) \<Longrightarrow>
   \<exists>ri' wi'. we_rw_loop event hs i ri wi = Inr (ri', wi') \<and>
     (if rwh_read event \<in> set hs then \<exists>k<length hs. ri' = Some (i + k) \<and> hs ! k = rwh_read event else ri' = ri) \<and>
     (if rwh_write event \<in> set hs then \<exists>k<length hs. wi' = Some (i + k) \<and> hs ! k = rwh_write event else wi' = wi)"
proof (induction event hs i ri wi rule: we_rw_loop.induct)
  case (2 event h hs i ri wi)
  have up: "\<exists>k<Suc (length hs). x = Some (i + k) \<and> (h # hs) ! k = y"
    if "\<exists>k<length hs. x = Some (Suc i + k) \<and> hs ! k = y" for x y
    using that by (metis Suc_less_eq add_Suc_shift nth_Cons_Suc)
  consider (r) "h = rwh_read event" | (w) "h = rwh_write event" "h \<noteq> rwh_read event"
    | (n) "h \<noteq> rwh_read event" "h \<noteq> rwh_write event" by blast
  then show ?case
  proof cases
    case r
    then obtain ri' wi' where "we_rw_loop event hs (Suc i) (Some i) wi = Inr (ri', wi')" "ri' = Some i"
        "if rwh_write event \<in> set hs then \<exists>k<length hs. wi' = Some (Suc i + k) \<and> hs ! k = rwh_write event else wi' = wi"
      using 2(1) 2(4-7) by auto
    then show ?thesis using r 2(4-7) up [of wi'] by (auto simp: split: if_splits)
  next
    case w
    then obtain ri' wi' where "we_rw_loop event hs (Suc i) ri (Some i) = Inr (ri', wi')" "wi' = Some i"
        "if rwh_read event \<in> set hs then \<exists>k<length hs. ri' = Some (Suc i + k) \<and> hs ! k = rwh_read event else ri' = ri"
      using 2(2) 2(4-7) by auto
    then show ?thesis using w 2(4-7) up [of ri'] by (auto split: if_splits)
  next
    case n
    then obtain ri' wi' where "we_rw_loop event hs (Suc i) ri wi = Inr (ri', wi')"
        "if rwh_read event \<in> set hs then \<exists>k<length hs. ri' = Some (Suc i + k) \<and> hs ! k = rwh_read event else ri' = ri"
        "if rwh_write event \<in> set hs then \<exists>k<length hs. wi' = Some (Suc i + k) \<and> hs ! k = rwh_write event else wi' = wi"
      using 2(3) 2(4-7) by auto
    then show ?thesis using n 2(4-7) up [of ri'] up [of wi'] by (auto split: if_splits)
  qed
qed simp

definition found :: "we_set \<Rightarrow> nat \<Rightarrow> nat option \<Rightarrow> bool" where
  "found wes h o' \<longleftrightarrow> (case o' of None \<Rightarrow> h \<notin> hset wes
     | Some k \<Rightarrow> h \<in> hset wes \<and> k < we_n wes \<and> map fst (we_slots wes) ! k = h)"

lemma rw_indices:
  assumes "we_inv wes" and "we_good event"
  shows "\<exists>ri wi. we_get_rw_indices wes event = Inr (ri, wi) \<and> found wes (rwh_read event) ri \<and> found wes (rwh_write event) wi"
proof -
  let ?hs = "map fst (we_slots wes)"
  have e: "take (we_n wes) (we_events wes) = ?hs" using assms(1) we_events_slots by (simp add: we_inv_def)
  have l: "length ?hs = we_n wes" using we_inv_length [OF assms(1)] by simp
  have d: "distinct ?hs" "rwh_read event \<noteq> rwh_write event" using assms by (simp_all add: we_inv_def we_good_def)
  obtain ri wi where 1: "we_rw_loop event ?hs 0 None None = Inr (ri, wi)"
      "if rwh_read event \<in> set ?hs then \<exists>k<length ?hs. ri = Some (0 + k) \<and> ?hs ! k = rwh_read event else ri = None"
      "if rwh_write event \<in> set ?hs then \<exists>k<length ?hs. wi = Some (0 + k) \<and> ?hs ! k = rwh_write event else wi = None"
    using we_rw_loop_spec [OF d, of None None 0] by blast
  have f: "found wes h o'" if "if h \<in> set ?hs then \<exists>k<length ?hs. o' = Some (0 + k) \<and> ?hs ! k = h else o' = None" for h o'
    using that unfolding found_def hset_list l by (cases "h \<in> set ?hs") (auto simp del: set_map)
  show ?thesis unfolding we_get_rw_indices_def e using 1(1) f [OF 1(2)] f [OF 1(3)] by blast
qed

lemma rw_cases: "rw \<le> 3 \<Longrightarrow> rw = 0 \<or> rw = EVENT_READ \<or> rw = EVENT_WRITE \<or> rw = EVENT_READ + EVENT_WRITE"
  by (auto simp: EVENT_READ_def EVENT_WRITE_def)

lemma rw_distinct: "EVENT_READ \<noteq> 0" "EVENT_WRITE \<noteq> 0" "EVENT_READ \<noteq> EVENT_WRITE" "EVENT_READ + EVENT_WRITE \<noteq> EVENT_READ"
  "EVENT_READ + EVENT_WRITE \<noteq> EVENT_WRITE" "EVENT_READ + EVENT_WRITE \<noteq> 0"
  by (simp_all add: EVENT_READ_def EVENT_WRITE_def)

lemma wanted_simps: "wanted event 0 = {}" "wanted event EVENT_READ = {rwh_read event}"
  "wanted event EVENT_WRITE = {rwh_write event}" "wanted event (EVENT_READ + EVENT_WRITE) = handles event"
  using flag_bits by (auto simp: wanted_def handles_def)

lemma fst_slot: "fst (slot event EVENT_WRITE a) = rwh_write event" "fst (slot event EVENT_READ a) = rwh_read event"
  by (simp_all add: slot_def EVENT_READ_def EVENT_WRITE_def)

text \<open>What one call does to the handles in the set.\<close>

definition ctl_effect :: "we_set \<Rightarrow> rw_handle \<Rightarrow> nat \<Rightarrow> bool \<Rightarrow> we_set \<Rightarrow> bool" where
  "ctl_effect wes event rw ok wes' \<longleftrightarrow> we_inv wes' \<and> we_capacity wes' = we_capacity wes \<and>
     hset wes' - handles event = hset wes - handles event \<and> (ok \<longrightarrow> hset wes' \<inter> handles event = wanted event rw) \<and>
     (we_n wes + 2 \<le> we_capacity wes \<longrightarrow> ok)"

lemma ctl_nothing:
  "we_inv wes \<Longrightarrow> hset wes \<inter> handles event = wanted event rw \<Longrightarrow> ctl_effect wes event rw True wes"
  by (simp add: ctl_effect_def)

lemma ctl_dropped: "we_inv wes \<Longrightarrow> ctl_effect wes event 0 True (we_del_event wes event)"
  using del_event_handles [of wes event] by (auto simp: ctl_effect_def wanted_simps)

lemma ctl_removed:
  assumes "we_inv wes" and "k < we_n wes" and "map fst (we_slots wes) ! k \<in> handles event"
    and "(hset wes - {map fst (we_slots wes) ! k}) \<inter> handles event = wanted event rw"
  shows "\<exists>wes'. we_del_index wes k = Inr wes' \<and> ctl_effect wes event rw True wes'"
  using del_index_handles [OF assms(1,2)] assms(3,4) by (auto simp: ctl_effect_def)

lemma ctl_replaced:
  assumes "we_inv wes" and "we_good event" and "k < we_n wes" and "rw = EVENT_READ \<or> rw = EVENT_WRITE"
    and "map fst (we_slots wes) ! k \<in> handles event"
    and "map fst (we_slots wes) ! k = fst (slot event rw a) \<or> fst (slot event rw a) \<notin> hset wes"
    and "(hset wes - {map fst (we_slots wes) ! k}) \<inter> handles event \<subseteq> wanted event rw"
  shows "\<exists>wes'. we_set_event wes k event rw a = Inr wes' \<and> ctl_effect wes event rw True wes'"
  using set_event_handles [OF assms(1,3,2,4) refl assms(6)] assms(4,5,7)
  by (auto simp: ctl_effect_def wanted_simps fst_slot handles_def)

lemma ctl_added:
  assumes "we_inv wes" and "we_good event" and "wanted event rw' \<inter> hset wes = {}"
    and "wanted event rw' \<union> hset wes \<inter> handles event = wanted event rw" and "wanted event rw' \<subseteq> handles event"
  shows "\<exists>ok wes'. we_append_event wes event rw' a = Inr (ok, wes') \<and> ctl_effect wes event rw ok wes'"
proof -
  obtain ok w where o: "we_append_event wes event rw' a = Inr (ok, w)" "we_inv w" "we_capacity w = we_capacity wes"
      "hset wes \<subseteq> hset w" "hset w \<subseteq> hset wes \<union> wanted event rw'" "ok \<longrightarrow> hset w = hset wes \<union> wanted event rw'"
      "we_n wes + 2 \<le> we_capacity wes \<longrightarrow> ok"
    using append_handles [OF assms(1-3), where a = a] by auto
  have "hset w - handles event = hset wes - handles event" using o(4,5) assms(5) by blast
  moreover have "ok \<longrightarrow> hset w \<inter> handles event = wanted event rw" using o(6) assms(4,5) by blast
  ultimately show ?thesis using o(1,2,3,7) unfolding ctl_effect_def by blast
qed

lemma ctl_none:
  assumes "we_inv wes" and "we_good event"
  shows "\<exists>ok wes'. we_ctl wes event 0 a = Inr (ok, wes') \<and> ctl_effect wes event 0 ok wes'"
proof -
  obtain ri wi where ix: "we_get_rw_indices wes event = Inr (ri, wi)"
    and r: "found wes (rwh_read event) ri" and w: "found wes (rwh_write event) wi"
    using rw_indices [OF assms] by blast
  have slow: "\<not> we_fast wes" and ne: "rwh_read event \<noteq> rwh_write event" using assms by (simp_all add: we_inv_def we_good_def)
  note ctl = we_ctl_def [of wes event "0" a] slow ix rw_distinct
  show ?thesis
  proof (cases ri; cases wi)
    assume "ri = None" "wi = None"
    then show ?thesis using ctl_nothing [OF assms(1), of event "0"] ctl r w ne by (auto simp: wanted_simps handles_def fst_slot found_def)
  next
    fix k assume "ri = None" "wi = Some k"
    then show ?thesis using ctl_removed [OF assms(1), of k event "0"] ctl r w ne by (auto simp: wanted_simps handles_def fst_slot found_def)
  next
    fix k assume "ri = Some k" "wi = None"
    then show ?thesis using ctl_removed [OF assms(1), of k event "0"] ctl r w ne by (auto simp: wanted_simps handles_def fst_slot found_def)
  next
    fix k k' assume "ri = Some k" "wi = Some k'"
    then show ?thesis using ctl_dropped [OF assms(1), of event] ctl r w ne by (auto simp: wanted_simps handles_def fst_slot found_def)
  qed
qed

lemma ctl_read:
  assumes "we_inv wes" and "we_good event"
  shows "\<exists>ok wes'. we_ctl wes event EVENT_READ a = Inr (ok, wes') \<and> ctl_effect wes event EVENT_READ ok wes'"
proof -
  obtain ri wi where ix: "we_get_rw_indices wes event = Inr (ri, wi)"
    and r: "found wes (rwh_read event) ri" and w: "found wes (rwh_write event) wi"
    using rw_indices [OF assms] by blast
  have slow: "\<not> we_fast wes" and ne: "rwh_read event \<noteq> rwh_write event" using assms by (simp_all add: we_inv_def we_good_def)
  note ctl = we_ctl_def [of wes event "EVENT_READ" a] slow ix rw_distinct
  show ?thesis
  proof (cases ri; cases wi)
    assume "ri = None" "wi = None"
    then show ?thesis using ctl_added [OF assms, of "EVENT_READ" "EVENT_READ" a] ctl r w ne by (auto simp: wanted_simps handles_def fst_slot found_def)
  next
    fix k assume "ri = None" "wi = Some k"
    then show ?thesis using ctl_replaced [OF assms, of k "EVENT_READ" a] ctl r w ne by (auto simp: wanted_simps handles_def fst_slot found_def)
  next
    fix k assume "ri = Some k" "wi = None"
    then show ?thesis using ctl_replaced [OF assms, of k "EVENT_READ" a] ctl r w ne by (auto simp: wanted_simps handles_def fst_slot found_def)
  next
    fix k k' assume "ri = Some k" "wi = Some k'"
    then show ?thesis using ctl_removed [OF assms(1), of k' event "EVENT_READ"] ctl r w ne by (auto simp: wanted_simps handles_def fst_slot found_def)
  qed
qed

lemma ctl_write:
  assumes "we_inv wes" and "we_good event"
  shows "\<exists>ok wes'. we_ctl wes event EVENT_WRITE a = Inr (ok, wes') \<and> ctl_effect wes event EVENT_WRITE ok wes'"
proof -
  obtain ri wi where ix: "we_get_rw_indices wes event = Inr (ri, wi)"
    and r: "found wes (rwh_read event) ri" and w: "found wes (rwh_write event) wi"
    using rw_indices [OF assms] by blast
  have slow: "\<not> we_fast wes" and ne: "rwh_read event \<noteq> rwh_write event" using assms by (simp_all add: we_inv_def we_good_def)
  note ctl = we_ctl_def [of wes event "EVENT_WRITE" a] slow ix rw_distinct
  show ?thesis
  proof (cases ri; cases wi)
    assume "ri = None" "wi = None"
    then show ?thesis using ctl_added [OF assms, of "EVENT_WRITE" "EVENT_WRITE" a] ctl r w ne by (auto simp: wanted_simps handles_def fst_slot found_def)
  next
    fix k assume "ri = None" "wi = Some k"
    then show ?thesis using ctl_replaced [OF assms, of k "EVENT_WRITE" a] ctl r w ne by (auto simp: wanted_simps handles_def fst_slot found_def)
  next
    fix k assume "ri = Some k" "wi = None"
    then show ?thesis using ctl_replaced [OF assms, of k "EVENT_WRITE" a] ctl r w ne by (auto simp: wanted_simps handles_def fst_slot found_def)
  next
    fix k k' assume "ri = Some k" "wi = Some k'"
    then show ?thesis using ctl_removed [OF assms(1), of k event "EVENT_WRITE"] ctl r w ne by (auto simp: wanted_simps handles_def fst_slot found_def)
  qed
qed

lemma ctl_both:
  assumes "we_inv wes" and "we_good event"
  shows "\<exists>ok wes'. we_ctl wes event (EVENT_READ + EVENT_WRITE) a = Inr (ok, wes') \<and> ctl_effect wes event (EVENT_READ + EVENT_WRITE) ok wes'"
proof -
  obtain ri wi where ix: "we_get_rw_indices wes event = Inr (ri, wi)"
    and r: "found wes (rwh_read event) ri" and w: "found wes (rwh_write event) wi"
    using rw_indices [OF assms] by blast
  have slow: "\<not> we_fast wes" and ne: "rwh_read event \<noteq> rwh_write event" using assms by (simp_all add: we_inv_def we_good_def)
  note ctl = we_ctl_def [of wes event "(EVENT_READ + EVENT_WRITE)" a] slow ix rw_distinct
  show ?thesis
  proof (cases ri; cases wi)
    assume "ri = None" "wi = None"
    then show ?thesis using ctl_added [OF assms, of "EVENT_READ + EVENT_WRITE" "EVENT_READ + EVENT_WRITE" a] ctl r w ne by (auto simp: wanted_simps handles_def fst_slot found_def)
  next
    fix k assume "ri = None" "wi = Some k"
    then show ?thesis using ctl_added [OF assms, of "EVENT_READ" "EVENT_READ + EVENT_WRITE" a] ctl r w ne by (auto simp: wanted_simps handles_def fst_slot found_def)
  next
    fix k assume "ri = Some k" "wi = None"
    then show ?thesis using ctl_added [OF assms, of "EVENT_WRITE" "EVENT_READ + EVENT_WRITE" a] ctl r w ne by (auto simp: wanted_simps handles_def fst_slot found_def)
  next
    fix k k' assume "ri = Some k" "wi = Some k'"
    then show ?thesis using ctl_nothing [OF assms(1), of event "EVENT_READ + EVENT_WRITE"] ctl r w ne by (auto simp: wanted_simps handles_def fst_slot found_def)
  qed
qed

lemma we_ctl_handles:
  assumes "we_inv wes" and "we_good event" and "rw \<le> 3"
  shows "\<exists>ok wes'. we_ctl wes event rw a = Inr (ok, wes') \<and> ctl_effect wes event rw ok wes'"
  using rw_cases [OF assms(3)] ctl_none [OF assms(1,2)] ctl_read [OF assms(1,2)] ctl_write [OF assms(1,2)]
    ctl_both [OF assms(1,2)] by blast

section \<open>One contract for all implementations\<close>

datatype 'e event_op = Ctl 'e nat arg | Del 'e

fun run_events ::
  "('s \<Rightarrow> 'e \<Rightarrow> nat \<Rightarrow> arg \<Rightarrow> fault + bool \<times> 's) \<Rightarrow> ('s \<Rightarrow> 'e \<Rightarrow> fault + 's) \<Rightarrow> 's \<Rightarrow> 'e event_op list \<Rightarrow> fault + bool \<times> 's" where
  "run_events ctl del s [] = Inr (True, s)"
| "run_events ctl del s (Ctl e rw a # os) =
     bindE (ctl s e rw a) (\<lambda>(ok, s1). bindE (run_events ctl del s1 os) (\<lambda>(ok1, s2). Inr (ok \<and> ok1, s2)))"
| "run_events ctl del s (Del e # os) = bindE (del s e) (\<lambda>s1. run_events ctl del s1 os)"

text \<open>The flags asked for last.\<close>

fun interest_after :: "('e \<Rightarrow> nat) \<Rightarrow> 'e event_op list \<Rightarrow> 'e \<Rightarrow> nat" where
  "interest_after f [] = f"
| "interest_after f (Ctl e rw a # os) = interest_after (f(e := rw)) os"
| "interest_after f (Del e # os) = interest_after (f(e := 0)) os"

fun op_in :: "'e set \<Rightarrow> 'e event_op \<Rightarrow> bool" where
  "op_in E (Ctl e rw a) \<longleftrightarrow> e \<in> E \<and> rw \<le> 3"
| "op_in E (Del e) \<longleftrightarrow> e \<in> E"

lemma interest_after_cong:
  "list_all (op_in E) os \<Longrightarrow> \<forall>e\<in>E. f e = g e \<Longrightarrow> e \<in> E \<Longrightarrow> interest_after f os e = interest_after g os e"
proof (induction os arbitrary: f g)
  case (Cons oper os)
  then show ?case by (cases oper) (simp_all add: Cons.IH)
qed simp

locale event_backend =
  fixes inv :: "'s \<Rightarrow> bool" and good :: "'e \<Rightarrow> bool" and apart :: "'e \<Rightarrow> 'e \<Rightarrow> bool"
    and interest :: "'s \<Rightarrow> 'e \<Rightarrow> nat"
    and ctl :: "'s \<Rightarrow> 'e \<Rightarrow> nat \<Rightarrow> arg \<Rightarrow> fault + bool \<times> 's"
    and del :: "'s \<Rightarrow> 'e \<Rightarrow> fault + 's"
    and room :: "'s \<Rightarrow> nat \<Rightarrow> bool"
  assumes ctl_total: "inv s \<Longrightarrow> good e \<Longrightarrow> rw \<le> 3 \<Longrightarrow>
      \<exists>ok s'. ctl s e rw a = Inr (ok, s') \<and> inv s' \<and> (ok \<longrightarrow> interest s' e = rw) \<and>
        (\<forall>e'. good e' \<longrightarrow> apart e e' \<longrightarrow> interest s' e' = interest s e') \<and> (\<forall>k. room s (Suc k) \<longrightarrow> ok \<and> room s' k)"
    and del_total: "inv s \<Longrightarrow> good e \<Longrightarrow>
      \<exists>s'. del s e = Inr s' \<and> inv s' \<and> interest s' e = 0 \<and>
        (\<forall>e'. good e' \<longrightarrow> apart e e' \<longrightarrow> interest s' e' = interest s e') \<and> (\<forall>k. room s k \<longrightarrow> room s' k)"
    and room_less: "room s (Suc k) \<Longrightarrow> room s k"
begin

lemma run_interest:
  assumes E: "\<And>e. e \<in> E \<Longrightarrow> good e" "\<And>e e'. e \<in> E \<Longrightarrow> e' \<in> E \<Longrightarrow> e \<noteq> e' \<Longrightarrow> apart e e'"
  shows "inv s \<Longrightarrow> list_all (op_in E) os \<Longrightarrow>
     \<exists>ok s'. run_events ctl del s os = Inr (ok, s') \<and> inv s' \<and>
       (ok \<longrightarrow> (\<forall>e\<in>E. interest s' e = interest_after (interest s) os e)) \<and> (room s (length os) \<longrightarrow> ok)"
proof (induction os arbitrary: s)
  case (Cons oper os)
  show ?case
  proof (cases oper)
    case (Ctl e rw a)
    then have e: "e \<in> E" "rw \<le> 3" "list_all (op_in E) os" using Cons.prems(2) by simp_all
    obtain ok s1 where s1: "ctl s e rw a = Inr (ok, s1)" "inv s1" "ok \<longrightarrow> interest s1 e = rw"
        "\<forall>e'. good e' \<longrightarrow> apart e e' \<longrightarrow> interest s1 e' = interest s e'" "\<forall>k. room s (Suc k) \<longrightarrow> ok \<and> room s1 k"
      using ctl_total [OF Cons.prems(1) E(1) [OF e(1)] e(2)] by blast
    obtain ok1 s2 where s2: "run_events ctl del s1 os = Inr (ok1, s2)" "inv s2"
        "ok1 \<longrightarrow> (\<forall>e\<in>E. interest s2 e = interest_after (interest s1) os e)" "room s1 (length os) \<longrightarrow> ok1"
      using Cons.IH [OF s1(2) e(3)] by blast
    have "\<forall>x\<in>E. interest s1 x = ((interest s)(e := rw)) x" if ok using s1(3,4) E e(1) that by auto
    then show ?thesis using Ctl s1(1,5) s2 interest_after_cong [OF e(3)] by auto
  next
    case (Del e)
    then have e: "e \<in> E" "list_all (op_in E) os" using Cons.prems(2) by simp_all
    obtain s1 where s1: "del s e = Inr s1" "inv s1" "interest s1 e = 0"
        "\<forall>e'. good e' \<longrightarrow> apart e e' \<longrightarrow> interest s1 e' = interest s e'" "\<forall>k. room s k \<longrightarrow> room s1 k"
      using del_total [OF Cons.prems(1) E(1) [OF e(1)]] by blast
    obtain ok1 s2 where s2: "run_events ctl del s1 os = Inr (ok1, s2)" "inv s2"
        "ok1 \<longrightarrow> (\<forall>e\<in>E. interest s2 e = interest_after (interest s1) os e)" "room s1 (length os) \<longrightarrow> ok1"
      using Cons.IH [OF s1(2) e(2)] by blast
    have "\<forall>x\<in>E. interest s1 x = ((interest s)(e := 0)) x" using s1(3,4) E e(1) by auto
    then show ?thesis using Del s1(1,5) s2 interest_after_cong [OF e(2)] room_less [of s "length os"] by auto
  qed
qed auto

end

subsection \<open>Windows\<close>

lemma we_interest_iff:
  assumes "rw \<le> 3" and "hset wes \<inter> handles event = wanted event rw" and "we_good event"
  shows "we_interest wes event = rw"
proof -
  have "rwh_read event \<in> hset wes \<longleftrightarrow> rwh_read event \<in> wanted event rw"
    "rwh_write event \<in> hset wes \<longleftrightarrow> rwh_write event \<in> wanted event rw"
    using assms(2) unfolding handles_def by blast+
  moreover have "rwh_read event \<noteq> rwh_write event" using assms(3) by (simp add: we_good_def)
  ultimately show ?thesis
    using rw_cases [OF assms(1)] by (auto simp: we_interest_def wanted_simps handles_def)
qed

lemma we_interest_frame:
  "hset wes' - handles e = hset wes - handles e \<Longrightarrow> handles e \<inter> handles e' = {} \<Longrightarrow> we_interest wes' e' = we_interest wes e'"
proof -
  assume a: "hset wes' - handles e = hset wes - handles e" "handles e \<inter> handles e' = {}"
  have "h \<in> hset wes' \<longleftrightarrow> h \<in> hset wes" if "h \<in> handles e'" for h using a that by blast
  then show ?thesis by (simp add: we_interest_def handles_def)
qed

lemma we_n_card: "we_inv wes \<Longrightarrow> we_n wes = card (hset wes)"
  using we_inv_length [of wes] distinct_card [of "map fst (we_slots wes)"] by (simp add: we_inv_def hset_list)

lemma card_grows:
  assumes "finite B" and "A - H = B - H" and "card H \<le> 2" and "finite H"
  shows "card A \<le> card B + 2"
proof -
  have "card A \<le> card (B \<union> H)" using assms by (intro card_mono) auto
  also have "\<dots> \<le> card B + card H" by (rule card_Un_le)
  finally show ?thesis using assms(3) by simp
qed

lemma hset_finite: "finite (hset wes)"
  by (simp add: hset_def)

lemma handles_card: "card (handles e) \<le> 2" and handles_finite: "finite (handles e)"
  by (simp_all add: handles_def card_insert_if)

text \<open>Whether \<open>k\<close> more requests fit in any case.\<close>

definition we_room :: "we_set \<Rightarrow> nat \<Rightarrow> bool" where
  "we_room wes k \<longleftrightarrow> we_inv wes \<and> we_n wes + 2 * k \<le> we_capacity wes"

lemma ctl_room: "ctl_effect wes e rw ok wes' \<Longrightarrow> we_room wes (Suc k) \<Longrightarrow> ok \<and> we_room wes' k"
  using card_grows [where A = "hset wes'" and B = "hset wes" and H = "handles e", OF hset_finite _ handles_card handles_finite]
    we_n_card [of wes] we_n_card [of wes'] by (auto simp: ctl_effect_def we_room_def)

lemma del_room:
  assumes "we_room wes k"
  shows "we_room (we_del_event wes e) k"
proof -
  have "we_inv wes" using assms by (simp add: we_room_def)
  note d = del_event_handles [OF this, of e]
  have "card (hset (we_del_event wes e)) \<le> card (hset wes)" using d hset_finite [of wes] by (auto intro: card_mono)
  then show ?thesis using assms d we_n_card [of wes] we_n_card [of "we_del_event wes e"] by (auto simp: we_room_def)
qed

interpretation wee: event_backend we_inv we_good "\<lambda>e e'. handles e \<inter> handles e' = {}" we_interest we_ctl we_del we_room
proof unfold_locales
  fix s :: we_set and e :: rw_handle and rw :: nat and a :: arg
  assume a: "we_inv s" "we_good e" "rw \<le> 3"
  obtain ok s' where s': "we_ctl s e rw a = Inr (ok, s')" "ctl_effect s e rw ok s'" using we_ctl_handles [OF a] by blast
  then show "\<exists>ok s'. we_ctl s e rw a = Inr (ok, s') \<and> we_inv s' \<and> (ok \<longrightarrow> we_interest s' e = rw) \<and>
      (\<forall>e'. we_good e' \<longrightarrow> handles e \<inter> handles e' = {} \<longrightarrow> we_interest s' e' = we_interest s e') \<and> (\<forall>k. we_room s (Suc k) \<longrightarrow> ok \<and> we_room s' k)"
    using we_interest_iff [OF a(3) _ a(2)] we_interest_frame [of s' e s] ctl_room [OF s'(2)] unfolding ctl_effect_def by blast
next
  fix s :: we_set and e :: rw_handle
  assume a: "we_inv s" "we_good e"
  have e: "we_inv (we_del_event s e)" "hset (we_del_event s e) = hset s - handles e"
    using del_event_handles [OF a(1)] by auto
  have "we_interest (we_del_event s e) e = 0" by (rule we_interest_iff [OF _ _ a(2)]) (auto simp: e(2) wanted_simps)
  moreover have "we_interest (we_del_event s e) e' = we_interest s e'" if "handles e \<inter> handles e' = {}" for e'
    by (rule we_interest_frame [OF _ that]) (auto simp: e(2))
  ultimately show "\<exists>s'. we_del s e = Inr s' \<and> we_inv s' \<and> we_interest s' e = 0 \<and>
      (\<forall>e'. we_good e' \<longrightarrow> handles e \<inter> handles e' = {} \<longrightarrow> we_interest s' e' = we_interest s e') \<and> (\<forall>k. we_room s k \<longrightarrow> we_room s' k)"
    using a(1) e(1) del_room [of s _ e] by (simp add: we_del_def we_inv_def)
qed (simp add: we_room_def)

subsection \<open>poll\<close>

definition po_map :: "po_set \<Rightarrow> (int \<times> 16 word) list" where
  "po_map pos = map (\<lambda>p. (pf_fd p, pf_events p)) (take (po_n pos) (po_events pos))"

definition po_inv :: "po_set \<Rightarrow> bool" where
  "po_inv pos \<longleftrightarrow> \<not> po_fast pos \<and> length (po_events pos) = po_capacity pos \<and> length (po_args pos) = po_capacity pos \<and>
     po_n pos \<le> po_capacity pos \<and> distinct (map fst (po_map pos))"

definition events_rwflags :: "16 word \<Rightarrow> nat" where
  "events_rwflags ev = (if ev AND POLLIN \<noteq> 0 then EVENT_READ else 0) + (if ev AND POLLOUT \<noteq> 0 then EVENT_WRITE else 0)"

definition po_interest :: "po_set \<Rightarrow> int \<Rightarrow> nat" where
  "po_interest pos event = (case map_of (po_map pos) event of None \<Rightarrow> 0 | Some ev \<Rightarrow> events_rwflags ev)"

lemma poll_bits:
  "events_rwflags 0 = 0" "events_rwflags (POLLIN OR POLLPRI) = 1" "events_rwflags POLLOUT = 2"
  "events_rwflags (POLLOUT OR (POLLIN OR POLLPRI)) = 3"
  by (simp_all add: events_rwflags_def POLLIN_def POLLPRI_def POLLOUT_def EVENT_READ_def EVENT_WRITE_def)

lemma pollfd_events: "rw \<le> 3 \<Longrightarrow> events_rwflags (pf_events (po_set_pollfd_events p rw)) = rw"
  using rw_cases [of rw] flag_bits
  by (auto simp: po_set_pollfd_events_def poll_bits) (simp_all add: EVENT_READ_def EVENT_WRITE_def)

lemma map_of_update_nth:
  assumes "distinct (map fst xs)" and "i < length xs" and "fst (xs ! i) = e"
  shows "map_of (xs[i := (e, v)]) = (map_of xs)(e \<mapsto> v)"
proof -
  have x: "xs = take i xs @ xs ! i # drop (Suc i) xs" using assms(2) by (simp add: id_take_nth_drop)
  have "map fst xs = map fst (take i xs) @ e # map fst (drop (Suc i) xs)"
    by (subst x) (simp add: assms(3))
  then have n: "e \<notin> fst ` set (take i xs)" using assms(1) by (metis distinct_append distinct.simps(2) disjoint_insert(1) list.simps(15) set_map)
  then have none: "map_of (take i xs) e = None" by (simp add: map_of_eq_None_iff)
  have "map_of (take i xs @ (e, v) # drop (Suc i) xs) = (map_of (take i xs @ xs ! i # drop (Suc i) xs))(e \<mapsto> v)"
    using none assms(3) by (cases "xs ! i") (auto simp: map_add_def fun_eq_iff split: option.splits)
  then show ?thesis using x assms(2) by (simp add: upd_conv_take_nth_drop)
qed

lemma map_of_remove_nth:
  assumes "distinct (map fst xs)" and "i < length xs"
  shows "map_of (take i xs @ drop (Suc i) xs) = (map_of xs)(fst (xs ! i) := None)"
proof -
  let ?ys = "take i xs @ drop (Suc i) xs"
  have x: "xs = take i xs @ xs ! i # drop (Suc i) xs" using assms(2) by (simp add: id_take_nth_drop)
  have m: "map fst ?ys = take i (map fst xs) @ drop (Suc i) (map fst xs)" by (simp add: take_map drop_map)
  have n: "fst (xs ! i) \<notin> fst ` set ?ys"
    using remove_nth_distinct(2) [OF assms(1), of i] assms(2) by (simp add: m [symmetric] del: map_append)
  show ?thesis
  proof
    fix k
    show "map_of ?ys k = ((map_of xs)(fst (xs ! i) := None)) k"
    proof (cases "k = fst (xs ! i)")
      case True
      then show ?thesis using n by (simp add: map_of_eq_None_iff del: map_of_append)
    next
      case False
      have "map_of xs k = map_of (take i xs @ xs ! i # drop (Suc i) xs) k" using x by simp
      also have "\<dots> = map_of ?ys k" using False by (cases "xs ! i") (auto simp: map_add_def split: option.splits)
      finally show ?thesis using False by simp
    qed
  qed
qed

lemma po_find_spec:
  "case po_find event i pos of
     Some k \<Rightarrow> i \<le> k \<and> k < po_n pos \<and> pf_fd (po_events pos ! k) = event
   | None \<Rightarrow> \<forall>k. i \<le> k \<and> k < po_n pos \<longrightarrow> pf_fd (po_events pos ! k) \<noteq> event"
proof (induction event i pos rule: po_find.induct)
  case (1 event i pos)
  show ?case
  proof (cases "i < po_n pos \<and> pf_fd (po_events pos ! i) \<noteq> event")
    case True
    then show ?thesis
      using 1 le_neq_implies_less [of i] unfolding po_find.simps [of event i pos]
      by (auto split: option.splits) (metis Suc_leI le_neq_implies_less)
  qed (auto simp: po_find.simps [of event i pos])
qed

lemma po_inv_length: "po_inv pos \<Longrightarrow> length (po_map pos) = po_n pos"
  by (simp add: po_inv_def po_map_def)

lemma po_map_nth: "po_inv pos \<Longrightarrow> k < po_n pos \<Longrightarrow> po_map pos ! k = (pf_fd (po_events pos ! k), pf_events (po_events pos ! k))"
  by (simp add: po_inv_def po_map_def)

lemma po_shift_arrays:
  "po_shift i pos = pos\<lparr>po_events := shift_down i (po_n pos) (po_events pos), po_args := shift_down i (po_n pos) (po_args pos)\<rparr>"
proof (induction i pos rule: po_shift.induct)
  case (1 i pos)
  then show ?case
    by (simp add: po_shift.simps [of i pos] shift_down.simps [of i "po_n pos" "po_events pos"]
        shift_down.simps [of i "po_n pos" "po_args pos"])
qed

lemma po_del_loop_find:
  "po_del_loop event i pos =
     (case po_find event i pos of None \<Rightarrow> pos | Some k \<Rightarrow> (let pos1 = po_shift k pos in pos1\<lparr>po_n := po_n pos1 - 1\<rparr>))"
proof (induction event i pos rule: po_del_loop.induct)
  case (1 event i pos)
  then show ?case by (simp add: po_del_loop.simps [of event i pos] po_find.simps [of event i pos])
qed

lemma po_del_map:
  assumes "po_inv pos"
  shows "po_inv (po_del_loop event 0 pos) \<and> map_of (po_map (po_del_loop event 0 pos)) = (map_of (po_map pos))(event := None)"
proof (cases "po_find event 0 pos")
  case None
  then have "event \<notin> fst ` set (po_map pos)"
    using po_find_spec [where event = event and i = 0 and pos = pos] assms by (auto simp: po_map_def po_inv_def in_set_conv_nth) blast
  then have "map_of (po_map pos) event = None" by (simp add: map_of_eq_None_iff)
  then show ?thesis using None assms by (auto simp: po_del_loop_find)
next
  case (Some k)
  then have k: "k < po_n pos" "pf_fd (po_events pos ! k) = event" using po_find_spec [where event = event and i = 0 and pos = pos] by simp_all
  let ?n = "po_n pos"
  let ?p = "pos\<lparr>po_events := shift_down k ?n (po_events pos), po_args := shift_down k ?n (po_args pos), po_n := ?n - 1\<rparr>"
  have r: "po_del_loop event 0 pos = ?p" using Some by (simp add: po_del_loop_find po_shift_arrays)
  have l: "?n \<le> length (po_events pos)" "?n \<le> length (po_args pos)" using assms by (simp_all add: po_inv_def)
  note s = shift_down_spec [OF k(1) l(1)] shift_down_spec [OF k(1) l(2)]
  have m: "po_map ?p = take k (po_map pos) @ drop (Suc k) (po_map pos)"
    using s k(1) by (simp add: po_map_def take_map drop_map min_def)
  have d: "distinct (map fst (po_map pos))" "k < length (po_map pos)" using assms k po_inv_length by (auto simp: po_inv_def)
  have "distinct (map fst (po_map ?p))"
    unfolding m using remove_nth_distinct(1) [of "map fst (po_map pos)" k] d by (simp add: take_map drop_map del: distinct_append)
  then have "po_inv ?p" using assms s by (auto simp: po_inv_def)
  then show ?thesis unfolding r m using map_of_remove_nth [OF d] po_map_nth [OF assms k(1)] k(2) by (simp del: map_of_append)
qed

lemma po_del_room:
  "po_n (po_del_loop event 0 pos) \<le> po_n pos \<and> po_capacity (po_del_loop event 0 pos) = po_capacity pos"
  by (simp add: po_del_loop_find po_shift_arrays Let_def split: option.splits)

lemma po_ctl_map:
  assumes "po_inv pos" and "rw \<le> 3"
  shows "\<exists>ok pos'. po_ctl pos event rw a = (ok, pos') \<and> po_inv pos' \<and>
     (\<forall>e. e \<noteq> event \<longrightarrow> map_of (po_map pos') e = map_of (po_map pos) e) \<and>
     (ok \<longrightarrow> (\<exists>ev. map_of (po_map pos') event = Some ev \<and> events_rwflags ev = rw)) \<and>
     po_n pos' \<le> Suc (po_n pos) \<and> po_capacity pos' = po_capacity pos \<and> (po_n pos < po_capacity pos \<longrightarrow> ok)"
proof (cases "po_find event 0 pos")
  case None
  then have new: "event \<notin> fst ` set (po_map pos)"
    using po_find_spec [where event = event and i = 0 and pos = pos] assms
    by (auto simp: po_map_def po_inv_def in_set_conv_nth) blast
  show ?thesis
  proof (cases "po_n pos < po_capacity pos")
    case True
    let ?n = "po_n pos"
    let ?q = "po_set_pollfd_events ((po_events pos ! ?n)\<lparr>pf_fd := event\<rparr>) rw"
    let ?p = "pos\<lparr>po_events := (po_events pos)[?n := ?q], po_args := (po_args pos)[?n := a], po_n := ?n + 1\<rparr>"
    have c: "po_ctl pos event rw a = (True, ?p)"
      using assms(1) None True by (simp add: po_ctl_def po_append_event_def po_inv_def)
    have m: "po_map ?p = po_map pos @ [(event, pf_events ?q)]"
      using assms(1) True by (simp add: po_map_def po_inv_def take_Suc_conv_app_nth po_set_pollfd_events_def)
    have "po_inv ?p" using assms(1) True new unfolding po_inv_def m by simp
    moreover have "map_of (po_map pos) event = None" using new by (simp add: map_of_eq_None_iff)
    then have "map_of (po_map ?p) event = Some (pf_events ?q)" unfolding m by (simp add: map_add_def)
    moreover have "map_of (po_map ?p) e = map_of (po_map pos) e" if "e \<noteq> event" for e
      unfolding m using that by (simp add: map_add_def split: option.splits)
    moreover have "events_rwflags (pf_events ?q) = rw" by (rule pollfd_events [OF assms(2)])
    moreover have "po_n ?p \<le> Suc (po_n pos)" "po_capacity ?p = po_capacity pos" by simp_all
    ultimately show ?thesis using c by blast
  next
    case False
    then have "po_ctl pos event rw a = (False, pos)"
      using assms(1) None by (simp add: po_ctl_def po_append_event_def po_inv_def)
    then show ?thesis using assms(1) False by auto
  qed
next
  case (Some k)
  then have k: "k < po_n pos" "pf_fd (po_events pos ! k) = event"
    using po_find_spec [where event = event and i = 0 and pos = pos] by simp_all
  let ?q = "po_set_pollfd_events (po_events pos ! k) rw"
  let ?p = "pos\<lparr>po_args := (po_args pos)[k := a], po_events := (po_events pos)[k := ?q]\<rparr>"
  have c: "po_ctl pos event rw a = (True, ?p)" using assms(1) Some by (simp add: po_ctl_def po_inv_def)
  have m: "po_map ?p = (po_map pos)[k := (event, pf_events ?q)]"
    using assms(1) k by (simp add: po_map_def po_inv_def take_update_swap map_update po_set_pollfd_events_def)
  have d: "distinct (map fst (po_map pos))" "k < length (po_map pos)" "fst (po_map pos ! k) = event"
    using assms(1) k po_inv_length po_map_nth [OF assms(1) k(1)] by (auto simp: po_inv_def)
  have "map fst ((po_map pos)[k := (event, pf_events ?q)]) = map fst (po_map pos)"
    using d(2,3) by (simp add: map_update) (metis list_update_id nth_map)
  then have "po_inv ?p" using assms(1) m by (simp add: po_inv_def)
  moreover have "map_of (po_map ?p) = (map_of (po_map pos))(event \<mapsto> pf_events ?q)"
    unfolding m by (rule map_of_update_nth [OF d])
  then have "map_of (po_map ?p) event = Some (pf_events ?q)" "\<And>e. e \<noteq> event \<Longrightarrow> map_of (po_map ?p) e = map_of (po_map pos) e"
    by (simp_all only: fun_upd_same fun_upd_other not_False_eq_True)
  moreover have "events_rwflags (pf_events ?q) = rw" by (rule pollfd_events [OF assms(2)])
  moreover have "po_n ?p \<le> Suc (po_n pos)" "po_capacity ?p = po_capacity pos" by simp_all
  ultimately show ?thesis using c by blast
qed

definition po_ctl' :: "po_set \<Rightarrow> int \<Rightarrow> nat \<Rightarrow> arg \<Rightarrow> fault + bool \<times> po_set" where
  "po_ctl' pos event rwflags a = Inr (po_ctl pos event rwflags a)"

definition po_room :: "po_set \<Rightarrow> nat \<Rightarrow> bool" where
  "po_room pos k \<longleftrightarrow> po_n pos + k \<le> po_capacity pos"

interpretation poe: event_backend po_inv "\<lambda>_. True" "(\<noteq>)" po_interest po_ctl' po_del po_room
proof unfold_locales
  fix s :: po_set and e :: int and rw :: nat and a :: arg
  assume a: "po_inv s" "rw \<le> 3"
  obtain ok s' where "po_ctl s e rw a = (ok, s')" "po_inv s'" "\<forall>x. x \<noteq> e \<longrightarrow> map_of (po_map s') x = map_of (po_map s) x"
      "ok \<longrightarrow> (\<exists>ev. map_of (po_map s') e = Some ev \<and> events_rwflags ev = rw)"
      "po_n s' \<le> Suc (po_n s)" "po_capacity s' = po_capacity s" "po_n s < po_capacity s \<longrightarrow> ok"
    using po_ctl_map [OF a, of e] by blast
  then show "\<exists>ok s'. po_ctl' s e rw a = Inr (ok, s') \<and> po_inv s' \<and> (ok \<longrightarrow> po_interest s' e = rw) \<and>
      (\<forall>e'. True \<longrightarrow> e \<noteq> e' \<longrightarrow> po_interest s' e' = po_interest s e') \<and> (\<forall>k. po_room s (Suc k) \<longrightarrow> ok \<and> po_room s' k)"
    by (auto simp: po_ctl'_def po_interest_def po_room_def)
next
  fix s :: po_set and e :: int
  assume "po_inv s"
  then show "\<exists>s'. po_del s e = Inr s' \<and> po_inv s' \<and> po_interest s' e = 0 \<and>
      (\<forall>e'. True \<longrightarrow> e \<noteq> e' \<longrightarrow> po_interest s' e' = po_interest s e') \<and> (\<forall>k. po_room s k \<longrightarrow> po_room s' k)"
    using po_del_map [of s e] po_del_room [of e s] by (auto simp: po_del_def po_interest_def po_inv_def po_room_def)
qed (simp add: po_room_def)

subsection \<open>select\<close>

definition se_inv :: "se_set \<Rightarrow> bool" where
  "se_inv ses \<longleftrightarrow> \<not> se_fast ses \<and> se_capacity ses = SELECT_MAX_FDS \<and> length (se_readfds ses) = SELECT_MAX_FDS \<and>
     length (se_writefds ses) = SELECT_MAX_FDS \<and> length (se_args ses) = SELECT_MAX_FDS"

definition se_interest :: "se_set \<Rightarrow> int \<Rightarrow> nat" where
  "se_interest ses event =
     (if se_readfds ses ! nat event then EVENT_READ else 0) + (if se_writefds ses ! nat event then EVENT_WRITE else 0)"

definition se_fd :: "int \<Rightarrow> bool" where
  "se_fd event \<longleftrightarrow> 0 \<le> event \<and> event < int SELECT_MAX_FDS"

definition se_ctl' :: "se_set \<Rightarrow> int \<Rightarrow> nat \<Rightarrow> arg \<Rightarrow> fault + bool \<times> se_set" where
  "se_ctl' ses event rwflags a = Inr (se_ctl ses event rwflags a)"

definition se_del' :: "se_set \<Rightarrow> int \<Rightarrow> fault + se_set" where
  "se_del' ses event = bindE (se_del ses event) (\<lambda>(_, ses1). Inr ses1)"

lemma flags_sum:
  assumes "rw \<le> 3"
  shows "(if rw AND EVENT_READ \<noteq> 0 then EVENT_READ else 0) + (if rw AND EVENT_WRITE \<noteq> 0 then EVENT_WRITE else 0) = rw"
  using rw_cases [OF assms] flag_bits by auto

lemma se_other: "se_fd e \<Longrightarrow> se_fd e' \<Longrightarrow> e \<noteq> e' \<Longrightarrow> nat e \<noteq> nat e'"
  by (auto simp: se_fd_def)

lemma se_ctl_interest:
  assumes "se_inv s" and "se_fd e" and "rw \<le> 3"
  shows "\<exists>s'. se_ctl s e rw a = (True, s') \<and> se_inv s' \<and> se_interest s' e = rw \<and>
     (\<forall>e'. se_fd e' \<longrightarrow> e \<noteq> e' \<longrightarrow> se_interest s' e' = se_interest s e')"
proof -
  let ?s = "s\<lparr>se_maxfd := max e (se_maxfd s), se_args := (se_args s)[nat e := a],
              se_readfds := (se_readfds s)[nat e := rw AND EVENT_READ \<noteq> 0],
              se_writefds := (se_writefds s)[nat e := rw AND EVENT_WRITE \<noteq> 0]\<rparr>"
  have e: "0 \<le> e" "e < int (se_capacity s)" "nat e < SELECT_MAX_FDS" using assms(1,2) by (auto simp: se_inv_def se_fd_def)
  have "se_ctl s e rw a = (True, ?s)" using assms(1) e by (simp add: se_ctl_def se_inv_def Let_def)
  moreover have "se_inv ?s" using assms(1) by (simp add: se_inv_def)
  moreover have "se_interest ?s e = rw" using flags_sum [OF assms(3)] assms(1) e(3) by (simp add: se_interest_def se_inv_def)
  moreover have "se_interest ?s e' = se_interest s e'" if "se_fd e'" "e \<noteq> e'" for e'
    using se_other [OF assms(2) that] by (simp add: se_interest_def)
  ultimately show ?thesis by blast
qed

interpretation see: event_backend se_inv se_fd "(\<noteq>)" se_interest se_ctl' se_del' "\<lambda>_ _. True"
proof unfold_locales
  fix s :: se_set and e :: int and rw :: nat and a :: arg
  assume "se_inv s" "se_fd e" "rw \<le> 3"
  then show "\<exists>ok s'. se_ctl' s e rw a = Inr (ok, s') \<and> se_inv s' \<and> (ok \<longrightarrow> se_interest s' e = rw) \<and>
      (\<forall>e'. se_fd e' \<longrightarrow> e \<noteq> e' \<longrightarrow> se_interest s' e' = se_interest s e') \<and> (\<forall>k. True \<longrightarrow> ok \<and> True)"
    using se_ctl_interest [of s e rw a] by (auto simp: se_ctl'_def)
next
  fix s :: se_set and e :: int
  assume a: "se_inv s" "se_fd e"
  let ?s = "s\<lparr>se_readfds := (se_readfds s)[nat e := False], se_writefds := (se_writefds s)[nat e := False],
              se_args := (se_args s)[nat e := 0]\<rparr>"
  have e: "0 \<le> e" "e < int (se_capacity s)" "nat e < SELECT_MAX_FDS" using a by (auto simp: se_inv_def se_fd_def)
  have "se_del' s e = Inr ?s" using a(1) e by (simp add: se_del'_def se_del_def se_inv_def)
  moreover have "se_inv ?s" using a(1) by (simp add: se_inv_def)
  moreover have "se_interest ?s e = 0" using a(1) e(3) by (simp add: se_interest_def se_inv_def)
  moreover have "se_interest ?s e' = se_interest s e'" if "se_fd e'" "e \<noteq> e'" for e'
    using se_other [OF a(2) that] by (simp add: se_interest_def)
  ultimately show "\<exists>s'. se_del' s e = Inr s' \<and> se_inv s' \<and> se_interest s' e = 0 \<and>
      (\<forall>e'. se_fd e' \<longrightarrow> e \<noteq> e' \<longrightarrow> se_interest s' e' = se_interest s e') \<and> (\<forall>k. True \<longrightarrow> True)"
    by blast
qed simp

section \<open>The implementations agree\<close>

text \<open>A descriptor's pair of Windows handles.\<close>

definition fd_handles :: "int \<Rightarrow> rw_handle" where
  "fd_handles fd = \<lparr>rwh_read = 2 * nat fd + 1, rwh_write = 2 * nat fd + 2\<rparr>"

fun map_op :: "('e \<Rightarrow> 'f) \<Rightarrow> 'e event_op \<Rightarrow> 'f event_op" where
  "map_op f (Ctl e rw a) = Ctl (f e) rw a"
| "map_op f (Del e) = Del (f e)"

lemma fd_handles_good: "we_good (fd_handles fd)"
  by (simp add: we_good_def fd_handles_def)

lemma fd_handles_apart: "se_fd e \<Longrightarrow> se_fd e' \<Longrightarrow> e \<noteq> e' \<Longrightarrow> handles (fd_handles e) \<inter> handles (fd_handles e') = {}"
  by (auto simp: handles_def fd_handles_def se_fd_def)

lemma fd_handles_inj: "se_fd e \<Longrightarrow> se_fd e' \<Longrightarrow> fd_handles e = fd_handles e' \<longleftrightarrow> e = e'"
  by (auto simp: fd_handles_def se_fd_def)

lemma interest_map_op:
  assumes "inj_on f E"
  shows "list_all (op_in E) os \<Longrightarrow> \<forall>x\<in>E. g (f x) = h x \<Longrightarrow> e \<in> E \<Longrightarrow>
     interest_after g (map (map_op f) os) (f e) = interest_after h os e"
proof (induction os arbitrary: g h)
  case (Cons oper os)
  then show ?case using assms by (cases oper) (auto intro!: Cons.IH simp: inj_on_eq_iff)
qed simp

lemma op_in_map: "list_all (op_in E) os \<Longrightarrow> list_all (op_in (f ` E)) (map (map_op f) os)"
proof (induction os)
  case (Cons oper os)
  then show ?case by (cases oper) auto
qed simp

lemma we_init_inv:
  assumes "0 < maxevents"
  shows "\<exists>wes n. we_init maxevents 0 = Inr (wes, n) \<and> we_inv wes \<and> (\<forall>e. we_good e \<longrightarrow> we_interest wes e = 0) \<and>
    (\<forall>k. k \<le> maxevents \<and> 2 * k \<le> WSA_MAXIMUM_WAIT_EVENTS \<longrightarrow> we_room wes k)"
proof -
  let ?c = "min (maxevents * 2) WSA_MAXIMUM_WAIT_EVENTS"
  let ?w = "\<lparr>we_fast = False, we_events = replicate ?c 0, we_esr = replicate ?c event_set_return_init, we_n = 0,
             we_capacity = ?c\<rparr>"
  have "we_init maxevents 0 = Inr (?w, min maxevents WSA_MAXIMUM_WAIT_EVENTS)" using assms by (simp add: we_init_def Let_def)
  moreover have "we_inv ?w" by (simp add: we_inv_def we_wf_def we_slots_def)
  moreover have "we_interest ?w e = 0" for e by (simp add: we_interest_def hset_def we_slots_def)
  moreover have "we_room ?w k" if "k \<le> maxevents" "2 * k \<le> WSA_MAXIMUM_WAIT_EVENTS" for k
    using that \<open>we_inv ?w\<close> by (simp add: we_room_def)
  ultimately show ?thesis by blast
qed

lemma po_init_inv: "0 < maxevents \<Longrightarrow> \<exists>pos n. po_init maxevents 0 = Inr (pos, n) \<and> po_inv pos \<and> (\<forall>e. po_interest pos e = 0) \<and>
    (\<forall>k. k \<le> maxevents \<longrightarrow> po_room pos k)"
  by (auto simp: po_init_def po_inv_def po_map_def po_interest_def po_room_def)

lemma se_init_inv: "0 < maxevents \<Longrightarrow> \<exists>ses n. se_init maxevents 0 = Inr (ses, n) \<and> se_inv ses \<and> (\<forall>e. se_fd e \<longrightarrow> se_interest ses e = 0)"
  by (auto simp: se_init_def se_inv_def se_interest_def se_fd_def)

text \<open>A run of requests from an empty set of each kind.\<close>

definition we_run :: "nat \<Rightarrow> int event_op list \<Rightarrow> fault + bool \<times> we_set" where
  "we_run maxevents os =
     bindE (we_init maxevents 0) (\<lambda>(wes, _). run_events we_ctl we_del wes (map (map_op fd_handles) os))"

definition po_run :: "nat \<Rightarrow> int event_op list \<Rightarrow> fault + bool \<times> po_set" where
  "po_run maxevents os = bindE (po_init maxevents 0) (\<lambda>(pos, _). run_events po_ctl' po_del pos os)"

definition se_run :: "nat \<Rightarrow> int event_op list \<Rightarrow> fault + bool \<times> se_set" where
  "se_run maxevents os = bindE (se_init maxevents 0) (\<lambda>(ses, _). run_events se_ctl' se_del' ses os)"

lemma we_run_interest:
  assumes "0 < maxevents" and "list_all (op_in {fd. se_fd fd}) os"
  shows "\<exists>ok s. we_run maxevents os = Inr (ok, s) \<and>
     (ok \<longrightarrow> (\<forall>fd. se_fd fd \<longrightarrow> we_interest s (fd_handles fd) = interest_after (\<lambda>_. 0) os fd)) \<and>
     (length os \<le> maxevents \<and> 2 * length os \<le> WSA_MAXIMUM_WAIT_EVENTS \<longrightarrow> ok)"
proof -
  let ?E = "fd_handles ` {fd. se_fd fd}"
  obtain s0 n where s0: "we_init maxevents 0 = Inr (s0, n)" "we_inv s0" "\<forall>e. we_good e \<longrightarrow> we_interest s0 e = 0"
      "\<forall>k. k \<le> maxevents \<and> 2 * k \<le> WSA_MAXIMUM_WAIT_EVENTS \<longrightarrow> we_room s0 k"
    using we_init_inv [OF assms(1)] by blast
  have E: "\<And>e. e \<in> ?E \<Longrightarrow> we_good e" using fd_handles_good by blast
  have A: "\<And>e e'. e \<in> ?E \<Longrightarrow> e' \<in> ?E \<Longrightarrow> e \<noteq> e' \<Longrightarrow> handles e \<inter> handles e' = {}" using fd_handles_apart by blast
  obtain ok s where s: "run_events we_ctl we_del s0 (map (map_op fd_handles) os) = Inr (ok, s)"
      "ok \<longrightarrow> (\<forall>e\<in>?E. we_interest s e = interest_after (we_interest s0) (map (map_op fd_handles) os) e)" "we_room s0 (length (map (map_op fd_handles) os)) \<longrightarrow> ok"
    using wee.run_interest [OF E A s0(2) op_in_map [OF assms(2)]] by blast
  have i: "inj_on fd_handles {fd. se_fd fd}" using fd_handles_inj by (auto simp: inj_on_def)
  have "interest_after (we_interest s0) (map (map_op fd_handles) os) (fd_handles fd) = interest_after (\<lambda>_. 0) os fd" if "se_fd fd" for fd
    using interest_map_op [OF i assms(2)] s0(3) fd_handles_good that by simp
  then show ?thesis using s s0(1,4) by (simp add: we_run_def)
qed

lemma po_run_interest:
  assumes "0 < maxevents" and "list_all (op_in {fd. se_fd fd}) os"
  shows "\<exists>ok s. po_run maxevents os = Inr (ok, s) \<and>
     (ok \<longrightarrow> (\<forall>fd. se_fd fd \<longrightarrow> po_interest s fd = interest_after (\<lambda>_. 0) os fd)) \<and> (length os \<le> maxevents \<longrightarrow> ok)"
proof -
  obtain s0 n where s0: "po_init maxevents 0 = Inr (s0, n)" "po_inv s0" "\<forall>e. po_interest s0 e = 0"
      "\<forall>k. k \<le> maxevents \<longrightarrow> po_room s0 k"
    using po_init_inv [OF assms(1)] by blast
  obtain ok s where s: "run_events po_ctl' po_del s0 os = Inr (ok, s)"
      "ok \<longrightarrow> (\<forall>e\<in>{fd. se_fd fd}. po_interest s e = interest_after (po_interest s0) os e)" "po_room s0 (length os) \<longrightarrow> ok"
    using poe.run_interest [OF TrueI _ s0(2) assms(2)] by blast
  have "interest_after (po_interest s0) os fd = interest_after (\<lambda>_. 0) os fd" if "se_fd fd" for fd
    by (rule interest_after_cong [OF assms(2)]) (use s0(3) that in auto)
  then show ?thesis using s s0(1,4) by (simp add: po_run_def)
qed

lemma se_run_interest:
  assumes "0 < maxevents" and "list_all (op_in {fd. se_fd fd}) os"
  shows "\<exists>s. se_run maxevents os = Inr (True, s) \<and> (\<forall>fd. se_fd fd \<longrightarrow> se_interest s fd = interest_after (\<lambda>_. 0) os fd)"
proof -
  obtain s0 n where s0: "se_init maxevents 0 = Inr (s0, n)" "se_inv s0" "\<forall>e. se_fd e \<longrightarrow> se_interest s0 e = 0"
    using se_init_inv [OF assms(1)] by blast
  have E: "\<And>e. e \<in> {fd. se_fd fd} \<Longrightarrow> se_fd e" by simp
  obtain s where s: "run_events se_ctl' se_del' s0 os = Inr (True, s)"
      "\<forall>e\<in>{fd. se_fd fd}. se_interest s e = interest_after (se_interest s0) os e"
    using see.run_interest [OF E _ s0(2) assms(2)] by auto
  have "interest_after (se_interest s0) os fd = interest_after (\<lambda>_. 0) os fd" if "se_fd fd" for fd
    by (rule interest_after_cong [OF assms(2)]) (use s0(3) that in auto)
  then show ?thesis using s s0(1) by (simp add: se_run_def)
qed

text \<open>
  C7: The three implementations of an event set agree when they are created with flags 0, that is
  without \<open>EVENT_METHOD_FAST\<close> (in that mode they do not: select adds to the flags of a descriptor what
  the others enter a second time). Starting from empty sets, after any
  sequence of requests on descriptors that select can represent, none of them has faulted or
  failed an assertion, and select and every implementation that has reported no resource limit
  wait for exactly the same events: for each descriptor the flags of the last request for it.
  Resource limits are not reported before the requested number of events is reached, on Windows
  32 (WSA_MAXIMUM_WAIT_EVENTS is 64 and an event may take two handles).
\<close>

theorem event_backends_agree:
  assumes "0 < maxevents" and "list_all (op_in {fd. se_fd fd}) os"
  shows "\<exists>ok1 wes ok2 pos ses. we_run maxevents os = Inr (ok1, wes) \<and> po_run maxevents os = Inr (ok2, pos) \<and>
     se_run maxevents os = Inr (True, ses) \<and>
     (length os \<le> maxevents \<longrightarrow> ok2 \<and> (2 * length os \<le> WSA_MAXIMUM_WAIT_EVENTS \<longrightarrow> ok1)) \<and>
     (\<forall>fd. se_fd fd \<longrightarrow> se_interest ses fd = interest_after (\<lambda>_. 0) os fd \<and>
        (ok1 \<longrightarrow> we_interest wes (fd_handles fd) = se_interest ses fd) \<and>
        (ok2 \<longrightarrow> po_interest pos fd = se_interest ses fd))"
proof -
  obtain ok1 wes where 1: "we_run maxevents os = Inr (ok1, wes)"
      "ok1 \<longrightarrow> (\<forall>fd. se_fd fd \<longrightarrow> we_interest wes (fd_handles fd) = interest_after (\<lambda>_. 0) os fd)"
      "length os \<le> maxevents \<and> 2 * length os \<le> WSA_MAXIMUM_WAIT_EVENTS \<longrightarrow> ok1"
    using we_run_interest [OF assms] by blast
  obtain ok2 pos where 2: "po_run maxevents os = Inr (ok2, pos)"
      "ok2 \<longrightarrow> (\<forall>fd. se_fd fd \<longrightarrow> po_interest pos fd = interest_after (\<lambda>_. 0) os fd)" "length os \<le> maxevents \<longrightarrow> ok2"
    using po_run_interest [OF assms] by blast
  obtain ses where 3: "se_run maxevents os = Inr (True, ses)"
      "\<forall>fd. se_fd fd \<longrightarrow> se_interest ses fd = interest_after (\<lambda>_. 0) os fd"
    using se_run_interest [OF assms] by blast
  show ?thesis using 1 2 3 by (intro exI [of _ ok1] exI [of _ wes] exI [of _ ok2] exI [of _ pos] exI [of _ ses]) simp
qed

theorem event_backends_agree_witness:
  "\<exists>wes pos ses. we_run 4 [Ctl 5 3 7, Ctl 6 1 8, Del 5] = Inr (True, wes) \<and>
     po_run 4 [Ctl 5 3 7, Ctl 6 1 8, Del 5] = Inr (True, pos) \<and> se_run 4 [Ctl 5 3 7, Ctl 6 1 8, Del 5] = Inr (True, ses) \<and>
     we_interest wes (fd_handles 5) = 0 \<and> we_interest wes (fd_handles 6) = 1 \<and> po_interest pos 5 = 0 \<and>
     po_interest pos 6 = 1 \<and> se_interest ses 6 = 1"
proof -
  let ?os = "[Ctl 5 3 7, Ctl 6 1 8, Del 5]"
  have "list_all (op_in {fd. se_fd fd}) ?os" by (simp add: se_fd_def SELECT_MAX_FDS_def)
  from event_backends_agree [OF _ this, of 4] obtain ok1 wes ok2 pos ses where
    r: "we_run 4 ?os = Inr (ok1, wes)" "po_run 4 ?os = Inr (ok2, pos)" "se_run 4 ?os = Inr (True, ses)" "ok1" "ok2"
    and i: "\<forall>fd. se_fd fd \<longrightarrow> se_interest ses fd = interest_after (\<lambda>_. 0) ?os fd \<and>
        (ok1 \<longrightarrow> we_interest wes (fd_handles fd) = se_interest ses fd) \<and> (ok2 \<longrightarrow> po_interest pos fd = se_interest ses fd)"
    by (auto simp: WSA_MAXIMUM_WAIT_EVENTS_def)
  have "se_fd 5" "se_fd 6" by (simp_all add: se_fd_def SELECT_MAX_FDS_def)
  then have "we_interest wes (fd_handles 5) = 0" "we_interest wes (fd_handles 6) = 1" "po_interest pos 5 = 0"
      "po_interest pos 6 = 1" "se_interest ses 6 = 1"
    using i r(4,5) by simp_all
  then show ?thesis using r by (intro exI [of _ wes] exI [of _ pos] exI [of _ ses]) simp
qed

section \<open>Waiting\<close>

text \<open>Each wait reports the ready entries in order, and never more than the caller has room for.\<close>

lemma we_poll_ready:
  "length hs = length rs \<Longrightarrow> we_poll signaled hs rs n = take n (map snd (filter (\<lambda>x. signaled (fst x)) (zip hs rs)))"
  by (induction hs rs arbitrary: n rule: list_induct2) (auto simp: take_Cons split: nat.splits)

lemma we_wait_ready:
  assumes "we_wf wes" and "0 \<le> polled" and "polled < int (we_n wes)"
  shows "snd (we_wait wes tv outlen polled signaled waited) = take outlen (map snd (filter (\<lambda>x. signaled (fst x)) (we_slots wes)))"
  using assms
  by (simp add: we_wait_def Let_def we_poll_ready we_wf_def we_slots_def we_arr_def take_zip)

lemma we_wait_bounded: "length (snd (we_wait wes tv outlen polled signaled waited)) \<le> outlen"
proof -
  have "length (we_poll signaled hs rs n) \<le> n" for hs rs n
    by (induction signaled hs rs n rule: we_poll.induct) auto
  then show ?thesis by (auto simp: we_wait_def Let_def)
qed

lemma po_collect_ready:
  "length ps = length as \<Longrightarrow>
     po_collect ps as n =
       take n (map (\<lambda>(p, a). \<lparr>esr_rwflags = revents_rwflags (pf_revents p), esr_arg = a\<rparr>)
         (filter (\<lambda>(p, a). pf_revents p AND (POLLIN OR POLLPRI OR POLLERR OR POLLHUP OR POLLOUT) \<noteq> 0) (zip ps as)))"
proof (induction ps as arbitrary: n rule: list_induct2)
  case (Cons p ps a as)
  then show ?case by (cases n) simp_all
qed simp

lemma se_wait_loop_ready:
  "se_wait_loop ses rd wr i n =
     take n (map (\<lambda>i. \<lparr>esr_rwflags = (if rd ! i then EVENT_READ else 0) + (if wr ! i then EVENT_WRITE else 0),
                        esr_arg = se_args ses ! i\<rparr>)
       (filter (\<lambda>i. rd ! i \<or> wr ! i) [i..<nat (se_maxfd ses + 1)]))"
proof (induction ses rd wr i n rule: se_wait_loop.induct)
  case (1 ses rd wr i n)
  show ?case
  proof (cases "int i \<le> se_maxfd ses \<and> n > 0")
    case True
    then have "[i..<nat (se_maxfd ses + 1)] = i # [Suc i..<nat (se_maxfd ses + 1)]" by (intro upt_conv_Cons) auto
    moreover obtain m where "n = Suc m" using True by (cases n) auto
    ultimately show ?thesis using 1 True by (subst se_wait_loop.simps) simp
  next
    case False
    then have "n = 0 \<or> [i..<nat (se_maxfd ses + 1)] = []" by auto
    then show ?thesis using False by (auto simp: se_wait_loop.simps [of ses rd wr i n])
  qed
qed

text \<open>
  When an event in the Windows set for reading is put in for reading and writing with another
  argument, its entry for reading keeps the old one; the other implementations replace it.
\<close>

lemma we_ctl_stale_arg:
  "\<exists>wes. we_run 4 [Ctl 5 1 7, Ctl 5 3 8] = Inr (True, wes) \<and>
     we_slots wes = [(11, \<lparr>esr_rwflags = 1, esr_arg = 7\<rparr>), (12, \<lparr>esr_rwflags = 2, esr_arg = 8\<rparr>)]"
  unfolding we_run_def by (intro exI [of _ "snd (projr (we_run 4 [Ctl 5 1 7, Ctl 5 3 8]))"]) code_simp

end
