(* ===== verification/Tun_Dhcp.thy ===== *)
theory Tun_Dhcp
  imports Addr_Text C_Strings
begin

text \<open>
  The DHCP options of \<open>src/Treiber/lib/tun.c\<close>: \<open>build_dhcp_options_string\<close> turns the settings of
  \<open>struct tuntap_options\<close> (\<open>tun.h\<close>) into the option field of a DHCP reply, which the TAP driver
  hands to the operating system. The reference is a parser of that field (RFC 2132) and of a list
  of search domains (RFC 1035, RFC 3397).
\<close>

section \<open>Options\<close>

text \<open>A list of addresses is its array with the number of entries in use; \<open>None\<close> is NULL.\<close>

record tuntap_options =
  to_domain :: "cstr option"
  to_netbios_scope :: "cstr option"
  to_netbios_node_type :: int
  to_dns :: "32 word list"
  to_dns_len :: nat
  to_wins :: "32 word list"
  to_wins_len :: nat
  to_ntp :: "32 word list"
  to_ntp_len :: nat
  to_nbdd :: "32 word list"
  to_nbdd_len :: nat
  to_domain_search_list :: "cstr list"
  to_disable_nbt :: bool

text \<open>A write whose result the code ignores.\<close>

type_synonym wr = "fault + buffer \<times> mem"

definition wr :: "fault + bool \<times> buffer \<times> mem \<Rightarrow> wr" where
  "wr r = bindE r (\<lambda>(_, buf, m). Inr (buf, m))"

text \<open>Each writer returns whether it reported an error, the buffer and the memory.\<close>

definition write_dhcp_u8 :: "mem \<Rightarrow> buffer \<Rightarrow> int \<Rightarrow> int \<Rightarrow> fault + bool \<times> buffer \<times> mem" where
  "write_dhcp_u8 m buf type data =
     (if \<not> buf_safe buf 3 then Inr (True, buf, m)
      else bindE (wr (buf_write_u8 m buf type))
        (\<lambda>(buf1, m1). bindE (wr (buf_write_u8 m1 buf1 1))
          (\<lambda>(buf2, m2). bindE (wr (buf_write_u8 m2 buf2 data))
            (\<lambda>(buf3, m3). Inr (False, buf3, m3)))))"

function write_u32_loop :: "mem \<Rightarrow> buffer \<Rightarrow> 32 word list \<Rightarrow> nat \<Rightarrow> nat \<Rightarrow> wr" where
  "write_u32_loop m buf data i len =
     (if i < len
      then if i < length data
           then bindE (wr (buf_write_u32 m buf (uint (data ! i)))) (\<lambda>(buf1, m1). write_u32_loop m1 buf1 data (Suc i) len)
           else Inl MemFault
      else Inr (buf, m))"
  by pat_completeness auto

termination write_u32_loop
  by (relation "measure (\<lambda>(_, _, _, i, len). len - i)") auto

declare write_u32_loop.simps [simp del]

text \<open>\<open>len\<close> is an \<open>unsigned int\<close>; the size in bytes is cut to an \<open>int\<close>.\<close>

definition write_dhcp_u32_array :: "mem \<Rightarrow> buffer \<Rightarrow> int \<Rightarrow> 32 word list \<Rightarrow> 32 word \<Rightarrow> fault + bool \<times> buffer \<times> mem" where
  "write_dhcp_u32_array m buf type data len =
     (if len = 0 then Inr (False, buf, m)
      else (let sz = sint (len * 4)
            in if \<not> buf_safe buf (2 + sz) then Inr (True, buf, m)
               else if sz < 1 \<or> sz > 255 then Inr (True, buf, m)
               else bindE (wr (buf_write_u8 m buf type))
                 (\<lambda>(buf1, m1). bindE (wr (buf_write_u8 m1 buf1 sz))
                   (\<lambda>(buf2, m2). bindE (write_u32_loop m2 buf2 data 0 (unat len))
                     (\<lambda>(buf3, m3). Inr (False, buf3, m3))))))"

definition write_dhcp_str :: "mem \<Rightarrow> buffer \<Rightarrow> int \<Rightarrow> cstr \<Rightarrow> fault + bool \<times> buffer \<times> mem" where
  "write_dhcp_str m buf type str =
     (let len = int (length str)
      in if \<not> buf_safe buf (2 + len) then Inr (True, buf, m)
         else if len < 1 \<or> len > 255 then Inr (True, buf, m)
         else bindE (wr (buf_write_u8 m buf type))
           (\<lambda>(buf1, m1). bindE (wr (buf_write_u8 m1 buf1 len))
             (\<lambda>(buf2, m2). bindE (wr (buf_write_val m2 buf2 str))
               (\<lambda>(buf3, m3). Inr (False, buf3, m3)))))"

text \<open>
  The search list is put together in an array of 256 bytes on the stack. \<open>pos\<close> is the place where
  the length of the label goes, \<open>len\<close> the number of bytes so far.
\<close>

fun label_loop :: "cstr \<Rightarrow> byte list \<Rightarrow> nat \<Rightarrow> nat \<Rightarrow> fault + byte list \<times> nat" where
  "label_loop [] tmp pos len = bindE (arr_set tmp pos (of_nat (len - pos - 1))) (\<lambda>tmp1. Inr (tmp1, len))"
| "label_loop (c # cs) tmp pos len =
     (if c = DOT
      then bindE (arr_set tmp pos (of_nat (len - pos - 1)))
             (\<lambda>tmp1. bindE (arr_set tmp1 len c) (\<lambda>tmp2. label_loop cs tmp2 len (len + 1)))
      else bindE (arr_set tmp len c) (\<lambda>tmp1. label_loop cs tmp1 pos (len + 1)))"

text \<open>\<open>None\<close>: a domain that does not fit was found and an error reported.\<close>

fun search_loop :: "cstr list \<Rightarrow> byte list \<Rightarrow> nat \<Rightarrow> fault + (byte list \<times> nat) option" where
  "search_loop [] tmp len = Inr (Some (tmp, len))"
| "search_loop (s # ss) tmp len =
     (if length s + len + 1 > 256 then Inr None
      else bindE (label_loop s tmp len (len + 1))
        (\<lambda>(tmp1, len1). bindE (arr_set tmp1 len1 NUL) (\<lambda>tmp2. search_loop ss tmp2 (len1 + 1))))"

definition write_dhcp_search_str ::
  "mem \<Rightarrow> buffer \<Rightarrow> int \<Rightarrow> cstr list \<Rightarrow> byte list \<Rightarrow> fault + bool \<times> buffer \<times> mem" where
  "write_dhcp_search_str m buf type strs tmp_buf =
     bindE (search_loop strs tmp_buf 0)
       (\<lambda>r. case r of None \<Rightarrow> Inr (True, buf, m)
          | Some (tmp, len) \<Rightarrow>
              if \<not> buf_safe buf (2 + int len) then Inr (True, buf, m)
              else if len > 255 then Inr (True, buf, m)
              else bindE (wr (buf_write_u8 m buf type))
                (\<lambda>(buf1, m1). bindE (wr (buf_write_u8 m1 buf1 (int len)))
                  (\<lambda>(buf2, m2). bindE (wr (buf_write_val m2 buf2 (take len tmp)))
                    (\<lambda>(buf3, m3). Inr (False, buf3, m3)))))"

text \<open>A writer that is called under a condition, and two in a row (the error flag is kept).\<close>

type_synonym dhcp_writer = "mem \<Rightarrow> buffer \<Rightarrow> fault + bool \<times> buffer \<times> mem"

fun dhcp_writers :: "dhcp_writer list \<Rightarrow> bool \<Rightarrow> dhcp_writer" where
  "dhcp_writers [] error m buf = Inr (error, buf, m)"
| "dhcp_writers (w # ws) error m buf =
     bindE (w m buf) (\<lambda>(e, buf1, m1). dhcp_writers ws (error \<or> e) m1 buf1)"

definition skip_option :: dhcp_writer where
  "skip_option m buf = Inr (False, buf, m)"

text \<open>The result is whether the string could be built. \<open>tmp_buf\<close> is what the stack holds.\<close>

definition build_dhcp_options_string ::
  "mem \<Rightarrow> buffer \<Rightarrow> tuntap_options \<Rightarrow> byte list \<Rightarrow> fault + bool \<times> buffer \<times> mem" where
  "build_dhcp_options_string m buf opts tmp_buf =
     bindE (dhcp_writers
        [\<lambda>m buf. case to_domain opts of Some s \<Rightarrow> write_dhcp_str m buf 15 s | None \<Rightarrow> skip_option m buf,
         \<lambda>m buf. case to_netbios_scope opts of Some s \<Rightarrow> write_dhcp_str m buf 47 s | None \<Rightarrow> skip_option m buf,
         \<lambda>m buf. if to_netbios_node_type opts \<noteq> 0 then write_dhcp_u8 m buf 46 (to_netbios_node_type opts)
                 else skip_option m buf,
         \<lambda>m buf. write_dhcp_u32_array m buf 6 (to_dns opts) (of_nat (to_dns_len opts)),
         \<lambda>m buf. write_dhcp_u32_array m buf 44 (to_wins opts) (of_nat (to_wins_len opts)),
         \<lambda>m buf. write_dhcp_u32_array m buf 42 (to_ntp opts) (of_nat (to_ntp_len opts)),
         \<lambda>m buf. write_dhcp_u32_array m buf 45 (to_nbdd opts) (of_nat (to_nbdd_len opts)),
         \<lambda>m buf. if to_domain_search_list opts \<noteq> []
                 then write_dhcp_search_str m buf 119 (to_domain_search_list opts) tmp_buf
                 else skip_option m buf] False m buf)
       (\<lambda>(error, buf1, m1).
          if to_disable_nbt opts
          then if \<not> buf_safe buf1 8 then Inr (False, buf1, m1)
               else bindE (wr (buf_write_u8 m1 buf1 43))
                 (\<lambda>(buf2, m2). bindE (wr (buf_write_u8 m2 buf2 6))
                   (\<lambda>(buf3, m3). bindE (wr (buf_write_u8 m3 buf3 1))
                     (\<lambda>(buf4, m4). bindE (wr (buf_write_u8 m4 buf4 4))
                       (\<lambda>(buf5, m5). bindE (wr (buf_write_u32 m5 buf5 2))
                         (\<lambda>(buf6, m6). Inr (\<not> error, buf6, m6))))))
          else Inr (\<not> error, buf1, m1))"

section \<open>Writing in pieces\<close>

definition appended :: "mem \<Rightarrow> buffer \<Rightarrow> byte list \<Rightarrow> buffer \<Rightarrow> mem \<Rightarrow> bool" where
  "appended m buf bs buf' m' \<longleftrightarrow>
     buf' = buf\<lparr>b_len := b_len buf + int (length bs)\<rparr> \<and> buf_inv m' buf' \<and> content m' buf' = content m buf @ bs"

definition left :: "buffer \<Rightarrow> int" where
  "left buf = b_capacity buf - b_offset buf - b_len buf"

lemma appended_inv: "appended m buf bs buf' m' \<Longrightarrow> buf_inv m' buf'"
  by (auto simp: appended_def)

lemma appended_left: "appended m buf bs buf' m' \<Longrightarrow> left buf' = left buf - int (length bs)"
  by (auto simp: appended_def left_def)

lemma appended_none: "buf_inv m buf \<Longrightarrow> appended m buf [] buf m"
  by (simp add: appended_def)

lemma appended_trans:
  "appended m buf bs buf1 m1 \<Longrightarrow> appended m1 buf1 cs buf2 m2 \<Longrightarrow> appended m buf (bs @ cs) buf2 m2"
  by (auto simp: appended_def add.assoc)

lemma safe_left: "buf_inv m buf \<Longrightarrow> 0 \<le> n \<Longrightarrow> buf_safe buf n \<longleftrightarrow> n \<le> left buf"
  using buf_safe_iff by (auto simp: left_def)

lemma wr_fits:
  assumes "buf_inv m buf" and "int (length bs) \<le> left buf"
  shows "\<exists>buf' m'. wr (buf_write_val m buf bs) = Inr (buf', m') \<and> appended m buf bs buf' m'"
proof -
  have "b_offset buf + b_len buf + int (length bs) \<le> b_capacity buf" using assms(2) by (simp add: left_def)
  then show ?thesis
  proof (cases rule: buf_write_val_cases [OF assms(1), of bs])
    case (1 m')
    then show ?thesis by (auto simp: wr_def appended_def)
  qed simp
qed

lemma wr_u8:
  "buf_inv m buf \<Longrightarrow> 1 \<le> left buf \<Longrightarrow>
     \<exists>buf' m'. wr (buf_write_u8 m buf x) = Inr (buf', m') \<and> appended m buf [word_of_int x] buf' m'"
  using wr_fits [of m buf "[word_of_int x]"] by (simp add: buf_write_u8_def)

lemma wr_u32:
  "buf_inv m buf \<Longrightarrow> 4 \<le> left buf \<Longrightarrow>
     \<exists>buf' m'. wr (buf_write_u32 m buf x) = Inr (buf', m') \<and> appended m buf (be32 (word_of_int x)) buf' m'"
  using wr_fits [of m buf "be32 (word_of_int x)"] by (simp add: buf_write_u32_def)

text \<open>The type, the length and the content of an option.\<close>

definition opt_bytes :: "int \<Rightarrow> byte list \<Rightarrow> byte list" where
  "opt_bytes t d = word_of_int t # word_of_int (int (length d)) # d"

lemma wr_head:
  assumes "buf_inv m buf" and "2 \<le> left buf"
  shows "\<exists>buf1 m1 buf2 m2. wr (buf_write_u8 m buf x) = Inr (buf1, m1) \<and> wr (buf_write_u8 m1 buf1 y) = Inr (buf2, m2) \<and>
     appended m buf [word_of_int x, word_of_int y] buf2 m2"
proof -
  obtain b1 m1 where 1: "wr (buf_write_u8 m buf x) = Inr (b1, m1)" "appended m buf [word_of_int x] b1 m1"
    using wr_u8 [OF assms(1)] assms(2) by fastforce
  have "1 \<le> left b1" using appended_left [OF 1(2)] assms(2) by simp
  then obtain b2 m2 where 2: "wr (buf_write_u8 m1 b1 y) = Inr (b2, m2)" "appended m1 b1 [word_of_int y] b2 m2"
    using wr_u8 [OF appended_inv [OF 1(2)]] by fastforce
  show ?thesis using 1(1) 2(1) appended_trans [OF 1(2) 2(2)] by auto
qed

text \<open>What a writer does to every buffer: it appends its bytes, or it reports an error.\<close>

definition emits :: "dhcp_writer \<Rightarrow> bool \<Rightarrow> byte list \<Rightarrow> bool" where
  "emits w ok bs \<longleftrightarrow> (\<forall>m buf. buf_inv m buf \<longrightarrow>
     (if ok \<and> int (length bs) \<le> left buf
      then \<exists>buf' m'. w m buf = Inr (False, buf', m') \<and> appended m buf bs buf' m'
      else w m buf = Inr (True, buf, m)))"

lemma left_nonneg: "buf_inv m buf \<Longrightarrow> 0 \<le> left buf"
  using safe_left [of m buf 0] by (simp add: left_def buf_inv_def)

lemma emits_skip: "emits skip_option True []"
  unfolding emits_def skip_option_def using appended_none left_nonneg by auto

definition opt_ok :: "byte list \<Rightarrow> bool" where
  "opt_ok d \<longleftrightarrow> 1 \<le> length d \<and> length d \<le> 255"

lemma emits_str: "emits (\<lambda>m buf. write_dhcp_str m buf t s) (opt_ok s) (opt_bytes t s)"
  unfolding emits_def
proof (intro allI impI)
  fix m buf
  assume i: "buf_inv m buf"
  let ?d = "write_dhcp_str m buf t s"
  have safe: "buf_safe buf (2 + int (length s)) \<longleftrightarrow> int (length (opt_bytes t s)) \<le> left buf"
    using safe_left [OF i, of "2 + int (length s)"] by (simp add: opt_bytes_def)
  show "if opt_ok s \<and> int (length (opt_bytes t s)) \<le> left buf
        then \<exists>buf' m'. ?d = Inr (False, buf', m') \<and> appended m buf (opt_bytes t s) buf' m' else ?d = Inr (True, buf, m)"
  proof (cases "opt_ok s \<and> int (length (opt_bytes t s)) \<le> left buf")
    case True
    then have "2 \<le> left buf" by (simp add: opt_bytes_def)
    from wr_head [OF i this] obtain b1 m1 b2 m2 where
      1: "wr (buf_write_u8 m buf t) = Inr (b1, m1)" "wr (buf_write_u8 m1 b1 (int (length s))) = Inr (b2, m2)"
        "appended m buf [word_of_int t, word_of_int (int (length s))] b2 m2" by blast
    have "int (length s) \<le> left b2" using appended_left [OF 1(3)] True by (simp add: opt_bytes_def)
    then obtain b3 m3 where 2: "wr (buf_write_val m2 b2 s) = Inr (b3, m3)" "appended m2 b2 s b3 m3"
      using wr_fits [OF appended_inv [OF 1(3)]] by blast
    have "appended m buf (opt_bytes t s) b3 m3" using appended_trans [OF 1(3) 2(2)] by (simp add: opt_bytes_def)
    moreover have "?d = Inr (False, b3, m3)" using True safe 1(1,2) 2(1) by (auto simp: write_dhcp_str_def Let_def opt_ok_def Suc_le_eq)
    ultimately show ?thesis using True by auto
  next
    case False
    then show ?thesis using safe by (auto simp: write_dhcp_str_def Let_def opt_ok_def Suc_le_eq)
  qed
qed

lemma emits_u8: "emits (\<lambda>m buf. write_dhcp_u8 m buf t x) True (opt_bytes t [word_of_int x])"
  unfolding emits_def
proof (intro allI impI)
  fix m buf
  assume i: "buf_inv m buf"
  let ?d = "write_dhcp_u8 m buf t x"
  have safe: "buf_safe buf 3 \<longleftrightarrow> 3 \<le> left buf" using safe_left [OF i, of 3] by simp
  show "if True \<and> int (length (opt_bytes t [word_of_int x])) \<le> left buf
        then \<exists>buf' m'. ?d = Inr (False, buf', m') \<and> appended m buf (opt_bytes t [word_of_int x]) buf' m'
        else ?d = Inr (True, buf, m)"
  proof (cases "3 \<le> left buf")
    case True
    then have "2 \<le> left buf" by simp
    from wr_head [OF i this] obtain b1 m1 b2 m2 where
      1: "wr (buf_write_u8 m buf t) = Inr (b1, m1)" "wr (buf_write_u8 m1 b1 1) = Inr (b2, m2)"
        "appended m buf [word_of_int t, word_of_int 1] b2 m2" by blast
    have "1 \<le> left b2" using appended_left [OF 1(3)] True by simp
    then obtain b3 m3 where 2: "wr (buf_write_u8 m2 b2 x) = Inr (b3, m3)" "appended m2 b2 [word_of_int x] b3 m3"
      using wr_u8 [OF appended_inv [OF 1(3)]] by blast
    have "appended m buf (opt_bytes t [word_of_int x]) b3 m3" using appended_trans [OF 1(3) 2(2)] by (simp add: opt_bytes_def)
    moreover have "?d = Inr (False, b3, m3)" using True safe 1(1,2) 2(1) by (simp add: write_dhcp_u8_def)
    ultimately show ?thesis using True by (auto simp: opt_bytes_def)
  qed (use safe in \<open>simp add: write_dhcp_u8_def opt_bytes_def\<close>)
qed

definition addr_bytes :: "32 word list \<Rightarrow> byte list" where
  "addr_bytes as = concat (map be32 as)"

lemma length_addr_bytes [simp]: "length (addr_bytes as) = 4 * length as"
  by (induction as) (auto simp: addr_bytes_def)

lemma u32_loop_appends:
  "buf_inv m buf \<Longrightarrow> i \<le> len \<Longrightarrow> len \<le> length data \<Longrightarrow> int (4 * (len - i)) \<le> left buf \<Longrightarrow>
     \<exists>buf' m'. write_u32_loop m buf data i len = Inr (buf', m') \<and>
       appended m buf (addr_bytes (drop i (take len data))) buf' m'"
proof (induction m buf data i len rule: write_u32_loop.induct)
  case (1 m buf data i len)
  show ?case
  proof (cases "i < len")
    case True
    obtain b1 m1 where a: "wr (buf_write_u32 m buf (uint (data ! i))) = Inr (b1, m1)" "appended m buf (be32 (data ! i)) b1 m1"
      using wr_u32 [OF 1(2), of "uint (data ! i)"] 1(5) True by auto
    have "int (4 * (len - Suc i)) \<le> left b1" using appended_left [OF a(2)] 1(5) True by simp
    then obtain b2 m2 where b: "write_u32_loop m1 b1 data (Suc i) len = Inr (b2, m2)"
        "appended m1 b1 (addr_bytes (drop (Suc i) (take len data))) b2 m2"
      using 1(1) [OF True _ a(1) refl appended_inv [OF a(2)]] 1(4) True by auto
    have "drop i (take len data) = data ! i # drop (Suc i) (take len data)"
      using True 1(4) Cons_nth_drop_Suc [of i "take len data"] by simp
    then have "addr_bytes (drop i (take len data)) = be32 (data ! i) @ addr_bytes (drop (Suc i) (take len data))"
      by (simp add: addr_bytes_def)
    then show ?thesis using a b True 1(4) appended_trans [OF a(2) b(2)]
      by (simp add: write_u32_loop.simps [of m buf data i len])
  next
    case False
    then have "write_u32_loop m buf data i len = Inr (buf, m)" by (simp add: write_u32_loop.simps [of m buf data i len])
    then show ?thesis using False 1(3) appended_none [OF 1(2)] by (auto simp: addr_bytes_def)
  qed
qed

definition N_DHCP_ADDR :: nat where "N_DHCP_ADDR = 4"

lemma emits_u32_array:
  assumes "n \<le> length as" and "n \<le> N_DHCP_ADDR"
  shows "emits (\<lambda>m buf. write_dhcp_u32_array m buf t as (of_nat n)) True
           (if n = 0 then [] else opt_bytes t (addr_bytes (take n as)))"
  unfolding emits_def
proof (intro allI impI)
  fix m buf
  assume i: "buf_inv m buf"
  let ?d = "write_dhcp_u32_array m buf t as (of_nat n)" and ?bs = "if n = 0 then [] else opt_bytes t (addr_bytes (take n as))"
  have n: "n = 0 \<or> n = 1 \<or> n = 2 \<or> n = 3 \<or> n = 4" using assms(2) by (auto simp: N_DHCP_ADDR_def)
  then have z: "(of_nat n = (0 :: 32 word)) = (n = 0)" and u: "unat (of_nat n :: 32 word) = n"
    and s: "sint (of_nat n * 4 :: 32 word) = 4 * int n"
    by (elim disjE; simp)+
  have safe: "buf_safe buf (2 + 4 * int n) \<longleftrightarrow> 2 + 4 * int n \<le> left buf" using safe_left [OF i, of "2 + 4 * int n"] by simp
  show "if True \<and> int (length ?bs) \<le> left buf
        then \<exists>buf' m'. ?d = Inr (False, buf', m') \<and> appended m buf ?bs buf' m' else ?d = Inr (True, buf, m)"
  proof (cases "n = 0")
    case True
    then show ?thesis using appended_none [OF i] left_nonneg [OF i] by (simp add: write_dhcp_u32_array_def)
  next
    case pos: False
    have len: "int (length ?bs) = 2 + 4 * int n" using pos assms(1) by (simp add: opt_bytes_def)
    show ?thesis
    proof (cases "2 + 4 * int n \<le> left buf")
      case True
      then have "2 \<le> left buf" by simp
      from wr_head [OF i this] obtain b1 m1 b2 m2 where
        1: "wr (buf_write_u8 m buf t) = Inr (b1, m1)" "wr (buf_write_u8 m1 b1 (4 * int n)) = Inr (b2, m2)"
          "appended m buf [word_of_int t, word_of_int (4 * int n)] b2 m2" by blast
      have "int (4 * (n - 0)) \<le> left b2" using appended_left [OF 1(3)] True by simp
      then obtain b3 m3 where 2: "write_u32_loop m2 b2 as 0 n = Inr (b3, m3)" "appended m2 b2 (addr_bytes (take n as)) b3 m3"
        using u32_loop_appends [OF appended_inv [OF 1(3)] _ assms(1)] by fastforce
      have "appended m buf ?bs b3 m3" using appended_trans [OF 1(3) 2(2)] pos assms(1) by (simp add: opt_bytes_def)
      moreover have "?d = Inr (False, b3, m3)"
        using True pos n safe 1(1,2) 2(1) z u s by (auto simp: write_dhcp_u32_array_def Let_def)
      ultimately show ?thesis using True len by auto
    next
      case False
      then show ?thesis using safe pos z s len by (simp add: write_dhcp_u32_array_def Let_def)
    qed
  qed
qed

section \<open>Search domains\<close>

definition enc_label :: "cstr \<Rightarrow> byte list" where
  "enc_label l = of_nat (length l) # l"

definition enc_domain :: "cstr \<Rightarrow> byte list" where
  "enc_domain s = concat (map enc_label (split_at DOT s)) @ [NUL]"

definition enc_domains :: "cstr list \<Rightarrow> byte list" where
  "enc_domains ss = concat (map enc_domain ss)"

lemma length_labels: "length (concat (map enc_label (split_at c s))) = length s + 1"
proof (induction s)
  case (Cons x xs)
  obtain f fs where "split_at c xs = f # fs" by (cases "split_at c xs") auto
  then show ?case using Cons by (simp add: enc_label_def)
qed (simp add: enc_label_def)

lemma length_enc_domain [simp]: "length (enc_domain s) = length s + 2"
  by (simp add: enc_domain_def length_labels)

lemma enc_domains_Cons [simp]: "enc_domains (s # ss) = enc_domain s @ enc_domains ss"
  and enc_domains_Nil [simp]: "enc_domains [] = []"
  by (simp_all add: enc_domains_def)

lemma split_at_prefix:
  "c \<notin> set p \<Longrightarrow> split_at c (p @ s) = (p @ hd (split_at c s)) # tl (split_at c s)"
  by (induction p) (auto simp: split_at_ne)

text \<open>\<open>p\<close> is the part of the current label that has been read.\<close>

lemma take_next: "i < length xs \<Longrightarrow> take (Suc i) (xs[i := x]) = take i xs @ [x]"
  by (simp add: take_Suc_conv_app_nth)

lemma label_loop_writes:
  "DOT \<notin> set p \<Longrightarrow> len = pos + 1 + length p \<Longrightarrow> drop (pos + 1) (take len tmp) = p \<Longrightarrow> len + length s \<le> length tmp \<Longrightarrow>
     \<exists>tmp'. label_loop s tmp pos len = Inr (tmp', len + length s) \<and> length tmp' = length tmp \<and>
       take (len + length s) tmp' = take pos tmp @ concat (map enc_label (split_at DOT (p @ s)))"
proof (induction s arbitrary: tmp pos len p)
  case Nil
  let ?t = "tmp[pos := of_nat (length p)]"
  have "label_loop [] tmp pos len = Inr (?t, len)" using Nil(2,4) by (simp add: arr_set_in)
  moreover have "take len ?t = take pos tmp @ of_nat (length p) # p"
  proof -
    have "take len ?t = (take len tmp)[pos := of_nat (length p)]" by (simp add: take_update_swap)
    also have "\<dots> = take pos (take len tmp) @ of_nat (length p) # drop (Suc pos) (take len tmp)"
      using Nil(2,4) by (intro upd_conv_take_nth_drop) simp
    finally show ?thesis using Nil(2,3) by simp
  qed
  moreover have "split_at DOT p = [p]" using split_at_prefix [OF Nil(1), of "[]"] by simp
  ultimately show ?case by (simp add: enc_label_def)
next
  case (Cons c s)
  show ?case
  proof (cases "c = DOT")
    case False
    let ?t = "tmp[len := c]"
    have "drop (pos + 1) (take (len + 1) ?t) = p @ [c]"
      using Cons.prems(2-4) by (simp add: take_next)
    from Cons.IH [OF _ _ this] Cons.prems False obtain t' where
      t': "label_loop s ?t pos (len + 1) = Inr (t', len + 1 + length s)" "length t' = length tmp"
        "take (len + 1 + length s) t' = take pos ?t @ concat (map enc_label (split_at DOT ((p @ [c]) @ s)))"
      by auto
    have "label_loop (c # s) tmp pos len = label_loop s ?t pos (len + 1)" using Cons.prems(4) False by (simp add: arr_set_in)
    then show ?thesis using t' Cons.prems(2) by simp
  next
    case True
    let ?t = "tmp[pos := of_nat (length p)]" and ?u = "tmp[pos := of_nat (length p), len := c]"
    have "drop (len + 1) (take (len + 1) ?u) = []" by simp
    from Cons.IH [OF _ _ this] Cons.prems obtain t' where
      t': "label_loop s ?u len (len + 1) = Inr (t', len + 1 + length s)" "length t' = length tmp"
        "take (len + 1 + length s) t' = take len ?u @ concat (map enc_label (split_at DOT s))"
      by auto
    have "label_loop (c # s) tmp pos len = label_loop s ?u len (len + 1)"
      using Cons.prems(2,4) True by (simp add: arr_set_in)
    moreover have "take len ?u = take pos tmp @ of_nat (length p) # p"
    proof -
      have "take len ?u = take len ?t" by (rule take_update_cancel) simp
      also have "\<dots> = (take len tmp)[pos := of_nat (length p)]" by (simp add: take_update_swap)
      also have "\<dots> = take pos (take len tmp) @ of_nat (length p) # drop (Suc pos) (take len tmp)"
        using Cons.prems(2,4) by (intro upd_conv_take_nth_drop) simp
      finally show ?thesis using Cons.prems(2,3) by simp
    qed
    moreover have "split_at DOT (p @ c # s) = p # split_at DOT s"
      using split_at_prefix [OF Cons.prems(1), of "c # s"] True by simp
    ultimately show ?thesis using t' by (simp add: enc_label_def [of p])
  qed
qed

text \<open>The array overflows at a domain that the check lets through with one byte too many.\<close>

fun search_overflows :: "cstr list \<Rightarrow> nat \<Rightarrow> bool" where
  "search_overflows [] n = False"
| "search_overflows (s # ss) n =
     (length s + n + 1 \<le> 256 \<and> (length s + n + 1 = 256 \<or> search_overflows ss (n + length s + 2)))"

lemma search_loop_result:
  "length tmp = 256 \<Longrightarrow> n \<le> 256 \<Longrightarrow>
     (if search_overflows ss n then search_loop ss tmp n = Inl MemFault
      else if n + length (enc_domains ss) \<le> 256
      then \<exists>tmp'. search_loop ss tmp n = Inr (Some (tmp', n + length (enc_domains ss))) \<and>
             take (n + length (enc_domains ss)) tmp' = take n tmp @ enc_domains ss
      else search_loop ss tmp n = Inr None)"
proof (induction ss arbitrary: tmp n)
  case (Cons s ss)
  show ?case
  proof (cases "length s + n + 1 \<le> 256")
    case False
    then show ?thesis by simp
  next
    case True
    have d: "drop (n + 1) (take (n + 1) tmp) = []" by simp
    obtain t where t: "label_loop s tmp n (n + 1) = Inr (t, n + 1 + length s)" "length t = length tmp"
        "take (n + 1 + length s) t = take n tmp @ concat (map enc_label (split_at DOT s))"
      using label_loop_writes [OF _ _ d, of s] True Cons.prems(1) by auto
    show ?thesis
    proof (cases "length s + n + 1 = 256")
      case full: True
      then show ?thesis using t Cons.prems(1) by (simp add: arr_set_def)
    next
      case False
      let ?u = "t[n + 1 + length s := NUL]" and ?n = "n + length s + 2"
      have step: "search_loop (s # ss) tmp n = search_loop ss ?u ?n"
        using t True False Cons.prems(1) by (simp add: arr_set_in)
      have "take ?n ?u = take (n + 1 + length s) t @ [NUL]"
        using take_next [of "n + 1 + length s" t NUL] t(2) True False Cons.prems(1) by simp
      then have tk: "take ?n ?u = take n tmp @ enc_domain s" using t(3) by (simp add: enc_domain_def)
      have "length ?u = 256" "?n \<le> 256" using t(2) Cons.prems(1) True False by simp_all
      note IH = Cons.IH [OF this]
      have o: "search_overflows (s # ss) n = search_overflows ss ?n" using True False by simp
      have l: "n + length (enc_domains (s # ss)) = ?n + length (enc_domains ss)" by simp
      show ?thesis using IH unfolding step o l tk by (simp only: enc_domains_Cons append_assoc)
    qed
  qed
qed simp

lemma search_overflows_iff:
  "n \<le> 256 \<Longrightarrow> search_overflows ss n \<longleftrightarrow> (\<exists>k<length ss. n + length (enc_domains (take (Suc k) ss)) = 257)"
proof (induction ss arbitrary: n)
  case (Cons s ss)
  have ex: "(\<exists>k<length (s # ss). P k) \<longleftrightarrow> P 0 \<or> (\<exists>k<length ss. P (Suc k))" for P
    by (auto simp: less_Suc_eq_0_disj)
  show ?case
  proof (cases "n + length s + 2 \<le> 256")
    case True
    then show ?thesis using Cons.IH [of "n + length s + 2"] unfolding ex by (auto simp: add.assoc)
  next
    case False
    have "257 < n + length (enc_domains (take (Suc (Suc k)) (s # ss)))" if "k < length ss" for k
      using False that by (cases ss) auto
    then show ?thesis using False unfolding ex by (auto simp del: take_Suc_Cons simp: less_irrefl) auto
  qed
qed simp

lemma emits_search:
  assumes "\<not> search_overflows ss 0" and "length tmp = 256"
  shows "emits (\<lambda>m buf. write_dhcp_search_str m buf t ss tmp) (length (enc_domains ss) \<le> 255) (opt_bytes t (enc_domains ss))"
  unfolding emits_def
proof (intro allI impI)
  fix m buf
  assume i: "buf_inv m buf"
  let ?d = "write_dhcp_search_str m buf t ss tmp" and ?e = "enc_domains ss"
  have safe: "buf_safe buf (2 + int (length ?e)) \<longleftrightarrow> int (length (opt_bytes t ?e)) \<le> left buf"
    using safe_left [OF i, of "2 + int (length ?e)"] by (simp add: opt_bytes_def)
  show "if length ?e \<le> 255 \<and> int (length (opt_bytes t ?e)) \<le> left buf
        then \<exists>buf' m'. ?d = Inr (False, buf', m') \<and> appended m buf (opt_bytes t ?e) buf' m' else ?d = Inr (True, buf, m)"
  proof (cases "length ?e \<le> 256")
    case False
    then show ?thesis using search_loop_result [OF assms(2), of 0 ss] assms(1) by (simp add: write_dhcp_search_str_def)
  next
    case True
    then obtain r where r: "search_loop ss tmp 0 = Inr (Some (r, length ?e))" "take (length ?e) r = ?e"
      using search_loop_result [OF assms(2), of 0 ss] assms(1) by auto
    show ?thesis
    proof (cases "length ?e \<le> 255 \<and> int (length (opt_bytes t ?e)) \<le> left buf")
      case ok: True
      then have "2 \<le> left buf" by (simp add: opt_bytes_def)
      from wr_head [OF i this] obtain b1 m1 b2 m2 where
        1: "wr (buf_write_u8 m buf t) = Inr (b1, m1)" "wr (buf_write_u8 m1 b1 (int (length ?e))) = Inr (b2, m2)"
          "appended m buf [word_of_int t, word_of_int (int (length ?e))] b2 m2" by blast
      have "int (length ?e) \<le> left b2" using appended_left [OF 1(3)] ok by (simp add: opt_bytes_def)
      then obtain b3 m3 where 2: "wr (buf_write_val m2 b2 ?e) = Inr (b3, m3)" "appended m2 b2 ?e b3 m3"
        using wr_fits [OF appended_inv [OF 1(3)]] by blast
      have "appended m buf (opt_bytes t ?e) b3 m3" using appended_trans [OF 1(3) 2(2)] by (simp add: opt_bytes_def)
      moreover have "?d = Inr (False, b3, m3)" using ok safe r 1(1,2) 2(1) by (simp add: write_dhcp_search_str_def)
      ultimately show ?thesis using ok by auto
    next
      case False
      then show ?thesis using safe r by (auto simp: write_dhcp_search_str_def)
    qed
  qed
qed

section \<open>Reading the options back\<close>

function parse_options :: "byte list \<Rightarrow> (byte \<times> byte list) list option" where
  "parse_options [] = Some []"
| "parse_options [t] = None"
| "parse_options (t # n # rest) =
     (if unat n \<le> length rest
      then map_option (\<lambda>os. (t, take (unat n) rest) # os) (parse_options (drop (unat n) rest)) else None)"
  by pat_completeness auto

termination parse_options
  by (relation "measure length") auto

text \<open>One domain name: its labels up to the empty one, and the bytes behind it.\<close>

function parse_domain :: "byte list \<Rightarrow> (cstr list \<times> byte list) option" where
  "parse_domain [] = None"
| "parse_domain (n # rest) =
     (if n = 0 then Some ([], rest)
      else if unat n \<le> 63 \<and> unat n \<le> length rest
      then map_option (\<lambda>(ls, r). (take (unat n) rest # ls, r)) (parse_domain (drop (unat n) rest)) else None)"
  by pat_completeness auto

termination parse_domain
  by (relation "measure length") auto

fun join_labels :: "cstr list \<Rightarrow> cstr" where
  "join_labels [] = []"
| "join_labels [l] = l"
| "join_labels (l # ls) = l @ DOT # join_labels ls"

fun parse_domains :: "nat \<Rightarrow> byte list \<Rightarrow> cstr list option" where
  "parse_domains fuel [] = Some []"
| "parse_domains 0 bs = None"
| "parse_domains (Suc fuel) bs =
     Option.bind (parse_domain bs) (\<lambda>(ls, rest). map_option (\<lambda>ds. join_labels ls # ds) (parse_domains fuel rest))"

definition label_ok :: "cstr \<Rightarrow> bool" where
  "label_ok l \<longleftrightarrow> 1 \<le> length l \<and> length l \<le> 63"

definition domain_ok :: "cstr \<Rightarrow> bool" where
  "domain_ok s \<longleftrightarrow> list_all label_ok (split_at DOT s)"

lemma join_split: "join_labels (split_at DOT s) = s"
proof (induction s)
  case (Cons x xs)
  obtain f fs where f: "split_at DOT xs = f # fs" by (cases "split_at DOT xs") auto
  then show ?case using Cons by (cases fs) auto
qed simp

lemma parse_label:
  assumes "label_ok l"
  shows "parse_domain (enc_label l @ rest) = map_option (\<lambda>(ls, r). (l # ls, r)) (parse_domain rest)"
proof -
  have u: "unat (of_nat (length l) :: byte) = length l" using assms by (simp add: label_ok_def unat_of_nat)
  then have "(of_nat (length l) :: byte) \<noteq> 0" using assms by (auto simp: label_ok_def)
  then show ?thesis using u assms by (simp add: enc_label_def label_ok_def)
qed

lemma parse_enc_labels:
  "list_all label_ok ls \<Longrightarrow> parse_domain (concat (map enc_label ls) @ NUL # rest) = Some (ls, rest)"
  by (induction ls) (simp_all add: parse_label)

lemma parse_enc_domains:
  "list_all domain_ok ss \<Longrightarrow> length ss \<le> fuel \<Longrightarrow> parse_domains fuel (enc_domains ss) = Some ss"
proof (induction ss arbitrary: fuel)
  case (Cons s ss)
  obtain f where f: "fuel = Suc f" using Cons.prems(2) by (cases fuel) auto
  have "parse_domain (enc_domain s @ enc_domains ss) = Some (split_at DOT s, enc_domains ss)"
    using Cons.prems(1) parse_enc_labels [of "split_at DOT s" "enc_domains ss"] by (simp add: enc_domain_def domain_ok_def)
  moreover obtain b bs where "enc_domain s @ enc_domains ss = b # bs" by (cases "enc_domain s @ enc_domains ss") (auto simp: enc_domain_def)
  ultimately show ?case using Cons f by (simp add: join_split)
qed simp

definition options_bytes :: "(int \<times> byte list) list \<Rightarrow> byte list" where
  "options_bytes os = concat (map (\<lambda>(t, d). opt_bytes t d) os)"

lemma parse_options_bytes:
  "list_all (\<lambda>(t, d). opt_ok d) os \<Longrightarrow> parse_options (options_bytes os) = Some (map (\<lambda>(t, d). (word_of_int t, d)) os)"
proof (induction os)
  case (Cons x os)
  obtain t d where x: "x = (t, d)" by (cases x)
  have "unat (word_of_int (int (length d)) :: byte) = length d" using Cons.prems x by (simp add: opt_ok_def unat_of_nat)
  then show ?case using Cons x by (simp add: options_bytes_def opt_bytes_def)
qed (simp add: options_bytes_def)

section \<open>The options that are asked for\<close>

definition addr_option :: "int \<Rightarrow> 32 word list \<Rightarrow> nat \<Rightarrow> (int \<times> byte list) list" where
  "addr_option t as n = (if n = 0 then [] else [(t, addr_bytes (take n as))])"

definition dhcp_head :: "tuntap_options \<Rightarrow> (int \<times> byte list) list" where
  "dhcp_head opts =
     (case to_domain opts of Some s \<Rightarrow> [(15, s)] | None \<Rightarrow> []) @
     (case to_netbios_scope opts of Some s \<Rightarrow> [(47, s)] | None \<Rightarrow> []) @
     (if to_netbios_node_type opts \<noteq> 0 then [(46, [word_of_int (to_netbios_node_type opts)])] else []) @
     addr_option 6 (to_dns opts) (to_dns_len opts) @ addr_option 44 (to_wins opts) (to_wins_len opts) @
     addr_option 42 (to_ntp opts) (to_ntp_len opts) @ addr_option 45 (to_nbdd opts) (to_nbdd_len opts) @
     (if to_domain_search_list opts \<noteq> [] then [(119, enc_domains (to_domain_search_list opts))] else [])"

definition dhcp_options :: "tuntap_options \<Rightarrow> (int \<times> byte list) list" where
  "dhcp_options opts = dhcp_head opts @ (if to_disable_nbt opts then [(43, [1, 4, 0, 0, 0, 2])] else [])"

definition options_wf :: "tuntap_options \<Rightarrow> bool" where
  "options_wf opts \<longleftrightarrow>
     length (to_dns opts) = N_DHCP_ADDR \<and> to_dns_len opts \<le> N_DHCP_ADDR \<and>
     length (to_wins opts) = N_DHCP_ADDR \<and> to_wins_len opts \<le> N_DHCP_ADDR \<and>
     length (to_ntp opts) = N_DHCP_ADDR \<and> to_ntp_len opts \<le> N_DHCP_ADDR \<and>
     length (to_nbdd opts) = N_DHCP_ADDR \<and> to_nbdd_len opts \<le> N_DHCP_ADDR"

text \<open>A writer and what it is to emit: at most one option.\<close>

definition emits_options :: "dhcp_writer \<Rightarrow> (int \<times> byte list) list \<Rightarrow> bool" where
  "emits_options w os \<longleftrightarrow> emits w (list_all (\<lambda>(t, d). opt_ok d) os) (options_bytes os)"

lemma emits_none: "emits_options skip_option []"
  using emits_skip by (simp add: emits_options_def options_bytes_def)

lemma emits_one: "emits w (opt_ok d) (opt_bytes t d) \<Longrightarrow> emits_options w [(t, d)]"
  by (simp add: emits_options_def options_bytes_def)

lemma emits_eq: "emits w ok bs \<Longrightarrow> \<forall>m buf. w' m buf = w m buf \<Longrightarrow> emits w' ok bs"
  by (simp add: emits_def)

text \<open>Several writers in a row: everything is written unless one reported an error.\<close>

lemma writers_emit:
  assumes "list_all2 emits_options ws oss"
  shows "buf_inv m buf \<Longrightarrow>
     \<exists>e buf' m'. dhcp_writers ws err m buf = Inr (e, buf', m') \<and> buf_inv m' buf' \<and>
       (e \<longleftrightarrow> err \<or> \<not> (list_all (\<lambda>(t, d). opt_ok d) (concat oss) \<and> int (length (options_bytes (concat oss))) \<le> left buf)) \<and>
       (\<not> e \<longrightarrow> appended m buf (options_bytes (concat oss)) buf' m') \<and> left buf' \<le> left buf"
  using assms
proof (induction ws oss arbitrary: m buf err rule: list_all2_induct)
  case Nil
  then show ?case using appended_none left_nonneg by (auto simp: options_bytes_def)
next
  case (Cons w ws os oss)
  let ?ok = "list_all (\<lambda>(t, d). opt_ok d) os" and ?bs = "options_bytes os"
  have e: "emits w ?ok ?bs" using Cons.hyps(1) by (simp add: emits_options_def)
  have c: "options_bytes (concat (os # oss)) = ?bs @ options_bytes (concat oss)" by (simp add: options_bytes_def)
  note em = e [unfolded emits_def, rule_format, OF Cons.prems]
  show ?case
  proof (cases "?ok \<and> int (length ?bs) \<le> left buf")
    case True
    then obtain b1 m1 where 1: "w m buf = Inr (False, b1, m1)" "appended m buf ?bs b1 m1"
      using em unfolding if_P [OF True] by blast
    note l = appended_left [OF 1(2)]
    from Cons.IH [OF appended_inv [OF 1(2)], of err] obtain e2 b2 m2 where
      2: "dhcp_writers ws err m1 b1 = Inr (e2, b2, m2)" "buf_inv m2 b2"
        "e2 \<longleftrightarrow> err \<or> \<not> (list_all (\<lambda>(t, d). opt_ok d) (concat oss) \<and> int (length (options_bytes (concat oss))) \<le> left b1)"
        "\<not> e2 \<longrightarrow> appended m1 b1 (options_bytes (concat oss)) b2 m2" "left b2 \<le> left b1"
      by blast
    have r: "dhcp_writers (w # ws) err m buf = Inr (e2, b2, m2)" using 1(1) 2(1) by simp
    have f: "e2 \<longleftrightarrow> err \<or> \<not> (list_all (\<lambda>(t, d). opt_ok d) (concat (os # oss)) \<and>
        int (length (options_bytes (concat (os # oss)))) \<le> left buf)"
      using 2(3) True l unfolding c by auto
    have a: "\<not> e2 \<longrightarrow> appended m buf (options_bytes (concat (os # oss))) b2 m2"
      using 2(4) appended_trans [OF 1(2)] unfolding c by blast
    have "left b2 \<le> left buf" using 2(5) l by simp
    then show ?thesis using r 2(2) f a by blast
  next
    case False
    have 1: "w m buf = Inr (True, buf, m)" using em unfolding if_not_P [OF False] .
    from Cons.IH [OF Cons.prems, of True] obtain e2 b2 m2 where
      2: "dhcp_writers ws True m buf = Inr (e2, b2, m2)" "buf_inv m2 b2" "e2" "left b2 \<le> left buf" by blast
    have r: "dhcp_writers (w # ws) err m buf = Inr (e2, b2, m2)" using 1 2(1) by simp
    have "\<not> (list_all (\<lambda>(t, d). opt_ok d) (concat (os # oss)) \<and> int (length (options_bytes (concat (os # oss)))) \<le> left buf)"
      using False unfolding c by auto
    then show ?thesis using r 2(2-4) by blast
  qed
qed

lemma emits_cong: "(\<And>m buf. w' m buf = w m buf) \<Longrightarrow> emits_options w' os \<longleftrightarrow> emits_options w os"
  by (simp add: emits_options_def emits_def)

lemma emits_addrs:
  assumes "n \<le> length as" and "n \<le> N_DHCP_ADDR"
  shows "emits_options (\<lambda>m buf. write_dhcp_u32_array m buf t as (of_nat n)) (addr_option t as n)"
proof (cases "n = 0")
  case True
  then show ?thesis using emits_u32_array [OF assms, of t] by (simp add: addr_option_def emits_options_def options_bytes_def)
next
  case False
  then have "opt_ok (addr_bytes (take n as))" using assms by (simp add: opt_ok_def N_DHCP_ADDR_def)
  then show ?thesis using emits_u32_array [OF assms, of t] False by (simp add: addr_option_def emits_options_def options_bytes_def)
qed

lemma emits_opt_str:
  "emits_options (\<lambda>m buf. case x of Some s \<Rightarrow> write_dhcp_str m buf t s | None \<Rightarrow> skip_option m buf)
     (case x of Some s \<Rightarrow> [(t, s)] | None \<Rightarrow> [])"
proof (cases x)
  case None
  show ?thesis unfolding None using emits_none by simp
qed (simp add: emits_one emits_str)

lemma emits_node_type:
  "emits_options (\<lambda>m buf. if x \<noteq> 0 then write_dhcp_u8 m buf t x else skip_option m buf)
     (if x \<noteq> 0 then [(t, [word_of_int x])] else [])"
proof (cases "x = 0")
  case True
  then show ?thesis using emits_none by (simp cong: emits_cong)
next
  case False
  have "opt_ok [word_of_int x]" by (simp add: opt_ok_def)
  then show ?thesis using emits_u8 [of t x] False by (simp add: emits_options_def options_bytes_def)
qed

lemma emits_search_list:
  assumes "\<not> search_overflows ss 0" and "length tmp = 256"
  shows "emits_options (\<lambda>m buf. if ss \<noteq> [] then write_dhcp_search_str m buf t ss tmp else skip_option m buf)
     (if ss \<noteq> [] then [(t, enc_domains ss)] else [])"
proof (cases "ss = []")
  case True
  then show ?thesis using emits_none by (simp cong: emits_cong)
next
  case False
  have "1 \<le> length (enc_domains ss)" using False by (cases ss) auto
  then have "opt_ok (enc_domains ss) \<longleftrightarrow> length (enc_domains ss) \<le> 255" by (simp add: opt_ok_def)
  then show ?thesis using emits_search [OF assms, of t] False by (simp add: emits_one)
qed

lemma wr_nbt:
  assumes "buf_inv m buf" and "8 \<le> left buf"
  shows "\<exists>b1 m1 b2 m2 b3 m3 b4 m4 b5 m5. wr (buf_write_u8 m buf 43) = Inr (b1, m1) \<and> wr (buf_write_u8 m1 b1 6) = Inr (b2, m2) \<and>
     wr (buf_write_u8 m2 b2 1) = Inr (b3, m3) \<and> wr (buf_write_u8 m3 b3 4) = Inr (b4, m4) \<and>
     wr (buf_write_u32 m4 b4 2) = Inr (b5, m5) \<and> appended m buf (opt_bytes 43 [1, 4, 0, 0, 0, 2]) b5 m5"
proof -
  have "2 \<le> left buf" using assms(2) by simp
  from wr_head [OF assms(1) this, of 43 6] obtain b1 m1 b2 m2 where
    1: "wr (buf_write_u8 m buf 43) = Inr (b1, m1)" "wr (buf_write_u8 m1 b1 6) = Inr (b2, m2)"
      "appended m buf [word_of_int 43, word_of_int 6] b2 m2" by blast
  have "2 \<le> left b2" using appended_left [OF 1(3)] assms(2) by simp
  from wr_head [OF appended_inv [OF 1(3)] this, of 1 4] obtain b3 m3 b4 m4 where
    2: "wr (buf_write_u8 m2 b2 1) = Inr (b3, m3)" "wr (buf_write_u8 m3 b3 4) = Inr (b4, m4)"
      "appended m2 b2 [word_of_int 1, word_of_int 4] b4 m4" by blast
  have "4 \<le> left b4" using appended_left [OF 2(3)] appended_left [OF 1(3)] assms(2) by simp
  from wr_u32 [OF appended_inv [OF 2(3)] this, of 2] obtain b5 m5 where
    3: "wr (buf_write_u32 m4 b4 2) = Inr (b5, m5)" "appended m4 b4 (be32 (word_of_int 2)) b5 m5" by blast
  have "be32 (word_of_int 2) = [0, 0, 0, 2]" by code_simp
  then have "appended m buf (opt_bytes 43 [1, 4, 0, 0, 0, 2]) b5 m5"
    using appended_trans [OF 1(3) appended_trans [OF 2(3) 3(2)]] by (simp add: opt_bytes_def)
  then show ?thesis using 1(1,2) 2(1,2) 3(1) by blast
qed

lemma build_dhcp_options:
  assumes "buf_inv m buf" and "options_wf opts" and "length tmp = 256"
    and "\<not> search_overflows (to_domain_search_list opts) 0"
  shows "\<exists>ok buf' m'. build_dhcp_options_string m buf opts tmp = Inr (ok, buf', m') \<and> buf_inv m' buf' \<and>
     (ok \<longleftrightarrow> list_all (\<lambda>(t, d). opt_ok d) (dhcp_options opts) \<and> int (length (options_bytes (dhcp_options opts))) \<le> left buf) \<and>
     (ok \<longrightarrow> appended m buf (options_bytes (dhcp_options opts)) buf' m')"
proof -
  let ?ws = "[\<lambda>m buf. case to_domain opts of Some s \<Rightarrow> write_dhcp_str m buf 15 s | None \<Rightarrow> skip_option m buf,
         \<lambda>m buf. case to_netbios_scope opts of Some s \<Rightarrow> write_dhcp_str m buf 47 s | None \<Rightarrow> skip_option m buf,
         \<lambda>m buf. if to_netbios_node_type opts \<noteq> 0 then write_dhcp_u8 m buf 46 (to_netbios_node_type opts)
                 else skip_option m buf,
         \<lambda>m buf. write_dhcp_u32_array m buf 6 (to_dns opts) (of_nat (to_dns_len opts)),
         \<lambda>m buf. write_dhcp_u32_array m buf 44 (to_wins opts) (of_nat (to_wins_len opts)),
         \<lambda>m buf. write_dhcp_u32_array m buf 42 (to_ntp opts) (of_nat (to_ntp_len opts)),
         \<lambda>m buf. write_dhcp_u32_array m buf 45 (to_nbdd opts) (of_nat (to_nbdd_len opts)),
         \<lambda>m buf. if to_domain_search_list opts \<noteq> []
                 then write_dhcp_search_str m buf 119 (to_domain_search_list opts) tmp
                 else skip_option m buf]"
  let ?os = "[case to_domain opts of Some s \<Rightarrow> [(15, s)] | None \<Rightarrow> [],
     case to_netbios_scope opts of Some s \<Rightarrow> [(47, s)] | None \<Rightarrow> [],
     if to_netbios_node_type opts \<noteq> 0 then [(46, [word_of_int (to_netbios_node_type opts)])] else [],
     addr_option 6 (to_dns opts) (to_dns_len opts), addr_option 44 (to_wins opts) (to_wins_len opts),
     addr_option 42 (to_ntp opts) (to_ntp_len opts), addr_option 45 (to_nbdd opts) (to_nbdd_len opts),
     if to_domain_search_list opts \<noteq> [] then [(119, enc_domains (to_domain_search_list opts))] else []]"
  have lens: "to_dns_len opts \<le> length (to_dns opts)" "to_dns_len opts \<le> N_DHCP_ADDR"
    "to_wins_len opts \<le> length (to_wins opts)" "to_wins_len opts \<le> N_DHCP_ADDR"
    "to_ntp_len opts \<le> length (to_ntp opts)" "to_ntp_len opts \<le> N_DHCP_ADDR"
    "to_nbdd_len opts \<le> length (to_nbdd opts)" "to_nbdd_len opts \<le> N_DHCP_ADDR"
    using assms(2) by (simp_all add: options_wf_def)
  have all: "list_all2 emits_options ?ws ?os"
    by (intro list_all2_Cons [THEN iffD2] conjI emits_opt_str emits_node_type emits_addrs lens
        emits_search_list [OF assms(4,3)]) simp_all
  have h: "concat ?os = dhcp_head opts" by (simp only: dhcp_head_def concat.simps append_Nil2 append_assoc)
  obtain e b1 m1 where 1: "dhcp_writers ?ws False m buf = Inr (e, b1, m1)" "buf_inv m1 b1"
      "e \<longleftrightarrow> \<not> (list_all (\<lambda>(t, d). opt_ok d) (dhcp_head opts) \<and> int (length (options_bytes (dhcp_head opts))) \<le> left buf)"
      "\<not> e \<longrightarrow> appended m buf (options_bytes (dhcp_head opts)) b1 m1" "left b1 \<le> left buf"
    using writers_emit [OF all assms(1), of False] unfolding h by auto
  have o: "opt_ok [1, 4, 0, 0, 0, 2]" by (simp add: opt_ok_def)
  have app: "options_bytes (dhcp_head opts @ [(43, [1, 4, 0, 0, 0, 2])]) = options_bytes (dhcp_head opts) @ opt_bytes 43 [1, 4, 0, 0, 0, 2]"
    by (simp add: options_bytes_def)
  note b = build_dhcp_options_string_def [of m buf opts tmp, unfolded 1(1) bindE_simps prod.case]
  show ?thesis
  proof (cases "to_disable_nbt opts")
    case False
    then show ?thesis using 1 b by (auto simp: dhcp_options_def)
  next
    case True
    have s: "buf_safe b1 8 \<longleftrightarrow> 8 \<le> left b1" using safe_left [OF 1(2), of 8] by simp
    have len: "int (length (options_bytes (dhcp_options opts))) = int (length (options_bytes (dhcp_head opts))) + 8"
      using True by (simp add: dhcp_options_def app opt_bytes_def)
    have lok: "list_all (\<lambda>(t, d). opt_ok d) (dhcp_options opts) = list_all (\<lambda>(t, d). opt_ok d) (dhcp_head opts)"
      using True o by (simp add: dhcp_options_def)
    have l1: "\<not> e \<longrightarrow> left b1 = left buf - int (length (options_bytes (dhcp_head opts)))" using 1(4) appended_left by blast
    show ?thesis
    proof (cases "8 \<le> left b1")
      case False
      then have "build_dhcp_options_string m buf opts tmp = Inr (False, b1, m1)" using b True s by simp
      then show ?thesis using 1(2,3) l1 False unfolding lok len by auto
    next
      case fits: True
      from wr_nbt [OF 1(2) fits] obtain c1 n1 c2 n2 c3 n3 c4 n4 c5 n5 where
        2: "wr (buf_write_u8 m1 b1 43) = Inr (c1, n1)" "wr (buf_write_u8 n1 c1 6) = Inr (c2, n2)"
          "wr (buf_write_u8 n2 c2 1) = Inr (c3, n3)" "wr (buf_write_u8 n3 c3 4) = Inr (c4, n4)"
          "wr (buf_write_u32 n4 c4 2) = Inr (c5, n5)" "appended m1 b1 (opt_bytes 43 [1, 4, 0, 0, 0, 2]) c5 n5" by blast
      have r: "build_dhcp_options_string m buf opts tmp = Inr (\<not> e, c5, n5)" using b True s fits 2(1-5) by simp
      have ok: "\<not> e \<longleftrightarrow> list_all (\<lambda>(t, d). opt_ok d) (dhcp_options opts) \<and>
          int (length (options_bytes (dhcp_options opts))) \<le> left buf"
        unfolding lok len using 1(3) l1 fits by auto
      have "\<not> e \<longrightarrow> appended m buf (options_bytes (dhcp_options opts)) c5 n5"
        using 1(4) appended_trans [OF _ 2(6)] True by (simp add: dhcp_options_def app)
      then show ?thesis using r ok appended_inv [OF 2(6)] by blast
    qed
  qed
qed

text \<open>
  C8: The DHCP option string says exactly what the options ask for. On an empty buffer, with a
  search list that does not overflow the array, build_dhcp_options_string neither faults nor damages
  the buffer; it succeeds if and only if every option has between 1 and 255 bytes and all of them
  together fit; then a parser of DHCP options reads from the buffer the options asked for, in
  order. If every domain of the search list consists of labels of 1 to 63 bytes between its dots, a
  parser of domain names reads from the bytes of the search option exactly these domains; a
  domain with an empty label (two dots in a row, a dot at the end) or a longer one is not covered.
\<close>

theorem dhcp_options_roundtrip:
  assumes "buf_inv m buf" and "content m buf = []" and "options_wf opts" and "length tmp = 256"
    and "\<not> search_overflows (to_domain_search_list opts) 0"
  shows "\<exists>ok buf' m'. build_dhcp_options_string m buf opts tmp = Inr (ok, buf', m') \<and> buf_inv m' buf' \<and>
     (ok \<longleftrightarrow> list_all (\<lambda>(t, d). 1 \<le> length d \<and> length d \<le> 255) (dhcp_options opts) \<and>
              int (length (options_bytes (dhcp_options opts))) \<le> left buf) \<and>
     (ok \<longrightarrow> parse_options (content m' buf') = Some (map (\<lambda>(t, d). (word_of_int t, d)) (dhcp_options opts))) \<and>
     (list_all domain_ok (to_domain_search_list opts) \<longrightarrow>
        parse_domains (length (to_domain_search_list opts)) (enc_domains (to_domain_search_list opts)) =
          Some (to_domain_search_list opts))"
proof -
  obtain ok buf' m' where r: "build_dhcp_options_string m buf opts tmp = Inr (ok, buf', m')" "buf_inv m' buf'"
      "ok \<longleftrightarrow> list_all (\<lambda>(t, d). opt_ok d) (dhcp_options opts) \<and> int (length (options_bytes (dhcp_options opts))) \<le> left buf"
      "ok \<longrightarrow> appended m buf (options_bytes (dhcp_options opts)) buf' m'"
    using build_dhcp_options [OF assms(1,3,4,5)] by blast
  have "parse_options (content m' buf') = Some (map (\<lambda>(t, d). (word_of_int t, d)) (dhcp_options opts))" if ok
  proof -
    have "content m' buf' = options_bytes (dhcp_options opts)" using r(4) that assms(2) by (auto simp: appended_def)
    then show ?thesis using parse_options_bytes r(3) that by metis
  qed
  then show ?thesis
    using r parse_enc_domains [of "to_domain_search_list opts"] unfolding opt_ok_def by blast
qed

definition example_options :: tuntap_options where
  "example_options = \<lparr>to_domain = Some (asc ''ab''), to_netbios_scope = None, to_netbios_node_type = 2,
     to_dns = [1, 2, 3, 4], to_dns_len = 1, to_wins = [0, 0, 0, 0], to_wins_len = 0, to_ntp = [0, 0, 0, 0],
     to_ntp_len = 0, to_nbdd = [0, 0, 0, 0], to_nbdd_len = 0, to_domain_search_list = [asc ''a.bc''],
     to_disable_nbt = True\<rparr>"

theorem dhcp_options_roundtrip_witness:
  "\<exists>buf' m'. build_dhcp_options_string (snd (c_calloc empty_mem 64))
     \<lparr>b_capacity = 64, b_offset = 0, b_len = 0, b_data = Ptr 0 0\<rparr> example_options (replicate 256 0) = Inr (True, buf', m') \<and>
     parse_options (content m' buf') =
       Some [(15, asc ''ab''), (46, [2]), (6, [0, 0, 0, 1]), (119, [1, 97, 2, 98, 99, 0]), (43, [1, 4, 0, 0, 0, 2])]"
proof -
  let ?m = "snd (c_calloc empty_mem 64)" and ?b = "\<lparr>b_capacity = 64, b_offset = 0, b_len = 0, b_data = Ptr 0 0\<rparr> :: buffer"
  have i: "buf_inv ?m ?b" using whole_block_inv [of 64 0 0] by (simp add: BUF_SIZE_MAX_def)
  have e: "content ?m ?b = []" using read_content(2) [OF i] by simp
  have w: "options_wf example_options" by (simp add: options_wf_def example_options_def N_DHCP_ADDR_def)
  have s: "\<not> search_overflows (to_domain_search_list example_options) 0" by (simp add: example_options_def)
  have os: "dhcp_options example_options =
      [(15, asc ''ab''), (46, [2]), (6, [0, 0, 0, 1]), (119, [1, 97, 2, 98, 99, 0]), (43, [1, 4, 0, 0, 0, 2])]"
    by code_simp
  have ok: "list_all (\<lambda>(t, d). 1 \<le> length d \<and> length d \<le> 255) (dhcp_options example_options) \<and>
      int (length (options_bytes (dhcp_options example_options))) \<le> left ?b"
    unfolding os by (simp add: options_bytes_def opt_bytes_def left_def)
  have l: "length (replicate 256 (0 :: byte)) = 256" by simp
  show ?thesis using dhcp_options_roundtrip [OF i e w l s] ok unfolding os list.map prod.case by (auto simp del: asc_simps)
qed

text \<open>
  C9: The search list can overflow its array on the stack. write_dhcp_search_str writes behind the
  end of tmp_buf if and only if some number of domains of the list, from the first on, take
  exactly 257 bytes in encoded form; the check before each domain lets one byte too many through.
\<close>

theorem dhcp_search_overflow:
  assumes "buf_inv m buf" and "length tmp = 256"
  shows "write_dhcp_search_str m buf t ss tmp = Inl MemFault \<longleftrightarrow>
     (\<exists>k<length ss. length (enc_domains (take (Suc k) ss)) = 257)"
proof (cases "search_overflows ss 0")
  case True
  then show ?thesis using search_loop_result [OF assms(2), of 0 ss] search_overflows_iff [of 0 ss]
    by (simp add: write_dhcp_search_str_def)
next
  case False
  have "write_dhcp_search_str m buf t ss tmp \<noteq> Inl MemFault"
    using emits_search [OF False assms(2), of t, unfolded emits_def, rule_format, OF assms(1)]
    by (auto split: if_splits)
  then show ?thesis using False search_overflows_iff [of 0 ss] by simp
qed

theorem dhcp_search_overflow_witness:
  "write_dhcp_search_str (snd (c_calloc empty_mem 64)) \<lparr>b_capacity = 64, b_offset = 0, b_len = 0, b_data = Ptr 0 0\<rparr> 119
     [replicate 255 97] (replicate 256 0) = Inl MemFault"
proof -
  have i: "buf_inv (snd (c_calloc empty_mem 64)) \<lparr>b_capacity = 64, b_offset = 0, b_len = 0, b_data = Ptr 0 0\<rparr>"
    using whole_block_inv [of 64 0 0] by (simp add: BUF_SIZE_MAX_def)
  show ?thesis using dhcp_search_overflow [OF i, of "replicate 256 0" 119 "[replicate 255 97]"] by simp
qed

end
