(* ===== verification/Proto_Hdr.thy ===== *)
theory Proto_Hdr
  imports Buffer_Laws
begin

text \<open>
  Packet headers: \<open>src/Treiber/lib/proto.h\<close>. The device types, the IP version of a packet inside the
  tunnel, and the macros that update an Internet checksum (RFC 1071) when some of the words it
  covers change.
\<close>

unbundle bit_operations_syntax

definition DEV_TYPE_UNDEF :: int where "DEV_TYPE_UNDEF = 0"
definition DEV_TYPE_NULL :: int where "DEV_TYPE_NULL = 1"
definition DEV_TYPE_TUN :: int where "DEV_TYPE_TUN = 2"
definition DEV_TYPE_TAP :: int where "DEV_TYPE_TAP = 3"

definition TOP_UNDEF :: int where "TOP_UNDEF = 0"
definition TOP_NET30 :: int where "TOP_NET30 = 1"
definition TOP_P2P :: int where "TOP_P2P = 2"
definition TOP_SUBNET :: int where "TOP_SUBNET = 3"

section \<open>The IP version of a packet\<close>

definition OPENVPN_IPH_GET_VER :: "byte \<Rightarrow> int" where
  "OPENVPN_IPH_GET_VER v = uint (drop_bit 4 v AND 0x0F)"

definition IPHDR_SIZE :: int where "IPHDR_SIZE = 20"
definition ETHHDR_SIZE :: int where "ETHHDR_SIZE = 14"

definition OPENVPN_ETH_P_IPV4 :: nat where "OPENVPN_ETH_P_IPV4 = 0x0800"
definition OPENVPN_ETH_P_IPV6 :: nat where "OPENVPN_ETH_P_IPV6 = 0x86DD"

text \<open>
  The version and the offset of the IP header (\<open>None\<close>: not set). The protocol field of an Ethernet
  header are its bytes 12 and 13.
\<close>

definition get_tun_ip_ver :: "mem \<Rightarrow> int \<Rightarrow> buffer \<Rightarrow> fault + int \<times> int option" where
  "get_tun_ip_ver m tunnel_type buf =
     (if tunnel_type = DEV_TYPE_TUN
      then if buf_len buf \<ge> IPHDR_SIZE
           then bindE (load m (buf_bptr buf)) (\<lambda>b. Inr (OPENVPN_IPH_GET_VER b, Some 0))
           else Inr (-1, Some 0)
      else if tunnel_type = DEV_TYPE_TAP
      then if buf_len buf \<ge> ETHHDR_SIZE
           then bindE (read_bytes m (ptr_add (buf_bptr buf) 12) 2)
                  (\<lambda>proto. Inr (if from_be proto = OPENVPN_ETH_P_IPV6 then 6
                                else if from_be proto = OPENVPN_ETH_P_IPV4 then 4 else -1, Some ETHHDR_SIZE))
           else Inr (-1, Some ETHHDR_SIZE)
      else Inr (-1, None))"

lemma read_part:
  assumes "buf_inv m b" and "0 \<le> i" and "0 \<le> n" and "i + n \<le> b_len b"
  shows "read_bytes m (ptr_add (buf_bptr b) i) n = Inr (take (nat n) (drop (nat i) (content m b)))"
proof -
  have r: "read_bytes m (buf_bptr b) (b_len b) = Inr (content m b)" using read_content(1) [OF assms(1)] .
  have a: "read_bytes m (ptr_add (buf_bptr b) i) (b_len b - i) = Inr (drop (nat i) (content m b))"
    using read_bytes_split(2) [OF r assms(2)] assms by simp
  then show ?thesis using read_bytes_split(1) [OF a assms(3)] assms by simp
qed

text \<open>The read never leaves the packet, and the answer is that of its header.\<close>

lemma get_tun_ip_ver_reads:
  assumes "buf_inv m buf"
  shows "get_tun_ip_ver m t buf =
    (let c = content m buf; n = length c
     in if t = DEV_TYPE_TUN
        then Inr (if n \<ge> 20 then uint (drop_bit 4 (c ! 0) AND 0x0F) else -1, Some 0)
        else if t = DEV_TYPE_TAP
        then Inr (if n < 14 then -1 else if from_be [c ! 12, c ! 13] = 0x86DD then 6
                  else if from_be [c ! 12, c ! 13] = 0x0800 then 4 else -1, Some 14)
        else Inr (-1, None))"
proof -
  have l: "b_len buf = int (length (content m buf))" using read_content(2) [OF assms] by simp
  have tn: "DEV_TYPE_TAP \<noteq> DEV_TYPE_TUN" by (simp add: DEV_TYPE_TUN_def DEV_TYPE_TAP_def)
  have a: "load m (buf_bptr buf) = Inr (content m buf ! 0)" if l20: "20 \<le> length (content m buf)"
  proof -
    obtain x xs where c: "content m buf = x # xs" using l20 by (cases "content m buf") auto
    show ?thesis using read_part [OF assms, of 0 1] l c by (simp add: load_def)
  qed
  have b: "read_bytes m (ptr_add (buf_bptr buf) 12) 2 = Inr [content m buf ! 12, content m buf ! 13]"
    if "14 \<le> length (content m buf)"
  proof -
    have "take 2 (drop 12 (content m buf)) = [content m buf ! 12, content m buf ! 13]"
      using that by (auto simp: numeral_2_eq_2 take_Suc_conv_app_nth)
    then show ?thesis using read_part [OF assms, of 12 2] l that by simp
  qed
  show ?thesis using l tn a b
    by (auto simp: get_tun_ip_ver_def buf_inv_len [OF assms] Let_def IPHDR_SIZE_def ETHHDR_SIZE_def OPENVPN_IPH_GET_VER_def
        OPENVPN_ETH_P_IPV6_def OPENVPN_ETH_P_IPV4_def not_le)
qed

section \<open>Checksums\<close>

text \<open>\<open>>> 16\<close> and \<open>& 0xffff\<close> of a non-negative \<open>int\<close>.\<close>

definition fold16 :: "int \<Rightarrow> int" where
  "fold16 x = drop_bit 16 x + (x AND 0xffff)"

definition ADD_CHECKSUM_32 :: "int \<Rightarrow> 32 word \<Rightarrow> int" where
  "ADD_CHECKSUM_32 acc u = acc + uint (u AND 0xffff) + uint (drop_bit 16 u)"

definition SUB_CHECKSUM_32 :: "int \<Rightarrow> 32 word \<Rightarrow> int" where
  "SUB_CHECKSUM_32 acc u = acc - uint (u AND 0xffff) - uint (drop_bit 16 u)"

definition ADJUST_CHECKSUM :: "int \<Rightarrow> 16 word \<Rightarrow> 16 word" where
  "ADJUST_CHECKSUM acc cksum =
     (let a = acc + uint cksum
      in if a < 0
         then (let b = fold16 (- a); c = b + drop_bit 16 b in word_of_int (NOT c))
         else (let b = fold16 a; c = b + drop_bit 16 b in word_of_int c))"

lemma fold16_arith: "0 \<le> x \<Longrightarrow> fold16 x = x div 65536 + x mod 65536"
proof -
  have "x AND 0xffff = take_bit 16 x" using take_bit_eq_mask [of 16 x] by (simp add: mask_eq_exp_minus_1)
  then show "fold16 x = x div 65536 + x mod 65536" by (simp add: fold16_def drop_bit_eq_div take_bit_eq_mod)
qed

text \<open>Two folds give the value modulo 65535, in 16 bits.\<close>

lemma fold_twice:
  assumes "0 \<le> x" and "x < 2 ^ 31"
  defines "c \<equiv> fold16 x + drop_bit 16 (fold16 x)"
  shows "0 \<le> c mod 65536" and "c mod 65536 \<le> 65535" and "(c mod 65536) mod 65535 = x mod 65535"
proof -
  let ?b = "fold16 x"
  have b: "?b = x div 65536 + x mod 65536" by (rule fold16_arith [OF assms(1)])
  have bb: "0 \<le> ?b" "?b < 65536 + 32768" using assms(1,2) unfolding b by simp_all
  have x: "x = ?b + 65535 * (x div 65536)" unfolding b by (simp add: algebra_simps)
  have m: "?b mod 65535 = x mod 65535" by (subst (2) x) (rule mod_mult_self2 [symmetric])
  have c: "c mod 65536 = (if ?b < 65536 then ?b else ?b - 65535)"
  proof (cases "?b < 65536")
    case True
    then show ?thesis using bb(1) by (simp add: c_def drop_bit_eq_div)
  next
    case False
    then have "?b div 65536 = 1" using bb(2) by simp
    then have "c = ?b + 1" by (simp add: c_def drop_bit_eq_div)
    moreover have "(?b + 1) mod 65536 = ?b + 1 - 65536" using False bb(2) by (subst mod_pos_geq) simp_all
    ultimately show ?thesis using False by simp
  qed
  show "0 \<le> c mod 65536" "c mod 65536 \<le> 65535" by simp_all
  have "(?b - 65535) mod 65535 = ?b mod 65535" by simp
  then show "(c mod 65536) mod 65535 = x mod 65535" using c m by simp
qed

lemma not_mod: "(NOT c) mod 65536 = 65535 - c mod 65536" for c :: int
proof -
  obtain q r where c: "c = 65536 * q + r" "r = c mod 65536" by (metis mult_div_mod_eq)
  have "- c - 1 = (65535 - r) + 65536 * (- q - 1)" by (simp add: c(1) algebra_simps)
  then have "(- c - 1) mod 65536 = (65535 - r) mod 65536" by (metis mod_mult_self2)
  then show ?thesis using c(2) by (simp add: not_int_def mod_pos_pos_trivial)
qed

lemma adjust_checksum_value:
  assumes "\<bar>acc + uint cksum\<bar> < 2 ^ 31"
  shows "uint (ADJUST_CHECKSUM acc cksum) mod 65535 = (acc + uint cksum) mod 65535"
proof -
  let ?a = "acc + uint cksum"
  have w: "uint (word_of_int c :: 16 word) = c mod 65536" for c :: int by (simp add: uint_word_of_int)
  show ?thesis
  proof (cases "?a < 0")
    case False
    then have "uint (ADJUST_CHECKSUM acc cksum) = (fold16 ?a + drop_bit 16 (fold16 ?a)) mod 65536"
      by (simp only: ADJUST_CHECKSUM_def Let_def w if_False)
    then show ?thesis using fold_twice(3) [of ?a] assms False by simp
  next
    case True
    let ?c = "fold16 (- ?a) + drop_bit 16 (fold16 (- ?a))"
    have f: "(?c mod 65536) mod 65535 = (- ?a) mod 65535" using fold_twice(3) [of "- ?a"] True assms by simp
    have "(NOT ?c) mod 65536 = 65535 - ?c mod 65536" by (rule not_mod)
    then have "uint (ADJUST_CHECKSUM acc cksum) = 65535 - ?c mod 65536"
      using True by (simp only: ADJUST_CHECKSUM_def Let_def w if_True)
    moreover have "(65535 - ?c mod 65536) mod 65535 = ?a mod 65535"
    proof -
      have "(65535 - ?c mod 65536) mod 65535 = (65535 - (?c mod 65536) mod 65535) mod 65535" by (rule mod_diff_right_eq [symmetric])
      also have "\<dots> = (65535 - (- ?a) mod 65535) mod 65535" by (simp only: f)
      also have "\<dots> = (65535 - (- ?a)) mod 65535" by (rule mod_diff_right_eq)
      finally show ?thesis by (simp add: add.commute)
    qed
    ultimately show ?thesis by simp
  qed
qed

text \<open>
  A checksum is right when the one's complement sum of the words it covers and of itself is zero,
  which is the sum modulo 65535.
\<close>

definition cksum_ok :: "16 word list \<Rightarrow> 16 word \<Rightarrow> bool" where
  "cksum_ok ws ck \<longleftrightarrow> (sum_list (map uint ws) + uint ck) mod 65535 = 0"

definition halves :: "32 word \<Rightarrow> 16 word list" where
  "halves a = [ucast (drop_bit 16 a), ucast a]"

text \<open>A packet as the words in front of each changed 32-bit field, its old and its new value.\<close>

definition old_words :: "(16 word list \<times> 32 word \<times> 32 word) list \<Rightarrow> 16 word list" where
  "old_words cs = concat (map (\<lambda>(p, a, b). p @ halves a) cs)"

definition new_words :: "(16 word list \<times> 32 word \<times> 32 word) list \<Rightarrow> 16 word list" where
  "new_words cs = concat (map (\<lambda>(p, a, b). p @ halves b) cs)"

fun checksum_change :: "int \<Rightarrow> (16 word list \<times> 32 word \<times> 32 word) list \<Rightarrow> int" where
  "checksum_change acc [] = acc"
| "checksum_change acc ((p, a, b) # cs) = checksum_change (SUB_CHECKSUM_32 (ADD_CHECKSUM_32 acc a) b) cs"

lemma halves_sum: "uint (a AND 0xffff) + uint (drop_bit 16 a) = sum_list (map uint (halves a))" for a :: "32 word"
proof -
  have "uint (a AND 0xffff) = uint a AND 0xffff" by (simp add: uint_and)
  also have "\<dots> = take_bit 16 (uint a)" using take_bit_eq_mask [of 16 "uint a"] by (simp add: mask_eq_exp_minus_1)
  also have "\<dots> = uint (ucast a :: 16 word)" by (simp add: unsigned_ucast_eq)
  finally have "uint (a AND 0xffff) = uint (ucast a :: 16 word)" .
  moreover have "uint (ucast (drop_bit 16 a) :: 16 word) = uint (drop_bit 16 a)"
  proof -
    have "uint (drop_bit 16 a) = uint a div 65536" by (simp add: drop_bit_eq_div uint_div_distrib)
    moreover have "uint a < 65536 * 65536" using uint_lt2p [of a] by simp
    ultimately have "uint (drop_bit 16 a) < 65536" by (simp add: div_less_iff_less_mult)
    then show ?thesis by (simp add: unsigned_ucast_eq take_bit_int_eq_self)
  qed
  ultimately show ?thesis by (simp add: halves_def)
qed

lemma checksum_change_sum:
  "checksum_change acc cs = acc + sum_list (map uint (old_words cs)) - sum_list (map uint (new_words cs))"
proof (induction cs arbitrary: acc)
  case (Cons c cs)
  obtain p a b where c: "c = (p, a, b)" by (cases c)
  show ?case using halves_sum [of a] halves_sum [of b]
    by (simp add: c Cons.IH old_words_def new_words_def ADD_CHECKSUM_32_def SUB_CHECKSUM_32_def)
qed (simp add: old_words_def new_words_def)

lemma checksum_change_bound:
  "\<bar>checksum_change 0 cs\<bar> \<le> int (length cs) * 131070"
proof -
  have h: "0 \<le> sum_list (map uint (halves a)) \<and> sum_list (map uint (halves a)) \<le> 131070" for a :: "32 word"
    using uint_lt2p [of "ucast a :: 16 word"] uint_lt2p [of "ucast (drop_bit 16 a) :: 16 word"] by (simp add: halves_def)
  have "\<bar>sum_list (map uint (old_words cs)) - sum_list (map uint (new_words cs))\<bar> \<le> int (length cs) * 131070"
  proof (induction cs)
    case (Cons c cs)
    obtain p a b where c: "c = (p, a, b)" by (cases c)
    have "sum_list (map uint (old_words (c # cs))) - sum_list (map uint (new_words (c # cs))) =
        (sum_list (map uint (halves a)) - sum_list (map uint (halves b))) +
        (sum_list (map uint (old_words cs)) - sum_list (map uint (new_words cs)))"
      by (simp add: c old_words_def new_words_def)
    moreover have "int (length (c # cs)) * 131070 = 131070 + int (length cs) * 131070" by simp
    ultimately show ?case using Cons h [of a] h [of b] by linarith
  qed (simp add: old_words_def new_words_def)
  then show ?thesis by (simp add: checksum_change_sum)
qed

text \<open>
  C10: Updating a checksum is as good as computing it anew. If a checksum is right for a packet,
  and up to 16,000 of the 32-bit fields it covers (addresses, sequence numbers) get new values, then the
  checksum that ADJUST_CHECKSUM makes from the differences collected with ADD_CHECKSUM_32 and
  SUB_CHECKSUM_32 is right for the new packet.
\<close>

theorem checksum_update_valid:
  assumes "cksum_ok (old_words cs @ post) ck" and "length cs \<le> 16000"
  shows "cksum_ok (new_words cs @ post) (ADJUST_CHECKSUM (checksum_change 0 cs) ck)"
proof -
  let ?acc = "checksum_change 0 cs" and ?o = "sum_list (map uint (old_words cs))"
    and ?n = "sum_list (map uint (new_words cs))" and ?p = "sum_list (map uint post)"
  have "\<bar>?acc\<bar> \<le> 16000 * 131070" using checksum_change_bound [of cs] assms(2) by simp
  moreover have "0 \<le> uint ck" "uint ck < 65536" using uint_lt2p [of ck] by simp_all
  moreover have "\<bar>a + u\<bar> < 2 ^ 31" if "\<bar>a\<bar> \<le> 16000 * 131070" "0 \<le> u" "u < 65536" for a u :: int
    using that by simp
  ultimately have "\<bar>?acc + uint ck\<bar> < 2 ^ 31" by blast
  then have v: "uint (ADJUST_CHECKSUM ?acc ck) mod 65535 = (?acc + uint ck) mod 65535" by (rule adjust_checksum_value)
  have "(?n + ?p + uint (ADJUST_CHECKSUM ?acc ck)) mod 65535 = (?n + ?p + (?acc + uint ck)) mod 65535"
    using v by (metis mod_add_right_eq)
  also have "?n + ?p + (?acc + uint ck) = ?o + ?p + uint ck" by (simp add: checksum_change_sum)
  finally show ?thesis using assms(1) by (simp add: cksum_ok_def)
qed

theorem checksum_update_valid_witness:
  "cksum_ok [0x4500, 0xC0A8, 0x0102] 0xF954 \<and>
   cksum_ok [0x4500, 0x0A07, 0x0005] (ADJUST_CHECKSUM (checksum_change 0 [([0x4500], 0xC0A80102, 0x0A070005)]) 0xF954)"
proof -
  have o: "old_words [([0x4500], 0xC0A80102, 0x0A070005)] = [0x4500, 0xC0A8, 0x0102]"
    and n: "new_words [([0x4500], 0xC0A80102, 0x0A070005)] = [0x4500, 0x0A07, 0x0005]" by code_simp+
  have k: "cksum_ok [0x4500, 0xC0A8, 0x0102] 0xF954" by code_simp
  show ?thesis using checksum_update_valid [of "[([0x4500], 0xC0A80102, 0x0A070005)]" "[]" "0xF954"] k by (simp add: o n)
qed

end
