(* ===== verification/Tun_Config.thy ===== *)
theory Tun_Config
  imports Tun_Dhcp Proto_Hdr
begin

text \<open>
  The configuration of a TUN/TAP device: the checks and conversions of \<open>src/Treiber/lib/tun.c\<close>.
  Addresses are 32-bit words in host order. Resolving a name or an address text is a call into
  the operating system and an argument; warnings are the list of what is wrong.
\<close>

section \<open>Device types\<close>

definition strncmp_eq :: "cstr \<Rightarrow> cstr \<Rightarrow> bool" where
  "strncmp_eq s t \<longleftrightarrow> take (length t) s = t"

definition is_dev_type :: "cstr option \<Rightarrow> cstr option \<Rightarrow> cstr option \<Rightarrow> fault + bool" where
  "is_dev_type dev dev_type match_type =
     (case match_type of None \<Rightarrow> Inl AssertFail
      | Some t \<Rightarrow> Inr (case dev of None \<Rightarrow> False
                      | Some d \<Rightarrow> (case dev_type of Some s \<Rightarrow> s = t | None \<Rightarrow> strncmp_eq d t)))"

definition dev_type_enum :: "cstr option \<Rightarrow> cstr option \<Rightarrow> fault + int" where
  "dev_type_enum dev dev_type =
     bindE (is_dev_type dev dev_type (Some (asc ''tun'')))
       (\<lambda>tun. if tun then Inr DEV_TYPE_TUN
              else bindE (is_dev_type dev dev_type (Some (asc ''tap'')))
                (\<lambda>tap. if tap then Inr DEV_TYPE_TAP
                       else bindE (is_dev_type dev dev_type (Some (asc ''null'')))
                         (\<lambda>null. Inr (if null then DEV_TYPE_NULL else DEV_TYPE_UNDEF))))"

definition dev_type_string :: "cstr option \<Rightarrow> cstr option \<Rightarrow> fault + cstr" where
  "dev_type_string dev dev_type =
     bindE (dev_type_enum dev dev_type)
       (\<lambda>t. Inr (if t = DEV_TYPE_TUN then asc ''tun'' else if t = DEV_TYPE_TAP then asc ''tap''
                 else if t = DEV_TYPE_NULL then asc ''null'' else asc ''[unknown-dev-type]''))"

section \<open>Checks of the addresses\<close>

datatype tun_warning =
    Looks_Like_Netmask
  | Not_A_Netmask
  | Conflicts cstr
  | Potential_Conflict cstr
  | Subnet_Conflict cstr

definition ifconfig_sanity_check :: "bool \<Rightarrow> 32 word \<Rightarrow> int \<Rightarrow> tun_warning list" where
  "ifconfig_sanity_check tun a topology =
     (let looks_like_netmask = (a AND 0xFF000000 = 0xFF000000)
      in if tun
         then (if looks_like_netmask \<and> (topology = TOP_NET30 \<or> topology = TOP_P2P) then [Looks_Like_Netmask] else [])
         else (if \<not> looks_like_netmask then [Not_A_Netmask] else []))"

definition check_addr_clash :: "cstr \<Rightarrow> int \<Rightarrow> 32 word \<Rightarrow> 32 word \<Rightarrow> 32 word \<Rightarrow> tun_warning list" where
  "check_addr_clash name type public local remote_netmask =
     (if public = 0 then []
      else if type = DEV_TYPE_TUN
      then (let test_netmask = 0xFFFFFF00; public_net = public AND test_netmask;
                local_net = local AND test_netmask; remote_net = remote_netmask AND test_netmask
            in (if public = local \<or> public = remote_netmask then [Conflicts name] else []) @
               (if public_net = local_net \<or> public_net = remote_net then [Potential_Conflict name] else []))
      else if type = DEV_TYPE_TAP
      then (if public AND remote_netmask = local AND remote_netmask then [Subnet_Conflict name] else [])
      else [])"

definition verify_255_255_255_252 :: "32 word \<Rightarrow> 32 word \<Rightarrow> fault + unit" where
  "verify_255_255_255_252 local remote =
     (if local = remote then Inl Fatal
      else if local AND NOT 3 \<noteq> remote AND NOT 3 then Inl Fatal
      else if local AND 3 = 0 \<or> local AND 3 = 3 \<or> remote AND 3 = 0 \<or> remote AND 3 = 3 then Inl Fatal
      else Inr ())"

section \<open>The device\<close>

record tun_config =
  tc_type :: int
  tc_topology :: int
  tc_did_ifconfig_setup :: bool
  tc_did_ifconfig_ipv6_setup :: bool
  tc_local :: "32 word"
  tc_remote_netmask :: "32 word"
  tc_local_ipv6 :: "byte list"
  tc_remote_ipv6 :: "byte list"
  tc_netbits_ipv6 :: int
  tc_adapter_netmask :: "32 word"

definition clear_tuntap :: tun_config where
  "clear_tuntap = \<lparr>tc_type = 0, tc_topology = 0, tc_did_ifconfig_setup = False, tc_did_ifconfig_ipv6_setup = False,
     tc_local = 0, tc_remote_netmask = 0, tc_local_ipv6 = replicate 16 0, tc_remote_ipv6 = replicate 16 0,
     tc_netbits_ipv6 = 0, tc_adapter_netmask = 0\<rparr>"

definition is_tun_p2p :: "tun_config \<Rightarrow> fault + bool" where
  "is_tun_p2p tt =
     (if tc_type tt = DEV_TYPE_TAP \<or> (tc_type tt = DEV_TYPE_TUN \<and> tc_topology tt = TOP_SUBNET) \<or> tc_type tt = DEV_TYPE_NULL
      then Inr False
      else if tc_type tt = DEV_TYPE_TUN then Inr True
      else Inl Fatal)"

definition create_arbitrary_remote :: "tun_config \<Rightarrow> 32 word" where
  "create_arbitrary_remote tt =
     (let remote = (tc_local tt AND tc_remote_netmask tt) + 1
      in if remote = tc_local tt then remote + 1 else remote)"

text \<open>Each address is printed into a buffer of its own before the two are put together.\<close>

definition print_two ::
  "mem \<Rightarrow> buffer \<Rightarrow> 32 word \<Rightarrow> 32 word \<Rightarrow> gc_arena option \<Rightarrow> fault + buffer \<times> mem \<times> gc_arena option" where
  "print_two m out a b gc =
     bindE (print_in_addr_t m a 0 gc)
       (\<lambda>(_, m1, gc1). bindE (print_in_addr_t m1 b 0 gc1)
         (\<lambda>(_, m2, gc2). bindE (buf_printf m2 out (Some (inet_ntoa (be32 a) @ asc '' '' @ inet_ntoa (be32 b))))
           (\<lambda>(_, out1, m3). Inr (out1, m3, gc2))))"

definition ifconfig_options_string ::
  "mem \<Rightarrow> tun_config \<Rightarrow> bool \<Rightarrow> bool \<Rightarrow> gc_arena option \<Rightarrow> fault + ptr \<times> mem \<times> gc_arena option" where
  "ifconfig_options_string m tt remote disable gc =
     bindE (alloc_buf_gc m 256 gc)
       (\<lambda>(out, m1, gc1).
          bindE (if tc_did_ifconfig_setup tt \<and> \<not> disable
                 then if tc_type tt = DEV_TYPE_TAP \<or> (tc_type tt = DEV_TYPE_TUN \<and> tc_topology tt = TOP_SUBNET)
                      then print_two m1 out (tc_local tt AND tc_remote_netmask tt) (tc_remote_netmask tt) gc1
                      else if tc_type tt = DEV_TYPE_TUN
                      then if remote then print_two m1 out (tc_local tt) (tc_remote_netmask tt) gc1
                           else print_two m1 out (tc_remote_netmask tt) (tc_local tt) gc1
                      else bindE (buf_printf m1 out (Some (asc ''[undef]''))) (\<lambda>(_, out1, m2). Inr (out1, m2, gc1))
                 else Inr (out, m1, gc1))
            (\<lambda>(out1, m2, gc2). Inr (buf_bptr out1, m2, gc2)))"

text \<open>\<open>ntop\<close> is the text \<open>inet_ntop\<close> makes of an IPv6 address.\<close>

definition do_ifconfig_setenv :: "mem \<Rightarrow> (byte list \<Rightarrow> cstr) \<Rightarrow> tun_config \<Rightarrow> env_set \<Rightarrow> fault + env_set \<times> mem" where
  "do_ifconfig_setenv m ntop tt es =
     bindE (if tc_did_ifconfig_setup tt
            then bindE (is_tun_p2p tt)
              (\<lambda>tun. bindE (setenv_str m (Some es) (Some (asc ''ifconfig_local'')) (Some (inet_ntoa (be32 (tc_local tt)))))
                (\<lambda>(es1, m1). setenv_str m1 (Some es1)
                     (Some (if tun then asc ''ifconfig_remote'' else asc ''ifconfig_netmask''))
                     (Some (inet_ntoa (be32 (tc_remote_netmask tt))))))
            else Inr (es, m))
       (\<lambda>(es1, m1).
          if tc_did_ifconfig_ipv6_setup tt
          then bindE (setenv_str m1 (Some es1) (Some (asc ''ifconfig_ipv6_local'')) (Some (ntop (tc_local_ipv6 tt))))
            (\<lambda>(es2, m2). bindE (setenv_int m2 (Some es2) (Some (asc ''ifconfig_ipv6_netbits'')) (tc_netbits_ipv6 tt))
              (\<lambda>(es3, m3). setenv_str m3 (Some es3) (Some (asc ''ifconfig_ipv6_remote'')) (Some (ntop (tc_remote_ipv6 tt)))))
          else Inr (es1, m1))"

text \<open>
  The address of a socket as the code reads it: \<open>s_addr\<close> is a word of memory, here on a
  little-endian machine.
\<close>

definition s_addr_of :: "sockaddr \<Rightarrow> fault + 32 word" where
  "s_addr_of a = bindE (sin_addr_of a) (\<lambda>bs. Inr (of_nat (from_be (rev bs))))"

fun check_public :: "cstr \<Rightarrow> tun_config \<Rightarrow> addrinfo list \<Rightarrow> fault + tun_warning list" where
  "check_public name tt [] = Inr []"
| "check_public name tt (ai # ais) =
     bindE (if ai_family ai = AF_INET
            then bindE (s_addr_of (ai_addr ai))
                   (\<lambda>p. Inr (check_addr_clash name (tc_type tt) p (tc_local tt) (tc_remote_netmask tt)))
            else Inr [])
       (\<lambda>w. bindE (check_public name tt ais) (\<lambda>ws. Inr (w @ ws)))"

text \<open>
  The warnings of \<open>init_tun\<close> about its addresses. \<open>check_subnet_conflict\<close>, which comes last, does nothing: its
  body is compiled out.
\<close>

definition warn_addrs ::
  "tun_config \<Rightarrow> addrinfo list \<Rightarrow> addrinfo list \<Rightarrow> bool \<Rightarrow> fault + tun_warning list" where
  "warn_addrs tt local_public remote_public strict_warn =
     (if strict_warn
      then bindE (check_public (asc ''local'') tt local_public)
        (\<lambda>w1. bindE (check_public (asc ''remote'') tt remote_public)
          (\<lambda>w2. Inr (ifconfig_sanity_check (tc_type tt = DEV_TYPE_TUN) (tc_remote_netmask tt) (tc_topology tt) @ w1 @ w2)))
      else Inr [])"

text \<open>
  \<open>getaddr\<close>: the address a text stands for (with or without resolving names), or the process exits.
  \<open>pton\<close>: what \<open>inet_pton\<close> makes of an IPv6 text.
\<close>

definition ifconfig_v4 ::
  "(bool \<Rightarrow> cstr \<Rightarrow> fault + 32 word) \<Rightarrow> tun_config \<Rightarrow> cstr \<Rightarrow> cstr \<Rightarrow> addrinfo list \<Rightarrow> addrinfo list \<Rightarrow> bool \<Rightarrow>
     fault + tun_config \<times> tun_warning list" where
  "ifconfig_v4 getaddr tt local_parm remote_netmask_parm local_public remote_public strict_warn =
     bindE (is_tun_p2p tt)
       (\<lambda>tun. bindE (getaddr True local_parm)
         (\<lambda>local. bindE (getaddr tun remote_netmask_parm)
           (\<lambda>remote. let tt1 = tt\<lparr>tc_local := local, tc_remote_netmask := remote\<rparr> in
             bindE (warn_addrs tt1 local_public remote_public strict_warn)
               (\<lambda>ws. bindE (if tun then verify_255_255_255_252 local remote else Inr ())
                 (\<lambda>_. Inr (tt1\<lparr>tc_adapter_netmask := (if tun then NOT 3 else remote),
                               tc_did_ifconfig_setup := True\<rparr>, ws))))))"

definition ifconfig_v6 :: "(cstr \<Rightarrow> byte list option) \<Rightarrow> tun_config \<Rightarrow> cstr \<Rightarrow> int \<Rightarrow> cstr \<Rightarrow> fault + tun_config" where
  "ifconfig_v6 pton tt local_parm netbits_parm remote_parm =
     (case (pton local_parm, pton remote_parm) of
        (Some l6, Some r6) \<Rightarrow> Inr (tt\<lparr>tc_local_ipv6 := l6, tc_remote_ipv6 := r6, tc_netbits_ipv6 := netbits_parm,
                                      tc_did_ifconfig_ipv6_setup := True\<rparr>)
      | _ \<Rightarrow> Inl Fatal)"

definition init_tun ::
  "(bool \<Rightarrow> cstr \<Rightarrow> fault + 32 word) \<Rightarrow> (cstr \<Rightarrow> byte list option) \<Rightarrow> (byte list \<Rightarrow> cstr) \<Rightarrow> mem \<Rightarrow>
   cstr option \<Rightarrow> cstr option \<Rightarrow> int \<Rightarrow> cstr option \<Rightarrow> cstr option \<Rightarrow> cstr option \<Rightarrow> int \<Rightarrow> cstr option \<Rightarrow>
   addrinfo list \<Rightarrow> addrinfo list \<Rightarrow> bool \<Rightarrow> env_set option \<Rightarrow>
   fault + tun_config \<times> tun_warning list \<times> env_set option \<times> mem" where
  "init_tun getaddr pton ntop m dev dev_type topology local_parm remote_netmask_parm ipv6_local_parm ipv6_netbits_parm
     ipv6_remote_parm local_public remote_public strict_warn es =
     bindE (dev_type_enum dev dev_type)
       (\<lambda>type. let tt = clear_tuntap\<lparr>tc_type := type, tc_topology := topology\<rparr> in
        bindE (case (local_parm, remote_netmask_parm) of
                 (Some l, Some r) \<Rightarrow> ifconfig_v4 getaddr tt l r local_public remote_public strict_warn
               | _ \<Rightarrow> Inr (tt, []))
          (\<lambda>(tt1, ws). bindE (case (ipv6_local_parm, ipv6_remote_parm) of
                                (Some l, Some r) \<Rightarrow> ifconfig_v6 pton tt1 l ipv6_netbits_parm r
                              | _ \<Rightarrow> Inr tt1)
            (\<lambda>tt2. case es of
                 None \<Rightarrow> Inr (tt2, ws, None, m)
               | Some e \<Rightarrow> bindE (do_ifconfig_setenv m ntop tt2 e) (\<lambda>(e1, m1). Inr (tt2, ws, Some e1, m1)))))"

section \<open>The internal DHCP server of the driver\<close>

definition dhcp_masq_addr :: "32 word \<Rightarrow> 32 word \<Rightarrow> int \<Rightarrow> fault + byte list" where
  "dhcp_masq_addr local netmask offset =
     (let dsa = (if offset < 0 then (local OR NOT netmask) + word_of_int offset
                 else (local AND netmask) + word_of_int offset)
      in if dsa = local then Inl Fatal
         else if local AND netmask \<noteq> dsa AND netmask then Inl Fatal
         else Inr (be32 dsa))"

record dhcp_settings =
  ds_masq_custom_offset :: bool
  ds_masq_offset :: int
  ds_lease_time :: int
  ds_dhcp_options :: bool
  ds_options :: tuntap_options

text \<open>
  The two requests to the driver: the bytes of \<open>ep\<close>, and the option string if one is sent. \<open>ioctl\<close>
  is whether the driver accepts a request, \<open>tmp_buf\<close> what the stack of \<open>write_dhcp_search_str\<close> holds.
\<close>

definition tuntap_dhcp_mask ::
  "mem \<Rightarrow> tun_config \<Rightarrow> dhcp_settings \<Rightarrow> (byte list \<Rightarrow> bool) \<Rightarrow> byte list \<Rightarrow> fault + (byte list \<times> byte list option) \<times> mem" where
  "tuntap_dhcp_mask m tt s ioctl tmp_buf =
     bindE (if tc_type tt = DEV_TYPE_TUN
            then if tc_topology tt = TOP_SUBNET
                 then dhcp_masq_addr (tc_local tt) (tc_remote_netmask tt)
                        (if ds_masq_custom_offset s then ds_masq_offset s else -1)
                 else Inr (be32 (tc_remote_netmask tt))
            else bindE (c_assert (tc_type tt = DEV_TYPE_TAP))
              (\<lambda>_. dhcp_masq_addr (tc_local tt) (tc_adapter_netmask tt)
                     (if ds_masq_custom_offset s then ds_masq_offset s else 0)))
       (\<lambda>ep2. let lease = word_of_int (ds_lease_time s) :: 32 word;
                  ep = be32 (tc_local tt) @ be32 (tc_adapter_netmask tt) @ ep2 @ rev (be32 lease)
              in bindE (c_assert (lease \<noteq> 0))
        (\<lambda>_. if \<not> ioctl ep then Inl Fatal
             else if ds_dhcp_options s
             then bindE (alloc_buf m 256)
               (\<lambda>(buf, m1). bindE (build_dhcp_options_string m1 buf (ds_options s) tmp_buf)
                 (\<lambda>(ok, buf1, m2).
                    bindE (if ok
                           then bindE (read_bytes m2 (buf_bptr buf1) (buf_len buf1))
                                  (\<lambda>bs. if ioctl bs then Inr (Some bs) else Inl Fatal)
                           else Inr None)
                      (\<lambda>sent. bindE (free_buf m2 buf1) (\<lambda>(_, m3). Inr ((ep, sent), m3)))))
             else Inr ((ep, None), m)))"

section \<open>Network adapters\<close>

text \<open>
  \<open>IP_ADAPTER_INFO\<close>: the index and the texts of the addresses and netmasks, at least one pair (the
  first is a member of the structure). \<open>None\<close> is NULL, a list of adapters is a HOL list.
  \<open>getaddr\<close> is the address a text stands for, if any.
\<close>

record ip_adapter_info =
  ia_index :: "32 word"
  ia_first :: "cstr \<times> cstr"
  ia_rest :: "(cstr \<times> cstr) list"
  ia_dhcp_enabled :: bool

definition ia_addrs :: "ip_adapter_info \<Rightarrow> (cstr \<times> cstr) list" where
  "ia_addrs ai = ia_first ai # ia_rest ai"

definition TUN_ADAPTER_INDEX_INVALID :: "32 word" where "TUN_ADAPTER_INDEX_INVALID = -1"

definition get_adapter :: "ip_adapter_info list \<Rightarrow> 32 word \<Rightarrow> ip_adapter_info option" where
  "get_adapter ai index =
     (if ai \<noteq> [] \<and> index \<noteq> TUN_ADAPTER_INDEX_INVALID then find (\<lambda>a. ia_index a = index) ai else None)"

definition get_adapter_n_ip_netmask :: "ip_adapter_info option \<Rightarrow> nat" where
  "get_adapter_n_ip_netmask ai = (case ai of Some a \<Rightarrow> length (ia_addrs a) | None \<Rightarrow> 0)"

text \<open>The two results are \<open>None\<close> when the function returns false.\<close>

definition get_adapter_ip_netmask ::
  "(cstr \<Rightarrow> 32 word option) \<Rightarrow> ip_adapter_info option \<Rightarrow> nat \<Rightarrow> (32 word \<times> 32 word) option" where
  "get_adapter_ip_netmask getaddr ai n =
     (case ai of
        None \<Rightarrow> None
      | Some a \<Rightarrow>
          if n < length (ia_addrs a)
          then (let (ip_str, netmask_str) = ia_addrs a ! n
                in if ip_str \<noteq> [] \<and> netmask_str \<noteq> []
                   then (case (getaddr ip_str, getaddr netmask_str) of
                           (Some ip, Some netmask) \<Rightarrow> Some (ip, netmask)
                         | _ \<Rightarrow> None)
                   else None)
          else None)"

definition test_adapter_ip_netmask ::
  "(cstr \<Rightarrow> 32 word option) \<Rightarrow> ip_adapter_info option \<Rightarrow> 32 word \<Rightarrow> 32 word \<Rightarrow> bool" where
  "test_adapter_ip_netmask getaddr ai ip netmask =
     (case ai of Some a \<Rightarrow> get_adapter_ip_netmask getaddr (Some a) 0 = Some (ip, netmask) | None \<Rightarrow> False)"

fun adapter_up_loop :: "(cstr \<Rightarrow> 32 word option) \<Rightarrow> tun_config \<Rightarrow> ip_adapter_info \<Rightarrow> nat list \<Rightarrow> bool \<Rightarrow> bool" where
  "adapter_up_loop getaddr tt ai [] ret = ret"
| "adapter_up_loop getaddr tt ai (i # is) ret =
     adapter_up_loop getaddr tt ai is
       (case get_adapter_ip_netmask getaddr (Some ai) i of
          None \<Rightarrow> ret
        | Some (ip, netmask) \<Rightarrow>
            if tc_local tt \<noteq> 0 \<and> tc_adapter_netmask tt \<noteq> 0
            then if tc_local tt = ip \<and> tc_adapter_netmask tt = netmask then True else ret
            else if ip \<noteq> 0 \<and> netmask \<noteq> 0 then True else ret)"

definition is_adapter_up ::
  "(cstr \<Rightarrow> 32 word option) \<Rightarrow> tun_config \<Rightarrow> 32 word \<Rightarrow> ip_adapter_info list \<Rightarrow> bool" where
  "is_adapter_up getaddr tt adapter_index list =
     (case (if list \<noteq> [] then get_adapter list adapter_index else None) of
        Some ai \<Rightarrow> adapter_up_loop getaddr tt ai [0..<get_adapter_n_ip_netmask (Some ai)] False
      | None \<Rightarrow> True)"

text \<open>The result and the highest netmask found.\<close>

fun subnet_loop :: "(cstr \<Rightarrow> 32 word option) \<Rightarrow> ip_adapter_info \<Rightarrow> 32 word \<Rightarrow> nat list \<Rightarrow> bool \<times> 32 word \<Rightarrow> bool \<times> 32 word" where
  "subnet_loop getaddr ai ip [] s = s"
| "subnet_loop getaddr ai ip (i # is) (ret, highest) =
     subnet_loop getaddr ai ip is
       (case get_adapter_ip_netmask getaddr (Some ai) i of
          None \<Rightarrow> (ret, highest)
        | Some (adapter_ip, adapter_netmask) \<Rightarrow>
            if adapter_ip \<noteq> 0 \<and> adapter_netmask \<noteq> 0 \<and> ip AND adapter_netmask = adapter_ip AND adapter_netmask
            then (True, if adapter_netmask > highest then adapter_netmask else highest)
            else (ret, highest))"

definition is_ip_in_adapter_subnet ::
  "(cstr \<Rightarrow> 32 word option) \<Rightarrow> ip_adapter_info option \<Rightarrow> 32 word \<Rightarrow> bool \<times> 32 word" where
  "is_ip_in_adapter_subnet getaddr ai ip =
     (case ai of None \<Rightarrow> (False, 0)
      | Some a \<Rightarrow> subnet_loop getaddr a ip [0..<get_adapter_n_ip_netmask (Some a)] (False, 0))"

record ip_search =
  is_ret :: "32 word"
  is_highest :: "32 word"
  is_lowest_metric :: int
  is_first :: bool
  is_count :: int

definition INT_MAX :: int where "INT_MAX = 2 ^ 31 - 1"

text \<open>\<open>metric\<close>: what \<open>get_interface_metric\<close> says of an adapter, negative if it fails.\<close>

definition ip_search_step ::
  "(cstr \<Rightarrow> 32 word option) \<Rightarrow> (32 word \<Rightarrow> int) \<Rightarrow> 32 word \<Rightarrow> ip_adapter_info \<Rightarrow> ip_search \<Rightarrow> ip_search" where
  "ip_search_step getaddr metric ip a s =
     (case is_ip_in_adapter_subnet getaddr (Some a) ip of
        (False, _) \<Rightarrow> s
      | (True, hn) \<Rightarrow>
          let mt = metric (ia_index a)
          in if is_first s \<or> hn > is_highest s
             then s\<lparr>is_highest := hn, is_lowest_metric := (if mt \<ge> 0 then mt else is_lowest_metric s),
                    is_count := 1, is_ret := ia_index a, is_first := False\<rparr>
             else if hn = is_highest s
             then (let s1 = s\<lparr>is_count := is_count s + 1\<rparr>
                   in if mt \<ge> 0 \<and> mt < is_lowest_metric s1
                      then s1\<lparr>is_ret := ia_index a, is_lowest_metric := mt\<rparr> else s1)
             else s)"

text \<open>The index of the adapter, how many there are, and the netmask.\<close>

definition adapter_index_of_ip ::
  "(cstr \<Rightarrow> 32 word option) \<Rightarrow> (32 word \<Rightarrow> int) \<Rightarrow> ip_adapter_info list \<Rightarrow> 32 word \<Rightarrow> 32 word \<times> int \<times> 32 word" where
  "adapter_index_of_ip getaddr metric list ip =
     (let s = fold (ip_search_step getaddr metric ip) list
                \<lparr>is_ret = TUN_ADAPTER_INDEX_INVALID, is_highest = 0, is_lowest_metric = INT_MAX, is_first = True, is_count = 0\<rparr>
      in (is_ret s, if is_ret s = TUN_ADAPTER_INDEX_INVALID then 0 else is_count s, is_highest s))"

text \<open>\<open>dhcp_status\<close> of the adapters the system lists.\<close>

definition DHCP_STATUS_UNDEF :: int where "DHCP_STATUS_UNDEF = 0"
definition DHCP_STATUS_ENABLED :: int where "DHCP_STATUS_ENABLED = 1"
definition DHCP_STATUS_DISABLED :: int where "DHCP_STATUS_DISABLED = 2"

definition dhcp_status :: "ip_adapter_info list \<Rightarrow> 32 word \<Rightarrow> int" where
  "dhcp_status list index =
     (if index \<noteq> TUN_ADAPTER_INDEX_INVALID
      then (case get_adapter list index of
              Some ai \<Rightarrow> if ia_dhcp_enabled ai then DHCP_STATUS_ENABLED else DHCP_STATUS_DISABLED
            | None \<Rightarrow> DHCP_STATUS_UNDEF)
      else DHCP_STATUS_UNDEF)"

section \<open>Lists of addresses\<close>

text \<open>At most \<open>dest_len\<close> addresses, up to the first text that is empty or not an address.\<close>

fun ip_addr_string_to_array :: "(cstr \<Rightarrow> 32 word option) \<Rightarrow> nat \<Rightarrow> cstr list \<Rightarrow> 32 word list" where
  "ip_addr_string_to_array getaddr dest_len [] = []"
| "ip_addr_string_to_array getaddr dest_len (s # src) =
     (if dest_len = 0 then []
      else if s = [] then []
      else (case getaddr s of
              None \<Rightarrow> []
            | Some ip \<Rightarrow> ip # ip_addr_string_to_array getaddr (dest_len - 1) src))"

definition ip_addr_one_to_one :: "(cstr \<Rightarrow> 32 word option) \<Rightarrow> 32 word list \<Rightarrow> nat \<Rightarrow> cstr list \<Rightarrow> bool" where
  "ip_addr_one_to_one getaddr a1 a1len ias =
     (let a2 = ip_addr_string_to_array getaddr 8 ias
      in if a1len \<noteq> length a2 then False else list_all (\<lambda>i. a1 ! i = a2 ! i) [0..<a1len])"

definition ip_addr_member_of :: "(cstr \<Rightarrow> 32 word option) \<Rightarrow> 32 word \<Rightarrow> cstr list \<Rightarrow> bool" where
  "ip_addr_member_of getaddr a ias \<longleftrightarrow> list_ex (\<lambda>x. a = x) (ip_addr_string_to_array getaddr 8 ias)"

end
