(* ===== verification/Tun_Laws.thy ===== *)
theory Tun_Laws
  imports Tun_Config
begin

text \<open>
  Laws of the device configuration in \<open>Tun_Config\<close>: point-to-point pairs, what \<open>init_tun\<close> hands over,
  and the search for the adapter of an address.
\<close>

section \<open>Point-to-point addresses\<close>

lemma low_bits: "unat (a AND 3) = unat a mod 4" for a :: "32 word"
proof -
  have "a AND 3 = take_bit 2 a" using take_bit_eq_mask [of 2 a] by (simp add: mask_eq_exp_minus_1)
  then show ?thesis by (simp add: take_bit_eq_mod unat_mod_distrib)
qed

lemma high_bits: "a AND NOT 3 = b AND NOT 3 \<longleftrightarrow> unat a div 4 = unat b div 4" for a b :: "32 word"
proof -
  have m: "(3 :: 32 word) = mask 2" by (simp add: mask_eq_exp_minus_1)
  have p: "x AND NOT (mask 2) = push_bit 2 (drop_bit 2 x)" for x :: "32 word"
  proof (rule bit_word_eqI)
    fix n
    assume "n < LENGTH(32)"
    moreover have "2 \<le> n \<Longrightarrow> Suc (Suc (n - 2)) = n" by simp
    ultimately show "bit (x AND NOT (mask 2)) n = bit (push_bit 2 (drop_bit 2 x)) n" by (auto simp: bit_simps not_less)
  qed
  have u: "unat (drop_bit 2 x) = unat x div 4" for x :: "32 word" by (simp add: drop_bit_eq_div unat_div_distrib)
  have "push_bit 2 (drop_bit 2 a) = push_bit 2 (drop_bit 2 b) \<longleftrightarrow> drop_bit 2 a = drop_bit 2 b"
  proof
    assume e: "push_bit 2 (drop_bit 2 a) = push_bit 2 (drop_bit 2 b)"
    have "drop_bit 2 (push_bit 2 (drop_bit 2 x)) = drop_bit 2 x" for x :: "32 word"
      by (rule bit_word_eqI) (auto simp: bit_simps dest: bit_imp_le_length)
    then show "drop_bit 2 a = drop_bit 2 b" by (metis e)
  qed simp
  then show ?thesis unfolding m p using u by (metis word_unat_eq_iff)
qed

lemma verify_net30_iff:
  "verify_255_255_255_252 local remote =
     (if unat local div 4 = unat remote div 4 \<and>
         (unat local mod 4 = 1 \<and> unat remote mod 4 = 2 \<or> unat local mod 4 = 2 \<and> unat remote mod 4 = 1)
      then Inr () else Inl Fatal)"
proof -
  have v: "a AND 3 = 0 \<longleftrightarrow> unat a mod 4 = 0" "a AND 3 = 3 \<longleftrightarrow> unat a mod 4 = 3" for a :: "32 word"
    by (simp_all add: word_unat_eq_iff low_bits)
  have e: "local = remote \<longleftrightarrow> unat local div 4 = unat remote div 4 \<and> unat local mod 4 = unat remote mod 4"
    unfolding word_unat_eq_iff by (metis div_mult_mod_eq)
  have "x mod 4 = 0 \<or> x mod 4 = 1 \<or> x mod 4 = 2 \<or> x mod 4 = 3" for x :: nat by presburger
  note b = this [of "unat local"] this [of "unat remote"]
  show ?thesis unfolding verify_255_255_255_252_def e high_bits v using b by (auto split: if_splits)
qed

section \<open>The device that init_tun sets up\<close>

definition net30 :: "32 word \<Rightarrow> 32 word \<Rightarrow> bool" where
  "net30 a b \<longleftrightarrow> unat a div 4 = unat b div 4 \<and>
     (unat a mod 4 = 1 \<and> unat b mod 4 = 2 \<or> unat a mod 4 = 2 \<and> unat b mod 4 = 1)"

text \<open>What the IPv4 and the IPv6 parameters must have become in the device.\<close>

definition v4_config :: "(bool \<Rightarrow> cstr \<Rightarrow> fault + 32 word) \<Rightarrow> cstr option \<Rightarrow> cstr option \<Rightarrow> tun_config \<Rightarrow> bool" where
  "v4_config getaddr l r tt \<longleftrightarrow>
     (case (l, r) of
        (Some ls, Some rs) \<Rightarrow>
          tc_did_ifconfig_setup tt \<and> getaddr True ls = Inr (tc_local tt) \<and>
          (is_tun_p2p tt = Inr True \<and> getaddr True rs = Inr (tc_remote_netmask tt) \<and>
             net30 (tc_local tt) (tc_remote_netmask tt) \<and> tc_adapter_netmask tt = 0xFFFFFFFC \<or>
           is_tun_p2p tt = Inr False \<and> getaddr False rs = Inr (tc_adapter_netmask tt) \<and>
             tc_remote_netmask tt = tc_adapter_netmask tt)
      | _ \<Rightarrow> \<not> tc_did_ifconfig_setup tt \<and> tc_local tt = 0 \<and> tc_remote_netmask tt = 0 \<and> tc_adapter_netmask tt = 0)"

definition v6_config :: "(cstr \<Rightarrow> byte list option) \<Rightarrow> cstr option \<Rightarrow> int \<Rightarrow> cstr option \<Rightarrow> tun_config \<Rightarrow> bool" where
  "v6_config pton l nb r tt \<longleftrightarrow>
     (case (l, r) of
        (Some ls, Some rs) \<Rightarrow>
          tc_did_ifconfig_ipv6_setup tt \<and> pton ls = Some (tc_local_ipv6 tt) \<and> pton rs = Some (tc_remote_ipv6 tt) \<and>
          tc_netbits_ipv6 tt = nb
      | _ \<Rightarrow> \<not> tc_did_ifconfig_ipv6_setup tt)"

lemma is_tun_p2p_types: "tc_type a = tc_type b \<Longrightarrow> tc_topology a = tc_topology b \<Longrightarrow> is_tun_p2p a = is_tun_p2p b"
  by (simp add: is_tun_p2p_def)

lemma ifconfig_v4_config:
  assumes "ifconfig_v4 getaddr tt l r lp rp sw = Inr (t1, ws)"
  shows "v4_config getaddr (Some l) (Some r) t1 \<and> tc_topology t1 = tc_topology tt \<and> tc_type t1 = tc_type tt \<and>
     tc_did_ifconfig_ipv6_setup t1 = tc_did_ifconfig_ipv6_setup tt"
proof -
  obtain tun local remote where s: "is_tun_p2p tt = Inr tun" "getaddr True l = Inr local" "getaddr tun r = Inr remote"
    "tun \<longrightarrow> verify_255_255_255_252 local remote = Inr ()"
    "t1 = tt\<lparr>tc_local := local, tc_remote_netmask := remote, tc_adapter_netmask := (if tun then NOT 3 else remote),
             tc_did_ifconfig_setup := True\<rparr>"
    using assms unfolding ifconfig_v4_def Let_def by (elim bindE_InrE) (auto split: if_splits)
  have p: "is_tun_p2p t1 = Inr tun" using s(1) is_tun_p2p_types [of t1 tt] by (simp add: s(5))
  have n: "NOT 3 = (0xFFFFFFFC :: 32 word)" by simp
  have "tun \<longrightarrow> net30 local remote" using s(4) verify_net30_iff [of local remote] by (auto simp: net30_def split: if_splits)
  then show ?thesis using p n s(2,3) by (cases tun) (simp_all add: v4_config_def s(5))
qed

lemma ifconfig_v6_config:
  assumes "ifconfig_v6 pton tt l nb r = Inr t1"
  shows "v6_config pton (Some l) nb (Some r) t1 \<and> tc_topology t1 = tc_topology tt \<and> tc_type t1 = tc_type tt \<and>
     v4_config getaddr l4 r4 t1 = v4_config getaddr l4 r4 tt"
proof -
  obtain x y where t: "t1 = tt\<lparr>tc_local_ipv6 := x, tc_remote_ipv6 := y, tc_netbits_ipv6 := nb, tc_did_ifconfig_ipv6_setup := True\<rparr>"
      "pton l = Some x" "pton r = Some y"
    using assms(1) by (auto simp: ifconfig_v6_def split: option.splits)
  have "is_tun_p2p t1 = is_tun_p2p tt" by (rule is_tun_p2p_types) (simp_all add: t)
  then show ?thesis by (simp add: t v4_config_def v6_config_def split: option.splits)
qed

text \<open>
  C11: The device that init_tun hands over is the one the parameters describe. When init_tun
  returns, the type is that of the device name and the topology the one that was given. If both IPv4
  parameters were given, the local address is what getaddr makes of the first one, and either the
  device is point-to-point, its remote address is what getaddr makes of the second one, the two ends
  are the two inner addresses of one block of four and the adapter's netmask is 255.255.255.252; or
  it is not, and the adapter's netmask is what getaddr makes of the second parameter. If one of them
  is missing, nothing of IPv4 is set. If both IPv6 parameters were given, the two addresses are what
  inet_pton makes of them and the prefix length is the one given; otherwise IPv6 is not marked as set
  up.
\<close>

theorem init_tun_consistent:
  assumes "init_tun getaddr pton ntop m dev dev_type topology l r l6 nb r6 lp rp sw es = Inr (tt, ws, es', m')"
  shows "dev_type_enum dev dev_type = Inr (tc_type tt) \<and> tc_topology tt = topology \<and>
     v4_config getaddr l r tt \<and> v6_config pton l6 nb r6 tt"
proof -
  obtain type t1 w1 where type: "dev_type_enum dev dev_type = Inr type"
    and v4: "(case (l, r) of (Some l, Some r) \<Rightarrow> ifconfig_v4 getaddr (clear_tuntap\<lparr>tc_type := type, tc_topology := topology\<rparr>) l r lp rp sw
               | _ \<Rightarrow> Inr (clear_tuntap\<lparr>tc_type := type, tc_topology := topology\<rparr>, [])) = Inr (t1, w1)"
    and v6: "(case (l6, r6) of (Some l, Some r) \<Rightarrow> ifconfig_v6 pton t1 l nb r | _ \<Rightarrow> Inr t1) = Inr tt"
    using assms unfolding init_tun_def Let_def by (elim bindE_InrE) (auto simp: bindE_Inr_iff split: option.splits)
  have c: "v4_config getaddr l r t1 \<and> tc_topology t1 = topology \<and> tc_type t1 = type \<and> \<not> tc_did_ifconfig_ipv6_setup t1"
  proof (cases "\<exists>ls rs. l = Some ls \<and> r = Some rs")
    case True
    then show ?thesis using v4 ifconfig_v4_config by (fastforce simp: clear_tuntap_def)
  next
    case False
    then show ?thesis using v4 by (auto simp: clear_tuntap_def v4_config_def split: option.splits)
  qed
  show ?thesis
  proof (cases "\<exists>ls rs. l6 = Some ls \<and> r6 = Some rs")
    case True
    then show ?thesis using v6 c type ifconfig_v6_config by auto
  next
    case False
    then have "tt = t1" using v6 by (auto split: option.splits)
    then show ?thesis using False c type by (auto simp: v6_config_def split: option.splits)
  qed
qed

theorem init_tun_consistent_witness:
  "\<exists>tt. init_tun (\<lambda>_ s. if s = asc ''a'' then Inr 0x0A080005 else Inr 0x0A080006) (\<lambda>_. None) (\<lambda>_. []) empty_mem
       (Some (asc ''tun0'')) None TOP_NET30 (Some (asc ''a'')) (Some (asc ''b'')) None 0 None [] [] True None =
       Inr (tt, [], None, empty_mem) \<and>
     v4_config (\<lambda>_ s. if s = asc ''a'' then Inr 0x0A080005 else Inr 0x0A080006) (Some (asc ''a'')) (Some (asc ''b'')) tt \<and>
     tc_type tt = DEV_TYPE_TUN"
proof -
  let ?ga = "\<lambda>_ s. if s = asc ''a'' then Inr 0x0A080005 else Inr 0x0A080006"
  let ?tt = "clear_tuntap\<lparr>tc_type := DEV_TYPE_TUN, tc_topology := TOP_NET30, tc_local := 0x0A080005,
     tc_remote_netmask := 0x0A080006, tc_adapter_netmask := NOT 3, tc_did_ifconfig_setup := True\<rparr>"
  have "init_tun ?ga (\<lambda>_. None) (\<lambda>_. []) empty_mem (Some (asc ''tun0'')) None TOP_NET30 (Some (asc ''a'')) (Some (asc ''b''))
      None 0 None [] [] True None = Inr (?tt, [], None, empty_mem)"
    by (simp add: init_tun_def dev_type_enum_def is_dev_type_def strncmp_eq_def ifconfig_v4_def is_tun_p2p_def clear_tuntap_def
        warn_addrs_def ifconfig_sanity_check_def verify_255_255_255_252_def DEV_TYPE_TUN_def DEV_TYPE_TAP_def DEV_TYPE_NULL_def
        TOP_SUBNET_def TOP_NET30_def TOP_P2P_def)
  from init_tun_consistent [OF this] this show ?thesis by auto
qed

text \<open>
  The warning about a clash with the public addresses does not work on a little-endian machine:
  the public address is compared in network order with addresses in host order.
\<close>

lemma check_public_misses:
  "check_public (asc ''remote'') (clear_tuntap\<lparr>tc_type := DEV_TYPE_TUN, tc_local := 0x0A080005, tc_remote_netmask := 0x0A080006\<rparr>)
     [\<lparr>ai_family = AF_INET, ai_addr = \<lparr>sa_family = AF_INET, sa_data = [0, 0, 10, 8, 0, 6] @ replicate 20 0\<rparr>\<rparr>] = Inr []"
  by (simp add: clear_tuntap_def s_addr_of_def sin_addr_of_def sa_field_def from_be_def check_addr_clash_def DEV_TYPE_TUN_def AF_INET_def)

section \<open>The DHCP server's address\<close>

lemma dhcp_masq_addr_in_subnet:
  assumes "dhcp_masq_addr local netmask offset = Inr bs"
  shows "\<exists>a. bs = be32 a \<and> a \<noteq> local \<and> a AND netmask = local AND netmask"
  using assms by (auto simp: dhcp_masq_addr_def Let_def split: if_splits)

section \<open>Which adapter has an address\<close>

text \<open>The netmasks of the subnets of an adapter that contain the address.\<close>

definition matches :: "(cstr \<Rightarrow> 32 word option) \<Rightarrow> 32 word \<Rightarrow> ip_adapter_info \<Rightarrow> 32 word list" where
  "matches getaddr ip a =
     concat (map (\<lambda>(s, t). if s \<noteq> [] \<and> t \<noteq> [] then
        (case (getaddr s, getaddr t) of
           (Some i, Some nm) \<Rightarrow> if i \<noteq> 0 \<and> nm \<noteq> 0 \<and> ip AND nm = i AND nm then [nm] else []
         | _ \<Rightarrow> []) else []) (ia_addrs a))"

definition max_mask :: "32 word list \<Rightarrow> 32 word" where
  "max_mask ms = fold max ms 0"

lemma subnet_loop_matches:
  "i \<le> length (ia_addrs a) \<Longrightarrow>
     subnet_loop getaddr a ip [i..<length (ia_addrs a)] (ret, h) =
       (let ms = concat (map (\<lambda>(s, t). if s \<noteq> [] \<and> t \<noteq> [] then
            (case (getaddr s, getaddr t) of
               (Some i, Some nm) \<Rightarrow> if i \<noteq> 0 \<and> nm \<noteq> 0 \<and> ip AND nm = i AND nm then [nm] else []
             | _ \<Rightarrow> []) else []) (drop i (ia_addrs a)))
        in (ret \<or> ms \<noteq> [], fold max ms h))"
proof (induction "length (ia_addrs a) - i" arbitrary: i ret h)
  case 0
  then show ?case by simp
next
  case (Suc n)
  then have i: "i < length (ia_addrs a)" by simp
  obtain s t where st: "ia_addrs a ! i = (s, t)" by (cases "ia_addrs a ! i")
  have d: "drop i (ia_addrs a) = (s, t) # drop (Suc i) (ia_addrs a)" using i st Cons_nth_drop_Suc [of i "ia_addrs a"] by simp
  have u: "[i..<length (ia_addrs a)] = i # [Suc i..<length (ia_addrs a)]" using i by (simp add: upt_conv_Cons)
  have mx: "(if nm > h then nm else h) = max nm h" for nm h :: "32 word" by (auto simp: max_def)
  have g: "get_adapter_ip_netmask getaddr (Some a) i =
      (if s \<noteq> [] \<and> t \<noteq> [] then (case (getaddr s, getaddr t) of (Some x, Some y) \<Rightarrow> Some (x, y) | _ \<Rightarrow> None) else None)"
    using i st by (simp add: get_adapter_ip_netmask_def)
  have IH: "subnet_loop getaddr a ip [Suc i..<length (ia_addrs a)] (ret, h) =
       (let ms = concat (map (\<lambda>(s, t). if s \<noteq> [] \<and> t \<noteq> [] then
            (case (getaddr s, getaddr t) of
               (Some i, Some nm) \<Rightarrow> if i \<noteq> 0 \<and> nm \<noteq> 0 \<and> ip AND nm = i AND nm then [nm] else []
             | _ \<Rightarrow> []) else []) (drop (Suc i) (ia_addrs a)))
        in (ret \<or> ms \<noteq> [], fold max ms h))" for ret h
    using Suc(1) [of "Suc i"] Suc(2) i by simp
  show ?case unfolding u subnet_loop.simps g d mx
    by (cases "getaddr s"; cases "getaddr t") (simp_all add: IH Let_def)
qed

lemma in_subnet_matches:
  "is_ip_in_adapter_subnet getaddr (Some a) ip = (matches getaddr ip a \<noteq> [], max_mask (matches getaddr ip a))"
  using subnet_loop_matches [of 0 a getaddr ip False 0]
  by (simp add: is_ip_in_adapter_subnet_def get_adapter_n_ip_netmask_def matches_def max_mask_def Let_def)

text \<open>The adapters that have the address, and those of them with the longest netmask.\<close>

definition having :: "(cstr \<Rightarrow> 32 word option) \<Rightarrow> 32 word \<Rightarrow> ip_adapter_info list \<Rightarrow> ip_adapter_info list" where
  "having getaddr ip as = filter (\<lambda>a. matches getaddr ip a \<noteq> []) as"

definition mask_of :: "(cstr \<Rightarrow> 32 word option) \<Rightarrow> 32 word \<Rightarrow> ip_adapter_info \<Rightarrow> 32 word" where
  "mask_of getaddr ip a = max_mask (matches getaddr ip a)"

definition top_mask :: "(cstr \<Rightarrow> 32 word option) \<Rightarrow> 32 word \<Rightarrow> ip_adapter_info list \<Rightarrow> 32 word" where
  "top_mask getaddr ip as = Max (mask_of getaddr ip ` set (having getaddr ip as))"

definition longest :: "(cstr \<Rightarrow> 32 word option) \<Rightarrow> 32 word \<Rightarrow> ip_adapter_info list \<Rightarrow> ip_adapter_info list" where
  "longest getaddr ip as =
     filter (\<lambda>a. mask_of getaddr ip a = top_mask getaddr ip as) (having getaddr ip as)"

text \<open>
  The adapter that the search keeps. If its metric is known, it is the lowest known one. An adapter
  whose metric is not known is kept only in front: as the first one with the longest netmask, and
  against an adapter with a known metric only if the lowest metric is left over from a less specific
  adapter.
\<close>

definition leftover :: "(cstr \<Rightarrow> 32 word option) \<Rightarrow> (32 word \<Rightarrow> int) \<Rightarrow> 32 word \<Rightarrow> ip_adapter_info list \<Rightarrow> int \<Rightarrow> bool" where
  "leftover getaddr metric ip as lm \<longleftrightarrow> lm = INT_MAX \<or>
     (\<exists>c\<in>set (having getaddr ip as). mask_of getaddr ip c < top_mask getaddr ip as \<and>
        0 \<le> metric (ia_index c) \<and> lm = metric (ia_index c))"

definition kept :: "(cstr \<Rightarrow> 32 word option) \<Rightarrow> (32 word \<Rightarrow> int) \<Rightarrow> 32 word \<Rightarrow> ip_adapter_info list \<Rightarrow> ip_adapter_info \<Rightarrow> int \<Rightarrow> bool" where
  "kept getaddr metric ip as a lm \<longleftrightarrow>
     (if 0 \<le> metric (ia_index a) then lm = metric (ia_index a)
      else a = hd (longest getaddr ip as) \<and> leftover getaddr metric ip as lm) \<and>
     (\<forall>b\<in>set (longest getaddr ip as). 0 \<le> metric (ia_index b) \<longrightarrow> lm \<le> metric (ia_index b))"

definition search_inv :: "(cstr \<Rightarrow> 32 word option) \<Rightarrow> (32 word \<Rightarrow> int) \<Rightarrow> 32 word \<Rightarrow> ip_adapter_info list \<Rightarrow> ip_search \<Rightarrow> bool" where
  "search_inv getaddr metric ip as s \<longleftrightarrow>
     (if having getaddr ip as = [] then s = \<lparr>is_ret = TUN_ADAPTER_INDEX_INVALID, is_highest = 0, is_lowest_metric = INT_MAX,
          is_first = True, is_count = 0\<rparr>
      else \<not> is_first s \<and> is_highest s = top_mask getaddr ip as \<and>
        is_count s = int (length (longest getaddr ip as)) \<and>
        (\<exists>a\<in>set (longest getaddr ip as). is_ret s = ia_index a \<and> kept getaddr metric ip as a (is_lowest_metric s)))"

lemma longest_snoc_new:
  assumes "having getaddr ip as = [] \<or> mask_of getaddr ip a > top_mask getaddr ip as"
    and "matches getaddr ip a \<noteq> []"
  shows "longest getaddr ip (as @ [a]) = [a]" and "top_mask getaddr ip (as @ [a]) = mask_of getaddr ip a"
proof -
  let ?m = "mask_of getaddr ip" and ?h = "having getaddr ip as"
  have h: "having getaddr ip (as @ [a]) = ?h @ [a]" using assms(2) by (simp add: having_def)
  have lt: "\<forall>b\<in>set ?h. ?m b < ?m a"
  proof (cases "?h = []")
    case False
    then show ?thesis using assms(1) Max_ge [of "?m ` set ?h"] unfolding top_mask_def by (auto intro: le_less_trans)
  qed simp
  show mx: "top_mask getaddr ip (as @ [a]) = ?m a"
    unfolding top_mask_def h using lt by (intro Max_eqI) (auto simp: less_imp_le)
  have "filter (\<lambda>b. ?m b = ?m a) ?h = []" using lt by (auto simp: filter_empty_conv)
  then show "longest getaddr ip (as @ [a]) = [a]" unfolding longest_def mx h by simp
qed

lemma longest_snoc_old:
  assumes "having getaddr ip as \<noteq> []" and "mask_of getaddr ip a \<le> top_mask getaddr ip as"
    and "matches getaddr ip a \<noteq> []"
  shows "longest getaddr ip (as @ [a]) = longest getaddr ip as @
      (if mask_of getaddr ip a = top_mask getaddr ip as then [a] else [])"
    and "top_mask getaddr ip (as @ [a]) = top_mask getaddr ip as"
proof -
  let ?m = "mask_of getaddr ip" and ?h = "having getaddr ip as"
  have h: "having getaddr ip (as @ [a]) = ?h @ [a]" using assms(3) by (simp add: having_def)
  show mx: "top_mask getaddr ip (as @ [a]) = top_mask getaddr ip as"
  proof -
    have "top_mask getaddr ip (as @ [a]) = max (?m a) (Max (?m ` set ?h))"
      using assms(1) by (simp add: top_mask_def h)
    then show ?thesis using assms(2) by (simp add: top_mask_def max_absorb2)
  qed
  show "longest getaddr ip (as @ [a]) = longest getaddr ip as @ (if ?m a = top_mask getaddr ip as then [a] else [])"
    unfolding longest_def mx h by simp
qed

lemma longest_member: "longest getaddr ip as \<noteq> [] \<longleftrightarrow> having getaddr ip as \<noteq> []"
proof -
  let ?m = "mask_of getaddr ip" and ?h = "having getaddr ip as"
  have "\<exists>b\<in>set ?h. ?m b = top_mask getaddr ip as" if "?h \<noteq> []"
  proof -
    have "Max (?m ` set ?h) \<in> ?m ` set ?h" using that by (intro Max_in) auto
    then show ?thesis unfolding top_mask_def by (metis imageE)
  qed
  then show ?thesis by (auto simp: longest_def filter_empty_conv)
qed

lemma search_step:
  assumes "search_inv getaddr metric ip as s"
  shows "search_inv getaddr metric ip (as @ [a]) (ip_search_step getaddr metric ip a s)"
proof (cases "matches getaddr ip a = []")
  case True
  then have h: "having getaddr ip (as @ [a]) = having getaddr ip as" by (simp add: having_def)
  then have t: "top_mask getaddr ip (as @ [a]) = top_mask getaddr ip as" by (simp add: top_mask_def)
  moreover from this h have "longest getaddr ip (as @ [a]) = longest getaddr ip as" by (simp add: longest_def)
  moreover have "ip_search_step getaddr metric ip a s = s" using True by (simp add: ip_search_step_def in_subnet_matches)
  ultimately show ?thesis using assms(1) h by (simp only: search_inv_def kept_def leftover_def)
next
  case has: False
  let ?m = "mask_of getaddr ip" and ?h = "having getaddr ip as" and ?mt = "metric (ia_index a)"
  have hav: "having getaddr ip (as @ [a]) = ?h @ [a]" using has by (simp add: having_def)
  then have ne: "having getaddr ip (as @ [a]) \<noteq> []" by simp
  have first: "is_first s \<longleftrightarrow> ?h = []" using assms(1) by (auto simp: search_inv_def split: if_splits)
  have hi: "is_highest s = top_mask getaddr ip as" if "?h \<noteq> []" using assms(1) that by (simp add: search_inv_def)
  have hn: "max_mask (matches getaddr ip a) = ?m a" by (simp add: mask_of_def)
  have old_kept: "\<exists>b\<in>set (longest getaddr ip as). is_ret s = ia_index b \<and> kept getaddr metric ip as b (is_lowest_metric s)"
    if "?h \<noteq> []" using assms(1) that by (simp add: search_inv_def)
  show ?thesis
  proof (cases "?h = [] \<or> ?m a > top_mask getaddr ip as")
    case True
    note l = longest_snoc_new [OF True has]
    let ?lm = "if ?mt \<ge> 0 then ?mt else is_lowest_metric s"
    have st: "ip_search_step getaddr metric ip a s =
        s\<lparr>is_highest := ?m a, is_lowest_metric := ?lm, is_count := 1, is_ret := ia_index a, is_first := False\<rparr>"
      using True has first hi by (auto simp: ip_search_step_def in_subnet_matches hn Let_def)
    have "leftover getaddr metric ip (as @ [a]) (is_lowest_metric s)"
    proof (cases "?h = []")
      case True
      then show ?thesis using assms(1) by (simp add: search_inv_def leftover_def)
    next
      case False
      then have up: "top_mask getaddr ip as < ?m a" using True by simp
      obtain b where b: "b \<in> set (longest getaddr ip as)" "kept getaddr metric ip as b (is_lowest_metric s)"
        using old_kept [OF False] by blast
      have bh: "b \<in> set ?h" "?m b = top_mask getaddr ip as" using b(1) by (auto simp: longest_def)
      show ?thesis
      proof (cases "0 \<le> metric (ia_index b)")
        case True
        then have "is_lowest_metric s = metric (ia_index b)" using b(2) by (simp add: kept_def)
        then show ?thesis using bh up True unfolding leftover_def l(2) hav by (intro disjI2 bexI [of _ b]) auto
      next
        case False
        then have "leftover getaddr metric ip as (is_lowest_metric s)" using b(2) by (simp add: kept_def)
        then show ?thesis using up unfolding leftover_def l(2) hav by (auto intro: less_trans)
      qed
    qed
    then have "kept getaddr metric ip (as @ [a]) a ?lm" by (simp add: kept_def l(1))
    then show ?thesis using ne l by (simp add: search_inv_def st)
  next
    case False
    then have old: "?h \<noteq> []" "?m a \<le> top_mask getaddr ip as" by auto
    note l = longest_snoc_old [OF old has]
    obtain b where b: "b \<in> set (longest getaddr ip as)" "is_ret s = ia_index b" "kept getaddr metric ip as b (is_lowest_metric s)"
      using old_kept [OF old(1)] by blast
    have ct: "\<not> is_first s" "is_count s = int (length (longest getaddr ip as))"
      using assms(1) old(1) by (simp_all add: search_inv_def)
    have lne: "longest getaddr ip as \<noteq> []" using b(1) by auto
    have lo: "leftover getaddr metric ip as x \<Longrightarrow> leftover getaddr metric ip (as @ [a]) x" for x
      unfolding leftover_def l(2) hav by auto
    show ?thesis
    proof (cases "?m a = top_mask getaddr ip as")
      case eq: True
      have la: "longest getaddr ip (as @ [a]) = longest getaddr ip as @ [a]" using l(1) eq by simp
      have st: "ip_search_step getaddr metric ip a s =
          (if ?mt \<ge> 0 \<and> ?mt < is_lowest_metric s
           then s\<lparr>is_count := is_count s + 1, is_ret := ia_index a, is_lowest_metric := ?mt\<rparr>
           else s\<lparr>is_count := is_count s + 1\<rparr>)"
        using eq has first old(1) hi by (simp add: ip_search_step_def in_subnet_matches hn Let_def)
      show ?thesis
      proof (cases "?mt \<ge> 0 \<and> ?mt < is_lowest_metric s")
        case True
        then have "kept getaddr metric ip (as @ [a]) a ?mt" using b(3) by (fastforce simp: kept_def la)
        then show ?thesis using True ne l ct hi old(1) by (auto simp: search_inv_def st la)
      next
        case False
        then have "kept getaddr metric ip (as @ [a]) b (is_lowest_metric s)"
          using b(3) lo lne by (auto simp: kept_def la split: if_splits)
        then show ?thesis using False ne l ct hi old(1) b(1,2) by (auto simp: search_inv_def st la)
      qed
    next
      case ne': False
      have st: "ip_search_step getaddr metric ip a s = s"
        using ne' old has first hi by (auto simp: ip_search_step_def in_subnet_matches hn Let_def)
      have la: "longest getaddr ip (as @ [a]) = longest getaddr ip as" using l(1) ne' by simp
      have "kept getaddr metric ip (as @ [a]) b (is_lowest_metric s)" using b(3) lo by (auto simp: kept_def la split: if_splits)
      then show ?thesis using ne l ct hi old(1) b(1,2) by (auto simp: search_inv_def st la)
    qed
  qed
qed

text \<open>
  C12: Looking up the adapter of an address is a longest-prefix match. If no subnet of any adapter
  contains the address, the answer is no adapter, count 0 and netmask 0. Otherwise the netmask is
  the greatest one among the subnets that contain the address, the count is how many adapters have
  it, and the adapter is one of them. The metric of an adapter may be unknown (negative, when
  get_interface_metric fails): if the metric of the adapter chosen is known, it is the lowest of the
  known ones among these adapters; if it is not, the adapter is the first of them, and an adapter
  with a known metric was passed over only because that metric is INT_MAX or not below the known
  metric of an adapter with a shorter netmask, which the search has not forgotten. The adapters are
  assumed to have valid indices.
\<close>

theorem adapter_index_longest_prefix:
  assumes "\<forall>a\<in>set as. ia_index a \<noteq> TUN_ADAPTER_INDEX_INVALID"
  shows "if having getaddr ip as = [] then adapter_index_of_ip getaddr metric as ip = (TUN_ADAPTER_INDEX_INVALID, 0, 0)
     else \<exists>a\<in>set (longest getaddr ip as).
       adapter_index_of_ip getaddr metric as ip =
         (ia_index a, int (length (longest getaddr ip as)), top_mask getaddr ip as) \<and>
       (if 0 \<le> metric (ia_index a)
        then \<forall>b\<in>set (longest getaddr ip as). 0 \<le> metric (ia_index b) \<longrightarrow> metric (ia_index a) \<le> metric (ia_index b)
        else a = hd (longest getaddr ip as) \<and>
          (\<forall>b\<in>set (longest getaddr ip as). 0 \<le> metric (ia_index b) \<longrightarrow>
             INT_MAX \<le> metric (ia_index b) \<or>
             (\<exists>c\<in>set (having getaddr ip as). mask_of getaddr ip c < top_mask getaddr ip as \<and>
                0 \<le> metric (ia_index c) \<and> metric (ia_index c) \<le> metric (ia_index b))))"
proof -
  let ?s0 = "\<lparr>is_ret = TUN_ADAPTER_INDEX_INVALID, is_highest = 0, is_lowest_metric = INT_MAX, is_first = True, is_count = 0\<rparr>"
  let ?s = "fold (ip_search_step getaddr metric ip) as ?s0"
  have inv: "search_inv getaddr metric ip as ?s"
  proof (induction as rule: rev_induct)
    case (snoc a as)
    then show ?case using search_step by simp
  qed (simp add: search_inv_def having_def)
  show ?thesis
  proof (cases "having getaddr ip as = []")
    case True
    then show ?thesis using inv by (simp add: search_inv_def adapter_index_of_ip_def Let_def)
  next
    case False
    then obtain a where a: "a \<in> set (longest getaddr ip as)" "is_ret ?s = ia_index a"
        "kept getaddr metric ip as a (is_lowest_metric ?s)" "is_highest ?s = top_mask getaddr ip as"
        "is_count ?s = int (length (longest getaddr ip as))"
      using inv by (auto simp: search_inv_def)
    have "a \<in> set as" using a(1) by (auto simp: longest_def having_def)
    then have "ia_index a \<noteq> TUN_ADAPTER_INDEX_INVALID" using assms by simp
    then have r: "adapter_index_of_ip getaddr metric as ip =
         (ia_index a, int (length (longest getaddr ip as)), top_mask getaddr ip as)"
      using a(2,4,5) by (simp add: adapter_index_of_ip_def Let_def)
    show ?thesis
    proof (cases "0 \<le> metric (ia_index a)")
      case True
      then show ?thesis using False a(1,3) r by (auto simp: kept_def)
    next
      case F: False
      then have k: "a = hd (longest getaddr ip as)" "leftover getaddr metric ip as (is_lowest_metric ?s)"
          "\<forall>b\<in>set (longest getaddr ip as). 0 \<le> metric (ia_index b) \<longrightarrow> is_lowest_metric ?s \<le> metric (ia_index b)"
        using a(3) by (auto simp: kept_def)
      have "\<forall>b\<in>set (longest getaddr ip as). 0 \<le> metric (ia_index b) \<longrightarrow>
             INT_MAX \<le> metric (ia_index b) \<or>
             (\<exists>c\<in>set (having getaddr ip as). mask_of getaddr ip c < top_mask getaddr ip as \<and>
                0 \<le> metric (ia_index c) \<and> metric (ia_index c) \<le> metric (ia_index b))"
        using k(2,3) by (fastforce simp: leftover_def)
      then show ?thesis using False F a(1) r k(1) by auto
    qed
  qed
qed

definition example_texts :: "cstr \<Rightarrow> 32 word option" where
  "example_texts s = (if s = asc ''a'' then Some 0xC0A80001 else if s = asc ''n'' then Some 0xFFFFFF00
     else if s = asc ''b'' then Some 0xC0A80101 else if s = asc ''w'' then Some 0xFFFF0000 else None)"

definition example_adapters :: "ip_adapter_info list" where
  "example_adapters =
     [\<lparr>ia_index = 4, ia_first = (asc ''b'', asc ''w''), ia_rest = [], ia_dhcp_enabled = True\<rparr>,
      \<lparr>ia_index = 7, ia_first = (asc ''x'', asc ''n''), ia_rest = [(asc ''a'', asc ''n'')], ia_dhcp_enabled = False\<rparr>]"

theorem adapter_index_longest_prefix_witness:
  "adapter_index_of_ip example_texts (\<lambda>_. 10) example_adapters 0xC0A80009 = (7, 1, 0xFFFFFF00)"
proof -
  let ?a = "\<lparr>ia_index = 7, ia_first = (asc ''x'', asc ''n''), ia_rest = [(asc ''a'', asc ''n'')], ia_dhcp_enabled = False\<rparr>"
  have h: "having example_texts 0xC0A80009 example_adapters = example_adapters"
    by (simp add: having_def matches_def ia_addrs_def example_adapters_def example_texts_def)
  have m: "map (mask_of example_texts 0xC0A80009) example_adapters = [0xFFFF0000, 0xFFFFFF00]"
    by (simp add: mask_of_def max_mask_def matches_def ia_addrs_def example_adapters_def example_texts_def)
  then have mm: "top_mask example_texts 0xC0A80009 example_adapters = 0xFFFFFF00"
    unfolding top_mask_def h set_map [symmetric] m by simp
  have l: "longest example_texts 0xC0A80009 example_adapters = [?a]"
    using m by (simp add: longest_def mm h) (simp add: example_adapters_def)
  have ok: "\<forall>a\<in>set example_adapters. ia_index a \<noteq> TUN_ADAPTER_INDEX_INVALID"
    by (simp add: example_adapters_def TUN_ADAPTER_INDEX_INVALID_def)
  have ne: "example_adapters \<noteq> []" by (simp add: example_adapters_def)
  show ?thesis using adapter_index_longest_prefix [OF ok, of example_texts "0xC0A80009" "\<lambda>_. 10"] ne
    unfolding h l mm by simp
qed

text \<open>
  The lowest metric is not forgotten when a longer netmask is found on an adapter whose metric is
  not known: an adapter with the same netmask and a known metric is then passed over.
\<close>

lemma leftover_metric:
  "adapter_index_of_ip example_texts (\<lambda>i. if i = 4 then 5 else if i = 7 then -1 else 10)
     (example_adapters @ [\<lparr>ia_index = 9, ia_first = (asc ''a'', asc ''n''), ia_rest = [], ia_dhcp_enabled = False\<rparr>]) 0xC0A80009 =
     (7, 2, 0xFFFFFF00)"
  by (simp add: adapter_index_of_ip_def ip_search_step_def is_ip_in_adapter_subnet_def get_adapter_n_ip_netmask_def
      get_adapter_ip_netmask_def ia_addrs_def example_adapters_def example_texts_def TUN_ADAPTER_INDEX_INVALID_def Let_def
      upt_rec)

end
