(* ===== verification/Misc.thy ===== *)
theory Misc
  imports Text_Laws Env_Laws Decimal Addr_Text
begin

text \<open>
  \<open>src/Treiber/lib/misc.c\<close>: what the program does with text from the other side before it shows or
  uses it (control messages, peer information), arrays of arguments, passwords and challenges. The random
  number generator, base64 and \<open>parse_line\<close> are not in the repository and are arguments.
\<close>

section \<open>Control messages in the log\<close>

definition starts :: "cstr \<Rightarrow> cstr \<Rightarrow> bool" where
  "starts k s \<longleftrightarrow> take (length k) s = k"

text \<open>\<open>show_keys\<close> is \<open>check_debug_level(D_SHOW_KEYS)\<close>. The state is \<open>redact\<close> and \<open>skip\<close>.\<close>

definition sanitize_state :: "bool \<Rightarrow> cstr \<Rightarrow> bool \<times> nat \<Rightarrow> bool \<times> nat" where
  "sanitize_state show_keys src s =
     (let s1 = (if starts (asc ''SESS_ID_'') src then (True, 7)
                else if starts (asc ''echo '') src then (True, 4)
                else if \<not> show_keys \<and> starts (asc ''auth-token '') src then (True, 10)
                else s)
      in if hd src = of_char CHR '','' then (False, 0) else s1)"

fun sanitize_loop :: "bool \<Rightarrow> cstr \<Rightarrow> bool \<times> nat \<Rightarrow> cstr" where
  "sanitize_loop show_keys [] s = []"
| "sanitize_loop show_keys (c # src) s =
     (let (redact, skip) = sanitize_state show_keys (c # src) s
      in if redact
         then if skip > 0 then c # sanitize_loop show_keys src (redact, skip - 1)
              else sanitize_loop show_keys src (redact, skip)
         else c # sanitize_loop show_keys src (redact, skip))"

definition sanitize_control_message ::
  "bool \<Rightarrow> mem \<Rightarrow> cstr \<Rightarrow> gc_arena option \<Rightarrow> fault + ptr \<times> mem \<times> gc_arena option" where
  "sanitize_control_message show_keys m src gc =
     bindE (gc_malloc m (length src + 1) False gc)
       (\<lambda>(ret, m1, gc1). bindE (write_bytes m1 ret (sanitize_loop show_keys src (False, 0) @ [NUL]))
         (\<lambda>m2. Inr (ret, m2, gc1)))"

definition safe_print :: "cstr option \<Rightarrow> fault + cstr option" where
  "safe_print str = string_mod_const str CC_PRINT CC_CRLF (of_char CHR ''.'')"

definition hostname_randomize ::
  "mem \<Rightarrow> byte list \<Rightarrow> cstr \<Rightarrow> gc_arena option \<Rightarrow> fault + ptr \<times> mem \<times> gc_arena option" where
  "hostname_randomize m rnd_bytes hostname gc =
     bindE (alloc_buf_gc m (length hostname + 6 * 2 + 4) gc)
       (\<lambda>(hname, m1, gc1). bindE (format_hex_ex m1 rnd_bytes 40 0 None gc1)
         (\<lambda>(rnd, m2, gc2). bindE (read_cstr m2 (buf_bptr rnd))
           (\<lambda>rnd_str. bindE (buf_printf m2 hname (Some (rnd_str @ [DOT] @ hostname)))
             (\<lambda>(_, hname1, m3). Inr (buf_bptr hname1, m3, gc2)))))"

section \<open>Information from the peer\<close>

definition peer_unsafe :: "byte \<Rightarrow> bool" where
  "peer_unsafe c \<longleftrightarrow> \<not> isprint c \<or> isspace c \<or> c = of_char CHR ''$'' \<or> c = of_char CHR ''('' \<or> c = of_char CHR ''`''"

definition UNDERBAR :: byte where "UNDERBAR = of_char CHR ''_''"
definition EQUALS :: byte where "EQUALS = of_char CHR ''=''"

text \<open>
  The loop of \<open>validate_peer_info_line\<close> on the rest of the line. The first two cases of the \<open>switch\<close>
  fall through into the third, so \<open>here\<close> changes the byte in every state.
\<close>

fun peer_line_loop :: "nat \<Rightarrow> byte list \<Rightarrow> fault + bool \<times> byte list" where
  "peer_line_loop state [] = Inl MemFault"
| "peer_line_loop state (c # line) =
     (let here = (\<lambda>st. bindE (peer_line_loop st line)
                    (\<lambda>(r, line1). Inr (r, (if peer_unsafe c then UNDERBAR else c) # line1)))
      in if c = NUL then Inr (state = 2, c # line)
         else if state = 0 \<or> state = 1
         then if c = EQUALS \<and> state = 1 then here 2
              else if isalnum c \<or> c = UNDERBAR then here 1
              else Inr (False, c # line)
         else here 2)"

definition validate_peer_info_line :: "byte list \<Rightarrow> fault + bool \<times> byte list" where
  "validate_peer_info_line line = peer_line_loop 0 line"

definition IV_PREFIX :: cstr where "IV_PREFIX = asc ''IV_''"
definition UV_PREFIX :: cstr where "UV_PREFIX = asc ''UV_''"

text \<open>Every line read from a buffer takes at least one byte from it, so reading all lines ends.\<close>

lemma buf_read_u8_le: "buf_read_u8 m b = Inr (c, b') \<Longrightarrow> nat (b_len b') \<le> nat (b_len b)"
  by (auto simp: buf_read_u8_def bindE_Inr_iff buf_len_def buf_advance_def split: if_splits)

lemma parse_loop_le:
  "buf_parse_loop m buf d line sz n eol = Inr (buf', line', eol') \<Longrightarrow> nat (b_len buf') \<le> nat (b_len buf)"
proof (induction m buf d line sz n eol rule: buf_parse_loop.induct)
  case (1 m buf d line sz n eol)
  obtain c b where r: "buf_read_u8 m buf = Inr (c, b)"
    using 1(2) by (subst (asm) buf_parse_loop.simps) (auto simp: bindE_Inr_iff)
  have le: "nat (b_len b) \<le> nat (b_len buf)" using buf_read_u8_le [OF r] .
  show ?case
  proof (cases "n \<ge> sz \<or> c \<le> 0 \<or> c = d")
    case True
    then have "buf' = b" using 1(2) r
      by (subst (asm) buf_parse_loop.simps) (auto simp: Let_def bindE_Inr_iff split: if_splits)
    then show ?thesis using le by simp
  next
    case False
    then obtain line1 where a: "arr_set line (nat n) (word_of_int c) = Inr line1"
      and rec: "buf_parse_loop m b d line1 sz (n + 1) eol = Inr (buf', line', eol')"
      using 1(2) r by (subst (asm) buf_parse_loop.simps) (auto simp: Let_def bindE_Inr_iff)
    have "nat (b_len buf') \<le> nat (b_len b)"
      using 1(1) [of "(c, b)" c b eol c line1] r a rec False by simp
    then show ?thesis using le by simp
  qed
qed

lemma buf_parse_dec:
  assumes "buf_parse m buf d line sz = Inr (True, buf', line')"
  shows "nat (b_len buf') < nat (b_len buf)"
proof -
  obtain line1 eol n where p: "buf_parse_loop m buf d line sz 0 False = Inr (buf', line1, eol)" and sz: "sz > 0"
      and l: "arr_set line1 (nat (sz - 1)) NUL = Inr line'" "c_strlen line' = Inr n" "\<not> (eol \<and> n = 0)"
    using assms by (auto simp: buf_parse_def bindE_Inr_iff c_assert_def split: if_splits)
  obtain c b where r: "buf_read_u8 m buf = Inr (c, b)"
    using p by (subst (asm) buf_parse_loop.simps) (auto simp: bindE_Inr_iff)
  show ?thesis
  proof (cases "c < 0")
    case True
    then have "line1 = line[0 := 0] \<and> line \<noteq> [] \<and> eol"
      using p sz r by (subst (asm) buf_parse_loop.simps) (auto simp: Let_def bindE_Inr_iff arr_set_def split: if_splits)
    then have "hd line' = 0" "line' \<noteq> []" using l(1) by (auto simp: arr_set_def hd_conv_nth nth_list_update split: if_splits)
    then have "n = 0" using l(2) by (cases line') (auto simp: c_strlen_def c_string_def split: if_splits)
    then show ?thesis using l(3) \<open>line1 = line[0 := 0] \<and> line \<noteq> [] \<and> eol\<close> by simp
  next
    case False
    then have dec: "nat (b_len b) < nat (b_len buf)" using buf_read_u8_dec [OF r] by simp
    show ?thesis
    proof (cases "c \<le> 0 \<or> c = d")
      case True
      then have "buf' = b" using p sz r False
        by (subst (asm) buf_parse_loop.simps) (auto simp: Let_def bindE_Inr_iff split: if_splits)
      then show ?thesis using dec by simp
    next
      case go: False
      then obtain line2 where "buf_parse_loop m b d line2 sz 1 False = Inr (buf', line1, eol)"
        using p sz r False by (subst (asm) buf_parse_loop.simps) (auto simp: Let_def bindE_Inr_iff)
      then show ?thesis using parse_loop_le dec by fastforce
    qed
  qed
qed

function peer_info_loop :: "mem \<Rightarrow> buffer \<Rightarrow> byte list \<Rightarrow> env_set option \<Rightarrow> fault + env_set option" where
  "peer_info_loop m buf line es =
     (case buf_parse m buf 10 line 256 of
        Inl e \<Rightarrow> Inl e
      | Inr (ok, buf', line') \<Rightarrow>
          if \<not> ok then Inr es
          else bindE (chomp line')
                 (\<lambda>line1. bindE (validate_peer_info_line line1)
                   (\<lambda>(valid, line2).
                      if valid \<and> (starts IV_PREFIX (c_string line2) \<or> starts UV_PREFIX (c_string line2))
                      then bindE (env_set_add es (Some (c_string line2)))
                             (\<lambda>es'. peer_info_loop m buf' line2 (Some es'))
                      else peer_info_loop m buf' line2 es)))"
  by pat_completeness auto
termination
  by (relation "measure (\<lambda>(_, buf, _). nat (b_len buf))") (auto dest: buf_parse_dec)

declare peer_info_loop.simps [simp del]

definition output_peer_info_env :: "mem \<Rightarrow> byte list \<Rightarrow> env_set option \<Rightarrow> ptr \<Rightarrow> fault + env_set option" where
  "output_peer_info_env m line es peer_info =
     bindE (read_cstr m peer_info)
       (\<lambda>s. bindE (buf_set_read peer_info (int (length s))) (\<lambda>buf. peer_info_loop m buf line es))"

definition count_delim :: "cstr \<Rightarrow> byte \<Rightarrow> nat" where
  "count_delim s delimiter = length (List.filter (\<lambda>c. c = delimiter) s)"

definition get_num_elements :: "cstr \<Rightarrow> byte \<Rightarrow> fault + nat" where
  "get_num_elements s delimiter = bindE (c_assert (s \<noteq> [])) (\<lambda>_. Inr (1 + count_delim s delimiter))"

section \<open>Arrays of arguments\<close>

text \<open>
  \<open>MAX_PARMS\<close> and \<open>OPTION_LINE_SIZE\<close> are constants of \<open>options.h\<close>, which is not in the
  repository: \<open>max_parms\<close> and \<open>sz\<close>. \<open>parse_line s n\<close> is the list of the at most \<open>n\<close> parameters that
  \<open>parse_line\<close> of \<open>options.c\<close> finds in \<open>s\<close>. An array of strings is its list of entries.
\<close>

definition make_arg_array ::
  "nat \<Rightarrow> (cstr \<Rightarrow> nat \<Rightarrow> cstr list) \<Rightarrow> cstr option \<Rightarrow> cstr option \<Rightarrow> fault + cstr option list" where
  "make_arg_array MAX_PARMS parse_line first parms =
     (let max_parms = MAX_PARMS + 2;
          ret0 = replicate max_parms None;
          (ret1, base) = (case first of Some f \<Rightarrow> (ret0[0 := Some f], 1) | None \<Rightarrow> (ret0, 0));
          ps = (case parms of Some p \<Rightarrow> parse_line p (max_parms - base - 1) | None \<Rightarrow> []);
          n = length ps
      in bindE (if base + n \<le> max_parms then Inr (overwrite ret1 base (map Some ps)) else Inl MemFault)
           (\<lambda>ret2. bindE (case parms of Some _ \<Rightarrow> c_assert (n + base + 1 \<le> max_parms) | None \<Rightarrow> Inr ())
             (\<lambda>_. if base + n < max_parms then Inr (ret2[base + n := None]) else Inl MemFault)))"

function count_lines :: "mem \<Rightarrow> buffer \<Rightarrow> byte list \<Rightarrow> int \<Rightarrow> nat \<Rightarrow> fault + nat \<times> byte list" where
  "count_lines m buf line sz len =
     (case buf_parse m buf 10 line sz of
        Inl e \<Rightarrow> Inl e
      | Inr (ok, buf', line') \<Rightarrow> if ok then count_lines m buf' line' sz (Suc len) else Inr (len, line'))"
  by pat_completeness auto
termination
  by (relation "measure (\<lambda>(_, buf, _). nat (b_len buf))") (auto dest: buf_parse_dec)

declare count_lines.simps [simp del]

function inline_loop ::
  "mem \<Rightarrow> buffer \<Rightarrow> byte list \<Rightarrow> int \<Rightarrow> nat \<Rightarrow> nat \<Rightarrow> cstr option list \<Rightarrow> fault + cstr option list \<times> nat" where
  "inline_loop m buf line sz len i ret =
     (case buf_parse m buf 10 line sz of
        Inl e \<Rightarrow> Inl e
      | Inr (ok, buf', line') \<Rightarrow>
          if ok
          then bindE (chomp line')
                 (\<lambda>line1. bindE (c_assert (i < len))
                   (\<lambda>_. inline_loop m buf' line1 sz len (Suc i)
                          (ret[i := Some (skip_leading_whitespace (c_string line1))])))
          else Inr (ret, i))"
  by pat_completeness auto
termination
  by (relation "measure (\<lambda>(_, buf, _). nat (b_len buf))") (auto dest: buf_parse_dec)

declare inline_loop.simps [simp del]

definition make_inline_array :: "mem \<Rightarrow> byte list \<Rightarrow> int \<Rightarrow> ptr \<Rightarrow> fault + cstr option list" where
  "make_inline_array m line sz str =
     bindE (read_cstr m str)
       (\<lambda>s. bindE (buf_set_read str (int (length s)))
         (\<lambda>buf. bindE (count_lines m buf line sz 0)
           (\<lambda>(len, line1). bindE (inline_loop m buf line1 sz len 0 (replicate (len + 1) None))
             (\<lambda>(ret, i). bindE (c_assert (i \<le> len)) (\<lambda>_. Inr (ret[i := None]))))))"

fun copy_entries :: "cstr option list \<Rightarrow> cstr option list \<Rightarrow> nat \<Rightarrow> nat \<Rightarrow> cstr option list" where
  "copy_entries ret p i 0 = ret"
| "copy_entries ret p i (Suc n) = copy_entries (ret[i := p ! i]) p (Suc i) n"

definition make_arg_copy :: "cstr option list \<Rightarrow> fault + cstr option list" where
  "make_arg_copy p =
     bindE (string_array_len (Some p)) (\<lambda>len. Inr (copy_entries (replicate (len + 1) None) p 0 len))"

text \<open>\<open>p0\<close> is where \<open>p[0]\<close> points, which only the inline case reads as text of its own.\<close>

definition make_extended_arg_array ::
  "mem \<Rightarrow> nat \<Rightarrow> (cstr \<Rightarrow> nat \<Rightarrow> cstr list) \<Rightarrow> byte list \<Rightarrow> int \<Rightarrow> cstr option list \<Rightarrow> ptr \<Rightarrow> bool \<Rightarrow>
     fault + cstr option list" where
  "make_extended_arg_array m MAX_PARMS parse_line line sz p p0 is_inline =
     bindE (string_array_len (Some p))
       (\<lambda>argc. if is_inline then make_inline_array m line sz p0
               else if argc = 0 then make_arg_array MAX_PARMS parse_line None None
               else if argc = 1 then make_arg_array MAX_PARMS parse_line (p ! 0) None
               else if argc = 2 then make_arg_array MAX_PARMS parse_line (p ! 0) (p ! 1)
               else make_arg_copy p)"

section \<open>Passwords\<close>

definition USER_PASS_LEN :: nat where "USER_PASS_LEN = 4096"

record user_pass =
  up_defined :: bool
  up_nocache :: bool
  up_wait_for_push :: bool
  up_username :: "byte list"
  up_password :: "byte list"

text \<open>\<open>warn_shown\<close> is the static variable of \<open>purge_user_pass\<close>.\<close>

definition purge_user_pass :: "bool \<Rightarrow> user_pass \<Rightarrow> bool \<Rightarrow> user_pass \<times> bool" where
  "purge_user_pass warn_shown up force =
     (if up_nocache up \<or> force
      then (\<lparr>up_defined = False, up_nocache = up_nocache up, up_wait_for_push = False,
             up_username = replicate (length (up_username up)) 0,
             up_password = replicate (length (up_password up)) 0\<rparr>, warn_shown)
      else (up, True))"

definition set_auth_token ::
  "bool \<Rightarrow> user_pass option \<Rightarrow> user_pass \<Rightarrow> cstr option \<Rightarrow> fault + user_pass \<times> user_pass \<times> bool" where
  "set_auth_token warn_shown up tk token =
     (let tk1 = (case (token, up) of
                   (Some t, Some u) \<Rightarrow>
                     if t \<noteq> [] \<and> up_defined u
                     then tk\<lparr>up_password := strncpynt_bytes t USER_PASS_LEN,
                             up_username := strncpynt_bytes (c_string (up_username u)) USER_PASS_LEN,
                             up_defined := True\<rparr>
                     else tk
                 | _ \<Rightarrow> tk)
      in case up of
           None \<Rightarrow> Inl MemFault
         | Some u \<Rightarrow> (let (u', w) = purge_user_pass warn_shown u False in Inr (u', tk1, w)))"

section \<open>Challenges\<close>

definition CR_ECHO :: "32 word" where "CR_ECHO = 1"
definition CR_RESPONSE :: "32 word" where "CR_RESPONSE = 2"

record auth_challenge_info =
  ac_flags :: "32 word"
  ac_user :: ptr
  ac_state_id :: ptr
  ac_challenge_text :: ptr

fun challenge_flags :: "cstr \<Rightarrow> 32 word \<Rightarrow> 32 word" where
  "challenge_flags [] f = f"
| "challenge_flags (c # cp) f =
     challenge_flags cp (if c = of_char CHR ''E'' then f OR CR_ECHO
                         else if c = of_char CHR ''R'' then f OR CR_RESPONSE else f)"

text \<open>
  \<open>decode s\<close> are the bytes that \<open>openvpn_base64_decode\<close> stores for the text \<open>s\<close>. The scratch array
  \<open>work\<close> has \<open>len + 1\<close> bytes, and nothing points at it when the function returns.
\<close>

definition COLON :: int where "COLON = 58"

definition get_auth_challenge ::
  "(cstr \<Rightarrow> byte list) \<Rightarrow> mem \<Rightarrow> ptr \<Rightarrow> gc_arena option \<Rightarrow>
     fault + auth_challenge_info option \<times> mem \<times> gc_arena option" where
  "get_auth_challenge decode m auth_challenge gc =
     (if auth_challenge = Null then Inr (None, m, gc)
      else bindE (read_cstr m auth_challenge)
        (\<lambda>s. let len = int (length s) in
          bindE (gc_malloc m (length s + 1) False gc)
        (\<lambda>(wp, m1, gc1). bindE (read_bytes m1 wp (len + 1))
        (\<lambda>work. bindE (buf_set_read auth_challenge len)
        (\<lambda>b. bindE (gc_malloc m1 32 True gc1)
        (\<lambda>(_, m2, gc2). bindE (buf_parse m2 b COLON work len)
        (\<lambda>(ok, b1, work1). if \<not> ok \<or> c_string work1 \<noteq> asc ''CRV1'' then Inr (None, m2, gc2)
          else bindE (buf_parse m2 b1 COLON work1 len)
        (\<lambda>(ok, b2, work2). if \<not> ok then Inr (None, m2, gc2)
          else bindE (buf_parse m2 b2 COLON work2 len)
        (\<lambda>(ok, b3, work3). if \<not> ok then Inr (None, m2, gc2)
          else bindE (string_alloc m2 (Some (c_string work3)) gc2)
        (\<lambda>(state_id, m3, gc3). bindE (buf_parse m3 b3 COLON work3 len)
        (\<lambda>(ok, b4, work4). if \<not> ok then Inr (None, m3, gc3)
          else bindE (gc_malloc m3 (length (c_string work4) + 1) True gc3)
        (\<lambda>(user, m4, gc4). bindE (write_bytes m4 user (decode (c_string work4)))
        (\<lambda>m5. bindE (read_cstr m5 (buf_bptr b4))
        (\<lambda>text. bindE (string_alloc m5 (Some text) gc4)
        (\<lambda>(challenge_text, m6, gc5).
          Inr (Some \<lparr>ac_flags = challenge_flags (c_string work2) 0, ac_user = user, ac_state_id = state_id,
                     ac_challenge_text = challenge_text\<rparr>, m6, gc5))))))))))))))))"

section \<open>Asking for a password\<close>

text \<open>
  The management interface, the console, base64 and the files of the host are not in the repository:
  \<open>mgmt\<close> says that there is an interface that answers password queries (\<open>management\<close> is not NULL and
  \<open>management_query_user_pass_enabled\<close>), \<open>mgmt_query\<close> is \<open>management_query_user_pass\<close>, \<open>single\<close> and
  \<open>exec\<close> are \<open>query_user_SINGLE\<close> and \<open>query_user_exec\<close> on the queries added since the last clear (prompt,
  array, echo), \<open>auth_content\<close> is the content of a file as the stream gives it.
\<close>

record pass_io =
  mgmt :: bool
  mgmt_query :: "user_pass \<Rightarrow> cstr \<Rightarrow> cstr option \<Rightarrow> bool \<times> user_pass"
  single :: "cstr \<Rightarrow> byte list \<Rightarrow> bool \<Rightarrow> bool \<times> byte list"
  exec :: "(cstr \<times> byte list \<times> bool) list \<Rightarrow> bool \<times> byte list list"
  auth_content :: "cstr \<Rightarrow> byte list option"
  b64_encode :: "cstr \<Rightarrow> cstr option"
  b64_decode :: "cstr \<Rightarrow> byte list"

type_synonym flags = "32 word"

definition GET_USER_PASS_MANAGEMENT :: flags where "GET_USER_PASS_MANAGEMENT = push_bit 0 1"
definition GET_USER_PASS_PASSWORD_ONLY :: flags where "GET_USER_PASS_PASSWORD_ONLY = push_bit 2 1"
definition GET_USER_PASS_NEED_OK :: flags where "GET_USER_PASS_NEED_OK = push_bit 3 1"
definition GET_USER_PASS_NOFATAL :: flags where "GET_USER_PASS_NOFATAL = push_bit 4 1"
definition GET_USER_PASS_DYNAMIC_CHALLENGE :: flags where "GET_USER_PASS_DYNAMIC_CHALLENGE = push_bit 7 1"
definition GET_USER_PASS_STATIC_CHALLENGE :: flags where "GET_USER_PASS_STATIC_CHALLENGE = push_bit 8 1"
definition GET_USER_PASS_STATIC_CHALLENGE_ECHO :: flags where "GET_USER_PASS_STATIC_CHALLENGE_ECHO = push_bit 9 1"
definition GET_USER_PASS_INLINE_CREDS :: flags where "GET_USER_PASS_INLINE_CREDS = push_bit 10 1"

abbreviation on :: "flags \<Rightarrow> flags \<Rightarrow> bool" where "on fs f \<equiv> fs AND f \<noteq> 0"

definition auth_user_pass_mgmt ::
  "pass_io \<Rightarrow> user_pass \<Rightarrow> cstr \<Rightarrow> flags \<Rightarrow> cstr option \<Rightarrow> fault + bool \<times> user_pass" where
  "auth_user_pass_mgmt io up pref fl auth_challenge =
     (let sc = (if auth_challenge \<noteq> None \<and> on fl GET_USER_PASS_STATIC_CHALLENGE then auth_challenge else None);
          (ok, up1) = mgmt_query io up pref sc
      in if \<not> ok then (if on fl GET_USER_PASS_NOFATAL then Inr (False, up1) else Inl Fatal)
         else Inr (True, up1))"

text \<open>\<open>fgets(arr, n, fp)\<close>: the line without more than \<open>n - 1\<close> bytes, and the rest of the file.\<close>

fun take_line :: "nat \<Rightarrow> byte list \<Rightarrow> byte list \<times> byte list" where
  "take_line 0 f = ([], f)"
| "take_line (Suc n) [] = ([], [])"
| "take_line (Suc n) (c # f) =
     (if c = 10 then ([c], f) else (let (a, r) = take_line n f in (c # a, r)))"

definition fgets :: "byte list \<Rightarrow> nat \<Rightarrow> byte list \<Rightarrow> (byte list \<times> byte list) option" where
  "fgets arr n f =
     (if f = [] then None
      else (let (a, r) = take_line (n - 1) f in Some (overwrite arr 0 (a @ [NUL]), r)))"

text \<open>The first component of the result is whether the function returns false here.\<close>

definition read_auth_file ::
  "pass_io \<Rightarrow> user_pass \<Rightarrow> cstr \<Rightarrow> cstr \<Rightarrow> flags \<Rightarrow> cstr option \<Rightarrow> fault + bool \<times> user_pass \<times> bool" where
  "read_auth_file io up file pref fl auth_challenge =
     (case auth_content io file of
        None \<Rightarrow> Inl Fatal
      | Some f \<Rightarrow>
          bindE (if \<not> on fl GET_USER_PASS_PASSWORD_ONLY
                 then (case fgets (up_username up) USER_PASS_LEN f of
                         None \<Rightarrow> Inl Fatal
                       | Some (u, r) \<Rightarrow> Inr (u, r))
                 else Inr (up_username up, f))
        (\<lambda>(u, f1). bindE (chomp u)
        (\<lambda>u1. bindE (case fgets (replicate USER_PASS_LEN 0) USER_PASS_LEN f1 of
                       None \<Rightarrow> Inr (replicate USER_PASS_LEN 0)
                     | Some (p, _) \<Rightarrow> chomp p)
        (\<lambda>pb. let up1 = up\<lparr>up_username := u1\<rparr> in
          if on fl GET_USER_PASS_PASSWORD_ONLY \<and> hd pb = 0 then Inl Fatal
          else bindE
            (if hd pb \<noteq> 0
             then Inr (False, up1\<lparr>up_password := overwrite (up_password up1) 0
                          (take USER_PASS_LEN (c_string pb @ replicate USER_PASS_LEN 0))\<rparr>, False)
             else if mgmt io \<and> on fl GET_USER_PASS_MANAGEMENT
             then bindE (auth_user_pass_mgmt io up1 pref fl auth_challenge)
                    (\<lambda>(ok, up2). Inr (\<not> ok, up2, False))
             else Inr (False, up1, True))
            (\<lambda>(ret, up2, from_stdin).
               if ret then Inr (True, up2, from_stdin)
               else bindE (c_strlen (up_username up2))
                 (\<lambda>n. if \<not> on fl GET_USER_PASS_PASSWORD_ONLY \<and> n = 0 then Inl Fatal
                       else Inr (False, up2, from_stdin)))))))"

text \<open>A prompt is formatted into a buffer of the arena and shown from there.\<close>

definition prompt :: "mem \<Rightarrow> nat \<Rightarrow> cstr \<Rightarrow> gc_arena option \<Rightarrow> fault + cstr \<times> mem \<times> gc_arena option" where
  "prompt m n txt gc =
     bindE (alloc_buf_gc m n gc)
       (\<lambda>(b, m1, gc1). bindE (buf_printf m1 b (Some txt))
         (\<lambda>(_, b1, m2). bindE (read_cstr m2 (buf_bptr b1)) (\<lambda>s. Inr (s, m2, gc1))))"

text \<open>Formatting into an array of the structure through a buffer set on it.\<close>

definition print_into :: "mem \<Rightarrow> byte list \<Rightarrow> cstr \<Rightarrow> fault + byte list \<times> mem" where
  "print_into m arr txt =
     (let p = Ptr (nxt m) 0; n = int (length arr);
          m1 = m\<lparr>blocks := (blocks m)(nxt m \<mapsto> arr), nxt := Suc (nxt m)\<rparr>
      in bindE (buf_set_write m1 p n)
           (\<lambda>(b, m2). bindE (buf_printf m2 b (Some txt))
             (\<lambda>(_, _, m3). bindE (read_bytes m3 p n) (\<lambda>arr1. Inr (arr1, m3)))))"

definition dynamic_response ::
  "pass_io \<Rightarrow> mem \<Rightarrow> gc_arena option \<Rightarrow> user_pass \<Rightarrow> ptr \<Rightarrow> fault + user_pass \<times> mem \<times> gc_arena option" where
  "dynamic_response io m gc up auth_challenge =
     bindE (get_auth_challenge (b64_decode io) m auth_challenge gc)
       (\<lambda>(ac, m1, gc1). case ac of
          None \<Rightarrow> Inl Fatal
        | Some a \<Rightarrow>
            bindE (gc_malloc m1 USER_PASS_LEN False gc1)
          (\<lambda>(rp, m2, gc2). bindE (read_bytes m2 rp (int USER_PASS_LEN))
          (\<lambda>resp0. bindE (read_cstr m2 (ac_challenge_text a))
          (\<lambda>text. bindE (prompt m2 (14 + length text) (asc ''CHALLENGE: '' @ text) gc2)
          (\<lambda>(pr, m3, gc3). let (ok, resp) = single io pr resp0 (ac_flags a AND CR_ECHO \<noteq> 0) in
            if \<not> ok then Inl Fatal
            else bindE (read_cstr m3 (ac_user a))
          (\<lambda>user. bindE (read_cstr m3 (ac_state_id a))
          (\<lambda>sid. bindE (c_strlen resp)
          (\<lambda>_. bindE (print_into m3 (up_password up) (asc ''CRV1::'' @ sid @ asc ''::'' @ c_string resp))
          (\<lambda>(pw, m4). Inr (up\<lparr>up_username := strncpynt_bytes user USER_PASS_LEN, up_password := pw\<rparr>, m4, gc3))))))))))"

definition static_response ::
  "pass_io \<Rightarrow> mem \<Rightarrow> gc_arena option \<Rightarrow> user_pass \<Rightarrow> flags \<Rightarrow> cstr \<Rightarrow> fault + user_pass \<times> mem \<times> gc_arena option" where
  "static_response io m gc up fl auth_challenge =
     bindE (gc_malloc m USER_PASS_LEN False gc)
       (\<lambda>(rp, m1, gc1). bindE (read_bytes m1 rp (int USER_PASS_LEN))
       (\<lambda>resp0. bindE (prompt m1 (14 + length auth_challenge) (asc ''CHALLENGE: '' @ auth_challenge) gc1)
       (\<lambda>(pr, m2, gc2). let (ok, resp) = single io pr resp0 (on fl GET_USER_PASS_STATIC_CHALLENGE_ECHO) in
         if \<not> ok then Inl Fatal
         else bindE (c_strlen (up_password up))
       (\<lambda>_. bindE (c_strlen resp)
       (\<lambda>_. case (b64_encode io (c_string (up_password up)), b64_encode io (c_string resp)) of
          (Some pw64, Some resp64) \<Rightarrow>
            bindE (print_into m2 (up_password up) (asc ''SCRV1:'' @ pw64 @ asc '':'' @ resp64))
              (\<lambda>(pw, m3). Inr (up\<lparr>up_password := pw\<rparr>, m3, gc2))
        | _ \<Rightarrow> Inl Fatal)))))"

definition console_query ::
  "pass_io \<Rightarrow> mem \<Rightarrow> gc_arena option \<Rightarrow> user_pass \<Rightarrow> cstr \<Rightarrow> flags \<Rightarrow> bool \<Rightarrow> bool \<Rightarrow>
     fault + user_pass \<times> mem \<times> gc_arena option" where
  "console_query io m gc up pref fl username_from_stdin password_from_stdin =
     bindE (prompt m 128 (asc ''Enter '' @ pref @ asc '' Username:'') gc)
       (\<lambda>(user_prompt, m1, gc1). bindE (prompt m1 128 (asc ''Enter '' @ pref @ asc '' Password:'') gc1)
       (\<lambda>(pass_prompt, m2, gc2).
          let ask_user = username_from_stdin \<and> \<not> on fl GET_USER_PASS_PASSWORD_ONLY;
              (ok, answers) = exec io
                ((if ask_user then [(user_prompt, up_username up, True)] else []) @
                 (if password_from_stdin then [(pass_prompt, up_password up, False)] else []));
              up1 = (if ask_user then up\<lparr>up_username := answers ! 0\<rparr> else up);
              up2 = (if password_from_stdin then up1\<lparr>up_password := answers ! (if ask_user then 1 else 0)\<rparr> else up1)
          in if \<not> ok then Inl Fatal
             else if \<not> on fl GET_USER_PASS_PASSWORD_ONLY
             then bindE (c_strlen (up_username up2)) (\<lambda>n. if n = 0 then Inl Fatal else Inr (up2, m2, gc2))
             else Inr (up2, m2, gc2)))"

text \<open>
  The first part of \<open>get_user_pass_cr\<close>: where the credentials come from. The result says whether the
  function returns false, and the three flags \<open>username_from_stdin\<close>, \<open>password_from_stdin\<close> and
  \<open>response_from_stdin\<close>.
\<close>

type_synonym source = "bool \<times> user_pass \<times> bool \<times> bool \<times> bool \<times> mem \<times> gc_arena option"

definition need_ok ::
  "pass_io \<Rightarrow> mem \<Rightarrow> gc_arena option \<Rightarrow> user_pass \<Rightarrow> cstr \<Rightarrow> fault + user_pass \<times> mem \<times> gc_arena option" where
  "need_ok io m gc up pref =
     bindE (c_strlen (up_username up))
       (\<lambda>_. bindE (prompt m 128 (asc ''NEED-OK|'' @ pref @ asc ''|'' @ c_string (up_username up) @ asc '':'') gc)
       (\<lambda>(user_prompt, m1, gc1). let (ok, pw) = single io user_prompt (up_password up) False in
          if \<not> ok then Inl Fatal
          else bindE (c_strlen pw)
            (\<lambda>n. if n = 0
                  then (if 3 \<le> length pw then Inr (up\<lparr>up_password := overwrite pw 0 (asc ''ok'' @ [NUL])\<rparr>, m1, gc1)
                        else Inl MemFault)
                  else Inr (up\<lparr>up_password := pw\<rparr>, m1, gc1))))"

definition inline_creds :: "mem \<Rightarrow> user_pass \<Rightarrow> ptr \<Rightarrow> flags \<Rightarrow> fault + user_pass" where
  "inline_creds m up auth_file fl =
     bindE (read_cstr m auth_file)
       (\<lambda>s. bindE (buf_set_read auth_file (int (length s) + 1))
       (\<lambda>buf. bindE (if \<not> on fl GET_USER_PASS_PASSWORD_ONLY
                     then bindE (buf_parse m buf 10 (up_username up) (int USER_PASS_LEN))
                            (\<lambda>(_, buf1, u). Inr (buf1, u))
                     else Inr (buf, up_username up))
       (\<lambda>(buf1, u). bindE (buf_parse m buf1 10 (up_password up) (int USER_PASS_LEN))
       (\<lambda>(_, _, p). Inr (up\<lparr>up_username := u, up_password := p\<rparr>)))))"

definition text_at :: "mem \<Rightarrow> ptr \<Rightarrow> fault + cstr option" where
  "text_at m p = (if p = Null then Inr None else bindE (read_cstr m p) (\<lambda>s. Inr (Some s)))"

definition pass_source ::
  "pass_io \<Rightarrow> mem \<Rightarrow> gc_arena option \<Rightarrow> user_pass \<Rightarrow> ptr \<Rightarrow> cstr \<Rightarrow> flags \<Rightarrow> ptr \<Rightarrow> fault + source" where
  "pass_source io m gc up auth_file pref fl auth_challenge =
     bindE (text_at m auth_file)
     (\<lambda>file. bindE (text_at m auth_challenge)
     (\<lambda>challenge.
        let from_authfile = (file \<noteq> None \<and> file \<noteq> Some (asc ''stdin'')) in
        if mgmt io \<and> \<not> from_authfile \<and> on fl GET_USER_PASS_MANAGEMENT
        then bindE (auth_user_pass_mgmt io up pref fl challenge)
               (\<lambda>(ok, up1). Inr (\<not> ok, up1, False, False, False, m, gc))
        else if on fl GET_USER_PASS_NEED_OK
        then bindE (need_ok io m gc up pref)
               (\<lambda>(up1, m1, gc1). Inr (False, up1, False, False, True, m1, gc1))
        else if on fl GET_USER_PASS_INLINE_CREDS
        then bindE (inline_creds m up auth_file fl) (\<lambda>up1. Inr (False, up1, False, False, True, m, gc))
        else if from_authfile \<and> \<not> on fl GET_USER_PASS_DYNAMIC_CHALLENGE
        then bindE (read_auth_file io up (the file) pref fl challenge)
               (\<lambda>(ret, up1, p). Inr (ret, up1, False, p, True, m, gc))
        else Inr (False, up, True, True, True, m, gc)))"

definition ask_console ::
  "pass_io \<Rightarrow> mem \<Rightarrow> gc_arena option \<Rightarrow> user_pass \<Rightarrow> cstr \<Rightarrow> flags \<Rightarrow> ptr \<Rightarrow> bool \<Rightarrow> bool \<Rightarrow> bool \<Rightarrow>
     fault + user_pass \<times> mem \<times> gc_arena option" where
  "ask_console io m gc up pref fl auth_challenge username_from_stdin password_from_stdin response_from_stdin =
     (if auth_challenge \<noteq> Null \<and> on fl GET_USER_PASS_DYNAMIC_CHALLENGE \<and> response_from_stdin
      then dynamic_response io m gc up auth_challenge
      else bindE (console_query io m gc up pref fl username_from_stdin password_from_stdin)
        (\<lambda>(up1, m1, gc1).
           if auth_challenge \<noteq> Null \<and> on fl GET_USER_PASS_STATIC_CHALLENGE \<and> response_from_stdin
           then bindE (read_cstr m1 auth_challenge) (\<lambda>s. static_response io m1 gc1 up1 fl s)
           else Inr (up1, m1, gc1)))"

definition release :: "mem \<Rightarrow> gc_arena option \<Rightarrow> fault + mem" where
  "release m gc = (case gc of None \<Rightarrow> Inr m | Some a \<Rightarrow> bindE (gc_free m a) (\<lambda>(m1, _, _). Inr m1))"

definition get_user_pass_cr ::
  "pass_io \<Rightarrow> mem \<Rightarrow> user_pass \<Rightarrow> ptr \<Rightarrow> cstr \<Rightarrow> flags \<Rightarrow> ptr \<Rightarrow> fault + bool \<times> user_pass \<times> mem" where
  "get_user_pass_cr io m up auth_file pref fl auth_challenge =
     (if up_defined up then bindE (release m (Some gc_new)) (\<lambda>m1. Inr (True, up, m1))
      else bindE (pass_source io m (Some gc_new) up auth_file pref fl auth_challenge)
        (\<lambda>(ret, up1, user_in, pass_in, resp_in, m1, gc1).
           if ret then Inr (False, up1, m1)
           else bindE (if user_in \<or> pass_in \<or> resp_in
                       then ask_console io m1 gc1 up1 pref fl auth_challenge user_in pass_in resp_in
                       else Inr (up1, m1, gc1))
             (\<lambda>(up2, m2, gc2). bindE (string_mod (up_username up2) CC_PRINT CC_CRLF 0)
             (\<lambda>(u, _). bindE (string_mod (up_password up2) CC_PRINT CC_CRLF 0)
             (\<lambda>(p, _). bindE (release m2 gc2)
             (\<lambda>m3. Inr (True, up2\<lparr>up_username := u, up_password := p, up_defined := True\<rparr>, m3)))))))"

definition get_user_pass :: "pass_io \<Rightarrow> mem \<Rightarrow> user_pass \<Rightarrow> ptr \<Rightarrow> cstr \<Rightarrow> flags \<Rightarrow> fault + bool \<times> user_pass \<times> mem" where
  "get_user_pass io m up auth_file pref fl = get_user_pass_cr io m up auth_file pref fl Null"

end
