(* ===== verification/Misc_Laws.thy ===== *)
theory Misc_Laws
  imports Misc
begin

text \<open>
  Lemmas and properties of the helpers of \<open>Misc\<close>: no secret of a control message reaches the log, a peer
  changes only its own variables of the environment, an inline block becomes its lines, credentials come
  from the first two lines of a file, and a dynamic challenge is taken apart into its fields.
\<close>

section \<open>Secrets in control messages\<close>

lemma starts_simps [simp]:
  "starts [] s"
  "\<not> starts (a # k) []"
  "starts (a # k) (c # s) \<longleftrightarrow> a = c \<and> starts k s"
  by (auto simp: starts_def)

lemma starts_append: "starts k s \<Longrightarrow> starts k (s @ t)"
  by (metis append_eq_conv_conj append_take_drop_id append.assoc starts_def)

lemma starts_shorter:
  assumes "length w \<le> length a" shows "starts w (a @ t) = starts w (a @ u)"
  using assms by (simp add: starts_def)

lemma sanitize_loop_step:
  "sanitize_state sk (c # src) s = (r, k) \<Longrightarrow>
     sanitize_loop sk (c # src) s =
       (if r then if k > 0 then c # sanitize_loop sk src (r, k - 1) else sanitize_loop sk src (r, k)
        else c # sanitize_loop sk src (r, k))"
  by simp

lemma starts_before:
  "starts k (s @ t) \<Longrightarrow> t = [] \<or> hd t \<notin> set k \<Longrightarrow> starts k s"
proof (induction s arbitrary: k)
  case Nil
  then show ?case by (cases k; cases t) auto
next
  case (Cons a s)
  then show ?case by (cases k) auto
qed

text \<open>The words behind which the rest of an item is hidden.\<close>

definition redact_words :: "bool \<Rightarrow> cstr set" where
  "redact_words show_keys =
     {asc ''SESS_ID_'', asc ''echo ''} \<union> (if show_keys then {} else {asc ''auth-token ''})"

definition quiet :: "bool \<Rightarrow> cstr \<Rightarrow> bool" where
  "quiet show_keys s \<longleftrightarrow> (\<forall>n < length s. \<forall>w \<in> redact_words show_keys. \<not> starts w (drop n s))"

lemma quiet_Cons:
  "quiet sk (c # s) \<longleftrightarrow> (\<forall>w \<in> redact_words sk. \<not> starts w (c # s)) \<and> quiet sk s"
proof -
  have "(\<forall>n < Suc k. P n) \<longleftrightarrow> P 0 \<and> (\<forall>n < k. P (Suc n))" for P k using less_Suc_eq_0_disj by auto
  then show ?thesis unfolding quiet_def by simp
qed

lemma sanitize_state_cong:
  assumes "hd s = hd t" and "\<And>w. w \<in> redact_words sk \<Longrightarrow> starts w s = starts w t"
  shows "sanitize_state sk s r = sanitize_state sk t r"
  using assms by (auto simp: sanitize_state_def redact_words_def Let_def)

lemma sanitize_state_quiet:
  assumes "\<And>w. w \<in> redact_words sk \<Longrightarrow> \<not> starts w s" and "hd s \<noteq> of_char CHR '',''"
  shows "sanitize_state sk s r = r"
proof -
  have "\<not> starts (asc ''SESS_ID_'') s" "\<not> starts (asc ''echo '') s" "sk \<or> \<not> starts (asc ''auth-token '') s"
    using assms(1) unfolding redact_words_def by (blast, blast, force)
  then show ?thesis using assms(2) unfolding sanitize_state_def Let_def by (simp only: if_False simp_thms) auto
qed

lemma words_comma: "w \<in> redact_words sk \<Longrightarrow> of_char CHR '','' \<notin> set w"
  by (auto simp: redact_words_def split: if_splits)

lemma sanitize_secret:
  assumes "quiet sk secret" and "of_char CHR '','' \<notin> set secret" and "post = [] \<or> hd post = of_char CHR '',''"
  shows "sanitize_loop sk (secret @ post) (True, 0) = sanitize_loop sk post (True, 0)"
  using assms(1,2)
proof (induction secret)
  case (Cons c s)
  have "\<not> starts w (c # s @ post)" if w: "w \<in> redact_words sk" for w
  proof
    assume "starts w (c # s @ post)"
    then have "starts w (c # s)" using starts_before [of w "c # s" post] words_comma [OF w] assms(3) by auto
    then show False using Cons.prems(1) w by (simp add: quiet_Cons)
  qed
  then have "sanitize_state sk (c # s @ post) (True, 0) = (True, 0)"
    using Cons.prems(2) by (intro sanitize_state_quiet) auto
  then have "sanitize_loop sk ((c # s) @ post) (True, 0) = sanitize_loop sk (s @ post) (True, 0)"
    using sanitize_loop_step [of sk c "s @ post" "(True, 0)" True 0] by (simp del: sanitize_loop.simps)
  moreover have "sanitize_loop sk (s @ post) (True, 0) = sanitize_loop sk post (True, 0)"
    using Cons.prems by (intro Cons.IH) (simp_all add: quiet_Cons)
  ultimately show ?case by simp
qed simp

lemma sanitize_word_SESS: "sanitize_loop sk (asc ''SESS_ID_'' @ t) s = asc ''SESS_ID'' @ sanitize_loop sk t (True, 0)"
  by (simp add: sanitize_state_def Let_def)

lemma sanitize_word_echo: "sanitize_loop sk (asc ''echo '' @ t) s = asc ''echo'' @ sanitize_loop sk t (True, 0)"
  by (simp add: sanitize_state_def Let_def)

lemma sanitize_word_auth:
  "sanitize_loop False (asc ''auth-token '' @ t) s = asc ''auth-token'' @ sanitize_loop False t (True, 0)"
  by (simp add: sanitize_state_def Let_def)

lemma sanitize_word:
  assumes "w \<in> redact_words sk"
  shows "sanitize_loop sk (w @ t) s = butlast w @ sanitize_loop sk t (True, 0)"
proof -
  consider "w = asc ''SESS_ID_''" | "w = asc ''echo ''" | "w = asc ''auth-token ''" "\<not> sk"
    using assms by (auto simp: redact_words_def split: if_splits)
  then show ?thesis
  proof cases
    case 1
    then show ?thesis using sanitize_word_SESS [of sk t s] by (simp del: sanitize_loop.simps)
  next
    case 2
    then show ?thesis using sanitize_word_echo [of sk t s] by (simp del: sanitize_loop.simps)
  next
    case 3
    then show ?thesis using sanitize_word_auth [of t s] by (simp del: sanitize_loop.simps)
  qed
qed

lemma words_length: "w \<in> redact_words sk \<Longrightarrow> length w \<le> 11"
  by (auto simp: redact_words_def split: if_splits)

lemma upto_11: "1 \<le> n \<Longrightarrow> n \<le> 11 \<Longrightarrow> n \<in> {1, 2, 3, 4, 5, 6, 7, 8, 9, 10, 11 :: nat}"
  by simp presburger

lemma take_past:
  "length xs + length ys \<le> n \<Longrightarrow> take n (xs @ ys @ t) = xs @ ys @ take (n - length xs - length ys) t"
  by simp

lemma word_inside:
  assumes "w \<in> redact_words sk" and "kw \<in> redact_words sk" and "starts w (c # pre @ kw @ t)"
  shows "length w \<le> length (c # pre @ kw)"
proof (rule ccontr)
  assume l: "\<not> length w \<le> length (c # pre @ kw)"
  have "w = take (length w) ((c # pre) @ kw @ t)" using assms(3) by (simp add: starts_def)
  then have w: "w = (c # pre) @ kw @ take (length w - length (c # pre) - length kw) t"
    using l take_past [of "c # pre" kw "length w" t] by simp
  have "take (length kw) (drop (length (c # pre)) w) = kw" by (subst w) simp
  moreover have "length (c # pre) + length kw < length w" using l by simp
  moreover have "length (c # pre) \<in> {1, 2, 3, 4, 5, 6, 7, 8, 9, 10, 11}"
    using l words_length [OF assms(1)] by (intro upto_11) simp_all
  ultimately show False using assms(1,2) by (auto simp: redact_words_def split: if_splits)
qed

lemma sanitize_loop_hides:
  assumes "kw \<in> redact_words sk" and "quiet sk secret" and "of_char CHR '','' \<notin> set secret"
    and "post = [] \<or> hd post = of_char CHR '',''"
  shows "sanitize_loop sk (pre @ kw @ secret @ post) s = sanitize_loop sk (pre @ kw @ post) s"
proof (induction pre arbitrary: s)
  case Nil
  show ?case using sanitize_secret [OF assms(2-4)] by (simp add: sanitize_word [OF assms(1)])
next
  case (Cons c pre)
  have "starts w (c # pre @ kw @ secret @ post) = starts w (c # pre @ kw @ post)" if w: "w \<in> redact_words sk" for w
  proof -
    have "starts w (c # pre @ kw @ t) = starts w (c # pre @ kw @ u)" if "starts w (c # pre @ kw @ t)" for t u
      using starts_shorter [OF word_inside [OF w assms(1) that], of t u] by simp
    then show ?thesis by blast
  qed
  then have "sanitize_state sk (c # pre @ kw @ secret @ post) s = sanitize_state sk (c # pre @ kw @ post) s"
    by (intro sanitize_state_cong) auto
  then show ?case
    using sanitize_loop_step [of sk c "pre @ kw @ secret @ post" s] sanitize_loop_step [of sk c "pre @ kw @ post" s] Cons
    by (cases "sanitize_state sk (c # pre @ kw @ post) s") (simp del: sanitize_loop.simps)
qed

lemma sanitize_loop_text:
  "length (sanitize_loop sk src s) \<le> length src \<and> set (sanitize_loop sk src s) \<subseteq> set src"
proof (induction src arbitrary: s)
  case (Cons c src)
  obtain r k where "sanitize_state sk (c # src) s = (r, k)" by fastforce
  then have l: "sanitize_loop sk (c # src) s =
       (if r then if k > 0 then c # sanitize_loop sk src (r, k - 1) else sanitize_loop sk src (r, k)
        else c # sanitize_loop sk src (r, k))" by (rule sanitize_loop_step)
  show ?case using Cons [of "(r, k - 1)"] Cons [of "(r, k)"] unfolding l by auto
qed simp

section \<open>Parsing any text\<close>

lemma buf_parse_loop_any:
  assumes "buf_inv m b" and "content m b = cs" and "int (length line) = sz"
  shows "\<exists>b' line' eol'. buf_parse_loop m b d line sz (int n) eol = Inr (b', line', eol') \<and>
           buf_inv m b' \<and> length line' = length line"
  using assms
proof (induction cs arbitrary: b line n)
  case Nil
  have r: "buf_read_u8 m b = Inr (-1, b)" using buf_read_u8_Nil Nil by blast
  show ?case using Nil by (subst buf_parse_loop.simps) (auto simp: r Let_def arr_set_in)
next
  case (Cons c cs)
  obtain b1 where r: "buf_read_u8 m b = Inr (uint c, b1)" and b1: "buf_inv m b1" "content m b1 = cs"
    using buf_read_u8_Cons [OF Cons.prems(1,2)] by blast
  show ?case
  proof (cases "int n \<ge> sz \<or> uint c \<le> 0 \<or> uint c = d")
    case True
    then show ?thesis using Cons.prems(3) b1
      by (subst buf_parse_loop.simps) (auto simp: r Let_def arr_set_in)
  next
    case False
    have "\<not> uint c < 0" using False by auto
    then have e: "buf_parse_loop m b d line sz (int n) eol = buf_parse_loop m b1 d (line[n := c]) sz (int (Suc n)) eol"
      using False Cons.prems(3)
      by (subst buf_parse_loop.simps) (auto simp: r Let_def arr_set_in add.commute)
    have l: "int (length (line[n := c])) = sz" using Cons.prems(3) by simp
    show ?thesis using Cons.IH [OF b1 l, of "Suc n"] by (auto simp: e)
  qed
qed

lemma buf_parse_any:
  assumes "buf_inv m b" and "int (length line) = sz" and "0 < sz"
  shows "\<exists>ok b' line'. buf_parse m b d line sz = Inr (ok, b', line') \<and> buf_inv m b' \<and>
           length line' = length line \<and> NUL \<in> set line'"
proof -
  obtain b' line1 eol where p: "buf_parse_loop m b d line sz 0 False = Inr (b', line1, eol)"
      "buf_inv m b'" "length line1 = length line"
    using buf_parse_loop_any [OF assms(1) refl assms(2), of d 0 False] by auto
  have i: "nat (sz - 1) < length line1" using assms(2,3) p(3) by auto
  then have "NUL \<in> set (line1[nat (sz - 1) := NUL])" by (simp add: set_update_memI)
  then show ?thesis using p i assms(3)
    by (simp add: buf_parse_def c_strlen_def arr_set_in c_assert_def)
qed

lemma rm_trailing_chars_length: "rm_trailing_chars a what = Inr b \<Longrightarrow> length b = length a"
proof (induction a what rule: rm_trailing_chars.induct)
  case (1 a what)
  obtain a1 ch where s: "rm_trailing_step a what = Inr (a1, ch)"
    using 1(2) by (subst (asm) rm_trailing_chars.simps) (auto simp: bindE_Inr_iff)
  have l: "length a1 = length a"
    using s by (auto simp: rm_trailing_step_def bindE_Inr_iff arr_set_def split: if_splits)
  show ?case
  proof (cases ch)
    case True
    then have "rm_trailing_chars a1 what = Inr b"
      using 1(2) by (subst (asm) rm_trailing_chars.simps) (simp add: s)
    then show ?thesis using 1(1) [OF s refl True] l by simp
  next
    case False
    then show ?thesis using 1(2) l by (subst (asm) rm_trailing_chars.simps) (simp add: s)
  qed
qed

lemma chomp_any:
  assumes "NUL \<in> set a"
  shows "\<exists>a'. chomp a = Inr a' \<and> length a' = length a \<and> NUL \<in> set a' \<and> c_string a' = rstrip {13, 10} (c_string a)"
proof -
  obtain rest where a: "a = c_string a @ NUL # rest" using array_split [OF assms] .
  obtain tail where t: "chomp a = Inr (rstrip {13, 10} (c_string a) @ NUL # tail @ rest)"
    using chomp_correct [of "c_string a" rest] a by (auto simp: )
  then have "length (rstrip {13, 10} (c_string a) @ NUL # tail @ rest) = length a"
    unfolding chomp_def by (rule rm_trailing_chars_length)
  then show ?thesis using t is_cstr_rstrip [OF is_cstr_c_string, of "{13, 10}" a] by auto
qed

section \<open>Lines from the peer\<close>

definition name_char :: "byte \<Rightarrow> bool" where
  "name_char c \<longleftrightarrow> isalnum c \<or> c = UNDERBAR"

definition clean :: "cstr \<Rightarrow> bool" where
  "clean v \<longleftrightarrow> list_all (\<lambda>c. \<not> peer_unsafe c) v"

definition peer_item :: "cstr \<Rightarrow> bool" where
  "peer_item e \<longleftrightarrow> (\<exists>k v. e = k @ EQUALS # v \<and> k \<noteq> [] \<and> list_all name_char k \<and> clean v)"

lemma name_char_safe: "name_char c \<Longrightarrow> \<not> peer_unsafe c"
  by (auto simp: name_char_def peer_unsafe_def UNDERBAR_def isalnum_def isalpha_def isupper_def islower_def
      isdigit_def isprint_def isspace_def)

lemma EQUALS_safe: "\<not> peer_unsafe EQUALS" "\<not> name_char EQUALS" "EQUALS \<noteq> NUL" "UNDERBAR \<noteq> NUL" "\<not> peer_unsafe UNDERBAR"
  by (simp_all add: name_char_def peer_unsafe_def UNDERBAR_def EQUALS_def isalnum_def isalpha_def isupper_def islower_def
      isdigit_def isprint_def isspace_def)

definition line_shape :: "nat \<Rightarrow> cstr \<Rightarrow> bool" where
  "line_shape state s \<longleftrightarrow>
     (if state = 2 then clean s
      else \<exists>k v. s = k @ EQUALS # v \<and> (state = 0 \<longrightarrow> k \<noteq> []) \<and> list_all name_char k \<and> clean v)"

lemma line_shape_2: "line_shape 2 (c # s) \<longleftrightarrow> \<not> peer_unsafe c \<and> line_shape 2 s"
  by (simp add: line_shape_def clean_def)

lemma line_shape_equals: "line_shape 2 s \<Longrightarrow> line_shape 1 (EQUALS # s)"
  by (auto simp: line_shape_def intro: exI [of _ "[]"])

lemma line_shape_name: "name_char c \<Longrightarrow> line_shape 1 s \<Longrightarrow> state < 2 \<Longrightarrow> line_shape state (c # s)"
proof -
  assume a: "name_char c" "line_shape 1 s" "state < 2"
  then obtain k v where "s = k @ EQUALS # v" "list_all name_char k" "clean v" by (auto simp: line_shape_def)
  then have "c # s = (c # k) @ EQUALS # v \<and> (state = 0 \<longrightarrow> c # k \<noteq> []) \<and> list_all name_char (c # k) \<and> clean v"
    using a by simp
  then have "\<exists>k v. c # s = k @ EQUALS # v \<and> (state = 0 \<longrightarrow> k \<noteq> []) \<and> list_all name_char k \<and> clean v" by blast
  then show ?thesis using a(3) by (simp add: line_shape_def)
qed

lemma peer_line_loop_spec:
  assumes "is_cstr s" and "state \<le> 2"
  shows "\<exists>r s'. peer_line_loop state (s @ NUL # rest) = Inr (r, s' @ NUL # rest) \<and> length s' = length s \<and> is_cstr s' \<and>
           (r \<longrightarrow> line_shape state s')"
  using assms
proof (induction s arbitrary: state)
  case Nil
  then show ?case by (auto simp: line_shape_def clean_def)
next
  case (Cons c s)
  let ?c = "if peer_unsafe c then UNDERBAR else c"
  have nz: "c \<noteq> NUL" "is_cstr s" "?c \<noteq> NUL" using Cons.prems EQUALS_safe by auto
  consider "state = 2" | "state = 1" "c = EQUALS" | "state < 2" "\<not> (c = EQUALS \<and> state = 1)" "name_char c"
    | "state < 2" "\<not> (c = EQUALS \<and> state = 1)" "\<not> name_char c"
    using Cons.prems(2) by linarith
  then show ?case
  proof cases
    case 1
    obtain r s' where "peer_line_loop 2 (s @ NUL # rest) = Inr (r, s' @ NUL # rest)" "length s' = length s" "is_cstr s'"
        "r \<longrightarrow> line_shape 2 s'"
      using Cons.IH [OF nz(2), of 2] by auto
    then show ?thesis using 1 nz EQUALS_safe
      by (intro exI [of _ r] exI [of _ "?c # s'"]) (simp add: line_shape_2)
  next
    case 2
    obtain r s' where "peer_line_loop 2 (s @ NUL # rest) = Inr (r, s' @ NUL # rest)" "length s' = length s" "is_cstr s'"
        "r \<longrightarrow> line_shape 2 s'"
      using Cons.IH [OF nz(2), of 2] by auto
    then show ?thesis using 2 nz EQUALS_safe line_shape_equals [of s']
      by (intro exI [of _ r] exI [of _ "?c # s'"]) simp
  next
    case 3
    obtain r s' where "peer_line_loop 1 (s @ NUL # rest) = Inr (r, s' @ NUL # rest)" "length s' = length s" "is_cstr s'"
        "r \<longrightarrow> line_shape 1 s'"
      using Cons.IH [OF nz(2), of 1] by auto
    then show ?thesis using 3 nz name_char_safe [OF 3(3)] line_shape_name [OF 3(3), of s' state]
      by (intro exI [of _ r] exI [of _ "?c # s'"]) (auto simp: name_char_def less_2_cases_iff)
  next
    case 4
    then show ?thesis using nz
      by (intro exI [of _ False] exI [of _ "c # s"]) (auto simp: name_char_def less_2_cases_iff)
  qed
qed

lemma validate_any:
  assumes "NUL \<in> set a"
  shows "\<exists>r a'. validate_peer_info_line a = Inr (r, a') \<and> length a' = length a \<and> NUL \<in> set a' \<and>
           (r \<longrightarrow> peer_item (c_string a'))"
proof -
  obtain rest where a: "a = c_string a @ NUL # rest" using array_split [OF assms] .
  obtain r s' where p: "peer_line_loop 0 (c_string a @ NUL # rest) = Inr (r, s' @ NUL # rest)"
      "length s' = length (c_string a)" "is_cstr s'" "r \<longrightarrow> line_shape 0 s'"
    using peer_line_loop_spec [OF is_cstr_c_string, of 0 a rest] by auto
  have "length (s' @ NUL # rest) = length a" using p(2) a by (metis length_append length_Cons)
  then show ?thesis using p a
    by (intro exI [of _ r] exI [of _ "s' @ NUL # rest"])
      (auto simp: validate_peer_info_line_def line_shape_def peer_item_def)
qed

lemma set_read_inv:
  assumes "read_cstr m p = Inr s" and "int (length s) < BUF_SIZE_MAX"
  shows "\<exists>b. buf_set_read p (int (length s)) = Inr b \<and> buf_inv m b \<and> content m b = s \<and> buf_bptr b = p"
proof -
  obtain k i bs where p: "p = Ptr k i" "blocks m k = Some bs" "0 \<le> i" "NUL \<in> set (drop (nat i) bs)"
      "s = c_string (drop (nat i) bs)"
    using assms(1) by (auto simp: read_cstr_def split: ptr.splits option.splits if_splits)
  obtain rest where d: "drop (nat i) bs = s @ NUL # rest" using array_split [OF p(4)] p(5) by auto
  have "length (drop (nat i) bs) = length s + 1 + length rest" using d by simp
  then have len: "i + int (length s) \<le> int (length bs)" using p(3) by simp
  let ?b = "\<lparr>b_capacity = int (length s), b_offset = 0, b_len = int (length s), b_data = p\<rparr>"
  have i: "buf_inv m ?b" using p len assms(2) by (simp add: buf_inv_def)
  have "read_bytes m p (int (length s)) = Inr s"
  proof -
    have "take (length s) (drop (nat i) bs) = s" using d by simp
    then show ?thesis unfolding read_bytes_def p(1) using p(2,3) len by simp
  qed
  then have "content m ?b = s" using contentI [OF i] buf_inv_ptr [OF i] by simp
  then show ?thesis using i assms(2) buf_inv_ptr [OF i]
    by (auto simp: buf_set_read_def buf_size_valid_def size_of_int_def)
qed

section \<open>The environment after information from the peer\<close>

definition peer_key :: "cstr \<Rightarrow> bool" where
  "peer_key k \<longleftrightarrow> starts IV_PREFIX k \<or> starts UV_PREFIX k"

definition env_from_peer :: "env_set \<Rightarrow> env_set \<Rightarrow> bool" where
  "env_from_peer es es' \<longleftrightarrow>
     env_inv es' \<and> (\<forall>k. \<not> peer_key k \<longrightarrow> env_look es' k = env_look es k) \<and>
     (\<forall>k e. env_look es' k = Some e \<longrightarrow> env_look es k = Some e \<or> peer_item e)"

lemma env_from_peer_refl: "env_inv es \<Longrightarrow> env_from_peer es es"
  by (simp add: env_from_peer_def)

lemma env_from_peer_trans: "env_from_peer a b \<Longrightarrow> env_from_peer b c \<Longrightarrow> env_from_peer a c"
  unfolding env_from_peer_def by metis

lemma peer_item_key:
  assumes "peer_item e" and "peer_key e"
  shows "peer_key (key e)"
proof -
  obtain k v where e: "e = k @ EQUALS # v" "list_all name_char k" using assms(1) by (auto simp: peer_item_def)
  have "EQUALS \<notin> set k" using e(2) EQUALS_safe(2) by (auto simp: list_all_iff)
  then have "key e = k" using e(1) by (simp add: key_def EQUALS_def takeWhile_stop)
  moreover have "EQUALS \<notin> set IV_PREFIX" "EQUALS \<notin> set UV_PREFIX"
    by (simp_all add: IV_PREFIX_def UV_PREFIX_def EQUALS_def)
  ultimately show ?thesis using assms(2) e(1) starts_before [of _ k "EQUALS # v"] by (auto simp: peer_key_def)
qed

lemma env_from_peer_add:
  assumes "env_inv es" and "is_cstr e" and "peer_item e" and "peer_key e"
  shows "env_from_peer es (env_set_add_nolock es e)"
  using peer_item_key [OF assms(3,4)] assms(3) env.look_add [OF assms(1,2)] env_inv_add [OF assms(1,2)]
  by (auto simp: env_from_peer_def)

lemma peer_info_loop_spec:
  assumes "buf_inv m b" and "length line = 256" and "env_inv es"
  shows "\<exists>es'. peer_info_loop m b line (Some es) = Inr (Some es') \<and> env_from_peer es es'"
  using assms
proof (induction "nat (b_len b)" arbitrary: b line es rule: less_induct)
  case less
  obtain ok b1 l1 where p: "buf_parse m b 10 line 256 = Inr (ok, b1, l1)" "buf_inv m b1" "length l1 = 256" "NUL \<in> set l1"
    using buf_parse_any [OF less.prems(1), of line 256 10] less.prems(2) by auto
  show ?case
  proof (cases ok)
    case False
    then show ?thesis using p less.prems by (subst peer_info_loop.simps) (auto simp: env_from_peer_refl)
  next
    case True
    have dec: "nat (b_len b1) < nat (b_len b)" using buf_parse_dec [of m b 10 line 256 b1 l1] p(1) True by simp
    obtain l2 where l2: "chomp l1 = Inr l2" "length l2 = 256" "NUL \<in> set l2" using chomp_any [OF p(4)] p(3) by auto
    obtain v l3 where l3: "validate_peer_info_line l2 = Inr (v, l3)" "length l3 = 256" "v \<longrightarrow> peer_item (c_string l3)"
      using validate_any [OF l2(3)] l2(2) by auto
    show ?thesis
    proof (cases "v \<and> peer_key (c_string l3)")
      case True
      let ?es = "env_set_add_nolock es (c_string l3)"
      have a: "env_from_peer es ?es" using env_from_peer_add [OF less.prems(3)] True l3(3) by simp
      then have "env_inv ?es" by (simp add: env_from_peer_def)
      then obtain es' where "peer_info_loop m b1 l3 (Some ?es) = Inr (Some es')" "env_from_peer ?es es'"
        using less.hyps [OF dec p(2) l3(2)] by blast
      then show ?thesis using p(1) \<open>ok\<close> True l2(1) l3(1) env_from_peer_trans [OF a]
        by (subst peer_info_loop.simps) (auto simp: env_set_add_def peer_key_def)
    next
      case False
      then show ?thesis using p(1) \<open>ok\<close> l2(1) l3(1) less.hyps [OF dec p(2) l3(2) less.prems(3)]
        by (subst peer_info_loop.simps) (auto simp: peer_key_def)
    qed
  qed
qed

section \<open>Lines into an array\<close>

definition tidy :: "cstr \<Rightarrow> cstr" where
  "tidy l = skip_leading_whitespace (rstrip {13, 10} l)"

lemma count_lines_all:
  assumes "buf_inv m b" and "content m b = concat (map (\<lambda>l. l @ [10]) ls)"
    and "\<And>l. l \<in> set ls \<Longrightarrow> is_cstr l \<and> 10 \<notin> set l \<and> length l < length line" and "line \<noteq> []"
  shows "\<exists>line'. count_lines m b line (int (length line)) n = Inr (n + length ls, line') \<and> length line' = length line"
  using assms
proof (induction ls arbitrary: b line n)
  case Nil
  then show ?case
    using buf_parse_last [of m b "[]" 10 line] by (subst count_lines.simps) (auto split: sum.splits)
next
  case (Cons l ls)
  have l: "is_cstr l" "10 \<notin> set l" "length l < length line" using Cons.prems(3) by auto
  have c: "content m b = l @ 10 # concat (map (\<lambda>l. l @ [10]) ls)" using Cons.prems(2) by simp
  obtain b1 l1 where p: "buf_parse m b 10 line (int (length line)) = Inr (True, b1, l1)"
      "length l1 = length line" "buf_inv m b1" "content m b1 = concat (map (\<lambda>l. l @ [10]) ls)"
    using buf_parse_line [OF Cons.prems(1) c _ l] by auto
  have ne: "l1 \<noteq> []" using p(2) Cons.prems(4) by auto
  have ih: "\<exists>line'. count_lines m b1 l1 (int (length l1)) (Suc n) = Inr (Suc n + length ls, line') \<and> length line' = length l1"
    using Cons.prems(3) p(2) by (intro Cons.IH [OF p(3,4) _ ne]) auto
  show ?case using ih p(1,2) by (subst count_lines.simps) simp
qed

lemma inline_loop_all:
  assumes "buf_inv m b" and "content m b = concat (map (\<lambda>l. l @ [10]) ls)"
    and "\<And>l. l \<in> set ls \<Longrightarrow> is_cstr l \<and> 10 \<notin> set l \<and> length l < length line" and "line \<noteq> []"
    and "i + length ls = len" and "length dn = i"
  shows "inline_loop m b line (int (length line)) len i (dn @ replicate (length ls + 1) None) =
           Inr (dn @ map (\<lambda>l. Some (tidy l)) ls @ [None], len)"
  using assms
proof (induction ls arbitrary: b line i dn)
  case Nil
  then show ?case
    using buf_parse_last [of m b "[]" 10 line] by (subst inline_loop.simps) (auto split: sum.splits)
next
  case (Cons l ls)
  have l: "is_cstr l" "10 \<notin> set l" "length l < length line" using Cons.prems(3) by auto
  have c: "content m b = l @ 10 # concat (map (\<lambda>l. l @ [10]) ls)" using Cons.prems(2) by simp
  obtain b1 l1 where p: "buf_parse m b 10 line (int (length line)) = Inr (True, b1, l1)" "c_string l1 = l"
      "length l1 = length line" "buf_inv m b1" "content m b1 = concat (map (\<lambda>l. l @ [10]) ls)"
    using buf_parse_line [OF Cons.prems(1) c _ l] by auto
  have "NUL \<in> set l1" using buf_parse_any [OF Cons.prems(1), of line "int (length line)" 10] p(1) Cons.prems(4) by auto
  then obtain l2 where l2: "chomp l1 = Inr l2" "length l2 = length line" "c_string l2 = rstrip {13, 10} l"
    using chomp_any [of l1] p(2,3) by auto
  have ne: "l2 \<noteq> []" using l2(2) Cons.prems(4) by auto
  have ih: "inline_loop m b1 l2 (int (length l2)) len (Suc i) ((dn @ [Some (tidy l)]) @ replicate (length ls + 1) None) =
      Inr ((dn @ [Some (tidy l)]) @ map (\<lambda>l. Some (tidy l)) ls @ [None], len)"
    using Cons.prems(3,5,6) l2(2) by (intro Cons.IH [OF p(4,5) _ ne]) auto
  have u: "(dn @ replicate (length (l # ls) + 1) None)[i := Some (tidy l)] = (dn @ [Some (tidy l)]) @ replicate (length ls + 1) None"
    using Cons.prems(6) by (simp add: list_update_append)
  have "i < len" using Cons.prems(5) by simp
  then show ?case using ih u p(1) l2
    by (subst inline_loop.simps) (simp add: tidy_def c_assert_def)
qed

section \<open>Properties\<close>

lemma sanitize_runs:
  assumes "\<not> oom m (nxt m)" and "is_cstr src"
  shows "\<exists>p m' gc'. sanitize_control_message sk m src gc = Inr (p, m', gc') \<and>
           read_cstr m' p = Inr (sanitize_loop sk src (False, 0))"
proof -
  let ?t = "sanitize_loop sk src (False, 0)"
  have t: "is_cstr ?t" "length ?t \<le> length src"
    using sanitize_loop_text [of sk src "(False, 0)"] assms(2) by (auto simp: is_cstr_def)
  obtain m1 gc1 where g: "gc_malloc m (length src + 1) False gc = Inr (Ptr (nxt m) 0, m1, gc1)"
      "blocks m1 = (blocks m)(nxt m \<mapsto> map (junk m (nxt m)) [0..<length src + 1])"
    using gc_malloc_fresh [OF assms(1)] by blast
  let ?bs = "overwrite (map (junk m (nxt m)) [0..<length src + 1]) 0 (?t @ [NUL])"
  let ?m2 = "m1\<lparr>blocks := (blocks m1)(nxt m \<mapsto> ?bs)\<rparr>"
  have "write_bytes m1 (Ptr (nxt m) 0) (?t @ [NUL]) = Inr ?m2"
    using g(2) t(2) by (simp add: write_bytes_def del: sanitize_loop.simps)
  moreover have "read_cstr ?m2 (Ptr (nxt m) 0) = Inr ?t"
    using t(1) by (simp add: read_cstr_def overwrite_def del: sanitize_loop.simps)
  ultimately show ?thesis using g(1) by (simp add: sanitize_control_message_def)
qed

text \<open>
  C2: What follows a secret word in a control message up to the next comma does not reach the log,
  provided that no secret word starts within it (\<open>quiet\<close>): the text shown for the message is the text
  shown for the message without it. The message is a C string and there is memory for its copy.
\<close>

theorem sanitize_hides_secret:
  assumes "\<not> oom m (nxt m)" and "is_cstr (pre @ kw @ secret @ post)" and "kw \<in> redact_words sk"
    and "quiet sk secret" and "of_char CHR '','' \<notin> set secret" and "post = [] \<or> hd post = of_char CHR '',''"
  shows "\<exists>p m1 g1 q m2 g2 t. sanitize_control_message sk m (pre @ kw @ secret @ post) gc = Inr (p, m1, g1) \<and>
           sanitize_control_message sk m (pre @ kw @ post) gc = Inr (q, m2, g2) \<and>
           read_cstr m1 p = Inr t \<and> read_cstr m2 q = Inr t"
proof -
  have c: "is_cstr (pre @ kw @ post)" using assms(2) by simp
  show ?thesis
    using sanitize_runs [OF assms(1,2), of sk gc] sanitize_runs [OF assms(1) c, of sk gc]
      sanitize_loop_hides [OF assms(3-6), of pre "(False, 0)"] by fastforce
qed

theorem sanitize_hides_secret_witness:
  "\<exists>p m1 g1. sanitize_control_message False empty_mem (asc ''PUSH,auth-token s3cr,x'') None = Inr (p, m1, g1)"
proof -
  have i: "asc ''s3cr'' = [115, 51, 99, 114]" by simp
  have q: "quiet False (asc ''s3cr'')" unfolding i by (simp add: quiet_Cons redact_words_def) (simp add: quiet_def)
  have o: "\<not> oom empty_mem (nxt empty_mem)" by (simp add: empty_mem_def)
  have k: "asc ''auth-token '' \<in> redact_words False" by (simp add: redact_words_def)
  have c: "is_cstr (asc ''PUSH,'' @ asc ''auth-token '' @ asc ''s3cr'' @ asc '',x'')" by simp
  have e: "asc ''PUSH,'' @ asc ''auth-token '' @ asc ''s3cr'' @ asc '',x'' = asc ''PUSH,auth-token s3cr,x''" by simp
  show ?thesis using sanitize_hides_secret [OF o c k q, of None] unfolding e by fastforce
qed

text \<open>
  C1: Information from a peer enters the environment only as variables \<open>IV_...\<close> and \<open>UV_...\<close>: with a
  well-formed environment and a text of less than 1000000 bytes (\<open>BUF_SIZE_MAX\<close>), every other variable
  keeps its value, whatever the peer sends, and a new item is a name of letters, digits and underscores,
  an equals sign and a value in which there is no blank, no character that is not printable and none of
  the three characters dollar sign, opening parenthesis and backquote. Other characters that mean
  something to a shell, such as the semicolon, the bar and the ampersand, are let through. The
  function never faults, and the lines of any such text come to an end.
\<close>

theorem peer_info_env_safe:
  assumes "env_inv es" and "read_cstr m p = Inr s" and "int (length s) < BUF_SIZE_MAX" and "length line = 256"
  shows "\<exists>es'. output_peer_info_env m line (Some es) p = Inr (Some es') \<and> env_inv es' \<and>
           (\<forall>k. \<not> peer_key k \<longrightarrow> env_look es' k = env_look es k) \<and>
           (\<forall>k e. env_look es' k = Some e \<longrightarrow> env_look es k = Some e \<or> peer_item e)"
proof -
  obtain b where b: "buf_set_read p (int (length s)) = Inr b" "buf_inv m b" using set_read_inv [OF assms(2,3)] by blast
  then show ?thesis using peer_info_loop_spec [OF b(2) assms(4,1)] assms(2)
    by (auto simp: output_peer_info_env_def env_from_peer_def)
qed

theorem peer_info_env_safe_witness:
  "\<exists>es'. output_peer_info_env (empty_mem\<lparr>blocks := [0 \<mapsto> asc ''PATH=x'' @ [0]]\<rparr>) (replicate 256 0)
           (Some \<lparr>es_gc = False, es_list = [asc ''PATH=/bin'']\<rparr>) (Ptr 0 0) = Inr (Some es') \<and>
         env_look es' (asc ''PATH'') = Some (asc ''PATH=/bin'')"
proof -
  let ?es = "\<lparr>es_gc = False, es_list = [asc ''PATH=/bin'']\<rparr>"
  let ?m = "empty_mem\<lparr>blocks := [0 \<mapsto> asc ''PATH=x'' @ [0]]\<rparr>"
  have i: "env_inv ?es" by (simp add: env_inv_def)
  have r: "read_cstr ?m (Ptr 0 0) = Inr (asc ''PATH=x'')" by (simp add: read_cstr_def c_string_def)
  have k: "\<not> peer_key (asc ''PATH'')" by (simp add: peer_key_def IV_PREFIX_def UV_PREFIX_def)
  have l: "env_look ?es (asc ''PATH'') = Some (asc ''PATH=/bin'')" by (simp add: env_look_def key_def)
  have len: "int (length (asc ''PATH=x'')) < BUF_SIZE_MAX" by (simp add: BUF_SIZE_MAX_def)
  have n: "length (replicate 256 (0 :: byte)) = 256" by simp
  show ?thesis using peer_info_env_safe [OF i r len n] k l by fastforce
qed

text \<open>
  An inline block of options becomes the array of its lines, without leading blanks and line ends, and a
  final NULL.
\<close>

lemma make_inline_array_lines:
  assumes "read_cstr m p = Inr s" and "int (length s) < BUF_SIZE_MAX" and "s = concat (map (\<lambda>l. l @ [10]) ls)"
    and "\<And>l. l \<in> set ls \<Longrightarrow> is_cstr l \<and> 10 \<notin> set l \<and> length l < length line" and "line \<noteq> []"
  shows "make_inline_array m line (int (length line)) p = Inr (map (\<lambda>l. Some (tidy l)) ls @ [None])"
proof -
  obtain b where b: "buf_set_read p (int (length s)) = Inr b" "buf_inv m b" "content m b = concat (map (\<lambda>l. l @ [10]) ls)"
    using set_read_inv [OF assms(1,2)] assms(3) by blast
  obtain l1 where c: "count_lines m b line (int (length line)) 0 = Inr (length ls, l1)" "length l1 = length line"
    using count_lines_all [OF b(2,3) assms(4,5), of 0] by auto
  have ne: "l1 \<noteq> []" using c(2) assms(5) by auto
  have "inline_loop m b l1 (int (length l1)) (length ls) 0 ([] @ replicate (length ls + 1) None) =
      Inr ([] @ map (\<lambda>l. Some (tidy l)) ls @ [None], length ls)"
    using assms(4) c(2) by (intro inline_loop_all [OF b(2,3) _ ne]) auto
  then have "inline_loop m b l1 (int (length line)) (length ls) 0 (None # replicate (length ls) None) =
      Inr (map (\<lambda>l. Some (tidy l)) ls @ [None], length ls)" using c(2) by simp
  moreover have "(map (\<lambda>l. Some (tidy l)) ls @ [None])[length ls := None] = map (\<lambda>l. Some (tidy l)) ls @ [None]"
    by (simp add: list_update_append)
  ultimately show ?thesis using assms(1) b(1) c(1) by (simp add: make_inline_array_def c_assert_def)
qed

lemma make_arg_copy_copies:
  "make_arg_copy (map Some xs @ None # rest) = Inr (map Some xs @ [None])"
proof -
  have "copy_entries (take i p @ replicate (n + 1) None) p i n = take (i + n) p @ [None]"
    if "i + n \<le> length p" for i n and p :: "cstr option list" using that
  proof (induction n arbitrary: i)
    case (Suc n)
    have "(take i p @ replicate (Suc n + 1) None)[i := p ! i] = take (Suc i) p @ replicate (n + 1) None"
      using Suc.prems by (simp add: list_update_append take_Suc_conv_app_nth min_def)
    then show ?case using Suc.IH [of "Suc i"] Suc.prems by simp
  qed simp
  from this [of 0 "length xs" "map Some xs @ None # rest"] show ?thesis
    by (simp add: make_arg_copy_def string_array_len_def count_entries_correct)
qed

lemma get_num_elements_join:
  "ls \<noteq> [] \<Longrightarrow> (\<And>l. l \<in> set ls \<Longrightarrow> d \<notin> set l) \<Longrightarrow>
     1 + count_delim (concat (map (\<lambda>l. l @ [d]) (butlast ls)) @ last ls) d = length ls"
proof (induction ls)
  case (Cons l ls)
  have z: "count_delim l d = 0" using Cons.prems(2) [of l] by (auto simp: count_delim_def filter_empty_conv)
  show ?case using Cons z by (cases ls) (auto simp: count_delim_def)
qed simp

section \<open>Credentials\<close>

lemma string_mod_loop_nul:
  "NUL \<notin> set (drop i arr) \<Longrightarrow> o' \<le> i \<Longrightarrow> string_mod_loop inc exc rep arr i o' ret = Inl MemFault"
proof (induction inc exc rep arr i o' ret rule: string_mod_loop.induct)
  case (1 inc exc rep arr i o' ret)
  show ?case
  proof (cases "i < length arr")
    case True
    have d: "drop i arr = arr ! i # drop (Suc i) arr" using True by (simp add: Cons_nth_drop_Suc)
    have nz: "arr ! i \<noteq> 0" "NUL \<notin> set (drop (Suc i) arr)" using 1(3) d by auto
    have k: "drop (Suc i) (arr[o' := x]) = drop (Suc i) arr" for x using 1(4) by (simp add: drop_update_cancel)
    show ?thesis
      using 1(1,2) [OF True refl nz(1) refl refl refl] nz True 1(4) k
      by (subst string_mod_loop.simps) (simp add: Let_def arr_set_in)
  next
    case False
    then show ?thesis by (subst string_mod_loop.simps) simp
  qed
qed

lemma string_mod_any:
  assumes "string_mod arr inc exc rep = Inr (arr', ok)"
  shows "c_string arr' = mod_spec inc exc rep (c_string arr)" and "NUL \<in> set arr'"
proof -
  have "NUL \<in> set arr"
  proof (rule ccontr)
    assume "NUL \<notin> set arr"
    then have "string_mod arr inc exc rep = Inl MemFault"
      unfolding string_mod_def by (intro string_mod_loop_nul) auto
    then show False using assms by simp
  qed
  then obtain rest where a: "arr = c_string arr @ NUL # rest" using array_split by blast
  obtain mid where "string_mod (c_string arr @ NUL # rest) inc exc rep =
      Inr (mod_spec inc exc rep (c_string arr) @ NUL # mid @ rest, list_all (\<lambda>c. char_inc_exc c inc exc) (c_string arr))"
    using string_mod_correct [OF is_cstr_c_string] by blast
  then have e: "arr' = mod_spec inc exc rep (c_string arr) @ NUL # mid @ rest" using assms a by simp
  show "NUL \<in> set arr'" using e by simp
  show "c_string arr' = mod_spec inc exc rep (c_string arr)"
    unfolding e by (rule c_string_terminated) (rule is_cstr_mod_spec, rule is_cstr_c_string)
qed

definition printable :: "byte list \<Rightarrow> bool" where
  "printable arr \<longleftrightarrow> NUL \<in> set arr \<and> string_class (c_string arr) CC_PRINT CC_CRLF"

lemma string_mod_printable:
  assumes "string_mod arr CC_PRINT CC_CRLF 0 = Inr (arr', ok)"
  shows "printable arr'"
  using string_mod_any [OF assms] mod_spec_class [of 0 CC_PRINT CC_CRLF] by (simp add: printable_def)

text \<open>Whoever supplied them, the credentials that come out are terminated and free of control characters.\<close>

lemma get_user_pass_printable:
  assumes "get_user_pass_cr io m up auth_file pref fl auth_challenge = Inr (True, up', m')" and "\<not> up_defined up"
  shows "up_defined up' \<and> printable (up_username up') \<and> printable (up_password up')"
  using assms string_mod_printable
  by (auto simp: get_user_pass_cr_def bindE_Inr_iff split: if_splits)

text \<open>A prompt on the console.\<close>

lemma prompt_runs:
  assumes "\<not> oom m (nxt m)" and "0 < n" and "int n < BUF_SIZE_MAX" and "is_cstr txt"
    and "gc_inv m ar" and "mem_ok m"
  shows "\<exists>m' ar'. prompt m n txt (Some ar) = Inr (take (n - 1) txt, m', Some ar') \<and> gc_inv m' ar' \<and> mem_ok m' \<and>
           nxt m' = Suc (nxt m) \<and> oom m' = oom m \<and> (\<forall>k < nxt m. blocks m' k = blocks m k)"
proof -
  let ?b = "\<lparr>b_capacity = int n, b_offset = 0, b_len = 0, b_data = Ptr (nxt m) 0\<rparr>"
  let ?ar = "ar\<lparr>gc_list := nxt m # gc_list ar\<rparr>"
  obtain m1 where a: "alloc_buf_gc m n (Some ar) = Inr (?b, m1, Some ?ar)" "buf_inv m1 ?b" "content m1 ?b = []"
      "nxt m1 = Suc (nxt m)" "oom m1 = oom m" "\<forall>k. k \<noteq> nxt m \<longrightarrow> blocks m1 k = blocks m k"
    using alloc_buf_gc_fresh [OF assms(1,3), of "Some ar"] by auto
  have c: "buf_forward_capacity ?b = int n" using buf_forward_capacity_inv [OF a(2)] by simp
  let ?w = "take (n - 1) txt"
  let ?b2 = "?b\<lparr>b_len := int (length ?w)\<rparr>"
  obtain m2 where p: "buf_printf m1 ?b (Some txt) = Inr (int (length txt) < int n, ?b2, m2)" "buf_inv m2 ?b2"
      "content m2 ?b2 = ?w" "read_bytes m2 (ptr_add (buf_bptr ?b) (int (length ?w))) 1 = Inr [NUL]"
    using buf_printf_room [OF a(2) assms(4)] c assms(2) a(3) by auto
  have fr: "nxt m2 = nxt m1" "oom m2 = oom m1" "\<And>l. l \<noteq> nxt m \<Longrightarrow> blocks m2 l = blocks m1 l"
    using buf_printf_frame [OF p(1), of "nxt m" 0] by auto
  have bp: "buf_bptr ?b2 = Ptr (nxt m) 0" "buf_bptr ?b = Ptr (nxt m) 0"
    using buf_inv_ptr [OF p(2)] buf_inv_ptr [OF a(2)] by simp_all
  have r1: "read_bytes m2 (Ptr (nxt m) 0) (int (length ?w)) = Inr ?w"
    using read_content(1) [OF p(2)] p(3) bp by simp
  have "read_bytes m2 (Ptr (nxt m) 0) (int (length ?w) + 1) = Inr (?w @ [NUL])"
  proof -
    have r2: "read_bytes m2 (Ptr (nxt m) (int (length ?w))) 1 = Inr [NUL]" using p(4) unfolding bp(2) by simp
    obtain bs where bs: "blocks m2 (nxt m) = Some bs" "length ?w + 1 \<le> length bs" "take 1 (drop (length ?w) bs) = [NUL]"
      using r2 by (auto simp: read_bytes_def split: option.splits if_splits)
    have "take (length ?w) bs = ?w"
      using r1 bs(1) by (cases "?w = []") (auto simp: read_bytes_def split: if_splits)
    then have "take (length ?w + 1) bs = ?w @ [NUL]" using bs(3) by (metis take_add)
    then show ?thesis using bs(1,2) by (simp add: read_bytes_def nat_add_distrib)
  qed
  then have rc: "read_cstr m2 (Ptr (nxt m) 0) = Inr ?w"
    using read_cstr_of_read [of m2 "Ptr (nxt m) 0" "int (length ?w) + 1" ?w "[]"] assms(4)
    by (auto simp: is_cstr_def dest: in_set_takeD)
  have live: "blocks m2 (nxt m) \<noteq> None" using rc by (auto simp: read_cstr_def split: option.splits)
  have ok: "mem_ok m2"
    unfolding mem_ok_def
  proof (intro allI impI)
    fix k assume k: "nxt m2 \<le> k"
    then have "blocks m2 k = blocks m k" using fr a(4,6) by simp
    then show "blocks m2 k = None" using assms(6) k fr(1) a(4) by (simp add: mem_ok_def)
  qed
  have kn: "k \<noteq> nxt m" "blocks m2 k \<noteq> None" if "k \<in> set (gc_list ar)" for k
  proof -
    have l: "blocks m k \<noteq> None" using that assms(5) by (auto simp: gc_inv_def)
    then show n: "k \<noteq> nxt m" using assms(6) by auto
    show "blocks m2 k \<noteq> None" using l n fr(3) a(6) by simp
  qed
  have "gc_inv m2 ?ar" using live kn assms(5) by (auto simp: gc_inv_def)
  moreover have "\<forall>k < nxt m. blocks m2 k = blocks m k" using fr(3) a(6) by simp
  ultimately show ?thesis using a(1) p(1) bp rc ok fr a(4,5)
    by (simp add: prompt_def)
qed

lemma take_line_whole: "10 \<notin> set u \<Longrightarrow> length u < n \<Longrightarrow> take_line n (u @ 10 # r) = (u @ [10], r)"
proof (induction u arbitrary: n)
  case Nil
  then show ?case by (cases n) auto
next
  case (Cons c u)
  then show ?case by (cases n) auto
qed

lemma fgets_line:
  assumes "10 \<notin> set u" and "length u < n - 1"
  shows "fgets arr n (u @ 10 # r) = Some (overwrite arr 0 (u @ [10, NUL]), r)"
  using take_line_whole [OF assms, of r] by (simp add: fgets_def)

lemma class_chars:
  assumes "string_class u CC_PRINT CC_CRLF"
  shows "is_cstr u" and "10 \<notin> set u" and "13 \<notin> set u"
proof -
  have n: "\<not> char_inc_exc 0 CC_PRINT CC_CRLF" "\<not> char_inc_exc 10 CC_PRINT CC_CRLF" "\<not> char_inc_exc 13 CC_PRINT CC_CRLF"
    by (simp_all add: char_inc_exc_def char_class_def CC_PRINT_def CC_CRLF_def CC_ANY_def CC_NULL_def CC_ALNUM_def
        CC_ALPHA_def CC_ASCII_def CC_CNTRL_def CC_DIGIT_def CC_PUNCT_def CC_SPACE_def CC_XDIGIT_def CC_BLANK_def
        CC_NEWLINE_def CC_CR_def)
  then show "is_cstr u" "10 \<notin> set u" "13 \<notin> set u" using assms by (auto simp: string_class_all is_cstr_def)
qed

lemma rstrip_none: "cs \<inter> set u = {} \<Longrightarrow> rstrip cs u = u"
  by (cases u rule: rev_cases) auto

text \<open>A line read with \<open>fgets\<close> and chomped.\<close>

lemma fgets_chomp:
  assumes "string_class u CC_PRINT CC_CRLF" and "length u + 1 < n" and "length arr = n"
  shows "\<exists>a a'. fgets arr n (u @ 10 # r) = Some (a, r) \<and> chomp a = Inr a' \<and> c_string a' = u \<and>
           NUL \<in> set a' \<and> length a' = n"
proof -
  note c = class_chars [OF assms(1)]
  let ?a = "overwrite arr 0 (u @ [10, NUL])"
  have e: "?a = (u @ [10]) @ NUL # drop (length u + 2) arr" by (simp add: overwrite_def)
  have cs: "c_string ?a = u @ [10]" unfolding e by (rule c_string_terminated) (use c in simp)
  have n: "NUL \<in> set ?a" unfolding e by simp
  have l: "length ?a = n" using assms(2,3) by simp
  obtain a' where "chomp ?a = Inr a'" "length a' = n" "NUL \<in> set a'" "c_string a' = rstrip {13, 10} (u @ [10])"
    using chomp_any [OF n] cs l by auto
  moreover have "rstrip {13, 10} (u @ [10]) = u" using rstrip_none [of "{13, 10}" u] c by auto
  moreover have "fgets arr n (u @ 10 # r) = Some (?a, r)" using fgets_line [of u n arr r] c assms(2) by simp
  ultimately show ?thesis by auto
qed

lemma hd_c_string: "NUL \<in> set a \<Longrightarrow> c_string a = u \<Longrightarrow> u \<noteq> [] \<Longrightarrow> hd a \<noteq> 0"
  by (cases a) (auto simp: c_string_def split: if_splits)

lemma read_auth_file_lines:
  assumes "auth_content io file = Some (u @ 10 # p @ 10 # rest)"
    and "string_class u CC_PRINT CC_CRLF" and "string_class p CC_PRINT CC_CRLF"
    and "u \<noteq> []" and "p \<noteq> []" and "length u < 4095" and "length p < 4095"
    and "length (up_username up) = 4096" and "length (up_password up) = 4096"
    and "\<not> on fl GET_USER_PASS_PASSWORD_ONLY"
  shows "\<exists>up'. read_auth_file io up file pref fl ch = Inr (False, up', False) \<and>
           c_string (up_username up') = u \<and> c_string (up_password up') = p \<and>
           NUL \<in> set (up_username up') \<and> NUL \<in> set (up_password up')"
proof -
  obtain a a' where u: "fgets (up_username up) 4096 (u @ 10 # p @ 10 # rest) = Some (a, p @ 10 # rest)"
      "chomp a = Inr a'" "c_string a' = u" "NUL \<in> set a'"
    using fgets_chomp [OF assms(2), of 4096 "up_username up" "p @ 10 # rest"] assms(6,8) by auto
  obtain q q' where p: "fgets (replicate 4096 0) 4096 (p @ 10 # rest) = Some (q, rest)"
      "chomp q = Inr q'" "c_string q' = p" "NUL \<in> set q'"
    using fgets_chomp [OF assms(3), of 4096 "replicate 4096 0" rest] assms(7) by auto
  have nz: "hd q' \<noteq> 0" using hd_c_string [OF p(4,3) assms(5)] .
  let ?pw = "overwrite (up_password up) 0 (take 4096 (p @ replicate 4096 0))"
  obtain k where k: "take 4096 (p @ replicate 4096 (0 :: byte)) = p @ replicate (Suc k) 0"
  proof -
    have "take 4096 (p @ replicate 4096 (0 :: byte)) = p @ replicate (4096 - length p) 0" using assms(7) by simp
    moreover have "4096 - length p = Suc (4095 - length p)" using assms(7) by simp
    ultimately show thesis using that by metis
  qed
  have pw: "?pw = p @ NUL # (replicate k 0 @ drop (length p + Suc k) (up_password up))"
    unfolding k by (simp add: overwrite_def)
  have cp: "c_string ?pw = p" "NUL \<in> set ?pw"
    unfolding pw using class_chars(1) [OF assms(3)] by simp_all
  have cu: "c_strlen a' = Inr (length u)" using u(3,4) by (simp add: c_strlen_def)
  show ?thesis
    unfolding read_auth_file_def assms(1) option.case USER_PASS_LEN_def
    using u p nz cp cu assms(4,10) by (simp add: Let_def)
qed

text \<open>
  C15: A file with a user name and a password on its two first lines is where the credentials come
  from: they are read as they stand, the structure is then defined, and nothing that was not on a line of
  its own gets in. This holds for lines of 1 to 4094 printable ASCII characters (others are
  stripped), if the structure was not yet defined and the flags ask for both (none of PASSWORD_ONLY, NEED_OK,
  INLINE_CREDS and DYNAMIC_CHALLENGE), with a file that is not named stdin and memory to be had; the console is
  only asked an empty list of questions, and it is assumed that this succeeds.
\<close>

theorem auth_file_credentials:
  assumes "mem_ok m" and "\<And>k. \<not> oom m k" and "\<not> up_defined up" and "is_cstr pref"
    and "read_cstr m auth_file = Inr file" and "file \<noteq> asc ''stdin''"
    and "auth_content io file = Some (u @ 10 # p @ 10 # rest)"
    and "string_class u CC_PRINT CC_CRLF" and "string_class p CC_PRINT CC_CRLF"
    and "u \<noteq> []" and "p \<noteq> []" and "length u < 4095" and "length p < 4095"
    and "length (up_username up) = 4096" and "length (up_password up) = 4096"
    and "\<not> on fl GET_USER_PASS_PASSWORD_ONLY" and "\<not> on fl GET_USER_PASS_NEED_OK"
    and "\<not> on fl GET_USER_PASS_INLINE_CREDS" and "\<not> on fl GET_USER_PASS_DYNAMIC_CHALLENGE"
    and "fst (exec io [])"
  shows "\<exists>up' m'. get_user_pass io m up auth_file pref fl = Inr (True, up', m') \<and> up_defined up' \<and>
           c_string (up_username up') = u \<and> c_string (up_password up') = p"
proof -
  have np: "auth_file \<noteq> Null" using assms(5) by (auto simp: read_cstr_def)
  obtain up1 where f: "read_auth_file io up file pref fl None = Inr (False, up1, False)"
      "c_string (up_username up1) = u" "c_string (up_password up1) = p"
      "NUL \<in> set (up_username up1)" "NUL \<in> set (up_password up1)"
    using read_auth_file_lines [OF assms(7-16)] by blast
  have src: "pass_source io m (Some gc_new) up auth_file pref fl Null = Inr (False, up1, False, False, True, m, Some gc_new)"
    unfolding pass_source_def text_at_def using np f(1) assms(5,6,17-19) by (simp add: Let_def)
  let ?u = "asc ''Enter '' @ pref @ asc '' Username:''" and ?p = "asc ''Enter '' @ pref @ asc '' Password:''"
  have cu: "is_cstr ?u" "is_cstr ?p" using assms(4) by simp_all
  obtain m1 a1 where p1: "prompt m 128 ?u (Some gc_new) = Inr (take (128 - 1) ?u, m1, Some a1)" "gc_inv m1 a1" "mem_ok m1"
      "oom m1 = oom m"
    using prompt_runs [of m 128 ?u gc_new, OF assms(2)] cu(1) assms(1) by (auto simp: BUF_SIZE_MAX_def)
  have o1: "\<not> oom m1 (nxt m1)" using p1(4) assms(2) by simp
  obtain m2 a2 where p2: "prompt m1 128 ?p (Some a1) = Inr (take (128 - 1) ?p, m2, Some a2)" "gc_inv m2 a2"
    using prompt_runs [of m1 128 ?p a1, OF o1] cu(2) p1(2,3) by (auto simp: BUF_SIZE_MAX_def)
  obtain m3 where r: "gc_free m2 a2 = Inr (m3, gc_init a2, map (\<lambda>e. (free_fnc e, addr e)) (list_special a2))"
    using gc_free_ok [OF p2(2)] by blast
  obtain ans where ex: "exec io [] = (True, ans)" using assms(20) by (cases "exec io []") auto
  have cl: "c_strlen (up_username up1) = Inr (length u)" using f(2,4) by (simp add: c_strlen_def)
  have cq: "console_query io m (Some gc_new) up1 pref fl False False = Inr (up1, m2, Some a2)"
    unfolding console_query_def p1(1) bindE_simps prod.case p2(1) using ex cl assms(10,16) by (simp add: Let_def)
  obtain ru where ru: "up_username up1 = u @ NUL # ru" using array_split [OF f(4)] f(2) by auto
  obtain rp where rp: "up_password up1 = p @ NUL # rp" using array_split [OF f(5)] f(3) by auto
  note c = class_chars(1) [OF assms(8)] class_chars(1) [OF assms(9)]
  have keep: "mod_spec CC_PRINT CC_CRLF 0 u = u" "mod_spec CC_PRINT CC_CRLF 0 p = p"
    using assms(8,9) by (auto simp: string_class_all list_all_iff intro!: mod_spec_clean)
  obtain mu ou where mu: "string_mod (up_username up1) CC_PRINT CC_CRLF 0 = Inr (u @ NUL # mu, ou)"
    using string_mod_correct [OF c(1), of ru CC_PRINT CC_CRLF 0] unfolding ru keep by blast
  obtain mp oq where mp: "string_mod (up_password up1) CC_PRINT CC_CRLF 0 = Inr (p @ NUL # mp, oq)"
    using string_mod_correct [OF c(2), of rp CC_PRINT CC_CRLF 0] unfolding rp keep by blast
  show ?thesis
    unfolding get_user_pass_def get_user_pass_cr_def src bindE_simps prod.case
    using assms(3) cq r mu mp c by (simp add: ask_console_def release_def)
qed

definition example_io :: pass_io where
  "example_io = \<lparr>mgmt = False, mgmt_query = (\<lambda>u _ _. (False, u)), single = (\<lambda>_ a _. (False, a)), exec = (\<lambda>_. (True, [])),
     auth_content = (\<lambda>_. Some (asc ''bob'' @ 10 # asc ''pw'' @ 10 # [])), b64_encode = (\<lambda>_. None), b64_decode = (\<lambda>_. [])\<rparr>"

theorem auth_file_credentials_witness:
  "\<exists>up' m'. get_user_pass example_io (empty_mem\<lparr>blocks := [0 \<mapsto> asc ''f'' @ [0]], nxt := 1\<rparr>)
       \<lparr>up_defined = False, up_nocache = False, up_wait_for_push = False, up_username = replicate 4096 0,
        up_password = replicate 4096 0\<rparr> (Ptr 0 0) (asc ''Auth'') 0 = Inr (True, up', m') \<and>
     c_string (up_username up') = asc ''bob'' \<and> c_string (up_password up') = asc ''pw''"
proof -
  let ?m = "empty_mem\<lparr>blocks := [0 \<mapsto> asc ''f'' @ [0]], nxt := 1\<rparr>"
  let ?up = "\<lparr>up_defined = False, up_nocache = False, up_wait_for_push = False, up_username = replicate 4096 0,
        up_password = replicate 4096 0\<rparr>"
  have ok: "mem_ok ?m" "\<And>k. \<not> oom ?m k" by (simp_all add: mem_ok_def empty_mem_def)
  have r: "read_cstr ?m (Ptr 0 0) = Inr (asc ''f'')" by (simp add: read_cstr_def c_string_def)
  have ne: "asc ''f'' \<noteq> asc ''stdin''" by simp
  have a: "auth_content example_io (asc ''f'') = Some (asc ''bob'' @ 10 # asc ''pw'' @ 10 # [])" by (simp add: example_io_def)
  have c: "string_class (asc ''bob'') CC_PRINT CC_CRLF" "string_class (asc ''pw'') CC_PRINT CC_CRLF"
    by (simp_all add: char_inc_exc_def class_eval)
  have e: "fst (exec example_io [])" by (simp add: example_io_def)
  show ?thesis
    using auth_file_credentials [OF ok(1) ok(2) _ _ r ne a c, of ?up "asc ''Auth''" 0] e by fastforce
qed

section \<open>The dynamic challenge\<close>

text \<open>A line array may be longer than the size it is parsed with.\<close>

lemma buf_parse_loop_extra:
  "buf_parse_loop m b d line sz n eol = Inr (b', line', eol') \<Longrightarrow> 0 \<le> n \<Longrightarrow>
     buf_parse_loop m b d (line @ extra) sz n eol = Inr (b', line' @ extra, eol')"
proof (induction m b d line sz n eol rule: buf_parse_loop.induct)
  case (1 m b d line sz n eol)
  obtain c b1 where r: "buf_read_u8 m b = Inr (c, b1)"
    using 1(2) by (subst (asm) buf_parse_loop.simps) (auto simp: bindE_Inr_iff)
  show ?case
  proof (cases "n \<ge> sz \<or> c \<le> 0 \<or> c = d")
    case True
    then show ?thesis using 1(2,3) r
      by (subst (asm) buf_parse_loop.simps, subst buf_parse_loop.simps)
        (auto simp: Let_def bindE_Inr_iff arr_set_def list_update_append split: if_splits)
  next
    case False
    then obtain line1 where a: "arr_set line (nat n) (word_of_int c) = Inr line1"
      and rec: "buf_parse_loop m b1 d line1 sz (n + 1) eol = Inr (b', line', eol')"
      using 1(2) r by (subst (asm) buf_parse_loop.simps) (auto simp: Let_def bindE_Inr_iff)
    have a2: "arr_set (line @ extra) (nat n) (word_of_int c) = Inr (line1 @ extra)"
      using a by (auto simp: arr_set_def list_update_append split: if_splits)
    have "buf_parse_loop m b1 d (line1 @ extra) sz (n + 1) eol = Inr (b', line' @ extra, eol')"
      using 1(1) [of "(c, b1)" c b1 eol c line1] r a rec False 1(3) by simp
    then show ?thesis using r a2 False by (subst buf_parse_loop.simps) (simp add: Let_def)
  qed
qed

lemma buf_parse_extra:
  assumes "buf_parse m b d line sz = Inr (ok, b', line')"
  shows "buf_parse m b d (line @ extra) sz = Inr (ok, b', line' @ extra)"
proof -
  obtain l1 eol n where p: "buf_parse_loop m b d line sz 0 False = Inr (b', l1, eol)" "0 < sz"
      "arr_set l1 (nat (sz - 1)) NUL = Inr line'" "c_strlen line' = Inr n" "ok \<longleftrightarrow> \<not> (eol \<and> n = 0)"
    using assms by (auto simp: buf_parse_def bindE_Inr_iff c_assert_def split: if_splits)
  have "c_strlen (line' @ extra) = Inr n"
    using p(4) by (auto simp: c_strlen_def c_string_def takeWhile_append split: if_splits)
  moreover have "arr_set (l1 @ extra) (nat (sz - 1)) NUL = Inr (line' @ extra)"
    using p(3) by (auto simp: arr_set_def list_update_append split: if_splits)
  ultimately show ?thesis using buf_parse_loop_extra [OF p(1), of extra] p(2,5)
    by (simp add: buf_parse_def c_assert_def)
qed

text \<open>Parsing moves the start of the buffer and keeps its end.\<close>

definition same_end :: "buffer \<Rightarrow> buffer \<Rightarrow> bool" where
  "same_end b b' \<longleftrightarrow> b_data b' = b_data b \<and> b_offset b' + b_len b' = b_offset b + b_len b"

lemma same_end_trans: "same_end a b \<Longrightarrow> same_end b c \<Longrightarrow> same_end a c"
  by (simp add: same_end_def)

lemma buf_read_u8_end: "buf_read_u8 m b = Inr (c, b') \<Longrightarrow> same_end b b'"
  by (auto simp: buf_read_u8_def bindE_Inr_iff buf_len_def buf_advance_def same_end_def split: if_splits)

lemma buf_parse_loop_end:
  "buf_parse_loop m b d line sz n eol = Inr (b', line', eol') \<Longrightarrow> same_end b b'"
proof (induction m b d line sz n eol rule: buf_parse_loop.induct)
  case (1 m b d line sz n eol)
  obtain c b1 where r: "buf_read_u8 m b = Inr (c, b1)"
    using 1(2) by (subst (asm) buf_parse_loop.simps) (auto simp: bindE_Inr_iff)
  note e = buf_read_u8_end [OF r]
  show ?case
  proof (cases "n \<ge> sz \<or> c \<le> 0 \<or> c = d")
    case True
    then have "b' = b1" using 1(2) r
      by (subst (asm) buf_parse_loop.simps) (auto simp: Let_def bindE_Inr_iff split: if_splits)
    then show ?thesis using e by simp
  next
    case False
    then obtain line1 where a: "arr_set line (nat n) (word_of_int c) = Inr line1"
      and rec: "buf_parse_loop m b1 d line1 sz (n + 1) eol = Inr (b', line', eol')"
      using 1(2) r by (subst (asm) buf_parse_loop.simps) (auto simp: Let_def bindE_Inr_iff)
    have "same_end b1 b'" using 1(1) [of "(c, b1)" c b1 eol c line1] r a rec False by simp
    then show ?thesis using e same_end_trans by blast
  qed
qed

lemma buf_parse_end: "buf_parse m b d line sz = Inr (ok, b', line') \<Longrightarrow> same_end b b'"
  using buf_parse_loop_end by (auto simp: buf_parse_def bindE_Inr_iff)

text \<open>One field of a challenge.\<close>

lemma buf_parse_field:
  assumes "buf_inv m b" and "content m b = l @ 58 # rest" and "is_cstr l" and "58 \<notin> set l"
    and "length l < n" and "length work = n + 1"
  shows "\<exists>b' work'. buf_parse m b COLON work (int n) = Inr (True, b', work') \<and> c_string work' = l \<and>
           length work' = n + 1 \<and> buf_inv m b' \<and> content m b' = rest \<and> same_end b b'"
proof -
  have w: "work = take n work @ drop n work" "length (take n work) = n" "length (drop n work) = 1" using assms(6) by auto
  have l: "length l < length (take n work)" using assms(5) w(2) by simp
  obtain b' work' where p: "buf_parse m b 58 (take n work) (int n) = Inr (True, b', work')" "c_string work' = l"
      "length work' = n" "buf_inv m b'" "content m b' = rest"
    using buf_parse_line [OF assms(1,2) _ assms(3,4) l] w(2) by auto
  have n: "NUL \<in> set work'" using buf_parse_any [OF assms(1), of "take n work" "int n" 58] p(1) w(2) assms(5) by auto
  have "c_string (work' @ drop n work) = l" using n p(2) by (auto simp: c_string_def takeWhile_append)
  moreover have "buf_parse m b COLON work (int n) = Inr (True, b', work' @ drop n work)"
    using buf_parse_extra [OF p(1), of "drop n work"] w(1) by (simp add: COLON_def)
  ultimately show ?thesis using p(3-5) w(3) buf_parse_end [OF p(1)] by auto
qed

section \<open>Memory behind the challenge\<close>

lemma same_block:
  assumes "b_data b = Ptr k i" and "blocks m' k = blocks m k"
  shows "buf_inv m' b = buf_inv m b" and "content m' b = content m b"
  using assms by (simp_all add: buf_inv_def room_at_def content_def buf_bptr_def read_bytes_def buf_valid_def)

lemma read_cstr_block: "blocks m' k = blocks m k \<Longrightarrow> read_cstr m' (Ptr k i) = read_cstr m (Ptr k i)"
  by (simp add: read_cstr_def)

lemma gc_malloc_clear:
  assumes "\<not> oom m (nxt m)"
  shows "\<exists>m' a'. gc_malloc m sz True a = Inr (Ptr (nxt m) 0, m', a') \<and>
           blocks m' = (blocks m)(nxt m \<mapsto> replicate sz 0) \<and> nxt m' = Suc (nxt m) \<and> oom m' = oom m"
proof -
  have "overwrite xs 0 (replicate sz 0) = replicate sz 0" if "length xs = sz" for xs :: "byte list"
    using that by (simp add: overwrite_def)
  then show ?thesis using assms
    by (auto simp: gc_malloc_def c_malloc_def new_block_def write_bytes_def Let_def split: option.splits)
qed

lemma string_alloc_fresh:
  assumes "\<not> oom m (nxt m)" and "is_cstr s"
  shows "\<exists>m' a'. string_alloc m (Some s) a = Inr (Ptr (nxt m) 0, m', a') \<and>
           blocks m' = (blocks m)(nxt m \<mapsto> s @ [NUL]) \<and> nxt m' = Suc (nxt m) \<and> oom m' = oom m"
proof -
  have o: "overwrite xs 0 (s @ [NUL]) = s @ [NUL]" if "length xs = Suc (length s)" for xs :: "byte list"
    using that by (simp add: overwrite_def)
  show ?thesis
  proof (cases a)
    case None
    then show ?thesis using assms(1) o
      by (auto simp: string_alloc_def c_calloc_def new_block_def write_bytes_def check_malloc_return_def)
  next
    case (Some ar)
    obtain m1 a1 where g: "gc_malloc m (Suc (length s)) False a = Inr (Ptr (nxt m) 0, m1, a1)"
        "blocks m1 = (blocks m)(nxt m \<mapsto> map (junk m (nxt m)) [0..<Suc (length s)])" "nxt m1 = Suc (nxt m)" "oom m1 = oom m"
      using gc_malloc_fresh [OF assms(1)] by blast
    then show ?thesis using Some o
      by (auto simp: string_alloc_def write_bytes_def simp del: upt_Suc)
  qed
qed

lemma challenge_text_at:
  assumes "read_cstr m p = Inr s" and "buf_set_read p (int (length s)) = Inr b" and "same_end b b'"
    and "buf_inv m b'" and "content m b' = t" and "s = pre @ t"
  shows "read_cstr m (buf_bptr b') = Inr t"
proof -
  obtain k i bs where p: "p = Ptr k i" "blocks m k = Some bs" "0 \<le> i" "NUL \<in> set (drop (nat i) bs)"
      "s = c_string (drop (nat i) bs)"
    using assms(1) by (auto simp: read_cstr_def split: ptr.splits option.splits if_splits)
  obtain rest where d: "drop (nat i) bs = s @ NUL # rest" using array_split [OF p(4)] p(5) by auto
  have b: "b_data b = p" "b_offset b = 0" "b_len b = int (length s)"
    using assms(2) by (auto simp: buf_set_read_def split: if_splits)
  have "b_len b' = int (length t)" using read_content(2) [OF assms(4)] assms(5) by simp
  then have off: "b_offset b' = int (length pre)" using assms(3,6) b by (simp add: same_end_def)
  have ptr: "buf_bptr b' = Ptr k (i + int (length pre))"
    using buf_inv_ptr [OF assms(4)] off assms(3) b(1) p(1) by (simp add: same_end_def)
  have "drop (nat (i + int (length pre))) bs = drop (length pre) (drop (nat i) bs)"
    using p(3) by (simp add: nat_add_distrib add.commute)
  also have "\<dots> = t @ NUL # rest" unfolding d assms(6) by simp
  finally have dd: "drop (nat (i + int (length pre))) bs = t @ NUL # rest" .
  have "is_cstr s" using p(5) by simp
  then have "is_cstr t" using assms(6) by simp
  then show ?thesis using p(2,3) ptr dd by (simp add: read_cstr_def)
qed

text \<open>The three fields in front of the user name, and the two strings allocated behind them.\<close>

lemma challenge_fields:
  assumes "buf_inv m b" and "content m b = asc ''CRV1'' @ 58 # fl @ 58 # sid @ 58 # ue @ 58 # t"
    and "is_cstr fl" and "is_cstr sid" and "58 \<notin> set fl" and "58 \<notin> set sid"
    and "length work = n + 1" and "n = 8 + length fl + length sid + length ue + length t"
  shows "\<exists>b1 w1 b2 w2 b3 w3.
     (buf_parse m b COLON work (int n) = Inr (True, b1, w1) \<and> c_string w1 = asc ''CRV1'') \<and>
     (buf_parse m b1 COLON w1 (int n) = Inr (True, b2, w2) \<and> c_string w2 = fl) \<and>
     (buf_parse m b2 COLON w2 (int n) = Inr (True, b3, w3) \<and> c_string w3 = sid) \<and>
     length w3 = n + 1 \<and> buf_inv m b3 \<and> content m b3 = ue @ 58 # t \<and> same_end b b3"
proof -
  obtain b1 w1 where f1: "buf_parse m b COLON work (int n) = Inr (True, b1, w1)" "c_string w1 = asc ''CRV1''"
      "length w1 = n + 1" "buf_inv m b1" "content m b1 = fl @ 58 # sid @ 58 # ue @ 58 # t" "same_end b b1"
    using buf_parse_field [OF assms(1,2) _ _ _ assms(7)] assms(8) by auto
  obtain b2 w2 where f2: "buf_parse m b1 COLON w1 (int n) = Inr (True, b2, w2)" "c_string w2 = fl"
      "length w2 = n + 1" "buf_inv m b2" "content m b2 = sid @ 58 # ue @ 58 # t" "same_end b1 b2"
    using buf_parse_field [OF f1(4,5) assms(3,5) _ f1(3)] assms(8) by auto
  obtain b3 w3 where f3: "buf_parse m b2 COLON w2 (int n) = Inr (True, b3, w3)" "c_string w3 = sid"
      "length w3 = n + 1" "buf_inv m b3" "content m b3 = ue @ 58 # t" "same_end b2 b3"
    using buf_parse_field [OF f2(4,5) assms(4,6) _ f2(3)] assms(8) by auto
  have "same_end b b3" using f1(6) f2(6) f3(6) same_end_trans by blast
  then show ?thesis using f1(1,2) f2(1,2) f3(1-5) by blast
qed

lemma challenge_user:
  assumes "\<And>k. \<not> oom m k" and "is_cstr u" and "length u \<le> n" and "y = nxt m"
  obtains m1 g1 m2 where "gc_malloc m (n + 1) True gc = Inr (Ptr y 0, m1, g1)"
    and "write_bytes m1 (Ptr y 0) u = Inr m2" and "nxt m2 = Suc y" and "oom m2 = oom m"
    and "read_cstr m2 (Ptr y 0) = Inr u" and "\<And>k. k < y \<Longrightarrow> blocks m2 k = blocks m k"
proof -
  obtain m1 g1 where m1: "gc_malloc m (n + 1) True gc = Inr (Ptr y 0, m1, g1)"
      "blocks m1 = (blocks m)(y \<mapsto> replicate (n + 1) 0)" "nxt m1 = Suc y" "oom m1 = oom m"
    using gc_malloc_clear [of m "n + 1" gc] assms(1,4) by auto
  let ?ub = "overwrite (replicate (n + 1) 0) 0 u"
  obtain m2 where m2: "write_bytes m1 (Ptr y 0) u = Inr m2" "blocks m2 = (blocks m1)(y \<mapsto> ?ub)"
      "nxt m2 = Suc y" "oom m2 = oom m"
    using m1(2-4) assms(3) write_bytes_Ptr [of m1 y _ 0 u] by auto
  have "?ub = u @ NUL # replicate (n - length u) 0"
    using assms(3) by (simp add: overwrite_def drop_replicate Suc_diff_le del: replicate_Suc) (simp only: replicate_Suc)
  then have "read_cstr m2 (Ptr y 0) = Inr u" using m2(2) assms(2) by (simp add: read_cstr_def)
  then show thesis using that m1(1,2) m2 by simp
qed

text \<open>
  C14: A well-formed dynamic challenge is taken apart into its flags, state, user name and text: the five
  fields that a server joined with colons come back, the name decoded, and the text may contain colons.
\<close>

theorem auth_challenge_parses:
  assumes "mem_ok m" and "\<And>k. \<not> oom m k" and "read_cstr m p = Inr s" and "int (length s) < BUF_SIZE_MAX"
    and "s = asc ''CRV1:'' @ fl @ asc '':'' @ sid @ asc '':'' @ ue @ asc '':'' @ t"
    and "58 \<notin> set fl" and "58 \<notin> set sid" and "58 \<notin> set ue"
    and "is_cstr (decode ue)" and "length (decode ue) \<le> length ue"
  shows "\<exists>ac m' gc'. get_auth_challenge decode m p gc = Inr (Some ac, m', gc') \<and>
           ac_flags ac = challenge_flags fl 0 \<and> read_cstr m' (ac_state_id ac) = Inr sid \<and>
           read_cstr m' (ac_user ac) = Inr (decode ue) \<and> read_cstr m' (ac_challenge_text ac) = Inr t"
proof -
  obtain k i bs where p: "p = Ptr k i" "blocks m k = Some bs" "s = c_string (drop (nat i) bs)"
    using assms(3) by (auto simp: read_cstr_def split: ptr.splits option.splits if_splits)
  have kl: "k < nxt m" using mem_ok_live [OF assms(1) p(2)] .
  have cs: "is_cstr fl" "is_cstr sid" "is_cstr ue" "is_cstr t" 
  proof -
    have "is_cstr s" using p(3) by simp
    then show "is_cstr fl" "is_cstr sid" "is_cstr ue" "is_cstr t" unfolding assms(5) by simp_all
  qed
  let ?n = "length s" and ?x = "nxt m"
  obtain b where b: "buf_set_read p (int ?n) = Inr b" "buf_inv m b" "content m b = s"
    using set_read_inv [OF assms(3,4)] by blast
  have bd: "b_data b = Ptr k i" using b(1) p(1) by (auto simp: buf_set_read_def split: if_splits)
  obtain m1 g1 where m1: "gc_malloc m (?n + 1) False gc = Inr (Ptr ?x 0, m1, g1)"
      "blocks m1 = (blocks m)(?x \<mapsto> map (junk m ?x) [0..<?n + 1])" "nxt m1 = Suc ?x" "oom m1 = oom m"
    using gc_malloc_fresh [OF assms(2)] by blast
  define work where "work = map (junk m ?x) [0..<?n + 1]"
  have lw: "length work = ?n + 1" by (simp add: work_def)
  have w: "read_bytes m1 (Ptr ?x 0) (int ?n + 1) = Inr work"
    using m1(2) lw by (simp add: read_bytes_def work_def nat_add_distrib)
  obtain q m2 g2 where m2: "gc_malloc m1 32 True g1 = Inr (q, m2, g2)"
      "blocks m2 = (blocks m1)(Suc ?x \<mapsto> replicate 32 0)" "nxt m2 = Suc (Suc ?x)" "oom m2 = oom m"
    using gc_malloc_clear [of m1 32 g1] assms(2) m1(3,4) by auto
  have k2: "blocks m2 k = blocks m k" using m2(2) m1(2) kl by simp
  have c0: "buf_inv m2 b" "content m2 b = asc ''CRV1'' @ 58 # fl @ 58 # sid @ 58 # ue @ 58 # t"
    using same_block [OF bd k2] b(2,3) assms(5) by simp_all
  have ln: "?n = 8 + length fl + length sid + length ue + length t" using assms(5) by simp
  obtain b1 w1 b2 w2 b3 w3 where f1: "buf_parse m2 b COLON work (int ?n) = Inr (True, b1, w1)" "c_string w1 = asc ''CRV1''"
    and f2: "buf_parse m2 b1 COLON w1 (int ?n) = Inr (True, b2, w2)" "c_string w2 = fl"
    and f3: "buf_parse m2 b2 COLON w2 (int ?n) = Inr (True, b3, w3)" "c_string w3 = sid"
    and w3: "length w3 = ?n + 1" and r3: "buf_inv m2 b3" "content m2 b3 = ue @ 58 # t" and e3: "same_end b b3"
    using challenge_fields [OF c0 cs(1,2) assms(6,7) lw ln] by (elim exE conjE) (rule that)
  obtain m3 g3 where m3: "string_alloc m2 (Some sid) g2 = Inr (Ptr (Suc (Suc ?x)) 0, m3, g3)"
      "blocks m3 = (blocks m2)(Suc (Suc ?x) \<mapsto> sid @ [NUL])" "nxt m3 = Suc (Suc (Suc ?x))" "oom m3 = oom m"
    using string_alloc_fresh [of m2 sid g2] assms(2) m2(3,4) cs(2) by auto
  have d3: "b_data b3 = Ptr k i" using bd e3 by (simp add: same_end_def)
  have k3: "blocks m3 k = blocks m2 k" using m3(2) kl by simp
  have c3: "buf_inv m3 b3" "content m3 b3 = ue @ 58 # t" using same_block [OF d3 k3] r3 by simp_all
  obtain b4 w4 where f4: "buf_parse m3 b3 COLON w3 (int ?n) = Inr (True, b4, w4)" "c_string w4 = ue"
      "buf_inv m3 b4" "content m3 b4 = t" "same_end b3 b4"
    using buf_parse_field [OF c3 cs(3) assms(8) _ w3] ln by auto
  let ?y = "Suc (Suc (Suc ?x))"
  obtain m4 g4 m5 where m4: "gc_malloc m3 (length ue + 1) True g3 = Inr (Ptr ?y 0, m4, g4)"
    and m5: "write_bytes m4 (Ptr ?y 0) (decode ue) = Inr m5" "nxt m5 = Suc ?y" "oom m5 = oom m3"
    and u5: "read_cstr m5 (Ptr ?y 0) = Inr (decode ue)" and old: "\<And>j. j < ?y \<Longrightarrow> blocks m5 j = blocks m3 j"
    using challenge_user [of m3 "decode ue" "length ue" ?y g3] assms(2,9,10) m3(3,4) by (metis (no_types))
  have k5: "blocks m5 k = blocks m k" using old [of k] k3 k2 kl by simp
  have e4: "same_end b b4" using e3 f4(5) same_end_trans by blast
  then have d4: "b_data b4 = Ptr k i" using bd by (simp add: same_end_def)
  have k53: "blocks m5 k = blocks m3 k" using k5 k3 k2 by simp
  have c5: "buf_inv m5 b4" "content m5 b4 = t" using same_block [OF d4 k53] f4(3,4) by simp_all
  have r5: "read_cstr m5 p = Inr s" using assms(3) p(1) read_cstr_block [OF k5] by simp
  have t5: "read_cstr m5 (buf_bptr b4) = Inr t"
    using challenge_text_at [OF r5 b(1) e4 c5, of "asc ''CRV1:'' @ fl @ asc '':'' @ sid @ asc '':'' @ ue @ asc '':''"] assms(5)
    by simp
  obtain m6 g6 where m6: "string_alloc m5 (Some t) g4 = Inr (Ptr (Suc ?y) 0, m6, g6)"
      "blocks m6 = (blocks m5)(Suc ?y \<mapsto> t @ [NUL])"
    using string_alloc_fresh [of m5 t g4] assms(2) m5(2,3) m3(4) cs(4) by auto
  have u6: "read_cstr m6 (Ptr ?y 0) = Inr (decode ue)"
    using m6(2) u5 read_cstr_block [of m6 ?y m5] by simp
  have s6: "read_cstr m6 (Ptr (Suc (Suc ?x)) 0) = Inr sid"
    using m6(2) old [of "Suc (Suc ?x)"] m3(2) cs(2) by (simp add: read_cstr_def)
  have t6: "read_cstr m6 (Ptr (Suc ?y) 0) = Inr t" using m6(2) cs(4) by (simp add: read_cstr_def)
  have np: "p \<noteq> Null" using p(1) by simp
  have g: "get_auth_challenge decode m p gc = Inr (Some \<lparr>ac_flags = challenge_flags fl 0, ac_user = Ptr ?y 0,
      ac_state_id = Ptr (Suc (Suc ?x)) 0, ac_challenge_text = Ptr (Suc ?y) 0\<rparr>, m6, g6)"
    unfolding get_auth_challenge_def Let_def
    using np by (simp only: if_False assms(3) bindE_simps m1(1) w b(1) m2(1) f1(1,2) f2(1,2) f3(1,2) m3(1) f4(1,2) m4
        m5(1) t5 m6(1) prod.case simp_thms)
  show ?thesis using g u6 s6 t6 by simp
qed

theorem auth_challenge_parses_witness:
  "\<exists>ac m' gc'. get_auth_challenge butlast (empty_mem\<lparr>blocks := [0 \<mapsto> asc ''CRV1:R:id:bob=:Code: 1'' @ [0]], nxt := 1\<rparr>)
        (Ptr 0 0) None = Inr (Some ac, m', gc') \<and> ac_flags ac = CR_RESPONSE \<and>
      read_cstr m' (ac_user ac) = Inr (asc ''bob'') \<and> read_cstr m' (ac_challenge_text ac) = Inr (asc ''Code: 1'')"
proof -
  let ?s = "asc ''CRV1:R:id:bob=:Code: 1''"
  let ?m = "empty_mem\<lparr>blocks := [0 \<mapsto> ?s @ [0]], nxt := 1\<rparr>"
  have ok: "mem_ok ?m" "\<And>k. \<not> oom ?m k" by (simp_all add: mem_ok_def empty_mem_def)
  have r: "read_cstr ?m (Ptr 0 0) = Inr ?s" by (simp add: read_cstr_def c_string_def)
  have l: "int (length ?s) < BUF_SIZE_MAX" by (simp add: BUF_SIZE_MAX_def)
  have e: "?s = asc ''CRV1:'' @ asc ''R'' @ asc '':'' @ asc ''id'' @ asc '':'' @ asc ''bob='' @ asc '':'' @ asc ''Code: 1''" by simp
  have n: "58 \<notin> set (asc ''R'')" "58 \<notin> set (asc ''id'')" "58 \<notin> set (asc ''bob='')" by simp_all
  have d: "butlast (asc ''bob='') = asc ''bob''" by simp
  have d2: "is_cstr (butlast (asc ''bob=''))" "length (butlast (asc ''bob='')) \<le> length (asc ''bob='')" by simp_all
  have f: "challenge_flags (asc ''R'') 0 = CR_RESPONSE" by (simp add: CR_RESPONSE_def)
  show ?thesis
    using auth_challenge_parses [where decode = butlast and ue = "asc ''bob=''" and gc = None, OF ok(1) ok(2) r l e n d2] unfolding d f by blast
qed

end
