(* ===== verification/Error_Log.thy ===== *)
theory Error_Log
  imports Text_Laws Decimal Sock_Addr
begin

text \<open>
  \<open>src/Treiber/lib/error.c\<close> and \<open>error.h\<close>: which messages are shown, where and with which prefix, the
  muting of repeated messages, and the exit of the process. The streams are lists of the texts written to
  them; an exit is a value \<open>Inl\<close> with the exit status and the state of the log. The scratch arrays of
  \<open>x_msg_va\<close> are held by value.
\<close>

type_synonym mflags = "32 word"

definition M_DEBUG_LEVEL :: mflags where "M_DEBUG_LEVEL = 0x0F"
definition M_FATAL :: mflags where "M_FATAL = push_bit 4 1"
definition M_NONFATAL :: mflags where "M_NONFATAL = push_bit 5 1"
definition M_WARN :: mflags where "M_WARN = push_bit 6 1"
definition M_DEBUG :: mflags where "M_DEBUG = push_bit 7 1"
definition M_ERRNO :: mflags where "M_ERRNO = push_bit 8 1"
definition M_NOMUTE :: mflags where "M_NOMUTE = push_bit 11 1"
definition M_NOPREFIX :: mflags where "M_NOPREFIX = push_bit 12 1"
definition M_USAGE_SMALL :: mflags where "M_USAGE_SMALL = push_bit 13 1"
definition M_MSG_VIRT_OUT :: mflags where "M_MSG_VIRT_OUT = push_bit 14 1"
definition M_OPTERR :: mflags where "M_OPTERR = push_bit 15 1"
definition M_NOLF :: mflags where "M_NOLF = push_bit 16 1"
definition M_NOIPREFIX :: mflags where "M_NOIPREFIX = push_bit 17 1"

definition MUTE_LEVEL_MASK :: mflags where "MUTE_LEVEL_MASK = 0xFF"

definition ENCODE_MUTE_LEVEL :: "mflags \<Rightarrow> mflags" where
  "ENCODE_MUTE_LEVEL mute_level = push_bit 24 (mute_level AND MUTE_LEVEL_MASK)"

definition DECODE_MUTE_LEVEL :: "mflags \<Rightarrow> mflags" where
  "DECODE_MUTE_LEVEL fl = drop_bit 24 fl AND MUTE_LEVEL_MASK"

definition LOGLEV :: "mflags \<Rightarrow> mflags \<Rightarrow> mflags \<Rightarrow> mflags" where
  "LOGLEV log_level mute_level other = log_level OR ENCODE_MUTE_LEVEL mute_level OR other"

definition M_INFO :: mflags where "M_INFO = LOGLEV 1 0 0"
definition M_ERR :: mflags where "M_ERR = M_FATAL OR M_ERRNO"
definition M_USAGE :: mflags where "M_USAGE = M_USAGE_SMALL OR M_NOPREFIX OR M_OPTERR"

abbreviation has :: "mflags \<Rightarrow> mflags \<Rightarrow> bool" where "has fl f \<equiv> fl AND f \<noteq> 0"

definition ERR_BUF_SIZE :: nat where "ERR_BUF_SIZE = 8192"
definition OPENVPN_EXIT_STATUS_GOOD :: int where "OPENVPN_EXIT_STATUS_GOOD = 0"
definition OPENVPN_EXIT_STATUS_ERROR :: int where "OPENVPN_EXIT_STATUS_ERROR = 1"
definition OPENVPN_EXIT_STATUS_CANNOT_OPEN_DEBUG_FILE :: int where "OPENVPN_EXIT_STATUS_CANNOT_OPEN_DEBUG_FILE = 1"

section \<open>The state of the log\<close>

datatype stream = StdOut | StdErr | LogFile

text \<open>
  The global variables of \<open>error.c\<close>, and what was written: \<open>printed\<close> to the streams, \<open>copied\<close> to the virtual
  output (the management interface). \<open>virtual_out\<close> says whether there is one.
\<close>

record log_state =
  x_debug_level :: "32 word"
  mute_cutoff :: int
  mute_count :: int
  mute_category :: int
  std_redir :: bool
  use_syslog :: bool
  machine_readable_output :: bool
  suppress_timestamps :: bool
  msgfp :: "stream option"
  forked :: bool
  default_out :: "stream option"
  default_err :: "stream option"
  x_msg_line_num :: int
  x_msg_prefix :: "cstr option"
  virtual_out :: bool
  x_cs_info_level :: mflags
  x_cs_verbose_level :: mflags
  x_cs_err_delay_ms :: "32 word"
  printed :: "(stream \<times> cstr) list"
  copied :: "(mflags \<times> cstr) list"

type_synonym run = "(int \<times> log_state) + log_state"

text \<open>
  The C library and the clock: \<open>strerror\<close>, \<open>time_string(0, 0, show_usec, gc)\<close>, \<open>gettimeofday\<close> and
  \<open>GetLastError\<close>; \<open>usage_small\<close> is declared in \<open>options.c\<close>, outside the repository.
\<close>

record log_env =
  strerror :: "int \<Rightarrow> cstr"
  time_string_now :: "bool \<Rightarrow> cstr"
  tv_now :: "int \<times> int"
  last_error :: int
  usage_small :: "log_state \<Rightarrow> run"

definition msg_forked :: "log_state \<Rightarrow> log_state" where "msg_forked st = st\<lparr>forked := True\<rparr>"

definition SDL_CONSTRAIN :: "32 word" where "SDL_CONSTRAIN = 1"

definition set_debug_level :: "int \<Rightarrow> 32 word \<Rightarrow> log_state \<Rightarrow> bool \<times> log_state" where
  "set_debug_level level fl st =
     (let ceiling = 15
      in if level \<ge> 0 \<and> level \<le> ceiling then (True, st\<lparr>x_debug_level := word_of_int level\<rparr>)
         else if fl AND SDL_CONSTRAIN \<noteq> 0 then (True, st\<lparr>x_debug_level := word_of_int (constrain_int level 0 ceiling)\<rparr>)
         else (False, st))"

definition set_mute_cutoff :: "int \<Rightarrow> log_state \<Rightarrow> bool \<times> log_state" where
  "set_mute_cutoff cutoff st = (if cutoff \<ge> 0 then (True, st\<lparr>mute_cutoff := cutoff\<rparr>) else (False, st))"

definition get_debug_level :: "log_state \<Rightarrow> 32 word" where "get_debug_level st = x_debug_level st"

definition get_mute_cutoff :: "log_state \<Rightarrow> int" where "get_mute_cutoff st = mute_cutoff st"

definition set_suppress_timestamps :: "bool \<Rightarrow> log_state \<Rightarrow> log_state" where
  "set_suppress_timestamps suppressed st = st\<lparr>suppress_timestamps := suppressed\<rparr>"

definition set_machine_readable_output :: "bool \<Rightarrow> log_state \<Rightarrow> log_state" where
  "set_machine_readable_output parsable st = st\<lparr>machine_readable_output := parsable\<rparr>"

definition error_reset :: "log_state \<Rightarrow> log_state" where
  "error_reset st =
     st\<lparr>use_syslog := False, std_redir := False, suppress_timestamps := False, machine_readable_output := False,
        x_debug_level := 1, mute_cutoff := 0, mute_count := 0, mute_category := 0,
        default_out := Some StdOut, default_err := Some StdOut, msgfp := None\<rparr>"

definition errors_to_stderr :: "log_state \<Rightarrow> log_state" where
  "errors_to_stderr st = st\<lparr>default_err := Some StdErr\<rparr>"

definition msg_set_prefix :: "cstr option \<Rightarrow> log_state \<Rightarrow> log_state" where
  "msg_set_prefix pref st = st\<lparr>x_msg_prefix := pref\<rparr>"

text \<open>The process ends; what \<open>openvpn_exit\<close> closes on the way is not part of the log.\<close>

definition openvpn_exit :: "int \<Rightarrow> log_state \<Rightarrow> run" where
  "openvpn_exit status st = Inl (status, st)"

definition msg_fp :: "mflags \<Rightarrow> log_state \<Rightarrow> (int \<times> log_state) + stream" where
  "msg_fp fl st =
     (let fp = (case msgfp st of
                  Some f \<Rightarrow> Some f
                | None \<Rightarrow> if has fl (M_FATAL OR M_USAGE_SMALL) then default_err st else default_out st)
      in case fp of None \<Rightarrow> Inl (OPENVPN_EXIT_STATUS_CANNOT_OPEN_DEBUG_FILE, st) | Some f \<Rightarrow> Inr f)"

section \<open>Writing a message\<close>

definition check_debug_level :: "mflags \<Rightarrow> log_state \<Rightarrow> bool" where
  "check_debug_level level st \<longleftrightarrow> level AND M_DEBUG_LEVEL \<le> x_debug_level st"

definition DEBUG_LEVEL_USEC_TIME :: mflags where "DEBUG_LEVEL_USEC_TIME = 4"

definition err_buf :: "cstr \<Rightarrow> cstr" where "err_buf s = take (ERR_BUF_SIZE - 1) s"

text \<open>The text after the error number and the mark of an options error.\<close>

definition msg_text :: "log_env \<Rightarrow> mflags \<Rightarrow> cstr \<Rightarrow> cstr" where
  "msg_text env fl txt =
     (let m1 = err_buf txt;
          e = last_error env;
          m1 = (if has fl M_ERRNO \<and> e \<noteq> 0
                then err_buf (m1 @ asc '': '' @ strerror env e @ asc '' (errno='' @ dec_int e @ asc '')'') else m1)
      in if has fl M_OPTERR then err_buf (asc ''Options error: '' @ m1) else m1)"

text \<open>\<open>%x\<close> of the flags.\<close>

fun hex_nat :: "nat \<Rightarrow> cstr" where
  "hex_nat n = (if n < 16 then [hex_digit False n] else hex_nat (n div 16) @ [hex_digit False (n mod 16)])"

declare hex_nat.simps [simp del]

definition msg_line :: "log_env \<Rightarrow> mflags \<Rightarrow> cstr \<Rightarrow> log_state \<Rightarrow> cstr" where
  "msg_line env fl body st =
     (let show_usec = check_debug_level DEBUG_LEVEL_USEC_TIME st;
          lf = (if has fl M_NOLF then [] else [10])
      in if machine_readable_output st
         then dec_int (fst (tv_now env)) @ asc ''.'' @ dec_pad 6 (snd (tv_now env)) @ asc '' '' @ hex_nat (unat fl) @ asc '' ''
                @ body @ [10]
         else if has fl M_NOPREFIX \<or> suppress_timestamps st then body @ lf
         else time_string_now env show_usec @ asc '' '' @ body @ lf)"

definition emit_msg :: "log_env \<Rightarrow> mflags \<Rightarrow> cstr \<Rightarrow> log_state \<Rightarrow> run" where
  "emit_msg env fl txt st =
     (let m1 = msg_text env fl txt;
          pref = (if has fl M_NOIPREFIX then None else x_msg_prefix st);
          body = (case pref of None \<Rightarrow> m1 | Some p \<Rightarrow> p @ asc '' '' @ m1);
          st1 = (if \<not> forked st \<and> virtual_out st then st\<lparr>copied := copied st @ [(fl, err_buf body)]\<rparr> else st)
      in if has fl M_MSG_VIRT_OUT then Inr st1
         else if use_syslog st \<and> \<not> std_redir st \<and> \<not> forked st then Inr st1
         else bindE (msg_fp fl st1)
                (\<lambda>fp. Inr (st1\<lparr>printed := printed st1 @ [(fp, msg_line env fl body st1)],
                               x_msg_line_num := x_msg_line_num st1 + 1\<rparr>)))"

section \<open>Muting and levels\<close>

text \<open>
  \<open>dont_mute\<close> writes notes of its own with \<open>M_INFO | M_NOMUTE\<close>, which is why the recursion through \<open>msg\<close>
  ends there; a fatal message is followed by one more message, \<open>M_INFO\<close>, before the exit.
\<close>

definition mute_note :: "log_env \<Rightarrow> cstr \<Rightarrow> log_state \<Rightarrow> run" where
  "mute_note env txt st =
     (if check_debug_level (M_INFO OR M_NOMUTE) st then emit_msg env (M_INFO OR M_NOMUTE) txt st else Inr st)"

definition dont_mute :: "log_env \<Rightarrow> mflags \<Rightarrow> log_state \<Rightarrow> (int \<times> log_state) + bool \<times> log_state" where
  "dont_mute env fl st =
     (if mute_cutoff st > 0 \<and> \<not> has fl M_NOMUTE
      then (let mute_level = uint (DECODE_MUTE_LEVEL fl)
            in if mute_level > 0 \<and> mute_level = mute_category st
               then bindE (if mute_count st = mute_cutoff st
                           then mute_note env (asc ''NOTE: --mute triggered...'') st else Inr st)
                      (\<lambda>st1. let st2 = st1\<lparr>mute_count := to_int (mute_count st1 + 1)\<rparr>
                             in Inr (\<not> mute_count st2 > mute_cutoff st2, st2))
               else (let suppressed = mute_count st - mute_cutoff st
                     in bindE (if suppressed > 0
                               then mute_note env (dec_int suppressed @ asc '' variation(s) on previous '' @
                                      dec_int (mute_cutoff st) @ asc '' message(s) suppressed by --mute'') st
                               else Inr st)
                          (\<lambda>st1. Inr (True, st1\<lparr>mute_count := 1, mute_category := mute_level\<rparr>))))
      else Inr (True, st))"

definition msg_test :: "log_env \<Rightarrow> mflags \<Rightarrow> log_state \<Rightarrow> (int \<times> log_state) + bool \<times> log_state" where
  "msg_test env fl st = (if check_debug_level fl st then dont_mute env fl st else Inr (False, st))"

definition farewell :: "log_env \<Rightarrow> log_state \<Rightarrow> run" where
  "farewell env st =
     bindE (msg_test env M_INFO st)
       (\<lambda>(b, st1). if b then emit_msg env M_INFO (asc ''Exiting due to fatal error'') st1 else Inr st1)"

definition x_msg_va :: "log_env \<Rightarrow> mflags \<Rightarrow> cstr \<Rightarrow> log_state \<Rightarrow> run" where
  "x_msg_va env fl txt st =
     bindE (emit_msg env fl txt st)
       (\<lambda>st1. bindE (if has fl M_FATAL then farewell env st1 else Inr st1)
         (\<lambda>st2. bindE (if has fl M_FATAL then openvpn_exit OPENVPN_EXIT_STATUS_ERROR st2 else Inr st2)
           (\<lambda>st3. if has fl M_USAGE_SMALL then usage_small env st3 else Inr st3)))"

definition x_msg :: "log_env \<Rightarrow> mflags \<Rightarrow> cstr \<Rightarrow> log_state \<Rightarrow> run" where
  "x_msg env fl txt st = x_msg_va env fl txt st"

text \<open>The macro \<open>msg\<close> exits after a fatal message even when the level hides it.\<close>

definition EXIT_FATAL :: "mflags \<Rightarrow> log_state \<Rightarrow> run" where
  "EXIT_FATAL fl st = (if has fl M_FATAL then Inl (1, st) else Inr st)"

definition msg :: "log_env \<Rightarrow> mflags \<Rightarrow> cstr \<Rightarrow> log_state \<Rightarrow> run" where
  "msg env fl txt st =
     bindE (msg_test env fl st)
       (\<lambda>(b, st1). bindE (if b then x_msg env fl txt st1 else Inr st1) (\<lambda>st2. EXIT_FATAL fl st2))"

definition assert_failed :: "log_env \<Rightarrow> cstr \<Rightarrow> int \<Rightarrow> cstr option \<Rightarrow> log_state \<Rightarrow> run" where
  "assert_failed env filename line condition st =
     bindE (case condition of
              Some c \<Rightarrow> msg env M_FATAL (asc ''Assertion failed at '' @ filename @ asc '':'' @ dec_int line @ asc '' ('' @ c @ asc '')'') st
            | None \<Rightarrow> msg env M_FATAL (asc ''Assertion failed at '' @ filename @ asc '':'' @ dec_int line) st)
       (\<lambda>st1. Inl (1, st1))"

definition nonfatal :: "mflags \<Rightarrow> mflags" where
  "nonfatal err = (if has err M_FATAL then (err XOR M_FATAL) OR M_NONFATAL else err)"

section \<open>Messages for error numbers\<close>

text \<open>The cases of \<open>strerror_win32\<close>, with the numbers that \<open>winerror.h\<close> and \<open>winsock2.h\<close> give the names.\<close>

definition win32_messages :: "(int \<times> string) list" where
  "win32_messages =
   [(31, ''General failure (ERROR_GEN_FAILURE)''),
    (997, ''I/O Operation in progress (ERROR_IO_PENDING)''),
    (996, ''I/O Operation in progress (WSA_IO_INCOMPLETE)''),
    (10004, ''Interrupted system call (WSAEINTR)''),
    (10009, ''Bad file number (WSAEBADF)''),
    (10013, ''Permission denied (WSAEACCES)''),
    (10014, ''Bad address (WSAEFAULT)''),
    (10022, ''Invalid argument (WSAEINVAL)''),
    (10024, ''Too many open files (WSAEMFILE)''),
    (10035, ''Operation would block (WSAEWOULDBLOCK)''),
    (10036, ''Operation now in progress (WSAEINPROGRESS)''),
    (10037, ''Operation already in progress (WSAEALREADY)''),
    (10039, ''Destination address required (WSAEDESTADDRREQ)''),
    (10040, ''Message too long (WSAEMSGSIZE)''),
    (10041, ''Protocol wrong type for socket (WSAEPROTOTYPE)''),
    (10042, ''Bad protocol option (WSAENOPROTOOPT)''),
    (10043, ''Protocol not supported (WSAEPROTONOSUPPORT)''),
    (10044, ''Socket type not supported (WSAESOCKTNOSUPPORT)''),
    (10045, ''Operation not supported on socket (WSAEOPNOTSUPP)''),
    (10046, ''Protocol family not supported (WSAEPFNOSUPPORT)''),
    (10047, ''Address family not supported by protocol family (WSAEAFNOSUPPORT)''),
    (10048, ''Address already in use (WSAEADDRINUSE)''),
    (10050, ''Network is down (WSAENETDOWN)''),
    (10051, ''Network is unreachable (WSAENETUNREACH)''),
    (10052, ''Net dropped connection or reset (WSAENETRESET)''),
    (10053, ''Software caused connection abort (WSAECONNABORTED)''),
    (10054, ''Connection reset by peer (WSAECONNRESET)''),
    (10055, ''No buffer space available (WSAENOBUFS)''),
    (10056, ''Socket is already connected (WSAEISCONN)''),
    (10057, ''Socket is not connected (WSAENOTCONN)''),
    (10060, ''Connection timed out (WSAETIMEDOUT)''),
    (10061, ''Connection refused (WSAECONNREFUSED)''),
    (10062, ''Too many levels of symbolic links (WSAELOOP)''),
    (10063, ''File name too long (WSAENAMETOOLONG)''),
    (10064, ''Host is down (WSAEHOSTDOWN)''),
    (10065, ''No Route to Host (WSAEHOSTUNREACH)''),
    (10066, ''Directory not empty (WSAENOTEMPTY)''),
    (10067, ''Too many processes (WSAEPROCLIM)''),
    (10068, ''Too many users (WSAEUSERS)''),
    (10069, ''Disc Quota Exceeded (WSAEDQUOT)''),
    (10070, ''Stale NFS file handle (WSAESTALE)''),
    (10091, ''Network SubSystem is unavailable (WSASYSNOTREADY)''),
    (10092, ''WINSOCK DLL Version out of range (WSAVERNOTSUPPORTED)''),
    (10093, ''Successful WSASTARTUP not yet performed (WSANOTINITIALISED)''),
    (10071, ''Too many levels of remote in path (WSAEREMOTE)''),
    (11001, ''Host not found (WSAHOST_NOT_FOUND)'')]"

fun blank_line_ends :: "cstr \<Rightarrow> cstr" where
  "blank_line_ends [] = []"
| "blank_line_ends (c # cp) = (if c = 10 \<or> c = 13 then of_char CHR '' '' else c) # blank_line_ends cp"

text \<open>
  \<open>FormatMessage\<close> has put \<open>formatted\<close> into an array of 256 bytes, or has failed. A constant text is not in
  the memory of the model: the result is the text itself.
\<close>

definition strerror_win32 ::
  "mem \<Rightarrow> int \<Rightarrow> cstr option \<Rightarrow> gc_arena option \<Rightarrow> fault + cstr \<times> mem \<times> gc_arena option" where
  "strerror_win32 m errnum formatted gc =
     (case map_of win32_messages errnum of
        Some t \<Rightarrow> Inr (asc t, m, gc)
      | None \<Rightarrow>
          bindE (alloc_buf_gc m 256 gc)
            (\<lambda>(out, m1, gc1).
               bindE (buf_printf m1 out
                        (Some (case formatted of
                           None \<Rightarrow> asc ''[Unknown Win32 Error]''
                         | Some message \<Rightarrow> blank_line_ends message)))
                 (\<lambda>(_, out1, m2). bindE (read_cstr m2 (buf_bptr out1)) (\<lambda>s. Inr (s, m2, gc1)))))"

definition msg_flags_string ::
  "mem \<Rightarrow> mflags \<Rightarrow> gc_arena option \<Rightarrow> fault + ptr \<times> mem \<times> gc_arena option" where
  "msg_flags_string m fl gc =
     (let put = (\<lambda>b t (out, m). if b then bindE (buf_printf m out (Some (asc t))) (\<lambda>(_, out', m'). Inr (out', m'))
                                 else Inr (out, m))
      in bindE (alloc_buf_gc m 16 gc)
      (\<lambda>(out, m0, gc'). bindE (put (fl = M_INFO) ''I'' (out, m0))
      (\<lambda>s1. bindE (put (has fl M_FATAL) ''F'' s1)
      (\<lambda>s2. bindE (put (has fl M_NONFATAL) ''N'' s2)
      (\<lambda>s3. bindE (put (has fl M_WARN) ''W'' s3)
      (\<lambda>s4. bindE (put (has fl M_DEBUG) ''D'' s4)
      (\<lambda>(out', m'). Inr (buf_bptr out', m', gc'))))))))"

section \<open>Checking the status of I/O\<close>

definition WSAEWOULDBLOCK :: int where "WSAEWOULDBLOCK = 10035"
definition WSA_EINVAL :: int where "WSA_EINVAL = 10022"

definition ignore_sys_error :: "int \<Rightarrow> bool" where
  "ignore_sys_error err \<longleftrightarrow> err = WSAEWOULDBLOCK \<or> err = WSA_EINVAL"

definition reset_check_status :: "log_state \<Rightarrow> log_state" where
  "reset_check_status st = st\<lparr>x_cs_info_level := 0, x_cs_verbose_level := 0\<rparr>"

definition set_check_status :: "mflags \<Rightarrow> mflags \<Rightarrow> log_state \<Rightarrow> log_state" where
  "set_check_status info_level verbose_level st =
     st\<lparr>x_cs_info_level := info_level, x_cs_verbose_level := verbose_level\<rparr>"

definition set_check_status_error_delay :: "32 word \<Rightarrow> log_state \<Rightarrow> log_state" where
  "set_check_status_error_delay ms st = st\<lparr>x_cs_err_delay_ms := ms\<rparr>"

text \<open>
  \<open>sock\<close> is the protocol and the family of the socket, \<open>extended\<close> the text that \<open>tap_win_getinfo\<close> gets from
  the driver when the device is defined. The pause of \<open>x_cs_err_delay_ms\<close> changes nothing here.
\<close>

definition x_check_status ::
  "log_env \<Rightarrow> int \<Rightarrow> cstr \<Rightarrow> (int \<times> int) option \<Rightarrow> cstr option \<Rightarrow> log_state \<Rightarrow> run" where
  "x_check_status env status description sock extended st =
     (let my_errno = last_error env;
          proto = (case sock of Some (p, af) \<Rightarrow> proto2ascii p af True | None \<Rightarrow> [])
      in bindE (msg env (x_cs_verbose_level st) (proto @ asc '' '' @ description @ asc '' returned '' @ dec_int status) st)
        (\<lambda>st1. if status < 0 \<and> \<not> ignore_sys_error my_errno
               then msg env (x_cs_info_level st1)
                      (description @ asc '' '' @ proto @
                       (case extended of Some x \<Rightarrow> asc '' ['' @ x @ asc '']'' | None \<Rightarrow> []) @
                       asc '': '' @ strerror env my_errno @ asc '' (code='' @ dec_int my_errno @ asc '')'') st1
               else Inr st1))"

definition check_status ::
  "log_env \<Rightarrow> int \<Rightarrow> cstr \<Rightarrow> (int \<times> int) option \<Rightarrow> cstr option \<Rightarrow> log_state \<Rightarrow> run" where
  "check_status env status description sock extended st =
     (if status < 0 \<or> check_debug_level (x_cs_verbose_level st) st
      then x_check_status env status description sock extended st else Inr st)"

section \<open>Logging to a file\<close>

text \<open>
  What the system does for \<open>redirect_stdout_stderr\<close>: whether \<open>CreateFileW\<close>, \<open>SetFilePointer\<close>,
  \<open>_open_osfhandle\<close>, \<open>_fdopen\<close> and both calls of \<open>_dup2\<close> succeed.
\<close>

record redirect_io =
  rd_create :: bool
  rd_seek :: bool
  rd_osfhandle :: bool
  rd_fdopen :: bool
  rd_dup2 :: bool

definition redirect_stdout_stderr :: "log_env \<Rightarrow> redirect_io \<Rightarrow> cstr \<Rightarrow> bool \<Rightarrow> log_state \<Rightarrow> run" where
  "redirect_stdout_stderr env io file appnd st =
     (if std_redir st then Inr st
      else if \<not> rd_create io
      then msg env (M_WARN OR M_ERRNO) (asc ''Warning: cannot open --log file: '' @ file) st
      else bindE (if appnd \<and> \<not> rd_seek io
                  then msg env M_ERR (asc ''Error: cannot seek to end of --log file: '' @ file) st else Inr st)
        (\<lambda>st1. bindE (if \<not> rd_osfhandle io
                      then msg env M_ERR (asc ''Error: --log redirect failed due to _open_osfhandle failure'') st1
                      else Inr st1)
        (\<lambda>st2. bindE (if msgfp st2 \<noteq> None then assert_failed env (asc ''error.c'') 579 (Some (asc ''msgfp == NULL'')) st2
                      else Inr st2)
        (\<lambda>st3. bindE (if \<not> rd_fdopen io
                      then msg env M_ERR (asc ''Error: --log redirect failed due to _fdopen'') (st3\<lparr>msgfp := None\<rparr>)
                      else Inr (st3\<lparr>msgfp := Some LogFile\<rparr>))
        (\<lambda>st4. bindE (if \<not> rd_dup2 io then msg env M_WARN (asc ''Error: --log redirect of stdout/stderr failed'') st4
                      else Inr st4)
        (\<lambda>st5. Inr (st5\<lparr>std_redir := True\<rparr>)))))))"

end
