(* ===== verification/Error_Laws.thy ===== *)
theory Error_Laws
  imports Error_Log
begin

text \<open>
  Lemmas and properties of the log: a message is one line on one stream, fatal messages end the process
  whatever hides them, and muting shows the first messages of a burst and counts the rest.
\<close>

section \<open>One message\<close>

definition log_ok :: "log_state \<Rightarrow> bool" where
  "log_ok st \<longleftrightarrow> msgfp st \<noteq> None \<or> (default_out st \<noteq> None \<and> default_err st \<noteq> None)"

definition msg_body :: "log_env \<Rightarrow> mflags \<Rightarrow> cstr \<Rightarrow> log_state \<Rightarrow> cstr" where
  "msg_body env fl txt st =
     (case (if has fl M_NOIPREFIX then None else x_msg_prefix st) of
        None \<Rightarrow> msg_text env fl txt | Some p \<Rightarrow> p @ asc '' '' @ msg_text env fl txt)"

definition msg_out :: "log_env \<Rightarrow> log_state \<Rightarrow> mflags \<Rightarrow> cstr \<Rightarrow> stream \<times> cstr" where
  "msg_out env st fl txt =
     (case msg_fp fl st of Inr f \<Rightarrow> f | Inl _ \<Rightarrow> StdOut, msg_line env fl (msg_body env fl txt st) st)"

text \<open>The state after a line was written.\<close>

definition wrote :: "log_env \<Rightarrow> mflags \<Rightarrow> cstr \<Rightarrow> log_state \<Rightarrow> log_state" where
  "wrote env fl txt st =
     st\<lparr>copied := copied st @ (if \<not> forked st \<and> virtual_out st then [(fl, err_buf (msg_body env fl txt st))] else []),
        printed := printed st @ [msg_out env st fl txt], x_msg_line_num := x_msg_line_num st + 1\<rparr>"

lemma emit_msg_wrote:
  assumes "log_ok st" and "\<not> has fl M_MSG_VIRT_OUT" and "\<not> use_syslog st"
  shows "emit_msg env fl txt st = Inr (wrote env fl txt st)"
proof -
  obtain f where f: "msg_fp fl st = Inr f"
    using assms(1) unfolding msg_fp_def log_ok_def Let_def
    by (cases "msgfp st"; cases "default_out st"; cases "default_err st"; cases "has fl (M_FATAL OR M_USAGE_SMALL)") auto
  have g: "msg_fp fl (st\<lparr>copied := x\<rparr>) = Inr f" for x
    using f unfolding msg_fp_def Let_def
    by (cases "msgfp st"; cases "default_out st"; cases "default_err st"; cases "has fl (M_FATAL OR M_USAGE_SMALL)") auto
  have l: "msg_line env fl b (st\<lparr>copied := x\<rparr>) = msg_line env fl b st" for b x
    by (simp add: msg_line_def check_debug_level_def Let_def)
  show ?thesis
    using assms(2,3) f g
    by (simp add: emit_msg_def wrote_def msg_out_def msg_body_def [symmetric] l Let_def)
qed

lemma wrote_simps [simp]:
  "printed (wrote env fl txt st) = printed st @ [msg_out env st fl txt]"
  "mute_count (wrote env fl txt st) = mute_count st"
  "mute_cutoff (wrote env fl txt st) = mute_cutoff st"
  "mute_category (wrote env fl txt st) = mute_category st"
  by (simp_all add: wrote_def)

text \<open>What decides how a line looks is not changed by messages.\<close>

definition log_config where
  "log_config st = (msgfp st, default_out st, default_err st, x_msg_prefix st, machine_readable_output st,
     suppress_timestamps st, x_debug_level st, use_syslog st, mute_cutoff st)"

definition same_log :: "log_state \<Rightarrow> log_state \<Rightarrow> bool" where
  "same_log st st' \<longleftrightarrow> log_config st' = log_config st"

lemma same_log_simps [simp]:
  "same_log st st" "same_log st (wrote env fl txt st)"
  "same_log st (st'\<lparr>mute_count := n\<rparr>) = same_log st st'"
  "same_log st (st'\<lparr>mute_count := n, mute_category := k\<rparr>) = same_log st st'"
  by (simp_all add: same_log_def log_config_def wrote_def)

lemma same_log_trans: "same_log a b \<Longrightarrow> same_log b c \<Longrightarrow> same_log a c"
  by (simp add: same_log_def)

lemma same_log_keeps:
  assumes "same_log st st'"
  shows "msg_out env st' fl txt = msg_out env st fl txt" and "log_ok st' = log_ok st" and "use_syslog st' = use_syslog st"
    and "check_debug_level fl st' = check_debug_level fl st" and "mute_cutoff st' = mute_cutoff st"
proof -
  note c = assms [unfolded same_log_def log_config_def prod.inject]
  show "log_ok st' = log_ok st" "use_syslog st' = use_syslog st" "check_debug_level fl st' = check_debug_level fl st"
      "mute_cutoff st' = mute_cutoff st"
    using c by (simp_all add: log_ok_def check_debug_level_def)
  have "(case msg_fp fl st' of Inr f \<Rightarrow> f | Inl _ \<Rightarrow> StdOut) = (case msg_fp fl st of Inr f \<Rightarrow> f | Inl _ \<Rightarrow> StdOut)"
    using c by (simp add: msg_fp_def Let_def split: option.splits)
  then show "msg_out env st' fl txt = msg_out env st fl txt"
    using c by (simp add: msg_out_def msg_line_def msg_body_def check_debug_level_def Let_def)
qed

section \<open>Fatal messages\<close>

lemma emit_msg_exit: "emit_msg env fl txt st = Inl (n, st') \<Longrightarrow> n = 1"
  by (auto simp: emit_msg_def msg_fp_def OPENVPN_EXIT_STATUS_CANNOT_OPEN_DEBUG_FILE_def bindE_def Let_def
      split: if_splits option.splits sum.splits)

lemma mute_note_exit: "mute_note env txt st = Inl (n, st') \<Longrightarrow> n = 1"
  by (auto simp: mute_note_def dest: emit_msg_exit split: if_splits)

lemma msg_test_exit: "msg_test env fl st = Inl (n, st') \<Longrightarrow> n = 1"
  by (auto simp: msg_test_def dont_mute_def bindE_def Let_def dest: mute_note_exit split: if_splits sum.splits)

lemma farewell_exit: "farewell env st = Inl (n, st') \<Longrightarrow> n = 1"
  by (auto simp: farewell_def bindE_def dest: emit_msg_exit msg_test_exit split: if_splits sum.splits prod.splits)

lemma x_msg_fatal: "has fl M_FATAL \<Longrightarrow> \<exists>st'. x_msg env fl txt st = Inl (1, st')"
  by (cases "emit_msg env fl txt st"; cases "farewell env (projr (emit_msg env fl txt st))")
    (auto simp: x_msg_def x_msg_va_def openvpn_exit_def OPENVPN_EXIT_STATUS_ERROR_def
      dest: emit_msg_exit farewell_exit)

lemma note_flags: "\<not> has (M_INFO OR M_NOMUTE) M_MSG_VIRT_OUT"
  by (simp add: M_INFO_def LOGLEV_def ENCODE_MUTE_LEVEL_def M_NOMUTE_def M_MSG_VIRT_OUT_def MUTE_LEVEL_MASK_def)

lemma mute_note_runs:
  assumes "log_ok st" and "\<not> use_syslog st"
  shows "mute_note env txt st =
           Inr (if check_debug_level (M_INFO OR M_NOMUTE) st then wrote env (M_INFO OR M_NOMUTE) txt st else st)"
  using emit_msg_wrote [OF assms(1) note_flags assms(2)] by (simp add: mute_note_def)

lemma mute_note_returns:
  assumes "log_ok st" and "\<not> use_syslog st"
  shows "\<exists>st'. mute_note env txt st = Inr st' \<and> same_log st st'"
  using mute_note_runs [OF assms] by simp

lemma msg_test_returns:
  assumes "log_ok st" and "\<not> use_syslog st"
  shows "\<exists>b st'. msg_test env fl st = Inr (b, st') \<and> same_log st st'"
proof -
  have n: "\<exists>st'. (if c then mute_note env t st else Inr st) = Inr st' \<and> same_log st st'" for c t
    using mute_note_returns [OF assms, of env t] by auto
  show ?thesis
    using n [of "mute_count st = mute_cutoff st" "asc ''NOTE: --mute triggered...''"]
      n [of "mute_count st - mute_cutoff st > 0" "dec_int (mute_count st - mute_cutoff st) @
          asc '' variation(s) on previous '' @ dec_int (mute_cutoff st) @ asc '' message(s) suppressed by --mute''"]
    by (auto simp: msg_test_def dont_mute_def Let_def simp del: asc_simps)
qed

lemma msg_fatal: "has fl M_FATAL \<Longrightarrow> \<exists>st'. msg env fl txt st = Inl (1, st')"
proof -
  assume f: "has fl M_FATAL"
  show ?thesis
  proof (cases "msg_test env fl st")
    case (Inl e)
    then show ?thesis using msg_test_exit by (cases e) (auto simp: msg_def)
  next
    case (Inr r)
    obtain b st1 where r: "r = (b, st1)" by fastforce
    obtain st2 where "x_msg env fl txt st1 = Inl (1, st2)" using x_msg_fatal [OF f] by blast
    then show ?thesis using Inr r f by (cases b) (auto simp: msg_def EXIT_FATAL_def)
  qed
qed

lemma x_msg_plain:
  assumes "\<not> has fl M_FATAL" and "\<not> has fl M_USAGE_SMALL"
  shows "x_msg env fl txt st = emit_msg env fl txt st"
  using assms by (cases "emit_msg env fl txt st") (auto simp: x_msg_def x_msg_va_def)

lemma emit_msg_returns:
  assumes "log_ok st" and "\<not> use_syslog st"
  shows "\<exists>st'. emit_msg env fl txt st = Inr st' \<and> same_log st st'"
proof (cases "has fl M_MSG_VIRT_OUT")
  case True
  then show ?thesis by (auto simp: emit_msg_def same_log_def log_config_def Let_def)
next
  case False
  then show ?thesis using emit_msg_wrote [OF assms(1) False assms(2)] by simp
qed

lemma msg_returns:
  assumes "log_ok st" and "\<not> use_syslog st" and "\<not> has fl M_FATAL" and "\<not> has fl M_USAGE_SMALL"
  shows "\<exists>st'. msg env fl txt st = Inr st' \<and> same_log st st'"
proof -
  obtain b st1 where t: "msg_test env fl st = Inr (b, st1)" "same_log st st1" using msg_test_returns [OF assms(1,2)] by blast
  have ok: "log_ok st1" "\<not> use_syslog st1" using same_log_keeps(2,3) [OF t(2)] assms(1,2) by simp_all
  obtain st2 where "emit_msg env fl txt st1 = Inr st2" "same_log st1 st2" using emit_msg_returns [OF ok] by blast
  then show ?thesis using t same_log_trans [OF t(2)] assms(3) x_msg_plain [OF assms(3,4)]
    by (cases b) (auto simp: msg_def EXIT_FATAL_def)
qed

section \<open>Muting\<close>

definition plain :: "log_state \<Rightarrow> mflags \<Rightarrow> bool" where
  "plain st fl \<longleftrightarrow> check_debug_level fl st \<and> \<not> has fl M_FATAL \<and> \<not> has fl M_USAGE_SMALL \<and> \<not> has fl M_MSG_VIRT_OUT \<and> \<not> has fl M_NOMUTE"

definition mute_level :: "mflags \<Rightarrow> int" where "mute_level fl = uint (DECODE_MUTE_LEVEL fl)"

text \<open>The level is the top byte of the flags.\<close>

lemma mute_level_top: "mute_level fl = int (unat fl div 2 ^ 24)"
proof -
  have t: "take_bit 8 (drop_bit 24 fl) = drop_bit 24 fl"
    by (rule bit_word_eqI) (auto simp: bit_simps dest: bit_imp_le_length)
  have k: "(0xFF :: mflags) = mask 8" by (simp add: mask_eq_exp_minus_1)
  have d: "DECODE_MUTE_LEVEL fl = drop_bit 24 fl"
    unfolding DECODE_MUTE_LEVEL_def MUTE_LEVEL_MASK_def k by (simp only: take_bit_eq_mask [symmetric] t)
  show ?thesis unfolding mute_level_def d uint_nat unat_drop_bit_eq by (simp only: drop_bit_eq_div)
qed

definition mute_ready :: "log_state \<Rightarrow> bool" where
  "mute_ready st \<longleftrightarrow> log_ok st \<and> \<not> use_syslog st \<and> check_debug_level (M_INFO OR M_NOMUTE) st \<and> mute_cutoff st > 0"

lemma mute_ready_same: "same_log st st' \<Longrightarrow> mute_ready st' = mute_ready st"
  using same_log_keeps by (simp add: mute_ready_def)

lemma plain_same: "same_log st st' \<Longrightarrow> plain st' fl = plain st fl"
  using same_log_keeps by (simp add: plain_def)

definition trigger_note :: cstr where "trigger_note = asc ''NOTE: --mute triggered...''"

definition summary :: "int \<Rightarrow> int \<Rightarrow> cstr" where
  "summary suppressed cutoff = dec_int suppressed @ asc '' variation(s) on previous '' @ dec_int cutoff @
     asc '' message(s) suppressed by --mute''"

definition note_out :: "log_env \<Rightarrow> log_state \<Rightarrow> cstr \<Rightarrow> stream \<times> cstr" where
  "note_out env st t = msg_out env st (M_INFO OR M_NOMUTE) t"

lemma mute_note_out:
  assumes "mute_ready st"
  shows "\<exists>st'. mute_note env t st = Inr st' \<and> same_log st st' \<and> printed st' = printed st @ [note_out env st t] \<and>
           mute_count st' = mute_count st \<and> mute_category st' = mute_category st"
  using mute_note_runs [of st env t] assms by (simp add: mute_ready_def note_out_def)

text \<open>A message that is not muted, after what \<open>dont_mute\<close> did.\<close>

lemma msg_shown:
  assumes "mute_ready st" and "plain st fl" and "dont_mute env fl st = Inr (True, st1)" and "same_log st st1"
  shows "\<exists>st'. msg env fl t st = Inr st' \<and> same_log st st' \<and> printed st' = printed st1 @ [msg_out env st fl t] \<and>
           mute_count st' = mute_count st1 \<and> mute_category st' = mute_category st1"
proof -
  have "msg_test env fl st = Inr (True, st1)" using assms(2,3) by (simp add: msg_test_def plain_def)
  moreover have "emit_msg env fl t st1 = Inr (wrote env fl t st1)"
    using assms(1,2) same_log_keeps [OF assms(4)] by (intro emit_msg_wrote) (auto simp: mute_ready_def plain_def)
  moreover have "same_log st (wrote env fl t st1)" by (rule same_log_trans [OF assms(4)]) simp
  ultimately show ?thesis
    using assms(2) same_log_keeps(1) [OF assms(4)] x_msg_plain [of fl env t st1]
    by (simp add: msg_def EXIT_FATAL_def plain_def)
qed

text \<open>The first message of a category.\<close>

lemma msg_first:
  assumes "mute_ready st" and "plain st fl" and "mute_level fl = 0 \<or> mute_level fl \<noteq> mute_category st"
  shows "\<exists>st'. msg env fl t st = Inr st' \<and> same_log st st' \<and>
           printed st' = printed st @ (if mute_count st > mute_cutoff st
             then [note_out env st (summary (mute_count st - mute_cutoff st) (mute_cutoff st))] else []) @ [msg_out env st fl t] \<and>
           mute_count st' = 1 \<and> mute_category st' = mute_level fl"
proof -
  let ?s = "summary (mute_count st - mute_cutoff st) (mute_cutoff st)"
  obtain st1 where n: "mute_note env ?s st = Inr st1" "same_log st st1" "printed st1 = printed st @ [note_out env st ?s]"
    using mute_note_out [OF assms(1)] by blast
  let ?st1 = "(if mute_count st > mute_cutoff st then st1 else st)\<lparr>mute_count := 1, mute_category := mute_level fl\<rparr>"
  have d: "dont_mute env fl st = Inr (True, ?st1)"
    using assms n(1) unfolding dont_mute_def summary_def mute_level_def
    by (auto simp: mute_ready_def plain_def Let_def simp del: asc_simps)
  have s: "same_log st ?st1" using n(2) by simp
  show ?thesis using msg_shown [OF assms(1,2) d s, of t] n(3) by auto
qed

text \<open>A further message of the category.\<close>

lemma msg_again:
  assumes "mute_ready st" and "plain st fl" and "0 < mute_level fl" and "mute_level fl = mute_category st"
    and "0 \<le> mute_count st" and "mute_count st + 1 < 2 ^ 31"
  shows "\<exists>st'. msg env fl t st = Inr st' \<and> same_log st st' \<and>
           printed st' = printed st @ (if mute_count st < mute_cutoff st then [msg_out env st fl t]
             else if mute_count st = mute_cutoff st then [note_out env st trigger_note] else []) \<and>
           mute_count st' = mute_count st + 1 \<and> mute_category st' = mute_category st"
proof -
  obtain st1 where n: "mute_note env trigger_note st = Inr st1" "same_log st st1"
      "printed st1 = printed st @ [note_out env st trigger_note]" "mute_count st1 = mute_count st"
      "mute_category st1 = mute_category st"
    using mute_note_out [OF assms(1)] by blast
  let ?st1 = "(if mute_count st = mute_cutoff st then st1 else st)\<lparr>mute_count := mute_count st + 1\<rparr>"
  have w: "to_int (mute_count st + 1) = mute_count st + 1" using assms(5,6) by (rule to_int_Suc)
  have m: "mute_cutoff ?st1 = mute_cutoff st" using same_log_keeps(5) [OF n(2)] by simp
  have d: "dont_mute env fl st = Inr (mute_count st < mute_cutoff st, ?st1)"
    using assms n(1,4) m w unfolding dont_mute_def trigger_note_def mute_level_def
    by (auto simp: mute_ready_def plain_def Let_def simp del: asc_simps)
  have s: "same_log st ?st1" using n(2) by simp
  show ?thesis
  proof (cases "mute_count st < mute_cutoff st")
    case True
    then show ?thesis using msg_shown [OF assms(1,2) _ s, of env t] d by auto
  next
    case False
    then have "msg env fl t st = Inr ?st1"
      using d assms(2) by (simp add: msg_def msg_test_def plain_def EXIT_FATAL_def)
    then show ?thesis using False s n(3,5) by auto
  qed
qed

text \<open>A burst of messages of one level.\<close>

fun msg_all :: "log_env \<Rightarrow> (mflags \<times> cstr) list \<Rightarrow> log_state \<Rightarrow> run" where
  "msg_all env [] st = Inr st"
| "msg_all env ((fl, t) # ms) st = bindE (msg env fl t st) (\<lambda>st1. msg_all env ms st1)"

definition of_level :: "log_state \<Rightarrow> int \<Rightarrow> mflags \<times> cstr \<Rightarrow> bool" where
  "of_level st k m \<longleftrightarrow> plain st (fst m) \<and> mute_level (fst m) = k"

abbreviation shown :: "log_env \<Rightarrow> log_state \<Rightarrow> (mflags \<times> cstr) list \<Rightarrow> (stream \<times> cstr) list" where
  "shown env st ms \<equiv> map (\<lambda>m. msg_out env st (fst m) (snd m)) ms"

lemma msg_burst_rest:
  assumes "mute_ready st" and "list_all (of_level st k) ms" and "0 < k" and "mute_category st = k"
    and "1 \<le> mute_count st" and "mute_count st + int (length ms) < 2 ^ 31"
  shows "\<exists>st'. msg_all env (ms @ rest) st = msg_all env rest st' \<and> same_log st st' \<and>
           printed st' = printed st @ shown env st (take (nat (mute_cutoff st - mute_count st)) ms) @
             (if mute_count st \<le> mute_cutoff st \<and> mute_cutoff st - mute_count st < int (length ms)
              then [note_out env st trigger_note] else []) \<and>
           mute_count st' = mute_count st + int (length ms) \<and> mute_category st' = k"
  using assms
proof (induction ms arbitrary: st)
  case Nil
  then show ?case by (intro exI [of _ st]) auto
next
  case (Cons m ms)
  obtain fl t where m: "m = (fl, t)" by fastforce
  have pl: "plain st fl" "mute_level fl = k" "list_all (of_level st k) ms" using Cons.prems(2) by (auto simp: m of_level_def list_all_iff)
  have c: "0 \<le> mute_count st" "mute_count st + 1 < 2 ^ 31" "0 < mute_level fl" "mute_level fl = mute_category st"
    using Cons.prems(3-6) pl(2) by auto
  obtain st1 where s: "msg env fl t st = Inr st1" "same_log st st1"
      "printed st1 = printed st @ (if mute_count st < mute_cutoff st then [msg_out env st fl t]
         else if mute_count st = mute_cutoff st then [note_out env st trigger_note] else [])"
      "mute_count st1 = mute_count st + 1" "mute_category st1 = mute_category st"
    using msg_again [OF Cons.prems(1) pl(1) c(3,4,1,2), of env t] by blast
  note k = same_log_keeps [OF s(2)]
  have r: "mute_ready st1" "list_all (of_level st1 k) ms" "mute_category st1 = k" "1 \<le> mute_count st1"
      "mute_count st1 + int (length ms) < 2 ^ 31"
    using Cons.prems s(4,5) mute_ready_same [OF s(2)] plain_same [OF s(2)] pl(3) by (simp_all add: of_level_def list_all_iff)
  obtain st2 where i: "msg_all env (ms @ rest) st1 = msg_all env rest st2" "same_log st1 st2"
      "printed st2 = printed st1 @ shown env st1 (take (nat (mute_cutoff st1 - mute_count st1)) ms) @
         (if mute_count st1 \<le> mute_cutoff st1 \<and> mute_cutoff st1 - mute_count st1 < int (length ms)
          then [note_out env st1 trigger_note] else [])"
      "mute_count st2 = mute_count st1 + int (length ms)" "mute_category st2 = k"
    using Cons.IH [OF r(1,2) Cons.prems(3) r(3,4,5)] by blast
  have o: "msg_out env st1 = msg_out env st" "note_out env st1 trigger_note = note_out env st trigger_note"
    using k(1) by (auto simp: note_out_def intro!: ext)
  have p: "printed st2 = printed st @ shown env st (take (nat (mute_cutoff st - mute_count st)) (m # ms)) @
         (if mute_count st \<le> mute_cutoff st \<and> mute_cutoff st - mute_count st < int (length (m # ms))
          then [note_out env st trigger_note] else [])"
  proof -
    consider "mute_count st < mute_cutoff st" | "mute_count st = mute_cutoff st" | "mute_count st > mute_cutoff st" by linarith
    then show ?thesis
    proof cases
      case 1
      then have "nat (mute_cutoff st - mute_count st) = Suc (nat (mute_cutoff st - (mute_count st + 1)))" by simp
      then show ?thesis using 1 i(3) s(3,4) o k(5) m by auto
    next
      case 2
      then show ?thesis using i(3) s(3,4) o k(5) by auto
    next
      case 3
      then show ?thesis using i(3) s(3,4) o k(5) by auto
    qed
  qed
  have "same_log st st2" using same_log_trans [OF s(2) i(2)] .
  then show ?case using s i(1,4,5) p m by (intro exI [of _ st2]) simp
qed

text \<open>
  C35: Muting. A burst is a sequence of messages whose flags have the same top byte, the mute level,
  and may differ otherwise. Of a burst of a level that is not 0 and not the one muted last, exactly the first
  \<open>mute_cutoff\<close> messages are shown, in order; the first one beyond is replaced by one note and the others leave
  nothing; the next message of another level is preceded by a line that says how many were suppressed, and is
  itself shown. This is for messages that are neither fatal nor exempt from muting, at levels that are
  shown, on open streams, with muting switched on, if nothing of the burst before was suppressed, and with fewer
  than 2^31 messages in the burst (the counter is an int).
\<close>

theorem mute_burst:
  assumes "mute_ready st" and "\<forall>(fl, t) \<in> set ms. plain st fl \<and> unat fl div 2 ^ 24 = k" and "plain st fl2"
    and "0 < k" and "unat fl2 div 2 ^ 24 \<noteq> k" and "mute_category st \<noteq> int k" and "mute_count st \<le> mute_cutoff st"
    and "ms \<noteq> []" and "int (length ms) < 2 ^ 31"
  shows "\<exists>st'. msg_all env (ms @ [(fl2, t2)]) st = Inr st' \<and>
           printed st' = printed st @ map (\<lambda>(fl, t). msg_out env st fl t) (take (nat (mute_cutoff st)) ms) @
             (if mute_cutoff st < int (length ms)
              then [note_out env st trigger_note,
                    note_out env st (summary (int (length ms) - mute_cutoff st) (mute_cutoff st))] else []) @
             [msg_out env st fl2 t2]"
proof -
  obtain fl t us where ms: "ms = (fl, t) # us" using assms(8) by (cases ms) auto
  have c: "0 < mute_cutoff st" using assms(1) by (simp add: mute_ready_def)
  have pl: "plain st fl" "mute_level fl = int k" "list_all (of_level st (int k)) us"
    using assms(2) by (auto simp: ms of_level_def mute_level_top list_all_iff)
  have lv: "mute_level fl2 \<noteq> int k" using assms(5) by (simp add: mute_level_top)
  have n: "\<not> mute_count st > mute_cutoff st" "mute_level fl = 0 \<or> mute_level fl \<noteq> mute_category st"
    using assms(6,7) pl(2) by auto
  obtain st1 where f: "msg env fl t st = Inr st1" "same_log st st1" "printed st1 = printed st @ [msg_out env st fl t]"
      "mute_count st1 = 1" "mute_category st1 = mute_level fl"
    using msg_first [OF assms(1) pl(1) n(2), of env t] n(1) by auto
  note k1 = same_log_keeps [OF f(2)]
  have r1: "mute_ready st1" "list_all (of_level st1 (int k)) us" "mute_category st1 = int k" "1 \<le> mute_count st1"
      "mute_count st1 + int (length us) < 2 ^ 31"
    using assms(1,9) f(4,5) pl mute_ready_same [OF f(2)] plain_same [OF f(2)] by (simp_all add: ms of_level_def list_all_iff)
  have k0: "0 < int k" using assms(4) by simp
  obtain st2 where b: "msg_all env (us @ [(fl2, t2)]) st1 = msg_all env [(fl2, t2)] st2" "same_log st1 st2"
      "printed st2 = printed st1 @ shown env st1 (take (nat (mute_cutoff st1 - 1)) us) @
         (if mute_cutoff st1 - 1 < int (length us) then [note_out env st1 trigger_note] else [])"
      "mute_count st2 = 1 + int (length us)" "mute_category st2 = int k"
    using msg_burst_rest [OF r1(1,2) k0 r1(3-5), of env "[(fl2, t2)]"] f(4) c k1(5) by auto
  have s2: "same_log st st2" using same_log_trans [OF f(2) b(2)] .
  note k2 = same_log_keeps [OF s2]
  have r2: "mute_ready st2" "plain st2 fl2" "mute_level fl2 = 0 \<or> mute_level fl2 \<noteq> mute_category st2"
    using assms(1,3) lv b(5) mute_ready_same [OF s2] plain_same [OF s2] by simp_all
  obtain st3 where l: "msg env fl2 t2 st2 = Inr st3"
      "printed st3 = printed st2 @ (if mute_count st2 > mute_cutoff st2
         then [note_out env st2 (summary (mute_count st2 - mute_cutoff st2) (mute_cutoff st2))] else []) @ [msg_out env st2 fl2 t2]"
    using msg_first [OF r2, of env t2] by blast
  have o: "msg_out env st1 = msg_out env st" "msg_out env st2 = msg_out env st" "\<And>x. note_out env st1 x = note_out env st x"
      "\<And>x. note_out env st2 x = note_out env st x"
    using k1(1) k2(1) by (auto simp: note_out_def intro!: ext)
  have tk: "take (nat (mute_cutoff st)) ms = (fl, t) # take (nat (mute_cutoff st - 1)) us"
    using c ms by (cases "nat (mute_cutoff st)") (auto simp: nat_diff_distrib)
  have len: "int (length ms) = 1 + int (length us)" using ms by simp
  have "msg_all env (ms @ [(fl2, t2)]) st = Inr st3" using f(1) b(1) l(1) ms by simp
  moreover have "printed st3 = printed st @ map (\<lambda>(fl, t). msg_out env st fl t) (take (nat (mute_cutoff st)) ms) @
             (if mute_cutoff st < int (length ms)
              then [note_out env st trigger_note,
                    note_out env st (summary (int (length ms) - mute_cutoff st) (mute_cutoff st))] else []) @
             [msg_out env st fl2 t2]"
    unfolding l(2) b(3) f(3) o tk len b(4) k1(5) k2(5) by (auto simp: case_prod_unfold)
  ultimately show ?thesis by blast
qed

text \<open>
  C36: Fatal and other messages. A message with \<open>M_FATAL\<close> ends the process with status 1, whatever the level,
  the muting and the streams are, also when it is not shown. A message without \<open>M_FATAL\<close> and
  \<open>M_USAGE_SMALL\<close> on open streams returns, and leaves the settings of the log as they were.
\<close>

theorem msg_exits_iff_fatal:
  assumes "has fl M_FATAL \<or> (\<not> has fl M_USAGE_SMALL \<and> log_ok st \<and> \<not> use_syslog st)"
  shows "if has fl M_FATAL then \<exists>st'. msg env fl txt st = Inl (1, st')
         else \<exists>st'. msg env fl txt st = Inr st' \<and> same_log st st'"
  using msg_fatal [where fl = fl and env = env and st = st] msg_returns [where fl = fl and env = env and st = st] assms by auto

definition example_env :: log_env where
  "example_env = \<lparr>strerror = (\<lambda>_. asc ''error''), time_string_now = (\<lambda>_. asc ''now''), tv_now = (0, 0), last_error = 0,
     usage_small = Inr\<rparr>"

definition example_log :: log_state where
  "example_log = \<lparr>x_debug_level = 4, mute_cutoff = 1, mute_count = 0, mute_category = 0, std_redir = False,
     use_syslog = False, machine_readable_output = False, suppress_timestamps = True, msgfp = None, forked = False,
     default_out = Some StdOut, default_err = Some StdOut, x_msg_line_num = 0, x_msg_prefix = None, virtual_out = False,
     x_cs_info_level = 0, x_cs_verbose_level = 0, x_cs_err_delay_ms = 0, printed = [], copied = []\<rparr>"

lemmas flag_defs = M_DEBUG_LEVEL_def M_FATAL_def M_NONFATAL_def M_WARN_def M_DEBUG_def M_ERRNO_def M_NOMUTE_def
  M_NOPREFIX_def M_USAGE_SMALL_def M_MSG_VIRT_OUT_def M_OPTERR_def M_NOLF_def M_NOIPREFIX_def MUTE_LEVEL_MASK_def
  ENCODE_MUTE_LEVEL_def DECODE_MUTE_LEVEL_def LOGLEV_def M_INFO_def

lemma example_log_ready: "mute_ready example_log"
  by (simp add: mute_ready_def log_ok_def example_log_def check_debug_level_def flag_defs)

lemma example_levels:
  "plain example_log (LOGLEV 1 5 0)" "plain example_log (LOGLEV 2 5 0)" "plain example_log (LOGLEV 1 6 0)"
  "unat (LOGLEV 1 5 0) div 2 ^ 24 = 5" "unat (LOGLEV 2 5 0) div 2 ^ 24 = 5" "unat (LOGLEV 1 6 0) div 2 ^ 24 = 6"
  by (simp_all add: plain_def mute_level_def example_log_def check_debug_level_def flag_defs)

theorem mute_burst_witness:
  "\<exists>st'. msg_all example_env ([(LOGLEV 1 5 0, asc ''a''), (LOGLEV 2 5 0, asc ''b''), (LOGLEV 1 5 0, asc ''c'')] @
         [(LOGLEV 1 6 0, asc ''d'')]) example_log = Inr st' \<and> length (printed st') = 4"
proof -
  have h: "mute_category example_log \<noteq> int 5" "mute_count example_log \<le> mute_cutoff example_log"
      "mute_cutoff example_log = 1" "printed example_log = []"
    by (simp_all add: example_log_def)
  have b: "\<forall>(fl, t) \<in> set [(LOGLEV 1 5 0, asc ''a''), (LOGLEV 2 5 0, asc ''b''), (LOGLEV 1 5 0, asc ''c'')].
      plain example_log fl \<and> unat fl div 2 ^ 24 = 5"
    using example_levels by simp
  have l: "0 < (5 :: nat)" "unat (LOGLEV 1 6 0) div 2 ^ 24 \<noteq> 5" using example_levels(6) by simp_all
  show ?thesis
    using mute_burst [OF example_log_ready b example_levels(3) l h(1,2), of example_env "asc ''d''"] h(3,4) by auto
qed

theorem msg_exits_iff_fatal_witness: "\<exists>st'. msg example_env M_FATAL [] example_log = Inl (1, st')"
proof -
  have f: "has M_FATAL M_FATAL" by (simp add: M_FATAL_def)
  then show ?thesis using msg_exits_iff_fatal [of M_FATAL example_log example_env "[]"] by simp
qed

section \<open>Other facts\<close>

lemma set_debug_level_range:
  "uint (x_debug_level st) \<le> 15 \<Longrightarrow> uint (x_debug_level (snd (set_debug_level level fl st))) \<le> 15"
  by (auto simp: set_debug_level_def constrain_int_def max_int_def min_int_def Let_def uint_word_of_int)

lemma win32_messages_distinct: "distinct (map fst win32_messages)"
  by (simp add: win32_messages_def)

lemma nonfatal_not_fatal: "\<not> has (nonfatal err) M_FATAL"
  unfolding nonfatal_def M_FATAL_def M_NONFATAL_def bit_iff_and_push_bit_not_eq_0 [symmetric]
  by (simp add: bit_simps bit_iff_and_push_bit_not_eq_0 [symmetric])

end
