(* ===== verification/Status.thy ===== *)
theory Status
  imports Text_Laws Interval Misc_Laws
begin

text \<open>
  \<open>src/Treiber/lib/status.c\<close> and \<open>status.h\<close>: output of status lines to a file, to the log and to the
  management interface, and reading of a status file line by line. The open file is its content and the
  position in it; what \<open>read\<close> delivers is a list of chunks.
\<close>

definition STATUS_OUTPUT_READ :: nat where "STATUS_OUTPUT_READ = 1"
definition STATUS_OUTPUT_WRITE :: nat where "STATUS_OUTPUT_WRITE = 2"

definition so_readable :: "nat \<Rightarrow> bool" where "so_readable fl \<longleftrightarrow> odd fl"
definition so_writable :: "nat \<Rightarrow> bool" where "so_writable fl \<longleftrightarrow> odd (fl div 2)"

definition print_status_mode :: "nat \<Rightarrow> cstr" where
  "print_status_mode fl =
     (if fl = STATUS_OUTPUT_WRITE then asc ''WRITE''
      else if fl = STATUS_OUTPUT_READ then asc ''READ''
      else if fl = STATUS_OUTPUT_READ + STATUS_OUTPUT_WRITE then asc ''READ/WRITE''
      else asc ''UNDEF'')"

record status_output =
  so_flags :: nat
  so_filename :: "cstr option"
  so_fd :: int
  so_msglevel :: int
  so_vout :: "nat option"
  so_read_buf :: buffer
  so_et :: event_timeout
  so_errors :: bool

record status_file =
  sf_content :: "byte list"
  sf_pos :: nat

text \<open>
  The result of \<open>platform_open\<close> is an argument. \<open>O_TRUNC\<close> empties the file, so it matters which flags are
  passed: the last component says whether the file is emptied.
\<close>

definition status_open ::
  "mem \<Rightarrow> cstr option \<Rightarrow> int \<Rightarrow> int \<Rightarrow> nat option \<Rightarrow> nat \<Rightarrow> int \<Rightarrow> fault + status_output option \<times> mem \<times> bool" where
  "status_open m filename refresh_freq msglevel vout fl opened =
     (if filename \<noteq> None \<or> msglevel \<ge> 0 \<or> vout \<noteq> None
      then (let so = \<lparr>so_flags = fl, so_filename = None, so_fd = -1, so_msglevel = msglevel, so_vout = vout,
                      so_read_buf = buf_reset clear_buf, so_et = event_timeout_clear_ret, so_errors = False\<rparr>
            in bindE
                 (if filename \<noteq> None
                  then bindE (c_assert (fl \<in> {1, 2, 3}))
                         (\<lambda>_. if opened \<ge> 0
                               then (let so1 = so\<lparr>so_fd := opened, so_filename := filename\<rparr>
                                     in if so_readable fl
                                        then bindE (alloc_buf m 512) (\<lambda>(b, m1). Inr (so1\<lparr>so_read_buf := b\<rparr>, m1))
                                        else Inr (so1, m))
                               else Inr (so\<lparr>so_fd := opened, so_errors := True\<rparr>, m))
                  else Inr (so\<lparr>so_flags := STATUS_OUTPUT_WRITE\<rparr>, m))
                 (\<lambda>(so2, m2).
                    let so3 = (if so_writable (so_flags so2) \<and> refresh_freq > 0
                               then so2\<lparr>so_et := event_timeout_init refresh_freq 0\<rparr> else so2)
                    in Inr (Some so3, m2, filename \<noteq> None \<and> fl = STATUS_OUTPUT_WRITE \<and> opened \<ge> 0)))
      else Inr (None, m, False))"

definition status_rw_flags :: "status_output option \<Rightarrow> nat" where
  "status_rw_flags so = (case so of Some s \<Rightarrow> so_flags s | None \<Rightarrow> 0)"

definition ETT_DEFAULT :: int where "ETT_DEFAULT = -1"

definition status_trigger :: "int \<Rightarrow> status_output option \<Rightarrow> bool \<times> status_output option" where
  "status_trigger now so =
     (case so of
        Some s \<Rightarrow> (let (r, et, _) = event_timeout_trigger now (so_et s) (Some (Timeval 0 0)) ETT_DEFAULT
                   in (r, Some (s\<lparr>so_et := et\<rparr>)))
      | None \<Rightarrow> (False, None))"

definition status_reset :: "status_output option \<Rightarrow> status_file \<Rightarrow> status_file" where
  "status_reset so f = (case so of Some s \<Rightarrow> if so_fd s \<ge> 0 then f\<lparr>sf_pos := 0\<rparr> else f | None \<Rightarrow> f)"

text \<open>\<open>chsize\<close> at the position: the file ends there, filled with zeros if it was shorter.\<close>

definition chsize :: "status_file \<Rightarrow> nat \<Rightarrow> status_file" where
  "chsize f n = f\<lparr>sf_content := take n (sf_content f @ replicate (n - length (sf_content f)) 0)\<rparr>"

definition status_flush :: "status_output option \<Rightarrow> status_file \<Rightarrow> fault + status_output option \<times> status_file" where
  "status_flush so f =
     (case so of
        Some s \<Rightarrow>
          if so_fd s \<ge> 0 \<and> so_writable (so_flags s)
          then (let f1 = chsize f (sf_pos f)
                in if buf_defined (so_read_buf s)
                   then (let (b, ok) = buf_init_dowork (so_read_buf s) 0
                         in bindE (c_assert ok) (\<lambda>_. Inr (Some (s\<lparr>so_read_buf := b\<rparr>), f1)))
                   else Inr (so, f1))
          else Inr (so, f)
      | None \<Rightarrow> Inr (so, f))"

text \<open>\<open>closed\<close> is the result of \<open>close\<close>.\<close>

definition status_close :: "mem \<Rightarrow> status_output option \<Rightarrow> int \<Rightarrow> fault + bool \<times> mem" where
  "status_close m so closed =
     (case so of
        Some s \<Rightarrow>
          (let ret = (\<not> so_errors s \<and> \<not> (so_fd s \<ge> 0 \<and> closed < 0))
           in bindE (if buf_defined (so_read_buf s) then bindE (free_buf m (so_read_buf s)) (\<lambda>(_, m1). Inr m1) else Inr m)
                (\<lambda>m1. Inr (ret, m1)))
      | None \<Rightarrow> Inr (False, m))"

section \<open>Writing a line\<close>

definition STATUS_PRINTF_MAXLEN :: nat where "STATUS_PRINTF_MAXLEN = 512"

text \<open>What a line sends elsewhere: to the log with a level, and to the virtual output with its flags.\<close>

datatype status_event = To_Log int cstr | To_Virtual nat cstr

text \<open>\<open>write\<close> at the position; \<open>n\<close> is the number of bytes it takes.\<close>

definition file_write :: "status_file \<Rightarrow> byte list \<Rightarrow> nat \<Rightarrow> status_file" where
  "file_write f bs n =
     (let c = sf_content f; w = take n bs; p = sf_pos f;
          c1 = c @ replicate (p - length c) 0
      in \<lparr>sf_content = take p c1 @ w @ drop (p + length w) c1, sf_pos = p + length w\<rparr>)"

text \<open>
  \<open>buf\<close> is the local array of \<open>STATUS_PRINTF_MAXLEN + 2\<close> bytes, \<open>txt\<close> the expanded text, \<open>written\<close> the
  result of \<open>write\<close>.
\<close>

definition status_printf ::
  "status_output option \<Rightarrow> byte list \<Rightarrow> cstr option \<Rightarrow> int \<Rightarrow> status_file \<Rightarrow>
     fault + status_output option \<times> status_file \<times> status_event list" where
  "status_printf so buf0 txt written f =
     (case so of
        None \<Rightarrow> Inr (so, f, [])
      | Some s \<Rightarrow>
          if \<not> so_writable (so_flags s) then Inr (so, f, [])
          else
            (let bs = vsnprintf_bytes txt STATUS_PRINTF_MAXLEN;
                 stat = vsnprintf_ret txt
             in bindE (arr_set (overwrite buf0 0 bs) (STATUS_PRINTF_MAXLEN - 1) NUL)
                  (\<lambda>buf. bindE (c_strlen buf)
                    (\<lambda>n. let s1 = (if stat < 0 \<or> stat \<ge> int STATUS_PRINTF_MAXLEN then s\<lparr>so_errors := True\<rparr> else s);
                             ev1 = (if so_msglevel s1 \<ge> 0 \<and> \<not> so_errors s1 then [To_Log (so_msglevel s1) (c_string buf)] else [])
                         in bindE
                              (if so_fd s1 \<ge> 0 \<and> \<not> so_errors s1
                               then (if n + 2 \<le> length buf
                                     then (let buf2 = overwrite buf n [10, NUL]; len = n + 1
                                           in Inr (if written \<noteq> int len then s1\<lparr>so_errors := True\<rparr> else s1, buf2,
                                                   file_write f (take len buf2) (nat written)))
                                     else Inl MemFault)
                               else Inr (s1, buf, f))
                              (\<lambda>(s2, buf2, f1).
                                 if so_vout s2 \<noteq> None \<and> \<not> so_errors s2
                                 then bindE (chomp buf2)
                                        (\<lambda>buf3. Inr (Some s2, f1, ev1 @ [To_Virtual (the (so_vout s2)) (c_string buf3)]))
                                 else Inr (Some s2, f1, ev1))))))"

section \<open>Reading a line\<close>

text \<open>\<open>chunks\<close> are the results of the calls of \<open>read\<close>; an empty chunk, or no more of them, is the end or an error.\<close>

function status_read_loop ::
  "mem \<Rightarrow> buffer \<Rightarrow> buffer \<Rightarrow> byte list list \<Rightarrow> bool \<Rightarrow> fault + bool \<times> mem \<times> buffer \<times> buffer \<times> byte list list" where
  "status_read_loop m rb buf chunks ret =
     (case buf_read_u8 m rb of
        Inl e \<Rightarrow> Inl e
      | Inr (c, rb1) \<Rightarrow>
          if c = -1
          then (let (rb2, ok) = buf_init_dowork rb1 0
                in case c_assert ok of
                     Inl e \<Rightarrow> Inl e
                   | Inr _ \<Rightarrow>
                       (case chunks of
                          [] \<Rightarrow> Inr (ret, m, rb2, buf, [])
                        | ch # chs \<Rightarrow>
                            if ch = [] then Inr (ret, m, rb2, buf, chs)
                            else if int (length ch) > buf_forward_capacity rb2 then Inl MemFault
                            else (case write_bytes m (buf_bptr rb2) ch of
                                    Inl e \<Rightarrow> Inl e
                                  | Inr m1 \<Rightarrow>
                                      (let (rb3, ok2) = buf_inc_len rb2 (int (length ch))
                                       in if ok2 then status_read_loop m1 rb3 buf chs ret else Inl AssertFail))))
          else if c = 13 then (if c < 0 then Inl MemFault else status_read_loop m rb1 buf chunks True)
          else if c = 10 then Inr (True, m, rb1, buf, chunks)
          else (case buf_write_u8 m buf c of
                  Inl e \<Rightarrow> Inl e
                | Inr (_, buf1, m1) \<Rightarrow> if c < 0 then Inl MemFault else status_read_loop m1 rb1 buf1 chunks True))"
  by pat_completeness auto
termination
  by (relation "measures [\<lambda>(_, _, _, chunks, _). length chunks, \<lambda>(_, rb, _, _, _). nat (b_len rb)]")
    (auto dest: buf_read_u8_dec)

declare status_read_loop.simps [simp del]

definition status_read ::
  "mem \<Rightarrow> status_output option \<Rightarrow> buffer \<Rightarrow> byte list list \<Rightarrow>
     fault + bool \<times> mem \<times> status_output option \<times> buffer \<times> byte list list" where
  "status_read m so buf chunks =
     (case so of
        None \<Rightarrow> Inr (False, m, so, buf, chunks)
      | Some s \<Rightarrow>
          if so_fd s \<ge> 0 \<and> so_readable (so_flags s)
          then bindE (c_assert (buf_defined (so_read_buf s)))
            (\<lambda>_. bindE (c_assert (buf_defined buf))
            (\<lambda>_. bindE (status_read_loop m (so_read_buf s) buf chunks False)
            (\<lambda>(ret, m1, rb1, buf1, chunks1). bindE (buf_null_terminate m1 buf1)
            (\<lambda>(buf2, m2). Inr (ret, m2, Some (s\<lparr>so_read_buf := rb1\<rparr>), buf2, chunks1)))))
          else Inr (False, m, so, buf, chunks))"

end
