(* ===== verification/Status_Laws.thy ===== *)
theory Status_Laws
  imports Status
begin

text \<open>
  Lemmas and properties of the status files: what a line looks like in the file, a rewritten file holds
  exactly the new lines, and reading does not depend on how the system cuts the file into chunks.
\<close>

section \<open>Reading\<close>

definition line_head :: "byte list \<Rightarrow> byte list" where
  "line_head s = takeWhile (\<lambda>c. c \<noteq> 10) s"

definition line_tail :: "byte list \<Rightarrow> byte list" where
  "line_tail s = drop (Suc (length (line_head s))) s"

lemma line_simps [simp]:
  "line_head [] = []" "line_tail [] = []"
  "line_head (c # s) = (if c = 10 then [] else c # line_head s)"
  "line_tail (c # s) = (if c = 10 then s else line_tail s)"
  by (simp_all add: line_head_def line_tail_def)

definition no_cr :: "byte list \<Rightarrow> byte list" where "no_cr s = List.filter (\<lambda>c. c \<noteq> 13) s"

lemma no_cr_simps [simp]: "no_cr [] = []" "no_cr (c # s) = (if c = 13 then no_cr s else c # no_cr s)"
  by (simp_all add: no_cr_def)

definition apart :: "buffer \<Rightarrow> buffer \<Rightarrow> bool" where
  "apart a b \<longleftrightarrow> (\<exists>k i l j. b_data a = Ptr k i \<and> b_data b = Ptr l j \<and> k \<noteq> l)"

lemma apart_sym: "apart a b \<Longrightarrow> apart b a"
  unfolding apart_def by metis

definition room :: "buffer \<Rightarrow> nat" where "room b = nat (b_capacity b - (b_offset b + b_len b))"

text \<open>A write into one of two buffers apart leaves the other as it is.\<close>

lemma write_other_buffer:
  assumes "write_bytes m (ptr_add (b_data a) n) xs = Inr m'" and "apart a b" and "buf_inv m b"
  shows "buf_inv m' b" and "content m' b = content m b"
proof -
  obtain k i l j where d: "b_data a = Ptr k i" "b_data b = Ptr l j" "k \<noteq> l" using assms(2) by (auto simp: apart_def)
  have l: "blocks m' l = blocks m l" using write_bytes_other [of m k "i + n" xs m' l] assms(1) d by simp
  show "buf_inv m' b" "content m' b = content m b" using same_block [OF d(2) l] assms(3) by simp_all
qed

lemma put_byte:
  assumes "buf_inv m b" and "apart b r" and "buf_inv m r"
  shows "\<exists>ok b' m'. buf_write_u8 m b (uint c) = Inr (ok, b', m') \<and> buf_inv m' b' \<and> b_data b' = b_data b \<and>
           b_capacity b' = b_capacity b \<and> b_offset b' = b_offset b \<and>
           content m' b' = content m b @ take (room b) [c] \<and> room b' = room b - 1 \<and>
           buf_inv m' r \<and> content m' r = content m r"
proof (rule buf_write_val_cases [OF assms(1), of "[c]"])
  fix m'
  assume f: "b_offset b + b_len b + int (length [c]) \<le> b_capacity b"
    "buf_write_val m b [c] = Inr (True, b\<lparr>b_len := b_len b + int (length [c])\<rparr>, m')"
    "buf_inv m' (b\<lparr>b_len := b_len b + int (length [c])\<rparr>)"
    "content m' (b\<lparr>b_len := b_len b + int (length [c])\<rparr>) = content m b @ [c]"
    "write_bytes m (ptr_add (buf_bptr b) (b_len b)) [c] = Inr m'"
  have "write_bytes m (ptr_add (b_data b) (b_offset b + b_len b)) [c] = Inr m'"
    using f(5) by (simp add: buf_inv_ptr [OF assms(1)])
  note o = write_other_buffer [OF this assms(2,3)]
  have "0 < room b" using f(1) by (simp add: room_def)
  then show ?thesis using f o by (auto simp: buf_write_u8_def room_def take_Cons')
next
  assume f: "b_capacity b < b_offset b + b_len b + int (length [c])" "buf_write_val m b [c] = Inr (False, b, m)"
  have "room b = 0" using f(1) by (simp add: room_def)
  then show ?thesis using f assms by (auto simp: buf_write_u8_def)
qed

lemma refill:
  assumes "buf_inv m r" and "b_data r = Ptr k i" and "ch \<noteq> []" and "int (length ch) \<le> b_capacity r" and "apart r b" and "buf_inv m b"
  shows "\<exists>m'. buf_init_dowork r 0 = (r\<lparr>b_len := 0, b_offset := 0\<rparr>, True) \<and>
           int (length ch) \<le> buf_forward_capacity (r\<lparr>b_len := 0, b_offset := 0\<rparr>) \<and>
           write_bytes m (buf_bptr (r\<lparr>b_len := 0, b_offset := 0\<rparr>)) ch = Inr m' \<and>
           buf_inc_len (r\<lparr>b_len := 0, b_offset := 0\<rparr>) (int (length ch)) = (r\<lparr>b_len := int (length ch), b_offset := 0\<rparr>, True) \<and>
           buf_inv m' (r\<lparr>b_len := int (length ch), b_offset := 0\<rparr>) \<and>
           content m' (r\<lparr>b_len := int (length ch), b_offset := 0\<rparr>) = ch \<and> buf_inv m' b \<and> content m' b = content m b"
proof -
  let ?e = "r\<lparr>b_len := 0, b_offset := 0\<rparr>" and ?f = "r\<lparr>b_len := int (length ch), b_offset := 0\<rparr>"
  have cap: "0 \<le> b_capacity r" using assms(1) by (simp add: buf_inv_def)
  have e: "buf_inv m ?e" using assms(1) by (auto simp: buf_inv_def)
  have z: "content m ?e = []" using read_content(2) [OF e] by simp
  have fits: "b_offset ?e + b_len ?e + int (length ch) \<le> b_capacity ?e" using assms(4) by simp
  obtain m' where w: "write_bytes m (ptr_add (buf_bptr ?e) (b_len ?e)) ch = Inr m'"
    using buf_write_val_fits [OF e fits] by blast
  have c: "buf_inv m' (?e\<lparr>b_len := b_len ?e + int (length ch)\<rparr>)"
    "content m' (?e\<lparr>b_len := b_len ?e + int (length ch)\<rparr>) = content m ?e @ ch"
    using content_append [OF e fits w] by blast+
  have w2: "write_bytes m (ptr_add (b_data r) 0) ch = Inr m'" using w by (simp add: buf_inv_ptr [OF e])
  note o = write_other_buffer [OF w2 assms(5,6)]
  have eq: "?e\<lparr>b_len := x\<rparr> = r\<lparr>b_len := x, b_offset := 0\<rparr>" for x by (cases r) simp
  have "b_len ?e + int (length ch) = int (length ch)" by simp
  note c' = c [unfolded this eq z append_Nil]
  show ?thesis
    using cap assms(2,4) w c' o by (simp add: buf_init_dowork_def buf_forward_capacity_inv [OF e] buf_inc_len_spec [OF e] eq)
qed

lemma read_u8_cases:
  assumes "buf_inv m r"
  shows "(content m r = [] \<and> buf_read_u8 m r = Inr (-1, r)) \<or>
         (\<exists>c cs r'. content m r = c # cs \<and> buf_read_u8 m r = Inr (uint c, r') \<and> buf_inv m r' \<and> content m r' = cs \<and>
            b_data r' = b_data r \<and> b_capacity r' = b_capacity r)"
proof (cases "content m r")
  case Nil
  then show ?thesis using buf_read_u8_Nil [OF assms] by simp
next
  case (Cons c cs)
  obtain r' where r': "buf_read_u8 m r = Inr (uint c, r')" "buf_inv m r'" "content m r' = cs"
    using buf_read_u8_Cons [OF assms Cons] by blast
  moreover have "b_data r' = b_data r \<and> b_capacity r' = b_capacity r"
    using r'(1) by (auto simp: buf_read_u8_spec [OF assms] Cons)
  ultimately show ?thesis using Cons by blast
qed

definition reading :: "mem \<Rightarrow> buffer \<Rightarrow> buffer \<Rightarrow> byte list list \<Rightarrow> bool" where
  "reading m r b chunks \<longleftrightarrow> buf_inv m r \<and> buf_inv m b \<and> apart r b \<and>
     (\<forall>ch \<in> set chunks. ch \<noteq> [] \<and> int (length ch) \<le> b_capacity r)"

definition unread :: "mem \<Rightarrow> buffer \<Rightarrow> byte list list \<Rightarrow> byte list" where
  "unread m r chunks = content m r @ concat chunks"

lemma uint_not_neg: "uint c \<noteq> -1" "\<not> uint c < 0" for c :: byte
  using uint_nonnegative [of c] by linarith+

definition same_buf :: "buffer \<Rightarrow> buffer \<Rightarrow> bool" where
  "same_buf b b' \<longleftrightarrow> b_data b' = b_data b \<and> b_capacity b' = b_capacity b"

lemma same_buf_simps [simp]: "same_buf b b"
  by (simp add: same_buf_def)

lemma same_buf_trans: "same_buf a b \<Longrightarrow> same_buf b c \<Longrightarrow> same_buf a c"
  by (simp add: same_buf_def)

lemma apart_same: "same_buf a a' \<Longrightarrow> same_buf b b' \<Longrightarrow> apart a' b' = apart a b"
  by (simp add: apart_def same_buf_def)

lemma take_snoc_split: "take n xs = ys \<Longrightarrow> ys @ take (n - length xs) zs = take n (xs @ zs)"
  by auto

text \<open>The bytes that are already buffered, up to a line feed or to their end.\<close>

lemma status_read_line_buffered:
  assumes "reading m r b chunks" and "content m r = cs @ 10 # rest" and "10 \<notin> set cs"
  shows "\<exists>m' r' b'. status_read_loop m r b chunks ret = Inr (True, m', r', b', chunks) \<and> reading m' r' b' chunks \<and>
           same_buf r r' \<and> same_buf b b' \<and> b_offset b' = b_offset b \<and> content m' r' = rest \<and>
           content m' b' = content m b @ take (room b) (no_cr cs)"
  using assms
proof (induction cs arbitrary: m r b ret)
  case Nil
  obtain r' where r: "buf_read_u8 m r = Inr (10, r')" "buf_inv m r'" "content m r' = rest" "same_buf r r'"
    using read_u8_cases [of m r] Nil.prems(1,2) by (auto simp: reading_def same_buf_def)
  then have "reading m r' b chunks" using Nil.prems(1) apart_same [OF r(4), of b b] by (simp add: reading_def same_buf_def)
  then show ?case using r by (subst status_read_loop.simps) (auto intro!: exI [of _ b])
next
  case (Cons c cs)
  obtain r1 where r: "buf_read_u8 m r = Inr (uint c, r1)" "buf_inv m r1" "content m r1 = cs @ 10 # rest" "same_buf r r1"
    using read_u8_cases [of m r] Cons.prems(1,2) by (auto simp: reading_def same_buf_def)
  have rd: "reading m r1 b chunks" using Cons.prems(1) r(2) apart_same [OF r(4), of b b] r(4) by (simp add: reading_def same_buf_def)
  have c: "uint c \<noteq> -1" "uint c \<noteq> 10" "\<not> uint c < 0" "(uint c = 13) = (c = 13)" "10 \<notin> set cs"
    using Cons.prems(3) by (intro uint_not_neg | simp add: word_uint_eq_iff)+
  show ?case
  proof (cases "c = 13")
    case True
    have e: "status_read_loop m r b chunks ret = status_read_loop m r1 b chunks True"
      using True by (subst status_read_loop.simps) (simp add: r(1) c)
    show ?thesis using Cons.IH [OF rd r(3) c(5), of True] r(4) same_buf_trans True by (fastforce simp: e)
  next
    case False
    have bi: "buf_inv m b" "apart b r1" using rd apart_sym by (auto simp: reading_def)
    obtain ok b1 m1 where w: "buf_write_u8 m b (uint c) = Inr (ok, b1, m1)" "buf_inv m1 b1" "same_buf b b1"
        "b_offset b1 = b_offset b" "content m1 b1 = content m b @ take (room b) [c]" "room b1 = room b - 1"
        "buf_inv m1 r1" "content m1 r1 = content m r1"
      using put_byte [OF bi r(2), of c] by (auto simp: same_buf_def)
    have rd1: "reading m1 r1 b1 chunks"
      using rd w(2,7) apart_same [of r1 r1 b b1] w(3) by (simp add: reading_def)
    have e: "status_read_loop m r b chunks ret = status_read_loop m1 r1 b1 chunks True"
      using False by (subst status_read_loop.simps) (simp add: r(1) c w(1))
    have c1: "content m1 r1 = cs @ 10 # rest" using w(8) r(3) by simp
    obtain m2 r2 b2 where i: "status_read_loop m1 r1 b1 chunks True = Inr (True, m2, r2, b2, chunks)" "reading m2 r2 b2 chunks"
        "same_buf r1 r2" "same_buf b1 b2" "b_offset b2 = b_offset b1" "content m2 r2 = rest"
        "content m2 b2 = content m1 b1 @ take (room b1) (no_cr cs)"
      using Cons.IH [OF rd1 c1 c(5), of True] by blast
    have "content m2 b2 = content m b @ take (room b) (no_cr (c # cs))"
      using i(7) w(5,6) False by (cases "room b") auto
    then show ?thesis using e i same_buf_trans [OF r(4) i(3)] same_buf_trans [OF w(3) i(4)] w(4) by auto
  qed
qed

lemma status_read_buffered:
  assumes "reading m r b chunks" and "content m r = cs" and "10 \<notin> set cs"
  shows "\<exists>m' r' b'. status_read_loop m r b chunks ret = status_read_loop m' r' b' chunks (ret \<or> cs \<noteq> []) \<and>
           reading m' r' b' chunks \<and> same_buf r r' \<and> same_buf b b' \<and> b_offset b' = b_offset b \<and> content m' r' = [] \<and>
           content m' b' = content m b @ take (room b) (no_cr cs) \<and> room b' = room b - length (no_cr cs)"
  using assms
proof (induction cs arbitrary: m r b ret)
  case Nil
  then show ?case by (intro exI [of _ m] exI [of _ r] exI [of _ b]) simp
next
  case (Cons c cs)
  obtain r1 where r: "buf_read_u8 m r = Inr (uint c, r1)" "buf_inv m r1" "content m r1 = cs" "same_buf r r1"
    using read_u8_cases [of m r] Cons.prems(1,2) by (auto simp: reading_def same_buf_def)
  have rd: "reading m r1 b chunks" using Cons.prems(1) r(2) apart_same [OF r(4), of b b] r(4) by (simp add: reading_def same_buf_def)
  have c: "uint c \<noteq> -1" "uint c \<noteq> 10" "\<not> uint c < 0" "(uint c = 13) = (c = 13)" "10 \<notin> set cs"
    using Cons.prems(3) by (intro uint_not_neg | simp add: word_uint_eq_iff)+
  show ?case
  proof (cases "c = 13")
    case True
    have e: "status_read_loop m r b chunks ret = status_read_loop m r1 b chunks True"
      using True by (subst status_read_loop.simps) (simp add: r(1) c)
    show ?thesis using Cons.IH [OF rd r(3) c(5), of True] r(4) same_buf_trans True by (fastforce simp: e)
  next
    case False
    have bi: "buf_inv m b" "apart b r1" using rd apart_sym by (auto simp: reading_def)
    obtain ok b1 m1 where w: "buf_write_u8 m b (uint c) = Inr (ok, b1, m1)" "buf_inv m1 b1" "same_buf b b1"
        "b_offset b1 = b_offset b" "content m1 b1 = content m b @ take (room b) [c]" "room b1 = room b - 1"
        "buf_inv m1 r1" "content m1 r1 = content m r1"
      using put_byte [OF bi r(2), of c] by (auto simp: same_buf_def)
    have rd1: "reading m1 r1 b1 chunks"
      using rd w(2,7) apart_same [of r1 r1 b b1] w(3) by (simp add: reading_def)
    have e: "status_read_loop m r b chunks ret = status_read_loop m1 r1 b1 chunks True"
      using False by (subst status_read_loop.simps) (simp add: r(1) c w(1))
    have c1: "content m1 r1 = cs" using w(8) r(3) by simp
    obtain m2 r2 b2 where i: "status_read_loop m1 r1 b1 chunks True = status_read_loop m2 r2 b2 chunks True" "reading m2 r2 b2 chunks"
        "same_buf r1 r2" "same_buf b1 b2" "b_offset b2 = b_offset b1" "content m2 r2 = []"
        "content m2 b2 = content m1 b1 @ take (room b1) (no_cr cs)" "room b2 = room b1 - length (no_cr cs)"
      using Cons.IH [OF rd1 c1 c(5), of True] by auto
    have "content m2 b2 = content m b @ take (room b) (no_cr (c # cs))"
      using i(7) w(5,6) False by (cases "room b") auto
    then show ?thesis using e i same_buf_trans [OF r(4) i(3)] same_buf_trans [OF w(3) i(4)] w(4,6) False by auto
  qed
qed

lemma reading_refill:
  assumes "reading m r b (ch # chunks)" and "content m r = []"
  shows "\<exists>m' r'. status_read_loop m r b (ch # chunks) ret = status_read_loop m' r' b chunks ret \<and> reading m' r' b chunks \<and>
           same_buf r r' \<and> content m' r' = ch \<and> content m' b = content m b"
proof -
  have inv: "buf_inv m r" "buf_inv m b" "apart r b" "ch \<noteq> []" "int (length ch) \<le> b_capacity r"
    "\<forall>c \<in> set chunks. c \<noteq> [] \<and> int (length c) \<le> b_capacity r"
    using assms(1) by (auto simp: reading_def)
  obtain k i where d: "b_data r = Ptr k i" using buf_inv_block [OF inv(1)] by blast
  let ?e = "r\<lparr>b_len := 0, b_offset := 0\<rparr>" and ?f = "r\<lparr>b_len := int (length ch), b_offset := 0\<rparr>"
  obtain m' where f: "buf_init_dowork r 0 = (?e, True)" "int (length ch) \<le> buf_forward_capacity ?e"
      "write_bytes m (buf_bptr ?e) ch = Inr m'" "buf_inc_len ?e (int (length ch)) = (?f, True)" "buf_inv m' ?f"
      "content m' ?f = ch" "buf_inv m' b" "content m' b = content m b"
    using refill [OF inv(1) d inv(4,5,3,2)] by blast
  have sb: "same_buf r ?f" by (simp add: same_buf_def)
  have "status_read_loop m r b (ch # chunks) ret = status_read_loop m' ?f b chunks ret"
    using inv(4) f(2) buf_read_u8_Nil [OF inv(1) assms(2)]
    by (subst status_read_loop.simps) (simp add: f(1,3,4) c_assert_def)
  moreover have "reading m' ?f b chunks" using f(5,7) inv(3,6) apart_same [OF sb, of b b] by (simp add: reading_def)
  ultimately show ?thesis using f(6,8) sb by blast
qed

lemma reading_end:
  assumes "reading m r b []" and "content m r = []"
  shows "\<exists>r'. status_read_loop m r b [] ret = Inr (ret, m, r', b, []) \<and> reading m r' b [] \<and> same_buf r r' \<and> content m r' = []"
proof -
  have inv: "buf_inv m r" "buf_inv m b" "apart r b" using assms(1) by (auto simp: reading_def)
  obtain k i where d: "b_data r = Ptr k i" using buf_inv_block [OF inv(1)] by blast
  let ?e = "r\<lparr>b_len := 0, b_offset := 0\<rparr>"
  have sb: "same_buf r ?e" by (simp add: same_buf_def)
  have e: "buf_inv m ?e" using inv(1) by (auto simp: buf_inv_def)
  have "0 \<le> b_capacity r" using inv(1) by (simp add: buf_inv_def)
  then have "status_read_loop m r b [] ret = Inr (ret, m, ?e, b, [])"
    using d buf_read_u8_Nil [OF inv(1) assms(2)]
    by (subst status_read_loop.simps) (simp add: buf_init_dowork_def c_assert_def)
  moreover have "content m ?e = []" using read_content(2) [OF e] by simp
  moreover have "reading m ?e b []" using e inv(2,3) apart_same [OF sb, of b b] by (simp add: reading_def)
  ultimately show ?thesis using sb by blast
qed

lemma line_split:
  assumes "10 \<notin> set cs"
  shows "line_head (cs @ t) = cs @ line_head t" and "line_tail (cs @ t) = line_tail t"
  using assms by (induction cs) auto

lemma no_cr_append: "no_cr (a @ b) = no_cr a @ no_cr b"
  by (simp add: no_cr_def)

lemma status_read_loop_spec:
  assumes "reading m r b chunks"
  shows "\<exists>m' r' b' chunks'. status_read_loop m r b chunks ret = Inr (ret \<or> unread m r chunks \<noteq> [], m', r', b', chunks') \<and>
           reading m' r' b' chunks' \<and> same_buf r r' \<and> same_buf b b' \<and> b_offset b' = b_offset b \<and>
           unread m' r' chunks' = line_tail (unread m r chunks) \<and>
           content m' b' = content m b @ take (room b) (no_cr (line_head (unread m r chunks)))"
  using assms
proof (induction chunks arbitrary: m r b ret)
  case Nil
  show ?case
  proof (cases "10 \<in> set (content m r)")
    case True
    obtain cs rest where c: "content m r = cs @ 10 # rest" "10 \<notin> set cs" using split_list_first [OF True] by blast
    show ?thesis using status_read_line_buffered [OF Nil.prems c, of ret] c by (fastforce simp: unread_def line_split)
  next
    case False
    obtain m1 r1 b1 where s: "status_read_loop m r b [] ret = status_read_loop m1 r1 b1 [] (ret \<or> content m r \<noteq> [])"
        "reading m1 r1 b1 []" "same_buf r r1" "same_buf b b1" "b_offset b1 = b_offset b" "content m1 r1 = []"
        "content m1 b1 = content m b @ take (room b) (no_cr (content m r))"
      using status_read_buffered [OF Nil.prems refl False, of ret] by blast
    obtain r2 where e: "status_read_loop m1 r1 b1 [] (ret \<or> content m r \<noteq> []) = Inr (ret \<or> content m r \<noteq> [], m1, r2, b1, [])"
        "reading m1 r2 b1 []" "same_buf r1 r2" "content m1 r2 = []"
      using reading_end [OF s(2,6)] by blast
    show ?thesis
      using s e same_buf_trans [OF s(3) e(3)] line_split [OF False, of "[]"]
      by (intro exI [of _ m1] exI [of _ r2] exI [of _ b1] exI [of _ "[]"]) (simp add: unread_def)
  qed
next
  case (Cons ch chunks)
  show ?case
  proof (cases "10 \<in> set (content m r)")
    case True
    obtain cs rest where c: "content m r = cs @ 10 # rest" "10 \<notin> set cs" using split_list_first [OF True] by blast
    show ?thesis using status_read_line_buffered [OF Cons.prems c, of ret] c by (fastforce simp: unread_def line_split)
  next
    case False
    let ?ret = "ret \<or> content m r \<noteq> []"
    obtain m1 r1 b1 where s: "status_read_loop m r b (ch # chunks) ret = status_read_loop m1 r1 b1 (ch # chunks) ?ret"
        "reading m1 r1 b1 (ch # chunks)" "same_buf r r1" "same_buf b b1" "b_offset b1 = b_offset b" "content m1 r1 = []"
        "content m1 b1 = content m b @ take (room b) (no_cr (content m r))" "room b1 = room b - length (no_cr (content m r))"
      using status_read_buffered [OF Cons.prems refl False, of ret] by blast
    obtain m2 r2 where e: "status_read_loop m1 r1 b1 (ch # chunks) ?ret = status_read_loop m2 r2 b1 chunks ?ret"
        "reading m2 r2 b1 chunks" "same_buf r1 r2" "content m2 r2 = ch" "content m2 b1 = content m1 b1"
      using reading_refill [OF s(2,6)] by blast
    have ne: "ch \<noteq> []" using Cons.prems by (simp add: reading_def)
    obtain m3 r3 b3 chunks3 where i: "status_read_loop m2 r2 b1 chunks ?ret = Inr (?ret \<or> unread m2 r2 chunks \<noteq> [], m3, r3, b3, chunks3)"
        "reading m3 r3 b3 chunks3" "same_buf r2 r3" "same_buf b1 b3" "b_offset b3 = b_offset b1"
        "unread m3 r3 chunks3 = line_tail (unread m2 r2 chunks)"
        "content m3 b3 = content m2 b1 @ take (room b1) (no_cr (line_head (unread m2 r2 chunks)))"
      using Cons.IH [OF e(2), of ?ret] by blast
    have u: "unread m r (ch # chunks) = content m r @ unread m2 r2 chunks" using e(4) by (simp add: unread_def)
    have "content m3 b3 = content m b @ take (room b) (no_cr (line_head (unread m r (ch # chunks))))"
      unfolding u line_split [OF False] no_cr_append i(7) e(5) s(7,8) by simp
    moreover have "same_buf r r3" "same_buf b b3"
      using same_buf_trans [OF s(3) same_buf_trans [OF e(3) i(3)]] same_buf_trans [OF s(4) i(4)] by auto
    moreover have "(?ret \<or> unread m2 r2 chunks \<noteq> []) = (ret \<or> unread m r (ch # chunks) \<noteq> [])"
      using u by auto
    moreover have "unread m3 r3 chunks3 = line_tail (unread m r (ch # chunks))" using i(6) u line_split(2) [OF False] by simp
    ultimately show ?thesis using s(1,5) e(1) i(1,2,5)
      by (intro exI [of _ m3] exI [of _ r3] exI [of _ b3] exI [of _ chunks3]) simp
  qed
qed

lemma null_terminate_apart:
  assumes "buf_inv m b" and "apart b r" and "buf_inv m r"
  shows "\<exists>b' m'. buf_null_terminate m b = Inr (b', m') \<and> buf_inv m' b' \<and>
           content m' b' = terminated (b_offset b + b_len b < b_capacity b) (content m b) \<and>
           same_buf b b' \<and> buf_inv m' r \<and> content m' r = content m r"
proof -
  obtain b1 m1 where n: "buf_null_terminate m b = Inr (b1, m1)" "buf_inv m1 b1"
      "content m1 b1 = terminated (b_offset b + b_len b < b_capacity b) (content m b)"
    using buf_null_terminate_spec [OF assms(1)] by blast
  have "same_buf b b1 \<and> buf_inv m1 r \<and> content m1 r = content m r"
  proof (cases "last_byte m b = Inr (Some 0)")
    case True
    then show ?thesis using n(1) assms(3) by (simp add: buf_null_terminate_def)
  next
    case False
    let ?b = "if \<not> buf_safe b 1 then fst (buf_inc_len b (-1)) else b"
    have i: "buf_inv m ?b" "same_buf b ?b"
      using assms(1) by (auto simp: buf_inc_len_spec [OF assms(1)] buf_inv_def same_buf_def)
    have a: "apart ?b r" using assms(2) apart_same [OF i(2), of r r] by simp
    obtain ok where w: "buf_write_u8 m ?b 0 = Inr (ok, b1, m1)"
      using n(1) False by (auto simp: buf_null_terminate_def bindE_Inr_iff Let_def split: if_splits)
    obtain ok2 b2 m2 where p: "buf_write_u8 m ?b (uint (0 :: byte)) = Inr (ok2, b2, m2)" "b_data b2 = b_data ?b"
        "b_capacity b2 = b_capacity ?b" "buf_inv m2 r" "content m2 r = content m r"
      using put_byte [OF i(1) a assms(3), of 0] by blast
    have "b2 = b1" "m2 = m1" using w p(1) by simp_all
    then show ?thesis using p(2-5) i(2) by (simp add: same_buf_def)
  qed
  then show ?thesis using n by blast
qed

section \<open>Writing\<close>

lemma status_printf_line:
  assumes "0 \<le> so_fd s" and "so_writable (so_flags s)" and "\<not> so_errors s" and "is_cstr l" and "length l < 512"
    and "length buf0 = 514"
  shows "\<exists>ev. status_printf (Some s) buf0 (Some l) (int (length l) + 1) f =
           Inr (Some s, file_write f (l @ [10]) (length l + 1), ev)"
proof -
  let ?b1 = "overwrite buf0 0 (vsnprintf_bytes (Some l) STATUS_PRINTF_MAXLEN)"
  have v: "vsnprintf_bytes (Some l) STATUS_PRINTF_MAXLEN = l @ [NUL]"
    using assms(5) by (simp add: vsnprintf_bytes_def STATUS_PRINTF_MAXLEN_def)
  have b1: "?b1 = l @ NUL # drop (length l + 1) buf0" unfolding v using assms(5,6) by (simp add: overwrite_def)
  have l1: "length ?b1 = 514" unfolding v using assms(5,6) by simp
  obtain zs where b2: "?b1[STATUS_PRINTF_MAXLEN - 1 := NUL] = l @ NUL # zs" "length zs = 513 - length l"
  proof (cases "length l = 511")
    case True
    have "?b1[STATUS_PRINTF_MAXLEN - 1 := NUL] = l @ NUL # drop (length l + 1) buf0"
      unfolding b1 using True by (simp add: STATUS_PRINTF_MAXLEN_def list_update_append)
    then show thesis using that assms(5,6) True by simp
  next
    case False
    then have k: "STATUS_PRINTF_MAXLEN - 1 = length (l @ [NUL]) + (510 - length l)"
      using assms(5) by (simp add: STATUS_PRINTF_MAXLEN_def)
    have "?b1[STATUS_PRINTF_MAXLEN - 1 := NUL] = (l @ [NUL]) @ (drop (length l + 1) buf0)[510 - length l := NUL]"
      unfolding b1 k using list_update_append [of "l @ [NUL]"] by simp
    then show thesis using that assms(5,6) by simp
  qed
  let ?b2 = "l @ NUL # zs"
  have s1: "arr_set ?b1 (STATUS_PRINTF_MAXLEN - 1) NUL = Inr ?b2"
    using b2(1) l1 by (simp add: arr_set_def STATUS_PRINTF_MAXLEN_def)
  have s2: "c_strlen ?b2 = Inr (length l)" using assms(4) by simp
  have ret: "vsnprintf_ret (Some l) = int (length l)" by (simp add: vsnprintf_ret_def)
  have len2: "length l + 2 \<le> length ?b2" using b2(2) assms(5) by simp
  have b3: "take (length l + 1) (overwrite ?b2 (length l) [10, NUL]) = l @ [10]" by (simp add: overwrite_def)
  have n3: "NUL \<in> set (overwrite ?b2 (length l) [10, NUL])" by (simp add: overwrite_def)
  obtain b4 where ch: "chomp (overwrite ?b2 (length l) [10, NUL]) = Inr b4" using chomp_any [OF n3] by blast
  show ?thesis
    using assms(1-3,5) s1 s2 len2 b3 ch unfolding status_printf_def ret
    by (simp add: Let_def STATUS_PRINTF_MAXLEN_def nat_add_distrib)
qed

fun status_lines ::
  "status_output option \<Rightarrow> byte list \<Rightarrow> cstr list \<Rightarrow> status_file \<Rightarrow> fault + status_output option \<times> status_file" where
  "status_lines so buf0 [] f = Inr (so, f)"
| "status_lines so buf0 (l # ls) f =
     bindE (status_printf so buf0 (Some l) (int (length l) + 1) f)
       (\<lambda>(so1, f1, _). status_lines so1 buf0 ls f1)"

lemma file_write_here:
  assumes "take (sf_pos f) (sf_content f) = done" and "sf_pos f = length done"
  shows "take (sf_pos (file_write f bs (length bs))) (sf_content (file_write f bs (length bs))) = done @ bs"
    and "sf_pos (file_write f bs (length bs)) = length (done @ bs)"
proof -
  have "sf_pos f \<le> length (sf_content f)" using assms by (metis length_take min.cobounded1 min_def)
  then show "take (sf_pos (file_write f bs (length bs))) (sf_content (file_write f bs (length bs))) = done @ bs"
    "sf_pos (file_write f bs (length bs)) = length (done @ bs)"
    using assms by (simp_all add: file_write_def Let_def)
qed

lemma status_lines_written:
  assumes "0 \<le> so_fd s" and "so_writable (so_flags s)" and "\<not> so_errors s"
    and "\<And>l. l \<in> set ls \<Longrightarrow> is_cstr l \<and> length l < 512" and "length buf0 = 514"
    and "take (sf_pos f) (sf_content f) = done" and "sf_pos f = length done"
  shows "\<exists>f'. status_lines (Some s) buf0 ls f = Inr (Some s, f') \<and>
           take (sf_pos f') (sf_content f') = done @ concat (map (\<lambda>l. l @ [10]) ls) \<and>
           sf_pos f' = length (done @ concat (map (\<lambda>l. l @ [10]) ls))"
  using assms(4,6,7)
proof (induction ls arbitrary: f "done")
  case (Cons l ls)
  have l: "is_cstr l" "length l < 512" using Cons.prems(1) by auto
  obtain ev where p: "status_printf (Some s) buf0 (Some l) (int (length l) + 1) f =
      Inr (Some s, file_write f (l @ [10]) (length (l @ [10])), ev)"
    using status_printf_line [OF assms(1-3) l assms(5), of f] by auto
  note w = file_write_here [OF Cons.prems(2,3), of "l @ [10]"]
  have "\<exists>f'. status_lines (Some s) buf0 ls (file_write f (l @ [10]) (length (l @ [10]))) = Inr (Some s, f') \<and>
           take (sf_pos f') (sf_content f') = (done @ l @ [10]) @ concat (map (\<lambda>l. l @ [10]) ls) \<and>
           sf_pos f' = length ((done @ l @ [10]) @ concat (map (\<lambda>l. l @ [10]) ls))"
    using Cons.prems(1) by (intro Cons.IH [OF _ w]) auto
  then show ?case using p by simp
qed simp

section \<open>Properties\<close>

text \<open>
  C25: Reading a line of a status file that is open for reading does not depend on how the system cuts the file: whatever the chunks of
  \<open>read\<close> are (none empty, none longer than the read buffer), one call puts the bytes up to the next line
  feed, without carriage returns, and a NUL into the empty buffer of the caller, leaves the rest
  of the file to be read, and says whether there was anything to read. The line has no NUL of its own and
  fits with the NUL into the buffer; a longer line is cut off by the code without a sign.
\<close>

theorem status_read_line:
  assumes "0 \<le> so_fd s" and "so_readable (so_flags s)" and "reading m (so_read_buf s) b chunks"
    and "content m b = []" and "stream = unread m (so_read_buf s) chunks"
    and "length (no_cr (line_head stream)) < room b" and "is_cstr (line_head stream)"
  shows "\<exists>m' s' b' chunks'. status_read m (Some s) b chunks = Inr (stream \<noteq> [], m', Some s', b', chunks') \<and>
           content m' b' = no_cr (line_head stream) @ [0] \<and> unread m' (so_read_buf s') chunks' = line_tail stream \<and>
           buf_inv m' b' \<and> so_fd s' = so_fd s \<and> so_flags s' = so_flags s"
proof -
  let ?l = "no_cr (line_head stream)"
  obtain m1 r1 b1 ch1 where l: "status_read_loop m (so_read_buf s) b chunks False = Inr (stream \<noteq> [], m1, r1, b1, ch1)"
      "reading m1 r1 b1 ch1" "same_buf (so_read_buf s) r1" "same_buf b b1" "b_offset b1 = b_offset b"
      "unread m1 r1 ch1 = line_tail stream" "content m1 b1 = take (room b) ?l"
    using status_read_loop_spec [OF assms(3), of False] assms(4,5) by auto
  have c: "content m1 b1 = ?l" using l(7) assms(6) by simp
  have i: "buf_inv m1 b1" "apart b1 r1" "buf_inv m1 r1" using l(2) apart_sym by (auto simp: reading_def)
  obtain b2 m2 where n: "buf_null_terminate m1 b1 = Inr (b2, m2)" "buf_inv m2 b2"
      "content m2 b2 = terminated (b_offset b1 + b_len b1 < b_capacity b1) ?l" "content m2 r1 = content m1 r1"
    using null_terminate_apart [OF i] c by auto
  have i0: "buf_inv m b" using assms(3) by (simp add: reading_def)
  have z: "b_len b = 0" using read_content(2) [OF i0] assms(4) i0 by (simp add: buf_inv_def)
  have "b_len b1 = int (length ?l)" using read_content(2) [OF i(1)] c by simp
  then have rm: "b_offset b1 + b_len b1 < b_capacity b1" using assms(6) l(4,5) z by (simp add: room_def same_buf_def)
  have "\<not> (?l \<noteq> [] \<and> last ?l = 0)"
  proof
    assume a: "?l \<noteq> [] \<and> last ?l = 0"
    then have "0 \<in> set ?l" using last_in_set by metis
    then show False using assms(7) by (auto simp: no_cr_def is_cstr_def)
  qed
  then have t: "content m2 b2 = ?l @ [0]" using n(3) rm by (simp add: terminated_def)
  have d: "buf_defined (so_read_buf s)" "buf_defined b"
    using assms(3) by (auto simp: reading_def apart_def buf_defined_def)
  have "status_read m (Some s) b chunks = Inr (stream \<noteq> [], m2, Some (s\<lparr>so_read_buf := r1\<rparr>), b2, ch1)"
    using assms(1,2) d l(1) n(1) by (simp add: status_read_def c_assert_def)
  then show ?thesis using t n(2,4) l(6)
    by (intro exI [of _ m2] exI [of _ "s\<lparr>so_read_buf := r1\<rparr>"] exI [of _ b2] exI [of _ ch1]) (simp add: unread_def)
qed

definition example_status :: "nat \<Rightarrow> buffer \<Rightarrow> status_output" where
  "example_status fl rb = \<lparr>so_flags = fl, so_filename = None, so_fd = 3, so_msglevel = -1, so_vout = None, so_read_buf = rb,
     so_et = event_timeout_clear_ret, so_errors = False\<rparr>"

theorem status_read_line_witness:
  "\<exists>m' s' b' chunks'.
     status_read (empty_mem\<lparr>blocks := [0 \<mapsto> [0, 0, 0, 0], 1 \<mapsto> [0, 0, 0, 0]]\<rparr>)
       (Some (example_status 1 \<lparr>b_capacity = 4, b_offset = 0, b_len = 0, b_data = Ptr 0 0\<rparr>))
       \<lparr>b_capacity = 4, b_offset = 0, b_len = 0, b_data = Ptr 1 0\<rparr> [[65, 13], [10, 66]] =
     Inr (True, m', Some s', b', chunks') \<and> content m' b' = [65, 0]"
proof -
  let ?m = "empty_mem\<lparr>blocks := [0 \<mapsto> [0, 0, 0, 0], 1 \<mapsto> [0, 0, 0, 0]]\<rparr>"
  let ?r = "\<lparr>b_capacity = 4, b_offset = 0, b_len = 0, b_data = Ptr 0 0\<rparr>"
  let ?b = "\<lparr>b_capacity = 4, b_offset = 0, b_len = 0, b_data = Ptr 1 0\<rparr>"
  have i: "buf_inv ?m ?r" "buf_inv ?m ?b" by (simp_all add: buf_inv_def BUF_SIZE_MAX_def)
  have z: "content ?m ?r = []" "content ?m ?b = []" using read_content(2) [OF i(1)] read_content(2) [OF i(2)] by simp_all
  have rd: "reading ?m (so_read_buf (example_status 1 ?r)) ?b [[65, 13], [10, 66]]"
    using i by (simp add: reading_def example_status_def apart_def)
  have u: "[65, 13, 10, 66] = unread ?m (so_read_buf (example_status 1 ?r)) [[65, 13], [10, 66]]"
    using z by (simp add: unread_def example_status_def)
  have h: "0 \<le> so_fd (example_status 1 ?r)" "so_readable (so_flags (example_status 1 ?r))"
    by (simp_all add: example_status_def so_readable_def)
  have l: "length (no_cr (line_head [65, 13, 10, 66])) < room ?b" "is_cstr (line_head [65, 13, 10, 66])"
    by (simp_all add: room_def)
  show ?thesis using status_read_line [OF h rd z(2) u l] by auto
qed

text \<open>
  Rewriting a status file in place: after a reset, a line for each text and a flush, the file holds
  exactly the new lines, also when the old content was longer.
\<close>

lemma status_file_exact:
  assumes "0 \<le> so_fd s" and "so_writable (so_flags s)" and "\<not> so_errors s"
    and "\<forall>l \<in> set ls. is_cstr l \<and> length l < 512" and "length buf0 = 514"
    and "buf_defined (so_read_buf s) \<longrightarrow> 0 \<le> b_capacity (so_read_buf s)"
  shows "\<exists>so1 f1 so2 f2. status_lines (Some s) buf0 ls (status_reset (Some s) f) = Inr (so1, f1) \<and>
           status_flush so1 f1 = Inr (so2, f2) \<and> sf_content f2 = concat (map (\<lambda>l. l @ [10]) ls)"
proof -
  have r: "take (sf_pos (status_reset (Some s) f)) (sf_content (status_reset (Some s) f)) = []"
      "sf_pos (status_reset (Some s) f) = length ([] :: byte list)"
    using assms(1) by (simp_all add: status_reset_def)
  obtain f1 where w: "status_lines (Some s) buf0 ls (status_reset (Some s) f) = Inr (Some s, f1)"
      "take (sf_pos f1) (sf_content f1) = concat (map (\<lambda>l. l @ [10]) ls)"
      "sf_pos f1 = length (concat (map (\<lambda>l. l @ [10]) ls))"
    using status_lines_written [OF assms(1-3) _ assms(5) r, of ls] assms(4) by auto
  have "sf_pos f1 \<le> length (sf_content f1)" using w(2,3) by (metis length_take min.cobounded1 min_def)
  then have c: "sf_content (chsize f1 (sf_pos f1)) = concat (map (\<lambda>l. l @ [10]) ls)"
    using w(2) by (simp add: chsize_def)
  have "\<exists>so2. status_flush (Some s) f1 = Inr (so2, chsize f1 (sf_pos f1))"
    using assms(1,2,6) by (auto simp: status_flush_def Let_def buf_init_dowork_def c_assert_def buf_defined_def)
  then show ?thesis using w(1) c by blast
qed


end
