(* ===== verification/Perf.thy ===== *)
theory Perf
  imports Otime Text_Laws
begin

text \<open>
  \<open>src/Treiber/lib/perf.c\<close> and \<open>perf.h\<close>, as compiled with \<open>ENABLE_PERFORMANCE_METRICS\<close>: meters on a stack,
  of which only the top one runs. The type \<open>double\<close> is a parameter: \<open>'d\<close> with the operations the code uses,
  where \<open>of_us n\<close> is \<open>(double) n / 1000000.0\<close>. Without the option the functions are empty.
\<close>

record 'd dbl =
  dzero :: 'd
  done1 :: 'd
  dadd :: "'d \<Rightarrow> 'd \<Rightarrow> 'd"
  dgreater :: "'d \<Rightarrow> 'd \<Rightarrow> bool"
  of_us :: "int \<Rightarrow> 'd"

definition PERF_N :: nat where "PERF_N = 20"
definition STACK_N :: nat where "STACK_N = 64"

definition metric_names :: "string list" where
  "metric_names =
   [''PERF_BIO_READ_PLAINTEXT'', ''PERF_BIO_WRITE_PLAINTEXT'', ''PERF_BIO_READ_CIPHERTEXT'',
    ''PERF_BIO_WRITE_CIPHERTEXT'', ''PERF_TLS_MULTI_PROCESS'', ''PERF_IO_WAIT'', ''PERF_EVENT_LOOP'',
    ''PERF_MULTI_CREATE_INSTANCE'', ''PERF_MULTI_CLOSE_INSTANCE'', ''PERF_MULTI_SHOW_STATS'', ''PERF_MULTI_BCAST'',
    ''PERF_MULTI_MCAST'', ''PERF_SCRIPT'', ''PERF_READ_IN_LINK'', ''PERF_PROC_IN_LINK'', ''PERF_READ_IN_TUN'',
    ''PERF_PROC_IN_TUN'', ''PERF_PROC_OUT_LINK'', ''PERF_PROC_OUT_TUN'', ''PERF_PROC_OUT_TUN_MTCP'']"

definition PS_INITIAL :: nat where "PS_INITIAL = 0"
definition PS_METER_RUNNING :: nat where "PS_METER_RUNNING = 1"
definition PS_METER_INTERRUPTED :: nat where "PS_METER_INTERRUPTED = 2"

record 'd perf =
  p_state :: nat
  p_start :: timeval
  p_sofar :: 'd
  p_sum :: 'd
  p_max :: 'd
  p_count :: 'd

record 'd perf_set =
  stack_len :: int
  pstack :: "int list"
  perfs :: "'d perf list"

definition get_stack_index :: "'d perf_set \<Rightarrow> int \<Rightarrow> int" where
  "get_stack_index ps sdelta =
     (let sindex = stack_len ps + sdelta in if sindex \<ge> 0 \<and> sindex < int STACK_N then sindex else -1)"

definition get_perf_index :: "'d perf_set \<Rightarrow> int \<Rightarrow> int" where
  "get_perf_index ps sdelta =
     (let sindex = get_stack_index ps sdelta
      in if sindex \<ge> 0
         then (let pindex = pstack ps ! nat sindex in if pindex \<ge> 0 \<and> pindex < int PERF_N then pindex else -1)
         else -1)"

text \<open>A pointer to a meter is its index.\<close>

definition get_perf :: "'d perf_set \<Rightarrow> int \<Rightarrow> nat option" where
  "get_perf ps sdelta = (let pindex = get_perf_index ps sdelta in if pindex \<ge> 0 then Some (nat pindex) else None)"

definition push_perf_index :: "'d perf_set \<Rightarrow> int \<Rightarrow> fault + 'd perf_set" where
  "push_perf_index ps pindex =
     (let sindex = get_stack_index ps 0; newlen = get_stack_index ps 1
      in if sindex \<ge> 0 \<and> newlen \<ge> 0 \<and> pindex \<ge> 0 \<and> pindex < int PERF_N
         then (if pindex \<in> set (take (nat sindex) (pstack ps)) then Inl Fatal
               else Inr (ps\<lparr>pstack := (pstack ps)[nat sindex := pindex], stack_len := newlen\<rparr>))
         else Inl Fatal)"

definition pop_perf_index :: "'d perf_set \<Rightarrow> fault + 'd perf_set" where
  "pop_perf_index ps =
     (let newlen = get_stack_index ps (-1) in if newlen \<ge> 0 then Inr (ps\<lparr>stack_len := newlen\<rparr>) else Inl Fatal)"

definition state_must_be :: "'d perf \<Rightarrow> nat \<Rightarrow> fault + unit" where
  "state_must_be p wanted = (if p_state p \<noteq> wanted then Inl Fatal else Inr ())"

text \<open>\<open>now\<close> is what \<open>gettimeofday\<close> stores; \<open>None\<close> when it fails.\<close>

definition update_sofar :: "'d dbl \<Rightarrow> timeval option \<Rightarrow> 'd perf \<Rightarrow> fault + 'd perf" where
  "update_sofar D now p =
     (case now of
        None \<Rightarrow> Inl AssertFail
      | Some current \<Rightarrow>
          Inr (p\<lparr>p_sofar := dadd D (p_sofar p) (of_us D (tv_subtract current (p_start p) 600)), p_start := Timeval 0 0\<rparr>))"

definition perf_start :: "'d dbl \<Rightarrow> timeval option \<Rightarrow> 'd perf \<Rightarrow> fault + 'd perf" where
  "perf_start D now p =
     bindE (state_must_be p PS_INITIAL)
       (\<lambda>_. case now of
              None \<Rightarrow> Inl AssertFail
            | Some t \<Rightarrow> Inr (p\<lparr>p_start := t, p_sofar := dzero D, p_state := PS_METER_RUNNING\<rparr>))"

definition perf_stop :: "'d dbl \<Rightarrow> timeval option \<Rightarrow> 'd perf \<Rightarrow> fault + 'd perf" where
  "perf_stop D now p =
     bindE (state_must_be p PS_METER_RUNNING)
       (\<lambda>_. bindE (update_sofar D now p)
         (\<lambda>p1. let p2 = p1\<lparr>p_sum := dadd D (p_sum p1) (p_sofar p1)\<rparr>;
                   p3 = (if dgreater D (p_sofar p2) (p_max p2) then p2\<lparr>p_max := p_sofar p2\<rparr> else p2)
               in Inr (p3\<lparr>p_count := dadd D (p_count p3) (done1 D), p_sofar := dzero D, p_state := PS_INITIAL\<rparr>)))"

definition perf_interrupt :: "'d dbl \<Rightarrow> timeval option \<Rightarrow> 'd perf \<Rightarrow> fault + 'd perf" where
  "perf_interrupt D now p =
     bindE (state_must_be p PS_METER_RUNNING)
       (\<lambda>_. bindE (update_sofar D now p) (\<lambda>p1. Inr (p1\<lparr>p_state := PS_METER_INTERRUPTED\<rparr>)))"

definition perf_resume :: "timeval option \<Rightarrow> 'd perf \<Rightarrow> fault + 'd perf" where
  "perf_resume now p =
     bindE (state_must_be p PS_METER_INTERRUPTED)
       (\<lambda>_. case now of None \<Rightarrow> Inl AssertFail | Some t \<Rightarrow> Inr (p\<lparr>p_start := t, p_state := PS_METER_RUNNING\<rparr>))"

definition on_perf :: "('d perf \<Rightarrow> fault + 'd perf) \<Rightarrow> nat \<Rightarrow> 'd perf_set \<Rightarrow> fault + 'd perf_set" where
  "on_perf op i ps = bindE (op (perfs ps ! i)) (\<lambda>p. Inr (ps\<lparr>perfs := (perfs ps)[i := p]\<rparr>))"

text \<open>The clock is read once for each meter: \<open>t1\<close> and \<open>t2\<close>.\<close>

definition perf_push :: "'d dbl \<Rightarrow> timeval option \<Rightarrow> timeval option \<Rightarrow> int \<Rightarrow> 'd perf_set \<Rightarrow> fault + 'd perf_set" where
  "perf_push D t1 t2 type ps =
     bindE (c_assert (length metric_names = PERF_N))
       (\<lambda>_. bindE (push_perf_index ps type)
         (\<lambda>ps1. case get_perf ps1 (-1) of
            None \<Rightarrow> Inl AssertFail
          | Some cur \<Rightarrow>
              bindE (case get_perf ps1 (-2) of Some prev \<Rightarrow> on_perf (perf_interrupt D t1) prev ps1 | None \<Rightarrow> Inr ps1)
                (\<lambda>ps2. on_perf (perf_start D t2) cur ps2)))"

definition perf_pop :: "'d dbl \<Rightarrow> timeval option \<Rightarrow> timeval option \<Rightarrow> 'd perf_set \<Rightarrow> fault + 'd perf_set" where
  "perf_pop D t1 t2 ps =
     (case get_perf ps (-1) of
        None \<Rightarrow> Inl AssertFail
      | Some cur \<Rightarrow>
          bindE (on_perf (perf_stop D t1) cur ps)
            (\<lambda>ps1. bindE (case get_perf ps (-2) of Some prev \<Rightarrow> on_perf (perf_resume t2) prev ps1 | None \<Rightarrow> Inr ps1)
              (\<lambda>ps2. pop_perf_index ps2)))"

text \<open>The static variable before the first call: all zero.\<close>

definition perf_set_init :: "'d dbl \<Rightarrow> 'd perf_set" where
  "perf_set_init D = \<lparr>stack_len = 0, pstack = replicate STACK_N 0,
     perfs = replicate PERF_N \<lparr>p_state = PS_INITIAL, p_start = Timeval 0 0, p_sofar = dzero D, p_sum = dzero D,
                              p_max = dzero D, p_count = dzero D\<rparr>\<rparr>"

text \<open>\<open>mean\<close> and the numbers are formatted by \<open>show\<close>; the lines go to the log.\<close>

definition perf_output_results :: "'d dbl \<Rightarrow> (string \<Rightarrow> 'd perf \<Rightarrow> cstr) \<Rightarrow> 'd perf_set \<Rightarrow> cstr list" where
  "perf_output_results D shows ps =
     asc ''LATENCY PROFILE (mean and max are in milliseconds)'' #
     map (\<lambda>(n, p). shows n p) (List.filter (\<lambda>(n, p). dgreater D (p_count p) (dzero D)) (zip metric_names (perfs ps)))"

definition perf_print_state :: "(nat \<Rightarrow> string \<Rightarrow> 'd perf \<Rightarrow> cstr) \<Rightarrow> 'd perf_set \<Rightarrow> cstr list" where
  "perf_print_state shows ps =
     [asc ''PERF STATE'', asc ''Stack:''] @
     map (\<lambda>i. let j = nat (pstack ps ! i) in shows i (metric_names ! j) (perfs ps ! j)) [0..<nat (stack_len ps)]"

section \<open>The stack of meters\<close>

definition active :: "'d perf_set \<Rightarrow> int list" where
  "active ps = take (nat (stack_len ps)) (pstack ps)"

text \<open>The last meter of the stack runs, the others on it are interrupted, and all others wait.\<close>

definition meter_state :: "int list \<Rightarrow> nat \<Rightarrow> nat" where
  "meter_state st i =
     (if int i \<notin> set st then PS_INITIAL else if int i = last st then PS_METER_RUNNING else PS_METER_INTERRUPTED)"

definition perf_inv :: "'d perf_set \<Rightarrow> bool" where
  "perf_inv ps \<longleftrightarrow>
     0 \<le> stack_len ps \<and> length (pstack ps) = STACK_N \<and> stack_len ps \<le> int PERF_N \<and> length (perfs ps) = PERF_N \<and>
     distinct (active ps) \<and> set (active ps) \<subseteq> {0..<int PERF_N} \<and>
     (\<forall>i < PERF_N. p_state (perfs ps ! i) = meter_state (active ps) i)"

lemma perf_inv_init: "perf_inv (perf_set_init D)"
  by (simp add: perf_inv_def perf_set_init_def active_def meter_state_def STACK_N_def PERF_N_def)

lemma active_length: "perf_inv ps \<Longrightarrow> length (active ps) = nat (stack_len ps)"
proof -
  assume "perf_inv ps"
  then have "stack_len ps \<le> 20" "length (pstack ps) = 64" by (simp_all add: perf_inv_def STACK_N_def PERF_N_def)
  then have "nat (stack_len ps) \<le> length (pstack ps)" by linarith
  then show ?thesis by (simp add: active_def)
qed

lemma perf_inv_bound: "perf_inv ps \<Longrightarrow> 0 \<le> stack_len ps \<and> stack_len ps \<le> 20 \<and> length (pstack ps) = 64 \<and> length (perfs ps) = 20"
  by (simp add: perf_inv_def STACK_N_def PERF_N_def)

lemma active_nth: "i < nat (stack_len ps) \<Longrightarrow> pstack ps ! i = active ps ! i"
  by (simp add: active_def)

lemma active_set_range: "perf_inv ps \<Longrightarrow> t \<in> set (active ps) \<Longrightarrow> 0 \<le> t \<and> t < 20"
  by (auto simp: perf_inv_def PERF_N_def)

lemma active_range: "perf_inv ps \<Longrightarrow> i < length (active ps) \<Longrightarrow> 0 \<le> active ps ! i \<and> active ps ! i < 20"
  using active_set_range nth_mem by blast

text \<open>The meters that \<open>get_perf\<close> finds at the top of the stack.\<close>

lemma get_perf_top:
  assumes "perf_inv ps"
  shows "get_perf ps (-1) = (if active ps = [] then None else Some (nat (last (active ps))))"
proof (cases "active ps = []")
  case True
  then have "stack_len ps = 0" using active_length [OF assms] perf_inv_bound [OF assms] by simp
  then show ?thesis using True by (simp add: get_perf_def get_perf_index_def get_stack_index_def)
next
  case False
  have n: "0 < stack_len ps" "stack_len ps \<le> 20" "length (active ps) = nat (stack_len ps)"
    using active_length [OF assms] perf_inv_bound [OF assms] False by (cases "active ps"; simp)+
  have e: "nat (stack_len ps - 1) = length (active ps) - 1" using n by simp
  have l: "pstack ps ! nat (stack_len ps - 1) = last (active ps)"
    unfolding e using active_nth [of "length (active ps) - 1" ps] n False by (simp add: last_conv_nth)
  have "0 \<le> last (active ps) \<and> last (active ps) < 20"
    using active_range [OF assms, of "length (active ps) - 1"] False by (simp add: last_conv_nth)
  then show ?thesis using n l False
    by (simp add: get_perf_def get_perf_index_def get_stack_index_def STACK_N_def PERF_N_def Let_def)
qed

lemma get_perf_below:
  assumes "perf_inv ps" and "active ps = st @ [t]"
  shows "get_perf ps (-2) = (if st = [] then None else Some (nat (last st)))"
proof -
  have n: "stack_len ps = int (length st) + 1" using active_length [OF assms(1)] perf_inv_bound [OF assms(1)] assms(2) by simp
  have b: "stack_len ps \<le> 20" using perf_inv_bound [OF assms(1)] by simp
  show ?thesis
  proof (cases "st = []")
    case True
    then show ?thesis using n by (simp add: get_perf_def get_perf_index_def get_stack_index_def)
  next
    case False
    have l: "pstack ps ! (length st - 1) = last st"
      using active_nth [of "length st - 1" ps] n assms(2) False by (simp add: nth_append last_conv_nth)
    have "0 \<le> last st \<and> last st < 20"
      using active_range [OF assms(1), of "length st - 1"] False assms(2) by (simp add: last_conv_nth nth_append)
    moreover have "nat (stack_len ps - 2) = length st - 1" "0 \<le> stack_len ps - 2" using n False by (cases st; simp)+
    ultimately show ?thesis using n l False b
      by (simp add: get_perf_def get_perf_index_def get_stack_index_def STACK_N_def PERF_N_def Let_def)
  qed
qed

end
