(* ===== verification/Perf_Laws.thy ===== *)
theory Perf_Laws
  imports Perf
begin

text \<open>Pushes and pops keep the invariant of the stack of meters; programs of them.\<close>

lemma perf_state_at: "perf_inv ps \<Longrightarrow> i < 20 \<Longrightarrow> p_state (perfs ps ! i) = meter_state (active ps) i"
  by (simp add: perf_inv_def PERF_N_def)

lemma perf_invI:
  assumes "perf_inv ps" and "stack_len ps' = int (length st)" and "length st \<le> 20" and "length (pstack ps') = 64"
    and "take (length st) (pstack ps') = st" and "distinct st" and "set st \<subseteq> {0..<20}" and "length (perfs ps') = 20"
    and "\<And>i. i < 20 \<Longrightarrow> p_state (perfs ps' ! i) = meter_state st i"
  shows "perf_inv ps' \<and> active ps' = st"
proof -
  have "active ps' = st" using assms(2,5) by (simp add: active_def)
  then show ?thesis using assms by (simp add: perf_inv_def STACK_N_def PERF_N_def)
qed

lemma on_perf_state:
  assumes "op (perfs ps ! i) = Inr p" and "i < length (perfs ps)"
  shows "on_perf op i ps = Inr (ps\<lparr>perfs := (perfs ps)[i := p]\<rparr>)"
  using assms by (simp add: on_perf_def)

lemma perf_push_runs:
  assumes "perf_inv ps" and "0 \<le> t" and "t < 20" and "t \<notin> set (active ps)"
  shows "\<exists>ps'. perf_push D (Some t1) (Some t2) t ps = Inr ps' \<and> perf_inv ps' \<and> active ps' = active ps @ [t]"
proof -
  note b = perf_inv_bound [OF assms(1)] and al = active_length [OF assms(1)]
  let ?st = "active ps"
  have full: "length ?st < 20"
  proof -
    have "card (insert t (set ?st)) \<le> card {0..<20 :: int}"
      using assms(1-3) by (intro card_mono) (auto simp: perf_inv_def PERF_N_def)
    moreover have "card (set ?st) = length ?st" using assms(1) by (intro distinct_card) (simp add: perf_inv_def)
    ultimately show ?thesis using assms(4) by simp
  qed
  define ps1 where "ps1 = ps\<lparr>pstack := (pstack ps)[nat (stack_len ps) := t], stack_len := stack_len ps + 1\<rparr>"
  have n: "stack_len ps = int (length ?st)" using b al by simp
  have "take (nat (stack_len ps)) (pstack ps) = ?st" by (simp only: active_def)
  then have tk0: "take (length ?st) (pstack ps) = ?st" using n by simp
  have push: "push_perf_index ps t = Inr ps1"
    using assms(2-4) b n full unfolding ps1_def
    by (simp add: push_perf_index_def get_stack_index_def STACK_N_def PERF_N_def tk0 Let_def)
  have tk: "take (length ?st + 1) ((pstack ps)[length ?st := t]) = ?st @ [t]"
  proof -
    have "length ?st < length (pstack ps)" using b full by simp
    then have "take (Suc (length ?st)) ((pstack ps)[length ?st := t]) = take (length ?st) (pstack ps) @ [t]"
      by (simp add: take_Suc_conv_app_nth)
    then show ?thesis using n tk0 by simp
  qed
  have d1: "distinct (?st @ [t])" "set (?st @ [t]) \<subseteq> {0..<20}"
    using assms by (auto simp: perf_inv_def PERF_N_def)
  have p1: "pstack ps1 = (pstack ps)[length ?st := t]" "perfs ps1 = perfs ps" "stack_len ps1 = int (length ?st) + 1"
    using n by (simp_all add: ps1_def)
  have top: "get_perf ps1 (-1) = Some (nat t)"
  proof -
    have "pstack ps1 ! nat (stack_len ps1 - 1) = t" using p1 b full by simp
    then show ?thesis using assms(2,3) p1(3) full
      by (simp add: get_perf_def get_perf_index_def get_stack_index_def STACK_N_def PERF_N_def Let_def)
  qed
  have below: "get_perf ps1 (-2) = (if ?st = [] then None else Some (nat (last ?st)))"
  proof (cases "?st = []")
    case True
    then show ?thesis using p1(3) by (simp add: get_perf_def get_perf_index_def get_stack_index_def)
  next
    case False
    have e: "nat (stack_len ps1 - 2) = length ?st - 1" using p1(3) by simp
    have "pstack ps1 ! (length ?st - 1) = last ?st"
    proof -
      have "length ?st - 1 < length ?st" using False by simp
      moreover from this have "pstack ps ! (length ?st - 1) = last ?st"
        using active_nth [of "length ?st - 1" ps] n False by (simp add: last_conv_nth)
      ultimately show ?thesis unfolding p1(1) by (subst nth_list_update_neq) simp_all
    qed
    moreover have "0 \<le> last ?st \<and> last ?st < 20"
      using active_range [OF assms(1), of "length ?st - 1"] False by (simp add: last_conv_nth)
    moreover have "0 \<le> stack_len ps1 - 2" using p1(3) False by (cases ?st) auto
    ultimately show ?thesis using False p1(3) full e
      by (simp add: get_perf_def get_perf_index_def get_stack_index_def STACK_N_def PERF_N_def Let_def)
  qed
  have ti: "nat t < 20" "int (nat t) = t" using assms(2,3) by auto
  have s0: "p_state (perfs ps ! nat t) = PS_INITIAL"
    using perf_state_at [OF assms(1) ti(1)] assms(4) ti(2) by (simp add: meter_state_def)
  obtain ps2 where ps2: "(case get_perf ps1 (-2) of Some prev \<Rightarrow> on_perf (perf_interrupt D (Some t1)) prev ps1 | None \<Rightarrow> Inr ps1) = Inr ps2"
      "pstack ps2 = pstack ps1" "stack_len ps2 = stack_len ps1" "length (perfs ps2) = 20"
      "\<And>i. i < 20 \<Longrightarrow> p_state (perfs ps2 ! i) =
         (if ?st \<noteq> [] \<and> int i = last ?st then PS_METER_INTERRUPTED else p_state (perfs ps ! i))"
  proof (cases "?st = []")
    case True
    then show thesis using that [of ps1] below p1(2) b by simp
  next
    case False
    have r: "0 \<le> last ?st" "last ?st < 20"
      using active_range [OF assms(1), of "length ?st - 1"] False by (simp_all add: last_conv_nth)
    let ?p = "nat (last ?st)"
    have run: "p_state (perfs ps ! ?p) = PS_METER_RUNNING"
      using perf_state_at [OF assms(1), of ?p] r False last_in_set [OF False] by (simp add: meter_state_def)
    obtain q where q: "perf_interrupt D (Some t1) (perfs ps1 ! ?p) = Inr q" "p_state q = PS_METER_INTERRUPTED"
      using run p1(2) by (simp add: perf_interrupt_def state_must_be_def update_sofar_def)
    have "on_perf (perf_interrupt D (Some t1)) ?p ps1 = Inr (ps1\<lparr>perfs := (perfs ps1)[?p := q]\<rparr>)"
      using on_perf_state [of "perf_interrupt D (Some t1)" ps1 ?p q] q(1) p1(2) b r by simp
    moreover have "p_state ((perfs ps)[?p := q] ! i) = (if int i = last ?st then PS_METER_INTERRUPTED else p_state (perfs ps ! i))"
      if "i < 20" for i
      using that q(2) r b by (cases "i = ?p") auto
    ultimately show thesis
      using that [of "ps1\<lparr>perfs := (perfs ps1)[?p := q]\<rparr>"] below False p1(2) b by simp
  qed
  have nl: "?st \<noteq> [] \<Longrightarrow> last ?st \<noteq> t" using assms(4) last_in_set by metis
  have s2: "p_state (perfs ps2 ! nat t) = PS_INITIAL" using ps2(5) [OF ti(1)] s0 nl ti(2) by auto
  obtain q where q: "perf_start D (Some t2) (perfs ps2 ! nat t) = Inr q" "p_state q = PS_METER_RUNNING"
    using s2 by (simp add: perf_start_def state_must_be_def)
  let ?ps3 = "ps2\<lparr>perfs := (perfs ps2)[nat t := q]\<rparr>"
  have st: "on_perf (perf_start D (Some t2)) (nat t) ps2 = Inr ?ps3"
    using on_perf_state [of "perf_start D (Some t2)" ps2 "nat t" q] q(1) ps2(4) ti by simp
  have push3: "perf_push D (Some t1) (Some t2) t ps = Inr ?ps3"
    using push top ps2(1) st by (simp add: perf_push_def c_assert_def metric_names_def PERF_N_def)
  have states: "p_state (perfs ?ps3 ! i) = meter_state (?st @ [t]) i" if i: "i < 20" for i
  proof (cases "int i = t")
    case True
    then show ?thesis using q(2) ps2(4) ti by (auto simp: meter_state_def)
  next
    case False
    then have "nat t \<noteq> i" using assms(2) by auto
    then have "p_state (perfs ?ps3 ! i) = p_state (perfs ps2 ! i)" by simp
    also have "\<dots> = meter_state (?st @ [t]) i"
      using ps2(5) [OF i] perf_state_at [OF assms(1) i] False last_in_set [of ?st] by (auto simp: meter_state_def)
    finally show ?thesis .
  qed
  have "perf_inv ?ps3 \<and> active ?ps3 = ?st @ [t]"
    using d1 full b tk ps2(2-4) p1 states by (intro perf_invI [OF assms(1)]) auto
  then show ?thesis using push3 by blast
qed

lemma perf_pop_runs:
  assumes "perf_inv ps" and "active ps = st @ [t]"
  shows "\<exists>ps'. perf_pop D (Some t1) (Some t2) ps = Inr ps' \<and> perf_inv ps' \<and> active ps' = st \<and>
           p_count (perfs ps' ! nat t) = dadd D (p_count (perfs ps ! nat t)) (done1 D)"
proof -
  note b = perf_inv_bound [OF assms(1)] and al = active_length [OF assms(1)]
  have n: "stack_len ps = int (length st) + 1" using b al assms(2) by simp
  have ts: "0 \<le> t" "t < 20" "t \<notin> set st" "distinct st" "set st \<subseteq> {0..<20}"
    using assms by (auto simp: perf_inv_def PERF_N_def)
  have ti: "nat t < 20" "int (nat t) = t" using ts by auto
  have top: "get_perf ps (-1) = Some (nat t)" using get_perf_top [OF assms(1)] assms(2) by simp
  note below = get_perf_below [OF assms]
  have run: "p_state (perfs ps ! nat t) = PS_METER_RUNNING"
    using perf_state_at [OF assms(1) ti(1)] assms(2) ti(2) by (simp add: meter_state_def)
  obtain q where q: "perf_stop D (Some t1) (perfs ps ! nat t) = Inr q" "p_state q = PS_INITIAL"
      "p_count q = dadd D (p_count (perfs ps ! nat t)) (done1 D)"
    using run by (auto simp: perf_stop_def state_must_be_def update_sofar_def Let_def)
  define ps1 where "ps1 = ps\<lparr>perfs := (perfs ps)[nat t := q]\<rparr>"
  have ps1_pstack: "pstack ps1 = pstack ps" "stack_len ps1 = stack_len ps" by (simp_all add: ps1_def)
  have g0: "get_perf ps1 d = get_perf ps d" for d
  proof -
    have e: "stack_len ps1 = stack_len ps" "pstack ps1 = pstack ps" by (simp_all add: ps1_def)
    show ?thesis unfolding get_perf_def get_perf_index_def get_stack_index_def e ..
  qed
  have stop: "on_perf (perf_stop D (Some t1)) (nat t) ps = Inr ps1"
    using on_perf_state [of "perf_stop D (Some t1)" ps "nat t" q] q(1) b ti by (simp add: ps1_def)
  obtain ps2 where ps2: "(case get_perf ps1 (-2) of Some prev \<Rightarrow> on_perf (perf_resume (Some t2)) prev ps1 | None \<Rightarrow> Inr ps1) = Inr ps2"
      "pstack ps2 = pstack ps" "stack_len ps2 = stack_len ps" "length (perfs ps2) = 20"
      "\<And>i. i < 20 \<Longrightarrow> p_state (perfs ps2 ! i) =
         (if st \<noteq> [] \<and> int i = last st then PS_METER_RUNNING else p_state (perfs ps1 ! i))"
      "perfs ps2 ! nat t = q"
  proof (cases "st = []")
    case True
    have "get_perf ps1 (-2) = None" using below True by (simp add: g0)
    then show thesis using that [of ps1] True b ti by (simp add: ps1_def)
  next
    case False
    have r: "0 \<le> last st" "last st < 20" "last st \<noteq> t" using ts(3,5) last_in_set [OF False] by auto
    let ?p = "nat (last st)"
    have g: "get_perf ps1 (-2) = Some ?p"
      using below False by (simp add: g0)
    have ne: "?p \<noteq> nat t" using r ts(1) by simp
    have s: "p_state (perfs ps1 ! ?p) = PS_METER_INTERRUPTED"
      using perf_state_at [OF assms(1), of ?p] r assms(2) last_in_set [OF False] ne by (simp add: meter_state_def ps1_def)
    obtain u where u: "perf_resume (Some t2) (perfs ps1 ! ?p) = Inr u" "p_state u = PS_METER_RUNNING"
      using s by (simp add: perf_resume_def state_must_be_def)
    have l: "length (perfs ps1) = 20" using b by (simp add: ps1_def)
    have "on_perf (perf_resume (Some t2)) ?p ps1 = Inr (ps1\<lparr>perfs := (perfs ps1)[?p := u]\<rparr>)"
      using on_perf_state [of "perf_resume (Some t2)" ps1 ?p u] u(1) l r by simp
    moreover have "perfs ps1 ! nat t = q" using b ti by (simp add: ps1_def)
    moreover have "p_state ((perfs ps1)[?p := u] ! i) = (if int i = last st then PS_METER_RUNNING else p_state (perfs ps1 ! i))"
      if "i < 20" for i
      using that u(2) r l by (cases "i = ?p") auto
    ultimately show thesis
      using that [of "ps1\<lparr>perfs := (perfs ps1)[?p := u]\<rparr>"] g False l ne by (simp add: ps1_pstack)
  qed
  let ?ps3 = "ps2\<lparr>stack_len := int (length st)\<rparr>"
  have len: "length st < 20" using b n by simp
  have pop: "pop_perf_index ps2 = Inr ?ps3"
    using ps2(3) n len by (simp add: pop_perf_index_def get_stack_index_def STACK_N_def Let_def)
  have p: "perf_pop D (Some t1) (Some t2) ps = Inr ?ps3"
    using top stop ps2(1) [unfolded g0] pop by (simp add: perf_pop_def)
  have tk: "take (length st) (pstack ps) = st"
  proof -
    have "take (nat (stack_len ps)) (pstack ps) = st @ [t]" using assms(2) by (simp only: active_def)
    then have "take (length st) (take (length st + 1) (pstack ps)) = take (length st) (st @ [t])"
      using n by (simp add: nat_add_distrib)
    then show ?thesis by (simp add: min_def)
  qed
  have states: "p_state (perfs ?ps3 ! i) = meter_state st i" if i: "i < 20" for i
  proof (cases "int i = t")
    case True
    then have "i = nat t" by simp
    then show ?thesis using ps2(6) q(2) True ts(3) by (simp add: meter_state_def)
  next
    case False
    then have "p_state (perfs ps1 ! i) = p_state (perfs ps ! i)" using ts(1) by (auto simp: ps1_def nth_list_update)
    then show ?thesis using ps2(5) [OF i] perf_state_at [OF assms(1) i] assms(2) False last_in_set [of st]
      by (auto simp: meter_state_def)
  qed
  have "perf_inv ?ps3 \<and> active ?ps3 = st"
    using ts(4,5) len b ps2(2,4) tk states by (intro perf_invI [OF assms(1)]) auto
  then show ?thesis using p ps2(6) q(3) by auto
qed

section \<open>Programs of pushes and pops\<close>

datatype perf_op = Push int | Pop

fun perf_run :: "'d dbl \<Rightarrow> perf_op list \<Rightarrow> (timeval \<times> timeval) list \<Rightarrow> 'd perf_set \<Rightarrow> fault + 'd perf_set" where
  "perf_run D (Push t # ops) ((t1, t2) # ts) ps = bindE (perf_push D (Some t1) (Some t2) t ps) (\<lambda>ps1. perf_run D ops ts ps1)"
| "perf_run D (Pop # ops) ((t1, t2) # ts) ps = bindE (perf_pop D (Some t1) (Some t2) ps) (\<lambda>ps1. perf_run D ops ts ps1)"
| "perf_run D _ _ ps = Inr ps"

text \<open>The specification: a stack of distinct metrics.\<close>

fun stack_run :: "perf_op list \<Rightarrow> int list \<Rightarrow> int list option" where
  "stack_run [] st = Some st"
| "stack_run (Push t # ops) st = (if 0 \<le> t \<and> t < 20 \<and> t \<notin> set st then stack_run ops (st @ [t]) else None)"
| "stack_run (Pop # ops) st = (if st = [] then None else stack_run ops (butlast st))"

lemma perf_push_fails:
  assumes "perf_inv ps" and "\<not> (0 \<le> t \<and> t < 20 \<and> t \<notin> set (active ps))"
  shows "perf_push D t1 t2 t ps = Inl Fatal"
proof -
  note b = perf_inv_bound [OF assms(1)] and al = active_length [OF assms(1)]
  have "take (nat (stack_len ps)) (pstack ps) = active ps" by (simp only: active_def)
  then have "push_perf_index ps t = Inl Fatal"
    using assms(2) b by (auto simp: push_perf_index_def get_stack_index_def STACK_N_def PERF_N_def Let_def)
  then show ?thesis by (simp add: perf_push_def c_assert_def metric_names_def PERF_N_def)
qed

section \<open>Properties\<close>

text \<open>
  C24: The meters refine a stack of distinct metrics: a program of pushes and pops runs exactly when no
  metric is entered twice and no pop finds the stack empty; then only the top meter runs, the ones below
  it are interrupted and all others are idle, so that no meter is ever found in a bad state.
\<close>

theorem perf_refines_stack:
  assumes "perf_inv ps" and "length ts = length ops"
  shows "case stack_run ops (active ps) of
           None \<Rightarrow> \<exists>e. perf_run D ops ts ps = Inl e
         | Some st \<Rightarrow> \<exists>ps'. perf_run D ops ts ps = Inr ps' \<and> perf_inv ps' \<and> active ps' = st"
  using assms
proof (induction ops arbitrary: ts ps)
  case (Cons op ops)
  obtain t1 t2 ts' where ts: "ts = (t1, t2) # ts'" "length ts' = length ops" using Cons.prems(2) by (cases ts) auto
  show ?case
  proof (cases op)
    case (Push t)
    show ?thesis
    proof (cases "0 \<le> t \<and> t < 20 \<and> t \<notin> set (active ps)")
      case True
      obtain ps1 where "perf_push D (Some t1) (Some t2) t ps = Inr ps1" "perf_inv ps1" "active ps1 = active ps @ [t]"
        using perf_push_runs [OF Cons.prems(1)] True by blast
      then show ?thesis using Cons.IH [of ps1 ts'] True unfolding Push ts(1) by (auto simp: ts(2) split: option.splits)
    next
      case False
      then show ?thesis using perf_push_fails [OF Cons.prems(1) False] ts Push by auto
    qed
  next
    case Pop
    show ?thesis
    proof (cases "active ps = []")
      case True
      have "get_perf ps (-1) = None" using get_perf_top [OF Cons.prems(1)] True by simp
      then show ?thesis using True ts Pop by (simp add: perf_pop_def)
    next
      case False
      then have a: "active ps = butlast (active ps) @ [last (active ps)]" by simp
      obtain ps1 where "perf_pop D (Some t1) (Some t2) ps = Inr ps1" "perf_inv ps1" "active ps1 = butlast (active ps)"
        using perf_pop_runs [OF Cons.prems(1) a] by blast
      then show ?thesis using Cons.IH [of ps1 ts'] False unfolding Pop ts(1) by (auto simp: ts(2) split: option.splits)
    qed
  qed
qed simp

text \<open>Doubles as whole microseconds.\<close>

definition example_dbl :: "int dbl" where
  "example_dbl = \<lparr>dzero = 0, done1 = 1000000, dadd = (+), dgreater = (\<lambda>a b. a > b), of_us = id\<rparr>"

theorem perf_refines_stack_witness:
  "\<exists>ps'. perf_run example_dbl [Push 6, Push 5, Pop] [(Timeval 1 0, Timeval 1 0), (Timeval 2 0, Timeval 2 0), (Timeval 3 0, Timeval 3 0)]
     (perf_set_init example_dbl) = Inr ps' \<and> active ps' = [6]"
proof -
  have a: "active (perf_set_init example_dbl) = []" by (simp add: active_def perf_set_init_def)
  have s: "stack_run [Push 6, Push 5, Pop] (active (perf_set_init example_dbl)) = Some [6]" by (simp add: a)
  show ?thesis using perf_refines_stack [OF perf_inv_init [of example_dbl], of
      "[(Timeval 1 0, Timeval 1 0), (Timeval 2 0, Timeval 2 0), (Timeval 3 0, Timeval 3 0)]" "[Push 6, Push 5, Pop]" example_dbl] s by auto
qed

end
