(* ===== verification/Resolve.thy ===== *)
theory Resolve
  imports Addr_Text Signals Misc_Laws
begin

text \<open>
  \<open>src/Treiber/lib/socket.c\<close>: resolving names. \<open>getaddrinfo\<close> is an argument, a function of the number of the query and the query;
  \<open>get_signal\<close> another. Its results are allocated: a number names a result, and the world keeps the
  numbers that are not freed. There is always memory for the copy of a host name.
\<close>

unbundle bit_operations_syntax

section \<open>Flags\<close>

type_synonym gflags = "32 word"

definition GETADDR_RESOLVE :: gflags where "GETADDR_RESOLVE = push_bit 0 1"
definition GETADDR_FATAL :: gflags where "GETADDR_FATAL = push_bit 1 1"
definition GETADDR_HOST_ORDER :: gflags where "GETADDR_HOST_ORDER = push_bit 2 1"
definition GETADDR_MENTION_RESOLVE_RETRY :: gflags where "GETADDR_MENTION_RESOLVE_RETRY = push_bit 3 1"
definition GETADDR_FATAL_ON_SIGNAL :: gflags where "GETADDR_FATAL_ON_SIGNAL = push_bit 4 1"
definition GETADDR_WARN_ON_SIGNAL :: gflags where "GETADDR_WARN_ON_SIGNAL = push_bit 5 1"
definition GETADDR_MSG_VIRT_OUT :: gflags where "GETADDR_MSG_VIRT_OUT = push_bit 6 1"
definition GETADDR_TRY_ONCE :: gflags where "GETADDR_TRY_ONCE = push_bit 7 1"
definition GETADDR_UPDATE_MANAGEMENT_STATE :: gflags where "GETADDR_UPDATE_MANAGEMENT_STATE = push_bit 8 1"
definition GETADDR_RANDOMIZE :: gflags where "GETADDR_RANDOMIZE = push_bit 9 1"
definition GETADDR_PASSIVE :: gflags where "GETADDR_PASSIVE = push_bit 10 1"
definition GETADDR_DATAGRAM :: gflags where "GETADDR_DATAGRAM = push_bit 11 1"
definition GETADDR_CACHE_MASK :: gflags where "GETADDR_CACHE_MASK = GETADDR_DATAGRAM OR GETADDR_PASSIVE"

lemmas getaddr_flags = GETADDR_RESOLVE_def GETADDR_FATAL_def GETADDR_HOST_ORDER_def GETADDR_MENTION_RESOLVE_RETRY_def
  GETADDR_FATAL_ON_SIGNAL_def GETADDR_WARN_ON_SIGNAL_def GETADDR_MSG_VIRT_OUT_def GETADDR_TRY_ONCE_def
  GETADDR_UPDATE_MANAGEMENT_STATE_def GETADDR_RANDOMIZE_def GETADDR_PASSIVE_def GETADDR_DATAGRAM_def GETADDR_CACHE_MASK_def

definition SF_USE_IP_PKTINFO :: gflags where "SF_USE_IP_PKTINFO = push_bit 0 1"
definition SF_TCP_NODELAY :: gflags where "SF_TCP_NODELAY = push_bit 1 1"
definition SF_PORT_SHARE :: gflags where "SF_PORT_SHARE = push_bit 2 1"
definition SF_HOST_RANDOMIZE :: gflags where "SF_HOST_RANDOMIZE = push_bit 3 1"
definition SF_GETADDRINFO_DGRAM :: gflags where "SF_GETADDRINFO_DGRAM = push_bit 4 1"

definition sf2gaf :: "gflags \<Rightarrow> gflags \<Rightarrow> gflags" where
  "sf2gaf getaddr_flags sockflags =
     (if sockflags AND SF_HOST_RANDOMIZE \<noteq> 0 then getaddr_flags OR GETADDR_RANDOMIZE else getaddr_flags)"

section \<open>The resolver of the system\<close>

definition EAI_AGAIN :: int where "EAI_AGAIN = 11002"
definition EAI_FAIL :: int where "EAI_FAIL = 11003"

record gai_query =
  gq_host :: "cstr option"
  gq_serv :: "cstr option"
  gq_family :: int
  gq_numeric :: bool
  gq_passive :: bool
  gq_dgram :: bool

text \<open>An element of a result: the address with the kind of socket and the protocol it is for.\<close>

record resolved =
  ra_info :: addrinfo
  ra_socktype :: int
  ra_protocol :: int

text \<open>A pointer to such a list: the number of the allocation and the list.\<close>

type_synonym ai_ptr = "nat \<times> resolved list"

text \<open>The answer of a query: an error number, or addresses. \<open>ne_signal\<close> is what \<open>get_signal\<close> stores after a query.\<close>

record net_env =
  ne_lookup :: "nat \<Rightarrow> gai_query \<Rightarrow> int + resolved list"
  ne_signal :: "nat \<Rightarrow> int"
  ne_randomize :: "cstr \<Rightarrow> cstr"

record net_world =
  nw_queries :: nat
  nw_slept :: nat
  nw_next :: nat
  nw_live :: "nat set"

definition getaddrinfo :: "net_env \<Rightarrow> gai_query \<Rightarrow> net_world \<Rightarrow> int \<times> ai_ptr option \<times> net_world" where
  "getaddrinfo env q w =
     (let w1 = w\<lparr>nw_queries := nw_queries w + 1\<rparr>
      in case ne_lookup env (nw_queries w) q of
           Inl e \<Rightarrow> (e, None, w1)
         | Inr l \<Rightarrow> (0, Some (nw_next w, l), w1\<lparr>nw_next := nw_next w + 1, nw_live := insert (nw_next w) (nw_live w)\<rparr>))"

definition freeaddrinfo :: "ai_ptr option \<Rightarrow> net_world \<Rightarrow> fault + net_world" where
  "freeaddrinfo ai w =
     (case ai of
        None \<Rightarrow> Inr w
      | Some (k, l) \<Rightarrow> if k \<in> nw_live w then Inr (w\<lparr>nw_live := nw_live w - {k}\<rparr>) else Inl MemFault)"

section \<open>Resolving with retries\<close>

definition fail_wait_interval :: nat where "fail_wait_interval = 5"

text \<open>
  The loop; \<open>sig\<close> is \<open>*signal_received\<close>, \<open>None\<close> for a NULL pointer. The result is the status, the addresses, the
  signal and the world.
\<close>

function gai_loop ::
  "net_env \<Rightarrow> gai_query \<Rightarrow> bool \<Rightarrow> int \<Rightarrow> int option \<Rightarrow> net_world \<Rightarrow> fault + int \<times> ai_ptr option \<times> int option \<times> net_world" where
  "gai_loop env q fatal resolve_retries sig w =
     (let (status, res, w1) = getaddrinfo env q w;
          sig1 = map_option (\<lambda>_. ne_signal env (nw_queries w)) sig
      in if sig1 \<noteq> None \<and> sig1 \<noteq> Some 0 \<and> sig1 \<noteq> Some SIGUSR1
         then if status = 0 then bindE (freeaddrinfo res w1) (\<lambda>w2. Inr (EAI_AGAIN, None, sig1, w2))
              else Inr (status, res, sig1, w1)
         else let sig2 = map_option (\<lambda>_. 0) sig1
              in if status = 0 then Inr (status, res, sig2, w1)
                 else if fatal \<and> \<not> resolve_retries > 0 then Inl Fatal
                 else if resolve_retries - 1 \<le> 0 then Inr (status, res, sig2, w1)
                 else gai_loop env q fatal (resolve_retries - 1) sig2 (w1\<lparr>nw_slept := nw_slept w1 + fail_wait_interval\<rparr>))"
  by pat_completeness auto
termination by (relation "measure (\<lambda>(env, q, fatal, r, sig, w). nat r)") auto

declare gai_loop.simps [simp del]

definition openvpn_getaddrinfo ::
  "net_env \<Rightarrow> gflags \<Rightarrow> cstr option \<Rightarrow> cstr option \<Rightarrow> int \<Rightarrow> int option \<Rightarrow> int \<Rightarrow> net_world \<Rightarrow>
     fault + int \<times> ai_ptr option \<times> int option \<times> net_world" where
  "openvpn_getaddrinfo env flags hostname servname resolve_retry_seconds sig ai_fam w =
     bindE (c_assert (hostname \<noteq> None \<or> servname \<noteq> None))
       (\<lambda>_. bindE (c_assert (flags AND GETADDR_HOST_ORDER = 0))
       (\<lambda>_. let fatal = (flags AND GETADDR_FATAL \<noteq> 0);
                sig0 = (if flags AND (GETADDR_FATAL_ON_SIGNAL OR GETADDR_WARN_ON_SIGNAL) \<noteq> 0 \<and> sig = None then Some 0 else sig);
                q = \<lparr>gq_host = hostname, gq_serv = servname, gq_family = ai_fam, gq_numeric = True,
                     gq_passive = (flags AND GETADDR_PASSIVE \<noteq> 0), gq_dgram = (flags AND GETADDR_DATAGRAM \<noteq> 0)\<rparr>;
                (status, res, w1) = getaddrinfo env q w
            in bindE (if status \<noteq> 0
                      then let resolve_retries = (if flags AND GETADDR_TRY_ONCE \<noteq> 0 then 1
                                                  else (resolve_retry_seconds + 4) div int fail_wait_interval);
                               hostname1 = (if flags AND GETADDR_RANDOMIZE \<noteq> 0 then map_option (ne_randomize env) hostname
                                            else hostname)
                           in if flags AND GETADDR_RESOLVE = 0 \<or> status = EAI_FAIL
                              then if fatal then Inl Fatal else Inr (status, res, sig0, w1)
                              else gai_loop env (q\<lparr>gq_host := hostname1, gq_numeric := False\<rparr>) fatal resolve_retries sig0 w1
                      else Inr (status, res, sig0, w1))
                 (\<lambda>(status1, res1, sig1, w2).
                    if sig1 \<noteq> None \<and> sig1 \<noteq> Some 0 \<and> flags AND GETADDR_FATAL_ON_SIGNAL \<noteq> 0 then Inl Fatal
                    else Inr (status1, res1, if sig = None then None else sig1, w2))))"

section \<open>Addresses with a prefix length\<close>

text \<open>\<open>strtoul\<close> with base 10 on a 32-bit \<open>unsigned long\<close>: the value and the rest of the text.\<close>

definition strtoul :: "cstr \<Rightarrow> nat \<times> cstr" where
  "strtoul s =
     (let t = dropWhile isspace s;
          neg = (t \<noteq> [] \<and> hd t = 45);
          u = (if t \<noteq> [] \<and> (hd t = 45 \<or> hd t = 43) then tl t else t);
          ds = takeWhile isdigit u;
          v = foldl (\<lambda>n d. 10 * n + (unat d - 48)) 0 ds
      in if ds = [] then (0, s)
         else (if v \<ge> 2 ^ 32 then 2 ^ 32 - 1 else if neg then (2 ^ 32 - v) mod 2 ^ 32 else v, dropWhile isdigit u))"

text \<open>
  The result is \<open>ret\<close>, the bytes of the network address, the number of bits (both if they are stored), the signal, and the world.
\<close>

definition get_addr_generic ::
  "net_env \<Rightarrow> int \<Rightarrow> gflags \<Rightarrow> cstr option \<Rightarrow> int \<Rightarrow> int option \<Rightarrow> net_world \<Rightarrow>
     fault + int \<times> byte list option \<times> nat option \<times> int option \<times> net_world" where
  "get_addr_generic env af flags hostname resolve_retry_seconds sig w =
     (case hostname of
        None \<Rightarrow> Inr (- 1, None, None, sig, w)
      | Some h \<Rightarrow>
          if af \<noteq> AF_INET \<and> af \<noteq> AF_INET6 then Inr (- 1, None, None, sig, w)
          else let max_bits = (if af = AF_INET then 32 else 128);
                   sep = (47 \<in> set h);
                   host = takeWhile (\<lambda>c. c \<noteq> 47) h;
                   (bits, endp) = (if sep then strtoul (tl (dropWhile (\<lambda>c. c \<noteq> 47) h)) else (if af = AF_INET then 0 else 64, []))
               in if sep \<and> (endp \<noteq> [] \<or> bits > max_bits) then Inr (- 1, None, None, sig, w)
                  else bindE (openvpn_getaddrinfo env (flags AND NOT GETADDR_HOST_ORDER) (Some host) None resolve_retry_seconds sig af w)
                    (\<lambda>(ret, ai, sig1, w1).
                       bindE (if ret = 0
                              then (case ai of
                                      Some (k, a # l) \<Rightarrow>
                                        (if af = AF_INET
                                         then bindE (sin_addr_of (ai_addr (ra_info a)))
                                                (\<lambda>b. Inr (Some (if flags AND GETADDR_HOST_ORDER \<noteq> 0 then rev b else b)))
                                         else bindE (sin6_addr_of (ai_addr (ra_info a))) (\<lambda>b. Inr (Some b)))
                                    | _ \<Rightarrow> Inl MemFault)
                              else Inr None)
                         (\<lambda>network. bindE (freeaddrinfo ai w1) (\<lambda>w2. Inr (ret, network, Some bits, sig1, w2)))))"

definition getaddr ::
  "net_env \<Rightarrow> gflags \<Rightarrow> cstr option \<Rightarrow> int \<Rightarrow> int option \<Rightarrow> net_world \<Rightarrow> fault + byte list \<times> bool \<times> int option \<times> net_world" where
  "getaddr env flags hostname resolve_retry_seconds sig w =
     bindE (get_addr_generic env AF_INET flags hostname resolve_retry_seconds sig w)
       (\<lambda>(status, addr, bits, sig1, w1).
          Inr (if status = 0 then (case addr of Some a \<Rightarrow> a | None \<Rightarrow> []) else [0, 0, 0, 0], status = 0, sig1, w1))"

definition get_ipv6_addr ::
  "net_env \<Rightarrow> cstr option \<Rightarrow> net_world \<Rightarrow> fault + (byte list option \<times> nat option) option \<times> net_world" where
  "get_ipv6_addr env hostname w =
     bindE (get_addr_generic env AF_INET6 GETADDR_RESOLVE hostname 0 None w)
       (\<lambda>(status, addr, bits, sig, w1). Inr (if status < 0 then None else Some (addr, bits), w1))"

section \<open>The cache of resolved names\<close>

record cached_dns_entry =
  cd_hostname :: "cstr option"
  cd_servname :: "cstr option"
  cd_ai_family :: int
  cd_flags :: gflags
  cd_ai :: "ai_ptr option"

definition streqnull :: "cstr option \<Rightarrow> cstr option \<Rightarrow> bool" where
  "streqnull a b = (case a of None \<Rightarrow> (case b of None \<Rightarrow> True | Some t \<Rightarrow> False)
                            | Some s \<Rightarrow> (case b of None \<Rightarrow> False | Some t \<Rightarrow> s = t))"

fun get_cached_dns_entry ::
  "cached_dns_entry list \<Rightarrow> cstr option \<Rightarrow> cstr option \<Rightarrow> int \<Rightarrow> gflags \<Rightarrow> int \<times> ai_ptr option" where
  "get_cached_dns_entry [] hostname servname fam resolve_flags = (- 1, None)"
| "get_cached_dns_entry (ph # rest) hostname servname fam resolve_flags =
     (if streqnull (cd_hostname ph) hostname \<and> streqnull (cd_servname ph) servname \<and> cd_ai_family ph = fam \<and>
         cd_flags ph = resolve_flags AND GETADDR_CACHE_MASK
      then (0, cd_ai ph)
      else get_cached_dns_entry rest hostname servname fam resolve_flags)"

text \<open>The new entry is cleared before some of its members are set, \<open>ai_family\<close> is not one of them.\<close>

definition do_preresolve_host ::
  "net_env \<Rightarrow> int \<Rightarrow> cached_dns_entry list \<Rightarrow> cstr option \<Rightarrow> cstr option \<Rightarrow> int \<Rightarrow> gflags \<Rightarrow> net_world \<Rightarrow>
     fault + int \<times> cached_dns_entry list \<times> net_world" where
  "do_preresolve_host env resolve_retry_seconds cache hostname servname af flags w =
     (if fst (get_cached_dns_entry cache hostname servname af flags) = 0 then Inr (0, cache, w)
      else bindE (openvpn_getaddrinfo env flags hostname servname resolve_retry_seconds None af w)
        (\<lambda>(status, ai, sig, w1).
           if status = 0
           then let ph = \<lparr>cd_hostname = hostname, cd_servname = servname, cd_ai_family = 0,
                          cd_flags = flags AND GETADDR_CACHE_MASK, cd_ai = ai\<rparr>
                in Inr (status, cache @ [ph], w1)
           else Inr (status, cache, w1)))"

text \<open>\<open>struct connection_entry\<close>, as far as it is read. The second component of a proxy is its port.\<close>

record connection_entry =
  ce_proto :: int
  ce_af :: int
  ce_remote :: "cstr option"
  ce_remote_port :: "cstr option"
  ce_http_proxy :: "(cstr option \<times> cstr option) option"
  ce_socks_proxy :: "(cstr \<times> cstr option) option"
  ce_bind_local :: bool
  ce_local :: "cstr option"
  ce_local_port :: "cstr option"

definition preresolve_flags :: gflags where
  "preresolve_flags = GETADDR_RESOLVE OR GETADDR_UPDATE_MANAGEMENT_STATE OR GETADDR_MENTION_RESOLVE_RETRY OR GETADDR_FATAL"

text \<open>A step that is done only if the status so far is 0 and the condition holds.\<close>

definition preresolve_if ::
  "bool \<Rightarrow> (cached_dns_entry list \<Rightarrow> net_world \<Rightarrow> fault + int \<times> cached_dns_entry list \<times> net_world) \<Rightarrow>
     int \<times> cached_dns_entry list \<times> net_world \<Rightarrow> fault + int \<times> cached_dns_entry list \<times> net_world" where
  "preresolve_if c f s = (case s of (status, cache, w) \<Rightarrow> if status = 0 \<and> c then f cache w else Inr s)"

definition preresolve_entry ::
  "net_env \<Rightarrow> int \<Rightarrow> gflags \<Rightarrow> cstr option \<Rightarrow> connection_entry \<Rightarrow> cached_dns_entry list \<Rightarrow> net_world \<Rightarrow>
     fault + int \<times> cached_dns_entry list \<times> net_world" where
  "preresolve_entry env secs sockflags hint ce cache w =
     bindE (proto_is_dgram (ce_proto ce))
       (\<lambda>dgram. let flags = (if dgram then preresolve_flags OR GETADDR_DATAGRAM else preresolve_flags);
                    flags1 = (if sockflags AND SF_HOST_RANDOMIZE \<noteq> 0 then flags OR GETADDR_RANDOMIZE else flags);
                    remote = (if hint \<noteq> None then hint else ce_remote ce)
        in bindE (preresolve_if (ce_http_proxy ce = None)
                    (\<lambda>cache w. do_preresolve_host env secs cache remote (ce_remote_port ce) (ce_af ce) flags1 w) (0, cache, w))
          (\<lambda>s1. bindE (preresolve_if (ce_http_proxy ce \<noteq> None)
                    (\<lambda>cache w. case ce_http_proxy ce of
                                 Some (server, port) \<Rightarrow> do_preresolve_host env secs cache server port (ce_af ce) preresolve_flags w
                               | None \<Rightarrow> Inr (0, cache, w)) s1)
          (\<lambda>s2. bindE (preresolve_if (ce_socks_proxy ce \<noteq> None)
                    (\<lambda>cache w. case ce_socks_proxy ce of
                                 Some (server, port) \<Rightarrow> do_preresolve_host env secs cache (Some server) port (ce_af ce) flags1 w
                               | None \<Rightarrow> Inr (0, cache, w)) s2)
          (\<lambda>s3. preresolve_if (ce_bind_local ce)
                    (\<lambda>cache w. do_preresolve_host env secs cache (ce_local ce) (ce_local_port ce) (ce_af ce)
                                 ((flags1 OR GETADDR_PASSIVE) AND NOT GETADDR_RANDOMIZE) w) s3))))"

text \<open>The first component of the result tells whether a restart signal is thrown.\<close>

fun do_preresolve ::
  "net_env \<Rightarrow> int \<Rightarrow> gflags \<Rightarrow> cstr option \<Rightarrow> connection_entry list \<Rightarrow> cached_dns_entry list \<Rightarrow> net_world \<Rightarrow>
     fault + bool \<times> cached_dns_entry list \<times> net_world" where
  "do_preresolve env secs sockflags hint [] cache w = Inr (False, cache, w)"
| "do_preresolve env secs sockflags hint (ce # rest) cache w =
     bindE (preresolve_entry env secs sockflags hint ce cache w)
       (\<lambda>(status, cache1, w1). if status \<noteq> 0 then Inr (True, cache1, w1)
                               else do_preresolve env secs sockflags hint rest cache1 w1)"

section \<open>Queries end\<close>

definition net_ok :: "net_world \<Rightarrow> bool" where "net_ok w \<longleftrightarrow> (\<forall>k \<in> nw_live w. k < nw_next w)"

text \<open>What holds of a result: it is a new allocation if the status is 0, and otherwise there is none.\<close>

definition gai_result :: "net_world \<Rightarrow> int \<Rightarrow> ai_ptr option \<Rightarrow> net_world \<Rightarrow> bool" where
  "gai_result w status res w' \<longleftrightarrow>
     net_ok w' \<and> nw_next w \<le> nw_next w' \<and>
     (if status = 0 then \<exists>k l. res = Some (k, l) \<and> nw_next w \<le> k \<and> nw_live w' = insert k (nw_live w)
      else res = None \<and> nw_live w' = nw_live w)"

definition answers_ok :: "net_env \<Rightarrow> bool" where "answers_ok env \<longleftrightarrow> (\<forall>n q. ne_lookup env n q \<noteq> Inl 0)"

lemma getaddrinfo_result:
  assumes "getaddrinfo env q w = (status, res, w1)" and "answers_ok env" and "net_ok w"
  shows "gai_result w status res w1" and "nw_queries w1 = nw_queries w + 1" and "nw_slept w1 = nw_slept w"
    and "status = 0 \<Longrightarrow> \<exists>w2. freeaddrinfo res w1 = Inr w2 \<and> nw_live w2 = nw_live w \<and> nw_next w \<le> nw_next w2 \<and> net_ok w2 \<and>
           nw_queries w2 = nw_queries w1 \<and> nw_slept w2 = nw_slept w1"
proof -
  have "nw_next w \<notin> nw_live w" using assms(3) by (auto simp: net_ok_def)
  moreover have "ne_lookup env (nw_queries w) q \<noteq> Inl 0" using assms(2) by (simp add: answers_ok_def)
  ultimately show "gai_result w status res w1" "nw_queries w1 = nw_queries w + 1" "nw_slept w1 = nw_slept w"
    "status = 0 \<Longrightarrow> \<exists>w2. freeaddrinfo res w1 = Inr w2 \<and> nw_live w2 = nw_live w \<and> nw_next w \<le> nw_next w2 \<and> net_ok w2 \<and>
       nw_queries w2 = nw_queries w1 \<and> nw_slept w2 = nw_slept w1"
    using assms(1,3)
    by (auto simp: getaddrinfo_def gai_result_def freeaddrinfo_def net_ok_def Let_def less_Suc_eq split: sum.splits)
qed

text \<open>The bound on queries and on the time slept after some tries.\<close>

definition within :: "nat \<Rightarrow> net_world \<Rightarrow> net_world \<Rightarrow> bool" where
  "within n w w' \<longleftrightarrow> nw_queries w' \<le> nw_queries w + n \<and> nw_slept w' \<le> nw_slept w + 5 * (n - 1)"

lemma gai_loop_ends:
  assumes "answers_ok env" and "net_ok w"
  shows "case gai_loop env q fatal r sig w of
           Inl f \<Rightarrow> f = Fatal \<and> fatal
         | Inr (status, res, sig', w') \<Rightarrow> gai_result w status res w' \<and> within (max 1 (nat r)) w w' \<and> (sig' = None \<longleftrightarrow> sig = None)"
  using assms
proof (induction env q fatal r sig w rule: gai_loop.induct)
  case (1 env q fatal r sig w)
  obtain status res w1 where g: "getaddrinfo env q w = (status, res, w1)" by (cases "getaddrinfo env q w")
  note gr = getaddrinfo_result [OF g 1(2,3)]
  define sig1 where "sig1 = map_option (\<lambda>_. ne_signal env (nw_queries w)) sig"
  have s1: "sig1 = None \<longleftrightarrow> sig = None" by (simp add: sig1_def)
  have w1: "within (max 1 (nat r)) w w1" using gr(2,3) by (simp add: within_def)
  consider (sig) "sig1 \<noteq> None \<and> sig1 \<noteq> Some 0 \<and> sig1 \<noteq> Some SIGUSR1"
    | (ok) "\<not> (sig1 \<noteq> None \<and> sig1 \<noteq> Some 0 \<and> sig1 \<noteq> Some SIGUSR1)" "status = 0"
    | (fail) "\<not> (sig1 \<noteq> None \<and> sig1 \<noteq> Some 0 \<and> sig1 \<noteq> Some SIGUSR1)" "status \<noteq> 0" "fatal \<and> \<not> r > 0"
    | (finish) "\<not> (sig1 \<noteq> None \<and> sig1 \<noteq> Some 0 \<and> sig1 \<noteq> Some SIGUSR1)" "status \<noteq> 0" "\<not> (fatal \<and> \<not> r > 0)" "r - 1 \<le> 0"
    | (again) "\<not> (sig1 \<noteq> None \<and> sig1 \<noteq> Some 0 \<and> sig1 \<noteq> Some SIGUSR1)" "status \<noteq> 0" "\<not> (fatal \<and> \<not> r > 0)" "\<not> r - 1 \<le> 0"
    by blast
  then show ?case
  proof cases
    case sig
    show ?thesis
    proof (cases "status = 0")
      case True
      then obtain w2 where w2: "freeaddrinfo res w1 = Inr w2" "nw_live w2 = nw_live w" "nw_next w \<le> nw_next w2" "net_ok w2"
          "nw_queries w2 = nw_queries w1" "nw_slept w2 = nw_slept w1" using gr(4) by blast
      have "gai_loop env q fatal r sig w = Inr (EAI_AGAIN, None, sig1, w2)"
        by (subst gai_loop.simps) (simp only: g Let_def prod.case sig1_def [symmetric] sig True w2(1) bindE_simps if_True simp_thms)
      then show ?thesis using w2 w1 s1 by (simp add: gai_result_def EAI_AGAIN_def within_def)
    next
      case False
      have "gai_loop env q fatal r sig w = Inr (status, res, sig1, w1)"
        by (subst gai_loop.simps) (simp only: g Let_def prod.case sig1_def [symmetric] sig False if_True if_False simp_thms)
      then show ?thesis using gr(1) w1 s1 by simp
    qed
  next
    case ok
    have "gai_loop env q fatal r sig w = Inr (status, res, map_option (\<lambda>_. 0) sig1, w1)"
      by (subst gai_loop.simps) (simp only: g Let_def prod.case sig1_def [symmetric] ok if_True if_False simp_thms)
    then show ?thesis using gr(1) w1 s1 by simp
  next
    case fail
    have "gai_loop env q fatal r sig w = Inl Fatal"
      by (subst gai_loop.simps) (simp only: g Let_def prod.case sig1_def [symmetric] fail if_True if_False simp_thms)
    then show ?thesis using fail by simp
  next
    case finish
    have "gai_loop env q fatal r sig w = Inr (status, res, map_option (\<lambda>_. 0) sig1, w1)"
      by (subst gai_loop.simps) (simp only: g Let_def prod.case sig1_def [symmetric] finish if_True if_False simp_thms)
    then show ?thesis using gr(1) w1 s1 by simp
  next
    case again
    let ?sig2 = "map_option (\<lambda>_. 0 :: int) sig1" and ?w1 = "w1\<lparr>nw_slept := nw_slept w1 + fail_wait_interval\<rparr>"
    have st: "gai_loop env q fatal r sig w = gai_loop env q fatal (r - 1) ?sig2 ?w1"
      by (subst gai_loop.simps) (simp only: g Let_def prod.case sig1_def [symmetric] again if_True if_False simp_thms)
    have l: "res = None" "nw_live w1 = nw_live w" "net_ok w1" "nw_next w \<le> nw_next w1" using gr(1) again(2) by (simp_all add: gai_result_def)
    have ok: "net_ok ?w1" using l(3) by (simp add: net_ok_def)
    have n: "max 1 (nat r) = nat r" "max 1 (nat (r - 1)) = nat r - 1" "2 \<le> nat r" using again(4) by linarith+
    have ih: "case gai_loop env q fatal (r - 1) ?sig2 ?w1 of
           Inl f \<Rightarrow> f = Fatal \<and> fatal
         | Inr (status, res, sig', w') \<Rightarrow> gai_result ?w1 status res w' \<and> within (max 1 (nat (r - 1))) ?w1 w' \<and> (sig' = None \<longleftrightarrow> ?sig2 = None)"
      by (rule 1(1) [OF g [symmetric] refl refl sig1_def again(1) refl again(2-4) 1(2) ok])
    show ?thesis
    proof (cases "gai_loop env q fatal (r - 1) ?sig2 ?w1")
      case (Inl f)
      show ?thesis using ih unfolding st Inl by simp
    next
      case (Inr x)
      obtain st' res' sig' w' where x: "x = (st', res', sig', w')" by (cases x)
      have h: "gai_result ?w1 st' res' w'" "within (nat r - 1) ?w1 w'" "sig' = None \<longleftrightarrow> sig = None"
        using ih s1 unfolding Inr x n(2) by simp_all
      have "gai_result w st' res' w'" using h(1) l(2,4) by (auto simp: gai_result_def)
      moreover have "5 + 5 * (nat r - 1 - 1) = 5 * (nat r - 1)" using n(3) by arith
      then have "within (nat r) w w'" using h(2) gr(2,3) n(3) by (simp add: within_def fail_wait_interval_def) arith
      ultimately show ?thesis using h(3) unfolding st Inr x n by simp
    qed
  qed
qed

text \<open>The number of tries behind the first query, and what a whole resolution keeps to.\<close>

definition tries :: "gflags \<Rightarrow> int \<Rightarrow> nat" where
  "tries flags secs = max 1 (nat (if flags AND GETADDR_TRY_ONCE \<noteq> 0 then 1 else (secs + 4) div 5))"

lemma openvpn_getaddrinfo_ends:
  assumes "answers_ok env" and "net_ok w" and "hostname \<noteq> None \<or> servname \<noteq> None" and "flags AND GETADDR_HOST_ORDER = 0" and "0 \<le> secs"
  shows "case openvpn_getaddrinfo env flags hostname servname secs sig fam w of
           Inl f \<Rightarrow> f = Fatal \<and> flags AND (GETADDR_FATAL OR GETADDR_FATAL_ON_SIGNAL) \<noteq> 0
         | Inr (status, res, sig', w') \<Rightarrow>
             gai_result w status res w' \<and> nw_queries w' \<le> nw_queries w + 1 + tries flags secs \<and>
             int (nw_slept w') \<le> int (nw_slept w) + max 0 (secs - 1)"
proof -
  let ?fatal = "flags AND GETADDR_FATAL \<noteq> 0" and ?on = "flags AND (GETADDR_FATAL_ON_SIGNAL OR GETADDR_WARN_ON_SIGNAL) \<noteq> 0 \<and> sig = None"
  define sig0 where "sig0 = (if ?on then Some 0 else sig)"
  define q where "q = \<lparr>gq_host = hostname, gq_serv = servname, gq_family = fam, gq_numeric = True,
      gq_passive = (flags AND GETADDR_PASSIVE \<noteq> 0), gq_dgram = (flags AND GETADDR_DATAGRAM \<noteq> 0)\<rparr>"
  define r where "r = (if flags AND GETADDR_TRY_ONCE \<noteq> 0 then 1 else (secs + 4) div int fail_wait_interval)"
  define q1 where "q1 = q\<lparr>gq_host := if flags AND GETADDR_RANDOMIZE \<noteq> 0 then map_option (ne_randomize env) hostname else hostname,
      gq_numeric := False\<rparr>"
  obtain status res w1 where g: "getaddrinfo env q w = (status, res, w1)" by (cases "getaddrinfo env q w")
  note gr = getaddrinfo_result [OF g assms(1,2)]
  have fl: "flags AND (GETADDR_FATAL OR GETADDR_FATAL_ON_SIGNAL) \<noteq> 0 \<longleftrightarrow> ?fatal \<or> flags AND GETADDR_FATAL_ON_SIGNAL \<noteq> 0"
    by (simp add: bit.conj_disj_distrib or_eq_0_iff)
  have t: "tries flags secs = max 1 (nat r)" by (simp add: tries_def r_def fail_wait_interval_def)
  have sl: "5 * int (max 1 (nat r) - 1) \<le> max 0 (secs - 1)" using assms(5) by (auto simp: r_def fail_wait_interval_def max_def)
  define body where "body = (if status \<noteq> 0
      then if flags AND GETADDR_RESOLVE = 0 \<or> status = EAI_FAIL then if ?fatal then Inl Fatal else Inr (status, res, sig0, w1)
           else gai_loop env q1 ?fatal r sig0 w1
      else Inr (status, res, sig0, w1))"
  have b: "case body of Inl f \<Rightarrow> f = Fatal \<and> ?fatal
      | Inr (status, res, sig', w') \<Rightarrow> gai_result w status res w' \<and> nw_queries w' \<le> nw_queries w + 1 + tries flags secs \<and>
          int (nw_slept w') \<le> int (nw_slept w) + max 0 (secs - 1)"
  proof (cases "status \<noteq> 0 \<and> \<not> (flags AND GETADDR_RESOLVE = 0 \<or> status = EAI_FAIL)")
    case False
    then show ?thesis using gr by (auto simp: body_def)
  next
    case True
    then have bd: "body = gai_loop env q1 ?fatal r sig0 w1" by (simp add: body_def)
    have l: "nw_live w1 = nw_live w" "net_ok w1" "nw_next w \<le> nw_next w1" using gr(1) True by (simp_all add: gai_result_def)
    have ih: "case gai_loop env q1 ?fatal r sig0 w1 of Inl f \<Rightarrow> f = Fatal \<and> ?fatal
         | Inr (status, res, sig', w') \<Rightarrow> gai_result w1 status res w' \<and> within (max 1 (nat r)) w1 w' \<and> (sig' = None \<longleftrightarrow> sig0 = None)"
      by (rule gai_loop_ends [OF assms(1) l(2)])
    show ?thesis
    proof (cases "gai_loop env q1 ?fatal r sig0 w1")
      case (Inl f)
      show ?thesis using ih unfolding bd Inl by simp
    next
      case (Inr x)
      obtain st' res' sig' w' where x: "x = (st', res', sig', w')" by (cases x)
      have h: "gai_result w1 st' res' w'" "within (max 1 (nat r)) w1 w'" using ih by (simp_all add: Inr x)
      have "gai_result w st' res' w'" using h(1) l by (auto simp: gai_result_def)
      then show ?thesis using h(2) gr(2,3) sl unfolding bd Inr x t by (auto simp: within_def)
    qed
  qed
  have "openvpn_getaddrinfo env flags hostname servname secs sig fam w =
      bindE body (\<lambda>(status1, res1, sig1, w2).
         if sig1 \<noteq> None \<and> sig1 \<noteq> Some 0 \<and> flags AND GETADDR_FATAL_ON_SIGNAL \<noteq> 0 then Inl Fatal
         else Inr (status1, res1, if sig = None then None else sig1, w2))"
    unfolding openvpn_getaddrinfo_def body_def Let_def
    by (simp only: assms(3,4) c_assert_simps bindE_simps q_def [symmetric] g prod.case sig0_def [symmetric] r_def [symmetric] q1_def [symmetric] simp_thms)
  then show ?thesis
    using b unfolding fl by (cases body) (auto split: prod.splits)
qed

end
