(* ===== verification/Win32_Events.thy ===== *)
theory Win32_Events
  imports Event_Laws Signals
begin

text \<open>
  \<open>src/Treiber/lib/win32.c\<close> and \<open>win32.h\<close>: kernel objects. Events that report the state of a socket, signals made from
  the keyboard or from an exit event, the console window, the semaphore around network commands, the DNS filters. What the
  Windows API returns is an argument; the calls that change the state of the kernel are the list an operation returns.
\<close>

unbundle bit_operations_syntax

section \<open>Handles\<close>

definition INVALID_HANDLE_VALUE :: nat where "INVALID_HANDLE_VALUE = 2 ^ 64 - 1"

definition HANDLE_DEFINED :: "nat \<Rightarrow> bool" where "HANDLE_DEFINED h \<longleftrightarrow> h \<noteq> 0 \<and> h \<noteq> INVALID_HANDLE_VALUE"

definition SOCKET_UNDEFINED :: nat where "SOCKET_UNDEFINED = 2 ^ 64 - 1"

definition socket_defined :: "nat \<Rightarrow> bool" where "socket_defined sd \<longleftrightarrow> sd \<noteq> SOCKET_UNDEFINED"

datatype win_call =
    Create_Event nat
  | Close_Handle nat
  | Set_Event nat
  | Reset_Event nat
  | Event_Select nat nat "32 word"
  | Enum_Events nat nat
  | Set_Console_Mode nat "32 word"

section \<open>Events of a socket\<close>

definition NE32_PERSIST_EVENT :: nat where "NE32_PERSIST_EVENT = push_bit 0 1"
definition NE32_WRITE_EVENT :: nat where "NE32_WRITE_EVENT = push_bit 1 1"
definition FD_WRITE :: "32 word" where "FD_WRITE = 2"

definition defined_net_event_win32 :: "rw_handle \<Rightarrow> bool" where "defined_net_event_win32 ev \<longleftrightarrow> rwh_read ev \<noteq> 0"

text \<open>\<open>wh\<close> and \<open>rh\<close> are the handles \<open>CreateEvent\<close> gives, \<open>sel\<close> tells whether \<open>WSAEventSelect\<close> succeeds.\<close>

definition init_net_event_win32 ::
  "nat \<Rightarrow> nat \<Rightarrow> bool \<Rightarrow> rw_handle \<Rightarrow> 32 word \<Rightarrow> nat \<Rightarrow> nat \<Rightarrow> fault + rw_handle \<times> win_call list" where
  "init_net_event_win32 wh rh sel ev network_events sd flags =
     bindE (if flags AND NE32_PERSIST_EVENT = 0 \<or> rwh_write ev = 0
            then if flags AND NE32_WRITE_EVENT \<noteq> 0
                 then if wh = 0 then Inl Fatal else Inr (ev\<lparr>rwh_write := wh\<rparr>, [Create_Event wh])
                 else Inr (ev\<lparr>rwh_write := 0\<rparr>, [])
            else Inr (ev, []))
       (\<lambda>(ev1, cs1). bindE (if flags AND NE32_PERSIST_EVENT = 0 \<or> rwh_read ev1 = 0
                            then if rh = 0 then Inl Fatal else Inr (ev1\<lparr>rwh_read := rh\<rparr>, [Create_Event rh])
                            else Inr (ev1, []))
       (\<lambda>(ev2, cs2). if sel then Inr (ev2, cs1 @ cs2 @ [Event_Select sd (rwh_read ev2) network_events]) else Inl Fatal))"

text \<open>\<open>wne\<close> is what \<open>WSAEnumNetworkEvents\<close> reports.\<close>

definition reset_net_event_win32 :: "32 word option \<Rightarrow> rw_handle \<Rightarrow> nat \<Rightarrow> fault + 32 word \<times> win_call list" where
  "reset_net_event_win32 wne ev sd =
     (case wne of None \<Rightarrow> Inl Fatal | Some e \<Rightarrow> Inr (e, [Enum_Events sd (rwh_read ev)]))"

definition close_net_event_win32 :: "rw_handle \<Rightarrow> nat \<Rightarrow> nat \<Rightarrow> rw_handle \<times> win_call list" where
  "close_net_event_win32 ev sd flags =
     (let (ev1, cs1) =
            (if rwh_read ev \<noteq> 0
             then let a = (if socket_defined sd then [Event_Select sd (rwh_read ev) 0] else []) @ [Reset_Event (rwh_read ev)]
                  in if flags AND NE32_PERSIST_EVENT = 0 then (ev\<lparr>rwh_read := 0\<rparr>, a @ [Close_Handle (rwh_read ev)]) else (ev, a)
             else (ev, []));
          (ev2, cs2) =
            (if rwh_write ev1 \<noteq> 0
             then if flags AND NE32_PERSIST_EVENT = 0
                  then (ev1\<lparr>rwh_write := 0\<rparr>, [Reset_Event (rwh_write ev1), Close_Handle (rwh_write ev1)])
                  else (ev1, [Reset_Event (rwh_write ev1)])
             else (ev1, []))
      in (ev2, cs1 @ cs2))"

record net_event_win32 =
  ne_handle :: rw_handle
  ne_sd :: nat
  ne_event_mask :: "32 word"

definition net_event_win32_defined :: "net_event_win32 \<Rightarrow> bool" where
  "net_event_win32_defined ne \<longleftrightarrow> defined_net_event_win32 (ne_handle ne)"

definition net_event_win32_init :: net_event_win32 where
  "net_event_win32_init = \<lparr>ne_handle = \<lparr>rwh_read = 0, rwh_write = 0\<rparr>, ne_sd = SOCKET_UNDEFINED, ne_event_mask = 0\<rparr>"

definition net_event_win32_start ::
  "nat \<Rightarrow> nat \<Rightarrow> bool \<Rightarrow> net_event_win32 \<Rightarrow> 32 word \<Rightarrow> nat \<Rightarrow> fault + net_event_win32 \<times> win_call list" where
  "net_event_win32_start wh rh sel ne network_events sd =
     bindE (c_assert (\<not> socket_defined (ne_sd ne)))
       (\<lambda>_. bindE (init_net_event_win32 wh rh sel (ne_handle ne) network_events sd (NE32_PERSIST_EVENT OR NE32_WRITE_EVENT))
       (\<lambda>(ev, cs). Inr (ne\<lparr>ne_sd := sd, ne_event_mask := 0, ne_handle := ev\<rparr>, cs)))"

definition net_event_win32_reset_write :: "net_event_win32 \<Rightarrow> win_call list" where
  "net_event_win32_reset_write ne =
     (if ne_event_mask ne AND FD_WRITE \<noteq> 0 then [Set_Event (rwh_write (ne_handle ne))]
      else [Reset_Event (rwh_write (ne_handle ne))])"

definition net_event_win32_reset :: "32 word option \<Rightarrow> net_event_win32 \<Rightarrow> fault + net_event_win32 \<times> win_call list" where
  "net_event_win32_reset wne ne =
     bindE (reset_net_event_win32 wne (ne_handle ne) (ne_sd ne))
       (\<lambda>(e, cs). Inr (ne\<lparr>ne_event_mask := ne_event_mask ne OR e\<rparr>, cs))"

definition net_event_win32_stop :: "net_event_win32 \<Rightarrow> net_event_win32 \<times> win_call list" where
  "net_event_win32_stop ne =
     (let (ev, cs) = (if net_event_win32_defined ne then close_net_event_win32 (ne_handle ne) (ne_sd ne) NE32_PERSIST_EVENT
                      else (ne_handle ne, []))
      in (ne\<lparr>ne_handle := ev, ne_sd := SOCKET_UNDEFINED, ne_event_mask := 0\<rparr>, cs))"

definition net_event_win32_close :: "net_event_win32 \<Rightarrow> net_event_win32 \<times> win_call list" where
  "net_event_win32_close ne =
     (let (ev, cs) = (if net_event_win32_defined ne then close_net_event_win32 (ne_handle ne) (ne_sd ne) 0
                      else (ne_handle ne, []))
      in (net_event_win32_init, cs))"

definition net_event_win32_get_event_mask :: "net_event_win32 \<Rightarrow> 32 word" where
  "net_event_win32_get_event_mask ne = ne_event_mask ne"

definition net_event_win32_clear_selected_events :: "net_event_win32 \<Rightarrow> 32 word \<Rightarrow> net_event_win32" where
  "net_event_win32_clear_selected_events ne selected = ne\<lparr>ne_event_mask := ne_event_mask ne AND NOT selected\<rparr>"

section \<open>Signals from the console or the service\<close>

definition WSO_MODE_UNDEF :: int where "WSO_MODE_UNDEF = 0"
definition WSO_MODE_SERVICE :: int where "WSO_MODE_SERVICE = 1"
definition WSO_MODE_CONSOLE :: int where "WSO_MODE_CONSOLE = 2"
definition WSO_NOFORCE :: int where "WSO_NOFORCE = 0"
definition WSO_FORCE_SERVICE :: int where "WSO_FORCE_SERVICE = 1"
definition WSO_FORCE_CONSOLE :: int where "WSO_FORCE_CONSOLE = 2"

lemmas wso_defs = WSO_MODE_UNDEF_def WSO_MODE_SERVICE_def WSO_MODE_CONSOLE_def WSO_NOFORCE_def WSO_FORCE_SERVICE_def
  WSO_FORCE_CONSOLE_def

record win32_signal =
  ws_mode :: int
  ws_in :: rw_handle
  console_mode_save :: "32 word"
  console_mode_save_defined :: bool

definition win32_signal_clear :: win32_signal where
  "win32_signal_clear = \<lparr>ws_mode = 0, ws_in = \<lparr>rwh_read = 0, rwh_write = 0\<rparr>, console_mode_save = 0,
     console_mode_save_defined = False\<rparr>"

text \<open>
  The answers of the system while signals are opened: the standard input, its console mode (if it is a console), whether the
  mode can be set, whether the security attributes can be made, the exit event, and whether the wait on it times out.
\<close>

record sig_answers =
  std_input :: nat
  console_mode :: "32 word option"
  mode_set :: bool
  attributes_ok :: bool
  exit_event :: nat
  exit_timeout :: bool

text \<open>\<open>ENABLE_WINDOW_INPUT\<close>, \<open>ENABLE_PROCESSED_INPUT\<close>, \<open>ENABLE_LINE_INPUT\<close>, \<open>ENABLE_ECHO_INPUT\<close> and \<open>ENABLE_MOUSE_INPUT\<close>.\<close>

definition console_off :: "32 word" where "console_off = 8 OR 1 OR 2 OR 4 OR 16"

definition signal_open_console ::
  "sig_answers \<Rightarrow> int \<Rightarrow> win32_signal \<Rightarrow> fault + win32_signal \<times> win_call list" where
  "signal_open_console an force ws =
     (if force = WSO_NOFORCE \<or> force = WSO_FORCE_CONSOLE
      then let ws1 = ws\<lparr>ws_in := (ws_in ws)\<lparr>rwh_read := std_input an\<rparr>\<rparr>
           in if rwh_read (ws_in ws1) \<noteq> INVALID_HANDLE_VALUE
              then case console_mode an of
                     None \<Rightarrow> Inr (ws1\<lparr>ws_in := (ws_in ws1)\<lparr>rwh_read := INVALID_HANDLE_VALUE\<rparr>\<rparr>, [])
                   | Some mode \<Rightarrow>
                       (let ws2 = ws1\<lparr>console_mode_save := mode\<rparr>; new_console_mode = mode AND NOT console_off
                        in if new_console_mode \<noteq> mode
                           then if mode_set an
                                then Inr (ws2\<lparr>console_mode_save_defined := True, ws_mode := WSO_MODE_CONSOLE\<rparr>,
                                          [Set_Console_Mode (rwh_read (ws_in ws2)) new_console_mode])
                                else Inl Fatal
                           else Inr (ws2\<lparr>ws_mode := WSO_MODE_CONSOLE\<rparr>, []))
              else Inr (ws1, [])
      else Inr (ws, []))"

definition signal_open_service ::
  "sig_answers \<Rightarrow> int \<Rightarrow> cstr option \<Rightarrow> win32_signal \<Rightarrow> fault + win32_signal \<times> win_call list" where
  "signal_open_service an force exit_event_name ws =
     (if (force = WSO_NOFORCE \<or> force = WSO_FORCE_SERVICE) \<and> \<not> HANDLE_DEFINED (rwh_read (ws_in ws)) \<and> exit_event_name \<noteq> None
      then if \<not> attributes_ok an then Inl Fatal
           else let ws1 = ws\<lparr>ws_in := (ws_in ws)\<lparr>rwh_read := exit_event an\<rparr>\<rparr>
                in if exit_event an = 0 then Inr (ws1, [])
                   else if \<not> exit_timeout an then Inl Fatal
                   else Inr (ws1\<lparr>ws_mode := WSO_MODE_SERVICE\<rparr>, [Create_Event (exit_event an)])
      else Inr (ws, []))"

definition win32_signal_open ::
  "sig_answers \<Rightarrow> int \<Rightarrow> cstr option \<Rightarrow> fault + win32_signal \<times> win_call list" where
  "win32_signal_open an force exit_event_name =
     bindE (signal_open_console an force
              (win32_signal_clear\<lparr>ws_mode := WSO_MODE_UNDEF,
                 ws_in := \<lparr>rwh_read = INVALID_HANDLE_VALUE, rwh_write = INVALID_HANDLE_VALUE\<rparr>\<rparr>))
       (\<lambda>(ws1, cs1). bindE (signal_open_service an force exit_event_name ws1)
       (\<lambda>(ws2, cs2). Inr (ws2, cs1 @ cs2)))"

definition win32_signal_close :: "bool \<Rightarrow> win32_signal \<Rightarrow> fault + win32_signal \<times> win_call list" where
  "win32_signal_close mode_ok ws =
     (let cs = (if ws_mode ws = WSO_MODE_SERVICE \<and> HANDLE_DEFINED (rwh_read (ws_in ws))
                then [Close_Handle (rwh_read (ws_in ws))] else [])
      in if console_mode_save_defined ws
         then if mode_ok then Inr (win32_signal_clear, cs @ [Set_Console_Mode (rwh_read (ws_in ws)) (console_mode_save ws)])
              else Inl Fatal
         else Inr (win32_signal_clear, cs))"

text \<open>An input record of the console, as far as it is read; \<open>None\<close> in a list is a read that fails.\<close>

record input_record =
  ir_event :: nat
  ir_down :: bool
  ir_ascii :: byte
  ir_scan :: "16 word"
  ir_vkey :: "16 word"
  ir_control :: "32 word"

definition KEY_EVENT :: nat where "KEY_EVENT = 1"

text \<open>\<open>LEFT_ALT_PRESSED\<close> and \<open>RIGHT_ALT_PRESSED\<close>.\<close>

definition alt_pressed :: "32 word" where "alt_pressed = 2 OR 1"

definition keyboard_ir_to_key :: "input_record \<Rightarrow> 32 word" where
  "keyboard_ir_to_key ir =
     (if ir_ascii ir = 0 then ucast (ir_scan ir)
      else if ir_control ir AND alt_pressed \<noteq> 0 \<and> ir_vkey ir \<noteq> 18 then ucast (ir_scan ir) * 256
      else scast (ir_ascii ir))"

definition keyboard_input_available :: "win32_signal \<Rightarrow> input_record option list \<Rightarrow> fault + bool" where
  "keyboard_input_available ws inp =
     bindE (c_assert (ws_mode ws = WSO_MODE_CONSOLE))
       (\<lambda>_. Inr (HANDLE_DEFINED (rwh_read (ws_in ws)) \<and> inp \<noteq> []))"

fun keyboard_loop :: "win32_signal \<Rightarrow> input_record option list \<Rightarrow> fault + 32 word \<times> input_record option list" where
  "keyboard_loop ws [] = bindE (keyboard_input_available ws []) (\<lambda>_. Inr (0, []))"
| "keyboard_loop ws (i # inp) =
     bindE (keyboard_input_available ws (i # inp))
       (\<lambda>avail. if \<not> avail then Inr (0, i # inp)
                else case i of
                       None \<Rightarrow> Inr (0, inp)
                     | Some ir \<Rightarrow> if ir_event ir \<noteq> KEY_EVENT \<or> \<not> ir_down ir then keyboard_loop ws inp
                                  else Inr (keyboard_ir_to_key ir, inp))"

definition win32_keyboard_get ::
  "win32_signal \<Rightarrow> input_record option list \<Rightarrow> fault + 32 word \<times> input_record option list" where
  "win32_keyboard_get ws inp =
     bindE (c_assert (ws_mode ws = WSO_MODE_CONSOLE))
       (\<lambda>_. if HANDLE_DEFINED (rwh_read (ws_in ws)) then keyboard_loop ws inp else Inr (0, inp))"

text \<open>\<open>signaled\<close> tells whether the exit event is signaled.\<close>

definition win32_service_interrupt :: "bool \<Rightarrow> win32_signal \<Rightarrow> bool" where
  "win32_service_interrupt signaled ws =
     (if ws_mode ws = WSO_MODE_SERVICE then HANDLE_DEFINED (rwh_read (ws_in ws)) \<and> signaled else False)"

definition key_signal :: "32 word \<Rightarrow> int" where
  "key_signal k =
     (if k = 0x3B then SIGUSR1
      else if k = 0x3C then SIGUSR2
      else if k = 0x3D then SIGHUP
      else if k = 0x3E then SIGTERM
      else if k = 0x03 then SIGTERM
      else 0)"

definition win32_signal_get ::
  "bool \<Rightarrow> signal_info \<Rightarrow> win32_signal \<Rightarrow> input_record option list \<Rightarrow> fault + int \<times> signal_info \<times> input_record option list" where
  "win32_signal_get signaled si ws inp =
     (if signal_received si \<noteq> 0 then Inr (signal_received si, si, inp)
      else bindE (if ws_mode ws = WSO_MODE_SERVICE then Inr (if win32_service_interrupt signaled ws then SIGTERM else 0, inp)
                  else if ws_mode ws = WSO_MODE_CONSOLE
                  then bindE (win32_keyboard_get ws inp) (\<lambda>(k, inp1). Inr (key_signal k, inp1))
                  else Inr (0, inp))
        (\<lambda>(ret, inp1). Inr (ret, if ret \<noteq> 0 then si\<lparr>signal_received := ret, si_source := SIG_SOURCE_HARD\<rparr> else si, inp1)))"

text \<open>
  \<open>win32_pause\<close> with the records that arrive during each wait; the result is \<open>None\<close> while it still waits.
\<close>

fun pause_loop :: "win32_signal \<Rightarrow> input_record option list \<Rightarrow> input_record option list list \<Rightarrow> fault + bool" where
  "pause_loop ws inp [] = Inr False"
| "pause_loop ws inp (w # waits) =
     bindE (win32_keyboard_get ws (inp @ w)) (\<lambda>(k, inp1). if k = 0 then pause_loop ws inp1 waits else Inr True)"

definition win32_pause :: "win32_signal \<Rightarrow> input_record option list list \<Rightarrow> fault + bool" where
  "win32_pause ws waits =
     (if ws_mode ws = WSO_MODE_CONSOLE \<and> HANDLE_DEFINED (rwh_read (ws_in ws)) then pause_loop ws [] waits else Inr True)"

text \<open>What wakes the event loop: the exit event, or a key press that is written to the console.\<close>

datatype wake = Wake_Event nat | Wake_Key

definition win_trigger_event :: "win32_signal \<Rightarrow> wake" where
  "win_trigger_event ws =
     (if ws_mode ws = WSO_MODE_SERVICE \<and> HANDLE_DEFINED (rwh_read (ws_in ws)) then Wake_Event (rwh_read (ws_in ws)) else Wake_Key)"

definition CTRL_C_EVENT :: nat where "CTRL_C_EVENT = 0"
definition CTRL_BREAK_EVENT :: nat where "CTRL_BREAK_EVENT = 1"

definition win_ctrl_handler :: "win32_signal \<Rightarrow> signal_info \<Rightarrow> nat \<Rightarrow> bool \<times> signal_info \<times> wake list" where
  "win_ctrl_handler ws si signum =
     (if signal_received si = SIGTERM then (True, si, [])
      else if signum = CTRL_C_EVENT \<or> signum = CTRL_BREAK_EVENT
      then (True, throw_signal si SIGTERM, [win_trigger_event ws])
      else (False, si, []))"

section \<open>Socket events do not leak\<close>

text \<open>
  An operation on the events of a socket, with the answers of the system.
\<close>

datatype ne_op =
    Ne_Start nat nat bool "32 word" nat
  | Ne_Reset_Write
  | Ne_Reset "32 word option"
  | Ne_Clear "32 word"
  | Ne_Stop
  | Ne_Close

fun ne_exec :: "ne_op \<Rightarrow> net_event_win32 \<Rightarrow> fault + net_event_win32 \<times> win_call list" where
  "ne_exec (Ne_Start wh rh sel ev sd) ne = net_event_win32_start wh rh sel ne ev sd"
| "ne_exec Ne_Reset_Write ne = Inr (ne, net_event_win32_reset_write ne)"
| "ne_exec (Ne_Reset wne) ne = net_event_win32_reset wne ne"
| "ne_exec (Ne_Clear e) ne = Inr (net_event_win32_clear_selected_events ne e, [])"
| "ne_exec Ne_Stop ne = Inr (net_event_win32_stop ne)"
| "ne_exec Ne_Close ne = Inr (net_event_win32_close ne)"

fun ne_run :: "ne_op list \<Rightarrow> net_event_win32 \<Rightarrow> fault + net_event_win32 \<times> win_call list" where
  "ne_run [] ne = Inr (ne, [])"
| "ne_run (x # xs) ne = bindE (ne_exec x ne) (\<lambda>(ne1, cs1). bindE (ne_run xs ne1) (\<lambda>(ne2, cs2). Inr (ne2, cs1 @ cs2)))"

text \<open>The handles that are open after some calls, and whether each call uses an open handle or NULL.\<close>

fun open_after :: "nat set \<Rightarrow> win_call list \<Rightarrow> nat set" where
  "open_after H [] = H"
| "open_after H (Create_Event h # cs) = open_after (insert h H) cs"
| "open_after H (Close_Handle h # cs) = open_after (H - {h}) cs"
| "open_after H (c # cs) = open_after H cs"

definition call_handle :: "win_call \<Rightarrow> nat" where
  "call_handle c = (case c of Close_Handle h \<Rightarrow> h | Set_Event h \<Rightarrow> h | Reset_Event h \<Rightarrow> h | Event_Select sd h e \<Rightarrow> h |
     Enum_Events sd h \<Rightarrow> h | _ \<Rightarrow> 0)"

fun uses_open :: "nat set \<Rightarrow> win_call list \<Rightarrow> bool" where
  "uses_open H [] = True"
| "uses_open H (c # cs) = ((call_handle c = 0 \<or> call_handle c \<in> H) \<and> uses_open (open_after H [c]) cs)"

text \<open>What the system promises: \<open>CreateEvent\<close> gives a handle that is not open.\<close>

fun creates_fresh :: "nat set \<Rightarrow> win_call list \<Rightarrow> bool" where
  "creates_fresh H [] = True"
| "creates_fresh H (c # cs) = ((case c of Create_Event h \<Rightarrow> h \<notin> H | _ \<Rightarrow> True) \<and> creates_fresh (open_after H [c]) cs)"

definition ne_handles :: "net_event_win32 \<Rightarrow> nat set" where
  "ne_handles ne = {rwh_read (ne_handle ne), rwh_write (ne_handle ne)} - {0}"

definition ne_inv :: "net_event_win32 \<Rightarrow> bool" where
  "ne_inv ne \<longleftrightarrow>
     (rwh_read (ne_handle ne) = 0 \<longleftrightarrow> rwh_write (ne_handle ne) = 0) \<and>
     (rwh_read (ne_handle ne) \<noteq> 0 \<longrightarrow> rwh_read (ne_handle ne) \<noteq> rwh_write (ne_handle ne))"

lemma open_after_append [simp]: "open_after H (as @ bs) = open_after (open_after H as) bs"
proof (induction as arbitrary: H)
  case (Cons c as)
  then show ?case by (cases c) simp_all
qed simp

lemma open_after_step: "open_after H (c # cs) = open_after (open_after H [c]) cs"
  by (cases c) simp_all

lemma uses_open_append [simp]: "uses_open H (as @ bs) \<longleftrightarrow> uses_open H as \<and> uses_open (open_after H as) bs"
  by (induction as arbitrary: H) (simp_all add: open_after_step [of _ _ "_ # _"] flip: open_after_step)

lemma creates_fresh_append [simp]: "creates_fresh H (as @ bs) \<longleftrightarrow> creates_fresh H as \<and> creates_fresh (open_after H as) bs"
  by (induction as arbitrary: H) (simp_all flip: open_after_step)

lemma flags_and: "(NE32_PERSIST_EVENT OR NE32_WRITE_EVENT) AND NE32_PERSIST_EVENT \<noteq> 0"
  "(NE32_PERSIST_EVENT OR NE32_WRITE_EVENT) AND NE32_WRITE_EVENT \<noteq> 0" "NE32_PERSIST_EVENT AND NE32_PERSIST_EVENT \<noteq> 0"
  by (simp_all add: NE32_PERSIST_EVENT_def NE32_WRITE_EVENT_def)

lemmas ne_defs = ne_handles_def ne_inv_def call_handle_def

lemma ne_start_step:
  assumes "net_event_win32_start wh rh sel ne ev sd = Inr (ne', cs)" and "ne_inv ne" and "creates_fresh (ne_handles ne) cs"
  shows "ne_inv ne' \<and> open_after (ne_handles ne) cs = ne_handles ne' \<and> uses_open (ne_handles ne) cs"
proof (cases "rwh_read (ne_handle ne) = 0")
  case True
  then have z: "rwh_write (ne_handle ne) = 0" using assms(2) by (simp add: ne_inv_def)
  have "wh \<noteq> 0" "rh \<noteq> 0" "cs = [Create_Event wh, Create_Event rh, Event_Select sd rh ev]"
    "ne' = ne\<lparr>ne_sd := sd, ne_event_mask := 0, ne_handle := \<lparr>rwh_read = rh, rwh_write = wh\<rparr>\<rparr>"
    using assms(1) True z
    by (cases "ne_handle ne"; auto simp: net_event_win32_start_def init_net_event_win32_def bindE_Inr_iff flags_and split: if_splits)+
  then show ?thesis using assms(3) True z by (auto simp: ne_defs)
next
  case False
  then have z: "rwh_write (ne_handle ne) \<noteq> 0" using assms(2) by (simp add: ne_inv_def)
  have "cs = [Event_Select sd (rwh_read (ne_handle ne)) ev]" "ne' = ne\<lparr>ne_sd := sd, ne_event_mask := 0\<rparr>"
    using assms(1) False z
    by (auto simp: net_event_win32_start_def init_net_event_win32_def bindE_Inr_iff flags_and split: if_splits)
  then show ?thesis using assms(2) False by (auto simp: ne_defs)
qed

lemma ne_close_step:
  assumes "net_event_win32_close ne = (ne', cs)" and "ne_inv ne"
  shows "ne_inv ne' \<and> open_after (ne_handles ne) cs = ne_handles ne' \<and> uses_open (ne_handles ne) cs"
  using assms
  by (auto simp: net_event_win32_close_def net_event_win32_init_def close_net_event_win32_def net_event_win32_defined_def
      defined_net_event_win32_def ne_defs Let_def split: if_splits)

lemma ne_stop_step:
  assumes "net_event_win32_stop ne = (ne', cs)" and "ne_inv ne"
  shows "ne_inv ne' \<and> open_after (ne_handles ne) cs = ne_handles ne' \<and> uses_open (ne_handles ne) cs"
  using assms
  by (auto simp: net_event_win32_stop_def close_net_event_win32_def net_event_win32_defined_def
      defined_net_event_win32_def flags_and ne_defs Let_def split: if_splits)

lemma ne_exec_step:
  assumes "ne_exec x ne = Inr (ne', cs)" and "ne_inv ne" and "creates_fresh (ne_handles ne) cs"
  shows "ne_inv ne' \<and> open_after (ne_handles ne) cs = ne_handles ne' \<and> uses_open (ne_handles ne) cs"
proof (cases x)
  case (Ne_Start wh rh sel ev sd)
  then show ?thesis using ne_start_step assms by simp
next
  case Ne_Reset_Write
  then show ?thesis using assms by (auto simp: net_event_win32_reset_write_def ne_defs split: if_splits)
next
  case (Ne_Reset wne)
  then show ?thesis using assms
    by (auto simp: net_event_win32_reset_def reset_net_event_win32_def ne_defs split: option.splits)
next
  case (Ne_Clear e)
  then show ?thesis using assms by (auto simp: net_event_win32_clear_selected_events_def ne_defs)
next
  case Ne_Stop
  then show ?thesis using ne_stop_step assms(1,2) by simp
next
  case Ne_Close
  then show ?thesis using ne_close_step assms(1,2) by simp
qed

lemma ne_run_steps:
  "ne_run xs ne = Inr (ne', cs) \<Longrightarrow> ne_inv ne \<Longrightarrow> creates_fresh (ne_handles ne) cs \<Longrightarrow>
     ne_inv ne' \<and> open_after (ne_handles ne) cs = ne_handles ne' \<and> uses_open (ne_handles ne) cs"
proof (induction xs arbitrary: ne cs)
  case (Cons x xs)
  from Cons.prems(1) obtain ne1 cs1 cs2 where s: "ne_exec x ne = Inr (ne1, cs1)" "ne_run xs ne1 = Inr (ne', cs2)" "cs = cs1 @ cs2"
    by (auto simp: bindE_Inr_iff)
  have f: "creates_fresh (ne_handles ne) cs1" "creates_fresh (open_after (ne_handles ne) cs1) cs2"
    using Cons.prems(3) by (simp_all add: s(3))
  note st = ne_exec_step [OF s(1) Cons.prems(2) f(1)]
  from f(2) st have "creates_fresh (ne_handles ne1) cs2" by simp
  from Cons.IH [OF s(2) _ this] st show ?case by (simp add: s(3))
qed simp

text \<open>
  C31: Whatever is done with the events of a socket, in any order, every call of the system uses NULL or a handle that is open, and the
  handles that stay open are those the structure names: none is left behind, and after closing none is open. This
  rests on the promise that the system creates no handle that is open already.
\<close>

theorem net_events_no_leak:
  assumes "ne_run xs net_event_win32_init = Inr (ne, cs)" and "creates_fresh {} cs"
  shows "uses_open {} cs \<and> open_after {} cs = ne_handles ne \<and>
         (case net_event_win32_close ne of (ne', cs') \<Rightarrow> open_after {} (cs @ cs') = {} \<and> uses_open {} (cs @ cs'))"
proof -
  have i: "ne_inv net_event_win32_init" "ne_handles net_event_win32_init = {}"
    by (simp_all add: ne_defs net_event_win32_init_def)
  note r = ne_run_steps [OF assms(1) i(1), unfolded i(2), OF assms(2)]
  obtain ne' cs' where c: "net_event_win32_close ne = (ne', cs')" by (cases "net_event_win32_close ne")
  have "ne' = net_event_win32_init" using c by (auto simp: net_event_win32_close_def split: prod.splits)
  then show ?thesis using r c ne_close_step [OF c] i(2) by simp
qed

theorem net_events_no_leak_witness:
  "\<exists>ne cs. ne_run [Ne_Start 4 8 True 3 7, Ne_Reset (Some 2), Ne_Stop, Ne_Start 0 0 True 3 9] net_event_win32_init = Inr (ne, cs) \<and>
     uses_open {} cs \<and> open_after {} cs = {4, 8}"
proof -
  let ?xs = "[Ne_Start 4 8 True 3 7, Ne_Reset (Some 2), Ne_Stop, Ne_Start 0 0 True 3 9]"
  let ?ne = "\<lparr>ne_handle = \<lparr>rwh_read = 8, rwh_write = 4\<rparr>, ne_sd = 9, ne_event_mask = 0\<rparr>"
  let ?cs = "[Create_Event 4, Create_Event 8, Event_Select 7 8 3, Enum_Events 7 8, Event_Select 7 8 0, Reset_Event 8, Reset_Event 4,
      Event_Select 9 8 3]"
  have r: "ne_run ?xs net_event_win32_init = Inr (?ne, ?cs)"
    by (simp add: net_event_win32_init_def net_event_win32_start_def init_net_event_win32_def net_event_win32_reset_def
        reset_net_event_win32_def net_event_win32_stop_def close_net_event_win32_def net_event_win32_defined_def
        defined_net_event_win32_def socket_defined_def SOCKET_UNDEFINED_def NE32_PERSIST_EVENT_def NE32_WRITE_EVENT_def)
  have "creates_fresh {} ?cs" by simp
  from net_events_no_leak [OF r this] r show ?thesis by (auto simp: ne_handles_def)
qed

end
