(* ===== verification/Sock_Setup.thy ===== *)
theory Sock_Setup
  imports Resolve Win32_Events Error_Log
begin

text \<open>
  \<open>src/Treiber/lib/socket.c\<close>: setting a socket up. What the calls of the system return is an argument, a function of the
  number of the call. The world keeps the sockets that are open.
\<close>

unbundle bit_operations_syntax

section \<open>The world of sockets\<close>

definition SOCK_STREAM :: int where "SOCK_STREAM = 1"
definition SOCK_DGRAM :: int where "SOCK_DGRAM = 2"
definition IPPROTO_TCP :: int where "IPPROTO_TCP = 6"
definition IPPROTO_UDP :: int where "IPPROTO_UDP = 17"

text \<open>
  A new descriptor may depend on those that are open. \<open>sy_select\<close> is the result of a wait, \<open>sy_errno\<close> the error number after a failed call, \<open>sy_signal\<close> what \<open>get_signal\<close> stores.
\<close>

record sys =
  sy_net :: net_env
  sy_socket :: "nat \<Rightarrow> nat set \<Rightarrow> nat"
  sy_bind :: "nat \<Rightarrow> bool"
  sy_listen :: "nat \<Rightarrow> bool"
  sy_accept :: "nat \<Rightarrow> nat set \<Rightarrow> nat \<times> sockaddr \<times> int"
  sy_connect :: "nat \<Rightarrow> int"
  sy_select :: "nat \<Rightarrow> int"
  sy_error :: "nat \<Rightarrow> int option"
  sy_errno :: "nat \<Rightarrow> int"
  sy_signal :: "nat \<Rightarrow> int"
  sy_option :: "nat \<Rightarrow> bool"
  sy_timeout :: "nat \<Rightarrow> int"

record sys_world =
  sw_net :: net_world
  sw_calls :: nat
  sw_open :: "nat set"
  sw_selects :: nat

definition tick :: "sys_world \<Rightarrow> sys_world" where "tick w = w\<lparr>sw_calls := sw_calls w + 1\<rparr>"

definition sys_socket :: "sys \<Rightarrow> sys_world \<Rightarrow> nat \<times> sys_world" where
  "sys_socket y w =
     (let sd = sy_socket y (sw_calls w) (sw_open w); w1 = tick w
      in (sd, if socket_defined sd then w1\<lparr>sw_open := insert sd (sw_open w1)\<rparr> else w1))"

definition openvpn_close_socket :: "nat \<Rightarrow> sys_world \<Rightarrow> sys_world" where
  "openvpn_close_socket sd w = (tick w)\<lparr>sw_open := sw_open w - {sd}\<rparr>"

definition sys_accept :: "sys \<Rightarrow> sys_world \<Rightarrow> (nat \<times> sockaddr \<times> int) \<times> sys_world" where
  "sys_accept y w =
     (let r = sy_accept y (sw_calls w) (sw_open w); w1 = tick w
      in (r, if socket_defined (fst r) then w1\<lparr>sw_open := insert (fst r) (sw_open w1)\<rparr> else w1))"

definition sd_close :: "nat option \<Rightarrow> sys_world \<Rightarrow> nat option \<times> sys_world" where
  "sd_close sd w =
     (case sd of None \<Rightarrow> (None, w)
      | Some d \<Rightarrow> if socket_defined d then (Some SOCKET_UNDEFINED, openvpn_close_socket d w) else (Some d, w))"

section \<open>The state of a socket\<close>

definition RESOLV_RETRY_INFINITE :: int where "RESOLV_RETRY_INFINITE = 1000000000"

definition INETD_NONE :: int where "INETD_NONE = 0"
definition INETD_WAIT :: int where "INETD_WAIT = 1"
definition INETD_NOWAIT :: int where "INETD_NOWAIT = 2"
definition LS_MODE_DEFAULT :: int where "LS_MODE_DEFAULT = 0"
definition LS_MODE_TCP_LISTEN :: int where "LS_MODE_TCP_LISTEN = 1"
definition LS_MODE_TCP_ACCEPT_FROM :: int where "LS_MODE_TCP_ACCEPT_FROM = 2"

text \<open>
  The members of \<open>struct link_socket\<close>, its \<open>info\<close> and its \<open>lsa\<close> that set-up reads and writes. A proxy is its host and port.
\<close>

record sock_setup =
  sk_proto :: int
  sk_af :: int
  sk_ipv6_only :: bool
  sk_bind_list :: "ai_ptr option"
  sk_remote_list :: "ai_ptr option"
  sk_current_remote :: "ai_ptr option"
  sk_actual :: sockaddr
  sk_sd :: nat
  sk_ctrl_sd :: nat
  sk_remote_host :: "cstr option"
  sk_remote_port :: "cstr option"
  sk_local_host :: "cstr option"
  sk_local_port :: "cstr option"
  sk_dns_cache :: "cached_dns_entry list"
  sk_bind_local :: bool
  sk_inetd :: int
  sk_mode :: int
  sk_retry_seconds :: int
  sk_sockflags :: gflags
  sk_http_proxy :: "(cstr option \<times> cstr option) option"
  sk_socks_proxy :: "(cstr option \<times> cstr option) option"
  sk_dest_host :: "cstr option"
  sk_dest_port :: "cstr option"

definition empty_sockaddr :: sockaddr where "empty_sockaddr = \<lparr>sa_family = 0, sa_data = replicate 26 0\<rparr>"

definition link_socket_new :: sock_setup where
  "link_socket_new =
     \<lparr>sk_proto = 0, sk_af = 0, sk_ipv6_only = False, sk_bind_list = None, sk_remote_list = None, sk_current_remote = None,
      sk_actual = empty_sockaddr, sk_sd = SOCKET_UNDEFINED, sk_ctrl_sd = SOCKET_UNDEFINED, sk_remote_host = None,
      sk_remote_port = None, sk_local_host = None, sk_local_port = None, sk_dns_cache = [], sk_bind_local = False,
      sk_inetd = 0, sk_mode = 0, sk_retry_seconds = 0, sk_sockflags = 0, sk_http_proxy = None, sk_socks_proxy = None,
      sk_dest_host = None, sk_dest_port = None\<rparr>"

section \<open>Resolving the two ends\<close>

definition resolve_bind_local :: "net_env \<Rightarrow> sock_setup \<Rightarrow> int \<Rightarrow> net_world \<Rightarrow> fault + sock_setup \<times> net_world" where
  "resolve_bind_local env s af w =
     (if sk_bind_list s = None
      then bindE (proto_is_dgram (sk_proto s))
        (\<lambda>dgram. let flags0 = GETADDR_RESOLVE OR GETADDR_WARN_ON_SIGNAL OR GETADDR_FATAL OR GETADDR_PASSIVE;
                     flags = (if dgram then flags0 OR GETADDR_DATAGRAM else flags0);
                     (status, ai) = get_cached_dns_entry (sk_dns_cache s) (sk_local_host s) (sk_local_port s) af flags
         in bindE (if status \<noteq> 0
                   then bindE (openvpn_getaddrinfo env flags (sk_local_host s) (sk_local_port s) 0 None af w)
                          (\<lambda>(status1, ai1, sig, w1). Inr (status1, ai1, w1))
                   else Inr (status, ai, w))
              (\<lambda>(status1, ai1, w1). if status1 \<noteq> 0 then Inl Fatal else Inr (s\<lparr>sk_bind_list := ai1\<rparr>, w1)))
      else Inr (s, w))"

text \<open>The flags and the time for retries that \<open>resolve_remote\<close> chooses.\<close>

definition remote_query :: "sock_setup \<Rightarrow> int \<Rightarrow> bool \<Rightarrow> fault + gflags \<times> int" where
  "remote_query s phase dgram =
     (let flags0 = sf2gaf (GETADDR_RESOLVE OR GETADDR_UPDATE_MANAGEMENT_STATE) (sk_sockflags s);
          flags = (if dgram then flags0 OR GETADDR_DATAGRAM else flags0)
      in if sk_retry_seconds s = RESOLV_RETRY_INFINITE
         then Inr (if phase = 2 then flags OR (GETADDR_TRY_ONCE OR GETADDR_FATAL) else flags, 0)
         else if phase = 1
         then if sk_retry_seconds s \<noteq> 0 then Inr (flags, 0)
              else Inr (flags OR (GETADDR_FATAL OR GETADDR_MENTION_RESOLVE_RETRY), 0)
         else if phase = 2
         then if sk_retry_seconds s \<noteq> 0 then Inr (flags OR GETADDR_FATAL, sk_retry_seconds s) else Inl AssertFail
         else Inl AssertFail)"

text \<open>Whether the previous address of the peer is kept, and the address then.\<close>

definition reuse_actual :: "sock_setup \<Rightarrow> cstr option option \<Rightarrow> fault + sock_setup \<times> cstr option option" where
  "reuse_actual s remote_dynamic =
     bindE (addr_defined (Some (sk_actual s)))
       (\<lambda>def. if def then Inr (s, map_option (\<lambda>_. None) remote_dynamic)
              else case sk_current_remote s of
                     None \<Rightarrow> Inr (s\<lparr>sk_actual := empty_sockaddr\<rparr>, remote_dynamic)
                   | Some (k, l) \<Rightarrow>
                       bindE (set_actual_address (case l of [] \<Rightarrow> None | a # _ \<Rightarrow> Some (ra_info a)))
                         (\<lambda>a. Inr (s\<lparr>sk_actual := a\<rparr>, remote_dynamic)))"

text \<open>Looking for the peer; the first component of the result tells whether the function returns at once. \<open>sig\<close> is \<open>None\<close> for a NULL pointer.\<close>

definition remote_lookup ::
  "net_env \<Rightarrow> sock_setup \<Rightarrow> int \<Rightarrow> int option \<Rightarrow> net_world \<Rightarrow> fault + bool \<times> sock_setup \<times> int option \<times> net_world" where
  "remote_lookup env s phase sig w =
     (if sk_remote_list s = None \<and> sk_remote_host s \<noteq> None
      then bindE (proto_is_dgram (sk_proto s))
        (\<lambda>dgram. bindE (remote_query s phase dgram)
        (\<lambda>(flags, retry).
           let (status, ai) = get_cached_dns_entry (sk_dns_cache s) (sk_remote_host s) (sk_remote_port s) (sk_af s) flags
           in bindE (if status \<noteq> 0
                     then openvpn_getaddrinfo env flags (sk_remote_host s) (sk_remote_port s) retry sig (sk_af s) w
                     else Inr (status, ai, sig, w))
                (\<lambda>(status1, ai1, sig1, w1).
                   let s1 = (if status1 = 0 then s\<lparr>sk_remote_list := ai1, sk_current_remote := ai1\<rparr> else s)
                   in if sig1 \<noteq> None \<and> sig1 \<noteq> Some 0 then Inr (True, s1, sig1, w1)
                      else if status1 \<noteq> 0 then Inr (True, s1, map_option (\<lambda>_. SIGUSR1) sig1, w1)
                      else Inr (False, s1, sig1, w1))))
      else Inr (False, s, sig, w))"

definition resolve_remote ::
  "net_env \<Rightarrow> sock_setup \<Rightarrow> int \<Rightarrow> cstr option option \<Rightarrow> int option \<Rightarrow> net_world \<Rightarrow>
     fault + sock_setup \<times> cstr option option \<times> int option \<times> net_world" where
  "resolve_remote env s phase remote_dynamic sig w =
     bindE (remote_lookup env s phase sig w)
       (\<lambda>(finished, s1, sig1, w1).
          if finished then Inr (s1, remote_dynamic, sig1, w1)
          else bindE (reuse_actual s1 remote_dynamic) (\<lambda>(s2, rd). Inr (s2, rd, sig1, w1)))"

section \<open>Creating and binding\<close>

definition socket_set_tcp_nodelay :: "sys \<Rightarrow> sys_world \<Rightarrow> bool \<times> sys_world" where
  "socket_set_tcp_nodelay y w = (sy_option y (sw_calls w), tick w)"

definition socket_set_flags :: "sys \<Rightarrow> gflags \<Rightarrow> sys_world \<Rightarrow> bool \<times> sys_world" where
  "socket_set_flags y sockflags w =
     (if sockflags AND SF_TCP_NODELAY \<noteq> 0 then socket_set_tcp_nodelay y w else (True, w))"

definition link_socket_update_flags :: "sys \<Rightarrow> sock_setup option \<Rightarrow> gflags \<Rightarrow> sys_world \<Rightarrow> bool \<times> sock_setup option \<times> sys_world" where
  "link_socket_update_flags y ls sockflags w =
     (case ls of
        Some s \<Rightarrow> if socket_defined (sk_sd s)
                  then (case socket_set_flags y sockflags w of (r, w1) \<Rightarrow> (r, Some (s\<lparr>sk_sockflags := sockflags\<rparr>), w1))
                  else (False, ls, w)
      | None \<Rightarrow> (False, ls, w))"

text \<open>A \<open>SOCKET\<close> of Windows is unsigned, so the test for a negative descriptor never holds.\<close>

definition create_socket_tcp :: "sys \<Rightarrow> resolved option \<Rightarrow> sys_world \<Rightarrow> fault + nat \<times> sys_world" where
  "create_socket_tcp y ai w =
     (case ai of
        None \<Rightarrow> Inl AssertFail
      | Some a \<Rightarrow> bindE (c_assert (ra_socktype a = SOCK_STREAM)) (\<lambda>_. Inr (sys_socket y w)))"

definition create_socket_udp :: "sys \<Rightarrow> resolved option \<Rightarrow> sys_world \<Rightarrow> fault + nat \<times> sys_world" where
  "create_socket_udp y ai w =
     (case ai of
        None \<Rightarrow> Inl AssertFail
      | Some a \<Rightarrow> bindE (c_assert (ra_socktype a = SOCK_DGRAM)) (\<lambda>_. Inr (sys_socket y w)))"

definition socket_bind :: "sys \<Rightarrow> ai_ptr option \<Rightarrow> int \<Rightarrow> sys_world \<Rightarrow> fault + sys_world" where
  "socket_bind y local fam w =
     (case local of
        None \<Rightarrow> Inl AssertFail
      | Some (k, l) \<Rightarrow>
          (case filter (\<lambda>c. ai_family (ra_info c) = fam) l of
             [] \<Rightarrow> Inl Fatal
           | cur # _ \<Rightarrow> let w1 = (if fam = AF_INET6 then tick w else w)
                         in if sy_bind y (sw_calls w1) then Inr (tick w1) else Inl Fatal))"

text \<open>\<open>sd\<close> or \<open>ctrl_sd\<close> is bound; the two differ only in the call of the system.\<close>

definition bind_local :: "sys \<Rightarrow> sock_setup \<Rightarrow> int \<Rightarrow> sys_world \<Rightarrow> fault + sys_world" where
  "bind_local y s fam w = (if sk_bind_local s then socket_bind y (sk_bind_list s) fam w else Inr w)"

definition create_socket :: "sys \<Rightarrow> sock_setup \<Rightarrow> ai_ptr \<Rightarrow> sys_world \<Rightarrow> fault + sock_setup \<times> sys_world" where
  "create_socket y s adr w =
     (case snd adr of
        [] \<Rightarrow> Inl MemFault
      | a # _ \<Rightarrow>
          bindE (if ra_protocol a = IPPROTO_UDP \<or> ra_socktype a = SOCK_DGRAM
                 then bindE (create_socket_udp y (Some a) w)
                   (\<lambda>(sd, w1). let s1 = s\<lparr>sk_sd := sd, sk_sockflags := sk_sockflags s OR SF_GETADDRINFO_DGRAM\<rparr>
                     in if sk_socks_proxy s \<noteq> None
                        then bindE (create_socket_tcp y (Some (a\<lparr>ra_socktype := SOCK_STREAM, ra_protocol := IPPROTO_TCP\<rparr>)) w1)
                               (\<lambda>(cd, w2). Inr (s1\<lparr>sk_ctrl_sd := cd\<rparr>, w2))
                        else Inr (s1, w1))
                 else if ra_protocol a = IPPROTO_TCP \<or> ra_socktype a = SOCK_STREAM
                 then bindE (create_socket_tcp y (Some a) w) (\<lambda>(sd, w1). Inr (s\<lparr>sk_sd := sd\<rparr>, w1))
                 else Inl AssertFail)
            (\<lambda>(s1, w1). bindE (bind_local y s1 (ai_family (ra_info a)) w1) (\<lambda>w2. Inr (s1, w2))))"

section \<open>Listening\<close>

definition socket_do_listen :: "sys \<Rightarrow> ai_ptr option \<Rightarrow> bool \<Rightarrow> sys_world \<Rightarrow> fault + sys_world" where
  "socket_do_listen y local do_listen w =
     (if do_listen
      then bindE (c_assert (local \<noteq> None)) (\<lambda>_. if sy_listen y (sw_calls w) then Inr (tick w) else Inl Fatal)
      else Inr w)"

text \<open>This system has no \<open>getpeername\<close>. The result is the new socket and the address of its peer.\<close>

definition socket_do_accept :: "sys \<Rightarrow> sockaddr \<Rightarrow> bool \<Rightarrow> sys_world \<Rightarrow> nat \<times> sockaddr \<times> sys_world" where
  "socket_do_accept y act nowait w =
     (let remote_len_af = af_addr_size (sa_family act);
          ((new_sd, peer, remote_len), w1) = (if nowait then ((SOCKET_UNDEFINED, empty_sockaddr, 28), w) else sys_accept y w)
      in if \<not> socket_defined new_sd then (new_sd, empty_sockaddr, w1)
         else if remote_len_af \<noteq> 0 \<and> remote_len \<noteq> remote_len_af
         then (SOCKET_UNDEFINED, peer, openvpn_close_socket new_sd w1)
         else (new_sd, peer, w1))"

definition sys_wait :: "sys \<Rightarrow> sys_world \<Rightarrow> int \<times> int \<times> sys_world" where
  "sys_wait y w = (sy_select y (sw_calls w), sy_signal y (sw_calls w), (tick w)\<lparr>sw_selects := sw_selects w + 1\<rparr>)"

text \<open>
  The loop of \<open>socket_listen_accept\<close> with a bound on its turns; \<open>None\<close> means that it still waits. The
  result is the socket, the address of the peer, the signal, and the world.
\<close>

fun accept_loop ::
  "nat \<Rightarrow> sys \<Rightarrow> nat \<Rightarrow> sockaddr \<Rightarrow> cstr option \<Rightarrow> sockaddr \<Rightarrow> bool \<Rightarrow> sys_world \<Rightarrow>
     (fault + (nat \<times> bool) \<times> sockaddr \<times> int \<times> sys_world) option" where
  "accept_loop 0 y sd remote_verify remote_dynamic act nowait w = None"
| "accept_loop (Suc n) y sd remote_verify remote_dynamic act nowait w =
     (let (status, sig, w1) = sys_wait y w
      in if sig \<noteq> 0 then Some (Inr ((sd, True), act, sig, w1))
         else if status \<le> 0 then accept_loop n y sd remote_verify remote_dynamic act nowait w1
         else let (new_sd, act1, w2) = socket_do_accept y act nowait w1
              in if socket_defined new_sd
                 then case (case remote_dynamic of
                              None \<Rightarrow> Inr (None, sw_net w2)
                            | Some h \<Rightarrow>
                                bindE (openvpn_getaddrinfo (sy_net y) 0 (Some h) None 1 None (sa_family remote_verify) (sw_net w2))
                                  (\<lambda>(st, ai, sg, nw). Inr (ai, nw))) of
                        Inl f \<Rightarrow> Some (Inl f)
                      | Inr (ai, nw) \<Rightarrow>
                          (let w3 = w2\<lparr>sw_net := nw\<rparr>
                           in case (case ai of
                                      None \<Rightarrow> Inr True
                                    | Some (k, l) \<Rightarrow> addrlist_match remote_verify (map ra_info l)) of
                                Inl f \<Rightarrow> Some (Inl f)
                              | Inr ok \<Rightarrow>
                                  (case freeaddrinfo ai (sw_net w3) of
                                     Inl f \<Rightarrow> Some (Inl f)
                                   | Inr nw1 \<Rightarrow>
                                       (let w4 = w3\<lparr>sw_net := nw1\<rparr>
                                        in if \<not> ok
                                           then accept_loop n y sd remote_verify remote_dynamic act1 nowait (openvpn_close_socket new_sd w4)
                                           else Some (Inr ((new_sd, False), act1, 0, w4)))))
                 else accept_loop n y sd remote_verify remote_dynamic act1 nowait w2)"

definition socket_listen_accept ::
  "nat \<Rightarrow> sys \<Rightarrow> nat \<Rightarrow> sockaddr \<Rightarrow> cstr option \<Rightarrow> ai_ptr option \<Rightarrow> bool \<Rightarrow> bool \<Rightarrow> sys_world \<Rightarrow>
     (fault + nat \<times> sockaddr \<times> int \<times> sys_world) option" where
  "socket_listen_accept n y sd act remote_dynamic local do_listen nowait w =
     (case socket_do_listen y local do_listen w of
        Inl f \<Rightarrow> Some (Inl f)
      | Inr w1 \<Rightarrow>
          map_option (\<lambda>r. bindE r (\<lambda>((new_sd, interrupted), act1, sig, w2).
              Inr (new_sd, act1, sig, if \<not> interrupted \<and> \<not> nowait then openvpn_close_socket sd w2 else w2)))
            (accept_loop n y sd act remote_dynamic empty_sockaddr nowait w1))"

section \<open>Connecting\<close>

definition WSAETIMEDOUT :: int where "WSAETIMEDOUT = 10060"

function connect_loop :: "sys \<Rightarrow> int \<Rightarrow> sys_world \<Rightarrow> int \<times> int \<times> sys_world" where
  "connect_loop y connect_timeout w =
     (let (status, sig, w1) = sys_wait y w
      in if sig \<noteq> 0 then (0, sig, w1)
         else if status < 0 then (sy_errno y (sw_calls w1), sig, w1)
         else if status \<le> 0
         then if connect_timeout - 1 < 0 then (WSAETIMEDOUT, sig, w1) else connect_loop y (connect_timeout - 1) w1
         else (case sy_error y (sw_calls w1) of Some val \<Rightarrow> val | None \<Rightarrow> sy_errno y (sw_calls w1), sig, tick w1))"
  by pat_completeness auto
termination by (relation "measure (\<lambda>(y, t, w). nat t)") auto

declare connect_loop.simps [simp del]

text \<open>The result is the error number and the signal.\<close>

definition openvpn_connect :: "sys \<Rightarrow> int \<Rightarrow> int \<Rightarrow> sys_world \<Rightarrow> int \<times> int \<times> sys_world" where
  "openvpn_connect y connect_timeout sig w =
     (let status = sy_connect y (sw_calls w); w1 = tick w
      in if status = WSAEWOULDBLOCK then connect_loop y connect_timeout w1 else (status, sig, w1))"

definition socket_connect :: "sys \<Rightarrow> nat \<Rightarrow> int \<Rightarrow> signal_info \<Rightarrow> sys_world \<Rightarrow> nat \<times> signal_info \<times> sys_world" where
  "socket_connect y sd connect_timeout si w =
     (let (status, sig, w1) = openvpn_connect y connect_timeout (signal_received si) w;
          sig1 = sy_signal y (sw_calls w1); w2 = tick w1
      in if sig1 \<noteq> 0 then (sd, si\<lparr>signal_received := sig1\<rparr>, w2)
         else if status \<noteq> 0
         then (SOCKET_UNDEFINED, si\<lparr>signal_received := SIGUSR1, si_source := SIG_SOURCE_CONNECTION_FAILED\<rparr>,
               openvpn_close_socket sd w2)
         else (sd, si\<lparr>signal_received := 0\<rparr>, w2))"

section \<open>The first phase\<close>

text \<open>The parameters of \<open>link_socket_init_phase1\<close> that set-up uses; \<open>lo_accept_from\<close> is a listening socket.\<close>

record link_options =
  lo_local_host :: "cstr option"
  lo_local_port :: "cstr option"
  lo_remote_host :: "cstr option"
  lo_remote_port :: "cstr option"
  lo_dns_cache :: "cached_dns_entry list"
  lo_proto :: int
  lo_af :: int
  lo_ipv6_only :: bool
  lo_mode :: int
  lo_accept_from :: "sock_setup option"
  lo_http_proxy :: "(cstr option \<times> cstr option) option"
  lo_socks_proxy :: "(cstr option \<times> cstr option) option"
  lo_bind_local :: bool
  lo_inetd :: int
  lo_retry_seconds :: int
  lo_sockflags :: gflags

definition phase1_fields :: "link_options \<Rightarrow> sock_setup \<Rightarrow> sock_setup" where
  "phase1_fields lo s =
     s\<lparr>sk_local_host := lo_local_host lo, sk_local_port := lo_local_port lo, sk_remote_host := lo_remote_host lo,
       sk_remote_port := lo_remote_port lo, sk_dns_cache := lo_dns_cache lo, sk_http_proxy := lo_http_proxy lo,
       sk_socks_proxy := lo_socks_proxy lo, sk_bind_local := lo_bind_local lo, sk_inetd := lo_inetd lo,
       sk_retry_seconds := lo_retry_seconds lo, sk_sockflags := lo_sockflags lo, sk_proto := lo_proto lo, sk_af := lo_af lo,
       sk_ipv6_only := lo_ipv6_only lo, sk_mode := lo_mode lo\<rparr>"

text \<open>With a proxy the peer is the proxy, and the server is what the proxy is asked for.\<close>

definition phase1_proxy :: "link_options \<Rightarrow> sock_setup \<Rightarrow> fault + sock_setup" where
  "phase1_proxy lo s =
     (case sk_http_proxy s of
        Some (server, port) \<Rightarrow>
          bindE (c_assert (sk_proto s = PROTO_TCP_CLIENT)) (\<lambda>_. bindE (c_assert (sk_inetd s = 0))
            (\<lambda>_. Inr (s\<lparr>sk_remote_host := server, sk_remote_port := port, sk_dest_host := lo_remote_host lo,
                        sk_dest_port := lo_remote_port lo\<rparr>)))
      | None \<Rightarrow>
          (case sk_socks_proxy s of
             Some (server, port) \<Rightarrow>
               bindE (c_assert (sk_inetd s = 0))
                 (\<lambda>_. Inr (s\<lparr>sk_remote_host := server, sk_remote_port := port, sk_dest_host := lo_remote_host lo,
                             sk_dest_port := lo_remote_port lo\<rparr>))
           | None \<Rightarrow> Inr (s\<lparr>sk_remote_host := lo_remote_host lo, sk_remote_port := lo_remote_port lo\<rparr>)))"

text \<open>\<open>inetd_sd\<close> is the global \<open>inetd_socket_descriptor\<close>.\<close>

definition link_socket_init_phase1 ::
  "net_env \<Rightarrow> nat \<Rightarrow> link_options \<Rightarrow> sock_setup \<Rightarrow> net_world \<Rightarrow> fault + sock_setup \<times> net_world" where
  "link_socket_init_phase1 env inetd_sd lo s0 w =
     bindE (if lo_mode lo = LS_MODE_TCP_ACCEPT_FROM
            then case lo_accept_from lo of
                   None \<Rightarrow> Inl AssertFail
                 | Some from \<Rightarrow>
                     bindE (c_assert (lo_proto lo = PROTO_TCP_SERVER)) (\<lambda>_. bindE (c_assert (lo_inetd lo = 0))
                       (\<lambda>_. Inr ((phase1_fields lo s0)\<lparr>sk_sd := sk_sd from, sk_af := sk_af from\<rparr>)))
            else Inr (phase1_fields lo s0))
       (\<lambda>s1. bindE (phase1_proxy lo s1)
       (\<lambda>s2. let s3 = (if sk_proto s2 = PROTO_TCP_SERVER
                       then s2\<lparr>sk_bind_local := (sk_mode s2 \<noteq> LS_MODE_TCP_ACCEPT_FROM)\<rparr> else s2)
             in if sk_inetd s3 \<noteq> 0
                then bindE (c_assert (sk_proto s3 \<noteq> PROTO_TCP_CLIENT)) (\<lambda>_. bindE (c_assert (socket_defined inetd_sd))
                       (\<lambda>_. Inr (s3\<lparr>sk_sd := inetd_sd\<rparr>, w)))
                else if lo_mode lo \<noteq> LS_MODE_TCP_ACCEPT_FROM
                then bindE (if sk_bind_local s3 then resolve_bind_local env s3 (sk_af s3) w else Inr (s3, w))
                       (\<lambda>(s4, w1). bindE (resolve_remote env s4 1 None None w1) (\<lambda>(s5, rd, sig, w2). Inr (s5, w2)))
                else Inr (s3, w)))"

section \<open>The second phase\<close>

text \<open>
  The conversation with a proxy is the subject of the theories Proxy and Socks: here its result is an argument. \<open>px_http\<close> has a
  signal for each try that asks for another one, and the signal of the last try is \<open>px_http_last\<close>.
\<close>

record proxies =
  px_http :: "int list"
  px_http_last :: int
  px_socks :: int
  px_udpassoc :: "sockaddr \<times> int"

definition head_of :: "ai_ptr option \<Rightarrow> fault + resolved" where
  "head_of p = (case p of Some (k, a # l) \<Rightarrow> Inr a | _ \<Rightarrow> Inl MemFault)"

fun client_loop ::
  "sys \<Rightarrow> proxies \<Rightarrow> int list \<Rightarrow> sock_setup \<Rightarrow> signal_info \<Rightarrow> sys_world \<Rightarrow> fault + sock_setup \<times> signal_info \<times> sys_world" where
  "client_loop y px again s si w =
     bindE (head_of (sk_current_remote s))
       (\<lambda>a. let (sd, si1, w1) = socket_connect y (sk_sd s) (sy_timeout y (sw_calls w)) si w; s1 = s\<lparr>sk_sd := sd\<rparr>
            in if signal_received si1 \<noteq> 0 then Inr (s1, si1, w1)
               else if sk_http_proxy s1 \<noteq> None
               then (case again of
                       [] \<Rightarrow> Inr (s1, si1\<lparr>signal_received := px_http_last px\<rparr>, w1)
                     | sig # rest \<Rightarrow>
                         bindE (create_socket_tcp y (Some a) (openvpn_close_socket (sk_sd s1) w1))
                           (\<lambda>(sd1, w2). client_loop y px rest (s1\<lparr>sk_sd := sd1\<rparr>) (si1\<lparr>signal_received := sig\<rparr>) w2))
               else if sk_socks_proxy s1 \<noteq> None then Inr (s1, si1\<lparr>signal_received := px_socks px\<rparr>, w1)
               else Inr (s1, si1, w1))"

definition phase2_tcp_client ::
  "sys \<Rightarrow> proxies \<Rightarrow> sock_setup \<Rightarrow> signal_info \<Rightarrow> sys_world \<Rightarrow> fault + sock_setup \<times> signal_info \<times> sys_world" where
  "phase2_tcp_client y px s si w = client_loop y px (px_http px) s si w"

definition phase2_socks_client ::
  "sys \<Rightarrow> proxies \<Rightarrow> sock_setup \<Rightarrow> signal_info \<Rightarrow> sys_world \<Rightarrow> fault + sock_setup \<times> signal_info \<times> sys_world" where
  "phase2_socks_client y px s si w =
     bindE (head_of (sk_current_remote s))
       (\<lambda>a. let (cd, si1, w1) = socket_connect y (sk_ctrl_sd s) (sy_timeout y (sw_calls w)) si w; s1 = s\<lparr>sk_ctrl_sd := cd\<rparr>
            in if signal_received si1 \<noteq> 0 then Inr (s1, si1, w1)
               else let si2 = si1\<lparr>signal_received := snd (px_udpassoc px)\<rparr>
                    in if signal_received si2 \<noteq> 0 then Inr (s1, si2, w1)
                       else bindE (addr_zero_host (sk_actual s1))
                         (\<lambda>act. let s2 = s1\<lparr>sk_remote_host := sk_dest_host s1, sk_remote_port := sk_dest_port s1, sk_actual := act\<rparr>
                            in bindE (if sk_remote_list s2 \<noteq> None
                                      then bindE (freeaddrinfo (sk_remote_list s2) (sw_net w1))
                                             (\<lambda>nw. Inr (s2\<lparr>sk_current_remote := None, sk_remote_list := None\<rparr>, nw))
                                      else Inr (s2, sw_net w1))
                                 (\<lambda>(s3, nw). bindE (resolve_remote (sy_net y) s3 1 None (Some 0) nw)
                                 (\<lambda>(s4, rd, sig, nw1).
                                    Inr (s4, si2\<lparr>signal_received := (case sig of Some g \<Rightarrow> g | None \<Rightarrow> 0)\<rparr>, w1\<lparr>sw_net := nw1\<rparr>)))))"

text \<open>The result is \<open>None\<close> while the server still waits for its peer.\<close>

definition phase2_tcp_server ::
  "nat \<Rightarrow> sys \<Rightarrow> sock_setup \<Rightarrow> cstr option \<Rightarrow> sys_world \<Rightarrow> (fault + sock_setup \<times> int \<times> sys_world) option" where
  "phase2_tcp_server n y s remote_dynamic w =
     (if sk_mode s = LS_MODE_DEFAULT
      then map_option (\<lambda>r. bindE r (\<lambda>(sd, act, sig, w1). Inr (s\<lparr>sk_sd := sd, sk_actual := act\<rparr>, sig, w1)))
             (socket_listen_accept n y (sk_sd s) (sk_actual s) remote_dynamic (sk_bind_list s) True False w)
      else if sk_mode s = LS_MODE_TCP_LISTEN
      then Some (bindE (socket_do_listen y (sk_bind_list s) True w) (\<lambda>w1. Inr (s, 0, w1)))
      else if sk_mode s = LS_MODE_TCP_ACCEPT_FROM
      then (case socket_do_accept y (sk_actual s) False w of
              (sd, act, w1) \<Rightarrow> Some (Inr (s\<lparr>sk_sd := sd, sk_actual := act\<rparr>, if socket_defined sd then 0 else SIGTERM, w1)))
      else Some (Inl AssertFail))"

text \<open>\<open>own_family\<close> is the family \<open>getsockname\<close> finds, or the error number of the failure.\<close>

definition phase2_inetd ::
  "nat \<Rightarrow> sys \<Rightarrow> int + int \<Rightarrow> sock_setup \<Rightarrow> cstr option \<Rightarrow> sys_world \<Rightarrow> (fault + sock_setup \<times> int \<times> sys_world) option" where
  "phase2_inetd n y own_family s remote_dynamic w =
     (if sk_proto s = PROTO_TCP_SERVER
      then case own_family of
             Inl e \<Rightarrow>
               if e = 10038 then Some (Inl Fatal)
               else map_option (\<lambda>r. bindE r (\<lambda>(sd, act, sig, w1). Inr (s\<lparr>sk_sd := sd, sk_actual := act\<rparr>, sig, w1)))
                      (socket_listen_accept n y (sk_sd s) ((sk_actual s)\<lparr>sa_family := AF_INET\<rparr>) remote_dynamic (sk_bind_list s)
                         False (sk_inetd s = INETD_NOWAIT) w)
           | Inr fam \<Rightarrow>
               map_option (\<lambda>r. bindE r (\<lambda>(sd, act, sig, w1). Inr (s\<lparr>sk_sd := sd, sk_actual := act\<rparr>, sig, w1)))
                 (socket_listen_accept n y (sk_sd s) ((sk_actual s)\<lparr>sa_family := fam\<rparr>) remote_dynamic (sk_bind_list s)
                    False (sk_inetd s = INETD_NOWAIT) w)
      else Some (Inr (s, 0, w)))"

text \<open>Creating the socket in the second phase: for the peer that was found, otherwise for the local address.\<close>

definition phase2_create :: "sys \<Rightarrow> sock_setup \<Rightarrow> sys_world \<Rightarrow> fault + sock_setup \<times> sys_world" where
  "phase2_create y s w =
     bindE (case sk_current_remote s of Some a \<Rightarrow> create_socket y s a w | None \<Rightarrow> Inr (s, w))
       (\<lambda>(s1, w1). if sk_sd s1 = SOCKET_UNDEFINED \<and> sk_bind_local s1 \<and> sk_remote_host s1 = None
                   then (case sk_bind_list s1 of
                           None \<Rightarrow> Inr (s1, w1)
                         | Some b \<Rightarrow>
                             bindE (head_of (Some b))
                               (\<lambda>a. create_socket y (if sk_af s1 = AF_UNSPEC then s1\<lparr>sk_af := ai_family (ra_info a)\<rparr> else s1) b w1))
                   else Inr (s1, w1))"

definition phase2_set_socket_flags :: "sys \<Rightarrow> sock_setup \<Rightarrow> sys_world \<Rightarrow> sys_world" where
  "phase2_set_socket_flags y s w = snd (socket_set_flags y (sk_sockflags s) w)"

definition phase2_connect ::
  "nat \<Rightarrow> sys \<Rightarrow> proxies \<Rightarrow> sock_setup \<Rightarrow> cstr option \<Rightarrow> signal_info \<Rightarrow> sys_world \<Rightarrow>
     (fault + sock_setup \<times> signal_info \<times> sys_world) option" where
  "phase2_connect n y px s remote_dynamic si w =
     (if sk_proto s = PROTO_TCP_SERVER
      then map_option (\<lambda>r. bindE r (\<lambda>(s1, sig, w1). Inr (s1, si\<lparr>signal_received := sig\<rparr>, w1)))
             (phase2_tcp_server n y s remote_dynamic w)
      else if sk_proto s = PROTO_TCP_CLIENT then Some (phase2_tcp_client y px s si w)
      else if sk_proto s = PROTO_UDP \<and> sk_socks_proxy s \<noteq> None then Some (phase2_socks_client y px s si w)
      else Some (Inr (s, si, w)))"

text \<open>The part between \<open>socket_frame_init\<close> and the printing of addresses; \<open>sig_save\<close> is put back at the end.\<close>

definition phase2_body ::
  "nat \<Rightarrow> sys \<Rightarrow> proxies \<Rightarrow> int + int \<Rightarrow> sock_setup \<Rightarrow> signal_info \<Rightarrow> sys_world \<Rightarrow>
     (fault + sock_setup \<times> signal_info \<times> sys_world) option" where
  "phase2_body n y px own_family s si w =
     (let remote_dynamic = (if sk_retry_seconds s \<noteq> 0 then sk_remote_host s else None)
      in if sk_inetd s \<noteq> 0
         then map_option (\<lambda>r. bindE r (\<lambda>(s1, sig, w1). let si1 = si\<lparr>signal_received := sig\<rparr>
                in Inr (s1, si1, if sig \<noteq> 0 then w1 else phase2_set_socket_flags y s1 w1)))
                (phase2_inetd n y own_family s remote_dynamic w)
         else case resolve_remote (sy_net y) s 2 (Some remote_dynamic) (Some (signal_received si)) (sw_net w) of
                Inl f \<Rightarrow> Some (Inl f)
              | Inr (s1, rd, sig, nw) \<Rightarrow>
                  (let si1 = si\<lparr>signal_received := (case sig of Some g \<Rightarrow> g | None \<Rightarrow> 0)\<rparr>
                   in case phase2_create y s1 (w\<lparr>sw_net := nw\<rparr>) of
                        Inl f \<Rightarrow> Some (Inl f)
                      | Inr (s2, w2) \<Rightarrow>
                          if sk_sd s2 = SOCKET_UNDEFINED then Some (Inr (s2, si1\<lparr>signal_received := SIGUSR1\<rparr>, w2))
                          else if signal_received si1 \<noteq> 0 then Some (Inr (s2, si1, w2))
                          else map_option (\<lambda>r. bindE r (\<lambda>(s3, si3, w3).
                                 Inr (s3, si3, if signal_received si3 \<noteq> 0 then w3 else phase2_set_socket_flags y s3 w3)))
                                 (phase2_connect n y px s2 (case rd of Some r \<Rightarrow> r | None \<Rightarrow> None) si1 w2)))"

definition link_socket_init_phase2 ::
  "nat \<Rightarrow> sys \<Rightarrow> proxies \<Rightarrow> int + int \<Rightarrow> sock_setup \<Rightarrow> signal_info \<Rightarrow> sys_world \<Rightarrow>
     (fault + sock_setup \<times> signal_info \<times> sys_world) option" where
  "link_socket_init_phase2 n y px own_family s si w =
     (let sig_save = signal_received si; si0 = si\<lparr>signal_received := 0\<rparr>
      in map_option (\<lambda>r. bindE r (\<lambda>(s1, si1, w1).
             Inr (s1, if sig_save \<noteq> 0 \<and> signal_received si1 = 0 then si1\<lparr>signal_received := sig_save\<rparr> else si1, w1)))
           (phase2_body n y px own_family s si0 w))"

text \<open>
  The descriptors; buffers and events are in the theories Stream_Buf, Overlapped and Win32_Events. \<open>gremlin\<close>
  tells whether \<open>GREMLIN_CONNECTION_FLOOD_LEVEL\<close>, a macro of a header that is not in the repository, finds the
  debugging aid switched on for this socket: its descriptor is then forgotten and not closed.
\<close>

definition link_socket_close :: "bool \<Rightarrow> sock_setup \<Rightarrow> sys_world \<Rightarrow> sock_setup \<times> sys_world" where
  "link_socket_close gremlin s w =
     (let (s1, w1) = (if socket_defined (sk_sd s)
                      then (s\<lparr>sk_sd := SOCKET_UNDEFINED\<rparr>, if gremlin then w else openvpn_close_socket (sk_sd s) w)
                      else (s, w))
      in if socket_defined (sk_ctrl_sd s1) then (s1\<lparr>sk_ctrl_sd := SOCKET_UNDEFINED\<rparr>, openvpn_close_socket (sk_ctrl_sd s1) w1)
         else (s1, w1))"

end
