(* ===== verification/Resolve_Laws.thy ===== *)
theory Resolve_Laws
  imports Resolve
begin

text \<open>
  \<open>src/Treiber/lib/socket.c\<close>: what holds of addresses with a prefix length and of names that were resolved in advance.
\<close>

unbundle bit_operations_syntax

definition example_net :: net_env where
  "example_net = \<lparr>ne_lookup = (\<lambda>n q. if gq_host q = Some (asc ''::1'') then Inr [\<lparr>ra_info = \<lparr>ai_family = AF_INET6, ai_addr = \<lparr>sa_family = AF_INET6, sa_data = replicate 26 1\<rparr>\<rparr>,
       ra_socktype = 1, ra_protocol = 6\<rparr>]
     else Inl 11001), ne_signal = (\<lambda>n. 0), ne_randomize = id\<rparr>"

definition example_world :: net_world where
  "example_world = \<lparr>nw_queries = 0, nw_slept = 0, nw_next = 0, nw_live = {}\<rparr>"

lemma example_net_ok: "answers_ok example_net" "net_ok example_world"
  by (simp_all add: answers_ok_def example_net_def net_ok_def example_world_def)

text \<open>
  C33: Resolving a name always ends: it asks the system at most once for a number and then at most as often as the retries
  allow, it sleeps less than the time it was given (not at all if it was given none), and it leaves exactly one new list of addresses
  when it succeeds and none when it fails, also when a signal interrupts it. A fatal exit is possible only if the flags ask for it.
\<close>

theorem resolve_bounded:
  assumes "answers_ok env" and "net_ok w" and "hostname \<noteq> None \<or> servname \<noteq> None" and "flags AND GETADDR_HOST_ORDER = 0" and "0 \<le> secs"
  shows "case openvpn_getaddrinfo env flags hostname servname secs sig fam w of
           Inl f \<Rightarrow> f = Fatal \<and> flags AND (GETADDR_FATAL OR GETADDR_FATAL_ON_SIGNAL) \<noteq> 0
         | Inr (status, res, sig', w') \<Rightarrow>
             gai_result w status res w' \<and> nw_queries w' \<le> nw_queries w + 1 + tries flags secs \<and>
             int (nw_slept w') \<le> int (nw_slept w) + max 0 (secs - 1)"
  by (rule openvpn_getaddrinfo_ends [OF assms])

theorem resolve_bounded_witness:
  "case openvpn_getaddrinfo example_net GETADDR_RESOLVE (Some (asc ''nowhere'')) None 10 None AF_INET example_world of
     Inl f \<Rightarrow> False
   | Inr (status, res, sig', w') \<Rightarrow> nw_queries w' \<le> 3 \<and> int (nw_slept w') \<le> 9"
proof -
  have h: "Some (asc ''nowhere'') \<noteq> None \<or> (None :: cstr option) \<noteq> None" "GETADDR_RESOLVE AND GETADDR_HOST_ORDER = 0" "(0 :: int) \<le> 10"
    by (simp_all add: getaddr_flags)
  have f: "GETADDR_RESOLVE AND (GETADDR_FATAL OR GETADDR_FATAL_ON_SIGNAL) = 0" "tries GETADDR_RESOLVE 10 = 2"
    by (simp_all add: getaddr_flags tries_def)
  show ?thesis
    using resolve_bounded [OF example_net_ok h, of None AF_INET]
    by (auto simp: f example_world_def split: sum.splits)
qed

section \<open>Addresses with a prefix length\<close>

text \<open>
  On Windows the error numbers of the resolver are positive. An IPv6 address that cannot be resolved is then reported as
  resolved, with a prefix length and without an address: the caller goes on with whatever its variable held.
\<close>

lemma get_ipv6_addr_takes_failure:
  assumes "47 \<notin> set h" and "\<forall>n q. \<exists>e > 0. ne_lookup env n q = Inl e"
  shows "\<exists>w'. get_ipv6_addr env (Some h) w = Inr (Some (None, Some 64), w')"
proof -
  have t: "takeWhile (\<lambda>c. c \<noteq> 47) h = h" using assms(1) by (auto simp: takeWhile_eq_all_conv)
  have fl: "GETADDR_RESOLVE AND NOT GETADDR_HOST_ORDER = GETADDR_RESOLVE" "GETADDR_RESOLVE AND GETADDR_HOST_ORDER = 0"
    "GETADDR_RESOLVE AND GETADDR_FATAL = 0" "GETADDR_RESOLVE AND GETADDR_RESOLVE \<noteq> 0"
    "GETADDR_RESOLVE AND (GETADDR_FATAL_ON_SIGNAL OR GETADDR_WARN_ON_SIGNAL) = 0" "GETADDR_RESOLVE AND GETADDR_TRY_ONCE = 0"
    "GETADDR_RESOLVE AND GETADDR_RANDOMIZE = 0" "GETADDR_RESOLVE AND GETADDR_FATAL_ON_SIGNAL = 0"
    by (simp_all add: getaddr_flags)
  have g: "\<exists>e > 0. getaddrinfo env q w = (e, None, w\<lparr>nw_queries := nw_queries w + 1\<rparr>)" for q w
    using assms(2) [rule_format, of "nw_queries w" q] by (auto simp: getaddrinfo_def Let_def)
  have lo: "\<exists>e w'. e > 0 \<and> gai_loop env q False 0 None w = Inr (e, None, None, w')" for q w
    using g [of q w] by (subst gai_loop.simps) (auto simp: Let_def)
  have "\<exists>e w'. e > 0 \<and> openvpn_getaddrinfo env GETADDR_RESOLVE (Some h) None 0 None AF_INET6 w = Inr (e, None, None, w')"
  proof -
    define q where "q = \<lparr>gq_host = Some h, gq_serv = None, gq_family = AF_INET6, gq_numeric = True,
        gq_passive = (GETADDR_RESOLVE AND GETADDR_PASSIVE \<noteq> 0), gq_dgram = (GETADDR_RESOLVE AND GETADDR_DATAGRAM \<noteq> 0)\<rparr>"
    obtain e where e: "e > 0" "getaddrinfo env q w = (e, None, w\<lparr>nw_queries := nw_queries w + 1\<rparr>)" using g by blast
    obtain e' w' where l: "e' > 0" "gai_loop env (q\<lparr>gq_host := Some h, gq_numeric := False\<rparr>) False 0 None (w\<lparr>nw_queries := nw_queries w + 1\<rparr>) =
        Inr (e', None, None, w')" using lo by blast
    show ?thesis
      using e l by (cases "e = EAI_FAIL")
        (auto simp: openvpn_getaddrinfo_def Let_def fl q_def [symmetric] fail_wait_interval_def)
  qed
  then obtain e w' where "e > 0" "openvpn_getaddrinfo env GETADDR_RESOLVE (Some h) None 0 None AF_INET6 w = Inr (e, None, None, w')" by blast
  then show ?thesis
    using assms(1) by (auto simp: get_ipv6_addr_def get_addr_generic_def Let_def t fl(1) freeaddrinfo_def)
qed

text \<open>A prefix length behind a slash is taken off; an empty one is taken for 0, instead of an error.\<close>

lemma strtoul_digits:
  assumes "ds \<noteq> []" and "list_all isdigit ds" and "foldl (\<lambda>n d. 10 * n + (unat d - 48)) 0 ds < 2 ^ 32"
  shows "strtoul ds = (foldl (\<lambda>n d. 10 * n + (unat d - 48)) 0 ds, [])"
proof -
  obtain d ds' where d: "ds = d # ds'" using assms(1) by (cases ds) auto
  have "isdigit d" using assms(2) d by simp
  then have "\<not> isspace d" "d \<noteq> 45" "d \<noteq> 43" by (auto simp: isdigit_def isspace_def)
  moreover have "takeWhile isdigit ds = ds" "dropWhile isdigit ds = []"
    using assms(2) by (simp_all add: takeWhile_eq_all_conv dropWhile_eq_Nil_conv list_all_iff)
  ultimately show ?thesis using assms(1,3) by (simp add: strtoul_def d Let_def)
qed

lemma prefix_split:
  assumes "47 \<notin> set h"
  shows "takeWhile (\<lambda>c. c \<noteq> 47) (h @ 47 # t) = h" and "dropWhile (\<lambda>c. c \<noteq> 47) (h @ 47 # t) = 47 # t"
  using assms by (simp_all add: takeWhile_append dropWhile_append)

lemma get_addr_prefix:
  assumes "47 \<notin> set h" and "strtoul t = (n, [])" and "n \<le> (if af = AF_INET then 32 else 128)" and "af = AF_INET \<or> af = AF_INET6"
  shows "get_addr_generic env af flags (Some (h @ 47 # t)) secs sig w =
         bindE (get_addr_generic env af flags (Some h) secs sig w)
           (\<lambda>(ret, network, bits, sig1, w1). Inr (ret, network, Some n, sig1, w1))"
proof -
  have t: "takeWhile (\<lambda>c. c \<noteq> 47) h = h" using assms(1) by (auto simp: takeWhile_eq_all_conv)
  have b: "\<not> n > (if af = AF_INET then 32 else 128)" "(af \<noteq> AF_INET \<and> af \<noteq> AF_INET6) = False" using assms(3,4) by auto
  have m: "(47 \<in> set (h @ 47 # t)) = True" "(47 \<in> set h) = False" using assms(1) by simp_all
  show ?thesis
    unfolding get_addr_generic_def option.case Let_def prefix_split [OF assms(1)] t m b(2) list.sel if_True if_False assms(2) prod.case
    by (simp only: b(1) simp_thms if_False bindE_assoc case_prod_unfold prod.sel bindE_simps)
qed

lemma empty_prefix_is_zero: "strtoul [] = (0, [])"
  by (simp add: strtoul_def)

section \<open>The cache forgets the family\<close>

lemma streqnull_refl [simp]: "streqnull a b \<longleftrightarrow> a = b"
  by (simp add: streqnull_def split: option.splits)

lemma get_cached_append:
  "get_cached_dns_entry (as @ bs) h s f fl =
     (if fst (get_cached_dns_entry as h s f fl) = 0 then get_cached_dns_entry as h s f fl else get_cached_dns_entry bs h s f fl)"
  by (induction as) auto

lemma get_cached_status: "fst (get_cached_dns_entry c h s f fl) = 0 \<or> fst (get_cached_dns_entry c h s f fl) = - 1"
  by (induction c) auto

text \<open>
  A name that was resolved in advance for one family is not found again: the entry is stored without the family. It
  is found instead by whoever asks for any family, who then gets addresses of the one family only.
\<close>

lemma preresolve_forgets_family:
  assumes "do_preresolve_host env secs cache hostname servname af flags w = Inr (0, cache', w')"
    and "fst (get_cached_dns_entry cache hostname servname af flags) \<noteq> 0"
    and "fst (get_cached_dns_entry cache hostname servname AF_UNSPEC flags) \<noteq> 0"
  shows "\<exists>ai sig. openvpn_getaddrinfo env flags hostname servname secs None af w = Inr (0, ai, sig, w') \<and>
           get_cached_dns_entry cache' hostname servname AF_UNSPEC flags = (0, ai) \<and>
           (af \<noteq> AF_UNSPEC \<longrightarrow> get_cached_dns_entry cache' hostname servname af flags = (- 1, None))"
proof -
  obtain ai sig where g: "openvpn_getaddrinfo env flags hostname servname secs None af w = Inr (0, ai, sig, w')"
      "cache' = cache @ [\<lparr>cd_hostname = hostname, cd_servname = servname, cd_ai_family = 0,
                          cd_flags = flags AND GETADDR_CACHE_MASK, cd_ai = ai\<rparr>]"
    using assms(1,2) by (auto simp: do_preresolve_host_def bindE_Inr_iff Let_def split: if_splits)
  then show ?thesis using assms(2,3) by (auto simp: get_cached_append AF_UNSPEC_def)
qed

end
