(* ===== verification/Sock_Setup_Laws.thy ===== *)
theory Sock_Setup_Laws
  imports Sock_Setup Resolve_Laws
begin

text \<open>
  \<open>src/Treiber/lib/socket.c\<close>: connecting takes a bounded number of waits, and no descriptor is lost between the first call of the second phase
  and the end of the connection.
\<close>

unbundle bit_operations_syntax

section \<open>Connecting ends\<close>

lemma connect_loop_bound:
  "connect_loop y t w = (status, sig, w') \<Longrightarrow>
     sw_selects w' \<le> sw_selects w + nat t + 1 \<and> sw_open w' = sw_open w \<and> sw_net w' = sw_net w"
proof (induction y t w arbitrary: status sig w' rule: connect_loop.induct)
  case (1 y t w)
  obtain st sg w1 where wt: "sys_wait y w = (st, sg, w1)" by (cases "sys_wait y w")
  then have w1: "sw_selects w1 = sw_selects w + 1" "sw_open w1 = sw_open w" "sw_net w1 = sw_net w"
    by (auto simp: sys_wait_def tick_def)
  show ?case
  proof (cases "sg = 0 \<and> \<not> st < 0 \<and> st \<le> 0 \<and> \<not> t - 1 < 0")
    case True
    have st: "connect_loop y t w = connect_loop y (t - 1) w1"
      using True by (subst connect_loop.simps) (simp add: wt)
    have "sw_selects w' \<le> sw_selects w1 + nat (t - 1) + 1 \<and> sw_open w' = sw_open w1 \<and> sw_net w' = sw_net w1"
      using 1(1) [OF wt [symmetric] refl refl] True 1(2) unfolding st by blast
    moreover have "nat (t - 1) + 1 = nat t" using True by linarith
    ultimately show ?thesis using w1 by (intro conjI) (linarith, simp, simp)
  next
    case False
    define e where "e = sy_errno y (sw_calls w1)"
    define v where "v = (case sy_error y (sw_calls w1) of Some val \<Rightarrow> val | None \<Rightarrow> e)"
    have "connect_loop y t w =
        (if sg \<noteq> 0 then (0, sg, w1) else if st < 0 then (e, sg, w1) else if st \<le> 0 then (WSAETIMEDOUT, sg, w1) else (v, sg, tick w1))"
      using False by (subst connect_loop.simps) (auto simp: wt e_def v_def split: option.splits)
    then have "w' = w1 \<or> w' = tick w1" using 1(2) by (auto split: if_splits)
    then have "sw_selects w' = sw_selects w1 \<and> sw_open w' = sw_open w1 \<and> sw_net w' = sw_net w1" by (auto simp: tick_def)
    then show ?thesis using w1 by simp
  qed
qed

text \<open>
  Connecting waits at most one time more than the seconds it has left, and keeps the set of open descriptors. The
  descriptor is closed when the connection fails, and kept when it succeeds or a signal arrives.
\<close>

lemma openvpn_connect_bound:
  assumes "openvpn_connect y t sig w = (status, sig', w')"
  shows "sw_selects w' \<le> sw_selects w + nat t + 1 \<and> sw_open w' = sw_open w \<and> sw_net w' = sw_net w"
  using assms connect_loop_bound [of y t "tick w" status sig' w']
  by (auto simp: openvpn_connect_def Let_def tick_def split: if_splits)

lemma socket_connect_outcome:
  assumes "socket_connect y sd t si w = (sd', si', w')"
  shows "sw_selects w' \<le> sw_selects w + nat t + 1 \<and> sw_net w' = sw_net w \<and>
         (sd' = sd \<and> sw_open w' = sw_open w \<or>
          sd' = SOCKET_UNDEFINED \<and> sw_open w' = sw_open w - {sd} \<and> signal_received si' = SIGUSR1)"
proof -
  obtain st sg w1 where c: "openvpn_connect y t (signal_received si) w = (st, sg, w1)"
    by (cases "openvpn_connect y t (signal_received si) w")
  let ?sg = "sy_signal y (sw_calls w1)"
  have e: "sw_selects (tick w1) = sw_selects w1" "sw_open (tick w1) = sw_open w1" "sw_net (tick w1) = sw_net w1"
    by (simp_all add: tick_def)
  note b = openvpn_connect_bound [OF c]
  consider "?sg \<noteq> 0" | "?sg = 0" "st \<noteq> 0" | "?sg = 0" "st = 0" by blast
  then show ?thesis
  proof cases
    case 1
    then show ?thesis using assms b e by (simp add: socket_connect_def Let_def c)
  next
    case 2
    then have "sd' = SOCKET_UNDEFINED" "signal_received si' = SIGUSR1" and w': "w' = openvpn_close_socket sd (tick w1)"
      using assms by (auto simp: socket_connect_def Let_def c)
    moreover have "sw_selects w' = sw_selects w1" "sw_open w' = sw_open w1 - {sd}" "sw_net w' = sw_net w1"
      unfolding w' openvpn_close_socket_def tick_def by simp_all
    ultimately show ?thesis using b by simp
  next
    case 3
    then show ?thesis using assms b e by (simp add: socket_connect_def Let_def c)
  qed
qed

section \<open>No descriptor is lost\<close>

text \<open>What the system promises of a new descriptor: it is not open yet, unless it is the value of a failure.\<close>

definition fresh_sockets :: "sys \<Rightarrow> bool" where
  "fresh_sockets y \<longleftrightarrow> (\<forall>n H. SOCKET_UNDEFINED \<notin> H \<longrightarrow> sy_socket y n H \<notin> H \<and> fst (sy_accept y n H) \<notin> H)"

definition defined_set :: "nat \<Rightarrow> nat set" where "defined_set sd = (if socket_defined sd then {sd} else {})"

text \<open>The open descriptors are those of others, and the two of the socket.\<close>

definition owns :: "nat set \<Rightarrow> nat \<Rightarrow> nat \<Rightarrow> sys_world \<Rightarrow> bool" where
  "owns H sd cd w \<longleftrightarrow>
     sw_open w = H \<union> defined_set sd \<union> defined_set cd \<and> H \<inter> (defined_set sd \<union> defined_set cd) = {} \<and>
     defined_set sd \<inter> defined_set cd = {} \<and> SOCKET_UNDEFINED \<notin> H"

lemma defined_set_simps [simp]: "defined_set SOCKET_UNDEFINED = {}"
  by (simp add: defined_set_def socket_defined_def)

lemma owns_swap: "owns H sd cd w \<longleftrightarrow> owns H cd sd w"
  by (auto simp: owns_def)

lemma owns_same: "sw_open w' = sw_open w \<Longrightarrow> owns H sd cd w \<Longrightarrow> owns H sd cd w'"
  by (simp add: owns_def)

lemma owns_new:
  assumes "sys_socket y w = (sd, w')" and "fresh_sockets y" and "owns H SOCKET_UNDEFINED cd w"
  shows "owns H sd cd w'"
proof -
  have "SOCKET_UNDEFINED \<notin> sw_open w" using assms(3) by (auto simp: owns_def defined_set_def socket_defined_def split: if_splits)
  then have "sy_socket y (sw_calls w) (sw_open w) \<notin> sw_open w" using assms(2) by (simp add: fresh_sockets_def)
  then show ?thesis using assms(1,3) by (auto simp: sys_socket_def owns_def defined_set_def tick_def Let_def socket_defined_def)
qed

lemma owns_close: "owns H sd cd w \<Longrightarrow> owns H SOCKET_UNDEFINED cd (openvpn_close_socket sd w)"
  by (auto simp: owns_def openvpn_close_socket_def tick_def defined_set_def socket_defined_def)

lemma owns_connect:
  assumes "socket_connect y sd t si w = (sd', si', w')" and "owns H sd cd w"
  shows "owns H sd' cd w'"
proof -
  consider "sd' = sd" "sw_open w' = sw_open w" | "sd' = SOCKET_UNDEFINED" "sw_open w' = sw_open w - {sd}"
    using socket_connect_outcome [OF assms(1)] by blast
  then show ?thesis
  proof cases
    case 1
    then show ?thesis using assms(2) owns_same by blast
  next
    case 2
    then show ?thesis
      using owns_close [OF assms(2)] by (simp add: owns_def openvpn_close_socket_def)
  qed
qed

lemma socket_bind_open: "socket_bind y local fam w = Inr w' \<Longrightarrow> sw_open w' = sw_open w"
  by (auto simp: socket_bind_def tick_def Let_def split: option.splits list.splits if_splits)

text \<open>The members that creating a socket and looking for the peer leave alone.\<close>

definition same_setup :: "sock_setup \<Rightarrow> sock_setup \<Rightarrow> bool" where
  "same_setup s s' \<longleftrightarrow>
     sk_proto s' = sk_proto s \<and> sk_mode s' = sk_mode s \<and> sk_inetd s' = sk_inetd s \<and> sk_remote_host s' = sk_remote_host s \<and>
     sk_socks_proxy s' = sk_socks_proxy s \<and> sk_bind_local s' = sk_bind_local s \<and> sk_bind_list s' = sk_bind_list s \<and>
     sk_dns_cache s' = sk_dns_cache s"

lemma owns_create:
  assumes "create_socket y s adr w = Inr (s', w')" and "fresh_sockets y" and "owns H SOCKET_UNDEFINED (sk_ctrl_sd s) w"
    and "sk_socks_proxy s \<noteq> None \<Longrightarrow> sk_ctrl_sd s = SOCKET_UNDEFINED"
  shows "owns H (sk_sd s') (sk_ctrl_sd s') w' \<and> same_setup s s'"
proof -
  obtain a l where a: "snd adr = a # l" using assms(1) by (cases "snd adr") (auto simp: create_socket_def)
  let ?udp = "ra_protocol a = IPPROTO_UDP \<or> ra_socktype a = SOCK_DGRAM"
  obtain s1 w1 where c: "(if ?udp
                 then bindE (create_socket_udp y (Some a) w)
                   (\<lambda>(sd, w1). let s1 = s\<lparr>sk_sd := sd, sk_sockflags := sk_sockflags s OR SF_GETADDRINFO_DGRAM\<rparr>
                     in if sk_socks_proxy s \<noteq> None
                        then bindE (create_socket_tcp y (Some (a\<lparr>ra_socktype := SOCK_STREAM, ra_protocol := IPPROTO_TCP\<rparr>)) w1)
                               (\<lambda>(cd, w2). Inr (s1\<lparr>sk_ctrl_sd := cd\<rparr>, w2))
                        else Inr (s1, w1))
                 else if ra_protocol a = IPPROTO_TCP \<or> ra_socktype a = SOCK_STREAM
                 then bindE (create_socket_tcp y (Some a) w) (\<lambda>(sd, w1). Inr (s\<lparr>sk_sd := sd\<rparr>, w1))
                 else Inl AssertFail) = Inr (s1, w1)"
      "bind_local y s1 (ai_family (ra_info a)) w1 = Inr w'" "s' = s1"
    using assms(1) by (auto simp: create_socket_def a bindE_Inr_iff)
  have o: "sw_open w' = sw_open w1" using c(2) socket_bind_open by (auto simp: bind_local_def split: if_splits)
  have "owns H (sk_sd s1) (sk_ctrl_sd s1) w1 \<and> same_setup s s1"
  proof (cases ?udp)
    case True
    obtain sd w2 where u: "create_socket_udp y (Some a) w = Inr (sd, w2)"
      using c(1) True by (auto simp: bindE_Inr_iff)
    then have n: "owns H sd (sk_ctrl_sd s) w2"
      using owns_new assms(2,3) by (auto simp: create_socket_udp_def bindE_Inr_iff)
    show ?thesis
    proof (cases "sk_socks_proxy s = None")
      case True
      have "s1 = s\<lparr>sk_sd := sd, sk_sockflags := sk_sockflags s OR SF_GETADDRINFO_DGRAM\<rparr>" "w1 = w2"
        using c(1) \<open>?udp\<close> True u by auto
      then show ?thesis using n by (simp add: same_setup_def)
    next
      case False
      then have z: "sk_ctrl_sd s = SOCKET_UNDEFINED" using assms(4) by simp
      obtain cd where t: "create_socket_tcp y (Some (a\<lparr>ra_socktype := SOCK_STREAM, ra_protocol := IPPROTO_TCP\<rparr>)) w2 = Inr (cd, w1)"
          "s1 = s\<lparr>sk_sd := sd, sk_sockflags := sk_sockflags s OR SF_GETADDRINFO_DGRAM, sk_ctrl_sd := cd\<rparr>"
        using c(1) \<open>?udp\<close> False u by (auto simp: bindE_Inr_iff)
      have "owns H cd sd w1"
        using t(1) owns_new [of y w2 cd w1 H sd] assms(2) n unfolding z by (auto simp: create_socket_tcp_def owns_swap)
      then show ?thesis using t(2) by (simp add: owns_swap same_setup_def)
    qed
  next
    case False
    then obtain sd where "create_socket_tcp y (Some a) w = Inr (sd, w1)" "s1 = s\<lparr>sk_sd := sd\<rparr>"
      using c(1) by (auto simp: bindE_Inr_iff split: if_splits)
    then show ?thesis
      using owns_new assms(2,3) by (auto simp: create_socket_tcp_def bindE_Inr_iff same_setup_def)
  qed
  then show ?thesis using o c(3) by (auto intro: owns_same)
qed

section \<open>The second phase keeps its descriptors\<close>

lemma sys_wait_open: "sys_wait y w = (st, sg, w') \<Longrightarrow> sw_open w' = sw_open w \<and> sw_net w' = sw_net w"
  by (auto simp: sys_wait_def tick_def)

lemma do_accept_open:
  assumes "socket_do_accept y act nowait w = (sd, act', w')" and "fresh_sockets y" and "SOCKET_UNDEFINED \<notin> sw_open w"
  shows "sw_open w' = sw_open w \<union> defined_set sd \<and> sw_open w \<inter> defined_set sd = {} \<and> sw_net w' = sw_net w"
proof (cases nowait)
  case True
  then show ?thesis using assms(1) by (auto simp: socket_do_accept_def Let_def socket_defined_def)
next
  case False
  obtain sd0 peer len w1 where a: "sys_accept y w = ((sd0, peer, len), w1)" by (metis surj_pair)
  have "fst (sy_accept y (sw_calls w) (sw_open w)) = sd0" using a by (auto simp: sys_accept_def Let_def)
  then have f: "sd0 \<notin> sw_open w" using assms(2,3) unfolding fresh_sockets_def by blast
  have o: "sw_open w1 = sw_open w \<union> defined_set sd0" "sw_net w1 = sw_net w"
    using a by (auto simp: sys_accept_def Let_def tick_def defined_set_def)
  consider "\<not> socket_defined sd0" | "socket_defined sd0" "af_addr_size (sa_family act) \<noteq> 0 \<and> len \<noteq> af_addr_size (sa_family act)"
    | "socket_defined sd0" "\<not> (af_addr_size (sa_family act) \<noteq> 0 \<and> len \<noteq> af_addr_size (sa_family act))" by blast
  then show ?thesis
  proof cases
    case 1
    then have "sd = sd0" "w' = w1" using assms(1) False by (simp_all add: socket_do_accept_def Let_def a)
    then show ?thesis using o 1 by (simp add: defined_set_def)
  next
    case 2
    then have "sd = SOCKET_UNDEFINED" "w' = openvpn_close_socket sd0 w1" using assms(1) False by (simp_all add: socket_do_accept_def Let_def a)
    then show ?thesis using o 2 f by (simp add: defined_set_def [of sd0] openvpn_close_socket_def tick_def)
  next
    case 3
    then have "sd = sd0" "w' = w1" using assms(1) False by (auto simp add: socket_do_accept_def Let_def a)
    then show ?thesis using o 3 f by (simp add: defined_set_def)
  qed
qed

lemma accept_loop_open:
  assumes "fresh_sockets y"
  shows "accept_loop n y sd rv rd act nowait w = Some (Inr ((sd', intr), act', sig, w')) \<Longrightarrow> SOCKET_UNDEFINED \<notin> sw_open w \<Longrightarrow>
     (if intr then sd' = sd \<and> sw_open w' = sw_open w
      else sw_open w' = sw_open w \<union> defined_set sd' \<and> sw_open w \<inter> defined_set sd' = {} \<and> sig = 0)"
proof (induction n arbitrary: w act)
  case (Suc n)
  obtain st sg w1 where wt: "sys_wait y w = (st, sg, w1)" by (cases "sys_wait y w")
  note o1 = sys_wait_open [OF wt]
  obtain nsd act1 w2 where a: "socket_do_accept y act nowait w1 = (nsd, act1, w2)" by (cases "socket_do_accept y act nowait w1")
  have u1: "SOCKET_UNDEFINED \<notin> sw_open w1" using o1 Suc.prems(2) by simp
  note o2 = do_accept_open [OF a assms u1]
  show ?case
  proof (cases "sg \<noteq> 0 \<or> st \<le> 0")
    case True
    then show ?thesis
      using Suc.prems(1) Suc.IH [of act w1] o1 u1 by (cases "sg = 0") (auto simp: wt)
  next
    case False
    show ?thesis
    proof (cases "socket_defined nsd")
      case nd: False
      have "accept_loop n y sd rv rd act1 nowait w2 = Some (Inr ((sd', intr), act', sig, w'))" "sw_open w2 = sw_open w"
        using Suc.prems(1) False nd o1 o2 by (simp_all add: wt a defined_set_def)
      moreover from this(2) have "SOCKET_UNDEFINED \<notin> sw_open w2" using Suc.prems(2) by simp
      ultimately show ?thesis using Suc.IH [of act1 w2] by auto
    next
      case d: True
      obtain ai nw where r: "(case rd of None \<Rightarrow> Inr (None, sw_net w2)
          | Some h \<Rightarrow> bindE (openvpn_getaddrinfo (sy_net y) 0 (Some h) None 1 None (sa_family rv) (sw_net w2))
                        (\<lambda>(st, ai, sg, nw). Inr (ai, nw))) = Inr (ai, nw)"
        using Suc.prems(1) False d by (auto simp: wt a split: sum.splits)
      obtain ok where k: "(case ai of None \<Rightarrow> Inr True | Some (k, l) \<Rightarrow> addrlist_match rv (map ra_info l)) = Inr ok"
        using Suc.prems(1) False d r by (auto simp: wt a Let_def split: sum.splits)
      obtain nw1 where f: "freeaddrinfo ai nw = Inr nw1"
        using Suc.prems(1) False d r k by (auto simp: wt a Let_def split: sum.splits)
      let ?w4 = "w2\<lparr>sw_net := nw1\<rparr>"
      have st: "accept_loop (Suc n) y sd rv rd act nowait w =
          (if \<not> ok then accept_loop n y sd rv rd act1 nowait (openvpn_close_socket nsd ?w4)
           else Some (Inr ((nsd, False), act1, 0, ?w4)))"
        using False d r k f by (simp add: wt a Let_def)
      show ?thesis
      proof (cases ok)
        case True
        then show ?thesis using Suc.prems(1) o1 o2 unfolding st by auto
      next
        case rej: False
        have "sw_open (openvpn_close_socket nsd ?w4) = sw_open w"
          using o1 o2 d by (auto simp: openvpn_close_socket_def tick_def defined_set_def)
        then show ?thesis using Suc.prems rej Suc.IH [of act1 "openvpn_close_socket nsd ?w4"] unfolding st by auto
      qed
    qed
  qed
qed simp

lemma listen_accept_owns:
  assumes "socket_listen_accept n y sd act rd local do_listen False w = Some (Inr (sd', act', sig, w'))" and "fresh_sockets y" and "owns H sd cd w"
  shows "owns H sd' cd w'"
proof -
  obtain w1 where l: "socket_do_listen y local do_listen w = Inr w1"
    using assms(1) by (auto simp: socket_listen_accept_def split: sum.splits)
  have o1: "sw_open w1 = sw_open w" using l by (auto simp: socket_do_listen_def tick_def bindE_Inr_iff split: if_splits)
  obtain intr w2 where a: "accept_loop n y sd act rd empty_sockaddr False w1 = Some (Inr ((sd', intr), act', sig, w2))"
      "w' = (if \<not> intr then openvpn_close_socket sd w2 else w2)"
    using assms(1) l by (auto simp: socket_listen_accept_def bindE_Inr_iff)
  have ow: "owns H sd cd w1" using owns_same [OF o1 assms(3)] .
  then have u: "SOCKET_UNDEFINED \<notin> sw_open w1" by (auto simp: owns_def defined_set_def socket_defined_def)
  note acc = accept_loop_open [OF assms(2) a(1) u]
  show ?thesis
  proof (cases intr)
    case True
    then show ?thesis using acc a(2) ow owns_same by auto
  next
    case False
    have w': "sw_open w' = sw_open w2 - {sd}" using a(2) False by (simp add: openvpn_close_socket_def tick_def)
    have acc1: "sw_open w2 = sw_open w1 \<union> defined_set sd'" "sw_open w1 \<inter> defined_set sd' = {}" using acc False by simp_all
    note os = ow [unfolded owns_def]
    have d: "defined_set sd \<subseteq> {sd}" "sd \<in> defined_set sd \<or> sd = SOCKET_UNDEFINED" by (auto simp: defined_set_def socket_defined_def)
    have n: "sd \<notin> H" "sd \<notin> defined_set cd" "sd \<notin> defined_set sd'"
      using os d(2) acc1(2) by (auto simp: defined_set_def socket_defined_def split: if_splits)
    have "sw_open w' = H \<union> defined_set sd' \<union> defined_set cd" unfolding w' acc1(1) using os d(1) n by blast
    then show ?thesis unfolding owns_def using os acc1(2) by blast
  qed
qed

lemma client_loop_owns:
  "client_loop y px ts s si w = Inr (s', si', w') \<Longrightarrow> fresh_sockets y \<Longrightarrow> owns H (sk_sd s) (sk_ctrl_sd s) w \<Longrightarrow>
     owns H (sk_sd s') (sk_ctrl_sd s') w'"
proof (induction ts arbitrary: s si w)
  case Nil
  obtain a where h: "head_of (sk_current_remote s) = Inr a" using Nil.prems(1) by (auto simp: bindE_Inr_iff)
  obtain sd si1 w1 where c: "socket_connect y (sk_sd s) (sy_timeout y (sw_calls w)) si w = (sd, si1, w1)"
    by (cases "socket_connect y (sk_sd s) (sy_timeout y (sw_calls w)) si w")
  show ?case using Nil.prems(1) owns_connect [OF c Nil.prems(3)] by (auto simp: h c Let_def split: if_splits)
next
  case (Cons t ts)
  obtain a where h: "head_of (sk_current_remote s) = Inr a" using Cons.prems(1) by (auto simp: bindE_Inr_iff)
  obtain sd si1 w1 where c: "socket_connect y (sk_sd s) (sy_timeout y (sw_calls w)) si w = (sd, si1, w1)"
    by (cases "socket_connect y (sk_sd s) (sy_timeout y (sw_calls w)) si w")
  note o = owns_connect [OF c Cons.prems(3)]
  show ?case
  proof (cases "signal_received si1 = 0 \<and> sk_http_proxy s \<noteq> None")
    case False
    then show ?thesis using Cons.prems(1) o by (auto simp: h c Let_def split: if_splits)
  next
    case True
    obtain sd1 w2 where n: "create_socket_tcp y (Some a) (openvpn_close_socket sd w1) = Inr (sd1, w2)"
        "client_loop y px ts (s\<lparr>sk_sd := sd1\<rparr>) (si1\<lparr>signal_received := t\<rparr>) w2 = Inr (s', si', w')"
      using Cons.prems(1) True by (auto simp: h c Let_def bindE_Inr_iff)
    have "owns H sd1 (sk_ctrl_sd s) w2"
      using n(1) owns_new [OF _ Cons.prems(2) owns_close [OF o]] by (auto simp: create_socket_tcp_def bindE_Inr_iff)
    then show ?thesis using Cons.IH [OF n(2) Cons.prems(2)] by simp
  qed
qed

lemma remote_lookup_socket:
  assumes "remote_lookup env s ph sig w = Inr (fin, s', sig', w')"
  shows "same_setup s s' \<and> sk_sd s' = sk_sd s \<and> sk_ctrl_sd s' = sk_ctrl_sd s"
proof (cases "sk_remote_list s = None \<and> sk_remote_host s \<noteq> None")
  case False
  then have "s' = s" using assms unfolding remote_lookup_def by (simp only: if_False) simp
  then show ?thesis by (simp add: same_setup_def)
next
  case True
  obtain dgram flags retry where d: "proto_is_dgram (sk_proto s) = Inr dgram" "remote_query s ph dgram = Inr (flags, retry)"
    using assms True by (auto simp: remote_lookup_def bindE_Inr_iff)
  obtain st ai where c: "get_cached_dns_entry (sk_dns_cache s) (sk_remote_host s) (sk_remote_port s) (sk_af s) flags = (st, ai)"
    by (metis surj_pair)
  obtain st1 ai1 sig1 w1 where g: "(if st \<noteq> 0 then openvpn_getaddrinfo env flags (sk_remote_host s) (sk_remote_port s) retry sig (sk_af s) w
      else Inr (st, ai, sig, w)) = Inr (st1, ai1, sig1, w1)"
    using assms True by (auto simp: remote_lookup_def d c Let_def bindE_Inr_iff)
  have "s' = s \<or> s' = s\<lparr>sk_remote_list := ai1, sk_current_remote := ai1\<rparr>"
    using assms True unfolding remote_lookup_def
    by (simp only: d c g if_True bindE_simps prod.case Let_def) (auto split: if_splits)
  then show ?thesis by (auto simp: same_setup_def)
qed

lemma resolve_remote_socket:
  assumes "resolve_remote env s ph rd sig w = Inr (s', rd', sig', w')"
  shows "same_setup s s' \<and> sk_sd s' = sk_sd s \<and> sk_ctrl_sd s' = sk_ctrl_sd s"
proof -
  obtain fin s1 sg w1 where l: "remote_lookup env s ph sig w = Inr (fin, s1, sg, w1)"
      "(if fin then Inr (s1, rd, sg, w1) else bindE (reuse_actual s1 rd) (\<lambda>(s2, rd). Inr (s2, rd, sg, w1))) = Inr (s', rd', sig', w')"
    using assms by (auto simp: resolve_remote_def bindE_Inr_iff)
  note s1 = remote_lookup_socket [OF l(1)]
  have "s' = s1 \<or> (\<exists>a. s' = s1\<lparr>sk_actual := a\<rparr>)"
    using l(2) by (auto simp: reuse_actual_def bindE_Inr_iff split: if_splits option.splits)
  then show ?thesis using s1 by (auto simp: same_setup_def)
qed

lemma phase2_create_owns:
  assumes "phase2_create y s w = Inr (s', w')" and "fresh_sockets y" and "owns H SOCKET_UNDEFINED SOCKET_UNDEFINED w"
    and "sk_sd s = SOCKET_UNDEFINED" and "sk_ctrl_sd s = SOCKET_UNDEFINED" and "sk_socks_proxy s = None \<or> sk_remote_host s \<noteq> None"
  shows "owns H (sk_sd s') (sk_ctrl_sd s') w' \<and> same_setup s s'"
proof -
  obtain s1 w1 where c: "(case sk_current_remote s of Some a \<Rightarrow> create_socket y s a w | None \<Rightarrow> Inr (s, w)) = Inr (s1, w1)"
      "(if sk_sd s1 = SOCKET_UNDEFINED \<and> sk_bind_local s1 \<and> sk_remote_host s1 = None
        then (case sk_bind_list s1 of None \<Rightarrow> Inr (s1, w1)
              | Some b \<Rightarrow> bindE (head_of (Some b))
                  (\<lambda>a. create_socket y (if sk_af s1 = AF_UNSPEC then s1\<lparr>sk_af := ai_family (ra_info a)\<rparr> else s1) b w1))
        else Inr (s1, w1)) = Inr (s', w')"
    using assms(1) unfolding phase2_create_def bindE_Inr_iff by auto
  have o1: "owns H (sk_sd s1) (sk_ctrl_sd s1) w1 \<and> same_setup s s1"
  proof (cases "sk_current_remote s")
    case None
    then show ?thesis using c(1) assms(3-5) by (auto simp: same_setup_def)
  next
    case (Some a)
    then have "create_socket y s a w = Inr (s1, w1)" using c(1) by simp
    from owns_create [OF this assms(2), of H] show ?thesis using assms(3,5) by simp
  qed
  then have f: "sk_remote_host s1 = sk_remote_host s" "sk_socks_proxy s1 = sk_socks_proxy s" by (simp_all add: same_setup_def)
  show ?thesis
  proof (cases "sk_sd s1 = SOCKET_UNDEFINED \<and> sk_bind_local s1 \<and> sk_remote_host s1 = None \<and> sk_bind_list s1 \<noteq> None")
    case False
    then have "s' = s1" "w' = w1" using c(2) by (auto split: if_splits option.splits)
    then show ?thesis using o1 by simp
  next
    case True
    then obtain b where b: "sk_bind_list s1 = Some b" by auto
    obtain a :: resolved where h: "create_socket y (if sk_af s1 = AF_UNSPEC then s1\<lparr>sk_af := ai_family (ra_info a)\<rparr> else s1) b w1 = Inr (s', w')"
    proof -
      have "bindE (head_of (Some b))
          (\<lambda>a. create_socket y (if sk_af s1 = AF_UNSPEC then s1\<lparr>sk_af := ai_family (ra_info a)\<rparr> else s1) b w1) = Inr (s', w')"
        using c(2) True b by simp
      from bindE_Inr_iff [THEN iffD1, OF this] show ?thesis using that by blast
    qed
    let ?s = "if sk_af s1 = AF_UNSPEC then s1\<lparr>sk_af := ai_family (ra_info a)\<rparr> else s1"
    have g: "sk_ctrl_sd ?s = sk_ctrl_sd s1" "sk_socks_proxy ?s = sk_socks_proxy s1" "same_setup s1 ?s" by (auto simp: same_setup_def)
    have np: "sk_socks_proxy ?s = None" using True f assms(6) g(2) by auto
    have ow: "owns H SOCKET_UNDEFINED (sk_ctrl_sd ?s) w1" using o1 True g(1) by simp
    from owns_create [OF h assms(2) ow] np have "owns H (sk_sd s') (sk_ctrl_sd s') w'" "same_setup ?s s'" by auto
    then show ?thesis using o1 g(3) unfolding same_setup_def by metis
  qed
qed

lemma socks_client_owns:
  assumes "phase2_socks_client y px s si w = Inr (s', si', w')" and "owns H (sk_sd s) (sk_ctrl_sd s) w"
  shows "owns H (sk_sd s') (sk_ctrl_sd s') w'"
proof -
  obtain a where h: "head_of (sk_current_remote s) = Inr a" using assms(1) by (auto simp: phase2_socks_client_def bindE_Inr_iff)
  obtain cd si1 w1 where c: "socket_connect y (sk_ctrl_sd s) (sy_timeout y (sw_calls w)) si w = (cd, si1, w1)"
    by (cases "socket_connect y (sk_ctrl_sd s) (sy_timeout y (sw_calls w)) si w")
  have o: "owns H (sk_sd s) cd w1" using owns_connect [OF c] assms(2) owns_swap by blast
  show ?thesis
  proof (cases "signal_received si1 \<noteq> 0 \<or> snd (px_udpassoc px) \<noteq> 0")
    case True
    then have "sk_sd s' = sk_sd s" "sk_ctrl_sd s' = cd" "w' = w1"
      using assms(1) by (auto simp: phase2_socks_client_def h c Let_def split: if_splits)
    then show ?thesis using o by simp
  next
    case False
    obtain act where z: "addr_zero_host (sk_actual s) = Inr act"
      using assms(1) False by (auto simp: phase2_socks_client_def h c Let_def bindE_Inr_iff)
    have "sk_sd s' = sk_sd s" "sk_ctrl_sd s' = cd" "sw_open w' = sw_open w1"
      using assms(1) False
      by (cases "sk_remote_list s"; auto simp: phase2_socks_client_def h c z Let_def bindE_Inr_iff dest!: resolve_remote_socket)+
    then show ?thesis using o owns_same by auto
  qed
qed

lemma phase2_connect_owns:
  assumes "phase2_connect n y px s rd si w = Some (Inr (s', si', w'))" and "fresh_sockets y" and "owns H (sk_sd s) (sk_ctrl_sd s) w"
    and "sk_mode s \<noteq> LS_MODE_TCP_ACCEPT_FROM"
  shows "owns H (sk_sd s') (sk_ctrl_sd s') w'"
proof (cases "sk_proto s = PROTO_TCP_SERVER")
  case True
  obtain sig where t: "phase2_tcp_server n y s rd w = Some (Inr (s', sig, w'))"
    using assms(1) True by (auto simp: phase2_connect_def bindE_Inr_iff)
  show ?thesis
  proof (cases "sk_mode s = LS_MODE_DEFAULT")
    case True
    then obtain sd act where "socket_listen_accept n y (sk_sd s) (sk_actual s) rd (sk_bind_list s) True False w = Some (Inr (sd, act, sig, w'))"
        "s' = s\<lparr>sk_sd := sd, sk_actual := act\<rparr>"
      using t by (auto simp: phase2_tcp_server_def bindE_Inr_iff)
    then show ?thesis using listen_accept_owns assms(2,3) by auto
  next
    case False
    then have "s' = s" "sw_open w' = sw_open w"
      using t assms(4) by (auto simp: phase2_tcp_server_def socket_do_listen_def tick_def bindE_Inr_iff split: if_splits)
    then show ?thesis using assms(3) owns_same by auto
  qed
next
  case False
  then show ?thesis
    using assms(1,3) client_loop_owns [OF _ assms(2)] socks_client_owns
    by (auto simp: phase2_connect_def phase2_tcp_client_def split: if_splits)
qed

lemma flags_open: "sw_open (phase2_set_socket_flags y s w) = sw_open w"
  by (simp add: phase2_set_socket_flags_def socket_set_flags_def socket_set_tcp_nodelay_def tick_def)

text \<open>
  C32: Setting a socket up loses no descriptor. However the second phase ends (connected, refused, timed out, retried through a proxy,
  interrupted by a signal, or with no address at all), the descriptors that are open are those that were open before and the two the socket
  names, and closing the socket leaves the ones from before. This is for a socket that has no descriptor yet, that is not taken over from
  inetd nor from an accepted connection (LS_MODE_TCP_ACCEPT_FROM), that has a remote host if it goes through a SOCKS proxy, and without
  the debugging aid that keeps sockets open (gremlin). The system hands out only descriptors that are not open.
\<close>

theorem phase2_keeps_sockets:
  assumes "link_socket_init_phase2 n y px own_family s si w = Some (Inr (s', si', w'))" and "fresh_sockets y"
    and "SOCKET_UNDEFINED \<notin> sw_open w" and "sk_sd s = SOCKET_UNDEFINED" and "sk_ctrl_sd s = SOCKET_UNDEFINED"
    and "sk_inetd s = 0" and "sk_mode s \<noteq> LS_MODE_TCP_ACCEPT_FROM" and "sk_socks_proxy s = None \<or> sk_remote_host s \<noteq> None"
  shows "owns (sw_open w) (sk_sd s') (sk_ctrl_sd s') w' \<and> sw_open (snd (link_socket_close False s' w')) = sw_open w"
proof -
  let ?H = "sw_open w" and ?rd = "if sk_retry_seconds s \<noteq> 0 then sk_remote_host s else None"
  obtain si1 where b: "phase2_body n y px own_family s (si\<lparr>signal_received := 0\<rparr>) w = Some (Inr (s', si1, w'))"
    using assms(1) by (auto simp: link_socket_init_phase2_def Let_def bindE_Inr_iff)
  obtain s1 rd sig nw where r: "resolve_remote (sy_net y) s 2 (Some ?rd) (Some 0) (sw_net w) = Inr (s1, rd, sig, nw)"
    using b assms(6) by (auto simp: phase2_body_def Let_def split: sum.splits)
  note rs = resolve_remote_socket [OF r]
  obtain s2 w2 where c: "phase2_create y s1 (w\<lparr>sw_net := nw\<rparr>) = Inr (s2, w2)"
    using b assms(6) r by (auto simp: phase2_body_def Let_def split: sum.splits)
  have ow: "owns ?H SOCKET_UNDEFINED SOCKET_UNDEFINED (w\<lparr>sw_net := nw\<rparr>)" using assms(3) by (simp add: owns_def)
  have o2: "owns ?H (sk_sd s2) (sk_ctrl_sd s2) w2 \<and> same_setup s1 s2"
    using phase2_create_owns [OF c assms(2) ow] rs assms(4,5,8) by (simp add: same_setup_def)
  have m: "sk_mode s2 \<noteq> LS_MODE_TCP_ACCEPT_FROM" using o2 rs assms(7) by (simp add: same_setup_def)
  have own: "owns ?H (sk_sd s') (sk_ctrl_sd s') w'"
  proof (cases "sk_sd s2 = SOCKET_UNDEFINED \<or> (case sig of Some g \<Rightarrow> g | None \<Rightarrow> 0) \<noteq> 0")
    case True
    then have "s' = s2 \<and> w' = w2"
      using b assms(6) r c by (cases "sk_sd s2 = SOCKET_UNDEFINED") (auto simp: phase2_body_def Let_def split: if_splits)
    then show ?thesis using o2 by simp
  next
    case False
    let ?si1 = "si\<lparr>signal_received := case sig of Some g \<Rightarrow> g | None \<Rightarrow> 0\<rparr>"
    obtain si3 w3 where "phase2_connect n y px s2 (case rd of Some r \<Rightarrow> r | None \<Rightarrow> None) ?si1 w2 = Some (Inr (s', si3, w3))"
        "w' = (if signal_received si3 \<noteq> 0 then w3 else phase2_set_socket_flags y s' w3)"
      using b assms(6) r c False by (auto simp: phase2_body_def Let_def bindE_Inr_iff)
    then show ?thesis using phase2_connect_owns [OF _ assms(2) _ m] o2 owns_same flags_open by (auto split: if_splits)
  qed
  have "sw_open (snd (link_socket_close False s' w')) = ?H"
    using own by (auto simp: owns_def link_socket_close_def Let_def openvpn_close_socket_def tick_def defined_set_def)
  then show ?thesis using own by blast
qed

text \<open>A system with two free descriptors, an address for every name and a peer that connects at once.\<close>

definition example_addr :: "byte list \<Rightarrow> sockaddr" where
  "example_addr ip = \<lparr>sa_family = AF_INET, sa_data = [4, 170] @ ip @ replicate 20 0\<rparr>"

definition example_ai :: "byte list \<Rightarrow> resolved" where
  "example_ai ip = \<lparr>ra_info = \<lparr>ai_family = AF_INET, ai_addr = example_addr ip\<rparr>, ra_socktype = SOCK_DGRAM, ra_protocol = IPPROTO_UDP\<rparr>"

definition example_sys :: sys where
  "example_sys =
     \<lparr>sy_net = example_net\<lparr>ne_lookup := (\<lambda>n q. Inr [example_ai [1, 2, 3, 4]])\<rparr>,
      sy_socket = (\<lambda>n H. if 100 \<notin> H then 100 else if 101 \<notin> H then 101 else SOCKET_UNDEFINED), sy_bind = (\<lambda>n. True),
      sy_listen = (\<lambda>n. True), sy_accept = (\<lambda>n H. (if 200 \<notin> H then 200 else SOCKET_UNDEFINED, example_addr [9, 9, 9, 9], 16)),
      sy_connect = (\<lambda>n. 0), sy_select = (\<lambda>n. 1), sy_error = (\<lambda>n. Some 0), sy_errno = (\<lambda>n. 0), sy_signal = (\<lambda>n. 0),
      sy_option = (\<lambda>n. True), sy_timeout = (\<lambda>n. 5)\<rparr>"

definition example_sys_world :: sys_world where
  "example_sys_world = \<lparr>sw_net = example_world, sw_calls = 0, sw_open = {7}, sw_selects = 0\<rparr>"

text \<open>A client whose peer was found in the first phase.\<close>

definition example_setup :: sock_setup where
  "example_setup = link_socket_new\<lparr>sk_remote_host := Some (asc ''1.2.3.4''), sk_retry_seconds := 5, sk_proto := PROTO_UDP,
     sk_actual := example_addr [1, 2, 3, 4], sk_remote_list := Some (0, [example_ai [1, 2, 3, 4]]),
     sk_current_remote := Some (0, [example_ai [1, 2, 3, 4]])\<rparr>"

definition example_proxies :: proxies where
  "example_proxies = \<lparr>px_http = [], px_http_last = 0, px_socks = 0, px_udpassoc = (empty_sockaddr, 0)\<rparr>"

lemma example_sys_fresh: "fresh_sockets example_sys"
  by (simp add: fresh_sockets_def example_sys_def)


definition example_signal :: signal_info where
  "example_signal = \<lparr>signal_received = 0, si_source = 0, signal_text = None\<rparr>"

lemma example_phase2:
  "case link_socket_init_phase2 0 example_sys example_proxies (Inl 0) example_setup example_signal example_sys_world of
     Some (Inr (s, si, w)) \<Rightarrow> sk_sd s = 100 \<and> signal_received si = 0 | _ \<Rightarrow> False"
proof -
  let ?w = "\<lparr>sw_net = example_world, sw_calls = 1, sw_open = {100, 7}, sw_selects = 0\<rparr>"
  let ?s = "example_setup\<lparr>sk_sd := 100, sk_sockflags := SF_GETADDRINFO_DGRAM\<rparr>"
  have d: "addr_defined (Some (example_addr [1, 2, 3, 4])) = Inr True"
    by (simp add: addr_defined_def example_addr_def sin_addr_of_def sa_field_def Let_def)
  have r: "resolve_remote (sy_net example_sys) example_setup 2 (Some (Some (asc ''1.2.3.4''))) (Some 0) example_world =
      Inr (example_setup, Some None, Some 0, example_world)"
    by (simp add: resolve_remote_def remote_lookup_def example_setup_def reuse_actual_def d)
  have c: "phase2_create example_sys example_setup example_sys_world = Inr (?s, ?w)"
    by (simp add: phase2_create_def example_setup_def create_socket_def example_ai_def create_socket_udp_def sys_socket_def example_sys_def
        example_sys_world_def socket_defined_def SOCKET_UNDEFINED_def tick_def bind_local_def link_socket_new_def SOCK_DGRAM_def)
  have v: "sk_inetd example_setup = 0" "sk_retry_seconds example_setup = 5" "sk_remote_host example_setup = Some (asc ''1.2.3.4'')"
    "sk_proto example_setup = PROTO_UDP" "sk_socks_proxy example_setup = None" "signal_received example_signal = 0"
    "sw_net example_sys_world = example_world" "example_sys_world\<lparr>sw_net := example_world\<rparr> = example_sys_world"
    by (simp_all add: example_setup_def link_socket_new_def example_signal_def example_sys_world_def)
  show ?thesis
    by (simp add: link_socket_init_phase2_def Let_def phase2_body_def r [simplified] c v phase2_connect_def PROTO_UDP_def PROTO_TCP_SERVER_def PROTO_TCP_CLIENT_def SOCKET_UNDEFINED_def)
qed

theorem phase2_keeps_sockets_witness:
  "case link_socket_init_phase2 0 example_sys example_proxies (Inl 0) example_setup example_signal example_sys_world of
     Some (Inr (s, si, w)) \<Rightarrow> sk_sd s = 100 \<and> sw_open (snd (link_socket_close False s w)) = {7} | _ \<Rightarrow> False"
proof -
  obtain s si w where r: "link_socket_init_phase2 0 example_sys example_proxies (Inl 0) example_setup example_signal example_sys_world =
      Some (Inr (s, si, w))" and d: "sk_sd s = 100"
    using example_phase2 by (auto split: option.splits sum.splits)
  have h: "SOCKET_UNDEFINED \<notin> sw_open example_sys_world" "sk_sd example_setup = SOCKET_UNDEFINED" "sk_ctrl_sd example_setup = SOCKET_UNDEFINED"
    "sk_inetd example_setup = 0" "sk_mode example_setup \<noteq> LS_MODE_TCP_ACCEPT_FROM"
    "sk_socks_proxy example_setup = None \<or> sk_remote_host example_setup \<noteq> None"
    by (simp_all add: example_sys_world_def example_setup_def link_socket_new_def SOCKET_UNDEFINED_def LS_MODE_TCP_ACCEPT_FROM_def)
  show ?thesis using phase2_keeps_sockets [OF r example_sys_fresh h] r d by (simp add: example_sys_world_def)
qed

end
