(* ===== verification/Sock_Accept.thy ===== *)
theory Sock_Accept
  imports Sock_Setup_Laws
begin

text \<open>
  \<open>src/Treiber/lib/socket.c\<close>: two things that set-up does and does not mean to: which peer a server takes, and who frees the
  addresses of a SOCKS server.
\<close>

unbundle bit_operations_syntax

section \<open>Who may connect\<close>

text \<open>The same system, with peers that connect from other addresses.\<close>

definition readdress :: "(sockaddr \<Rightarrow> sockaddr) \<Rightarrow> sys \<Rightarrow> sys" where
  "readdress f y = y\<lparr>sy_accept := (\<lambda>c H. case sy_accept y c H of (sd, peer, len) \<Rightarrow> (sd, f peer, len))\<rparr>"

definition same_decision ::
  "(sockaddr \<Rightarrow> sockaddr) \<Rightarrow> (fault + 'a \<times> sockaddr \<times> int \<times> sys_world) option \<Rightarrow> (fault + 'a \<times> sockaddr \<times> int \<times> sys_world) option \<Rightarrow> bool" where
  "same_decision f r r' \<longleftrightarrow>
     (case r of
        None \<Rightarrow> r' = None
      | Some (Inl e) \<Rightarrow> r' = Some (Inl e)
      | Some (Inr (sd, act, sig, w)) \<Rightarrow> \<exists>act'. r' = Some (Inr (sd, act', sig, w)) \<and> (act' = act \<or> act' = f act))"

lemma readdress_sel:
  "sys_wait (readdress f y) = sys_wait y" "sy_net (readdress f y) = sy_net y" "sy_listen (readdress f y) = sy_listen y"
  by (simp_all add: readdress_def sys_wait_def fun_eq_iff)

lemma do_accept_readdress:
  assumes "\<And>a. sa_family (f a) = sa_family a" and "sa_family act' = sa_family act" and "socket_do_accept y act nowait w = (sd, peer, w')"
  shows "\<exists>peer'. socket_do_accept (readdress f y) act' nowait w = (sd, peer', w') \<and> (peer' = peer \<or> peer' = f peer)"
proof -
  obtain d p l where a: "sy_accept y (sw_calls w) (sw_open w) = (d, p, l)" by (cases "sy_accept y (sw_calls w) (sw_open w)")
  show ?thesis
    using assms(2,3) by (auto simp: socket_do_accept_def sys_accept_def readdress_def a Let_def split: if_splits)
qed

lemma accept_loop_readdress:
  assumes "\<And>a. sa_family (f a) = sa_family a"
  shows "act' = act \<or> act' = f act \<Longrightarrow>
     same_decision f (accept_loop n y sd rv rd act nowait w) (accept_loop n (readdress f y) sd rv rd act' nowait w)"
proof (induction n arbitrary: act act' w)
  case (Suc n)
  obtain st sg w1 where wt: "sys_wait y w = (st, sg, w1)" by (cases "sys_wait y w")
  obtain nsd p w2 where a: "socket_do_accept y act nowait w1 = (nsd, p, w2)" by (cases "socket_do_accept y act nowait w1")
  have "sa_family act' = sa_family act" using Suc.prems assms by auto
  from do_accept_readdress [OF assms this a] obtain p' where a': "socket_do_accept (readdress f y) act' nowait w1 = (nsd, p', w2)"
    and p: "p' = p \<or> p' = f p" by blast
  note ih = Suc.IH [OF Suc.prems] Suc.IH [OF p]
  show ?case
  proof (cases "sg \<noteq> 0 \<or> st \<le> 0 \<or> \<not> socket_defined nsd")
    case True
    then show ?thesis using ih Suc.prems by (auto simp: wt a a' readdress_sel same_decision_def [of f "Some _"])
  next
    case False
    then have n: "(sg \<noteq> 0) = False" "(st \<le> 0) = False" "socket_defined nsd = True" by auto
    define q where "q = (case rd of None \<Rightarrow> Inr (None, sw_net w2)
        | Some h \<Rightarrow> bindE (openvpn_getaddrinfo (sy_net y) 0 (Some h) None 1 None (sa_family rv) (sw_net w2)) (\<lambda>(st, ai, sg, nw). Inr (ai, nw)))"
    define m where "m ai = (case ai of None \<Rightarrow> Inr True | Some (k, l) \<Rightarrow> addrlist_match rv (map ra_info l))" for ai :: "ai_ptr option"
    define tail where "tail y p = (case q of Inl f \<Rightarrow> Some (Inl f)
       | Inr (ai, nw) \<Rightarrow> (case m ai of Inl f \<Rightarrow> Some (Inl f)
           | Inr ok \<Rightarrow> (case freeaddrinfo ai nw of Inl f \<Rightarrow> Some (Inl f)
               | Inr nw1 \<Rightarrow> if \<not> ok then accept_loop n y sd rv rd p nowait (openvpn_close_socket nsd (w2\<lparr>sw_net := nw1\<rparr>))
                           else Some (Inr ((nsd, False), p, 0, w2\<lparr>sw_net := nw1\<rparr>)))))" for y p
    have us: "sw_net (w2\<lparr>sw_net := nw\<rparr>) = nw" "w2\<lparr>sw_net := nw, sw_net := nw1\<rparr> = w2\<lparr>sw_net := nw1\<rparr>" for nw nw1 by simp_all
    have st: "accept_loop (Suc n) y sd rv rd act nowait w = tail y p"
        "accept_loop (Suc n) (readdress f y) sd rv rd act' nowait w = tail (readdress f y) p'"
      unfolding accept_loop.simps readdress_sel wt Let_def prod.case a a' n if_True if_False tail_def q_def m_def us
      by (rule refl)+
    have "same_decision f (tail y p) (tail (readdress f y) p')"
    proof (cases q)
      case (Inl e)
      then show ?thesis by (simp add: tail_def same_decision_def)
    next
      case (Inr x)
      then obtain ai nw where q: "q = Inr (ai, nw)" by (cases x) auto
      show ?thesis using ih(2) p by (auto simp: tail_def q same_decision_def [of f "Some _"] split: sum.splits)
    qed
    then show ?thesis using st by simp
  qed
qed (simp add: same_decision_def)

text \<open>
  C34: The server that waits for one peer compares the address it expects with itself, not the address of who has connected.
  Whatever addresses of the same family the peers connect from, the same connection is taken, at the same moment, with the
  same end.
\<close>

theorem accept_ignores_peer:
  assumes "\<And>a. sa_family (f a) = sa_family a"
  shows "same_decision f (socket_listen_accept n y sd act remote_dynamic local do_listen nowait w)
           (socket_listen_accept n (readdress f y) sd act remote_dynamic local do_listen nowait w)"
proof -
  have l: "socket_do_listen (readdress f y) local do_listen w = socket_do_listen y local do_listen w"
    by (simp add: socket_do_listen_def readdress_sel)
  show ?thesis
  proof (cases "socket_do_listen y local do_listen w")
    case (Inr w1)
    have "same_decision f (accept_loop n y sd act remote_dynamic empty_sockaddr nowait w1)
        (accept_loop n (readdress f y) sd act remote_dynamic empty_sockaddr nowait w1)"
      by (rule accept_loop_readdress) (simp_all add: assms)
    then show ?thesis
      by (auto simp: socket_listen_accept_def l Inr same_decision_def split: option.splits sum.splits)
  qed (simp add: socket_listen_accept_def same_decision_def l)
qed

text \<open>A server that expects 1.2.3.4 takes the connection from 9.9.9.9.\<close>

theorem accept_ignores_peer_witness:
  "case socket_listen_accept 1 (readdress (\<lambda>a. if sa_family a = AF_INET then example_addr [9, 9, 9, 9] else a)
          (example_sys\<lparr>sy_accept := (\<lambda>n H. (200, example_addr [1, 2, 3, 4], 16))\<rparr>))
          100 (example_addr [1, 2, 3, 4]) (Some (asc ''1.2.3.4'')) (Some (0, [example_ai [1, 2, 3, 4]])) False False example_sys_world of
     Some (Inr (sd, act, sig, w)) \<Rightarrow> sd = 200 \<and> sig = 0 | _ \<Rightarrow> False"
proof -
  let ?y = "example_sys\<lparr>sy_accept := (\<lambda>n H. (200, example_addr [1, 2, 3, 4], 16))\<rparr>"
    and ?f = "\<lambda>a. if sa_family a = AF_INET then example_addr [9, 9, 9, 9] else a"
  have "sa_family (?f a) = sa_family a" for a by (simp add: example_addr_def)
  note t = accept_ignores_peer [of ?f, OF this, of 1 ?y 100 "example_addr [1, 2, 3, 4]" "Some (asc ''1.2.3.4'')"
      "Some (0, [example_ai [1, 2, 3, 4]])" False False example_sys_world]
  have d: "socket_do_accept ?y empty_sockaddr False w = (200, example_addr [1, 2, 3, 4], (tick w)\<lparr>sw_open := insert 200 (sw_open w)\<rparr>)" for w
    by (simp add: socket_do_accept_def sys_accept_def empty_sockaddr_def af_addr_size_def AF_INET_def AF_INET6_def socket_defined_def SOCKET_UNDEFINED_def tick_def Let_def)
  have g: "openvpn_getaddrinfo (sy_net ?y) 0 (Some h) None 1 None AF_INET w =
      Inr (0, Some (nw_next w, [example_ai [1, 2, 3, 4]]), None, w\<lparr>nw_queries := nw_queries w + 1, nw_next := nw_next w + 1, nw_live := insert (nw_next w) (nw_live w)\<rparr>)" for h w
    by (simp add: openvpn_getaddrinfo_def getaddrinfo_def example_sys_def Let_def)
  have m: "addrlist_match (example_addr [1, 2, 3, 4]) [ra_info (example_ai [1, 2, 3, 4])] = Inr True"
    by (simp add: example_addr_def example_ai_def same_field_def sin_addr_of_def sa_field_def)
  have e: "case socket_listen_accept 1 ?y 100 (example_addr [1, 2, 3, 4]) (Some (asc ''1.2.3.4''))
        (Some (0, [example_ai [1, 2, 3, 4]])) False False example_sys_world of
     Some (Inr (sd, act, sig, w)) \<Rightarrow> sd = 200 \<and> sig = 0 | _ \<Rightarrow> False"
  proof -
    have f: "sa_family (example_addr [1, 2, 3, 4]) = AF_INET" "(0 :: int) < 1" "socket_defined 200"
      by (simp_all add: example_addr_def socket_defined_def SOCKET_UNDEFINED_def)
    have wt: "sys_wait ?y example_sys_world = (1, 0, (tick example_sys_world)\<lparr>sw_selects := 1\<rparr>)"
      by (simp add: sys_wait_def example_sys_def example_sys_world_def)
    have "\<exists>act w. accept_loop (Suc 0) ?y 100 (example_addr [1, 2, 3, 4]) (Some (asc ''1.2.3.4'')) empty_sockaddr False example_sys_world =
        Some (Inr ((200, False), act, 0, w))"
      unfolding accept_loop.simps wt Let_def prod.case d f(1) option.case g bindE_simps sum.case list.map m
      by (simp add: f freeaddrinfo_def)
    then show ?thesis by (auto simp: socket_listen_accept_def socket_do_listen_def)
  qed
  show ?thesis using t e by (auto simp: same_decision_def split: option.splits sum.splits)
qed

section \<open>A cached list that is freed\<close>

lemma first_query_flags: "remote_query s 1 dgram = Inr (flags, retry) \<Longrightarrow> flags AND GETADDR_HOST_ORDER = 0 \<and> retry = 0"
  by (auto simp: remote_query_def sf2gaf_def getaddr_flags Let_def bit.conj_disj_distrib2 split: if_splits)

lemma resolve_remote_live:
  assumes "resolve_remote env s 1 rd sig w = Inr (s', rd', sig', w')" and "answers_ok env" and "net_ok w"
  shows "nw_live w' \<subseteq> nw_live w \<union> {nw_next w ..}"
proof -
  obtain fin s1 where l: "remote_lookup env s 1 sig w = Inr (fin, s1, sig', w')"
    using assms(1) by (auto simp: resolve_remote_def bindE_Inr_iff split: if_splits)
  show ?thesis
  proof (cases "sk_remote_list s = None \<and> sk_remote_host s \<noteq> None")
    case False
    then show ?thesis using l by (auto simp: remote_lookup_def)
  next
    case True
    obtain dgram flags retry where q: "proto_is_dgram (sk_proto s) = Inr dgram" "remote_query s 1 dgram = Inr (flags, retry)"
      using l True by (auto simp: remote_lookup_def bindE_Inr_iff)
    note fl = first_query_flags [OF q(2)]
    obtain st ai where c: "get_cached_dns_entry (sk_dns_cache s) (sk_remote_host s) (sk_remote_port s) (sk_af s) flags = (st, ai)"
      by (cases "get_cached_dns_entry (sk_dns_cache s) (sk_remote_host s) (sk_remote_port s) (sk_af s) flags")
    obtain st1 ai1 sig1 where g: "(if st \<noteq> 0 then openvpn_getaddrinfo env flags (sk_remote_host s) (sk_remote_port s) retry sig (sk_af s) w
        else Inr (st, ai, sig, w)) = Inr (st1, ai1, sig1, w')"
      using l True q by (auto simp: remote_lookup_def c Let_def bindE_Inr_iff split: if_splits)
    show ?thesis
    proof (cases "st \<noteq> 0")
      case True
      then have "openvpn_getaddrinfo env flags (sk_remote_host s) (sk_remote_port s) retry sig (sk_af s) w = Inr (st1, ai1, sig1, w')"
        using g by simp
      then have "gai_result w st1 ai1 w'"
        using openvpn_getaddrinfo_ends [OF assms(2,3), of "sk_remote_host s" "sk_remote_port s" flags retry sig "sk_af s"] fl
          \<open>sk_remote_list s = None \<and> sk_remote_host s \<noteq> None\<close> by simp
      then show ?thesis by (auto simp: gai_result_def split: if_splits)
    qed (use g in auto)
  qed
qed

text \<open>
  After a client went through a SOCKS server for UDP, the addresses of the server are gone. If they are those of the cache
  (then the cache holds the same pointer), the cache is left with a list that is freed: whoever frees it, or the next connection that takes it
  from the cache, meets freed memory.
\<close>

lemma socks_client_frees_cached:
  assumes "phase2_socks_client y px s si w = Inr (s', si', w')" and "signal_received si' = 0" and "sk_remote_list s = Some (k, l)"
    and "answers_ok (sy_net y)" and "net_ok (sw_net w)" and "k \<in> nw_live (sw_net w)" and "cd_ai ph = Some (k, l)"
  shows "freeaddrinfo (cd_ai ph) (sw_net w') = Inl MemFault"
proof -
  obtain a where h: "head_of (sk_current_remote s) = Inr a" using assms(1) by (auto simp: phase2_socks_client_def bindE_Inr_iff)
  obtain cd si1 w1 where c: "socket_connect y (sk_ctrl_sd s) (sy_timeout y (sw_calls w)) si w = (cd, si1, w1)"
    by (cases "socket_connect y (sk_ctrl_sd s) (sy_timeout y (sw_calls w)) si w")
  have nw1: "sw_net w1 = sw_net w" using socket_connect_outcome [OF c] by blast
  have n: "signal_received si1 = 0" "snd (px_udpassoc px) = 0"
    using assms(1,2) by (auto simp: phase2_socks_client_def h c Let_def split: if_splits)
  obtain s3 rd sig nw where "resolve_remote (sy_net y) s3 1 None (Some 0) ((sw_net w)\<lparr>nw_live := nw_live (sw_net w) - {k}\<rparr>) = Inr (s', rd, sig, nw)"
      "sw_net w' = nw"
    using assms(1,3,6) n by (auto simp: phase2_socks_client_def h c nw1 Let_def bindE_Inr_iff freeaddrinfo_def)
  then have "nw_live (sw_net w') \<subseteq> (nw_live (sw_net w) - {k}) \<union> {nw_next (sw_net w) ..}"
    using resolve_remote_live [OF _ assms(4)] assms(5) by (fastforce simp: net_ok_def)
  moreover have "k < nw_next (sw_net w)" using assms(5,6) by (simp add: net_ok_def)
  ultimately have "k \<notin> nw_live (sw_net w')" by auto
  then show ?thesis using assms(7) by (simp add: freeaddrinfo_def)
qed

end
