(* ===== verification/Proxy.thy ===== *)
theory Proxy
  imports Socks_Laws Misc_Laws Buffer_List_Laws
begin

text \<open>
  The HTTP proxy client of \<open>src/Treiber/lib/proxy.c\<close> (\<open>proto.c\<close> is the same file again): lines to and from
  the proxy, the parameters of a \<open>Proxy-Authenticate\<close> header, and the CONNECT exchange with its methods of
  authentication. The connection is that of the SOCKS client. Strings on the heap and in the arena are
  values; local arrays keep their size. The ciphers, the random bytes and base64 are outside the repository.
  What the proxy sends is a finite list of events, after which select times out, so that the loops which
  read lines end by construction.
\<close>

section \<open>Lines\<close>

text \<open>
  \<open>arr\<close> is the array behind \<open>buf\<close>, \<open>pos\<close> how far \<open>buf\<close> has moved in it. A byte that is neither
  printable nor white space ends the line when there is a lookahead buffer.
\<close>

datatype line_end = Line_Complete | Line_Odd | Line_Failed

function recv_line_loop ::
  "mem \<Rightarrow> conn \<Rightarrow> byte list \<Rightarrow> nat \<Rightarrow> nat \<Rightarrow> buffer \<Rightarrow> byte \<Rightarrow>
     fault + line_end \<times> mem \<times> conn \<times> byte list \<times> nat \<times> nat \<times> buffer" where
  "recv_line_loop m io arr pos len la lastc =
     (let (la1, ok) = (if buf_defined la then buf_init_dowork la 0 else (la, True))
      in if \<not> ok then Inl AssertFail
         else (case recv_char io of
                 (None, io1) \<Rightarrow> Inr (Line_Failed, m, io1, arr, pos, len, la1)
               | (Some c, io1) \<Rightarrow>
                   (case (if len > 1 then arr_set arr pos c else Inr arr) of
                      Inl e \<Rightarrow> Inl e
                    | Inr arr1 \<Rightarrow>
                        (let (pos1, len1) = (if len > 1 then (pos + 1, len - 1) else (pos, len))
                         in case (if buf_defined la1 then buf_write_u8 m la1 (uint c) else Inr (True, la1, m)) of
                              Inl e \<Rightarrow> Inl e
                            | Inr (_, la2, m1) \<Rightarrow>
                                if buf_defined la1 \<and> \<not> isprint c \<and> \<not> isspace c
                                then Inr (Line_Odd, m1, io1, arr1, pos1, len1, la2)
                                else if lastc = 13 \<and> c = 10 then Inr (Line_Complete, m1, io1, arr1, pos1, len1, la2)
                                else recv_line_loop m1 io1 arr1 pos1 len1 la2 c))))"
  by pat_completeness auto
termination
  by (relation "measure (\<lambda>(_, io, _). length (cn_events io))") (auto dest: recv_char_events [OF sym])

declare recv_line_loop.simps [simp del]

definition recv_line ::
  "mem \<Rightarrow> conn \<Rightarrow> byte list \<Rightarrow> nat \<Rightarrow> buffer option \<Rightarrow> fault + bool \<times> mem \<times> conn \<times> byte list \<times> buffer option" where
  "recv_line m io arr len lookahead =
     bindE (recv_line_loop m io arr 0 len (case lookahead of Some b \<Rightarrow> b | None \<Rightarrow> clear_buf) 0)
       (\<lambda>(r, m1, io1, arr1, pos1, len1, la).
          case r of
            Line_Failed \<Rightarrow> Inr (False, m1, io1, arr1, lookahead)
          | Line_Odd \<Rightarrow> Inr (False, m1, io1, arr1, Some la)
          | Line_Complete \<Rightarrow>
              bindE (if len1 > 0 then arr_set arr1 pos1 NUL else Inr arr1)
                (\<lambda>arr2. Inr (True, m1, io1, arr2, lookahead)))"

definition send_line :: "conn \<Rightarrow> cstr \<Rightarrow> bool \<times> conn" where
  "send_line io s = (let (sz, io1) = sock_send io s in (sz = int (length s), io1))"

definition send_line_crlf :: "mem \<Rightarrow> conn \<Rightarrow> cstr \<Rightarrow> fault + bool \<times> mem \<times> conn" where
  "send_line_crlf m io src =
     bindE (alloc_buf m (length src + 3))
       (\<lambda>(b, m1). bindE (buf_write_val m1 b src)
       (\<lambda>(ok1, b1, m2). bindE (c_assert ok1)
       (\<lambda>_. bindE (buf_write_val m2 b1 [13, 10, 0])
       (\<lambda>(ok2, b2, m3). bindE (c_assert ok2)
       (\<lambda>_. bindE (read_cstr m3 (buf_bptr b2))
       (\<lambda>s. let (ret, io1) = send_line io s in
          bindE (free_buf m3 b2) (\<lambda>(_, m4). Inr (ret, m4, io1))))))))"

definition send_crlf :: "mem \<Rightarrow> conn \<Rightarrow> fault + bool \<times> mem \<times> conn" where
  "send_crlf m io = send_line_crlf m io []"

section \<open>Parameters of a challenge\<close>

text \<open>
  The loops fill arrays of \<open>c + 1\<close> bytes, the NUL included; they return what is stored and what is left of
  the source.
\<close>

definition DQUOTE :: byte where "DQUOTE = 34"
definition BACKSLASH :: byte where "BACKSLASH = 92"
definition COMMA :: byte where "COMMA = 44"
definition EQ_SIGN :: byte where "EQ_SIGN = 61"

fun key_loop :: "nat \<Rightarrow> cstr \<Rightarrow> cstr \<times> cstr" where
  "key_loop c [] = ([], [])"
| "key_loop c (x # str) =
     (if x \<noteq> EQ_SIGN \<and> c > 0 then (let (k, rest) = key_loop (c - 1) str in (x # k, rest)) else ([], x # str))"

fun value_loop :: "bool \<Rightarrow> bool \<Rightarrow> nat \<Rightarrow> cstr \<Rightarrow> cstr \<times> cstr" where
  "value_loop starts_with_quote escape c [] = ([], [])"
| "value_loop starts_with_quote escape c (x # str) =
     (if c = 0 then ([], x # str)
      else if x = BACKSLASH \<and> \<not> escape
      then (let (v, rest) = value_loop starts_with_quote True (c - 1) str in (x # v, rest))
      else if x = COMMA \<and> \<not> starts_with_quote then ([], str)
      else if x = 13 \<or> x = 10 then ([], str)
      else if x = DQUOTE \<and> \<not> escape \<and> starts_with_quote then ([], str)
      else (let (v, rest) = value_loop starts_with_quote False (c - 1) str in (x # v, rest)))"

definition get_key_value :: "cstr \<Rightarrow> nat \<Rightarrow> nat \<Rightarrow> (cstr \<times> cstr \<times> cstr) option" where
  "get_key_value str max_key_len max_value_len =
     (let (k, s1) = key_loop (max_key_len - 1) str
      in case s1 of
           [] \<Rightarrow> None
         | x # s2 \<Rightarrow>
             if x \<noteq> EQ_SIGN then None
             else (let starts_with_quote = (s2 \<noteq> [] \<and> hd s2 = DQUOTE);
                       s3 = (if starts_with_quote then tl s2 else s2);
                       (val, endptr) = value_loop starts_with_quote False (max_value_len - 1) s3
                   in Some (k, val, endptr)))"

lemma key_loop_length: "key_loop c str = (k, rest) \<Longrightarrow> length k \<le> c \<and> length rest \<le> length str"
  by (induction c str arbitrary: k rule: key_loop.induct) (fastforce split: prod.splits if_splits)+

lemma value_loop_length: "value_loop q e c str = (v, rest) \<Longrightarrow> length v \<le> c \<and> length rest \<le> length str"
  by (induction q e c str arbitrary: v rule: value_loop.induct) (fastforce split: prod.splits if_splits)+

lemma get_key_value_shorter:
  assumes "get_key_value str mk mv = Some (k, v, rest)"
  shows "length rest < length str"
proof -
  obtain k' s1 where a: "key_loop (mk - 1) str = (k', s1)" by (cases "key_loop (mk - 1) str")
  obtain x s2 where s1: "s1 = x # s2" using assms a by (cases s1) (simp_all add: get_key_value_def)
  let ?q = "s2 \<noteq> [] \<and> hd s2 = DQUOTE"
  let ?s3 = "if ?q then tl s2 else s2"
  obtain v' e where b: "value_loop ?q False (mv - 1) ?s3 = (v', e)" by (cases "value_loop ?q False (mv - 1) ?s3")
  have "length rest = length e" using assms a b s1 by (auto simp: get_key_value_def Let_def split: if_splits)
  moreover have "length e \<le> length ?s3" using value_loop_length [OF b] by simp
  moreover have "length ?s3 \<le> length s2" by simp
  moreover have "length s2 < length str" using key_loop_length [OF a] s1 by simp
  ultimately show ?thesis by linarith
qed

function get_pa_var :: "cstr \<Rightarrow> cstr \<Rightarrow> cstr option" where
  "get_pa_var wanted pa =
     (case get_key_value pa 64 256 of
        None \<Rightarrow> None
      | Some (k, v, content1) \<Rightarrow>
          if wanted = k then Some v
          else (let content2 = (if content1 \<noteq> [] \<and> hd content1 = COMMA then tl content1 else content1)
                in get_pa_var wanted (dropWhile isspace content2)))"
  by pat_completeness auto
termination
proof (relation "measure (\<lambda>(_, s). length s)", goal_cases)
  case (2 wanted pa a k p v rest c2)
  have "length (dropWhile isspace c2) \<le> length c2" by (rule length_dropWhile_le)
  moreover have "length c2 \<le> length rest" using 2(5) by simp
  moreover have "length rest < length pa" using get_key_value_shorter [of pa 64 256 k v rest] 2(1-3) by simp
  ultimately show ?case by simp
qed simp

declare get_pa_var.simps [simp del]

section \<open>The proxy and its options\<close>

definition HTTP_AUTH_NONE :: nat where "HTTP_AUTH_NONE = 0"
definition HTTP_AUTH_BASIC :: nat where "HTTP_AUTH_BASIC = 1"
definition HTTP_AUTH_DIGEST :: nat where "HTTP_AUTH_DIGEST = 2"
definition HTTP_AUTH_NTLM :: nat where "HTTP_AUTH_NTLM = 3"
definition HTTP_AUTH_NTLM2 :: nat where "HTTP_AUTH_NTLM2 = 4"

definition PAR_NO :: nat where "PAR_NO = 0"
definition PAR_ALL :: nat where "PAR_ALL = 1"
definition PAR_NCT :: nat where "PAR_NCT = 2"

definition MAX_CUSTOM_HTTP_HEADER :: nat where "MAX_CUSTOM_HTTP_HEADER = 10"

type_synonym http_custom_header = "cstr option \<times> cstr option"

record http_proxy_options =
  ho_server :: "cstr option"
  ho_port :: "cstr option"
  ho_auth_retry :: nat
  ho_auth_method_string :: "cstr option"
  ho_auth_file :: ptr
  ho_http_version :: cstr
  ho_user_agent :: "cstr option"
  ho_custom_headers :: "http_custom_header list"
  ho_inline_creds :: bool

record http_proxy_info =
  hp_defined :: bool
  hp_auth_method :: nat
  hp_options :: http_proxy_options
  hp_up :: user_pass
  hp_proxy_authenticate :: "cstr option"
  hp_queried_creds :: bool

definition init_http_proxy_options_once :: "http_proxy_options option \<Rightarrow> http_proxy_options" where
  "init_http_proxy_options_once hpo =
     (case hpo of
        Some o1 \<Rightarrow> o1
      | None \<Rightarrow> \<lparr>ho_server = None, ho_port = None, ho_auth_retry = 0, ho_auth_method_string = None, ho_auth_file = Null,
                 ho_http_version = asc ''1.0'', ho_user_agent = None,
                 ho_custom_headers = replicate MAX_CUSTOM_HTTP_HEADER (None, None), ho_inline_creds = False\<rparr>)"

text \<open>
  What lies outside: \<open>pe_pass\<close> for \<open>get_user_pass\<close>, base64 in \<open>b64_encode\<close> of it, the messages of
  \<open>ntlm_phase_1\<close> and \<open>ntlm_phase_3\<close>, \<open>rand_bytes\<close> for eight bytes, \<open>DigestCalcHA1\<close> (algorithm, user, realm,
  password, nonce, client nonce) and \<open>DigestCalcResponse\<close> (session key, nonce, count, client nonce, qop, method,
  URI).
\<close>

record http_env =
  pe_pass :: pass_io
  ntlm_phase_1 :: "http_proxy_info \<Rightarrow> cstr"
  ntlm_phase_3 :: "http_proxy_info \<Rightarrow> cstr \<Rightarrow> cstr option"
  rand_8 :: "byte list option"
  DigestCalcHA1 :: "cstr option \<Rightarrow> cstr \<Rightarrow> cstr \<Rightarrow> cstr \<Rightarrow> cstr \<Rightarrow> cstr \<Rightarrow> cstr"
  DigestCalcResponse :: "cstr \<Rightarrow> cstr \<Rightarrow> cstr \<Rightarrow> cstr \<Rightarrow> cstr \<Rightarrow> cstr \<Rightarrow> cstr \<Rightarrow> cstr"

definition make_base64_string2 :: "http_env \<Rightarrow> byte list \<Rightarrow> fault + cstr" where
  "make_base64_string2 E str = (case b64_encode (pe_pass E) str of Some t \<Rightarrow> Inr t | None \<Rightarrow> Inl AssertFail)"

definition make_base64_string :: "http_env \<Rightarrow> cstr \<Rightarrow> fault + cstr" where
  "make_base64_string E str = make_base64_string2 E str"

text \<open>The buffer \<open>out\<close> is an array of its capacity.\<close>

definition username_password_as_base64 :: "http_env \<Rightarrow> http_proxy_info \<Rightarrow> fault + cstr" where
  "username_password_as_base64 E p =
     (let u = c_string (up_username (hp_up p)); w = c_string (up_password (hp_up p)); n = length u + length w + 2
      in bindE (c_assert (u \<noteq> []))
           (\<lambda>_. bindE (openvpn_snprintf (replicate n 0) n (Some (u @ asc '':'' @ w)))
             (\<lambda>(out, _). make_base64_string E (c_string out))))"

definition UP_TYPE_PROXY :: cstr where "UP_TYPE_PROXY = asc ''HTTP Proxy''"

definition GET_USER_PASS_PREVIOUS_CREDS_FAILED :: flags where "GET_USER_PASS_PREVIOUS_CREDS_FAILED = push_bit 6 1"

text \<open>\<open>up\<close> is \<open>static_proxy_user_pass\<close>.\<close>

definition clear_user_pass_http :: "user_pass \<Rightarrow> user_pass" where
  "clear_user_pass_http up = fst (purge_user_pass False up True)"

definition get_user_pass_http ::
  "http_env \<Rightarrow> mem \<Rightarrow> user_pass \<Rightarrow> http_proxy_info \<Rightarrow> bool \<Rightarrow> fault + mem \<times> user_pass \<times> http_proxy_info" where
  "get_user_pass_http E m up p force =
     (let up1 = (if force then clear_user_pass_http up else up)
      in if \<not> up_defined up1
         then (let fl = GET_USER_PASS_MANAGEMENT OR (if hp_queried_creds p then GET_USER_PASS_PREVIOUS_CREDS_FAILED else 0)
                          OR (if ho_inline_creds (hp_options p) then GET_USER_PASS_INLINE_CREDS else 0)
               in bindE (get_user_pass (pe_pass E) m up1 (ho_auth_file (hp_options p)) UP_TYPE_PROXY fl)
                    (\<lambda>(_, up2, m1). Inr (m1, up2, p\<lparr>hp_queried_creds := True, hp_up := up2\<rparr>)))
         else Inr (m, up1, p))"

definition store_proxy_authenticate :: "http_proxy_info \<Rightarrow> cstr option \<Rightarrow> http_proxy_info" where
  "store_proxy_authenticate p data = p\<lparr>hp_proxy_authenticate := data\<rparr>"

definition empty_user_pass :: user_pass where
  "empty_user_pass = \<lparr>up_defined = False, up_nocache = False, up_wait_for_push = False,
     up_username = replicate USER_PASS_LEN 0, up_password = replicate USER_PASS_LEN 0\<rparr>"

definition auth_method_of :: "cstr option \<Rightarrow> fault + nat" where
  "auth_method_of s =
     (case s of
        None \<Rightarrow> Inr HTTP_AUTH_NONE
      | Some t \<Rightarrow> if t = asc ''none'' then Inr HTTP_AUTH_NONE
                 else if t = asc ''basic'' then Inr HTTP_AUTH_BASIC
                 else if t = asc ''ntlm'' then Inr HTTP_AUTH_NTLM
                 else if t = asc ''ntlm2'' then Inr HTTP_AUTH_NTLM2
                 else Inl Fatal)"

definition http_proxy_new ::
  "http_env \<Rightarrow> mem \<Rightarrow> user_pass \<Rightarrow> http_proxy_options option \<Rightarrow> fault + mem \<times> user_pass \<times> http_proxy_info" where
  "http_proxy_new E m up opts =
     (case opts of
        None \<Rightarrow> Inl Fatal
      | Some o1 \<Rightarrow>
          if ho_server o1 = None then Inl Fatal
          else bindE (c_assert (ho_port o1 \<noteq> None))
            (\<lambda>_. bindE (auth_method_of (ho_auth_method_string o1))
            (\<lambda>a. let p = \<lparr>hp_defined = False, hp_auth_method = a, hp_options = o1, hp_up = empty_user_pass,
                          hp_proxy_authenticate = None, hp_queried_creds = False\<rparr>
                 in bindE (if a = HTTP_AUTH_BASIC \<or> a = HTTP_AUTH_NTLM \<or> a = HTTP_AUTH_NTLM2
                           then get_user_pass_http E m up p True else Inr (m, up, p))
                      (\<lambda>(m1, up1, p1). Inr (m1, up1, p1\<lparr>hp_defined := True\<rparr>)))))"

section \<open>Lines through the local array\<close>

text \<open>The state of a function: the memory, the connection, its array \<open>buf\<close>, the proxy, the cached credentials.\<close>

record http_state =
  hs_m :: mem
  hs_io :: conn
  hs_buf :: "byte list"
  hs_p :: http_proxy_info
  hs_static :: user_pass

text \<open>A step returns false where the function jumps to \<open>error\<close> or returns false.\<close>

type_synonym http_step = "http_state \<Rightarrow> fault + bool \<times> http_state"

definition then_do :: "http_step \<Rightarrow> http_step \<Rightarrow> http_step" where
  "then_do f g s = bindE (f s) (\<lambda>(ok, s1). if ok then g s1 else Inr (False, s1))"

definition send_text :: "cstr \<Rightarrow> http_step" where
  "send_text t s =
     bindE (openvpn_snprintf (hs_buf s) 512 (Some t))
       (\<lambda>(b, _). bindE (send_line_crlf (hs_m s) (hs_io s) (c_string b))
         (\<lambda>(ok, m1, io1). Inr (ok, s\<lparr>hs_buf := b, hs_m := m1, hs_io := io1\<rparr>)))"

definition send_empty :: http_step where
  "send_empty s = bindE (send_crlf (hs_m s) (hs_io s)) (\<lambda>(ok, m1, io1). Inr (ok, s\<lparr>hs_m := m1, hs_io := io1\<rparr>))"

definition recv_text :: http_step where
  "recv_text s =
     bindE (recv_line (hs_m s) (hs_io s) (hs_buf s) (length (hs_buf s)) None)
       (\<lambda>(ok, m1, io1, b, _).
          if ok then bindE (chomp b) (\<lambda>b1. Inr (True, s\<lparr>hs_m := m1, hs_io := io1, hs_buf := b1\<rparr>))
          else Inr (False, s\<lparr>hs_m := m1, hs_io := io1, hs_buf := b\<rparr>))"

lemma recv_char_le: "recv_char io = (r, io') \<Longrightarrow> length (cn_events io') \<le> length (cn_events io)"
  by (auto simp: recv_char_def Let_def split: list.splits if_splits)

lemma recv_line_loop_events:
  "recv_line_loop m io arr pos len la lastc = Inr (r, m', io', rest) \<Longrightarrow>
     length (cn_events io') \<le> length (cn_events io) \<and> (r = Line_Complete \<longrightarrow> length (cn_events io') < length (cn_events io))"
proof (induction "length (cn_events io)" arbitrary: m io arr pos len la lastc rule: less_induct)
  case less
  let ?la = "if buf_defined la then buf_init_dowork la 0 else (la, True)"
  obtain la1 ok where l: "?la = (la1, ok)" by (cases ?la)
  obtain r1 io1 where c: "recv_char io = (r1, io1)" by (cases "recv_char io")
  note e = less(2) [unfolded recv_line_loop.simps [of m io arr pos len la lastc] l c Let_def prod.case]
  show ?case
  proof (cases r1)
    case None
    then show ?thesis using e recv_char_le [OF c] by (auto split: if_splits)
  next
    case (Some c1)
    note lt = recv_char_events [OF c [unfolded Some]]
    let ?p = "if 1 < len then (pos + 1, len - 1) else (pos, len)"
    obtain arr1 where a: "(if len > 1 then arr_set arr pos c1 else Inr arr) = Inr arr1"
      using e Some by (auto split: if_splits sum.splits)
    obtain p1 l1 where p: "?p = (p1, l1)" by (cases ?p)
    obtain u la2 m1 where w: "(if buf_defined la1 then buf_write_u8 m la1 (uint c1) else Inr (True, la1, m)) = Inr (u, la2, m1)"
      using e Some a by (auto split: if_splits sum.splits)
    note e2 = e [unfolded Some a p w sum.case option.case prod.case]
    show ?thesis using e2 lt less(1) [OF lt, of m1 arr1 p1 l1 la2 c1] by (auto split: if_splits)
  qed
qed

lemma recv_line_events:
  "recv_line m io arr len la = Inr (True, m', io', rest) \<Longrightarrow> length (cn_events io') < length (cn_events io)"
  by (auto simp: recv_line_def bindE_def split: sum.splits line_end.splits if_splits dest: recv_line_loop_events)

lemma recv_text_events: "recv_text s = Inr (True, s') \<Longrightarrow> length (cn_events (hs_io s')) < length (cn_events (hs_io s))"
  by (fastforce simp: recv_text_def bindE_def split: sum.splits if_splits dest: recv_line_events)

text \<open>The text goes through a second array of 512 bytes here.\<close>

definition send_local :: "cstr \<Rightarrow> http_step" where
  "send_local t s =
     bindE (send_text t (s\<lparr>hs_buf := replicate 512 0\<rparr>)) (\<lambda>(ok, s1). Inr (ok, s1\<lparr>hs_buf := hs_buf s\<rparr>))"

definition lower :: "byte \<Rightarrow> byte" where "lower c = (if isupper c then c + 32 else c)"

definition strcasecmp_eq :: "cstr \<Rightarrow> cstr \<Rightarrow> bool" where
  "strcasecmp_eq a b \<longleftrightarrow> map lower a = map lower b"

fun header_loop :: "http_custom_header list \<Rightarrow> bool \<Rightarrow> http_state \<Rightarrow> fault + (bool \<times> bool) \<times> http_state" where
  "header_loop ((Some nm, cont) # hs) host_header_sent s =
     (let (t, sent) = (case cont of
              Some v \<Rightarrow> (nm @ asc '': '' @ v, host_header_sent \<or> strcasecmp_eq nm (asc ''Host''))
            | None \<Rightarrow> (nm, host_header_sent \<or> strcasecmp_eq (take 5 nm) (asc ''Host:'')))
      in bindE (send_local t s)
           (\<lambda>(ok, s1). if \<not> ok then Inr ((False, sent), s1) else header_loop hs sent s1))"
| "header_loop hs host_header_sent s = Inr ((True, host_header_sent), s)"

definition add_proxy_headers :: "cstr \<Rightarrow> http_step" where
  "add_proxy_headers host s =
     bindE (header_loop (take MAX_CUSTOM_HTTP_HEADER (ho_custom_headers (hp_options (hs_p s)))) False s)
       (\<lambda>((ok, host_header_sent), s1).
          if \<not> ok then Inr (False, s1)
          else then_do
            (\<lambda>s. if \<not> host_header_sent then send_local (asc ''Host: '' @ host) s else Inr (True, s))
            (\<lambda>s. case ho_user_agent (hp_options (hs_p s)) of
                   Some ua \<Rightarrow> send_local (asc ''User-Agent: '' @ ua) s
                 | None \<Rightarrow> Inr (True, s)) s1)"

section \<open>Replies\<close>

text \<open>\<open>sscanf\<close> with \<open>%*s %d\<close>, and with \<open>%*s NTLM %128s\<close>; \<open>None\<close> when the item is not assigned.\<close>

definition scan_rest :: "cstr \<Rightarrow> cstr option" where
  "scan_rest s =
     (let t = dropWhile isspace s
      in if t = [] then None else Some (dropWhile isspace (dropWhile (\<lambda>c. \<not> isspace c) t)))"

definition scan_int :: "cstr \<Rightarrow> int option" where
  "scan_int s =
     (let d = (if s \<noteq> [] \<and> (hd s = of_char CHR ''-'' \<or> hd s = of_char CHR ''+'') then tl s else s)
      in if d \<noteq> [] \<and> isdigit (hd d) then Some (c_atoi s) else None)"

definition scan_status :: "cstr \<Rightarrow> int option" where
  "scan_status s = (case scan_rest s of None \<Rightarrow> None | Some t \<Rightarrow> scan_int t)"

definition scan_ntlm :: "cstr \<Rightarrow> cstr option" where
  "scan_ntlm s =
     (case scan_rest s of
        None \<Rightarrow> None
      | Some t \<Rightarrow>
          if take 4 t = asc ''NTLM''
          then (let w = take 128 (takeWhile (\<lambda>c. \<not> isspace c) (dropWhile isspace (drop 4 t)))
                in if w = [] then None else Some w)
          else None)"

definition AUTH_HEADER :: cstr where "AUTH_HEADER = asc ''Proxy-Authenticate: ''"

text \<open>The array has 256 bytes; \<open>data\<close> is \<open>*data\<close>.\<close>

function get_proxy_authenticate_loop ::
  "http_state \<Rightarrow> nat \<Rightarrow> cstr option \<Rightarrow> fault + nat \<times> cstr option \<times> http_state" where
  "get_proxy_authenticate_loop s ret data =
     (case recv_text s of
        Inl e \<Rightarrow> Inl e
      | Inr (ok, s1) \<Rightarrow>
          if \<not> ok then Inr (HTTP_AUTH_NONE, None, s1)
          else (let line = c_string (hs_buf s1); value = drop 20 line
                in if line = [] then Inr (ret, data, s1)
                   else if ret = HTTP_AUTH_NONE \<and> take 20 line = AUTH_HEADER
                   then (if take 6 value = asc ''Basic ''
                         then get_proxy_authenticate_loop s1 HTTP_AUTH_BASIC (Some (drop 26 line))
                         else if take 7 value = asc ''Digest ''
                         then get_proxy_authenticate_loop s1 HTTP_AUTH_DIGEST (Some (drop 27 line))
                         else if take 4 value = asc ''NTLM''
                         then get_proxy_authenticate_loop s1 HTTP_AUTH_NTLM None
                         else get_proxy_authenticate_loop s1 ret data)
                   else get_proxy_authenticate_loop s1 ret data))"
  by pat_completeness auto
termination
  by (relation "measure (\<lambda>(s, _). length (cn_events (hs_io s)))") (auto dest: recv_text_events)

declare get_proxy_authenticate_loop.simps [simp del]

definition get_proxy_authenticate :: "http_state \<Rightarrow> fault + nat \<times> cstr option \<times> http_state" where
  "get_proxy_authenticate s =
     bindE (get_proxy_authenticate_loop (s\<lparr>hs_buf := replicate 256 0\<rparr>) HTTP_AUTH_NONE None)
       (\<lambda>(ret, data, s1). Inr (ret, data, s1\<lparr>hs_buf := hs_buf s\<rparr>))"

text \<open>\<open>while (recv_line(sd, NULL, 0, 2, ...))\<close>.\<close>

function discard_lines :: "mem \<Rightarrow> conn \<Rightarrow> buffer option \<Rightarrow> fault + mem \<times> conn \<times> buffer option" where
  "discard_lines m io lookahead =
     (case recv_line m io [] 0 lookahead of
        Inl e \<Rightarrow> Inl e
      | Inr (ok, m1, io1, _, la1) \<Rightarrow> if ok then discard_lines m1 io1 la1 else Inr (m1, io1, la1))"
  by pat_completeness auto
termination
  by (relation "measure (\<lambda>(_, io, _). length (cn_events io))") (auto dest: recv_line_events)

declare discard_lines.simps [simp del]

function ntlm_wait :: "http_state \<Rightarrow> fault + cstr option \<times> http_state" where
  "ntlm_wait s =
     (case recv_text s of
        Inl e \<Rightarrow> Inl e
      | Inr (ok, s1) \<Rightarrow>
          if \<not> ok then Inr (None, s1)
          else (case scan_ntlm (c_string (hs_buf s1)) of
                  Some buf2 \<Rightarrow> Inr (Some buf2, s1)
                | None \<Rightarrow> ntlm_wait s1))"
  by pat_completeness auto
termination
  by (relation "measure (\<lambda>s. length (cn_events (hs_io s)))") (auto dest: recv_text_events)

declare ntlm_wait.simps [simp del]

section \<open>The CONNECT exchange\<close>

definition connect_line :: "http_proxy_info \<Rightarrow> cstr \<Rightarrow> cstr \<Rightarrow> cstr" where
  "connect_line p host port = asc ''CONNECT '' @ host @ asc '':'' @ port @ asc '' HTTP/'' @ ho_http_version (hp_options p)"

definition send_authorization :: "http_env \<Rightarrow> http_step" where
  "send_authorization E s =
     (let a = hp_auth_method (hs_p s)
      in if a = HTTP_AUTH_NONE then Inr (True, s)
         else if a = HTTP_AUTH_BASIC
         then bindE (username_password_as_base64 E (hs_p s))
                (\<lambda>b64. send_text (asc ''Proxy-Authorization: Basic '' @ b64) s)
         else if a = HTTP_AUTH_NTLM \<or> a = HTTP_AUTH_NTLM2
         then then_do (send_text (asc ''Proxy-Connection: Keep-Alive''))
                (send_text (asc ''Proxy-Authorization: NTLM '' @ ntlm_phase_1 E (hs_p s))) s
         else Inl AssertFail)"

text \<open>The first request and the line of the reply.\<close>

definition first_request :: "http_env \<Rightarrow> cstr \<Rightarrow> cstr \<Rightarrow> http_step" where
  "first_request E host port s =
     then_do (send_text (connect_line (hs_p s) host port))
       (then_do (add_proxy_headers host)
         (then_do (send_authorization E) (then_do send_empty recv_text))) s"

text \<open>The second and third phase of NTLM.\<close>

definition ntlm_round :: "http_env \<Rightarrow> cstr \<Rightarrow> cstr \<Rightarrow> http_step" where
  "ntlm_round E host port s =
     bindE (ntlm_wait s)
       (\<lambda>(r, s1). case r of
          None \<Rightarrow> Inr (False, s1)
        | Some buf2 \<Rightarrow>
            bindE (discard_lines (hs_m s1) (hs_io s1) None)
              (\<lambda>(m2, io2, _).
                 then_do (send_text (connect_line (hs_p s) host port))
                   (then_do (send_text (asc ''Proxy-Connection: Keep-Alive''))
                     (then_do (add_proxy_headers host)
                       (then_do (\<lambda>s. case ntlm_phase_3 E (hs_p s) buf2 of
                                   None \<Rightarrow> Inr (False, s)
                                 | Some np3 \<Rightarrow> send_text (asc ''Proxy-Authorization: NTLM '' @ np3) s)
                         (then_do send_empty recv_text)))) (s1\<lparr>hs_m := m2, hs_io := io2\<rparr>)))"

definition quoted :: "string \<Rightarrow> cstr \<Rightarrow> cstr" where
  "quoted nm v = asc nm @ asc ''='' @ [DQUOTE] @ v @ [DQUOTE]"

definition digest_line :: "http_env \<Rightarrow> http_proxy_info \<Rightarrow> cstr \<Rightarrow> cstr option \<Rightarrow> cstr \<Rightarrow> cstr \<Rightarrow> cstr \<Rightarrow> cstr \<Rightarrow> cstr" where
  "digest_line E p realm algor nonce cnonce uri opaque_kv =
     (let username = c_string (up_username (hp_up p)); password = c_string (up_password (hp_up p));
          session_key = DigestCalcHA1 E algor username realm password nonce cnonce;
          response = DigestCalcResponse E session_key nonce (asc ''00000001'') cnonce (asc ''auth'') (asc ''CONNECT'') uri
      in asc ''Proxy-Authorization: Digest '' @ quoted ''username'' username @ asc '', '' @ quoted ''realm'' realm @ asc '', '' @
         quoted ''nonce'' nonce @ asc '', '' @ quoted ''uri'' uri @ asc '', qop=auth, nc=00000001, '' @
         quoted ''cnonce'' cnonce @ asc '', '' @ quoted ''response'' response @ opaque_kv)"

definition digest_round :: "http_env \<Rightarrow> cstr \<Rightarrow> cstr \<Rightarrow> http_step" where
  "digest_round E host port s =
     (case hp_proxy_authenticate (hs_p s) of
        None \<Rightarrow> Inl AssertFail
      | Some pa \<Rightarrow>
          (case (get_pa_var (asc ''realm'') pa, get_pa_var (asc ''nonce'') pa) of
             (Some realm, Some nonce) \<Rightarrow>
               (case rand_8 E of
                  None \<Rightarrow> Inl AssertFail
                | Some raw \<Rightarrow>
                    bindE (make_base64_string2 E raw)
                      (\<lambda>cnonce. bindE (openvpn_snprintf (replicate 128 0) 128 (Some (host @ asc '':'' @ port)))
                      (\<lambda>(u, _). bindE (case get_pa_var (asc ''opaque'') pa of
                                  Some op \<Rightarrow> bindE (openvpn_snprintf (replicate (length op + 16) 0) (length op + 16)
                                                     (Some (asc '', '' @ quoted ''opaque'' op)))
                                                (\<lambda>(kv, _). Inr (c_string kv))
                                | None \<Rightarrow> Inr [])
                      (\<lambda>opaque_kv. let uri = c_string u in
                         then_do (send_text (asc ''CONNECT '' @ uri @ asc '' HTTP/'' @ ho_http_version (hp_options (hs_p s))))
                           (then_do (add_proxy_headers host)
                             (then_do (send_text (digest_line E (hs_p s) realm (get_pa_var (asc ''algorithm'') pa) nonce
                                                    cnonce uri opaque_kv))
                               (then_do send_empty recv_text))) s))))
           | _ \<Rightarrow> Inr (False, s)))"

definition clear_round :: "http_state \<Rightarrow> http_state" where
  "clear_round s =
     s\<lparr>hs_static := (if ho_auth_retry (hp_options (hs_p s)) \<noteq> PAR_NO then clear_user_pass_http (hs_static s) else hs_static s),
       hs_p := store_proxy_authenticate (hs_p s) None\<rparr>"

text \<open>How the loop over 407 replies ends: with another status (\<open>None\<close>: none was found), at \<open>done\<close>, or at \<open>error\<close>.\<close>

datatype auth_end = With_Status "int option" | Goto_Done | Goto_Error

definition auth_retry :: "http_state \<Rightarrow> fault + auth_end \<times> http_state" where
  "auth_retry s =
     bindE (get_proxy_authenticate s)
       (\<lambda>(method, pa, s1).
          if method \<noteq> HTTP_AUTH_NONE
          then (if ho_auth_retry (hp_options (hs_p s1)) = PAR_NCT \<and> method = HTTP_AUTH_BASIC then Inr (Goto_Error, s1)
                else Inr (Goto_Done, s1\<lparr>hs_p := store_proxy_authenticate ((hs_p s1)\<lparr>hp_auth_method := method\<rparr>) pa\<rparr>))
          else Inr (Goto_Error, s1))"

definition reply_status :: "http_state \<Rightarrow> int option" where
  "reply_status s = scan_status (c_string (hs_buf s))"

function auth_loop ::
  "http_env \<Rightarrow> cstr \<Rightarrow> cstr \<Rightarrow> int option \<Rightarrow> bool \<Rightarrow> http_state \<Rightarrow> fault + auth_end \<times> http_state" where
  "auth_loop E host port status processed s =
     (let a = hp_auth_method (hs_p s)
      in if status \<noteq> Some 407 then Inr (With_Status status, s)
         else if a = HTTP_AUTH_BASIC \<and> \<not> processed then auth_loop E host port status True (clear_round s)
         else if (a = HTTP_AUTH_NTLM \<or> a = HTTP_AUTH_NTLM2) \<and> \<not> processed
         then (case ntlm_round E host port s of
                 Inl e \<Rightarrow> Inl e
               | Inr (ok, s1) \<Rightarrow> if ok then auth_loop E host port (reply_status s1) True (clear_round s1)
                                else Inr (Goto_Error, s1))
         else if a = HTTP_AUTH_DIGEST \<and> \<not> processed
         then (case digest_round E host port s of
                 Inl e \<Rightarrow> Inl e
               | Inr (ok, s1) \<Rightarrow> if ok then auth_loop E host port (reply_status s1) True (clear_round s1)
                                else Inr (Goto_Error, s1))
         else if ho_auth_retry (hp_options (hs_p s)) \<noteq> PAR_NO then auth_retry s
         else Inr (Goto_Error, s))"
  by pat_completeness auto
termination by (relation "measure (\<lambda>(_, _, _, _, processed, _). if processed then 0 else 1)") auto

declare auth_loop.simps [simp del]

definition http_error :: "http_state \<Rightarrow> http_state" where
  "http_error s = (if cn_signal (hs_io s) = 0 then s\<lparr>hs_io := (hs_io s)\<lparr>cn_signal := SIGUSR1\<rparr>\<rparr> else s)"

text \<open>The result, and the lookahead buffer.\<close>

definition establish_http_proxy_passthru ::
  "http_env \<Rightarrow> cstr \<Rightarrow> cstr \<Rightarrow> buffer option \<Rightarrow> http_state \<Rightarrow> fault + bool \<times> buffer option \<times> http_state" where
  "establish_http_proxy_passthru E host port lookahead s =
     (let a = hp_auth_method (hs_p s)
      in bindE (if a = HTTP_AUTH_BASIC \<or> a = HTTP_AUTH_DIGEST \<or> a = HTTP_AUTH_NTLM
                then bindE (get_user_pass_http E (hs_m s) (hs_static s) (hs_p s) False)
                       (\<lambda>(m1, up, p). Inr (s\<lparr>hs_m := m1, hs_static := up, hs_p := p\<rparr>))
                else Inr s)
         (\<lambda>s1. bindE (if a = HTTP_AUTH_DIGEST \<and> hp_proxy_authenticate (hs_p s1) \<noteq> None
                      then Inr (True, s1, Some 407)
                      else bindE (first_request E host port s1) (\<lambda>(ok, s2). Inr (ok, s2, reply_status s2)))
         (\<lambda>(ok, s2, status).
            if \<not> ok then Inr (False, lookahead, http_error s2)
            else bindE (auth_loop E host port status False s2)
              (\<lambda>(r, s3). case r of
                 Goto_Error \<Rightarrow> Inr (False, lookahead, http_error s3)
               | Goto_Done \<Rightarrow> Inr (True, lookahead, s3)
               | With_Status st \<Rightarrow>
                   if st \<noteq> Some 200 then Inr (False, lookahead, http_error s3)
                   else bindE (recv_line (hs_m s3) (hs_io s3) [] 0 None)
                     (\<lambda>(ok, m4, io4, _, _).
                        if \<not> ok then Inr (False, lookahead, http_error (s3\<lparr>hs_m := m4, hs_io := io4\<rparr>))
                        else bindE (discard_lines m4 io4 lookahead)
                          (\<lambda>(m5, io5, la). Inr (False, la, s3\<lparr>hs_m := m5, hs_io := io5,
                              hs_p := (hs_p s3)\<lparr>hp_queried_creds := False\<rparr>\<rparr>)))))))"

end
