(* ===== verification/Proxy_Laws.thy ===== *)
theory Proxy_Laws
  imports Proxy
begin

text \<open>
  The laws of the HTTP proxy client: the parameters of a challenge are found as they were written, and lines
  are sent and received without a fault.
\<close>

section \<open>Challenges as they are written\<close>

text \<open>A parameter: its name, whether its value is quoted, and the value with its escapes.\<close>

type_synonym pa_param = "cstr \<times> bool \<times> cstr"

fun value_ok :: "bool \<Rightarrow> bool \<Rightarrow> cstr \<Rightarrow> bool" where
  "value_ok q escape [] = (q \<longrightarrow> \<not> escape)"
| "value_ok q escape (x # v) =
     (if x = BACKSLASH \<and> \<not> escape then value_ok q True v
      else (x \<noteq> COMMA \<or> q) \<and> x \<noteq> 13 \<and> x \<noteq> 10 \<and> (x \<noteq> DQUOTE \<or> escape \<or> \<not> q) \<and> value_ok q False v)"

fun param_ok :: "pa_param \<Rightarrow> bool" where
  "param_ok (k, q, v) \<longleftrightarrow>
     EQ_SIGN \<notin> set k \<and> length k < 64 \<and> (k = [] \<or> \<not> isspace (hd k)) \<and> length v < 255 \<and> value_ok q False v \<and>
     (q \<or> v = [] \<or> hd v \<noteq> DQUOTE)"

fun pa_item :: "pa_param \<Rightarrow> cstr" where
  "pa_item (k, q, v) = k @ EQ_SIGN # (if q then DQUOTE # v @ [DQUOTE] else v)"

fun pa_text :: "pa_param list \<Rightarrow> cstr" where
  "pa_text [] = []"
| "pa_text [p] = pa_item p"
| "pa_text (p # ps) = pa_item p @ COMMA # 32 # pa_text ps"

fun pa_pair :: "pa_param \<Rightarrow> cstr \<times> cstr" where
  "pa_pair (k, q, v) = (k, v)"

lemma key_loop_key: "EQ_SIGN \<notin> set k \<Longrightarrow> length k \<le> c \<Longrightarrow> key_loop c (k @ EQ_SIGN # rest) = (k, EQ_SIGN # rest)"
  by (induction k arbitrary: c) auto

lemma value_loop_quoted:
  "value_ok True e v \<Longrightarrow> length v < c \<Longrightarrow> value_loop True e c (v @ DQUOTE # rest) = (v, rest)"
proof (induction v arbitrary: e c)
  case Nil
  then show ?case by (simp add: DQUOTE_def BACKSLASH_def COMMA_def)
next
  case (Cons x v)
  have "0 < c" "length v < c - 1" using Cons.prems(2) by auto
  then show ?case using Cons.prems(1) Cons.IH [of True "c - 1"] Cons.IH [of False "c - 1"]
    by (cases "x = BACKSLASH \<and> \<not> e") auto
qed

lemma value_loop_plain:
  "value_ok False e v \<Longrightarrow> length v < c \<Longrightarrow> rest = [] \<or> hd rest = COMMA \<Longrightarrow> value_loop False e c (v @ rest) = (v, tl rest)"
proof (induction v arbitrary: e c)
  case Nil
  then show ?case by (cases rest) (auto simp: COMMA_def BACKSLASH_def)
next
  case (Cons x v)
  have "0 < c" "length v < c - 1" using Cons.prems(2) by auto
  then show ?case using Cons.prems(1,3) Cons.IH [of True "c - 1"] Cons.IH [of False "c - 1"]
    by (cases "x = BACKSLASH \<and> \<not> e") auto
qed

lemma get_key_value_item:
  assumes "param_ok (k, q, v)" and "rest = [] \<or> hd rest = COMMA"
  shows "get_key_value (pa_item (k, q, v) @ rest) 64 256 = Some (k, v, if q then rest else tl rest)"
proof -
  have k: "EQ_SIGN \<notin> set k" "length k \<le> 63" and v: "length v < 255" "value_ok q False v" "q \<or> v = [] \<or> hd v \<noteq> DQUOTE"
    using assms(1) by auto
  show ?thesis
  proof (cases q)
    case True
    then show ?thesis using key_loop_key [OF k] value_loop_quoted [of False v 255 rest] v by (simp add: get_key_value_def)
  next
    case False
    have "\<not> (v @ rest \<noteq> [] \<and> hd (v @ rest) = DQUOTE)"
      using v(3) False assms(2) by (cases v; cases rest) (auto simp: DQUOTE_def COMMA_def)
    then show ?thesis
      using False key_loop_key [OF k, of "v @ rest"] value_loop_plain [of False v 255 rest] v assms(2) by (auto simp: get_key_value_def Let_def)
  qed
qed

lemma pa_text_start: "param_ok p \<Longrightarrow> \<exists>x r. pa_text (p # ps) = x # r \<and> \<not> isspace x"
proof -
  assume p: "param_ok p"
  obtain k q v where e: "p = (k, q, v)" by (cases p)
  have "\<exists>x r. pa_item p = x # r \<and> \<not> isspace x" using p e by (cases k) (auto simp: EQ_SIGN_def isspace_def)
  then show ?thesis by (cases ps) auto
qed

section \<open>Properties of the parser\<close>

text \<open>
  C27: Parsing a challenge inverts writing it: in a text of parameters with quoted values (escaped quotes
  included) or plain ones, each name is found with its value, the first one counts, and a name that is not
  there is not found. The names have at most 63 bytes and the values at most 254, which is what the
  buffers of the parser hold, and they have only characters their form can carry (\<open>param_ok\<close>); a
  longer one upsets the parsing of what follows.
\<close>

theorem pa_var_roundtrip:
  assumes "list_all param_ok ps"
  shows "get_pa_var nm (pa_text ps) = map_of (map pa_pair ps) nm"
  using assms
proof (induction ps rule: pa_text.induct)
  case 1
  show ?case by (subst get_pa_var.simps) (simp add: get_key_value_def)
next
  case (2 p)
  obtain k q v where p: "p = (k, q, v)" by (cases p)
  have e: "get_key_value (pa_item p) 64 256 = Some (k, v, [])" using get_key_value_item [of k q v "[]"] 2 p by simp
  have n: "get_pa_var nm [] = None" by (subst get_pa_var.simps) (simp add: get_key_value_def)
  show ?case by (subst get_pa_var.simps) (use e n p in simp)
next
  case (3 p p2 ps)
  obtain k q v where p: "p = (k, q, v)" by (cases p)
  let ?t = "pa_text (p2 # ps)"
  have e: "get_key_value (pa_item p @ COMMA # 32 # ?t) 64 256 = Some (k, v, if q then COMMA # 32 # ?t else 32 # ?t)"
    using get_key_value_item [of k q v "COMMA # 32 # ?t"] 3(2) p by simp
  obtain x r where t: "?t = x # r" "\<not> isspace x" using pa_text_start [of p2 ps] 3(2) by auto
  have sp: "isspace 32" "32 \<noteq> COMMA" by (simp_all add: isspace_def COMMA_def)
  have d: "dropWhile isspace (32 # ?t) = ?t" using t sp by simp
  have IH: "get_pa_var nm ?t = map_of (map pa_pair (p2 # ps)) nm" using 3 by simp
  have "get_pa_var nm (pa_item p @ COMMA # 32 # ?t) = (if nm = k then Some v else get_pa_var nm ?t)"
    by (subst get_pa_var.simps) (use e d sp in simp)
  then show ?case using IH p by simp
qed

theorem pa_var_roundtrip_witness:
  "get_pa_var (asc ''nonce'') (asc ''realm='' @ [34] @ asc ''a, '' @ [92, 34] @ asc ''b'' @ [34] @ asc '', nonce=x7'') = Some (asc ''x7'')"
  using pa_var_roundtrip [of "[(asc ''realm'', True, asc ''a, '' @ [92, 34] @ asc ''b''), (asc ''nonce'', False, asc ''x7'')]" "asc ''nonce''"]
  by (simp add: DQUOTE_def COMMA_def EQ_SIGN_def BACKSLASH_def isspace_def)

section \<open>Lines without a fault\<close>

lemma c_string_stop: "c_string (w @ NUL # rest) = c_string w"
  by (induction w) (simp_all add: c_string_def)

lemma snprintf_text:
  assumes "0 < n" and "n \<le> length arr"
  shows "\<exists>b ok. openvpn_snprintf arr n (Some t) = Inr (b, ok) \<and> length b = length arr \<and> NUL \<in> set b \<and>
           c_string b = c_string (take (n - 1) t) \<and> length (c_string b) < n"
proof -
  define w where "w = take (n - 1) t"
  let ?o = "overwrite arr 0 (w @ [NUL])"
  have l: "length w + 1 \<le> n" using assms(1) by (simp add: w_def)
  have o: "?o = w @ NUL # drop (length w + 1) arr" using l assms by (simp add: overwrite_def)
  have lo: "length ?o = length arr" using l assms unfolding o by simp
  have c: "c_string (?o[n - 1 := NUL]) = c_string w \<and> NUL \<in> set (?o[n - 1 := NUL])"
  proof (cases "length w = n - 1")
    case True
    then have "?o[n - 1 := NUL] = w @ NUL # drop (length w + 1) arr" unfolding o by (simp add: list_update_append)
    then show ?thesis by (simp add: c_string_stop)
  next
    case False
    then have "length w < n - 1" using l by linarith
    then obtain i where i: "n - 1 = Suc (length w + i)" using less_imp_Suc_add by blast
    have "(u @ NUL # r)[Suc (length u + i) := NUL] = u @ NUL # r[i := NUL]" for u r :: "byte list"
      by (simp add: list_update_append)
    then have "?o[n - 1 := NUL] = w @ NUL # (drop (length w + 1) arr)[i := NUL]" unfolding o i .
    then show ?thesis by (simp add: c_string_stop)
  qed
  have "length (c_string w) \<le> length w" by (simp add: c_string_def length_takeWhile_le)
  then have s: "length (c_string w) < n" using l by linarith
  have la: "length (w @ [NUL]) \<le> length arr" "n - 1 < length ?o" using l assms lo by auto
  have "vsnprintf_bytes (Some t) n = w @ [NUL]" using assms(1) by (simp add: vsnprintf_bytes_def w_def)
  then have "\<exists>ok. openvpn_snprintf arr n (Some t) = Inr (?o[n - 1 := NUL], ok)"
    using assms(1) la arr_set_in [OF la(2), of NUL] by (simp add: openvpn_snprintf_def)
  then show ?thesis unfolding w_def [symmetric] using c lo s by auto
qed

definition keeps_blocks :: "mem \<Rightarrow> mem \<Rightarrow> bool" where
  "keeps_blocks m m' \<longleftrightarrow> mem_ok m' \<and> oom m' = oom m \<and> (\<forall>k bs. blocks m k = Some bs \<longrightarrow> blocks m' k = Some bs)"

lemma send_line_crlf_sends:
  assumes "mem_ok m" and "\<not> oom m (nxt m)" and "is_cstr src" and "length src < 1000"
  shows "\<exists>m'. send_line_crlf m io src =
           Inr (fst (sock_send io (src @ [13, 10])) = int (length src) + 2, m', snd (sock_send io (src @ [13, 10]))) \<and>
           keeps_blocks m m'"
proof -
  let ?k = "nxt m" and ?n = "length src + 3"
  let ?b = "\<lparr>b_capacity = int ?n, b_offset = 0, b_len = 0, b_data = Ptr ?k 0\<rparr>"
  obtain m1 where m1: "c_calloc m ?n = (Ptr ?k 0, m1)" "blocks m1 = (blocks m)(?k \<mapsto> replicate ?n 0)" "nxt m1 = Suc ?k" "oom m1 = oom m"
    using assms(2) by (simp add: c_calloc_def new_block_def)
  have a: "alloc_buf m ?n = Inr (?b, m1)"
    using m1(1) assms(4) by (simp add: alloc_buf_def buf_size_valid_def BUF_SIZE_MAX_def check_malloc_return_def)
  have i1: "buf_inv m1 ?b" using m1(2) assms(4) by (simp add: buf_inv_def room_at_def BUF_SIZE_MAX_def)
  have c1: "content m1 ?b = []" using read_content(2) [OF i1] by simp
  let ?b2 = "?b\<lparr>b_len := int (length src)\<rparr>" and ?b3 = "?b\<lparr>b_len := int (length src) + 3\<rparr>"
  obtain m2 where w1: "buf_write_val m1 ?b src = Inr (True, ?b2, m2)" "buf_inv m2 ?b2" "content m2 ?b2 = src"
      "write_bytes m1 (Ptr ?k 0) src = Inr m2"
    by (rule buf_write_val_cases [OF i1, of src]) (use c1 in \<open>auto simp: buf_bptr_def buf_valid_def\<close>)
  obtain m3 where w2: "buf_write_val m2 ?b2 [13, 10, 0] = Inr (True, ?b3, m3)" "buf_inv m3 ?b3"
      "content m3 ?b3 = src @ [13, 10, 0]" "write_bytes m2 (Ptr ?k (int (length src))) [13, 10, 0] = Inr m3"
    by (rule buf_write_val_cases [OF w1(2), of "[13, 10, 0]"]) (use w1(3) in \<open>auto simp: buf_bptr_def buf_valid_def\<close>)
  have "read_bytes m3 (buf_bptr ?b3) (b_len ?b3) = Inr ((src @ [13, 10]) @ NUL # [])"
    using read_content(1) [OF w2(2)] w2(3) by simp
  moreover have "is_cstr (src @ [13, 10])" using assms(3) by simp
  ultimately have r: "read_cstr m3 (buf_bptr ?b3) = Inr (src @ [13, 10])" by (rule read_cstr_of_read)
  have f: "free_buf m3 ?b3 = Inr (clear_buf, m3\<lparr>blocks := (blocks m3)(?k := None)\<rparr>)"
    using free_buf_block [OF w2(2)] by simp
  have ok: "mem_ok m1" using assms(1) m1(2,3) by (auto simp: mem_ok_def)
  have ok3: "mem_ok m3" using write_bytes_frame(4) [OF w2(4)] write_bytes_frame(4) [OF w1(4) ok] by simp
  have o3: "oom m3 = oom m" using write_bytes_frame(3) [OF w2(4)] write_bytes_frame(3) [OF w1(4)] m1(4) by simp
  have bl: "blocks m3 j = blocks m j" if "j \<noteq> ?k" for j
    using write_bytes_other [OF w2(4) that] write_bytes_other [OF w1(4) that] m1(2) that by simp
  have "keeps_blocks m (m3\<lparr>blocks := (blocks m3)(?k := None)\<rparr>)"
    using mem_ok_free [OF ok3, of ?k] o3 bl assms(1) by (auto simp: keeps_blocks_def)
  moreover obtain z io1 where s: "sock_send io (src @ [13, 10]) = (z, io1)" by (cases "sock_send io (src @ [13, 10])")
  have "send_line_crlf m io src = Inr (z = int (length src) + 2, m3\<lparr>blocks := (blocks m3)(?k := None)\<rparr>, io1)"
    unfolding send_line_crlf_def Let_def
    by (simp only: a bindE_simps prod.case w1(1) c_assert_simps w2(1) r f send_line_def s Let_def length_append) auto
  ultimately show ?thesis using s by auto
qed

section \<open>Receiving a line\<close>

text \<open>The bytes a run of receive events delivers.\<close>

definition io_bytes :: "io_event list \<Rightarrow> byte list" where
  "io_bytes es = concat (map (\<lambda>e. case ev_recv e of Some c \<Rightarrow> [c] | None \<Rightarrow> []) es)"

lemma io_bytes_simps [simp]:
  "io_bytes [] = []"
  "io_bytes (es @ fs) = io_bytes es @ io_bytes fs"
  "io_bytes (e # es) = (case ev_recv e of Some c \<Rightarrow> [c] | None \<Rightarrow> []) @ io_bytes es"
  by (simp_all add: io_bytes_def)

definition consumes :: "conn \<Rightarrow> io_event list \<Rightarrow> conn \<Rightarrow> bool" where
  "consumes io es io' \<longleftrightarrow> cn_events io = es @ cn_events io'"

lemma consumes_refl: "consumes io [] io"
  by (simp add: consumes_def)

lemma consumes_trans: "consumes io es io1 \<Longrightarrow> consumes io1 fs io2 \<Longrightarrow> consumes io (es @ fs) io2"
  by (simp add: consumes_def)

lemma recv_char_consumes:
  "recv_char io = (r, io') \<Longrightarrow> \<exists>es. consumes io es io' \<and> (\<forall>c. r = Some c \<longrightarrow> io_bytes es = [c])"
  by (cases "cn_events io") (auto simp: recv_char_def consumes_def Let_def split: if_splits)

text \<open>Where a receive loop stands after the bytes \<open>got\<close>, with an array of \<open>n\<close> bytes and no lookahead.\<close>

definition line_state :: "nat \<Rightarrow> byte list \<Rightarrow> byte list \<Rightarrow> nat \<Rightarrow> nat \<Rightarrow> bool" where
  "line_state n got arr pos len \<longleftrightarrow>
     length arr = n \<and> pos = min (length got) (n - 1) \<and> len = n - pos \<and> take pos arr = take (n - 1) got"

lemma line_state_start: "length arr = n \<Longrightarrow> line_state n [] arr 0 n"
  by (simp add: line_state_def)

lemma line_state_step:
  assumes "line_state n got arr pos len"
  shows "\<exists>arr1. (if len > 1 then arr_set arr pos c else Inr arr) = Inr arr1 \<and>
           line_state n (got @ [c]) arr1 (if len > 1 then pos + 1 else pos) (if len > 1 then len - 1 else len)"
proof (cases "len > 1")
  case True
  then have p: "pos = length got" "Suc pos < n" "length got < n - 1" using assms by (auto simp: line_state_def)
  then have "take (Suc pos) (arr[pos := c]) = take pos arr @ [c]"
    using assms by (simp add: line_state_def take_Suc_conv_app_nth)
  then show ?thesis using assms p True by (auto simp: line_state_def arr_set_def)
next
  case False
  then have "n - 1 \<le> length got" using assms by (auto simp: line_state_def min_def split: if_splits)
  then show ?thesis using assms False by (auto simp: line_state_def min_def)
qed

lemma recv_line_loop_plain:
  assumes "line_state n got arr pos len" and "lastc = (if got = [] then 0 else last got)"
  shows "\<exists>r io' arr' pos' len' es.
     recv_line_loop m io arr pos len clear_buf lastc = Inr (r, m, io', arr', pos', len', clear_buf) \<and> r \<noteq> Line_Odd \<and>
     consumes io es io' \<and> length arr' = n \<and>
     (r = Line_Complete \<longrightarrow> line_state n (got @ io_bytes es) arr' pos' len' \<and> (\<exists>l. got @ io_bytes es = l @ [13, 10]))"
  using assms
proof (induction "length (cn_events io)" arbitrary: io got arr pos len lastc rule: less_induct)
  case less
  have nb: "\<not> buf_defined clear_buf" by (simp add: buf_defined_def clear_buf_def)
  have n: "length arr = n" using less(2) by (simp add: line_state_def)
  obtain r1 io1 where c: "recv_char io = (r1, io1)" by (cases "recv_char io")
  obtain es1 where e1: "consumes io es1 io1" "\<And>x. r1 = Some x \<Longrightarrow> io_bytes es1 = [x]" using recv_char_consumes [OF c] by auto
  show ?case
  proof (cases r1)
    case None
    have "recv_line_loop m io arr pos len clear_buf lastc = Inr (Line_Failed, m, io1, arr, pos, len, clear_buf)"
      by (subst recv_line_loop.simps) (simp add: nb c None)
    then show ?thesis using e1(1) n by blast
  next
    case (Some x)
    let ?p = "if len > 1 then pos + 1 else pos" and ?l = "if len > 1 then len - 1 else len"
    obtain arr1 where a: "(if len > 1 then arr_set arr pos x else Inr arr) = Inr arr1"
        and st: "line_state n (got @ [x]) arr1 ?p ?l"
      using line_state_step [OF less(2), of x] by blast
    have p: "(if len > 1 then (pos + 1, len - 1) else (pos, len)) = (?p, ?l)" by simp
    have step: "recv_line_loop m io arr pos len clear_buf lastc =
        (if lastc = 13 \<and> x = 10 then Inr (Line_Complete, m, io1, arr1, ?p, ?l, clear_buf)
         else recv_line_loop m io1 arr1 ?p ?l clear_buf x)"
      by (subst recv_line_loop.simps) (simp only: nb c Some a p Let_def if_False prod.case option.case sum.case simp_thms)
    show ?thesis
    proof (cases "lastc = 13 \<and> x = 10")
      case True
      then have "got \<noteq> []" "last got = 13" using less(3) by (auto split: if_splits)
      then have g: "got @ io_bytes es1 = butlast got @ [13, 10]"
        using True append_butlast_last_id [of got] e1(2) [OF Some] by auto
      have st1: "line_state n (got @ io_bytes es1) arr1 ?p ?l" using st e1(2) [OF Some] by simp
      have "length arr1 = n" using st by (simp add: line_state_def)
      moreover have "recv_line_loop m io arr pos len clear_buf lastc = Inr (Line_Complete, m, io1, arr1, ?p, ?l, clear_buf)"
        using step True by simp
      ultimately show ?thesis using e1(1) st1 g by blast
    next
      case False
      have lt: "length (cn_events io1) < length (cn_events io)" using recv_char_events c Some by blast
      obtain r io' arr' pos' len' es where ih:
          "recv_line_loop m io1 arr1 ?p ?l clear_buf x = Inr (r, m, io', arr', pos', len', clear_buf)" "r \<noteq> Line_Odd"
          "consumes io1 es io'" "length arr' = n"
          "r = Line_Complete \<longrightarrow> line_state n ((got @ [x]) @ io_bytes es) arr' pos' len' \<and> (\<exists>l. (got @ [x]) @ io_bytes es = l @ [13, 10])"
        using less(1) [OF lt st, of x] by auto
      have "io_bytes (es1 @ es) = x # io_bytes es" using e1(2) [OF Some] by simp
      then show ?thesis using step False ih consumes_trans [OF e1(1) ih(3)] by auto
    qed
  qed
qed

lemma recv_line_plain:
  assumes "length arr = n"
  shows "\<exists>ok io' arr' es. recv_line m io arr n None = Inr (ok, m, io', arr', None) \<and> length arr' = n \<and> consumes io es io' \<and>
     (ok \<longrightarrow> (\<exists>l. io_bytes es = l @ [13, 10]) \<and>
             (0 < n \<longrightarrow> NUL \<in> set arr' \<and> c_string arr' = c_string (take (n - 1) (io_bytes es))))"
proof -
  obtain r io' arr' pos' len' es where l:
      "recv_line_loop m io arr 0 n clear_buf 0 = Inr (r, m, io', arr', pos', len', clear_buf)" "r \<noteq> Line_Odd"
      "consumes io es io'" "length arr' = n"
      "r = Line_Complete \<longrightarrow> line_state n (io_bytes es) arr' pos' len' \<and> (\<exists>l. io_bytes es = l @ [13, 10])"
    using recv_line_loop_plain [OF line_state_start [OF assms], of 0 m io] by auto
  show ?thesis
  proof (cases "r = Line_Complete")
    case False
    then show ?thesis using l by (cases r) (auto simp: recv_line_def)
  next
    case True
    then have st: "line_state n (io_bytes es) arr' pos' len'" using l(5) by simp
    show ?thesis
    proof (cases "n = 0")
      case True
      then show ?thesis using l st \<open>r = Line_Complete\<close> by (auto simp: recv_line_def line_state_def)
    next
      case False
      then have p: "0 < len'" "pos' < length arr'" using st by (auto simp: line_state_def)
      have "arr'[pos' := NUL] = take pos' arr' @ NUL # drop (Suc pos') arr'" using p(2) by (simp add: upd_conv_take_nth_drop)
      also have "take pos' arr' = take (n - 1) (io_bytes es)" using st by (auto simp: line_state_def)
      finally have "c_string (arr'[pos' := NUL]) = c_string (take (n - 1) (io_bytes es))" "NUL \<in> set (arr'[pos' := NUL])"
        by (simp_all add: c_string_stop)
      then show ?thesis using l \<open>r = Line_Complete\<close> p by (auto simp: recv_line_def arr_set_def)
    qed
  qed
qed

end
