(* ===== verification/Proxy_Steps.thy ===== *)
theory Proxy_Steps
  imports Proxy_Laws
begin

text \<open>
  The steps of the CONNECT exchange of the HTTP proxy client: a contract for each step and a rule for
  sequencing them.
\<close>

section \<open>Steps of the exchange\<close>

text \<open>
  A contract per step and one rule for sequencing: from a good state a step returns, consumes some of the
  events, keeps the proxy and every block of memory that was there, and its array keeps its size.
\<close>

definition http_ok :: "nat \<Rightarrow> http_state \<Rightarrow> bool" where
  "http_ok n s \<longleftrightarrow> length (hs_buf s) = n \<and> mem_ok (hs_m s) \<and> (\<forall>k. \<not> oom (hs_m s) k)"

definition moves :: "http_state \<Rightarrow> io_event list \<Rightarrow> http_state \<Rightarrow> bool" where
  "moves s es s' \<longleftrightarrow>
     consumes (hs_io s) es (hs_io s') \<and> length (hs_buf s') = length (hs_buf s) \<and> keeps_blocks (hs_m s) (hs_m s') \<and>
     hs_p s' = hs_p s \<and> hs_static s' = hs_static s"

text \<open>A line of the reply, as the array of 512 bytes has it after \<open>chomp\<close>.\<close>

definition reply_in :: "io_event list \<Rightarrow> cstr \<Rightarrow> bool" where
  "reply_in es t \<longleftrightarrow>
     (\<exists>a l b. io_bytes es = a @ l @ [13, 10] @ b \<and> t = rstrip {13, 10} (c_string (take 511 (l @ [13, 10]))))"

definition good_step :: "nat \<Rightarrow> (http_proxy_info \<Rightarrow> bool) \<Rightarrow> http_step \<Rightarrow> bool" where
  "good_step n P f \<longleftrightarrow> (\<forall>s. http_ok n s \<and> P (hs_p s) \<longrightarrow> (\<exists>ok s' es. f s = Inr (ok, s') \<and> moves s es s'))"

definition gives_reply :: "(http_proxy_info \<Rightarrow> bool) \<Rightarrow> http_step \<Rightarrow> bool" where
  "gives_reply P f \<longleftrightarrow>
     (\<forall>s. http_ok 512 s \<and> P (hs_p s) \<longrightarrow>
        (\<exists>ok s' es. f s = Inr (ok, s') \<and> moves s es s' \<and> (ok \<longrightarrow> reply_in es (c_string (hs_buf s')))))"

lemma keeps_blocks_refl: "mem_ok m \<Longrightarrow> keeps_blocks m m"
  by (simp add: keeps_blocks_def)

lemma keeps_blocks_trans: "keeps_blocks m m1 \<Longrightarrow> keeps_blocks m1 m2 \<Longrightarrow> keeps_blocks m m2"
  by (simp add: keeps_blocks_def)

lemma moves_refl: "http_ok n s \<Longrightarrow> moves s [] s"
  by (simp add: moves_def http_ok_def consumes_refl keeps_blocks_refl)

lemma moves_trans: "moves s es s1 \<Longrightarrow> moves s1 fs s2 \<Longrightarrow> moves s (es @ fs) s2"
  unfolding moves_def using consumes_trans keeps_blocks_trans by metis

lemma moves_ok: "moves s es s' \<Longrightarrow> http_ok n s \<Longrightarrow> http_ok n s'"
  by (simp add: moves_def http_ok_def keeps_blocks_def)

lemma moves_p: "moves s es s' \<Longrightarrow> hs_p s' = hs_p s"
  by (simp add: moves_def)

lemma reply_in_later: "reply_in es t \<Longrightarrow> reply_in (es @ fs) t"
  unfolding reply_in_def using append.assoc by (metis io_bytes_simps(2))

lemma reply_in_earlier: "reply_in es t \<Longrightarrow> reply_in (fs @ es) t"
  unfolding reply_in_def using append.assoc by (metis io_bytes_simps(2))

lemma good_stepD:
  assumes "good_step n P f" and "http_ok n s" and "P (hs_p s)"
  obtains ok s' es where "f s = Inr (ok, s')" and "moves s es s'"
  using assms unfolding good_step_def by blast

lemma good_step_runs:
  "good_step n (\<lambda>p. True) f \<Longrightarrow> http_ok n s \<Longrightarrow> \<exists>ok s' es. f s = Inr (ok, s') \<and> moves s es s'"
  by (simp add: good_step_def)

lemma good_step_weaken: "good_step n (\<lambda>p. True) f \<Longrightarrow> good_step n P f"
  by (simp add: good_step_def)

lemma good_step_then:
  assumes "good_step n P f" and "good_step n P g"
  shows "good_step n P (then_do f g)"
  unfolding good_step_def
proof (intro allI impI, elim conjE)
  fix s assume s: "http_ok n s" "P (hs_p s)"
  obtain ok s1 es where f: "f s = Inr (ok, s1)" "moves s es s1" using good_stepD [OF assms(1) s] .
  obtain ok2 s2 fs where g: "g s1 = Inr (ok2, s2)" "moves s1 fs s2"
    using good_stepD [OF assms(2) moves_ok [OF f(2) s(1)]] s(2) moves_p [OF f(2)] by auto
  show "\<exists>ok s' es. then_do f g s = Inr (ok, s') \<and> moves s es s'"
    using f g moves_trans [OF f(2) g(2)] by (cases ok) (auto simp: then_do_def)
qed

lemma gives_reply_then:
  assumes "good_step 512 P f" and "gives_reply P g"
  shows "gives_reply P (then_do f g)"
  unfolding gives_reply_def
proof (intro allI impI, elim conjE)
  fix s assume s: "http_ok 512 s" "P (hs_p s)"
  obtain ok s1 es where f: "f s = Inr (ok, s1)" "moves s es s1" using good_stepD [OF assms(1) s] .
  show "\<exists>ok s' es. then_do f g s = Inr (ok, s') \<and> moves s es s' \<and> (ok \<longrightarrow> reply_in es (c_string (hs_buf s')))"
  proof (cases ok)
    case False
    then show ?thesis using f by (auto simp: then_do_def)
  next
    case True
    have s1: "http_ok 512 s1" "P (hs_p s1)" using moves_ok [OF f(2) s(1)] s(2) moves_p [OF f(2)] by simp_all
    obtain ok2 s2 fs where g: "g s1 = Inr (ok2, s2)" "moves s1 fs s2" "ok2 \<longrightarrow> reply_in fs (c_string (hs_buf s2))"
      using assms(2) s1 unfolding gives_reply_def by blast
    then show ?thesis using f(1) True moves_trans [OF f(2) g(2)] reply_in_earlier [of fs _ es] by (auto simp: then_do_def)
  qed
qed

lemma good_step_choice: "good_step n P f \<Longrightarrow> good_step n P g \<Longrightarrow> good_step n P (\<lambda>s. if b s then f s else g s)"
  by (simp add: good_step_def)

lemma good_step_here: "(\<And>s. http_ok n s \<Longrightarrow> P (hs_p s) \<Longrightarrow> \<exists>ok s' es. f s = Inr (ok, s') \<and> moves s es s') \<Longrightarrow> good_step n P f"
  by (simp add: good_step_def)

lemma good_step_skip: "good_step n P (\<lambda>s. Inr (b, s))"
  using moves_refl by (fastforce simp: good_step_def)

subsection \<open>Sending\<close>

lemma sock_send_consumes: "consumes io [] (snd (sock_send io bs))"
  by (simp add: sock_send_def consumes_def split: list.splits)

lemma send_line_crlf_moves:
  assumes "http_ok n s" and "is_cstr t" and "length t < 1000"
  shows "\<exists>ok m1 io1. send_line_crlf (hs_m s) (hs_io s) t = Inr (ok, m1, io1) \<and> keeps_blocks (hs_m s) m1 \<and>
           consumes (hs_io s) [] io1"
  using send_line_crlf_sends [of "hs_m s" t "hs_io s"] assms sock_send_consumes by (auto simp: http_ok_def)

lemma send_text_good: "good_step 512 P (send_text t)"
proof (rule good_step_here)
  fix s assume s: "http_ok 512 s"
  obtain b ok where b: "openvpn_snprintf (hs_buf s) 512 (Some t) = Inr (b, ok)" "length b = 512" "length (c_string b) < 512"
    using snprintf_text [of 512 "hs_buf s" t] s by (auto simp: http_ok_def)
  obtain ok2 m1 io1 where l: "send_line_crlf (hs_m s) (hs_io s) (c_string b) = Inr (ok2, m1, io1)"
      "keeps_blocks (hs_m s) m1" "consumes (hs_io s) [] io1"
    using send_line_crlf_moves [OF s, of "c_string b"] b(3) by auto
  show "\<exists>ok s' es. send_text t s = Inr (ok, s') \<and> moves s es s'"
    using b l s by (auto simp: send_text_def moves_def http_ok_def)
qed

lemma send_empty_good: "good_step n P send_empty"
proof (rule good_step_here)
  fix s assume s: "http_ok n s"
  show "\<exists>ok s' es. send_empty s = Inr (ok, s') \<and> moves s es s'"
    using send_line_crlf_moves [OF s, of "[]"] by (auto simp: send_empty_def send_crlf_def moves_def)
qed

lemma send_local_good: "good_step 512 P (send_local t)"
proof (rule good_step_here)
  fix s assume s: "http_ok 512 s"
  then have s0: "http_ok 512 (s\<lparr>hs_buf := replicate 512 0\<rparr>)" by (simp add: http_ok_def)
  obtain ok s1 es where f: "send_text t (s\<lparr>hs_buf := replicate 512 0\<rparr>) = Inr (ok, s1)" "moves (s\<lparr>hs_buf := replicate 512 0\<rparr>) es s1"
    using good_step_runs [OF send_text_good s0] by blast
  then show "\<exists>ok s' es. send_local t s = Inr (ok, s') \<and> moves s es s'"
    by (auto simp: send_local_def moves_def)
qed

lemma header_loop_good:
  "http_ok 512 s \<Longrightarrow> \<exists>ok sent s' es. header_loop hs b s = Inr ((ok, sent), s') \<and> moves s es s'"
proof (induction hs b s rule: header_loop.induct)
  case (1 nm cont hs b s)
  obtain t sent where t: "(case cont of
              Some v \<Rightarrow> (nm @ asc '': '' @ v, b \<or> strcasecmp_eq nm (asc ''Host''))
            | None \<Rightarrow> (nm, b \<or> strcasecmp_eq (take 5 nm) (asc ''Host:''))) = (t, sent)" by (cases cont) auto
  obtain ok s1 es where f: "send_local t s = Inr (ok, s1)" "moves s es s1"
    using good_step_runs [OF send_local_good 1(2)] by blast
  show ?case
  proof (cases ok)
    case False
    then show ?thesis using t f by auto
  next
    case True
    obtain ok2 sent2 s2 fs where h: "header_loop hs sent s1 = Inr ((ok2, sent2), s2)" "moves s1 fs s2"
      using 1(1) [OF refl t [symmetric] f(1) refl _ moves_ok [OF f(2) 1(2)]] True by auto
    then show ?thesis using t f True moves_trans [OF f(2) h(2)] by auto
  qed
qed (auto intro: moves_refl)

lemma add_proxy_headers_good: "good_step 512 P (add_proxy_headers host)"
proof (rule good_step_here)
  fix s assume s: "http_ok 512 s"
  let ?hs = "take MAX_CUSTOM_HTTP_HEADER (ho_custom_headers (hp_options (hs_p s)))"
  obtain ok sent s1 es where h: "header_loop ?hs False s = Inr ((ok, sent), s1)" "moves s es s1"
    using header_loop_good [OF s] by blast
  let ?g = "then_do (\<lambda>s. if \<not> sent then send_local (asc ''Host: '' @ host) s else Inr (True, s))
            (\<lambda>s. case ho_user_agent (hp_options (hs_p s)) of
                   Some ua \<Rightarrow> send_local (asc ''User-Agent: '' @ ua) s
                 | None \<Rightarrow> Inr (True, s))"
  have ua: "good_step 512 (\<lambda>p. True) (\<lambda>s. case ho_user_agent (hp_options (hs_p s)) of
                   Some ua \<Rightarrow> send_local (asc ''User-Agent: '' @ ua) s | None \<Rightarrow> Inr (True, s))"
  proof (rule good_step_here)
    fix s assume s: "http_ok 512 s"
    show "\<exists>ok s' es. (case ho_user_agent (hp_options (hs_p s)) of
                   Some ua \<Rightarrow> send_local (asc ''User-Agent: '' @ ua) s | None \<Rightarrow> Inr (True, s)) = Inr (ok, s') \<and> moves s es s'"
      using good_step_runs [OF send_local_good s] moves_refl [OF s] by (cases "ho_user_agent (hp_options (hs_p s))") auto
  qed
  have "good_step 512 (\<lambda>p. True) ?g" by (intro good_step_then good_step_choice send_local_good good_step_skip ua)
  then obtain ok2 s2 fs where g: "?g s1 = Inr (ok2, s2)" "moves s1 fs s2"
    using good_step_runs [OF _ moves_ok [OF h(2) s]] by blast
  then show "\<exists>ok s' es. add_proxy_headers host s = Inr (ok, s') \<and> moves s es s'"
    using h moves_trans [OF h(2) g(2)] by (cases ok) (auto simp: add_proxy_headers_def)
qed

subsection \<open>Receiving\<close>

lemma recv_text_line:
  assumes "http_ok n s" and "0 < n"
  shows "\<exists>ok s' es. recv_text s = Inr (ok, s') \<and> moves s es s' \<and>
           (ok \<longrightarrow> (\<exists>l. io_bytes es = l @ [13, 10] \<and> c_string (hs_buf s') = rstrip {13, 10} (c_string (take (n - 1) (l @ [13, 10])))))"
proof -
  have n: "length (hs_buf s) = n" using assms(1) by (simp add: http_ok_def)
  obtain ok io' arr' es where r: "recv_line (hs_m s) (hs_io s) (hs_buf s) n None = Inr (ok, hs_m s, io', arr', None)"
      "length arr' = n" "consumes (hs_io s) es io'"
      "ok \<longrightarrow> (\<exists>l. io_bytes es = l @ [13, 10]) \<and> (0 < n \<longrightarrow> NUL \<in> set arr' \<and> c_string arr' = c_string (take (n - 1) (io_bytes es)))"
    using recv_line_plain [OF n] by blast
  have k: "keeps_blocks (hs_m s) (hs_m s)" using assms(1) by (simp add: http_ok_def keeps_blocks_refl)
  show ?thesis
  proof (cases ok)
    case False
    then show ?thesis using r(1-3) n k by (auto simp: recv_text_def moves_def)
  next
    case True
    obtain a where a: "chomp arr' = Inr a" "length a = length arr'" "c_string a = rstrip {13, 10} (c_string arr')"
      using chomp_any [of arr'] r(4) True assms(2) by auto
    have "recv_text s = Inr (True, s\<lparr>hs_m := hs_m s, hs_io := io', hs_buf := a\<rparr>)"
      using r(1) a(1) True n by (simp add: recv_text_def)
    then show ?thesis using r True a n k assms(2) by (fastforce simp: moves_def)
  qed
qed

lemma recv_text_reply: "gives_reply P recv_text"
  unfolding gives_reply_def
proof (intro allI impI, elim conjE)
  fix s assume s: "http_ok 512 s"
  obtain ok s' es where r: "recv_text s = Inr (ok, s')" "moves s es s'"
      "ok \<longrightarrow> (\<exists>l. io_bytes es = l @ [13, 10] \<and> c_string (hs_buf s') = rstrip {13, 10} (c_string (take 511 (l @ [13, 10]))))"
    using recv_text_line [OF s] by auto
  have "ok \<longrightarrow> reply_in es (c_string (hs_buf s'))"
  proof
    assume ok
    then obtain l where "io_bytes es = [] @ l @ [13, 10] @ []"
        "c_string (hs_buf s') = rstrip {13, 10} (c_string (take 511 (l @ [13, 10])))" using r(3) by auto
    then show "reply_in es (c_string (hs_buf s'))" unfolding reply_in_def by blast
  qed
  then show "\<exists>ok s' es. recv_text s = Inr (ok, s') \<and> moves s es s' \<and> (ok \<longrightarrow> reply_in es (c_string (hs_buf s')))"
    using r(1,2) by blast
qed

lemma gives_reply_good: "gives_reply P f \<Longrightarrow> good_step 512 P f"
  unfolding gives_reply_def good_step_def by blast

lemma ntlm_wait_moves: "http_ok 512 s \<Longrightarrow> \<exists>r s' es. ntlm_wait s = Inr (r, s') \<and> moves s es s'"
proof (induction s rule: ntlm_wait.induct)
  case (1 s)
  obtain ok s1 es where r: "recv_text s = Inr (ok, s1)" "moves s es s1" using recv_text_line [OF 1(2)] by auto
  show ?case
  proof (cases "ok \<and> scan_ntlm (c_string (hs_buf s1)) = None")
    case False
    then show ?thesis using r by (subst ntlm_wait.simps) (auto split: option.splits)
  next
    case True
    obtain r2 s2 fs where n: "ntlm_wait s1 = Inr (r2, s2)" "moves s1 fs s2"
      using 1(1) [of "(ok, s1)" ok s1] r True moves_ok [OF r(2) 1(2)] by auto
    then show ?thesis using r True moves_trans [OF r(2) n(2)] by (subst ntlm_wait.simps) auto
  qed
qed

lemma discard_plain: "\<exists>io' es. discard_lines m io None = Inr (m, io', None) \<and> consumes io es io'"
proof (induction "length (cn_events io)" arbitrary: io rule: less_induct)
  case less
  obtain ok io1 arr' es where r: "recv_line m io [] 0 None = Inr (ok, m, io1, arr', None)" "consumes io es io1"
    using recv_line_plain [of "[]" 0 m io] by auto
  show ?case
  proof (cases ok)
    case False
    then show ?thesis using r by (subst discard_lines.simps) auto
  next
    case True
    have lt: "length (cn_events io1) < length (cn_events io)" using recv_line_events [of m io "[]" 0 None m io1] r(1) True by simp
    obtain io2 fs where "discard_lines m io1 None = Inr (m, io2, None)" "consumes io1 fs io2" using less(1) [OF lt] by blast
    then show ?thesis using r True consumes_trans [OF r(2)] by (subst discard_lines.simps) auto
  qed
qed

section \<open>The rounds of the exchange\<close>

text \<open>What the exchange needs of the outside: base64 and random bytes do not fail.\<close>

definition env_ok :: "http_env \<Rightarrow> bool" where
  "env_ok E \<longleftrightarrow> (\<forall>t. b64_encode (pe_pass E) t \<noteq> None) \<and> rand_8 E \<noteq> None"

text \<open>A user name is there for basic authentication, a challenge for digest authentication.\<close>

definition method_ok :: "http_proxy_info \<Rightarrow> bool" where
  "method_ok p \<longleftrightarrow>
     hp_auth_method p \<le> HTTP_AUTH_NTLM2 \<and>
     (hp_auth_method p = HTTP_AUTH_BASIC \<longrightarrow> c_string (up_username (hp_up p)) \<noteq> [])"

lemmas auth_defs = HTTP_AUTH_NONE_def HTTP_AUTH_BASIC_def HTTP_AUTH_DIGEST_def HTTP_AUTH_NTLM_def HTTP_AUTH_NTLM2_def

lemma username_password_runs:
  assumes "env_ok E" and "c_string (up_username (hp_up p)) \<noteq> []"
  shows "\<exists>t. username_password_as_base64 E p = Inr t"
proof -
  let ?u = "c_string (up_username (hp_up p))" and ?w = "c_string (up_password (hp_up p))"
  let ?n = "length ?u + length ?w + 2"
  obtain b ok where b: "openvpn_snprintf (replicate ?n 0) ?n (Some (?u @ asc '':'' @ ?w)) = Inr (b, ok)"
    using snprintf_text [of ?n "replicate ?n 0" "?u @ asc '':'' @ ?w"] by auto
  have "\<exists>t. b64_encode (pe_pass E) (c_string b) = Some t" using assms(1) by (simp add: env_ok_def)
  then show ?thesis
    using assms(2) b by (auto simp: username_password_as_base64_def Let_def make_base64_string_def make_base64_string2_def)
qed

lemma send_authorization_good:
  assumes "env_ok E"
  shows "good_step 512 (\<lambda>p. method_ok p \<and> hp_auth_method p \<noteq> HTTP_AUTH_DIGEST) (send_authorization E)"
proof (rule good_step_here)
  fix s assume s: "http_ok 512 s" and p: "method_ok (hs_p s) \<and> hp_auth_method (hs_p s) \<noteq> HTTP_AUTH_DIGEST"
  let ?a = "hp_auth_method (hs_p s)"
  note run = good_step_runs [OF _ s]
  have "?a \<le> 4" "?a \<noteq> 2" using p by (auto simp: method_ok_def auth_defs)
  then consider "?a = 0" | "?a = 1" | "?a = 3 \<or> ?a = 4" by linarith
  then show "\<exists>ok s' es. send_authorization E s = Inr (ok, s') \<and> moves s es s'"
  proof cases
    case 1
    then show ?thesis using moves_refl [OF s] by (auto simp: send_authorization_def auth_defs)
  next
    case 2
    obtain t where "username_password_as_base64 E (hs_p s) = Inr t"
      using username_password_runs [OF assms] p 2 by (auto simp: method_ok_def auth_defs)
    then show ?thesis using 2 run [OF send_text_good] by (simp add: send_authorization_def auth_defs)
  next
    case 3
    then show ?thesis using run [OF good_step_then [OF send_text_good send_text_good]] by (auto simp: send_authorization_def auth_defs)
  qed
qed

text \<open>After a challenge was used up, the method is still digest: the next request runs into an assertion.\<close>

lemma send_authorization_digest:
  "hp_auth_method (hs_p s) = HTTP_AUTH_DIGEST \<Longrightarrow> send_authorization E s = Inl AssertFail"
  by (simp add: send_authorization_def auth_defs)

lemma first_request_reply:
  assumes "env_ok E"
  shows "gives_reply (\<lambda>p. method_ok p \<and> hp_auth_method p \<noteq> HTTP_AUTH_DIGEST) (first_request E host port)"
proof -
  let ?P = "\<lambda>p. method_ok p \<and> hp_auth_method p \<noteq> HTTP_AUTH_DIGEST"
  have "gives_reply ?P (then_do (send_text t) (then_do (add_proxy_headers host)
         (then_do (send_authorization E) (then_do send_empty recv_text))))" for t
    by (intro gives_reply_then send_text_good add_proxy_headers_good send_authorization_good [OF assms] send_empty_good recv_text_reply)
  then show ?thesis unfolding gives_reply_def first_request_def by blast
qed

lemma ntlm_round_reply: "gives_reply P (ntlm_round E host port)"
  unfolding gives_reply_def
proof (intro allI impI, elim conjE)
  fix s assume s: "http_ok 512 s"
  let ?phase3 = "\<lambda>buf2 s. case ntlm_phase_3 E (hs_p s) buf2 of
      None \<Rightarrow> Inr (False, s) | Some np3 \<Rightarrow> send_text (asc ''Proxy-Authorization: NTLM '' @ np3) s"
  obtain r s1 es where w: "ntlm_wait s = Inr (r, s1)" "moves s es s1" using ntlm_wait_moves [OF s] by blast
  show "\<exists>ok s' es. ntlm_round E host port s = Inr (ok, s') \<and> moves s es s' \<and> (ok \<longrightarrow> reply_in es (c_string (hs_buf s')))"
  proof (cases r)
    case None
    then show ?thesis using w by (auto simp: ntlm_round_def)
  next
    case (Some buf2)
    obtain io2 fs where d: "discard_lines (hs_m s1) (hs_io s1) None = Inr (hs_m s1, io2, None)" "consumes (hs_io s1) fs io2"
      using discard_plain by blast
    define s2 where "s2 = s1\<lparr>hs_m := hs_m s1, hs_io := io2\<rparr>"
    have m2: "moves s1 fs s2" using d(2) w(2) keeps_blocks_refl [of "hs_m s1"]
      by (auto simp: moves_def s2_def keeps_blocks_def)
    have ok2: "http_ok 512 s2" using moves_ok [OF m2 moves_ok [OF w(2) s]] .
    have p3: "good_step 512 (\<lambda>p. True) (?phase3 buf2)"
    proof (rule good_step_here)
      fix s assume s: "http_ok 512 s"
      show "\<exists>ok s' es. ?phase3 buf2 s = Inr (ok, s') \<and> moves s es s'"
        using good_step_runs [OF send_text_good s] moves_refl [OF s] by (cases "ntlm_phase_3 E (hs_p s) buf2") auto
    qed
    let ?g = "then_do (send_text (connect_line (hs_p s) host port)) (then_do (send_text (asc ''Proxy-Connection: Keep-Alive''))
        (then_do (add_proxy_headers host) (then_do (?phase3 buf2) (then_do send_empty recv_text))))"
    have "gives_reply (\<lambda>p. True) ?g"
      by (intro gives_reply_then send_text_good add_proxy_headers_good p3 send_empty_good recv_text_reply)
    then obtain ok s3 gs where g: "?g s2 = Inr (ok, s3)" "moves s2 gs s3" "ok \<longrightarrow> reply_in gs (c_string (hs_buf s3))"
      using ok2 unfolding gives_reply_def by blast
    have "ntlm_round E host port s = Inr (ok, s3)"
      using w(1) d(1) g(1) Some by (simp add: ntlm_round_def s2_def)
    moreover have "moves s ((es @ fs) @ gs) s3" using moves_trans [OF moves_trans [OF w(2) m2] g(2)] .
    ultimately show ?thesis using g(3) reply_in_earlier by blast
  qed
qed

lemma snprintf_local: "0 < n \<Longrightarrow> \<exists>b ok. openvpn_snprintf (replicate n 0) n (Some t) = Inr (b, ok)"
  using snprintf_text [of n "replicate n 0" t] by auto

lemma digest_round_reply:
  assumes "env_ok E"
  shows "gives_reply (\<lambda>p. hp_proxy_authenticate p \<noteq> None) (digest_round E host port)"
  unfolding gives_reply_def
proof (intro allI impI, elim conjE)
  fix s assume s: "http_ok 512 s" and a: "hp_proxy_authenticate (hs_p s) \<noteq> None"
  obtain pa where pa: "hp_proxy_authenticate (hs_p s) = Some pa" using a by blast
  show "\<exists>ok s' es. digest_round E host port s = Inr (ok, s') \<and> moves s es s' \<and> (ok \<longrightarrow> reply_in es (c_string (hs_buf s')))"
  proof (cases "get_pa_var (asc ''realm'') pa = None \<or> get_pa_var (asc ''nonce'') pa = None")
    case True
    then have "digest_round E host port s = Inr (False, s)" using pa by (auto simp: digest_round_def split: option.splits)
    then show ?thesis using moves_refl [OF s] by blast
  next
    case False
    then obtain realm nonce where rn: "get_pa_var (asc ''realm'') pa = Some realm" "get_pa_var (asc ''nonce'') pa = Some nonce" by auto
    obtain raw cnonce where c: "rand_8 E = Some raw" "b64_encode (pe_pass E) raw = Some cnonce"
      using assms by (auto simp: env_ok_def) (metis not_None_eq)
    obtain u x where u: "openvpn_snprintf (replicate 128 0) 128 (Some (host @ asc '':'' @ port)) = Inr (u, x)"
      using snprintf_local [of 128 "host @ asc '':'' @ port"] by auto
    obtain kv where kv: "(case get_pa_var (asc ''opaque'') pa of
        Some op \<Rightarrow> bindE (openvpn_snprintf (replicate (length op + 16) 0) (length op + 16) (Some (asc '', '' @ quoted ''opaque'' op)))
                     (\<lambda>(kv, _). Inr (c_string kv)) | None \<Rightarrow> Inr []) = Inr kv"
    proof (cases "get_pa_var (asc ''opaque'') pa")
      case (Some op)
      obtain b y where "openvpn_snprintf (replicate (length op + 16) 0) (length op + 16) (Some (asc '', '' @ quoted ''opaque'' op)) = Inr (b, y)"
        using snprintf_local [of "length op + 16" "asc '', '' @ quoted ''opaque'' op"] by auto
      then show ?thesis using that Some by simp
    qed (use that in simp)
    let ?l1 = "asc ''CONNECT '' @ c_string u @ asc '' HTTP/'' @ ho_http_version (hp_options (hs_p s))"
    let ?l2 = "digest_line E (hs_p s) realm (get_pa_var (asc ''algorithm'') pa) nonce cnonce (c_string u) kv"
    let ?g = "then_do (send_text ?l1) (then_do (add_proxy_headers host) (then_do (send_text ?l2) (then_do send_empty recv_text)))"
    have "gives_reply (\<lambda>p. True) ?g"
      by (intro gives_reply_then send_text_good add_proxy_headers_good send_empty_good recv_text_reply)
    moreover have "digest_round E host port s = ?g s"
      unfolding digest_round_def Let_def
      by (simp only: pa rn c u kv make_base64_string2_def option.case prod.case bindE_simps)
    ultimately show ?thesis using s unfolding gives_reply_def by metis
  qed
qed

lemma proxy_authenticate_moves:
  "http_ok 256 s \<Longrightarrow> ret \<le> HTTP_AUTH_NTLM \<Longrightarrow>
     \<exists>meth d s' es. get_proxy_authenticate_loop s ret data = Inr (meth, d, s') \<and> moves s es s' \<and> meth \<le> HTTP_AUTH_NTLM"
proof (induction "length (cn_events (hs_io s))" arbitrary: s ret data rule: less_induct)
  case less
  obtain ok s1 es where r: "recv_text s = Inr (ok, s1)" "moves s es s1" using recv_text_line [OF less(2)] by auto
  let ?line = "c_string (hs_buf s1)"
  show ?case
  proof (cases "ok \<and> ?line \<noteq> []")
    case False
    then show ?thesis using r less(3) by (subst get_proxy_authenticate_loop.simps) (auto simp: auth_defs)
  next
    case True
    have lt: "length (cn_events (hs_io s1)) < length (cn_events (hs_io s))" using recv_text_events r(1) True by simp
    obtain ret1 data1 where e: "get_proxy_authenticate_loop s ret data = get_proxy_authenticate_loop s1 ret1 data1" "ret1 \<le> HTTP_AUTH_NTLM"
    proof -
      have "\<exists>ret1 data1. get_proxy_authenticate_loop s ret data = get_proxy_authenticate_loop s1 ret1 data1 \<and> ret1 \<le> HTTP_AUTH_NTLM"
        using r(1) True less(3)
        by (subst get_proxy_authenticate_loop.simps) (auto simp: Let_def auth_defs intro: exI)
      then show thesis using that by blast
    qed
    obtain meth d s2 fs where g: "get_proxy_authenticate_loop s1 ret1 data1 = Inr (meth, d, s2)" "moves s1 fs s2" "meth \<le> HTTP_AUTH_NTLM"
      using less(1) [OF lt moves_ok [OF r(2) less(2)] e(2)] by blast
    then show ?thesis using e(1) moves_trans [OF r(2) g(2)] by auto
  qed
qed

end
