(* ===== verification/Proxy_Connect.thy ===== *)
theory Proxy_Connect
  imports Proxy_Steps
begin

text \<open>
  The CONNECT exchange of the HTTP proxy client: the loop over the replies, the lookahead buffer, and how the
  exchange ends.
\<close>

section \<open>The loop over the replies\<close>

definition travels :: "http_state \<Rightarrow> io_event list \<Rightarrow> http_state \<Rightarrow> bool" where
  "travels s es s' \<longleftrightarrow>
     consumes (hs_io s) es (hs_io s') \<and> http_ok 512 s' \<and> keeps_blocks (hs_m s) (hs_m s') \<and>
     hp_options (hs_p s') = hp_options (hs_p s)"

lemma moves_travels: "moves s es s' \<Longrightarrow> http_ok 512 s \<Longrightarrow> travels s es s'"
  using moves_ok by (auto simp: travels_def moves_def)

lemma travels_trans: "travels s es s1 \<Longrightarrow> travels s1 fs s2 \<Longrightarrow> travels s (es @ fs) s2"
  using consumes_trans keeps_blocks_trans by (auto simp: travels_def)

lemma clear_round_travels: "http_ok 512 s \<Longrightarrow> travels s [] (clear_round s)"
  by (simp add: travels_def clear_round_def http_ok_def consumes_refl keeps_blocks_refl store_proxy_authenticate_def)

text \<open>What the options allow when a method is stored for another try.\<close>

definition retry_ok :: "http_proxy_info \<Rightarrow> bool" where
  "retry_ok p \<longleftrightarrow>
     ho_auth_retry (hp_options p) \<noteq> PAR_NO \<and> hp_auth_method p \<in> {HTTP_AUTH_BASIC, HTTP_AUTH_DIGEST, HTTP_AUTH_NTLM} \<and>
     (ho_auth_retry (hp_options p) = PAR_NCT \<longrightarrow> hp_auth_method p \<noteq> HTTP_AUTH_BASIC)"

fun auth_post :: "int option \<Rightarrow> io_event list \<Rightarrow> auth_end \<Rightarrow> http_state \<Rightarrow> bool" where
  "auth_post status es (With_Status st) s \<longleftrightarrow> st = status \<or> (\<exists>t. reply_in es t \<and> st = scan_status t)"
| "auth_post status es Goto_Done s \<longleftrightarrow> retry_ok (hs_p s)"
| "auth_post status es Goto_Error s \<longleftrightarrow> True"

lemma auth_retry_runs:
  assumes "http_ok 512 s" and "ho_auth_retry (hp_options (hs_p s)) \<noteq> PAR_NO"
  shows "\<exists>r s' es. auth_retry s = Inr (r, s') \<and> travels s es s' \<and> auth_post status es r s'"
proof -
  have s0: "http_ok 256 (s\<lparr>hs_buf := replicate 256 0\<rparr>)" using assms(1) by (simp add: http_ok_def)
  obtain meth d s1 es where g: "get_proxy_authenticate_loop (s\<lparr>hs_buf := replicate 256 0\<rparr>) HTTP_AUTH_NONE None = Inr (meth, d, s1)"
      "moves (s\<lparr>hs_buf := replicate 256 0\<rparr>) es s1" "meth \<le> HTTP_AUTH_NTLM"
    using proxy_authenticate_moves [OF s0, of HTTP_AUTH_NONE None] by (auto simp: auth_defs)
  let ?s2 = "s1\<lparr>hs_buf := hs_buf s\<rparr>"
  have p: "hs_p s1 = hs_p s" using g(2) by (simp add: moves_def)
  have c: "consumes (hs_io s) es (hs_io s1)" "http_ok 512 ?s2" "keeps_blocks (hs_m s) (hs_m s1)"
    using g(2) assms(1) by (auto simp: moves_def http_ok_def keeps_blocks_def)
  have a: "get_proxy_authenticate s = Inr (meth, d, ?s2)" using g(1) by (simp add: get_proxy_authenticate_def)
  let ?s3 = "?s2\<lparr>hs_p := store_proxy_authenticate ((hs_p s1)\<lparr>hp_auth_method := meth\<rparr>) d\<rparr>"
  have t2: "travels s es ?s2" using c p by (simp add: travels_def)
  have t3: "travels s es ?s3" using c p by (simp add: travels_def http_ok_def store_proxy_authenticate_def)
  consider "meth = HTTP_AUTH_NONE \<or> (ho_auth_retry (hp_options (hs_p s)) = PAR_NCT \<and> meth = HTTP_AUTH_BASIC)"
    | "meth \<noteq> HTTP_AUTH_NONE" "\<not> (ho_auth_retry (hp_options (hs_p s)) = PAR_NCT \<and> meth = HTTP_AUTH_BASIC)" by blast
  then show ?thesis
  proof cases
    case 1
    then have "auth_retry s = Inr (Goto_Error, ?s2)" using a p by (auto simp: auth_retry_def)
    then show ?thesis using t2 by fastforce
  next
    case 2
    have "meth \<in> {HTTP_AUTH_BASIC, HTTP_AUTH_DIGEST, HTTP_AUTH_NTLM}" using g(3) 2(1) by (auto simp: auth_defs)
    then have "retry_ok (hs_p ?s3)" using 2(2) assms(2) p by (auto simp: retry_ok_def store_proxy_authenticate_def)
    moreover have "auth_retry s = Inr (Goto_Done, ?s3)" using a p 2 by (simp add: auth_retry_def)
    ultimately show ?thesis using t3 by fastforce
  qed
qed

lemma auth_loop_processed:
  assumes "http_ok 512 s"
  shows "\<exists>r s' es. auth_loop E host port status True s = Inr (r, s') \<and> travels s es s' \<and> auth_post status es r s'"
proof (cases "status = Some 407")
  case False
  then have "auth_loop E host port status True s = Inr (With_Status status, s)" by (subst auth_loop.simps) simp
  then show ?thesis using moves_travels [OF moves_refl [OF assms] assms] by fastforce
next
  case True
  then have e: "auth_loop E host port status True s =
      (if ho_auth_retry (hp_options (hs_p s)) \<noteq> PAR_NO then auth_retry s else Inr (Goto_Error, s))"
    by (subst auth_loop.simps) simp
  show ?thesis
  proof (cases "ho_auth_retry (hp_options (hs_p s)) = PAR_NO")
    case True
    then show ?thesis using e moves_travels [OF moves_refl [OF assms] assms] by fastforce
  next
    case False
    then show ?thesis using e auth_retry_runs [OF assms False] by auto
  qed
qed

text \<open>A round, what follows it, and the second pass of the loop.\<close>

lemma round_then_loop:
  assumes "gives_reply P f" and "http_ok 512 s" and "P (hs_p s)"
  shows "\<exists>r s' es. (case f s of Inl e \<Rightarrow> Inl e
            | Inr (ok, s1) \<Rightarrow> if ok then auth_loop E host port (reply_status s1) True (clear_round s1) else Inr (Goto_Error, s1)) =
            Inr (r, s') \<and> travels s es s' \<and> auth_post status es r s'"
proof -
  obtain ok s1 es where f: "f s = Inr (ok, s1)" "moves s es s1" "ok \<longrightarrow> reply_in es (c_string (hs_buf s1))"
    using assms unfolding gives_reply_def by blast
  have t1: "travels s es s1" using moves_travels [OF f(2) assms(2)] .
  show ?thesis
  proof (cases ok)
    case False
    then show ?thesis using f(1) t1 by fastforce
  next
    case True
    have ok1: "http_ok 512 s1" using t1 by (simp add: travels_def)
    have c: "travels s1 [] (clear_round s1)" using clear_round_travels [OF ok1] .
    then have "http_ok 512 (clear_round s1)" by (simp add: travels_def)
    from auth_loop_processed [OF this] obtain r s2 fs where l:
        "auth_loop E host port (reply_status s1) True (clear_round s1) = Inr (r, s2)"
        "travels (clear_round s1) fs s2" "auth_post (reply_status s1) fs r s2" by blast
    have t: "travels s (es @ fs) s2" using travels_trans [OF t1 travels_trans [OF c l(2)]] by simp
    have "reply_in (es @ fs) (c_string (hs_buf s1))" using f(3) True reply_in_later by blast
    then have "auth_post status (es @ fs) r s2"
      using l(3) reply_in_earlier by (cases r) (auto simp: reply_status_def)
    then show ?thesis using f(1) True l(1) t by auto
  qed
qed

lemma auth_loop_runs:
  assumes "env_ok E" and "http_ok 512 s" and "method_ok (hs_p s)"
    and "hp_auth_method (hs_p s) = HTTP_AUTH_DIGEST \<Longrightarrow> hp_proxy_authenticate (hs_p s) \<noteq> None"
  shows "\<exists>r s' es. auth_loop E host port status False s = Inr (r, s') \<and> travels s es s' \<and> auth_post status es r s'"
proof (cases "status = Some 407")
  case False
  then have "auth_loop E host port status False s = Inr (With_Status status, s)" by (subst auth_loop.simps) simp
  then show ?thesis using moves_travels [OF moves_refl [OF assms(2)] assms(2)] by fastforce
next
  case True
  let ?a = "hp_auth_method (hs_p s)"
  have "?a \<le> 4" using assms(3) by (simp add: method_ok_def auth_defs)
  then consider "?a = 0" | "?a = 1" | "?a = 2" | "?a = 3 \<or> ?a = 4" by linarith
  then show ?thesis
  proof cases
    case 1
    have "auth_loop E host port status False s = auth_loop E host port status True s"
      by (subst (1 2) auth_loop.simps) (simp add: True 1 auth_defs)
    then show ?thesis using auth_loop_processed [OF assms(2)] by auto
  next
    case 2
    have e: "auth_loop E host port status False s = auth_loop E host port status True (clear_round s)"
      by (subst auth_loop.simps) (simp add: True 2 auth_defs)
    have c: "travels s [] (clear_round s)" using clear_round_travels [OF assms(2)] .
    then have "http_ok 512 (clear_round s)" by (simp add: travels_def)
    from auth_loop_processed [OF this] obtain r s2 fs where "auth_loop E host port status True (clear_round s) = Inr (r, s2)"
        "travels (clear_round s) fs s2" "auth_post status fs r s2" by blast
    then show ?thesis using e travels_trans [OF c] by fastforce
  next
    case 3
    have "auth_loop E host port status False s = (case digest_round E host port s of Inl e \<Rightarrow> Inl e
            | Inr (ok, s1) \<Rightarrow> if ok then auth_loop E host port (reply_status s1) True (clear_round s1) else Inr (Goto_Error, s1))"
      by (subst auth_loop.simps) (simp add: True 3 auth_defs)
    then show ?thesis using round_then_loop [OF digest_round_reply [OF assms(1)] assms(2)] assms(4) 3 by (auto simp: auth_defs)
  next
    case 4
    then have "auth_loop E host port status False s = (case ntlm_round E host port s of Inl e \<Rightarrow> Inl e
            | Inr (ok, s1) \<Rightarrow> if ok then auth_loop E host port (reply_status s1) True (clear_round s1) else Inr (Goto_Error, s1))"
      by (subst auth_loop.simps) (auto simp: True auth_defs)
    then show ?thesis using round_then_loop [OF ntlm_round_reply assms(2), of "\<lambda>p. True"] by auto
  qed
qed

section \<open>The lookahead buffer\<close>

definition look_ok :: "mem \<Rightarrow> buffer \<Rightarrow> bool" where
  "look_ok m la \<longleftrightarrow> buf_inv m la \<and> 1 \<le> b_capacity la"

definition look_frame :: "mem \<Rightarrow> buffer \<Rightarrow> mem \<Rightarrow> buffer \<Rightarrow> bool" where
  "look_frame m la m1 la1 \<longleftrightarrow>
     b_data la1 = b_data la \<and> b_capacity la1 = b_capacity la \<and>
     (\<forall>b. b_data b = b_data la \<and> b_capacity b = b_capacity la \<and> look_ok m b \<longrightarrow> look_ok m1 b)"

lemma look_frame_trans: "look_frame m la m1 la1 \<Longrightarrow> look_frame m1 la1 m2 la2 \<Longrightarrow> look_frame m la m2 la2"
  by (simp add: look_frame_def)

lemma look_step:
  assumes "look_ok m la" and "recv_char io = (Some c, io1)"
  shows "\<exists>m1 la1. recv_line_loop m io [] 0 0 la lastc =
      (if \<not> isprint c \<and> \<not> isspace c then Inr (Line_Odd, m1, io1, [], 0, 0, la1)
       else if lastc = 13 \<and> c = 10 then Inr (Line_Complete, m1, io1, [], 0, 0, la1)
       else recv_line_loop m1 io1 [] 0 0 la1 c) \<and>
     content m1 la1 = [c] \<and> look_ok m1 la1 \<and> look_frame m la m1 la1"
proof -
  let ?f = "la\<lparr>b_len := 0, b_offset := 0\<rparr>" and ?g = "la\<lparr>b_offset := 0, b_len := 1\<rparr>"
  have i: "buf_inv m la" "1 \<le> b_capacity la" using assms(1) by (simp_all add: look_ok_def)
  obtain k j where d: "b_data la = Ptr k j" using buf_inv_block [OF i(1)] by blast
  have f: "buf_inv m ?f" using i by (simp add: buf_inv_def)
  have z: "content m ?f = []" using read_content(2) [OF f] by simp
  obtain m1 where w: "buf_write_val m ?f [c] = Inr (True, ?g, m1)" "buf_inv m1 ?g" "content m1 ?g = [c]"
    by (rule buf_write_val_cases [OF f, of "[c]"]) (use i z in auto)
  have df: "buf_defined la" "buf_defined ?f" using d by (simp_all add: buf_defined_def)
  have bi: "buf_init_dowork la 0 = (?f, True)" using i(2) d by (simp add: buf_init_dowork_def)
  have wu: "buf_write_u8 m ?f (uint c) = Inr (True, ?g, m1)" using w(1) by (simp add: buf_write_u8_def)
  have "recv_line_loop m io [] 0 0 la lastc =
      (if \<not> isprint c \<and> \<not> isspace c then Inr (Line_Odd, m1, io1, [], 0, 0, ?g)
       else if lastc = 13 \<and> c = 10 then Inr (Line_Complete, m1, io1, [], 0, 0, ?g)
       else recv_line_loop m1 io1 [] 0 0 ?g c)"
    by (subst recv_line_loop.simps) (simp add: df bi assms(2) wu)
  moreover have "look_frame m la m1 ?g" using w(2) by (auto simp: look_frame_def look_ok_def buf_inv_def)
  moreover have "look_ok m1 ?g" using w(2) i(2) by (simp add: look_ok_def)
  ultimately show ?thesis using w(3) by blast
qed

lemma look_ok_keeps: "look_ok m la \<Longrightarrow> keeps_blocks m m' \<Longrightarrow> look_ok m' la"
  by (auto simp: look_ok_def buf_inv_def room_at_def keeps_blocks_def split: option.splits ptr.splits)

lemma look_none:
  assumes "look_ok m la" and "recv_char io = (None, io1)"
  shows "\<exists>la1. recv_line_loop m io [] 0 0 la lastc = Inr (Line_Failed, m, io1, [], 0, 0, la1)"
proof -
  have i: "buf_inv m la" "1 \<le> b_capacity la" using assms(1) by (simp_all add: look_ok_def)
  obtain k j where d: "b_data la = Ptr k j" using buf_inv_block [OF i(1)] by blast
  show ?thesis using i d assms(2) by (subst recv_line_loop.simps) (simp add: buf_defined_def buf_init_dowork_def)
qed

lemma recv_line_loop_look:
  "look_ok m la \<Longrightarrow> \<exists>r m' io' la' es. recv_line_loop m io [] 0 0 la lastc = Inr (r, m', io', [], 0, 0, la') \<and>
     consumes io es io' \<and> (r = Line_Odd \<longrightarrow> look_ok m' la') \<and>
     (\<forall>b. b_data b = b_data la \<and> b_capacity b = b_capacity la \<and> look_ok m b \<longrightarrow> look_ok m' b)"
proof (induction "length (cn_events io)" arbitrary: m io la lastc rule: less_induct)
  case less
  obtain r1 io1 where c: "recv_char io = (r1, io1)" by (cases "recv_char io")
  obtain es1 where e1: "consumes io es1 io1" using recv_char_consumes [OF c] by auto
  show ?case
  proof (cases r1)
    case None
    then show ?thesis using look_none [OF less(2)] c e1 by fastforce
  next
    case (Some x)
    obtain m1 la1 where s: "recv_line_loop m io [] 0 0 la lastc =
      (if \<not> isprint x \<and> \<not> isspace x then Inr (Line_Odd, m1, io1, [], 0, 0, la1)
       else if lastc = 13 \<and> x = 10 then Inr (Line_Complete, m1, io1, [], 0, 0, la1)
       else recv_line_loop m1 io1 [] 0 0 la1 x)" "look_ok m1 la1" "look_frame m la m1 la1"
      using look_step [OF less(2) c [unfolded Some]] by blast
    have lt: "length (cn_events io1) < length (cn_events io)" using recv_char_events c Some by blast
    obtain r m' io' la' es where ih: "recv_line_loop m1 io1 [] 0 0 la1 x = Inr (r, m', io', [], 0, 0, la')"
        "consumes io1 es io'" "r = Line_Odd \<longrightarrow> look_ok m' la'"
        "\<forall>b. b_data b = b_data la1 \<and> b_capacity b = b_capacity la1 \<and> look_ok m1 b \<longrightarrow> look_ok m' b"
      using less(1) [OF lt s(2)] by blast
    have fr: "\<forall>b. b_data b = b_data la \<and> b_capacity b = b_capacity la \<and> look_ok m b \<longrightarrow> look_ok m' b"
      using ih(4) s(3) by (simp add: look_frame_def)
    show ?thesis
    proof (cases "(\<not> isprint x \<and> \<not> isspace x) \<or> (lastc = 13 \<and> x = 10)")
      case True
      then show ?thesis using s e1 unfolding look_frame_def by (metis (full_types))
    next
      case False
      then have "recv_line_loop m io [] 0 0 la lastc = Inr (r, m', io', [], 0, 0, la')" using s(1) ih(1) by auto
      then show ?thesis using ih(3) fr consumes_trans [OF e1 ih(2)] by blast
    qed
  qed
qed

lemma discard_look:
  "look_ok m la \<Longrightarrow> \<exists>m' io' la' es. discard_lines m io (Some la) = Inr (m', io', la') \<and> consumes io es io'"
proof (induction "length (cn_events io)" arbitrary: m io rule: less_induct)
  case less
  obtain r m1 io1 la1 es where r: "recv_line_loop m io [] 0 0 la 0 = Inr (r, m1, io1, [], 0, 0, la1)" "consumes io es io1"
      "look_ok m1 la" using recv_line_loop_look [OF less(2)] less(2) by blast
  show ?case
  proof (cases r)
    case Line_Complete
    then have l: "recv_line m io [] 0 (Some la) = Inr (True, m1, io1, [], Some la)" using r(1) by (simp add: recv_line_def)
    have lt: "length (cn_events io1) < length (cn_events io)" using recv_line_events [OF l] .
    obtain m2 io2 la2 fs where "discard_lines m1 io1 (Some la) = Inr (m2, io2, la2)" "consumes io1 fs io2"
      using less(1) [OF lt r(3)] by blast
    then show ?thesis using l consumes_trans [OF r(2)] by (subst discard_lines.simps) auto
  next
    case Line_Odd
    then have "recv_line m io [] 0 (Some la) = Inr (False, m1, io1, [], Some la1)" using r(1) by (simp add: recv_line_def)
    then show ?thesis using r(2) by (subst discard_lines.simps) auto
  next
    case Line_Failed
    then have "recv_line m io [] 0 (Some la) = Inr (False, m1, io1, [], Some la)" using r(1) by (simp add: recv_line_def)
    then show ?thesis using r(2) by (subst discard_lines.simps) auto
  qed
qed

text \<open>Bytes that arrive one by one.\<close>

definition in_event :: "byte \<Rightarrow> io_event" where
  "in_event c = \<lparr>ev_status = 1, ev_signal = 0, ev_recv = Some c\<rparr>"

lemma recv_in_event:
  "cn_events io = in_event c # es \<Longrightarrow> \<exists>io1. recv_char io = (Some c, io1) \<and> cn_events io1 = es"
  by (simp add: recv_char_def in_event_def)

definition text_char :: "byte \<Rightarrow> bool" where "text_char c \<longleftrightarrow> isprint c \<or> isspace c"

lemma look_line:
  assumes "look_ok m la" and "cn_events io = map in_event (t @ c # u)" and "list_all text_char t" and "\<not> text_char c"
  shows "\<exists>r m' io' la'. recv_line_loop m io [] 0 0 la lastc = Inr (r, m', io', [], 0, 0, la') \<and>
     (\<forall>b. b_data b = b_data la \<and> b_capacity b = b_capacity la \<and> look_ok m b \<longrightarrow> look_ok m' b) \<and>
     (r = Line_Odd \<and> content m' la' = [c] \<and> cn_events io' = map in_event u \<or>
      r = Line_Complete \<and> (\<exists>t'. length t' < length t \<and> list_all text_char t' \<and> cn_events io' = map in_event (t' @ c # u)))"
  using assms(1-3)
proof (induction t arbitrary: m io la lastc)
  case Nil
  obtain io1 where r: "recv_char io = (Some c, io1)" "cn_events io1 = map in_event u"
    using recv_in_event [of io c "map in_event u"] Nil(2) by auto
  show ?case using look_step [OF Nil(1) r(1), of lastc] r(2) assms(4) by (auto simp: text_char_def look_frame_def)
next
  case (Cons x t)
  obtain io1 where r: "recv_char io = (Some x, io1)" "cn_events io1 = map in_event (t @ c # u)"
    using recv_in_event [of io x "map in_event (t @ c # u)"] Cons.prems(2) by auto
  have tx: "\<not> (\<not> isprint x \<and> \<not> isspace x)" "list_all text_char t" using Cons.prems(3) by (simp_all add: text_char_def [of x] disj_imp)
  obtain m1 la1 where s: "recv_line_loop m io [] 0 0 la lastc =
      (if lastc = 13 \<and> x = 10 then Inr (Line_Complete, m1, io1, [], 0, 0, la1) else recv_line_loop m1 io1 [] 0 0 la1 x)"
      "look_ok m1 la1" "look_frame m la m1 la1"
    using look_step [OF Cons.prems(1) r(1), of lastc] tx(1) by auto
  show ?case
  proof (cases "lastc = 13 \<and> x = 10")
    case True
    then have "recv_line_loop m io [] 0 0 la lastc = Inr (Line_Complete, m1, io1, [], 0, 0, la1)" using s(1) by simp
    moreover have "length t < length (x # t)" by simp
    ultimately show ?thesis using s(3) r(2) tx(2) unfolding look_frame_def by blast
  next
    case False
    then have "recv_line_loop m io [] 0 0 la lastc = recv_line_loop m1 io1 [] 0 0 la1 x" using s(1) by auto
    moreover obtain r m' io' la' where i: "recv_line_loop m1 io1 [] 0 0 la1 x = Inr (r, m', io', [], 0, 0, la')"
        "\<forall>b. b_data b = b_data la1 \<and> b_capacity b = b_capacity la1 \<and> look_ok m1 b \<longrightarrow> look_ok m' b"
        "r = Line_Odd \<and> content m' la' = [c] \<and> cn_events io' = map in_event u \<or>
         r = Line_Complete \<and> (\<exists>t'. length t' < length t \<and> list_all text_char t' \<and> cn_events io' = map in_event (t' @ c # u))"
      using Cons.IH [OF s(2) r(2) tx(2), of x] by blast
    moreover have "\<forall>b. b_data b = b_data la \<and> b_capacity b = b_capacity la \<and> look_ok m b \<longrightarrow> look_ok m' b"
      using i(2) s(3) by (simp add: look_frame_def)
    moreover have "n < length t \<Longrightarrow> n < length (x # t)" for n by simp
    ultimately show ?thesis by metis
  qed
qed

section \<open>The parts of the exchange\<close>

lemma http_error_signal: "cn_signal (hs_io (http_error x)) \<noteq> 0"
  by (simp add: http_error_def SIGUSR1_def)

lemma http_error_consumes: "consumes io es (hs_io x) \<Longrightarrow> consumes io es (hs_io (http_error x))"
  by (simp add: http_error_def consumes_def)

lemma request_runs:
  assumes "env_ok E" and "http_ok 512 s" and "method_ok (hs_p s)"
    and "hp_auth_method (hs_p s) = HTTP_AUTH_DIGEST \<longrightarrow> hp_proxy_authenticate (hs_p s) \<noteq> None"
  shows "\<exists>ok s2 status es.
     (if hp_auth_method (hs_p s) = HTTP_AUTH_DIGEST \<and> hp_proxy_authenticate (hs_p s) \<noteq> None then Inr (True, s, Some 407)
      else bindE (first_request E host port s) (\<lambda>(ok, s2). Inr (ok, s2, reply_status s2))) = Inr (ok, s2, status) \<and>
     moves s es s2 \<and> (ok \<longrightarrow> status = Some 407 \<or> (\<exists>t. reply_in es t \<and> status = scan_status t))"
proof (cases "hp_auth_method (hs_p s) = HTTP_AUTH_DIGEST")
  case True
  then show ?thesis using moves_refl [OF assms(2)] assms(4) by auto
next
  case False
  then obtain ok s2 es where "first_request E host port s = Inr (ok, s2)" "moves s es s2"
      "ok \<longrightarrow> reply_in es (c_string (hs_buf s2))"
    using first_request_reply [OF assms(1), of host port] assms(2,3) unfolding gives_reply_def by blast
  then show ?thesis using False by (auto simp: reply_status_def)
qed

lemma tunnel_opens:
  assumes "look_ok (hs_m s) la"
  shows "\<exists>la' s' es. bindE (recv_line (hs_m s) (hs_io s) [] 0 None)
     (\<lambda>(ok, m4, io4, _, _).
        if \<not> ok then Inr (False, Some la, http_error (s\<lparr>hs_m := m4, hs_io := io4\<rparr>))
        else bindE (discard_lines m4 io4 (Some la))
          (\<lambda>(m5, io5, la). Inr (False, la, s\<lparr>hs_m := m5, hs_io := io5,
              hs_p := (hs_p s)\<lparr>hp_queried_creds := False\<rparr>\<rparr>))) = Inr (False, la', s') \<and>
     consumes (hs_io s) es (hs_io s')"
proof -
  obtain ok io4 fs where l: "recv_line (hs_m s) (hs_io s) [] 0 None = Inr (ok, hs_m s, io4, [], None)" "consumes (hs_io s) fs io4"
    using recv_line_plain [of "[]" 0 "hs_m s" "hs_io s"] by auto
  obtain m5 io5 la5 gs where d: "discard_lines (hs_m s) io4 (Some la) = Inr (m5, io5, la5)" "consumes io4 gs io5"
    using discard_look [OF assms] by blast
  show ?thesis
  proof (cases ok)
    case False
    then show ?thesis using l http_error_consumes [of "hs_io s" fs "s\<lparr>hs_m := hs_m s, hs_io := io4\<rparr>"] by auto
  next
    case True
    then show ?thesis using l d consumes_trans [OF l(2) d(2)] by auto
  qed
qed

section \<open>Properties of the exchange\<close>

text \<open>
  C28: When the tunnel is open, the bytes the proxy still sends are dropped up to and including the first
  one that is no text (neither printable nor a space character): this byte goes into the lookahead
  buffer, which is well-formed and has room for a byte, alone, and nothing behind it is read. This is for
  bytes that come in without a signal, timeout or error between them. So nothing is lost of a data stream whose first byte is no
  text; of a stream that starts with text this text is lost.
\<close>

theorem lookahead_first_odd_byte:
  assumes "look_ok m la" and "cn_events io = map in_event (t @ c # u)" and "list_all text_char t" and "\<not> text_char c"
  shows "\<exists>m' io' la'. discard_lines m io (Some la) = Inr (m', io', Some la') \<and> content m' la' = [c] \<and>
           cn_events io' = map in_event u"
  using assms(1-3)
proof (induction "length t" arbitrary: m io t rule: less_induct)
  case less
  obtain r m1 io1 la1 where l: "recv_line_loop m io [] 0 0 la 0 = Inr (r, m1, io1, [], 0, 0, la1)" "look_ok m1 la"
      "r = Line_Odd \<and> content m1 la1 = [c] \<and> cn_events io1 = map in_event u \<or>
       r = Line_Complete \<and> (\<exists>t'. length t' < length t \<and> list_all text_char t' \<and> cn_events io1 = map in_event (t' @ c # u))"
    using look_line [OF less(2-4) assms(4), of 0] less(2) by blast
  from l(3) show ?case
  proof (elim disjE exE conjE)
    assume o: "r = Line_Odd" "content m1 la1 = [c]" "cn_events io1 = map in_event u"
    then have "recv_line m io [] 0 (Some la) = Inr (False, m1, io1, [], Some la1)" using l(1) by (simp add: recv_line_def)
    then show ?thesis using o by (subst discard_lines.simps) simp
  next
    fix t' assume o: "r = Line_Complete" "length t' < length t" "list_all text_char t'" "cn_events io1 = map in_event (t' @ c # u)"
    then have "recv_line m io [] 0 (Some la) = Inr (True, m1, io1, [], Some la)" using l(1) by (simp add: recv_line_def)
    then show ?thesis using less(1) [OF o(2) l(2) o(4,3)] by (subst discard_lines.simps) simp
  qed
qed

theorem lookahead_first_odd_byte_witness:
  "\<exists>m' io' la'. discard_lines (empty_mem\<lparr>blocks := [0 \<mapsto> [0, 0]]\<rparr>)
       \<lparr>cn_events = map in_event ([65, 13, 10, 66] @ 0 # [7]), cn_sends = [], cn_sent = [], cn_signal = 0\<rparr>
       (Some \<lparr>b_capacity = 2, b_offset = 0, b_len = 0, b_data = Ptr 0 0\<rparr>) = Inr (m', io', Some la') \<and>
     content m' la' = [0] \<and> cn_events io' = map in_event [7]"
proof -
  have o: "look_ok (empty_mem\<lparr>blocks := [0 \<mapsto> [0, 0]]\<rparr>) \<lparr>b_capacity = 2, b_offset = 0, b_len = 0, b_data = Ptr 0 0\<rparr>"
    by (simp add: look_ok_def buf_inv_def BUF_SIZE_MAX_def)
  have t: "list_all text_char [65, 13, 10, 66]" "\<not> text_char 0"
    by (simp_all add: text_char_def isprint_def isspace_def)
  show ?thesis by (rule lookahead_first_odd_byte [OF o _ t]) simp
qed

text \<open>
  C26: The CONNECT exchange does not fault, whatever bytes the proxy sends and whatever signals and
  timeouts come: it asks for another try only with a method the options allow, it opens the tunnel only when
  a line of the reply has the status 200, and in every other case it leaves a signal. This rests on what the
  caller has set up: the credentials are already read, the user name for basic authentication is not
  empty, and with digest authentication the challenge of an earlier exchange is there (without one the
  code runs into an assertion), and the lookahead buffer has room for a byte; also that memory, random bytes
  and base64 encoding do not fail. What
  the proxy sends is a finite list of events, so that the exchange ends is not a statement of
  the theorem.
\<close>

theorem http_connect_outcome:
  assumes "env_ok E" and "http_ok 512 s" and "up_defined (hs_static s)" and "method_ok (hs_p s)"
    and "hp_auth_method (hs_p s) = HTTP_AUTH_DIGEST \<longrightarrow> hp_proxy_authenticate (hs_p s) \<noteq> None" and "look_ok (hs_m s) la"
  shows "\<exists>ret la' s' es. establish_http_proxy_passthru E host port (Some la) s = Inr (ret, la', s') \<and>
           consumes (hs_io s) es (hs_io s') \<and>
           (if ret then retry_ok (hs_p s')
            else cn_signal (hs_io s') = 0 \<longrightarrow> (\<exists>t. reply_in es t \<and> scan_status t = Some 200))"
proof -
  let ?a = "hp_auth_method (hs_p s)"
  have up: "(if ?a = HTTP_AUTH_BASIC \<or> ?a = HTTP_AUTH_DIGEST \<or> ?a = HTTP_AUTH_NTLM
        then bindE (get_user_pass_http E (hs_m s) (hs_static s) (hs_p s) False)
               (\<lambda>(m1, up, p). Inr (s\<lparr>hs_m := m1, hs_static := up, hs_p := p\<rparr>)) else Inr s) = Inr s"
    using assms(3) by (cases s) (simp add: get_user_pass_http_def)
  obtain ok s2 status es2 where req: "(if ?a = HTTP_AUTH_DIGEST \<and> hp_proxy_authenticate (hs_p s) \<noteq> None then Inr (True, s, Some 407)
        else bindE (first_request E host port s) (\<lambda>(ok, s2). Inr (ok, s2, reply_status s2))) = Inr (ok, s2, status)"
      and m2: "moves s es2 s2" and st: "ok \<longrightarrow> status = Some 407 \<or> (\<exists>t. reply_in es2 t \<and> status = scan_status t)"
    using request_runs [OF assms(1,2,4,5)] by blast
  note start = establish_http_proxy_passthru_def [of E host port "Some la" s, unfolded Let_def up bindE_simps req prod.case]
  show ?thesis
  proof (cases ok)
    case False
    then have "establish_http_proxy_passthru E host port (Some la) s = Inr (False, Some la, http_error s2)" using start by simp
    then show ?thesis using http_error_consumes [of _ es2 s2] m2 http_error_signal [of s2] by (auto simp: moves_def)
  next
    case True
    have t2: "travels s es2 s2" using moves_travels [OF m2 assms(2)] .
    obtain r s3 es3 where l: "auth_loop E host port status False s2 = Inr (r, s3)" "travels s2 es3 s3" "auth_post status es3 r s3"
      using auth_loop_runs [OF assms(1) moves_ok [OF m2 assms(2)]] assms(4,5) moves_p [OF m2] by metis
    have t3: "travels s (es2 @ es3) s3" using travels_trans [OF t2 l(2)] .
    then have c3: "consumes (hs_io s) (es2 @ es3) (hs_io s3)" by (simp add: travels_def)
    note run = start [unfolded l(1) bindE_simps prod.case]
    consider (err) "r = Goto_Error \<or> (\<exists>x. r = With_Status x \<and> x \<noteq> Some 200)" | (again) "r = Goto_Done" | (opened) "r = With_Status (Some 200)"
      by (cases r) auto
    then show ?thesis
    proof cases
      case err
      then have "establish_http_proxy_passthru E host port (Some la) s = Inr (False, Some la, http_error s3)" using run True by auto
      then show ?thesis using http_error_consumes [OF c3] http_error_signal [of s3] by auto
    next
      case again
      then have "establish_http_proxy_passthru E host port (Some la) s = Inr (True, Some la, s3)" using run True by simp
      then show ?thesis using c3 l(3) again by auto
    next
      case opened
      have "\<exists>t. reply_in (es2 @ es3) t \<and> scan_status t = Some 200"
        using l(3) opened st True reply_in_earlier [of es3 _ es2] reply_in_later [of es2 _ es3] by fastforce
      then have rep: "\<exists>t. reply_in ((es2 @ es3) @ fs) t \<and> scan_status t = Some 200" for fs
        using reply_in_later by blast
      have lk: "look_ok (hs_m s3) la" using look_ok_keeps [OF assms(6)] t3 by (simp add: travels_def)
      obtain la' s' fs where "establish_http_proxy_passthru E host port (Some la) s = Inr (False, la', s')"
          "consumes (hs_io s3) fs (hs_io s')"
        using run True opened tunnel_opens [OF lk] by auto
      then show ?thesis using consumes_trans [OF c3] rep [of fs] by (metis (full_types))
    qed
  qed
qed

text \<open>A proxy that answers with success at once.\<close>

definition example_http :: http_state where
  "example_http =
     \<lparr>hs_m = empty_mem\<lparr>blocks := [0 \<mapsto> [0, 0]], nxt := 1\<rparr>,
      hs_io = \<lparr>cn_events = map in_event (asc ''HTTP/1.0 200 OK'' @ [13, 10, 13, 10]), cn_sends = [], cn_sent = [], cn_signal = 0\<rparr>,
      hs_buf = replicate 512 0,
      hs_p = \<lparr>hp_defined = True, hp_auth_method = HTTP_AUTH_NONE, hp_options = init_http_proxy_options_once None,
              hp_up = empty_user_pass, hp_proxy_authenticate = None, hp_queried_creds = False\<rparr>,
      hs_static = empty_user_pass\<lparr>up_defined := True\<rparr>\<rparr>"

definition example_env :: http_env where
  "example_env =
     \<lparr>pe_pass = \<lparr>mgmt = False, mgmt_query = (\<lambda>up _ _. (False, up)), single = (\<lambda>_ a _. (False, a)), exec = (\<lambda>_. (False, [])),
                 auth_content = (\<lambda>_. None), b64_encode = Some, b64_decode = id\<rparr>,
      ntlm_phase_1 = (\<lambda>_. []), ntlm_phase_3 = (\<lambda>_ _. None), rand_8 = Some (replicate 8 1),
      DigestCalcHA1 = (\<lambda>_ _ _ _ _ _. []), DigestCalcResponse = (\<lambda>_ _ _ _ _ _ _. [])\<rparr>"

theorem http_connect_outcome_witness:
  "\<exists>ret la' s' es. establish_http_proxy_passthru example_env (asc ''host'') (asc ''1194'')
       (Some \<lparr>b_capacity = 2, b_offset = 0, b_len = 0, b_data = Ptr 0 0\<rparr>) example_http = Inr (ret, la', s') \<and>
     consumes (hs_io example_http) es (hs_io s')"
proof -
  let ?la = "\<lparr>b_capacity = 2, b_offset = 0, b_len = 0, b_data = Ptr 0 0\<rparr>"
  have "env_ok example_env" by (simp add: env_ok_def example_env_def)
  moreover have "http_ok 512 example_http" by (simp add: http_ok_def example_http_def mem_ok_def empty_mem_def)
  moreover have "up_defined (hs_static example_http)" by (simp add: example_http_def)
  moreover have "method_ok (hs_p example_http)" by (simp add: method_ok_def example_http_def auth_defs)
  moreover have "hp_auth_method (hs_p example_http) = HTTP_AUTH_DIGEST \<longrightarrow> hp_proxy_authenticate (hs_p example_http) \<noteq> None"
    by (simp add: example_http_def auth_defs)
  moreover have "look_ok (hs_m example_http) ?la"
    by (simp add: look_ok_def buf_inv_def BUF_SIZE_MAX_def example_http_def)
  ultimately show ?thesis
    using http_connect_outcome [of example_env example_http ?la "asc ''host''" "asc ''1194''"] by blast
qed

end
