(* ===== verification/Win32_Exec.thy ===== *)
theory Win32_Exec
  imports Env_Laws Argv_Laws Misc_Laws
begin

text \<open>
  \<open>src/Treiber/lib/win32.c\<close>: what the driver does around processes of Windows. File names that stand for
  devices, the environment block and the command line of a child process, \<open>openvpn_execve\<close>, the system path,
  and texts about the version. Calls of the Windows API are arguments: their results, or a list of the
  processes that are started.
\<close>

section \<open>Device names\<close>

definition to_lower :: "byte \<Rightarrow> byte" where "to_lower c = (if isupper c then c + 32 else c)"

definition name_ends :: "cstr \<Rightarrow> bool" where "name_ends s \<longleftrightarrow> s = [] \<or> hd s = 46"

fun cmp_prefix_loop :: "bool \<Rightarrow> cstr \<Rightarrow> cstr \<Rightarrow> bool" where
  "cmp_prefix_loop n [] str =
     (if n then (case str of [] \<Rightarrow> False | c2 # s \<Rightarrow> if isdigit c2 then name_ends s else False) else name_ends str)"
| "cmp_prefix_loop n (c1 # pre) [] = False"
| "cmp_prefix_loop n (c1 # pre) (c2 # s) = (if c1 \<noteq> to_lower c2 then False else cmp_prefix_loop n pre s)"

definition cmp_prefix :: "cstr option \<Rightarrow> bool \<Rightarrow> string \<Rightarrow> bool" where
  "cmp_prefix str n pre = (case str of None \<Rightarrow> False | Some s \<Rightarrow> cmp_prefix_loop n (asc pre) s)"

definition win_safe_filename :: "cstr option \<Rightarrow> bool" where
  "win_safe_filename fn =
     (if cmp_prefix fn False ''con'' then False
      else if cmp_prefix fn False ''prn'' then False
      else if cmp_prefix fn False ''aux'' then False
      else if cmp_prefix fn False ''nul'' then False
      else if cmp_prefix fn True ''com'' then False
      else if cmp_prefix fn True ''lpt'' then False
      else if cmp_prefix fn False ''clock$'' then False
      else True)"

section \<open>The system path\<close>

text \<open>The global \<open>win_sys_path\<close> is an argument or a result.\<close>

definition get_win_sys_path :: "cstr option \<Rightarrow> fault + cstr" where
  "get_win_sys_path p = (case p of Some s \<Rightarrow> Inr s | None \<Rightarrow> Inl AssertFail)"

definition SYS_PATH_ENV_VAR_NAME :: cstr where "SYS_PATH_ENV_VAR_NAME = asc ''SystemRoot''"

definition set_win_sys_path :: "mem \<Rightarrow> cstr \<Rightarrow> env_set \<Rightarrow> fault + cstr option \<times> env_set \<times> mem" where
  "set_win_sys_path m newpath es =
     bindE (setenv_str m (Some es) (Some SYS_PATH_ENV_VAR_NAME) (Some newpath)) (\<lambda>(es', m'). Inr (Some newpath, es', m'))"

text \<open>\<open>var\<close> is the variable as \<open>GetEnvironmentVariable\<close> finds it for an array of 256 bytes.\<close>

definition set_win_sys_path_via_env :: "mem \<Rightarrow> cstr option \<Rightarrow> env_set \<Rightarrow> fault + cstr option \<times> env_set \<times> mem" where
  "set_win_sys_path_via_env m var es =
     (case var of
        None \<Rightarrow> Inl Fatal
      | Some s \<Rightarrow> if s = [] then Inl Fatal else if length s > 255 then Inl Fatal else set_win_sys_path m s es)"

section \<open>The environment block\<close>

definition sys_path_setting :: "cstr \<Rightarrow> cstr" where
  "sys_path_setting sysroot = asc ''PATH='' @ sysroot @ [92] @ asc ''System32;'' @ sysroot @ asc '';'' @ sysroot @ [92] @ asc ''System32'' @ [92] @ asc ''Wbem''"

fun block_size :: "cstr list \<Rightarrow> nat \<Rightarrow> nat" where
  "block_size [] n = n"
| "block_size (e # es) n = block_size es (n + length e + 1)"

fun block_loop :: "mem \<Rightarrow> ptr \<Rightarrow> bool \<Rightarrow> bool \<Rightarrow> cstr list \<Rightarrow> fault + ptr \<times> bool \<times> mem" where
  "block_loop m p pw_env path_seen [] = Inr (p, path_seen, m)"
| "block_loop m p pw_env path_seen (e # es) =
     bindE (if env_allowed pw_env e
            then bindE (write_bytes m p (e @ [NUL])) (\<lambda>m'. Inr (ptr_add p (int (length e) + 1), m'))
            else Inr (p, m))
       (\<lambda>(p1, m1). block_loop m1 p1 pw_env (path_seen \<or> take 5 e = asc ''PATH='') es)"

definition env_block :: "mem \<Rightarrow> bool \<Rightarrow> cstr option \<Rightarrow> env_set option \<Rightarrow> fault + ptr \<times> mem" where
  "env_block m pw_env sys_path es =
     bindE (get_win_sys_path sys_path)
       (\<lambda>sysroot. bindE (openvpn_snprintf (replicate 256 0) 256 (Some (sys_path_setting sysroot)))
       (\<lambda>(arr, _). let force_path = c_string arr in
          case es of
            None \<Rightarrow> Inr (Null, m)
          | Some s \<Rightarrow>
              (let nchars = block_size (es_list s) 1 + length force_path + 1; (ret, m1) = c_malloc m nchars
               in bindE (check_malloc_return ret)
                    (\<lambda>_. bindE (block_loop m1 ret pw_env False (es_list s))
                    (\<lambda>(p, path_seen, m2).
                       bindE (if \<not> path_seen
                              then bindE (write_bytes m2 p (force_path @ [NUL]))
                                     (\<lambda>m3. Inr (ptr_add p (int (length force_path) + 1), m3))
                              else Inr (p, m2))
                         (\<lambda>(p1, m3). bindE (store m3 p1 NUL) (\<lambda>m4. Inr (ret, m4))))))))"

section \<open>The command line\<close>

definition CC_BAD_ARG :: cc_flags where "CC_BAD_ARG = CC_DOUBLE_QUOTE OR CC_CRLF"

fun cmd_size :: "cstr option list \<Rightarrow> nat \<Rightarrow> nat \<Rightarrow> fault + nat \<times> nat" where
  "cmd_size [] nchars maxlen = Inr (nchars, maxlen)"
| "cmd_size (None # sl) nchars maxlen = Inl MemFault"
| "cmd_size (Some s # sl) nchars maxlen = cmd_size sl (nchars + length s + 3) (max maxlen (length s))"

fun cmd_loop :: "mem \<Rightarrow> buffer \<Rightarrow> byte list \<Rightarrow> nat \<Rightarrow> cstr option list \<Rightarrow> fault + buffer \<times> mem" where
  "cmd_loop m buf work i [] = Inr (buf, m)"
| "cmd_loop m buf work i (None # sl) = Inl MemFault"
| "cmd_loop m buf work i (Some s # sl) =
     (if length s + 1 \<le> length work
      then bindE (string_mod (overwrite work 0 (s @ [NUL])) CC_PRINT CC_BAD_ARG 95)
        (\<lambda>(work1, _). bindE (if i \<noteq> 0 then buf_printf m buf (Some (asc '' '')) else Inr (True, buf, m))
        (\<lambda>(_, buf1, m1). let t = c_string work1 in
           bindE (if string_class t CC_ANY CC_SPACE then buf_printf m1 buf1 (Some t)
                  else buf_printf m1 buf1 (Some ([34] @ t @ [34])))
             (\<lambda>(_, buf2, m2). cmd_loop m2 buf2 work1 (i + 1) sl)))
      else Inl MemFault)"

text \<open>
  The text in front of \<open>wide_string\<close>; \<open>widen\<close> is the conversion of \<open>MultiByteToWideChar\<close>. The array \<open>work\<close>
  keeps its own bytes, the block in the arena is only allocated.
\<close>

definition wide_cmd_line ::
  "(cstr \<Rightarrow> 'w) \<Rightarrow> mem \<Rightarrow> argv option \<Rightarrow> gc_arena option \<Rightarrow> fault + 'w option \<times> mem \<times> gc_arena option" where
  "wide_cmd_line widen m a gc =
     (case a of
        None \<Rightarrow> Inr (None, m, gc)
      | Some v \<Rightarrow>
          bindE (cmd_size (take (a_argc v) (a_argv v)) 1 0)
            (\<lambda>(nchars, maxlen). bindE (gc_malloc m (maxlen + 1) False gc)
            (\<lambda>(work, m1, gc1). bindE (check_malloc_return work)
            (\<lambda>_. bindE (alloc_buf_gc m1 nchars gc1)
            (\<lambda>(buf, m2, gc2). bindE (cmd_loop m2 buf (replicate (maxlen + 1) 0) 0 (take (a_argc v) (a_argv v)))
            (\<lambda>(buf1, m3). bindE (read_cstr m3 (buf_bptr buf1))
            (\<lambda>t. Inr (Some (widen t), m3, gc2))))))))"

section \<open>Starting a process\<close>

text \<open>What \<open>CreateProcessW\<close> gets: the program, the command line, and the environment block.\<close>

datatype 'w started = Started 'w "'w option" ptr

text \<open>
  The two constants come from a header that is not in the repository. \<open>allowed\<close> is \<open>openvpn_execve_allowed(flags)\<close>, \<open>outcome\<close> what the process makes of the result: \<open>None\<close> if it
  is not created, otherwise the exit code or \<open>None\<close> if there is none. The memory at the start of the
  process is the last component but one, that at the end the last.
\<close>

definition openvpn_execve ::
  "int \<Rightarrow> int \<Rightarrow> (cstr \<Rightarrow> 'w) \<Rightarrow> mem \<Rightarrow> bool \<Rightarrow> cstr option \<Rightarrow> bool \<Rightarrow> int option option \<Rightarrow> argv option \<Rightarrow> env_set option \<Rightarrow>
     fault + int \<times> ('w started \<times> mem) option \<times> mem" where
  "openvpn_execve EXECVE_ERROR EXECVE_NOT_ALLOWED widen m pw_env sys_path allowed outcome a es =
     (case a of
        None \<Rightarrow> Inr (EXECVE_ERROR, None, m)
      | Some v \<Rightarrow>
          (case a_argv v of
             [] \<Rightarrow> Inl MemFault
           | None # _ \<Rightarrow> Inr (EXECVE_ERROR, None, m)
           | Some argv0 # _ \<Rightarrow>
               if \<not> allowed then Inr (EXECVE_NOT_ALLOWED, None, m)
               else bindE (env_block m pw_env sys_path es)
                 (\<lambda>(env, m1). bindE (wide_cmd_line widen m1 a (Some gc_new))
                 (\<lambda>(cl, m2, gc).
                    let ret = (case outcome of Some (Some status) \<Rightarrow> status | _ \<Rightarrow> EXECVE_ERROR)
                    in bindE (if env \<noteq> Null then c_free m2 env else Inr m2)
                      (\<lambda>m3. bindE (gc_free m3 (the gc))
                      (\<lambda>(m4, _, _). Inr (ret, Some (Started (widen argv0) cl env, m2), m4)))))))"

section \<open>Version and temporary directory\<close>

definition WIN_XP :: int where "WIN_XP = 0"
definition WIN_VISTA :: int where "WIN_VISTA = 1"
definition WIN_7 :: int where "WIN_7 = 2"
definition WIN_8 :: int where "WIN_8 = 3"
definition WIN_8_1 :: int where "WIN_8_1 = 4"
definition WIN_10 :: int where "WIN_10 = 5"

text \<open>The answers of \<open>IsWindowsXPOrGreater\<close> and its relatives.\<close>

record win_version =
  xp_or_greater :: bool
  vista_or_greater :: bool
  win7_or_greater :: bool
  win8_or_greater :: bool
  win8_1_or_greater :: bool
  win10_or_greater :: bool

definition win32_version_info :: "win_version \<Rightarrow> fault + int" where
  "win32_version_info v =
     (if \<not> xp_or_greater v then Inl Fatal
      else if \<not> vista_or_greater v then Inr WIN_XP
      else if \<not> win7_or_greater v then Inr WIN_VISTA
      else if \<not> win8_or_greater v then Inr WIN_7
      else if \<not> win8_1_or_greater v then Inr WIN_8
      else if \<not> win10_or_greater v then Inr WIN_8_1
      else Inr WIN_10)"

text \<open>\<open>win64\<close> says how the program was compiled, \<open>wow64\<close> is the answer of \<open>IsWow64Process\<close>.\<close>

definition win32_is_64bit :: "bool \<Rightarrow> bool \<Rightarrow> bool" where
  "win32_is_64bit win64 wow64 = (if win64 then True else wow64)"

definition version_text :: "int \<Rightarrow> bool \<Rightarrow> cstr" where
  "version_text v add_name =
     (if v = WIN_XP then asc ''5.1'' @ (if add_name then asc '' (Windows XP)'' else [])
      else if v = WIN_VISTA then asc ''6.0'' @ (if add_name then asc '' (Windows Vista)'' else [])
      else if v = WIN_7 then asc ''6.1'' @ (if add_name then asc '' (Windows 7)'' else [])
      else if v = WIN_8 then asc ''6.2'' @ (if add_name then asc '' (Windows 8)'' else [])
      else if v = WIN_8_1 then asc ''6.3'' @ (if add_name then asc '' (Windows 8.1)'' else [])
      else if v = WIN_10 then asc ''10.0'' @ (if add_name then asc '' (Windows 10 or greater)'' else [])
      else asc ''0.0'' @ (if add_name then asc '' (unknown)'' else []))"

definition win32_version_string ::
  "mem \<Rightarrow> win_version \<Rightarrow> bool \<Rightarrow> bool \<Rightarrow> gc_arena option \<Rightarrow> fault + ptr \<times> mem \<times> gc_arena option" where
  "win32_version_string m v is64 add_name gc =
     bindE (win32_version_info v)
       (\<lambda>version. bindE (alloc_buf_gc m 256 gc)
       (\<lambda>(out, m1, gc1). bindE (buf_printf m1 out (Some (version_text version add_name)))
       (\<lambda>(_, out1, m2). bindE (buf_printf m2 out1 (Some (if is64 then asc '' 64bit'' else asc '' 32bit'')))
       (\<lambda>(_, out2, m3). Inr (b_data out2, m3, gc1)))))"

text \<open>\<open>path\<close> is what \<open>GetTempPathW\<close> gives, in UTF-8; the static array has \<open>MAX_PATH\<close> bytes.\<close>

definition MAX_PATH :: nat where "MAX_PATH = 260"

definition win_get_tempdir :: "cstr option \<Rightarrow> cstr option" where
  "win_get_tempdir path =
     (case path of None \<Rightarrow> None | Some p \<Rightarrow> if length p + 1 > MAX_PATH then None else Some p)"

text \<open>\<open>done\<close> says that both \<open>WriteFile\<close> and \<open>ReadFile\<close> succeed.\<close>

definition send_msg_iservice :: "bool \<Rightarrow> 'a \<Rightarrow> 'a option" where
  "send_msg_iservice talked ack = (if talked then Some ack else None)"

end
