(* ===== verification/Win32_Laws.thy ===== *)
theory Win32_Laws
  imports Win32_Exec Proxy_Laws
begin

text \<open>
  Laws of processes on Windows: which file names are refused, how the environment block reads, how the
  command line splits again, and what a process that is started sees.
\<close>

section \<open>Device names\<close>

text \<open>The name in front of the first dot, in lower case.\<close>

definition device_name :: "cstr \<Rightarrow> cstr" where "device_name fn = map to_lower (takeWhile (\<lambda>c. c \<noteq> 46) fn)"

definition numbered :: "string \<Rightarrow> cstr \<Rightarrow> bool" where
  "numbered pre s \<longleftrightarrow> (length s = 4 \<and> take 3 s = asc pre \<and> isdigit (s ! 3))"

definition reserved_device :: "cstr \<Rightarrow> bool" where
  "reserved_device s \<longleftrightarrow>
     s = asc ''con'' \<or> s = asc ''prn'' \<or> s = asc ''aux'' \<or> s = asc ''nul'' \<or> s = asc ''clock$'' \<or>
     numbered ''com'' s \<or> numbered ''lpt'' s"

lemma to_lower_dot: "to_lower c = 46 \<longleftrightarrow> c = 46"
proof -
  have "c + 32 \<noteq> 46" if "isupper c"
  proof
    assume "c + 32 = 46"
    then have "c = 46 - 32" by (simp add: eq_diff_eq)
    then show False using that by (simp add: isupper_def)
  qed
  then show ?thesis by (auto simp: to_lower_def isupper_def)
qed

lemma to_lower_digit: "isdigit (to_lower c) \<longleftrightarrow> isdigit c"
proof -
  have "unat (c + 32) = unat c + 32" if "isupper c"
    using that by (simp add: unat_word_ariths isupper_def)
  then show ?thesis by (auto simp: to_lower_def isdigit_def isupper_def)
qed

lemma name_ends_iff: "name_ends s \<longleftrightarrow> takeWhile (\<lambda>c. c \<noteq> 46) s = []"
  by (cases s) (auto simp: name_ends_def)

lemma cmp_prefix_plain:
  "46 \<notin> set pre \<Longrightarrow> cmp_prefix_loop False pre fn \<longleftrightarrow> device_name fn = pre"
proof (induction pre arbitrary: fn)
  case Nil
  then show ?case by (simp add: name_ends_iff device_name_def)
next
  case (Cons c pre)
  then show ?case by (cases fn) (auto simp: device_name_def to_lower_dot)
qed

lemma cmp_prefix_numbered:
  "46 \<notin> set pre \<Longrightarrow> cmp_prefix_loop True pre fn \<longleftrightarrow> (\<exists>d. isdigit d \<and> device_name fn = pre @ [d])"
proof (induction pre arbitrary: fn)
  case Nil
  show ?case
  proof (cases fn)
    case (Cons c s)
    have "46 \<noteq> c" if "isdigit c" using that by (auto simp: isdigit_def)
    then show ?thesis using Cons by (auto simp: device_name_def name_ends_iff to_lower_digit to_lower_dot)
  qed (simp add: device_name_def)
next
  case (Cons c pre)
  then show ?case by (cases fn) (auto simp: device_name_def to_lower_dot)
qed

lemma numbered_iff: "length (asc pre) = 3 \<Longrightarrow> numbered pre s \<longleftrightarrow> (\<exists>d. isdigit d \<and> s = asc pre @ [d])"
proof
  assume l: "length (asc pre) = 3" and "numbered pre s"
  then have n: "length s = 4" "take 3 s = asc pre" "isdigit (s ! 3)" by (simp_all add: numbered_def)
  have "s = take 3 s @ [s ! 3]" using n(1) take_Suc_conv_app_nth [of 3 s] by simp
  then show "\<exists>d. isdigit d \<and> s = asc pre @ [d]" using n(2,3) by metis
next
  assume l: "length (asc pre) = 3" and "\<exists>d. isdigit d \<and> s = asc pre @ [d]"
  then obtain d where "isdigit d" "s = asc pre @ [d]" by blast
  then show "numbered pre s" using l by (simp add: numbered_def nth_append)
qed

lemma device_dots:
  "46 \<notin> set (asc ''con'')" "46 \<notin> set (asc ''prn'')" "46 \<notin> set (asc ''aux'')" "46 \<notin> set (asc ''nul'')"
  "46 \<notin> set (asc ''com'')" "46 \<notin> set (asc ''lpt'')" "46 \<notin> set (asc ''clock$'')"
  by simp_all

lemma device_three: "length (asc ''com'') = 3" "length (asc ''lpt'') = 3"
  by simp_all

section \<open>Properties of file names\<close>

text \<open>
  A file name is refused exactly when it stands for a device of Windows: when its part in front of the
  first dot is, in any case, CON, PRN, AUX, NUL, CLOCK$, or COM or LPT with one digit.
\<close>

theorem win_safe_filename_exact: "win_safe_filename (Some fn) \<longleftrightarrow> \<not> reserved_device (device_name fn)"
  unfolding win_safe_filename_def cmp_prefix_def option.case reserved_device_def cmp_prefix_plain [OF device_dots(1)]
    cmp_prefix_plain [OF device_dots(2)] cmp_prefix_plain [OF device_dots(3)] cmp_prefix_plain [OF device_dots(4)]
    cmp_prefix_plain [OF device_dots(7)] cmp_prefix_numbered [OF device_dots(5)] cmp_prefix_numbered [OF device_dots(6)]
    numbered_iff [OF device_three(1)] numbered_iff [OF device_three(2)]
  by argo

section \<open>The environment block\<close>

text \<open>How a process reads the block: strings with their ends, up to an empty one.\<close>

fun block_strings :: "byte list \<Rightarrow> cstr \<Rightarrow> cstr list" where
  "block_strings [] cur = []"
| "block_strings (c # bs) cur =
     (if c = 0 then (if cur = [] then [] else cur # block_strings bs []) else block_strings bs (cur @ [c]))"

lemma block_strings_word: "is_cstr w \<Longrightarrow> block_strings (w @ bs) cur = block_strings bs (cur @ w)"
  by (induction w arbitrary: cur) auto

lemma block_strings_read:
  "list_all (\<lambda>s. is_cstr s \<and> s \<noteq> []) ss \<Longrightarrow> block_strings (concat (map (\<lambda>s. s @ [0]) ss) @ 0 # rest) [] = ss"
proof (induction ss)
  case (Cons s ss)
  have "block_strings (s @ 0 # concat (map (\<lambda>s. s @ [0]) ss) @ 0 # rest) [] =
      block_strings (0 # concat (map (\<lambda>s. s @ [0]) ss) @ 0 # rest) s"
    using Cons.prems block_strings_word [of s _ "[]"] by simp
  then show ?case using Cons by simp
qed simp

lemma block_size_sum: "block_size es n = n + length (concat (map (\<lambda>s. s @ [0 :: byte]) es))"
  by (induction es arbitrary: n) simp_all

lemma filter_length: "length (concat (map (\<lambda>s. s @ [0 :: byte]) (filter P es))) \<le> length (concat (map (\<lambda>s. s @ [0 :: byte]) es))"
  by (induction es) simp_all

text \<open>A block of which the bytes \<open>d\<close> are written.\<close>

definition written :: "mem \<Rightarrow> nat \<Rightarrow> nat \<Rightarrow> byte list \<Rightarrow> bool" where
  "written m k n d \<longleftrightarrow> (\<exists>r. blocks m k = Some (d @ r) \<and> length (d @ r) = n)"

lemma written_more:
  assumes "written m k n d" and "length d + length x \<le> n"
  shows "\<exists>m'. write_bytes m (Ptr k (int (length d))) x = Inr m' \<and> written m' k n (d @ x) \<and> nxt m' = nxt m \<and> oom m' = oom m \<and>
           (mem_ok m \<longrightarrow> mem_ok m') \<and> (\<forall>j. j \<noteq> k \<longrightarrow> blocks m' j = blocks m j)"
proof -
  obtain r where r: "blocks m k = Some (d @ r)" "length d + length r = n" using assms(1) by (auto simp: written_def)
  have w: "write_bytes m (Ptr k (int (length d))) x = Inr (m\<lparr>blocks := (blocks m)(k \<mapsto> overwrite (d @ r) (length d) x)\<rparr>)"
    using write_bytes_Ptr [OF r(1), of "int (length d)" x] r(2) assms(2) by simp
  have o: "overwrite (d @ r) (length d) x = (d @ x) @ drop (length x) r" by (simp add: overwrite_def)
  have "written (m\<lparr>blocks := (blocks m)(k \<mapsto> overwrite (d @ r) (length d) x)\<rparr>) k n (d @ x)"
    using r(2) assms(2) by (auto simp: written_def o)
  then show ?thesis using w r(1) by (auto simp: mem_ok_def)
qed

lemma block_loop_writes:
  fixes pw :: bool
  assumes "written m k n d" and "length d + length (concat (map (\<lambda>s. s @ [0 :: byte]) es)) \<le> n"
  defines "out \<equiv> d @ concat (map (\<lambda>s. s @ [0]) (filter (env_allowed pw) es))"
  shows "\<exists>m'. block_loop m (Ptr k (int (length d))) pw seen es =
           Inr (Ptr k (int (length out)), seen \<or> (\<exists>e \<in> set es. take 5 e = asc ''PATH=''), m') \<and>
         written m' k n out \<and> nxt m' = nxt m \<and> oom m' = oom m \<and> (mem_ok m \<longrightarrow> mem_ok m') \<and>
         (\<forall>j. j \<noteq> k \<longrightarrow> blocks m' j = blocks m j)"
  using assms(1,2) unfolding out_def
proof (induction es arbitrary: m d seen)
  case (Cons e es)
  show ?case
  proof (cases "env_allowed pw e")
    case False
    have "length d + length (concat (map (\<lambda>s. s @ [0 :: byte]) es)) \<le> n" using Cons.prems(2) by simp
    from Cons.IH [OF Cons.prems(1) this, of "seen \<or> take 5 e = asc ''PATH=''"] False show ?thesis by (simp add: disj_assoc)
  next
    case True
    obtain m1 where m1: "write_bytes m (Ptr k (int (length d))) (e @ [NUL]) = Inr m1" "written m1 k n (d @ e @ [NUL])"
        "nxt m1 = nxt m" "oom m1 = oom m" "mem_ok m \<longrightarrow> mem_ok m1" "\<forall>j. j \<noteq> k \<longrightarrow> blocks m1 j = blocks m j"
      using written_more [OF Cons.prems(1), of "e @ [NUL]"] Cons.prems(2) by auto
    have "length (d @ e @ [NUL]) + length (concat (map (\<lambda>s. s @ [0 :: byte]) es)) \<le> n" using Cons.prems(2) by simp
    from Cons.IH [OF m1(2) this, of "seen \<or> take 5 e = asc ''PATH=''"] obtain m2 where
      "block_loop m1 (Ptr k (int (length (d @ e @ [NUL])))) pw (seen \<or> take 5 e = asc ''PATH='') es =
         Inr (Ptr k (int (length ((d @ e @ [NUL]) @ concat (map (\<lambda>s. s @ [0]) (filter (env_allowed pw) es))))),
              (seen \<or> take 5 e = asc ''PATH='') \<or> (\<exists>e \<in> set es. take 5 e = asc ''PATH=''), m2)"
      "written m2 k n ((d @ e @ [NUL]) @ concat (map (\<lambda>s. s @ [0]) (filter (env_allowed pw) es)))"
      "nxt m2 = nxt m1" "oom m2 = oom m1" "mem_ok m1 \<longrightarrow> mem_ok m2" "\<forall>j. j \<noteq> k \<longrightarrow> blocks m2 j = blocks m1 j" by blast
    moreover have "block_loop m (Ptr k (int (length d))) pw seen (e # es) =
        block_loop m1 (Ptr k (int (length (d @ e @ [NUL])))) pw (seen \<or> take 5 e = asc ''PATH='') es"
      using True m1(1) by (simp add: algebra_simps)
    ultimately show ?thesis using True m1(3-) by (auto simp del: block_loop.simps asc_simps)
  qed
qed simp

definition path_setting :: "cstr \<Rightarrow> cstr" where "path_setting root = c_string (take 255 (sys_path_setting root))"

text \<open>The strings a child process gets.\<close>

definition child_env :: "bool \<Rightarrow> cstr \<Rightarrow> cstr list \<Rightarrow> cstr list" where
  "child_env pw root es =
     filter (env_allowed pw) es @ (if \<exists>e \<in> set es. take 5 e = asc ''PATH='' then [] else [path_setting root])"

lemma path_setting_nonempty: "path_setting root \<noteq> [] \<and> is_cstr (path_setting root)"
proof -
  have "path_setting root = 80 # drop 1 (path_setting root)" by (simp add: path_setting_def sys_path_setting_def c_string_def)
  moreover have "is_cstr (path_setting root)" by (simp only: path_setting_def is_cstr_c_string)
  ultimately show ?thesis by (metis list.distinct(1))
qed

lemma env_block_reads:
  assumes "\<not> oom m (nxt m)" and "mem_ok m" and "list_all (\<lambda>s. is_cstr s \<and> s \<noteq> []) (es_list es)"
  shows "\<exists>m' bs. env_block m pw (Some root) (Some es) = Inr (Ptr (nxt m) 0, m') \<and> blocks m' (nxt m) = Some bs \<and>
           block_strings bs [] = child_env pw root (es_list es) \<and> nxt m' = Suc (nxt m) \<and> oom m' = oom m \<and> mem_ok m' \<and>
           (\<forall>j. j \<noteq> nxt m \<longrightarrow> blocks m' j = blocks m j)"
proof -
  let ?k = "nxt m" and ?es = "es_list es" and ?fp = "path_setting root"
  obtain arr ok where f: "openvpn_snprintf (replicate 256 0) 256 (Some (sys_path_setting root)) = Inr (arr, ok)" "c_string arr = ?fp"
    using snprintf_text [of 256 "replicate 256 0" "sys_path_setting root"] by (auto simp: path_setting_def)
  let ?n = "block_size ?es 1 + length ?fp + 1"
  obtain m1 where m1: "c_malloc m ?n = (Ptr ?k 0, m1)" "blocks m1 = (blocks m)(?k \<mapsto> map (junk m ?k) [0..<?n])"
      "nxt m1 = Suc ?k" "oom m1 = oom m" using assms(1) by (simp add: c_malloc_def new_block_def)
  have ok1: "mem_ok m1" using assms(2) m1(2,3) by (auto simp: mem_ok_def)
  have w1: "written m1 ?k ?n []" using m1(2) by (simp add: written_def)
  let ?out = "concat (map (\<lambda>s. s @ [0]) (filter (env_allowed pw) ?es))" and ?seen = "\<exists>e \<in> set ?es. take 5 e = asc ''PATH=''"
  have le: "length ?out \<le> length (concat (map (\<lambda>s. s @ [0 :: byte]) ?es))"
    by (rule filter_length)
  obtain m2 where m2: "block_loop m1 (Ptr ?k 0) pw False ?es = Inr (Ptr ?k (int (length ?out)), ?seen, m2)"
      "written m2 ?k ?n ?out" "nxt m2 = nxt m1" "oom m2 = oom m1" "mem_ok m2" "\<forall>j. j \<noteq> ?k \<longrightarrow> blocks m2 j = blocks m1 j"
    using block_loop_writes [OF w1, of ?es pw False] ok1 by (auto simp: block_size_sum)
  let ?ss = "child_env pw root ?es"
  let ?all = "concat (map (\<lambda>s. s @ [0]) ?ss)"
  have len: "length ?all + 1 \<le> ?n" using le by (auto simp: child_env_def block_size_sum)
  obtain m3 where m3: "(if \<not> ?seen then bindE (write_bytes m2 (Ptr ?k (int (length ?out))) (?fp @ [NUL]))
        (\<lambda>m3. Inr (ptr_add (Ptr ?k (int (length ?out))) (int (length ?fp) + 1), m3)) else Inr (Ptr ?k (int (length ?out)), m2)) =
        Inr (Ptr ?k (int (length ?all)), m3)"
      "written m3 ?k ?n ?all" "nxt m3 = nxt m1" "oom m3 = oom m1" "mem_ok m3" "\<forall>j. j \<noteq> ?k \<longrightarrow> blocks m3 j = blocks m1 j"
  proof (cases ?seen)
    case True
    then show thesis using that [of m2] m2 by (auto simp: child_env_def)
  next
    case False
    have "length ?out + length (?fp @ [NUL]) \<le> ?n" using le by (simp add: block_size_sum)
    from written_more [OF m2(2) this] obtain m3 where "write_bytes m2 (Ptr ?k (int (length ?out))) (?fp @ [NUL]) = Inr m3"
        "written m3 ?k ?n (?out @ ?fp @ [NUL])" "nxt m3 = nxt m2" "oom m3 = oom m2" "mem_ok m3" "\<forall>j. j \<noteq> ?k \<longrightarrow> blocks m3 j = blocks m2 j"
      using m2(5) by blast
    then show thesis using that [of m3] False m2 by (simp add: child_env_def)
  qed
  obtain m4 where m4: "write_bytes m3 (Ptr ?k (int (length ?all))) [NUL] = Inr m4" "written m4 ?k ?n (?all @ [NUL])"
      "nxt m4 = nxt m3" "oom m4 = oom m3" "mem_ok m4" "\<forall>j. j \<noteq> ?k \<longrightarrow> blocks m4 j = blocks m3 j"
    using written_more [OF m3(2), of "[NUL]"] len m3(5) by auto
  obtain r where r: "blocks m4 ?k = Some ((?all @ [NUL]) @ r)" using m4(2) by (auto simp: written_def)
  have "list_all (\<lambda>s. is_cstr s \<and> s \<noteq> []) ?ss" using assms(3) path_setting_nonempty by (auto simp: child_env_def list_all_iff)
  then have "block_strings ((?all @ [NUL]) @ r) [] = ?ss" using block_strings_read [of ?ss r] by simp
  moreover have "env_block m pw (Some root) (Some es) = Inr (Ptr ?k 0, m4)"
    unfolding env_block_def get_win_sys_path_def Let_def
    by (simp only: option.case bindE_simps f prod.case m1(1) check_malloc_return_def m2(1) m3(1) store_def m4(1)) simp
  ultimately show ?thesis using r m4 m3 m1 by auto
qed

section \<open>How a command line splits\<close>

text \<open>
  The documented rule of the C runtime: the program name runs up to white space outside quotes. Arguments
  are parted by white space outside quotes; an even number of backslashes in front of a quote is halved and
  the quote opens or closes, an odd number is halved and the quote is a character, two quotes inside
  quotes are one, other backslashes are characters. \<open>st\<close> says that an argument has begun, \<open>q\<close> that the text is inside quotes,
  \<open>nb\<close> counts the backslashes just read.
\<close>

fun crt_name :: "bool \<Rightarrow> cstr \<Rightarrow> cstr \<Rightarrow> cstr \<times> cstr" where
  "crt_name q cur [] = (cur, [])"
| "crt_name q cur (c # s) =
     (if c = 34 then crt_name (\<not> q) cur s
      else if \<not> q \<and> (c = 32 \<or> c = 9) then (cur, s)
      else crt_name q (cur @ [c]) s)"

fun crt_args :: "bool \<Rightarrow> bool \<Rightarrow> nat \<Rightarrow> cstr \<Rightarrow> cstr \<Rightarrow> cstr list" where
  "crt_args st q nb cur [] = (if st then [cur @ replicate nb 92] else [])"
| "crt_args st q nb cur (c # s) =
     (if c = 92 then crt_args True q (nb + 1) cur s
      else if c = 34 then
        (if odd nb then crt_args True q 0 (cur @ replicate (nb div 2) 92 @ [34]) s
         else if q \<and> take 1 s = [34] then crt_args True q 0 (cur @ replicate (nb div 2) 92 @ [34]) (tl s)
         else crt_args True (\<not> q) 0 (cur @ replicate (nb div 2) 92) s)
      else if \<not> q \<and> (c = 32 \<or> c = 9) then
        (if st then (cur @ replicate nb 92) # crt_args False False 0 [] s else crt_args False False 0 [] s)
      else crt_args True q 0 (cur @ replicate nb 92 @ [c]) s)"

definition crt_split :: "cstr \<Rightarrow> cstr list" where
  "crt_split line = (case crt_name False [] line of (name, rest) \<Rightarrow> name # crt_args False False 0 [] rest)"

lemma crt_name_word:
  "34 \<notin> set w \<Longrightarrow> q \<or> 32 \<notin> set w \<and> 9 \<notin> set w \<Longrightarrow> crt_name q cur (w @ rest) = crt_name q (cur @ w) rest"
  by (induction w arbitrary: cur) auto

lemma crt_args_word:
  "34 \<notin> set w \<Longrightarrow> q \<or> 32 \<notin> set w \<and> 9 \<notin> set w \<Longrightarrow>
     \<exists>nb' cur'. crt_args st q nb cur (w @ rest) = crt_args (st \<or> w \<noteq> []) q nb' cur' rest \<and>
       cur' @ replicate nb' 92 = cur @ replicate nb 92 @ w \<and> ((if w = [] then nb = 0 else last w \<noteq> 92) \<longrightarrow> nb' = 0)"
proof (induction w arbitrary: st nb cur)
  case (Cons c w)
  let ?nb = "if c = 92 then nb + 1 else 0" and ?cur = "if c = 92 then cur else cur @ replicate nb 92 @ [c]"
  have s: "crt_args st q nb cur ((c # w) @ rest) = crt_args True q ?nb ?cur (w @ rest)" using Cons.prems by auto
  have e: "?cur @ replicate ?nb 92 = cur @ replicate nb 92 @ [c]" by (simp add: replicate_append_same flip: replicate_append_same)
  obtain nb' cur' where "crt_args True q ?nb ?cur (w @ rest) = crt_args (True \<or> w \<noteq> []) q nb' cur' rest"
      "cur' @ replicate nb' 92 = ?cur @ replicate ?nb 92 @ w" "(if w = [] then ?nb = 0 else last w \<noteq> 92) \<longrightarrow> nb' = 0"
    using Cons.IH [of True ?nb ?cur] Cons.prems by auto
  then show ?case using s e by (intro exI [of _ nb'] exI [of _ cur']) (auto split: if_splits)
qed auto

text \<open>What \<open>wide_cmd_line\<close> makes of an argument, and how it quotes it.\<close>

definition arg_text :: "cstr \<Rightarrow> cstr" where "arg_text s = mod_spec CC_PRINT CC_BAD_ARG 95 s"

definition in_quotes :: "cstr \<Rightarrow> cstr" where "in_quotes t = (if string_class t CC_ANY CC_SPACE then t else [34] @ t @ [34])"

definition splits_back :: "cstr \<Rightarrow> bool" where
  "splits_back s \<longleftrightarrow> is_cstr s \<and> s \<noteq> [] \<and> (32 \<in> set s \<longrightarrow> last s \<noteq> 92)"

lemma arg_chars: "char_inc_exc c CC_PRINT CC_BAD_ARG \<longleftrightarrow> 32 \<le> c \<and> c \<noteq> 127 \<and> c \<noteq> 34"
  unfolding char_inc_exc_def CC_BAD_ARG_def CC_CRLF_def class_eval by (auto simp: word_le_nat_alt)

lemma arg_text_map: "arg_text s = map (\<lambda>c. if 32 \<le> c \<and> c \<noteq> 127 \<and> c \<noteq> 34 then c else 95) s"
  unfolding arg_text_def by (induction s) (simp_all add: arg_chars)

lemma arg_text_plain: "34 \<notin> set (arg_text s)" "9 \<notin> set (arg_text s)" "is_cstr (arg_text s)"
  by (auto simp: arg_text_map is_cstr_def split: if_splits)

lemma arg_text_space: "32 \<in> set (arg_text s) \<longleftrightarrow> 32 \<in> set s"
  by (auto simp: arg_text_map image_iff split: if_splits)

lemma arg_text_last: "s \<noteq> [] \<Longrightarrow> last (arg_text s) = 92 \<longleftrightarrow> last s = 92"
  by (cases "last s = 92") (simp_all add: arg_text_map last_map)

lemma quoted_arg: "in_quotes (arg_text s) = (if 32 \<in> set s then [34] @ arg_text s @ [34] else arg_text s)"
proof -
  have c: "char_inc_exc c CC_ANY CC_SPACE \<longleftrightarrow> c \<noteq> 32" if "c \<in> set (arg_text s)" for c
  proof -
    have "32 \<le> c" using that by (auto simp: arg_text_map split: if_splits)
    then show ?thesis
      unfolding char_inc_exc_def class_eval isspace_def by (simp add: word_le_nat_alt word_unat_eq_iff)
  qed
  have "string_class (arg_text s) CC_ANY CC_SPACE \<longleftrightarrow> 32 \<notin> set (arg_text s)"
    unfolding string_class_all using c by blast
  then show ?thesis by (simp add: in_quotes_def arg_text_space)
qed

text \<open>One argument, then white space or the end.\<close>

definition parted :: "cstr \<Rightarrow> bool" where "parted rest \<longleftrightarrow> rest = [] \<or> hd rest = 32"

lemma crt_args_end: "parted rest \<Longrightarrow> crt_args True False nb cur rest = (cur @ replicate nb 92) # crt_args False False 0 [] rest"
  by (cases rest) (auto simp: parted_def)

lemma crt_args_quoted:
  assumes "splits_back s" and "parted rest"
  shows "crt_args False False 0 [] (in_quotes (arg_text s) @ rest) = arg_text s # crt_args False False 0 [] rest"
proof (cases "32 \<in> set s")
  case False
  then have w: "34 \<notin> set (arg_text s)" "False \<or> 32 \<notin> set (arg_text s) \<and> 9 \<notin> set (arg_text s)"
    using arg_text_plain arg_text_space by auto
  from crt_args_word [OF w, of False 0 "[]" rest] obtain nb' cur' where
    "crt_args False False 0 [] (arg_text s @ rest) = crt_args (False \<or> arg_text s \<noteq> []) False nb' cur' rest"
    "cur' @ replicate nb' 92 = arg_text s" by auto
  moreover have "arg_text s \<noteq> []" using assms(1) by (simp add: splits_back_def arg_text_map)
  ultimately show ?thesis using False crt_args_end [OF assms(2)] by (simp add: quoted_arg)
next
  case True
  have ne: "arg_text s \<noteq> []" "last (arg_text s) \<noteq> 92"
    using assms(1) True arg_text_last [of s] by (auto simp: splits_back_def arg_text_map)
  have w: "34 \<notin> set (arg_text s)" "True \<or> 32 \<notin> set (arg_text s) \<and> 9 \<notin> set (arg_text s)"
    using arg_text_plain by auto
  from crt_args_word [OF w, of True 0 "[]" "[34] @ rest"] ne obtain cur' where
    i: "crt_args True True 0 [] (arg_text s @ [34] @ rest) = crt_args True True 0 cur' ([34] @ rest)" "cur' = arg_text s" by auto
  have "take 1 rest \<noteq> [34]" using assms(2) by (cases rest) (auto simp: parted_def)
  then have "crt_args True True 0 cur' ([34] @ rest) = crt_args True False 0 cur' rest" by simp
  moreover have "crt_args False False 0 [] ([34] @ x) = crt_args True True 0 [] x" for x by simp
  ultimately show ?thesis using i True crt_args_end [OF assms(2), of 0 cur'] by (simp add: quoted_arg del: crt_args.simps)
qed

lemma crt_name_quoted:
  assumes "parted rest"
  shows "crt_name False [] (in_quotes (arg_text s) @ rest) = (arg_text s, drop 1 rest)"
proof -
  have e: "crt_name False cur rest = (cur, drop 1 rest)" for cur using assms by (cases rest) (auto simp: parted_def)
  show ?thesis
  proof (cases "32 \<in> set s")
    case True
    have "crt_name True [] (arg_text s @ [34] @ rest) = crt_name True (arg_text s) ([34] @ rest)"
      using crt_name_word [of "arg_text s" True "[]" "[34] @ rest"] arg_text_plain(1) by simp
    then show ?thesis using True e by (simp add: quoted_arg)
  next
    case False
    then have "crt_name False [] (arg_text s @ rest) = crt_name False (arg_text s) rest"
      using crt_name_word [of "arg_text s" False "[]" rest] arg_text_plain arg_text_space by simp
    then show ?thesis using False e by (simp add: quoted_arg)
  qed
qed

text \<open>The pieces of the line, and the line.\<close>

definition cmd_text :: "nat \<Rightarrow> cstr list \<Rightarrow> cstr" where
  "cmd_text i ss = concat (map (\<lambda>(j, s). (if j \<noteq> 0 then [32] else []) @ in_quotes (arg_text s)) (enumerate i ss))"

lemma cmd_text_simps [simp]:
  "cmd_text i [] = []"
  "cmd_text i (s # ss) = (if i \<noteq> 0 then [32] else []) @ in_quotes (arg_text s) @ cmd_text (Suc i) ss"
  by (simp_all add: cmd_text_def)

lemma cmd_text_parted: "parted (cmd_text (Suc i) ss)"
  by (cases ss) (auto simp: parted_def)

lemma cmd_text_args:
  "list_all splits_back ss \<Longrightarrow> crt_args False False 0 [] (cmd_text (Suc i) ss) = map arg_text ss"
proof (induction ss arbitrary: i)
  case (Cons s ss)
  have "crt_args False False 0 [] (cmd_text (Suc i) (s # ss)) =
      crt_args False False 0 [] (in_quotes (arg_text s) @ cmd_text (Suc (Suc i)) ss)" by simp
  also have "\<dots> = arg_text s # crt_args False False 0 [] (cmd_text (Suc (Suc i)) ss)"
    using crt_args_quoted [OF _ cmd_text_parted] Cons.prems by simp
  finally show ?case using Cons by simp
qed simp

lemma crt_args_drop: "parted rest \<Longrightarrow> crt_args False False 0 [] (drop 1 rest) = crt_args False False 0 [] rest"
  by (cases rest) (auto simp: parted_def)

lemma cmd_text_splits:
  assumes "list_all splits_back ss"
  shows "crt_split (cmd_text 0 (s # ss)) = map arg_text (s # ss)"
  using crt_name_quoted [OF cmd_text_parted, of s 0 ss] cmd_text_args [OF assms, of 0]
    crt_args_drop [OF cmd_text_parted, of 0 ss] by (simp add: crt_split_def)

end
