(* ===== verification/Win32_Execve.thy ===== *)
theory Win32_Execve
  imports Win32_Laws
begin

section \<open>The line in its buffer\<close>

text \<open>One print that fits, with its frame.\<close>

lemma print_fits:
  assumes "text_room (m, b)" and "b_data b = Ptr k 0" and "is_cstr t" and "length (content m b) + length t \<le> text_limit (m, b)"
  shows "\<exists>r b' m'. buf_printf m b (Some t) = Inr (r, b', m') \<and> text_room (m', b') \<and> content m' b' = content m b @ t \<and>
           text_limit (m', b') = text_limit (m, b) \<and> b_data b' = Ptr k 0 \<and> nxt m' = nxt m \<and> oom m' = oom m \<and>
           (\<forall>j. j \<noteq> k \<longrightarrow> blocks m' j = blocks m j)"
proof -
  obtain s where s: "buf_print (m, b) t = Some s" "text_room s" "text_limit s = text_limit (m, b)"
      "(case s of (m, b) \<Rightarrow> content m b) = take (text_limit (m, b)) (content m b @ t)"
    using sink.print_text [OF assms(1,3)] by auto
  moreover obtain m' b' where "s = (m', b')" by (cases s)
  ultimately obtain r where r: "buf_printf m b (Some t) = Inr (r, b', m')" "text_room (m', b')"
      "text_limit (m', b') = text_limit (m, b)" "content m' b' = content m b @ t"
    using assms(4) by (auto simp: buf_print_Some_iff)
  then show ?thesis using buf_printf_frame [OF r(1) assms(2)] assms(2) by auto
qed

lemma cmd_size_sum:
  "cmd_size (map Some ss) n l = Inr (n + sum_list (map (\<lambda>s. length s + 3) ss), fold (\<lambda>s. max (length s)) ss l)"
  by (induction ss arbitrary: n l) (simp_all add: max.commute)

lemma fold_max_ge: "(l :: nat) \<le> fold (\<lambda>s. max (length s)) ss l \<and> (\<forall>s \<in> set ss. length s \<le> fold (\<lambda>s. max (length s)) ss l)"
proof (induction ss arbitrary: l)
  case (Cons s ss)
  show ?case using Cons.IH [of "max (length s) l"] by auto
qed simp

lemma length_arg_text [simp]: "length (arg_text s) = length s"
  by (simp add: arg_text_map)

lemma length_quoted: "length (in_quotes (arg_text s)) \<le> length s + 2"
  by (simp add: quoted_arg)

lemma length_cmd_text: "length (cmd_text i ss) \<le> sum_list (map (\<lambda>s. length s + 3) ss)"
proof (induction ss arbitrary: i)
  case (Cons s ss)
  show ?case using Cons.IH [of "Suc i"] length_quoted [of s] by (cases "i = 0") auto
qed simp

lemma length_cmd_text_first: "0 < sum_list (map (\<lambda>s. length s + 3) ss) \<or> ss = []"
  by (cases ss) auto

text \<open>Copying an argument to the array and cleaning it there.\<close>

lemma work_cleaned:
  assumes "is_cstr s" and "length s + 1 \<le> length work"
  shows "\<exists>work' ok. string_mod (overwrite work 0 (s @ [NUL])) CC_PRINT CC_BAD_ARG 95 = Inr (work', ok) \<and>
           c_string work' = arg_text s \<and> length work' = length work"
proof -
  have o: "overwrite work 0 (s @ [NUL]) = s @ NUL # drop (length s + 1) work" by (simp add: overwrite_def)
  obtain mid where m: "string_mod (s @ NUL # drop (length s + 1) work) CC_PRINT CC_BAD_ARG 95 =
      Inr (arg_text s @ NUL # mid @ drop (length s + 1) work, list_all (\<lambda>c. char_inc_exc c CC_PRINT CC_BAD_ARG) s)"
      "length mid + length (arg_text s) = length s"
    using string_mod_loop_correct [OF assms(1), where dn = "[]" and gap = "[]" and ret = True and inc = CC_PRINT and
        exc = CC_BAD_ARG and rep = 95 and rest = "drop (length s + 1) work"]
    by (auto simp: string_mod_def arg_text_def)
  then have l: "mid = []" by simp
  have c: "c_string (arg_text s @ NUL # x) = arg_text s" for x using arg_text_plain(3) by simp
  have "length (arg_text s @ NUL # drop (length s + 1) work) = length work" using assms(2) by simp
  then show ?thesis unfolding o m(1) l append_Nil using c by blast
qed

lemma cmd_loop_prints:
  assumes "text_room (m, b)" and "b_data b = Ptr k 0" and "list_all is_cstr ss" and "\<forall>s \<in> set ss. length s + 1 \<le> length work"
    and "length (content m b) + length (cmd_text i ss) \<le> text_limit (m, b)"
  shows "\<exists>b' m'. cmd_loop m b work i (map Some ss) = Inr (b', m') \<and> text_room (m', b') \<and>
           content m' b' = content m b @ cmd_text i ss \<and> b_data b' = Ptr k 0 \<and> nxt m' = nxt m \<and> oom m' = oom m \<and>
           (\<forall>j. j \<noteq> k \<longrightarrow> blocks m' j = blocks m j)"
  using assms
proof (induction ss arbitrary: m b work i)
  case (Cons s ss)
  have sc: "is_cstr s" "length s + 1 \<le> length work" using Cons.prems(3,4) by auto
  obtain work' ok where w: "string_mod (overwrite work 0 (s @ [NUL])) CC_PRINT CC_BAD_ARG 95 = Inr (work', ok)"
      "c_string work' = arg_text s" "length work' = length work" using work_cleaned [OF sc] by blast
  let ?sep = "if i \<noteq> 0 then [32] else [] :: cstr"
  obtain r1 b1 m1 where s1: "(if i \<noteq> 0 then buf_printf m b (Some (asc '' '')) else Inr (True, b, m)) = Inr (r1, b1, m1)"
      "text_room (m1, b1)" "content m1 b1 = content m b @ ?sep" "text_limit (m1, b1) = text_limit (m, b)" "b_data b1 = Ptr k 0"
      "nxt m1 = nxt m" "oom m1 = oom m" "\<forall>j. j \<noteq> k \<longrightarrow> blocks m1 j = blocks m j"
  proof (cases "i = 0")
    case True
    then show thesis using that [of True b m] Cons.prems(1,2) by simp
  next
    case False
    have "is_cstr (asc '' '')" "length (content m b) + length (asc '' '') \<le> text_limit (m, b)" using Cons.prems(5) False by simp_all
    from print_fits [OF Cons.prems(1,2) this] show thesis using that False by auto
  qed
  have q: "is_cstr (in_quotes (arg_text s))" using arg_text_plain(3) by (auto simp: in_quotes_def is_cstr_def)
  have "length (content m1 b1) + length (in_quotes (arg_text s)) \<le> text_limit (m1, b1)" using Cons.prems(5) s1(3,4) by auto
  from print_fits [OF s1(2,5) q this] obtain r2 b2 m2 where s2: "buf_printf m1 b1 (Some (in_quotes (arg_text s))) = Inr (r2, b2, m2)"
      "text_room (m2, b2)" "content m2 b2 = content m1 b1 @ in_quotes (arg_text s)" "text_limit (m2, b2) = text_limit (m1, b1)"
      "b_data b2 = Ptr k 0" "nxt m2 = nxt m1" "oom m2 = oom m1" "\<forall>j. j \<noteq> k \<longrightarrow> blocks m2 j = blocks m1 j" by blast
  have st: "cmd_loop m b work i (map Some (s # ss)) = cmd_loop m2 b2 work' (i + 1) (map Some ss)"
  proof -
    have "(if string_class (arg_text s) CC_ANY CC_SPACE then buf_printf m1 b1 (Some (arg_text s))
        else buf_printf m1 b1 (Some ([34] @ arg_text s @ [34]))) = Inr (r2, b2, m2)" using s2(1) by (simp add: in_quotes_def split: if_splits)
    then show ?thesis unfolding list.map cmd_loop.simps Let_def
      by (simp only: sc(2) if_True w(1,2) bindE_simps prod.case s1(1))
  qed
  have "\<forall>s \<in> set ss. length s + 1 \<le> length work'" "list_all is_cstr ss"
      "length (content m2 b2) + length (cmd_text (i + 1) ss) \<le> text_limit (m2, b2)"
    using Cons.prems(3-5) w(3) s1(3,4) s2(3,4) by auto
  from Cons.IH [OF s2(2,5) this(2,1,3)] show ?case unfolding st using s1 s2 by (auto split: if_splits)
qed auto

lemma wide_cmd_line_text:
  assumes "\<forall>j. \<not> oom m j" and "mem_ok m" and "list_all is_cstr ss" and "ss \<noteq> []" and "take (a_argc v) (a_argv v) = map Some ss"
    and "sum_list (map (\<lambda>s. length s + 3) ss) + 1 < 1000000"
  shows "\<exists>m'. wide_cmd_line widen m (Some v) (Some gc_new) =
            Inr (Some (widen (cmd_text 0 ss)), m', Some (gc_new\<lparr>gc_list := [Suc (nxt m), nxt m]\<rparr>)) \<and>
          blocks m' (nxt m) \<noteq> None \<and> blocks m' (Suc (nxt m)) \<noteq> None \<and> (\<forall>j. j < nxt m \<longrightarrow> blocks m' j = blocks m j) \<and>
          (\<forall>j. j > Suc (nxt m) \<longrightarrow> blocks m' j = None)"
proof -
  let ?n = "1 + sum_list (map (\<lambda>s. length s + 3) ss)" and ?l = "fold (\<lambda>s. max (length s)) ss 0"
  let ?b = "\<lparr>b_capacity = int ?n, b_offset = 0, b_len = 0, b_data = Ptr (Suc (nxt m)) 0\<rparr>"
  have sz: "cmd_size (map Some ss) 1 0 = Inr (?n, ?l)" by (rule cmd_size_sum)
  have c: "check_malloc_return (Ptr (nxt m) 0) = Inr ()" by (simp add: check_malloc_return_def)
  obtain m1 a1 where m1: "gc_malloc m (?l + 1) False (Some gc_new) = Inr (Ptr (nxt m) 0, m1, a1)"
      "blocks m1 = (blocks m)(nxt m \<mapsto> map (junk m (nxt m)) [0..<?l + 1])" "nxt m1 = Suc (nxt m)" "oom m1 = oom m"
      "a1 = Some (gc_new\<lparr>gc_list := [nxt m]\<rparr>)"
    using gc_malloc_fresh [of m "?l + 1" "Some gc_new"] assms(1) by (auto simp: gc_new_def)
  have n: "\<not> oom m1 (nxt m1)" "int ?n < BUF_SIZE_MAX" using assms(1,6) m1(4) by (simp_all add: BUF_SIZE_MAX_def)
  obtain m2 a2 where m2: "alloc_buf_gc m1 ?n a1 = Inr (?b, m2, a2)" "buf_inv m2 ?b" "content m2 ?b = []" "nxt m2 = Suc (nxt m1)"
      "\<forall>k. k \<noteq> nxt m1 \<longrightarrow> blocks m2 k = blocks m1 k" "a2 = map_option (\<lambda>ar. ar\<lparr>gc_list := nxt m1 # gc_list ar\<rparr>) a1"
      "text_room (m2, ?b)" "text_limit (m2, ?b) = ?n - 1"
    using alloc_buf_gc_fresh [OF n, of a1] m1(3) by auto
  have fits: "length (content m2 ?b) + length (cmd_text 0 ss) \<le> text_limit (m2, ?b)" using m2(3,8) length_cmd_text [of 0 ss] by simp
  have lens: "\<forall>s \<in> set ss. length s + 1 \<le> length (replicate (?l + 1) (0 :: byte))" using fold_max_ge [of 0 ss] by auto
  have d: "b_data ?b = Ptr (Suc (nxt m)) 0" by simp
  obtain b3 m3 where m3: "cmd_loop m2 ?b (replicate (?l + 1) 0) 0 (map Some ss) = Inr (b3, m3)" "text_room (m3, b3)"
      "content m3 b3 = cmd_text 0 ss" "\<forall>j. j \<noteq> Suc (nxt m) \<longrightarrow> blocks m3 j = blocks m2 j" "b_data b3 = Ptr (Suc (nxt m)) 0"
    using cmd_loop_prints [OF m2(7) d assms(3) lens fits] m2(3) by auto
  have r: "read_cstr m3 (buf_bptr b3) = Inr (cmd_text 0 ss)" using text_room_string [OF m3(2)] m3(3) by simp
  have "blocks m3 (Suc (nxt m)) \<noteq> None"
    using m3(2,5) by (auto simp: text_room_def buf_inv_def room_at_def split: option.splits)
  moreover have "wide_cmd_line widen m (Some v) (Some gc_new) = Inr (Some (widen (cmd_text 0 ss)), m3, a2)"
    unfolding wide_cmd_line_def option.case
    by (simp only: assms(5) sz bindE_simps prod.case m1(1) c m2(1) m3(1) r)
  ultimately show ?thesis using m1 m2(4-6) m3(4) assms(2) by (auto simp: mem_ok_def)
qed

section \<open>Properties of processes\<close>

text \<open>
  C29: A process is started only if the script security allows it, and then it sees what was asked for: the
  rule of the C runtime splits its command line into the arguments, in which quotes, line ends and other
  unprintable bytes have become underscores, and its environment block reads as the allowed variables, with
  a search path of the system if there was none. The arguments behind the program name must not be empty, and one with a
  space must not end in a backslash. The exit code is returned, and no memory is left behind.
\<close>

theorem execve_process_sees:
  assumes "\<forall>j. \<not> oom m j" and "mem_ok m" and "take (a_argc v) (a_argv v) = map Some (s # ss)" and "is_cstr s"
    and "list_all splits_back ss" and "sum_list (map (\<lambda>s. length s + 3) (s # ss)) + 1 < 1000000"
    and "list_all (\<lambda>s. is_cstr s \<and> s \<noteq> []) (es_list es)"
  shows "\<exists>cl env m2 bs m4. openvpn_execve EXECVE_ERROR EXECVE_NOT_ALLOWED widen m pw (Some root) allowed outcome (Some v) (Some es) =
            (if allowed then Inr (case outcome of Some (Some status) \<Rightarrow> status | _ \<Rightarrow> EXECVE_ERROR,
                                  Some (Started (widen s) (Some (widen cl)) (Ptr env 0), m2), m4)
             else Inr (EXECVE_NOT_ALLOWED, None, m)) \<and>
          crt_split cl = map arg_text (s # ss) \<and> blocks m2 env = Some bs \<and>
          block_strings bs [] = child_env pw root (es_list es) \<and> blocks m4 = blocks m"
proof -
  let ?k = "nxt m" and ?cl = "cmd_text 0 (s # ss)"
  obtain m1 bs where e: "env_block m pw (Some root) (Some es) = Inr (Ptr ?k 0, m1)" "blocks m1 ?k = Some bs"
      "block_strings bs [] = child_env pw root (es_list es)" "nxt m1 = Suc ?k" "oom m1 = oom m" "mem_ok m1"
      "\<forall>j. j \<noteq> ?k \<longrightarrow> blocks m1 j = blocks m j"
    using env_block_reads [OF _ assms(2,7)] assms(1) by blast
  have sc: "list_all is_cstr (s # ss)" using assms(4,5) by (auto simp: list_all_iff splits_back_def)
  let ?ar = "gc_new\<lparr>gc_list := [Suc (Suc ?k), Suc ?k]\<rparr>"
  obtain m2 where w: "wide_cmd_line widen m1 (Some v) (Some gc_new) = Inr (Some (widen ?cl), m2, Some ?ar)"
      "blocks m2 (Suc ?k) \<noteq> None" "blocks m2 (Suc (Suc ?k)) \<noteq> None" "\<forall>j. j < Suc ?k \<longrightarrow> blocks m2 j = blocks m1 j"
      "\<forall>j. j > Suc (Suc ?k) \<longrightarrow> blocks m2 j = None"
    using wide_cmd_line_text [OF _ e(6) sc _ assms(3,6), of widen] assms(1) e(4,5) by auto
  let ?m3 = "m2\<lparr>blocks := (blocks m2)(?k := None)\<rparr>"
  have f: "c_free m2 (Ptr ?k 0) = Inr ?m3" using w(4) e(2) by (simp add: c_free_def)
  have g: "gc_inv ?m3 ?ar" using w(2,3) by (simp add: gc_inv_def)
  obtain m4 where m4: "gc_free ?m3 ?ar = Inr (m4, gc_init ?ar, map (\<lambda>e. (free_fnc e, addr e)) (list_special ?ar))"
      "blocks m4 = (\<lambda>k. if k \<in> set (gc_list ?ar) then None else blocks ?m3 k)" using gc_free_ok [OF g] by blast
  have freed: "blocks m4 = blocks m"
  proof
    fix j
    consider "j < ?k" | "j = ?k" | "j > ?k" by linarith
    then show "blocks m4 j = blocks m j"
    proof cases
      case 1
      then show ?thesis using m4(2) w(4) e(7) by simp
    next
      case 2
      then show ?thesis using m4(2) assms(2) by (simp add: mem_ok_def)
    next
      case 3
      then show ?thesis using m4(2) w(5) assms(2) by (simp add: mem_ok_def)
    qed
  qed
  obtain rest where a: "a_argv v = Some s # rest" using assms(3) by (cases "a_argv v"; cases "a_argc v") auto
  have "openvpn_execve EXECVE_ERROR EXECVE_NOT_ALLOWED widen m pw (Some root) allowed outcome (Some v) (Some es) =
            (if allowed then Inr (case outcome of Some (Some status) \<Rightarrow> status | _ \<Rightarrow> EXECVE_ERROR,
                                  Some (Started (widen s) (Some (widen ?cl)) (Ptr ?k 0), m2), m4)
             else Inr (EXECVE_NOT_ALLOWED, None, m))"
    unfolding openvpn_execve_def option.case a list.case Let_def
    by (simp add: e(1) w(1) f m4(1) del: cmd_text_simps)
  then show ?thesis using cmd_text_splits [OF assms(5), of s] w(4) e(2,3) freed
    by (intro exI [of _ ?cl] exI [of _ ?k] exI [of _ m2] exI [of _ bs] exI [of _ m4] conjI) simp_all
qed

theorem execve_process_sees_witness:
  "\<exists>cl env m2 bs m4. openvpn_execve (- 1) (- 2) id empty_mem False (Some (asc ''C'')) True (Some (Some 7))
       (Some \<lparr>a_capacity = 2, a_argc = 2, a_argv = [Some (asc ''x''), Some (asc ''a b'')]\<rparr>)
       (Some \<lparr>es_gc = False, es_list = [asc ''k=v'']\<rparr>) = Inr (7, Some (Started (asc ''x'') (Some cl) (Ptr env 0), m2), m4) \<and>
     crt_split cl = [asc ''x'', asc ''a b''] \<and> blocks m2 env = Some bs \<and>
     block_strings bs [] = child_env False (asc ''C'') [asc ''k=v''] \<and> blocks m4 = blocks empty_mem"
proof -
  let ?v = "\<lparr>a_capacity = 2, a_argc = 2, a_argv = [Some (asc ''x''), Some (asc ''a b'')]\<rparr>"
  have t: "arg_text (asc ''x'') = asc ''x''" "arg_text (asc ''a b'') = asc ''a b''" by (simp_all add: arg_text_map)
  have m: "\<forall>j. \<not> oom empty_mem j" "mem_ok empty_mem" by (simp_all add: empty_mem_def mem_ok_def)
  have a: "take (a_argc ?v) (a_argv ?v) = map Some [asc ''x'', asc ''a b'']" "is_cstr (asc ''x'')" "list_all splits_back [asc ''a b'']"
    by (simp_all add: splits_back_def)
  have l: "sum_list (map (\<lambda>s. length s + 3) [asc ''x'', asc ''a b'']) + 1 < 1000000" by simp
  have e: "list_all (\<lambda>s. is_cstr s \<and> s \<noteq> []) (es_list \<lparr>es_gc = False, es_list = [asc ''k=v'']\<rparr>)" by simp
  show ?thesis
    using execve_process_sees [OF m a l e, of "- 1" "- 2" id False "asc ''C''" True "Some (Some 7)"]
    by (simp only: t if_True id_apply list.map env_set.simps option.case)
qed

end
