(* ===== verification/Win32_Semaphore.thy ===== *)
theory Win32_Semaphore
  imports Win32_Events "HOL-Library.Sublist"
begin

section \<open>The semaphore around network commands\<close>

text \<open>
  Calls of the system on a semaphore. A process is one of several: the calls of all of them are one trace.
\<close>

datatype sem_call = Create_Sem | Wait_Sem bool | Release_Sem bool | Close_Sem | Exit_Process

text \<open>\<open>sem_hand\<close> tells whether the handle is not NULL.\<close>

record semaphore =
  sem_name :: "cstr option"
  sem_locked :: bool
  sem_hand :: bool

definition semaphore_clear :: semaphore where
  "semaphore_clear = \<lparr>sem_name = None, sem_locked = False, sem_hand = False\<rparr>"

text \<open>\<open>attr\<close> and \<open>created\<close> are the results of the two calls of the system.\<close>

definition semaphore_open :: "bool \<Rightarrow> bool \<Rightarrow> cstr \<Rightarrow> semaphore \<Rightarrow> semaphore \<times> sem_call list" where
  "semaphore_open attr created name s =
     (let s1 = s\<lparr>sem_locked := False, sem_name := Some name, sem_hand := False\<rparr>
      in if attr \<and> created then (s1\<lparr>sem_hand := True\<rparr>, [Create_Sem]) else (s1, []))"

datatype wait_result = WAIT_OBJECT_0 | WAIT_TIMEOUT | WAIT_FAILED

definition semaphore_lock :: "wait_result \<Rightarrow> semaphore \<Rightarrow> (fault + bool \<times> semaphore) \<times> sem_call list" where
  "semaphore_lock status s =
     (if sem_hand s
      then if sem_locked s then (Inl AssertFail, [])
           else if status = WAIT_FAILED then (Inl Fatal, [])
           else let ret = (if status = WAIT_TIMEOUT then False else True)
                in (Inr (ret, if ret then s\<lparr>sem_locked := True\<rparr> else s), [Wait_Sem ret])
      else (Inr (True, s), []))"

text \<open>\<open>ok\<close> tells whether \<open>ReleaseSemaphore\<close> succeeds; a failure is only a warning.\<close>

definition semaphore_release :: "bool \<Rightarrow> semaphore \<Rightarrow> (fault + semaphore) \<times> sem_call list" where
  "semaphore_release ok s =
     (if sem_hand s
      then if sem_locked s then (Inr (s\<lparr>sem_locked := False\<rparr>), [Release_Sem ok]) else (Inl AssertFail, [])
      else (Inr s, []))"

definition semaphore_close :: "bool \<Rightarrow> semaphore \<Rightarrow> (fault + semaphore) \<times> sem_call list" where
  "semaphore_close ok s =
     (if sem_hand s
      then case (if sem_locked s then semaphore_release ok s else (Inr s, [])) of
             (Inl f, cs) \<Rightarrow> (Inl f, cs)
           | (Inr s1, cs) \<Rightarrow> (Inr (s1\<lparr>sem_hand := False\<rparr>), cs @ [Close_Sem])
      else (Inr s, []))"

definition netcmd_semaphore_init :: "bool \<Rightarrow> bool \<Rightarrow> semaphore \<Rightarrow> semaphore \<times> sem_call list" where
  "netcmd_semaphore_init attr created s = semaphore_open attr created (asc ''NetShare_netcmd'') s"

definition netcmd_semaphore_close :: "bool \<Rightarrow> semaphore \<Rightarrow> (fault + semaphore) \<times> sem_call list" where
  "netcmd_semaphore_close ok s = semaphore_close ok s"

definition netcmd_semaphore_lock ::
  "bool \<Rightarrow> bool \<Rightarrow> wait_result \<Rightarrow> semaphore \<Rightarrow> (fault + semaphore) \<times> sem_call list" where
  "netcmd_semaphore_lock attr created status s =
     (let (s1, cs1) = (if \<not> sem_hand s then netcmd_semaphore_init attr created s else (s, []))
      in case semaphore_lock status s1 of
           (Inl f, cs2) \<Rightarrow> (Inl f, cs1 @ cs2)
         | (Inr (ret, s2), cs2) \<Rightarrow> (if \<not> ret then Inl Fatal else Inr s2, cs1 @ cs2))"

definition netcmd_semaphore_release :: "bool \<Rightarrow> semaphore \<Rightarrow> (fault + semaphore) \<times> sem_call list" where
  "netcmd_semaphore_release ok s =
     (case semaphore_release ok s of
        (Inl f, cs1) \<Rightarrow> (Inl f, cs1)
      | (Inr s1, cs1) \<Rightarrow> (case semaphore_close ok s1 of (r, cs2) \<Rightarrow> (r, cs1 @ cs2)))"

section \<open>What a process does\<close>

text \<open>An operation of a process with the answers of the system.\<close>

datatype sem_op = Netcmd_Lock bool bool wait_result | Netcmd_Release bool | Netcmd_Close bool

fun sem_exec :: "sem_op \<Rightarrow> semaphore \<Rightarrow> (fault + semaphore) \<times> sem_call list" where
  "sem_exec (Netcmd_Lock attr created status) s = netcmd_semaphore_lock attr created status s"
| "sem_exec (Netcmd_Release ok) s = netcmd_semaphore_release ok s"
| "sem_exec (Netcmd_Close ok) s = netcmd_semaphore_close ok s"

fun sem_run :: "sem_op list \<Rightarrow> semaphore \<Rightarrow> (fault + semaphore) \<times> sem_call list" where
  "sem_run [] s = (Inr s, [])"
| "sem_run (x # xs) s =
     (case sem_exec x s of
        (Inl f, cs1) \<Rightarrow> (Inl f, cs1)
      | (Inr s1, cs1) \<Rightarrow> (case sem_run xs s1 of (r, cs2) \<Rightarrow> (r, cs1 @ cs2)))"

text \<open>All its calls. A process that fails ends, and the system closes its handle.\<close>

definition proc_calls :: "sem_op list \<Rightarrow> sem_call list" where
  "proc_calls xs = (case sem_run xs semaphore_clear of (Inl f, cs) \<Rightarrow> cs @ [Exit_Process] | (Inr s, cs) \<Rightarrow> cs)"

text \<open>
  The life of the handle: it is not open, it is open, or the semaphore is held through it. \<open>None\<close> is a call
  out of order.
\<close>

datatype hold = Shut | Opened | Held

fun hold_step :: "hold \<Rightarrow> sem_call \<Rightarrow> hold option" where
  "hold_step h Exit_Process = Some Shut"
| "hold_step Shut Create_Sem = Some Opened"
| "hold_step Opened (Wait_Sem got) = Some (if got then Held else Opened)"
| "hold_step Held (Release_Sem ok) = Some Opened"
| "hold_step Opened Close_Sem = Some Shut"
| "hold_step h c = None"

fun hold_after :: "hold \<Rightarrow> sem_call list \<Rightarrow> hold option" where
  "hold_after h [] = Some h"
| "hold_after h (c # cs) = Option.bind (hold_step h c) (\<lambda>h'. hold_after h' cs)"

definition hold_of :: "semaphore \<Rightarrow> hold" where
  "hold_of s = (if \<not> sem_hand s then Shut else if sem_locked s then Held else Opened)"

definition sem_inv :: "semaphore \<Rightarrow> bool" where "sem_inv s \<longleftrightarrow> (sem_locked s \<longrightarrow> sem_hand s)"

lemma hold_after_append: "hold_after h (as @ bs) = Option.bind (hold_after h as) (\<lambda>h'. hold_after h' bs)"
  by (induction as arbitrary: h) (simp_all add: Option.bind_assoc)

lemmas sem_defs = netcmd_semaphore_lock_def netcmd_semaphore_release_def netcmd_semaphore_close_def netcmd_semaphore_init_def
  semaphore_open_def semaphore_lock_def semaphore_release_def semaphore_close_def hold_of_def sem_inv_def Let_def

lemma sem_exec_hold:
  "sem_inv s \<Longrightarrow> sem_exec x s = (r, cs) \<Longrightarrow>
     \<exists>h. hold_after (hold_of s) cs = Some h \<and> (case r of Inr s' \<Rightarrow> sem_inv s' \<and> h = hold_of s' | Inl f \<Rightarrow> True)"
  by (cases x; cases "sem_hand s"; cases "sem_locked s") (auto simp: sem_defs split: if_splits)

lemma sem_run_hold:
  "sem_inv s \<Longrightarrow> sem_run xs s = (r, cs) \<Longrightarrow>
     \<exists>h. hold_after (hold_of s) cs = Some h \<and> (case r of Inr s' \<Rightarrow> sem_inv s' \<and> h = hold_of s' | Inl f \<Rightarrow> True)"
proof (induction xs arbitrary: s cs r)
  case (Cons x xs)
  obtain r1 cs1 where s1: "sem_exec x s = (r1, cs1)" by (cases "sem_exec x s")
  obtain h1 where h1: "hold_after (hold_of s) cs1 = Some h1" "case r1 of Inr s' \<Rightarrow> sem_inv s' \<and> h1 = hold_of s' | Inl f \<Rightarrow> True"
    using sem_exec_hold [OF Cons.prems(1) s1] by blast
  show ?case
  proof (cases r1)
    case (Inl f)
    then show ?thesis using Cons.prems(2) s1 h1 by auto
  next
    case (Inr s')
    obtain r2 cs2 where s2: "sem_run xs s' = (r2, cs2)" by (cases "sem_run xs s'")
    from Inr h1(2) have "sem_inv s'" "h1 = hold_of s'" by simp_all
    from Cons.IH [OF this(1) s2] this(2) show ?thesis
      using Cons.prems(2) s1 s2 Inr h1(1) by (auto simp: hold_after_append)
  qed
qed (simp add: hold_of_def)

section \<open>Mutual exclusion\<close>

text \<open>
  What the system promises of a trace of calls. It keeps the processes with an open handle and the count. The
  first to create the object sets its count to one, a wait succeeds only with a positive count, which it takes down,
  and the count does not grow beyond one. Without an open handle there is no object.
\<close>

fun system_step :: "nat set \<times> nat \<Rightarrow> nat \<times> sem_call \<Rightarrow> (nat set \<times> nat) option" where
  "system_step (ps, n) (p, Create_Sem) = Some (insert p ps, if ps = {} then 1 else n)"
| "system_step (ps, n) (p, Wait_Sem got) = (if got then if n > 0 then Some (ps, n - 1) else None else Some (ps, n))"
| "system_step (ps, n) (p, Release_Sem ok) = (if ok then if n < 1 then Some (ps, n + 1) else None else Some (ps, n))"
| "system_step (ps, n) (p, Close_Sem) = Some (ps - {p}, n)"
| "system_step (ps, n) (p, Exit_Process) = Some (ps - {p}, n)"

fun system_run :: "nat set \<times> nat \<Rightarrow> (nat \<times> sem_call) list \<Rightarrow> (nat set \<times> nat) option" where
  "system_run st [] = Some st"
| "system_run st (c # t) = Option.bind (system_step st c) (\<lambda>st'. system_run st' t)"

definition proj :: "nat \<Rightarrow> (nat \<times> sem_call) list \<Rightarrow> sem_call list" where
  "proj p t = map snd (filter (\<lambda>c. fst c = p) t)"

definition excl :: "nat set \<times> nat \<Rightarrow> (nat \<Rightarrow> hold) \<Rightarrow> bool" where
  "excl st h \<longleftrightarrow> (\<forall>p. h p \<noteq> Shut \<longleftrightarrow> p \<in> fst st) \<and> (\<forall>p. h p = Held \<longrightarrow> snd st = 0) \<and> (\<forall>p q. h p = Held \<and> h q = Held \<longrightarrow> p = q) \<and> snd st \<le> 1"

lemma excl_step:
  assumes "excl st h" and "system_step st (p, c) = Some st'" and "hold_step (h p) c = Some k"
  shows "excl st' (h(p := k))"
proof -
  obtain ps n where st: "st = (ps, n)" by (cases st)
  show ?thesis
    using assms unfolding st excl_def by (cases c; cases "h p") (auto split: if_splits)
qed

lemma excl_run:
  "excl st h \<Longrightarrow> system_run st t = Some st' \<Longrightarrow> \<forall>p. hold_after (h p) (proj p t) = Some (k p) \<Longrightarrow> excl st' k"
proof (induction t arbitrary: st h)
  case Nil
  then have "k = h" by (auto simp: proj_def)
  then show ?case using Nil by simp
next
  case (Cons c t)
  obtain p a where c: "c = (p, a)" by (cases c)
  from Cons.prems(2) obtain st1 where s: "system_step st (p, a) = Some st1" "system_run st1 t = Some st'"
    by (auto simp: c bind_eq_Some_conv)
  have "hold_after (h p) (a # proj p t) = Some (k p)" using spec [OF Cons.prems(3), of p] by (simp add: c proj_def)
  then obtain h1 where h1: "hold_step (h p) a = Some h1" "hold_after h1 (proj p t) = Some (k p)" by (auto simp: bind_eq_Some_conv)
  have "\<forall>q. hold_after ((h(p := h1)) q) (proj q t) = Some (k q)"
  proof
    fix q
    show "hold_after ((h(p := h1)) q) (proj q t) = Some (k q)"
      using h1(2) spec [OF Cons.prems(3), of q] by (cases "q = p") (auto simp: c proj_def)
  qed
  from Cons.IH [OF excl_step [OF Cons.prems(1) s(1) h1(1)] s(2) this] show ?case .
qed

lemma hold_after_prefix: "hold_after h (as @ bs) \<noteq> None \<Longrightarrow> hold_after h as \<noteq> None"
  by (cases "hold_after h as") (simp_all add: hold_after_append)

lemma proc_calls_hold: "hold_after Shut (proc_calls xs) \<noteq> None"
proof -
  have i: "sem_inv semaphore_clear" "hold_of semaphore_clear = Shut" by (simp_all add: sem_inv_def hold_of_def semaphore_clear_def)
  obtain r cs where r: "sem_run xs semaphore_clear = (r, cs)" by (cases "sem_run xs semaphore_clear")
  show ?thesis using sem_run_hold [OF i(1) r] by (auto simp: proc_calls_def r i(2) hold_after_append split: sum.splits)
qed

text \<open>
  The processes that may run a network command when their calls are those of the trace: the last thing they have
  done is a \<open>netcmd_semaphore_lock\<close> that has returned.
\<close>

definition in_command :: "(nat \<Rightarrow> sem_op list) \<Rightarrow> (nat \<times> sem_call) list \<Rightarrow> nat set" where
  "in_command runs t =
     {p. \<exists>xs attr created status s. prefix (xs @ [Netcmd_Lock attr created status]) (runs p) \<and>
           sem_run (xs @ [Netcmd_Lock attr created status]) semaphore_clear = (Inr s, proj p t)}"

text \<open>The two calls that create the semaphore do not fail.\<close>

fun sem_created :: "sem_op \<Rightarrow> bool" where
  "sem_created (Netcmd_Lock attr created status) \<longleftrightarrow> attr \<and> created"
| "sem_created _ \<longleftrightarrow> True"

lemma sem_run_snoc:
  "sem_run (xs @ [x]) s = (Inr s', cs) \<Longrightarrow>
     \<exists>s1 cs1 cs2. sem_run xs s = (Inr s1, cs1) \<and> sem_exec x s1 = (Inr s', cs2)"
proof (induction xs arbitrary: s cs)
  case Nil
  then show ?case by (auto split: prod.splits sum.splits)
next
  case (Cons y ys)
  obtain r1 cs1 where s1: "sem_exec y s = (r1, cs1)" by (cases "sem_exec y s")
  then obtain s2 where r1: "r1 = Inr s2" using Cons.prems by (cases r1) auto
  obtain r2 cs2 where s3: "sem_run (ys @ [x]) s2 = (r2, cs2)" by (cases "sem_run (ys @ [x]) s2")
  then have "sem_run (ys @ [x]) s2 = (Inr s', cs2)" using Cons.prems s1 r1 by simp
  from Cons.IH [OF this] show ?case using s1 r1 by (auto split: prod.splits)
qed

lemma lock_returned_locked:
  "netcmd_semaphore_lock True True status s = (Inr s', cs) \<Longrightarrow> sem_locked s'"
  by (cases "sem_hand s"; cases "sem_locked s"; cases status) (auto simp: sem_defs split: if_splits)

lemma in_command_locked:
  assumes "p \<in> in_command runs t" and "list_all sem_created (runs p)"
  shows "\<exists>xs s. sem_run xs semaphore_clear = (Inr s, proj p t) \<and> sem_locked s"
proof -
  obtain xs attr created status s where x: "prefix (xs @ [Netcmd_Lock attr created status]) (runs p)"
      "sem_run (xs @ [Netcmd_Lock attr created status]) semaphore_clear = (Inr s, proj p t)"
    using assms(1) by (auto simp: in_command_def)
  then have "attr \<and> created" using assms(2) by (auto simp: prefix_def)
  moreover obtain s1 cs2 where "sem_exec (Netcmd_Lock attr created status) s1 = (Inr s, cs2)"
    using sem_run_snoc [OF x(2)] by blast
  ultimately have "sem_locked s" using lock_returned_locked by simp
  then show ?thesis using x(2) by blast
qed

text \<open>
  C30: Network commands do not run at the same time, as long as the semaphore can be created. Any number of processes
  take and release the semaphore in any order, their calls of the system are mixed in any way, some may still wait and
  others may have died: at most one of them is behind a \<open>netcmd_semaphore_lock\<close> that has returned and not yet in
  its next operation on the semaphore. This rests on what the system promises of a semaphore with count one, and on
  the success of the two calls that create it: if one fails, the lock returns without a semaphore.
\<close>

theorem netcmd_mutual_exclusion:
  assumes "\<forall>p. prefix (proj p t) (proc_calls (runs p))" and "system_run ({}, 0) t \<noteq> None"
    and "\<forall>p. list_all sem_created (runs p)"
  shows "\<exists>p. in_command runs t \<subseteq> {p}"
proof -
  have "\<exists>k. hold_after Shut (proj r t) = Some k" for r
    using assms(1) hold_after_prefix proc_calls_hold [of "runs r"] by (metis not_None_eq prefix_def)
  then obtain k where k: "\<forall>r. hold_after ((\<lambda>_. Shut) r) (proj r t) = Some (k r)" by metis
  obtain st where st: "system_run ({}, 0) t = Some st" using assms(2) by blast
  have e: "excl st k" by (rule excl_run [OF _ st k]) (simp add: excl_def)
  have i: "sem_inv semaphore_clear" "hold_of semaphore_clear = Shut" by (simp_all add: sem_inv_def hold_of_def semaphore_clear_def)
  have held: "k r = Held" if r: "r \<in> in_command runs t" for r
  proof -
    obtain xs u where x: "sem_run xs semaphore_clear = (Inr u, proj r t)" "sem_locked u"
      using in_command_locked [OF r] assms(3) by blast
    then show ?thesis using sem_run_hold [OF i(1) x(1), unfolded i(2)] spec [OF k, of r] by (auto simp: hold_of_def sem_inv_def)
  qed
  have "p = q" if "p \<in> in_command runs t" "q \<in> in_command runs t" for p q
    using e held [OF that(1)] held [OF that(2)] unfolding excl_def by blast
  then show ?thesis by blast
qed

text \<open>Process 0 has the lock, process 1 waits for it in vain and dies, process 2 has done nothing.\<close>

definition example_runs :: "nat \<Rightarrow> sem_op list" where
  "example_runs p = (if p = 0 then [Netcmd_Lock True True WAIT_OBJECT_0] else if p = 1 then [Netcmd_Lock True True WAIT_TIMEOUT] else [])"

definition example_trace :: "(nat \<times> sem_call) list" where
  "example_trace = [(0, Create_Sem), (1, Create_Sem), (0, Wait_Sem True), (1, Wait_Sem False), (1, Exit_Process)]"

lemma example_in_command: "0 \<in> in_command example_runs example_trace"
proof -
  have "sem_run ([] @ [Netcmd_Lock True True WAIT_OBJECT_0]) semaphore_clear =
      (Inr \<lparr>sem_name = Some (asc ''NetShare_netcmd''), sem_locked = True, sem_hand = True\<rparr>, proj 0 example_trace)"
    by (simp add: example_trace_def proj_def sem_defs semaphore_clear_def)
  moreover have "prefix ([] @ [Netcmd_Lock True True WAIT_OBJECT_0]) (example_runs 0)" by (simp add: example_runs_def)
  ultimately show ?thesis unfolding in_command_def by blast
qed

theorem netcmd_mutual_exclusion_witness:
  "\<exists>p. in_command example_runs example_trace \<subseteq> {p} \<and> 0 \<in> in_command example_runs example_trace"
proof -
  have r: "\<forall>p. prefix (proj p example_trace) (proc_calls (example_runs p))"
    by (simp add: proc_calls_def example_runs_def example_trace_def proj_def sem_defs semaphore_clear_def)
  have t: "system_run ({}, 0) example_trace \<noteq> None" by (simp add: example_trace_def)
  have c: "\<forall>p. list_all sem_created (example_runs p)" by (simp add: example_runs_def)
  show ?thesis using netcmd_mutual_exclusion [OF r t c] example_in_command by blast
qed

text \<open>Without the semaphore the lock protects nothing: every process gets through.\<close>

lemma netcmd_unprotected: "p \<in> in_command (\<lambda>_. [Netcmd_Lock attr False status]) []"
proof -
  have "sem_run ([] @ [Netcmd_Lock attr False status]) semaphore_clear =
      (Inr \<lparr>sem_name = Some (asc ''NetShare_netcmd''), sem_locked = False, sem_hand = False\<rparr>, proj p [])"
    by (simp add: proj_def sem_defs semaphore_clear_def)
  moreover have "prefix ([] @ [Netcmd_Lock attr False status]) [Netcmd_Lock attr False status]" by simp
  ultimately show ?thesis unfolding in_command_def by blast
qed

end
