(* ===== verification/Win32_Console.thy ===== *)
theory Win32_Console
  imports Win32_Events Win32_Exec
begin

section \<open>The window title\<close>

record window_title =
  wt_saved :: bool
  old_window_title :: cstr

definition window_title_clear :: window_title where "window_title_clear = \<lparr>wt_saved = False, old_window_title = []\<rparr>"

text \<open>\<open>title\<close> is what \<open>GetConsoleTitle\<close> gives.\<close>

definition window_title_save :: "cstr option \<Rightarrow> window_title \<Rightarrow> window_title" where
  "window_title_save title wt =
     (if \<not> wt_saved wt
      then case title of None \<Rightarrow> wt\<lparr>old_window_title := [], wt_saved := False\<rparr>
                       | Some s \<Rightarrow> wt\<lparr>old_window_title := s, wt_saved := True\<rparr>
      else wt)"

text \<open>The title that is set, if any.\<close>

definition window_title_restore :: "window_title \<Rightarrow> cstr option" where
  "window_title_restore wt = (if wt_saved wt then Some (old_window_title wt) else None)"

definition window_title_generate :: "mem \<Rightarrow> cstr option \<Rightarrow> fault + cstr \<times> mem" where
  "window_title_generate m title =
     bindE (alloc_buf_gc m 256 (Some gc_new))
       (\<lambda>(out, m1, gc). let t = (case title of None \<Rightarrow> [] | Some s \<Rightarrow> s) in
        bindE (buf_printf m1 out (Some ([91] @ t @ [93, 32] @ asc ''NetShare'' @ [32] @ asc ''0.1.0'' @ asc '' F4:EXIT F1:USR1 F2:USR2 F3:HUP'')))
       (\<lambda>(_, out1, m2). bindE (read_cstr m2 (buf_bptr out1))
       (\<lambda>s. bindE (gc_free m2 (the gc)) (\<lambda>(m3, _, _). Inr (s, m3)))))"

section \<open>DNS filters\<close>

text \<open>
  The globals \<open>m_hEngineHandle\<close>, \<open>tap_metric_v4\<close> and \<open>tap_metric_v6\<close>. The functions of the filters and of the interface
  metrics are not in the repository: what they return is an argument, and the metrics that are set are a result.
\<close>

record wfp =
  engine_handle :: nat
  tap_metric_v4 :: int
  tap_metric_v6 :: int

definition wfp_start :: wfp where "wfp_start = \<lparr>engine_handle = 0, tap_metric_v4 = -1, tap_metric_v6 = -1\<rparr>"

definition AF_INET_metric :: nat where "AF_INET_metric = 2"
definition AF_INET6_metric :: nat where "AF_INET6_metric = 23"

text \<open>\<open>ack\<close> is the error number in the answer of the service, if it answers.\<close>

definition win_block_dns_service :: "int option \<Rightarrow> bool" where
  "win_block_dns_service ack =
     (case send_msg_iservice (ack \<noteq> None) (the ack) of None \<Rightarrow> False | Some e \<Rightarrow> if e \<noteq> 0 then False else True)"

text \<open>A metric as \<open>get_interface_metric\<close> gives it, with the flag \<open>is_auto\<close>.\<close>

definition saved_metric :: "int \<times> int \<Rightarrow> int" where
  "saved_metric r = (case r of (metric, is_auto) \<Rightarrow> if is_auto \<noteq> 0 then 0 else metric)"

text \<open>
  \<open>path\<close> tells whether the path of the program is found, \<open>filters\<close> is the status of \<open>add_block_dns_filters\<close> with the engine
  handle it sets, \<open>v4\<close> and \<open>v6\<close> are the two metrics, \<open>set4\<close> is the status of setting the first.
\<close>

definition win_wfp_block_dns ::
  "int \<Rightarrow> int option option \<Rightarrow> bool \<Rightarrow> int \<times> nat \<Rightarrow> int \<times> int \<Rightarrow> int \<times> int \<Rightarrow> int \<Rightarrow> wfp \<Rightarrow> bool \<times> wfp \<times> (nat \<times> int) list" where
  "win_wfp_block_dns BLOCK_DNS_IFACE_METRIC channel path filters v4 v6 set4 w =
     (case channel of
        Some ack \<Rightarrow> (win_block_dns_service ack, w, [])
      | None \<Rightarrow>
          if \<not> path then (False, w, [])
          else let (status, h) = filters; w1 = w\<lparr>engine_handle := h\<rparr>
               in if status = 0
                  then (set4 = 0, w1\<lparr>tap_metric_v4 := saved_metric v4, tap_metric_v6 := saved_metric v6\<rparr>,
                        (AF_INET_metric, BLOCK_DNS_IFACE_METRIC) #
                        (if set4 = 0 then [(AF_INET6_metric, BLOCK_DNS_IFACE_METRIC)] else []))
                  else (False, w1, []))"

definition win_wfp_uninit :: "bool \<Rightarrow> wfp \<Rightarrow> bool \<times> wfp \<times> (nat \<times> int) list" where
  "win_wfp_uninit channel w =
     (if channel then (True, w, [])
      else (True, w\<lparr>engine_handle := 0\<rparr>,
            (if tap_metric_v4 w \<ge> 0 then [(AF_INET_metric, tap_metric_v4 w)] else []) @
            (if tap_metric_v6 w \<ge> 0 then [(AF_INET6_metric, tap_metric_v6 w)] else [])))"

text \<open>The interface metrics after some settings.\<close>

fun metrics_after :: "(nat \<Rightarrow> int) \<Rightarrow> (nat \<times> int) list \<Rightarrow> (nat \<Rightarrow> int)" where
  "metrics_after f [] = f"
| "metrics_after f ((fam, v) # vs) = metrics_after (f(fam := v)) vs"

text \<open>After blocking, removing the filters sets back the metrics there were: an automatic one is set to 0.\<close>

lemma wfp_metrics_restored:
  assumes "win_wfp_block_dns metric None path filters v4 v6 set4 wfp_start = (True, w, vs)"
    and "win_wfp_uninit False w = (r, w', vs')" and "saved_metric v4 \<ge> 0" and "saved_metric v6 \<ge> 0"
  shows "metrics_after (metrics_after f vs) vs' AF_INET_metric = saved_metric v4 \<and>
         metrics_after (metrics_after f vs) vs' AF_INET6_metric = saved_metric v6 \<and> engine_handle w' = 0"
  using assms
  by (auto simp: win_wfp_block_dns_def win_wfp_uninit_def wfp_start_def AF_INET_metric_def AF_INET6_metric_def Let_def split: if_splits prod.splits)

section \<open>Signals from the keyboard\<close>

text \<open>The first key that is pressed, and the records behind it; a read that fails ends the search.\<close>

definition pressed :: "input_record \<Rightarrow> bool" where "pressed ir \<longleftrightarrow> ir_event ir = KEY_EVENT \<and> ir_down ir"

fun first_key :: "input_record option list \<Rightarrow> input_record option \<times> input_record option list" where
  "first_key [] = (None, [])"
| "first_key (None # inp) = (None, inp)"
| "first_key (Some ir # inp) = (if pressed ir then (Some ir, inp) else first_key inp)"

definition on_console :: "win32_signal \<Rightarrow> bool" where
  "on_console ws \<longleftrightarrow> ws_mode ws = WSO_MODE_CONSOLE \<and> HANDLE_DEFINED (rwh_read (ws_in ws))"

lemma keyboard_loop_first:
  "on_console ws \<Longrightarrow>
     keyboard_loop ws inp = Inr (case first_key inp of (Some ir, rest) \<Rightarrow> (keyboard_ir_to_key ir, rest) | (None, rest) \<Rightarrow> (0, rest))"
proof (induction inp rule: first_key.induct)
  case (3 ir inp)
  then show ?case by (auto simp: on_console_def keyboard_input_available_def pressed_def split: option.splits prod.splits)
qed (auto simp: on_console_def keyboard_input_available_def)

text \<open>
  On a console the signal is that of the first key that is pressed, it is remembered, and from then on the same signal is
  reported without reading the keyboard.
\<close>

lemma console_signal:
  assumes "on_console ws" and "signal_received si = 0"
  shows "\<exists>si'. win32_signal_get signaled si ws inp =
           (case first_key inp of (k, rest) \<Rightarrow>
              Inr (case k of None \<Rightarrow> 0 | Some ir \<Rightarrow> key_signal (keyboard_ir_to_key ir), si', rest)) \<and>
         win32_signal_get signaled' si' ws [] =
           Inr (case fst (first_key inp) of None \<Rightarrow> 0 | Some ir \<Rightarrow> key_signal (keyboard_ir_to_key ir), si', [])"
proof -
  obtain k rest where f: "first_key inp = (k, rest)" by (cases "first_key inp")
  have z: "key_signal 0 = 0" by (simp add: key_signal_def)
  have m: "ws_mode ws = WSO_MODE_CONSOLE" "HANDLE_DEFINED (rwh_read (ws_in ws))" "WSO_MODE_CONSOLE \<noteq> WSO_MODE_SERVICE"
    using assms(1) by (simp_all add: on_console_def wso_defs)
  have g: "win32_keyboard_get ws inp = Inr (case k of None \<Rightarrow> 0 | Some ir \<Rightarrow> keyboard_ir_to_key ir, rest)"
    "win32_keyboard_get ws [] = Inr (0, [])"
    by (simp_all add: win32_keyboard_get_def m(1,2) keyboard_loop_first [OF assms(1)] f split: option.splits del: keyboard_loop.simps)
  show ?thesis
    unfolding win32_signal_get_def f
    by (cases k) (auto simp: assms(2) m(1,3) g z simp del: keyboard_loop.simps)
qed

text \<open>A semicolon on the keyboard is taken for F1, because its code is the scan code of that key, and so on to the greater-than sign for F4.\<close>

lemma semicolon_restarts:
  assumes "pressed ir" and "ir_ascii ir = 59" and "ir_control ir AND alt_pressed = 0" and "on_console ws" and "signal_received si = 0"
  shows "\<exists>si'. win32_signal_get signaled si ws [Some ir] = Inr (SIGUSR1, si', [])"
  using console_signal [OF assms(4,5), of signaled "[Some ir]"] assms(1-3)
  by (auto simp: keyboard_ir_to_key_def key_signal_def)

section \<open>Opening and closing\<close>

text \<open>The console mode after some calls.\<close>

fun mode_after :: "nat \<Rightarrow> 32 word \<Rightarrow> win_call list \<Rightarrow> 32 word" where
  "mode_after h md [] = md"
| "mode_after h md (Set_Console_Mode h' md' # cs) = mode_after h (if h' = h then md' else md) cs"
| "mode_after h md (c # cs) = mode_after h md cs"

text \<open>Whatever is opened, closing it puts the console back into its mode and leaves no event open.\<close>

lemma open_console_shape:
  assumes "signal_open_console an force ws = Inr (ws1, cs)" and "console_mode an = Some md" and "HANDLE_DEFINED (std_input an)"
    and "console_mode_save_defined ws = False"
  shows "(ws1 = ws \<and> cs = []) \<or>
         (rwh_read (ws_in ws1) = std_input an \<and> ws_mode ws1 = WSO_MODE_CONSOLE \<and>
          (console_mode_save_defined ws1 \<and> console_mode_save ws1 = md \<and> (\<exists>md'. cs = [Set_Console_Mode (std_input an) md']) \<or>
           \<not> console_mode_save_defined ws1 \<and> cs = []))"
proof (cases "force = WSO_NOFORCE \<or> force = WSO_FORCE_CONSOLE")
  case False
  then show ?thesis using assms(1) by (simp add: signal_open_console_def)
next
  case True
  have h: "std_input an \<noteq> INVALID_HANDLE_VALUE" using assms(3) by (simp add: HANDLE_DEFINED_def)
  show ?thesis
    using assms(1) assms(4) True unfolding signal_open_console_def Let_def assms(2) option.case
    by (simp add: h split: if_splits) auto
qed

lemma open_service_shape:
  assumes "signal_open_service an force name ws = Inr (ws1, cs)"
  shows "(ws1 = ws \<and> cs = []) \<or>
         (\<not> HANDLE_DEFINED (rwh_read (ws_in ws)) \<and> rwh_read (ws_in ws1) = exit_event an \<and>
          console_mode_save_defined ws1 = console_mode_save_defined ws \<and>
          (exit_event an = 0 \<and> ws_mode ws1 = ws_mode ws \<and> cs = [] \<or>
           exit_event an \<noteq> 0 \<and> ws_mode ws1 = WSO_MODE_SERVICE \<and> cs = [Create_Event (exit_event an)]))"
  using assms unfolding signal_open_service_def Let_def by (auto split: if_splits)

lemma signals_restored:
  assumes "win32_signal_open an force name = Inr (ws, cs)" and "win32_signal_close True ws = Inr (ws', cs')"
    and "console_mode an = Some md" and "HANDLE_DEFINED (std_input an)" and "exit_event an \<noteq> INVALID_HANDLE_VALUE"
  shows "mode_after (std_input an) md (cs @ cs') = md \<and> open_after {} (cs @ cs') = {} \<and> ws' = win32_signal_clear"
proof -
  let ?ws0 = "win32_signal_clear\<lparr>ws_mode := WSO_MODE_UNDEF,
      ws_in := \<lparr>rwh_read = INVALID_HANDLE_VALUE, rwh_write = INVALID_HANDLE_VALUE\<rparr>\<rparr>"
  obtain ws1 cs1 cs2 where o: "signal_open_console an force ?ws0 = Inr (ws1, cs1)"
      "signal_open_service an force name ws1 = Inr (ws, cs2)" "cs = cs1 @ cs2"
    using assms(1) by (auto simp: win32_signal_open_def bindE_Inr_iff)
  have z: "console_mode_save_defined ?ws0 = False" "ws_mode ?ws0 = WSO_MODE_UNDEF" "rwh_read (ws_in ?ws0) = INVALID_HANDLE_VALUE"
    by (simp_all add: win32_signal_clear_def)
  have n: "WSO_MODE_CONSOLE \<noteq> WSO_MODE_SERVICE" "WSO_MODE_UNDEF \<noteq> WSO_MODE_SERVICE" by (simp_all add: wso_defs)
  note c = open_console_shape [OF o(1) assms(3,4) z(1)] and s = open_service_shape [OF o(2)]
  note close = assms(2) [unfolded win32_signal_close_def Let_def]
  from c show ?thesis
  proof
    assume "ws1 = ?ws0 \<and> cs1 = []"
    then show ?thesis using s close assms(4,5) z n o(3) by (auto simp: HANDLE_DEFINED_def)
  next
    assume a: "rwh_read (ws_in ws1) = std_input an \<and> ws_mode ws1 = WSO_MODE_CONSOLE \<and>
          (console_mode_save_defined ws1 \<and> console_mode_save ws1 = md \<and> (\<exists>md'. cs1 = [Set_Console_Mode (std_input an) md']) \<or>
           \<not> console_mode_save_defined ws1 \<and> cs1 = [])"
    then have "ws = ws1" "cs2 = []" using s assms(4) by auto
    then show ?thesis using a close n o(3) by (auto split: if_splits)
  qed
qed

end
