(* ===== verification/Spec2Isabelle.thy ===== *)
theory Spec2Isabelle
  imports Integer C_Strings Gc Buffer_Laws Text_Laws Buffer_List_Laws Buffer_Aggregate Decimal
    Otime Interval Env_Laws Argv_Laws Signals Mtu Socks_Laws
    Addr_Text Overlapped Wintun_Ring Link_Socket
    Event_Laws Tun_Laws Misc_Laws Error_Laws Status_Laws Perf_Laws Sock_Accept
    Proxy_Connect Win32_Execve Win32_Semaphore Win32_Console
begin

text \<open>
  A verification library for the C code of the repository: the support library in
  src/Treiber/lib (the OpenVPN code base the tunnel driver is built from).

  The program. The driver moves packets between a TUN/TAP device and sockets. The C library
  below it has three layers. The bottom layer is memory: integer.h (checked arithmetic),
  buffer.c and buffer.h (buffers with headroom, arenas, strings, character classes, lists of
  buffers). On it stand the services: otime and interval (clock, timers), env_set and argv (the
  environment and the command lines of helper programs), sig (signals and the exit
  notification), mtu (frame sizes). On top are the transports: socks.c (SOCKS 5 client),
  socket.c, proxy.c, tun.c. The components call each other directly; packets pass between them
  as buffers whose content is extended in front (headroom) by each protocol layer.

  The theories.
  \<^item> Prelude and C_Memory are the C language: faults as values (a memory fault, a failed
    ASSERT, a fatal error, a division by zero, memory exhausted), bytes, and a memory of blocks
    with pointers (block, offset). Every read or write outside its block is the value
    Inl MemFault, so a theorem that an operation returns Inr also says that it stays inside its
    memory. malloc can fail (the predicate oom) and returns junk. free and double free are checked.
  \<^item> Integer: integer.h and array_mult_safe. C_Strings: char_class, string_mod and the other
    in-place string functions on byte arrays. Gc: arenas. Decimal: what %d, %ld, %02d print and
    atoi reads.
  \<^item> Buffer and Buffer_Laws: struct buffer, its invariant buf_inv and its content, and the
    interface byte_window (put appends, get takes from the front), interpreted on the model.
    Buffer_Text and Text_Laws: formatted output, parsing, hex dumps, argument lists, files; the
    interface text_sink (printing appends up to a limit), interpreted on buf_printf.
  \<^item> Buffer_List, Buffer_List_Laws and Buffer_Aggregate: the linked list of buffers on a heap of
    entries, its representation relation bl_rep to the list of its messages, the interface fifo
    with a producer and a consumer, interpreted on push, peek and pop; aggregation.
  \<^item> Otime and Interval: clock with backtrack protection, struct timeval (an instance of
    linorder), rate limit, intervals, event timeouts.
  \<^item> Env_Set and Env_Laws: environment sets, the interface env_store (a map from names),
    interpreted on add and delete. Argv and Argv_Laws: argument vectors and argv_printf.
  \<^item> Signals: sig.c, and the signal and exit-notification state machine as a step relation with
    its reachable states. Mtu: mtu.h and mtu.c.
  \<^item> Socks and Socks_Laws: socks.c; the connection is a list of the events the code sees.
  \<^item> Sock_Addr and Addr_Text: the addresses of socket.c and socket.h as family and bytes, protocol
    tables, peer checks, and the texts of addresses.
  \<^item> Overlapped: struct overlapped_io of win32.h, its life cycle as a step relation, and the TAP
    data path of tun.c. Wintun_Ring: the rings of ring_buffer.h and tun.h, their representation
    relation to a list of packets, and the interface bounded_queue interpreted on writing and reading
    (a packet longer than the room of the reader is lost, as in the code).
  \<^item> Stream_Buf: the packet framing of socket.c, with the reference parser frames. Link_Socket:
    asynchronous receive and send operations, link_socket_read and link_socket_write, and a TCP
    session that runs them turn by turn; tcp_writes is a run of writes on one socket, each in the
    state the one before has left.
  \<^item> Event_Set and Event_Laws: the event sets of event.c on WSAWaitForMultipleEvents, poll and
    select, and the interface event_backend, interpreted on each of them.
  \<^item> Tun_Dhcp: the DHCP options of tun.c with parsers that read them back. Tun_Config and Tun_Laws:
    init_tun, the address checks and the search for an adapter. Proto_Hdr: proto.h, checksums.
  \<^item> Misc and Misc_Laws: misc.c, which cleans text from the peer before it is logged or put into the
    environment, builds argument arrays, collects credentials and takes challenges apart.
  \<^item> Error_Log and Error_Laws: error.c, the log as lists of lines, with levels, muting and exit. The
    other theories do not use it: there a fatal message is the fault Fatal.
  \<^item> Status and Status_Laws: status.c, a status file as its content and a position, written and
    read line by line. Perf and Perf_Laws: perf.c, the stack of performance meters.
  \<^item> Proxy, Proxy_Laws, Proxy_Steps and Proxy_Connect: proxy.c (proto.c is a byte copy), the
    parameters of challenges and the CONNECT exchange with its lines, retries and lookahead buffer.
    Its steps have contracts (good_step, gives_reply) and one rule for sequencing them.
  \<^item> Win32_Exec, Win32_Laws and Win32_Execve: the processes of win32.c. Device names, the environment
    block, and the command line, with the rule by which a program splits it again. Win32_Events: the
    events of a socket and the signals, as calls on handles. Win32_Semaphore: the semaphore around
    network commands, and any number of processes that use it at once. Win32_Console: keys as signals,
    the console mode, the window title, DNS filters.
  \<^item> Resolve and Resolve_Laws: the resolver of socket.c with its retries, prefix lengths and the cache
    of names; results are numbered allocations, so a list that is lost or freed twice is seen.
    Sock_Setup, Sock_Setup_Laws and Sock_Accept: both phases of setting a link socket up, over a world
    that keeps the open descriptors. The relation owns says which of them belong to the socket.

  Conventions. A C function keeps its name; its loops are recursive functions named after it;
  the parameters it changes are returned. Global variables (now, script_security) are
  arguments. The environment (what select, recv, gettimeofday, fopen deliver) is an argument,
  quantified in the theorems. A formatted print takes the expanded text. Integers are
  mathematical where the proofs show that the C value does not leave its range
  (buf_safe_no_overflow) and words or explicit conversions where it can (adjust_power_of_2,
  array_mult_safe, unsigned additions to frame members, size_t sums of the aggregation). Counters
  of type int that only events from outside bound (f_n of the rate limit, mute_count) go through
  to_int after each step, and the theorems about them bound the number of events. Loops
  need no fuel: they are structural, or their termination is proved; the scan of a linked list
  has the number of heap entries as fuel, which the lemma chain_length shows to be enough. The only
  loop that may run forever is the server that waits for its peer: accept_loop has a bound on its
  turns and the value None while it still waits, and its lemmas hold for every bound. A loop that
  receives from a proxy runs over a finite list of events, after which select times out: that it ends is
  built in, and where it is a statement (socks_reply_checked, at most 262 turns) the bound does not
  depend on the list. Memory that another party changes at any time is an argument for each fetch:
  read_wintun has one for what the size of a packet is at its second and at its third reading.

  What the lemmas show. For each component: its invariant and that every operation keeps it;
  the result of every operation on every branch; absence of faults. The properties C1 to C40
  stand in the theories of their components under the heading Properties, and those that span
  components in this theory. Some state defects of the code exactly: tv_add loses microseconds,
  the SOCKS authentication accepts refusals, a long host name gets a wrong length byte.

  Not modelled. Calls into the operating system (configuration in tun.c, platform.c, start-up in
  win32.c; what the resolver and the socket calls return is an argument), the C++ and C# programs, and
  the cryptography of the HTTP proxy client (its headers are not in the repository).
\<close>

section \<open>Properties across components\<close>

text \<open>
  C39: Whatever the proxy and the network do, and for every host name, setting up the tunnel returns
  without a memory fault: no access leaves the 516-byte array of the authentication, the 270-byte
  array in which the connect request is put together, or the 270-byte array of the reply. If there was
  no signal before, then no signal is left exactly if the handshake succeeded, the port was known, the
  whole connect request was sent and the proxy's reply was accepted. Otherwise a signal is left: the
  restart signal SIGUSR1 or one that came in while a receive loop was running. What the network does is a
  finite list of events, so that the loops end is not a statement of this theorem.
\<close>

theorem socks_passthru_returns:
  assumes "516 \<le> length arr" and "length req = 270" and "length buf = 270" and "sp_authfile p \<noteq> []"
    and "cn_signal io = 0"
  shows "\<exists>io'. establish_socks_proxy_passthru p creds arr req buf host servname service io = Inr io' \<and>
     (cn_signal io' = 0 \<longleftrightarrow>
        port_from_servname service servname \<noteq> 0 \<and>
        (\<exists>io1 io2 a io3. socks_handshake p creds arr io = Inr (True, io1) \<and>
           sock_send io1 (connect_message host (port_from_servname service servname)) =
             (int (length (connect_message host (port_from_servname service servname))), io2) \<and>
           recv_socks_reply io2 buf False = Inr ((True, a), io3))) \<and>
     (cn_signal io' \<noteq> 0 \<longrightarrow> cn_signal io' = SIGUSR1 \<or> cn_signal io' \<in> ev_signal ` set (cn_events io))"
proof -
  let ?port = "port_from_servname service servname"
  let ?msg = "connect_message host ?port" and ?n = "min (length host) 263"
  obtain ok io1 where h: "socks_handshake p creds arr io = Inr (ok, io1)"
    using socks_handshake_total [OF assms(1,4)] by blast
  obtain arr1 arr2 where q: "connect_request req host = Inr (?n, arr1)" "connect_request_port arr1 ?n ?port = Inr arr2"
      "arr_take arr2 (5 + ?n + 2) = Inr ?msg"
    using connect_request_spec [OF assms(2)] .
  obtain sz io2 where s: "sock_send io1 ?msg = (sz, io2)" by (cases "sock_send io1 ?msg")
  obtain r a io3 where r: "recv_socks_reply io2 buf False = Inr ((r, a), io3)"
    using recv_socks_reply_total [OF assms(3)] by blast
  have runs: "runs_on io io1" "runs_on io io2" "runs_on io io3"
    using handshake_runs_on [OF h] send_runs_on [OF s] reply_runs_on [OF r] runs_on_trans by blast+
  have err: "cn_signal (socks_error x) \<noteq> 0 \<and>
      (cn_signal (socks_error x) = SIGUSR1 \<or> cn_signal (socks_error x) \<in> ev_signal ` set (cn_events io))"
    if "runs_on io x" for x
    using that assms(5) socks_error_signal [of x] by (auto simp: runs_on_def socks_error_def)
  have len: "int (length ?msg) = 5 + int ?n + 2" by (rule connect_message_length)
  show ?thesis
  proof (cases "ok \<and> ?port \<noteq> 0 \<and> sz = int (length ?msg) \<and> r")
    case True
    then have "establish_socks_proxy_passthru p creds arr req buf host servname service io = Inr io3"
      using h q s r len by (simp add: establish_socks_proxy_passthru_def Let_def)
    moreover have "cn_signal io3 = 0" using reply_success_signal [of io2 buf False a io3] r True by simp
    ultimately show ?thesis using True h s r by auto
  next
    case False
    then obtain x where "establish_socks_proxy_passthru p creds arr req buf host servname service io = Inr (socks_error x)"
        "runs_on io x"
      using h q s r len runs by (cases "ok"; cases "?port = 0"; cases "sz = int (length ?msg)"; cases r)
        (auto simp: establish_socks_proxy_passthru_def Let_def)
    then show ?thesis using err False h s r by auto
  qed
qed

theorem socks_passthru_returns_witness:
  "\<exists>io'. establish_socks_proxy_passthru
     \<lparr>sp_defined = True, sp_server = [], sp_port = [], sp_authfile = [0]\<rparr> None (replicate 516 0) (replicate 270 0)
     (replicate 270 0) (asc ''host'') (asc ''0'') None
     \<lparr>cn_events = [], cn_sends = [], cn_sent = [], cn_signal = 0\<rparr> = Inr io' \<and> cn_signal io' = SIGUSR1"
proof -
  let ?p = "\<lparr>sp_defined = True, sp_server = [], sp_port = [], sp_authfile = [0]\<rparr>"
  let ?io = "\<lparr>cn_events = [], cn_sends = [], cn_sent = [], cn_signal = 0\<rparr>"
  have "port_from_servname None (asc ''0'') = 0" by (simp add: port_from_servname_def c_atoi_def asc_def)
  moreover have "516 \<le> length (replicate 516 (0 :: byte))" and "length (replicate 270 (0 :: byte)) = 270"
    and "sp_authfile ?p \<noteq> []" and "cn_signal ?io = 0"
    by simp_all
  ultimately show ?thesis
    using socks_passthru_returns [of "replicate 516 0" "replicate 270 0" "replicate 270 0" ?p ?io None "asc ''host''" "asc ''0''" None]
    by auto
qed

end
